(* ===== verification/Kernel_Prelude.thy ===== *)
theory Kernel_Prelude
  imports Main "HOL-Library.Word" "HOL-Library.Signed_Division"
begin

text \<open>
  Shared vocabulary of the development: C integer types, the errno values and the
  error-pointer convention of the kernel, the result type of code that may fault, checked
  array accesses, and the generic facts on lists, sums and words that the component theories
  use through the simplifier and the collections declared here.
\<close>

unbundle bit_operations_syntax

named_theorems kfault_simps \<open>evaluation rules of checked memory accesses\<close>

section \<open>C integers\<close>

type_synonym u8 = "8 word"
type_synonym u16 = "16 word"
type_synonym u32 = "32 word"
type_synonym u64 = "64 word"

text \<open>A C \<open>int\<close> kept at its width; \<open>sint\<close> reads its value.\<close>
type_synonym s32 = "32 word"

text \<open>Kernel addresses; address 0 is \<open>NULL\<close>.\<close>
type_synonym addr = nat

abbreviation (input) NULL :: addr where "NULL \<equiv> 0"

section \<open>Error numbers\<close>

abbreviation (input) EPERM :: int where "EPERM \<equiv> 1"
abbreviation (input) ENOENT :: int where "ENOENT \<equiv> 2"
abbreviation (input) ESRCH :: int where "ESRCH \<equiv> 3"
abbreviation (input) EINTR :: int where "EINTR \<equiv> 4"
abbreviation (input) E2BIG :: int where "E2BIG \<equiv> 7"
abbreviation (input) EBADF :: int where "EBADF \<equiv> 9"
abbreviation (input) EAGAIN :: int where "EAGAIN \<equiv> 11"
abbreviation (input) ENOMEM :: int where "ENOMEM \<equiv> 12"
abbreviation (input) EACCES :: int where "EACCES \<equiv> 13"
abbreviation (input) EFAULT :: int where "EFAULT \<equiv> 14"
abbreviation (input) EBUSY :: int where "EBUSY \<equiv> 16"
abbreviation (input) EEXIST :: int where "EEXIST \<equiv> 17"
abbreviation (input) ENODEV :: int where "ENODEV \<equiv> 19"
abbreviation (input) ENOTDIR :: int where "ENOTDIR \<equiv> 20"
abbreviation (input) EINVAL :: int where "EINVAL \<equiv> 22"
abbreviation (input) EFBIG :: int where "EFBIG \<equiv> 27"
abbreviation (input) ENOSPC :: int where "ENOSPC \<equiv> 28"
abbreviation (input) ENAMETOOLONG :: int where "ENAMETOOLONG \<equiv> 36"
abbreviation (input) ENOSYS :: int where "ENOSYS \<equiv> 38"
abbreviation (input) ERESTARTNOINTR :: int where "ERESTARTNOINTR \<equiv> 513"
abbreviation (input) ENOPARAM :: int where "ENOPARAM \<equiv> 519"
abbreviation (input) MAX_ERRNO :: int where "MAX_ERRNO \<equiv> 4095"

text \<open>
  The error-pointer convention: the last 4095 values of an \<open>unsigned long\<close> encode a negative
  error number.
\<close>

definition IS_ERR_VALUE :: "u64 \<Rightarrow> bool" where
  "IS_ERR_VALUE x \<longleftrightarrow> - 4095 \<le> x"

text \<open>Zero extension keeps the value.\<close>

lemma unat_ucast_u32_u64 [simp]: "unat (ucast (w :: u32) :: u64) = unat w"
proof -
  have "unat w < 2 ^ 32" using unsigned_less [of w] by simp
  then show ?thesis by (simp add: unsigned_ucast_eq take_bit_nat_eq_self)
qed

section \<open>Results of code that may fault\<close>

text \<open>
  A memory access outside an object, through \<open>NULL\<close> or through a pointer to freed memory has
  no defined result; the models make it a value of the error side of a sum.
\<close>

datatype kfault =
    NullDeref
  | BadAddr addr
  | OutOfBounds int
  | SelfDeadlock

type_synonym 'a kres = "kfault + 'a"

definition rbind :: "'e + 'a \<Rightarrow> ('a \<Rightarrow> 'e + 'b) \<Rightarrow> 'e + 'b" where
  "rbind m f = (case m of Inl e \<Rightarrow> Inl e | Inr x \<Rightarrow> f x)"

definition array_get :: "'a list \<Rightarrow> int \<Rightarrow> 'a kres" where
  "array_get xs i = (if 0 \<le> i \<and> i < int (length xs) then Inr (xs ! nat i) else Inl (OutOfBounds i))"

definition array_set :: "'a list \<Rightarrow> int \<Rightarrow> 'a \<Rightarrow> 'a list kres" where
  "array_set xs i x =
     (if 0 \<le> i \<and> i < int (length xs) then Inr (xs[nat i := x]) else Inl (OutOfBounds i))"

lemma rbind_Inl [simp, kfault_simps]: "rbind (Inl e) f = Inl e"
  by (simp add: rbind_def)

lemma rbind_Inr [simp, kfault_simps]: "rbind (Inr x) f = f x"
  by (simp add: rbind_def)

lemma rbind_eq_Inr_iff: "rbind m f = Inr y \<longleftrightarrow> (\<exists>x. m = Inr x \<and> f x = Inr y)"
  by (cases m) auto

lemma rbind_eq_Inl_iff: "rbind m f = Inl e \<longleftrightarrow> m = Inl e \<or> (\<exists>x. m = Inr x \<and> f x = Inl e)"
  by (cases m) auto

lemma array_get_in [kfault_simps]:
  "0 \<le> i \<Longrightarrow> i < int (length xs) \<Longrightarrow> array_get xs i = Inr (xs ! nat i)"
  by (simp add: array_get_def)

lemma array_get_out [kfault_simps]:
  "i < 0 \<or> int (length xs) \<le> i \<Longrightarrow> array_get xs i = Inl (OutOfBounds i)"
  by (auto simp: array_get_def)

lemma array_set_in [kfault_simps]:
  "0 \<le> i \<Longrightarrow> i < int (length xs) \<Longrightarrow> array_set xs i x = Inr (xs[nat i := x])"
  by (simp add: array_set_def)

section \<open>Lists updated by an index loop\<close>

text \<open>A C loop \<open>for (i = 0; i < n; i++) a[i] = x;\<close> over an array of length \<open>n\<close>.\<close>

definition fill_loop :: "nat \<Rightarrow> 'a \<Rightarrow> 'a list \<Rightarrow> 'a list" where
  "fill_loop n x xs = foldl (\<lambda>ys i. ys[i := x]) xs [0..<n]"

lemma fill_loop_eq:
  "n \<le> length xs \<Longrightarrow> fill_loop n x xs = replicate n x @ drop n xs"
proof (induction n)
  case 0
  then show ?case by (simp add: fill_loop_def)
next
  case (Suc n)
  then have IH: "fill_loop n x xs = replicate n x @ drop n xs" by simp
  have "fill_loop (Suc n) x xs = (replicate n x @ drop n xs)[n := x]"
    using IH by (simp add: fill_loop_def)
  also have "\<dots> = replicate n x @ x # drop (Suc n) xs"
    using Suc.prems by (simp add: list_update_append Cons_nth_drop_Suc [symmetric])
  also have "\<dots> = replicate (Suc n) x @ drop (Suc n) xs"
    by (simp add: replicate_append_same)
  finally show ?case .
qed

lemma fill_loop_length: "length xs = n \<Longrightarrow> fill_loop n x xs = replicate n x"
  by (simp add: fill_loop_eq)

lemma list_update_restore: "i < length xs \<Longrightarrow> xs ! i = x \<Longrightarrow> xs[i := y, i := x] = xs"
  by (simp add: list_update_same_conv)

lemma find_SomeD: "find P xs = Some x \<Longrightarrow> x \<in> set xs \<and> P x"
  by (auto simp: find_Some_iff)

lemma in_set_concat_nth: "i < length xss \<Longrightarrow> x \<in> set (xss ! i) \<Longrightarrow> x \<in> set (concat xss)"
  by auto

lemma in_set_concat_nthE:
  assumes "x \<in> set (concat xss)"
  obtains i where "i < length xss" "x \<in> set (xss ! i)"
  using assms by (metis UN_E in_set_conv_nth set_concat)

lemma set_concat_push:
  "i < length xss \<Longrightarrow> set (concat (xss[i := x # xss ! i])) \<subseteq> insert x (set (concat xss))"
  using set_update_subset_insert [of xss i "x # xss ! i"] nth_mem [of i xss] by fastforce

section \<open>Pages and aligned words\<close>

lemma unat_u64_less: "unat (w :: u64) < 2 ^ 64"
proof -
  have "unat w < 2 ^ LENGTH(64)" by (rule unsigned_less)
  then show ?thesis by simp
qed

lemma sint_neg_u64: "2 ^ 63 \<le> unat (w :: u64) \<Longrightarrow> sint w < 0"
proof -
  assume h: "2 ^ 63 \<le> unat w"
  have "unat w div 2 ^ 63 = 1"
    using h unat_u64_less [of w] by (intro div_nat_eqI) simp_all
  then have "bit (unat w) 63" by (simp add: bit_iff_odd)
  then have "bit w (LENGTH(64) - Suc 0)" by (simp add: bit_unsigned_iff)
  then show "sint w < 0" by (simp only: bit_last_iff)
qed

lemma unat_u32_less: "unat (w :: u32) < 2 ^ 32"
proof -
  have "unat w < 2 ^ LENGTH(32)" by (rule unsigned_less)
  then show ?thesis by simp
qed

lemma push_or_mask: "push_bit n p OR (x AND mask n) = push_bit n p + (x AND mask n)" for p x :: "'a::len word"
proof -
  have "push_bit n p AND (x AND mask n) = 0"
    by (rule bit_word_eqI) (auto simp: bit_and_iff bit_push_bit_iff bit_mask_iff)
  then show ?thesis by (simp add: disjunctive_add_eq_or)
qed

lemma page_split: "push_bit n (drop_bit n x) + (x AND mask n) = x" for x :: "'a::len word"
  by (simp add: bits_ident flip: take_bit_eq_mask)

lemma unat_page_number: "unat (drop_bit n x) = unat x div 2 ^ n" for x :: "'a::len word"
  by (simp only: unat_drop_bit_eq drop_bit_eq_div [of n "unat x"])

lemma unat_page_address: "unat V * 2 ^ n < 2 ^ LENGTH('a) \<Longrightarrow> unat (push_bit n V) = unat V * 2 ^ n" for V :: "'a::len word"
  by (simp only: unsigned_push_bit_eq push_bit_eq_mult [of n "unat V"] take_bit_nat_eq_self)

lemma drop_push_add:
  fixes V x :: "'a::len word"
  assumes "unat V * 2 ^ n + unat x < 2 ^ LENGTH('a)"
  shows "drop_bit n (push_bit n V + x) = V + drop_bit n x"
proof -
  have p: "unat (push_bit n V) = unat V * 2 ^ n" using assms by (intro unat_page_address) simp
  then have s: "unat (push_bit n V + x) = unat V * 2 ^ n + unat x" using assms unat_add_lem [of "push_bit n V" x] by simp
  have "unat V + unat x div 2 ^ n = (unat V * 2 ^ n + unat x) div 2 ^ n" by simp
  also have "\<dots> \<le> unat V * 2 ^ n + unat x" by (rule div_le_dividend)
  also have "\<dots> < 2 ^ LENGTH('a)" by (rule assms)
  finally have "unat (V + drop_bit n x) = unat V + unat x div 2 ^ n"
    by (metis unat_page_number unat_add_lem)
  then have "unat (drop_bit n (push_bit n V + x)) = unat (V + drop_bit n x)"
    by (simp only: unat_page_number s) simp
  then show ?thesis by (rule unsigned_word_eqI)
qed

lemma mask_push_add:
  fixes V x :: "'a::len word"
  assumes "unat V * 2 ^ n + unat x < 2 ^ LENGTH('a)"
  shows "(push_bit n V + x) AND mask n = x AND mask n"
proof -
  have p: "unat (push_bit n V) = unat V * 2 ^ n" using assms by (intro unat_page_address) simp
  then have s: "unat (push_bit n V + x) = unat V * 2 ^ n + unat x"
    using assms unat_add_lem [of "push_bit n V" x] by simp
  have m: "unat (w AND mask n) = unat w mod 2 ^ n" for w :: "'a word"
    by (simp only: take_bit_eq_mask [symmetric] unsigned_take_bit_eq take_bit_eq_mod [of n "unat w"])
  have "unat ((push_bit n V + x) AND mask n) = unat (x AND mask n)" by (simp add: m s)
  then show ?thesis by (rule unsigned_word_eqI)
qed

lemma unat_and_not_mask: "unat (x AND NOT (mask n)) = unat x div 2 ^ n * 2 ^ n" for x :: "'a::len word"
proof -
  have eq: "x AND NOT (mask n) = push_bit n (drop_bit n x)"
    by (rule bit_word_eqI) (auto simp: bit_and_iff bit_not_iff bit_mask_iff bit_push_bit_iff bit_drop_bit_eq)
  have "unat x div 2 ^ n * 2 ^ n \<le> unat x" by simp
  also have "\<dots> < 2 ^ LENGTH('a)" by (rule unsigned_less)
  finally show ?thesis unfolding eq by (subst unat_page_address) (simp_all only: unat_page_number)
qed

lemma and_not_clear:
  fixes x :: "'a::len word"
  assumes "c AND NOT u = 0" "f AND (u OR w) = 0"
  shows "((x AND NOT c) AND NOT w) AND f = x AND f"
proof (rule bit_word_eqI)
  fix n assume n: "n < LENGTH('a)"
  have "bit (c AND NOT u) n = False" "bit (f AND (u OR w)) n = False" using assms by simp_all
  then show "bit (((x AND NOT c) AND NOT w) AND f) n = bit (x AND f) n"
    using n by (auto simp: bit_and_iff bit_or_iff bit_not_iff)
qed

end
