(* ===== verification/Task_Struct.thy ===== *)
theory Task_Struct
  imports Kernel_Prelude
begin

text \<open>
  The part of \<open>struct task_struct\<close> (include/linux/sched.h) that the modelled code reads or
  writes, and the task flags of the same header. Pointers are addresses; the five fields from
  \<open>kv_store\<close> to \<open>socket_count\<close> are the ones this kernel adds. Fields whose names are too
  general for a constant carry the prefix \<open>task_\<close>.
\<close>

record task_struct =
  task_state :: u32
  kv_store :: addr
  kv_locks :: addr
  max_socket_allowed :: s32
  priority_level :: s32
  socket_count :: s32
  task_stack :: addr
  task_usage :: nat
  task_flags :: u32
  task_mm :: addr
  active_mm :: addr
  exit_signal :: s32
  pdeath_signal :: s32
  pid :: s32
  tgid :: s32
  real_parent :: addr
  group_leader :: addr
  vfork_done :: addr
  set_child_tid :: u64
  clear_child_tid :: u64
  task_fs :: addr
  task_files :: addr
  task_nsproxy :: addr
  task_signal :: addr
  task_sighand :: addr
  task_blocked :: u64
  sas_ss_sp :: u64
  parent_exec_id :: u64
  self_exec_id :: u64
  task_io_context :: addr
  seccomp_mode :: s32
  seccomp_filter :: addr
  no_new_privs :: bool
  work_seccomp :: bool
  rcu_users :: nat
  stack_refcount :: nat

abbreviation (input) TASK_DEAD :: u32 where "TASK_DEAD \<equiv> 0x80"
abbreviation (input) PF_IDLE :: u32 where "PF_IDLE \<equiv> 0x2"
abbreviation (input) PF_IO_WORKER :: u32 where "PF_IO_WORKER \<equiv> 0x10"
abbreviation (input) PF_WQ_WORKER :: u32 where "PF_WQ_WORKER \<equiv> 0x20"
abbreviation (input) PF_FORKNOEXEC :: u32 where "PF_FORKNOEXEC \<equiv> 0x40"
abbreviation (input) PF_SUPERPRIV :: u32 where "PF_SUPERPRIV \<equiv> 0x100"
abbreviation (input) PF_NPROC_EXCEEDED :: u32 where "PF_NPROC_EXCEEDED \<equiv> 0x1000"
abbreviation (input) PF_KTHREAD :: u32 where "PF_KTHREAD \<equiv> 0x200000"
abbreviation (input) PF_NO_SETAFFINITY :: u32 where "PF_NO_SETAFFINITY \<equiv> 0x4000000"

text \<open>A zeroed \<open>task_struct\<close>.\<close>

definition task_zero :: task_struct where
  "task_zero = \<lparr>task_state = 0, kv_store = NULL, kv_locks = NULL, max_socket_allowed = 0, priority_level = 0,
     socket_count = 0, task_stack = NULL, task_usage = 0, task_flags = 0, task_mm = NULL, active_mm = NULL,
     exit_signal = 0, pdeath_signal = 0, pid = 0, tgid = 0, real_parent = NULL, group_leader = NULL, vfork_done = NULL,
     set_child_tid = 0, clear_child_tid = 0, task_fs = NULL, task_files = NULL, task_nsproxy = NULL,
     task_signal = NULL, task_sighand = NULL, task_blocked = 0, sas_ss_sp = 0, parent_exec_id = 0, self_exec_id = 0,
     task_io_context = NULL, seccomp_mode = 0, seccomp_filter = NULL, no_new_privs = False, work_seccomp = False, rcu_users = 0, stack_refcount = 0\<rparr>"

lemma task_zero_sel [simp]:
  "kv_store task_zero = NULL" "kv_locks task_zero = NULL" "max_socket_allowed task_zero = 0"
  "priority_level task_zero = 0" "socket_count task_zero = 0" "pid task_zero = 0" "tgid task_zero = 0"
  by (simp_all add: task_zero_def)

end
