(* ===== verification/KV_Store.thy ===== *)
theory KV_Store
  imports Task_Struct
begin

text \<open>
  The per-process key-value store: the fields added to \<open>task_struct\<close> (include/linux/sched.h),
  the allocation and release of the bucket and lock arrays (kernel/fork.c), the system calls
  \<open>write_kv\<close> and \<open>read_kv\<close> (kernel/kv_store.c) and the user-space wrappers
  (user/kv_syscall/kv.h).

  The arrays and the list nodes live in one kernel heap, so that a dangling pointer, a \<open>NULL\<close>
  pointer and an index outside an array are faults of the model. A bucket is the list of the
  addresses of its nodes, in list order. \<open>kmalloc\<close> is a parameter: \<open>None\<close> is a failed
  allocation.
\<close>

section \<open>Data\<close>

record kv_node =
  kvn_key :: s32
  kvn_value :: s32

datatype kobj =
    KBuckets "addr list list"
  | KSpinlocks "bool list"
  | KNode kv_node

type_synonym kheap = "addr \<Rightarrow> kobj option"

text \<open>The result of an allocation in a given heap.\<close>
type_synonym kmalloc_fn = "kheap \<Rightarrow> addr option"

abbreviation (input) KV_BUCKETS :: nat where "KV_BUCKETS \<equiv> 1024"

section \<open>Checked memory accesses\<close>

definition deref_buckets :: "addr \<Rightarrow> kheap \<Rightarrow> addr list list kres" where
  "deref_buckets p h = (if p = NULL then Inl NullDeref else
     case h p of Some (KBuckets bs) \<Rightarrow> Inr bs | _ \<Rightarrow> Inl (BadAddr p))"

definition deref_locks :: "addr \<Rightarrow> kheap \<Rightarrow> bool list kres" where
  "deref_locks p h = (if p = NULL then Inl NullDeref else
     case h p of Some (KSpinlocks ls) \<Rightarrow> Inr ls | _ \<Rightarrow> Inl (BadAddr p))"

definition deref_node :: "addr \<Rightarrow> kheap \<Rightarrow> kv_node kres" where
  "deref_node p h = (if p = NULL then Inl NullDeref else
     case h p of Some (KNode n) \<Rightarrow> Inr n | _ \<Rightarrow> Inl (BadAddr p))"

text \<open>Taking a lock that is already held never returns when nobody else runs.\<close>

definition spin_lock :: "addr \<Rightarrow> int \<Rightarrow> kheap \<Rightarrow> kheap kres" where
  "spin_lock p i h = rbind (deref_locks p h) (\<lambda>ls. rbind (array_get ls i) (\<lambda>held.
     if held then Inl SelfDeadlock
     else rbind (array_set ls i True) (\<lambda>ls'. Inr (h(p \<mapsto> KSpinlocks ls')))))"

definition spin_unlock :: "addr \<Rightarrow> int \<Rightarrow> kheap \<Rightarrow> kheap kres" where
  "spin_unlock p i h = rbind (deref_locks p h) (\<lambda>ls.
     rbind (array_set ls i False) (\<lambda>ls'. Inr (h(p \<mapsto> KSpinlocks ls'))))"

definition kfree :: "addr \<Rightarrow> kheap \<Rightarrow> kheap" where
  "kfree p h = (if p = NULL then h else h(p := None))"

section \<open>The store of a task\<close>

text \<open>The scan of a bucket for the first node with the key.\<close>

fun hlist_find :: "s32 \<Rightarrow> addr list \<Rightarrow> kheap \<Rightarrow> addr option kres" where
  "hlist_find k [] h = Inr None"
| "hlist_find k (p # ps) h = rbind (deref_node p h) (\<lambda>n.
     if kvn_key n = k then Inr (Some p) else hlist_find k ps h)"

text \<open>\<open>int bucket = key % 1024\<close>: the remainder of C truncates towards zero.\<close>

definition kv_bucket :: "s32 \<Rightarrow> int" where
  "kv_bucket k = sint k smod 1024"

definition set_node_value :: "addr \<Rightarrow> s32 \<Rightarrow> kheap \<Rightarrow> kheap kres" where
  "set_node_value p v h = rbind (deref_node p h) (\<lambda>n. Inr (h(p \<mapsto> KNode (n\<lparr>kvn_value := v\<rparr>))))"

text \<open>\<open>hlist_add_head\<close> of the new node at the head of a bucket.\<close>

definition kv_add_head :: "addr \<Rightarrow> int \<Rightarrow> addr \<Rightarrow> kheap \<Rightarrow> kheap kres" where
  "kv_add_head st i p h = rbind (deref_buckets st h) (\<lambda>bs. rbind (array_get bs i) (\<lambda>ps.
     rbind (array_set bs i (p # ps)) (\<lambda>bs'. Inr (h(st \<mapsto> KBuckets bs')))))"

definition write_kv :: "kmalloc_fn \<Rightarrow> task_struct \<Rightarrow> s32 \<Rightarrow> s32 \<Rightarrow> kheap \<Rightarrow> (int \<times> kheap) kres" where
  "write_kv kmalloc task key value h =
     (let bucket = kv_bucket key in
      rbind (spin_lock (kv_locks task) bucket h) (\<lambda>h.
      rbind (rbind (deref_buckets (kv_store task) h) (\<lambda>bs. array_get bs bucket)) (\<lambda>head.
      rbind (hlist_find key head h) (\<lambda>found.
      case found of
        Some node \<Rightarrow>
          rbind (set_node_value node value h) (\<lambda>h.
          rbind (spin_unlock (kv_locks task) bucket h) (\<lambda>h. Inr (0, h)))
      | None \<Rightarrow>
          (case kmalloc h of
             None \<Rightarrow> rbind (spin_unlock (kv_locks task) bucket h) (\<lambda>h. Inr (- 1, h))
           | Some node \<Rightarrow>
               rbind (kv_add_head (kv_store task) bucket node
                        (h(node \<mapsto> KNode \<lparr>kvn_key = key, kvn_value = value\<rparr>))) (\<lambda>h.
               rbind (spin_unlock (kv_locks task) bucket h) (\<lambda>h. Inr (0, h))))))))"

text \<open>The value is read through the node pointer after the bucket has been unlocked.\<close>

definition read_kv :: "task_struct \<Rightarrow> s32 \<Rightarrow> kheap \<Rightarrow> (int \<times> kheap) kres" where
  "read_kv task key h =
     (let bucket = kv_bucket key in
      rbind (spin_lock (kv_locks task) bucket h) (\<lambda>h.
      rbind (rbind (deref_buckets (kv_store task) h) (\<lambda>bs. array_get bs bucket)) (\<lambda>head.
      rbind (hlist_find key head h) (\<lambda>found.
      rbind (spin_unlock (kv_locks task) bucket h) (\<lambda>h.
      case found of
        Some node \<Rightarrow> rbind (deref_node node h) (\<lambda>n. Inr (sint (kvn_value n), h))
      | None \<Rightarrow> Inr (- 1, h))))))"

text \<open>
  \<open>kmalloc_array\<close> returns uninitialised memory: \<open>junk_buckets\<close> and \<open>junk_locks\<close> are its
  contents, which the two loops overwrite.
\<close>

definition init_task_kv_store ::
  "kmalloc_fn \<Rightarrow> addr list list \<Rightarrow> kmalloc_fn \<Rightarrow> bool list \<Rightarrow> task_struct \<Rightarrow> kheap \<Rightarrow> int \<times> task_struct \<times> kheap"
where
  "init_task_kv_store kmalloc1 junk_buckets kmalloc2 junk_locks task h =
     (case kmalloc1 h of
        None \<Rightarrow> (- ENOMEM, task\<lparr>kv_store := NULL\<rparr>, h)
      | Some st \<Rightarrow>
          let task = task\<lparr>kv_store := st\<rparr>;
              h = h(st \<mapsto> KBuckets (fill_loop KV_BUCKETS [] junk_buckets))
          in case kmalloc2 h of
               None \<Rightarrow> (- ENOMEM, task\<lparr>kv_locks := NULL\<rparr>, kfree st h)
             | Some lk \<Rightarrow>
                 (0, task\<lparr>kv_locks := lk\<rparr>,
                  h(lk \<mapsto> KSpinlocks (fill_loop KV_BUCKETS False junk_locks))))"

definition cleanup_task_kv_store :: "task_struct \<Rightarrow> kheap \<Rightarrow> task_struct \<times> kheap" where
  "cleanup_task_kv_store task h =
     (let (task, h) = (if kv_store task \<noteq> NULL
                       then (task\<lparr>kv_store := NULL\<rparr>, kfree (kv_store task) h) else (task, h))
      in if kv_locks task \<noteq> NULL
         then (task\<lparr>kv_locks := NULL\<rparr>, kfree (kv_locks task) h) else (task, h))"

text \<open>
  The store of a new task in \<open>copy_process\<close>: a thread of the group gets the pointers of its
  creator, any other child a store of its own; the result of \<open>init_task_kv_store\<close> is not
  looked at.
\<close>

definition copy_process_kv ::
  "bool \<Rightarrow> kmalloc_fn \<Rightarrow> addr list list \<Rightarrow> kmalloc_fn \<Rightarrow> bool list \<Rightarrow> task_struct \<Rightarrow> task_struct \<Rightarrow> kheap \<Rightarrow> task_struct \<times> kheap"
where
  "copy_process_kv clone_thread km1 jb km2 jl current p h =
     (if clone_thread
      then (p\<lparr>kv_store := kv_store current, kv_locks := kv_locks current\<rparr>, h)
      else snd (init_task_kv_store km1 jb km2 jl p h))"

section \<open>The user-space wrappers\<close>

text \<open>
  \<open>syscall(2)\<close> of the C library: a kernel result in \<open>[-4095, -1]\<close> becomes \<open>-1\<close> with
  \<open>errno\<close> set, any other result is returned; the wrappers convert it to \<open>int\<close>.
\<close>

definition libc_syscall :: "int \<Rightarrow> int \<times> int option" where
  "libc_syscall r = (if - MAX_ERRNO \<le> r \<and> r \<le> - 1 then (- 1, Some (- r)) else (r, None))"

definition user_write_kv ::
  "kmalloc_fn \<Rightarrow> task_struct \<Rightarrow> s32 \<Rightarrow> s32 \<Rightarrow> kheap \<Rightarrow> (int \<times> kheap) kres" where
  "user_write_kv kmalloc task k v h =
     rbind (write_kv kmalloc task k v h) (\<lambda>(r, h). Inr (fst (libc_syscall r), h))"

definition user_read_kv :: "task_struct \<Rightarrow> s32 \<Rightarrow> kheap \<Rightarrow> (int \<times> kheap) kres" where
  "user_read_kv task k h =
     rbind (read_kv task k h) (\<lambda>(r, h). Inr (fst (libc_syscall r), h))"

section \<open>Abstraction and invariant\<close>

text \<open>What an allocator promises: a non-null address that is not in use.\<close>

definition fresh_alloc :: "kmalloc_fn \<Rightarrow> bool" where
  "fresh_alloc kmalloc \<longleftrightarrow> (\<forall>h p. kmalloc h = Some p \<longrightarrow> p \<noteq> NULL \<and> h p = None)"

text \<open>The keys whose remainder is an index of the bucket array.\<close>

definition kv_key_ok :: "s32 \<Rightarrow> bool" where
  "kv_key_ok k \<longleftrightarrow> 0 \<le> kv_bucket k"

definition node_of :: "kheap \<Rightarrow> addr \<Rightarrow> kv_node option" where
  "node_of h p = (case h p of Some (KNode n) \<Rightarrow> Some n | _ \<Rightarrow> None)"

definition has_key :: "kheap \<Rightarrow> s32 \<Rightarrow> addr \<Rightarrow> bool" where
  "has_key h k p \<longleftrightarrow> map_option kvn_key (node_of h p) = Some k"

definition bucket_lookup :: "kheap \<Rightarrow> addr list \<Rightarrow> s32 \<Rightarrow> s32 option" where
  "bucket_lookup h ps k =
     (case find (has_key h k) ps of None \<Rightarrow> None | Some p \<Rightarrow> map_option kvn_value (node_of h p))"

text \<open>The map from keys to values that a bucket array represents.\<close>

definition kv_lookup :: "addr \<Rightarrow> kheap \<Rightarrow> s32 \<Rightarrow> s32 option" where
  "kv_lookup st h k =
     (case h st of
        Some (KBuckets bs) \<Rightarrow>
          if kv_key_ok k then bucket_lookup h (bs ! nat (kv_bucket k)) k else None
      | _ \<Rightarrow> None)"

definition node_in_bucket :: "kheap \<Rightarrow> nat \<Rightarrow> addr \<Rightarrow> bool" where
  "node_in_bucket h i p \<longleftrightarrow>
     p \<noteq> NULL \<and> (case node_of h p of Some n \<Rightarrow> kv_bucket (kvn_key n) = int i | None \<Rightarrow> False)"

definition buckets_ok :: "kheap \<Rightarrow> addr list list \<Rightarrow> bool" where
  "buckets_ok h bs \<longleftrightarrow> length bs = KV_BUCKETS \<and>
     (\<forall>i < length bs. (\<forall>p \<in> set (bs ! i). node_in_bucket h i p) \<and>
                      distinct (map (\<lambda>p. map_option kvn_key (node_of h p)) (bs ! i)))"

text \<open>
  A well-formed bucket array: 1024 buckets, every node of bucket \<open>i\<close> allocated and with a key
  of remainder \<open>i\<close>, no key twice in a bucket.
\<close>

definition kv_buckets_wf :: "addr \<Rightarrow> kheap \<Rightarrow> bool" where
  "kv_buckets_wf st h \<longleftrightarrow> st \<noteq> NULL \<and>
     (case h st of Some (KBuckets bs) \<Rightarrow> buckets_ok h bs | _ \<Rightarrow> False)"

text \<open>The store of a task between two system calls: no lock is held.\<close>

definition kv_wf :: "task_struct \<Rightarrow> kheap \<Rightarrow> bool" where
  "kv_wf task h \<longleftrightarrow> kv_buckets_wf (kv_store task) h \<and> kv_locks task \<noteq> NULL \<and>
     h (kv_locks task) = Some (KSpinlocks (replicate KV_BUCKETS False))"

section \<open>The interface of a key-value server\<close>

text \<open>A request of a client and the specification of its effect on a map.\<close>

datatype 'al kv_req = Put 'al s32 s32 | Get s32

fun req_key :: "'al kv_req \<Rightarrow> s32" where
  "req_key (Put al k v) = k"
| "req_key (Get k) = k"

fun req_alloc_ok :: "('al \<Rightarrow> bool) \<Rightarrow> 'al kv_req \<Rightarrow> bool" where
  "req_alloc_ok ok (Put al k v) = ok al"
| "req_alloc_ok ok (Get k) = True"

fun puts_key :: "s32 \<Rightarrow> 'al kv_req \<Rightarrow> bool" where
  "puts_key k (Put al k' v) = (k' = k)"
| "puts_key k (Get k') = False"

text \<open>
  A write stores the value, or fails when the key is new and no memory is left; a read returns
  the value, or \<open>-1\<close> for a key that is not stored.
\<close>

inductive kv_spec :: "(s32 \<Rightarrow> s32 option) \<Rightarrow> 'al kv_req \<Rightarrow> int \<Rightarrow> (s32 \<Rightarrow> s32 option) \<Rightarrow> bool" where
  put: "kv_spec m (Put al k v) 0 (m(k \<mapsto> v))"
| put_nomem: "m k = None \<Longrightarrow> kv_spec m (Put al k v) (- 1) m"
| get_hit: "m k = Some v \<Longrightarrow> kv_spec m (Get k) (sint v) m"
| get_miss: "m k = None \<Longrightarrow> kv_spec m (Get k) (- 1) m"

inductive kv_spec_run ::
  "(s32 \<Rightarrow> s32 option) \<Rightarrow> 'al kv_req list \<Rightarrow> int list \<Rightarrow> (s32 \<Rightarrow> s32 option) \<Rightarrow> bool" where
  empty_run: "kv_spec_run m [] [] m"
| next_req: "kv_spec m req r m' \<Longrightarrow> kv_spec_run m' reqs rs m'' \<Longrightarrow> kv_spec_run m (req # reqs) (r # rs) m''"

inductive_cases kv_spec_PutE: "kv_spec m (Put al k v) r m'"
inductive_cases kv_spec_GetE: "kv_spec m (Get k) r m'"
inductive_cases kv_spec_run_ConsE: "kv_spec_run m (req # reqs) rs m''"
inductive_cases kv_spec_run_NilE: "kv_spec_run m [] rs m''"

text \<open>A client that issues its requests one after the other.\<close>

fun kv_run ::
  "('al \<Rightarrow> s32 \<Rightarrow> s32 \<Rightarrow> 'h \<Rightarrow> (int \<times> 'h) kres) \<Rightarrow> (s32 \<Rightarrow> 'h \<Rightarrow> (int \<times> 'h) kres) \<Rightarrow>
   'al kv_req list \<Rightarrow> 'h \<Rightarrow> (int list \<times> 'h) kres"
where
  "kv_run put get [] h = Inr ([], h)"
| "kv_run put get (req # reqs) h =
     rbind (case req of Put al k v \<Rightarrow> put al k v h | Get k \<Rightarrow> get k h) (\<lambda>(r, h).
     rbind (kv_run put get reqs h) (\<lambda>(rs, h). Inr (r # rs, h)))"

text \<open>The memory a task's store occupies, and two stores that share none.\<close>

definition kv_foot :: "task_struct \<Rightarrow> kheap \<Rightarrow> addr set" where
  "kv_foot task h = {kv_store task, kv_locks task} \<union>
     (case h (kv_store task) of Some (KBuckets bs) \<Rightarrow> set (concat bs) | _ \<Rightarrow> {})"

definition kv_separate :: "task_struct \<Rightarrow> task_struct \<Rightarrow> kheap \<Rightarrow> bool" where
  "kv_separate t u h \<longleftrightarrow> kv_wf t h \<and> kv_wf u h \<and> kv_foot t h \<inter> kv_foot u h = {}"

text \<open>
  The contract between a store and its clients: under the invariant every request returns, keeps
  the invariant and is one step of the specification.
\<close>

locale kv_server =
  fixes put :: "'al \<Rightarrow> s32 \<Rightarrow> s32 \<Rightarrow> 'h \<Rightarrow> (int \<times> 'h) kres"
    and get :: "s32 \<Rightarrow> 'h \<Rightarrow> (int \<times> 'h) kres"
    and lookup :: "'h \<Rightarrow> s32 \<Rightarrow> s32 option"
    and inv :: "'h \<Rightarrow> bool"
    and key_ok :: "s32 \<Rightarrow> bool"
    and alloc_ok :: "'al \<Rightarrow> bool"
  assumes put_law: "inv h \<Longrightarrow> key_ok k \<Longrightarrow> alloc_ok al \<Longrightarrow>
      \<exists>r h'. put al k v h = Inr (r, h') \<and> inv h' \<and> kv_spec (lookup h) (Put al k v) r (lookup h')"
    and get_law: "inv h \<Longrightarrow> key_ok k \<Longrightarrow>
      \<exists>r. get k h = Inr (r, h) \<and> kv_spec (lookup h) (Get k :: 'al kv_req) r (lookup h)"
begin

lemma request_law:
  assumes "inv h" "key_ok (req_key req)" "req_alloc_ok alloc_ok req"
  shows "\<exists>r h'. (case req of Put al k v \<Rightarrow> put al k v h | Get k \<Rightarrow> get k h) = Inr (r, h') \<and> inv h' \<and>
    kv_spec (lookup h) req r (lookup h')"
proof (cases req)
  case (Put al k v)
  with assms show ?thesis using put_law [of h k al v] by simp
next
  case (Get k)
  with assms show ?thesis using get_law [of h k] by auto
qed

lemma run_refines:
  assumes "inv h" "\<forall>req \<in> set reqs. key_ok (req_key req) \<and> req_alloc_ok alloc_ok req"
  shows "\<exists>rs h'. kv_run put get reqs h = Inr (rs, h') \<and> inv h' \<and> kv_spec_run (lookup h) reqs rs (lookup h')"
  using assms
proof (induction reqs arbitrary: h)
  case Nil
  then show ?case by (auto intro: kv_spec_run.empty_run)
next
  case (Cons req reqs)
  then obtain r h1 where 1: "(case req of Put al k v \<Rightarrow> put al k v h | Get k \<Rightarrow> get k h) = Inr (r, h1)"
    "inv h1" "kv_spec (lookup h) req r (lookup h1)"
    using request_law [of h req] by auto
  have "\<forall>req \<in> set reqs. key_ok (req_key req) \<and> req_alloc_ok alloc_ok req" using Cons.prems by simp
  from Cons.IH [OF 1(2) this] obtain rs h2 where "kv_run put get reqs h1 = Inr (rs, h2)" "inv h2"
    "kv_spec_run (lookup h1) reqs rs (lookup h2)" by blast
  with 1 show ?case by (auto intro: kv_spec_run.next_req)
qed

end

section \<open>Buckets, nodes and locks\<close>

lemma kv_bucket_bounds: "- 1024 < kv_bucket k" "kv_bucket k < 1024"
proof -
  have "0 \<le> \<bar>sint k\<bar> mod 1024" "\<bar>sint k\<bar> mod 1024 < 1024" by simp_all
  then show "- 1024 < kv_bucket k" "kv_bucket k < 1024"
    unfolding kv_bucket_def signed_modulo_int_def
    by (cases "sint k < 0"; cases "sint k = 0"; simp add: sgn_if)+
qed

lemma kv_bucket_nonneg: "0 \<le> sint k \<Longrightarrow> kv_bucket k = sint k mod 1024"
  unfolding kv_bucket_def signed_modulo_int_def by (cases "sint k = 0") (auto simp: sgn_if)

lemma kv_key_ok_iff: "kv_key_ok k \<longleftrightarrow> 0 \<le> sint k \<or> 1024 dvd sint k"
proof (cases "0 \<le> sint k")
  case True
  then show ?thesis by (simp add: kv_key_ok_def kv_bucket_nonneg)
next
  case False
  then have "kv_bucket k = - (\<bar>sint k\<bar> mod 1024)"
    by (simp add: kv_bucket_def signed_modulo_int_def sgn_if)
  moreover have "0 \<le> \<bar>sint k\<bar> mod 1024" by simp
  ultimately have "kv_key_ok k \<longleftrightarrow> \<bar>sint k\<bar> mod 1024 = 0"
    unfolding kv_key_ok_def by linarith
  then show ?thesis using False by (simp add: dvd_eq_mod_eq_0 [symmetric])
qed

lemma kv_key_ok_index: "kv_key_ok k \<Longrightarrow> nat (kv_bucket k) < 1024 \<and> int (nat (kv_bucket k)) = kv_bucket k"
  using kv_bucket_bounds [of k] by (auto simp: kv_key_ok_def)

lemma deref_simps [kfault_simps]:
  "p \<noteq> NULL \<Longrightarrow> h p = Some (KBuckets bs) \<Longrightarrow> deref_buckets p h = Inr bs"
  "p \<noteq> NULL \<Longrightarrow> h p = Some (KSpinlocks ls) \<Longrightarrow> deref_locks p h = Inr ls"
  "deref_buckets NULL h = Inl NullDeref" "deref_locks NULL h = Inl NullDeref"
  "p \<noteq> NULL \<Longrightarrow> h p = None \<Longrightarrow> deref_buckets p h = Inl (BadAddr p)"
  "p \<noteq> NULL \<Longrightarrow> h p = None \<Longrightarrow> deref_locks p h = Inl (BadAddr p)"
  by (auto simp: deref_buckets_def deref_locks_def)

lemma deref_node_node_of: "p \<noteq> NULL \<Longrightarrow> node_of h p = Some n \<Longrightarrow> deref_node p h = Inr n"
  by (auto simp: deref_node_def node_of_def split: option.splits kobj.splits)

lemma node_of_update [simp]:
  "node_of (h(p \<mapsto> KNode n)) = (node_of h)(p \<mapsto> n)"
  "node_of h p = None \<Longrightarrow> node_of (h(p \<mapsto> KSpinlocks ls)) = node_of h"
  "node_of h p = None \<Longrightarrow> node_of (h(p \<mapsto> KBuckets bs)) = node_of h"
  by (auto simp: node_of_def fun_eq_iff)

lemma node_of_array [simp]:
  "h p = Some (KSpinlocks ls) \<Longrightarrow> node_of h p = None"
  "h p = Some (KBuckets bs) \<Longrightarrow> node_of h p = None"
  "h p = None \<Longrightarrow> node_of h p = None"
  by (auto simp: node_of_def)

lemma spin_lock_free:
  assumes "lk \<noteq> NULL" "h lk = Some (KSpinlocks ls)" "0 \<le> i" "i < int (length ls)" "\<not> ls ! nat i"
  shows "spin_lock lk i h = Inr (h(lk \<mapsto> KSpinlocks (ls[nat i := True])))"
  using assms by (simp add: spin_lock_def kfault_simps)

lemma spin_unlock_ok:
  assumes "lk \<noteq> NULL" "h lk = Some (KSpinlocks ls)" "0 \<le> i" "i < int (length ls)"
  shows "spin_unlock lk i h = Inr (h(lk \<mapsto> KSpinlocks (ls[nat i := False])))"
  using assms by (simp add: spin_unlock_def kfault_simps)

text \<open>On allocated nodes the scan of a bucket is the search for the first node with the key.\<close>

lemma hlist_find_eq:
  "(\<forall>p \<in> set ps. node_in_bucket h i p) \<Longrightarrow> hlist_find k ps h = Inr (find (has_key h k) ps)"
proof (induction ps)
  case Nil
  then show ?case by simp
next
  case (Cons p ps)
  then obtain n where "p \<noteq> NULL" "node_of h p = Some n"
    by (auto simp: node_in_bucket_def split: option.splits)
  with Cons show ?case by (simp add: deref_node_node_of has_key_def)
qed

lemma kv_buckets_wfE:
  assumes "kv_buckets_wf st h"
  obtains bs where "st \<noteq> NULL" "h st = Some (KBuckets bs)" "buckets_ok h bs"
  using assms by (auto simp: kv_buckets_wf_def split: option.splits kobj.splits)

lemma buckets_okD:
  assumes "buckets_ok h bs" "i < 1024"
  shows "\<And>p. p \<in> set (bs ! i) \<Longrightarrow> node_in_bucket h i p"
    and "distinct (map (\<lambda>p. map_option kvn_key (node_of h p)) (bs ! i))"
  using assms by (auto simp: buckets_ok_def)

lemma find_has_key_node:
  assumes "buckets_ok h bs" "kv_key_ok k" "find (has_key h k) (bs ! nat (kv_bucket k)) = Some p"
  shows "p \<noteq> NULL" "\<exists>n. node_of h p = Some n \<and> kvn_key n = k"
proof -
  from assms(3) have p: "p \<in> set (bs ! nat (kv_bucket k))" "has_key h k p"
    by (auto dest: find_SomeD)
  have "nat (kv_bucket k) < 1024" using kv_key_ok_index [OF assms(2)] by blast
  from buckets_okD(1) [OF assms(1) this p(1)] p(2)
  show "p \<noteq> NULL" "\<exists>n. node_of h p = Some n \<and> kvn_key n = k"
    by (auto simp: node_in_bucket_def has_key_def)
qed

text \<open>The two changes of a store: a new value in a node, and a new node at the head of a bucket.\<close>

lemma set_value_buckets_wf:
  assumes wf: "kv_buckets_wf st h" and n: "node_of h p = Some n"
  shows "kv_buckets_wf st (h(p \<mapsto> KNode (n\<lparr>kvn_value := v\<rparr>)))"
proof -
  from wf obtain bs where st: "st \<noteq> NULL" "h st = Some (KBuckets bs)" "buckets_ok h bs"
    by (rule kv_buckets_wfE)
  let ?h = "h(p \<mapsto> KNode (n\<lparr>kvn_value := v\<rparr>))"
  have "st \<noteq> p" using st n by auto
  have keys: "map_option kvn_key (node_of ?h q) = map_option kvn_key (node_of h q)" for q
    using n by simp
  have "node_in_bucket ?h i q = node_in_bucket h i q" for i q
    using n by (auto simp: node_in_bucket_def split: option.splits)
  with st keys have "buckets_ok ?h bs" unfolding buckets_ok_def by (simp del: node_of_update)
  with st \<open>st \<noteq> p\<close> show ?thesis by (simp add: kv_buckets_wf_def)
qed

lemma set_value_lookup:
  assumes wf: "kv_buckets_wf st h" "h st = Some (KBuckets bs)" and k: "kv_key_ok k"
    and p: "find (has_key h k) (bs ! nat (kv_bucket k)) = Some p" and n: "node_of h p = Some n"
  shows "kv_lookup st (h(p \<mapsto> KNode (n\<lparr>kvn_value := v\<rparr>))) = (kv_lookup st h)(k \<mapsto> v)"
proof
  fix k'
  let ?h = "h(p \<mapsto> KNode (n\<lparr>kvn_value := v\<rparr>))"
  from wf(2) n have st: "?h st = Some (KBuckets bs)" by auto
  have hk: "has_key ?h q = has_key h q" for q
    using n by (auto simp: has_key_def fun_eq_iff)
  have nk: "kvn_key n = k" using p n by (auto simp: find_Some_iff has_key_def)
  show "kv_lookup st ?h k' = ((kv_lookup st h)(k \<mapsto> v)) k'"
  proof (cases "k' = k")
    case True
    with st p k hk show ?thesis by (simp add: kv_lookup_def bucket_lookup_def)
  next
    case False
    have "q \<noteq> p" if "find (has_key h k') ps = Some q" for q ps
      using that False n nk by (auto simp: find_Some_iff has_key_def)
    then have "bucket_lookup ?h ps k' = bucket_lookup h ps k'" for ps
      unfolding bucket_lookup_def hk by (auto split: option.splits)
    with st wf(2) False show ?thesis by (simp add: kv_lookup_def)
  qed
qed

lemma add_node_buckets_wf:
  assumes wf: "kv_buckets_wf st h" "h st = Some (KBuckets bs)" and k: "kv_key_ok k"
    and miss: "find (has_key h k) (bs ! nat (kv_bucket k)) = None"
    and p: "p \<noteq> NULL" "h p = None"
  shows "kv_buckets_wf st (h(p \<mapsto> KNode \<lparr>kvn_key = k, kvn_value = v\<rparr>,
           st \<mapsto> KBuckets (bs[nat (kv_bucket k) := p # bs ! nat (kv_bucket k)])))"
proof -
  let ?b = "nat (kv_bucket k)" and ?n = "\<lparr>kvn_key = k, kvn_value = v\<rparr>"
  let ?bs = "bs[?b := p # bs ! ?b]"
  let ?h = "h(p \<mapsto> KNode ?n, st \<mapsto> KBuckets ?bs)"
  from wf have st: "st \<noteq> NULL" and ok: "buckets_ok h bs"
    by (auto elim: kv_buckets_wfE)
  have len: "length bs = 1024" using ok by (simp add: buckets_ok_def)
  have "st \<noteq> p" using wf(2) p by auto
  then have no: "node_of ?h = (node_of h)(p \<mapsto> ?n)" using wf(2) by simp
  have old: "q \<noteq> p" if "q \<in> set (bs ! i)" "i < 1024" for q i
    using buckets_okD(1) [OF ok that(2,1)] p by (auto simp: node_in_bucket_def)
  have b: "?b < 1024" "int ?b = kv_bucket k" using kv_key_ok_index [OF k] by auto
  have nodes: "node_in_bucket ?h i q" if "i < 1024" "q \<in> set (?bs ! i)" for i q
  proof (cases "q = p")
    case True
    then have "i = ?b" using that old len by (cases "i = ?b") auto
    with True p(1) b(2) show ?thesis by (simp add: node_in_bucket_def no)
  next
    case False
    then have "q \<in> set (bs ! i)" using that len by (cases "i = ?b") auto
    with buckets_okD(1) [OF ok that(1)] False show ?thesis by (simp add: node_in_bucket_def no)
  qed
  let ?f = "\<lambda>q. map_option kvn_key (node_of ?h q)" and ?g = "\<lambda>q. map_option kvn_key (node_of h q)"
  have keys: "distinct (map ?f (?bs ! i))" if i: "i < 1024" for i
  proof -
    have eq: "map ?f (bs ! j) = map ?g (bs ! j)" if "j < 1024" for j
      using old [OF _ that] by (intro map_cong) (auto simp: no)
    have "Some k \<notin> set (map ?g (bs ! ?b))"
      using miss by (auto simp: find_None_iff has_key_def) (metis map_option_eq_Some)
    then have "distinct (map ?f (p # bs ! ?b))"
      using buckets_okD(2) [OF ok b(1)] unfolding list.map(2) eq [OF b(1)] by (simp add: no)
    moreover have "distinct (map ?f (bs ! i))"
      unfolding eq [OF i] using buckets_okD(2) [OF ok i] .
    ultimately show ?thesis using len b by (cases "i = ?b") simp_all
  qed
  show ?thesis using st nodes keys len by (simp add: kv_buckets_wf_def buckets_ok_def)
qed

lemma add_node_lookup:
  assumes wf: "kv_buckets_wf st h" "h st = Some (KBuckets bs)" and k: "kv_key_ok k"
    and p: "p \<noteq> NULL" "h p = None"
  shows "kv_lookup st (h(p \<mapsto> KNode \<lparr>kvn_key = k, kvn_value = v\<rparr>,
           st \<mapsto> KBuckets (bs[nat (kv_bucket k) := p # bs ! nat (kv_bucket k)]))) = (kv_lookup st h)(k \<mapsto> v)"
proof
  fix k'
  let ?b = "nat (kv_bucket k)" and ?n = "\<lparr>kvn_key = k, kvn_value = v\<rparr>"
  let ?bs = "bs[?b := p # bs ! ?b]"
  let ?h = "h(p \<mapsto> KNode ?n, st \<mapsto> KBuckets ?bs)"
  from wf have ok: "buckets_ok h bs" by (auto elim: kv_buckets_wfE)
  have len: "length bs = 1024" using ok by (simp add: buckets_ok_def)
  have "st \<noteq> p" using wf(2) p by auto
  then have no: "node_of ?h = (node_of h)(p \<mapsto> ?n)" using wf(2) by simp
  have b: "?b < 1024" using kv_key_ok_index [OF k] by auto
  have old: "bucket_lookup ?h (bs ! i) k' = bucket_lookup h (bs ! i) k'" if "i < 1024" for i
  proof -
    have ne: "q \<noteq> p" if "q \<in> set (bs ! i)" for q
      using buckets_okD(1) [OF ok \<open>i < 1024\<close> that] p by (auto simp: node_in_bucket_def)
    then have "find (has_key ?h k') (bs ! i) = find (has_key h k') (bs ! i)"
      by (intro find_cong) (auto simp: has_key_def no)
    with ne show ?thesis
      by (cases "find (has_key h k') (bs ! i)") (auto simp: bucket_lookup_def no dest: find_SomeD)
  qed
  have head: "bucket_lookup ?h (p # bs ! ?b) k' = (if k' = k then Some v else bucket_lookup h (bs ! ?b) k')"
    using old [OF b] by (auto simp: bucket_lookup_def has_key_def no)
  show "kv_lookup st ?h k' = ((kv_lookup st h)(k \<mapsto> v)) k'"
  proof (cases "kv_key_ok k'")
    case True
    then have "nat (kv_bucket k') < 1024" by (simp add: kv_key_ok_index)
    with True head old wf(2) len b k show ?thesis
      by (cases "nat (kv_bucket k') = ?b") (auto simp: kv_lookup_def)
  next
    case False
    with k wf(2) show ?thesis by (auto simp: kv_lookup_def)
  qed
qed

section \<open>The system calls\<close>

lemma fresh_allocD: "fresh_alloc km \<Longrightarrow> km h = Some p \<Longrightarrow> p \<noteq> NULL \<and> h p = None"
  by (simp add: fresh_alloc_def)

lemma kv_wfE:
  assumes "kv_wf task h"
  obtains bs where "kv_store task \<noteq> NULL" "h (kv_store task) = Some (KBuckets bs)" "buckets_ok h bs"
    "kv_locks task \<noteq> NULL" "h (kv_locks task) = Some (KSpinlocks (replicate 1024 False))"
    "kv_store task \<noteq> kv_locks task"
proof -
  from assms obtain bs where bs: "kv_store task \<noteq> NULL" "h (kv_store task) = Some (KBuckets bs)"
      "buckets_ok h bs" and lk: "kv_locks task \<noteq> NULL"
      "h (kv_locks task) = Some (KSpinlocks (replicate 1024 False))"
    by (auto simp: kv_wf_def elim!: kv_buckets_wfE)
  then have "kv_store task \<noteq> kv_locks task" by auto
  with that bs lk show ?thesis by blast
qed

lemma kv_wf_arrays:
  assumes "kv_wf task h" "h (kv_store task) = Some (KBuckets bs)"
  shows "kv_store task \<noteq> NULL" "buckets_ok h bs" "kv_locks task \<noteq> NULL"
    "h (kv_locks task) = Some (KSpinlocks (replicate 1024 False))" "kv_store task \<noteq> kv_locks task"
    "length bs = 1024"
  using assms by (auto elim!: kv_wfE simp: buckets_ok_def)

text \<open>What is known while the lock of a bucket is held.\<close>

lemma kv_locked:
  assumes wf: "kv_wf task h" "h (kv_store task) = Some (KBuckets bs)" and k: "kv_key_ok k"
  defines "b \<equiv> nat (kv_bucket k)"
  defines "hl \<equiv> h(kv_locks task \<mapsto> KSpinlocks ((replicate 1024 False)[b := True]))"
  shows "spin_lock (kv_locks task) (kv_bucket k) h = Inr hl"
    and "rbind (deref_buckets (kv_store task) hl) (\<lambda>bs. array_get bs (kv_bucket k)) = Inr (bs ! b)"
    and "hlist_find k (bs ! b) hl = Inr (find (has_key h k) (bs ! b))"
    and "node_of hl = node_of h"
proof -
  note a = kv_wf_arrays [OF wf]
  have b: "b < 1024" "0 \<le> kv_bucket k" "kv_bucket k < 1024"
    using kv_key_ok_index [OF k] k kv_bucket_bounds [of k] by (auto simp: b_def kv_key_ok_def)
  show no: "node_of hl = node_of h" using a by (simp add: hl_def)
  show "spin_lock (kv_locks task) (kv_bucket k) h = Inr hl"
    using a b by (simp add: spin_lock_free hl_def b_def)
  show "rbind (deref_buckets (kv_store task) hl) (\<lambda>bs. array_get bs (kv_bucket k)) = Inr (bs ! b)"
    using a b wf(2) by (simp add: hl_def kfault_simps b_def)
  have "node_in_bucket hl b p" if "p \<in> set (bs ! b)" for p
    using buckets_okD(1) [OF a(2) b(1) that] by (simp add: node_in_bucket_def no)
  moreover have "has_key hl k = has_key h k"
    by (simp add: has_key_def fun_eq_iff no)
  ultimately show "hlist_find k (bs ! b) hl = Inr (find (has_key h k) (bs ! b))"
    using hlist_find_eq [of "bs ! b" hl b k] by simp
qed

text \<open>Unlocking the bucket after a change elsewhere in the heap restores the lock array.\<close>

lemma kv_unlock:
  assumes "kv_locks task \<noteq> NULL" "kv_key_ok k"
    and "h (kv_locks task) = Some (KSpinlocks ((replicate 1024 False)[nat (kv_bucket k) := True]))"
  shows "spin_unlock (kv_locks task) (kv_bucket k) h =
    Inr (h(kv_locks task \<mapsto> KSpinlocks (replicate 1024 False)))"
proof -
  have "0 \<le> kv_bucket k" "kv_bucket k < 1024"
    using kv_key_ok_index [OF assms(2)] assms(2) kv_bucket_bounds [of k] by (auto simp: kv_key_ok_def)
  moreover have "(replicate 1024 False)[nat (kv_bucket k) := True, nat (kv_bucket k) := False] =
      replicate 1024 False"
    using kv_key_ok_index [OF assms(2)] by (intro list_update_restore) auto
  ultimately show ?thesis using assms by (simp add: spin_unlock_ok)
qed

lemma write_kv_hit:
  assumes wf: "kv_wf task h" "h (kv_store task) = Some (KBuckets bs)" and k: "kv_key_ok k"
    and p: "find (has_key h k) (bs ! nat (kv_bucket k)) = Some p" and n: "node_of h p = Some n"
  shows "write_kv km task k v h = Inr (0, h(p \<mapsto> KNode (n\<lparr>kvn_value := v\<rparr>)))"
proof -
  note a = kv_wf_arrays [OF wf] and l = kv_locked [OF wf k]
  have "p \<noteq> kv_locks task" "p \<noteq> NULL"
    using n a(4) find_has_key_node(1) [OF a(2) k p] by auto
  moreover from this have "h(kv_locks task \<mapsto> ls, p \<mapsto> x, kv_locks task \<mapsto> KSpinlocks (replicate 1024 False)) =
      h(p \<mapsto> x)" for ls x
    using a by (auto simp: fun_eq_iff)
  ultimately show ?thesis
    using a l p k n
    by (simp add: write_kv_def set_node_value_def deref_node_node_of kv_unlock Let_def)
qed

lemma write_kv_miss:
  assumes wf: "kv_wf task h" "h (kv_store task) = Some (KBuckets bs)" and k: "kv_key_ok k"
    and miss: "find (has_key h k) (bs ! nat (kv_bucket k)) = None" and km: "fresh_alloc km"
  shows "write_kv km task k v h =
    (case km (h(kv_locks task \<mapsto> KSpinlocks ((replicate 1024 False)[nat (kv_bucket k) := True]))) of
       None \<Rightarrow> Inr (- 1, h)
     | Some p \<Rightarrow> Inr (0, h(p \<mapsto> KNode \<lparr>kvn_key = k, kvn_value = v\<rparr>,
           kv_store task \<mapsto> KBuckets (bs[nat (kv_bucket k) := p # bs ! nat (kv_bucket k)]))))"
proof -
  let ?hl = "h(kv_locks task \<mapsto> KSpinlocks ((replicate 1024 False)[nat (kv_bucket k) := True]))"
  note a = kv_wf_arrays [OF wf] and l = kv_locked [OF wf k]
  have restore: "h(kv_locks task \<mapsto> KSpinlocks (replicate 1024 False)) = h"
    using a by (auto simp: fun_eq_iff)
  show ?thesis
  proof (cases "km ?hl")
    case None
    then show ?thesis using a l miss k by (simp add: write_kv_def kv_unlock restore)
  next
    case (Some p)
    then have p: "p \<noteq> NULL" "?hl p = None" using fresh_allocD [OF km] by blast+
    then have ne: "p \<noteq> kv_locks task" "p \<noteq> kv_store task" using a wf(2) by (auto split: if_splits)
    let ?n = "KNode \<lparr>kvn_key = k, kvn_value = v\<rparr>"
    let ?bs = "KBuckets (bs[nat (kv_bucket k) := p # bs ! nat (kv_bucket k)])"
    have "kv_add_head (kv_store task) (kv_bucket k) p (?hl(p \<mapsto> ?n)) =
        Inr (?hl(p \<mapsto> ?n, kv_store task \<mapsto> ?bs))"
      using a ne wf(2) kv_key_ok_index [OF k] k kv_bucket_bounds [of k]
      by (simp add: kv_add_head_def kfault_simps kv_key_ok_def)
    moreover have "?hl(p \<mapsto> ?n, kv_store task \<mapsto> ?bs, kv_locks task \<mapsto> KSpinlocks (replicate 1024 False))
        = h(p \<mapsto> ?n, kv_store task \<mapsto> ?bs)"
      using a ne by (auto simp: fun_eq_iff)
    ultimately show ?thesis using Some a ne l miss k by (simp add: write_kv_def kv_unlock Let_def)
  qed
qed

lemma read_kv_eq:
  assumes wf: "kv_wf task h" and k: "kv_key_ok k"
  shows "read_kv task k h =
    Inr (case kv_lookup (kv_store task) h k of Some v \<Rightarrow> sint v | None \<Rightarrow> - 1, h)"
proof -
  from wf obtain bs where bs: "h (kv_store task) = Some (KBuckets bs)" by (rule kv_wfE)
  note a = kv_wf_arrays [OF wf bs] and l = kv_locked [OF wf bs k]
  have restore: "h(kv_locks task \<mapsto> KSpinlocks (replicate 1024 False)) = h"
    using a by (auto simp: fun_eq_iff)
  show ?thesis
  proof (cases "find (has_key h k) (bs ! nat (kv_bucket k))")
    case None
    then show ?thesis using a l bs k
      by (simp add: read_kv_def kv_unlock restore kv_lookup_def bucket_lookup_def)
  next
    case (Some p)
    then obtain n where "p \<noteq> NULL" "node_of h p = Some n"
      using find_has_key_node [OF a(2) k Some] by blast
    with Some a l bs k show ?thesis
      by (simp add: read_kv_def kv_unlock restore kv_lookup_def bucket_lookup_def deref_node_node_of)
  qed
qed

lemma kv_bucket_out_of_bounds:
  assumes "kv_wf task h" "\<not> kv_key_ok k"
  shows "write_kv km task k v h = Inl (OutOfBounds (kv_bucket k))"
    and "read_kv task k h = Inl (OutOfBounds (kv_bucket k))"
  using assms
  by (auto elim!: kv_wfE simp: write_kv_def read_kv_def spin_lock_def kfault_simps kv_key_ok_def)

lemma write_kv_wf_lookup:
  assumes wf: "kv_wf task h" and k: "kv_key_ok k" and km: "fresh_alloc km"
  shows "\<exists>r h'. write_kv km task k v h = Inr (r, h') \<and> kv_wf task h' \<and>
    (r = 0 \<and> kv_lookup (kv_store task) h' = (kv_lookup (kv_store task) h)(k \<mapsto> v) \<or>
     r = - 1 \<and> h' = h \<and> kv_lookup (kv_store task) h k = None)"
proof -
  from wf obtain bs where bs: "h (kv_store task) = Some (KBuckets bs)" by (rule kv_wfE)
  note a = kv_wf_arrays [OF wf bs]
  have bwf: "kv_buckets_wf (kv_store task) h" using wf by (simp add: kv_wf_def)
  show ?thesis
  proof (cases "find (has_key h k) (bs ! nat (kv_bucket k))")
    case (Some p)
    then obtain n where n: "node_of h p = Some n"
      using find_has_key_node [OF a(2) k Some] by blast
    then have "p \<noteq> kv_locks task" using a by auto
    with set_value_buckets_wf [OF bwf n] a have "kv_wf task (h(p \<mapsto> KNode (n\<lparr>kvn_value := v\<rparr>)))"
      by (simp add: kv_wf_def)
    with write_kv_hit [OF wf bs k Some n] set_value_lookup [OF bwf bs k Some n] show ?thesis by simp
  next
    case None
    let ?hl = "h(kv_locks task \<mapsto> KSpinlocks ((replicate 1024 False)[nat (kv_bucket k) := True]))"
    show ?thesis
    proof (cases "km ?hl")
      case 2: None
      with None write_kv_miss [OF wf bs k None km] wf bs show ?thesis
        by (simp add: kv_lookup_def bucket_lookup_def)
    next
      case 2: (Some p)
      then have p: "p \<noteq> NULL" "?hl p = None" using fresh_allocD [OF km] by blast+
      then have ne: "p \<noteq> kv_locks task" "h p = None" by (auto split: if_splits)
      from add_node_buckets_wf [OF bwf bs k None p(1) ne(2)] add_node_lookup [OF bwf bs k p(1) ne(2)]
        write_kv_miss [OF wf bs k None km] 2 ne a show ?thesis by (simp add: kv_wf_def)
    qed
  qed
qed

interpretation kv: kv_server "\<lambda>km k v h. write_kv km task k v h" "\<lambda>k h. read_kv task k h"
  "kv_lookup (kv_store task)" "kv_wf task" kv_key_ok fresh_alloc
  for task
proof unfold_locales
  fix h k al v
  assume "kv_wf task h" "kv_key_ok k" "fresh_alloc al"
  then show "\<exists>r h'. write_kv al task k v h = Inr (r, h') \<and> kv_wf task h' \<and>
      kv_spec (kv_lookup (kv_store task) h) (Put al k v) r (kv_lookup (kv_store task) h')"
    using write_kv_wf_lookup [of task h k al v] by (metis kv_spec.put kv_spec.put_nomem)
next
  fix h k
  assume "kv_wf task h" "kv_key_ok k"
  then show "\<exists>r. read_kv task k h = Inr (r, h) \<and>
      kv_spec (kv_lookup (kv_store task) h) (Get k :: kmalloc_fn kv_req) r (kv_lookup (kv_store task) h)"
    by (cases "kv_lookup (kv_store task) h k") (auto simp: read_kv_eq intro: kv_spec.get_hit kv_spec.get_miss)
qed

section \<open>Stores of different processes\<close>

lemma kv_foot_allocated:
  assumes "kv_wf t h" "a \<in> kv_foot t h"
  shows "h a \<noteq> None"
proof -
  from assms(1) obtain bs where bs: "h (kv_store t) = Some (KBuckets bs)" by (rule kv_wfE)
  note w = kv_wf_arrays [OF assms(1) bs]
  show ?thesis
  proof (cases "a \<in> set (concat bs)")
    case True
    then obtain i where "i < 1024" "a \<in> set (bs ! i)" using w(6) by (metis in_set_concat_nthE)
    then have "node_in_bucket h i a" by (rule buckets_okD(1) [OF w(2)])
    then have "node_of h a \<noteq> None" by (auto simp: node_in_bucket_def split: option.splits)
    then show ?thesis by (metis node_of_array(3))
  next
    case False
    with assms(2) bs w(4) show ?thesis by (auto simp: kv_foot_def)
  qed
qed

text \<open>A store depends on its own memory only.\<close>

lemma kv_foot_frame:
  assumes wf: "kv_wf t h" and eq: "\<And>a. a \<in> kv_foot t h \<Longrightarrow> h' a = h a"
  shows "kv_wf t h'" "kv_lookup (kv_store t) h' = kv_lookup (kv_store t) h" "kv_foot t h' = kv_foot t h"
proof -
  from wf obtain bs where bs: "kv_store t \<noteq> NULL" "h (kv_store t) = Some (KBuckets bs)" "buckets_ok h bs"
    "kv_locks t \<noteq> NULL" "h (kv_locks t) = Some (KSpinlocks (replicate 1024 False))" by (rule kv_wfE)
  have len: "length bs = 1024" using bs by (simp add: buckets_ok_def)
  have st: "h' (kv_store t) = Some (KBuckets bs)" "h' (kv_locks t) = h (kv_locks t)"
    using eq bs by (auto simp: kv_foot_def)
  have node: "node_of h' p = node_of h p" if "i < 1024" "p \<in> set (bs ! i)" for i p
    using eq [of p] bs(2) that in_set_concat_nth [of i bs p] len by (simp add: kv_foot_def node_of_def)
  have "node_in_bucket h' i p" if "i < 1024" "p \<in> set (bs ! i)" for i p
    using buckets_okD(1) [OF bs(3) that] node [OF that] by (simp add: node_in_bucket_def)
  moreover have "map (\<lambda>p. map_option kvn_key (node_of h' p)) (bs ! i) =
      map (\<lambda>p. map_option kvn_key (node_of h p)) (bs ! i)" if "i < 1024" for i
    using node [OF that] by (intro map_cong) auto
  ultimately have "buckets_ok h' bs" using buckets_okD(2) [OF bs(3)] len
    by (simp add: buckets_ok_def del: map_eq_conv)
  then show "kv_wf t h'" using st bs by (simp add: kv_wf_def kv_buckets_wf_def)
  have "bucket_lookup h' (bs ! i) k = bucket_lookup h (bs ! i) k" if "i < 1024" for i k
  proof -
    have "find (has_key h' k) (bs ! i) = find (has_key h k) (bs ! i)"
      using node [OF that] by (intro find_cong) (auto simp: has_key_def)
    then show ?thesis using node [OF that]
      by (cases "find (has_key h k) (bs ! i)") (auto simp: bucket_lookup_def dest: find_SomeD)
  qed
  then show "kv_lookup (kv_store t) h' = kv_lookup (kv_store t) h"
    using st bs(2) kv_key_ok_index by (auto simp: kv_lookup_def fun_eq_iff)
  show "kv_foot t h' = kv_foot t h" using st bs(2) by (simp add: kv_foot_def)
qed

text \<open>A write changes the memory of its own store only, which grows by fresh memory.\<close>

lemma write_kv_frame:
  assumes wf: "kv_wf u h" and k: "kv_key_ok k" and km: "fresh_alloc km"
    and w: "write_kv km u k v h = Inr (r, h')"
  shows "h a \<noteq> None \<Longrightarrow> a \<notin> kv_foot u h \<Longrightarrow> h' a = h a"
    and "kv_foot u h' \<subseteq> kv_foot u h \<union> {a. h a = None}"
proof -
  from wf obtain bs where bs: "h (kv_store u) = Some (KBuckets bs)" by (rule kv_wfE)
  note a = kv_wf_arrays [OF wf bs]
  have b: "nat (kv_bucket k) < length bs" using kv_key_ok_index [OF k] a by simp
  have "(h a \<noteq> None \<longrightarrow> a \<notin> kv_foot u h \<longrightarrow> h' a = h a) \<and> kv_foot u h' \<subseteq> kv_foot u h \<union> {a. h a = None}"
  proof (cases "find (has_key h k) (bs ! nat (kv_bucket k))")
    case (Some p)
    obtain n where n: "node_of h p = Some n" using find_has_key_node [OF a(2) k Some] by blast
    have "p \<in> set (concat bs)" using Some b by (auto dest!: find_SomeD)
    moreover have "p \<noteq> kv_store u" using n bs by auto
    ultimately show ?thesis
      using write_kv_hit [OF wf bs k Some n] w bs by (auto simp: kv_foot_def)
  next
    case None
    let ?hl = "h(kv_locks u \<mapsto> KSpinlocks ((replicate 1024 False)[nat (kv_bucket k) := True]))"
    show ?thesis
    proof (cases "km ?hl")
      case 2: None
      then show ?thesis using write_kv_miss [OF wf bs k None km] w by simp
    next
      case 2: (Some p)
      then have "?hl p = None" using fresh_allocD [OF km] by blast
      then have p: "h p = None" by (auto split: if_splits)
      have "set (concat (bs[nat (kv_bucket k) := p # bs ! nat (kv_bucket k)])) \<subseteq> insert p (set (concat bs))"
        using b by (rule set_concat_push)
      moreover have "h' = h(p \<mapsto> KNode \<lparr>kvn_key = k, kvn_value = v\<rparr>,
          kv_store u \<mapsto> KBuckets (bs[nat (kv_bucket k) := p # bs ! nat (kv_bucket k)]))"
        using 2 write_kv_miss [OF wf bs k None km] w by simp
      ultimately show ?thesis using p bs a(5) by (auto simp: kv_foot_def simp del: set_concat)
    qed
  qed
  then show "h a \<noteq> None \<Longrightarrow> a \<notin> kv_foot u h \<Longrightarrow> h' a = h a"
    "kv_foot u h' \<subseteq> kv_foot u h \<union> {a. h a = None}" by blast+
qed

lemma write_kv_separate:
  assumes sep: "kv_separate t u h" and k: "kv_key_ok k" and km: "fresh_alloc km"
    and w: "write_kv km u k v h = Inr (r, h')"
  shows "kv_separate t u h'" "kv_lookup (kv_store t) h' = kv_lookup (kv_store t) h"
proof -
  from sep have wf: "kv_wf t h" "kv_wf u h" and dis: "kv_foot t h \<inter> kv_foot u h = {}"
    by (auto simp: kv_separate_def)
  note f = write_kv_frame [OF wf(2) k km w]
  have "h' a = h a" if "a \<in> kv_foot t h" for a
    using f(1) kv_foot_allocated [OF wf(1) that] dis that by blast
  note t = kv_foot_frame [OF wf(1) this]
  have "kv_wf u h'" using write_kv_wf_lookup [OF wf(2) k km, of v] w by auto
  moreover have "kv_foot t h' \<inter> kv_foot u h' = {}"
    using f(2) t(3) dis kv_foot_allocated [OF wf(1)] by blast
  ultimately show "kv_separate t u h'" "kv_lookup (kv_store t) h' = kv_lookup (kv_store t) h"
    using t by (simp_all add: kv_separate_def)
qed

text \<open>The same server seen with a second store next to it, whose content \<open>m\<close> is part of the invariant.\<close>

interpretation kv_child: kv_server "\<lambda>km k v h. write_kv km u k v h" "\<lambda>k h. read_kv u k h"
  "kv_lookup (kv_store u)" "\<lambda>h. kv_separate t u h \<and> kv_lookup (kv_store t) h = m" kv_key_ok fresh_alloc
  for t u m
proof unfold_locales
  fix h k al v
  assume a: "kv_separate t u h \<and> kv_lookup (kv_store t) h = m" "kv_key_ok k" "fresh_alloc al"
  then obtain r h' where "write_kv al u k v h = Inr (r, h')"
      "kv_spec (kv_lookup (kv_store u) h) (Put al k v) r (kv_lookup (kv_store u) h')"
    using kv.put_law [of u h k al v] by (auto simp: kv_separate_def)
  with a write_kv_separate [of t u h k al v r h']
  show "\<exists>r h'. write_kv al u k v h = Inr (r, h') \<and>
      (kv_separate t u h' \<and> kv_lookup (kv_store t) h' = m) \<and>
      kv_spec (kv_lookup (kv_store u) h) (Put al k v) r (kv_lookup (kv_store u) h')" by auto
next
  fix h k
  assume "kv_separate t u h \<and> kv_lookup (kv_store t) h = m" "kv_key_ok k"
  then show "\<exists>r. read_kv u k h = Inr (r, h) \<and>
      kv_spec (kv_lookup (kv_store u) h) (Get k :: kmalloc_fn kv_req) r (kv_lookup (kv_store u) h)"
    using kv.get_law [of u h k] by (simp add: kv_separate_def)
qed

section \<open>Creating a store\<close>

lemma init_task_kv_store_ok:
  assumes km: "fresh_alloc km1" "fresh_alloc km2" and len: "length jb = 1024" "length jl = 1024"
    and st: "km1 h = Some st" and lk: "km2 (h(st \<mapsto> KBuckets (replicate 1024 []))) = Some lk"
  shows "init_task_kv_store km1 jb km2 jl task h =
    (0, task\<lparr>kv_store := st, kv_locks := lk\<rparr>,
     h(st \<mapsto> KBuckets (replicate 1024 []), lk \<mapsto> KSpinlocks (replicate 1024 False)))"
  using assms by (simp add: init_task_kv_store_def fill_loop_length)

lemma kv_empty_store:
  fixes h :: kheap
  assumes "st \<noteq> NULL" "lk \<noteq> NULL" "st \<noteq> lk" "kv_store task = st" "kv_locks task = lk"
  defines "h' \<equiv> h(st \<mapsto> KBuckets (replicate 1024 []), lk \<mapsto> KSpinlocks (replicate 1024 False))"
  shows "kv_wf task h'" "kv_lookup st h' = Map.empty" "kv_foot task h' = {st, lk}"
  using assms kv_key_ok_index
  by (auto simp: kv_wf_def kv_buckets_wf_def buckets_ok_def kv_lookup_def bucket_lookup_def kv_foot_def
      fun_eq_iff split: option.splits)

lemma init_task_kv_store_cases:
  assumes km: "fresh_alloc km1" "fresh_alloc km2" and len: "length jb = 1024" "length jl = 1024"
    and init: "init_task_kv_store km1 jb km2 jl task h = (r, task', h')"
  shows "r = 0 \<and> kv_wf task' h' \<and> kv_lookup (kv_store task') h' = Map.empty \<and>
           (\<forall>a. h a \<noteq> None \<longrightarrow> h' a = h a \<and> a \<notin> kv_foot task' h') \<or>
         r = - ENOMEM \<and> kv_locks task' = (if km1 h = None then kv_locks task else NULL) \<and>
           (kv_store task' \<noteq> NULL \<longrightarrow> h' (kv_store task') = None)"
proof (cases "km1 h")
  case None
  with init show ?thesis by (auto simp: init_task_kv_store_def)
next
  case (Some st)
  then have st: "st \<noteq> NULL" "h st = None" using fresh_allocD [OF km(1)] by blast+
  let ?h = "h(st \<mapsto> KBuckets (replicate 1024 []))"
  show ?thesis
  proof (cases "km2 ?h")
    case None
    with Some st init len show ?thesis by (auto simp: init_task_kv_store_def fill_loop_length kfree_def)
  next
    case 2: (Some lk)
    then have lk: "lk \<noteq> NULL" "?h lk = None" using fresh_allocD [OF km(2)] by blast+
    then have ne: "st \<noteq> lk" "h lk = None" by (auto split: if_splits)
    have eq: "r = 0" "task' = task\<lparr>kv_store := st, kv_locks := lk\<rparr>"
      "h' = ?h(lk \<mapsto> KSpinlocks (replicate 1024 False))"
      using init init_task_kv_store_ok [OF km len Some 2] by simp_all
    have t: "kv_store task' = st" "kv_locks task' = lk" using eq by simp_all
    note e = kv_empty_store [OF st(1) lk(1) ne(1) t, of h]
    show ?thesis using e eq(1,3) t st ne by auto
  qed
qed

section \<open>Properties\<close>

text \<open>
  C7: a client that issues any sequence of \<open>write_kv\<close> and \<open>read_kv\<close> calls with admissible keys
  against a well-formed store gets an answer to every call, the store stays well-formed, and the
  answers and the final content are those of a map: the hash table with its 1024 locked buckets
  refines the map specification.
\<close>
theorem kv_store_refines_map:
  assumes "kv_wf task h" "\<forall>req \<in> set reqs. kv_key_ok (req_key req) \<and> req_alloc_ok fresh_alloc req"
  shows "\<exists>rs h'. kv_run (\<lambda>km k v. write_kv km task k v) (read_kv task) reqs h = Inr (rs, h') \<and>
    kv_wf task h' \<and> kv_spec_run (kv_lookup (kv_store task) h) reqs rs (kv_lookup (kv_store task) h')"
  using kv.run_refines [OF assms] .

text \<open>
  Values survive the round trip through the user-space wrappers exactly when the C library
  does not mistake them for an error number: after a successful \<open>write_kv(k, v)\<close> the call
  \<open>read_kv(k)\<close> returns \<open>v\<close>, except that a value between \<open>-4095\<close> and \<open>-2\<close> is reported
  as \<open>-1\<close>, which is also the answer for an absent key.
\<close>

theorem user_kv_roundtrip:
  assumes "kv_wf task h" "kv_key_ok k" "fresh_alloc km" "user_write_kv km task k v h = Inr (0, h')"
  shows "user_read_kv task k h' =
    Inr (if - 4095 \<le> sint v \<and> sint v \<le> - 2 then - 1 else sint v, h')"
proof -
  obtain r h2 where w: "write_kv km task k v h = Inr (r, h2)" "kv_wf task h2" and
      c: "r = 0 \<and> kv_lookup (kv_store task) h2 = (kv_lookup (kv_store task) h)(k \<mapsto> v) \<or> r = - 1"
    using write_kv_wf_lookup [OF assms(1-3), of v] by blast
  with assms(4) have "r = 0" "h2 = h'" by (auto simp: user_write_kv_def libc_syscall_def)
  with w c have "read_kv task k h' = Inr (sint v, h')" using assms(2) by (simp add: read_kv_eq)
  then show ?thesis by (auto simp: user_read_kv_def libc_syscall_def)
qed

text \<open>
  C36: the keys on which the system calls are safe. On a well-formed store \<open>write_kv\<close> and
  \<open>read_kv\<close> return if and only if the key is not negative or is a multiple of 1024; every other
  negative key indexes the lock array below its first element.
\<close>
theorem kv_returns_iff_key_ok:
  assumes "kv_wf task h" "fresh_alloc km"
  shows "((\<exists>r. write_kv km task k v h = Inr r) \<longleftrightarrow> 0 \<le> sint k \<or> 1024 dvd sint k) \<and>
    ((\<exists>r. read_kv task k h = Inr r) \<longleftrightarrow> 0 \<le> sint k \<or> 1024 dvd sint k)"
proof
  show "(\<exists>r. write_kv km task k v h = Inr r) \<longleftrightarrow> 0 \<le> sint k \<or> 1024 dvd sint k"
    using write_kv_wf_lookup [OF assms(1) _ assms(2), of k v] kv_bucket_out_of_bounds(1) [OF assms(1)]
    unfolding kv_key_ok_iff [symmetric] by fastforce
  show "(\<exists>r. read_kv task k h = Inr r) \<longleftrightarrow> 0 \<le> sint k \<or> 1024 dvd sint k"
    using read_kv_eq [OF assms(1)] kv_bucket_out_of_bounds(2) [OF assms(1)]
    unfolding kv_key_ok_iff [symmetric] by fastforce
qed

text \<open>
  The store of a new process. Without \<open>CLONE_THREAD\<close>, when both allocations succeed, the
  child starts with an empty store of its own, and whatever requests it then issues, the content
  of its parent's store does not change.
\<close>

theorem forked_store_isolated:
  assumes "kv_wf cur h" "fresh_alloc km1" "fresh_alloc km2" "length jb = 1024" "length jl = 1024"
    and "copy_process_kv False km1 jb km2 jl cur p h = (child, h1)"
    and "fst (init_task_kv_store km1 jb km2 jl p h) = 0"
    and "\<forall>req \<in> set reqs. kv_key_ok (req_key req) \<and> req_alloc_ok fresh_alloc req"
  shows "\<exists>rs h2. kv_run (\<lambda>km k v. write_kv km child k v) (read_kv child) reqs h1 = Inr (rs, h2) \<and>
    kv_spec_run Map.empty reqs rs (kv_lookup (kv_store child) h2) \<and>
    kv_wf cur h2 \<and> kv_lookup (kv_store cur) h2 = kv_lookup (kv_store cur) h"
proof -
  have init: "init_task_kv_store km1 jb km2 jl p h = (0, child, h1)"
    using assms(6,7) by (cases "init_task_kv_store km1 jb km2 jl p h") (simp add: copy_process_kv_def)
  have c: "kv_wf child h1" "kv_lookup (kv_store child) h1 = Map.empty"
    and f: "\<And>a. h a \<noteq> None \<Longrightarrow> h1 a = h a \<and> a \<notin> kv_foot child h1"
    using init_task_kv_store_cases [OF assms(2-5) init] by auto
  have fc: "\<And>a. a \<in> kv_foot cur h \<Longrightarrow> h1 a = h a"
    using f kv_foot_allocated [OF assms(1)] by blast
  note g = kv_foot_frame [OF assms(1) fc]
  have "kv_separate cur child h1"
    using c g f kv_foot_allocated [OF assms(1)] unfolding kv_separate_def by blast
  with kv_child.run_refines [of cur child h1 "kv_lookup (kv_store cur) h" reqs] assms(8) g(2) c(2)
  show ?thesis by (auto simp: kv_separate_def)
qed

text \<open>
  \<open>copy_process\<close> does not look at the result of \<open>init_task_kv_store\<close>. When one of its two
  allocations fails, the child is created all the same, with the lock pointer it was copied with or
  a \<open>NULL\<close> one, and its first system call on any admissible key dereferences a \<open>NULL\<close> pointer.
\<close>

theorem kv_init_failure_faults:
  assumes "kv_wf cur h" "fresh_alloc km1" "fresh_alloc km2" "length jb = 1024" "length jl = 1024"
    and "kv_locks p = kv_locks cur" "fst (init_task_kv_store km1 jb km2 jl p h) \<noteq> 0"
    and "copy_process_kv False km1 jb km2 jl cur p h = (child, h')" and "kv_key_ok k"
  shows "write_kv km child k v h' = Inl NullDeref \<and> read_kv child k h' = Inl NullDeref"
proof -
  obtain r where init: "init_task_kv_store km1 jb km2 jl p h = (r, child, h')" "r \<noteq> 0"
    using assms(7,8) by (cases "init_task_kv_store km1 jb km2 jl p h") (simp add: copy_process_kv_def)
  show ?thesis
  proof (cases "km1 h")
    case None
    then have c: "kv_store child = NULL" "kv_locks child = kv_locks cur" "h' = h"
      using init assms(6) by (auto simp: init_task_kv_store_def)
    from assms(1) obtain bs where "h (kv_store cur) = Some (KBuckets bs)" by (rule kv_wfE)
    note l = kv_locked(1) [OF assms(1) this assms(9)]
    with c show ?thesis by (simp add: write_kv_def read_kv_def kfault_simps Let_def)
  next
    case (Some st)
    then have "kv_locks child = NULL"
      using init_task_kv_store_cases [OF assms(2-5) init(1)] init(2) by auto
    then show ?thesis by (simp add: write_kv_def read_kv_def spin_lock_def kfault_simps Let_def)
  qed
qed

text \<open>
  Threads of a group share one store: after \<open>CLONE_THREAD\<close> a value the new thread writes is
  the value its creator reads, and the memory of the store is not copied.
\<close>

theorem thread_store_shared:
  assumes "kv_wf cur h" "kv_key_ok k" "fresh_alloc km"
    and "copy_process_kv True km1 jb km2 jl cur p h = (child, h1)"
    and "write_kv km child k v h1 = Inr (0, h2)"
  shows "h1 = h \<and> read_kv cur k h2 = Inr (sint v, h2)"
proof -
  have child: "kv_store child = kv_store cur" "kv_locks child = kv_locks cur" "h1 = h"
    using assms(4) by (auto simp: copy_process_kv_def)
  then have "kv_wf child h" "write_kv km child k v h = Inr (0, h2)"
    using assms(1,5) by (simp_all add: kv_wf_def)
  then have "kv_wf child h2" "kv_lookup (kv_store child) h2 = (kv_lookup (kv_store child) h)(k \<mapsto> v)"
    using write_kv_wf_lookup [OF _ assms(2,3), of child h v] by auto
  with child assms(2) show ?thesis by (simp add: read_kv_eq kv_wf_def)
qed

section \<open>Witnesses\<close>

text \<open>A task with an empty store at addresses 1 and 2, and allocators that use address 3 or 4.\<close>

definition kv_ex_task :: task_struct where
  "kv_ex_task = task_zero\<lparr>kv_store := 1, kv_locks := 2\<rparr>"

definition kv_ex_heap :: kheap where
  "kv_ex_heap = Map.empty(1 \<mapsto> KBuckets (replicate 1024 []), 2 \<mapsto> KSpinlocks (replicate 1024 False))"

definition kv_ex_alloc :: "addr \<Rightarrow> kmalloc_fn" where
  "kv_ex_alloc a h = (if a \<noteq> NULL \<and> h a = None then Some a else None)"

lemma kv_ex_facts: "kv_wf kv_ex_task kv_ex_heap" "fresh_alloc (kv_ex_alloc a)"
  "kv_lookup 1 kv_ex_heap = Map.empty" "kv_key_ok 5" "kv_store kv_ex_task = 1" "kv_locks kv_ex_task = 2"
  using kv_empty_store [of 1 2 kv_ex_task Map.empty]
  by (auto simp: kv_ex_task_def kv_ex_heap_def fresh_alloc_def kv_ex_alloc_def kv_key_ok_iff split: if_splits)

lemma kv_ex_bucket: "nat (kv_bucket 5) = 5"
  by (simp add: kv_bucket_def signed_modulo_int_def)

text \<open>A write of any value under key 5 into the empty store, with memory left.\<close>

definition kv_ex_written :: "s32 \<Rightarrow> kheap" where
  "kv_ex_written v = kv_ex_heap(3 \<mapsto> KNode \<lparr>kvn_key = 5, kvn_value = v\<rparr>,
     1 \<mapsto> KBuckets ((replicate 1024 [])[5 := [3]]))"

lemma kv_ex_write: "write_kv (kv_ex_alloc 3) kv_ex_task 5 v kv_ex_heap = Inr (0, kv_ex_written v)"
proof -
  have h: "kv_ex_heap (kv_store kv_ex_task) = Some (KBuckets (replicate 1024 []))"
    by (simp add: kv_ex_heap_def kv_ex_facts)
  have "find (has_key kv_ex_heap 5) (replicate 1024 [] ! nat (kv_bucket 5)) = None"
    by (simp add: kv_ex_bucket)
  from write_kv_miss [OF kv_ex_facts(1) h kv_ex_facts(4) this kv_ex_facts(2) [of 3], of v]
  show ?thesis by (simp add: kv_ex_written_def kv_ex_alloc_def kv_ex_facts kv_ex_heap_def kv_ex_bucket)
qed

theorem kv_store_refines_map_witness:
  "\<exists>rs h'. kv_run (\<lambda>km k v. write_kv km kv_ex_task k v) (read_kv kv_ex_task)
      [Put (kv_ex_alloc 3) 5 7, Get 5] kv_ex_heap = Inr (rs, h') \<and>
    kv_wf kv_ex_task h' \<and> kv_spec_run Map.empty [Put (kv_ex_alloc 3) 5 7, Get 5] rs (kv_lookup 1 h')"
  using kv_store_refines_map [OF kv_ex_facts(1), of "[Put (kv_ex_alloc 3) 5 7, Get 5]"]
  by (simp add: kv_ex_facts del: kv_run.simps One_nat_def)

theorem user_kv_roundtrip_witness:
  "user_read_kv kv_ex_task 5 (kv_ex_written 7) = Inr (7, kv_ex_written 7)"
proof -
  have "user_write_kv (kv_ex_alloc 3) kv_ex_task 5 7 kv_ex_heap = Inr (0, kv_ex_written 7)"
    by (simp add: user_write_kv_def kv_ex_write libc_syscall_def)
  from user_kv_roundtrip [OF kv_ex_facts(1,4,2) this] show ?thesis by simp
qed

theorem kv_returns_iff_key_ok_witness:
  "\<not> (\<exists>r. write_kv (kv_ex_alloc 3) kv_ex_task (- 1) 7 kv_ex_heap = Inr r)"
  using kv_returns_iff_key_ok [OF kv_ex_facts(1,2), of 3 "- 1" 7] by simp

theorem forked_store_isolated_witness:
  "\<exists>child h1 rs h2.
     copy_process_kv False (kv_ex_alloc 3) (replicate 1024 []) (kv_ex_alloc 4) (replicate 1024 True)
       kv_ex_task task_zero kv_ex_heap = (child, h1) \<and>
     kv_run (\<lambda>km k v. write_kv km child k v) (read_kv child) [Put (kv_ex_alloc 5) 5 7] h1 = Inr (rs, h2) \<and>
     kv_lookup (kv_store kv_ex_task) h2 = Map.empty"
proof -
  have ok: "init_task_kv_store (kv_ex_alloc 3) (replicate 1024 []) (kv_ex_alloc 4) (replicate 1024 True)
      task_zero kv_ex_heap = (0, task_zero\<lparr>kv_store := 3, kv_locks := 4\<rparr>,
       kv_ex_heap(3 \<mapsto> KBuckets (replicate 1024 []), 4 \<mapsto> KSpinlocks (replicate 1024 False)))"
    by (rule init_task_kv_store_ok [OF kv_ex_facts(2) kv_ex_facts(2)])
      (simp_all add: kv_ex_alloc_def kv_ex_heap_def)
  then have c: "copy_process_kv False (kv_ex_alloc 3) (replicate 1024 []) (kv_ex_alloc 4) (replicate 1024 True)
      kv_ex_task task_zero kv_ex_heap = (task_zero\<lparr>kv_store := 3, kv_locks := 4\<rparr>,
       kv_ex_heap(3 \<mapsto> KBuckets (replicate 1024 []), 4 \<mapsto> KSpinlocks (replicate 1024 False)))"
    by (simp add: copy_process_kv_def)
  have i: "fst (init_task_kv_store (kv_ex_alloc 3) (replicate 1024 []) (kv_ex_alloc 4) (replicate 1024 True)
      task_zero kv_ex_heap) = 0" using ok by simp
  have r: "\<forall>req \<in> set [Put (kv_ex_alloc 5) 5 7]. kv_key_ok (req_key req) \<and> req_alloc_ok fresh_alloc req"
    by (simp add: kv_ex_facts)
  from forked_store_isolated [OF kv_ex_facts(1) kv_ex_facts(2) kv_ex_facts(2) _ _ c i r] kv_ex_facts(3,5) c
  show ?thesis by auto
qed

theorem kv_init_failure_faults_witness:
  "write_kv (kv_ex_alloc 3)
     (fst (copy_process_kv False (\<lambda>h. None) (replicate 1024 []) (kv_ex_alloc 4) (replicate 1024 True)
        kv_ex_task kv_ex_task kv_ex_heap)) 5 7
     (snd (copy_process_kv False (\<lambda>h. None) (replicate 1024 []) (kv_ex_alloc 4) (replicate 1024 True)
        kv_ex_task kv_ex_task kv_ex_heap)) = Inl NullDeref"
proof -
  have f: "fresh_alloc (\<lambda>h. None)" by (simp add: fresh_alloc_def)
  have i: "fst (init_task_kv_store (\<lambda>h. None) (replicate 1024 []) (kv_ex_alloc 4) (replicate 1024 True)
      kv_ex_task kv_ex_heap) \<noteq> 0"
    by (simp add: init_task_kv_store_def)
  show ?thesis
    by (rule kv_init_failure_faults [OF kv_ex_facts(1) f kv_ex_facts(2) _ _ _ i prod.collapse [symmetric]
          kv_ex_facts(4), THEN conjunct1]) simp_all
qed

theorem thread_store_shared_witness:
  "read_kv kv_ex_task 5 (kv_ex_written 7) = Inr (7, kv_ex_written 7)"
proof -
  have c: "copy_process_kv True (kv_ex_alloc 3) [] (kv_ex_alloc 4) [] kv_ex_task task_zero kv_ex_heap =
      (kv_ex_task, kv_ex_heap)"
    by (simp add: copy_process_kv_def kv_ex_task_def)
  from thread_store_shared [OF kv_ex_facts(1,4,2) c kv_ex_write [of 7]] show ?thesis by simp
qed

end
