(* ===== verification/KV_Concurrent.thy ===== *)
theory KV_Concurrent
  imports KV_Store
begin

text \<open>
  Threads of one group calling \<open>write_kv\<close> and \<open>read_kv\<close> of kernel/kv_store.c at the same time
  on the store they share. A call is a sequence of steps, one per access to shared memory that
  another thread can observe: taking the bucket's spin lock, the scan, the store or the insertion,
  the unlock and, in \<open>read_kv\<close>, the read of \<open>node->value\<close> after the unlock. Any number of
  threads call with any keys and interleave freely; an access outside of an object ends the thread in a
  fault. The theory shows that only calls whose key has no bucket fault, before they hold a lock, that a bucket has one
  owner, and that the calls take effect one at a time, each between its invocation and its return.
\<close>

section \<open>Steps\<close>

type_synonym tid = nat

datatype kv_pc =
    Idle
  | WStart s32 s32
  | WScan s32 s32
  | WSet s32 s32 addr
  | WNew s32 s32
  | WUnlock s32 int
  | RStart s32
  | RScan s32
  | RUnlock s32 "addr option"
  | RVal s32 addr
  | Returned int
  | Faulted s32 kfault

text \<open>
  \<open>kv_log\<close> and \<open>kv_calls\<close> are ghost variables: the calls in the order in which they took effect
  with the thread and the result, and the number of calls each thread has made.
\<close>

record kv_sys =
  kv_mem :: kheap
  kv_pcs :: "tid \<Rightarrow> kv_pc"
  kv_log :: "(tid \<times> unit kv_req \<times> int) list"
  kv_calls :: "tid \<Rightarrow> nat"

definition goto_pc :: "tid \<Rightarrow> kv_pc \<Rightarrow> kv_sys \<Rightarrow> kv_sys" where
  "goto_pc i pc s = s\<lparr>kv_pcs := (kv_pcs s)(i := pc)\<rparr>"

definition log_ev :: "tid \<Rightarrow> unit kv_req \<Rightarrow> int \<Rightarrow> kv_sys \<Rightarrow> kv_sys" where
  "log_ev i req r s = s\<lparr>kv_log := kv_log s @ [(i, req, r)]\<rparr>"

definition call_pc :: "tid \<Rightarrow> kv_pc \<Rightarrow> kv_sys \<Rightarrow> kv_sys" where
  "call_pc i pc s = goto_pc i pc (s\<lparr>kv_calls := (kv_calls s)(i := Suc (kv_calls s i))\<rparr>)"

definition head_of :: "task_struct \<Rightarrow> s32 \<Rightarrow> kheap \<Rightarrow> addr list kres" where
  "head_of task k h = rbind (deref_buckets (kv_store task) h) (\<lambda>bs. array_get bs (kv_bucket k))"

definition scan :: "task_struct \<Rightarrow> s32 \<Rightarrow> kheap \<Rightarrow> addr option kres" where
  "scan task k h = rbind (head_of task k h) (\<lambda>head. hlist_find k head h)"

inductive kv_step :: "task_struct \<Rightarrow> kv_sys \<Rightarrow> kv_sys \<Rightarrow> bool" for task where
  call_write: "kv_pcs s i = Idle \<or> (\<exists>r. kv_pcs s i = Returned r) \<Longrightarrow>
     kv_step task s (call_pc i (WStart k v) s)"
| call_read: "kv_pcs s i = Idle \<or> (\<exists>r. kv_pcs s i = Returned r) \<Longrightarrow>
     kv_step task s (call_pc i (RStart k) s)"
| w_lock: "kv_pcs s i = WStart k v \<Longrightarrow> spin_lock (kv_locks task) (kv_bucket k) (kv_mem s) = Inr h \<Longrightarrow>
     kv_step task s (goto_pc i (WScan k v) (s\<lparr>kv_mem := h\<rparr>))"
| w_hit: "kv_pcs s i = WScan k v \<Longrightarrow> scan task k (kv_mem s) = Inr (Some p) \<Longrightarrow>
     kv_step task s (goto_pc i (WSet k v p) s)"
| w_miss: "kv_pcs s i = WScan k v \<Longrightarrow> scan task k (kv_mem s) = Inr None \<Longrightarrow>
     kv_step task s (goto_pc i (WNew k v) s)"
| w_set: "kv_pcs s i = WSet k v p \<Longrightarrow> set_node_value p v (kv_mem s) = Inr h \<Longrightarrow>
     kv_step task s (log_ev i (Put () k v) 0 (goto_pc i (WUnlock k 0) (s\<lparr>kv_mem := h\<rparr>)))"
| w_new: "kv_pcs s i = WNew k v \<Longrightarrow> p \<noteq> NULL \<Longrightarrow> kv_mem s p = None \<Longrightarrow>
     kv_add_head (kv_store task) (kv_bucket k) p
       ((kv_mem s)(p \<mapsto> KNode \<lparr>kvn_key = k, kvn_value = v\<rparr>)) = Inr h \<Longrightarrow>
     kv_step task s (log_ev i (Put () k v) 0 (goto_pc i (WUnlock k 0) (s\<lparr>kv_mem := h\<rparr>)))"
| w_nomem: "kv_pcs s i = WNew k v \<Longrightarrow>
     kv_step task s (log_ev i (Put () k v) (- 1) (goto_pc i (WUnlock k (- 1)) s))"
| w_unlock: "kv_pcs s i = WUnlock k r \<Longrightarrow> spin_unlock (kv_locks task) (kv_bucket k) (kv_mem s) = Inr h \<Longrightarrow>
     kv_step task s (goto_pc i (Returned r) (s\<lparr>kv_mem := h\<rparr>))"
| r_lock: "kv_pcs s i = RStart k \<Longrightarrow> spin_lock (kv_locks task) (kv_bucket k) (kv_mem s) = Inr h \<Longrightarrow>
     kv_step task s (goto_pc i (RScan k) (s\<lparr>kv_mem := h\<rparr>))"
| r_hit: "kv_pcs s i = RScan k \<Longrightarrow> scan task k (kv_mem s) = Inr (Some p) \<Longrightarrow>
     kv_step task s (goto_pc i (RUnlock k (Some p)) s)"
| r_miss: "kv_pcs s i = RScan k \<Longrightarrow> scan task k (kv_mem s) = Inr None \<Longrightarrow>
     kv_step task s (log_ev i (Get k) (- 1) (goto_pc i (RUnlock k None) s))"
| r_unlock_hit: "kv_pcs s i = RUnlock k (Some p) \<Longrightarrow>
     spin_unlock (kv_locks task) (kv_bucket k) (kv_mem s) = Inr h \<Longrightarrow>
     kv_step task s (goto_pc i (RVal k p) (s\<lparr>kv_mem := h\<rparr>))"
| r_unlock_miss: "kv_pcs s i = RUnlock k None \<Longrightarrow>
     spin_unlock (kv_locks task) (kv_bucket k) (kv_mem s) = Inr h \<Longrightarrow>
     kv_step task s (goto_pc i (Returned (- 1)) (s\<lparr>kv_mem := h\<rparr>))"
| r_value: "kv_pcs s i = RVal k p \<Longrightarrow> deref_node p (kv_mem s) = Inr n \<Longrightarrow>
     kv_step task s (log_ev i (Get k) (sint (kvn_value n)) (goto_pc i (Returned (sint (kvn_value n))) s))"
| lock_fault: "kv_pcs s i = WStart k v \<or> kv_pcs s i = RStart k \<Longrightarrow>
     spin_lock (kv_locks task) (kv_bucket k) (kv_mem s) = Inl e \<Longrightarrow> e \<noteq> SelfDeadlock \<Longrightarrow>
     kv_step task s (goto_pc i (Faulted k e) s)"
| scan_fault: "kv_pcs s i = WScan k v \<or> kv_pcs s i = RScan k \<Longrightarrow> scan task k (kv_mem s) = Inl e \<Longrightarrow>
     kv_step task s (goto_pc i (Faulted k e) s)"
| set_fault: "kv_pcs s i = WSet k v p \<Longrightarrow> set_node_value p v (kv_mem s) = Inl e \<Longrightarrow>
     kv_step task s (goto_pc i (Faulted k e) s)"
| add_fault: "kv_pcs s i = WNew k v \<Longrightarrow> p \<noteq> NULL \<Longrightarrow> kv_mem s p = None \<Longrightarrow>
     kv_add_head (kv_store task) (kv_bucket k) p
       ((kv_mem s)(p \<mapsto> KNode \<lparr>kvn_key = k, kvn_value = v\<rparr>)) = Inl e \<Longrightarrow>
     kv_step task s (goto_pc i (Faulted k e) s)"
| unlock_fault: "kv_pcs s i = WUnlock k r \<or> kv_pcs s i = RUnlock k q \<Longrightarrow>
     spin_unlock (kv_locks task) (kv_bucket k) (kv_mem s) = Inl e \<Longrightarrow>
     kv_step task s (goto_pc i (Faulted k e) s)"
| value_fault: "kv_pcs s i = RVal k p \<Longrightarrow> deref_node p (kv_mem s) = Inl e \<Longrightarrow>
     kv_step task s (goto_pc i (Faulted k e) s)"

definition kv_start :: "kheap \<Rightarrow> kv_sys" where
  "kv_start h = \<lparr>kv_mem = h, kv_pcs = (\<lambda>_. Idle), kv_log = [], kv_calls = (\<lambda>_. 0)\<rparr>"

inductive kv_reach :: "task_struct \<Rightarrow> kheap \<Rightarrow> kv_sys \<Rightarrow> bool" for task h0 where
  start: "kv_reach task h0 (kv_start h0)"
| step: "kv_reach task h0 s \<Longrightarrow> kv_step task s t \<Longrightarrow> kv_reach task h0 t"

section \<open>The invariant\<close>

text \<open>The bucket whose lock a thread holds.\<close>

fun holds :: "kv_pc \<Rightarrow> nat option" where
  "holds (WScan k v) = Some (nat (kv_bucket k))"
| "holds (WSet k v p) = Some (nat (kv_bucket k))"
| "holds (WNew k v) = Some (nat (kv_bucket k))"
| "holds (WUnlock k r) = Some (nat (kv_bucket k))"
| "holds (RScan k) = Some (nat (kv_bucket k))"
| "holds (RUnlock k q) = Some (nat (kv_bucket k))"
| "holds _ = None"

text \<open>The node of a key in the bucket array.\<close>

definition kv_find :: "addr \<Rightarrow> kheap \<Rightarrow> s32 \<Rightarrow> addr option" where
  "kv_find st h k = (case h st of
     Some (KBuckets bs) \<Rightarrow> find (has_key h k) (bs ! nat (kv_bucket k)) | _ \<Rightarrow> None)"

fun pc_ok :: "addr \<Rightarrow> kheap \<Rightarrow> kv_pc \<Rightarrow> bool" where
  "pc_ok st h (WStart k v) = True"
| "pc_ok st h (WScan k v) = kv_key_ok k"
| "pc_ok st h (WSet k v p) = (kv_key_ok k \<and> kv_find st h k = Some p)"
| "pc_ok st h (WNew k v) = (kv_key_ok k \<and> kv_find st h k = None)"
| "pc_ok st h (WUnlock k r) = kv_key_ok k"
| "pc_ok st h (RStart k) = True"
| "pc_ok st h (RScan k) = kv_key_ok k"
| "pc_ok st h (RUnlock k (Some p)) = (kv_key_ok k \<and> kv_find st h k = Some p)"
| "pc_ok st h (RUnlock k None) = kv_key_ok k"
| "pc_ok st h (RVal k p) = (kv_key_ok k \<and> kv_find st h k = Some p)"
| "pc_ok st h (Faulted k e) = (\<not> kv_key_ok k)"
| "pc_ok st h _ = True"

text \<open>A call that has not taken effect yet, and the result of one that has.\<close>

fun pending :: "kv_pc \<Rightarrow> bool" where
  "pending (WStart k v) = True"
| "pending (WScan k v) = True"
| "pending (WSet k v p) = True"
| "pending (WNew k v) = True"
| "pending (RStart k) = True"
| "pending (RScan k) = True"
| "pending (RUnlock k (Some p)) = True"
| "pending (RVal k p) = True"
| "pending (Faulted k e) = True"
| "pending _ = False"

fun result_of :: "kv_pc \<Rightarrow> int option" where
  "result_of (WUnlock k r) = Some r"
| "result_of (RUnlock k None) = Some (- 1)"
| "result_of (Returned r) = Some r"
| "result_of _ = None"

definition own_events :: "tid \<Rightarrow> (tid \<times> unit kv_req \<times> int) list \<Rightarrow> (tid \<times> unit kv_req \<times> int) list" where
  "own_events i evs = filter (\<lambda>e. fst e = i) evs"

definition lock_inv :: "task_struct \<Rightarrow> kv_sys \<Rightarrow> bool" where
  "lock_inv task s \<longleftrightarrow> kv_locks task \<noteq> NULL \<and>
     (\<exists>ls. kv_mem s (kv_locks task) = Some (KSpinlocks ls) \<and> length ls = 1024 \<and>
        (\<forall>i b. holds (kv_pcs s i) = Some b \<longrightarrow> b < 1024 \<and> ls ! b) \<and>
        (\<forall>b < 1024. ls ! b \<longrightarrow> (\<exists>i. holds (kv_pcs s i) = Some b))) \<and>
     (\<forall>i j b. holds (kv_pcs s i) = Some b \<and> holds (kv_pcs s j) = Some b \<longrightarrow> i = j)"

definition history_inv :: "(s32 \<Rightarrow> s32 option) \<Rightarrow> addr \<Rightarrow> kv_sys \<Rightarrow> bool" where
  "history_inv m st s \<longleftrightarrow>
     kv_spec_run m (map (fst \<circ> snd) (kv_log s)) (map (snd \<circ> snd) (kv_log s)) (kv_lookup st (kv_mem s))"

definition calls_inv :: "kv_sys \<Rightarrow> bool" where
  "calls_inv s \<longleftrightarrow> (\<forall>i.
     kv_calls s i = length (own_events i (kv_log s)) + of_bool (pending (kv_pcs s i)) \<and>
     (\<forall>r. result_of (kv_pcs s i) = Some r \<longrightarrow>
        own_events i (kv_log s) \<noteq> [] \<and> snd (snd (last (own_events i (kv_log s)))) = r))"

definition kv_sys_inv :: "(s32 \<Rightarrow> s32 option) \<Rightarrow> task_struct \<Rightarrow> kv_sys \<Rightarrow> bool" where
  "kv_sys_inv m task s \<longleftrightarrow> kv_buckets_wf (kv_store task) (kv_mem s) \<and> lock_inv task s \<and>
     (\<forall>i. pc_ok (kv_store task) (kv_mem s) (kv_pcs s i)) \<and>
     history_inv m (kv_store task) s \<and> calls_inv s"

section \<open>Effects of a step on the store\<close>

lemmas sys_defs = goto_pc_def log_ev_def call_pc_def

lemma pc_ok_cong: "kv_find st h' = kv_find st h \<Longrightarrow> pc_ok st h' pc = pc_ok st h pc"
  by (cases "(st, h, pc)" rule: pc_ok.cases) auto

lemma scan_eq:
  assumes "kv_buckets_wf (kv_store task) h" "kv_key_ok k"
  shows "scan task k h = Inr (kv_find (kv_store task) h k)"
proof -
  from assms(1) obtain bs where bs: "kv_store task \<noteq> NULL" "h (kv_store task) = Some (KBuckets bs)"
    "buckets_ok h bs" by (rule kv_buckets_wfE)
  have b: "nat (kv_bucket k) < 1024" using kv_key_ok_index [OF assms(2)] by blast
  have "head_of task k h = Inr (bs ! nat (kv_bucket k))"
    using bs assms(2) kv_bucket_bounds [of k]
    by (simp add: head_of_def kfault_simps kv_key_ok_def buckets_ok_def)
  moreover have "\<forall>p \<in> set (bs ! nat (kv_bucket k)). node_in_bucket h (nat (kv_bucket k)) p"
    using buckets_okD(1) [OF bs(3) b] by blast
  ultimately show ?thesis using bs(2) by (simp add: scan_def hlist_find_eq kv_find_def)
qed

lemma kv_find_node:
  assumes "kv_buckets_wf st h" "kv_key_ok k" "kv_find st h k = Some p"
  shows "p \<noteq> NULL" "\<exists>n. node_of h p = Some n \<and> kvn_key n = k"
  using assms find_has_key_node [of h _ k p] by (auto elim!: kv_buckets_wfE simp: kv_find_def)

lemma kv_lookup_find:
  assumes "kv_buckets_wf st h" "kv_key_ok k"
  shows "kv_lookup st h k = (case kv_find st h k of None \<Rightarrow> None | Some p \<Rightarrow> map_option kvn_value (node_of h p))"
  using assms by (auto elim!: kv_buckets_wfE simp: kv_find_def kv_lookup_def bucket_lookup_def)

text \<open>Locks are not part of the store's content.\<close>

lemma lock_array_frame:
  assumes "kv_buckets_wf st h" "h lk = Some (KSpinlocks ls)"
  shows "kv_buckets_wf st (h(lk \<mapsto> KSpinlocks ls'))" "kv_find st (h(lk \<mapsto> KSpinlocks ls')) = kv_find st h"
    "kv_lookup st (h(lk \<mapsto> KSpinlocks ls')) = kv_lookup st h"
proof -
  let ?h = "h(lk \<mapsto> KSpinlocks ls')"
  from assms(1) obtain bs where bs: "st \<noteq> NULL" "h st = Some (KBuckets bs)" "buckets_ok h bs"
    by (rule kv_buckets_wfE)
  have no: "node_of ?h = node_of h" using assms(2) by simp
  have st: "?h st = Some (KBuckets bs)" using bs assms(2) by auto
  have hk: "has_key ?h = has_key h" by (simp add: has_key_def fun_eq_iff no)
  show "kv_buckets_wf st ?h"
    using bs st by (simp add: kv_buckets_wf_def buckets_ok_def node_in_bucket_def no)
  show "kv_find st ?h = kv_find st h"
    unfolding kv_find_def st bs(2) hk by simp
  show "kv_lookup st ?h = kv_lookup st h"
    unfolding kv_lookup_def bucket_lookup_def st bs(2) hk no by simp
qed

lemma set_value_find:
  assumes "node_of h p = Some n"
  shows "kv_find st (h(p \<mapsto> KNode (n\<lparr>kvn_value := v\<rparr>))) = kv_find st h"
proof -
  let ?h = "h(p \<mapsto> KNode (n\<lparr>kvn_value := v\<rparr>))"
  have hk: "has_key ?h = has_key h" using assms by (auto simp: has_key_def fun_eq_iff)
  have "st = p \<Longrightarrow> \<not> (\<exists>bs. h st = Some (KBuckets bs))" using assms by auto
  then show ?thesis unfolding kv_find_def hk by (auto split: option.splits kobj.splits)
qed

lemma add_node_find:
  assumes wf: "kv_buckets_wf st h" "h st = Some (KBuckets bs)" and k: "kv_key_ok k" "kv_key_ok k'"
    and p: "h p = None"
  shows "kv_find st (h(p \<mapsto> KNode \<lparr>kvn_key = k, kvn_value = v\<rparr>,
           st \<mapsto> KBuckets (bs[nat (kv_bucket k) := p # bs ! nat (kv_bucket k)]))) k' =
    (if k' = k then Some p else kv_find st h k')"
proof -
  let ?n = "\<lparr>kvn_key = k, kvn_value = v\<rparr>"
  let ?h = "h(p \<mapsto> KNode ?n, st \<mapsto> KBuckets (bs[nat (kv_bucket k) := p # bs ! nat (kv_bucket k)]))"
  have ok: "buckets_ok h bs" using wf by (auto elim!: kv_buckets_wfE)
  then have len: "length bs = 1024" by (simp add: buckets_ok_def)
  have "st \<noteq> p" using wf(2) p by auto
  then have no: "node_of ?h = (node_of h)(p \<mapsto> ?n)" using wf(2) by simp
  have b: "nat (kv_bucket k) < 1024" "nat (kv_bucket k') < 1024" using kv_key_ok_index k by blast+
  have "has_key ?h k' q = has_key h k' q" if "q \<in> set (bs ! nat (kv_bucket k'))" for q
    using buckets_okD(1) [OF ok b(2) that] p by (auto simp: has_key_def no node_in_bucket_def)
  then have "find (has_key ?h k') (bs ! nat (kv_bucket k')) = find (has_key h k') (bs ! nat (kv_bucket k'))"
    by (intro find_cong) auto
  moreover have "has_key ?h k' p \<longleftrightarrow> k' = k" by (auto simp: has_key_def no)
  ultimately show ?thesis
    using wf(2) len b by (cases "nat (kv_bucket k') = nat (kv_bucket k)") (auto simp: kv_find_def)
qed

lemma kv_spec_run_snoc:
  "kv_spec_run m reqs rs m' \<Longrightarrow> kv_spec m' req r m'' \<Longrightarrow> kv_spec_run m (reqs @ [req]) (rs @ [r]) m''"
  by (induction rule: kv_spec_run.induct) (auto intro: kv_spec_run.intros)

section \<open>Every step keeps the invariant\<close>

lemma own_events_snoc:
  "own_events i (evs @ [(j, req, r)]) = (if i = j then own_events i evs @ [(j, req, r)] else own_events i evs)"
  by (simp add: own_events_def)

lemma lock_inv_cong:
  assumes "lock_inv task s" "\<And>j. holds (kv_pcs t j) = holds (kv_pcs s j)"
    and "kv_mem t (kv_locks task) = kv_mem s (kv_locks task)"
  shows "lock_inv task t"
  using assms by (simp add: lock_inv_def)

text \<open>A step that changes the program counter only.\<close>

lemma inv_goto:
  assumes inv: "kv_sys_inv m task s" and "holds pc = holds (kv_pcs s i)"
    and "pc_ok (kv_store task) (kv_mem s) pc" "pending pc = pending (kv_pcs s i)" "result_of pc = None"
  shows "kv_sys_inv m task (goto_pc i pc s)"
proof -
  have "lock_inv task (goto_pc i pc s)"
    using assms by - (rule lock_inv_cong [of task s], auto simp: kv_sys_inv_def sys_defs)
  with assms show ?thesis by (auto simp: kv_sys_inv_def history_inv_def calls_inv_def sys_defs)
qed

lemma inv_call:
  assumes inv: "kv_sys_inv m task s" and idle: "kv_pcs s i = Idle \<or> (\<exists>r. kv_pcs s i = Returned r)"
    and "holds pc = None" "pc_ok (kv_store task) (kv_mem s) pc" "pending pc" "result_of pc = None"
  shows "kv_sys_inv m task (call_pc i pc s)"
proof -
  have "holds (kv_pcs s i) = None" "\<not> pending (kv_pcs s i)" using idle by auto
  moreover from this have "lock_inv task (call_pc i pc s)"
    using assms by - (rule lock_inv_cong [of task s], auto simp: kv_sys_inv_def sys_defs)
  ultimately show ?thesis
    using assms by (auto simp: kv_sys_inv_def history_inv_def calls_inv_def sys_defs)
qed

lemma inv_lock:
  assumes inv: "kv_sys_inv m task s" and k: "kv_key_ok k" and free: "holds (kv_pcs s i) = None"
    and l: "spin_lock (kv_locks task) (kv_bucket k) (kv_mem s) = Inr h"
    and pc: "holds pc = Some (nat (kv_bucket k))" "\<And>h. pc_ok (kv_store task) h pc"
      "pending pc = pending (kv_pcs s i)" "result_of pc = None"
  shows "kv_sys_inv m task (goto_pc i pc (s\<lparr>kv_mem := h\<rparr>))"
proof -
  let ?b = "nat (kv_bucket k)"
  from inv obtain ls where lk: "kv_locks task \<noteq> NULL" "kv_mem s (kv_locks task) = Some (KSpinlocks ls)"
    "length ls = 1024" and held: "\<And>j b. holds (kv_pcs s j) = Some b \<Longrightarrow> b < 1024 \<and> ls ! b"
    and owner: "\<And>b. b < 1024 \<Longrightarrow> ls ! b \<Longrightarrow> \<exists>j. holds (kv_pcs s j) = Some b"
    and excl: "\<And>j j' b. holds (kv_pcs s j) = Some b \<Longrightarrow> holds (kv_pcs s j') = Some b \<Longrightarrow> j = j'"
    by (auto simp: kv_sys_inv_def lock_inv_def)
  have b: "?b < 1024" "0 \<le> kv_bucket k" "kv_bucket k < 1024"
    using kv_key_ok_index [OF k] k kv_bucket_bounds [of k] by (auto simp: kv_key_ok_def)
  from l lk b have nl: "\<not> ls ! ?b" and h: "h = (kv_mem s)(kv_locks task \<mapsto> KSpinlocks (ls[?b := True]))"
    by (auto simp: spin_lock_def kfault_simps split: if_splits)
  have none: "holds (kv_pcs s j) \<noteq> Some ?b" for j using held nl by blast
  have bwf: "kv_buckets_wf (kv_store task) (kv_mem s)" using inv by (simp add: kv_sys_inv_def)
  note f = lock_array_frame [OF bwf lk(2), of "ls[?b := True]", folded h]
  have "\<exists>j. holds (((kv_pcs s)(i := pc)) j) = Some b" if "b < 1024" "ls[?b := True] ! b" for b
  proof (cases "b = ?b")
    case True
    with pc(1) show ?thesis by (intro exI [of _ i]) simp
  next
    case False
    with that owner obtain j where "holds (kv_pcs s j) = Some b" by fastforce
    with free show ?thesis by (intro exI [of _ j]) auto
  qed
  then have "lock_inv task (goto_pc i pc (s\<lparr>kv_mem := h\<rparr>))"
    unfolding lock_inv_def using lk held excl none pc(1) b(1) h free
    by (auto simp: sys_defs nth_list_update)
  with inv f pc(2-4) show ?thesis
    by (auto simp: kv_sys_inv_def history_inv_def calls_inv_def sys_defs pc_ok_cong [OF f(2)])
qed

lemma inv_unlock:
  assumes inv: "kv_sys_inv m task s" and k: "kv_key_ok k"
    and own: "holds (kv_pcs s i) = Some (nat (kv_bucket k))"
    and l: "spin_unlock (kv_locks task) (kv_bucket k) (kv_mem s) = Inr h"
    and pc: "holds pc = None" "pc_ok (kv_store task) (kv_mem s) pc"
      "pending pc = pending (kv_pcs s i)" "result_of pc = result_of (kv_pcs s i)"
  shows "kv_sys_inv m task (goto_pc i pc (s\<lparr>kv_mem := h\<rparr>))"
proof -
  let ?b = "nat (kv_bucket k)"
  from inv obtain ls where lk: "kv_locks task \<noteq> NULL" "kv_mem s (kv_locks task) = Some (KSpinlocks ls)"
    "length ls = 1024" and held: "\<And>j b. holds (kv_pcs s j) = Some b \<Longrightarrow> b < 1024 \<and> ls ! b"
    and owner: "\<And>b. b < 1024 \<Longrightarrow> ls ! b \<Longrightarrow> \<exists>j. holds (kv_pcs s j) = Some b"
    and excl: "\<And>j j' b. holds (kv_pcs s j) = Some b \<Longrightarrow> holds (kv_pcs s j') = Some b \<Longrightarrow> j = j'"
    by (auto simp: kv_sys_inv_def lock_inv_def)
  have b: "0 \<le> kv_bucket k" "kv_bucket k < 1024"
    using k kv_bucket_bounds [of k] by (auto simp: kv_key_ok_def)
  from l lk b have h: "h = (kv_mem s)(kv_locks task \<mapsto> KSpinlocks (ls[?b := False]))"
    by (simp add: spin_unlock_ok)
  have other: "holds (kv_pcs s j) \<noteq> Some ?b" if "j \<noteq> i" for j using excl own that by blast
  have bwf: "kv_buckets_wf (kv_store task) (kv_mem s)" using inv by (simp add: kv_sys_inv_def)
  note f = lock_array_frame [OF bwf lk(2), of "ls[?b := False]", folded h]
  have still: "ls[?b := False] ! b" if "j \<noteq> i" "holds (kv_pcs s j) = Some b" for j b
    using held [OF that(2)] other [OF that(1)] that(2) by (metis nth_list_update_neq)
  have "\<exists>j. holds (((kv_pcs s)(i := pc)) j) = Some b" if "b < 1024" "ls[?b := False] ! b" for b
  proof -
    have "b \<noteq> ?b" using that lk(3) by auto
    with that owner obtain j where "holds (kv_pcs s j) = Some b" by fastforce
    with own \<open>b \<noteq> ?b\<close> show ?thesis by (intro exI [of _ j]) auto
  qed
  then have "lock_inv task (goto_pc i pc (s\<lparr>kv_mem := h\<rparr>))"
    unfolding lock_inv_def using lk held excl still pc(1) h
    by (auto simp: sys_defs)
  with inv f pc(2-4) show ?thesis
    by (auto simp: kv_sys_inv_def history_inv_def calls_inv_def sys_defs pc_ok_cong [OF f(2)])
qed

text \<open>The step at which a call takes effect.\<close>

lemma inv_effect:
  assumes inv: "kv_sys_inv m task s" and bwf: "kv_buckets_wf (kv_store task) h"
    and lk: "h (kv_locks task) = kv_mem s (kv_locks task)"
    and others: "\<And>j. j \<noteq> i \<Longrightarrow> pc_ok (kv_store task) h (kv_pcs s j)"
    and pc: "pc_ok (kv_store task) h pc" "holds pc = holds (kv_pcs s i)" "pending (kv_pcs s i)"
      "\<not> pending pc" "result_of pc = Some r"
    and spec: "kv_spec (kv_lookup (kv_store task) (kv_mem s)) req r (kv_lookup (kv_store task) h)"
  shows "kv_sys_inv m task (log_ev i req r (goto_pc i pc (s\<lparr>kv_mem := h\<rparr>)))"
proof -
  let ?t = "log_ev i req r (goto_pc i pc (s\<lparr>kv_mem := h\<rparr>))"
  have "history_inv m (kv_store task) ?t"
    using inv kv_spec_run_snoc [OF _ spec] by (simp add: kv_sys_inv_def history_inv_def sys_defs)
  moreover have "calls_inv ?t"
    using inv pc(3-5) by (auto simp: kv_sys_inv_def calls_inv_def sys_defs own_events_snoc)
  moreover have "lock_inv task ?t"
    using inv lk pc(2) by - (rule lock_inv_cong [of task s], auto simp: kv_sys_inv_def sys_defs)
  ultimately show ?thesis
    using bwf others pc(1) by (simp add: kv_sys_inv_def sys_defs)
qed

text \<open>Under the invariant no access of a thread faults.\<close>

lemma inv_no_fault:
  assumes inv: "kv_sys_inv m task s" and k: "kv_key_ok k"
  shows "spin_lock (kv_locks task) (kv_bucket k) (kv_mem s) = Inl e \<Longrightarrow> e = SelfDeadlock"
    and "spin_unlock (kv_locks task) (kv_bucket k) (kv_mem s) \<noteq> Inl e"
    and "scan task k (kv_mem s) \<noteq> Inl e"
    and "kv_find (kv_store task) (kv_mem s) k = Some p \<Longrightarrow> \<exists>n. deref_node p (kv_mem s) = Inr n \<and>
      node_of (kv_mem s) p = Some n \<and> set_node_value p v (kv_mem s) = Inr ((kv_mem s)(p \<mapsto> KNode (n\<lparr>kvn_value := v\<rparr>)))"
    and "kv_mem s p = None \<Longrightarrow> \<exists>bs. kv_mem s (kv_store task) = Some (KBuckets bs) \<and>
      kv_add_head (kv_store task) (kv_bucket k) p ((kv_mem s)(p \<mapsto> KNode n)) =
      Inr ((kv_mem s)(p \<mapsto> KNode n, kv_store task \<mapsto> KBuckets (bs[nat (kv_bucket k) := p # bs ! nat (kv_bucket k)])))"
proof -
  from inv obtain ls where lk: "kv_locks task \<noteq> NULL" "kv_mem s (kv_locks task) = Some (KSpinlocks ls)"
    "length ls = 1024" by (auto simp: kv_sys_inv_def lock_inv_def)
  have bwf: "kv_buckets_wf (kv_store task) (kv_mem s)" using inv by (simp add: kv_sys_inv_def)
  then obtain bs where bs: "kv_store task \<noteq> NULL" "kv_mem s (kv_store task) = Some (KBuckets bs)"
    "buckets_ok (kv_mem s) bs" by (rule kv_buckets_wfE)
  have b: "0 \<le> kv_bucket k" "kv_bucket k < 1024"
    using k kv_bucket_bounds [of k] by (auto simp: kv_key_ok_def)
  show "spin_lock (kv_locks task) (kv_bucket k) (kv_mem s) = Inl e \<Longrightarrow> e = SelfDeadlock"
    using lk b by (simp add: spin_lock_def kfault_simps split: if_splits)
  show "spin_unlock (kv_locks task) (kv_bucket k) (kv_mem s) \<noteq> Inl e"
    using lk b by (simp add: spin_unlock_ok)
  show "scan task k (kv_mem s) \<noteq> Inl e" using scan_eq [OF bwf k] by simp
  show "\<exists>n. deref_node p (kv_mem s) = Inr n \<and> node_of (kv_mem s) p = Some n \<and>
      set_node_value p v (kv_mem s) = Inr ((kv_mem s)(p \<mapsto> KNode (n\<lparr>kvn_value := v\<rparr>)))"
    if "kv_find (kv_store task) (kv_mem s) k = Some p"
    using kv_find_node [OF bwf k that] by (auto simp: deref_node_node_of set_node_value_def)
  show "\<exists>bs. kv_mem s (kv_store task) = Some (KBuckets bs) \<and>
      kv_add_head (kv_store task) (kv_bucket k) p ((kv_mem s)(p \<mapsto> KNode n)) =
      Inr ((kv_mem s)(p \<mapsto> KNode n, kv_store task \<mapsto> KBuckets (bs[nat (kv_bucket k) := p # bs ! nat (kv_bucket k)])))"
    if "kv_mem s p = None"
  proof -
    have "p \<noteq> kv_store task" using that bs(2) by auto
    with bs b show ?thesis by (simp add: kv_add_head_def kfault_simps buckets_ok_def)
  qed
qed

lemma inv_w_set:
  assumes inv: "kv_sys_inv m task s" and pc: "kv_pcs s i = WSet k v p"
    and h: "set_node_value p v (kv_mem s) = Inr h"
  shows "kv_sys_inv m task (log_ev i (Put () k v) 0 (goto_pc i (WUnlock k 0) (s\<lparr>kv_mem := h\<rparr>)))"
proof -
  have "pc_ok (kv_store task) (kv_mem s) (kv_pcs s i)" using inv by (simp add: kv_sys_inv_def)
  then have k: "kv_key_ok k" "kv_find (kv_store task) (kv_mem s) k = Some p" using pc by simp_all
  from inv_no_fault(4) [OF inv k, of v] obtain n where n: "node_of (kv_mem s) p = Some n"
    and h': "h = (kv_mem s)(p \<mapsto> KNode (n\<lparr>kvn_value := v\<rparr>))" using h by auto
  have bwf: "kv_buckets_wf (kv_store task) (kv_mem s)" using inv by (simp add: kv_sys_inv_def)
  then obtain bs where bs: "kv_mem s (kv_store task) = Some (KBuckets bs)" by (rule kv_buckets_wfE)
  have "kv_lookup (kv_store task) h = (kv_lookup (kv_store task) (kv_mem s))(k \<mapsto> v)"
    unfolding h' using k n bs by (intro set_value_lookup [OF bwf bs]) (auto simp: kv_find_def)
  moreover have "kv_locks task \<noteq> p" using inv n by (auto simp: kv_sys_inv_def lock_inv_def)
  moreover have "pc_ok (kv_store task) h (kv_pcs s j)" for j
    using inv pc_ok_cong [OF set_value_find [OF n]] by (simp add: kv_sys_inv_def h')
  ultimately show ?thesis
    using inv pc k n set_value_buckets_wf [OF bwf n]
    by (intro inv_effect) (auto simp: h' intro: kv_spec.put)
qed

lemma inv_w_new:
  assumes inv: "kv_sys_inv m task s" and pc: "kv_pcs s i = WNew k v" and p: "p \<noteq> NULL" "kv_mem s p = None"
    and h: "kv_add_head (kv_store task) (kv_bucket k) p
       ((kv_mem s)(p \<mapsto> KNode \<lparr>kvn_key = k, kvn_value = v\<rparr>)) = Inr h"
  shows "kv_sys_inv m task (log_ev i (Put () k v) 0 (goto_pc i (WUnlock k 0) (s\<lparr>kv_mem := h\<rparr>)))"
proof -
  let ?st = "kv_store task" and ?b = "nat (kv_bucket k)"
  have pcs: "pc_ok ?st (kv_mem s) (kv_pcs s j)" for j using inv by (simp add: kv_sys_inv_def)
  then have k: "kv_key_ok k" "kv_find ?st (kv_mem s) k = None" using pc by (metis pc_ok.simps(4))+
  from inv_no_fault(5) [OF inv k(1) p(2), of "\<lparr>kvn_key = k, kvn_value = v\<rparr>"] h obtain bs
    where bs: "kv_mem s ?st = Some (KBuckets bs)" and h': "h = (kv_mem s)(p \<mapsto> KNode \<lparr>kvn_key = k, kvn_value = v\<rparr>,
      ?st \<mapsto> KBuckets (bs[?b := p # bs ! ?b]))" by auto
  have bwf: "kv_buckets_wf ?st (kv_mem s)" using inv by (simp add: kv_sys_inv_def)
  have miss: "find (has_key (kv_mem s) k) (bs ! ?b) = None" using k(2) bs by (simp add: kv_find_def)
  have find: "kv_find ?st h k' = (if k' = k then Some p else kv_find ?st (kv_mem s) k')" if "kv_key_ok k'" for k'
    unfolding h' by (rule add_node_find [OF bwf bs k(1) that p(2)])
  have "pc_ok ?st h (kv_pcs s j)" if "j \<noteq> i" for j
  proof -
    have "\<not> (\<exists>v'. kv_pcs s j = WNew k v')"
      using inv pc that by (fastforce simp: kv_sys_inv_def lock_inv_def)
    then show ?thesis using pcs [of j] find k(2)
      by (cases "(?st, h, kv_pcs s j)" rule: pc_ok.cases) auto
  qed
  moreover have "kv_lookup ?st h = (kv_lookup ?st (kv_mem s))(k \<mapsto> v)"
    unfolding h' by (rule add_node_lookup [OF bwf bs k(1) p])
  moreover have "kv_locks task \<noteq> p" "kv_locks task \<noteq> ?st"
    using inv p(2) bs by (auto simp: kv_sys_inv_def lock_inv_def)
  ultimately show ?thesis
    using inv pc k add_node_buckets_wf [OF bwf bs k(1) miss p, of v]
    by (intro inv_effect) (auto simp: h' intro: kv_spec.put)
qed

lemma inv_no_effect:
  assumes inv: "kv_sys_inv m task s" and pc: "pc_ok (kv_store task) (kv_mem s) pc" "holds pc = holds (kv_pcs s i)"
      "pending (kv_pcs s i)" "\<not> pending pc" "result_of pc = Some r"
    and spec: "kv_spec (kv_lookup (kv_store task) (kv_mem s)) req r (kv_lookup (kv_store task) (kv_mem s))"
  shows "kv_sys_inv m task (log_ev i req r (goto_pc i pc s))"
proof -
  have "s\<lparr>kv_mem := kv_mem s\<rparr> = s" by simp
  with inv_effect [OF inv _ refl _ pc spec] inv show ?thesis by (simp add: kv_sys_inv_def)
qed

lemma inv_pc: "kv_sys_inv m task s \<Longrightarrow> kv_pcs s i = pc \<Longrightarrow> pc_ok (kv_store task) (kv_mem s) pc"
  by (auto simp: kv_sys_inv_def)

lemma inv_scan: "kv_sys_inv m task s \<Longrightarrow> kv_key_ok k \<Longrightarrow> scan task k (kv_mem s) = Inr (kv_find (kv_store task) (kv_mem s) k)"
  by (simp add: kv_sys_inv_def scan_eq)

lemma inv_lookup:
  "kv_sys_inv m task s \<Longrightarrow> kv_key_ok k \<Longrightarrow> kv_lookup (kv_store task) (kv_mem s) k =
    (case kv_find (kv_store task) (kv_mem s) k of None \<Rightarrow> None | Some p \<Rightarrow> map_option kvn_value (node_of (kv_mem s) p))"
  by (simp add: kv_sys_inv_def kv_lookup_find)

text \<open>The answers that leave the store as it is: no memory for a new node, an absent key, the value of a node.\<close>

lemma inv_w_nomem:
  assumes inv: "kv_sys_inv m task s" and pc: "kv_pcs s i = WNew k v"
  shows "kv_sys_inv m task (log_ev i (Put () k v) (- 1) (goto_pc i (WUnlock k (- 1)) s))"
  using inv_no_effect [OF inv, of "WUnlock k (- 1)" i "- 1" "Put () k v"] inv_pc [OF inv pc] inv_lookup [OF inv, of k] pc
  by (simp add: kv_spec.put_nomem)

lemma inv_r_miss:
  assumes inv: "kv_sys_inv m task s" and pc: "kv_pcs s i = RScan k" and miss: "scan task k (kv_mem s) = Inr None"
  shows "kv_sys_inv m task (log_ev i (Get k) (- 1) (goto_pc i (RUnlock k None) s))"
  using inv_no_effect [OF inv, of "RUnlock k None" i "- 1" "Get k"] inv_pc [OF inv pc] inv_lookup [OF inv, of k] inv_scan [OF inv, of k] pc miss
  by (simp add: kv_spec.get_miss)

lemma inv_r_value:
  assumes inv: "kv_sys_inv m task s" and pc: "kv_pcs s i = RVal k p" and n: "deref_node p (kv_mem s) = Inr n"
  shows "kv_sys_inv m task (log_ev i (Get k) (sint (kvn_value n)) (goto_pc i (Returned (sint (kvn_value n))) s))"
proof -
  have "kv_lookup (kv_store task) (kv_mem s) k = Some (kvn_value n)"
    using inv_pc [OF inv pc] inv_no_fault(4) [OF inv, of k p] inv_lookup [OF inv, of k] n by auto
  then show ?thesis
    using inv_no_effect [OF inv, of "Returned (sint (kvn_value n))" i "sint (kvn_value n)" "Get k"] pc by (simp add: kv_spec.get_hit)
qed

text \<open>A key whose lock can be taken has a bucket.\<close>

lemma lock_key_ok:
  assumes "kv_sys_inv m task s" "spin_lock (kv_locks task) (kv_bucket k) (kv_mem s) = Inr h"
  shows "kv_key_ok k"
  using assms kv_bucket_bounds [of k]
  by (auto simp: kv_sys_inv_def lock_inv_def spin_lock_def deref_locks_def array_get_def kv_key_ok_def split: if_splits)

text \<open>The premises of a step to a fault contradict the invariant, unless the key has no bucket.\<close>

lemma inv_faults:
  assumes inv: "kv_sys_inv m task s"
  shows "kv_key_ok k \<Longrightarrow> spin_lock (kv_locks task) (kv_bucket k) (kv_mem s) = Inl e \<Longrightarrow> e = SelfDeadlock"
    "kv_pcs s i = WScan k v \<or> kv_pcs s i = RScan k \<Longrightarrow> scan task k (kv_mem s) \<noteq> Inl e"
    "kv_pcs s i = WSet k v p \<Longrightarrow> set_node_value p v (kv_mem s) \<noteq> Inl e"
    "kv_pcs s i = WNew k v \<Longrightarrow> kv_mem s p = None \<Longrightarrow>
      kv_add_head (kv_store task) (kv_bucket k) p ((kv_mem s)(p \<mapsto> KNode \<lparr>kvn_key = k, kvn_value = v\<rparr>)) \<noteq> Inl e"
    "kv_pcs s i = WUnlock k r \<or> kv_pcs s i = RUnlock k q \<Longrightarrow> spin_unlock (kv_locks task) (kv_bucket k) (kv_mem s) \<noteq> Inl e"
    "kv_pcs s i = RVal k p \<Longrightarrow> deref_node p (kv_mem s) \<noteq> Inl e"
proof -
  note pc = inv_pc [OF inv, of i] and nf = inv_no_fault [OF inv, of k]
  show "kv_key_ok k \<Longrightarrow> spin_lock (kv_locks task) (kv_bucket k) (kv_mem s) = Inl e \<Longrightarrow> e = SelfDeadlock"
    by (rule nf(1))
  show "kv_pcs s i = WScan k v \<or> kv_pcs s i = RScan k \<Longrightarrow> scan task k (kv_mem s) \<noteq> Inl e"
    using pc [of "WScan k v"] pc [of "RScan k"] nf(3) [of e] by auto
  show "kv_pcs s i = WSet k v p \<Longrightarrow> set_node_value p v (kv_mem s) \<noteq> Inl e" using pc [of "WSet k v p"] nf(4) [of p v] by auto
  show "kv_pcs s i = WNew k v \<Longrightarrow> kv_mem s p = None \<Longrightarrow>
      kv_add_head (kv_store task) (kv_bucket k) p ((kv_mem s)(p \<mapsto> KNode \<lparr>kvn_key = k, kvn_value = v\<rparr>)) \<noteq> Inl e"
    using pc [of "WNew k v"] nf(5) [of p "\<lparr>kvn_key = k, kvn_value = v\<rparr>"] by auto
  show "kv_pcs s i = WUnlock k r \<or> kv_pcs s i = RUnlock k q \<Longrightarrow> spin_unlock (kv_locks task) (kv_bucket k) (kv_mem s) \<noteq> Inl e"
    using pc [of "WUnlock k r"] pc [of "RUnlock k q"] nf(2) [of e] by (cases q) auto
  show "kv_pcs s i = RVal k p \<Longrightarrow> deref_node p (kv_mem s) \<noteq> Inl e" using pc [of "RVal k p"] nf(4) [of p] by fastforce
qed

lemma kv_step_inv:
  assumes step: "kv_step task s t" and inv: "kv_sys_inv m task s"
  shows "kv_sys_inv m task t"
  using step
proof cases
  case (w_lock i k v h)
  then show ?thesis using inv_lock [OF inv lock_key_ok [OF inv w_lock(3)], of i h "WScan k v"] lock_key_ok [OF inv w_lock(3)] by simp
next
  case (w_hit i k v p)
  then show ?thesis using inv_goto [OF inv] inv_pc [OF inv w_hit(2)] inv_scan [OF inv, of k] by simp
next
  case (w_miss i k v)
  then show ?thesis using inv_goto [OF inv] inv_pc [OF inv w_miss(2)] inv_scan [OF inv, of k] by simp
next
  case (w_unlock i k r h)
  then show ?thesis using inv_unlock [OF inv, of k i h "Returned r"] inv_pc [OF inv w_unlock(2)] by simp
next
  case (r_lock i k h)
  then show ?thesis using inv_lock [OF inv lock_key_ok [OF inv r_lock(3)], of i h "RScan k"] lock_key_ok [OF inv r_lock(3)] by simp
next
  case (r_hit i k p)
  then show ?thesis using inv_goto [OF inv, of "RUnlock k (Some p)" i] inv_pc [OF inv r_hit(2)] inv_scan [OF inv, of k] by simp
next
  case (r_unlock_hit i k p h)
  then show ?thesis using inv_unlock [OF inv, of k i h "RVal k p"] inv_pc [OF inv r_unlock_hit(2)] by simp
next
  case (r_unlock_miss i k h)
  then show ?thesis using inv_unlock [OF inv, of k i h "Returned (- 1)"] inv_pc [OF inv r_unlock_miss(2)] by simp
next
  case (lock_fault i k v e)
  then have "\<not> kv_key_ok k" using inv_faults(1) [OF inv] by blast
  then show ?thesis using lock_fault inv_goto [OF inv, of "Faulted k e" i] by auto
qed (simp_all add: inv_call [OF inv], ((blast intro: inv_w_set [OF inv] inv_w_new [OF inv] inv_w_nomem [OF inv] inv_r_miss [OF inv]
    inv_r_value [OF inv]) | (metis inv_faults [OF inv]))+)

lemma kv_start_inv: "kv_wf task h \<Longrightarrow> kv_sys_inv (kv_lookup (kv_store task) h) task (kv_start h)"
  by (auto simp: kv_sys_inv_def kv_start_def lock_inv_def history_inv_def calls_inv_def own_events_def
      kv_wf_def intro: kv_spec_run.empty_run)

lemma kv_reach_inv:
  assumes "kv_reach task h s" "kv_wf task h"
  shows "kv_sys_inv (kv_lookup (kv_store task) h) task s"
  using assms by (induction rule: kv_reach.induct) (auto intro: kv_start_inv kv_step_inv)

text \<open>A thread is inside a call that has not faulted. If it is not waiting for a lock it can move.\<close>

definition active :: "kv_pc \<Rightarrow> bool" where
  "active pc \<longleftrightarrow> pc \<noteq> Idle \<and> (\<forall>r. pc \<noteq> Returned r) \<and> (\<forall>k e. pc \<noteq> Faulted k e)"

lemma owner_can_step:
  assumes inv: "kv_sys_inv m task s" and own: "holds (kv_pcs s i) = Some b"
  shows "\<exists>t. kv_step task s t \<and> kv_calls t = kv_calls s"
proof -
  have pc: "pc_ok (kv_store task) (kv_mem s) (kv_pcs s i)" using inv by (simp add: kv_sys_inv_def)
  note nf = inv_no_fault [OF inv]
  have unlock: "\<exists>h. spin_unlock (kv_locks task) (kv_bucket k) (kv_mem s) = Inr h" if "kv_key_ok k" for k
    using nf(2) [OF that] by (cases "spin_unlock (kv_locks task) (kv_bucket k) (kv_mem s)") auto
  have scan: "scan task k (kv_mem s) = Inr (kv_find (kv_store task) (kv_mem s) k)" if "kv_key_ok k" for k
    using inv that by (intro scan_eq) (auto simp: kv_sys_inv_def)
  show ?thesis
  proof (cases "kv_pcs s i")
    case (WScan k v)
    with pc scan [of k] show ?thesis
      by (cases "kv_find (kv_store task) (kv_mem s) k")
        (auto intro!: exI kv_step.w_hit kv_step.w_miss simp: sys_defs)
  next
    case (RScan k)
    with pc scan [of k] show ?thesis
      by (cases "kv_find (kv_store task) (kv_mem s) k")
        (auto intro!: exI kv_step.r_hit kv_step.r_miss simp: sys_defs)
  next
    case (RUnlock k q)
    with pc unlock [of k] obtain h where "spin_unlock (kv_locks task) (kv_bucket k) (kv_mem s) = Inr h"
      by (cases q) auto
    with RUnlock show ?thesis
      by (cases q) (auto intro!: exI kv_step.r_unlock_hit kv_step.r_unlock_miss simp: sys_defs)
  qed (use own pc nf(4) unlock in \<open>fastforce intro: kv_step.w_set kv_step.w_nomem kv_step.w_unlock simp: sys_defs\<close>)+
qed

lemma waiter_can_step:
  assumes inv: "kv_sys_inv m task s" and pc: "kv_pcs s i = WStart k v \<or> kv_pcs s i = RStart k"
  shows "\<exists>t. kv_step task s t \<and> kv_calls t = kv_calls s"
proof (cases "spin_lock (kv_locks task) (kv_bucket k) (kv_mem s)")
  case (Inr h)
  from pc Inr have "kv_step task s (goto_pc i (WScan k v) (s\<lparr>kv_mem := h\<rparr>)) \<or>
      kv_step task s (goto_pc i (RScan k) (s\<lparr>kv_mem := h\<rparr>))"
    by (auto intro: kv_step.w_lock kv_step.r_lock)
  moreover have "kv_calls (goto_pc i pc (s\<lparr>kv_mem := h\<rparr>)) = kv_calls s" for pc by (simp add: sys_defs)
  ultimately show ?thesis by blast
next
  case (Inl e)
  show ?thesis
  proof (cases "e = SelfDeadlock")
    case False
    from kv_step.lock_fault [OF pc Inl this] show ?thesis by (auto simp: sys_defs)
  next
    case True
    from inv obtain ls where lk: "kv_locks task \<noteq> NULL" "kv_mem s (kv_locks task) = Some (KSpinlocks ls)"
      "length ls = 1024" and owner: "\<And>b. b < 1024 \<Longrightarrow> ls ! b \<Longrightarrow> \<exists>j. holds (kv_pcs s j) = Some b"
      by (auto simp: kv_sys_inv_def lock_inv_def)
    from Inl True lk have "0 \<le> kv_bucket k" "kv_bucket k < 1024" "ls ! nat (kv_bucket k)"
      by (auto simp: spin_lock_def deref_locks_def array_get_def array_set_def split: if_splits)
    with owner obtain j where "holds (kv_pcs s j) = Some (nat (kv_bucket k))" by (metis nat_less_iff of_nat_numeral)
    with inv show ?thesis by (rule owner_can_step)
  qed
qed

lemma value_can_step:
  assumes inv: "kv_sys_inv m task s" and pc: "kv_pcs s i = RVal k p"
  shows "\<exists>t. kv_step task s t \<and> kv_calls t = kv_calls s"
proof -
  have "kv_key_ok k" "kv_find (kv_store task) (kv_mem s) k = Some p"
    using inv pc unfolding kv_sys_inv_def by (metis pc_ok.simps(10))+
  then obtain n where "deref_node p (kv_mem s) = Inr n" using inv_no_fault(4) [OF inv] by blast
  with pc show ?thesis by (auto intro!: exI kv_step.r_value simp: sys_defs)
qed

section \<open>Properties\<close>

text \<open>
  C8: linearizability. In every state that threads sharing a well-formed store can reach, by any
  interleaving of any number of \<open>write_kv\<close> and \<open>read_kv\<close> calls with any keys, the calls that have taken effect
  form, in the order in which they did, a sequential run of the map specification from the initial
  content to the present one; every thread has as many effects as calls made, less the one still
  pending, and a call that has its result returns the result of its effect. The value that
  \<open>read_kv\<close> reads after it has released the lock is included. A call has faulted only if its key has no bucket (is
  negative and no multiple of 1024), and then without an effect and without a lock; what the C code does after such an
  access is not defined, and the call takes no further step here.
\<close>
theorem kv_linearizable:
  assumes "kv_wf task h" "kv_reach task h s"
  shows "kv_spec_run (kv_lookup (kv_store task) h) (map (fst \<circ> snd) (kv_log s)) (map (snd \<circ> snd) (kv_log s))
      (kv_lookup (kv_store task) (kv_mem s)) \<and>
    (\<forall>i. kv_calls s i = length (own_events i (kv_log s)) + of_bool (pending (kv_pcs s i))) \<and>
    (\<forall>i r. kv_pcs s i = Returned r \<longrightarrow>
       own_events i (kv_log s) \<noteq> [] \<and> snd (snd (last (own_events i (kv_log s)))) = r) \<and>
    (\<forall>i k e. kv_pcs s i = Faulted k e \<longrightarrow> sint k < 0 \<and> \<not> 1024 dvd sint k \<and> holds (kv_pcs s i) = None)"
proof -
  note inv = kv_reach_inv [OF assms(2,1)]
  have "sint k < 0 \<and> \<not> 1024 dvd sint k" if "kv_pcs s i = Faulted k e" for i k e
    using inv_pc [OF inv that] by (auto simp: kv_key_ok_iff)
  then show ?thesis using inv by (fastforce simp: kv_sys_inv_def history_inv_def calls_inv_def)
qed

text \<open>
  Mutual exclusion and memory safety under concurrency. In every reachable state two threads
  inside the critical section of the same bucket are the same thread, and no thread whose key has a bucket has
  faulted on a null pointer, a freed object or an index outside an array.
\<close>

theorem kv_bucket_mutual_exclusion:
  assumes "kv_wf task h" "kv_reach task h s"
  shows "(\<forall>i j b. holds (kv_pcs s i) = Some b \<and> holds (kv_pcs s j) = Some b \<longrightarrow> i = j) \<and>
    (\<forall>i k e. kv_pcs s i = Faulted k e \<longrightarrow> \<not> kv_key_ok k)"
proof -
  have inv: "kv_sys_inv (kv_lookup (kv_store task) h) task s" by (rule kv_reach_inv [OF assms(2,1)])
  then have "\<not> kv_key_ok k" if "kv_pcs s i = Faulted k e" for i k e
    using inv_pc [OF inv that] by simp
  with inv show ?thesis by (auto simp: kv_sys_inv_def lock_inv_def)
qed

text \<open>
  C35: no deadlock. In every reachable state in which some thread is inside a call that has not faulted, with
  whatever key, some thread inside a call can take its next step: a lock that is waited for is held by a thread that
  can go on, and a call whose key has no bucket faults without holding a lock.
\<close>
theorem kv_no_deadlock:
  assumes "kv_wf task h" "kv_reach task h s" "active (kv_pcs s i)"
  shows "\<exists>t. kv_step task s t \<and> kv_calls t = kv_calls s"
proof -
  have inv: "kv_sys_inv (kv_lookup (kv_store task) h) task s" by (rule kv_reach_inv [OF assms(2,1)])
  then have pc: "pc_ok (kv_store task) (kv_mem s) (kv_pcs s i)" by (simp add: kv_sys_inv_def)
  show ?thesis
  proof (cases "holds (kv_pcs s i)")
    case (Some b)
    with inv show ?thesis by (rule owner_can_step)
  next
    case None
    with assms(3) pc consider k v where "kv_pcs s i = WStart k v \<or> kv_pcs s i = RStart k"
      | k p where "kv_pcs s i = RVal k p"
      by (cases "kv_pcs s i") (auto simp: active_def)
    then show ?thesis
      by cases (auto intro: waiter_can_step [OF inv] value_can_step [OF inv])
  qed
qed

section \<open>Witnesses\<close>

text \<open>Thread 0 has called \<open>write_kv(5, 7)\<close> and holds the lock of bucket 5; thread 1 waits for it.\<close>

definition kv_ex_sys :: kv_sys where
  "kv_ex_sys = goto_pc 0 (WScan 5 7) ((call_pc 1 (RStart 5) (call_pc 0 (WStart 5 7) (kv_start kv_ex_heap)))
     \<lparr>kv_mem := kv_ex_heap(2 \<mapsto> KSpinlocks ((replicate 1024 False)[5 := True]))\<rparr>)"

lemma kv_ex_reach: "kv_reach kv_ex_task kv_ex_heap kv_ex_sys"
proof -
  let ?s1 = "call_pc 0 (WStart 5 7) (kv_start kv_ex_heap)"
  let ?s2 = "call_pc 1 (RStart 5) ?s1"
  have 1: "kv_reach kv_ex_task kv_ex_heap ?s1"
    by (intro kv_reach.step [OF kv_reach.start] kv_step.call_write) (simp_all add: kv_start_def)
  have 2: "kv_reach kv_ex_task kv_ex_heap ?s2"
    by (intro kv_reach.step [OF 1] kv_step.call_read) (simp_all add: sys_defs kv_start_def)
  have h: "kv_ex_heap (kv_store kv_ex_task) = Some (KBuckets (replicate 1024 []))"
    by (simp add: kv_ex_heap_def kv_ex_facts)
  have l: "spin_lock (kv_locks kv_ex_task) (kv_bucket 5) (kv_mem ?s2) =
      Inr (kv_ex_heap(2 \<mapsto> KSpinlocks ((replicate 1024 False)[5 := True])))"
    using kv_locked(1) [OF kv_ex_facts(1) h kv_ex_facts(4)]
    by (simp add: sys_defs kv_start_def kv_ex_facts kv_ex_bucket)
  have "kv_pcs ?s2 0 = WStart 5 7" by (simp add: sys_defs)
  from kv_reach.step [OF 2 kv_step.w_lock [OF this l]] show ?thesis by (simp add: kv_ex_sys_def)
qed

text \<open>Thread 0 has stored its value in a new node while thread 1 still waits.\<close>

lemma kv_ex_reach_put:
  "\<exists>s. kv_reach kv_ex_task kv_ex_heap s \<and> kv_log s = [(0, Put () 5 7, 0)] \<and> kv_pcs s 1 = RStart 5"
proof -
  note inv = kv_reach_inv [OF kv_ex_reach kv_ex_facts(1)]
  let ?s = kv_ex_sys and ?s1 = "goto_pc 0 (WNew 5 7) kv_ex_sys"
  have pc: "kv_pcs ?s 0 = WScan 5 7" "kv_pcs ?s1 0 = WNew 5 7" by (simp_all add: kv_ex_sys_def sys_defs)
  have m: "kv_mem ?s1 = kv_mem ?s" "kv_mem ?s 3 = None" "kv_mem ?s 1 = Some (KBuckets (replicate 1024 []))"
    by (simp_all add: kv_ex_sys_def sys_defs kv_ex_heap_def)
  have "scan kv_ex_task 5 (kv_mem ?s) = Inr None"
    unfolding inv_scan [OF inv kv_ex_facts(4)] using m(3) by (simp add: kv_find_def kv_ex_facts kv_ex_bucket)
  then have 1: "kv_reach kv_ex_task kv_ex_heap ?s1" by (rule kv_reach.step [OF kv_ex_reach kv_step.w_miss [OF pc(1)]])
  obtain h where h: "kv_add_head (kv_store kv_ex_task) (kv_bucket 5) 3 ((kv_mem ?s1)(3 \<mapsto> KNode \<lparr>kvn_key = 5, kvn_value = 7\<rparr>)) = Inr h"
    using inv_no_fault(5) [OF inv kv_ex_facts(4) m(2)] unfolding m(1) by blast
  have 2: "kv_reach kv_ex_task kv_ex_heap (log_ev 0 (Put () 5 7) 0 (goto_pc 0 (WUnlock 5 0) (?s1\<lparr>kv_mem := h\<rparr>)))"
    by (rule kv_reach.step [OF 1 kv_step.w_new [OF pc(2) _ _ h]]) (simp_all add: m)
  show ?thesis by (rule exI, rule conjI [OF 2]) (simp add: kv_ex_sys_def sys_defs kv_start_def)
qed

theorem kv_linearizable_witness:
  "\<exists>s. kv_reach kv_ex_task kv_ex_heap s \<and> kv_log s = [(0, Put () 5 7, 0)] \<and> kv_lookup (kv_store kv_ex_task) (kv_mem s) = [5 \<mapsto> 7] \<and>
     kv_calls s 1 = 1"
proof -
  obtain s where s: "kv_reach kv_ex_task kv_ex_heap s" "kv_log s = [(0, Put () 5 7, 0)]" "kv_pcs s 1 = RStart 5" using kv_ex_reach_put by blast
  note l = kv_linearizable [OF kv_ex_facts(1) s(1)]
  have "kv_spec_run Map.empty [Put () 5 7] [0] (kv_lookup (kv_store kv_ex_task) (kv_mem s))"
    using l kv_ex_facts(3,5) unfolding s(2) by simp
  then have "kv_lookup (kv_store kv_ex_task) (kv_mem s) = [5 \<mapsto> 7]"
    by (auto elim!: kv_spec_run.cases kv_spec_PutE)
  moreover have "kv_calls s 1 = length (own_events 1 (kv_log s)) + of_bool (pending (kv_pcs s 1))" using l by blast
  ultimately show ?thesis using s by (auto simp: own_events_def)
qed

theorem kv_bucket_mutual_exclusion_witness:
  "holds (kv_pcs kv_ex_sys 0) = Some 5 \<and> holds (kv_pcs kv_ex_sys 1) \<noteq> Some 5"
proof -
  have "holds (kv_pcs kv_ex_sys 0) = Some 5" by (simp add: kv_ex_sys_def sys_defs kv_ex_bucket)
  moreover have "holds (kv_pcs kv_ex_sys 1) = Some 5 \<Longrightarrow> (0::tid) = 1"
    using kv_bucket_mutual_exclusion [OF kv_ex_facts(1) kv_ex_reach] calculation by blast
  ultimately show ?thesis by auto
qed

theorem kv_no_deadlock_witness:
  "\<exists>t. kv_step kv_ex_task kv_ex_sys t \<and> kv_calls t = kv_calls kv_ex_sys"
proof -
  have "active (kv_pcs kv_ex_sys 1)" by (simp add: active_def kv_ex_sys_def sys_defs)
  from kv_no_deadlock [OF kv_ex_facts(1) kv_ex_reach this] show ?thesis .
qed

end
