(* ===== verification/Transition_System.thy ===== *)
theory Transition_System
  imports Main
begin

text \<open>
  Interfaces of the step relations of the development. A transition system with an invariant holds it in every
  reachable state. If moreover a rank decreases with every step and every state without successor that
  satisfies the invariant is final, all executions are finite and end in a final state.
\<close>

locale transition_system =
  fixes init :: "'s \<Rightarrow> bool" and step :: "'s \<Rightarrow> 's \<Rightarrow> bool" and inv :: "'s \<Rightarrow> bool"
  assumes init_inv: "init s \<Longrightarrow> inv s"
    and step_inv: "inv s \<Longrightarrow> step s s' \<Longrightarrow> inv s'"
begin

lemma run_inv: "step\<^sup>*\<^sup>* s s' \<Longrightarrow> inv s \<Longrightarrow> inv s'"
  by (induction rule: rtranclp_induct) (auto intro: step_inv)

lemma reachable_inv: "init s \<Longrightarrow> step\<^sup>*\<^sup>* s s' \<Longrightarrow> inv s'"
  using run_inv init_inv by blast

end

locale terminating_system = transition_system +
  fixes rank :: "'a \<Rightarrow> nat" and final :: "'a \<Rightarrow> bool"
  assumes step_rank: "inv s \<Longrightarrow> step s s' \<Longrightarrow> rank s' < rank s"
    and stuck_final: "inv s \<Longrightarrow> \<not> (\<exists>s'. step s s') \<Longrightarrow> final s"
begin

lemma run_rank: "(step ^^ n) s s' \<Longrightarrow> inv s \<Longrightarrow> rank s' + n \<le> rank s"
proof (induction n arbitrary: s')
  case (Suc n)
  then obtain t where t: "(step ^^ n) s t" "step t s'" by auto
  have "inv t" using run_inv [OF relpowp_imp_rtranclp [OF t(1)] Suc(3)] .
  then show ?case using Suc(1) [OF t(1) Suc(3)] step_rank [OF _ t(2)] by simp
qed simp

text \<open>Every state that satisfies the invariant reaches a final state.\<close>

lemma reaches_final: "inv s \<Longrightarrow> \<exists>s'. step\<^sup>*\<^sup>* s s' \<and> final s'"
proof (induction "rank s" arbitrary: s rule: less_induct)
  case less
  show ?case
  proof (cases "\<exists>t. step s t")
    case True
    then obtain t where t: "step s t" by blast
    then obtain s' where "step\<^sup>*\<^sup>* t s'" "final s'" using less(1) [OF step_rank [OF less(2) t] step_inv [OF less(2) t]] by blast
    then show ?thesis using t converse_rtranclp_into_rtranclp [of step] by blast
  next
    case False
    then show ?thesis using stuck_final [OF less(2)] by blast
  qed
qed

end

end
