(* ===== verification/KV_Tests.thy ===== *)
theory KV_Tests
  imports KV_Store Transition_System
begin

text \<open>
  The two test programs of the key-value store under os-2024-exercise/ch2-privileged/ch2_1: the threads of the
  kernel module and the threads of the user program.
\<close>

section \<open>The kernel module\<close>

text \<open>\<open>abs\<close> of a C \<open>int\<close>, which wraps for the smallest one, and the key drawn from a random number.\<close>

definition c_abs :: "s32 \<Rightarrow> s32" where
  "c_abs x = (if sint x < 0 then - x else x)"

definition test_key :: "s32 \<Rightarrow> s32" where
  "test_key k = word_of_int (sint (c_abs k) smod 2048)"

datatype test_log = ErrWrite s32 | ErrRead s32

definition kv_test_iter :: "task_struct \<Rightarrow> kmalloc_fn \<Rightarrow> s32 \<Rightarrow> s32 \<Rightarrow> kheap \<Rightarrow> (test_log list \<times> kheap) kres" where
  "kv_test_iter task kmalloc k v h =
    (let k = test_key k; operation = sint k smod 2
     in if operation \<noteq> 0
        then rbind (write_kv kmalloc task k v h) (\<lambda>(r, h). Inr (if r = - 1 then [ErrWrite k] else [], h))
        else rbind (read_kv task k h) (\<lambda>(r, h). Inr (if r = - 1 then [ErrRead k] else [], h)))"

text \<open>
  The loop: one triple of an allocator and two random numbers for each iteration up to the one before which
  \<open>kthread_should_stop\<close> answers yes, and at most 1000 iterations.
\<close>

fun test_loop :: "task_struct \<Rightarrow> (kmalloc_fn \<times> s32 \<times> s32) list \<Rightarrow> kheap \<Rightarrow> (test_log list \<times> kheap) kres" where
  "test_loop task [] h = Inr ([], h)"
| "test_loop task ((km, k, v) # rnds) h =
     rbind (kv_test_iter task km k v h) (\<lambda>(l, h). rbind (test_loop task rnds h) (\<lambda>(l', h). Inr (l @ l', h)))"

definition kv_test_thread :: "task_struct \<Rightarrow> (kmalloc_fn \<times> s32 \<times> s32) list \<Rightarrow> kheap \<Rightarrow> (test_log list \<times> kheap) kres" where
  "kv_test_thread task rnds h = test_loop task (take 1000 rnds) h"

text \<open>The keys of the test are admissible, the smallest random number included.\<close>

lemma sint_test_key: "sint (test_key k) = sint (c_abs k) smod 2048" "0 \<le> sint (test_key k)" "sint (test_key k) < 2048"
proof -
  have b: "- (2 ^ 31) \<le> sint k" "sint k < 2 ^ 31" using sint_ge [of k] sint_lt [of k] by simp_all
  have r: "0 \<le> sint (c_abs k) smod 2048 \<and> sint (c_abs k) smod 2048 < 2048"
  proof (cases "sint (c_abs k) < 0")
    case True
    then have neg: "sint k < 0" "sint (- k) < 0" by (simp_all add: c_abs_def split: if_splits)
    have "sint k = - (2 ^ 31)"
    proof (rule ccontr)
      assume "sint k \<noteq> - (2 ^ 31)"
      then have "sint (- k) = - sint k" using b by (simp add: sint_word_ariths signed_take_bit_int_eq_self)
      then show False using neg by simp
    qed
    then have "sint (c_abs k) = signed_take_bit 31 (2 ^ 31)" using neg(1) by (simp add: c_abs_def sint_word_ariths)
    also have "\<dots> = - (2 ^ 31)" by (simp add: signed_take_bit_eq_take_bit_shift take_bit_eq_mod)
    finally show ?thesis by (simp add: signed_modulo_int_def)
  next
    case False
    then show ?thesis by (simp add: signed_modulo_int_def sgn_if)
  qed
  then have "sint (test_key k) = sint (c_abs k) smod 2048" by (simp add: test_key_def signed_of_int signed_take_bit_int_eq_self)
  then show "sint (test_key k) = sint (c_abs k) smod 2048" "0 \<le> sint (test_key k)" "sint (test_key k) < 2048" using r by simp_all
qed

lemma test_key_ok: "kv_key_ok (test_key k)"
  using sint_test_key(2) [of k] by (simp add: kv_key_ok_iff)

lemma key_parity: "0 \<le> sint k \<Longrightarrow> (sint k smod 2 \<noteq> 0) = odd (sint k)"
  by (auto simp: signed_modulo_int_def sgn_if odd_iff_mod_2_eq_one even_iff_mod_2_eq_zero)

text \<open>The reads that a sequence of random numbers leads to.\<close>

definition reads_of :: "(kmalloc_fn \<times> s32 \<times> s32) list \<Rightarrow> s32 list" where
  "reads_of rnds = filter (\<lambda>k. even (sint k)) (map (\<lambda>(km, k, v). test_key k) rnds)"

definition read_errors :: "test_log list \<Rightarrow> s32 list" where
  "read_errors ls = concat (map (\<lambda>l. case l of ErrRead k \<Rightarrow> [k] | ErrWrite k \<Rightarrow> []) ls)"

lemma read_errors_simps [simp]:
  "read_errors [] = []" "read_errors (xs @ ys) = read_errors xs @ read_errors ys" "read_errors [ErrRead k] = [k]" "read_errors [ErrWrite k] = []"
  by (simp_all add: read_errors_def)

definition only_odd :: "task_struct \<Rightarrow> kheap \<Rightarrow> bool" where
  "only_odd task h \<longleftrightarrow> (\<forall>k. kv_lookup (kv_store task) h k \<noteq> None \<longrightarrow> odd (sint k))"

lemma test_iter:
  assumes wf: "kv_wf task h" and odd: "only_odd task h" and km: "fresh_alloc km"
  shows "\<exists>l h'. kv_test_iter task km k v h = Inr (l, h') \<and> kv_wf task h' \<and> only_odd task h' \<and> read_errors l = reads_of [(km, k, v)]"
proof -
  let ?k = "test_key k"
  note par = key_parity [OF sint_test_key(2) [of k]]
  show ?thesis
  proof (cases "odd (sint ?k)")
    case True
    obtain r h' where w: "write_kv km task ?k v h = Inr (r, h')" "kv_wf task h'" "kv_spec (kv_lookup (kv_store task) h) (Put km ?k v) r (kv_lookup (kv_store task) h')"
      using kv.put_law [OF wf test_key_ok km] by blast
    have "only_odd task h'" using w(3) odd True by (auto simp: only_odd_def elim!: kv_spec_PutE split: if_splits)
    then show ?thesis using w(1,2) True par by (auto simp: kv_test_iter_def Let_def reads_of_def)
  next
    case False
    obtain r where g: "read_kv task ?k h = Inr (r, h)" "kv_spec (kv_lookup (kv_store task) h) (Get ?k :: kmalloc_fn kv_req) r (kv_lookup (kv_store task) h)"
      using kv.get_law [OF wf test_key_ok] by blast
    have "kv_lookup (kv_store task) h ?k = None" using odd False by (auto simp: only_odd_def)
    then have "r = - 1" using g(2) by (auto elim: kv_spec_GetE)
    then show ?thesis using g(1) wf odd False par by (simp add: kv_test_iter_def Let_def reads_of_def)
  qed
qed

lemma test_loop_run:
  assumes "kv_wf task h" "only_odd task h" "\<forall>(km, k, v) \<in> set rnds. fresh_alloc km"
  shows "\<exists>l h'. test_loop task rnds h = Inr (l, h') \<and> kv_wf task h' \<and> only_odd task h' \<and> read_errors l = reads_of rnds"
  using assms
proof (induction rnds arbitrary: h)
  case Nil
  then show ?case by (simp add: reads_of_def)
next
  case (Cons x rnds)
  obtain km k v where x: "x = (km, k, v)" using prod_cases3 by blast
  then have "fresh_alloc km" using Cons.prems(3) by simp
  from test_iter [OF Cons.prems(1,2) this, of k v] obtain l h1 where
    1: "kv_test_iter task km k v h = Inr (l, h1)" "kv_wf task h1" "only_odd task h1" "read_errors l = reads_of [(km, k, v)]" by blast
  from Cons.IH [OF 1(2,3)] Cons.prems(3) obtain l' h2 where
    2: "test_loop task rnds h1 = Inr (l', h2)" "kv_wf task h2" "only_odd task h2" "read_errors l' = reads_of rnds" by auto
  have "reads_of (x # rnds) = reads_of [(km, k, v)] @ reads_of rnds" by (simp add: reads_of_def x)
  then show ?case using 1 2 x by simp
qed

text \<open>
  The stress test of the kernel module. On a fresh store each of its threads runs to the end for any random
  numbers, without an access outside the store and with the store well-formed; but the same bit of the key
  decides whether it is written or read, so the keys written are odd, the keys read are even, and every single
  read reports an error: the test never reads back a value.\<close>

theorem kv_module_test:
  assumes "kv_wf task h" and "kv_lookup (kv_store task) h = Map.empty" and "\<forall>(km, k, v) \<in> set rnds. fresh_alloc km"
  shows "\<exists>log h'. kv_test_thread task rnds h = Inr (log, h') \<and> kv_wf task h' \<and>
    (\<forall>k. kv_lookup (kv_store task) h' k \<noteq> None \<longrightarrow> odd (sint k)) \<and>
    read_errors log = filter (\<lambda>k. even (sint k)) (map (\<lambda>(km, k, v). test_key k) (take 1000 rnds))"
proof -
  have "only_odd task h" using assms(2) by (simp add: only_odd_def)
  moreover have "\<forall>(km, k, v) \<in> set (take 1000 rnds). fresh_alloc km" using assms(3) by (meson in_set_takeD)
  ultimately show ?thesis using test_loop_run [OF assms(1)] by (simp add: kv_test_thread_def only_odd_def reads_of_def)
qed

text \<open>Witness: an empty store, a write of the key 5 and a read of the key 6.\<close>

theorem kv_module_test_witness:
  "\<exists>log h'. kv_test_thread kv_ex_task [(kv_ex_alloc 3, - 5, 7), (kv_ex_alloc 4, 6, 0)] kv_ex_heap = Inr (log, h') \<and> read_errors log = [6]"
proof -
  have "test_key (- 5) = 5" "test_key 6 = 6" by (simp_all add: test_key_def c_abs_def signed_modulo_int_def)
  moreover have "\<forall>(km, k, v) \<in> set [(kv_ex_alloc 3, - 5, 7), (kv_ex_alloc 4, 6, 0)]. fresh_alloc km" using kv_ex_facts(2) by simp
  ultimately show ?thesis
    using kv_module_test [OF kv_ex_facts(1), of "[(kv_ex_alloc 3, - 5, 7), (kv_ex_alloc 4, 6, 0)]"] kv_ex_facts(3,5) by auto
qed

section \<open>The user program\<close>

text \<open>
  The threads of the user program share the store of their process. A call of the store is one step on the map
  that the store implements; the access to \<open>expected_values\<close> under the mutex is another.
\<close>

datatype serial_pc = SLoop | SWritten s32 s32 | SRead s32 int

record serial_state =
  sr_store :: "s32 \<rightharpoonup> s32"
  expected_values :: "s32 \<Rightarrow> s32"
  sr_pc :: "nat \<Rightarrow> serial_pc"
  inconsistencies :: "(s32 \<times> s32 \<times> int) list"

definition sr_goto :: "nat \<Rightarrow> serial_pc \<Rightarrow> serial_state \<Rightarrow> serial_state" where
  "sr_goto i p s = s\<lparr>sr_pc := (sr_pc s)(i := p)\<rparr>"

inductive serial_step :: "nat \<Rightarrow> serial_state \<Rightarrow> serial_state \<Rightarrow> bool" where
  s_write: "sr_pc s i = SLoop \<Longrightarrow> 0 \<le> sint k \<Longrightarrow> sint k < 2048 \<Longrightarrow> 0 \<le> sint v \<Longrightarrow> kv_spec (sr_store s) (Put () k v) r m' \<Longrightarrow>
    serial_step i s (sr_goto i (if r \<noteq> - 1 then SWritten k v else SLoop) (s\<lparr>sr_store := m'\<rparr>))"
| s_expect: "sr_pc s i = SWritten k v \<Longrightarrow> serial_step i s (sr_goto i SLoop (s\<lparr>expected_values := (expected_values s)(k := v)\<rparr>))"
| s_read: "sr_pc s i = SLoop \<Longrightarrow> 0 \<le> sint k \<Longrightarrow> sint k < 2048 \<Longrightarrow> kv_spec (sr_store s) (Get k :: unit kv_req) r m' \<Longrightarrow>
    serial_step i s (sr_goto i (SRead k r) (s\<lparr>sr_store := m'\<rparr>))"
| s_check: "sr_pc s i = SRead k r \<Longrightarrow> e = expected_values s k \<Longrightarrow>
    serial_step i s (sr_goto i SLoop (s\<lparr>inconsistencies := inconsistencies s @ (if r \<noteq> - 1 \<and> r \<noteq> sint e then [(k, e, r)] else [])\<rparr>))"

definition serial_start :: serial_state where
  "serial_start = \<lparr>sr_store = Map.empty, expected_values = (\<lambda>_. - 1), sr_pc = (\<lambda>_. SLoop), inconsistencies = []\<rparr>"

text \<open>With one thread the expected values are the stored ones, but for the value just written.\<close>

definition serial_inv :: "serial_state \<Rightarrow> bool" where
  "serial_inv s \<longleftrightarrow> inconsistencies s = [] \<and>
    (case sr_pc s 0 of
       SLoop \<Rightarrow> sr_store s \<subseteq>\<^sub>m (\<lambda>k. Some (expected_values s k))
     | SWritten k v \<Rightarrow> sr_store s \<subseteq>\<^sub>m (\<lambda>k'. Some (((expected_values s)(k := v)) k'))
     | SRead k r \<Rightarrow> sr_store s \<subseteq>\<^sub>m (\<lambda>k. Some (expected_values s k)) \<and> (r = - 1 \<or> r = sint (expected_values s k)))"

lemma serial_step_inv:
  assumes "serial_inv s" "serial_step 0 s s'"
  shows "serial_inv s'"
  using assms(2)
proof cases
  case (s_write k v r m')
  then have "r = 0 \<and> m' = (sr_store s)(k \<mapsto> v) \<or> r = - 1 \<and> m' = sr_store s" by (auto elim: kv_spec_PutE)
  then show ?thesis using assms(1) s_write by (auto simp: serial_inv_def sr_goto_def map_le_def dom_def)
next
  case (s_expect k v)
  then show ?thesis using assms(1) by (simp add: serial_inv_def sr_goto_def)
next
  case (s_read k r m')
  then have "m' = sr_store s \<and> (r = - 1 \<or> (\<exists>v. sr_store s k = Some v \<and> r = sint v))" by (auto elim: kv_spec_GetE)
  then show ?thesis using assms(1) s_read by (force simp: serial_inv_def sr_goto_def map_le_def)
next
  case (s_check k r)
  then show ?thesis using assms(1) by (auto simp: serial_inv_def sr_goto_def)
qed

interpretation serial: transition_system "\<lambda>s. s = serial_start" "serial_step 0" serial_inv
proof
  show "s = serial_start \<Longrightarrow> serial_inv s" for s by (simp add: serial_start_def serial_inv_def)
qed (rule serial_step_inv)

text \<open>
  The consistency check of the user program is sound for one thread only: a single thread never reports an
  inconsistency, but two threads can, although every call is answered as by a map: the second reads a value that
  the first has stored but not yet noted.
\<close>

lemma serial_test_alarms:
  "(serial_step 0)\<^sup>*\<^sup>* serial_start s \<Longrightarrow> inconsistencies s = []"
  "\<exists>s. (\<lambda>s s'. serial_step 0 s s' \<or> serial_step 1 s s')\<^sup>*\<^sup>* serial_start s \<and> inconsistencies s = [(0, - 1, 7)]"
proof -
  show "(serial_step 0)\<^sup>*\<^sup>* serial_start s \<Longrightarrow> inconsistencies s = []" using serial.reachable_inv [OF refl] by (simp add: serial_inv_def)
  let ?R = "\<lambda>s s'. serial_step 0 s s' \<or> serial_step 1 s s'"
  let ?s1 = "sr_goto 0 (SWritten 0 7) (serial_start\<lparr>sr_store := [0 \<mapsto> 7]\<rparr>)"
  let ?s2 = "sr_goto 1 (SRead 0 7) ?s1"
  let ?s3 = "sr_goto 1 SLoop (?s2\<lparr>inconsistencies := [(0, - 1, 7)]\<rparr>)"
  have "kv_spec Map.empty (Put () 0 7) 0 [0 \<mapsto> 7]" using kv_spec.put [of Map.empty "()" 0 7] by simp
  then have 1: "serial_step 0 serial_start ?s1" using serial_step.s_write [of serial_start 0 0 7 0 "[0 \<mapsto> 7]"] by (simp add: serial_start_def)
  have "kv_spec (sr_store ?s1) (Get 0 :: unit kv_req) 7 (sr_store ?s1)" using kv_spec.get_hit [of "sr_store ?s1" 0 7] by (simp add: sr_goto_def)
  then have 2: "serial_step 1 ?s1 ?s2" using serial_step.s_read [of ?s1 1 0 7 "sr_store ?s1"] by (simp add: sr_goto_def serial_start_def)
  have pc: "sr_pc ?s2 1 = SRead 0 7" and e: "- 1 = expected_values ?s2 0" and i: "inconsistencies ?s2 = []" by (simp_all add: sr_goto_def serial_start_def)
  have 3: "serial_step 1 ?s2 ?s3" using serial_step.s_check [OF pc e] unfolding i by simp
  have "?R\<^sup>*\<^sup>* serial_start ?s3" 
    by (rule converse_rtranclp_into_rtranclp [of ?R, OF disjI1 [OF 1]], rule converse_rtranclp_into_rtranclp [of ?R, OF disjI2 [OF 2]],
      rule r_into_rtranclp [of ?R, OF disjI2 [OF 3]])
  then show "\<exists>s. ?R\<^sup>*\<^sup>* serial_start s \<and> inconsistencies s = [(0, - 1, 7)]" by (intro exI [of _ ?s3]) (simp add: sr_goto_def)
qed

end
