(* ===== verification/KV_Module.thy ===== *)
theory KV_Module
  imports KV_Tests
begin

text \<open>
  Loading and unloading of the test module (os-2024-exercise/ch2-privileged/ch2_1/test3-kernel-module.c) with the
  kernel threads that it creates, as the steps of one system, and the main function of the user program (test1-serial.c).
\<close>

section \<open>The module and its threads\<close>

abbreviation (input) NUM_THREADS :: nat where "NUM_THREADS \<equiv> 100"
abbreviation (input) NUM_ITERATIONS :: nat where "NUM_ITERATIONS \<equiv> 1000"

text \<open>
  Where \<open>kv_test_init\<close> and \<open>kv_test_exit\<close> are: about to create the thread with an index, between the two functions, about to look
  at an index, inside \<open>kthread_stop\<close> for an index, returned, or inside \<open>kthread_stop\<close> with a pointer to a task that is gone.
\<close>

datatype mod_pc = Loading nat | Loaded | Unloading nat | Waiting nat | Unloaded | UseAfterFree nat

text \<open>
  \<open>mod_slots\<close> says which elements of \<open>threads\<close> are not \<open>NULL\<close>: the pointer in element \<open>i\<close> is that of the thread created for \<open>i\<close>. \<open>mod_kth\<close>
  has the threads that exist, each with its loop counter and whether \<open>kthread_should_stop\<close> holds for it. Nobody keeps a
  reference to a thread, so when it has returned its \<open>task_struct\<close> is gone.
\<close>

record kmod =
  mod_pc :: mod_pc
  mod_slots :: "nat \<Rightarrow> bool"
  mod_kth :: "nat \<rightharpoonup> nat \<times> bool"
  mod_heap :: kheap
  mod_log :: "test_log list"

definition mod_start :: "kheap \<Rightarrow> kmod" where
  "mod_start h = \<lparr>mod_pc = Loading 0, mod_slots = (\<lambda>_. False), mod_kth = Map.empty, mod_heap = h, mod_log = []\<rparr>"

text \<open>
  \<open>task i\<close> is the \<open>task_struct\<close> of the thread created for \<open>i\<close>. \<open>kthread_run\<close> creates and wakes the thread, which runs while the module is still
  loading; an iteration is one call of the store with random numbers, and a fault in it kills the thread. \<open>kthread_stop\<close> tells a thread
  to stop and waits until it has returned.
\<close>

inductive mod_step :: "(nat \<Rightarrow> task_struct) \<Rightarrow> kmod \<Rightarrow> kmod \<Rightarrow> bool" for task where
  create: "mod_pc s = Loading i \<Longrightarrow> i < NUM_THREADS \<Longrightarrow>
    mod_step task s (s\<lparr>mod_pc := Loading (i + 1), mod_slots := (mod_slots s)(i := True), mod_kth := (mod_kth s)(i \<mapsto> (0, False))\<rparr>)"
| create_fail: "mod_pc s = Loading i \<Longrightarrow> i < NUM_THREADS \<Longrightarrow>
    mod_step task s (s\<lparr>mod_pc := Loading (i + 1), mod_slots := (mod_slots s)(i := False)\<rparr>)"
| init_return: "mod_pc s = Loading i \<Longrightarrow> NUM_THREADS \<le> i \<Longrightarrow> mod_step task s (s\<lparr>mod_pc := Loaded\<rparr>)"
| iterate: "mod_kth s j = Some (n, False) \<Longrightarrow> n < NUM_ITERATIONS \<Longrightarrow> kv_test_iter (task j) kmalloc k v (mod_heap s) = Inr (l, h) \<Longrightarrow>
    mod_step task s (s\<lparr>mod_kth := (mod_kth s)(j \<mapsto> (n + 1, False)), mod_heap := h, mod_log := mod_log s @ l\<rparr>)"
| thread_fault: "mod_kth s j = Some (n, False) \<Longrightarrow> n < NUM_ITERATIONS \<Longrightarrow> kv_test_iter (task j) kmalloc k v (mod_heap s) = Inl e \<Longrightarrow>
    mod_step task s (s\<lparr>mod_kth := (mod_kth s)(j := None)\<rparr>)"
| thread_return: "mod_kth s j = Some (n, stop) \<Longrightarrow> NUM_ITERATIONS \<le> n \<or> stop \<Longrightarrow> mod_step task s (s\<lparr>mod_kth := (mod_kth s)(j := None)\<rparr>)"
| exit_call: "mod_pc s = Loaded \<Longrightarrow> mod_step task s (s\<lparr>mod_pc := Unloading 0\<rparr>)"
| skip: "mod_pc s = Unloading i \<Longrightarrow> i < NUM_THREADS \<Longrightarrow> \<not> mod_slots s i \<Longrightarrow> mod_step task s (s\<lparr>mod_pc := Unloading (i + 1)\<rparr>)"
| stop: "mod_pc s = Unloading i \<Longrightarrow> i < NUM_THREADS \<Longrightarrow> mod_slots s i \<Longrightarrow> mod_kth s i = Some (n, b) \<Longrightarrow>
    mod_step task s (s\<lparr>mod_pc := Waiting i, mod_kth := (mod_kth s)(i \<mapsto> (n, True))\<rparr>)"
| stop_gone: "mod_pc s = Unloading i \<Longrightarrow> i < NUM_THREADS \<Longrightarrow> mod_slots s i \<Longrightarrow> mod_kth s i = None \<Longrightarrow>
    mod_step task s (s\<lparr>mod_pc := UseAfterFree i\<rparr>)"
| stop_return: "mod_pc s = Waiting i \<Longrightarrow> mod_kth s i = None \<Longrightarrow> mod_step task s (s\<lparr>mod_pc := Unloading (i + 1)\<rparr>)"
| exit_return: "mod_pc s = Unloading i \<Longrightarrow> NUM_THREADS \<le> i \<Longrightarrow> mod_step task s (s\<lparr>mod_pc := Unloaded\<rparr>)"

section \<open>Invariant and rank\<close>

text \<open>The indices below which elements of \<open>threads\<close> are set, and below which threads have been stopped.\<close>

fun created_below :: "mod_pc \<Rightarrow> nat" where
  "created_below (Loading i) = i"
| "created_below _ = NUM_THREADS"

fun stopped_below :: "mod_pc \<Rightarrow> nat" where
  "stopped_below (Unloading i) = i"
| "stopped_below (Waiting i) = i"
| "stopped_below (UseAfterFree i) = i"
| "stopped_below Unloaded = NUM_THREADS"
| "stopped_below _ = 0"

fun mod_pc_ok :: "mod_pc \<Rightarrow> (nat \<Rightarrow> bool) \<Rightarrow> (nat \<rightharpoonup> nat \<times> bool) \<Rightarrow> bool" where
  "mod_pc_ok (Loading i) sl k \<longleftrightarrow> i \<le> NUM_THREADS"
| "mod_pc_ok (Unloading i) sl k \<longleftrightarrow> i \<le> NUM_THREADS"
| "mod_pc_ok (Waiting i) sl k \<longleftrightarrow> i < NUM_THREADS \<and> sl i \<and> (\<forall>n b. k i = Some (n, b) \<longrightarrow> b)"
| "mod_pc_ok (UseAfterFree i) sl k \<longleftrightarrow> i < NUM_THREADS \<and> sl i \<and> k i = None"
| "mod_pc_ok _ sl k \<longleftrightarrow> True"

definition mod_inv :: "kmod \<Rightarrow> bool" where
  "mod_inv s \<longleftrightarrow> mod_pc_ok (mod_pc s) (mod_slots s) (mod_kth s) \<and> dom (mod_kth s) \<subseteq> {j. mod_slots s j} \<and>
     (\<forall>j. mod_slots s j \<longrightarrow> j < created_below (mod_pc s)) \<and> (\<forall>j < stopped_below (mod_pc s). mod_kth s j = None) \<and>
     (\<forall>j n b. mod_kth s j = Some (n, b) \<longrightarrow> n \<le> NUM_ITERATIONS)"

fun pc_rank :: "mod_pc \<Rightarrow> nat" where
  "pc_rank (Loading i) = (NUM_THREADS - i) * 1002 + 203"
| "pc_rank Loaded = 202"
| "pc_rank (Unloading i) = 2 * (NUM_THREADS - i) + 1"
| "pc_rank (Waiting i) = 2 * (NUM_THREADS - i)"
| "pc_rank _ = 0"

definition thread_rank :: "(nat \<times> bool) option \<Rightarrow> nat" where
  "thread_rank x = (case x of None \<Rightarrow> 0 | Some (n, b) \<Rightarrow> Suc NUM_ITERATIONS - n)"

definition mod_rank :: "kmod \<Rightarrow> nat" where
  "mod_rank s = pc_rank (mod_pc s) + (\<Sum>j < NUM_THREADS. thread_rank (mod_kth s j))"

lemma created_below_le: "mod_pc_ok p sl k \<Longrightarrow> created_below p \<le> NUM_THREADS"
  by (cases p) auto

lemma mod_inv_thread: "mod_inv s \<Longrightarrow> mod_kth s j = Some (n, b) \<Longrightarrow> j < NUM_THREADS \<and> mod_slots s j \<and> n \<le> NUM_ITERATIONS"
  using created_below_le [of "mod_pc s" "mod_slots s" "mod_kth s"] by (fastforce simp: mod_inv_def)

text \<open>Changing one thread changes its summand of the rank.\<close>

lemma rank_upd:
  assumes "j < NUM_THREADS"
  shows "(\<Sum>i < NUM_THREADS. thread_rank ((k(j := x)) i)) + thread_rank (k j) = (\<Sum>i < NUM_THREADS. thread_rank (k i)) + thread_rank x"
proof -
  have "(\<Sum>i < NUM_THREADS. thread_rank (f i)) = thread_rank (f j) + (\<Sum>i \<in> {..<NUM_THREADS} - {j}. thread_rank (f i))" for f
    using assms by (intro sum.remove) auto
  moreover have "(\<Sum>i \<in> {..<NUM_THREADS} - {j}. thread_rank ((k(j := x)) i)) = (\<Sum>i \<in> {..<NUM_THREADS} - {j}. thread_rank (k i))"
    by (intro sum.cong) auto
  ultimately show ?thesis by simp
qed

lemma thread_rank_simps [simp]: "thread_rank None = 0" "thread_rank (Some (n, b)) = 1001 - n"
  by (simp_all add: thread_rank_def)

lemma mod_step_inv:
  assumes "mod_inv s" "mod_step task s t"
  shows "mod_inv t"
  using assms(2,1)
proof cases
  case (create i)
  then show ?thesis using assms(1) by (auto simp: mod_inv_def less_Suc_eq)
next
  case (create_fail i)
  then show ?thesis using assms(1) by (auto simp: mod_inv_def less_Suc_eq)
next
  case (stop_return i)
  then show ?thesis using assms(1) by (auto simp: mod_inv_def less_Suc_eq)
next
  case (skip i)
  then show ?thesis using assms(1) by (auto simp: mod_inv_def less_Suc_eq)
next
  case (stop i n b)
  then have "n \<le> NUM_ITERATIONS" using mod_inv_thread [OF assms(1)] by blast
  then show ?thesis using stop assms(1) by (auto simp: mod_inv_def)
next
  case (iterate j n kmalloc k v l h)
  then show ?thesis using assms(1) by (cases "mod_pc s") (auto simp: mod_inv_def)
next
  case (thread_fault j n kmalloc k v e)
  then show ?thesis using assms(1) by (cases "mod_pc s") (auto simp: mod_inv_def)
next
  case (thread_return j n stop)
  then show ?thesis using assms(1) by (cases "mod_pc s") (auto simp: mod_inv_def)
qed (auto simp: mod_inv_def)

lemma mod_step_rank:
  assumes inv: "mod_inv s" and step: "mod_step task s t"
  shows "mod_rank t < mod_rank s"
  using step
proof cases
  case (create i)
  then have "mod_kth s i = None" using inv by (auto simp: mod_inv_def)
  moreover have "100 - i = Suc (100 - Suc i)" using create by simp
  ultimately show ?thesis using create rank_upd [of i "mod_kth s" "Some (0, False)"] by (simp add: mod_rank_def del: fun_upd_apply)
next
  case (iterate j n kmalloc k v l h)
  then show ?thesis using mod_inv_thread [OF inv iterate(2)] rank_upd [of j "mod_kth s" "Some (n + 1, False)"]
    by (simp add: mod_rank_def del: fun_upd_apply)
next
  case (thread_fault j n kmalloc k v e)
  then show ?thesis using mod_inv_thread [OF inv thread_fault(2)] rank_upd [of j "mod_kth s" None] by (simp add: mod_rank_def del: fun_upd_apply)
next
  case (thread_return j n stop)
  have "n \<le> NUM_ITERATIONS" "j < NUM_THREADS" using mod_inv_thread [OF inv thread_return(2)] by simp_all
  then show ?thesis using thread_return(1,2) rank_upd [of j "mod_kth s" None] by (simp add: mod_rank_def del: fun_upd_apply)
next
  case (stop_return i)
  then have "i < NUM_THREADS" using inv by (simp add: mod_inv_def)
  then show ?thesis using stop_return by (simp add: mod_rank_def)
next
  case (stop i n b)
  then show ?thesis using rank_upd [of i "mod_kth s" "Some (n, True)"] by (simp add: mod_rank_def del: fun_upd_apply)
qed (auto simp: mod_rank_def)

text \<open>What a state without successor looks like.\<close>

definition mod_final :: "kmod \<Rightarrow> bool" where
  "mod_final s \<longleftrightarrow> mod_kth s = Map.empty \<and> (mod_pc s = Unloaded \<or> (\<exists>i. mod_pc s = UseAfterFree i))"

text \<open>A thread can always go on: its calls of the store return or fault.\<close>

lemma thread_moves:
  assumes "mod_kth s j = Some (n, b)"
  shows "\<exists>t. mod_step task s t"
proof (cases "1000 \<le> n \<or> b")
  case True
  then show ?thesis using assms mod_step.thread_return by blast
next
  case False
  then have n: "mod_kth s j = Some (n, False)" "n < NUM_ITERATIONS" using assms by simp_all
  show ?thesis
  proof (cases "kv_test_iter (task j) (\<lambda>_. None) 0 0 (mod_heap s)")
    case (Inl e)
    then show ?thesis using thread_fault [OF n] by blast
  next
    case (Inr r)
    then show ?thesis using iterate [OF n] by (cases r) blast
  qed
qed

lemma mod_stuck:
  assumes inv: "mod_inv s" and stuck: "\<nexists>t. mod_step task s t"
  shows "mod_final s"
proof -
  have k: "mod_kth s = Map.empty" using thread_moves [of s] stuck by (metis ext not_None_eq surj_pair)
  have "mod_pc s = Unloaded \<or> (\<exists>i. mod_pc s = UseAfterFree i)"
  proof (cases "mod_pc s")
    case (Loading i)
    then show ?thesis using stuck create [of s i task] init_return [of s i task] by (meson not_le)
  next
    case Loaded
    then show ?thesis using stuck exit_call by blast
  next
    case (Unloading i)
    then show ?thesis using stuck k skip [of s i task] stop_gone [of s i task] exit_return [of s i task] by (metis not_le)
  next
    case (Waiting i)
    then show ?thesis using stuck k stop_return [of s i task] by metis
  qed simp_all
  then show ?thesis using k by (simp add: mod_final_def)
qed

interpretation kthr: terminating_system "\<lambda>s. \<exists>h. s = mod_start h" "mod_step task" mod_inv mod_rank mod_final for task
proof
  show "mod_inv s" if "\<exists>h. s = mod_start h" for s using that by (auto simp: mod_inv_def mod_start_def)
qed (rule mod_step_inv mod_step_rank mod_stuck; assumption)+

section \<open>Threads that ended too early\<close>

text \<open>The pointer in element \<open>i\<close> is still to be passed to \<open>kthread_stop\<close>, but its thread is gone.\<close>

definition ended_early :: "kmod \<Rightarrow> nat \<Rightarrow> bool" where
  "ended_early s i \<longleftrightarrow> mod_slots s i \<and> mod_kth s i = None \<and> stopped_below (mod_pc s) \<le> i \<and> mod_pc s \<noteq> Waiting i"

lemma ended_early_step:
  assumes "mod_inv s" "ended_early s i" "mod_step task s t"
  shows "ended_early t i"
  using assms(3)
proof cases
  case (create j)
  then show ?thesis using assms(1,2) by (auto simp: ended_early_def mod_inv_def)
next
  case (create_fail j)
  then show ?thesis using assms(1,2) by (auto simp: ended_early_def mod_inv_def)
next
  case (exit_return j)
  then show ?thesis using assms(1,2) by (auto simp: ended_early_def mod_inv_def)
next
  case (stop_return j)
  then show ?thesis using assms(2) by (cases "i = j") (auto simp: ended_early_def)
next
  case (skip j)
  then show ?thesis using assms(2) by (cases "i = j") (auto simp: ended_early_def)
qed (use assms(2) in \<open>auto simp: ended_early_def\<close>)

lemma ended_early_run:
  assumes "(mod_step task)\<^sup>*\<^sup>* s t" "mod_inv s" "ended_early s i"
  shows "mod_inv t \<and> ended_early t i"
  using assms by (induction rule: rtranclp_induct) (auto intro: mod_step_inv ended_early_step)

lemma ended_early_not_unloaded: "mod_inv s \<Longrightarrow> ended_early s i \<Longrightarrow> mod_pc s \<noteq> Unloaded"
  by (auto simp: ended_early_def mod_inv_def)

text \<open>When no thread has ended, the module can be unloaded.\<close>

lemma unload_from:
  assumes "mod_pc s = Unloading i" "i \<le> 100" "\<forall>j. i \<le> j \<and> j < 100 \<and> mod_slots s j \<longrightarrow> mod_kth s j \<noteq> None"
  shows "\<exists>t. (mod_step task)\<^sup>*\<^sup>* s t \<and> mod_pc t = Unloaded"
  using assms
proof (induction "100 - i" arbitrary: i s)
  case 0
  then have "mod_step task s (s\<lparr>mod_pc := Unloaded\<rparr>)" using exit_return [of s i task] by simp
  then show ?case by (intro exI [of _ "s\<lparr>mod_pc := Unloaded\<rparr>"]) auto
next
  case (Suc m)
  then have i: "i < 100" by simp
  have go: ?case if "(mod_step task)\<^sup>*\<^sup>* s u" "mod_pc u = Unloading (i + 1)" "mod_slots u = mod_slots s" "\<forall>j > i. mod_kth u j = mod_kth s j" for u
  proof -
    have "\<exists>t. (mod_step task)\<^sup>*\<^sup>* u t \<and> mod_pc t = Unloaded" by (rule Suc.hyps(1) [of "i + 1"]) (use Suc i that in auto)
    then show ?thesis using that(1) by (meson rtranclp_trans)
  qed
  show ?case
  proof (cases "mod_slots s i")
    case False
    have "mod_step task s (s\<lparr>mod_pc := Unloading (i + 1)\<rparr>)" by (rule skip [OF Suc.prems(1) i False])
    then show ?thesis by (intro go [of "s\<lparr>mod_pc := Unloading (i + 1)\<rparr>"] r_into_rtranclp) simp_all
  next
    case True
    then obtain n b where nb: "mod_kth s i = Some (n, b)" using Suc.prems(3) i by fastforce
    let ?u = "s\<lparr>mod_pc := Waiting i, mod_kth := (mod_kth s)(i \<mapsto> (n, True))\<rparr>"
    let ?v = "?u\<lparr>mod_kth := (mod_kth ?u)(i := None)\<rparr>"
    have 1: "mod_step task s ?u" by (rule stop [OF Suc.prems(1) i True nb])
    have 2: "mod_step task ?u ?v" by (rule thread_return [of _ _ n True]) simp_all
    have 3: "mod_step task ?v (?v\<lparr>mod_pc := Unloading (i + 1)\<rparr>)" by (rule stop_return) simp_all
    have "(mod_step task)\<^sup>*\<^sup>* s (?v\<lparr>mod_pc := Unloading (i + 1)\<rparr>)"
      using 1 2 3 by (meson converse_rtranclp_into_rtranclp r_into_rtranclp)
    then show ?thesis by (rule go) simp_all
  qed
qed

text \<open>
  C37: the life of the test module. Loading it, its threads and unloading it make a bounded number of steps in every interleaving. An execution that
  can go no further has no thread left; either the module is unloaded, or \<open>kv_test_exit\<close> has handed \<open>kthread_stop\<close> a pointer to a thread that was gone.
  As soon as one thread has returned, after its 1000 iterations or by a fault, before \<open>kv_test_exit\<close> came to it, no execution unloads the module any more; while
  all threads that were created exist, it can be unloaded.\<close>

theorem module_unload_too_late:
  assumes reach: "(mod_step task)\<^sup>*\<^sup>* (mod_start h) s"
  shows "(\<forall>n t. (mod_step task ^^ n) s t \<longrightarrow> n \<le> 100403) \<and>
    (\<forall>t. (mod_step task)\<^sup>*\<^sup>* s t \<and> (\<nexists>u. mod_step task t u) \<longrightarrow>
       mod_kth t = Map.empty \<and> (mod_pc t = Unloaded \<or> (\<exists>i. mod_pc t = UseAfterFree i \<and> mod_slots t i))) \<and>
    (\<forall>i t. ended_early s i \<and> (mod_step task)\<^sup>*\<^sup>* s t \<longrightarrow> mod_pc t \<noteq> Unloaded) \<and>
    (mod_pc s = Loaded \<and> (\<forall>i. mod_slots s i \<longrightarrow> mod_kth s i \<noteq> None) \<longrightarrow> (\<exists>t. (mod_step task)\<^sup>*\<^sup>* s t \<and> mod_pc t = Unloaded))"
proof (intro conjI allI impI)
  have i0: "mod_inv (mod_start h)" "mod_rank (mod_start h) = 100403" by (simp_all add: mod_inv_def mod_rank_def mod_start_def)
  have inv: "mod_inv s" using kthr.run_inv [OF reach i0(1)] .
  show "n \<le> 100403" if "(mod_step task ^^ n) s t" for n t
  proof -
    obtain m where m: "(mod_step task ^^ m) (mod_start h) s" using reach by (auto simp: rtranclp_power)
    show ?thesis using kthr.run_rank [OF m i0(1)] kthr.run_rank [OF that inv] i0(2) by simp
  qed
  fix t assume t: "(mod_step task)\<^sup>*\<^sup>* s t \<and> (\<nexists>u. mod_step task t u)"
  have it: "mod_inv t" using kthr.run_inv [OF conjunct1 [OF t] inv] .
  show "mod_kth t = Map.empty" using mod_stuck [OF it conjunct2 [OF t]] by (simp add: mod_final_def)
  show "mod_pc t = Unloaded \<or> (\<exists>i. mod_pc t = UseAfterFree i \<and> mod_slots t i)"
    using mod_stuck [OF it conjunct2 [OF t]] it by (auto simp: mod_final_def mod_inv_def)
next
  fix i t assume t: "ended_early s i \<and> (mod_step task)\<^sup>*\<^sup>* s t"
  then show "mod_pc t \<noteq> Unloaded"
    using ended_early_run [of task s t i] ended_early_not_unloaded kthr.run_inv [OF reach] by (auto simp: mod_inv_def mod_start_def)
next
  assume s: "mod_pc s = Loaded \<and> (\<forall>i. mod_slots s i \<longrightarrow> mod_kth s i \<noteq> None)"
  then have "mod_step task s (s\<lparr>mod_pc := Unloading 0\<rparr>)" using exit_call by blast
  moreover have "\<exists>t. (mod_step task)\<^sup>*\<^sup>* (s\<lparr>mod_pc := Unloading 0\<rparr>) t \<and> mod_pc t = Unloaded" by (rule unload_from [of _ 0]) (use s in auto)
  ultimately show "\<exists>t. (mod_step task)\<^sup>*\<^sup>* s t \<and> mod_pc t = Unloaded" by (meson converse_rtranclp_into_rtranclp)
qed

text \<open>Witness: the first thread has no store, so its first iteration faults while the module is still loading.\<close>

definition example_mod :: kmod where
  "example_mod = (mod_start Map.empty)\<lparr>mod_pc := Loading 1, mod_slots := (\<lambda>i. i = 0)\<rparr>"

theorem module_unload_too_late_witness:
  "(mod_step (\<lambda>_. task_zero))\<^sup>*\<^sup>* (mod_start Map.empty) example_mod \<and> \<not> (\<exists>t. (mod_step (\<lambda>_. task_zero))\<^sup>*\<^sup>* example_mod t \<and> mod_pc t = Unloaded)"
proof -
  let ?s = "mod_start Map.empty"
  let ?s1 = "?s\<lparr>mod_pc := Loading (0 + 1), mod_slots := (mod_slots ?s)(0 := True), mod_kth := (mod_kth ?s)(0 \<mapsto> (0, False))\<rparr>"
  have 1: "mod_step (\<lambda>_. task_zero) ?s ?s1" by (rule create) (simp_all add: mod_start_def)
  have "write_kv km task_zero k v Map.empty = Inl NullDeref" "read_kv task_zero k Map.empty = Inl NullDeref" for km k v
    by (simp_all add: write_kv_def read_kv_def task_zero_def spin_lock_def deref_locks_def)
  then have e: "kv_test_iter task_zero (\<lambda>_. None) 1 0 Map.empty = Inl NullDeref" by (simp add: kv_test_iter_def Let_def)
  have 2: "mod_step (\<lambda>_. task_zero) ?s1 (?s1\<lparr>mod_kth := (mod_kth ?s1)(0 := None)\<rparr>)"
    by (rule thread_fault [of _ 0 0 _ "\<lambda>_. None" 1 0 NullDeref]) (use e in \<open>simp_all add: mod_start_def\<close>)
  have eq: "?s1\<lparr>mod_kth := (mod_kth ?s1)(0 := None)\<rparr> = example_mod" by (auto simp: example_mod_def mod_start_def fun_eq_iff)
  have r: "(mod_step (\<lambda>_. task_zero))\<^sup>*\<^sup>* ?s example_mod"
    using 1 2 [unfolded eq] by (meson converse_rtranclp_into_rtranclp r_into_rtranclp)
  have "ended_early example_mod 0" by (simp add: ended_early_def example_mod_def mod_start_def)
  then show ?thesis using r module_unload_too_late [OF r] by blast
qed

section \<open>The main function of the user program\<close>

text \<open>\<open>pthread_create\<close> answers 0 or an error number for each thread; when one cannot be created, \<open>main\<close> returns at once.\<close>

fun serial_create :: "(nat \<Rightarrow> int) \<Rightarrow> nat \<Rightarrow> nat \<Rightarrow> nat list \<times> bool" where
  "serial_create pthread_create i 0 = ([], True)"
| "serial_create pthread_create i (Suc n) =
    (if pthread_create i \<noteq> 0 then ([], False)
     else let (ts, ok) = serial_create pthread_create (i + 1) n in (i # ts, ok))"

definition serial_main :: "(nat \<Rightarrow> int) \<Rightarrow> int \<times> nat list \<times> nat list" where
  "serial_main pthread_create =
    (let (created, ok) = serial_create pthread_create 0 NUM_THREADS
     in if ok then (0, created, [0..<NUM_THREADS]) else (- 1, created, []))"

lemma serial_create_eq:
  "serial_create pc i n = (takeWhile (\<lambda>j. pc j = 0) [i..<i + n], \<forall>j \<in> {i..<i + n}. pc j = 0)"
proof (induction n arbitrary: i)
  case (Suc n)
  have u: "[i..<i + Suc n] = i # [i + 1..<i + 1 + n]" "{i..<i + Suc n} = insert i {i + 1..<i + 1 + n}" by (auto simp: upt_conv_Cons)
  show ?case unfolding u by (simp add: Suc)
qed simp

text \<open>
  The program waits for every thread it has created exactly when all could be created; otherwise it returns -1 while those
  that were created still use the store and the array.
\<close>

lemma serial_main_joins:
  "fst (serial_main pc) = (if \<forall>j < 100. pc j = 0 then 0 else - 1)"
  "fst (serial_main pc) = 0 \<Longrightarrow> fst (snd (serial_main pc)) = [0..<100] \<and> snd (snd (serial_main pc)) = [0..<100]"
  "fst (serial_main pc) \<noteq> 0 \<Longrightarrow> pc 0 = 0 \<Longrightarrow> 0 \<in> set (fst (snd (serial_main pc))) \<and> snd (snd (serial_main pc)) = []"
proof -
  have m: "serial_main pc = (if \<forall>j \<in> {0..<100}. pc j = 0 then (0, takeWhile (\<lambda>j. pc j = 0) [0..<100], [0..<100]) else (- 1, takeWhile (\<lambda>j. pc j = 0) [0..<100], []))"
    by (simp add: serial_main_def serial_create_eq)
  have z: "[0..<100 :: nat] = 0 # [1..<100]" by (simp add: upt_conv_Cons)
  show "fst (serial_main pc) = (if \<forall>j < 100. pc j = 0 then 0 else - 1)" by (auto simp: m)
  show "fst (serial_main pc) = 0 \<Longrightarrow> fst (snd (serial_main pc)) = [0..<100] \<and> snd (snd (serial_main pc)) = [0..<100]"
    by (simp add: m takeWhile_eq_all_conv split: if_splits)
  show "fst (serial_main pc) \<noteq> 0 \<Longrightarrow> pc 0 = 0 \<Longrightarrow> 0 \<in> set (fst (snd (serial_main pc))) \<and> snd (snd (serial_main pc)) = []"
    by (simp add: m z split: if_splits)
qed

end
