(* ===== verification/Bytes.thy ===== *)
theory Bytes
  imports Kernel_Prelude
begin

text \<open>
  Byte buffers: little-endian encoding of machine words, stores and loads at an offset, C strings
  and hexadecimal output. Shared by the models of the ACPI tables and of the packet capture.
\<close>

section \<open>Definitions\<close>

type_synonym bytes = "u8 list"

definition le_bytes :: "nat \<Rightarrow> 'a::len word \<Rightarrow> bytes" where
  "le_bytes n w = map (\<lambda>i. ucast (drop_bit (8 * i) w)) [0..<n]"

fun le_word :: "bytes \<Rightarrow> 'a::len word" where
  "le_word [] = 0"
| "le_word (b # bs) = ucast b OR push_bit 8 (le_word bs)"

text \<open>\<open>memcpy\<close> of \<open>bs\<close> to an offset of a buffer, and the bytes at an offset.\<close>

definition store_at :: "nat \<Rightarrow> bytes \<Rightarrow> bytes \<Rightarrow> bytes" where
  "store_at off bs mem = take off mem @ bs @ drop (off + length bs) mem"

definition load_at :: "nat \<Rightarrow> nat \<Rightarrow> bytes \<Rightarrow> bytes" where
  "load_at off n mem = take n (drop off mem)"

definition bytes_of_string :: "string \<Rightarrow> bytes" where
  "bytes_of_string s = map of_char s"

definition string_of_bytes :: "bytes \<Rightarrow> string" where
  "string_of_bytes bs = map (\<lambda>b. char_of (unat b)) bs"

text \<open>The bytes of a C string that starts at the head of a buffer; \<open>None\<close> without a terminator.\<close>

fun c_string :: "bytes \<Rightarrow> bytes option" where
  "c_string [] = None"
| "c_string (b # bs) = (if b = 0 then Some [] else map_option ((#) b) (c_string bs))"

definition hex_digit :: "nat \<Rightarrow> char" where
  "hex_digit d = ''0123456789ABCDEF'' ! d"

text \<open>\<open>%0nX\<close> of a word of \<open>4 * n\<close> bits.\<close>

definition hex_upper :: "nat \<Rightarrow> 'a::len word \<Rightarrow> string" where
  "hex_upper n w = map (\<lambda>i. hex_digit (unat (drop_bit (4 * (n - 1 - i)) w AND 15))) [0..<n]"

section \<open>Little-endian words\<close>

lemma length_le_bytes [simp]: "length (le_bytes n w) = n"
  by (simp add: le_bytes_def)

lemma nth_le_bytes [simp]: "i < n \<Longrightarrow> le_bytes n w ! i = ucast (drop_bit (8 * i) w)"
  by (simp add: le_bytes_def)

lemma bit_le_word:
  "bit (le_word bs :: 'a::len word) i \<longleftrightarrow>
     i < LENGTH('a) \<and> i div 8 < length bs \<and> bit (bs ! (i div 8)) (i mod 8)"
proof (induction bs arbitrary: i)
  case Nil
  then show ?case by simp
next
  case (Cons b bs)
  have u: "bit (ucast b :: 'a word) i \<longleftrightarrow> i < LENGTH('a) \<and> i < 8 \<and> bit b i"
    using bit_imp_le_length [of b i] by (auto simp: bit_ucast_iff)
  show ?case
  proof (cases "i < 8")
    case True
    then show ?thesis by (simp add: bit_or_iff u bit_push_bit_iff)
  next
    case False
    then have "i div 8 = Suc ((i - 8) div 8)" "i mod 8 = (i - 8) mod 8"
      by (simp_all add: le_div_geq le_mod_geq)
    with False show ?thesis by (auto simp: bit_or_iff u bit_push_bit_iff Cons)
  qed
qed

lemma le_word_le_bytes:
  fixes w :: "'a::len word"
  assumes "LENGTH('a) \<le> 8 * n"
  shows "le_word (le_bytes n w) = w"
proof (rule bit_word_eqI)
  fix i assume i: "i < LENGTH('a)"
  then have "i div 8 < n" using assms by auto
  then show "bit (le_word (le_bytes n w) :: 'a word) i = bit w i"
    using i by (simp add: bit_le_word bit_ucast_iff bit_drop_bit_eq)
qed

section \<open>Stores and loads\<close>

lemma length_store_at [simp]: "off + length bs \<le> length mem \<Longrightarrow> length (store_at off bs mem) = length mem"
  by (simp add: store_at_def)

lemma load_store_same [simp]:
  "off + length bs \<le> length mem \<Longrightarrow> load_at off (length bs) (store_at off bs mem) = bs"
  by (simp add: store_at_def load_at_def)

lemma nth_store_at:
  assumes "off + length bs \<le> length mem" "i < length mem"
  shows "store_at off bs mem ! i = (if off \<le> i \<and> i < off + length bs then bs ! (i - off) else mem ! i)"
  using assms by (auto simp: store_at_def nth_append)

lemma load_store_disjoint:
  assumes "off + length bs \<le> length mem" "o' + n \<le> length mem" "o' + n \<le> off \<or> off + length bs \<le> o'"
  shows "load_at o' n (store_at off bs mem) = load_at o' n mem"
proof (rule nth_equalityI)
  show "length (load_at o' n (store_at off bs mem)) = length (load_at o' n mem)"
    using assms by (simp add: load_at_def)
next
  fix i assume "i < length (load_at o' n (store_at off bs mem))"
  then have "i < n" using assms by (simp add: load_at_def)
  then show "load_at o' n (store_at off bs mem) ! i = load_at o' n mem ! i"
    using assms by (auto simp: load_at_def nth_store_at)
qed

text \<open>Replacing one byte changes the byte sum by the difference.\<close>

lemma sum_list_store_byte:
  fixes mem :: bytes
  assumes "off < length mem"
  shows "sum_list (store_at off [b] mem) = sum_list mem - mem ! off + b"
proof -
  have "mem = take off mem @ mem ! off # drop (Suc off) mem"
    using assms by (rule id_take_nth_drop)
  then have "sum_list mem = sum_list (take off mem) + (mem ! off + sum_list (drop (Suc off) mem))"
    by (metis sum_list.Cons sum_list_append)
  then show ?thesis by (simp add: store_at_def algebra_simps)
qed

lemma c_string_append_zero: "0 \<notin> set bs \<Longrightarrow> c_string (bs @ 0 # rest) = Some bs"
  by (induction bs) auto

lemma c_string_nonzero: "c_string bs = Some s \<Longrightarrow> 0 \<notin> set s \<and> (\<exists>rest. bs = s @ 0 # rest)"
  by (induction bs arbitrary: s) (auto split: if_splits)

lemma c_string_None: "c_string bs = None \<longleftrightarrow> 0 \<notin> set bs"
  by (induction bs) auto

lemma length_hex_upper [simp]: "length (hex_upper n w) = n"
  by (simp add: hex_upper_def)

end
