(* ===== verification/Acpi_Add.thy ===== *)
theory Acpi_Add
  imports Bytes
begin

text \<open>
  The UEFI application MyAddAcpi (edk2/MyAddAcpiPkg/MyAddAcpi.c): it builds the custom ACPI table
  \<open>MYTB\<close> in pool memory, computes its checksum and hands it to the ACPI table protocol of the
  firmware. The packed structure \<open>MY_CUSTOM_ACPI_TABLE\<close> is a buffer of 80 bytes, because the
  program writes it by field, by string copy and sums it by byte. Pool allocation and the protocol
  of the firmware are parameters; \<open>CopyMem\<close> and \<open>AsciiStrCpyS\<close> are the C library's \<open>memcpy\<close> and
  \<open>strcpy_s\<close>.
\<close>

section \<open>Firmware interface\<close>

type_synonym efi_status = u64
type_synonym efi_pool = "addr \<rightharpoonup> bytes"

abbreviation (input) EFI_SUCCESS :: efi_status where "EFI_SUCCESS \<equiv> 0"
abbreviation (input) EFI_OUT_OF_RESOURCES :: efi_status where "EFI_OUT_OF_RESOURCES \<equiv> 0x8000000000000009"

text \<open>\<open>EFI_ERROR\<close>: the status is negative as a signed number.\<close>

definition EFI_ERROR :: "efi_status \<Rightarrow> bool" where
  "EFI_ERROR s \<longleftrightarrow> bit s 63"

text \<open>
  What the application calls: the pool allocator, the result of \<open>LocateProtocol\<close>, and
  \<open>InstallAcpiTable\<close> of the protocol, which maps the table, its size and the firmware's state to
  a status, a table key and a new state.
\<close>

record 'fw efi_env =
  AllocateZeroPool :: "efi_pool \<Rightarrow> addr option"
  LocateProtocol :: efi_status
  InstallAcpiTable :: "bytes \<Rightarrow> u32 \<Rightarrow> 'fw \<Rightarrow> efi_status \<times> u64 \<times> 'fw"

datatype efi_print =
    Starting
  | CreateFailed efi_status
  | Created
  | PrintSignature u32
  | PrintLength u32
  | InstallFailed efi_status
  | Installed u64
  | RetrieveHint

record 'fw efi_state =
  pool :: efi_pool
  firmware :: 'fw
  console :: "efi_print list"

definition Print :: "efi_print \<Rightarrow> 'fw efi_state \<Rightarrow> 'fw efi_state" where
  "Print m s = s\<lparr>console := console s @ [m]\<rparr>"

definition FreePool :: "addr \<Rightarrow> 'fw efi_state \<Rightarrow> 'fw efi_state" where
  "FreePool p s = s\<lparr>pool := (pool s)(p := None)\<rparr>"

section \<open>The table\<close>

definition MYTB_SIZE :: nat where
  "MYTB_SIZE = 36 + 4 + 8 + 32"

text \<open>\<open>SIGNATURE_32\<close>: four characters, the first in the lowest byte.\<close>

definition SIGNATURE_32 :: "char \<Rightarrow> char \<Rightarrow> char \<Rightarrow> char \<Rightarrow> u32" where
  "SIGNATURE_32 a b c d = of_char a OR push_bit 8 (of_char b) OR push_bit 16 (of_char c) OR push_bit 24 (of_char d)"

definition header_signature :: "bytes \<Rightarrow> u32" where
  "header_signature t = le_word (load_at 0 4 t)"

definition header_length :: "bytes \<Rightarrow> u32" where
  "header_length t = le_word (load_at 4 4 t)"

text \<open>
  \<open>AsciiStrCpyS (dest, max, src)\<close> copies the string with its terminator when it fits in \<open>max\<close>
  bytes, and nothing otherwise.
\<close>

definition AsciiStrCpyS :: "nat \<Rightarrow> nat \<Rightarrow> string \<Rightarrow> bytes \<Rightarrow> bytes" where
  "AsciiStrCpyS off dmax s t =
     (if length s < dmax then store_at off (bytes_of_string s @ [0]) t else t)"

text \<open>The loop of \<open>CalculateChecksum\<close> with \<open>n\<close> rounds left, at \<open>Index\<close> with the sum so far.\<close>

fun checksum_loop :: "bytes \<Rightarrow> nat \<Rightarrow> nat \<Rightarrow> u8 \<Rightarrow> u8 kres" where
  "checksum_loop buf 0 idx s = Inr s"
| "checksum_loop buf (Suc n) idx s =
     rbind (array_get buf (int idx)) (\<lambda>b. checksum_loop buf n (idx + 1) (s + b))"

definition CalculateChecksum :: "bytes \<Rightarrow> nat \<Rightarrow> u8 kres" where
  "CalculateChecksum buf sz =
     rbind (checksum_loop buf sz 0 0) (\<lambda>s. Inr (word_of_int (0x100 - uint s)))"

text \<open>The assignments of \<open>CreateCustomAcpiTable\<close> to the zeroed table, in their order.\<close>

definition fill_table :: "bytes \<Rightarrow> bytes" where
  "fill_table t0 =
    (let t1 = store_at 0 (le_bytes 4 (SIGNATURE_32 CHR ''M'' CHR ''Y'' CHR ''T'' CHR ''B'')) t0;
         t2 = store_at 4 (le_bytes 4 (of_nat MYTB_SIZE :: u32)) t1;
         t3 = store_at 8 (le_bytes 1 (1 :: u8)) t2;
         t4 = store_at 24 (le_bytes 4 (1 :: u32)) t3;
         t5 = store_at 10 (take 6 (bytes_of_string ''MYOEMD'')) t4;
         t6 = AsciiStrCpyS 16 9 ''MYCUSTOM'' t5;
         t7 = store_at 28 (le_bytes 4 (0x12345678 :: u32)) t6;
         t8 = store_at 32 (le_bytes 4 (1 :: u32)) t7;
         t9 = store_at 36 (le_bytes 4 (0xDEADBEEF :: u32)) t8;
         t10 = store_at 40 (le_bytes 8 (0x0123456789ABCDEF :: u64)) t9
     in store_at 48 (take 28 (bytes_of_string ''Hello from custom ACPI table!'')) t10)"

text \<open>The two assignments to the checksum field.\<close>

definition seal_table :: "bytes \<Rightarrow> bytes kres" where
  "seal_table t =
    (let t' = store_at 9 [0] t
     in rbind (CalculateChecksum t' (unat (header_length t'))) (\<lambda>c. Inr (store_at 9 [c] t')))"

definition CreateCustomAcpiTable ::
  "(efi_pool \<Rightarrow> addr option) \<Rightarrow> efi_pool \<Rightarrow> (efi_status \<times> addr option \<times> efi_pool) kres" where
  "CreateCustomAcpiTable alloc pl =
    (case alloc pl of
       None \<Rightarrow> Inr (EFI_OUT_OF_RESOURCES, None, pl)
     | Some p \<Rightarrow>
         rbind (seal_table (fill_table (replicate MYTB_SIZE 0)))
           (\<lambda>t. Inr (EFI_SUCCESS, Some p, pl(p \<mapsto> t))))"

definition InstallCustomAcpiTable ::
  "'fw efi_env \<Rightarrow> bytes \<Rightarrow> 'fw \<Rightarrow> efi_status \<times> u64 \<times> 'fw" where
  "InstallCustomAcpiTable env t fw =
    (let status = LocateProtocol env
     in if EFI_ERROR status then (status, 0, fw)
        else let (status', key, fw') = InstallAcpiTable env t (header_length t) fw
             in if EFI_ERROR status' then (status', key, fw') else (EFI_SUCCESS, key, fw'))"

definition MyAddAcpi_UefiMain :: "'fw efi_env \<Rightarrow> 'fw efi_state \<Rightarrow> (efi_status \<times> 'fw efi_state) kres" where
  "MyAddAcpi_UefiMain env s0 =
    (let s1 = Print Starting s0
     in rbind (CreateCustomAcpiTable (AllocateZeroPool env) (pool s1)) (\<lambda>(status, table, pl).
       let s2 = s1\<lparr>pool := pl\<rparr>
       in if EFI_ERROR status then Inr (status, Print (CreateFailed status) s2)
          else case table of
            None \<Rightarrow> Inl NullDeref
          | Some p \<Rightarrow>
            (case pool s2 p of
               None \<Rightarrow> Inl (BadAddr p)
             | Some t \<Rightarrow>
               (let s3 = Print (PrintLength (header_length t)) (Print (PrintSignature (header_signature t)) (Print Created s2));
                    (status', key, fw) = InstallCustomAcpiTable env t (firmware s3);
                    s4 = s3\<lparr>firmware := fw\<rparr>
                in if EFI_ERROR status' then Inr (status', FreePool p (Print (InstallFailed status') s4))
                   else Inr (EFI_SUCCESS, FreePool p (Print RetrieveHint (Print (Installed key) s4)))))))"

section \<open>Hypotheses on the firmware\<close>

text \<open>The allocator returns memory that is not in use.\<close>

definition fresh_pool_alloc :: "(efi_pool \<Rightarrow> addr option) \<Rightarrow> bool" where
  "fresh_pool_alloc alloc \<longleftrightarrow> (\<forall>pl p. alloc pl = Some p \<longrightarrow> p \<noteq> NULL \<and> pl p = None)"

text \<open>Two tables that agree except in the checksum byte, which the firmware may compute anew.\<close>

definition same_table :: "bytes \<Rightarrow> bytes \<Rightarrow> bool" where
  "same_table t u \<longleftrightarrow> length t = length u \<and> (\<forall>i < length t. i \<noteq> 9 \<longrightarrow> t ! i = u ! i)"

text \<open>
  \<open>InstallAcpiTable\<close> copies the given number of bytes of the table to the tables the operating
  system finds by signature.
\<close>

definition installs_tables ::
  "(bytes \<Rightarrow> u32 \<Rightarrow> 'fw \<Rightarrow> efi_status \<times> u64 \<times> 'fw) \<Rightarrow> ('fw \<Rightarrow> bytes \<Rightarrow> bytes option) \<Rightarrow> bool" where
  "installs_tables install get \<longleftrightarrow>
     (\<forall>t len fw s k fw'. install t len fw = (s, k, fw') \<longrightarrow> \<not> EFI_ERROR s \<longrightarrow> unat len \<le> length t \<longrightarrow>
        (\<exists>u. get fw' (take 4 t) = Some u \<and> same_table u (take (unat len) t)))"

text \<open>
  What a reader finds in the finished table. The OEM revision is 0: the program assigns 1, and the
  terminator of the OEM table identifier, copied into a field of eight bytes, overwrites it.
\<close>

definition mytb_fields :: "bytes \<Rightarrow> bool" where
  "mytb_fields t \<longleftrightarrow> length t = 80 \<and>
     load_at 0 4 t = bytes_of_string ''MYTB'' \<and> header_length t = 80 \<and> load_at 8 1 t = [1] \<and>
     load_at 10 6 t = bytes_of_string ''MYOEMD'' \<and> load_at 16 8 t = bytes_of_string ''MYCUSTOM'' \<and>
     (le_word (load_at 24 4 t) :: u32) = 0 \<and>
     (le_word (load_at 28 4 t) :: u32) = 0x12345678 \<and> (le_word (load_at 32 4 t) :: u32) = 1 \<and>
     (le_word (load_at 36 4 t) :: u32) = 0xDEADBEEF \<and> (le_word (load_at 40 8 t) :: u64) = 0x0123456789ABCDEF \<and>
     c_string (load_at 48 32 t) = Some (bytes_of_string ''Hello from custom ACPI table'')"

section \<open>The checksum\<close>

lemma checksum_loop_eq:
  "idx + n \<le> length buf \<Longrightarrow> checksum_loop buf n idx s = Inr (s + sum_list (take n (drop idx buf)))"
proof (induction n arbitrary: idx s)
  case 0
  then show ?case by simp
next
  case (Suc n)
  then have "drop idx buf = buf ! idx # drop (idx + 1) buf"
    by (simp add: Cons_nth_drop_Suc)
  with Suc show ?case by (simp add: array_get_in algebra_simps)
qed

lemma checksum_loop_out_of_bounds:
  "length buf < idx + n \<Longrightarrow> idx \<le> length buf \<Longrightarrow>
     checksum_loop buf n idx s = Inl (OutOfBounds (int (length buf)))"
proof (induction n arbitrary: idx s)
  case 0
  then show ?case by simp
next
  case (Suc n)
  then show ?case by (cases "idx = length buf") (simp_all add: kfault_simps)
qed

lemma CalculateChecksum_eq:
  assumes "n \<le> length buf"
  shows "CalculateChecksum buf n = Inr (- sum_list (take n buf))"
proof -
  have "word_of_int (256 - uint s) = (- s :: u8)" for s :: u8
    by (simp add: word_uint_eq_iff uint_word_ariths uint_word_of_int mod_simps)
  then show ?thesis using assms by (simp add: CalculateChecksum_def checksum_loop_eq)
qed

lemma CalculateChecksum_faults:
  "length buf < n \<Longrightarrow> CalculateChecksum buf n = Inl (OutOfBounds (int (length buf)))"
  by (simp add: CalculateChecksum_def checksum_loop_out_of_bounds)

lemma header_length_store_checksum:
  "10 \<le> length t \<Longrightarrow> header_length (store_at 9 [b] t) = header_length t"
  by (simp add: header_length_def load_store_disjoint)

lemma take_store_at: "off + length bs \<le> n \<Longrightarrow> n \<le> length t \<Longrightarrow> take n (store_at off bs t) = store_at off bs (take n t)"
  by (rule nth_equalityI) (simp_all add: nth_store_at)

lemma seal_table_sum:
  assumes "unat (header_length t) = n" "10 \<le> n" "n \<le> length t"
  shows "\<exists>c. seal_table t = Inr (store_at 9 [c] t) \<and> sum_list (take n (store_at 9 [c] t)) = 0"
proof -
  let ?t = "store_at 9 [0] t" and ?c = "- sum_list (take n (store_at 9 [0] t))"
  have n9: "take n t ! 9 = t ! 9" using assms by simp
  have "seal_table t = Inr (store_at 9 [?c] ?t)"
    using assms by (simp add: seal_table_def header_length_store_checksum CalculateChecksum_eq Let_def)
  also have "store_at 9 [?c] ?t = store_at 9 [?c] t"
    using assms by (simp add: store_at_def min_def)
  finally have "seal_table t = Inr (store_at 9 [?c] t)" .
  moreover have "sum_list (take n (store_at 9 [?c] t)) = 0"
    using assms by (simp add: take_store_at sum_list_store_byte)
  ultimately show ?thesis by blast
qed

section \<open>The image that is installed\<close>

lemma fill_table_fields: "mytb_fields (fill_table (replicate MYTB_SIZE 0))"
  by code_simp

lemma same_table_load:
  assumes "same_table t u" "off + n \<le> length u" "off + n \<le> 9 \<or> 10 \<le> off"
  shows "load_at off n t = load_at off n u"
proof (rule nth_equalityI)
  show "length (load_at off n t) = length (load_at off n u)"
    using assms(1) by (simp add: load_at_def same_table_def)
next
  fix i assume "i < length (load_at off n t)"
  then show "load_at off n t ! i = load_at off n u ! i"
    using assms by (auto simp: load_at_def same_table_def)
qed

lemma same_table_fields: "same_table t u \<Longrightarrow> mytb_fields u \<Longrightarrow> mytb_fields t"
  by (simp add: mytb_fields_def header_length_def same_table_load) (simp add: same_table_def)

lemma same_table_checksum: "10 \<le> length t \<Longrightarrow> same_table (store_at 9 [c] t) t"
  by (simp add: same_table_def nth_store_at)

lemma seal_fill_table:
  "\<exists>t. seal_table (fill_table (replicate MYTB_SIZE 0)) = Inr t \<and> mytb_fields t \<and> sum_list t = 0"
proof -
  let ?f = "fill_table (replicate MYTB_SIZE 0)"
  have f: "mytb_fields ?f" by (rule fill_table_fields)
  then have len: "length ?f = 80" "header_length ?f = 80" by (simp_all add: mytb_fields_def)
  then obtain c where c: "seal_table ?f = Inr (store_at 9 [c] ?f)" "sum_list (take 80 (store_at 9 [c] ?f)) = 0"
    using seal_table_sum [of ?f 80] by auto
  have "mytb_fields (store_at 9 [c] ?f)"
    using same_table_fields [OF same_table_checksum f] len by simp
  with c len show ?thesis by simp
qed

lemma add_acpi_main_cases:
  assumes "fresh_pool_alloc (AllocateZeroPool env)"
  shows "\<exists>status s'. MyAddAcpi_UefiMain env s = Inr (status, s') \<and> pool s' = pool s \<and>
    (if AllocateZeroPool env (pool s) = None then status = EFI_OUT_OF_RESOURCES \<and> firmware s' = firmware s
     else if EFI_ERROR (LocateProtocol env) then status = LocateProtocol env \<and> firmware s' = firmware s
     else \<exists>t k st. mytb_fields t \<and> sum_list t = 0 \<and>
       InstallAcpiTable env t 80 (firmware s) = (st, k, firmware s') \<and>
       status = (if EFI_ERROR st then st else EFI_SUCCESS))"
proof (cases "AllocateZeroPool env (pool s)")
  case None
  then show ?thesis
    by (simp add: MyAddAcpi_UefiMain_def CreateCustomAcpiTable_def Print_def EFI_ERROR_def Let_def)
next
  case (Some p)
  obtain t where t: "seal_table (fill_table (replicate MYTB_SIZE 0)) = Inr t" "mytb_fields t" "sum_list t = 0"
    using seal_fill_table by blast
  then have len: "header_length t = 80" by (simp add: mytb_fields_def)
  have free: "(pool s)(p := None) = pool s"
    using Some assms by (simp add: fresh_pool_alloc_def fun_upd_idem)
  obtain st k fw where i: "InstallAcpiTable env t 80 (firmware s) = (st, k, fw)"
    by (cases "InstallAcpiTable env t 80 (firmware s)") auto
  have main: "\<exists>s'. MyAddAcpi_UefiMain env s =
      Inr (if EFI_ERROR (LocateProtocol env) then LocateProtocol env else if EFI_ERROR st then st else EFI_SUCCESS, s') \<and>
      pool s' = pool s \<and> firmware s' = (if EFI_ERROR (LocateProtocol env) then firmware s else fw)"
    using Some t(1) i len free
    by (simp add: MyAddAcpi_UefiMain_def CreateCustomAcpiTable_def InstallCustomAcpiTable_def
        Print_def FreePool_def Let_def EFI_ERROR_def)
  have "\<exists>t' k' st'. mytb_fields t' \<and> sum_list t' = 0 \<and>
      InstallAcpiTable env t' 80 (firmware s) = (st', k', fw) \<and>
      (if EFI_ERROR st then st else EFI_SUCCESS) = (if EFI_ERROR st' then st' else EFI_SUCCESS)"
    using i t(2,3) by blast
  with main Some show ?thesis by (cases "EFI_ERROR (LocateProtocol env)") fastforce+
qed

lemma add_acpi_main_success:
  assumes "fresh_pool_alloc (AllocateZeroPool env)" "MyAddAcpi_UefiMain env s = Inr (EFI_SUCCESS, s')"
  shows "\<exists>t k st. mytb_fields t \<and> InstallAcpiTable env t 80 (firmware s) = (st, k, firmware s') \<and> \<not> EFI_ERROR st"
proof -
  have "\<not> EFI_ERROR EFI_SUCCESS" "EFI_OUT_OF_RESOURCES \<noteq> EFI_SUCCESS" by (simp_all add: EFI_ERROR_def)
  then show ?thesis
    using add_acpi_main_cases [OF assms(1), of s] assms(2) by (auto split: if_splits)
qed

section \<open>Properties of the application\<close>

text \<open>
  The table \<open>CreateCustomAcpiTable\<close> builds is a valid ACPI table. When the allocation
  succeeds the function returns a table of 80 bytes that carries the intended fields (the OEM
  revision excepted, which reads 0) and whose bytes sum to 0 modulo 256; a failed allocation is
  reported and changes nothing.
\<close>

theorem create_table_valid:
  "(\<forall>p. alloc pl = Some p \<longrightarrow>
      (\<exists>t. CreateCustomAcpiTable alloc pl = Inr (EFI_SUCCESS, Some p, pl(p \<mapsto> t)) \<and>
           mytb_fields t \<and> sum_list t = 0)) \<and>
   (alloc pl = None \<longrightarrow> CreateCustomAcpiTable alloc pl = Inr (EFI_OUT_OF_RESOURCES, None, pl))"
  using seal_fill_table by (auto simp: CreateCustomAcpiTable_def)

text \<open>
  \<open>CalculateChecksum\<close> is right for every table. For a table whose length field is at least the
  size of the header up to the checksum and at most the buffer, storing its result in the checksum
  field makes the bytes sum to 0; a length beyond the buffer makes it read out of bounds.
\<close>

theorem checksum_seals_table:
  assumes "10 \<le> unat (header_length t)" "10 \<le> length t"
  shows "(unat (header_length t) \<le> length t \<longrightarrow>
            (\<exists>c. seal_table t = Inr (store_at 9 [c] t) \<and>
                 sum_list (take (unat (header_length t)) (store_at 9 [c] t)) = 0)) \<and>
         (length t < unat (header_length t) \<longrightarrow> seal_table t = Inl (OutOfBounds (int (length t))))"
  using assms seal_table_sum [of t]
  by (simp add: seal_table_def header_length_store_checksum CalculateChecksum_faults Let_def)

text \<open>
  C39: the application as a whole. Under an allocator that returns unused memory it never faults,
  it leaves the pool as it found it on every path, and it returns the first error of the
  allocation, of \<open>LocateProtocol\<close> and of \<open>InstallAcpiTable\<close>, or success after the firmware has
  been given a valid \<open>MYTB\<close> table together with its length.
\<close>
theorem add_acpi_main:
  assumes "fresh_pool_alloc (AllocateZeroPool env)"
  shows "\<exists>status s'. MyAddAcpi_UefiMain env s = Inr (status, s') \<and> pool s' = pool s \<and>
    (if AllocateZeroPool env (pool s) = None then status = EFI_OUT_OF_RESOURCES \<and> firmware s' = firmware s
     else if EFI_ERROR (LocateProtocol env) then status = LocateProtocol env \<and> firmware s' = firmware s
     else \<exists>t k st. mytb_fields t \<and> sum_list t = 0 \<and>
       InstallAcpiTable env t 80 (firmware s) = (st, k, firmware s') \<and>
       status = (if EFI_ERROR st then st else EFI_SUCCESS))"
  by (rule add_acpi_main_cases [OF assms])

section \<open>Witnesses\<close>

definition acpi_ex_install :: "bytes \<Rightarrow> u32 \<Rightarrow> (bytes \<rightharpoonup> bytes) \<Rightarrow> efi_status \<times> u64 \<times> (bytes \<rightharpoonup> bytes)" where
  "acpi_ex_install t len fw = (EFI_SUCCESS, 7, fw(take 4 t \<mapsto> take (unat len) t))"

definition acpi_ex_env :: "(bytes \<rightharpoonup> bytes) efi_env" where
  "acpi_ex_env = \<lparr>AllocateZeroPool = (\<lambda>pl. if pl 4096 = None then Some 4096 else None),
     LocateProtocol = EFI_SUCCESS, InstallAcpiTable = acpi_ex_install\<rparr>"

definition acpi_ex_state :: "(bytes \<rightharpoonup> bytes) efi_state" where
  "acpi_ex_state = \<lparr>pool = (\<lambda>_. None), firmware = (\<lambda>_. None), console = []\<rparr>"

lemma acpi_ex_fresh: "fresh_pool_alloc (AllocateZeroPool acpi_ex_env)"
  by (simp add: acpi_ex_env_def fresh_pool_alloc_def)

lemma acpi_ex_installs: "installs_tables (InstallAcpiTable acpi_ex_env) (\<lambda>fw. fw)"
  by (auto simp: acpi_ex_env_def installs_tables_def acpi_ex_install_def same_table_def)

theorem create_table_valid_witness:
  "\<exists>t. CreateCustomAcpiTable (\<lambda>pl. Some 8) (\<lambda>_. None) = Inr (EFI_SUCCESS, Some 8, [8 \<mapsto> t]) \<and>
     mytb_fields t \<and> sum_list t = 0"
  using create_table_valid [of "\<lambda>pl. Some 8" "\<lambda>_. None"] by simp

theorem checksum_seals_table_witness:
  "\<exists>c. seal_table (fill_table (replicate 80 0)) = Inr (store_at 9 [c] (fill_table (replicate 80 0))) \<and>
     sum_list (take 80 (store_at 9 [c] (fill_table (replicate 80 0)))) = 0"
proof -
  have "header_length (fill_table (replicate 80 0)) = 80" "length (fill_table (replicate 80 0)) = 80"
    using fill_table_fields by (simp_all add: mytb_fields_def MYTB_SIZE_def)
  then show ?thesis using checksum_seals_table [of "fill_table (replicate 80 0)"] by simp
qed

theorem add_acpi_main_witness:
  "\<exists>s'. MyAddAcpi_UefiMain acpi_ex_env acpi_ex_state = Inr (EFI_SUCCESS, s') \<and> pool s' = pool acpi_ex_state"
  using add_acpi_main [OF acpi_ex_fresh, of acpi_ex_state]
  by (auto simp: acpi_ex_env_def acpi_ex_state_def acpi_ex_install_def EFI_ERROR_def)

end
