(* ===== verification/Acpi_View.thy ===== *)
theory Acpi_View
  imports Bytes
begin

text \<open>
  The UEFI application MyAcpiView (edk2/MyAcpiViewPkg/MyAcpiView.c): it walks from the
  configuration table of the firmware to the XSDT and its entries, prints the headers it meets and
  then \<^emph>\<open>changes\<close> two tables. Memory is the identity-mapped address space of the firmware, a
  function from 64-bit addresses to bytes; pointer arithmetic wraps. Each printed block of lines is
  one element of the output. Structure offsets are those of the ACPI 6.3 specification.
\<close>

section \<open>Memory and structures\<close>

type_synonym memory = "u64 \<Rightarrow> u8"

definition load_mem :: "nat \<Rightarrow> u64 \<Rightarrow> memory \<Rightarrow> bytes" where
  "load_mem n a mem = map (\<lambda>i. mem (a + of_nat i)) [0..<n]"

definition mem_u32 :: "u64 \<Rightarrow> memory \<Rightarrow> u32" where
  "mem_u32 a mem = le_word (load_mem 4 a mem)"

definition mem_u64 :: "u64 \<Rightarrow> memory \<Rightarrow> u64" where
  "mem_u64 a mem = le_word (load_mem 8 a mem)"

text \<open>\<open>CopyMem (dst, src, n)\<close>, which allows overlap.\<close>

definition CopyMem :: "u64 \<Rightarrow> u64 \<Rightarrow> nat \<Rightarrow> memory \<Rightarrow> memory" where
  "CopyMem dst src n mem = (\<lambda>a. if unat (a - dst) < n then mem (src + (a - dst)) else mem a)"

definition zero_mem :: "u64 \<Rightarrow> nat \<Rightarrow> memory \<Rightarrow> memory" where
  "zero_mem dst n mem = (\<lambda>a. if unat (a - dst) < n then 0 else mem a)"

definition Header_Length :: "u64 \<Rightarrow> memory \<Rightarrow> u32" where
  "Header_Length p mem = mem_u32 (p + 4) mem"

datatype guid = AcpiTableGuid | Acpi20TableGuid | OtherGuid nat

record config_entry =
  VendorGuid :: guid
  VendorTable :: u64

datatype view_out =
    HelloUefi
  | AcpiFound
  | RootBlock u64 u32 bytes u8
  | HeaderBlock bytes u64 u32 bytes u8
  | TableModified u64
  | ModifiedAddress u64
  | ModifiedLength u32
  | ChecksumValid
  | ChecksumInvalid u8
  | AllCompleted

section \<open>The application\<close>

definition is_acpi :: "config_entry \<Rightarrow> bool" where
  "is_acpi c \<longleftrightarrow> VendorGuid c = AcpiTableGuid \<or> VendorGuid c = Acpi20TableGuid"

definition PrintTable_Root :: "u64 \<Rightarrow> memory \<Rightarrow> view_out" where
  "PrintTable_Root root mem =
     RootBlock root (mem_u32 (root + 20) mem) (map (\<lambda>j. mem (root + 9 + of_nat j)) [0..<6]) (mem (root + 8))"

text \<open>The signature is printed character by character, shifted out of the 32-bit field.\<close>

definition PrintTable_Header :: "u64 \<Rightarrow> memory \<Rightarrow> view_out" where
  "PrintTable_Header h mem =
     HeaderBlock (map (\<lambda>j. ucast (drop_bit (j * 8) (mem_u32 h mem) AND 0xff)) [0..<4]) h
       (Header_Length h mem) (map (\<lambda>j. mem (h + 10 + of_nat j)) [0..<6]) (mem (h + 9))"

text \<open>The loop over the XSDT entries with \<open>n\<close> rounds left, at entry \<open>j\<close>.\<close>

fun entry_loop :: "nat \<Rightarrow> u64 \<Rightarrow> u64 \<Rightarrow> u64 \<Rightarrow> u64 \<Rightarrow> memory \<Rightarrow> view_out list" where
  "entry_loop 0 j EntryPtr FACS DSDT mem = []"
| "entry_loop (Suc n) j EntryPtr FACS DSDT mem =
    (let e = mem_u64 EntryPtr mem;
         rest = entry_loop n (j + 1) (EntryPtr + 8) FACS DSDT mem
     in if e = 0 then rest
        else PrintTable_Header e mem #
             (if j = 0 then [PrintTable_Header FACS mem, PrintTable_Header DSDT mem] else []) @ rest)"

definition EntryCount :: "u64 \<Rightarrow> memory \<Rightarrow> u64" where
  "EntryCount xsdt mem = (ucast (Header_Length xsdt mem) - 36) div 8"

text \<open>
  The first entry is taken for the FADT and read through before any entry is tested: where it is null, the words for FACS and DSDT come from the
  bottom of the address space, which the identity map of the firmware contains.
\<close>

definition view_root :: "u64 \<Rightarrow> memory \<Rightarrow> view_out list" where
  "view_root root mem =
    (let xsdt = mem_u64 (root + 24) mem;
         EntryPtr = xsdt + 36;
         fadt = mem_u64 EntryPtr mem;
         facs = ucast (mem_u32 (fadt + 36) mem);
         dsdt = mem_u64 (fadt + 140) mem
     in [AcpiFound, PrintTable_Root root mem, PrintTable_Header xsdt mem]
        @ entry_loop (unat (EntryCount xsdt mem)) 0 EntryPtr facs dsdt mem)"

fun view_config :: "config_entry list \<Rightarrow> memory \<Rightarrow> view_out list" where
  "view_config [] mem = []"
| "view_config (c # cs) mem = (if is_acpi c then view_root (VendorTable c) mem else view_config cs mem)"

text \<open>The search of \<open>ChangeACPITable\<close>: \<open>CurrentTable\<close> (0 is \<open>NULL\<close>) and \<open>TableIndex\<close> after the loop.\<close>

fun find_config :: "config_entry list \<Rightarrow> u64 \<Rightarrow> u64 \<times> u64" where
  "find_config [] idx = (0, idx)"
| "find_config (c # cs) idx =
    (if is_acpi c then if idx = 0 then (VendorTable c, idx) else find_config cs (idx - 1)
     else find_config cs idx)"

fun mem_sum_loop :: "nat \<Rightarrow> u64 \<Rightarrow> memory \<Rightarrow> u8 \<Rightarrow> u8" where
  "mem_sum_loop 0 a mem s = s"
| "mem_sum_loop (Suc n) a mem s = mem_sum_loop n (a + 1) mem (s + mem a)"

definition ChangeACPITable ::
  "config_entry list \<Rightarrow> u64 \<Rightarrow> u64 \<Rightarrow> memory \<Rightarrow> view_out list \<times> memory" where
  "ChangeACPITable conf TableIndex NewTable mem =
    (let (cur, idx) = find_config conf TableIndex
     in if cur = 0 then ([], mem)
        else let mem' = (if NewTable \<noteq> 0 then CopyMem cur NewTable (unat (Header_Length NewTable mem)) mem else mem);
                 len = Header_Length cur mem';
                 chk = mem_sum_loop (unat len) cur mem' 0
             in ((if NewTable \<noteq> 0 then [TableModified idx] else [])
                 @ [ModifiedAddress cur, ModifiedLength len, if chk = 0 then ChecksumValid else ChecksumInvalid chk],
                 mem'))"

text \<open>\<open>sp\<close> is the address of the local \<open>emptyTable\<close>, a zeroed header of 36 bytes.\<close>

definition MyAcpiView_UefiMain :: "config_entry list \<Rightarrow> u64 \<Rightarrow> memory \<Rightarrow> u64 \<times> view_out list \<times> memory" where
  "MyAcpiView_UefiMain conf sp mem0 =
    (let out0 = HelloUefi # view_config conf mem0;
         mem1 = zero_mem sp 36 mem0;
         (out1, mem2) = ChangeACPITable conf 1 sp mem1;
         (out2, mem3) = ChangeACPITable conf 2 sp mem2
     in (0, out0 @ out1 @ out2 @ [AllCompleted], mem3))"

section \<open>Specification\<close>

definition xsdt_entries :: "u64 \<Rightarrow> memory \<Rightarrow> u64 list" where
  "xsdt_entries xsdt mem =
     map (\<lambda>j. mem_u64 (xsdt + 36 + 8 * of_nat j) mem) [0..<(unat (Header_Length xsdt mem) - 36) div 8]"

definition header_block :: "u64 \<Rightarrow> memory \<Rightarrow> view_out" where
  "header_block h mem =
     HeaderBlock (load_mem 4 h mem) h (mem_u32 (h + 4) mem) (load_mem 6 (h + 10) mem) (mem (h + 9))"

definition entry_blocks :: "u64 \<Rightarrow> u64 \<Rightarrow> memory \<Rightarrow> nat \<times> u64 \<Rightarrow> view_out list" where
  "entry_blocks facs dsdt mem = (\<lambda>(j, e).
     if e = 0 then []
     else header_block e mem # (if j = 0 then [header_block facs mem, header_block dsdt mem] else []))"

definition acpi_tables :: "config_entry list \<Rightarrow> u64 list" where
  "acpi_tables conf = map VendorTable (filter is_acpi conf)"

section \<open>Lemmas\<close>

lemma byte_of_le_word:
  assumes "length bs = 4" "j < 4"
  shows "(ucast (drop_bit (j * 8) (le_word bs :: u32) AND 0xff) :: u8) = bs ! j"
proof (rule bit_word_eqI)
  fix i assume "i < LENGTH(8)"
  then have i: "i < 8" by simp
  have "(mask 8 :: u32) = 0xff" by (simp add: mask_eq_exp_minus_1)
  moreover have "bit (mask 8 :: u32) i" using i by (simp add: bit_mask_iff)
  ultimately show "bit (ucast (drop_bit (j * 8) (le_word bs :: u32) AND 0xff) :: u8) i = bit (bs ! j) i"
    using i assms by (simp add: bit_ucast_iff bit_and_iff bit_drop_bit_eq bit_le_word)
qed

lemma PrintTable_Header_eq: "PrintTable_Header h mem = header_block h mem"
proof -
  have "map (\<lambda>j. ucast (drop_bit (j * 8) (mem_u32 h mem) AND 0xff)) [0..<4] = load_mem 4 h mem"
    by (rule nth_equalityI) (simp_all add: mem_u32_def byte_of_le_word load_mem_def del: upt_rec_numeral)
  then show ?thesis
    by (simp add: PrintTable_Header_def header_block_def Header_Length_def load_mem_def)
qed

lemma entry_loop_eq:
  assumes "k + n < 2 ^ 64"
  shows "entry_loop n (of_nat k) (p + 8 * of_nat k) facs dsdt mem =
    concat (map (\<lambda>i. entry_blocks facs dsdt mem (i, mem_u64 (p + 8 * of_nat i) mem)) [k..<k + n])"
  using assms
proof (induction n arbitrary: k)
  case 0
  then show ?case by simp
next
  case (Suc n)
  have "(of_nat k = (0 :: u64)) \<longleftrightarrow> k = 0"
    using Suc.prems by (auto simp: word_of_nat_eq_0_iff dest: dvd_imp_le)
  moreover have "entry_loop n (of_nat k + 1) (p + 8 * of_nat k + 8) facs dsdt mem =
      concat (map (\<lambda>i. entry_blocks facs dsdt mem (i, mem_u64 (p + 8 * of_nat i) mem)) [Suc k..<k + Suc n])"
    using Suc.IH [of "Suc k"] Suc.prems by (simp add: algebra_simps)
  moreover have "[k..<k + Suc n] = k # [Suc k..<k + Suc n]" by (simp add: upt_conv_Cons)
  ultimately show ?case by (simp add: entry_blocks_def PrintTable_Header_eq Let_def)
qed

lemma EntryCount_eq:
  assumes "36 \<le> unat (Header_Length xsdt mem)"
  shows "unat (EntryCount xsdt mem) = (unat (Header_Length xsdt mem) - 36) div 8"
proof -
  let ?l = "Header_Length xsdt mem"
  have "(36 :: u64) \<le> ucast ?l" using assms by (simp add: word_le_nat_alt)
  then have "unat (ucast ?l - 36 :: u64) = unat ?l - 36" by (simp add: unat_sub)
  then show ?thesis by (simp add: EntryCount_def unat_div_distrib)
qed

lemma mem_sum_loop_eq: "mem_sum_loop n a mem s = s + sum_list (load_mem n a mem)"
proof (induction n arbitrary: a s)
  case 0
  then show ?case by (simp add: load_mem_def)
next
  case (Suc n)
  have "load_mem (Suc n) a mem = mem a # load_mem n (a + 1) mem"
    by (simp add: load_mem_def upt_conv_Cons map_Suc_upt [symmetric] algebra_simps del: upt_Suc)
  with Suc show ?case by (simp add: algebra_simps)
qed

lemma find_config_eq:
  "find_config conf idx =
    (if unat idx < length (acpi_tables conf) then (acpi_tables conf ! unat idx, 0)
     else (0, idx - of_nat (length (acpi_tables conf))))"
proof (induction conf arbitrary: idx)
  case Nil
  then show ?case by (simp add: acpi_tables_def)
next
  case (Cons c cs)
  show ?case
  proof (cases "is_acpi c \<and> idx \<noteq> 0")
    case True
    then have "unat idx = Suc (unat (idx - 1))"
      by (simp add: unat_minus_one Suc_pred word_neq_0_conv unat_gt_0)
    with True show ?thesis by (simp add: acpi_tables_def Cons [unfolded acpi_tables_def])
  next
    case False
    then show ?thesis by (auto simp: acpi_tables_def Cons [unfolded acpi_tables_def])
  qed
qed

lemma CopyMem_0 [simp]: "CopyMem dst src 0 mem = mem"
  by (simp add: CopyMem_def)

lemma view_config_find:
  "view_config conf mem = (case find is_acpi conf of None \<Rightarrow> [] | Some c \<Rightarrow> view_root (VendorTable c) mem)"
  by (induction conf) auto

lemma empty_table_length: "Header_Length sp (zero_mem sp 36 mem) = 0"
  by (simp add: Header_Length_def mem_u32_def load_mem_def zero_mem_def upt_rec)

lemma ChangeACPITable_empty:
  assumes "Header_Length sp mem = 0"
  shows "snd (ChangeACPITable conf idx sp mem) = mem"
  using assms by (simp add: ChangeACPITable_def Let_def split: prod.splits)

section \<open>Properties\<close>

text \<open>
  C40: what the viewer prints. For the first ACPI entry of the configuration table, whose XSDT is at
  least a header long, it prints the root pointer, the header of the XSDT and then, in the order of
  the XSDT, the header of every entry that is not null, with the headers of FACS and DSDT after the
  first one; each header shows the four signature bytes as they stand in memory. The 64-bit
  arithmetic on the entry count agrees with the mathematical one.
\<close>
theorem view_lists_xsdt:
  assumes "find is_acpi conf = Some c" "xsdt = mem_u64 (VendorTable c + 24) mem"
    and "36 \<le> unat (Header_Length xsdt mem)"
    and "fadt = mem_u64 (xsdt + 36) mem"
  shows "view_config conf mem =
    [AcpiFound, PrintTable_Root (VendorTable c) mem, header_block xsdt mem] @
    concat (map (entry_blocks (ucast (mem_u32 (fadt + 36) mem)) (mem_u64 (fadt + 140) mem) mem)
      (enumerate 0 (xsdt_entries xsdt mem)))"
proof -
  let ?n = "(unat (Header_Length xsdt mem) - 36) div 8"
  have "unat (Header_Length xsdt mem) < 2 ^ 32" using unsigned_less [of "Header_Length xsdt mem"] by simp
  then have n: "0 + ?n < 2 ^ 64" by simp
  have "enumerate 0 (xsdt_entries xsdt mem) = map (\<lambda>i. (i, mem_u64 (xsdt + 36 + 8 * of_nat i) mem)) [0..<?n]"
    by (simp add: enumerate_eq_zip xsdt_entries_def zip_map2 zip_same_conv_map del: upt_Suc)
  then show ?thesis
    using entry_loop_eq [OF n, of "xsdt + 36"] assms EntryCount_eq [OF assms(3)]
    by (simp add: view_config_find view_root_def PrintTable_Header_eq Let_def comp_def)
qed

text \<open>
  \<open>ChangeACPITable\<close> on the table with a given index among the ACPI entries of the configuration
  table. A non-null replacement is copied over it as far as the replacement's own length says, and
  the verdict on the checksum is right for the bytes that are then in memory; when there is no
  such table nothing happens. The index it prints is 0, whichever table was meant.
\<close>

theorem change_table_effect:
  assumes "NewTable \<noteq> 0"
  shows "ChangeACPITable conf idx NewTable mem =
    (if unat idx < length (acpi_tables conf) \<and> acpi_tables conf ! unat idx \<noteq> 0
     then let cur = acpi_tables conf ! unat idx;
              mem' = CopyMem cur NewTable (unat (Header_Length NewTable mem)) mem;
              total = sum_list (load_mem (unat (Header_Length cur mem')) cur mem')
          in ([TableModified 0, ModifiedAddress cur, ModifiedLength (Header_Length cur mem'),
               if total = 0 then ChecksumValid else ChecksumInvalid total], mem')
     else ([], mem))"
  using assms by (simp add: ChangeACPITable_def find_config_eq mem_sum_loop_eq Let_def)

text \<open>
  The application modifies no table. The replacement it passes is a zeroed header, whose length
  is 0, so nothing is copied: memory is as before apart from the local variable. Yet for each of
  the second and third ACPI entries that exists it announces that a table has been modified.
\<close>

theorem view_main_changes_nothing:
  assumes "sp \<noteq> 0" "MyAcpiView_UefiMain conf sp mem = (status, out, mem')"
  shows "status = 0 \<and> mem' = zero_mem sp 36 mem \<and>
    ((\<exists>i \<in> {1, 2}. i < length (acpi_tables conf) \<and> acpi_tables conf ! i \<noteq> 0) \<longrightarrow> TableModified 0 \<in> set out)"
proof -
  let ?m = "zero_mem sp 36 mem"
  have mem: "snd (ChangeACPITable conf idx sp ?m) = ?m" for idx
    by (rule ChangeACPITable_empty [OF empty_table_length])
  have "TableModified 0 \<in> set (fst (ChangeACPITable conf (of_nat i) sp ?m))"
    if "i < length (acpi_tables conf)" "acpi_tables conf ! i \<noteq> 0" "i \<in> {1, 2}" for i
    using that assms(1) by (auto simp: ChangeACPITable_def find_config_eq Let_def)
  note said = this [of 1] this [of 2]
  obtain o1 o2 where o: "ChangeACPITable conf 1 sp ?m = (o1, ?m)" "ChangeACPITable conf 2 sp ?m = (o2, ?m)"
    using mem by (metis prod.collapse)
  with assms(2) have "status = 0" "mem' = ?m" "set o1 \<union> set o2 \<subseteq> set out"
    by (auto simp: MyAcpiView_UefiMain_def Let_def)
  with said o show ?thesis by auto
qed

section \<open>Witnesses\<close>

text \<open>
  A memory with a root pointer at 256, an XSDT with two entries at 512: an FADT at 1024 that names an FACS at 3072 and a DSDT at 4096,
  and a table at 2048.
\<close>

definition view_ex_mem :: memory where
  "view_ex_mem = (\<lambda>a. if a = 281 then 2 else if a = 516 then 52 else if a = 549 then 4 else if a = 557 then 8
     else if a = 1061 then 12 else if a = 1165 then 16 else 0)"

definition view_ex_conf :: "config_entry list" where
  "view_ex_conf = [\<lparr>VendorGuid = OtherGuid 3, VendorTable = 64\<rparr>, \<lparr>VendorGuid = Acpi20TableGuid, VendorTable = 256\<rparr>,
     \<lparr>VendorGuid = AcpiTableGuid, VendorTable = 256\<rparr>]"

lemma view_ex_facts:
  "find is_acpi view_ex_conf = Some \<lparr>VendorGuid = Acpi20TableGuid, VendorTable = 256\<rparr>"
  "mem_u64 (256 + 24) view_ex_mem = 512" "Header_Length 512 view_ex_mem = 52"
  "mem_u64 (512 + 36) view_ex_mem = 1024" "xsdt_entries 512 view_ex_mem = [1024, 2048]"
  "acpi_tables view_ex_conf = [256, 256]" "mem_u32 (1024 + 36) view_ex_mem = 3072" "mem_u64 (1024 + 140) view_ex_mem = 4096"
  by code_simp+

theorem view_lists_xsdt_witness:
  "view_config view_ex_conf view_ex_mem =
    [AcpiFound, PrintTable_Root 256 view_ex_mem, header_block 512 view_ex_mem, header_block 1024 view_ex_mem,
     header_block 3072 view_ex_mem, header_block 4096 view_ex_mem, header_block 2048 view_ex_mem]"
  using view_lists_xsdt [OF view_ex_facts(1), of 512 view_ex_mem 1024] view_ex_facts
  by (simp add: entry_blocks_def)

theorem change_table_effect_witness:
  "ChangeACPITable view_ex_conf 5 64 view_ex_mem = ([], view_ex_mem)"
  using change_table_effect [of 64 view_ex_conf 5 view_ex_mem] by (simp add: view_ex_facts)

theorem view_main_changes_nothing_witness:
  "case MyAcpiView_UefiMain view_ex_conf 8192 view_ex_mem of
     (status, out, mem') \<Rightarrow> status = 0 \<and> mem' = zero_mem 8192 36 view_ex_mem \<and> TableModified 0 \<in> set out"
  using view_main_changes_nothing [of 8192 view_ex_conf view_ex_mem]
  by (auto simp: view_ex_facts split: prod.splits)

end
