(* ===== verification/Mytb_Reader.thy ===== *)
theory Mytb_Reader
  imports Acpi_Add
begin

text \<open>
  The kernel module that reads the \<open>MYTB\<close> table and shows it in sysfs
  (drivers/acpi/mytb_reader.c), and the path of the table's content from the UEFI application of
  theory \<open>Acpi_Add\<close> to the sysfs files. \<open>acpi_get_table\<close> and the results of the kobject and sysfs
  calls are parameters. A read of the mapped table beyond its end is a fault.
\<close>

section \<open>The module\<close>

datatype mytb_attr = message_attr | data1_attr | data2_attr | signature_attr

datatype mytb_log =
    NotFound
  | TooSmall u32
  | Found bytes u32 u32 u64 bytes

text \<open>
  The globals of the module, its log, and the resources it holds in the kernel: references to the
  ACPI table, references to the kobject, and the files in \<open>/sys/kernel/mytb_acpi\<close>.
\<close>

record mytb_state =
  mytb :: "bytes option"
  mytb_kobj :: bool
  mytb_dmesg :: "mytb_log list"
  table_refs :: nat
  kobj_refs :: nat
  sysfs_files :: "mytb_attr list"

record mytb_env =
  acpi_get_table :: "bytes \<Rightarrow> bytes option"
  kobject_create_ok :: bool
  sysfs_create_ret :: int

definition mytb_attrs :: "mytb_attr list" where
  "mytb_attrs = [message_attr, data1_attr, data2_attr, signature_attr]"

definition load_checked :: "nat \<Rightarrow> nat \<Rightarrow> bytes \<Rightarrow> bytes kres" where
  "load_checked off n t =
     (if off + n \<le> length t then Inr (load_at off n t) else Inl (OutOfBounds (int (length t))))"

text \<open>The argument of a \<open>%s\<close>: the bytes from the offset to the first 0, wherever that is.\<close>

definition load_string :: "nat \<Rightarrow> bytes \<Rightarrow> bytes kres" where
  "load_string off t =
     (case c_string (drop off t) of None \<Rightarrow> Inl (OutOfBounds (int (length t))) | Some s \<Rightarrow> Inr s)"

text \<open>The argument of a \<open>%.4s\<close>.\<close>

definition load_string4 :: "nat \<Rightarrow> bytes \<Rightarrow> bytes kres" where
  "load_string4 off t = rbind (load_checked off 4 t) (\<lambda>bs. Inr (takeWhile (\<lambda>b. b \<noteq> 0) bs))"

definition load_u32 :: "nat \<Rightarrow> bytes \<Rightarrow> u32 kres" where
  "load_u32 off t = rbind (load_checked off 4 t) (\<lambda>bs. Inr (le_word bs))"

definition load_u64 :: "nat \<Rightarrow> bytes \<Rightarrow> u64 kres" where
  "load_u64 off t = rbind (load_checked off 8 t) (\<lambda>bs. Inr (le_word bs))"

definition newline :: string where
  "newline = [CHR 0x0A]"

text \<open>\<open>sprintf\<close> into the sysfs buffer: the text, and its length as the result.\<close>

definition show_text :: "string \<Rightarrow> int \<times> string" where
  "show_text s = (int (length s), s)"

definition message_show :: "mytb_state \<Rightarrow> (int \<times> string) kres" where
  "message_show s =
    (case mytb s of
       None \<Rightarrow> Inr (- EINVAL, [])
     | Some t \<Rightarrow> rbind (load_string 48 t) (\<lambda>m. Inr (show_text (string_of_bytes m @ newline))))"

definition data1_show :: "mytb_state \<Rightarrow> (int \<times> string) kres" where
  "data1_show s =
    (case mytb s of
       None \<Rightarrow> Inr (- EINVAL, [])
     | Some t \<Rightarrow> rbind (load_u32 36 t) (\<lambda>w. Inr (show_text (''0x'' @ hex_upper 8 w @ newline))))"

definition data2_show :: "mytb_state \<Rightarrow> (int \<times> string) kres" where
  "data2_show s =
    (case mytb s of
       None \<Rightarrow> Inr (- EINVAL, [])
     | Some t \<Rightarrow> rbind (load_u64 40 t) (\<lambda>w. Inr (show_text (''0x'' @ hex_upper 16 w @ newline))))"

definition signature_show :: "mytb_state \<Rightarrow> (int \<times> string) kres" where
  "signature_show s =
    (case mytb s of
       None \<Rightarrow> Inr (- EINVAL, [])
     | Some t \<Rightarrow> rbind (load_string4 0 t) (\<lambda>m. Inr (show_text (string_of_bytes m @ newline))))"

fun mytb_show :: "mytb_attr \<Rightarrow> mytb_state \<Rightarrow> (int \<times> string) kres" where
  "mytb_show message_attr s = message_show s"
| "mytb_show data1_attr s = data1_show s"
| "mytb_show data2_attr s = data2_show s"
| "mytb_show signature_attr s = signature_show s"

definition mytb_pr :: "mytb_log \<Rightarrow> mytb_state \<Rightarrow> mytb_state" where
  "mytb_pr l s = s\<lparr>mytb_dmesg := mytb_dmesg s @ [l]\<rparr>"

definition acpi_find_mytb_table :: "mytb_env \<Rightarrow> mytb_state \<Rightarrow> (int \<times> mytb_state) kres" where
  "acpi_find_mytb_table env s =
    (case acpi_get_table env (bytes_of_string ''MYTB'') of
       None \<Rightarrow> Inr (- ENODEV, mytb_pr NotFound s)
     | Some t \<Rightarrow>
       (let s1 = s\<lparr>table_refs := table_refs s + 1\<rparr>
        in rbind (load_u32 4 t) (\<lambda>len.
           if unat len < MYTB_SIZE then Inr (- EINVAL, mytb_pr (TooSmall len) s1)
           else rbind (load_string4 0 t) (\<lambda>sig. rbind (load_u32 36 t) (\<lambda>d1. rbind (load_u64 40 t) (\<lambda>d2.
             rbind (load_string 48 t) (\<lambda>m.
               Inr (0, mytb_pr (Found sig len d1 d2 m) (s1\<lparr>mytb := Some t\<rparr>)))))))))"

definition mytb_reader_init :: "mytb_env \<Rightarrow> mytb_state \<Rightarrow> (int \<times> mytb_state) kres" where
  "mytb_reader_init env s =
    rbind (acpi_find_mytb_table env s) (\<lambda>(ret, s1).
      if ret \<noteq> 0 then Inr (ret, s1)
      else if \<not> kobject_create_ok env then Inr (- ENOMEM, s1\<lparr>mytb_kobj := False\<rparr>)
      else let s2 = s1\<lparr>mytb_kobj := True, kobj_refs := kobj_refs s1 + 1\<rparr>
           in if sysfs_create_ret env \<noteq> 0
              then Inr (sysfs_create_ret env, s2\<lparr>kobj_refs := kobj_refs s2 - 1\<rparr>)
              else Inr (0, s2\<lparr>sysfs_files := sysfs_files s2 @ mytb_attrs\<rparr>))"

definition mytb_reader_exit :: "mytb_state \<Rightarrow> mytb_state" where
  "mytb_reader_exit s =
    (if mytb_kobj s
     then s\<lparr>sysfs_files := filter (\<lambda>a. a \<notin> set mytb_attrs) (sysfs_files s), kobj_refs := kobj_refs s - 1\<rparr>
     else s)"

text \<open>The module before it is loaded.\<close>

definition mytb_start :: mytb_state where
  "mytb_start = \<lparr>mytb = None, mytb_kobj = False, mytb_dmesg = [], table_refs = 0, kobj_refs = 0, sysfs_files = []\<rparr>"

text \<open>\<open>acpi_get_table\<close> maps as many bytes as the length field of the table says, and at least a header.\<close>

definition maps_whole_table :: "(bytes \<Rightarrow> bytes option) \<Rightarrow> bool" where
  "maps_whole_table get \<longleftrightarrow>
     (\<forall>sig t. get sig = Some t \<longrightarrow> 36 \<le> length t \<and> unat (header_length t) = length t)"

section \<open>Lemmas\<close>

lemmas mytb_show_defs = message_show_def data1_show_def data2_show_def signature_show_def

lemmas mytb_load_defs = load_u32_def load_u64_def load_string4_def load_checked_def

lemma load_string_iff:
  assumes "off \<le> length t"
  shows "(\<exists>s. load_string off t = Inr s) \<longleftrightarrow> (\<exists>i. off \<le> i \<and> i < length t \<and> t ! i = 0)"
proof -
  have "(\<exists>s. load_string off t = Inr s) \<longleftrightarrow> 0 \<in> set (drop off t)"
    using c_string_None [of "drop off t"] by (auto simp: load_string_def split: option.splits)
  also have "\<dots> \<longleftrightarrow> (\<exists>j < length t - off. t ! (off + j) = 0)"
    using assms by (auto simp: in_set_conv_nth)
  also have "\<dots> \<longleftrightarrow> (\<exists>i. off \<le> i \<and> i < length t \<and> t ! i = 0)"
  proof
    assume "\<exists>i. off \<le> i \<and> i < length t \<and> t ! i = 0"
    then obtain i where "off \<le> i" "i < length t" "t ! i = 0" by blast
    then show "\<exists>j < length t - off. t ! (off + j) = 0" by (intro exI [of _ "i - off"]) auto
  next
    assume "\<exists>j < length t - off. t ! (off + j) = 0"
    then obtain j where "j < length t - off" "t ! (off + j) = 0" by blast
    then show "\<exists>i. off \<le> i \<and> i < length t \<and> t ! i = 0" by (intro exI [of _ "off + j"]) auto
  qed
  finally show ?thesis .
qed

lemma c_string_take: "c_string (take n bs) = Some s \<Longrightarrow> c_string bs = Some s"
  by (induction bs arbitrary: n s) (auto simp: take_Cons' split: if_splits)

lemma char_of_of_char: "char_of (unat (of_char c :: u8)) = c"
proof -
  have "unat (of_char c :: u8) = of_char c"
    by (simp add: of_char_def)
  then show ?thesis by simp
qed

lemma string_of_bytes_of_string [simp]: "string_of_bytes (bytes_of_string s) = s"
  by (simp add: string_of_bytes_def bytes_of_string_def comp_def char_of_of_char)

text \<open>What the module finds in a table that carries the fields of \<open>MYTB\<close>.\<close>

lemma mytb_fields_load:
  assumes "mytb_fields t"
  shows "load_u32 4 t = Inr 80" "load_u32 36 t = Inr 0xDEADBEEF" "load_u64 40 t = Inr 0x0123456789ABCDEF"
    "load_string4 0 t = Inr (bytes_of_string ''MYTB'')"
    "load_string 48 t = Inr (bytes_of_string ''Hello from custom ACPI table'')"
proof -
  have "c_string (load_at 48 32 t) = Some (bytes_of_string ''Hello from custom ACPI table'')"
    using assms by (simp add: mytb_fields_def)
  then have "c_string (drop 48 t) = Some (bytes_of_string ''Hello from custom ACPI table'')"
    unfolding load_at_def by (rule c_string_take)
  then show "load_string 48 t = Inr (bytes_of_string ''Hello from custom ACPI table'')"
    by (simp add: load_string_def)
qed (use assms in \<open>simp_all add: mytb_fields_def mytb_load_defs header_length_def bytes_of_string_def\<close>)

lemma acpi_find_mytb_table_ok:
  assumes "acpi_get_table env (bytes_of_string ''MYTB'') = Some t" "mytb_fields t"
  shows "acpi_find_mytb_table env s =
    Inr (0, mytb_pr (Found (bytes_of_string ''MYTB'') 80 0xDEADBEEF 0x0123456789ABCDEF
               (bytes_of_string ''Hello from custom ACPI table''))
             (s\<lparr>table_refs := table_refs s + 1, mytb := Some t\<rparr>))"
  using assms by (simp add: acpi_find_mytb_table_def mytb_fields_load MYTB_SIZE_def Let_def)

lemma acpi_find_mytb_table_cases:
  assumes "acpi_find_mytb_table env s = Inr (ret, s1)"
  shows "sysfs_files s1 = sysfs_files s" "kobj_refs s1 = kobj_refs s" "mytb_kobj s1 = mytb_kobj s"
    "table_refs s1 = table_refs s + (if acpi_get_table env (bytes_of_string ''MYTB'') = None then 0 else 1)"
    "ret = 0 \<longleftrightarrow> (\<exists>t. acpi_get_table env (bytes_of_string ''MYTB'') = Some t \<and> 80 \<le> unat (header_length t))"
proof -
  have len: "load_u32 4 t = Inr w \<Longrightarrow> w = header_length t" for t w
    by (simp add: load_u32_def load_checked_def header_length_def split: if_splits)
  show "sysfs_files s1 = sysfs_files s" "kobj_refs s1 = kobj_refs s" "mytb_kobj s1 = mytb_kobj s"
    "table_refs s1 = table_refs s + (if acpi_get_table env (bytes_of_string ''MYTB'') = None then 0 else 1)"
    using assms
    by (auto simp: acpi_find_mytb_table_def mytb_pr_def Let_def rbind_eq_Inr_iff split: option.splits if_splits)
  show "ret = 0 \<longleftrightarrow> (\<exists>t. acpi_get_table env (bytes_of_string ''MYTB'') = Some t \<and> 80 \<le> unat (header_length t))"
    using assms
    by (auto simp: acpi_find_mytb_table_def Let_def rbind_eq_Inr_iff MYTB_SIZE_def dest!: len
        split: option.splits if_splits)
qed

lemma mytb_reader_init_cases:
  assumes "mytb_reader_init env s = Inr (ret, m)"
  obtains (find_failed) s1 where "acpi_find_mytb_table env s = Inr (ret, s1)" "ret \<noteq> 0" "m = s1"
  | (no_kobject) s1 where "acpi_find_mytb_table env s = Inr (0, s1)" "\<not> kobject_create_ok env"
      "ret = - ENOMEM" "m = s1\<lparr>mytb_kobj := False\<rparr>"
  | (no_group) s1 where "acpi_find_mytb_table env s = Inr (0, s1)" "kobject_create_ok env"
      "sysfs_create_ret env \<noteq> 0" "ret = sysfs_create_ret env" "m = s1\<lparr>mytb_kobj := True\<rparr>"
  | (loaded) s1 where "acpi_find_mytb_table env s = Inr (0, s1)" "kobject_create_ok env"
      "sysfs_create_ret env = 0" "ret = 0"
      "m = s1\<lparr>mytb_kobj := True, kobj_refs := kobj_refs s1 + 1, sysfs_files := sysfs_files s1 @ mytb_attrs\<rparr>"
  using assms
  by (auto simp: mytb_reader_init_def rbind_eq_Inr_iff Let_def split: if_splits)

lemma mytb_reader_init_returns:
  "(\<exists>r. mytb_reader_init env s = Inr r) \<longleftrightarrow> (\<exists>r. acpi_find_mytb_table env s = Inr r)"
  by (cases "acpi_find_mytb_table env s") (auto simp: mytb_reader_init_def Let_def)

section \<open>Properties\<close>

text \<open>
  C13: from the firmware application to sysfs. When MyAddAcpi succeeds, on a firmware that installs
  the tables it is given, the kernel module finds the table and, if the kobject and the attribute
  group can be created, loads, and its four files show the signature, the two numbers and the
  message that the application wrote (the message without the exclamation mark of the source
  string, of which only 28 of 29 characters are copied).
\<close>
theorem mytb_firmware_to_sysfs:
  assumes "fresh_pool_alloc (AllocateZeroPool efi)" "installs_tables (InstallAcpiTable efi) get"
    and "MyAddAcpi_UefiMain efi s = Inr (EFI_SUCCESS, s')"
    and "acpi_get_table env = get (firmware s')" "kobject_create_ok env" "sysfs_create_ret env = 0"
  shows "\<exists>m. mytb_reader_init env mytb_start = Inr (0, m) \<and>
    mytb_show signature_attr m = Inr (show_text (''MYTB'' @ newline)) \<and>
    mytb_show data1_attr m = Inr (show_text (''0xDEADBEEF'' @ newline)) \<and>
    mytb_show data2_attr m = Inr (show_text (''0x0123456789ABCDEF'' @ newline)) \<and>
    mytb_show message_attr m = Inr (show_text (''Hello from custom ACPI table'' @ newline))"
proof -
  obtain t k st where t: "mytb_fields t" "InstallAcpiTable efi t 80 (firmware s) = (st, k, firmware s')"
      "\<not> EFI_ERROR st"
    using add_acpi_main_success [OF assms(1,3)] by blast
  then have "length t = 80" "take 4 t = bytes_of_string ''MYTB''"
    by (simp_all add: mytb_fields_def load_at_def)
  with t assms(2) obtain u where u: "get (firmware s') (bytes_of_string ''MYTB'') = Some u" "same_table u t"
    unfolding installs_tables_def by fastforce
  have fields: "mytb_fields u" by (rule same_table_fields [OF u(2) t(1)])
  have hex: "hex_upper 8 (0xDEADBEEF :: u32) = ''DEADBEEF''"
      "hex_upper 16 (0x0123456789ABCDEF :: u64) = ''0123456789ABCDEF''"
    by code_simp+
  have get: "acpi_get_table env (bytes_of_string ''MYTB'') = Some u" using u(1) assms(4) by simp
  show ?thesis
    using assms(5,6)
    by (simp add: mytb_reader_init_def acpi_find_mytb_table_ok [OF get fields] Let_def mytb_show_defs
        mytb_pr_def mytb_fields_load [OF fields] hex)
qed

text \<open>
  The life cycle of the module. \<open>mytb_reader_init\<close> succeeds exactly when the table is found, is
  large enough and both sysfs steps succeed; then the directory holds the four files and one
  kobject reference, and \<open>mytb_reader_exit\<close> removes them. A failed start leaves no file and no
  kobject. The reference \<open>acpi_get_table\<close> took is never given back.
\<close>

theorem mytb_reader_lifecycle:
  assumes "mytb_reader_init env mytb_start = Inr (ret, m)"
  shows "(ret = 0 \<longleftrightarrow> kobject_create_ok env \<and> sysfs_create_ret env = 0 \<and>
            (\<exists>t. acpi_get_table env (bytes_of_string ''MYTB'') = Some t \<and> 80 \<le> unat (header_length t))) \<and>
    (ret = 0 \<longrightarrow> sysfs_files m = mytb_attrs \<and> kobj_refs m = 1 \<and>
       sysfs_files (mytb_reader_exit m) = [] \<and> kobj_refs (mytb_reader_exit m) = 0) \<and>
    (ret \<noteq> 0 \<longrightarrow> sysfs_files m = [] \<and> kobj_refs m = 0) \<and>
    table_refs (mytb_reader_exit m) =
      (if acpi_get_table env (bytes_of_string ''MYTB'') = None then 0 else 1)"
  using assms
proof (cases rule: mytb_reader_init_cases)
  case (find_failed s1)
  then show ?thesis
    using acpi_find_mytb_table_cases [OF find_failed(1)] by (auto simp: mytb_start_def mytb_reader_exit_def)
next
  case (no_kobject s1)
  then show ?thesis
    using acpi_find_mytb_table_cases [OF no_kobject(1)] by (simp add: mytb_start_def mytb_reader_exit_def)
next
  case (no_group s1)
  then show ?thesis
    using acpi_find_mytb_table_cases [OF no_group(1)] by (simp add: mytb_start_def mytb_reader_exit_def)
next
  case (loaded s1)
  then show ?thesis
    using acpi_find_mytb_table_cases [OF loaded(1)]
    by (simp add: mytb_start_def mytb_reader_exit_def mytb_attrs_def)
qed

text \<open>
  Memory safety of the module. When the kernel maps each table as long as its length field
  says, loading the module reads beyond a \<open>MYTB\<close> table of at least 80 bytes exactly when no byte
  from the message field to the end of the table is 0; after a successful load every sysfs file can
  be read without a fault.
\<close>

theorem mytb_reader_bounds:
  assumes "maps_whole_table (acpi_get_table env)"
    and "acpi_get_table env (bytes_of_string ''MYTB'') = Some t" "80 \<le> length t"
  shows "((\<exists>r. mytb_reader_init env mytb_start = Inr r) \<longleftrightarrow> (\<exists>i. 48 \<le> i \<and> i < length t \<and> t ! i = 0)) \<and>
    (\<forall>m a. mytb_reader_init env mytb_start = Inr (0, m) \<longrightarrow> (\<exists>n txt. mytb_show a m = Inr (n, txt)))"
proof -
  have len: "unat (header_length t) = length t"
    using assms by (auto simp: maps_whole_table_def)
  have loads: "load_u32 4 t = Inr (header_length t)" "\<exists>w. load_u32 36 t = Inr w" "\<exists>w. load_u64 40 t = Inr w"
      "\<exists>w. load_string4 0 t = Inr w"
    using assms(3) by (simp_all add: mytb_load_defs header_length_def)
  have iff: "(\<exists>m. load_string 48 t = Inr m) \<longleftrightarrow> (\<exists>i. 48 \<le> i \<and> i < length t \<and> t ! i = 0)"
    using assms(3) by (simp add: load_string_iff)
  obtain sig d1 d2 where find: "acpi_find_mytb_table env mytb_start = rbind (load_string 48 t) (\<lambda>txt.
      Inr (0, mytb_pr (Found sig (header_length t) d1 d2 txt) (mytb_start\<lparr>table_refs := 1, mytb := Some t\<rparr>)))"
    using assms(2,3) len loads
    by (auto simp: acpi_find_mytb_table_def MYTB_SIZE_def Let_def mytb_start_def)
  have run: "(\<exists>r. mytb_reader_init env mytb_start = Inr r) \<longleftrightarrow> (\<exists>m. load_string 48 t = Inr m)"
    unfolding mytb_reader_init_returns find by (cases "load_string 48 t") auto
  have "mytb m = Some t \<and> (\<exists>s. load_string 48 t = Inr s)"
    if "mytb_reader_init env mytb_start = Inr (0, m)" for m
    using that by (cases rule: mytb_reader_init_cases) (auto simp: find rbind_eq_Inr_iff mytb_pr_def)
  then have "\<exists>n txt. mytb_show a m = Inr (n, txt)" if "mytb_reader_init env mytb_start = Inr (0, m)" for m a
    using that loads by (cases a) (fastforce simp: mytb_show_defs show_text_def)+
  with run iff show ?thesis by blast
qed

section \<open>Witnesses\<close>

definition mytb_ex_table :: bytes where
  "mytb_ex_table = store_at 4 (le_bytes 4 (80 :: u32)) (replicate 80 0)"

definition mytb_ex_env :: mytb_env where
  "mytb_ex_env = \<lparr>acpi_get_table = (\<lambda>_. Some mytb_ex_table), kobject_create_ok = True, sysfs_create_ret = 0\<rparr>"

lemma mytb_ex_table_facts:
  "length mytb_ex_table = 80" "unat (header_length mytb_ex_table) = 80" "mytb_ex_table ! 48 = 0"
  "load_string 48 mytb_ex_table = Inr []"
  by code_simp+

lemma mytb_ex_maps: "maps_whole_table (acpi_get_table mytb_ex_env)"
  by (simp add: maps_whole_table_def mytb_ex_env_def mytb_ex_table_facts)

theorem mytb_reader_bounds_witness:
  "\<exists>r. mytb_reader_init mytb_ex_env mytb_start = Inr r"
  using mytb_reader_bounds [OF mytb_ex_maps, of mytb_ex_table] mytb_ex_table_facts
  by (auto simp: mytb_ex_env_def intro!: exI [of _ "48 :: nat"])

lemma mytb_ex_init: "\<exists>m. mytb_reader_init mytb_ex_env mytb_start = Inr (0, m)"
  by (simp add: mytb_reader_init_def acpi_find_mytb_table_def mytb_ex_env_def MYTB_SIZE_def Let_def
      mytb_load_defs mytb_ex_table_facts header_length_def [symmetric])

theorem mytb_reader_lifecycle_witness:
  "\<exists>m. mytb_reader_init mytb_ex_env mytb_start = Inr (0, m) \<and> kobj_refs (mytb_reader_exit m) = 0 \<and>
     sysfs_files (mytb_reader_exit m) = [] \<and> table_refs (mytb_reader_exit m) = 1"
proof -
  obtain m where m: "mytb_reader_init mytb_ex_env mytb_start = Inr (0, m)" using mytb_ex_init by blast
  show ?thesis using m mytb_reader_lifecycle [OF m] by (auto simp: mytb_ex_env_def)
qed

theorem mytb_firmware_to_sysfs_witness:
  "\<exists>s' m. MyAddAcpi_UefiMain acpi_ex_env acpi_ex_state = Inr (EFI_SUCCESS, s') \<and>
     mytb_reader_init \<lparr>acpi_get_table = firmware s', kobject_create_ok = True, sysfs_create_ret = 0\<rparr> mytb_start = Inr (0, m) \<and>
     mytb_show message_attr m = Inr (show_text (''Hello from custom ACPI table'' @ newline))"
proof -
  obtain s' where s': "MyAddAcpi_UefiMain acpi_ex_env acpi_ex_state = Inr (EFI_SUCCESS, s')"
    using add_acpi_main_cases [OF acpi_ex_fresh, of acpi_ex_state]
    by (auto simp: acpi_ex_env_def acpi_ex_state_def acpi_ex_install_def EFI_ERROR_def)
  show ?thesis
    using s' mytb_firmware_to_sysfs [OF acpi_ex_fresh acpi_ex_installs s',
      of "\<lparr>acpi_get_table = firmware s', kobject_create_ok = True, sysfs_create_ret = 0\<rparr>"]
    by auto
qed

end
