(* ===== verification/Ramfs_Bind.thy ===== *)
theory Ramfs_Bind
  imports Kernel_Prelude
begin

text \<open>
  The persistence interface of ramfs (fs/ramfs/inode.c): the parser of \<open>/proc/fs/ramfs/bind\<close>,
  \<open>ramfs_bind\<close>, which records the directory that files are synchronised to, the read and write
  handlers of the proc file, and the registration of the proc entries. Kernel buffers are
  character lists whose accesses are checked; path lookup and allocation results are parameters.
\<close>

section \<open>Parsing the two paths\<close>

abbreviation (input) NUL :: char where "NUL \<equiv> CHR 0x00"
abbreviation (input) RAMFS_MAX_PATH :: nat where "RAMFS_MAX_PATH \<equiv> 256"
abbreviation (input) PATH_MAX :: nat where "PATH_MAX \<equiv> 4096"

definition blank :: "char \<Rightarrow> bool" where
  "blank c \<longleftrightarrow> c = CHR '' '' \<or> c = CHR 0x09"

definition path_char :: "char \<Rightarrow> bool" where
  "path_char c \<longleftrightarrow> c \<noteq> NUL \<and> \<not> blank c \<and> c \<noteq> CHR 0x0A"

function skip_blanks :: "string \<Rightarrow> nat \<Rightarrow> nat kres" where
  "skip_blanks buf i =
    (case array_get buf (int i) of
       Inl e \<Rightarrow> Inl e
     | Inr c \<Rightarrow> if blank c then skip_blanks buf (i + 1) else Inr i)"
  by auto
termination
  by (relation "measure (\<lambda>(buf, i). length buf - i)") (auto simp: array_get_def split: if_splits)

text \<open>The copying loop: the result code, the two indices after it, and the output buffer.\<close>

function copy_path :: "string \<Rightarrow> nat \<Rightarrow> nat \<Rightarrow> string \<Rightarrow> (int \<times> nat \<times> nat \<times> string) kres" where
  "copy_path buf i j out =
    (case array_get buf (int i) of
       Inl e \<Rightarrow> Inl e
     | Inr c \<Rightarrow>
         if path_char c
         then if j \<ge> RAMFS_MAX_PATH - 1 then Inr (- ENAMETOOLONG, i, j, out)
              else (case array_set out (int j) c of
                      Inl e \<Rightarrow> Inl e
                    | Inr out' \<Rightarrow> copy_path buf (i + 1) (j + 1) out')
         else Inr (0, i, j, out))"
  by auto
termination
  by (relation "measure (\<lambda>(buf, i, j, out). length buf - i)") (auto simp: array_get_def split: if_splits)

declare skip_blanks.simps [simp del] copy_path.simps [simp del]

text \<open>One path: skip blanks, copy, terminate; an empty path is an error.\<close>

definition parse_path :: "string \<Rightarrow> nat \<Rightarrow> string \<Rightarrow> (int \<times> nat \<times> string) kres" where
  "parse_path buf i out =
    rbind (skip_blanks buf i) (\<lambda>i1.
    rbind (copy_path buf i1 0 out) (\<lambda>(ret, i2, j, out1).
      if ret \<noteq> 0 then Inr (ret, i2, out1)
      else rbind (array_set out1 (int j) NUL) (\<lambda>out2.
             Inr (if j = 0 then - EINVAL else 0, i2, out2))))"

definition parse_mount_path :: "string \<Rightarrow> string \<Rightarrow> string \<Rightarrow> (int \<times> string \<times> string) kres" where
  "parse_mount_path buffer ramfs_path sync_path =
    rbind (parse_path buffer 0 ramfs_path) (\<lambda>(ret, i, rp).
      if ret \<noteq> 0 then Inr (ret, rp, sync_path)
      else rbind (parse_path buffer i sync_path) (\<lambda>(ret', i', sp). Inr (ret', rp, sp)))"

section \<open>Binding a directory\<close>

text \<open>
  The global \<open>ramfs_sync_dir\<close>, the mutex that guards it, and the references and allocations the
  handlers hold.
\<close>

record ramfs_sys =
  ramfs_sync_dir :: "string option"
  sync_mutex :: bool
  path_refs :: nat
  live_bufs :: nat

record bind_env =
  kern_path :: "string \<Rightarrow> int + u16"
  kstrdup_ok :: bool
  kmalloc_ok :: "nat \<Rightarrow> bool"
  copy_user_ok :: bool

definition S_ISDIR :: "u16 \<Rightarrow> bool" where
  "S_ISDIR mode \<longleftrightarrow> mode AND 0xF000 = 0x4000"

definition S_IWUSR :: u16 where
  "S_IWUSR = 0x80"

definition mutex_lock :: "ramfs_sys \<Rightarrow> ramfs_sys kres" where
  "mutex_lock s = (if sync_mutex s then Inl SelfDeadlock else Inr (s\<lparr>sync_mutex := True\<rparr>))"

definition mutex_unlock :: "ramfs_sys \<Rightarrow> ramfs_sys" where
  "mutex_unlock s = s\<lparr>sync_mutex := False\<rparr>"

definition path_put :: "ramfs_sys \<Rightarrow> ramfs_sys" where
  "path_put s = s\<lparr>path_refs := path_refs s - 1\<rparr>"

text \<open>
  \<open>kstrdup\<close> adds an allocation; \<open>kfree (ramfs_sync_dir)\<close> removes one unless the pointer is
  \<open>NULL\<close>.
\<close>

definition ramfs_bind :: "bind_env \<Rightarrow> string option \<Rightarrow> ramfs_sys \<Rightarrow> (int \<times> ramfs_sys) kres" where
  "ramfs_bind env sync_dir s =
    (case sync_dir of
       None \<Rightarrow> Inr (- EINVAL, s)
     | Some dir \<Rightarrow>
       (case kern_path env dir of
          Inl e \<Rightarrow> Inr (e, s)
        | Inr mode \<Rightarrow>
          (let s1 = s\<lparr>path_refs := path_refs s + 1\<rparr>
           in if \<not> S_ISDIR mode then Inr (- ENOTDIR, path_put s1)
              else if mode AND S_IWUSR = 0 then Inr (- EACCES, path_put s1)
              else rbind (mutex_lock s1) (\<lambda>s2.
                if \<not> kstrdup_ok env then Inr (- ENOMEM, path_put (mutex_unlock s2))
                else let s3 = s2\<lparr>live_bufs := live_bufs s2 + 1\<rparr>;
                         s4 = (if ramfs_sync_dir s3 = None then s3 else s3\<lparr>live_bufs := live_bufs s3 - 1\<rparr>);
                         s5 = s4\<lparr>ramfs_sync_dir := Some dir\<rparr>
                     in Inr (0, path_put (mutex_unlock s5))))))"

section \<open>The proc file\<close>

text \<open>
  \<open>snprintf (temp, PATH_MAX, "%s", txt)\<close>: the buffer holds at most \<open>PATH_MAX - 1\<close> characters and a
  terminator, the result is the length of the whole text. \<open>junk\<close> is what the buffer held before.
\<close>

definition snprintf_buf :: "string \<Rightarrow> string \<Rightarrow> string" where
  "snprintf_buf junk txt =
    (let t = take (PATH_MAX - 1) txt in t @ [NUL] @ drop (length t + 1) junk)"

definition bind_text :: "string option \<Rightarrow> string" where
  "bind_text d = (case d of None \<Rightarrow> ''No sync directory bound'' @ [CHR 0x0A] | Some dir \<Rightarrow> dir @ [CHR 0x0A])"

text \<open>The result, the characters stored in the user's buffer and the new file position.\<close>

definition ramfs_proc_bind_read ::
  "bind_env \<Rightarrow> string \<Rightarrow> nat \<Rightarrow> nat \<Rightarrow> ramfs_sys \<Rightarrow> (int \<times> string \<times> nat \<times> ramfs_sys) kres" where
  "ramfs_proc_bind_read env junk count ppos s =
    rbind (mutex_lock s) (\<lambda>s1.
      let txt = bind_text (ramfs_sync_dir s1);
          temp = snprintf_buf junk txt;
          len = length txt;
          s2 = mutex_unlock s1
      in if len \<le> ppos then Inr (0, [], ppos, s2)
         else let count' = (if len - ppos < count then len - ppos else count)
              in if PATH_MAX < ppos + count' then Inl (OutOfBounds (int PATH_MAX))
                 else if \<not> copy_user_ok env then Inr (- EFAULT, [], ppos, s2)
                 else Inr (int count', take count' (drop ppos temp), ppos + count', s2))"

text \<open>
  The user's \<open>count\<close> characters are \<open>input\<close>; the three allocations succeed as \<open>kmalloc_ok\<close> says,
  the path buffers arrive with unknown content.
\<close>

definition ramfs_proc_bind_write ::
  "bind_env \<Rightarrow> string \<Rightarrow> string \<Rightarrow> string \<Rightarrow> ramfs_sys \<Rightarrow> (int \<times> ramfs_sys) kres" where
  "ramfs_proc_bind_write env junk1 junk2 input s =
    (let count = length input
     in if PATH_MAX \<le> count then Inr (- EINVAL, s)
        else if \<not> kmalloc_ok env 0 then Inr (- ENOMEM, s)
        else let s1 = s\<lparr>live_bufs := live_bufs s + 1\<rparr>
        in if \<not> kmalloc_ok env 1 then Inr (- ENOMEM, s1\<lparr>live_bufs := live_bufs s1 - 1\<rparr>)
        else let s2 = s1\<lparr>live_bufs := live_bufs s1 + 1\<rparr>
        in if \<not> kmalloc_ok env 2 then Inr (- ENOMEM, s2\<lparr>live_bufs := live_bufs s2 - 2\<rparr>)
        else let s3 = s2\<lparr>live_bufs := live_bufs s2 + 1\<rparr>
        in if \<not> copy_user_ok env then Inr (- EFAULT, s3\<lparr>live_bufs := live_bufs s3 - 3\<rparr>)
        else rbind (parse_mount_path (input @ [NUL]) junk1 junk2) (\<lambda>(ret, rp, sp).
          if ret \<noteq> 0 then Inr (ret, s3\<lparr>live_bufs := live_bufs s3 - 3\<rparr>)
          else rbind (ramfs_bind env (Some (takeWhile (\<lambda>c. c \<noteq> NUL) sp)) s3) (\<lambda>(ret', s4).
            Inr (if ret' = 0 then int count else ret', s4\<lparr>live_bufs := live_bufs s4 - 3\<rparr>))))"

section \<open>Registration\<close>

datatype proc_entry = RamfsDir | BindEntry | SyncEntry

text \<open>The proc entries that exist, the registered file system, and the bound directory.\<close>

record ramfs_module =
  proc_entries :: "proc_entry list"
  fs_registered :: bool
  module_sync_dir :: "string option"

record module_env =
  proc_mkdir_ok :: bool
  proc_create_ok :: "proc_entry \<Rightarrow> bool"
  register_ret :: int

definition ramfs_init_proc :: "module_env \<Rightarrow> ramfs_module \<Rightarrow> int \<times> ramfs_module" where
  "ramfs_init_proc env s =
    (if \<not> proc_mkdir_ok env then (- ENOMEM, s)
     else let s1 = s\<lparr>proc_entries := RamfsDir # proc_entries s\<rparr>
     in if \<not> proc_create_ok env BindEntry
        then (- ENOMEM, s1\<lparr>proc_entries := remove1 RamfsDir (proc_entries s1)\<rparr>)
     else let s2 = s1\<lparr>proc_entries := BindEntry # proc_entries s1\<rparr>
     in if \<not> proc_create_ok env SyncEntry
        then (- ENOMEM, s2\<lparr>proc_entries := remove1 RamfsDir (remove1 BindEntry (proc_entries s2))\<rparr>)
     else (0, s2\<lparr>proc_entries := SyncEntry # proc_entries s2\<rparr>))"

definition ramfs_exit_proc :: "ramfs_module \<Rightarrow> ramfs_module" where
  "ramfs_exit_proc s =
     s\<lparr>proc_entries := remove1 RamfsDir (remove1 BindEntry (remove1 SyncEntry (proc_entries s)))\<rparr>"

definition init_ramfs_fs :: "module_env \<Rightarrow> ramfs_module \<Rightarrow> int \<times> ramfs_module" where
  "init_ramfs_fs env s =
    (let (ret, s1) = ramfs_init_proc env s
     in (register_ret env, s1\<lparr>fs_registered := (register_ret env = 0)\<rparr>))"

definition exit_ramfs_fs :: "ramfs_module \<Rightarrow> ramfs_module" where
  "exit_ramfs_fs s = (ramfs_exit_proc s)\<lparr>fs_registered := False, module_sync_dir := None\<rparr>"

section \<open>Specification of the parser\<close>

text \<open>Path lookup reports errors as negative numbers.\<close>

definition kern_path_errno :: "bind_env \<Rightarrow> bool" where
  "kern_path_errno env \<longleftrightarrow> (\<forall>dir e. kern_path env dir = Inl e \<longrightarrow> e < 0)"

definition path_spec :: "string \<Rightarrow> int \<times> string \<times> string" where
  "path_spec s =
    (let t = dropWhile blank s; w = takeWhile path_char t
     in (if length w > 255 then - ENAMETOOLONG else if w = [] then - EINVAL else 0,
         w, dropWhile path_char t))"

definition mount_spec :: "string \<Rightarrow> int \<times> string \<times> string" where
  "mount_spec s =
    (let (r1, w1, s1) = path_spec s; (r2, w2, s2) = path_spec s1
     in (if r1 \<noteq> 0 then r1 else r2, w1, w2))"

text \<open>A user program that reads the proc file with the given buffer sizes, one call after the other.\<close>

fun proc_reads :: "bind_env \<Rightarrow> string \<Rightarrow> nat list \<Rightarrow> nat \<Rightarrow> ramfs_sys \<Rightarrow> string kres" where
  "proc_reads env junk [] ppos s = Inr []"
| "proc_reads env junk (n # ns) ppos s =
    rbind (ramfs_proc_bind_read env junk n ppos s) (\<lambda>(ret, out, ppos', s').
    rbind (proc_reads env junk ns ppos' s') (\<lambda>rest. Inr (out @ rest)))"

text \<open>The directories \<open>ramfs_bind\<close> accepts.\<close>

definition bindable :: "bind_env \<Rightarrow> string \<Rightarrow> bool" where
  "bindable env dir \<longleftrightarrow>
     (\<exists>mode. kern_path env dir = Inr mode \<and> S_ISDIR mode \<and> mode AND S_IWUSR \<noteq> 0)"

section \<open>Correctness of the parser\<close>

lemma not_path_char_NUL [simp]: "\<not> path_char NUL" "\<not> blank NUL"
  by (simp_all add: path_char_def blank_def)

lemma skip_blanks_eq:
  "skip_blanks (pre @ s @ [NUL]) (length pre) = Inr (length pre + length (takeWhile blank s))"
proof (induction s arbitrary: pre)
  case Nil
  then show ?case by (subst skip_blanks.simps) (simp add: array_get_def)
next
  case (Cons c s)
  show ?case
    using Cons [of "pre @ [c]"] by (subst skip_blanks.simps) (simp add: array_get_def)
qed

lemma copy_path_eq:
  assumes "length out = RAMFS_MAX_PATH" "j \<le> 255"
  shows "copy_path (pre @ s @ [NUL]) (length pre) j out =
    (let w = takeWhile path_char s
     in if j + length w \<le> 255
        then Inr (0, length pre + length w, j + length w, take j out @ w @ drop (j + length w) out)
        else Inr (- ENAMETOOLONG, length pre + (255 - j), 255, take j out @ take (255 - j) w @ drop 255 out))"
  using assms
proof (induction s arbitrary: pre j out)
  case Nil
  then show ?case by (subst copy_path.simps) (simp add: array_get_def)
next
  case (Cons c s)
  show ?case
  proof (cases "path_char c \<and> j < 255")
    case True
    have set: "array_set out (int j) c = Inr (out[j := c])" using Cons.prems True by (simp add: array_set_def)
    have upd: "take (Suc j) (out[j := c]) = take j out @ [c]" "drop (Suc j) (out[j := c]) = drop (Suc j) out"
      using Cons.prems True by (simp_all add: take_Suc_conv_app_nth)
    have dr: "drop k (out[j := c]) = drop k out" if "j < k" for k using that by simp
    show ?thesis
      using Cons.IH [of "out[j := c]" "Suc j" "pre @ [c]"] Cons.prems True set
      by (subst copy_path.simps) (simp add: array_get_def upd dr Let_def take_Cons', arith)
  next
    case False
    with Cons.prems show ?thesis
      by (subst copy_path.simps) (auto simp: array_get_def Let_def)
  qed
qed

lemma takeWhile_dropWhile_len: "length (takeWhile P s) + length (dropWhile P s) = length s"
  by (metis length_append takeWhile_dropWhile_id)

lemma parse_path_eq:
  assumes "length out = RAMFS_MAX_PATH" "path_spec s = (r, w, rest)"
  shows "\<exists>out' i. parse_path (pre @ s @ [NUL]) (length pre) out = Inr (r, i, out') \<and> length out' = RAMFS_MAX_PATH \<and>
    (r = 0 \<longrightarrow> i = length (pre @ s) - length rest \<and> takeWhile (\<lambda>c. c \<noteq> NUL) out' = w)"
proof -
  let ?b = "takeWhile blank s" and ?t = "dropWhile blank s"
  let ?pre = "pre @ ?b"
  have skip: "skip_blanks (pre @ s @ [NUL]) (length pre) = Inr (length ?pre)"
    by (simp add: skip_blanks_eq)
  have buf: "pre @ s @ [NUL] = ?pre @ ?t @ [NUL]" by (simp add: takeWhile_dropWhile_id flip: append_assoc) simp
  have w: "w = takeWhile path_char ?t" and rest: "rest = dropWhile path_char ?t"
    and r: "r = (if length w > 255 then - ENAMETOOLONG else if w = [] then - EINVAL else 0)"
    using assms(2) by (auto simp: path_spec_def Let_def)
  have copy: "copy_path (pre @ s @ [NUL]) (length ?pre) 0 out =
      (if length w \<le> 255 then Inr (0, length ?pre + length w, length w, w @ drop (length w) out)
       else Inr (- ENAMETOOLONG, length ?pre + 255, 255, take 255 w @ drop 255 out))"
    unfolding buf using assms(1) by (subst copy_path_eq) (simp_all add: Let_def w)
  show ?thesis
  proof (cases "length w \<le> 255")
    case True
    have nz: "\<forall>c \<in> set w. c \<noteq> NUL" unfolding w by (auto dest: set_takeWhileD)
    have i: "length ?pre + length w = length (pre @ s) - length rest"
      using takeWhile_dropWhile_len [of blank s] takeWhile_dropWhile_len [of path_char ?t] by (simp add: w rest)
    have upd: "array_set (w @ drop (length w) out) (int (length w)) NUL = Inr (w @ NUL # drop (Suc (length w)) out)"
      using True assms(1) by (simp add: array_set_def list_update_append Cons_nth_drop_Suc [symmetric])
    have tw: "takeWhile (\<lambda>c. c \<noteq> NUL) (w @ NUL # drop (Suc (length w)) out) = w"
      using nz by (simp add: takeWhile_append2)
    show ?thesis
      using True copy skip upd tw assms(1) i by (auto simp: parse_path_def r)
  next
    case False
    then show ?thesis using copy skip assms(1) by (simp add: parse_path_def r)
  qed
qed

lemma parse_mount_path_eq:
  assumes "length rp = RAMFS_MAX_PATH" "length sp = RAMFS_MAX_PATH" "mount_spec s = (r, a, d)"
  shows "\<exists>rp' sp'. parse_mount_path (s @ [NUL]) rp sp = Inr (r, rp', sp') \<and>
    length rp' = RAMFS_MAX_PATH \<and> length sp' = RAMFS_MAX_PATH \<and>
    (r = 0 \<longrightarrow> takeWhile (\<lambda>c. c \<noteq> NUL) rp' = a \<and> takeWhile (\<lambda>c. c \<noteq> NUL) sp' = d)"
proof -
  obtain r1 w1 s1 where p1: "path_spec s = (r1, w1, s1)" by (cases "path_spec s") auto
  obtain r2 w2 s2 where p2: "path_spec s1 = (r2, w2, s2)" by (cases "path_spec s1") auto
  have spec: "r = (if r1 \<noteq> 0 then r1 else r2)" "a = w1" "d = w2"
    using assms(3) by (auto simp: mount_spec_def p1 p2)
  obtain rp' i where rp': "parse_path (s @ [NUL]) 0 rp = Inr (r1, i, rp')" "length rp' = RAMFS_MAX_PATH"
      "r1 = 0 \<longrightarrow> i = length s - length s1 \<and> takeWhile (\<lambda>c. c \<noteq> NUL) rp' = w1"
    using parse_path_eq [OF assms(1) p1, of "[]"] by auto
  have "s = takeWhile blank s @ takeWhile path_char (dropWhile blank s) @ dropWhile path_char (dropWhile blank s)"
    by simp
  with p1 obtain pre where split: "s = pre @ s1"
    by (auto simp: path_spec_def Let_def simp flip: append_assoc)
  then have len: "length s - length s1 = length pre" by simp
  obtain sp' i' where sp': "parse_path (s @ [NUL]) (length pre) sp = Inr (r2, i', sp')" "length sp' = RAMFS_MAX_PATH"
      "r2 = 0 \<longrightarrow> takeWhile (\<lambda>c. c \<noteq> NUL) sp' = w2"
    using parse_path_eq [OF assms(2) p2, of pre] split by auto
  show ?thesis using rp' sp' spec len assms(2) by (auto simp: parse_mount_path_def)
qed

lemma path_spec_word:
  assumes "\<forall>c \<in> set b. blank c" "\<forall>c \<in> set w. path_char c" "w \<noteq> []" "length w \<le> 255"
    and "rest = [] \<or> \<not> path_char (hd rest)"
  shows "path_spec (b @ w @ rest) = (0, w, rest)"
proof -
  have "\<not> blank (hd w)" using assms(2,3) by (cases w) (auto simp: path_char_def)
  then have "dropWhile blank (b @ w @ rest) = w @ rest"
    using assms(1,3) by (cases w) (auto simp: dropWhile_append2)
  moreover have "takeWhile path_char (w @ rest) = w" "dropWhile path_char (w @ rest) = rest"
    using assms(2,5) by (cases rest; simp add: takeWhile_append2 dropWhile_append2)+
  ultimately show ?thesis using assms(3,4) by (simp add: path_spec_def Let_def)
qed

lemma mount_spec_line:
  assumes "\<forall>c \<in> set a \<union> set d. path_char c" "a \<noteq> []" "d \<noteq> []" "length a \<le> 255" "length d \<le> 255"
  shows "mount_spec (a @ CHR '' '' # d @ [CHR 0x0A]) = (0, a, d)"
proof -
  have "path_spec (a @ CHR '' '' # d @ [CHR 0x0A]) = (0, a, CHR '' '' # d @ [CHR 0x0A])"
    using assms path_spec_word [of "[]" a] by (simp add: path_char_def blank_def)
  moreover have "path_spec (CHR '' '' # d @ [CHR 0x0A]) = (0, d, [CHR 0x0A])"
    using assms path_spec_word [of "[CHR '' '']" d "[CHR 0x0A]"] by (simp add: path_char_def blank_def)
  ultimately show ?thesis by (simp add: mount_spec_def)
qed

section \<open>Binding and the proc file\<close>

lemmas ramfs_bind_defs = ramfs_bind_def mutex_lock_def mutex_unlock_def path_put_def

lemma ramfs_bind_ok:
  assumes "bindable env dir" "kstrdup_ok env" "\<not> sync_mutex s"
  shows "ramfs_bind env (Some dir) s =
    Inr (0, s\<lparr>ramfs_sync_dir := Some dir,
      live_bufs := live_bufs s + (if ramfs_sync_dir s = None then 1 else 0)\<rparr>)"
  using assms by (auto simp: ramfs_bind_defs bindable_def Let_def)

lemma ramfs_bind_cases:
  assumes "\<not> sync_mutex s" "kern_path_errno env"
  obtains ret s' where "ramfs_bind env d s = Inr (ret, s')" "\<not> sync_mutex s'" "path_refs s' = path_refs s"
    "ret \<le> 0" "ret \<noteq> 0 \<longrightarrow> s' = s"
    "ret = 0 \<longrightarrow> (\<exists>dir. d = Some dir \<and> bindable env dir) \<and> ramfs_sync_dir s' = d \<and>
       live_bufs s' = live_bufs s + (if ramfs_sync_dir s = None then 1 else 0)"
proof -
  have "e < 0" if "kern_path env x = Inl e" for x e
    using assms(2) that by (auto simp: kern_path_errno_def)
  then show thesis
    using assms(1) that
    by (fastforce simp: ramfs_bind_defs bindable_def Let_def split: option.splits sum.splits if_splits)
qed

text \<open>One read returns the next piece of the text.\<close>

lemma proc_bind_read_eq:
  assumes "\<not> sync_mutex s" "copy_user_ok env" "length (bind_text (ramfs_sync_dir s)) < PATH_MAX"
  shows "ramfs_proc_bind_read env junk n ppos s =
    (let out = take n (drop ppos (bind_text (ramfs_sync_dir s))) in Inr (int (length out), out, ppos + length out, s))"
proof -
  let ?t = "bind_text (ramfs_sync_dir s)"
  have unl: "mutex_unlock (s\<lparr>sync_mutex := True\<rparr>) = s" using assms(1) by (simp add: mutex_unlock_def)
  have buf: "take k (drop ppos (snprintf_buf junk ?t)) = take k (drop ppos ?t)" if "k \<le> length ?t - ppos" for k
    using that assms(3) by (simp add: snprintf_buf_def Let_def)
  show ?thesis
    using assms buf [of "min n (length ?t - ppos)"]
    by (auto simp: ramfs_proc_bind_read_def mutex_lock_def unl Let_def min_def)
qed

lemma proc_reads_eq:
  assumes "\<not> sync_mutex s" "copy_user_ok env" "length (bind_text (ramfs_sync_dir s)) < PATH_MAX"
  shows "proc_reads env junk ns ppos s = Inr (take (sum_list ns) (drop ppos (bind_text (ramfs_sync_dir s))))"
proof (induction ns arbitrary: ppos)
  case Nil
  then show ?case by simp
next
  case (Cons n ns)
  let ?t = "bind_text (ramfs_sync_dir s)"
  have "drop (ppos + length (take n (drop ppos ?t))) ?t = drop n (drop ppos ?t)"
    by (simp add: min_def add.commute)
  then show ?case
    using proc_bind_read_eq [OF assms, of junk n ppos] Cons by (auto simp: Let_def take_add)
qed

lemma proc_bind_write_ok:
  assumes "length j1 = RAMFS_MAX_PATH" "length j2 = RAMFS_MAX_PATH" "length input < PATH_MAX"
    and "\<forall>i < 3. kmalloc_ok env i" "copy_user_ok env" "kstrdup_ok env" "\<not> sync_mutex s"
    and "mount_spec input = (0, a, d)" "bindable env d"
  shows "ramfs_proc_bind_write env j1 j2 input s =
    Inr (int (length input), s\<lparr>ramfs_sync_dir := Some d,
      live_bufs := live_bufs s + (if ramfs_sync_dir s = None then 1 else 0)\<rparr>)"
proof -
  have km: "kmalloc_ok env 0" "kmalloc_ok env 1" "kmalloc_ok env 2" using assms(4) by simp_all
  obtain rp sp where "parse_mount_path (input @ [NUL]) j1 j2 = Inr (0, rp, sp)" "takeWhile (\<lambda>c. c \<noteq> NUL) sp = d"
    using parse_mount_path_eq [OF assms(1,2,8)] by auto
  then show ?thesis
    using assms(3,5,7) km ramfs_bind_ok [OF assms(9,6), of "s\<lparr>live_bufs := live_bufs s + 3\<rparr>"]
    by (simp add: ramfs_proc_bind_write_def Let_def eval_nat_numeral)
qed

section \<open>Properties\<close>

text \<open>
  C19: the parser of the bind command. For any input it stays inside the input and inside both path
  buffers of 256 characters, returns the error code of the specification (a missing path, or one
  of more than 255 characters), and on success the two buffers hold, terminated, the first two
  blank-separated words of the input.
\<close>
theorem parse_mount_path_correct:
  assumes "length rp = 256" "length sp = 256"
  shows "\<exists>rp' sp'. parse_mount_path (s @ [NUL]) rp sp = Inr (fst (mount_spec s), rp', sp') \<and>
    length rp' = 256 \<and> length sp' = 256 \<and>
    (fst (mount_spec s) = 0 \<longrightarrow>
       (takeWhile (\<lambda>c. c \<noteq> NUL) rp', takeWhile (\<lambda>c. c \<noteq> NUL) sp') = snd (mount_spec s))"
  using parse_mount_path_eq [OF assms, of s "fst (mount_spec s)" "fst (snd (mount_spec s))" "snd (snd (mount_spec s))"]
  by (simp add: prod_eq_iff)

text \<open>
  C22: the bind file round trip. Writing \<open>a\<close>, a blank, \<open>d\<close> and a newline to
  \<open>/proc/fs/ramfs/bind\<close>, for paths of admissible characters and length and a writable directory
  \<open>d\<close>, takes all characters and binds \<open>d\<close>; the first path \<open>a\<close> is read and ignored. Reading the file afterwards, in pieces of any sizes,
  returns \<open>d\<close> and a newline, as far as the pieces reach, and nothing of \<open>a\<close>.
\<close>
theorem proc_bind_roundtrip:
  assumes "length j1 = 256" "length j2 = 256" "\<not> sync_mutex s" "copy_user_ok env" "kstrdup_ok env"
    and "\<forall>i < 3. kmalloc_ok env i" "bindable env d"
    and "\<forall>c \<in> set a \<union> set d. path_char c" "a \<noteq> []" "d \<noteq> []" "length a \<le> 255" "length d \<le> 255"
    and "ramfs_proc_bind_write env j1 j2 (a @ '' '' @ d @ [CHR 0x0A]) s = Inr (ret, s')"
  shows "ret = int (length a + length d + 2) \<and> ramfs_sync_dir s' = Some d \<and>
    proc_reads env junk ns 0 s' = Inr (take (sum_list ns) (d @ [CHR 0x0A]))"
proof -
  have "mount_spec (a @ '' '' @ d @ [CHR 0x0A]) = (0, a, d)" using mount_spec_line assms(8-12) by simp
  then have w: "ret = int (length a + length d + 2)" "ramfs_sync_dir s' = Some d" "sync_mutex s' = sync_mutex s"
    using proc_bind_write_ok [OF assms(1,2) _ assms(6,4,5,3)] assms(7,11,12,13) by auto
  then have "proc_reads env junk ns 0 s' = Inr (take (sum_list ns) (drop 0 (bind_text (Some d))))"
    using assms(3,4,12) proc_reads_eq [of s' env junk ns 0] by (simp add: bind_text_def)
  with w show ?thesis by (simp add: bind_text_def)
qed

text \<open>
  The write handler on every path. From a state in which the mutex is free it returns, whatever
  the input and whichever allocation, copy or lookup fails; the mutex is free again, no path
  reference stays behind, and the buffers it allocated are freed. On an error the bound directory
  and all counts are as before; on success at most the duplicated directory name is new.
\<close>

theorem proc_bind_write_balanced:
  assumes "length j1 = 256" "length j2 = 256" "\<not> sync_mutex s" "kern_path_errno env"
  shows "\<exists>ret s'. ramfs_proc_bind_write env j1 j2 input s = Inr (ret, s') \<and>
    \<not> sync_mutex s' \<and> path_refs s' = path_refs s \<and> (ret < 0 \<longrightarrow> s' = s) \<and>
    (0 \<le> ret \<longrightarrow> ret = int (length input) \<and> (\<exists>d. bindable env d \<and> ramfs_sync_dir s' = Some d) \<and>
       live_bufs s' = live_bufs s + (if ramfs_sync_dir s = None then 1 else 0))"
proof -
  obtain r a d where m: "mount_spec input = (r, a, d)" by (cases "mount_spec input") auto
  have r: "r \<le> 0" using m by (auto simp: mount_spec_def path_spec_def Let_def split: if_splits)
  obtain rp sp where p: "parse_mount_path (input @ [NUL]) j1 j2 = Inr (r, rp, sp)"
    using parse_mount_path_eq [OF assms(1,2) m] by auto
  let ?s = "s\<lparr>live_bufs := live_bufs s + 3\<rparr>" and ?d = "takeWhile (\<lambda>c. c \<noteq> NUL) sp"
  obtain ret s4 where b: "ramfs_bind env (Some ?d) ?s = Inr (ret, s4)" "\<not> sync_mutex s4"
      "path_refs s4 = path_refs ?s" "ret \<le> 0" "ret \<noteq> 0 \<longrightarrow> s4 = ?s"
      "ret = 0 \<longrightarrow> bindable env ?d \<and> ramfs_sync_dir s4 = Some ?d \<and>
         live_bufs s4 = live_bufs ?s + (if ramfs_sync_dir ?s = None then 1 else 0)"
    using ramfs_bind_cases [of ?s env "Some ?d"] assms(3,4) by auto
  show ?thesis
    using p b r assms(3)
    by (cases "ret = 0") (auto simp: ramfs_proc_bind_write_def Let_def eval_nat_numeral)
qed

section \<open>Witnesses\<close>

definition ramfs_ex_env :: bind_env where
  "ramfs_ex_env = \<lparr>kern_path = (\<lambda>p. if p = ''/sync'' then Inr 0x41C0 else Inl (- ENOENT)),
     kstrdup_ok = True, kmalloc_ok = (\<lambda>_. True), copy_user_ok = True\<rparr>"

definition ramfs_ex_sys :: ramfs_sys where
  "ramfs_ex_sys = \<lparr>ramfs_sync_dir = None, sync_mutex = False, path_refs = 0, live_bufs = 0\<rparr>"

lemma ramfs_ex_bindable: "bindable ramfs_ex_env ''/sync''" "kern_path_errno ramfs_ex_env"
  by (auto simp: bindable_def kern_path_errno_def ramfs_ex_env_def S_ISDIR_def S_IWUSR_def)

theorem parse_mount_path_correct_witness:
  "\<exists>rp' sp'. parse_mount_path (''/ram /sync'' @ [NUL]) (replicate 256 NUL) (replicate 256 NUL) = Inr (0, rp', sp') \<and>
     takeWhile (\<lambda>c. c \<noteq> NUL) sp' = ''/sync''"
proof -
  have "mount_spec ''/ram /sync'' = (0, ''/ram'', ''/sync'')" by code_simp
  then show ?thesis
    using parse_mount_path_correct [of "replicate 256 NUL" "replicate 256 NUL" "''/ram /sync''"] by auto
qed

theorem proc_bind_write_balanced_witness:
  "\<exists>ret s'. ramfs_proc_bind_write ramfs_ex_env (replicate 256 NUL) (replicate 256 NUL) ''/ram /nowhere'' ramfs_ex_sys =
     Inr (ret, s') \<and> \<not> sync_mutex s'"
  using proc_bind_write_balanced [of "replicate 256 NUL" "replicate 256 NUL" ramfs_ex_sys ramfs_ex_env "''/ram /nowhere''"]
    ramfs_ex_bindable(2)
  by (auto simp: ramfs_ex_sys_def)

theorem proc_bind_roundtrip_witness:
  "\<exists>s'. ramfs_proc_bind_write ramfs_ex_env (replicate 256 NUL) (replicate 256 NUL) (''/ram /sync'' @ [CHR 0x0A]) ramfs_ex_sys =
       Inr (11, s') \<and> proc_reads ramfs_ex_env [] [2, 100] 0 s' = Inr (''/sync'' @ [CHR 0x0A])"
proof -
  let ?j = "replicate 256 NUL"
  have ok: "\<not> sync_mutex ramfs_ex_sys" "copy_user_ok ramfs_ex_env" "kstrdup_ok ramfs_ex_env"
      "\<forall>i < 3. kmalloc_ok ramfs_ex_env i" "\<forall>c \<in> set ''/ram'' \<union> set ''/sync''. path_char c"
    by (simp_all add: ramfs_ex_sys_def ramfs_ex_env_def path_char_def blank_def)
  have "mount_spec (''/ram '' @ ''/sync'' @ [CHR 0x0A]) = (0, ''/ram'', ''/sync'')" by code_simp
  then obtain ret s' where w: "ramfs_proc_bind_write ramfs_ex_env ?j ?j (''/ram'' @ '' '' @ ''/sync'' @ [CHR 0x0A]) ramfs_ex_sys =
      Inr (ret, s')"
    using proc_bind_write_ok [OF _ _ _ ok(4,2,3,1) _ ramfs_ex_bindable(1), of ?j ?j "''/ram'' @ '' '' @ ''/sync'' @ [CHR 0x0A]" "''/ram''"]
    by simp
  show ?thesis
    using w proc_bind_roundtrip [OF _ _ ok(1-4) ramfs_ex_bindable(1) ok(5) _ _ _ _ w, of "[]" "[2, 100]"] by auto
qed

end
