(* ===== verification/Ramfs_Flush.thy ===== *)
theory Ramfs_Flush
  imports Ramfs_Bind "HOL-Library.Sublist" "HOL-Library.Multiset"
begin

text \<open>
  Persisting a ramfs file (\<open>ramfs_file_flush\<close> of fs/ramfs/inode.c, \<open>ramfs_fsync\<close> of
  fs/ramfs/file-mmu.c and the write handler of \<open>/proc/fs/ramfs/sync\<close>). The virtual file system is
  not part of this source: the calls into it are the functions of a record \<open>vfs_ops\<close> over an
  abstract state \<open>'s\<close>, and what the code relies on is the predicate \<open>vfs_laws\<close> about the content of
  files by path. A \<open>struct file\<close> is the path it was opened with. Everything the function acquires is
  a resource on a list; giving back what is not held is a fault.
\<close>

section \<open>State and calls\<close>

type_synonym content = "u8 list"

record 's vfs_ops =
  open_write :: "string \<Rightarrow> 's \<Rightarrow> (int + unit) \<times> 's"
  open_read :: "string \<Rightarrow> 's \<Rightarrow> (int + unit) \<times> 's"
  kernel_read :: "string \<Rightarrow> nat \<Rightarrow> nat \<Rightarrow> 's \<Rightarrow> (int + content) \<times> 's"
  kernel_write :: "string \<Rightarrow> content \<Rightarrow> nat \<Rightarrow> 's \<Rightarrow> (int + nat) \<times> 's"
  vfs_fsync :: "string \<Rightarrow> 's \<Rightarrow> int \<times> 's"
  filp_close :: "string \<Rightarrow> 's \<Rightarrow> 's"
  path_lookup :: "string \<Rightarrow> 's \<Rightarrow> int"
  lookup_one_len :: "string \<Rightarrow> string \<Rightarrow> 's \<Rightarrow> int"
  vfs_rename :: "string \<Rightarrow> string \<Rightarrow> 's \<Rightarrow> int \<times> 's"

datatype resource =
    TempPath | FilePath | SyncFile | ReadFile | Buf | TmpPath | OldPath | NewDirPath | NewDentry | DirLock | KBuf
  | TargetFile | TargetPath

record 's flush_state =
  world :: 's
  live :: "resource multiset"

text \<open>The file to persist: its name, its path as \<open>d_path\<close> gives it, its size, its file system.\<close>

record ramfs_file =
  d_name :: string
  d_path :: "int + string"
  i_size :: nat
  on_ramfs :: bool

text \<open>Which allocations of the function succeed, and what the new block for \<open>filepath\<close> holds before it is written.\<close>

record flush_env =
  temp_path_ok :: bool
  filepath_ok :: bool
  filepath_junk :: content
  buf_ok :: bool
  tmp_path_ok :: bool

definition acquire :: "resource \<Rightarrow> 's flush_state \<Rightarrow> 's flush_state" where
  "acquire r s = s\<lparr>live := add_mset r (live s)\<rparr>"

definition release :: "resource \<Rightarrow> 's flush_state \<Rightarrow> 's flush_state kres" where
  "release r s = (if r \<in># live s then Inr (s\<lparr>live := live s - {#r#}\<rparr>) else Inl (BadAddr 0))"

definition close :: "'s vfs_ops \<Rightarrow> resource \<Rightarrow> string \<Rightarrow> 's flush_state \<Rightarrow> 's flush_state kres" where
  "close ops r p s = rbind (release r s) (\<lambda>s1. Inr (s1\<lparr>world := filp_close ops p (world s1)\<rparr>))"

definition release_all :: "resource list \<Rightarrow> 's flush_state \<Rightarrow> 's flush_state kres" where
  "release_all rs s = fold (\<lambda>r m. rbind m (release r)) rs (Inr s)"

section \<open>Paths\<close>

text \<open>\<open>snprintf\<close> into a buffer of \<open>PATH_MAX\<close> characters.\<close>

definition tmp_name :: "string \<Rightarrow> string \<Rightarrow> string" where
  "tmp_name dir name = take (PATH_MAX - 1) (dir @ ''/.'' @ name @ ''.tmp'')"

definition final_path :: "string \<Rightarrow> string \<Rightarrow> string" where
  "final_path dir name = dir @ ''/'' @ name"

section \<open>The copying loop\<close>

text \<open>
  \<open>PAGE_SIZE\<close> pieces from \<open>pos\<close> to \<open>sz\<close>. The loop advances by the number of bytes written and
  ends early when a read returns nothing. \<open>None\<close> is a loop that never ends.
\<close>

abbreviation (input) PAGE_SIZE :: nat where "PAGE_SIZE \<equiv> 4096"

partial_function (option) copy_loop ::
  "'s vfs_ops \<Rightarrow> string \<Rightarrow> string \<Rightarrow> nat \<Rightarrow> nat \<Rightarrow> 's \<Rightarrow> (int \<times> 's) option" where
  "copy_loop ops src dst sz pos w =
    (if pos < sz
     then (case kernel_read ops src (min PAGE_SIZE (sz - pos)) pos w of
             (Inl e, w1) \<Rightarrow> Some (e, w1)
           | (Inr data, w1) \<Rightarrow>
               if data = [] then Some (0, w1)
               else (case kernel_write ops dst data pos w1 of
                       (Inl e, w2) \<Rightarrow> Some (e, w2)
                     | (Inr n, w2) \<Rightarrow> copy_loop ops src dst sz (pos + n) w2))
     else Some (0, w))"

section \<open>Flushing a file\<close>

text \<open>The labels of the error path, each continuing into the next.\<close>

definition out_free_path :: "int \<Rightarrow> 's flush_state \<Rightarrow> (int \<times> 's flush_state) kres" where
  "out_free_path ret s = rbind (release_all [FilePath, TempPath] s) (\<lambda>s1. Inr (ret, s1))"

definition out_close_file ::
  "'s vfs_ops \<Rightarrow> string option \<Rightarrow> int \<Rightarrow> 's flush_state \<Rightarrow> (int \<times> 's flush_state) kres" where
  "out_close_file ops sync_file ret s =
    (case sync_file of
       None \<Rightarrow> out_free_path ret s
     | Some p \<Rightarrow> rbind (close ops SyncFile p s) (out_free_path ret))"

definition out_close_read_file ::
  "'s vfs_ops \<Rightarrow> string option \<Rightarrow> string option \<Rightarrow> int \<Rightarrow> 's flush_state \<Rightarrow> (int \<times> 's flush_state) kres" where
  "out_close_read_file ops read_file sync_file ret s =
    (case read_file of
       None \<Rightarrow> out_close_file ops sync_file ret s
     | Some p \<Rightarrow> rbind (close ops ReadFile p s) (out_close_file ops sync_file ret))"

definition out_free_buf ::
  "'s vfs_ops \<Rightarrow> string option \<Rightarrow> string option \<Rightarrow> int \<Rightarrow> 's flush_state \<Rightarrow> (int \<times> 's flush_state) kres" where
  "out_free_buf ops read_file sync_file ret s =
    rbind (release Buf s) (out_close_read_file ops read_file sync_file ret)"

text \<open>The block that renames the temporary file, from the allocation of \<open>tmp_path\<close> on.\<close>

definition flush_rename ::
  "'s vfs_ops \<Rightarrow> flush_env \<Rightarrow> string \<Rightarrow> string \<Rightarrow> 's flush_state \<Rightarrow> (int \<times> 's flush_state) kres" where
  "flush_rename ops env dir name s0 =
    (if \<not> tmp_path_ok env then out_free_buf ops None None (- ENOMEM) s0
     else let s1 = acquire TmpPath s0;
              tmp = tmp_name dir name;
              ret = path_lookup ops tmp (world s1)
     in if ret \<noteq> 0 then rbind (release TmpPath s1) (out_free_buf ops None None ret)
     else let s2 = acquire OldPath s1; ret = path_lookup ops dir (world s2)
     in if ret \<noteq> 0 then rbind (release_all [OldPath, TmpPath] s2) (out_free_buf ops None None ret)
     else let s3 = acquire DirLock (acquire NewDirPath s2); ret = lookup_one_len ops dir name (world s3)
     in if ret \<noteq> 0 then rbind (release_all [DirLock, OldPath, NewDirPath, TmpPath] s3) (out_free_buf ops None None ret)
     else let s4 = acquire NewDentry s3;
              (ret, w) = vfs_rename ops tmp (final_path dir name) (world s4);
              s5 = s4\<lparr>world := w\<rparr>
     in rbind (release_all [NewDentry, DirLock, OldPath, NewDirPath, TmpPath, Buf, FilePath, TempPath] s5)
          (\<lambda>s6. Inr (ret, s6)))"

text \<open>From the allocation of the copy buffer on, with both files open.\<close>

definition flush_copy ::
  "'s vfs_ops \<Rightarrow> flush_env \<Rightarrow> string \<Rightarrow> string \<Rightarrow> string \<Rightarrow> nat \<Rightarrow> 's flush_state \<Rightarrow>
     (int \<times> 's flush_state) kres option" where
  "flush_copy ops env dir name src sz s0 =
    (let tmp = tmp_name dir name
     in if \<not> buf_ok env then Some (out_close_read_file ops (Some src) (Some tmp) (- ENOMEM) s0)
     else let s1 = acquire Buf s0
     in case copy_loop ops src tmp sz 0 (world s1) of
          None \<Rightarrow> None
        | Some (ret, w) \<Rightarrow>
          (let s2 = s1\<lparr>world := w\<rparr>
           in if ret < 0 then Some (out_free_buf ops (Some src) (Some tmp) ret s2)
           else let (ret, w) = vfs_fsync ops tmp (world s2); s3 = s2\<lparr>world := w\<rparr>
           in if ret \<noteq> 0 then Some (out_free_buf ops (Some src) (Some tmp) ret s3)
           else Some (rbind (close ops SyncFile tmp s3) (\<lambda>s4.
                      rbind (close ops ReadFile src s4) (flush_rename ops env dir name)))))"

text \<open>
  The whole function; \<open>sync_dir\<close> is the global that was copied under the mutex. A null file is
  dereferenced by the initialisers, before it is checked. Of the messages one can go wrong: it prints the new block for
  \<open>filepath\<close> as a string before anything has been written to it, and reads beyond the block if there is no NUL in it.
\<close>

definition print_string :: "content \<Rightarrow> unit kres" where
  "print_string block = (if 0 \<in> set block then Inr () else Inl (OutOfBounds (int (length block))))"

definition ramfs_file_flush ::
  "'s vfs_ops \<Rightarrow> flush_env \<Rightarrow> string option \<Rightarrow> ramfs_file option \<Rightarrow> 's flush_state \<Rightarrow>
     (int \<times> 's flush_state) kres option" where
  "ramfs_file_flush ops env sync_dir file s =
    (case file of
       None \<Rightarrow> Some (Inl NullDeref)
     | Some f \<Rightarrow>
       if \<not> on_ramfs f then Some (Inr (0, s))
       else case sync_dir of
         None \<Rightarrow> Some (Inr (0, s))
       | Some dir \<Rightarrow>
         if \<not> temp_path_ok env then Some (Inr (- ENOMEM, s))
         else let s1 = acquire TempPath s
         in if \<not> filepath_ok env then Some (rbind (release TempPath s1) (\<lambda>s2. Inr (- ENOMEM, s2)))
         else let s2 = acquire FilePath s1; tmp = tmp_name dir (d_name f)
         in case print_string (filepath_junk env) of
              Inl e \<Rightarrow> Some (Inl e)
            | Inr _ \<Rightarrow>
           (case open_write ops tmp (world s2) of
              (Inl e, w) \<Rightarrow> Some (out_free_path e (s2\<lparr>world := w\<rparr>))
            | (Inr _, w) \<Rightarrow>
              (let s3 = acquire SyncFile (s2\<lparr>world := w\<rparr>)
               in case d_path f of
                    Inl e \<Rightarrow> Some (out_close_file ops (Some tmp) e s3)
                  | Inr src \<Rightarrow>
                    (case open_read ops src (world s3) of
                       (Inl e, w) \<Rightarrow> Some (out_close_file ops (Some tmp) e (s3\<lparr>world := w\<rparr>))
                     | (Inr _, w) \<Rightarrow>
                         flush_copy ops env dir (d_name f) src (i_size f) (acquire ReadFile (s3\<lparr>world := w\<rparr>))))))"

definition ramfs_fsync ::
  "'s vfs_ops \<Rightarrow> flush_env \<Rightarrow> string option \<Rightarrow> ramfs_file option \<Rightarrow> 's flush_state \<Rightarrow>
     (int \<times> 's flush_state) kres option" where
  "ramfs_fsync ops env sync_dir file s = ramfs_file_flush ops env sync_dir file s"

text \<open>
  The write handler of the sync file. \<open>open_target\<close> looks the named file up and opens it: the
  errors of \<open>kern_path\<close> and \<open>dentry_open\<close>, or the file.
\<close>

datatype target = LookupFailed int | OpenFailed int | Target ramfs_file

definition chop_newline :: "string \<Rightarrow> string" where
  "chop_newline input =
    takeWhile (\<lambda>c. c \<noteq> NUL) (if input \<noteq> [] \<and> last input = CHR 0x0A then butlast input else input)"

definition ramfs_proc_sync_write ::
  "'s vfs_ops \<Rightarrow> flush_env \<Rightarrow> bool \<Rightarrow> bool \<Rightarrow> (string \<Rightarrow> target) \<Rightarrow> string option \<Rightarrow> string \<Rightarrow> 's flush_state \<Rightarrow>
     (int \<times> 's flush_state) kres option" where
  "ramfs_proc_sync_write ops env kbuf_ok user_ok open_target sync_dir input s =
    (let count = length input
     in if PATH_MAX \<le> count then Some (Inr (- EINVAL, s))
     else if \<not> kbuf_ok then Some (Inr (- ENOMEM, s))
     else let s1 = acquire KBuf s
     in if \<not> user_ok then Some (rbind (release KBuf s1) (\<lambda>s2. Inr (- EFAULT, s2)))
     else case open_target (chop_newline input) of
            LookupFailed e \<Rightarrow> Some (rbind (release KBuf s1) (\<lambda>s2. Inr (e, s2)))
          | OpenFailed e \<Rightarrow>
              Some (rbind (release_all [TargetPath, KBuf] (acquire TargetPath s1)) (\<lambda>s2. Inr (e, s2)))
          | Target f \<Rightarrow>
              (case release TargetPath (acquire TargetFile (acquire TargetPath s1)) of
                 Inl e \<Rightarrow> Some (Inl e)
               | Inr s2 \<Rightarrow>
                 (case ramfs_file_flush ops env sync_dir (Some f) s2 of
                    None \<Rightarrow> None
                  | Some (Inl e) \<Rightarrow> Some (Inl e)
                  | Some (Inr (ret, s3)) \<Rightarrow>
                      Some (rbind (release_all [TargetFile, KBuf] s3)
                        (\<lambda>s4. Inr (if ret = 0 then int count else ret, s4))))))"

section \<open>What the code relies on\<close>

definition write_at :: "nat \<Rightarrow> content \<Rightarrow> content \<Rightarrow> content" where
  "write_at pos data c = take pos c @ data @ drop (pos + length data) c"

text \<open>
  Documented behaviour of the calls, in terms of the content \<open>files w p\<close> of the file at path \<open>p\<close>:
  opening for writing truncates or creates; reading returns at most what was asked for, from the
  position on, and nothing only at the end of the file; writing stores a prefix of the data;
  renaming moves the content; everything else leaves the files alone. Errors are negative and, apart
  from a failed write to the written file, change nothing.
\<close>

definition open_law :: "'s vfs_ops \<Rightarrow> ('s \<Rightarrow> string \<Rightarrow> content option) \<Rightarrow> bool" where
  "open_law ops files \<longleftrightarrow>
    (\<forall>p w e w'. open_write ops p w = (Inl e, w') \<longrightarrow> e < 0 \<and> files w' = files w) \<and>
    (\<forall>p w u w'. open_write ops p w = (Inr u, w') \<longrightarrow> files w' = (files w)(p \<mapsto> [])) \<and>
    (\<forall>p w r w'. open_read ops p w = (r, w') \<longrightarrow> files w' = files w \<and> (\<forall>e. r = Inl e \<longrightarrow> e < 0)) \<and>
    (\<forall>p w. files (filp_close ops p w) = files w)"

definition read_law :: "'s vfs_ops \<Rightarrow> ('s \<Rightarrow> string \<Rightarrow> content option) \<Rightarrow> bool" where
  "read_law ops files \<longleftrightarrow>
    (\<forall>p n pos w e w'. kernel_read ops p n pos w = (Inl e, w') \<longrightarrow> e < 0 \<and> files w' = files w) \<and>
    (\<forall>p n pos w data w' c. kernel_read ops p n pos w = (Inr data, w') \<longrightarrow> files w p = Some c \<longrightarrow>
       files w' = files w \<and> prefix data (take n (drop pos c)) \<and> (data = [] \<longrightarrow> take n (drop pos c) = []))"

definition write_law :: "'s vfs_ops \<Rightarrow> ('s \<Rightarrow> string \<Rightarrow> content option) \<Rightarrow> bool" where
  "write_law ops files \<longleftrightarrow>
    (\<forall>p data pos w e w'. kernel_write ops p data pos w = (Inl e, w') \<longrightarrow>
       e < 0 \<and> (\<forall>q. q \<noteq> p \<longrightarrow> files w' q = files w q)) \<and>
    (\<forall>p data pos w n w' c. kernel_write ops p data pos w = (Inr n, w') \<longrightarrow> files w p = Some c \<longrightarrow>
       n \<le> length data \<and> files w' = (files w)(p \<mapsto> write_at pos (take n data) c)) \<and>
    (\<forall>p w i w'. vfs_fsync ops p w = (i, w') \<longrightarrow> files w' = files w \<and> i \<le> 0)"

definition rename_law :: "'s vfs_ops \<Rightarrow> ('s \<Rightarrow> string \<Rightarrow> content option) \<Rightarrow> bool" where
  "rename_law ops files \<longleftrightarrow>
    (\<forall>p w. path_lookup ops p w \<le> 0) \<and> (\<forall>d p w. lookup_one_len ops d p w \<le> 0) \<and>
    (\<forall>p q w i w'. vfs_rename ops p q w = (i, w') \<longrightarrow> i \<le> 0 \<and>
       (i < 0 \<longrightarrow> files w' = files w) \<and> (i = 0 \<longrightarrow> files w' = (files w)(p := None, q := files w p)))"

definition vfs_laws :: "'s vfs_ops \<Rightarrow> ('s \<Rightarrow> string \<Rightarrow> content option) \<Rightarrow> bool" where
  "vfs_laws ops files \<longleftrightarrow> open_law ops files \<and> read_law ops files \<and> write_law ops files \<and> rename_law ops files"

text \<open>A file system that writes at least one byte whenever it reports success.\<close>

definition write_progress :: "'s vfs_ops \<Rightarrow> bool" where
  "write_progress ops \<longleftrightarrow>
    (\<forall>p data pos w n w'. data \<noteq> [] \<and> kernel_write ops p data pos w = (Inr n, w') \<longrightarrow> 0 < n)"

section \<open>Resources\<close>

lemma release_add [simp]: "live s = add_mset r L \<Longrightarrow> release r s = Inr (s\<lparr>live := L\<rparr>)"
  by (simp add: release_def)

lemma release_all_Nil [simp]: "release_all [] s = Inr s"
  by (simp add: release_all_def)

lemma fold_release_Inl: "fold (\<lambda>r m. rbind m (release r)) rs (Inl e) = Inl e"
  by (induction rs) auto

lemma release_all_Cons [simp]: "release_all (r # rs) s = rbind (release r s) (release_all rs)"
  by (cases "release r s") (simp_all add: release_all_def fold_release_Inl)

lemma release_all_eq:
  "live s = mset rs + L \<Longrightarrow> release_all rs s = Inr (s\<lparr>live := L\<rparr>)"
  by (induction rs arbitrary: s) auto

lemma out_free_path_eq:
  "live s = mset [FilePath, TempPath] + L \<Longrightarrow> out_free_path ret s = Inr (ret, s\<lparr>live := L\<rparr>)"
  by (simp add: out_free_path_def)

lemma out_close_file_eq:
  assumes "live s = mset [SyncFile, FilePath, TempPath] + L"
  shows "out_close_file ops (Some p) ret s = Inr (ret, s\<lparr>live := L, world := filp_close ops p (world s)\<rparr>)"
  using assms by (simp add: out_close_file_def close_def out_free_path_eq [where L = L])

lemma out_close_read_file_eq:
  assumes "live s = mset [ReadFile, SyncFile, FilePath, TempPath] + L"
  shows "out_close_read_file ops (Some q) (Some p) ret s =
    Inr (ret, s\<lparr>live := L, world := filp_close ops p (filp_close ops q (world s))\<rparr>)"
  using assms by (simp add: out_close_read_file_def close_def out_close_file_eq [where L = L])

lemma out_free_buf_open_eq:
  assumes "live s = mset [Buf, ReadFile, SyncFile, FilePath, TempPath] + L"
  shows "out_free_buf ops (Some q) (Some p) ret s =
    Inr (ret, s\<lparr>live := L, world := filp_close ops p (filp_close ops q (world s))\<rparr>)"
  using assms by (simp add: out_free_buf_def out_close_read_file_eq [where L = L])

lemma out_free_buf_closed_eq:
  assumes "live s = mset [Buf, FilePath, TempPath] + L"
  shows "out_free_buf ops None None ret s = Inr (ret, s\<lparr>live := L\<rparr>)"
  using assms
  by (simp add: out_free_buf_def out_close_read_file_def out_close_file_def out_free_path_eq [where L = L])

lemmas flush_labels = out_free_path_eq out_close_file_eq out_close_read_file_eq out_free_buf_open_eq
  out_free_buf_closed_eq

section \<open>Consequences of the laws\<close>

lemma vfs_open_facts:
  assumes "vfs_laws ops files"
  shows vfs_open_write_err: "open_write ops p w = (Inl e, w') \<Longrightarrow> e < 0 \<and> files w' = files w"
    and vfs_open_write_ok: "open_write ops p w = (Inr u, w') \<Longrightarrow> files w' = (files w)(p \<mapsto> [])"
    and vfs_open_read: "open_read ops p w = (r, w') \<Longrightarrow> files w' = files w \<and> (\<forall>e. r = Inl e \<longrightarrow> e < 0)"
    and vfs_close_law: "files (filp_close ops p w) = files w"
  using assms by (simp_all add: vfs_laws_def open_law_def)

lemma vfs_read_facts:
  assumes "vfs_laws ops files"
  shows vfs_read_err: "kernel_read ops p n pos w = (Inl e, w') \<Longrightarrow> e < 0 \<and> files w' = files w"
    and vfs_read_ok: "kernel_read ops p n pos w = (Inr data, w') \<Longrightarrow> files w p = Some c \<Longrightarrow>
          files w' = files w \<and> prefix data (take n (drop pos c)) \<and> (data = [] \<longrightarrow> take n (drop pos c) = [])"
  using assms unfolding vfs_laws_def read_law_def by blast+

lemma vfs_write_facts:
  assumes "vfs_laws ops files"
  shows vfs_write_err: "kernel_write ops p data pos w = (Inl e, w') \<Longrightarrow> e < 0 \<and> (\<forall>q. q \<noteq> p \<longrightarrow> files w' q = files w q)"
    and vfs_write_ok: "kernel_write ops p data pos w = (Inr k, w') \<Longrightarrow> files w p = Some c \<Longrightarrow>
          k \<le> length data \<and> files w' = (files w)(p \<mapsto> write_at pos (take k data) c)"
    and vfs_fsync_law: "vfs_fsync ops p w = (i, w') \<Longrightarrow> files w' = files w \<and> i \<le> 0"
  using assms unfolding vfs_laws_def write_law_def by blast+

lemma vfs_rename_facts:
  assumes "vfs_laws ops files"
  shows vfs_lookup_law: "path_lookup ops p w \<le> 0" "lookup_one_len ops d p w \<le> 0"
    and vfs_rename_law: "vfs_rename ops p q w = (i, w') \<Longrightarrow> i \<le> 0 \<and> (i < 0 \<longrightarrow> files w' = files w) \<and>
          (i = 0 \<longrightarrow> files w' = (files w)(p := None, q := files w p))"
  using assms unfolding vfs_laws_def rename_law_def by blast+

lemma write_at_append:
  assumes "prefix data (take n (drop pos c))" "k \<le> length data" "pos \<le> length c"
  shows "write_at pos (take k data) (take pos c) = take (pos + k) c"
proof -
  have "prefix (take k data) (drop pos c)"
    using assms(1) by (meson prefix_order.trans take_is_prefix)
  then have "take k data = take k (drop pos c)" using assms(2) by (auto simp: prefix_def)
  then show ?thesis using assms(3) by (simp add: write_at_def take_add)
qed

text \<open>
  One round of the loop that does not end it: the destination grows by the bytes written, and nothing else changes.
\<close>

lemma copy_loop_round:
  assumes laws: "vfs_laws ops files" and src: "files w src = Some c" "length c = sz" and dst: "files w dst = Some (take pos c)" and pos: "pos < sz"
    and rd: "kernel_read ops src (min PAGE_SIZE (sz - pos)) pos w = (Inr data, w1)" and wr: "kernel_write ops dst data pos w1 = (Inr k, w2)"
  shows "pos + k \<le> sz" "files w2 = (files w)(dst \<mapsto> take (pos + k) c)"
proof -
  note rd_ok = vfs_read_ok [OF laws rd src(1)]
  have "files w1 dst = Some (take pos c)" using rd_ok dst by simp
  note wr_ok = vfs_write_ok [OF laws wr this]
  have "length data \<le> sz - pos"
    using rd_ok src(2) prefix_length_le [of data "take (min PAGE_SIZE (sz - pos)) (drop pos c)"] by simp
  then show "pos + k \<le> sz" using wr_ok pos by linarith
  show "files w2 = (files w)(dst \<mapsto> take (pos + k) c)"
    using wr_ok rd_ok src(2) pos write_at_append [of data "min PAGE_SIZE (sz - pos)" pos c k] by auto
qed

text \<open>A read before the end of the file returns something.\<close>

lemma copy_loop_read:
  assumes "vfs_laws ops files" "files w src = Some c" "length c = sz" "pos < sz" "kernel_read ops src (min PAGE_SIZE (sz - pos)) pos w = (Inr data, w1)"
  shows "data \<noteq> []"
  using vfs_read_ok [OF assms(1,5,2)] assms(3,4) by auto

text \<open>
  When the loop ends, only the destination has changed, and without an error the destination equals the source.
\<close>

lemma copy_loop_copies:
  assumes "copy_loop ops src dst sz pos w = Some r" and laws: "vfs_laws ops files" and ne: "src \<noteq> dst"
    and "files w src = Some c" "length c = sz" "files w dst = Some (take pos c)" "pos \<le> sz"
  shows "fst r \<le> 0 \<and> (\<forall>q. q \<noteq> dst \<longrightarrow> files (snd r) q = files w q) \<and> (fst r = 0 \<longrightarrow> files (snd r) dst = Some c)"
proof -
  have "vfs_laws ops files \<longrightarrow> src \<noteq> dst \<longrightarrow> files w src = Some c \<longrightarrow> length c = sz \<longrightarrow> files w dst = Some (take pos c) \<longrightarrow> pos \<le> sz \<longrightarrow>
      fst r \<le> 0 \<and> (\<forall>q. q \<noteq> dst \<longrightarrow> files (snd r) q = files w q) \<and> (fst r = 0 \<longrightarrow> files (snd r) dst = Some c)"
  proof (rule copy_loop.raw_induct [where P = "\<lambda>ops src dst sz pos w r. vfs_laws ops files \<longrightarrow> src \<noteq> dst \<longrightarrow> files w src = Some c \<longrightarrow> length c = sz \<longrightarrow>
      files w dst = Some (take pos c) \<longrightarrow> pos \<le> sz \<longrightarrow>
      fst r \<le> 0 \<and> (\<forall>q. q \<noteq> dst \<longrightarrow> files (snd r) q = files w q) \<and> (fst r = 0 \<longrightarrow> files (snd r) dst = Some c)", OF _ assms(1)], intro impI)
    fix loop and ops :: "'a vfs_ops" and src dst sz pos w r
    assume IH: "\<And>ops src dst sz pos w r. loop ops src dst sz pos w = Some r \<Longrightarrow> vfs_laws ops files \<longrightarrow> src \<noteq> dst \<longrightarrow> files w src = Some c \<longrightarrow>
        length c = sz \<longrightarrow> files w dst = Some (take pos c) \<longrightarrow> pos \<le> sz \<longrightarrow>
        fst r \<le> 0 \<and> (\<forall>q. q \<noteq> dst \<longrightarrow> files (snd r) q = files w q) \<and> (fst r = 0 \<longrightarrow> files (snd r) dst = Some c)"
      and run: "(if pos < sz then case kernel_read ops src (min PAGE_SIZE (sz - pos)) pos w of (Inl e, w1) \<Rightarrow> Some (e, w1)
           | (Inr data, w1) \<Rightarrow> if data = [] then Some (0, w1) else case kernel_write ops dst data pos w1 of (Inl e, w2) \<Rightarrow> Some (e, w2)
               | (Inr n, w2) \<Rightarrow> loop ops src dst sz (pos + n) w2 else Some (0, w)) = Some r"
      and laws: "vfs_laws ops files" and ne: "src \<noteq> dst" and src: "files w src = Some c" "length c = sz" and dst: "files w dst = Some (take pos c)"
      and pos: "pos \<le> sz"
    obtain x w1 where rd: "kernel_read ops src (min PAGE_SIZE (sz - pos)) pos w = (x, w1)" by fastforce
    consider "\<not> pos < sz" | e where "pos < sz" "x = Inl e" | data where "pos < sz" "x = Inr data"
      by (cases x) auto
    then show "fst r \<le> 0 \<and> (\<forall>q. q \<noteq> dst \<longrightarrow> files (snd r) q = files w q) \<and> (fst r = 0 \<longrightarrow> files (snd r) dst = Some c)"
    proof cases
      case 1
      then show ?thesis using run src dst pos by auto
    next
      case 2
      then show ?thesis using run rd vfs_read_err [OF laws, of src "min PAGE_SIZE (sz - pos)" pos w] by auto
    next
      case 3
      note data = copy_loop_read [OF laws src 3(1) rd [unfolded 3(2)]]
      obtain y w2 where wr: "kernel_write ops dst data pos w1 = (y, w2)" by fastforce
      have w1: "files w1 = files w" using vfs_read_ok [OF laws rd [unfolded 3(2)] src(1)] by simp
      show ?thesis
      proof (cases y)
        case (Inl e)
        then show ?thesis using run rd 3 data w1 wr vfs_write_err [OF laws wr [unfolded Inl]] by auto
      next
        case (Inr k)
        note step = copy_loop_round [OF laws src dst 3(1) rd [unfolded 3(2)] wr [unfolded Inr]]
        have "loop ops src dst sz (pos + k) w2 = Some r" using run rd 3 data wr Inr by simp
        from IH [OF this] laws ne src step show ?thesis by auto
      qed
    qed
  qed
  then show ?thesis using assms by blast
qed

text \<open>As long as writes make progress the loop ends.\<close>

lemma copy_loop_ends:
  assumes laws: "vfs_laws ops files" and prog: "write_progress ops" and ne: "src \<noteq> dst"
    and src: "files w src = Some c" "length c = sz" and dst: "files w dst = Some (take pos c)" and pos: "pos \<le> sz"
  shows "\<exists>r. copy_loop ops src dst sz pos w = Some r"
  using src dst pos
proof (induction "sz - pos" arbitrary: pos w rule: less_induct)
  case less
  obtain x w1 where rd: "kernel_read ops src (min PAGE_SIZE (sz - pos)) pos w = (x, w1)" by fastforce
  consider "\<not> (pos < sz \<and> (\<exists>data. x = Inr data))" | data where "pos < sz" "x = Inr data" by blast
  then show ?case
  proof cases
    case 1
    then show ?thesis using rd by (subst copy_loop.simps) (auto split: sum.splits)
  next
    case 2
    note data = copy_loop_read [OF laws less.prems(1,2) 2(1) rd [unfolded 2(2)]]
    obtain y w2 where wr: "kernel_write ops dst data pos w1 = (y, w2)" by fastforce
    show ?thesis
    proof (cases y)
      case (Inl e)
      then show ?thesis using rd 2 wr by (subst copy_loop.simps) simp
    next
      case (Inr k)
      note step = copy_loop_round [OF laws less.prems(1-3) 2(1) rd [unfolded 2(2)] wr [unfolded Inr]]
      have "0 < k" using prog data wr Inr unfolding write_progress_def by blast
      then have "\<exists>r. copy_loop ops src dst sz (pos + k) w2 = Some r"
        using step 2(1) ne less.prems by (intro less.hyps) auto
      then show ?thesis using rd 2 data wr Inr by (subst copy_loop.simps) simp
    qed
  qed
qed

section \<open>The parts of the flush\<close>

lemma flush_rename_cases:
  assumes "live s = mset [Buf, FilePath, TempPath] + L"
  obtains (failed) ret where "flush_rename ops env dir name s = Inr (ret, s\<lparr>live := L\<rparr>)"
      "ret = - ENOMEM \<or> ret \<noteq> 0 \<and> ((\<exists>p. ret = path_lookup ops p (world s)) \<or> (\<exists>d. ret = lookup_one_len ops d name (world s)))"
  | (renamed) ret w where "vfs_rename ops (tmp_name dir name) (final_path dir name) (world s) = (ret, w)"
      "flush_rename ops env dir name s = Inr (ret, s\<lparr>live := L, world := w\<rparr>)"
proof -
  have world: "world (acquire r x) = world x" for r :: resource and x :: "'a flush_state" by (simp add: acquire_def)
  let ?lk = "path_lookup ops (tmp_name dir name) (world s)" and ?ld = "path_lookup ops dir (world s)"
    and ?ll = "lookup_one_len ops dir name (world s)"
  consider "\<not> tmp_path_ok env" | "tmp_path_ok env" "?lk \<noteq> 0" | "tmp_path_ok env" "?lk = 0" "?ld \<noteq> 0"
    | "tmp_path_ok env" "?lk = 0" "?ld = 0" "?ll \<noteq> 0" | "tmp_path_ok env" "?lk = 0" "?ld = 0" "?ll = 0" by blast
  then show thesis
  proof cases
    case 1
    with assms show thesis
      by (intro failed [of "- ENOMEM"]) (simp_all add: flush_rename_def out_free_buf_closed_eq [where L = L])
  next
    case 2
    with assms show thesis
      by (intro failed [of ?lk])
        (auto simp: flush_rename_def world Let_def acquire_def out_free_buf_closed_eq [where L = L])
  next
    case 3
    with assms show thesis
      by (intro failed [of ?ld])
        (auto simp: flush_rename_def world Let_def acquire_def out_free_buf_closed_eq [where L = L])
  next
    case 4
    with assms show thesis
      by (intro failed [of ?ll])
        (auto simp: flush_rename_def world Let_def acquire_def out_free_buf_closed_eq [where L = L]
          add_mset_commute)
  next
    case 5
    obtain ret w where "vfs_rename ops (tmp_name dir name) (final_path dir name) (world s) = (ret, w)" by fastforce
    with 5 assms show thesis
      by (intro renamed [of ret w]) (auto simp: flush_rename_def world Let_def acquire_def add_mset_commute)
  qed
qed

lemma flush_rename_result:
  assumes "vfs_laws ops files" "live s = mset [Buf, FilePath, TempPath] + L"
  obtains ret s' where "flush_rename ops env dir name s = Inr (ret, s')" "live s' = L" "ret \<le> 0"
    "ret < 0 \<longrightarrow> files (world s') = files (world s)"
    "ret = 0 \<longrightarrow> files (world s') = (files (world s))(tmp_name dir name := None,
       final_path dir name := files (world s) (tmp_name dir name))"
proof (rule flush_rename_cases [OF assms(2), of ops env dir name])
  fix ret
  assume failed: "flush_rename ops env dir name s = Inr (ret, s\<lparr>live := L\<rparr>)"
    and ret: "ret = - ENOMEM \<or> ret \<noteq> 0 \<and>
      ((\<exists>p. ret = path_lookup ops p (world s)) \<or> (\<exists>d. ret = lookup_one_len ops d name (world s)))"
  have "ret < 0" using ret vfs_lookup_law [OF assms(1)] by (auto simp: order.strict_iff_order)
  with failed show thesis by (intro that [of ret "s\<lparr>live := L\<rparr>"]) auto
next
  fix ret w
  assume rn: "vfs_rename ops (tmp_name dir name) (final_path dir name) (world s) = (ret, w)"
    and renamed: "flush_rename ops env dir name s = Inr (ret, s\<lparr>live := L, world := w\<rparr>)"
  with vfs_rename_law [OF assms(1) rn] show thesis
    by (intro that [of ret "s\<lparr>live := L, world := w\<rparr>"]) auto
qed

text \<open>Whatever the file system does, the second half of the flush gives back what it holds.\<close>

lemma flush_copy_balanced:
  assumes "live s = mset [ReadFile, SyncFile, FilePath, TempPath] + L"
    and "flush_copy ops env dir name src sz s = Some r"
  shows "\<exists>ret s'. r = Inr (ret, s') \<and> live s' = L"
proof (cases "buf_ok env")
  case False
  with assms show ?thesis by (auto simp: flush_copy_def Let_def out_close_read_file_eq [where L = L])
next
  case True
  with assms obtain ret w where loop: "copy_loop ops src (tmp_name dir name) sz 0 (world s) = Some (ret, w)"
    by (auto simp: flush_copy_def Let_def acquire_def split: option.splits)
  obtain ret' w' where sync: "vfs_fsync ops (tmp_name dir name) w = (ret', w')" by fastforce
  let ?s = "s\<lparr>live := mset [Buf, FilePath, TempPath] + L,
      world := filp_close ops src (filp_close ops (tmp_name dir name) w')\<rparr>"
  obtain ret'' s'' where "flush_rename ops env dir name ?s = Inr (ret'', s'')" "live s'' = L"
    by (rule flush_rename_cases [of ?s L ops env dir name]) auto
  then have "\<exists>ret s'. flush_copy ops env dir name src sz s = Some (Inr (ret, s')) \<and> live s' = L"
    using True assms(1) loop sync
    by (cases "ret < 0"; cases "ret' = 0";
        simp add: flush_copy_def Let_def acquire_def close_def out_free_buf_open_eq [where L = L] add_mset_commute)
  with assms(2) show ?thesis by auto
qed

lemma flush_copy_result:
  assumes laws: "vfs_laws ops files"
    and live: "live s = mset [ReadFile, SyncFile, FilePath, TempPath] + L"
    and "src \<noteq> tmp_name dir name" "files (world s) src = Some c" "length c = sz"
    and tmp: "files (world s) (tmp_name dir name) = Some []" and run: "flush_copy ops env dir name src sz s = Some r"
  shows "\<exists>ret s'. r = Inr (ret, s') \<and> ret \<le> 0 \<and>
    (ret < 0 \<longrightarrow> (\<forall>q. q \<noteq> tmp_name dir name \<longrightarrow> files (world s') q = files (world s) q)) \<and>
    (ret = 0 \<longrightarrow> files (world s') = (files (world s))(tmp_name dir name := None, final_path dir name \<mapsto> c))"
proof (cases "buf_ok env")
  case False
  with live run show ?thesis
    by (auto simp: flush_copy_def Let_def out_close_read_file_eq [where L = L] vfs_close_law [OF laws])
next
  case True
  obtain ret w where loop: "copy_loop ops src (tmp_name dir name) sz 0 (world s) = Some (ret, w)" "ret \<le> 0"
      "\<forall>q. q \<noteq> tmp_name dir name \<longrightarrow> files w q = files (world s) q" "ret = 0 \<longrightarrow> files w (tmp_name dir name) = Some c"
  proof -
    obtain ret w where l: "copy_loop ops src (tmp_name dir name) sz 0 (world s) = Some (ret, w)"
      using True run by (auto simp: flush_copy_def Let_def acquire_def split: option.splits)
    show thesis by (rule that [OF l]) (use copy_loop_copies [OF l laws assms(3-5)] tmp in simp_all)
  qed
  obtain ret' w' where sync: "vfs_fsync ops (tmp_name dir name) w = (ret', w')" by fastforce
  note sync' = vfs_fsync_law [OF laws sync]
  let ?s = "s\<lparr>live := mset [Buf, FilePath, TempPath] + L,
      world := filp_close ops src (filp_close ops (tmp_name dir name) w')\<rparr>"
  have live': "live ?s = mset [Buf, FilePath, TempPath] + L" by simp
  obtain ret'' s'' where rn: "flush_rename ops env dir name ?s = Inr (ret'', s'')" "ret'' \<le> 0"
      "ret'' < 0 \<longrightarrow> files (world s'') = files (world ?s)"
      "ret'' = 0 \<longrightarrow> files (world s'') = (files (world ?s))(tmp_name dir name := None,
         final_path dir name := files (world ?s) (tmp_name dir name))"
    by (rule flush_rename_result [OF laws live'])
  have files: "files (world ?s) = files w" using sync' by (simp add: vfs_close_law [OF laws])
  consider "ret < 0" | "ret = 0" "ret' \<noteq> 0" | "ret = 0" "ret' = 0" using loop(2) by linarith
  then show ?thesis
  proof cases
    case 1
    with True live loop run show ?thesis
      by (auto simp: flush_copy_def Let_def acquire_def out_free_buf_open_eq [where L = L] vfs_close_law [OF laws])
  next
    case 2
    with True live loop sync sync' run show ?thesis
      by (auto simp: flush_copy_def Let_def acquire_def out_free_buf_open_eq [where L = L] vfs_close_law [OF laws])
  next
    case 3
    then have "flush_copy ops env dir name src sz s = Some (Inr (ret'', s''))"
      using True live loop(1) sync rn(1) by (simp add: flush_copy_def Let_def acquire_def close_def add_mset_commute)
    moreover have "ret'' < 0 \<longrightarrow> (\<forall>q. q \<noteq> tmp_name dir name \<longrightarrow> files (world s'') q = files (world s) q)"
      using rn(3) files loop(3) by simp
    moreover have "ret'' = 0 \<longrightarrow> files (world s'') = (files (world s))(tmp_name dir name := None, final_path dir name \<mapsto> c)"
      using rn(4) files loop(3,4) 3 by (auto simp: fun_eq_iff)
    ultimately show ?thesis using rn(2) run by auto
  qed
qed

lemma flush_copy_returns:
  assumes "vfs_laws ops files" "write_progress ops" "src \<noteq> tmp_name dir name" "files (world s) src = Some c" "length c = sz"
    and "files (world s) (tmp_name dir name) = Some []"
  shows "\<exists>r. flush_copy ops env dir name src sz s = Some r"
  using copy_loop_ends [OF assms(1-5), of 0] assms(6)
  by (auto simp: flush_copy_def Let_def acquire_def split: option.splits prod.splits)

lemma copy_loop_stuck:
  assumes "copy_loop ops src dst sz pos w = Some r"
  shows "\<not> (pos < sz \<and> (\<exists>data. data \<noteq> [] \<and> kernel_read ops src (min PAGE_SIZE (sz - pos)) pos w = (Inr data, w) \<and>
    kernel_write ops dst data pos w = (Inr 0, w)))"
  by (rule copy_loop.raw_induct [where P = "\<lambda>ops src dst sz pos w r.
        \<not> (pos < sz \<and> (\<exists>data. data \<noteq> [] \<and> kernel_read ops src (min PAGE_SIZE (sz - pos)) pos w = (Inr data, w) \<and>
          kernel_write ops dst data pos w = (Inr 0, w)))", OF _ assms]) fastforce

lemma tmp_final_distinct:
  assumes "length dir + length name < 4000"
  shows "tmp_name dir name \<noteq> final_path dir name"
proof
  assume "tmp_name dir name = final_path dir name"
  then have "length (tmp_name dir name) = length (final_path dir name)" by simp
  with assms show False by (simp add: tmp_name_def final_path_def)
qed

section \<open>Properties\<close>

text \<open>A flush ends before the copy with an error, or it is the copy with both files open.\<close>

lemma flush_prefix:
  assumes laws: "vfs_laws ops files" and f: "on_ramfs f" "d_path f = Inr src" "0 \<in> set (filepath_junk env)"
    and src: "files (world s) src = Some c" "src \<noteq> tmp_name dir (d_name f)"
  obtains (failed) ret s' where "ramfs_file_flush ops env (Some dir) (Some f) s = Some (Inr (ret, s'))" "ret < 0"
      "\<forall>q. q \<noteq> tmp_name dir (d_name f) \<longrightarrow> files (world s') q = files (world s) q"
  | (opened) t where "ramfs_file_flush ops env (Some dir) (Some f) s = flush_copy ops env dir (d_name f) src (i_size f) t"
      "live t = mset [ReadFile, SyncFile, FilePath, TempPath] + live s" "files (world t) = (files (world s))(tmp_name dir (d_name f) \<mapsto> [])"
proof -
  let ?tmp = "tmp_name dir (d_name f)"
  obtain x w where ow: "open_write ops ?tmp (world s) = (x, w)" by fastforce
  obtain y w' where or': "open_read ops src w = (y, w')" by fastforce
  note fr = vfs_open_read [OF laws or']
  consider "\<not> (temp_path_ok env \<and> filepath_ok env)" | e where "temp_path_ok env" "filepath_ok env" "x = Inl e"
    | u e where "temp_path_ok env" "filepath_ok env" "x = Inr u" "y = Inl e" | u v where "temp_path_ok env" "filepath_ok env" "x = Inr u" "y = Inr v"
    by (cases x; cases y) auto
  then show thesis
  proof cases
    case 1
    then show ?thesis using f by (intro failed [of "- ENOMEM" s]) (auto simp: ramfs_file_flush_def Let_def acquire_def)
  next
    case 2
    show ?thesis
      by (rule failed [of e "s\<lparr>world := w\<rparr>"]) (use 2 ow f vfs_open_write_err [OF laws ow [unfolded 2(3)]] in
        \<open>simp_all add: ramfs_file_flush_def print_string_def Let_def acquire_def out_free_path_eq [where L = "live s"]\<close>)
  next
    case 3
    show ?thesis
      by (rule failed [of e "s\<lparr>world := filp_close ops ?tmp w'\<rparr>"]) (use 3 ow or' f fr vfs_open_write_ok [OF laws ow [unfolded 3(3)]] in
        \<open>simp_all add: ramfs_file_flush_def print_string_def Let_def acquire_def vfs_close_law [OF laws] out_close_file_eq [where L = "live s"]\<close>)
  next
    case 4
    show ?thesis
      by (rule opened [of "s\<lparr>world := w', live := mset [ReadFile, SyncFile, FilePath, TempPath] + live s\<rparr>"])
        (use 4 ow or' f fr vfs_open_write_ok [OF laws ow [unfolded 4(3)]] in \<open>simp_all add: ramfs_file_flush_def print_string_def Let_def acquire_def\<close>)
  qed
qed

lemma flush_persists_main:
  assumes laws: "vfs_laws ops files" and f: "on_ramfs f" "d_path f = Inr src" "0 \<in> set (filepath_junk env)"
    and src: "files (world s) src = Some c" "length c = i_size f" "src \<noteq> tmp_name dir (d_name f)"
    and run: "ramfs_file_flush ops env (Some dir) (Some f) s = Some r"
  shows "\<exists>ret s'. r = Inr (ret, s') \<and> ret \<le> 0 \<and>
    (ret < 0 \<longrightarrow> (\<forall>q. q \<noteq> tmp_name dir (d_name f) \<longrightarrow> files (world s') q = files (world s) q)) \<and>
    (ret = 0 \<longrightarrow> files (world s') = (files (world s))(tmp_name dir (d_name f) := None, final_path dir (d_name f) \<mapsto> c))"
  using laws f src(1,3)
proof (rule flush_prefix [where dir = dir and s = s])
  fix ret s' assume "ramfs_file_flush ops env (Some dir) (Some f) s = Some (Inr (ret, s'))" "ret < 0"
    "\<forall>q. q \<noteq> tmp_name dir (d_name f) \<longrightarrow> files (world s') q = files (world s) q"
  then show ?thesis using run by auto
next
  fix t assume t: "ramfs_file_flush ops env (Some dir) (Some f) s = flush_copy ops env dir (d_name f) src (i_size f) t"
      "live t = mset [ReadFile, SyncFile, FilePath, TempPath] + live s" "files (world t) = (files (world s))(tmp_name dir (d_name f) \<mapsto> [])"
  show ?thesis using flush_copy_result [OF laws t(2) src(3) _ src(2) _ t(1) [symmetric, unfolded run]] t(3) src(1,3)
    by (fastforce simp: fun_eq_iff)
qed

lemma flush_returns:
  assumes laws: "vfs_laws ops files" "write_progress ops" and f: "on_ramfs f" "d_path f = Inr src" "0 \<in> set (filepath_junk env)"
    and src: "files (world s) src = Some c" "length c = i_size f" "src \<noteq> tmp_name dir (d_name f)"
  shows "\<exists>r. ramfs_file_flush ops env (Some dir) (Some f) s = Some r"
  using laws(1) f src(1,3)
proof (rule flush_prefix [where dir = dir and s = s])
  fix t assume t: "ramfs_file_flush ops env (Some dir) (Some f) s = flush_copy ops env dir (d_name f) src (i_size f) t"
      "files (world t) = (files (world s))(tmp_name dir (d_name f) \<mapsto> [])"
  show ?thesis unfolding t(1) by (rule flush_copy_returns [OF laws src(3) _ src(2)]) (use t(2) src in auto)
qed auto

text \<open>
  C10: a flush persists the file atomically. Take a file system that obeys its laws, a ramfs file and a bound directory, and let the block for the path
  hold a NUL, so that its print stays within it. Whenever \<open>ramfs_file_flush\<close> returns, it returns 0 or an error. When it
  returns 0 the file of that name in the bound directory has exactly the content of the ramfs file, the temporary file is gone and no other file
  has changed. When it returns an error no file but the temporary one has changed: an earlier version in the directory is kept whole. It does
  return when the file system writes at least one byte in each successful write.
\<close>
theorem flush_persists_atomically:
  assumes "vfs_laws ops files" "on_ramfs f" "d_path f = Inr src" "0 \<in> set (filepath_junk env)"
    and "files (world s) src = Some c" "length c = i_size f" "src \<noteq> tmp_name dir (d_name f)"
  shows "(\<forall>r. ramfs_file_flush ops env (Some dir) (Some f) s = Some r \<longrightarrow>
      (\<exists>ret s'. r = Inr (ret, s') \<and> ret \<le> 0 \<and>
        (ret < 0 \<longrightarrow> (\<forall>q. q \<noteq> tmp_name dir (d_name f) \<longrightarrow> files (world s') q = files (world s) q)) \<and>
        (ret = 0 \<longrightarrow> files (world s') = (files (world s))(tmp_name dir (d_name f) := None, final_path dir (d_name f) \<mapsto> c)))) \<and>
    (write_progress ops \<longrightarrow> ramfs_file_flush ops env (Some dir) (Some f) s \<noteq> None)"
  using flush_persists_main [OF assms] flush_returns [OF assms(1) _ assms(2-)] by auto

lemma flush_balanced:
  assumes "ramfs_file_flush ops env sync_dir (Some f) s = Some r" and nul: "0 \<in> set (filepath_junk env)"
  shows "\<exists>ret s'. r = Inr (ret, s') \<and> live s' = live s"
proof (cases "\<exists>dir src u u' w w'. on_ramfs f \<and> sync_dir = Some dir \<and> temp_path_ok env \<and> filepath_ok env \<and>
    open_write ops (tmp_name dir (d_name f)) (world s) = (Inr u, w) \<and> d_path f = Inr src \<and> open_read ops src w = (Inr u', w')")
  case True
  then obtain dir src u u' w w' where h: "on_ramfs f" "sync_dir = Some dir" "temp_path_ok env" "filepath_ok env"
    "open_write ops (tmp_name dir (d_name f)) (world s) = (Inr u, w)" "d_path f = Inr src" "open_read ops src w = (Inr u', w')"
    by blast
  with assms nul have "flush_copy ops env dir (d_name f) src (i_size f)
      (s\<lparr>world := w', live := mset [ReadFile, SyncFile, FilePath, TempPath] + live s\<rparr>) = Some r"
    by (simp add: ramfs_file_flush_def print_string_def Let_def acquire_def)
  then show ?thesis by (rule flush_copy_balanced [rotated]) simp
next
  case False
  with assms show ?thesis
    by (auto simp: ramfs_file_flush_def print_string_def Let_def acquire_def out_free_path_eq [where L = "live s"]
        out_close_file_eq [where L = "live s"] split: option.splits if_splits prod.splits sum.splits)
qed

text \<open>
  Resources. Whatever the file system and the allocator answer, a flush of a file that returns, and does not fault on the
  print of the path, does not give back anything it does not hold, and leaves buffers, open files, path references and
  the directory lock as they were.
\<close>

theorem flush_releases_resources:
  assumes "ramfs_file_flush ops env sync_dir (Some f) s = Some r" "0 \<in> set (filepath_junk env)"
  shows "\<exists>ret s'. r = Inr (ret, s') \<and> live s' = live s"
  by (rule flush_balanced [OF assms])

text \<open>
  Progress is needed. When the file system keeps answering that it has written 0 bytes, the
  flush of a non-empty file never returns.
\<close>

theorem flush_diverges_without_progress:
  assumes "on_ramfs f" "d_path f = Inr src" "temp_path_ok env" "filepath_ok env" "buf_ok env" "0 < i_size f"
    and "open_write ops (tmp_name dir (d_name f)) (world s) = (Inr (), w)" "open_read ops src w = (Inr (), w')"
    and "kernel_read ops src (min 4096 (i_size f)) 0 w' = (Inr data, w')" "data \<noteq> []"
    and "kernel_write ops (tmp_name dir (d_name f)) data 0 w' = (Inr 0, w')"
    and "0 \<in> set (filepath_junk env)"
  shows "ramfs_file_flush ops env (Some dir) (Some f) s = None"
proof -
  have "copy_loop ops src (tmp_name dir (d_name f)) (i_size f) 0 w' = None"
    using copy_loop_stuck [of ops src "tmp_name dir (d_name f)" "i_size f" 0 w'] assms(6,9,10,11)
    by (cases "copy_loop ops src (tmp_name dir (d_name f)) (i_size f) 0 w'") auto
  with assms show ?thesis by (simp add: ramfs_file_flush_def print_string_def flush_copy_def Let_def acquire_def)
qed

text \<open>
  The sync file. A write of fewer than 4096 characters to \<open>/proc/fs/ramfs/sync\<close> that names an
  openable file and returns gives the number of characters exactly when the flush of that file
  returned 0, and otherwise the error of the flush; the handler's buffer, path and file references
  are given back on every path.
\<close>

theorem proc_sync_write_effect:
  assumes "ramfs_proc_sync_write ops env kok uok target sync_dir input s = Some r" and nul: "0 \<in> set (filepath_junk env)"
  shows "\<exists>ret s'. r = Inr (ret, s') \<and> live s' = live s \<and>
    (\<forall>f. kok \<and> uok \<and> length input < 4096 \<and> target (chop_newline input) = Target f \<longrightarrow>
       (\<exists>ret' s1 s2. live s1 = add_mset TargetFile (add_mset KBuf (live s)) \<and> world s1 = world s \<and>
          ramfs_file_flush ops env sync_dir (Some f) s1 = Some (Inr (ret', s2)) \<and> world s' = world s2 \<and>
          ret = (if ret' = 0 then int (length input) else ret')))"
proof (cases "\<exists>f. kok \<and> uok \<and> length input < 4096 \<and> target (chop_newline input) = Target f")
  case False
  with assms show ?thesis
    by (auto simp: ramfs_proc_sync_write_def Let_def acquire_def split: target.splits if_splits)
next
  case True
  then obtain f where f: "kok" "uok" "length input < 4096" "target (chop_newline input) = Target f" by blast
  let ?s1 = "s\<lparr>live := add_mset TargetFile (add_mset KBuf (live s))\<rparr>"
  have rel: "release TargetPath (acquire TargetFile (acquire TargetPath (acquire KBuf s))) = Inr ?s1"
    by (simp add: acquire_def add_mset_commute)
  obtain r' where r': "ramfs_file_flush ops env sync_dir (Some f) ?s1 = Some r'"
    using assms f rel by (auto simp: ramfs_proc_sync_write_def Let_def split: option.splits)
  then obtain ret' s2 where s2: "r' = Inr (ret', s2)" "live s2 = live ?s1"
    using flush_balanced [OF _ nul] by blast
  let ?ret = "if ret' = 0 then int (length input) else ret'" and ?s' = "s2\<lparr>live := live s\<rparr>"
  have r: "r = Inr (?ret, ?s')"
    using assms f rel r' s2 by (simp add: ramfs_proc_sync_write_def Let_def)
  have "\<exists>ret' s1 s2. live s1 = add_mset TargetFile (add_mset KBuf (live s)) \<and> world s1 = world s \<and>
      ramfs_file_flush ops env sync_dir (Some f) s1 = Some (Inr (ret', s2)) \<and> world ?s' = world s2 \<and>
      ?ret = (if ret' = 0 then int (length input) else ret')"
    by (rule exI [of _ ret'], rule exI [of _ ?s1], rule exI [of _ s2]) (simp add: r' s2)
  then show ?thesis
    unfolding r using f(4) by (intro exI [of _ ?ret] exI [of _ ?s']) simp
qed

section \<open>Witnesses\<close>

text \<open>A file system whose state is the content of the files.\<close>

type_synonym ex_fs = "string \<Rightarrow> content option"

definition ex_ops :: "ex_fs vfs_ops" where
  "ex_ops = \<lparr>open_write = (\<lambda>p w. (Inr (), w(p \<mapsto> []))),
     open_read = (\<lambda>p w. (if w p = None then Inl (- ENOENT) else Inr (), w)),
     kernel_read = (\<lambda>p n pos w. (case w p of None \<Rightarrow> Inl (- EBADF) | Some c \<Rightarrow> Inr (take n (drop pos c)), w)),
     kernel_write = (\<lambda>p data pos w. (case w p of None \<Rightarrow> (Inl (- EBADF), w)
       | Some c \<Rightarrow> (Inr (length data), w(p \<mapsto> write_at pos data c)))),
     vfs_fsync = (\<lambda>p w. (0, w)), filp_close = (\<lambda>p w. w), path_lookup = (\<lambda>p w. 0), lookup_one_len = (\<lambda>d p w. 0),
     vfs_rename = (\<lambda>p q w. (0, w(p := None, q := w p)))\<rparr>"

definition ex_full_ops :: "ex_fs vfs_ops" where
  "ex_full_ops = ex_ops\<lparr>kernel_write := (\<lambda>p data pos w. (Inr 0, w))\<rparr>"

definition ex_env :: flush_env where
  "ex_env = \<lparr>temp_path_ok = True, filepath_ok = True, filepath_junk = [65, 0], buf_ok = True, tmp_path_ok = True\<rparr>"

definition ex_file :: ramfs_file where
  "ex_file = \<lparr>d_name = ''a'', d_path = Inr ''/ram/a'', i_size = 3, on_ramfs = True\<rparr>"

definition ex_state :: "ex_fs flush_state" where
  "ex_state = \<lparr>world = [''/ram/a'' \<mapsto> [1, 2, 3]], live = {#}\<rparr>"

lemma ex_ops_laws: "vfs_laws ex_ops (\<lambda>w. w)" "write_progress ex_ops"
  by (auto simp: vfs_laws_def open_law_def read_law_def write_law_def rename_law_def write_progress_def ex_ops_def
      split: option.splits if_splits)

lemma ex_file_facts:
  "on_ramfs ex_file" "d_path ex_file = Inr ''/ram/a''" "i_size ex_file = 3" "d_name ex_file = ''a''"
  "tmp_name ''/sync'' ''a'' = ''/sync/.a.tmp''" "world ex_state ''/ram/a'' = Some [1, 2, 3]" "live ex_state = {#}"
  by (simp_all add: ex_file_def ex_state_def tmp_name_def)

lemma ex_copy: "copy_loop ex_ops ''/ram/a'' ''/sync/.a.tmp'' 3 0 ((world ex_state)(''/sync/.a.tmp'' \<mapsto> [])) =
    Some (0, (world ex_state)(''/sync/.a.tmp'' \<mapsto> [1, 2, 3]))"
  by (subst copy_loop.simps, simp add: ex_ops_def ex_state_def write_at_def, subst copy_loop.simps, simp)

lemma ex_flush: "\<exists>s'. ramfs_file_flush ex_ops ex_env (Some ''/sync'') (Some ex_file) ex_state = Some (Inr (0, s'))"
proof -
  have "open_write ex_ops p w = (Inr (), w(p \<mapsto> []))" "open_read ex_ops p w = (if w p = None then Inl (- ENOENT) else Inr (), w)"
    "vfs_fsync ex_ops p w = (0, w)" "path_lookup ex_ops p w = 0" "lookup_one_len ex_ops d p w = 0"
    "vfs_rename ex_ops p q w = (0, w(p := None, q := w p))" for p q d w
    by (simp_all add: ex_ops_def)
  then show ?thesis
    by (simp add: ramfs_file_flush_def print_string_def flush_copy_def flush_rename_def ex_file_facts ex_env_def ex_copy Let_def
        acquire_def close_def add_mset_commute)
qed

lemma ex_junk: "0 \<in> set (filepath_junk ex_env)"
  by (simp add: ex_env_def)

theorem flush_persists_atomically_witness:
  "\<exists>s'. ramfs_file_flush ex_ops ex_env (Some ''/sync'') (Some ex_file) ex_state = Some (Inr (0, s')) \<and>
     world s' ''/sync/a'' = Some [1, 2, 3]"
  using flush_persists_atomically [OF ex_ops_laws(1) ex_file_facts(1,2) ex_junk, of ex_state "[1, 2, 3]" "''/sync''"] ex_flush
  by (auto simp: ex_file_facts final_path_def)

theorem flush_releases_resources_witness:
  "\<exists>r. ramfs_file_flush ex_ops ex_env (Some ''/sync'') (Some ex_file) ex_state = Some r \<and>
     (\<exists>ret s'. r = Inr (ret, s') \<and> live s' = {#})"
proof -
  obtain r where r: "ramfs_file_flush ex_ops ex_env (Some ''/sync'') (Some ex_file) ex_state = Some r"
    using ex_flush by blast
  show ?thesis using r flush_releases_resources [OF r ex_junk] by (simp add: ex_file_facts)
qed

text \<open>A block without a NUL makes the first message read beyond it.\<close>

lemma flush_print_overruns:
  "on_ramfs f \<Longrightarrow> temp_path_ok env \<Longrightarrow> filepath_ok env \<Longrightarrow> 0 \<notin> set (filepath_junk env) \<Longrightarrow>
   ramfs_file_flush ops env (Some dir) (Some f) s = Some (Inl (OutOfBounds (int (length (filepath_junk env)))))"
  by (simp add: ramfs_file_flush_def print_string_def Let_def)

theorem flush_diverges_without_progress_witness:
  "ramfs_file_flush ex_full_ops ex_env (Some ''/sync'') (Some ex_file) ex_state = None"
  by (rule flush_diverges_without_progress [where src = "''/ram/a''" and data = "[1, 2, 3]"
        and w = "(world ex_state)(''/sync/.a.tmp'' \<mapsto> [])" and w' = "(world ex_state)(''/sync/.a.tmp'' \<mapsto> [])"])
    (simp_all add: ex_file_facts ex_full_ops_def ex_ops_def ex_env_def)

theorem proc_sync_write_effect_witness:
  "\<exists>ret s'. ramfs_proc_sync_write ex_ops ex_env True True (\<lambda>_. LookupFailed (- ENOENT)) None ''/x'' ex_state =
     Some (Inr (ret, s')) \<and> live s' = {#}"
proof -
  let ?call = "ramfs_proc_sync_write ex_ops ex_env True True (\<lambda>_. LookupFailed (- ENOENT)) None ''/x'' ex_state"
  obtain r where r: "?call = Some r" by (simp add: ramfs_proc_sync_write_def Let_def)
  show ?thesis using r proc_sync_write_effect [OF r ex_junk] by (auto simp: ex_file_facts)
qed

end
