(* ===== verification/Ramfs_Inode.thy ===== *)
theory Ramfs_Inode
  imports Ramfs_Bind Transition_System
begin

text \<open>
  The file system proper of fs/ramfs/inode.c: inodes and their operation tables, the creation of files,
  directories, devices, symbolic links and temporary files, and the mount with its one option.
\<close>

section \<open>Inodes\<close>

abbreviation (input) S_IFMT :: u16 where "S_IFMT \<equiv> 0xF000"
abbreviation (input) S_IFREG :: u16 where "S_IFREG \<equiv> 0x8000"
abbreviation (input) S_IFDIR :: u16 where "S_IFDIR \<equiv> 0x4000"
abbreviation (input) S_IFLNK :: u16 where "S_IFLNK \<equiv> 0xA000"
abbreviation (input) S_IRWXUGO :: u16 where "S_IRWXUGO \<equiv> 0x1FF"
abbreviation (input) S_IALLUGO :: u16 where "S_IALLUGO \<equiv> 0xFFF"
abbreviation (input) RAMFS_DEFAULT_MODE :: u16 where "RAMFS_DEFAULT_MODE \<equiv> 0x1ED"

text \<open>
  The tables of operations an inode can have. \<open>new_inode\<close> sets the first of each; \<open>init_special_inode\<close> sets the file
  operations of a device, pipe or socket and leaves the inode operations.
\<close>

datatype inode_operations = empty_iops | ramfs_file_inode_operations | ramfs_dir_inode_operations | page_symlink_inode_operations

datatype file_operations = no_open_fops | ramfs_file_operations | simple_dir_operations | special_fops u16

record ramfs_inode =
  i_mode :: u16
  i_nlink :: nat
  i_op :: inode_operations
  i_fop :: file_operations
  i_rdev :: u32
  i_target :: "string option"
  i_mtime :: int
  i_unevictable :: bool
  i_nohighmem :: bool

text \<open>
  A mounted instance: its inodes, its directory entries, and the entries that carry the extra count which
  keeps them in memory.
\<close>

record ramfs_tree =
  inodes :: "nat \<rightharpoonup> ramfs_inode"
  dentries :: "nat \<times> string \<rightharpoonup> nat"
  pinned :: "(nat \<times> string) set"

text \<open>
  What other parts of the kernel decide: the number of the new inode, or that there is no memory for one; the mode
  \<open>inode_init_owner\<close> derives from the mode of the directory and the one asked for; the time; the result of
  \<open>page_symlink\<close>; whether there is memory for the dentry of a root.
\<close>

record inode_env =
  ie_new :: "nat option"
  ie_owner :: "u16 option \<Rightarrow> u16 \<Rightarrow> u16"
  ie_now :: int
  ie_page_symlink :: int
  ie_root_dentry :: bool

definition upd_inode :: "nat \<Rightarrow> (ramfs_inode \<Rightarrow> ramfs_inode) \<Rightarrow> ramfs_tree \<Rightarrow> ramfs_tree" where
  "upd_inode a f s = s\<lparr>inodes := (inodes s)(a := map_option f (inodes s a))\<rparr>"

text \<open>The inode as \<open>ramfs_get_inode\<close> sets it up.\<close>

definition setup_inode :: "inode_env \<Rightarrow> u16 option \<Rightarrow> u16 \<Rightarrow> u32 \<Rightarrow> ramfs_inode" where
  "setup_inode E dirmode mode dev =
    (let inode = \<lparr>i_mode = ie_owner E dirmode mode, i_nlink = 1, i_op = empty_iops, i_fop = no_open_fops, i_rdev = 0,
                   i_target = None, i_mtime = ie_now E, i_unevictable = True, i_nohighmem = False\<rparr>;
         fmt = mode AND S_IFMT
     in if fmt = S_IFREG then inode\<lparr>i_op := ramfs_file_inode_operations, i_fop := ramfs_file_operations\<rparr>
        else if fmt = S_IFDIR
        then inode\<lparr>i_op := ramfs_dir_inode_operations, i_fop := simple_dir_operations, i_nlink := i_nlink inode + 1\<rparr>
        else if fmt = S_IFLNK then inode\<lparr>i_op := page_symlink_inode_operations, i_nohighmem := True\<rparr>
        else inode\<lparr>i_mode := mode, i_fop := special_fops fmt, i_rdev := dev\<rparr>)"

definition ramfs_get_inode :: "inode_env \<Rightarrow> nat option \<Rightarrow> u16 \<Rightarrow> u32 \<Rightarrow> ramfs_tree \<Rightarrow> nat option \<times> ramfs_tree" where
  "ramfs_get_inode E dir mode dev s =
    (case ie_new E of None \<Rightarrow> (None, s)
     | Some ino \<Rightarrow>
       let dirmode = (case dir of None \<Rightarrow> None | Some d \<Rightarrow> map_option i_mode (inodes s d))
       in (Some ino, s\<lparr>inodes := (inodes s)(ino \<mapsto> setup_inode E dirmode mode dev)\<rparr>))"

text \<open>\<open>d_instantiate\<close> and the extra \<open>dget\<close>, then the times of the directory.\<close>

definition link_entry :: "inode_env \<Rightarrow> nat \<Rightarrow> string \<Rightarrow> nat \<Rightarrow> ramfs_tree \<Rightarrow> ramfs_tree" where
  "link_entry E dir name ino s =
     upd_inode dir (\<lambda>d. d\<lparr>i_mtime := ie_now E\<rparr>)
       (s\<lparr>dentries := (dentries s)((dir, name) \<mapsto> ino), pinned := insert (dir, name) (pinned s)\<rparr>)"

definition ramfs_mknod :: "inode_env \<Rightarrow> nat \<Rightarrow> string \<Rightarrow> u16 \<Rightarrow> u32 \<Rightarrow> ramfs_tree \<Rightarrow> int \<times> ramfs_tree" where
  "ramfs_mknod E dir name mode dev s =
    (case ramfs_get_inode E (Some dir) mode dev s of
       (None, s) \<Rightarrow> (- ENOSPC, s)
     | (Some ino, s) \<Rightarrow> (0, link_entry E dir name ino s))"

definition ramfs_mkdir :: "inode_env \<Rightarrow> nat \<Rightarrow> string \<Rightarrow> u16 \<Rightarrow> ramfs_tree \<Rightarrow> int \<times> ramfs_tree" where
  "ramfs_mkdir E dir name mode s =
    (let (retval, s) = ramfs_mknod E dir name (mode OR S_IFDIR) 0 s
     in (retval, if retval = 0 then upd_inode dir (\<lambda>d. d\<lparr>i_nlink := i_nlink d + 1\<rparr>) s else s))"

definition ramfs_create :: "inode_env \<Rightarrow> nat \<Rightarrow> string \<Rightarrow> u16 \<Rightarrow> ramfs_tree \<Rightarrow> int \<times> ramfs_tree" where
  "ramfs_create E dir name mode s = ramfs_mknod E dir name (mode OR S_IFREG) 0 s"

text \<open>When the target cannot be stored, \<open>iput\<close> drops the only reference and the inode is deleted.\<close>

definition ramfs_symlink :: "inode_env \<Rightarrow> nat \<Rightarrow> string \<Rightarrow> string \<Rightarrow> ramfs_tree \<Rightarrow> int \<times> ramfs_tree" where
  "ramfs_symlink E dir name symname s =
    (case ramfs_get_inode E (Some dir) (S_IFLNK OR S_IRWXUGO) 0 s of
       (None, s) \<Rightarrow> (- ENOSPC, s)
     | (Some ino, s) \<Rightarrow>
         if ie_page_symlink E = 0
         then (0, link_entry E dir name ino (upd_inode ino (\<lambda>i. i\<lparr>i_target := Some symname\<rparr>) s))
         else (ie_page_symlink E, s\<lparr>inodes := (inodes s)(ino := None)\<rparr>))"

text \<open>\<open>d_tmpfile\<close> takes the link count back to 0; the entry of the directory stays unused.\<close>

definition ramfs_tmpfile :: "inode_env \<Rightarrow> nat \<Rightarrow> u16 \<Rightarrow> ramfs_tree \<Rightarrow> int \<times> ramfs_tree" where
  "ramfs_tmpfile E dir mode s =
    (case ramfs_get_inode E (Some dir) mode 0 s of
       (None, s) \<Rightarrow> (- ENOSPC, s)
     | (Some ino, s) \<Rightarrow> (0, upd_inode ino (\<lambda>i. i\<lparr>i_nlink := i_nlink i - 1\<rparr>) s))"

section \<open>Mounting\<close>

text \<open>
  The context of a mount and the superblock; \<open>fs_info\<close> is the allocated \<open>ramfs_fs_info\<close>, that is its mode.
\<close>

record ramfs_super =
  s_mode :: u16
  s_blocksize :: nat
  s_blocksize_bits :: nat
  s_magic :: u32
  s_time_gran :: nat
  s_tree :: ramfs_tree
  s_root :: nat

definition ramfs_init_fs_context :: "bool \<Rightarrow> int + u16" where
  "ramfs_init_fs_context kzalloc_ok = (if kzalloc_ok then Inr RAMFS_DEFAULT_MODE else Inl (- ENOMEM))"

text \<open>The result of \<open>fs_parse\<close>: an error number, or \<open>Opt_mode\<close> with the number read.\<close>

definition ramfs_parse_param :: "int + u32 \<Rightarrow> u16 \<Rightarrow> int \<times> u16" where
  "ramfs_parse_param parsed fsi =
    (case parsed of
       Inl opt \<Rightarrow> (if opt = - ENOPARAM then 0 else opt, fsi)
     | Inr uint_32 \<Rightarrow> (0, ucast (uint_32 AND ucast S_IALLUGO)))"

text \<open>\<open>d_make_root\<close> allocates the dentry of the root; it fails for a null inode and when there is no memory for the dentry, and then drops the inode.\<close>

definition ramfs_fill_super :: "inode_env \<Rightarrow> u16 \<Rightarrow> int + ramfs_super" where
  "ramfs_fill_super E fsi =
    (case ramfs_get_inode E None (S_IFDIR OR fsi) 0 \<lparr>inodes = (\<lambda>_. None), dentries = (\<lambda>_. None), pinned = {}\<rparr> of
       (None, s) \<Rightarrow> Inl (- ENOMEM)
     | (Some ino, s) \<Rightarrow> if \<not> ie_root_dentry E then Inl (- ENOMEM) else Inr \<lparr>s_mode = fsi, s_blocksize = 4096, s_blocksize_bits = 12, s_magic = 0x858458f6, s_time_gran = 1, s_tree = s, s_root = ino\<rparr>)"

text \<open>The digits that \<open>%o\<close> prints.\<close>

fun oct_digits :: "nat \<Rightarrow> string" where
  "oct_digits n = (if n < 8 then [char_of (48 + n)] else oct_digits (n div 8) @ [char_of (48 + n mod 8)])"

declare oct_digits.simps [simp del]

definition ramfs_show_options :: "u16 \<Rightarrow> string" where
  "ramfs_show_options fsi = (if fsi \<noteq> RAMFS_DEFAULT_MODE then '',mode='' @ oct_digits (unat fsi) else [])"

text \<open>The number that a string of octal digits denotes, as the parser of mount options reads it.\<close>

definition oct_value :: "string \<Rightarrow> nat" where
  "oct_value ds = foldl (\<lambda>n c. 8 * n + (of_char c - 48)) 0 ds"

lemma oct_value_digits: "oct_value (oct_digits n) = n"
proof (induction n rule: oct_digits.induct)
  case (1 n)
  show ?case
  proof (cases "n < 8")
    case True
    then show ?thesis by (subst oct_digits.simps) (simp add: oct_value_def)
  next
    case False
    then show ?thesis using 1 by (subst oct_digits.simps) (simp add: oct_value_def)
  qed
qed

section \<open>Well-formed trees\<close>

definition is_dir :: "ramfs_inode \<Rightarrow> bool" where
  "is_dir i \<longleftrightarrow> i_mode i AND S_IFMT = S_IFDIR"

text \<open>The operation tables fit the file type that the mode encodes.\<close>

definition iops_typed :: "ramfs_inode \<Rightarrow> bool" where
  "iops_typed i \<longleftrightarrow>
    (let fmt = i_mode i AND S_IFMT
     in if fmt = S_IFREG then i_op i = ramfs_file_inode_operations \<and> i_fop i = ramfs_file_operations
        else if fmt = S_IFDIR then i_op i = ramfs_dir_inode_operations \<and> i_fop i = simple_dir_operations
        else if fmt = S_IFLNK then i_op i = page_symlink_inode_operations \<and> i_fop i = no_open_fops \<and> i_target i \<noteq> None \<and> i_nohighmem i
        else i_op i = empty_iops \<and> i_fop i = special_fops fmt)"

definition is_dir_at :: "ramfs_tree \<Rightarrow> nat \<Rightarrow> bool" where
  "is_dir_at s a \<longleftrightarrow> (case inodes s a of None \<Rightarrow> False | Some i \<Rightarrow> is_dir i)"

definition entries :: "ramfs_tree \<Rightarrow> nat \<Rightarrow> (nat \<times> string) set" where
  "entries s a = {e. dentries s e = Some a}"

definition subdirs :: "ramfs_tree \<Rightarrow> nat \<Rightarrow> string set" where
  "subdirs s a = {n. \<exists>c. dentries s (a, n) = Some c \<and> is_dir_at s c}"

text \<open>
  Entries lie in directories, name inodes and are all pinned; every inode is typed; the link count of a directory
  is 2 and one for each directory in it, that of any other inode the number of its names.
\<close>

definition links_ok :: "ramfs_tree \<Rightarrow> nat \<Rightarrow> ramfs_inode \<Rightarrow> bool" where
  "links_ok s a i \<longleftrightarrow> (if is_dir i then i_nlink i = 2 + card (subdirs s a) \<and> card (entries s a) \<le> 1 else i_nlink i = card (entries s a))"

definition tree_ok :: "ramfs_tree \<Rightarrow> bool" where
  "tree_ok s \<longleftrightarrow> finite (dom (dentries s)) \<and> pinned s = dom (dentries s) \<and>
     (\<forall>d n a. dentries s (d, n) = Some a \<longrightarrow> is_dir_at s d \<and> inodes s a \<noteq> None) \<and>
     (\<forall>a i. inodes s a = Some i \<longrightarrow> iops_typed i \<and> links_ok s a i)"

lemma tree_okD:
  assumes "tree_ok s"
  shows "finite (dom (dentries s))" "pinned s = dom (dentries s)"
    "dentries s (d, n) = Some a \<Longrightarrow> is_dir_at s d" "dentries s (d, n) = Some a \<Longrightarrow> inodes s a \<noteq> None"
    "inodes s a = Some i \<Longrightarrow> iops_typed i" "inodes s a = Some i \<Longrightarrow> links_ok s a i"
  using assms by (simp_all add: tree_ok_def)

lemma subdirs_finite: "tree_ok s \<Longrightarrow> finite (subdirs s a)"
proof -
  assume "tree_ok s"
  then have "finite (snd ` dom (dentries s))" using tree_okD(1) by blast
  moreover have "subdirs s a \<subseteq> snd ` dom (dentries s)" by (force simp: subdirs_def)
  ultimately show ?thesis by (rule rev_finite_subset)
qed

text \<open>A new inode without a name.\<close>

lemma tree_ok_new:
  assumes ok: "tree_ok s" and new: "inodes s b = None" and typed: "iops_typed i" and n: "i_nlink i = (if is_dir i then 2 else 0)"
  shows "tree_ok (s\<lparr>inodes := (inodes s)(b \<mapsto> i)\<rparr>)"
proof -
  let ?s = "s\<lparr>inodes := (inodes s)(b \<mapsto> i)\<rparr>"
  have noname: "dentries s e \<noteq> Some b" for e using tree_okD(4) [OF ok, of "fst e" "snd e" b] new by auto
  have noent: "dentries s (b, m) = None" for m using tree_okD(3) [OF ok, of b m] new by (cases "dentries s (b, m)") (auto simp: is_dir_at_def)
  have dir: "is_dir_at ?s c = (if c = b then is_dir i else is_dir_at s c)" for c by (simp add: is_dir_at_def)
  have "dentries s (a, m) = Some c \<and> is_dir_at ?s c \<longleftrightarrow> dentries s (a, m) = Some c \<and> is_dir_at s c" for a m c
    using noname [of "(a, m)"] by (cases "c = b") (simp_all add: dir)
  then have sub: "subdirs ?s a = subdirs s a" for a by (simp add: subdirs_def)
  have ent: "entries ?s a = entries s a" for a by (simp add: entries_def)
  have b: "subdirs s b = {}" "entries s b = {}" using noent noname by (auto simp: subdirs_def entries_def)
  have "links_ok ?s a j" if "inodes ?s a = Some j" for a j
    using that tree_okD(6) [OF ok, of a j] n b unfolding links_ok_def sub ent by (cases "a = b") auto
  moreover have "iops_typed j" if "inodes ?s a = Some j" for a j using that typed tree_okD(5) [OF ok, of a j] by (cases "a = b") simp_all
  moreover have "is_dir_at ?s d \<and> inodes ?s a \<noteq> None" if "dentries ?s (d, m) = Some a" for d m a
    using that tree_okD(3,4) [OF ok, of d m a] noname noent [of m] by (auto simp: dir)
  ultimately show ?thesis using tree_okD(1,2) [OF ok] unfolding tree_ok_def by (intro conjI allI impI) simp_all
qed

text \<open>A new inode with a name, and a directory that counts it.\<close>

definition linked :: "nat \<Rightarrow> string \<Rightarrow> nat \<Rightarrow> ramfs_inode \<Rightarrow> ramfs_inode \<Rightarrow> ramfs_tree \<Rightarrow> ramfs_tree" where
  "linked dir name b i d s = s\<lparr>inodes := (inodes s)(b \<mapsto> i, dir \<mapsto> d), dentries := (dentries s)((dir, name) \<mapsto> b), pinned := insert (dir, name) (pinned s)\<rparr>"

lemma tree_ok_link:
  assumes ok: "tree_ok s" and new: "inodes s b = None" "dentries s (dir, name) = None" and typed: "iops_typed i"
    and n: "i_nlink i = (if is_dir i then 2 else 1)" and d: "inodes s dir = Some d" "is_dir d"
    and d': "d' = d\<lparr>i_mtime := x, i_nlink := i_nlink d + of_bool (is_dir i)\<rparr>"
  shows "tree_ok (linked dir name b i d' s)"
proof -
  let ?s = "linked dir name b i d' s"
  have bd: "b \<noteq> dir" using new d by auto
  have noname: "dentries s e \<noteq> Some b" for e using tree_okD(4) [OF ok, of "fst e" "snd e" b] new by auto
  have noent: "dentries s (b, m) = None" for m using tree_okD(3) [OF ok, of b m] new by (cases "dentries s (b, m)") (auto simp: is_dir_at_def)
  have dd: "is_dir d'" "iops_typed d'" using d tree_okD(5) [OF ok d(1)] by (simp_all add: d' is_dir_def iops_typed_def Let_def)
  have dir: "is_dir_at ?s c = (if c = b then is_dir i else is_dir_at s c)" for c using bd dd d by (simp add: is_dir_at_def linked_def)
  have sub: "subdirs ?s a = (if a = dir \<and> is_dir i then insert name (subdirs s a) else subdirs s a)" for a
  proof -
    have "(\<exists>c. dentries ?s (a, m) = Some c \<and> is_dir_at ?s c) \<longleftrightarrow>
        (if (a, m) = (dir, name) then is_dir i else \<exists>c. dentries s (a, m) = Some c \<and> is_dir_at s c)" for m
      using noname [of "(a, m)"] unfolding dir by (cases "(a, m) = (dir, name)") (auto simp: linked_def)
    then show ?thesis using new(2) unfolding subdirs_def by auto
  qed
  have ent: "entries ?s a = (if a = b then {(dir, name)} else entries s a)" for a using noname new(2) by (auto simp: entries_def linked_def)
  have b: "subdirs s b = {}" using noent by (auto simp: subdirs_def)
  have nm: "name \<notin> subdirs s dir" using new(2) by (simp add: subdirs_def)
  have "links_ok ?s a j" if j: "inodes ?s a = Some j" for a j
  proof -
    consider "a = b" "j = i" | "a = dir" "j = d'" "a \<noteq> b" | "a \<noteq> b" "a \<noteq> dir" "inodes s a = Some j"
      using j bd by (auto simp: linked_def split: if_splits)
    then show ?thesis
    proof cases
      case 1
      then show ?thesis using n b bd by (simp add: links_ok_def sub ent)
    next
      case 2
      have "links_ok s dir d" using tree_okD(6) [OF ok d(1)] .
      moreover have "i_nlink d' = i_nlink d + of_bool (is_dir i)" by (simp add: d')
      ultimately show ?thesis using 2 dd(1) d(2) subdirs_finite [OF ok, of dir] nm unfolding links_ok_def sub ent by simp
    next
      case 3
      then show ?thesis using tree_okD(6) [OF ok 3(3)] unfolding links_ok_def sub ent by auto
    qed
  qed
  moreover have "iops_typed j" if "inodes ?s a = Some j" for a j
    using that typed dd(2) tree_okD(5) [OF ok, of a j] by (auto simp: linked_def split: if_splits)
  moreover have "is_dir_at ?s e \<and> inodes ?s a \<noteq> None" if "dentries ?s (e, m) = Some a" for e m a
  proof (cases "(e, m) = (dir, name)")
    case True
    then show ?thesis using that bd d dd by (simp add: is_dir_at_def linked_def)
  next
    case False
    then have "dentries s (e, m) = Some a" using that by (simp add: linked_def split: if_splits)
    then show ?thesis using tree_okD(3,4) [OF ok, of e m a] noent [of m] by (auto simp: dir) (auto simp: linked_def)
  qed
  ultimately show ?thesis using tree_okD(1,2) [OF ok] unfolding tree_ok_def by (intro conjI allI impI) (simp_all add: linked_def)
qed

section \<open>Operations keep trees well-formed\<close>

text \<open>What the VFS guarantees: a new inode number is unused, and \<open>inode_init_owner\<close> keeps the file type.\<close>

definition inode_env_ok :: "inode_env \<Rightarrow> ramfs_tree \<Rightarrow> bool" where
  "inode_env_ok E s \<longleftrightarrow> (\<forall>a. ie_new E = Some a \<longrightarrow> inodes s a = None) \<and> (\<forall>d m. ie_owner E d m AND S_IFMT = m AND S_IFMT)"

text \<open>The directory exists and does not have the name yet.\<close>

definition can_link :: "ramfs_tree \<Rightarrow> nat \<Rightarrow> string \<Rightarrow> bool" where
  "can_link s dir name \<longleftrightarrow> is_dir_at s dir \<and> dentries s (dir, name) = None"

text \<open>The new inode: typed, but for the target of a symbolic link, and with the link count of its kind.\<close>

lemma setup_inode_props:
  assumes "\<And>dm m. ie_owner E dm m AND S_IFMT = m AND S_IFMT" and "i = setup_inode E dm mode dev"
  shows "i_mode i AND S_IFMT = mode AND S_IFMT" "i_nlink i = (if is_dir i then 2 else 1)"
    "if mode AND S_IFMT = S_IFLNK then iops_typed (i\<lparr>i_target := Some x\<rparr>) else iops_typed i"
  using assms by (simp_all add: setup_inode_def Let_def is_dir_def iops_typed_def)

lemma get_inode_eff:
  assumes "inode_env_ok E s" "ramfs_get_inode E d mode dev s = (r, s')"
  obtains (none) "r = None" "s' = s"
  | (new) a i where "r = Some a" "inodes s a = None" "s' = s\<lparr>inodes := (inodes s)(a \<mapsto> i)\<rparr>" "i_mode i AND S_IFMT = mode AND S_IFMT"
      "i_nlink i = (if is_dir i then 2 else 1)" "if mode AND S_IFMT = S_IFLNK then iops_typed (i\<lparr>i_target := Some x\<rparr>) else iops_typed i"
proof (cases "ie_new E")
  case None
  then show thesis using assms(2) none by (simp add: ramfs_get_inode_def)
next
  case (Some a)
  have m: "ie_owner E dm m AND S_IFMT = m AND S_IFMT" for dm m using assms(1) by (simp add: inode_env_ok_def)
  obtain i dm where i: "i = setup_inode E dm mode dev" "r = Some a" "s' = s\<lparr>inodes := (inodes s)(a \<mapsto> i)\<rparr>"
    using assms(2) Some by (auto simp: ramfs_get_inode_def Let_def)
  have "inodes s a = None" using assms(1) Some by (simp add: inode_env_ok_def)
  then show thesis using new [of a i] i setup_inode_props [OF m i(1)] by blast
qed

lemma is_dir_atE: "is_dir_at s a \<Longrightarrow> \<exists>d. inodes s a = Some d \<and> is_dir d"
  by (simp add: is_dir_at_def split: option.splits)

lemma link_entry_linked:
  assumes "inodes s dir = Some d" "dir \<noteq> b"
  shows "link_entry E dir name b (s\<lparr>inodes := (inodes s)(b \<mapsto> i)\<rparr>) = linked dir name b i (d\<lparr>i_mtime := ie_now E\<rparr>) s"
  using assms by (cases s) (simp add: link_entry_def upd_inode_def linked_def fun_upd_twist)

lemma mknod_eff:
  assumes ok: "tree_ok s" and E: "inode_env_ok E s" and can: "can_link s dir name" and run: "ramfs_mknod E dir name mode dev s = (r, s')"
    and fmt: "mode AND S_IFMT \<noteq> S_IFLNK"
  shows "(r = - ENOSPC \<and> s' = s) \<or>
    (\<exists>a i d. r = 0 \<and> inodes s a = None \<and> inodes s dir = Some d \<and> is_dir d \<and> s' = linked dir name a i (d\<lparr>i_mtime := ie_now E\<rparr>) s \<and>
       iops_typed i \<and> i_mode i AND S_IFMT = mode AND S_IFMT \<and> i_nlink i = (if is_dir i then 2 else 1))"
proof -
  obtain q s1 where g: "ramfs_get_inode E (Some dir) mode dev s = (q, s1)" by fastforce
  obtain d where d: "inodes s dir = Some d" "is_dir d" using can is_dir_atE by (auto simp: can_link_def)
  show ?thesis
  proof (rule get_inode_eff [OF E g, where x = "[]"])
    fix a i assume i: "q = Some a" "inodes s a = None" "s1 = s\<lparr>inodes := (inodes s)(a \<mapsto> i)\<rparr>" "i_mode i AND S_IFMT = mode AND S_IFMT"
      "i_nlink i = (if is_dir i then 2 else 1)" "if mode AND S_IFMT = S_IFLNK then iops_typed (i\<lparr>i_target := Some []\<rparr>) else iops_typed i"
    have ne: "dir \<noteq> a" using d i(2) by auto
    have "r = 0" "s' = linked dir name a i (d\<lparr>i_mtime := ie_now E\<rparr>) s"
      using run g i(1,3) link_entry_linked [OF d(1) ne] by (simp_all add: ramfs_mknod_def)
    moreover have "iops_typed i" using i(6) fmt by simp
    ultimately show ?thesis using i(2,4,5) d by blast
  qed (use run g in \<open>simp add: ramfs_mknod_def\<close>)
qed

lemma mknod_ok:
  assumes "tree_ok s" "inode_env_ok E s" "can_link s dir name" "ramfs_mknod E dir name mode dev s = (r, s')"
    "mode AND S_IFMT \<noteq> S_IFLNK" "mode AND S_IFMT \<noteq> S_IFDIR"
  shows "tree_ok s'"
  using mknod_eff [OF assms(1-5)]
proof (elim disjE exE conjE)
  fix a i d assume i: "inodes s a = None" "inodes s dir = Some d" "is_dir d" "s' = linked dir name a i (d\<lparr>i_mtime := ie_now E\<rparr>) s"
    "iops_typed i" "i_mode i AND S_IFMT = mode AND S_IFMT" "i_nlink i = (if is_dir i then 2 else 1)"
  have nd: "\<not> is_dir i" using i(6) assms(6) by (simp add: is_dir_def)
  show ?thesis unfolding i(4)
    by (rule tree_ok_link [OF assms(1) i(1) _ i(5,7,2,3)]) (use assms(3) nd in \<open>simp_all add: can_link_def\<close>)
qed (use assms in simp)

lemma mkdir_ok:
  assumes ok: "tree_ok s" and E: "inode_env_ok E s" and can: "can_link s dir name" and run: "ramfs_mkdir E dir name mode s = (r, s')"
    and fmt: "mode AND S_IFMT = 0"
  shows "tree_ok s'"
proof -
  obtain q s1 where g: "ramfs_mknod E dir name (mode OR S_IFDIR) 0 s = (q, s1)" by fastforce
  have f: "(mode OR S_IFDIR) AND S_IFMT = S_IFDIR" using fmt by (simp add: bit.conj_disj_distrib2)
  then have "(mode OR S_IFDIR) AND S_IFMT \<noteq> S_IFLNK" by simp
  from mknod_eff [OF ok E can g this] show ?thesis
  proof (elim disjE exE conjE)
    fix a i d assume i: "q = 0" "inodes s a = None" "inodes s dir = Some d" "is_dir d" "s1 = linked dir name a i (d\<lparr>i_mtime := ie_now E\<rparr>) s"
      "iops_typed i" "i_mode i AND S_IFMT = (mode OR S_IFDIR) AND S_IFMT" "i_nlink i = (if is_dir i then 2 else 1)"
    have di: "is_dir i" using i(7) f by (simp add: is_dir_def)
    have ne: "dir \<noteq> a" using i by auto
    have s': "s' = linked dir name a i (d\<lparr>i_mtime := ie_now E, i_nlink := i_nlink d + 1\<rparr>) s"
      using run g i(1,5) ne by (cases s) (simp add: ramfs_mkdir_def upd_inode_def linked_def)
    show ?thesis unfolding s'
      by (rule tree_ok_link [OF ok i(2) _ i(6) _ i(3,4)]) (use can di i(8) in \<open>simp_all add: can_link_def\<close>)
  qed (use run g ok in \<open>auto simp: ramfs_mkdir_def\<close>)
qed

lemma symlink_ok:
  assumes ok: "tree_ok s" and E: "inode_env_ok E s" and can: "can_link s dir name" and run: "ramfs_symlink E dir name symname s = (r, s')"
  shows "tree_ok s'"
proof -
  obtain q s1 where g: "ramfs_get_inode E (Some dir) (S_IFLNK OR S_IRWXUGO) 0 s = (q, s1)" by fastforce
  obtain d where d: "inodes s dir = Some d" "is_dir d" using can is_dir_atE by (auto simp: can_link_def)
  show ?thesis
  proof (rule get_inode_eff [OF E g, where x = symname])
    fix a i assume i: "q = Some a" "inodes s a = None" "s1 = s\<lparr>inodes := (inodes s)(a \<mapsto> i)\<rparr>"
      "i_mode i AND S_IFMT = (S_IFLNK OR S_IRWXUGO) AND S_IFMT" "i_nlink i = (if is_dir i then 2 else 1)"
      "if (S_IFLNK OR S_IRWXUGO) AND S_IFMT = S_IFLNK then iops_typed (i\<lparr>i_target := Some symname\<rparr>) else iops_typed i"
    let ?i = "i\<lparr>i_target := Some symname\<rparr>"
    have ne: "dir \<noteq> a" using d i(2) by auto
    have t: "iops_typed ?i" "\<not> is_dir ?i" "i_nlink ?i = 1" using i(4-6) by (simp_all add: is_dir_def)
    show ?thesis
    proof (cases "ie_page_symlink E = 0")
      case True
      have "upd_inode a (\<lambda>i. i\<lparr>i_target := Some symname\<rparr>) s1 = s\<lparr>inodes := (inodes s)(a \<mapsto> ?i)\<rparr>" using i(3) by (simp add: upd_inode_def)
      then have s': "s' = linked dir name a ?i (d\<lparr>i_mtime := ie_now E\<rparr>) s"
        using run g i(1) True link_entry_linked [OF d(1) ne] by (simp add: ramfs_symlink_def)
      show ?thesis unfolding s' by (rule tree_ok_link [OF ok i(2) _ t(1) _ d]) (use can t in \<open>simp_all add: can_link_def\<close>)
    next
      case False
      then have "s' = s" using run g i(1-3) by (cases s) (simp add: ramfs_symlink_def fun_upd_idem)
      then show ?thesis using ok by simp
    qed
  qed (use run g ok in \<open>simp add: ramfs_symlink_def\<close>)
qed

lemma tmpfile_ok:
  assumes ok: "tree_ok s" and E: "inode_env_ok E s" and run: "ramfs_tmpfile E dir mode s = (r, s')" and fmt: "mode AND S_IFMT = S_IFREG"
  shows "tree_ok s'"
proof -
  obtain q s1 where g: "ramfs_get_inode E (Some dir) mode 0 s = (q, s1)" by fastforce
  show ?thesis
  proof (rule get_inode_eff [OF E g, where x = "[]"])
    fix a i assume i: "q = Some a" "inodes s a = None" "s1 = s\<lparr>inodes := (inodes s)(a \<mapsto> i)\<rparr>" "i_mode i AND S_IFMT = mode AND S_IFMT"
      "i_nlink i = (if is_dir i then 2 else 1)" "if mode AND S_IFMT = S_IFLNK then iops_typed (i\<lparr>i_target := Some []\<rparr>) else iops_typed i"
    let ?i = "i\<lparr>i_nlink := i_nlink i - 1\<rparr>"
    have t: "iops_typed ?i" "\<not> is_dir ?i" "i_nlink ?i = 0" using i(4-6) fmt by (simp_all add: is_dir_def iops_typed_def)
    have "s' = s\<lparr>inodes := (inodes s)(a \<mapsto> ?i)\<rparr>" using run g i(1,3) by (simp add: ramfs_tmpfile_def upd_inode_def)
    then show ?thesis using tree_ok_new [OF ok i(2) t(1)] t by simp
  qed (use run g ok in \<open>simp add: ramfs_tmpfile_def\<close>)
qed

section \<open>Histories\<close>

text \<open>
  The operations of a mounted instance as the VFS calls them: with the file types it allows for each.
\<close>

inductive ramfs_step :: "ramfs_tree \<Rightarrow> ramfs_tree \<Rightarrow> bool" where
  mknod: "inode_env_ok E s \<Longrightarrow> can_link s dir name \<Longrightarrow> mode AND S_IFMT \<noteq> S_IFLNK \<Longrightarrow> mode AND S_IFMT \<noteq> S_IFDIR \<Longrightarrow>
    ramfs_step s (snd (ramfs_mknod E dir name mode dev s))"
| mkdir: "inode_env_ok E s \<Longrightarrow> can_link s dir name \<Longrightarrow> mode AND S_IFMT = 0 \<Longrightarrow> ramfs_step s (snd (ramfs_mkdir E dir name mode s))"
| create: "inode_env_ok E s \<Longrightarrow> can_link s dir name \<Longrightarrow> mode AND S_IFMT = 0 \<or> mode AND S_IFMT = S_IFREG \<Longrightarrow>
    ramfs_step s (snd (ramfs_create E dir name mode s))"
| symlink: "inode_env_ok E s \<Longrightarrow> can_link s dir name \<Longrightarrow> ramfs_step s (snd (ramfs_symlink E dir name symname s))"
| tmpfile: "inode_env_ok E s \<Longrightarrow> is_dir_at s dir \<Longrightarrow> mode AND S_IFMT = S_IFREG \<Longrightarrow> ramfs_step s (snd (ramfs_tmpfile E dir mode s))"

lemma create_fmt: "mode AND S_IFMT = 0 \<or> mode AND S_IFMT = S_IFREG \<Longrightarrow> (mode OR S_IFREG) AND S_IFMT = S_IFREG"
  by (auto simp: bit.conj_disj_distrib2)

lemma ramfs_step_ok:
  assumes "tree_ok s" "ramfs_step s s'"
  shows "tree_ok s'"
  using assms(2)
proof cases
  case (create E dir name mode)
  have "(mode OR S_IFREG) AND S_IFMT = S_IFREG" using create_fmt [OF create(4)] .
  then show ?thesis using mknod_ok [OF assms(1) create(2,3) prod.collapse [symmetric]] create(1) by (simp add: ramfs_create_def)
next
  case (mknod E dir name mode dev)
  then show ?thesis using mknod_ok [OF assms(1) mknod(2,3) prod.collapse [symmetric] mknod(4,5)] by simp
next
  case (mkdir E dir name mode)
  then show ?thesis using mkdir_ok [OF assms(1) mkdir(2,3) prod.collapse [symmetric] mkdir(4)] by simp
next
  case (symlink E dir name symname)
  then show ?thesis using symlink_ok [OF assms(1) symlink(2,3) prod.collapse [symmetric]] by simp
next
  case (tmpfile E dir mode)
  then show ?thesis using tmpfile_ok [OF assms(1) tmpfile(2) prod.collapse [symmetric] tmpfile(4)] by simp
qed

text \<open>No operation changes the type of an inode that is there.\<close>

definition modes :: "ramfs_tree \<Rightarrow> nat \<rightharpoonup> u16" where
  "modes s a = map_option i_mode (inodes s a)"

lemma is_dir_at_modes: "is_dir_at s a \<longleftrightarrow> (\<exists>m. modes s a = Some m \<and> m AND S_IFMT = S_IFDIR)"
  by (simp add: is_dir_at_def modes_def is_dir_def split: option.splits)

lemma modes_upd [simp]: "(\<And>i. i_mode (f i) = i_mode i) \<Longrightarrow> modes (upd_inode b f s) = modes s"
  by (rule ext) (simp add: modes_def upd_inode_def option.map_comp comp_def)

lemma modes_link [simp]: "modes (link_entry E dir name b s) = modes s"
proof -
  have "modes (s\<lparr>dentries := x, pinned := y\<rparr>) = modes s" for x y by (rule ext) (simp add: modes_def)
  then show ?thesis by (simp add: link_entry_def)
qed

lemma map_leD: "m \<subseteq>\<^sub>m m' \<Longrightarrow> m a = Some x \<Longrightarrow> m' a = Some x"
  by (auto simp: map_le_def dom_def)

lemma get_inode_modes:
  assumes "inode_env_ok E s"
  shows "modes s \<subseteq>\<^sub>m modes (snd (ramfs_get_inode E d mode dev s))" "ie_new E = Some b \<Longrightarrow> modes s b = None"
  using assms by (auto simp: ramfs_get_inode_def map_le_def modes_def inode_env_ok_def split: option.splits)

lemma mknod_modes: "inode_env_ok E s \<Longrightarrow> modes s \<subseteq>\<^sub>m modes (snd (ramfs_mknod E dir name mode dev s))"
  using get_inode_modes(1) [of E s "Some dir" mode dev] by (auto simp: ramfs_mknod_def split: prod.splits option.splits)

lemma ramfs_step_modes:
  assumes "ramfs_step s s'"
  shows "modes s \<subseteq>\<^sub>m modes s'"
  using assms
proof cases
  case (mkdir E dir name mode)
  then show ?thesis using mknod_modes [OF mkdir(2), of dir name "mode OR S_IFDIR" 0] by (simp add: ramfs_mkdir_def case_prod_unfold Let_def)
next
  case (symlink E dir name symname)
  have g: "modes s \<subseteq>\<^sub>m modes (snd (ramfs_get_inode E (Some dir) (S_IFLNK OR S_IRWXUGO) 0 s))" using get_inode_modes(1) [OF symlink(2)] .
  have new: "modes s \<subseteq>\<^sub>m modes (t\<lparr>inodes := (inodes t)(b := None)\<rparr>)" if "modes s \<subseteq>\<^sub>m modes t" "modes s b = None" for t b
    using that by (auto simp: map_le_def modes_def)
  show ?thesis
  proof (cases "ie_new E")
    case None
    then show ?thesis using symlink(1) by (simp add: ramfs_symlink_def ramfs_get_inode_def)
  next
    case (Some b)
    then have "fst (ramfs_get_inode E (Some dir) (S_IFLNK OR S_IRWXUGO) 0 s) = Some b" by (simp add: ramfs_get_inode_def Let_def)
    then show ?thesis using symlink(1) g new [OF g get_inode_modes(2) [OF symlink(2) Some]]
      by (auto simp: ramfs_symlink_def split: prod.splits option.splits)
  qed
next
  case (tmpfile E dir mode)
  then show ?thesis using get_inode_modes(1) [OF tmpfile(2), of "Some dir" mode 0]
    by (auto simp: ramfs_tmpfile_def split: prod.splits option.splits)
qed (simp_all add: mknod_modes ramfs_create_def)

text \<open>The tree of a new mount.\<close>

definition mounted :: "nat \<Rightarrow> ramfs_tree \<Rightarrow> bool" where
  "mounted root s \<longleftrightarrow> (\<exists>E fsi sb. ramfs_fill_super E fsi = Inr sb \<and> (\<forall>d m. ie_owner E d m AND S_IFMT = m AND S_IFMT) \<and> fsi AND S_IFMT = 0 \<and>
     s = s_tree sb \<and> root = s_root sb)"

lemma mounted_ok:
  assumes "mounted r s"
  shows "tree_ok s \<and> is_dir_at s r"
proof -
  let ?e = "\<lparr>inodes = (\<lambda>_. None), dentries = (\<lambda>_. None), pinned = {}\<rparr>"
  obtain E fsi sb where m: "ramfs_fill_super E fsi = Inr sb" "\<forall>d m. ie_owner E d m AND S_IFMT = m AND S_IFMT" "fsi AND S_IFMT = 0" "s = s_tree sb" "r = s_root sb"
    using assms unfolding mounted_def by blast
  have ok: "tree_ok ?e" by (simp add: tree_ok_def)
  have E: "inode_env_ok E ?e" using m(2) by (simp add: inode_env_ok_def)
  have f: "(S_IFDIR OR fsi) AND S_IFMT = S_IFDIR" using m(3) by (simp add: bit.conj_disj_distrib2)
  obtain q t where g: "ramfs_get_inode E None (S_IFDIR OR fsi) 0 ?e = (q, t)" by fastforce
  show ?thesis
  proof (rule get_inode_eff [OF E g, where x = "[]"])
    assume "q = None"
    then show ?thesis using m(1) g by (simp add: ramfs_fill_super_def)
  next
    fix a i assume i: "q = Some a" "inodes ?e a = None" "t = ?e\<lparr>inodes := (inodes ?e)(a \<mapsto> i)\<rparr>" "i_mode i AND S_IFMT = (S_IFDIR OR fsi) AND S_IFMT"
      "i_nlink i = (if is_dir i then 2 else 1)" "if (S_IFDIR OR fsi) AND S_IFMT = S_IFLNK then iops_typed (i\<lparr>i_target := Some []\<rparr>) else iops_typed i"
    have d: "is_dir i" "iops_typed i" using i(4,6) f by (simp_all add: is_dir_def)
    have "s = t" "r = a" using m(1,4,5) g i(1) by (auto simp: ramfs_fill_super_def split: if_splits)
    moreover have "tree_ok t" unfolding i(3) by (rule tree_ok_new [OF ok i(2) d(2)]) (use i(5) d(1) in simp)
    ultimately show ?thesis using i(3) d(1) by (simp add: is_dir_at_def)
  qed
qed

interpretation rfs: transition_system "mounted root" ramfs_step "\<lambda>s. tree_ok s \<and> is_dir_at s root"
proof
  show "mounted root s \<Longrightarrow> tree_ok s \<and> is_dir_at s root" for s by (rule mounted_ok)
  show "tree_ok s \<and> is_dir_at s root \<Longrightarrow> ramfs_step s s' \<Longrightarrow> tree_ok s' \<and> is_dir_at s' root" for s s'
  proof -
    assume a: "tree_ok s \<and> is_dir_at s root" and st: "ramfs_step s s'"
    have "modes s \<subseteq>\<^sub>m modes s'" using ramfs_step_modes [OF st] .
    then have "is_dir_at s' root" using a unfolding is_dir_at_modes by (blast dest: map_leD)
    then show ?thesis using a ramfs_step_ok [OF _ st] by blast
  qed
qed

text \<open>
  C20: trees of ramfs are well typed. After a mount and any sequence of \<open>mknod\<close>, \<open>mkdir\<close>, \<open>create\<close>, \<open>symlink\<close> and
  \<open>tmpfile\<close>, each succeeding or failing, every inode has the operation tables of the file type in its mode
  (symbolic links have a target), entries lie in directories, name existing inodes and are pinned, the
  link count of a directory is 2 plus the number of its subdirectories and that of any other inode the
  number of its names, and the root is still a directory.\<close>

theorem ramfs_types:
  assumes "mounted root s" and "ramfs_step\<^sup>*\<^sup>* s s'"
  shows "is_dir_at s' root \<and> pinned s' = dom (dentries s') \<and>
    (\<forall>d n a. dentries s' (d, n) = Some a \<longrightarrow> is_dir_at s' d \<and> inodes s' a \<noteq> None) \<and>
    (\<forall>a i. inodes s' a = Some i \<longrightarrow> iops_typed i \<and>
      i_nlink i = (if is_dir i then 2 + card {n. \<exists>c. dentries s' (a, n) = Some c \<and> is_dir_at s' c} else card {e. dentries s' e = Some a}))"
  using rfs.reachable_inv [OF assms] by (simp add: tree_ok_def links_ok_def subdirs_def entries_def)

text \<open>Witness: a mount in which a directory is created and in it a file.\<close>

definition example_inode_env :: "nat \<Rightarrow> inode_env" where
  "example_inode_env a = \<lparr>ie_new = Some a, ie_owner = (\<lambda>d m. m), ie_now = 0, ie_page_symlink = 0, ie_root_dentry = True\<rparr>"

definition example_super :: ramfs_super where
  "example_super = projr (ramfs_fill_super (example_inode_env 1) RAMFS_DEFAULT_MODE)"

lemma example_mounted: "mounted 1 (s_tree example_super)"
  unfolding mounted_def
  by (intro exI [of _ "example_inode_env 1"] exI [of _ RAMFS_DEFAULT_MODE] exI [of _ example_super])
    (simp add: example_super_def ramfs_fill_super_def ramfs_get_inode_def example_inode_env_def)

theorem ramfs_types_witness:
  "\<exists>s i j. ramfs_step\<^sup>*\<^sup>* (s_tree example_super) s \<and> inodes s 2 = Some i \<and> inodes s 3 = Some j \<and> dentries s (2, ''f'') = Some 3 \<and>
     iops_typed i \<and> iops_typed j \<and> i_nlink i = 2 + card {n. \<exists>c. dentries s (2, n) = Some c \<and> is_dir_at s c} \<and> i_fop j = ramfs_file_operations"
proof -
  let ?s0 = "s_tree example_super"
  define s1 where "s1 = snd (ramfs_mkdir (example_inode_env 2) 1 ''d'' 0x1ED ?s0)"
  define s2 where "s2 = snd (ramfs_create (example_inode_env 3) 2 ''f'' 0x1A4 s1)"
  note ev = s1_def ramfs_mkdir_def ramfs_mknod_def ramfs_get_inode_def setup_inode_def link_entry_def upd_inode_def example_inode_env_def
    example_super_def ramfs_fill_super_def Let_def
  have e1: "inodes s1 3 = None" "is_dir_at s1 2" "dentries s1 (2, ''f'') = None" by (simp_all add: ev is_dir_at_def is_dir_def)
  have st1: "ramfs_step ?s0 s1" unfolding s1_def
    by (rule mkdir) (simp_all add: inode_env_ok_def can_link_def is_dir_at_def is_dir_def ev)
  have st2: "ramfs_step s1 s2" unfolding s2_def
    by (rule create) (use e1 in \<open>simp_all add: inode_env_ok_def can_link_def example_inode_env_def\<close>)
  have run: "ramfs_step\<^sup>*\<^sup>* ?s0 s2" using st1 st2 by (rule converse_rtranclp_into_rtranclp [OF _ r_into_rtranclp])
  have "\<exists>i j. inodes s2 2 = Some i \<and> is_dir i \<and> inodes s2 3 = Some j \<and> dentries s2 (2, ''f'') = Some 3 \<and> i_fop j = ramfs_file_operations"
    by (simp add: s2_def ramfs_create_def ev is_dir_def)
  then show ?thesis using run ramfs_types [OF example_mounted run] by auto
qed

lemma mode_mask: "unat (ucast (v AND 4095 :: u32) :: u16) = unat v mod 4096"
proof -
  have "v AND 4095 = take_bit 12 v" by (simp add: take_bit_eq_mask mask_eq_exp_minus_1)
  moreover have "unat v mod 4096 < 65536" using mod_less_divisor [of 4096 "unat v"] by linarith
  ultimately show ?thesis by (simp add: unsigned_ucast_eq take_bit_eq_mod unat_mod)
qed

lemma parse_mode: "ramfs_parse_param (Inr v) m0 = (0, ucast (v AND 4095 :: u32))"
  by (simp add: ramfs_parse_param_def)

text \<open>
  The mode of a mount. The option \<open>mode\<close> sets the permission bits, and only them, of the context and of the root
  directory of the mount, whose default is 0755; unknown options are ignored and other errors returned without
  a change; and mounting again with the option that \<open>show_options\<close> prints gives the same mode.\<close>

theorem ramfs_mount_mode:
  assumes "\<And>m. ie_owner E None m = m" and "ie_new E = Some root" and "ie_root_dentry E"
  shows "let (e, m) = ramfs_parse_param (Inr v) m0; sb = projr (ramfs_fill_super E m) in
      e = 0 \<and> unat m = unat v mod 4096 \<and> s_root sb = root \<and>
      map_option i_mode (inodes (s_tree sb) root) = Some (S_IFDIR OR m) \<and> map_option i_nlink (inodes (s_tree sb) root) = Some 2 \<and>
      (if m = RAMFS_DEFAULT_MODE then ramfs_show_options m = [] \<and> ramfs_init_fs_context True = Inr m
       else \<exists>ds. ramfs_show_options m = '',mode='' @ ds \<and> ramfs_parse_param (Inr (of_nat (oct_value ds))) RAMFS_DEFAULT_MODE = (0, m)) \<and>
      (\<forall>err. ramfs_parse_param (Inl err) m0 = (if err = - ENOPARAM then 0 else err, m0))"
proof -
  define m where "m = (ucast (v AND 4095 :: u32) :: u16)"
  have m: "unat m = unat v mod 4096" using mode_mask [of v] by (simp add: m_def)
  have lt: "unat m < 4096" using m by simp
  have "(S_IFDIR OR m) AND S_IFMT = S_IFDIR"
  proof -
    have "take_bit 12 m = m" using lt by (simp add: take_bit_eq_mod word_unat_eq_iff unat_mod)
    then have "m AND S_IFMT = take_bit 12 m AND S_IFMT" by simp
    also have "\<dots> = m AND (mask 12 AND S_IFMT)" by (simp only: take_bit_eq_mask and.assoc)
    also have "\<dots> = 0" by (simp add: mask_eq_exp_minus_1)
    finally show ?thesis by (simp add: bit.conj_disj_distrib2)
  qed
  then have sb: "ramfs_fill_super E m = Inr \<lparr>s_mode = m, s_blocksize = 4096, s_blocksize_bits = 12, s_magic = 0x858458f6, s_time_gran = 1,
      s_tree = \<lparr>inodes = [root \<mapsto> setup_inode E None (S_IFDIR OR m) 0], dentries = (\<lambda>_. None), pinned = {}\<rparr>, s_root = root\<rparr>"
    "i_mode (setup_inode E None (S_IFDIR OR m) 0) = S_IFDIR OR m" "i_nlink (setup_inode E None (S_IFDIR OR m) 0) = 2"
    using assms by (simp_all add: ramfs_fill_super_def ramfs_get_inode_def setup_inode_def Let_def)
  have "unat (of_nat (unat m) :: u32) = unat m" using lt by (simp add: unsigned_ucast_eq take_bit_nat_eq_self)
  then have "unat (ucast ((of_nat (unat m) :: u32) AND 4095) :: u16) = unat m" using lt by (simp add: mode_mask)
  then have again: "ucast ((of_nat (unat m) :: u32) AND 4095) = m" by (rule word_unat_eq_iff [THEN iffD2])
  have show_opt: "if m = RAMFS_DEFAULT_MODE then ramfs_show_options m = [] \<and> ramfs_init_fs_context True = Inr m
       else \<exists>ds. ramfs_show_options m = '',mode='' @ ds \<and> ramfs_parse_param (Inr (of_nat (oct_value ds))) RAMFS_DEFAULT_MODE = (0, m)"
    using again by (auto simp: ramfs_show_options_def ramfs_init_fs_context_def oct_value_digits parse_mode)
  have err: "\<forall>err. ramfs_parse_param (Inl err) m0 = (if err = - ENOPARAM then 0 else err, m0)" by (simp add: ramfs_parse_param_def)
  show ?thesis unfolding parse_mode [of v] m_def [symmetric] Let_def case_prod_conv
    by (intro conjI; (fact show_opt err | simp add: m sb))
qed

text \<open>Witness: \<open>mode=1700\<close>.\<close>

theorem ramfs_mount_mode_witness:
  "ramfs_parse_param (Inr 0x3C0) RAMFS_DEFAULT_MODE = (0, 0x3C0) \<and> ramfs_show_options 0x3C0 = '',mode=1700'' \<and>
   map_option i_mode (inodes (s_tree (projr (ramfs_fill_super (example_inode_env 1) 0x3C0))) 1) = Some 0x43C0"
proof -
  have p: "ramfs_parse_param (Inr 0x3C0) RAMFS_DEFAULT_MODE = (0, 0x3C0)" by (simp add: ramfs_parse_param_def)
  have s: "ramfs_show_options 0x3C0 = '',mode=1700''" by code_simp
  from ramfs_mount_mode [of "example_inode_env 1" 1 "0x3C0" RAMFS_DEFAULT_MODE] show ?thesis
    using p s by (simp add: example_inode_env_def Let_def)
qed

end
