(* ===== verification/Ramfs_Mount.thy ===== *)
theory Ramfs_Mount
  imports Ramfs_Inode
begin

text \<open>
  The life of a mount of ramfs: the context in which its option is collected, the superblock, and the one
  \<open>ramfs_fs_info\<close> that the context hands over to the superblock (the functions of \<open>ramfs_context_ops\<close> and
  \<open>ramfs_fs_type\<close> in fs/ramfs/inode.c).
\<close>

section \<open>Objects\<close>

text \<open>
  The virtual file system calls \<open>parse_param\<close> and \<open>get_tree\<close> only while the context collects parameters, and \<open>free\<close>
  in any phase.
\<close>

datatype fc_phase = FS_CONTEXT_CREATE_PARAMS | FS_CONTEXT_AWAITING_MOUNT | FS_CONTEXT_FAILED

record fs_context =
  fc_info :: addr
  fc_phase :: fc_phase

record super_block =
  sb_info :: addr
  sb_super :: "ramfs_super option"

record mount_sys =
  infos :: "addr \<rightharpoonup> u16"
  contexts :: "nat \<rightharpoonup> fs_context"
  supers :: "nat \<rightharpoonup> super_block"

definition kfree_info :: "addr \<Rightarrow> mount_sys \<Rightarrow> mount_sys kres" where
  "kfree_info a s =
    (if a = NULL then Inr s else if infos s a = None then Inl (BadAddr a) else Inr (s\<lparr>infos := (infos s)(a := None)\<rparr>))"

definition read_info :: "addr \<Rightarrow> mount_sys \<Rightarrow> u16 kres" where
  "read_info a s =
    (if a = NULL then Inl NullDeref else case infos s a of None \<Rightarrow> Inl (BadAddr a) | Some m \<Rightarrow> Inr m)"

definition fc_of :: "nat \<Rightarrow> mount_sys \<Rightarrow> fs_context kres" where
  "fc_of fc s = (case contexts s fc of None \<Rightarrow> Inl (BadAddr fc) | Some c \<Rightarrow> Inr c)"

definition sb_of :: "nat \<Rightarrow> mount_sys \<Rightarrow> super_block kres" where
  "sb_of sb s = (case supers s sb of None \<Rightarrow> Inl (BadAddr sb) | Some b \<Rightarrow> Inr b)"

section \<open>Operations\<close>

text \<open>\<open>kz\<close> is the address that \<open>kzalloc\<close> returns, if there is memory.\<close>

definition init_fs_context :: "addr option \<Rightarrow> nat \<Rightarrow> mount_sys \<Rightarrow> int \<times> mount_sys" where
  "init_fs_context kz fc s =
    (case (kz, ramfs_init_fs_context (kz \<noteq> None)) of
       (Some a, Inr mode) \<Rightarrow>
         (0, s\<lparr>infos := (infos s)(a \<mapsto> mode),
               contexts := (contexts s)(fc \<mapsto> \<lparr>fc_info = a, fc_phase = FS_CONTEXT_CREATE_PARAMS\<rparr>)\<rparr>)
     | (_, Inl e) \<Rightarrow> (e, s) | (None, _) \<Rightarrow> (0, s))"

text \<open>The structure is written only when the option was recognised.\<close>

definition parse_param :: "int + u32 \<Rightarrow> nat \<Rightarrow> mount_sys \<Rightarrow> (int \<times> mount_sys) kres" where
  "parse_param parsed fc s =
    rbind (fc_of fc s) (\<lambda>c.
      case parsed of
        Inl opt \<Rightarrow> Inr (fst (ramfs_parse_param parsed 0), s)
      | Inr v \<Rightarrow> rbind (read_info (fc_info c) s) (\<lambda>fsi.
          let (r, fsi) = ramfs_parse_param parsed fsi in Inr (r, s\<lparr>infos := (infos s)(fc_info c \<mapsto> fsi)\<rparr>)))"

definition fill_super :: "inode_env \<Rightarrow> nat \<Rightarrow> mount_sys \<Rightarrow> (int \<times> mount_sys) kres" where
  "fill_super E sb s =
    rbind (sb_of sb s) (\<lambda>b. rbind (read_info (sb_info b) s) (\<lambda>fsi.
      case ramfs_fill_super E fsi of
        Inl e \<Rightarrow> Inr (e, s)
      | Inr sbk \<Rightarrow> Inr (0, s\<lparr>supers := (supers s)(sb \<mapsto> b\<lparr>sb_super := Some sbk\<rparr>)\<rparr>)))"

text \<open>\<open>kill_litter_super\<close> ends the superblock.\<close>

definition ramfs_kill_sb :: "nat \<Rightarrow> mount_sys \<Rightarrow> mount_sys kres" where
  "ramfs_kill_sb sb s =
    rbind (sb_of sb s) (\<lambda>b. rbind (kfree_info (sb_info b) s) (\<lambda>s. Inr (s\<lparr>supers := (supers s)(sb := None)\<rparr>)))"

definition show_options :: "nat \<Rightarrow> mount_sys \<Rightarrow> string kres" where
  "show_options sb s = rbind (sb_of sb s) (\<lambda>b. rbind (read_info (sb_info b) s) (\<lambda>fsi. Inr (ramfs_show_options fsi)))"

text \<open>The context itself goes with the call of its \<open>free\<close> operation.\<close>

definition ramfs_free_fc :: "nat \<Rightarrow> mount_sys \<Rightarrow> mount_sys kres" where
  "ramfs_free_fc fc s =
    rbind (fc_of fc s) (\<lambda>c. rbind (kfree_info (fc_info c) s) (\<lambda>s. Inr (s\<lparr>contexts := (contexts s)(fc := None)\<rparr>)))"

type_synonym fill_fn = "nat \<Rightarrow> mount_sys \<Rightarrow> (int \<times> mount_sys) kres"

definition ramfs_get_tree ::
  "(nat \<Rightarrow> fill_fn \<Rightarrow> mount_sys \<Rightarrow> (int \<times> mount_sys) kres) \<Rightarrow> inode_env \<Rightarrow> nat \<Rightarrow> mount_sys \<Rightarrow> (int \<times> mount_sys) kres" where
  "ramfs_get_tree get_tree_nodev E fc s = get_tree_nodev fc (fill_super E) s"

text \<open>
  What the virtual file system documents of \<open>get_tree_nodev\<close>: it fails without an effect, or it makes a new
  superblock that takes over the \<open>s_fs_info\<close> of the context, whose pointer it clears, calls the function that fills
  it, and on an error of that destroys the superblock through the file system's \<open>kill_sb\<close>.
\<close>

definition hand_over :: "nat \<Rightarrow> nat \<Rightarrow> mount_sys \<Rightarrow> mount_sys" where
  "hand_over fc sb s =
    (case contexts s fc of None \<Rightarrow> s
     | Some c \<Rightarrow> s\<lparr>contexts := (contexts s)(fc \<mapsto> c\<lparr>fc_info := NULL\<rparr>), supers := (supers s)(sb \<mapsto> \<lparr>sb_info = fc_info c, sb_super = None\<rparr>)\<rparr>)"

definition new_super :: "nat \<Rightarrow> nat \<Rightarrow> fill_fn \<Rightarrow> mount_sys \<Rightarrow> (int \<times> mount_sys) kres" where
  "new_super fc sb fill s =
    rbind (fill sb (hand_over fc sb s)) (\<lambda>(r, s).
      if r = 0 then Inr (0, s) else rbind (ramfs_kill_sb sb s) (\<lambda>s. Inr (r, s)))"

definition get_tree_ok :: "(nat \<Rightarrow> fill_fn \<Rightarrow> mount_sys \<Rightarrow> (int \<times> mount_sys) kres) \<Rightarrow> bool" where
  "get_tree_ok get_tree_nodev \<longleftrightarrow>
    (\<forall>fc fill s. (\<exists>e. e < 0 \<and> get_tree_nodev fc fill s = Inr (e, s)) \<or>
       (\<exists>sb. supers s sb = None \<and> get_tree_nodev fc fill s = new_super fc sb fill s))"

definition set_phase :: "nat \<Rightarrow> fc_phase \<Rightarrow> mount_sys \<Rightarrow> mount_sys" where
  "set_phase fc p s = s\<lparr>contexts := (contexts s)(fc := map_option (\<lambda>c. c\<lparr>fc_phase := p\<rparr>) (contexts s fc))\<rparr>"

text \<open>The history of mounts; a fault ends it.\<close>

inductive mount_step :: "(nat \<Rightarrow> fill_fn \<Rightarrow> mount_sys \<Rightarrow> (int \<times> mount_sys) kres) \<Rightarrow> mount_sys kres \<Rightarrow> mount_sys kres \<Rightarrow> bool" for gt where
  open_fc: "contexts s fc = None \<Longrightarrow> (\<And>a. kz = Some a \<Longrightarrow> a \<noteq> NULL \<and> infos s a = None) \<Longrightarrow>
     mount_step gt (Inr s) (Inr (snd (init_fs_context kz fc s)))"
| option: "contexts s fc = Some c \<Longrightarrow> fc_phase c = FS_CONTEXT_CREATE_PARAMS \<Longrightarrow>
     mount_step gt (Inr s) (rbind (parse_param parsed fc s) (\<lambda>(r, s). Inr s))"
| get_tree: "contexts s fc = Some c \<Longrightarrow> fc_phase c = FS_CONTEXT_CREATE_PARAMS \<Longrightarrow> (\<And>m. ie_owner E None m = m) \<Longrightarrow>
     mount_step gt (Inr s)
       (rbind (ramfs_get_tree gt E fc s) (\<lambda>(r, s). Inr (set_phase fc (if r = 0 then FS_CONTEXT_AWAITING_MOUNT else FS_CONTEXT_FAILED) s)))"
| close_fc: "contexts s fc = Some c \<Longrightarrow> mount_step gt (Inr s) (ramfs_free_fc fc s)"
| unmount: "supers s sb = Some b \<Longrightarrow> mount_step gt (Inr s) (ramfs_kill_sb sb s)"

section \<open>Ownership\<close>

text \<open>Who points to a structure: a context or a superblock.\<close>

fun owner :: "mount_sys \<Rightarrow> nat + nat \<Rightarrow> addr" where
  "owner s (Inl fc) = (case contexts s fc of None \<Rightarrow> NULL | Some c \<Rightarrow> fc_info c)"
| "owner s (Inr sb) = (case supers s sb of None \<Rightarrow> NULL | Some b \<Rightarrow> sb_info b)"

text \<open>Allocated structures and non-null pointers correspond one to one.\<close>

definition own_ok :: "(addr \<rightharpoonup> 'v) \<Rightarrow> ('o \<Rightarrow> addr) \<Rightarrow> bool" where
  "own_ok heap own \<longleftrightarrow> heap NULL = None \<and> (\<forall>x. own x \<noteq> NULL \<longrightarrow> own x \<in> dom heap) \<and>
     dom heap \<subseteq> range own \<and> inj_on own {x. own x \<noteq> NULL}"

lemma own_ok_unique: "own_ok heap own \<Longrightarrow> own x = own y \<Longrightarrow> own x \<noteq> NULL \<Longrightarrow> x = y"
  by (auto simp: own_ok_def inj_on_def)

lemma own_ok_ex1: "own_ok heap own \<Longrightarrow> heap a \<noteq> None \<Longrightarrow> \<exists>!x. own x = a"
proof -
  assume ok: "own_ok heap own" and a: "heap a \<noteq> None"
  then obtain x where x: "own x = a" unfolding own_ok_def by blast
  have "a \<noteq> NULL" using ok a by (metis own_ok_def)
  then show ?thesis
  proof (intro ex1I [of _ x])
    show "z = x" if "own z = a" for z using own_ok_unique [OF ok, of z x] that x \<open>a \<noteq> NULL\<close> by simp
  qed (rule x)
qed

lemma own_ok_set: "own_ok heap own \<Longrightarrow> heap a \<noteq> None \<Longrightarrow> own_ok (heap(a \<mapsto> v)) own"
proof -
  assume ok: "own_ok heap own" and a: "heap a \<noteq> None"
  have "dom (heap(a \<mapsto> v)) = dom heap" using a by auto
  moreover have "a \<noteq> NULL" using ok a by (metis own_ok_def)
  ultimately show ?thesis using ok by (simp add: own_ok_def)
qed

lemma own_ok_new:
  assumes ok: "own_ok heap own" and a: "heap a = None" "a \<noteq> NULL" and x: "own x = NULL"
  shows "own_ok (heap(a \<mapsto> v)) (own(x := a))"
proof -
  have "own y \<noteq> a" for y using ok a unfolding own_ok_def by (metis domIff)
  moreover have "dom heap \<subseteq> range (own(x := a))"
  proof
    fix b assume b: "b \<in> dom heap"
    then obtain y where y: "own y = b" using ok by (auto simp: own_ok_def)
    have "y \<noteq> x" using b ok x y by (auto simp: own_ok_def)
    then show "b \<in> range (own(x := a))" using y by (metis fun_upd_other rangeI)
  qed
  moreover have "a \<in> range (own(x := a))" by (metis fun_upd_same rangeI)
  ultimately show ?thesis using ok a by (auto simp: own_ok_def inj_on_def)
qed

lemma own_ok_move:
  assumes ok: "own_ok heap own" and y: "own y = NULL"
  shows "own_ok heap (own(x := NULL, y := own x))"
proof -
  let ?own = "own(x := NULL, y := own x)"
  have "dom heap \<subseteq> range ?own"
  proof
    fix b assume b: "b \<in> dom heap"
    then obtain z where z: "own z = b" using ok by (auto simp: own_ok_def)
    have "z \<noteq> y" using b ok y z by (auto simp: own_ok_def)
    then have "?own (if z = x then y else z) = b" using z by auto
    then show "b \<in> range ?own" by (metis rangeI)
  qed
  moreover have "inj_on ?own {z. ?own z \<noteq> NULL}"
    using ok y by (auto simp: own_ok_def inj_on_def split: if_splits)
  ultimately show ?thesis using ok by (auto simp: own_ok_def)
qed

lemma own_ok_free:
  assumes ok: "own_ok heap own"
  shows "own_ok (heap(own x := None)) (own(x := NULL))"
proof -
  have "dom (heap(own x := None)) \<subseteq> range (own(x := NULL))"
  proof
    fix b assume b: "b \<in> dom (heap(own x := None))"
    then obtain z where z: "own z = b" using ok by (auto simp: own_ok_def split: if_splits)
    have "z \<noteq> x" using b z by auto
    then show "b \<in> range (own(x := NULL))" using z by (metis fun_upd_other rangeI)
  qed
  moreover have "own y \<noteq> own x" if "y \<noteq> x" "own y \<noteq> NULL" for y using own_ok_unique [OF ok, of y x] that by metis
  ultimately show ?thesis using ok by (auto simp: own_ok_def inj_on_def)
qed

lemma own_ok_null: "own_ok heap own \<Longrightarrow> own x = NULL \<Longrightarrow> own_ok heap (own(x := NULL))"
  by (simp add: fun_upd_idem)

lemma owner_infos [simp]: "owner (s\<lparr>infos := h\<rparr>) = owner s"
proof
  show "owner (s\<lparr>infos := h\<rparr>) x = owner s x" for x by (cases x) simp_all
qed

lemma owner_contexts [simp]:
  "owner (s\<lparr>contexts := (contexts s)(fc := c)\<rparr>) = (owner s)(Inl fc := case c of None \<Rightarrow> NULL | Some c \<Rightarrow> fc_info c)"
proof
  show "owner (s\<lparr>contexts := (contexts s)(fc := c)\<rparr>) x = ((owner s)(Inl fc := case c of None \<Rightarrow> NULL | Some c \<Rightarrow> fc_info c)) x" for x
    by (cases x) simp_all
qed

lemma owner_supers [simp]:
  "owner (s\<lparr>supers := (supers s)(sb := b)\<rparr>) = (owner s)(Inr sb := case b of None \<Rightarrow> NULL | Some b \<Rightarrow> sb_info b)"
proof
  show "owner (s\<lparr>supers := (supers s)(sb := b)\<rparr>) x = ((owner s)(Inr sb := case b of None \<Rightarrow> NULL | Some b \<Rightarrow> sb_info b)) x" for x
    by (cases x) simp_all
qed

text \<open>A mounted superblock has its structure, and its root the mode in there.\<close>

definition sb_mounted :: "(addr \<rightharpoonup> u16) \<Rightarrow> super_block \<Rightarrow> bool" where
  "sb_mounted h b \<longleftrightarrow> sb_info b \<noteq> NULL \<and>
     (\<exists>sbk m. sb_super b = Some sbk \<and> h (sb_info b) = Some m \<and> map_option i_mode (inodes (s_tree sbk) (s_root sbk)) = Some (S_IFDIR OR m))"

definition mount_ok :: "mount_sys \<Rightarrow> bool" where
  "mount_ok s \<longleftrightarrow> own_ok (infos s) (owner s) \<and>
     (\<forall>fc c. contexts s fc = Some c \<and> fc_phase c = FS_CONTEXT_CREATE_PARAMS \<longrightarrow> fc_info c \<noteq> NULL) \<and>
     (\<forall>sb b. supers s sb = Some b \<longrightarrow> sb_mounted (infos s) b)"

lemma mount_okI:
  assumes "own_ok (infos s) (owner s)" "\<And>fc c. contexts s fc = Some c \<Longrightarrow> fc_phase c = FS_CONTEXT_CREATE_PARAMS \<Longrightarrow> fc_info c \<noteq> NULL"
    "\<And>sb b. supers s sb = Some b \<Longrightarrow> sb_mounted (infos s) b"
  shows "mount_ok s"
  using assms by (auto simp: mount_ok_def)

lemma mount_okD:
  assumes "mount_ok s"
  shows "own_ok (infos s) (owner s)" "contexts s fc = Some c \<Longrightarrow> fc_phase c = FS_CONTEXT_CREATE_PARAMS \<Longrightarrow> 0 < fc_info c"
    "supers s sb = Some b \<Longrightarrow> sb_mounted (infos s) b"
  using assms by (auto simp: mount_ok_def)

text \<open>Writing to or freeing what is not the superblock's leaves the superblock mounted.\<close>

lemma sb_mounted_other: "sb_mounted h b \<Longrightarrow> a \<noteq> sb_info b \<Longrightarrow> sb_mounted (h(a := v)) b"
  by (simp add: sb_mounted_def)

lemma owned: "own_ok h own \<Longrightarrow> own x \<noteq> NULL \<Longrightarrow> \<exists>m. h (own x) = Some m"
  by (auto simp: own_ok_def)

lemma other_sb:
  assumes "mount_ok s" "supers s sb = Some b" "owner s x = a" "x \<noteq> Inr sb"
  shows "a \<noteq> sb_info b"
proof
  assume "a = sb_info b"
  then have "owner s x = owner s (Inr sb)" using assms by simp
  moreover have "sb_info b \<noteq> NULL" using mount_okD(3) [OF assms(1,2)] by (simp add: sb_mounted_def)
  ultimately show False using own_ok_unique [OF mount_okD(1) [OF assms(1)], of x "Inr sb"] assms \<open>a = sb_info b\<close> by simp
qed

section \<open>Every step keeps the ownership\<close>

lemma init_ok:
  assumes ok: "mount_ok s" and new: "contexts s fc = None" "\<And>a. kz = Some a \<Longrightarrow> a \<noteq> NULL \<and> infos s a = None"
  shows "mount_ok (snd (init_fs_context kz fc s))"
proof (cases kz)
  case None
  then show ?thesis using ok by (simp add: init_fs_context_def ramfs_init_fs_context_def)
next
  case (Some a)
  then have a: "a \<noteq> NULL" "infos s a = None" using new(2) by simp_all
  have "own_ok ((infos s)(a \<mapsto> RAMFS_DEFAULT_MODE)) ((owner s)(Inl fc := a))"
    by (rule own_ok_new [OF mount_okD(1) [OF ok] a(2,1)]) (simp add: new(1))
  moreover have "sb_info b \<noteq> a" if "supers s sb = Some b" for sb b
    using mount_okD(3) [OF ok that] a by (auto simp: sb_mounted_def)
  ultimately show ?thesis using ok a Some unfolding init_fs_context_def ramfs_init_fs_context_def
    by (intro mount_okI) (auto simp: owner_contexts [where s = "s\<lparr>infos := h\<rparr>" for h, simplified] intro: mount_okD sb_mounted_other split: if_splits)
qed

lemma parse_ok:
  assumes ok: "mount_ok s" and fc: "contexts s fc = Some c" "fc_phase c = FS_CONTEXT_CREATE_PARAMS"
  shows "\<exists>r s'. parse_param parsed fc s = Inr (r, s') \<and> mount_ok s'"
proof (cases parsed)
  case (Inl e)
  then show ?thesis using ok fc by (simp add: parse_param_def fc_of_def)
next
  case (Inr v)
  let ?a = "fc_info c"
  have a: "?a \<noteq> NULL" "owner s (Inl fc) = ?a" using mount_okD(2) [OF ok fc] fc by simp_all
  obtain m where m: "infos s ?a = Some m" using owned [OF mount_okD(1) [OF ok], of "Inl fc"] a by auto
  have "own_ok ((infos s)(?a \<mapsto> v)) (owner s)" for v using own_ok_set [OF mount_okD(1) [OF ok]] m by simp
  moreover have "?a \<noteq> sb_info b" if "supers s sb = Some b" for sb b using other_sb [OF ok that a(2)] by simp
  ultimately have "mount_ok (s\<lparr>infos := (infos s)(?a \<mapsto> v)\<rparr>)" for v
    using ok by (intro mount_okI) (auto intro: mount_okD sb_mounted_other)
  then show ?thesis using Inr fc m a by (simp add: parse_param_def fc_of_def read_info_def case_prod_unfold Let_def)
qed

lemma free_ok:
  assumes ok: "mount_ok s" and fc: "contexts s fc = Some c"
  shows "\<exists>s'. ramfs_free_fc fc s = Inr s' \<and> mount_ok s'"
proof -
  let ?h = "if fc_info c = NULL then infos s else (infos s)(fc_info c := None)"
  let ?s = "s\<lparr>infos := ?h, contexts := (contexts s)(fc := None)\<rparr>"
  have own: "owner s (Inl fc) = fc_info c" using fc by simp
  have "ramfs_free_fc fc s = Inr ?s" using fc own
    using owned [OF mount_okD(1) [OF ok], of "Inl fc"] by (cases "fc_info c = NULL") (auto simp: ramfs_free_fc_def fc_of_def kfree_info_def)
  moreover have "own_ok ?h ((owner s)(Inl fc := NULL))"
    using own_ok_free [OF mount_okD(1) [OF ok], of "Inl fc"] own_ok_null [OF mount_okD(1) [OF ok], of "Inl fc"] own by simp
  moreover have "sb_mounted ?h b" if "supers s sb = Some b" for sb b
    using other_sb [OF ok that own] sb_mounted_other [OF mount_okD(3) [OF ok that]] mount_okD(3) [OF ok that] by simp
  ultimately show ?thesis using ok
    by (intro exI [of _ ?s] conjI mount_okI)
      (auto simp: owner_contexts [where s = "s\<lparr>infos := h\<rparr>" for h, simplified] intro: mount_okD split: if_splits)
qed

text \<open>The part of the invariant that does not speak of phases; a superblock may not have its root yet.\<close>

definition owners_ok :: "nat set \<Rightarrow> mount_sys \<Rightarrow> bool" where
  "owners_ok new s \<longleftrightarrow> own_ok (infos s) (owner s) \<and> (\<forall>sb b. supers s sb = Some b \<and> sb \<notin> new \<longrightarrow> sb_mounted (infos s) b)"

lemma kill_eff:
  assumes ok: "owners_ok {sb} s" and sb: "supers s sb = Some b" "sb_info b \<noteq> NULL"
  shows "\<exists>s'. ramfs_kill_sb sb s = Inr s' \<and> owners_ok {} s' \<and> contexts s' = contexts s"
proof -
  let ?s = "s\<lparr>infos := (infos s)(sb_info b := None), supers := (supers s)(sb := None)\<rparr>"
  have own: "own_ok (infos s) (owner s)" using ok by (simp add: owners_ok_def)
  have o: "owner s (Inr sb) = sb_info b" using sb by simp
  have "ramfs_kill_sb sb s = Inr ?s" using sb owned [OF own, of "Inr sb"] by (auto simp: ramfs_kill_sb_def sb_of_def kfree_info_def)
  moreover have "own_ok ((infos s)(sb_info b := None)) ((owner s)(Inr sb := NULL))" using own_ok_free [OF own, of "Inr sb"] o by simp
  moreover have "sb_mounted ((infos s)(sb_info b := None)) b'" if "sb' \<noteq> sb" "supers s sb' = Some b'" for sb' b'
  proof (rule sb_mounted_other)
    show "sb_mounted (infos s) b'" using ok that by (simp add: owners_ok_def)
    show "sb_info b \<noteq> sb_info b'" using own_ok_unique [OF own, of "Inr sb" "Inr sb'"] that sb by auto
  qed
  ultimately show ?thesis
    by (intro exI [of _ ?s] conjI)
      (auto simp: owners_ok_def owner_supers [where s = "s\<lparr>infos := h\<rparr>" for h, simplified] split: if_splits)
qed

lemma mount_ok_owners: "mount_ok s \<longleftrightarrow> owners_ok {} s \<and> (\<forall>fc c. contexts s fc = Some c \<and> fc_phase c = FS_CONTEXT_CREATE_PARAMS \<longrightarrow> fc_info c \<noteq> NULL)"
  by (auto simp: mount_ok_def owners_ok_def)

lemma kill_ok: "mount_ok s \<Longrightarrow> supers s sb = Some b \<Longrightarrow> \<exists>s'. ramfs_kill_sb sb s = Inr s' \<and> mount_ok s'"
proof -
  assume ok: "mount_ok s" and sb: "supers s sb = Some b"
  have "owners_ok {sb} s" using ok by (auto simp: mount_ok_def owners_ok_def)
  moreover have "sb_info b \<noteq> NULL" using mount_okD(3) [OF ok sb] by (simp add: sb_mounted_def)
  ultimately obtain s' where "ramfs_kill_sb sb s = Inr s'" "owners_ok {} s'" "contexts s' = contexts s" using kill_eff sb by blast
  then show ?thesis using ok by (auto simp: mount_ok_owners)
qed

text \<open>The root of a new superblock has the mode of the structure.\<close>

lemma fill_super_root:
  assumes "ramfs_fill_super E m = Inr sbk" "\<And>m. ie_owner E None m = m"
  shows "map_option i_mode (inodes (s_tree sbk) (s_root sbk)) = Some (S_IFDIR OR m)"
  using assms by (auto simp: ramfs_fill_super_def ramfs_get_inode_def setup_inode_def Let_def split: option.splits prod.splits if_splits)

lemma set_phase_ok:
  assumes ok: "owners_ok {} s" and p: "p \<noteq> FS_CONTEXT_CREATE_PARAMS"
    and cs: "\<And>fc' c. fc' \<noteq> fc \<Longrightarrow> contexts s fc' = Some c \<Longrightarrow> fc_phase c = FS_CONTEXT_CREATE_PARAMS \<Longrightarrow> fc_info c \<noteq> NULL"
  shows "mount_ok (set_phase fc p s)"
proof -
  have "owner (set_phase fc p s) x = owner s x" for x by (cases x) (simp_all add: set_phase_def split: option.splits)
  then have "owner (set_phase fc p s) = owner s" by (rule ext)
  then have "owners_ok {} (set_phase fc p s)" using ok by (simp add: owners_ok_def set_phase_def)
  moreover have "fc_info c \<noteq> NULL" if "contexts (set_phase fc p s) fc' = Some c" "fc_phase c = FS_CONTEXT_CREATE_PARAMS" for fc' c
    using that p cs [of fc' c] by (auto simp: set_phase_def split: if_splits)
  ultimately show ?thesis by (auto simp: mount_ok_owners)
qed

lemma hand_over_ok:
  assumes ok: "mount_ok s" and fc: "contexts s fc = Some c" and sb: "supers s sb = None"
  shows "owners_ok {sb} (hand_over fc sb s)"
proof -
  have "owner (hand_over fc sb s) x = ((owner s)(Inl fc := NULL, Inr sb := owner s (Inl fc))) x" for x
    using fc by (cases x) (simp_all add: hand_over_def)
  then have "owner (hand_over fc sb s) = (owner s)(Inl fc := NULL, Inr sb := owner s (Inl fc))" by (rule ext)
  moreover have "own_ok (infos s) ((owner s)(Inl fc := NULL, Inr sb := owner s (Inl fc)))"
    by (rule own_ok_move [OF mount_okD(1) [OF ok]]) (simp add: sb)
  ultimately show ?thesis using fc ok by (auto simp: owners_ok_def hand_over_def intro: mount_okD)
qed

lemma new_super_ok:
  assumes ok: "mount_ok s" and fc: "contexts s fc = Some c" "fc_phase c = FS_CONTEXT_CREATE_PARAMS" and sb: "supers s sb = None"
    and E: "\<And>m. ie_owner E None m = m"
  shows "\<exists>r s'. new_super fc sb (fill_super E) s = Inr (r, s') \<and> owners_ok {} s' \<and> contexts s' = (contexts s)(fc \<mapsto> c\<lparr>fc_info := NULL\<rparr>)"
proof -
  let ?s = "hand_over fc sb s" and ?b = "\<lparr>sb_info = fc_info c, sb_super = None\<rparr>"
  have h: "owners_ok {sb} ?s" using hand_over_ok [OF ok fc(1) sb] .
  have b: "supers ?s sb = Some ?b" "contexts ?s = (contexts s)(fc \<mapsto> c\<lparr>fc_info := NULL\<rparr>)" "infos ?s = infos s"
    using fc by (simp_all add: hand_over_def)
  have a: "fc_info c \<noteq> NULL" using mount_okD(2) [OF ok fc] by simp
  obtain m where m: "infos s (fc_info c) = Some m" using owned [OF mount_okD(1) [OF ok], of "Inl fc"] a fc(1) by auto
  have fill: "fill_super E sb ?s = (case ramfs_fill_super E m of Inl e \<Rightarrow> Inr (e, ?s) | Inr sbk \<Rightarrow> Inr (0, ?s\<lparr>supers := (supers ?s)(sb \<mapsto> ?b\<lparr>sb_super := Some sbk\<rparr>)\<rparr>))"
    using b a m by (simp add: fill_super_def sb_of_def read_info_def)
  show ?thesis
  proof (cases "ramfs_fill_super E m")
    case (Inl e)
    then have e: "e = - ENOMEM" by (auto simp: ramfs_fill_super_def split: prod.splits option.splits if_splits)
    obtain s' where "ramfs_kill_sb sb ?s = Inr s'" "owners_ok {} s'" "contexts s' = contexts ?s"
      using kill_eff [OF h b(1)] a by auto
    then show ?thesis using Inl fill e b(2) by (simp add: new_super_def)
  next
    case (Inr sbk)
    let ?s' = "?s\<lparr>supers := (supers ?s)(sb \<mapsto> ?b\<lparr>sb_super := Some sbk\<rparr>)\<rparr>"
    have "owner ?s' = owner ?s" using b(1) by (simp add: fun_upd_idem)
    moreover have "sb_mounted (infos s) (?b\<lparr>sb_super := Some sbk\<rparr>)" using a m fill_super_root [OF Inr E] by (simp add: sb_mounted_def)
    ultimately have "owners_ok {} ?s'" using h b(3) by (auto simp: owners_ok_def)
    then show ?thesis using Inr fill b(2) by (simp add: new_super_def)
  qed
qed

lemma get_tree_step:
  assumes ok: "mount_ok s" and fc: "contexts s fc = Some c" "fc_phase c = FS_CONTEXT_CREATE_PARAMS"
    and E: "\<And>m. ie_owner E None m = m" and gt: "get_tree_ok gt"
  shows "\<exists>r s'. ramfs_get_tree gt E fc s = Inr (r, s') \<and> owners_ok {} s' \<and> (\<forall>fc'. fc' \<noteq> fc \<longrightarrow> contexts s' fc' = contexts s fc')"
proof -
  consider e where "gt fc (fill_super E) s = Inr (e, s)" | sb where "supers s sb = None" "gt fc (fill_super E) s = new_super fc sb (fill_super E) s"
    using gt unfolding get_tree_ok_def by meson
  then show ?thesis
  proof cases
    case 1
    then show ?thesis using ok by (simp add: ramfs_get_tree_def mount_ok_owners)
  next
    case 2
    then show ?thesis using new_super_ok [OF ok fc 2(1) E] by (auto simp: ramfs_get_tree_def)
  qed
qed

section \<open>Every history\<close>

definition no_mounts :: "mount_sys" where
  "no_mounts = \<lparr>infos = (\<lambda>_. None), contexts = (\<lambda>_. None), supers = (\<lambda>_. None)\<rparr>"

lemma mount_step_ok:
  assumes "mount_step gt (Inr s) r" "mount_ok s" "get_tree_ok gt"
  shows "\<exists>s'. r = Inr s' \<and> mount_ok s'"
  using assms(1)
proof cases
  case (open_fc fc kz)
  then show ?thesis using init_ok [OF assms(2)] by simp
next
  case (option fc c parsed)
  then show ?thesis using parse_ok [OF assms(2) option(2,3), of parsed] by auto
next
  case (get_tree fc c E)
  obtain r' s' where t: "ramfs_get_tree gt E fc s = Inr (r', s')" "owners_ok {} s'" "\<forall>fc'. fc' \<noteq> fc \<longrightarrow> contexts s' fc' = contexts s fc'"
    using get_tree_step [OF assms(2) get_tree(2,3) _ assms(3)] get_tree(4) by blast
  have "mount_ok (set_phase fc p s')" if "p \<noteq> FS_CONTEXT_CREATE_PARAMS" for p
    using set_phase_ok [OF t(2) that, of fc] t(3) mount_okD(2) [OF assms(2)] by simp
  then show ?thesis using get_tree(1) t(1) by auto
next
  case (close_fc fc c)
  then show ?thesis using free_ok [OF assms(2)] by simp
next
  case (unmount sb b)
  then show ?thesis using kill_ok [OF assms(2)] by simp
qed

lemma no_mounts_ok: "mount_ok no_mounts"
proof -
  have "owner no_mounts x = NULL" for x by (cases x) (simp_all add: no_mounts_def)
  then show ?thesis by (auto simp: mount_ok_def own_ok_def inj_on_def no_mounts_def)
qed

interpretation mnt: transition_system "\<lambda>r. get_tree_ok gt \<and> r = Inr no_mounts" "mount_step gt"
  "\<lambda>r. get_tree_ok gt \<and> (\<exists>s. r = Inr s \<and> mount_ok s)"
  by unfold_locales (use no_mounts_ok mount_step_ok in blast)+

text \<open>
  C21: the structure with the mount options has one owner at every moment. Whatever contexts are opened, get options,
  mount, fail to mount for want of a superblock or of an inode, and are closed, and whatever is unmounted in
  between, in any order: no pointer to a freed structure or \<open>NULL\<close> is read and nothing is freed twice; every
  structure belongs to exactly one context or superblock, so that none is left when there are no more of
  these; and every mounted superblock shows the mode that its root was created with, no matter what is done to the
  context it came from.\<close>

theorem mount_info_owned:
  assumes "get_tree_ok gt" and "(mount_step gt)\<^sup>*\<^sup>* (Inr no_mounts) r"
  shows "\<exists>s. r = Inr s \<and> (\<forall>a. infos s a \<noteq> None \<longrightarrow> (\<exists>!x. owner s x = a)) \<and>
    (contexts s = Map.empty \<and> supers s = Map.empty \<longrightarrow> infos s = Map.empty) \<and>
    (\<forall>sb b. supers s sb = Some b \<longrightarrow> (\<exists>sbk m. sb_super b = Some sbk \<and> show_options sb s = Inr (ramfs_show_options m) \<and>
       map_option i_mode (inodes (s_tree sbk) (s_root sbk)) = Some (S_IFDIR OR m)))"
proof -
  obtain s where r: "r = Inr s" and ok: "mount_ok s" using mnt.reachable_inv [of gt, OF _ assms(2)] assms(1) by auto
  note ex1 = own_ok_ex1 [OF mount_okD(1) [OF ok]]
  have "infos s = Map.empty" if e: "contexts s = Map.empty" "supers s = Map.empty"
  proof
    fix a
    have "owner s x = NULL" for x using e by (cases x) simp_all
    moreover have "infos s NULL = None" using mount_okD(1) [OF ok] by (simp add: own_ok_def)
    ultimately show "infos s a = None" using ex1 [of a] by (cases "a = NULL") fastforce+
  qed
  moreover have "\<exists>sbk m. sb_super b = Some sbk \<and> show_options sb s = Inr (ramfs_show_options m) \<and>
       map_option i_mode (inodes (s_tree sbk) (s_root sbk)) = Some (S_IFDIR OR m)" if "supers s sb = Some b" for sb b
    using mount_okD(3) [OF ok that] that by (auto simp: sb_mounted_def show_options_def sb_of_def read_info_def)
  ultimately show ?thesis using r ex1 by auto
qed

text \<open>Witness: a mount with \<open>mode=700\<close> whose context is closed.\<close>

definition example_get_tree :: "nat \<Rightarrow> fill_fn \<Rightarrow> mount_sys \<Rightarrow> (int \<times> mount_sys) kres" where
  "example_get_tree fc fill s = (if supers s 0 = None then new_super fc 0 fill s else Inr (- EBUSY, s))"

lemma example_get_tree_ok: "get_tree_ok example_get_tree"
  unfolding get_tree_ok_def example_get_tree_def by auto

definition example_mount :: mount_sys where
  "example_mount = \<lparr>infos = [8 \<mapsto> 0x1C0], contexts = (\<lambda>_. None),
     supers = [0 \<mapsto> \<lparr>sb_info = 8, sb_super = Some (projr (ramfs_fill_super (example_inode_env 1) 0x1C0))\<rparr>]\<rparr>"

lemma example_mount_run: "(mount_step example_get_tree)\<^sup>*\<^sup>* (Inr no_mounts) (Inr example_mount)"
proof -
  let ?c = "\<lparr>fc_info = 8, fc_phase = FS_CONTEXT_CREATE_PARAMS\<rparr>"
  let ?s1 = "no_mounts\<lparr>infos := [8 \<mapsto> RAMFS_DEFAULT_MODE], contexts := [3 \<mapsto> ?c]\<rparr>"
  let ?s2 = "?s1\<lparr>infos := [8 \<mapsto> 0x1C0]\<rparr>"
  let ?s3 = "example_mount\<lparr>contexts := [3 \<mapsto> \<lparr>fc_info = NULL, fc_phase = FS_CONTEXT_AWAITING_MOUNT\<rparr>]\<rparr>"
  have "mount_step example_get_tree (Inr no_mounts) (Inr (snd (init_fs_context (Some 8) 3 no_mounts)))"
    by (rule open_fc) (simp_all add: no_mounts_def)
  then have 1: "mount_step example_get_tree (Inr no_mounts) (Inr ?s1)"
    by (simp add: init_fs_context_def ramfs_init_fs_context_def no_mounts_def)
  have "mount_step example_get_tree (Inr ?s1) (rbind (parse_param (Inr 0x1C0) 3 ?s1) (\<lambda>(r, s). Inr s))"
    by (rule option [where c = ?c]) simp_all
  then have 2: "mount_step example_get_tree (Inr ?s1) (Inr ?s2)"
    by (simp add: parse_param_def fc_of_def read_info_def ramfs_parse_param_def)
  have "mount_step example_get_tree (Inr ?s2) (rbind (ramfs_get_tree example_get_tree (example_inode_env 1) 3 ?s2)
      (\<lambda>(r, s). Inr (set_phase 3 (if r = 0 then FS_CONTEXT_AWAITING_MOUNT else FS_CONTEXT_FAILED) s)))"
    by (rule get_tree [where c = ?c]) (simp_all add: example_inode_env_def)
  moreover have "fill_super (example_inode_env 1) 0 (hand_over 3 0 ?s2) = Inr (0, example_mount\<lparr>contexts := [3 \<mapsto> \<lparr>fc_info = NULL, fc_phase = FS_CONTEXT_CREATE_PARAMS\<rparr>]\<rparr>)"
    by (simp add: fill_super_def sb_of_def hand_over_def read_info_def no_mounts_def example_mount_def)
      (simp add: ramfs_fill_super_def ramfs_get_inode_def example_inode_env_def)
  ultimately have 3: "mount_step example_get_tree (Inr ?s2) (Inr ?s3)"
    by (simp add: ramfs_get_tree_def example_get_tree_def new_super_def set_phase_def no_mounts_def example_mount_def)
  have "mount_step example_get_tree (Inr ?s3) (ramfs_free_fc 3 ?s3)" by (rule close_fc) simp
  then have 4: "mount_step example_get_tree (Inr ?s3) (Inr example_mount)"
    by (simp add: ramfs_free_fc_def fc_of_def kfree_info_def example_mount_def)
  show ?thesis using 1 2 3 4 by (meson converse_rtranclp_into_rtranclp rtranclp.rtrancl_refl)
qed

theorem mount_info_owned_witness:
  "(mount_step example_get_tree)\<^sup>*\<^sup>* (Inr no_mounts) (Inr example_mount) \<and> (\<exists>!x. owner example_mount x = 8) \<and>
   show_options 0 example_mount = Inr '',mode=700''"
proof -
  have "(\<exists>!x. owner example_mount x = 8)"
    using mount_info_owned [OF example_get_tree_ok example_mount_run] by (auto simp: example_mount_def)
  moreover have "ramfs_show_options 0x1C0 = '',mode=700''" by code_simp
  ultimately show ?thesis using example_mount_run
    by (simp add: show_options_def sb_of_def read_info_def example_mount_def)
qed

end
