(* ===== verification/Ramfs_Nommu.thy ===== *)
theory Ramfs_Nommu
  imports Kernel_Prelude
begin

text \<open>
  ramfs on machines without an MMU (fs/ramfs/file-nommu.c): the allocation of contiguous pages when an empty file gets
  a size, other changes of the size, the change of attributes, and the search for the place of a shared
  mapping.
\<close>

section \<open>Inodes and pages\<close>

text \<open>
  Pages are frame numbers; \<open>page + 1\<close> in the array of pages is the next frame. The page cache of the inode has
  pairs of an index and a page. References, locks and the bytes of the pages are those of the whole machine.
  \<open>nm_copied\<close> records the masks with which \<open>setattr_copy\<close> was called.
\<close>

record nommu_state =
  nm_size :: int
  nm_cache :: "(nat \<times> nat) list"
  nm_ref :: "nat \<Rightarrow> nat"
  nm_locked :: "nat set"
  nm_dirty :: "nat set"
  nm_uptodate :: "nat set"
  nm_data :: "nat \<Rightarrow> nat \<Rightarrow> u8"
  nm_copied :: "u32 list"
  nm_accessed :: bool

record iattr =
  ia_valid :: u32
  ia_size :: int

abbreviation (input) ATTR_SIZE :: u32 where "ATTR_SIZE \<equiv> 0x8"
abbreviation (input) ATTR_MTIME :: u32 where "ATTR_MTIME \<equiv> 0x20"
abbreviation (input) ATTR_CTIME :: u32 where "ATTR_CTIME \<equiv> 0x40"

text \<open>The default of the kernel's configuration, blocks of at most 4 MiB.\<close>
abbreviation (input) MAX_ORDER :: nat where "MAX_ORDER \<equiv> 11"

text \<open>
  The rest of the kernel: \<open>get_order\<close>, the check of the size against the limits, the page allocator, the errors of adding
  a page to the cache, the check that no mapping is cut off, the permission check and the address of a page.
\<close>

record nommu_ops =
  get_order :: "u64 \<Rightarrow> nat"
  inode_newsize_ok :: "int \<Rightarrow> u64 \<Rightarrow> int"
  alloc_pages :: "nat \<Rightarrow> nommu_state \<Rightarrow> nat option"
  cache_error :: "nat \<Rightarrow> nat \<Rightarrow> int"
  shrink_inode_mappings :: "int \<Rightarrow> int \<Rightarrow> int"
  setattr_prepare :: "iattr \<Rightarrow> int \<times> iattr"
  kcalloc_ok :: "nat \<Rightarrow> bool"
  page_address :: "nat \<Rightarrow> u64"

definition put_page :: "nat \<Rightarrow> nommu_state \<Rightarrow> nommu_state" where
  "put_page p s = s\<lparr>nm_ref := (nm_ref s)(p := nm_ref s p - 1)\<rparr>"

definition get_page :: "nat \<Rightarrow> nommu_state \<Rightarrow> nommu_state" where
  "get_page p s = s\<lparr>nm_ref := (nm_ref s)(p := nm_ref s p + 1)\<rparr>"

text \<open>The loops that free pages: \<open>pages + lo\<close> up to \<open>pages + hi\<close>. Freeing drops the last reference.\<close>

definition free_page_loop :: "nat \<Rightarrow> nat \<Rightarrow> nat \<Rightarrow> nommu_state \<Rightarrow> nommu_state" where
  "free_page_loop pages lo hi s = fold (\<lambda>i. put_page (pages + i)) [lo..<hi] s"

text \<open>A block of \<open>2 ^ order\<close> pages has one reference, of its first page, until it is split.\<close>

definition split_page :: "nat \<Rightarrow> nat \<Rightarrow> nommu_state \<Rightarrow> nommu_state" where
  "split_page pages order s = fold (\<lambda>i. get_page (pages + i)) [1..<2 ^ order] s"

definition clear_pages :: "nat \<Rightarrow> nat \<Rightarrow> nommu_state \<Rightarrow> nommu_state" where
  "clear_pages pages n s = s\<lparr>nm_data := \<lambda>p. if pages \<le> p \<and> p < pages + n then \<lambda>_. 0 else nm_data s p\<rparr>"

section \<open>Expansion of an empty file\<close>

text \<open>
  A page added to the cache is locked and has a reference of the cache; it is marked so that it is
  never discarded, unlocked, and the reference of the allocation is dropped.
\<close>

definition attach_page :: "nat \<Rightarrow> nat \<Rightarrow> nommu_state \<Rightarrow> nommu_state" where
  "attach_page page i s =
    (let s = get_page page (s\<lparr>nm_cache := (i, page) # nm_cache s, nm_locked := insert page (nm_locked s)\<rparr>);
         s = s\<lparr>nm_dirty := insert page (nm_dirty s)\<rparr>;
         s = s\<lparr>nm_uptodate := insert page (nm_uptodate s)\<rparr>;
         s = s\<lparr>nm_locked := nm_locked s - {page}\<rparr>
     in put_page page s)"

function attach_pages :: "nommu_ops \<Rightarrow> nat \<Rightarrow> nat \<Rightarrow> nat \<Rightarrow> nommu_state \<Rightarrow> int \<times> nat \<times> nommu_state" where
  "attach_pages ops pages npages i s =
    (if i < npages
     then let ret = cache_error ops (pages + i) i
          in if ret < 0 then (ret, i, s) else attach_pages ops pages npages (i + 1) (attach_page (pages + i) i s)
     else (0, i, s))"
  by pat_completeness auto
termination
  by (relation "measure (\<lambda>(ops, pages, npages, i, s). npages - i)") auto

declare attach_pages.simps [simp del]

definition page_count :: "u64 \<Rightarrow> u64" where
  "page_count n = drop_bit 12 (n + 4096 - 1)"

definition ramfs_nommu_expand_for_mapping :: "nommu_ops \<Rightarrow> u64 \<Rightarrow> nommu_state \<Rightarrow> int \<times> nommu_state" where
  "ramfs_nommu_expand_for_mapping ops newsize s =
    (let order = get_order ops newsize
     in if MAX_ORDER \<le> order then (- EFBIG, s)
        else let ret = inode_newsize_ok ops (nm_size s) newsize
        in if ret \<noteq> 0 then (ret, s)
        else let s = s\<lparr>nm_size := sint newsize\<rparr>
        in case alloc_pages ops order s of
          None \<Rightarrow> (- ENOMEM, s)
        | Some pages \<Rightarrow>
          let s = get_page pages s;
              xpages = 2 ^ order;
              npages = unat (page_count newsize);
              s = split_page pages order s;
              s = free_page_loop pages npages xpages s;
              s = clear_pages pages npages s;
              (ret, i, s) = attach_pages ops pages npages 0 s
          in if ret < 0 then (ret, free_page_loop pages i npages s) else (0, s))"

section \<open>Changes of the size and of other attributes\<close>

text \<open>\<open>truncate_setsize\<close>: pages behind the new end leave the cache, the last page is cleared behind it.\<close>

definition truncate_setsize :: "int \<Rightarrow> nommu_state \<Rightarrow> nommu_state" where
  "truncate_setsize newsize s =
    (let n = nat newsize; keep = (n + 4095) div 4096;
         gone = filter (\<lambda>(i, p). keep \<le> i) (nm_cache s);
         s = fold (\<lambda>(i, p). put_page p) gone s
     in s\<lparr>nm_size := newsize, nm_cache := filter (\<lambda>(i, p). i < keep) (nm_cache s),
          nm_data := \<lambda>p off. if (n div 4096, p) \<in> set (nm_cache s) \<and> n mod 4096 \<noteq> 0 \<and> n mod 4096 \<le> off then 0 else nm_data s p off\<rparr>)"

definition ramfs_nommu_resize :: "nommu_ops \<Rightarrow> int \<Rightarrow> int \<Rightarrow> nommu_state \<Rightarrow> int \<times> nommu_state" where
  "ramfs_nommu_resize ops newsize sz s =
    (if sz = 0
     then if drop_bit 32 newsize \<noteq> 0 then (- EFBIG, s) else ramfs_nommu_expand_for_mapping ops (word_of_int newsize) s
     else let ret = (if newsize < sz then shrink_inode_mappings ops sz newsize else 0)
          in if ret < 0 then (ret, s) else (0, truncate_setsize newsize s))"

definition setattr_copy :: "iattr \<Rightarrow> nommu_state \<Rightarrow> nommu_state" where
  "setattr_copy ia s = s\<lparr>nm_copied := ia_valid ia # nm_copied s\<rparr>"

definition ramfs_nommu_setattr :: "nommu_ops \<Rightarrow> iattr \<Rightarrow> nommu_state \<Rightarrow> int \<times> iattr \<times> nommu_state" where
  "ramfs_nommu_setattr ops ia s =
    (let old_ia_valid = ia_valid ia;
         (ret, ia) = setattr_prepare ops ia
     in if ret \<noteq> 0 then (ret, ia, s)
        else let (leave, ret, ia, s) =
            (if ia_valid ia AND ATTR_SIZE \<noteq> 0
             then if ia_size ia \<noteq> nm_size s
                  then let (ret, s) = ramfs_nommu_resize ops (ia_size ia) (nm_size s) s
                       in (ret < 0 \<or> ia_valid ia = ATTR_SIZE, ret, ia, s)
                  else (False, ret, ia\<lparr>ia_valid := ia_valid ia OR (ATTR_MTIME OR ATTR_CTIME)\<rparr>, s)
             else (False, ret, ia, s));
            s = (if leave then s else setattr_copy ia s)
        in (ret, ia\<lparr>ia_valid := old_ia_valid\<rparr>, s))"

section \<open>Shared mappings\<close>

text \<open>\<open>find_get_pages_contig\<close>: the pages of the cache from an index on, without a gap, at most as many as asked for.\<close>

fun contig_pages :: "(nat \<times> nat) list \<Rightarrow> nat \<Rightarrow> nat \<Rightarrow> nat list" where
  "contig_pages cache i 0 = []"
| "contig_pages cache i (Suc n) =
    (case map_of cache i of None \<Rightarrow> [] | Some p \<Rightarrow> p # contig_pages cache (i + 1) n)"

text \<open>The loop over the pages found: each must be the frame behind the one before.\<close>

fun adjacent :: "nat \<Rightarrow> nat list \<Rightarrow> bool" where
  "adjacent page [] = True"
| "adjacent page (p # ps) = (p = page \<and> adjacent (page + 1) ps)"

text \<open>
  The first page is read from the array before its length is looked at: with no page asked for, the array is
  the pointer \<open>ZERO_SIZE_PTR\<close>, 16.
\<close>

definition ramfs_nommu_get_unmapped_area :: "nommu_ops \<Rightarrow> u64 \<Rightarrow> u64 \<Rightarrow> nommu_state \<Rightarrow> (u64 \<times> nommu_state) kres" where
  "ramfs_nommu_get_unmapped_area ops len pgoff s =
    (let lpages = page_count len;
         maxpages = page_count (word_of_int (nm_size s))
     in if maxpages \<le> pgoff then Inr (- 38, s)
        else if maxpages - pgoff < lpages then Inr (- 38, s)
        else if \<not> kcalloc_ok ops (unat lpages) then Inr (- 38, s)
        else let pages = contig_pages (nm_cache s) (unat pgoff) (unat lpages);
                 s = fold get_page pages s
        in if length pages \<noteq> unat lpages then Inr (- 38, fold put_page pages s)
           else case pages of
             [] \<Rightarrow> Inl (BadAddr 16)
           | p # ps \<Rightarrow> Inr (if adjacent (p + 1) ps then page_address ops p else - 38, fold put_page pages s))"

record nommu_vma =
  nv_flags :: u64
  nv_generic_ops :: bool

definition ramfs_nommu_mmap :: "nommu_vma \<Rightarrow> nommu_state \<Rightarrow> int \<times> nommu_vma \<times> nommu_state" where
  "ramfs_nommu_mmap vma s =
    (if nv_flags vma AND (0x8 OR 0x80) = 0 then (- ENOSYS, vma, s)
     else (0, vma\<lparr>nv_generic_ops := True\<rparr>, s\<lparr>nm_accessed := True\<rparr>))"

section \<open>Effects of the loops\<close>

lemma free_page_loop_eq:
  "lo \<le> hi \<Longrightarrow> free_page_loop b lo hi s = s\<lparr>nm_ref := \<lambda>p. nm_ref s p - (if b + lo \<le> p \<and> p < b + hi then 1 else 0)\<rparr>"
proof (induction hi rule: dec_induct)
  case base
  show ?case by (cases s) (auto simp: free_page_loop_def fun_eq_iff)
next
  case (step n)
  have "free_page_loop b lo (Suc n) s = put_page (b + n) (free_page_loop b lo n s)"
    using step by (simp add: free_page_loop_def)
  also have "\<dots> = s\<lparr>nm_ref := \<lambda>p. nm_ref s p - (if b + lo \<le> p \<and> p < b + Suc n then 1 else 0)\<rparr>"
    unfolding step.IH put_page_def using step.hyps by (cases s) (auto simp: fun_eq_iff)
  finally show ?case .
qed

lemma fold_get_page:
  "lo \<le> hi \<Longrightarrow> fold (\<lambda>i. get_page (b + i)) [lo..<hi] s = s\<lparr>nm_ref := \<lambda>p. nm_ref s p + (if b + lo \<le> p \<and> p < b + hi then 1 else 0)\<rparr>"
proof (induction hi rule: dec_induct)
  case base
  show ?case by (cases s) (auto simp: fun_eq_iff)
next
  case (step n)
  have "fold (\<lambda>i. get_page (b + i)) [lo..<Suc n] s = get_page (b + n) (fold (\<lambda>i. get_page (b + i)) [lo..<n] s)"
    using step by simp
  also have "\<dots> = s\<lparr>nm_ref := \<lambda>p. nm_ref s p + (if b + lo \<le> p \<and> p < b + Suc n then 1 else 0)\<rparr>"
    unfolding step.IH get_page_def using step.hyps by (cases s) (auto simp: fun_eq_iff)
  finally show ?case .
qed

text \<open>The whole block, after it was split: one reference for every page.\<close>

lemma split_block:
  "split_page b k (get_page b s) = s\<lparr>nm_ref := \<lambda>p. nm_ref s p + (if b \<le> p \<and> p < b + 2 ^ k then 1 else 0)\<rparr>"
proof -
  have "(1::nat) \<le> 2 ^ k" by simp
  from fold_get_page [OF this, of b "get_page b s"] show ?thesis
    by (cases s) (auto simp: split_page_def get_page_def fun_eq_iff)
qed

lemma attach_page_eq:
  "attach_page p i s = s\<lparr>nm_cache := (i, p) # nm_cache s, nm_dirty := insert p (nm_dirty s),
     nm_uptodate := insert p (nm_uptodate s), nm_locked := nm_locked s - {p}\<rparr>"
  by (cases s) (simp add: attach_page_def get_page_def put_page_def)

text \<open>The pages from \<open>i\<close> to \<open>j\<close> of the block, as the loop attaches them.\<close>

definition attached :: "nat \<Rightarrow> nat \<Rightarrow> nat \<Rightarrow> (nat \<times> nat) list" where
  "attached b i j = rev (map (\<lambda>k. (k, b + k)) [i..<j])"

lemma attach_pages_result:
  assumes "attach_pages ops b n i s = (ret, j, s')" "i \<le> n"
  shows "i \<le> j \<and> (ret = 0 \<and> j = n \<or> ret < 0 \<and> j < n) \<and>
    s' = s\<lparr>nm_cache := attached b i j @ nm_cache s, nm_dirty := nm_dirty s \<union> {b + i..<b + j},
      nm_uptodate := nm_uptodate s \<union> {b + i..<b + j}, nm_locked := nm_locked s - {b + i..<b + j}\<rparr>"
  using assms
proof (induction ops b n i s rule: attach_pages.induct)
  case (1 ops b n i s)
  show ?case
  proof (cases "i < n \<and> \<not> cache_error ops (b + i) i < 0")
    case False
    then show ?thesis
      using "1.prems" by (cases s) (auto simp: attach_pages.simps [of _ _ _ i] attached_def split: if_splits)
  next
    case True
    let ?t = "attach_page (b + i) i s"
    have run: "attach_pages ops b n (i + 1) ?t = (ret, j, s')"
      using "1.prems"(1) True by (simp add: attach_pages.simps [of _ _ _ i])
    note ih = "1.IH" [OF _ refl _ run]
    have ij: "i + 1 \<le> j" and fin: "ret = 0 \<and> j = n \<or> ret < 0 \<and> j < n"
      and s': "s' = ?t\<lparr>nm_cache := attached b (i + 1) j @ nm_cache ?t, nm_dirty := nm_dirty ?t \<union> {b + (i + 1)..<b + j},
        nm_uptodate := nm_uptodate ?t \<union> {b + (i + 1)..<b + j}, nm_locked := nm_locked ?t - {b + (i + 1)..<b + j}\<rparr>"
      using ih True by auto
    have ivl: "{b + i..<b + j} = insert (b + i) {b + (i + 1)..<b + j}" using ij by auto
    have att: "attached b i j = attached b (i + 1) j @ [(i, b + i)]"
      using ij by (simp add: attached_def upt_conv_Cons)
    have "s' = s\<lparr>nm_cache := attached b i j @ nm_cache s, nm_dirty := nm_dirty s \<union> {b + i..<b + j},
      nm_uptodate := nm_uptodate s \<union> {b + i..<b + j}, nm_locked := nm_locked s - {b + i..<b + j}\<rparr>"
      unfolding s' attach_page_eq ivl att by (cases s) auto
    then show ?thesis using ij fin by simp
  qed
qed

section \<open>Expansion\<close>

text \<open>
  What the code relies on: a block of \<open>2 ^ get_order n\<close> pages has room for \<open>n\<close> bytes, and the allocator hands out pages
  that nobody has a reference to and nobody has locked; \<open>inode_newsize_ok\<close> returns 0 or an error.
\<close>

definition nommu_laws :: "nommu_ops \<Rightarrow> bool" where
  "nommu_laws ops \<longleftrightarrow>
    (\<forall>n. 0 < n \<longrightarrow> get_order ops n < MAX_ORDER \<longrightarrow> unat n \<le> 2 ^ get_order ops n * 4096) \<and>
    (\<forall>m n. inode_newsize_ok ops m n \<le> 0) \<and>
    (\<forall>k s b. alloc_pages ops k s = Some b \<longrightarrow> (\<forall>p \<in> {b..<b + 2 ^ k}. nm_ref s p = 0 \<and> p \<notin> nm_locked s))"

lemma page_count_nat:
  assumes "unat n + 4095 < 2 ^ 64"
  shows "unat (page_count n) = (unat n + 4095) div 4096"
proof -
  have "unat (n + 4095) = unat n + 4095"
    using assms by (simp add: unat_word_ariths)
  moreover have "page_count n = drop_bit 12 (n + 4095)" by (simp add: page_count_def add.commute)
  ultimately show ?thesis by (simp only: unat_drop_bit_eq) (simp add: drop_bit_eq_div)
qed

lemma page_count_block:
  assumes "nommu_laws ops" "0 < n" "get_order ops n < MAX_ORDER"
  shows "unat n + 4095 < 2 ^ 64 \<and> unat (page_count n) = (unat n + 4095) div 4096 \<and>
    unat (page_count n) \<le> 2 ^ get_order ops n \<and> 0 < unat (page_count n)"
proof -
  have le: "unat n \<le> 2 ^ get_order ops n * 4096" using assms by (simp add: nommu_laws_def)
  moreover have "(2::nat) ^ get_order ops n \<le> 2 ^ 10" using assms(3) by (intro power_increasing) auto
  ultimately have "unat n \<le> 2 ^ 10 * 4096" by (meson le_trans mult_le_mono1)
  then have lt: "unat n + 4095 < 2 ^ 64" by simp
  have "0 < unat n" using assms(2) by (simp add: unat_gt_0 word_gt_0)
  then show ?thesis using lt page_count_nat [OF lt] le by (simp add: div_less_iff_less_mult less_eq_div_iff_mult_less_eq) linarith
qed

text \<open>The state after a block was taken from the allocator and its first \<open>j\<close> pages attached.\<close>

definition expanded :: "u64 \<Rightarrow> nat \<Rightarrow> nat \<Rightarrow> nommu_state \<Rightarrow> nommu_state" where
  "expanded n b j s = s\<lparr>nm_size := sint n, nm_cache := attached b 0 j @ nm_cache s,
     nm_ref := \<lambda>p. nm_ref s p + (if b \<le> p \<and> p < b + j then 1 else 0),
     nm_dirty := nm_dirty s \<union> {b..<b + j}, nm_uptodate := nm_uptodate s \<union> {b..<b + j},
     nm_data := \<lambda>p. if b \<le> p \<and> p < b + unat (page_count n) then \<lambda>_. 0 else nm_data s p\<rparr>"

lemma expand_result:
  assumes laws: "nommu_laws ops" and n: "0 < n" and ord: "get_order ops n < MAX_ORDER"
    and ok: "inode_newsize_ok ops (nm_size s) n = 0" and al: "alloc_pages ops (get_order ops n) (s\<lparr>nm_size := sint n\<rparr>) = Some b"
    and run: "ramfs_nommu_expand_for_mapping ops n s = (ret, s')"
  shows "\<exists>j. (ret = 0 \<and> j = unat (page_count n) \<or> ret < 0 \<and> j < unat (page_count n)) \<and> s' = expanded n b j s"
proof -
  define k np where "k = get_order ops n" and "np = unat (page_count n)"
  let ?s1 = "s\<lparr>nm_size := sint n\<rparr>"
  have np: "np \<le> 2 ^ k" using page_count_block [OF laws n ord] by (simp add: np_def k_def)
  have fresh: "nm_ref s p = 0 \<and> p \<notin> nm_locked s" if "b \<le> p" "p < b + 2 ^ k" for p
  proof -
    have "\<forall>p \<in> {b..<b + 2 ^ k}. nm_ref ?s1 p = 0 \<and> p \<notin> nm_locked ?s1"
      using laws al unfolding nommu_laws_def k_def by blast
    then show ?thesis using that by simp
  qed
  let ?s2 = "free_page_loop b np (2 ^ k) (split_page b k (get_page b ?s1))"
  have s2: "?s2 = s\<lparr>nm_size := sint n, nm_ref := \<lambda>p. nm_ref s p + (if b \<le> p \<and> p < b + np then 1 else 0)\<rparr>"
    unfolding split_block free_page_loop_eq [OF np] using np by (cases s) (auto simp: fun_eq_iff)
  obtain r j t where at: "attach_pages ops b np 0 (clear_pages b np ?s2) = (r, j, t)" by (metis prod_cases3)
  note res = attach_pages_result [OF at]
  have fin: "r = 0 \<and> j = np \<or> r < 0 \<and> j < np" using res by blast
  have t: "t = (clear_pages b np ?s2)\<lparr>nm_cache := attached b 0 j @ nm_cache s, nm_dirty := nm_dirty s \<union> {b..<b + j},
      nm_uptodate := nm_uptodate s \<union> {b..<b + j}, nm_locked := nm_locked s - {b..<b + j}\<rparr>"
    using res by (simp add: s2 clear_pages_def)
  have "(ret, s') = (if r < 0 then (r, free_page_loop b j np t) else (0, t))"
    using run ord ok al at unfolding ramfs_nommu_expand_for_mapping_def k_def np_def by (simp add: Let_def)
  moreover have "nm_locked s - {b..<b + j} = nm_locked s"
    using fresh np fin by fastforce
  moreover have "free_page_loop b j np t = expanded n b j s" if "j < np"
    unfolding free_page_loop_eq [OF less_imp_le [OF that]] t s2 clear_pages_def expanded_def np_def [symmetric]
    using that \<open>nm_locked s - {b..<b + j} = nm_locked s\<close> by (cases s) (auto simp: fun_eq_iff)
  moreover have "t = expanded n b j s" if "j = np"
    unfolding t s2 clear_pages_def expanded_def np_def [symmetric]
    using that \<open>nm_locked s - {b..<b + j} = nm_locked s\<close> by (cases s) (auto simp: fun_eq_iff)
  ultimately show ?thesis using fin unfolding np_def by (metis less_irrefl prod.inject)
qed

section \<open>The search for a mapping\<close>

lemma fold_get_pages: "fold get_page ps s = s\<lparr>nm_ref := \<lambda>p. nm_ref s p + count_list ps p\<rparr>"
  by (induction ps arbitrary: s) (auto simp: get_page_def fun_eq_iff intro!: nommu_state.equality)

lemma fold_put_pages: "fold put_page ps s = s\<lparr>nm_ref := \<lambda>p. nm_ref s p - count_list ps p\<rparr>"
  by (induction ps arbitrary: s) (auto simp: put_page_def fun_eq_iff intro!: nommu_state.equality)

lemma get_put_pages: "fold put_page ps (fold get_page ps s) = s"
  by (simp add: fold_get_pages fold_put_pages)

text \<open>The search changes nothing: the references it took are given back on every path.\<close>

lemma get_unmapped_area_eq:
  "ramfs_nommu_get_unmapped_area ops len pgoff s =
    (let maxpages = page_count (word_of_int (nm_size s)); pages = contig_pages (nm_cache s) (unat pgoff) (unat (page_count len))
     in if maxpages \<le> pgoff \<or> maxpages - pgoff < page_count len \<or> \<not> kcalloc_ok ops (unat (page_count len)) \<or>
          length pages \<noteq> unat (page_count len) then Inr (- 38, s)
        else case pages of [] \<Rightarrow> Inl (BadAddr 16)
          | p # ps \<Rightarrow> Inr (if adjacent (p + 1) ps then page_address ops p else - 38, s))"
  unfolding ramfs_nommu_get_unmapped_area_def Let_def get_put_pages by simp

lemma get_unmapped_area_keeps:
  "ramfs_nommu_get_unmapped_area ops len pgoff s = Inr (a, s') \<Longrightarrow> s' = s"
  by (auto simp: get_unmapped_area_eq Let_def split: if_splits list.splits)

lemma map_of_attached: "map_of (attached b 0 j) i = (if i < j then Some (b + i) else None)"
proof -
  have d: "distinct (map fst (attached b 0 j))" by (simp add: attached_def rev_map [symmetric] comp_def)
  show ?thesis
  proof (cases "i < j")
    case True
    then have "(i, b + i) \<in> set (attached b 0 j)" by (simp add: attached_def)
    with d True show ?thesis by simp
  next
    case False
    then have "i \<notin> fst ` set (attached b 0 j)" by (auto simp: attached_def)
    with False show ?thesis by (simp add: map_of_eq_None_iff)
  qed
qed

lemma contig_attached:
  "i \<le> j \<Longrightarrow> contig_pages (attached b 0 j) i n = map (\<lambda>k. b + k) [i..<min j (i + n)]"
proof (induction n arbitrary: i)
  case 0
  then show ?case by simp
next
  case (Suc n)
  show ?case
  proof (cases "i < j")
    case True
    then have "[i..<min j (i + Suc n)] = i # [i + 1..<min j (i + 1 + n)]" by (simp add: upt_conv_Cons)
    with Suc.IH [of "i + 1"] True show ?thesis by (simp add: map_of_attached)
  next
    case False
    with Suc.prems show ?thesis by (simp add: map_of_attached)
  qed
qed

lemma adjacent_range: "adjacent (b + i) (map (\<lambda>k. b + k) [i..<m])"
proof (induction "m - i" arbitrary: i)
  case 0
  then show ?case by simp
next
  case (Suc d)
  then show ?case using Suc.hyps(1) [of "i + 1"] by (simp add: upt_conv_Cons)
qed

text \<open>Of a file of \<open>j\<close> attached pages every range of pages within the size is found, and no other.\<close>

lemma get_unmapped_area_attached:
  assumes cache: "nm_cache s = attached b 0 j" and sz: "j \<le> unat (page_count (word_of_int (nm_size s)))"
    and len: "0 < unat (page_count len)" and kc: "kcalloc_ok ops (unat (page_count len))"
  shows "ramfs_nommu_get_unmapped_area ops len pgoff s =
    Inr (if unat pgoff + unat (page_count len) \<le> j then page_address ops (b + unat pgoff) else - 38, s)"
proof -
  let ?l = "unat (page_count len)" and ?o = "unat pgoff" and ?m = "page_count (word_of_int (nm_size s)) :: u64"
  show ?thesis
  proof (cases "?m \<le> pgoff \<or> ?m - pgoff < page_count len")
    case True
    have "j < ?o + ?l"
    proof (cases "?m \<le> pgoff")
      case True
      then have "unat ?m \<le> ?o" by (simp add: word_le_nat_alt)
      with sz len show ?thesis by linarith
    next
      case False
      then have "unat (?m - pgoff) = unat ?m - ?o" "?o < unat ?m" by (simp_all add: unat_sub word_le_nat_alt not_le)
      moreover have "unat (?m - pgoff) < ?l" using True False by (simp add: word_less_nat_alt)
      ultimately show ?thesis using sz by linarith
    qed
    with True show ?thesis by (auto simp: ramfs_nommu_get_unmapped_area_def Let_def)
  next
    case False
    let ?ps = "contig_pages (nm_cache s) ?o ?l"
    have area: "ramfs_nommu_get_unmapped_area ops len pgoff s = (if length ?ps \<noteq> ?l then Inr (- 38, s)
        else case ?ps of [] \<Rightarrow> Inl (BadAddr 16)
          | p # ps \<Rightarrow> Inr (if adjacent (p + 1) ps then page_address ops p else - 38, s))"
      using False kc by (simp add: get_unmapped_area_eq Let_def)
    show ?thesis
    proof (cases "?o + ?l \<le> j")
      case True
      then have ps: "?ps = (b + ?o) # map (\<lambda>k. b + k) [?o + 1..<?o + ?l]"
        using len by (simp add: cache contig_attached min_def upt_conv_Cons)
      show ?thesis unfolding area ps using True len adjacent_range [of b "?o + 1" "?o + ?l"] by simp
    next
      case False
      have "length ?ps < ?l"
      proof (cases "?o \<le> j")
        case True
        then show ?thesis using False by (simp add: cache contig_attached)
      next
        case False
        then have "?ps = []" using len by (cases ?l) (simp_all add: cache map_of_attached)
        then show ?thesis using len by simp
      qed
      then show ?thesis unfolding area using False by simp
    qed
  qed
qed

section \<open>An empty file that is given a size\<close>

lemma page_count_pos: "0 < n \<Longrightarrow> unat n + 4095 < 2 ^ 64 \<Longrightarrow> 0 < unat (page_count n)"
  using page_count_nat [of n] by (simp add: word_gt_0 unat_gt_0 div_greater_zero_iff Suc_le_eq)

lemma size_word:
  assumes "0 < n" "drop_bit 32 (n :: int) = 0"
  shows "sint (word_of_int n :: u64) = n \<and> 0 < (word_of_int n :: u64) \<and> uint (word_of_int n :: u64) = n"
proof -
  have lt: "n < 2 ^ 32" using assms by (simp add: drop_bit_eq_div zdiv_eq_0_iff)
  then have u: "uint (word_of_int n :: u64) = n" using assms by (simp add: unsigned_of_int take_bit_int_eq_self)
  have "sint (word_of_int n :: u64) = n"
    using lt assms by (simp add: signed_of_int signed_take_bit_int_eq_self)
  then show ?thesis using u assms by (metis word_gt_0 unsigned_0 less_irrefl)
qed

text \<open>A change of size that is not refused beforehand either fails without an effect or goes through a block.\<close>

lemma resize_empty:
  assumes laws: "nommu_laws ops" and n: "0 < n" and run: "ramfs_nommu_resize ops n 0 s = (ret, s')"
  shows "ret < 0 \<and> s' = s \<or>
    ret = - ENOMEM \<and> s' = s\<lparr>nm_size := n\<rparr> \<or>
    (\<exists>b j. nm_size s' = n \<and> s' = expanded (word_of_int n) b j s \<and> uint (word_of_int n :: u64) = n \<and>
      unat (word_of_int n :: u64) + 4095 < 2 ^ 64 \<and>
      (ret = 0 \<and> j = unat (page_count (word_of_int n)) \<or> ret < 0 \<and> j < unat (page_count (word_of_int n))))"
proof (cases "drop_bit 32 n = 0 \<and> get_order ops (word_of_int n) < MAX_ORDER \<and> inode_newsize_ok ops (nm_size s) (word_of_int n) = 0")
  case False
  moreover have "inode_newsize_ok ops (nm_size s) (word_of_int n) \<le> 0" using laws by (simp add: nommu_laws_def)
  ultimately show ?thesis using run
    by (auto simp: ramfs_nommu_resize_def ramfs_nommu_expand_for_mapping_def Let_def split: if_splits)
next
  case True
  let ?n = "word_of_int n :: u64"
  note w = size_word [OF n conjunct1 [OF True]]
  have exp: "ramfs_nommu_expand_for_mapping ops ?n s = (ret, s')" using run True by (simp add: ramfs_nommu_resize_def)
  show ?thesis
  proof (cases "alloc_pages ops (get_order ops ?n) (s\<lparr>nm_size := sint ?n\<rparr>)")
    case None
    then show ?thesis using exp True w by (simp add: ramfs_nommu_expand_for_mapping_def Let_def)
  next
    case (Some b)
    obtain j where j: "ret = 0 \<and> j = unat (page_count ?n) \<or> ret < 0 \<and> j < unat (page_count ?n)" "s' = expanded ?n b j s"
      using expand_result [OF laws _ _ _ Some exp] True w by blast
    have "nm_size s' = n" using j(2) w by (simp add: expanded_def)
    with j w page_count_block [OF laws, of ?n] True show ?thesis by blast
  qed
qed

text \<open>What holds of the file in both outcomes of an expansion.\<close>

lemma expanded_pages:
  assumes "nm_cache s = []" "s' = expanded n b j s" "j \<le> unat (page_count n)"
  shows "nm_cache s' = attached b 0 j" "nm_locked s' = nm_locked s"
    "nm_ref s' p = nm_ref s p + (if p \<in> snd ` set (nm_cache s') then 1 else 0)"
    "p \<in> snd ` set (nm_cache s') \<Longrightarrow> nm_data s' p off = 0"
proof -
  show c: "nm_cache s' = attached b 0 j" "nm_locked s' = nm_locked s" using assms by (simp_all add: expanded_def)
  have "snd ` set (attached b 0 j) = {b..<b + j}"
  proof -
    have "snd ` set (attached b 0 j) = (+) b ` {0..<j}" by (simp add: attached_def image_image)
    then show ?thesis by (simp add: add.commute)
  qed
  then have m: "p \<in> snd ` set (nm_cache s') \<longleftrightarrow> b \<le> p \<and> p < b + j" by (simp add: c)
  show "nm_ref s' p = nm_ref s p + (if p \<in> snd ` set (nm_cache s') then 1 else 0)"
    unfolding m using assms(2) by (simp add: expanded_def)
  show "p \<in> snd ` set (nm_cache s') \<Longrightarrow> nm_data s' p off = 0"
    unfolding m using assms(2,3) by (simp add: expanded_def)
qed

lemma setattr_size:
  assumes "nm_size s = 0" "0 < ia_size ia" "ia_valid ia AND ATTR_SIZE \<noteq> 0" "setattr_prepare ops ia = (0, ia)"
    and "ramfs_nommu_setattr ops ia s = (ret, ia', s')"
  shows "\<exists>t. ramfs_nommu_resize ops (ia_size ia) 0 s = (ret, t) \<and> ia' = ia \<and>
    s' = (if ret < 0 \<or> ia_valid ia = ATTR_SIZE then t else setattr_copy ia t)"
  using assms by (cases "ramfs_nommu_resize ops (ia_size ia) 0 s") (auto simp: ramfs_nommu_setattr_def Let_def split: if_splits)

lemma setattr_copy_frame [simp]:
  "nm_size (setattr_copy ia t) = nm_size t" "nm_cache (setattr_copy ia t) = nm_cache t" "nm_ref (setattr_copy ia t) = nm_ref t"
  "nm_locked (setattr_copy ia t) = nm_locked t" "nm_data (setattr_copy ia t) = nm_data t"
  by (simp_all add: setattr_copy_def)

text \<open>
  C23: an empty file gets a size on a machine without an MMU. The caller's attributes come back as they were, no page
  stays locked, and on every path, errors included, the pages that have one more reference than before are
  exactly those in the page cache, and they are zero. If the call succeeds, the file has the size and every
  range of its pages can be mapped as one contiguous block, while a range beyond the end is refused. A failed
  call changes nothing, or it leaves the new size although the pages of the end are missing: so it is when no block
  can be allocated. The file then has the size, but no mapping up to its end is possible.
\<close>

theorem nommu_empty_file_gets_size:
  assumes laws: "nommu_laws ops" and "nm_size s = 0" and empty: "nm_cache s = []" and n: "0 < ia_size ia"
    and "ia_valid ia AND ATTR_SIZE \<noteq> 0" "setattr_prepare ops ia = (0, ia)"
    and "ramfs_nommu_setattr ops ia s = (ret, ia', s')"
  shows "ia' = ia \<and> nm_locked s' = nm_locked s \<and>
    (\<forall>p. nm_ref s' p = nm_ref s p + (if p \<in> snd ` set (nm_cache s') then 1 else 0)) \<and>
    (\<forall>p off. p \<in> snd ` set (nm_cache s') \<longrightarrow> nm_data s' p off = 0) \<and>
    (ret = 0 \<longrightarrow> nm_size s' = ia_size ia \<and>
      (\<exists>b. \<forall>len pgoff. 0 < unat (page_count len) \<and> kcalloc_ok ops (unat (page_count len)) \<longrightarrow>
        ramfs_nommu_get_unmapped_area ops len pgoff s' =
          Inr (if unat pgoff + unat (page_count len) \<le> (nat (ia_size ia) + 4095) div 4096
               then page_address ops (b + unat pgoff) else - 38, s'))) \<and>
    (ret \<noteq> 0 \<longrightarrow> s' = s \<or> nm_size s' = ia_size ia \<and>
      (\<forall>len pgoff. 0 < unat (page_count len) \<and> kcalloc_ok ops (unat (page_count len)) \<and>
          unat pgoff + unat (page_count len) = unat (page_count (word_of_int (ia_size ia))) \<longrightarrow>
        ramfs_nommu_get_unmapped_area ops len pgoff s' = Inr (- 38, s'))) \<and>
    (drop_bit 32 (ia_size ia) = 0 \<and> get_order ops (word_of_int (ia_size ia)) < MAX_ORDER \<and>
      inode_newsize_ok ops 0 (word_of_int (ia_size ia)) = 0 \<and>
      alloc_pages ops (get_order ops (word_of_int (ia_size ia))) (s\<lparr>nm_size := ia_size ia\<rparr>) = None \<longrightarrow>
      ret = - ENOMEM \<and> s' = s\<lparr>nm_size := ia_size ia\<rparr>)"
proof -
  let ?n = "word_of_int (ia_size ia) :: u64"
  obtain t where t: "ramfs_nommu_resize ops (ia_size ia) 0 s = (ret, t)" and ia: "ia' = ia"
      and s': "s' = (if ret < 0 \<or> ia_valid ia = ATTR_SIZE then t else setattr_copy ia t)"
    using setattr_size [OF assms(2,4-7)] by blast
  have frame: "nm_size s' = nm_size t" "nm_cache s' = nm_cache t" "nm_ref s' = nm_ref t" "nm_locked s' = nm_locked t" "nm_data s' = nm_data t"
    using s' by simp_all
  have area0: "ramfs_nommu_get_unmapped_area ops len pgoff s' = Inr (- 38, s')"
    if "nm_cache s' = []" "0 < unat (page_count len)" for len pgoff
    using that by (cases "unat (page_count len)") (auto simp: get_unmapped_area_eq Let_def)
  have nomem: "ret = - ENOMEM \<and> s' = s\<lparr>nm_size := ia_size ia\<rparr>"
    if "drop_bit 32 (ia_size ia) = 0 \<and> get_order ops ?n < MAX_ORDER \<and> inode_newsize_ok ops 0 ?n = 0 \<and>
      alloc_pages ops (get_order ops ?n) (s\<lparr>nm_size := ia_size ia\<rparr>) = None"
    using that t s' size_word [OF n] assms(2) by (simp add: ramfs_nommu_resize_def ramfs_nommu_expand_for_mapping_def Let_def)
  from resize_empty [OF laws n t] consider (none) "ret < 0" "t = s" | (mem) "ret = - ENOMEM" "t = s\<lparr>nm_size := ia_size ia\<rparr>"
    | (block) b j where "nm_size t = ia_size ia" "t = expanded ?n b j s" "uint ?n = ia_size ia" "unat ?n + 4095 < 2 ^ 64"
        "ret = 0 \<and> j = unat (page_count ?n) \<or> ret < 0 \<and> j < unat (page_count ?n)"
    by blast
  then show ?thesis
  proof cases
    case none
    with nomem s' ia empty show ?thesis by auto
  next
    case mem
    with nomem s' ia empty area0 show ?thesis by auto
  next
    case block
    have jle: "j \<le> unat (page_count ?n)" using block(5) by linarith
    note ep = expanded_pages [OF empty block(2) jle]
    have np: "unat (page_count ?n) = (nat (ia_size ia) + 4095) div 4096"
      using page_count_nat [OF block(4)] block(3) by (metis nat_uint_eq)
    have area: "ramfs_nommu_get_unmapped_area ops len pgoff s' =
        Inr (if unat pgoff + unat (page_count len) \<le> j then page_address ops (b + unat pgoff) else - 38, s')"
      if "0 < unat (page_count len)" "kcalloc_ok ops (unat (page_count len))" for len pgoff
      by (rule get_unmapped_area_attached) (use that ep jle frame block in auto)
    show ?thesis
      using ia ep frame area block(1,5) np nomem by (intro conjI) auto
  qed
qed

text \<open>A machine with enough pages from frame 100 on, and a file that is set to 5000 bytes.\<close>

definition ex_nommu :: nommu_ops where
  "ex_nommu = \<lparr>get_order = \<lambda>n. if n \<le> 4096 then 0 else if n \<le> 8192 then 1 else 11, inode_newsize_ok = \<lambda>_ _. 0,
     alloc_pages = \<lambda>k s. if nm_locked s = {} \<and> (\<forall>p \<in> {100..<100 + 2 ^ k}. nm_ref s p = 0) then Some 100 else None,
     cache_error = \<lambda>_ _. 0, shrink_inode_mappings = \<lambda>_ _. 0, setattr_prepare = \<lambda>ia. (0, ia), kcalloc_ok = \<lambda>_. True,
     page_address = \<lambda>p. push_bit 12 (of_nat p)\<rparr>"

definition ex_empty :: nommu_state where
  "ex_empty = \<lparr>nm_size = 0, nm_cache = [], nm_ref = \<lambda>_. 0, nm_locked = {}, nm_dirty = {}, nm_uptodate = {}, nm_data = \<lambda>_ _. 0xAA,
     nm_copied = [], nm_accessed = False\<rparr>"

lemma ex_nommu_laws: "nommu_laws ex_nommu"
  by (auto simp: nommu_laws_def ex_nommu_def word_le_nat_alt split: if_splits)

theorem nommu_empty_file_gets_size_witness:
  "\<exists>ret s'. ramfs_nommu_setattr ex_nommu \<lparr>ia_valid = 0x8, ia_size = 5000\<rparr> ex_empty = (ret, \<lparr>ia_valid = 0x8, ia_size = 5000\<rparr>, s') \<and>
    (\<forall>p. nm_ref s' p = (if p \<in> snd ` set (nm_cache s') then 1 else 0)) \<and> nm_locked s' = {}"
proof -
  let ?ia = "\<lparr>ia_valid = 0x8, ia_size = 5000\<rparr>"
  obtain ret ia' s' where run: "ramfs_nommu_setattr ex_nommu ?ia ex_empty = (ret, ia', s')" by (metis prod_cases3)
  have h: "nm_size ex_empty = 0" "nm_cache ex_empty = []" "0 < ia_size ?ia" "ia_valid ?ia AND 0x8 \<noteq> 0" "setattr_prepare ex_nommu ?ia = (0, ?ia)"
    by (simp_all add: ex_empty_def ex_nommu_def)
  have "nm_ref ex_empty = (\<lambda>_. 0)" "nm_locked ex_empty = {}" by (simp_all add: ex_empty_def)
  with nommu_empty_file_gets_size [OF ex_nommu_laws h run] run show ?thesis by auto
qed

end
