(* ===== verification/Ramfs_Tests.thy ===== *)
theory Ramfs_Tests
  imports Bytes Transition_System
begin

text \<open>
  The stress tests of a mounted ramfs (os-2024-exercise/ch4-fs/ch4_3): threads that rewrite and read one file, and the write and
  read of a large file.
\<close>

section \<open>Concurrent writers\<close>

fun dec_digits :: "nat \<Rightarrow> string" where
  "dec_digits n = (if n < 10 then [char_of (48 + n)] else dec_digits (n div 10) @ [char_of (48 + n mod 10)])"

declare dec_digits.simps [simp del]

text \<open>The line that iteration \<open>i\<close> writes.\<close>

definition write_line :: "nat \<Rightarrow> string" where
  "write_line i = ''Thread write '' @ dec_digits i @ [CHR 0x0A]"

text \<open>
  A writer between two iterations, or with the file open and the line still in the buffer of the C library, which \<open>fclose\<close> writes. Opening for writing empties
  the file; the offset of a new open file is 0. A reader keeps what its last \<open>fread\<close> delivered.
\<close>

datatype writer_pc = WIdle nat | WOpen nat

record stress_state =
  st_file :: string
  st_writer :: "nat \<Rightarrow> writer_pc"
  st_read :: "nat \<Rightarrow> string"

definition file_write0 :: "string \<Rightarrow> string \<Rightarrow> string" where
  "file_write0 bs f = bs @ drop (length bs) f"

inductive stress_step :: "stress_state \<Rightarrow> stress_state \<Rightarrow> bool" where
  fopen_w: "st_writer s t = WIdle i \<Longrightarrow> i < 1000 \<Longrightarrow>
    stress_step s (s\<lparr>st_file := [], st_writer := (st_writer s)(t := WOpen i)\<rparr>)"
| fopen_fails: "st_writer s t = WIdle i \<Longrightarrow> i < 1000 \<Longrightarrow> stress_step s (s\<lparr>st_writer := (st_writer s)(t := WIdle (i + 1))\<rparr>)"
| fclose_w: "st_writer s t = WOpen i \<Longrightarrow>
    stress_step s (s\<lparr>st_file := file_write0 (write_line i) (st_file s), st_writer := (st_writer s)(t := WIdle (i + 1))\<rparr>)"
| fread_r: "stress_step s (s\<lparr>st_read := (st_read s)(t := take 63 (st_file s))\<rparr>)"

definition stress_start :: stress_state where
  "stress_start = \<lparr>st_file = [], st_writer = (\<lambda>_. WIdle 0), st_read = (\<lambda>_. [])\<rparr>"

text \<open>Every byte of the file is the byte at that place of some line, and there is no gap.\<close>

definition lines_mix :: "string \<Rightarrow> bool" where
  "lines_mix f \<longleftrightarrow> (\<forall>k < length f. \<exists>i < 1000. k < length (write_line i) \<and> f ! k = write_line i ! k)"

definition stress_inv :: "stress_state \<Rightarrow> bool" where
  "stress_inv s \<longleftrightarrow> lines_mix (st_file s) \<and> (\<forall>t. lines_mix (st_read s t)) \<and>
     (\<forall>t i. st_writer s t = WOpen i \<longrightarrow> i < 1000)"

lemma dec_digits_length: "n < 10 ^ k \<Longrightarrow> 0 < k \<Longrightarrow> length (dec_digits n) \<le> k"
proof (induction k arbitrary: n)
  case (Suc k)
  show ?case
  proof (cases "n < 10")
    case True
    then show ?thesis by (subst dec_digits.simps) simp
  next
    case False
    then have "k \<noteq> 0" using Suc.prems by (cases k) auto
    then have "length (dec_digits (n div 10)) \<le> k" using Suc by (simp add: div_less_iff_less_mult)
    then show ?thesis using False by (subst dec_digits.simps) simp
  qed
qed simp

text \<open>The line and its terminator fit into the 32 bytes of the writer, and into what a reader reads at once.\<close>

lemma write_line_fits: "i < 1000 \<Longrightarrow> length (write_line i) + 1 \<le> 32" "i < 1000 \<Longrightarrow> length (write_line i) \<le> 63"
  "i < 1000 \<Longrightarrow> length (write_line i) \<le> 17"
  using dec_digits_length [of i 3] by (simp_all add: write_line_def)

lemma lines_mix_write: "lines_mix f \<Longrightarrow> i < 1000 \<Longrightarrow> lines_mix (file_write0 (write_line i) f)"
  by (auto simp: lines_mix_def file_write0_def nth_append)

lemma lines_mix_take: "lines_mix f \<Longrightarrow> lines_mix (take n f)"
  by (simp add: lines_mix_def)

interpretation stress: transition_system "\<lambda>s. s = stress_start" stress_step stress_inv
proof
  show "s = stress_start \<Longrightarrow> stress_inv s" for s by (simp add: stress_inv_def stress_start_def lines_mix_def)
  show "stress_inv s'" if inv: "stress_inv s" and step: "stress_step s s'" for s s'
    using step
  proof cases
    case (fopen_w t i)
    then show ?thesis using inv by (auto simp: stress_inv_def lines_mix_def)
  next
    case (fopen_fails t i)
    then show ?thesis using inv by (auto simp: stress_inv_def)
  next
    case (fclose_w t i)
    then have "i < 1000" using inv by (simp add: stress_inv_def)
    then show ?thesis using inv fclose_w lines_mix_write [of "st_file s" i] \<open>i < 1000\<close> by (auto simp: stress_inv_def)
  next
    case (fread_r t)
    then show ?thesis using inv lines_mix_take [of "st_file s" 63] by (auto simp: stress_inv_def)
  qed
qed

lemma lines_mix_length:
  assumes "lines_mix f"
  shows "length f \<le> 17"
proof (rule ccontr)
  assume "\<not> length f \<le> 17"
  then obtain i where "i < 1000" "17 < length (write_line i)" using assms unfolding lines_mix_def by (metis not_le)
  then show False using write_line_fits(3) [of i] by simp
qed

lemma dec_digits_chars: "c \<in> set (dec_digits n) \<Longrightarrow> c \<noteq> CHR 0x0A"
proof (induction n rule: dec_digits.induct)
  case (1 n)
  have d: "char_of (48 + m) \<noteq> CHR 0x0A" if "m < 10" for m :: nat
  proof
    assume "char_of (48 + m) = CHR 0x0A"
    then have "(of_char (char_of (48 + m)) :: nat) = 10" by simp
    then show False using that by simp
  qed
  have "set (dec_digits n) = (if n < 10 then {char_of (48 + n)} else insert (char_of (48 + n mod 10)) (set (dec_digits (n div 10))))"
    by (subst dec_digits.simps) simp
  then show ?case using 1 d [of n] d [of "n mod 10"] by (auto split: if_splits)
qed

lemma not_a_line: "write_line i \<noteq> ''Thread write 0'' @ [CHR 0x0A, CHR 0x0A]"
proof
  assume "write_line i = ''Thread write 0'' @ [CHR 0x0A, CHR 0x0A]"
  then have "dec_digits i @ [CHR 0x0A] = [CHR ''0'', CHR 0x0A] @ [CHR 0x0A]" by (simp add: write_line_def)
  then have "dec_digits i = [CHR ''0'', CHR 0x0A]" by (simp only: append_same_eq)
  then show False using dec_digits_chars [of "CHR 0x0A" i] by simp
qed

text \<open>One writer may be ahead of the others.\<close>

definition ahead :: "nat \<Rightarrow> stress_state" where
  "ahead n = stress_start\<lparr>st_writer := (\<lambda>_. WIdle 0)(7 := WIdle n)\<rparr>"

lemma writer_ahead: "n \<le> 1000 \<Longrightarrow> stress_step\<^sup>*\<^sup>* stress_start (ahead n)"
proof (induction n)
  case 0
  have "ahead 0 = stress_start" by (simp add: ahead_def stress_start_def fun_upd_idem)
  then show ?case by (simp only: rtranclp.rtrancl_refl)
next
  case (Suc n)
  have "stress_step (ahead n) ((ahead n)\<lparr>st_writer := (st_writer (ahead n))(7 := WIdle (n + 1))\<rparr>)"
    by (rule fopen_fails) (use Suc in \<open>simp_all add: ahead_def\<close>)
  then have "stress_step (ahead n) (ahead (Suc n))" by (simp add: ahead_def del: fun_upd_apply)
  then show ?case using Suc by (auto intro: rtranclp.rtrancl_into_rtrancl)
qed

lemma torn_line:
  "\<exists>s. stress_step\<^sup>*\<^sup>* stress_start s \<and> st_read s 0 = ''Thread write 0'' @ [CHR 0x0A, CHR 0x0A]"
proof -
  define s1 where "s1 = (ahead 10)\<lparr>st_file := [], st_writer := (st_writer (ahead 10))(7 := WOpen 10)\<rparr>"
  define s2 where "s2 = s1\<lparr>st_file := [], st_writer := (st_writer s1)(0 := WOpen 0)\<rparr>"
  define s3 where "s3 = s2\<lparr>st_file := file_write0 (write_line 10) (st_file s2), st_writer := (st_writer s2)(7 := WIdle (10 + 1))\<rparr>"
  define s4 where "s4 = s3\<lparr>st_file := file_write0 (write_line 0) (st_file s3), st_writer := (st_writer s3)(0 := WIdle (0 + 1))\<rparr>"
  define s5 where "s5 = s4\<lparr>st_read := (st_read s4)(0 := take 63 (st_file s4))\<rparr>"
  have 1: "stress_step (ahead 10) s1" unfolding s1_def by (rule fopen_w) (simp_all add: ahead_def)
  have 2: "stress_step s1 s2" unfolding s2_def by (rule fopen_w) (simp_all add: s1_def ahead_def)
  have 3: "stress_step s2 s3" unfolding s3_def by (rule fclose_w) (simp add: s2_def s1_def)
  have 4: "stress_step s3 s4" unfolding s4_def by (rule fclose_w) (simp add: s3_def s2_def)
  have 5: "stress_step s4 s5" unfolding s5_def by (rule fread_r)
  have "stress_step\<^sup>*\<^sup>* stress_start (ahead 10)" by (rule writer_ahead) simp
  then have run: "stress_step\<^sup>*\<^sup>* stress_start s5" using 1 2 3 4 5 by (meson rtranclp.rtrancl_into_rtrancl)
  have l: "write_line 0 = ''Thread write 0'' @ [CHR 0x0A]" "write_line 10 = ''Thread write 10'' @ [CHR 0x0A]" by code_simp+
  have "st_read s5 0 = ''Thread write 0'' @ [CHR 0x0A, CHR 0x0A]" by (simp add: s5_def s4_def s3_def s2_def file_write0_def l)
  then show ?thesis using run by blast
qed

text \<open>
  Whatever the interleaving of the threads, all that readers and the file ever hold is assembled from the lines, byte by byte and without gaps, and at most one
  line long; but it need not be a line: when a shorter line is written over a longer one and both writers had opened the file before, the end of the
  longer one remains.\<close>

theorem concurrent_lines:
  "(stress_step\<^sup>*\<^sup>* stress_start s \<longrightarrow> lines_mix (st_file s) \<and> lines_mix (st_read s t) \<and> length (st_read s t) \<le> 17) \<and>
   (\<exists>s. stress_step\<^sup>*\<^sup>* stress_start s \<and> lines_mix (st_read s 0) \<and> (\<forall>i. st_read s 0 \<noteq> write_line i))"
proof -
  have inv: "lines_mix (st_file s) \<and> lines_mix (st_read s t)" if "stress_step\<^sup>*\<^sup>* stress_start s" for s t
    using stress.reachable_inv [OF refl that] by (simp add: stress_inv_def)
  obtain s' where "stress_step\<^sup>*\<^sup>* stress_start s'" "st_read s' 0 = ''Thread write 0'' @ [CHR 0x0A, CHR 0x0A]" using torn_line by blast
  then show ?thesis using inv lines_mix_length not_a_line by metis
qed

section \<open>A large file\<close>

text \<open>
  The blocks from \<open>malloc\<close>, whether the two calls of \<open>fopen\<close> succeed, and how many bytes \<open>fwrite\<close> and \<open>fread\<close> transfer, which the program does not look at.
  The result is the verdict, or the exit status of an error.
\<close>

definition large_file_main :: "nat \<Rightarrow> bytes option \<Rightarrow> bytes option \<Rightarrow> bool \<Rightarrow> nat \<Rightarrow> bool \<Rightarrow> nat \<Rightarrow> int + bool" where
  "large_file_main sz write_buf read_buf open_w written open_r got =
    (case (write_buf, read_buf) of
       (Some write_buf, Some read_buf) \<Rightarrow>
         let write_buf = replicate sz 65
         in if \<not> open_w then Inl 1
            else let file = take written write_buf
            in if \<not> open_r then Inl 1
               else let got = min got (length file); read_buf = take got file @ drop got read_buf
                    in Inr (write_buf = read_buf)
     | _ \<Rightarrow> Inl 1)"

text \<open>
  The verdict is PASSED when everything was transferred; after a short transfer it depends on what the fresh block happened to hold.
\<close>

lemma large_file_verdict:
  assumes "length w = sz" "length r = sz"
  shows "large_file_main sz (Some w) (Some r) True sz True sz = Inr True"
    "large_file_main sz (Some w) (Some r) True written True got = Inr (\<forall>i < sz. min written got \<le> i \<longrightarrow> r ! i = 65)"
proof -
  let ?k = "min got (min written sz)"
  have "replicate sz 65 = replicate ?k 65 @ replicate (sz - ?k) (65 :: u8)" by (simp flip: replicate_add)
  then have "replicate sz 65 = replicate ?k 65 @ drop ?k r \<longleftrightarrow> drop ?k r = replicate (sz - ?k) 65" by auto
  also have "\<dots> \<longleftrightarrow> (\<forall>i < sz - ?k. r ! (?k + i) = 65)" using assms(2) by (simp add: list_eq_iff_nth_eq)
  also have "\<dots> \<longleftrightarrow> (\<forall>i < sz. min written got \<le> i \<longrightarrow> r ! i = 65)"
  proof (intro iffI allI impI)
    fix i assume a: "\<forall>i < sz - ?k. r ! (?k + i) = 65" and i: "i < sz" "min written got \<le> i"
    then have "?k \<le> i" "i - ?k < sz - ?k" by auto
    then show "r ! i = 65" using a [THEN spec, of "i - ?k"] by simp
  next
    fix i assume "\<forall>i < sz. min written got \<le> i \<longrightarrow> r ! i = 65" "i < sz - ?k"
    then show "r ! (?k + i) = 65" by (cases "?k = sz") (auto simp: min_def split: if_splits)
  qed
  finally show "large_file_main sz (Some w) (Some r) True written True got = Inr (\<forall>i < sz. min written got \<le> i \<longrightarrow> r ! i = 65)"
    by (simp add: large_file_main_def Let_def min.commute [of sz])
  show "large_file_main sz (Some w) (Some r) True sz True sz = Inr True"
    using assms by (simp add: large_file_main_def Let_def)
qed

end
