(* ===== verification/Vdso.thy ===== *)
theory Vdso
  imports Bytes
begin

text \<open>
  The vDSO area of a process (arch/x86/entry/vdso/vma.c) with the region this kernel adds to it,
  \<open>[vtask]\<close>, through which a process reads its own \<open>task_struct\<close>
  (arch/x86/entry/vdso/vget_task_struct_info.c). The address space is a list of special mappings,
  a page table from virtual to physical page numbers, and physical memory. The memory manager's
  services are parameters: the search for a free area, the installation and removal of mappings,
  the insertion of a page frame, page allocation and randomness.
\<close>

section \<open>Address spaces\<close>

abbreviation (input) PAGE_SHIFT :: nat where "PAGE_SHIFT \<equiv> 12"
abbreviation (input) TASK_STRUCT_PAGE_NUMBER :: u64 where "TASK_STRUCT_PAGE_NUMBER \<equiv> 5"
abbreviation (input) PAGE_BYTES :: u64 where "PAGE_BYTES \<equiv> 4096"

type_synonym vm_fault_t = u32

abbreviation (input) VM_FAULT_OOM :: vm_fault_t where "VM_FAULT_OOM \<equiv> 1"
abbreviation (input) VM_FAULT_SIGBUS :: vm_fault_t where "VM_FAULT_SIGBUS \<equiv> 2"
abbreviation (input) VM_FAULT_NOPAGE :: vm_fault_t where "VM_FAULT_NOPAGE \<equiv> 0x100"
abbreviation (input) VM_FAULT_ERROR :: vm_fault_t where "VM_FAULT_ERROR \<equiv> 0x873"

datatype special = VdsoMapping | VvarMapping | VtaskMapping

record vma =
  vm_start :: u64
  vm_end :: u64
  vm_special :: special

text \<open>\<open>sym\<close> fields are signed offsets from the start of the text.\<close>

record vdso_image =
  image_pfn :: u64
  image_size :: u64
  sym_vvar_start :: u64
  sym_vvar_page :: u64
  sym_pvclock_page :: u64
  sym_hvclock_page :: u64
  sym_timens_page :: u64
  sym_int80_landing_pad :: u64
  sym_vdso32_sigreturn_landing_pad :: u64
  sym_vdso32_rt_sigreturn_landing_pad :: u64

record vm_state =
  vmas :: "vma list"
  ptes :: "u64 \<Rightarrow> u64 option"
  phys :: "u64 \<Rightarrow> u8"
  context_vdso :: u64
  context_image :: "vdso_image option"
  context_vtask :: u64

text \<open>Services of the memory manager.\<close>

record mm_ops =
  get_unmapped_area :: "u64 \<Rightarrow> u64 \<Rightarrow> vma list \<Rightarrow> u64"
  install_special_mapping :: "u64 \<Rightarrow> u64 \<Rightarrow> special \<Rightarrow> vma list \<Rightarrow> int + vma list"
  do_munmap :: "u64 \<Rightarrow> u64 \<Rightarrow> vma list \<Rightarrow> vma list"
  insert_pfn :: "u64 \<Rightarrow> u64 \<Rightarrow> (u64 \<Rightarrow> u64 option) \<Rightarrow> vm_fault_t \<times> (u64 \<Rightarrow> u64 option)"
  alloc_page :: "vm_state \<Rightarrow> u64 option"

text \<open>The kernel objects the fault handlers refer to, by physical page number.\<close>

record vvar_env =
  vvar_pfn :: u64
  timens_pfn :: "u64 option"
  pvclock_pfn :: "u64 option"
  hvclock_pfn :: "u64 option"

section \<open>Fault handlers\<close>

definition vpn :: "u64 \<Rightarrow> u64" where
  "vpn a = drop_bit PAGE_SHIFT a"

text \<open>A handler returns a code, the page it wants mapped (if any), and the new state.\<close>

definition vdso_fault :: "u64 \<Rightarrow> vm_state \<Rightarrow> vm_fault_t \<times> u64 option \<times> vm_state" where
  "vdso_fault pgoff s =
    (case context_image s of
       None \<Rightarrow> (VM_FAULT_SIGBUS, None, s)
     | Some img \<Rightarrow>
         if image_size img \<le> push_bit PAGE_SHIFT pgoff then (VM_FAULT_SIGBUS, None, s)
         else (0, Some (image_pfn img + pgoff), s))"

definition vmf_insert :: "mm_ops \<Rightarrow> u64 \<Rightarrow> u64 \<Rightarrow> vm_state \<Rightarrow> vm_fault_t \<times> vm_state" where
  "vmf_insert ops a pfn s = (let (r, pt) = insert_pfn ops (vpn a) pfn (ptes s) in (r, s\<lparr>ptes := pt\<rparr>))"

definition vvar_fault :: "mm_ops \<Rightarrow> vvar_env \<Rightarrow> u64 \<Rightarrow> u64 \<Rightarrow> vm_state \<Rightarrow> vm_fault_t \<times> u64 option \<times> vm_state" where
  "vvar_fault ops env pgoff address s =
    (case context_image s of
       None \<Rightarrow> (VM_FAULT_SIGBUS, None, s)
     | Some img \<Rightarrow>
       (let sym_offset = push_bit PAGE_SHIFT pgoff + sym_vvar_start img
        in if sym_offset = 0 then (VM_FAULT_SIGBUS, None, s)
        else if sym_offset = sym_vvar_page img then
          (case timens_pfn env of
             None \<Rightarrow> (let (r, s1) = vmf_insert ops address (vvar_pfn env) s in (r, None, s1))
           | Some tp \<Rightarrow>
             (let (err, s1) = vmf_insert ops (address + (sym_timens_page img - sym_offset)) (vvar_pfn env) s
              in if err AND VM_FAULT_ERROR \<noteq> 0 then (err, None, s1)
                 else let (r, s2) = vmf_insert ops address tp s1 in (r, None, s2)))
        else if sym_offset = sym_pvclock_page img then
          (case pvclock_pfn env of
             None \<Rightarrow> (VM_FAULT_SIGBUS, None, s)
           | Some p \<Rightarrow> (let (r, s1) = vmf_insert ops address p s in (r, None, s1)))
        else if sym_offset = sym_hvclock_page img then
          (case hvclock_pfn env of
             None \<Rightarrow> (VM_FAULT_SIGBUS, None, s)
           | Some p \<Rightarrow> (let (r, s1) = vmf_insert ops address p s in (r, None, s1)))
        else if sym_offset = sym_timens_page img then
          (case timens_pfn env of
             None \<Rightarrow> (VM_FAULT_SIGBUS, None, s)
           | Some _ \<Rightarrow> (let (r, s1) = vmf_insert ops address (vvar_pfn env) s in (r, None, s1)))
        else (VM_FAULT_SIGBUS, None, s)))"

text \<open>Storing bytes at a physical address.\<close>

definition phys_store :: "u64 \<Rightarrow> bytes \<Rightarrow> (u64 \<Rightarrow> u8) \<Rightarrow> u64 \<Rightarrow> u8" where
  "phys_store a bs m = (\<lambda>x. if unat (x - a) < length bs then bs ! unat (x - a) else m x)"

text \<open>
  \<open>task_phys\<close> is the physical address of the current \<open>task_struct\<close>, \<open>task_size\<close> its size. The
  information page holds four longs: the offset in the first page, a page count, the size and a
  magic number.
\<close>

definition task_info_bytes :: "u64 \<Rightarrow> u64 \<Rightarrow> bytes" where
  "task_info_bytes task_phys task_size =
     le_bytes 8 (task_phys AND mask 12) @ le_bytes 8 (6 :: u64) @ le_bytes 8 task_size @ le_bytes 8 (114514 :: u64)"

definition vtask_fault ::
  "mm_ops \<Rightarrow> u64 \<Rightarrow> u64 \<Rightarrow> u64 \<Rightarrow> u64 \<Rightarrow> vm_state \<Rightarrow> vm_fault_t \<times> u64 option \<times> vm_state" where
  "vtask_fault ops task_phys task_size pgoff address s =
    (let task_start_page = drop_bit PAGE_SHIFT task_phys
     in if TASK_STRUCT_PAGE_NUMBER < pgoff \<or> pgoff < 0 then (- 1, None, s)
        else if pgoff < TASK_STRUCT_PAGE_NUMBER
        then let (r, s1) = vmf_insert ops address (task_start_page + pgoff) s in (r, None, s1)
        else (case alloc_page ops s of
                None \<Rightarrow> (VM_FAULT_OOM, None, s)
              | Some p \<Rightarrow>
                  (0, Some p, s\<lparr>phys := phys_store (push_bit PAGE_SHIFT p) (task_info_bytes task_phys task_size) (phys s)\<rparr>)))"

section \<open>Mapping the area\<close>

definition vtask_len :: u64 where
  "vtask_len = TASK_STRUCT_PAGE_NUMBER * PAGE_BYTES + PAGE_BYTES"

definition map_vdso :: "mm_ops \<Rightarrow> bool \<Rightarrow> vdso_image \<Rightarrow> u64 \<Rightarrow> vm_state \<Rightarrow> int \<times> vm_state" where
  "map_vdso ops killed img addr0 s =
    (if killed then (- EINTR, s)
     else
     let addr1 = get_unmapped_area ops addr0 (image_size img - sym_vvar_start img) (vmas s);
         addr = addr1 + vtask_len
     in if IS_ERR_VALUE addr then (sint addr, s)
     else let text_start = addr - sym_vvar_start img
     in case install_special_mapping ops text_start (image_size img) VdsoMapping (vmas s) of
          Inl e \<Rightarrow> (e, s)
        | Inr m1 \<Rightarrow>
     (case install_special_mapping ops addr (- sym_vvar_start img) VvarMapping m1 of
          Inl e \<Rightarrow> (e, s\<lparr>vmas := do_munmap ops text_start (image_size img) m1\<rparr>)
        | Inr m2 \<Rightarrow>
     (case install_special_mapping ops (addr - vtask_len) vtask_len VtaskMapping m2 of
          Inl e \<Rightarrow> (e, s\<lparr>vmas := do_munmap ops addr (- sym_vvar_start img)
                                 (do_munmap ops text_start (image_size img) m2)\<rparr>)
        | Inr m3 \<Rightarrow> (0, s\<lparr>vmas := m3, context_vdso := text_start, context_image := Some img,
                         context_vtask := addr - vtask_len\<rparr>))))"

abbreviation (input) PMD_SIZE :: u64 where "PMD_SIZE \<equiv> 0x200000"
abbreviation (input) DEFAULT_MAP_WINDOW :: u64 where "DEFAULT_MAP_WINDOW \<equiv> 0x7FFFFFFFF000"

definition PAGE_ALIGN :: "u64 \<Rightarrow> u64" where
  "PAGE_ALIGN a = (a + 0xFFF) AND NOT (mask 12)"

definition vdso_addr :: "(u64 \<Rightarrow> u64) \<Rightarrow> u32 \<Rightarrow> u64 \<Rightarrow> u32 \<Rightarrow> u64" where
  "vdso_addr align_vdso_addr rnd start0 len =
    (let start = PAGE_ALIGN start0;
         end1 = (start + ucast len + PMD_SIZE - 1) AND NOT (mask 21);
         end2 = (if end1 \<ge> DEFAULT_MAP_WINDOW then DEFAULT_MAP_WINDOW else end1);
         end3 = end2 - ucast len;
         addr = (if end3 > start
                 then let offset = (ucast ((ucast rnd :: u64) mod (drop_bit PAGE_SHIFT (end3 - start) + 1)) :: u32)
                      in start + ucast (push_bit PAGE_SHIFT offset)
                 else start)
     in align_vdso_addr addr)"

definition map_vdso_randomized ::
  "mm_ops \<Rightarrow> (u64 \<Rightarrow> u64) \<Rightarrow> u32 \<Rightarrow> bool \<Rightarrow> u64 \<Rightarrow> vdso_image \<Rightarrow> vm_state \<Rightarrow> int \<times> vm_state" where
  "map_vdso_randomized ops align rnd killed start_stack img s =
     map_vdso ops killed img (vdso_addr align rnd start_stack (ucast (image_size img - sym_vvar_start img))) s"

definition map_vdso_once :: "mm_ops \<Rightarrow> bool \<Rightarrow> vdso_image \<Rightarrow> u64 \<Rightarrow> vm_state \<Rightarrow> int \<times> vm_state" where
  "map_vdso_once ops killed img addr s =
    (if \<exists>v \<in> set (vmas s). vm_special v = VdsoMapping \<or> vm_special v = VvarMapping then (- EEXIST, s)
     else map_vdso ops killed img addr s)"

definition arch_setup_additional_pages ::
  "mm_ops \<Rightarrow> (u64 \<Rightarrow> u64) \<Rightarrow> u32 \<Rightarrow> bool \<Rightarrow> bool \<Rightarrow> u64 \<Rightarrow> vdso_image \<Rightarrow> vm_state \<Rightarrow> int \<times> vm_state" where
  "arch_setup_additional_pages ops align rnd vdso64_enabled killed start_stack image64 s =
    (if \<not> vdso64_enabled then (0, s) else map_vdso_randomized ops align rnd killed start_stack image64 s)"

definition load_vdso32 :: "mm_ops \<Rightarrow> u32 \<Rightarrow> bool \<Rightarrow> vdso_image \<Rightarrow> vm_state \<Rightarrow> int \<times> vm_state" where
  "load_vdso32 ops vdso32_enabled killed image32 s =
    (if vdso32_enabled \<noteq> 1 then (0, s) else map_vdso ops killed image32 0 s)"

definition compat_arch_setup_additional_pages ::
  "mm_ops \<Rightarrow> (u64 \<Rightarrow> u64) \<Rightarrow> u32 \<Rightarrow> bool \<Rightarrow> u32 \<Rightarrow> bool \<Rightarrow> u64 \<Rightarrow> vdso_image \<Rightarrow> vdso_image \<Rightarrow> bool \<Rightarrow> vm_state \<Rightarrow> int \<times> vm_state" where
  "compat_arch_setup_additional_pages ops align rnd vdso64_enabled vdso32_enabled killed start_stack image_x32 image32 x32 s =
    (if x32 then (if \<not> vdso64_enabled then (0, s) else map_vdso_randomized ops align rnd killed start_stack image_x32 s)
     else load_vdso32 ops vdso32_enabled killed image32 s)"

text \<open>
  A move of the text by \<open>mremap\<close>: a 32-bit task that entered the kernel by \<open>int 0x80\<close> continues at the landing pad of the new
  place. \<open>ip\<close> is its saved instruction pointer, \<open>image32\<close> the 32-bit image. Then the test whether a task returns from
  a signal through the 32-bit image.
\<close>

definition vdso_fix_landing :: "bool \<Rightarrow> vdso_image \<Rightarrow> u64 \<Rightarrow> u64 \<Rightarrow> vm_state \<Rightarrow> u64" where
  "vdso_fix_landing in_ia32_syscall image32 new_start ip s =
    (if in_ia32_syscall \<and> context_image s = Some image32
     then let vdso_land = sym_int80_landing_pad image32;
              old_land_addr = vdso_land + context_vdso s
          in if ip = old_land_addr then new_start + vdso_land else ip
     else ip)"

definition vdso_mremap :: "bool \<Rightarrow> vdso_image \<Rightarrow> u64 \<Rightarrow> u64 \<Rightarrow> vm_state \<Rightarrow> int \<times> u64 \<times> vm_state" where
  "vdso_mremap in_ia32_syscall image32 new_start ip s =
    (0, vdso_fix_landing in_ia32_syscall image32 new_start ip s, s\<lparr>context_vdso := new_start\<rparr>)"

definition arch_syscall_is_vdso_sigreturn :: "bool \<Rightarrow> vdso_image \<Rightarrow> u64 \<Rightarrow> vm_state \<Rightarrow> bool" where
  "arch_syscall_is_vdso_sigreturn in_ia32_syscall image32 ip s \<longleftrightarrow>
    in_ia32_syscall \<and> context_image s = Some image32 \<and>
    (ip = context_vdso s + sym_vdso32_sigreturn_landing_pad image32 \<or>
     ip = context_vdso s + sym_vdso32_rt_sigreturn_landing_pad image32)"

text \<open>The removal of the \<open>[vvar]\<close> translations when a task joins a time namespace.\<close>

definition zap_page_range :: "vma \<Rightarrow> (u64 \<Rightarrow> u64 option) \<Rightarrow> u64 \<Rightarrow> u64 option" where
  "zap_page_range v pt = (\<lambda>p. if vpn (vm_start v) \<le> p \<and> p < vpn (vm_end v) then None else pt p)"

definition vdso_join_timens :: "vm_state \<Rightarrow> int \<times> vm_state" where
  "vdso_join_timens s =
     (0, s\<lparr>ptes := foldl (\<lambda>pt v. if vm_special v = VvarMapping then zap_page_range v pt else pt) (ptes s) (vmas s)\<rparr>)"

section \<open>User accesses\<close>

text \<open>
  A user access to a page that is not mapped calls the handler of the mapping it lies in; code 0
  makes the page fault code map the page the handler names, \<open>VM_FAULT_NOPAGE\<close> says that the
  handler has filled in the page table. Anything else is a signal to the process.
\<close>

record user_env =
  mm_calls :: mm_ops
  vvar_pages :: vvar_env
  cur_phys :: u64
  cur_size :: u64

definition run_fault :: "user_env \<Rightarrow> vma \<Rightarrow> u64 \<Rightarrow> vm_state \<Rightarrow> vm_state option" where
  "run_fault env v a s =
    (let pgoff = vpn (a - vm_start v);
         (r, page, s1) = (case vm_special v of
            VdsoMapping \<Rightarrow> vdso_fault pgoff s
          | VvarMapping \<Rightarrow> vvar_fault (mm_calls env) (vvar_pages env) pgoff a s
          | VtaskMapping \<Rightarrow> vtask_fault (mm_calls env) (cur_phys env) (cur_size env) pgoff a s)
     in if r = 0 then Some (s1\<lparr>ptes := (ptes s1)(vpn a := page)\<rparr>)
        else if r = VM_FAULT_NOPAGE then Some s1 else None)"

definition vma_contains :: "u64 \<Rightarrow> vma \<Rightarrow> bool" where
  "vma_contains a v \<longleftrightarrow> vm_start v \<le> a \<and> a < vm_end v"

definition touch :: "user_env \<Rightarrow> u64 \<Rightarrow> vm_state \<Rightarrow> vm_state option" where
  "touch env a s =
    (case ptes s (vpn a) of
       Some _ \<Rightarrow> Some s
     | None \<Rightarrow> (case find (vma_contains a) (vmas s) of None \<Rightarrow> None | Some v \<Rightarrow> run_fault env v a s))"

definition translate :: "u64 \<Rightarrow> vm_state \<Rightarrow> u64 option" where
  "translate a s = map_option (\<lambda>p. push_bit PAGE_SHIFT p OR (a AND mask 12)) (ptes s (vpn a))"

definition user_load :: "user_env \<Rightarrow> u64 \<Rightarrow> vm_state \<Rightarrow> (u8 \<times> vm_state) option" where
  "user_load env a s =
    (case touch env a s of
       None \<Rightarrow> None
     | Some s1 \<Rightarrow> (case translate a s1 of None \<Rightarrow> None | Some p \<Rightarrow> Some (phys s1 p, s1)))"

fun user_loads :: "user_env \<Rightarrow> u64 \<Rightarrow> nat \<Rightarrow> vm_state \<Rightarrow> (bytes \<times> vm_state) option" where
  "user_loads env a 0 s = Some ([], s)"
| "user_loads env a (Suc n) s =
    (case user_load env a s of
       None \<Rightarrow> None
     | Some (b, s1) \<Rightarrow> map_option (\<lambda>(bs, s2). (b # bs, s2)) (user_loads env (a + 1) n s1))"

text \<open>
  \<open>__vdso_get_task_struct_info\<close>: \<open>vdata\<close> is the address of the vDSO data, \<open>pid_off\<close> the offset of
  \<open>pid\<close> in \<open>task_struct\<close>. The result is the code, \<open>task_struct_ptr\<close> and \<open>pid\<close>; \<open>None\<close> is a signal.
\<close>

definition vdso_get_task_struct_info ::
  "user_env \<Rightarrow> u64 \<Rightarrow> u64 \<Rightarrow> bool \<Rightarrow> vm_state \<Rightarrow> (int \<times> u64 \<times> u32 \<times> vm_state) option" where
  "vdso_get_task_struct_info env vdata pid_off info_null s =
    (if info_null then Some (- 1, 0, 0, s)
     else if vdata = 0 then Some (- EINVAL, 0, 0, s)
     else let vinfo = push_bit PAGE_SHIFT (drop_bit PAGE_SHIFT vdata) - PAGE_BYTES
     in case user_loads env (vinfo + 24) 8 s of
          None \<Rightarrow> None
        | Some (judge, s1) \<Rightarrow>
          if (le_word judge :: u64) \<noteq> 114514 then Some (- 1, 0, 0, s1)
          else (case user_loads env vinfo 8 s1 of
            None \<Rightarrow> None
          | Some (off, s2) \<Rightarrow>
            (let ptr = vinfo - TASK_STRUCT_PAGE_NUMBER * PAGE_BYTES + le_word off
             in case user_loads env (ptr + pid_off) 4 s2 of
                  None \<Rightarrow> None
                | Some (p, s3) \<Rightarrow> Some (0, ptr, le_word p, s3))))"

section \<open>What the code relies on\<close>

definition disjoint_from :: "u64 \<Rightarrow> u64 \<Rightarrow> vma \<Rightarrow> bool" where
  "disjoint_from a b v \<longleftrightarrow> vm_end v \<le> a \<or> b \<le> vm_start v"

text \<open>
  A mapping of a range that does not wrap around is installed only where nothing is mapped; whether it wraps is not tested. Errors are negative.
  Unmapping the exact range of a mapping, all others being disjoint from it, removes that mapping alone.
\<close>

definition install_law :: "mm_ops \<Rightarrow> bool" where
  "install_law ops \<longleftrightarrow>
    (\<forall>a len k m e. install_special_mapping ops a len k m = Inl e \<longrightarrow> e < 0) \<and>
    (\<forall>a len k m m'. install_special_mapping ops a len k m = Inr m' \<longrightarrow>
       set m' = insert \<lparr>vm_start = a, vm_end = a + len, vm_special = k\<rparr> (set m) \<and>
       (a < a + len \<longrightarrow> (\<forall>v \<in> set m. disjoint_from a (a + len) v)))"

definition munmap_law :: "mm_ops \<Rightarrow> bool" where
  "munmap_law ops \<longleftrightarrow>
    (\<forall>a len m. (\<forall>v \<in> set m. vm_start v = a \<and> vm_end v = a + len \<or> disjoint_from a (a + len) v) \<longrightarrow>
       set (do_munmap ops a len m) = {v \<in> set m. \<not> (vm_start v = a \<and> vm_end v = a + len)})"

text \<open>Inserting a frame where nothing is mapped either fails with an error or fills in the entry.\<close>

definition insert_law :: "mm_ops \<Rightarrow> bool" where
  "insert_law ops \<longleftrightarrow>
    (\<forall>p f pt r pt'. insert_pfn ops p f pt = (r, pt') \<longrightarrow>
       (r = VM_FAULT_NOPAGE \<and> pt' = (if pt p = None then pt(p \<mapsto> f) else pt)) \<or>
       (r AND VM_FAULT_ERROR \<noteq> 0 \<and> r \<noteq> VM_FAULT_NOPAGE \<and> r \<noteq> 0 \<and> pt' = pt))"

section \<open>Mapping\<close>

lemma install_facts:
  assumes "install_law ops" "install_special_mapping ops a len k m = Inr m'"
  shows "set m' = insert \<lparr>vm_start = a, vm_end = a + len, vm_special = k\<rparr> (set m)"
    "a < a + len \<Longrightarrow> \<forall>v \<in> set m. disjoint_from a (a + len) v"
  using assms unfolding install_law_def by blast+

lemma install_error: "install_law ops \<Longrightarrow> install_special_mapping ops a len k m = Inl e \<Longrightarrow> e < 0"
  unfolding install_law_def by blast

text \<open>Removing what was just installed.\<close>

lemma munmap_install:
  assumes "munmap_law ops" "\<forall>v \<in> M. disjoint_from a (a + len) v" "a < a + len"
    and "set m' = insert \<lparr>vm_start = a, vm_end = a + len, vm_special = k\<rparr> M"
  shows "set (do_munmap ops a len m') = M"
proof -
  have "\<not> (vm_start v = a \<and> vm_end v = a + len)" if "v \<in> M" for v
    using assms(2,3) that by (auto simp: disjoint_from_def)
  moreover have "set (do_munmap ops a len m') = {v \<in> set m'. \<not> (vm_start v = a \<and> vm_end v = a + len)}"
    using assms(1,2,4) by (simp add: munmap_law_def)
  ultimately show ?thesis using assms(4) by auto
qed

text \<open>The error test comes after the addition, and an error code plus 24 KiB is a small address.\<close>

lemma IS_ERR_VALUE_unat: "IS_ERR_VALUE x \<longleftrightarrow> 2 ^ 64 - 4095 \<le> unat x"
  by (simp add: IS_ERR_VALUE_def word_le_nat_alt)

lemma error_plus_vtask_len: "IS_ERR_VALUE a \<Longrightarrow> \<not> IS_ERR_VALUE (a + vtask_len)"
  using unat_u64_less [of a] by (simp add: IS_ERR_VALUE_unat vtask_len_def unat_word_ariths mod_if, arith)

lemma IS_ERR_VALUE_neg: "IS_ERR_VALUE x \<Longrightarrow> sint x < 0"
  by (rule sint_neg_u64) (simp add: IS_ERR_VALUE_unat)

text \<open>The three mappings above the address \<open>a\<close> that the search returned.\<close>

definition vdso_layout :: "vdso_image \<Rightarrow> u64 \<Rightarrow> vma set" where
  "vdso_layout img a =
    {\<lparr>vm_start = a, vm_end = a + vtask_len, vm_special = VtaskMapping\<rparr>,
     \<lparr>vm_start = a + vtask_len, vm_end = a + vtask_len - sym_vvar_start img, vm_special = VvarMapping\<rparr>,
     \<lparr>vm_start = a + vtask_len - sym_vvar_start img,
       vm_end = a + vtask_len + (image_size img - sym_vvar_start img), vm_special = VdsoMapping\<rparr>}"

lemma same_vmas: "\<exists>m. s = s\<lparr>vmas := m\<rparr> \<and> set m = set (vmas s)" for s :: vm_state
  by (rule exI [of _ "vmas s"]) simp

text \<open>The three ranges above \<open>a\<close> are not empty and do not wrap around.\<close>

definition layout_fits :: "vdso_image \<Rightarrow> u64 \<Rightarrow> bool" where
  "layout_fits img a \<longleftrightarrow> a < a + vtask_len \<and> a + vtask_len < a + vtask_len - sym_vvar_start img \<and>
     a + vtask_len - sym_vvar_start img < a + vtask_len - sym_vvar_start img + image_size img"

text \<open>\<open>map_vdso\<close> ends by one of its error exits, or with all three mappings.\<close>

lemma map_vdso_exits:
  assumes laws: "install_law ops" "munmap_law ops" and run: "map_vdso ops killed img addr s = (ret, s')"
    and a: "a = get_unmapped_area ops addr (image_size img - sym_vvar_start img) (vmas s)"
  obtains (failed) m where "ret < 0" "s' = s\<lparr>vmas := m\<rparr>" "layout_fits img a \<Longrightarrow> set m = set (vmas s)"
  | (mapped) m1 m2 m3 where "ret = 0" "\<not> killed" "install_special_mapping ops (a + vtask_len - sym_vvar_start img) (image_size img) VdsoMapping (vmas s) = Inr m1"
      "install_special_mapping ops (a + vtask_len) (- sym_vvar_start img) VvarMapping m1 = Inr m2" "install_special_mapping ops a vtask_len VtaskMapping m2 = Inr m3"
      "s' = s\<lparr>vmas := m3, context_vdso := a + vtask_len - sym_vvar_start img, context_image := Some img, context_vtask := a\<rparr>"
proof -
  let ?t = "a + vtask_len - sym_vvar_start img" and ?b = "a + vtask_len" and ?n = "- sym_vvar_start img"
  note run' = run [unfolded map_vdso_def Let_def a [symmetric]]
  have same: thesis if "ret < 0" "s' = s" by (rule failed [OF that(1), of "vmas s"]) (simp_all add: that)
  show thesis
  proof (cases "killed \<or> IS_ERR_VALUE ?b")
    case True
    then show ?thesis using run' IS_ERR_VALUE_neg [of ?b] by (intro same) (auto split: if_splits)
  next
    case False
    show ?thesis
    proof (cases "install_special_mapping ops ?t (image_size img) VdsoMapping (vmas s)")
      case (Inl e)
      then show ?thesis using run' False install_error [OF laws(1) Inl] by (intro same) simp_all
    next
      case m1: (Inr m1)
      note i1 = install_facts [OF laws(1) m1]
      show ?thesis
      proof (cases "install_special_mapping ops ?b ?n VvarMapping m1")
        case (Inl e)
        show ?thesis
          by (rule failed [of "do_munmap ops ?t (image_size img) m1"])
            (use run' False m1 Inl install_error [OF laws(1) Inl] munmap_install [OF laws(2) i1(2) _ i1(1)] in \<open>simp_all add: layout_fits_def\<close>)
      next
        case m2: (Inr m2)
        note i2 = install_facts [OF laws(1) m2]
        show ?thesis
        proof (cases "install_special_mapping ops a vtask_len VtaskMapping m2")
          case (Inl e)
          show ?thesis
          proof (rule failed [of "do_munmap ops ?b ?n (do_munmap ops ?t (image_size img) m2)"])
            assume "layout_fits img a"
            then have l: "?b < ?b + ?n" "?t < ?t + image_size img" by (simp_all add: layout_fits_def)
            let ?v = "\<lparr>vm_start = ?b, vm_end = ?b + ?n, vm_special = VvarMapping\<rparr>"
            have "disjoint_from ?t (?t + image_size img) ?v" using i2(2) [OF l(1)] i1(1) by (auto simp: disjoint_from_def)
            then have m: "set (do_munmap ops ?t (image_size img) m2) = insert ?v (set (vmas s))"
              using i1(1) i1(2) [OF l(2)] i2(1) l(2) by (intro munmap_install [OF laws(2)]) auto
            show "set (do_munmap ops ?b ?n (do_munmap ops ?t (image_size img) m2)) = set (vmas s)"
              by (rule munmap_install [OF laws(2) _ l(1) m]) (use i2(2) [OF l(1)] i1(1) in auto)
          qed (use run' False m1 m2 Inl install_error [OF laws(1) Inl] in simp_all)
        next
          case m3: (Inr m3)
          show ?thesis by (rule mapped [OF _ _ m1 m2 m3]) (use run' False m1 m2 m3 in simp_all)
        qed
      qed
    qed
  qed
qed

lemma map_vdso_mapped:
  assumes laws: "install_law ops" and m: "install_special_mapping ops (a + vtask_len - sym_vvar_start img) (image_size img) VdsoMapping M = Inr m1"
      "install_special_mapping ops (a + vtask_len) (- sym_vvar_start img) VvarMapping m1 = Inr m2" "install_special_mapping ops a vtask_len VtaskMapping m2 = Inr m3"
  shows "set m3 = vdso_layout img a \<union> set M"
    "layout_fits img a \<Longrightarrow> \<forall>w \<in> vdso_layout img a. \<forall>v \<in> set M. disjoint_from (vm_start w) (vm_end w) v"
proof -
  let ?t = "a + vtask_len - sym_vvar_start img"
  note i1 = install_facts [OF laws m(1)] and i2 = install_facts [OF laws m(2)] and i3 = install_facts [OF laws m(3)]
  have e: "?t + image_size img = a + vtask_len + (image_size img - sym_vvar_start img)" "a + vtask_len + - sym_vvar_start img = ?t" by simp_all
  show "set m3 = vdso_layout img a \<union> set M"
    using i1(1) i2(1) i3(1) e by (simp only: vdso_layout_def Un_insert_left Un_empty_left)
  assume fits: "layout_fits img a"
  then have "\<forall>v \<in> set M. disjoint_from ?t (?t + image_size img) v" "\<forall>v \<in> set M. disjoint_from (a + vtask_len) ?t v"
    "\<forall>v \<in> set M. disjoint_from a (a + vtask_len) v"
    using i1(2) i2(2) i3(2) i1(1) i2(1) unfolding e(2) by (auto simp: layout_fits_def)
  then show "\<forall>w \<in> vdso_layout img a. \<forall>v \<in> set M. disjoint_from (vm_start w) (vm_end w) v"
    unfolding vdso_layout_def e(1) by auto
qed

section \<open>Reading the task structure from user space\<close>

text \<open>
  A process in which page \<open>V\<close> starts the \<open>[vtask]\<close> mapping, and a memory manager that does not run
  out of page table memory.
\<close>

definition vtask_mapped :: "u64 \<Rightarrow> vm_state \<Rightarrow> bool" where
  "vtask_mapped V s \<longleftrightarrow>
    (\<forall>x. unat x < 0x6000 \<longrightarrow> find (vma_contains (push_bit 12 V + x)) (vmas s) =
       Some \<lparr>vm_start = push_bit 12 V, vm_end = push_bit 12 V + vtask_len, vm_special = VtaskMapping\<rparr>)"

definition insert_succeeds :: "mm_ops \<Rightarrow> bool" where
  "insert_succeeds ops \<longleftrightarrow> (\<forall>p f pt. pt p = None \<longrightarrow> insert_pfn ops p f pt = (VM_FAULT_NOPAGE, pt(p \<mapsto> f)))"

text \<open>The pages of the task structure are mapped to its frames or not at all.\<close>

definition task_pages_ok :: "u64 \<Rightarrow> u64 \<Rightarrow> vm_state \<Rightarrow> bool" where
  "task_pages_ok V T s \<longleftrightarrow> (\<forall>k < 5. ptes s (V + k) = None \<or> ptes s (V + k) = Some (T + k))"

lemma vpn_area: "unat V * 4096 + 0x6000 < 2 ^ 64 \<Longrightarrow> unat x < 0x6000 \<Longrightarrow> vpn (push_bit 12 V + x) = V + vpn x"
  unfolding vpn_def by (rule drop_push_add) simp

lemma mask_area: "unat V * 4096 + 0x6000 < 2 ^ 64 \<Longrightarrow> unat x < 0x6000 \<Longrightarrow> (push_bit 12 V + x) AND mask 12 = x AND mask 12"
  for V x :: u64
  by (rule mask_push_add) simp

lemma vpn_less: "unat x < 0x5000 \<Longrightarrow> vpn x < 5"
  by (simp add: vpn_def word_less_nat_alt unat_page_number)

lemma frame_address: "push_bit 12 (T + vpn x) OR (x AND mask 12) = push_bit 12 T + x"
proof -
  have "push_bit 12 (T + vpn x) + (x AND mask 12) = push_bit 12 T + (push_bit 12 (drop_bit 12 x) + (x AND mask 12))"
    by (simp add: push_bit_add vpn_def)
  then show ?thesis by (simp only: push_or_mask page_split)
qed

lemma user_load_task:
  assumes "insert_succeeds (mm_calls env)" "vtask_mapped V s" "unat V * 4096 + 0x6000 < 2 ^ 64"
    and "T = vpn (cur_phys env)" "task_pages_ok V T s" "unat x < 0x5000"
  shows "user_load env (push_bit 12 V + x) s =
    Some (phys s (push_bit 12 T + x), s\<lparr>ptes := (ptes s)(V + vpn x \<mapsto> T + vpn x)\<rparr>)"
proof -
  let ?a = "push_bit 12 V + x" and ?s = "s\<lparr>ptes := (ptes s)(V + vpn x \<mapsto> T + vpn x)\<rparr>"
  have p: "vpn ?a = V + vpn x" "?a AND mask 12 = x AND mask 12" using vpn_area mask_area assms(3,6) by simp_all
  have k: "vpn x < 5" by (rule vpn_less [OF assms(6)])
  have "touch env ?a s = Some ?s"
  proof (cases "ptes s (V + vpn x)")
    case None
    with assms k p show ?thesis
      by (auto simp: touch_def vtask_mapped_def run_fault_def vtask_fault_def vmf_insert_def insert_succeeds_def
          vpn_def Let_def word_less_nat_alt)
  next
    case (Some f)
    then have "f = T + vpn x" using assms(5) k by (auto simp: task_pages_ok_def)
    with Some have "?s = s" by (simp add: fun_upd_idem)
    with Some p show ?thesis by (simp add: touch_def)
  qed
  moreover have "translate ?a ?s = Some (push_bit 12 T + x)"
    by (simp add: translate_def p frame_address)
  ultimately show ?thesis by (simp add: user_load_def)
qed

lemma task_pages_ok_upd: "task_pages_ok V T s \<Longrightarrow> task_pages_ok V T (s\<lparr>ptes := (ptes s)(V + k \<mapsto> T + k)\<rparr>)"
  by (auto simp: task_pages_ok_def)

text \<open>Reading \<open>n\<close> bytes at \<open>x\<close> maps the pages they lie in to the frames from \<open>T\<close> on.\<close>

definition fill_pages :: "u64 \<Rightarrow> u64 \<Rightarrow> u64 \<Rightarrow> nat \<Rightarrow> vm_state \<Rightarrow> vm_state" where
  "fill_pages V T x n s = s\<lparr>ptes := (\<lambda>q. if \<exists>i < n. q = V + vpn (x + of_nat i) then Some (T + (q - V)) else ptes s q)\<rparr>"

lemma fill_pages_Suc:
  "fill_pages V T (x + 1) n (s\<lparr>ptes := (ptes s)(V + vpn x \<mapsto> T + vpn x)\<rparr>) = fill_pages V T x (Suc n) s"
proof -
  have "(\<exists>i < Suc n. q = V + vpn (x + of_nat i)) \<longleftrightarrow> q = V + vpn x \<or> (\<exists>i < n. q = V + vpn (x + 1 + of_nat i))" for q
    unfolding Ex_less_Suc2 by (simp add: add.assoc)
  then show ?thesis by (cases s) (auto simp: fill_pages_def fun_eq_iff)
qed

lemma user_loads_task:
  assumes "insert_succeeds (mm_calls env)" "unat V * 4096 + 0x6000 < 2 ^ 64" "T = vpn (cur_phys env)"
    and "vtask_mapped V s" "task_pages_ok V T s" "unat x + n \<le> 0x5000"
  shows "user_loads env (push_bit 12 V + x) n s =
      Some (map (\<lambda>i. phys s (push_bit 12 T + x + of_nat i)) [0..<n], fill_pages V T x n s)"
  using assms(4-6)
proof (induction n arbitrary: x s)
  case 0
  then show ?case by (simp add: fill_pages_def)
next
  case (Suc n)
  let ?s = "s\<lparr>ptes := (ptes s)(V + vpn x \<mapsto> T + vpn x)\<rparr>"
  have x: "unat x < 0x5000" using Suc.prems by simp
  then have "unat (x + 1) = unat x + 1" by (simp add: unat_word_ariths)
  moreover have "vtask_mapped V ?s" using Suc.prems(1) by (simp add: vtask_mapped_def)
  ultimately have s': "user_loads env (push_bit 12 V + (x + 1)) n ?s =
      Some (map (\<lambda>i. phys ?s (push_bit 12 T + (x + 1) + of_nat i)) [0..<n], fill_pages V T x (Suc n) s)"
    using Suc.IH [of ?s "x + 1"] Suc.prems task_pages_ok_upd fill_pages_Suc [of V T x n s] by fastforce
  have "map (\<lambda>i. phys s (push_bit 12 T + x + of_nat i)) [0..<Suc n] =
      phys s (push_bit 12 T + x) # map (\<lambda>i. phys s (push_bit 12 T + (x + 1) + of_nat i)) [0..<n]"
    by (simp add: upt_conv_Cons map_Suc_upt [symmetric] algebra_simps del: upt_Suc)
  with s' user_load_task [OF assms(1) Suc.prems(1) assms(2,3) Suc.prems(2) x] show ?case
    by (simp add: algebra_simps del: upt_Suc)
qed

text \<open>The information page, once it is mapped to frame \<open>p\<close>.\<close>

lemma user_loads_info:
  assumes "unat V * 4096 + 0x6000 < 2 ^ 64" "ptes s (V + 5) = Some p" "unat y + n \<le> 4096"
  shows "user_loads env (push_bit 12 V + 0x5000 + y) n s =
    Some (map (\<lambda>i. phys s (push_bit 12 p + y + of_nat i)) [0..<n], s)"
  using assms(3)
proof (induction n arbitrary: y)
  case 0
  then show ?case by simp
next
  case (Suc n)
  let ?a = "push_bit 12 V + (0x5000 + y)"
  have y: "unat y < 4096" using Suc.prems by simp
  then have x: "unat (0x5000 + y) = 0x5000 + unat y" by (simp add: unat_word_ariths)
  have five: "vpn (0x5000 + y) = 5" "vpn y = 0"
    using x y by (simp_all add: vpn_def unat_page_number word_unat_eq_iff)
  have off: "(0x5000 + y) AND mask 12 = y AND mask 12"
    using mask_push_add [of 5 12 y] y by simp
  have "vpn ?a = V + 5" "?a AND mask 12 = y AND mask 12"
    using vpn_area [OF assms(1), of "0x5000 + y"] mask_area [OF assms(1), of "0x5000 + y"] x y off five by simp_all
  then have ld: "user_load env ?a s = Some (phys s (push_bit 12 p + y), s)"
    using assms(2) frame_address [of p y] five by (simp add: user_load_def touch_def translate_def)
  have "unat (y + 1) = unat y + 1" using y by (simp add: unat_word_ariths)
  then have "user_loads env (push_bit 12 V + 0x5000 + (y + 1)) n s =
      Some (map (\<lambda>i. phys s (push_bit 12 p + (y + 1) + of_nat i)) [0..<n], s)"
    using Suc.IH [of "y + 1"] Suc.prems by simp
  moreover have "map (\<lambda>i. phys s (push_bit 12 p + y + of_nat i)) [0..<Suc n] =
      phys s (push_bit 12 p + y) # map (\<lambda>i. phys s (push_bit 12 p + (y + 1) + of_nat i)) [0..<n]"
    by (simp add: upt_conv_Cons map_Suc_upt [symmetric] algebra_simps del: upt_Suc)
  ultimately show ?case using ld by (simp add: algebra_simps del: upt_Suc)
qed

lemma phys_store_in: "unat y < length bs \<Longrightarrow> phys_store a bs m (a + y) = bs ! unat y"
  by (simp add: phys_store_def)

lemma phys_store_loads:
  assumes "unat y + n \<le> length bs" "length bs \<le> 4096"
  shows "map (\<lambda>i. phys_store a bs m (a + y + of_nat i)) [0..<n] = take n (drop (unat y) bs)"
proof (rule nth_equalityI)
  fix i assume "i < length (map (\<lambda>i. phys_store a bs m (a + y + of_nat i)) [0..<n])"
  then have i: "i < n" by simp
  then have "unat (of_nat i :: u64) = i" using assms by (simp add: unat_of_nat)
  then have "unat (y + of_nat i) = unat y + i" using i assms by (simp add: unat_word_ariths)
  then show "map (\<lambda>i. phys_store a bs m (a + y + of_nat i)) [0..<n] ! i = take n (drop (unat y) bs) ! i"
    using i assms phys_store_in [of "y + of_nat i" bs a m] by (simp add: algebra_simps)
qed (use assms in simp)

lemma user_loads_touch:
  assumes "touch env a s = Some s1" "touch env a s1 = Some s1" "0 < n"
  shows "user_loads env a n s = user_loads env a n s1"
  using assms by (cases n) (simp_all add: user_load_def)

lemma touch_info:
  assumes "vtask_mapped V s" "unat V * 4096 + 0x6000 < 2 ^ 64" "ptes s (V + 5) = None"
    and "alloc_page (mm_calls env) s = Some p" "unat y < 4096"
  shows "touch env (push_bit 12 V + 0x5000 + y) s =
    Some (s\<lparr>phys := phys_store (push_bit 12 p) (task_info_bytes (cur_phys env) (cur_size env)) (phys s),
            ptes := (ptes s)(V + 5 \<mapsto> p)\<rparr>)"
proof -
  let ?x = "0x5000 + y"
  have x: "unat ?x = 0x5000 + unat y" using assms(5) by (simp add: unat_word_ariths)
  then have five: "vpn ?x = 5" using assms(5) by (simp add: vpn_def unat_page_number word_unat_eq_iff)
  have "vpn (push_bit 12 V + ?x) = V + 5" "find (vma_contains (push_bit 12 V + ?x)) (vmas s) =
      Some \<lparr>vm_start = push_bit 12 V, vm_end = push_bit 12 V + vtask_len, vm_special = VtaskMapping\<rparr>"
    using vpn_area [OF assms(2), of ?x] assms(1,5) x five by (simp_all add: vtask_mapped_def)
  then show ?thesis
    using assms(3,4) five by (simp add: touch_def run_fault_def vtask_fault_def Let_def add.assoc)
qed

lemma phys_store_other_frame:
  assumes "unat p * 4096 + 4096 \<le> 2 ^ 64" "unat T * 4096 + 0x6000 < 2 ^ 64" "unat z < 0x5000"
    and "\<forall>k < 5. p \<noteq> T + k" "length bs \<le> 4096"
  shows "phys_store (push_bit 12 p) bs m (push_bit 12 T + z) = m (push_bit 12 T + z)"
proof -
  let ?d = "push_bit 12 T + z - push_bit 12 p"
  have "\<not> unat ?d < length bs"
  proof
    assume d: "unat ?d < length bs"
    then have "unat p * 2 ^ 12 + unat ?d < 2 ^ LENGTH(64)" using assms(1,5) by simp
    then have "vpn (push_bit 12 p + ?d) = p + vpn ?d" unfolding vpn_def by (rule drop_push_add)
    moreover have "vpn ?d = 0" using d assms(5) by (simp add: vpn_def unat_page_number word_unat_eq_iff)
    moreover have "vpn (push_bit 12 T + z) = T + vpn z" using vpn_area assms(2,3) by simp
    ultimately have "p = T + vpn z" by simp
    then show False using assms(4) vpn_less [OF assms(3)] by blast
  qed
  then show ?thesis by (simp add: phys_store_def)
qed

lemma task_info_bytes_parts:
  "length (task_info_bytes t n) = 32" "take 8 (task_info_bytes t n) = le_bytes 8 (t AND mask 12)"
  "take 8 (drop 24 (task_info_bytes t n)) = le_bytes 8 (114514 :: u64)"
  by (simp_all add: task_info_bytes_def)

lemma get_task_info_correct:
  assumes "insert_succeeds (mm_calls env)" "vtask_mapped V s" "unat V * 4096 + 0x6000 < 2 ^ 64"
    and "ptes s (V + 5) = None" "task_pages_ok V (vpn (cur_phys env)) s"
    and alloc: "alloc_page (mm_calls env) s = Some p" "unat p * 4096 + 4096 \<le> 2 ^ 64"
      "\<forall>k < 5. p \<noteq> vpn (cur_phys env) + k"
    and fits: "unat (cur_phys env AND mask 12) + unat pid_off + 4 \<le> 0x5000" "unat (vpn (cur_phys env)) * 4096 + 0x6000 < 2 ^ 64"
    and vdata: "vpn vdata = V + 6" "vdata \<noteq> 0"
  shows "vdso_get_task_struct_info env vdata pid_off False s =
    Some (0, push_bit 12 V + (cur_phys env AND mask 12),
          le_word (map (\<lambda>i. phys s (cur_phys env + pid_off + of_nat i)) [0..<4]),
          fill_pages V (vpn (cur_phys env)) ((cur_phys env AND mask 12) + pid_off) 4
            (s\<lparr>phys := phys_store (push_bit 12 p) (task_info_bytes (cur_phys env) (cur_size env)) (phys s),
               ptes := (ptes s)(V + 5 \<mapsto> p)\<rparr>))"
proof -
  let ?T = "vpn (cur_phys env)" and ?off = "cur_phys env AND mask 12" and ?vi = "push_bit 12 V + 0x5000"
  let ?bs = "task_info_bytes (cur_phys env) (cur_size env)"
  let ?s1 = "s\<lparr>phys := phys_store (push_bit 12 p) ?bs (phys s), ptes := (ptes s)(V + 5 \<mapsto> p)\<rparr>"
  have vi: "push_bit 12 (drop_bit 12 vdata) - 4096 = ?vi"
    using vdata(1) by (simp add: vpn_def push_bit_add)
  have pte: "ptes ?s1 (V + 5) = Some p" by simp
  have t: "touch env (?vi + 24) s = Some ?s1"
    using touch_info [OF assms(2,3,4) alloc(1), of 24] by simp
  have "vpn (push_bit 12 V + 0x5018) = V + vpn 0x5018" using assms(3) by (intro vpn_area) simp_all
  moreover have "?vi + 24 = push_bit 12 V + 0x5018" "vpn 0x5018 = 5" by (simp_all add: vpn_def)
  ultimately have "vpn (?vi + 24) = V + 5" by (simp only:)
  then have t1: "touch env (?vi + 24) ?s1 = Some ?s1" by (simp add: touch_def)
  have j: "user_loads env (?vi + 24) 8 s = Some (le_bytes 8 (114514 :: u64), ?s1)"
    using user_loads_touch [OF t t1, of 8] user_loads_info [OF assms(3) pte, of 24 8 env]
      phys_store_loads [of 24 8 ?bs "push_bit 12 p" "phys s"] by (simp add: task_info_bytes_parts)
  have o: "user_loads env ?vi 8 ?s1 = Some (le_bytes 8 ?off, ?s1)"
    using user_loads_info [OF assms(3) pte, of 0 8 env]
      phys_store_loads [of 0 8 ?bs "push_bit 12 p" "phys s"] by (simp add: task_info_bytes_parts)
  have ok1: "vtask_mapped V ?s1" "task_pages_ok V ?T ?s1"
    using assms(2,5) by (auto simp: vtask_mapped_def task_pages_ok_def)
  have "unat (?off + pid_off) = unat ?off + unat pid_off"
    using fits(1) by (simp add: unat_word_ariths)
  then have fit: "unat (?off + pid_off) + 4 \<le> 0x5000" using fits(1) by simp
  let ?s2 = "fill_pages V ?T (?off + pid_off) 4 ?s1"
  have s': "user_loads env (push_bit 12 V + (?off + pid_off)) 4 ?s1 =
      Some (map (\<lambda>i. phys ?s1 (push_bit 12 ?T + (?off + pid_off) + of_nat i)) [0..<4], ?s2)"
    using user_loads_task [OF assms(1,3) refl ok1 fit] .
  have same: "phys ?s1 (push_bit 12 ?T + (?off + pid_off) + of_nat i) = phys s (cur_phys env + pid_off + of_nat i)"
    if "i < 4" for i
  proof -
    let ?z = "?off + pid_off + of_nat i"
    have "unat (of_nat i :: u64) = i" using that by (simp add: unat_of_nat)
    then have "unat ?z = unat (?off + pid_off) + i" using fit that by (simp add: unat_word_ariths)
    then have "unat ?z < 0x5000" using fit that by simp
    then have "phys ?s1 (push_bit 12 ?T + ?z) = phys s (push_bit 12 ?T + ?z)"
      using phys_store_other_frame [OF alloc(2) fits(2) _ alloc(3), of ?z ?bs "phys s"] by (simp add: task_info_bytes_parts)
    moreover have "push_bit 12 ?T + ?off = cur_phys env" by (simp add: vpn_def page_split)
    ultimately show ?thesis by (simp add: add.assoc [symmetric])
  qed
  have "map (\<lambda>i. phys ?s1 (push_bit 12 ?T + (?off + pid_off) + of_nat i)) [0..<4] =
      map (\<lambda>i. phys s (cur_phys env + pid_off + of_nat i)) [0..<4]"
    by (rule map_cong [OF refl]) (use same in auto)
  with s' have pid: "user_loads env (push_bit 12 V + ?off + pid_off) 4 ?s1 =
      Some (map (\<lambda>i. phys s (cur_phys env + pid_off + of_nat i)) [0..<4], ?s2)"
    by (simp only: add.assoc)
  have ptr: "?vi - 5 * 4096 + ?off = push_bit 12 V + ?off" by simp
  have words: "(le_word (le_bytes 8 (114514 :: u64)) :: u64) = 114514" "(le_word (le_bytes 8 ?off) :: u64) = ?off"
    by (simp_all add: le_word_le_bytes)
  show ?thesis
    using vdata(2)
    by (simp only: vdso_get_task_struct_info_def Let_def vi j o option.case prod.case words ptr pid) simp
qed

text \<open>A later reader, whoever it is, finds the pages mapped: no fault happens, and it reads what they hold.\<close>

lemma user_loads_present:
  assumes "unat V * 4096 + 0x6000 < 2 ^ 64" "\<forall>i < n. ptes s (V + vpn (x + of_nat i)) = Some (T + vpn (x + of_nat i))"
    and "unat x + n \<le> 0x5000"
  shows "user_loads env (push_bit 12 V + x) n s = Some (map (\<lambda>i. phys s (push_bit 12 T + x + of_nat i)) [0..<n], s)"
  using assms(2,3)
proof (induction n arbitrary: x)
  case 0
  then show ?case by simp
next
  case (Suc n)
  let ?a = "push_bit 12 V + x"
  have x: "unat x < 0x5000" using Suc.prems by simp
  then have p: "vpn ?a = V + vpn x" "?a AND mask 12 = x AND mask 12" using vpn_area mask_area assms(1) by simp_all
  have pte: "ptes s (V + vpn x) = Some (T + vpn x)" using Suc.prems(1) [rule_format, of 0] by simp
  have ld: "user_load env ?a s = Some (phys s (push_bit 12 T + x), s)"
    using pte p frame_address [of T x] by (simp add: user_load_def touch_def translate_def)
  have "unat (x + 1) = unat x + 1" using x by (simp add: unat_word_ariths)
  moreover have "\<forall>i < n. ptes s (V + vpn (x + 1 + of_nat i)) = Some (T + vpn (x + 1 + of_nat i))"
    using Suc.prems(1) unfolding All_less_Suc2 by (simp add: add.assoc)
  ultimately have "user_loads env (push_bit 12 V + (x + 1)) n s = Some (map (\<lambda>i. phys s (push_bit 12 T + (x + 1) + of_nat i)) [0..<n], s)"
    using Suc.IH [of "x + 1"] Suc.prems by simp
  moreover have "map (\<lambda>i. phys s (push_bit 12 T + x + of_nat i)) [0..<Suc n] =
      phys s (push_bit 12 T + x) # map (\<lambda>i. phys s (push_bit 12 T + (x + 1) + of_nat i)) [0..<n]"
    by (simp add: upt_conv_Cons map_Suc_upt [symmetric] algebra_simps del: upt_Suc)
  ultimately show ?case using ld by (simp add: algebra_simps del: upt_Suc)
qed

lemma later_reader:
  assumes V: "unat V * 4096 + 0x6000 < 2 ^ 64"
    and info: "ptes c (V + 5) = Some p" "\<forall>y. unat y < 32 \<longrightarrow> phys c (push_bit 12 p + y) = task_info_bytes t n ! unat y"
    and pid: "\<forall>i < 4. ptes c (V + vpn ((t AND mask 12) + pid_off + of_nat i)) = Some (vpn t + vpn ((t AND mask 12) + pid_off + of_nat i))"
    and fits: "unat (t AND mask 12) + unat pid_off + 4 \<le> 0x5000"
    and vdata: "vpn vdata = V + 6" "vdata \<noteq> 0"
  shows "vdso_get_task_struct_info env vdata pid_off False c =
    Some (0, push_bit 12 V + (t AND mask 12), le_word (map (\<lambda>i. phys c (t + pid_off + of_nat i)) [0..<4]), c)"
proof -
  let ?off = "t AND mask 12" and ?vi = "push_bit 12 V + 0x5000" and ?bs = "task_info_bytes t n"
  have vi: "push_bit 12 (drop_bit 12 vdata) - 4096 = ?vi" using vdata(1) by (simp add: vpn_def push_bit_add)
  have bytes: "map (\<lambda>i. phys c (push_bit 12 p + y + of_nat i)) [0..<8] = take 8 (drop (unat y) ?bs)" if "unat y + 8 \<le> 32" for y
  proof (rule nth_equalityI)
    fix i assume "i < length (map (\<lambda>i. phys c (push_bit 12 p + y + of_nat i)) [0..<8])"
    then have i: "i < 8" by simp
    then have "unat (of_nat i :: u64) = i" by (simp add: unat_of_nat)
    then have "unat (y + of_nat i) = unat y + i" using i that by (simp add: unat_word_ariths)
    then show "map (\<lambda>i. phys c (push_bit 12 p + y + of_nat i)) [0..<8] ! i = take 8 (drop (unat y) ?bs) ! i"
      using i that info(2) [rule_format, of "y + of_nat i"] by (simp add: task_info_bytes_parts add.assoc)
  qed (use that in \<open>simp add: task_info_bytes_parts\<close>)
  have j: "user_loads env (?vi + 24) 8 c = Some (le_bytes 8 (114514 :: u64), c)"
    using user_loads_info [OF V info(1), of 24 8 env] bytes [of 24] by (simp add: task_info_bytes_parts)
  have o: "user_loads env ?vi 8 c = Some (le_bytes 8 ?off, c)"
    using user_loads_info [OF V info(1), of 0 8 env] bytes [of 0] by (simp add: task_info_bytes_parts)
  have "unat (?off + pid_off) = unat ?off + unat pid_off" using fits by (simp add: unat_word_ariths)
  then have "user_loads env (push_bit 12 V + (?off + pid_off)) 4 c =
      Some (map (\<lambda>i. phys c (push_bit 12 (vpn t) + (?off + pid_off) + of_nat i)) [0..<4], c)"
    using user_loads_present [OF V pid] fits by simp
  moreover have "push_bit 12 (vpn t) + ?off = t" by (simp add: vpn_def page_split)
  ultimately have pd: "user_loads env (push_bit 12 V + ?off + pid_off) 4 c = Some (map (\<lambda>i. phys c (t + pid_off + of_nat i)) [0..<4], c)"
    by (simp add: add.assoc [symmetric])
  have ptr: "?vi - 5 * 4096 + ?off = push_bit 12 V + ?off" by simp
  have words: "(le_word (le_bytes 8 (114514 :: u64)) :: u64) = 114514" "(le_word (le_bytes 8 ?off) :: u64) = ?off"
    by (simp_all add: le_word_le_bytes)
  show ?thesis
    using vdata(2)
    by (simp only: vdso_get_task_struct_info_def Let_def vi j o option.case prod.case words ptr pd) simp
qed

text \<open>A 32-bit task that waits at the landing pad is at the landing pad after a move, any other one where it was.\<close>

lemma vdso_mremap_landing:
  assumes "vdso_mremap in_ia32 image32 new_start ip s = (r, ip', s')" "context_image s = Some image32"
  shows "r = 0" "context_vdso s' = new_start" "context_image s' = context_image s"
    "ip' - context_vdso s' = ip - context_vdso s \<or> ip' = ip"
    "in_ia32 \<Longrightarrow> ip = context_vdso s + sym_int80_landing_pad image32 \<Longrightarrow> ip' = context_vdso s' + sym_int80_landing_pad image32"
  using assms by (auto simp: vdso_mremap_def vdso_fix_landing_def Let_def add.commute split: if_splits)

section \<open>The random address\<close>

lemma unat_PAGE_ALIGN:
  "unat a + 0xFFF < 2 ^ 64 \<Longrightarrow> unat (PAGE_ALIGN a) = (unat a + 0xFFF) div 4096 * 4096"
  using unat_and_not_mask [of "a + 0xFFF" 12] by (simp add: PAGE_ALIGN_def unat_word_ariths)

lemma vdso_end_address:
  assumes "unat start < 2 ^ 47" "unat len \<le> 2 ^ 21"
  shows "unat ((start + ucast (len :: u32) + 0x200000 - 1) AND NOT (mask 21) :: u64) =
    (unat start + unat len + 0x1FFFFF) div 0x200000 * 0x200000"
proof -
  have sum: "unat (start + ucast len + 0x1FFFFF :: u64) = unat start + unat len + 0x1FFFFF"
    using assms by (simp add: unat_word_ariths)
  have eq: "start + ucast len + 0x200000 - 1 = start + ucast len + (0x1FFFFF :: u64)" by simp
  show ?thesis unfolding eq unat_and_not_mask sum by simp
qed

lemma random_page_offset:
  fixes rnd :: u32 and d :: u64
  assumes "unat d \<le> 0x1FFFFF"
  shows "\<exists>k. k * 4096 \<le> unat d \<and>
    unat (ucast (push_bit 12 (ucast ((ucast rnd :: u64) mod (drop_bit 12 d + 1)) :: u32)) :: u64) = k * 4096"
proof -
  let ?m = "(ucast rnd :: u64) mod (drop_bit 12 d + 1)"
  have q: "unat (drop_bit 12 d) = unat d div 4096" using unat_page_number [of 12 d] by simp
  have "unat d div 4096 \<le> 511" using assms by simp
  then have q1: "unat (drop_bit 12 d + 1) = unat d div 4096 + 1" by (simp add: unat_word_ariths q)
  have "unat ?m < unat d div 4096 + 1" by (simp add: unat_mod_distrib q1)
  then have m: "unat ?m \<le> unat d div 4096" by simp
  then have "unat ?m \<le> 511" using \<open>unat d div 4096 \<le> 511\<close> by simp
  then have u: "unat (ucast ?m :: u32) = unat ?m" by (simp add: unsigned_ucast_eq take_bit_nat_eq_self)
  have "unat (push_bit 12 (ucast ?m :: u32)) = unat ?m * 4096"
    using unat_page_address [of "ucast ?m :: u32" 12] u \<open>unat ?m \<le> 511\<close> by simp
  moreover have "unat ?m * 4096 \<le> unat d" using m by (simp add: less_eq_div_iff_mult_less_eq)
  ultimately show ?thesis by (intro exI [of _ "unat ?m"]) simp
qed

lemma vdso_addr_in_range:
  assumes "unat start0 < 0x7FFFFFFFE000" "unat len \<le> 2 ^ 21"
    and r: "r = vdso_addr (\<lambda>a. a) rnd start0 len"
  shows "4096 dvd unat r" "unat start0 \<le> unat r" "unat r < unat start0 + 4096 \<or>
    unat r + unat len \<le> min 0x7FFFFFFFF000 ((unat (PAGE_ALIGN start0) + unat len + 0x1FFFFF) div 0x200000 * 0x200000)"
proof -
  let ?S = "PAGE_ALIGN start0" and ?L = "unat len"
  let ?E1 = "(?S + ucast len + 0x200000 - 1) AND NOT (mask 21) :: u64"
  let ?E2 = "if 0x7FFFFFFFF000 \<le> ?E1 then 0x7FFFFFFFF000 else ?E1"
  let ?E3 = "?E2 - ucast len"
  have S: "unat ?S = (unat start0 + 0xFFF) div 4096 * 4096" using assms(1) by (simp add: unat_PAGE_ALIGN)
  then have S1: "unat start0 \<le> unat ?S" "unat ?S < unat start0 + 4096" "4096 dvd unat ?S" by simp_all
  have E1: "unat ?E1 = (unat ?S + ?L + 0x1FFFFF) div 0x200000 * 0x200000"
    using assms S1 by (intro vdso_end_address) simp_all
  have E2: "unat ?E2 = min 0x7FFFFFFFF000 (unat ?E1)" by (simp add: word_le_nat_alt min_def)
  have "unat ?S + ?L \<le> unat ?E1" "unat ?E1 \<le> unat ?S + ?L + 0x1FFFFF" using E1 by simp_all
  then have le: "?L \<le> unat ?E2" using assms(2) E2 by simp
  then have E3: "unat ?E3 = unat ?E2 - ?L" by (simp add: unat_sub word_le_nat_alt)
  have bound: "unat ?E2 = min 0x7FFFFFFFF000 ((unat (PAGE_ALIGN start0) + unat len + 0x1FFFFF) div 0x200000 * 0x200000)"
    using E1 E2 by simp
  have "4096 dvd unat r \<and> unat start0 \<le> unat r \<and> (unat r < unat start0 + 4096 \<or> unat r + ?L \<le> unat ?E2)"
  proof (cases "?S < ?E3")
    case False
    have "r = ?S" unfolding r vdso_addr_def Let_def by (rule if_not_P [OF False])
    with S1 show ?thesis by simp
  next
    case True
    let ?d = "?E3 - ?S"
    have d: "unat ?d = unat ?E3 - unat ?S" using True by (simp add: unat_sub less_imp_le)
    then have "unat ?d \<le> 0x1FFFFF" using E3 E2 \<open>unat ?E1 \<le> unat ?S + ?L + 0x1FFFFF\<close> by simp
    then obtain k where k: "k * 4096 \<le> unat ?d"
        "unat (ucast (push_bit 12 (ucast ((ucast rnd :: u64) mod (drop_bit 12 ?d + 1)) :: u32)) :: u64) = k * 4096"
      using random_page_offset by blast
    have "r = ?S + ucast (push_bit 12 (ucast ((ucast rnd :: u64) mod (drop_bit 12 ?d + 1)) :: u32))"
      unfolding r vdso_addr_def Let_def by (rule if_P [OF True])
    moreover have "unat ?S + k * 4096 < 2 ^ 64" using k(1) d True unat_u64_less [of ?E3] by (simp add: word_less_nat_alt)
    ultimately have ur: "unat r = unat ?S + k * 4096" using k(2) by (simp add: unat_word_ariths)
    have "unat ?S < unat ?E3" using True by (simp add: word_less_nat_alt)
    then have "unat r \<le> unat ?E3" using ur k(1) d by simp
    then have "unat r + ?L \<le> unat ?E2" using E3 le by simp
    then show ?thesis using ur S1 by (simp add: dvd_add)
  qed
  then show "4096 dvd unat r" "unat start0 \<le> unat r" "unat r < unat start0 + 4096 \<or>
    unat r + unat len \<le> min 0x7FFFFFFFF000 ((unat (PAGE_ALIGN start0) + unat len + 0x1FFFFF) div 0x200000 * 0x200000)"
    unfolding bound [symmetric] by blast+
qed

section \<open>Time namespaces\<close>

text \<open>
  An image whose \<open>[vvar]\<close> area has \<open>n\<close> pages before the text; the data page, the time namespace
  page and the two clock pages are at different page offsets in it.
\<close>

definition vvar_image_ok :: "vdso_image \<Rightarrow> u64 \<Rightarrow> u64 \<Rightarrow> u64 \<Rightarrow> bool" where
  "vvar_image_ok img n kv kt \<longleftrightarrow> n < 16 \<and> kv < n \<and> kt < n \<and> kv \<noteq> kt \<and>
     sym_vvar_start img = - push_bit 12 n \<and> sym_vvar_page img = sym_vvar_start img + push_bit 12 kv \<and>
     sym_timens_page img = sym_vvar_start img + push_bit 12 kt \<and>
     sym_pvclock_page img \<notin> {sym_vvar_page img, sym_timens_page img} \<and>
     sym_hvclock_page img \<notin> {sym_vvar_page img, sym_timens_page img}"

text \<open>
  A process whose \<open>[vvar]\<close> mapping starts at page \<open>W\<close>: it faults on pages of the area and joins time
  namespaces (which replaces the namespace's page and drops the translations).
\<close>

inductive vvar_reach :: "mm_ops \<Rightarrow> vdso_image \<Rightarrow> u64 \<Rightarrow> u64 \<Rightarrow> vvar_env \<Rightarrow> vm_state \<Rightarrow> bool" for ops img W n where
  start: "context_image s = Some img \<Longrightarrow>
    \<lparr>vm_start = push_bit 12 W, vm_end = push_bit 12 (W + n), vm_special = VvarMapping\<rparr> \<in> set (vmas s) \<Longrightarrow>
    (\<And>k. k < n \<Longrightarrow> ptes s (W + k) = None) \<Longrightarrow> vvar_reach ops img W n env s"
| fault: "vvar_reach ops img W n env s \<Longrightarrow> k < n \<Longrightarrow>
    vvar_fault ops env k (push_bit 12 (W + k)) s = (r, page, s') \<Longrightarrow> vvar_reach ops img W n env s'"
| join: "vvar_reach ops img W n env s \<Longrightarrow> vdso_join_timens s = (ret, s') \<Longrightarrow>
    vvar_reach ops img W n (env\<lparr>timens_pfn := t\<rparr>) s'"

definition vvar_inv :: "vdso_image \<Rightarrow> u64 \<Rightarrow> u64 \<Rightarrow> u64 \<Rightarrow> u64 \<Rightarrow> vvar_env \<Rightarrow> vm_state \<Rightarrow> bool" where
  "vvar_inv img W n kv kt env s \<longleftrightarrow> context_image s = Some img \<and>
    \<lparr>vm_start = push_bit 12 W, vm_end = push_bit 12 (W + n), vm_special = VvarMapping\<rparr> \<in> set (vmas s) \<and>
    ptes s (W + kv) \<in> {None, Some (case timens_pfn env of None \<Rightarrow> vvar_pfn env | Some t \<Rightarrow> t)} \<and>
    (ptes s (W + kt) = None \<or> ptes s (W + kt) = Some (vvar_pfn env) \<and> timens_pfn env \<noteq> None)"

lemma vmf_insert_cases:
  assumes "insert_law ops" "vmf_insert ops (push_bit 12 X) f s = (r, s')" "unat X * 4096 < 2 ^ 64"
  shows "(r = VM_FAULT_NOPAGE \<and> s' = s\<lparr>ptes := (if ptes s X = None then (ptes s)(X \<mapsto> f) else ptes s)\<rparr>) \<or>
    (r AND VM_FAULT_ERROR \<noteq> 0 \<and> s' = s)"
proof -
  have "vpn (push_bit 12 X) = X" unfolding vpn_def using drop_push_add [of X 12 0] assms(3) by simp
  moreover obtain pt where "insert_pfn ops X f (ptes s) = (r, pt)" "s' = s\<lparr>ptes := pt\<rparr>"
    using assms(2) calculation by (auto simp: vmf_insert_def split: prod.splits)
  ultimately show ?thesis using assms(1) unfolding insert_law_def by fastforce
qed

lemma zap_foldl_None: "pt p = None \<Longrightarrow> foldl (\<lambda>pt v. if vm_special v = VvarMapping then zap_page_range v pt else pt) pt vs p = None"
  by (induction vs arbitrary: pt) (auto simp: zap_page_range_def)

lemma join_timens_clears:
  assumes "v \<in> set (vmas s)" "vm_special v = VvarMapping" "vpn (vm_start v) \<le> p" "p < vpn (vm_end v)"
  shows "ptes (snd (vdso_join_timens s)) p = None"
proof -
  have "foldl (\<lambda>pt v. if vm_special v = VvarMapping then zap_page_range v pt else pt) pt vs p = None" if "v \<in> set vs" for pt vs
    using that
  proof (induction vs arbitrary: pt)
    case (Cons w ws)
    show ?case
    proof (cases "w = v")
      case True
      then show ?thesis using assms by (simp add: zap_foldl_None zap_page_range_def)
    next
      case False
      with Cons show ?thesis by simp
    qed
  qed simp
  then show ?thesis using assms(1) by (simp add: vdso_join_timens_def)
qed

lemma vvar_insert_inv:
  assumes "insert_law ops" "vvar_image_ok img n kv kt" "unat W * 4096 + 0x10000 < 2 ^ 64" "vvar_inv img W n kv kt env s"
    and "k < n" "vmf_insert ops (push_bit 12 (W + k)) f s = (r, s')"
    and "k = kv \<Longrightarrow> f = (case timens_pfn env of None \<Rightarrow> vvar_pfn env | Some t \<Rightarrow> t)"
    and "k = kt \<Longrightarrow> f = vvar_pfn env \<and> timens_pfn env \<noteq> None"
  shows "vvar_inv img W n kv kt env s'"
proof -
  have "unat k < 16" using assms(2,5) by (auto simp: vvar_image_ok_def word_less_nat_alt)
  then have "unat (W + k) = unat W + unat k" using assms(3) by (simp add: unat_word_ariths)
  then have "unat (W + k) * 4096 < 2 ^ 64" using \<open>unat k < 16\<close> assms(3) by simp
  then consider "s' = s\<lparr>ptes := (if ptes s (W + k) = None then (ptes s)(W + k \<mapsto> f) else ptes s)\<rparr>" | "s' = s"
    using vmf_insert_cases [OF assms(1,6)] by blast
  then show ?thesis
    using assms(2,4,7,8) by cases (auto simp: vvar_inv_def vvar_image_ok_def)
qed

lemma push_inj:
  assumes "push_bit 12 j = (push_bit 12 k :: u64)" "unat j < 16" "unat k < 16"
  shows "j = k"
proof -
  have "vpn (push_bit 12 j + 0) = j + vpn 0" "vpn (push_bit 12 k + 0) = k + vpn 0"
    unfolding vpn_def using assms(2,3) by (intro drop_push_add; simp)+
  then show ?thesis using assms(1) by (simp add: vpn_def)
qed

lemma vvar_fault_inv:
  assumes "insert_law ops" "vvar_image_ok img n kv kt" "unat W * 4096 + 0x10000 < 2 ^ 64" "vvar_inv img W n kv kt env s"
    and "k < n" "vvar_fault ops env k (push_bit 12 (W + k)) s = (r, page, s')"
  shows "vvar_inv img W n kv kt env s'"
proof -
  note ins = vvar_insert_inv [OF assms(1-3)]
  have small: "unat x < 16" if "x \<in> {k, kv, kt, n}" for x
    using that assms(2,5) by (auto simp: vvar_image_ok_def word_less_nat_alt)
  have ctx: "context_image s = Some img" using assms(4) by (simp add: vvar_inv_def)
  let ?o = "push_bit 12 k + sym_vvar_start img"
  have o: "?o = 0 \<longleftrightarrow> k = n" "?o = sym_vvar_page img \<longleftrightarrow> k = kv" "?o = sym_timens_page img \<longleftrightarrow> k = kt"
    using assms(2) push_inj [of k n] push_inj [of k kv] push_inj [of k kt] small by (auto simp: vvar_image_ok_def)
  have prefault: "push_bit 12 (W + k) + (sym_timens_page img - ?o) = push_bit 12 (W + kt)"
    using assms(2) by (simp add: vvar_image_ok_def push_bit_add)
  have kt: "kt < n" "kv \<noteq> kt" using assms(2) by (auto simp: vvar_image_ok_def)
  show ?thesis
  proof (cases "k = kv")
    case True
    show ?thesis
    proof (cases "timens_pfn env")
      case None
      with True assms(5,6) o kt show ?thesis
        by (auto simp: vvar_fault_def ctx Let_def split: prod.splits intro!: ins [OF assms(4,5)])
    next
      case (Some tp)
      obtain err s1 where e: "vmf_insert ops (push_bit 12 (W + kt)) (vvar_pfn env) s = (err, s1)" by fastforce
      have s1: "vvar_inv img W n kv kt env s1" using ins [OF assms(4) kt(1) e] Some kt(2) by simp
      show ?thesis
        using True Some assms(5,6) o prefault e s1 kt(2)
        by (auto simp: vvar_fault_def ctx Let_def split: prod.splits if_splits intro!: ins [OF s1 assms(5)])
    qed
  next
    case False
    then show ?thesis
      using assms(2,4,5,6) o kt
      by (auto simp: vvar_fault_def ctx Let_def vvar_image_ok_def split: prod.splits if_splits option.splits
          intro!: ins [OF assms(4,5)])
  qed
qed

lemma vvar_reach_inv:
  assumes "vvar_reach ops img W n env s" "insert_law ops" "vvar_image_ok img n kv kt" "unat W * 4096 + 0x10000 < 2 ^ 64"
  shows "vvar_inv img W n kv kt env s"
  using assms(1)
proof induction
  case (start s env)
  then show ?case using assms(3) by (auto simp: vvar_inv_def vvar_image_ok_def)
next
  case (fault env s k r page s')
  then show ?case using vvar_fault_inv assms(2-4) by blast
next
  case (join env s ret s' t)
  have n: "unat n < 16" "kv < n" "kt < n" using assms(3) by (auto simp: vvar_image_ok_def word_less_nat_alt)
  have vp: "vpn (push_bit 12 (W + j)) = W + j \<and> unat (W + j) = unat W + unat j" if "unat j < 16" for j
  proof -
    have u: "unat (W + j) = unat W + unat j" using that assms(4) by (simp add: unat_word_ariths)
    then have "unat (W + j) * 2 ^ 12 + unat (0 :: u64) < 2 ^ LENGTH(64)" using that assms(4) by simp
    then have "drop_bit 12 (push_bit 12 (W + j) + 0) = W + j + drop_bit 12 0" by (rule drop_push_add)
    with u show ?thesis by (simp add: vpn_def)
  qed
  have "ptes s' (W + j) = None" if "j < n" for j
  proof -
    have "unat j < unat n" using that by (simp add: word_less_nat_alt)
    then have "vpn (push_bit 12 W) \<le> W + j" "W + j < vpn (push_bit 12 (W + n))"
      using vp [of j] vp [of n] vp [of 0] n(1) by (simp_all add: word_le_nat_alt word_less_nat_alt)
    then show ?thesis
      using join_timens_clears [of _ s "W + j"] join.IH join.hyps(2) by (fastforce simp: vvar_inv_def)
  qed
  moreover have "context_image s' = context_image s" "vmas s' = vmas s"
    using join.hyps(2) by (auto simp: vdso_join_timens_def)
  ultimately show ?case using join.IH n by (simp add: vvar_inv_def)
qed
section \<open>Properties\<close>

lemma first_reader_fills:
  assumes fits: "unat (t AND mask 12) + unat pid_off + 4 \<le> 0x5000"
    and s': "s' = fill_pages V (vpn t) ((t AND mask 12) + pid_off) 4
      (s\<lparr>phys := phys_store (push_bit 12 p) (task_info_bytes t n) (phys s), ptes := (ptes s)(V + 5 \<mapsto> p)\<rparr>)"
  shows "ptes s' (V + 5) = Some p" "unat y < 32 \<Longrightarrow> phys s' (push_bit 12 p + y) = task_info_bytes t n ! unat y"
    "i < 4 \<Longrightarrow> vpn ((t AND mask 12) + pid_off + of_nat i) < 5"
    "i < 4 \<Longrightarrow> ptes s' (V + vpn ((t AND mask 12) + pid_off + of_nat i)) = Some (vpn t + vpn ((t AND mask 12) + pid_off + of_nat i))"
proof -
  let ?z = "\<lambda>i. (t AND mask 12) + pid_off + of_nat i"
  have lt: "vpn (?z i) < 5" if "i < 4" for i
  proof (rule vpn_less)
    have "unat (of_nat i :: u64) = i" using that by (simp add: unat_of_nat)
    moreover have "unat ((t AND mask 12) + pid_off) = unat (t AND mask 12) + unat pid_off" using fits by (simp add: unat_word_ariths)
    ultimately show "unat (?z i) < 0x5000" using fits that by (simp add: unat_word_ariths)
  qed
  then show "i < 4 \<Longrightarrow> vpn (?z i) < 5" .
  have "\<not> (\<exists>i < 4. V + 5 = V + vpn (?z i))"
  proof
    assume "\<exists>i < 4. V + 5 = V + vpn (?z i)"
    then obtain i where "i < 4" "vpn (?z i) = 5" by auto
    then show False using lt [of i] by simp
  qed
  then show "ptes s' (V + 5) = Some p" by (auto simp: s' fill_pages_def)
  show "unat y < 32 \<Longrightarrow> phys s' (push_bit 12 p + y) = task_info_bytes t n ! unat y"
    by (simp add: s' fill_pages_def phys_store_in task_info_bytes_parts)
  show "i < 4 \<Longrightarrow> ptes s' (V + vpn (?z i)) = Some (vpn t + vpn (?z i))"
    by (auto simp: s' fill_pages_def)
qed

lemma first_reader_stays:
  assumes "insert_succeeds (mm_calls env)" "vtask_mapped V s" "unat V * 4096 + 0x6000 < 2 ^ 64"
    and "ptes s (V + 5) = None" "task_pages_ok V (vpn (cur_phys env)) s"
    and "alloc_page (mm_calls env) s = Some p" "unat p * 4096 + 4096 \<le> 2 ^ 64"
      "\<forall>k < 5. p \<noteq> vpn (cur_phys env) + k"
    and "unat (cur_phys env AND mask 12) + unat pid_off + 4 \<le> 0x5000" "unat (vpn (cur_phys env)) * 4096 + 0x6000 < 2 ^ 64"
    and "vpn vdata = V + 6" "vdata \<noteq> 0"
  shows "\<exists>s'. vdso_get_task_struct_info env vdata pid_off False s =
    Some (0, push_bit 12 V + (cur_phys env AND mask 12),
          le_word (map (\<lambda>i. phys s (cur_phys env + pid_off + of_nat i)) [0..<4]), s') \<and> vmas s' = vmas s \<and>
    (\<forall>env' c. (\<forall>k < 6. ptes c (V + k) = ptes s' (V + k)) \<and>
        (\<forall>y. unat y < 32 \<longrightarrow> phys c (push_bit 12 p + y) = phys s' (push_bit 12 p + y)) \<longrightarrow>
      vdso_get_task_struct_info env' vdata pid_off False c =
        Some (0, push_bit 12 V + (cur_phys env AND mask 12),
              le_word (map (\<lambda>i. phys c (cur_phys env + pid_off + of_nat i)) [0..<4]), c))"
proof -
  let ?t = "cur_phys env"
  let ?s' = "fill_pages V (vpn ?t) ((?t AND mask 12) + pid_off) 4
      (s\<lparr>phys := phys_store (push_bit 12 p) (task_info_bytes ?t (cur_size env)) (phys s), ptes := (ptes s)(V + 5 \<mapsto> p)\<rparr>)"
  note fills = first_reader_fills [where t = ?t and V = V and s = s and p = p and n = "cur_size env", OF assms(9) refl]
  have later: "vdso_get_task_struct_info env' vdata pid_off False c =
      Some (0, push_bit 12 V + (?t AND mask 12), le_word (map (\<lambda>i. phys c (?t + pid_off + of_nat i)) [0..<4]), c)"
    if same: "\<forall>k < 6. ptes c (V + k) = ptes ?s' (V + k)"
      "\<forall>y. unat y < 32 \<longrightarrow> phys c (push_bit 12 p + y) = phys ?s' (push_bit 12 p + y)" for env' c
  proof (rule later_reader [OF assms(3) _ _ _ assms(9,11,12)])
    show "ptes c (V + 5) = Some p" using same(1) fills(1) by simp
    show "\<forall>y. unat y < 32 \<longrightarrow> phys c (push_bit 12 p + y) = task_info_bytes ?t (cur_size env) ! unat y"
      using same(2) fills(2) by simp
    show "\<forall>i < 4. ptes c (V + vpn ((?t AND mask 12) + pid_off + of_nat i)) =
        Some (vpn ?t + vpn ((?t AND mask 12) + pid_off + of_nat i))"
    proof (intro allI impI)
      fix i :: nat assume i: "i < 4"
      have "vpn ((?t AND mask 12) + pid_off + of_nat i) < 6" using fills(3) [OF i] by (rule order.strict_trans) simp
      then show "ptes c (V + vpn ((?t AND mask 12) + pid_off + of_nat i)) =
          Some (vpn ?t + vpn ((?t AND mask 12) + pid_off + of_nat i))"
        using same(1) fills(4) [OF i] by simp
    qed
  qed
  show ?thesis
  proof (intro exI [of _ ?s'] conjI allI impI)
    show "vmas ?s' = vmas s" by (simp add: fill_pages_def)
  qed (use get_task_info_correct [OF assms] later in blast)+
qed

text \<open>
  A fork copies the mappings, the places in the context and the page table as \<open>copy_page_range\<close> does it, which is a parameter: the
  translations of \<open>VM_PFNMAP\<close> areas, as \<open>[vvar]\<close> and \<open>[vtask]\<close> are, are copied and not left to later faults.
\<close>

definition fork_vm :: "(vma list \<Rightarrow> (u64 \<Rightarrow> u64 option) \<Rightarrow> u64 \<Rightarrow> u64 option) \<Rightarrow> vm_state \<Rightarrow> vm_state" where
  "fork_vm copy_page_range s = s\<lparr>ptes := copy_page_range (vmas s) (ptes s)\<rparr>"

definition pfnmap_copied :: "(vma list \<Rightarrow> (u64 \<Rightarrow> u64 option) \<Rightarrow> u64 \<Rightarrow> u64 option) \<Rightarrow> bool" where
  "pfnmap_copied copy_page_range \<longleftrightarrow> (\<forall>ms pt v q. v \<in> set ms \<longrightarrow> vm_special v \<noteq> VdsoMapping \<longrightarrow>
    vpn (vm_start v) \<le> q \<and> q < vpn (vm_end v) \<longrightarrow> copy_page_range ms pt q = pt q)"

lemma vtask_pages_copied:
  assumes "pfnmap_copied cpr" "vtask_mapped V s" "unat V * 4096 + 0x6000 < 2 ^ 64" "k < 6"
  shows "ptes (fork_vm cpr s) (V + k) = ptes s (V + k)"
proof -
  let ?v = "\<lparr>vm_start = push_bit 12 V, vm_end = push_bit 12 V + vtask_len, vm_special = VtaskMapping\<rparr>"
  have "find (vma_contains (push_bit 12 V + 0)) (vmas s) = Some ?v"
    using assms(2) [unfolded vtask_mapped_def, rule_format, of 0] by simp
  then have v: "?v \<in> set (vmas s)" by (auto simp: find_Some_iff)
  have "vpn (push_bit 12 V) = V" using drop_push_add [of V 12 0] assms(3) by (simp add: vpn_def)
  moreover have "vpn (push_bit 12 V + vtask_len) = V + 6" using drop_push_add [of V 12 vtask_len] assms(3) by (simp add: vpn_def vtask_len_def)
  moreover have "unat (V + k) = unat V + unat k" "unat (V + 6) = unat V + 6"
    using assms(3,4) by (simp_all add: unat_word_ariths word_less_nat_alt)
  ultimately have "vpn (vm_start ?v) \<le> V + k \<and> V + k < vpn (vm_end ?v)"
    using assms(4) by (simp add: word_le_nat_alt word_less_nat_alt)
  then show ?thesis using assms(1) v unfolding pfnmap_copied_def fork_vm_def by simp
qed

text \<open>The child of a process that has read its own \<open>task_struct\<close> reads the one of its parent, in the same place.\<close>

lemma fork_child_reads_parent:
  assumes "pfnmap_copied cpr" "vtask_mapped V s'" "unat V * 4096 + 0x6000 < 2 ^ 64"
    and later: "\<forall>env' c. (\<forall>k < 6. ptes c (V + k) = ptes s' (V + k)) \<and>
        (\<forall>y. unat y < 32 \<longrightarrow> phys c (push_bit 12 p + y) = phys s' (push_bit 12 p + y)) \<longrightarrow>
      vdso_get_task_struct_info env' vdata pid_off False c = Some (0, ptr, le_word (map (\<lambda>i. phys c (parent + pid_off + of_nat i)) [0..<4]), c)"
  shows "vdso_get_task_struct_info child_env vdata pid_off False (fork_vm cpr s') =
    Some (0, ptr, le_word (map (\<lambda>i. phys s' (parent + pid_off + of_nat i)) [0..<4]), fork_vm cpr s')"
proof -
  have ph: "phys (fork_vm cpr s') = phys s'" by (simp add: fork_vm_def)
  have "vdso_get_task_struct_info child_env vdata pid_off False (fork_vm cpr s') =
      Some (0, ptr, le_word (map (\<lambda>i. phys (fork_vm cpr s') (parent + pid_off + of_nat i)) [0..<4]), fork_vm cpr s')"
    by (rule later [THEN spec, THEN spec, THEN mp]) (simp add: vtask_pages_copied [OF assms(1-3)] ph)
  then show ?thesis unfolding ph .
qed

text \<open>
  What the sharing of page tables makes of it. Every later call in an address space with the same translations, by any task (\<open>env'\<close>, for example another
  thread), and the calls of the children that are forked then, into which the translations to page frames are copied, return the pointer to and the
  \<open>pid\<close> of the task that was first, not those of the caller.
\<close>

lemma vtask_first_reader_stays:
  assumes "insert_succeeds (mm_calls env)" "vtask_mapped V s" "unat V * 4096 + 0x6000 < 2 ^ 64"
    and "ptes s (V + 5) = None" "task_pages_ok V (vpn (cur_phys env)) s"
    and "alloc_page (mm_calls env) s = Some p" "unat p * 4096 + 4096 \<le> 2 ^ 64"
      "\<forall>k < 5. p \<noteq> vpn (cur_phys env) + k"
    and "unat (cur_phys env AND mask 12) + unat pid_off + 4 \<le> 0x5000" "unat (vpn (cur_phys env)) * 4096 + 0x6000 < 2 ^ 64"
    and "vpn vdata = V + 6" "vdata \<noteq> 0"
  shows "\<exists>s'. vdso_get_task_struct_info env vdata pid_off False s =
    Some (0, push_bit 12 V + (cur_phys env AND mask 12),
          le_word (map (\<lambda>i. phys s (cur_phys env + pid_off + of_nat i)) [0..<4]), s') \<and>
    (\<forall>env' c. (\<forall>k < 6. ptes c (V + k) = ptes s' (V + k)) \<and>
        (\<forall>y. unat y < 32 \<longrightarrow> phys c (push_bit 12 p + y) = phys s' (push_bit 12 p + y)) \<longrightarrow>
      vdso_get_task_struct_info env' vdata pid_off False c =
        Some (0, push_bit 12 V + (cur_phys env AND mask 12),
              le_word (map (\<lambda>i. phys c (cur_phys env + pid_off + of_nat i)) [0..<4]), c)) \<and>
    (\<forall>copy_page_range child_env. pfnmap_copied copy_page_range \<longrightarrow>
      vdso_get_task_struct_info child_env vdata pid_off False (fork_vm copy_page_range s') =
        Some (0, push_bit 12 V + (cur_phys env AND mask 12),
              le_word (map (\<lambda>i. phys s' (cur_phys env + pid_off + of_nat i)) [0..<4]), fork_vm copy_page_range s'))"
proof -
  obtain s' where s': "vdso_get_task_struct_info env vdata pid_off False s =
      Some (0, push_bit 12 V + (cur_phys env AND mask 12),
        le_word (map (\<lambda>i. phys s (cur_phys env + pid_off + of_nat i)) [0..<4]), s')" "vmas s' = vmas s"
    and later: "\<forall>env' c. (\<forall>k < 6. ptes c (V + k) = ptes s' (V + k)) \<and>
        (\<forall>y. unat y < 32 \<longrightarrow> phys c (push_bit 12 p + y) = phys s' (push_bit 12 p + y)) \<longrightarrow>
      vdso_get_task_struct_info env' vdata pid_off False c =
        Some (0, push_bit 12 V + (cur_phys env AND mask 12),
              le_word (map (\<lambda>i. phys c (cur_phys env + pid_off + of_nat i)) [0..<4]), c)"
    using first_reader_stays [OF assms] by blast
  have "vtask_mapped V s'" using assms(2) s'(2) by (simp add: vtask_mapped_def)
  note child = fork_child_reads_parent [OF _ this assms(3) later]
  show ?thesis by (intro exI [of _ s'] conjI s'(1) later allI impI child)
qed

text \<open>
  C12: a task reads its own \<open>task_struct\<close>. In an address space with the \<open>[vtask]\<close> mapping at page \<open>V\<close> directly below \<open>[vvar]\<close> whose information page has not
  been touched, and whose other pages are not mapped or show the current task, let the \<open>task_struct\<close> fit into five pages from its first one. Then a call of
  \<open>__vdso_get_task_struct_info\<close> returns 0, a pointer that is the in-page offset of the structure above the start of the mapping, and as
  \<open>pid\<close> the four bytes that lie at the offset of \<open>pid\<close> in the physical memory of the current task, whichever page faults this takes. Every
  later call of the same task, as long as the translations and the information page stay, takes no fault and returns the same pointer and
  the \<open>pid\<close> that the structure has then.
\<close>
theorem vtask_reads_own_task:
  assumes "insert_succeeds (mm_calls env)" "vtask_mapped V s" "unat V * 4096 + 0x6000 < 2 ^ 64"
    and "ptes s (V + 5) = None" "task_pages_ok V (vpn (cur_phys env)) s"
    and "alloc_page (mm_calls env) s = Some p" "unat p * 4096 + 4096 \<le> 2 ^ 64"
      "\<forall>k < 5. p \<noteq> vpn (cur_phys env) + k"
    and "unat (cur_phys env AND mask 12) + unat pid_off + 4 \<le> 0x5000" "unat (vpn (cur_phys env)) * 4096 + 0x6000 < 2 ^ 64"
    and "vpn vdata = V + 6" "vdata \<noteq> 0"
  shows "\<exists>s'. vdso_get_task_struct_info env vdata pid_off False s =
    Some (0, push_bit 12 V + (cur_phys env AND mask 12),
          le_word (map (\<lambda>i. phys s (cur_phys env + pid_off + of_nat i)) [0..<4]), s') \<and>
    (\<forall>c. (\<forall>k < 6. ptes c (V + k) = ptes s' (V + k)) \<and>
        (\<forall>y. unat y < 32 \<longrightarrow> phys c (push_bit 12 p + y) = phys s' (push_bit 12 p + y)) \<longrightarrow>
      vdso_get_task_struct_info env vdata pid_off False c =
        Some (0, push_bit 12 V + (cur_phys env AND mask 12),
              le_word (map (\<lambda>i. phys c (cur_phys env + pid_off + of_nat i)) [0..<4]), c))"
  using first_reader_stays [OF assms] by blast

text \<open>
  C38: \<open>map_vdso\<close> maps all three areas or none. When it returns 0 the mappings \<open>[vtask]\<close>, \<open>[vvar]\<close> and \<open>[vdso]\<close> lie without gaps from the
  address the search returned, 24 KiB further than the area that was searched for, and the context records them. If their ranges do not wrap
  around, they overlap no other mapping. On a negative result, at whichever step it arises, the context is as before, and so are the
  mappings if the ranges do not wrap around. A failed search is the exception: its error code is taken for the address, so that when the calls accept
  the ranges, which then wrap around, 0 is returned and the code is recorded as the address of \<open>[vtask]\<close>.
\<close>
theorem map_vdso_all_or_nothing:
  assumes "install_law ops" "munmap_law ops" "map_vdso ops killed img addr s = (ret, s')"
    and "a = get_unmapped_area ops addr (image_size img - sym_vvar_start img) (vmas s)"
  shows "(ret = 0 \<and> set (vmas s') = vdso_layout img a \<union> set (vmas s) \<and> context_image s' = Some img \<and>
      context_vdso s' = a + vtask_len - sym_vvar_start img \<and> context_vtask s' = a \<and>
      (layout_fits img a \<longrightarrow> (\<forall>w \<in> vdso_layout img a. \<forall>v \<in> set (vmas s). disjoint_from (vm_start w) (vm_end w) v))) \<or>
    (ret < 0 \<and> (\<exists>m. s' = s\<lparr>vmas := m\<rparr> \<and> (layout_fits img a \<longrightarrow> set m = set (vmas s))))"
proof (rule map_vdso_exits [OF assms])
  fix m assume "ret < 0" "s' = s\<lparr>vmas := m\<rparr>" "layout_fits img a \<Longrightarrow> set m = set (vmas s)"
  then show ?thesis by blast
next
  fix m1 m2 m3 assume "ret = 0" and m: "install_special_mapping ops (a + vtask_len - sym_vvar_start img) (image_size img) VdsoMapping (vmas s) = Inr m1"
      "install_special_mapping ops (a + vtask_len) (- sym_vvar_start img) VvarMapping m1 = Inr m2" "install_special_mapping ops a vtask_len VtaskMapping m2 = Inr m3"
    and s': "s' = s\<lparr>vmas := m3, context_vdso := a + vtask_len - sym_vvar_start img, context_image := Some img, context_vtask := a\<rparr>"
  then show ?thesis using map_vdso_mapped [OF assms(1) m] by simp
qed

text \<open>
  \<open>map_vdso\<close> does not notice that no free area was found. The result of the search is tested
  after 24 KiB have been added, which no error code survives: with a search that fails, and a
  memory manager that accepts the mappings it is asked for, the function returns 0 and records the
  error code as the address of \<open>[vtask]\<close>.
\<close>

theorem map_vdso_misses_search_error:
  assumes "IS_ERR_VALUE (get_unmapped_area ops addr (image_size img - sym_vvar_start img) (vmas s))"
    and "\<forall>a len k m. \<exists>m'. install_special_mapping ops a len k m = Inr m'"
  shows "\<exists>s'. map_vdso ops False img addr s = (0, s') \<and> IS_ERR_VALUE (context_vtask s')"
proof -
  let ?a = "get_unmapped_area ops addr (image_size img - sym_vvar_start img) (vmas s)"
  let ?t = "?a + vtask_len - sym_vvar_start img"
  obtain m1 where m1: "install_special_mapping ops ?t (image_size img) VdsoMapping (vmas s) = Inr m1"
    using assms(2) by blast
  obtain m2 where m2: "install_special_mapping ops (?a + vtask_len) (- sym_vvar_start img) VvarMapping m1 = Inr m2"
    using assms(2) by blast
  obtain m3 where m3: "install_special_mapping ops ?a vtask_len VtaskMapping m2 = Inr m3" using assms(2) by blast
  have "map_vdso ops False img addr s =
      (0, s\<lparr>vmas := m3, context_vdso := ?t, context_image := Some img, context_vtask := ?a\<rparr>)"
    using error_plus_vtask_len [OF assms(1)] m1 m2 m3 by (simp add: map_vdso_def Let_def)
  with assms(1) show ?thesis by simp
qed

text \<open>
  C24: the \<open>[vvar]\<close> translations follow the time namespace. In every state that a process can reach
  by page faults and by joining time namespaces, in any order, the data page is unmapped or mapped
  to the page of the current namespace (the system's own page without one), and the namespace page
  is unmapped or mapped to the system's page, the latter only inside a namespace.
\<close>
theorem vvar_follows_time_namespace:
  assumes "vvar_reach ops img W n env s" "insert_law ops" "vvar_image_ok img n kv kt" "unat W * 4096 + 0x10000 < 2 ^ 64"
  shows "ptes s (W + kv) \<in> {None, Some (case timens_pfn env of None \<Rightarrow> vvar_pfn env | Some t \<Rightarrow> t)} \<and>
    (ptes s (W + kt) = None \<or> ptes s (W + kt) = Some (vvar_pfn env) \<and> timens_pfn env \<noteq> None)"
  using vvar_reach_inv [OF assms] by (simp add: vvar_inv_def)

text \<open>
  C40: the random address of the vDSO. On a machine without an alignment requirement of its own,
  for a stack that ends below the user address limit and an area of at most 2 MiB, \<open>vdso_addr\<close>
  returns a page-aligned address not below the stack which is either the first page after it or
  leaves room for the area below the next 2 MiB boundary and below the address limit.
\<close>
theorem vdso_addr_bounds:
  assumes "unat start0 < 0x7FFFFFFFE000" "unat len \<le> 2 ^ 21" "r = vdso_addr (\<lambda>a. a) rnd start0 len"
  shows "4096 dvd unat r \<and> unat start0 \<le> unat r \<and> (unat r < unat start0 + 4096 \<or>
    unat r + unat len \<le> min 0x7FFFFFFFF000 ((unat (PAGE_ALIGN start0) + unat len + 0x1FFFFF) div 0x200000 * 0x200000))"
  using vdso_addr_in_range [OF assms] by blast

section \<open>Witnesses\<close>

definition vdso_ex_ops :: "u64 \<Rightarrow> mm_ops" where
  "vdso_ex_ops found = \<lparr>get_unmapped_area = (\<lambda>_ _ _. found),
     install_special_mapping = (\<lambda>a len k m.
       if a < a + len \<and> list_all (disjoint_from a (a + len)) m
       then Inr (\<lparr>vm_start = a, vm_end = a + len, vm_special = k\<rparr> # m) else Inl (- ENOMEM)),
     do_munmap = (\<lambda>a len m. filter (\<lambda>v. \<not> (vm_start v = a \<and> vm_end v = a + len)) m),
     insert_pfn = (\<lambda>p f pt. (VM_FAULT_NOPAGE, if pt p = None then pt(p \<mapsto> f) else pt)),
     alloc_page = (\<lambda>_. Some 0x50)\<rparr>"

definition vdso_ex_image :: vdso_image where
  "vdso_ex_image = \<lparr>image_pfn = 0x900, image_size = 0x2000, sym_vvar_start = - 0x4000, sym_vvar_page = - 0x4000,
     sym_pvclock_page = - 0x3000, sym_hvclock_page = - 0x2000, sym_timens_page = - 0x1000,
     sym_int80_landing_pad = 0, sym_vdso32_sigreturn_landing_pad = 0, sym_vdso32_rt_sigreturn_landing_pad = 0\<rparr>"

definition vdso_ex_state :: vm_state where
  "vdso_ex_state = \<lparr>vmas = [], ptes = (\<lambda>_. None), phys = (\<lambda>a. if a = 0x100100 then 42 else 0), context_vdso = 0,
     context_image = None, context_vtask = 0\<rparr>"

definition vdso_ex_mapped :: vm_state where
  "vdso_ex_mapped = vdso_ex_state\<lparr>vmas := [\<lparr>vm_start = 0x10000, vm_end = 0x16000, vm_special = VtaskMapping\<rparr>,
     \<lparr>vm_start = 0x16000, vm_end = 0x1A000, vm_special = VvarMapping\<rparr>], context_image := Some vdso_ex_image\<rparr>"

definition vdso_ex_env :: user_env where
  "vdso_ex_env = \<lparr>mm_calls = vdso_ex_ops 0x10000,
     vvar_pages = \<lparr>vvar_pfn = 7, timens_pfn = None, pvclock_pfn = None, hvclock_pfn = None\<rparr>,
     cur_phys = 0x100040, cur_size = 0x2000\<rparr>"

lemma vdso_ex_laws: "install_law (vdso_ex_ops found)" "munmap_law (vdso_ex_ops found)" "insert_law (vdso_ex_ops found)"
    "insert_succeeds (vdso_ex_ops found)"
  by (auto simp: install_law_def munmap_law_def insert_law_def insert_succeeds_def vdso_ex_ops_def list_all_iff split: if_splits)

lemma vdso_ex_sel:
  "mm_calls vdso_ex_env = vdso_ex_ops 0x10000" "cur_phys vdso_ex_env = 0x100040" "ptes vdso_ex_mapped p = None"
  "alloc_page (vdso_ex_ops found) s = Some 0x50"
  by (simp_all add: vdso_ex_env_def vdso_ex_mapped_def vdso_ex_state_def vdso_ex_ops_def)

lemma vdso_ex_vtask: "vtask_mapped 0x10 vdso_ex_mapped"
proof -
  have "0x10000 \<le> 0x10000 + x \<and> 0x10000 + x < 0x16000" if "unat x < 0x6000" for x :: u64
    using that by (simp add: word_le_nat_alt word_less_nat_alt unat_word_ariths)
  then show ?thesis by (simp add: vtask_mapped_def vdso_ex_mapped_def vma_contains_def vtask_len_def)
qed

theorem vtask_reads_own_task_witness:
  "\<exists>s'. vdso_get_task_struct_info vdso_ex_env 0x16080 0xC0 False vdso_ex_mapped = Some (0, 0x10040, 42, s') \<and>
     (\<exists>v. vdso_get_task_struct_info vdso_ex_env 0x16080 0xC0 False s' = Some (0, 0x10040, v, s'))"
proof -
  have "le_word (map (\<lambda>i. phys vdso_ex_mapped (cur_phys vdso_ex_env + 0xC0 + of_nat i)) [0..<4]) = (42 :: u32)"
    by (simp add: vdso_ex_mapped_def vdso_ex_state_def vdso_ex_env_def upt_rec)
  moreover have "\<forall>k < 5. 0x50 \<noteq> vpn (cur_phys vdso_ex_env) + k"
  proof (intro allI impI)
    fix k :: u64 assume "k < 5"
    then have "unat (0x100 + k) = 0x100 + unat k" by (simp add: unat_word_ariths word_less_nat_alt)
    then have "unat (0x100 + k) \<noteq> unat (0x50 :: u64)" by simp
    then have "0x50 \<noteq> 0x100 + k" by metis
    moreover have "vpn (cur_phys vdso_ex_env) = 0x100" by (simp add: vdso_ex_env_def vpn_def)
    ultimately show "0x50 \<noteq> vpn (cur_phys vdso_ex_env) + k" by (simp only: not_False_eq_True)
  qed
  ultimately have "\<exists>s'. vdso_get_task_struct_info vdso_ex_env 0x16080 0xC0 False vdso_ex_mapped = Some (0, 0x10040, 42, s') \<and>
    (\<forall>c. (\<forall>k < 6. ptes c (0x10 + k) = ptes s' (0x10 + k)) \<and>
        (\<forall>y. unat y < 32 \<longrightarrow> phys c (0x50000 + y) = phys s' (0x50000 + y)) \<longrightarrow>
      vdso_get_task_struct_info vdso_ex_env 0x16080 0xC0 False c =
        Some (0, 0x10040, le_word (map (\<lambda>i. phys c (0x100100 + of_nat i)) [0..<4]), c))"
    using vtask_reads_own_task [of vdso_ex_env "0x10" vdso_ex_mapped "0x50" "0xC0" "0x16080"] vdso_ex_vtask
    by (simp add: vdso_ex_sel vdso_ex_laws task_pages_ok_def vpn_def mask_eq_exp_minus_1)
  then show ?thesis by blast
qed

theorem map_vdso_all_or_nothing_witness:
  "\<exists>s'. map_vdso (vdso_ex_ops 0x10000) False vdso_ex_image 0 vdso_ex_state = (0, s') \<and> layout_fits vdso_ex_image 0x10000 \<and>
     set (vmas s') = vdso_layout vdso_ex_image 0x10000 \<and> context_vtask s' = 0x10000"
proof -
  obtain ret s' where r: "map_vdso (vdso_ex_ops 0x10000) False vdso_ex_image 0 vdso_ex_state = (ret, s')" by fastforce
  then have "ret = 0"
    by (simp add: map_vdso_def vdso_ex_ops_def vdso_ex_image_def vdso_ex_state_def Let_def vtask_len_def IS_ERR_VALUE_def
        disjoint_from_def)
  moreover have "layout_fits vdso_ex_image 0x10000" by (simp add: layout_fits_def vdso_ex_image_def vtask_len_def)
  ultimately show ?thesis using r map_vdso_all_or_nothing [OF vdso_ex_laws(1,2) r refl]
    by (auto simp: vdso_ex_ops_def vdso_ex_state_def)
qed

theorem map_vdso_misses_search_error_witness:
  "\<exists>s'. map_vdso (vdso_ex_ops (- 12)\<lparr>install_special_mapping := (\<lambda>a len k m. Inr m)\<rparr>) False vdso_ex_image 0 vdso_ex_state = (0, s') \<and>
     IS_ERR_VALUE (context_vtask s')"
  by (rule map_vdso_misses_search_error) (simp_all add: vdso_ex_ops_def IS_ERR_VALUE_def)

lemma vdso_ex_vvar_image: "vvar_image_ok vdso_ex_image 4 0 3"
  by (simp add: vvar_image_ok_def vdso_ex_image_def)

theorem vvar_follows_time_namespace_witness:
  "ptes vdso_ex_mapped 0x16 \<in> {None, Some 7} \<and> ptes vdso_ex_mapped 0x19 = None"
proof -
  have "vvar_reach (vdso_ex_ops 0) vdso_ex_image 0x16 4 (vvar_pages vdso_ex_env) vdso_ex_mapped"
    by (rule vvar_reach.start) (simp_all add: vdso_ex_mapped_def vdso_ex_state_def)
  from vvar_follows_time_namespace [OF this vdso_ex_laws(3) vdso_ex_vvar_image] show ?thesis
    by (simp add: vdso_ex_env_def)
qed

theorem vdso_addr_bounds_witness:
  "4096 dvd unat (vdso_addr (\<lambda>a. a) 77 0x7FFD12345678 0x6000) \<and>
   0x7FFD12345678 \<le> unat (vdso_addr (\<lambda>a. a) 77 0x7FFD12345678 0x6000)"
  using vdso_addr_bounds [of "0x7FFD12345678" "0x6000" "vdso_addr (\<lambda>a. a) 77 0x7FFD12345678 0x6000" 77] by simp

end
