(* ===== verification/Mm_Struct.thy ===== *)
theory Mm_Struct
  imports Kernel_Prelude Transition_System "HOL-Library.Multiset"
begin

text \<open>
  Address spaces (kernel/fork.c): allocation and initialisation of an \<open>mm_struct\<close>, its duplication
  by \<open>fork\<close> mapping by mapping, the two reference counts \<open>mm_users\<close> and \<open>mm_count\<close> with the releases
  they trigger, and the reference to the executable file. What other subsystems hand out (file
  references, page tables, memory charges, \<dots>) is recorded as a multiset of tokens; the results of
  calls into them are the fields of \<open>mm_env\<close>.
\<close>

section \<open>State\<close>

text \<open>A mapping of an address space; \<open>anon_vma\<close> and \<open>vm_open\<close> say that the pointers are set.\<close>

record vm_area_struct =
  vm_start :: u64
  vm_end :: u64
  vm_flags :: u64
  vm_file :: addr
  anon_vma :: bool
  vm_open :: bool

abbreviation (input) VM_SHARED :: u64 where "VM_SHARED \<equiv> 0x8"
abbreviation (input) VM_LOCKED :: u64 where "VM_LOCKED \<equiv> 0x2000"
abbreviation (input) VM_DONTCOPY :: u64 where "VM_DONTCOPY \<equiv> 0x20000"
abbreviation (input) VM_LOCKONFAULT :: u64 where "VM_LOCKONFAULT \<equiv> 0x80000"
abbreviation (input) VM_ACCOUNT :: u64 where "VM_ACCOUNT \<equiv> 0x100000"
abbreviation (input) VM_WIPEONFORK :: u64 where "VM_WIPEONFORK \<equiv> 0x2000000"
abbreviation (input) UFFD_FLAGS :: u64 where "UFFD_FLAGS \<equiv> 0x2000001200"

definition vma_flag :: "vm_area_struct \<Rightarrow> u64 \<Rightarrow> bool" where
  "vma_flag v f \<longleftrightarrow> vm_flags v AND f \<noteq> 0"

definition vma_pages :: "vm_area_struct \<Rightarrow> u64" where
  "vma_pages v = drop_bit 12 (vm_end v - vm_start v)"

record vm_stats =
  total_vm :: u64
  data_vm :: u64
  exec_vm :: u64
  stack_vm :: u64

record mm_struct =
  mmap :: "vm_area_struct list"
  map_count :: nat
  mm_stat :: vm_stats
  hiwater_rss :: u64
  hiwater_vm :: u64
  mm_users :: nat
  mm_count :: nat
  mm_flags :: u64
  def_flags :: u64
  mm_owner :: addr
  exe_file :: addr
  binfmt :: addr
  user_ns :: addr

datatype mm_res =
    VmaStruct addr | VmaPolicy addr | VmaAnon addr | VmaOpen addr | Charged u64
  | FileRef addr | IMmap addr addr | MapWritable addr | DenyWrite addr
  | Pgd addr | MmContext addr | UserNs addr | ModuleRef addr
  | MmapWrite addr | MmapRead addr | UprobeDup

record mm_state =
  mms :: "addr \<rightharpoonup> mm_struct"
  held :: "mm_res multiset"

definition acquire :: "mm_res \<Rightarrow> 'a mm_state_scheme \<Rightarrow> 'a mm_state_scheme" where
  "acquire r s = s\<lparr>held := add_mset r (held s)\<rparr>"

definition release :: "mm_res \<Rightarrow> 'a mm_state_scheme \<Rightarrow> 'a mm_state_scheme" where
  "release r s = s\<lparr>held := held s - {#r#}\<rparr>"

definition upd_mm :: "addr \<Rightarrow> (mm_struct \<Rightarrow> mm_struct) \<Rightarrow> 'a mm_state_scheme \<Rightarrow> 'a mm_state_scheme" where
  "upd_mm a f s = s\<lparr>mms := (mms s)(a := map_option f (mms s a))\<rparr>"

definition put_mm :: "addr \<Rightarrow> mm_struct \<Rightarrow> 'a mm_state_scheme \<Rightarrow> 'a mm_state_scheme" where
  "put_mm a m s = s\<lparr>mms := (mms s)(a \<mapsto> m)\<rparr>"

definition free_mm :: "addr \<Rightarrow> 'a mm_state_scheme \<Rightarrow> 'a mm_state_scheme" where
  "free_mm a s = s\<lparr>mms := (mms s)(a := None)\<rparr>"

section \<open>Results of the calls into other subsystems\<close>

record vma_env =
  ve_signal :: bool
  ve_enough_memory :: int
  ve_alloc :: bool
  ve_policy :: int
  ve_uffd :: int
  ve_uffd_clear :: u64
  ve_anon :: int
  ve_copy :: int

record mm_env =
  e_allocate_mm :: addr
  e_pgd_alloc :: bool
  e_init_context :: int
  e_get_file_rcu :: "addr \<Rightarrow> bool"
  e_deny_write :: "addr \<Rightarrow> int"
  e_lock_killable :: int
  e_ksm_fork :: int
  e_khugepaged_fork :: int
  e_arch_dup_mmap :: int
  e_vma :: "nat \<Rightarrow> vma_env"
  e_stat_account :: "u64 \<Rightarrow> u64 \<Rightarrow> vm_stats \<Rightarrow> vm_stats"
  e_rss :: u64
  e_module_get :: bool
  e_exit_mmap :: "addr \<Rightarrow> vm_area_struct list \<Rightarrow> mm_res multiset \<Rightarrow> mm_res multiset"
  e_mmf_init_mask :: u64
  e_vm_init_def_mask :: u64
  e_default_dump_filter :: u64

section \<open>The executable file\<close>

text \<open>\<open>get_mm_exe_file\<close> takes a reference unless the file is already being freed.\<close>

definition get_mm_exe_file :: "mm_env \<Rightarrow> addr \<Rightarrow> 'a mm_state_scheme \<Rightarrow> addr \<times> 'a mm_state_scheme" where
  "get_mm_exe_file E a s =
    (case mms s a of None \<Rightarrow> (NULL, s)
     | Some m \<Rightarrow> if exe_file m \<noteq> NULL \<and> e_get_file_rcu E (exe_file m)
                  then (exe_file m, acquire (FileRef (exe_file m)) s) else (NULL, s))"

definition dup_mm_exe_file :: "mm_env \<Rightarrow> addr \<Rightarrow> addr \<Rightarrow> 'a mm_state_scheme \<Rightarrow> 'a mm_state_scheme" where
  "dup_mm_exe_file E a olda s =
    (let (f, s) = get_mm_exe_file E olda s;
         s = upd_mm a (\<lambda>m. m\<lparr>exe_file := f\<rparr>) s
     in if f \<noteq> NULL \<and> e_deny_write E f = 0 then acquire (DenyWrite f) s else s)"

definition put_exe_file :: "addr \<Rightarrow> 'a mm_state_scheme \<Rightarrow> 'a mm_state_scheme" where
  "put_exe_file f s = (if f \<noteq> NULL then release (FileRef f) (release (DenyWrite f) s) else s)"

definition set_mm_exe_file :: "mm_env \<Rightarrow> addr \<Rightarrow> addr \<Rightarrow> 'a mm_state_scheme \<Rightarrow> int \<times> 'a mm_state_scheme" where
  "set_mm_exe_file E a newf s =
    (let oldf = (case mms s a of None \<Rightarrow> NULL | Some m \<Rightarrow> exe_file m)
     in if newf \<noteq> NULL \<and> e_deny_write E newf \<noteq> 0 then (- EACCES, s)
        else let s = (if newf \<noteq> NULL then acquire (FileRef newf) (acquire (DenyWrite newf) s) else s);
                 s = upd_mm a (\<lambda>m. m\<lparr>exe_file := newf\<rparr>) s
             in (0, put_exe_file oldf s))"

text \<open>The loop looks for a mapping of the old executable; \<open>path\<close> names the path of a file.\<close>

fun maps_exe :: "(addr \<Rightarrow> 'p) \<Rightarrow> addr \<Rightarrow> vm_area_struct list \<Rightarrow> int" where
  "maps_exe path oldf [] = 0"
| "maps_exe path oldf (v # vs) =
     (if vm_file v = NULL then maps_exe path oldf vs
      else if path (vm_file v) = path oldf then - EBUSY else maps_exe path oldf vs)"

definition replace_mm_exe_file ::
  "mm_env \<Rightarrow> (addr \<Rightarrow> 'p) \<Rightarrow> addr \<Rightarrow> addr \<Rightarrow> 'a mm_state_scheme \<Rightarrow> int \<times> 'a mm_state_scheme" where
  "replace_mm_exe_file E path a newf s =
    (let (oldf, s) = get_mm_exe_file E a s;
         (ret, s) = (if oldf = NULL then (0, s)
           else let s = acquire (MmapRead a) s;
                    ret = (case mms s a of None \<Rightarrow> 0 | Some m \<Rightarrow> maps_exe path oldf (mmap m));
                    s = release (MmapRead a) s
                in (ret, release (FileRef oldf) s))
     in if ret \<noteq> 0 then (ret, s)
        else if e_deny_write E newf \<noteq> 0 then (- EACCES, s)
        else let s = acquire (FileRef newf) (acquire (DenyWrite newf) s);
                 oldf = (case mms s a of None \<Rightarrow> NULL | Some m \<Rightarrow> exe_file m);
                 s = upd_mm a (\<lambda>m. m\<lparr>exe_file := newf\<rparr>) s
             in (0, if oldf \<noteq> NULL then release (MmapRead a) (put_exe_file oldf (acquire (MmapRead a) s)) else s))"

section \<open>Reference counts\<close>

definition mmget :: "addr \<Rightarrow> 'a mm_state_scheme \<Rightarrow> 'a mm_state_scheme" where
  "mmget a = upd_mm a (\<lambda>m. m\<lparr>mm_users := mm_users m + 1\<rparr>)"

definition mmgrab :: "addr \<Rightarrow> 'a mm_state_scheme \<Rightarrow> 'a mm_state_scheme" where
  "mmgrab a = upd_mm a (\<lambda>m. m\<lparr>mm_count := mm_count m + 1\<rparr>)"

text \<open>\<open>__mmdrop\<close> frees what the structure itself owns.\<close>

definition mmdrop_last :: "addr \<Rightarrow> 'a mm_state_scheme \<Rightarrow> 'a mm_state_scheme" where
  "mmdrop_last a s =
    (case mms s a of None \<Rightarrow> s
     | Some m \<Rightarrow> free_mm a (release (UserNs (user_ns m)) (release (MmContext a) (release (Pgd a) s))))"

definition mmdrop :: "addr \<Rightarrow> 'a mm_state_scheme \<Rightarrow> 'a mm_state_scheme" where
  "mmdrop a s =
    (case mms s a of None \<Rightarrow> s
     | Some m \<Rightarrow> let s = upd_mm a (\<lambda>m. m\<lparr>mm_count := mm_count m - 1\<rparr>) s
                  in if mm_count m = 1 then mmdrop_last a s else s)"

definition mmput_last :: "mm_env \<Rightarrow> addr \<Rightarrow> 'a mm_state_scheme \<Rightarrow> 'a mm_state_scheme" where
  "mmput_last E a s =
    (case mms s a of None \<Rightarrow> s
     | Some m \<Rightarrow>
       let s = upd_mm a (\<lambda>m. m\<lparr>mmap := []\<rparr>) (s\<lparr>held := e_exit_mmap E a (mmap m) (held s)\<rparr>);
           s = snd (set_mm_exe_file E a NULL s);
           s = (if binfmt m \<noteq> NULL then release (ModuleRef (binfmt m)) s else s)
       in mmdrop a s)"

definition mmput :: "mm_env \<Rightarrow> addr \<Rightarrow> 'a mm_state_scheme \<Rightarrow> 'a mm_state_scheme" where
  "mmput E a s =
    (case mms s a of None \<Rightarrow> s
     | Some m \<Rightarrow> let s = upd_mm a (\<lambda>m. m\<lparr>mm_users := mm_users m - 1\<rparr>) s
                  in if mm_users m = 1 then mmput_last E a s else s)"

text \<open>\<open>mmput_async\<close> only queues the release by the last user; the worker calls \<open>mmput_async_fn\<close> later.\<close>

definition mmput_async_fn :: "mm_env \<Rightarrow> addr \<Rightarrow> 'a mm_state_scheme \<Rightarrow> 'a mm_state_scheme" where
  "mmput_async_fn E a s = mmput_last E a s"

definition mmput_async :: "addr \<Rightarrow> 'a mm_state_scheme \<Rightarrow> bool \<times> 'a mm_state_scheme" where
  "mmput_async a s =
    (case mms s a of None \<Rightarrow> (False, s)
     | Some m \<Rightarrow> (mm_users m = 1, upd_mm a (\<lambda>m. m\<lparr>mm_users := mm_users m - 1\<rparr>) s))"

section \<open>Creation\<close>

text \<open>\<open>mm_init\<close> on the structure at \<open>a\<close>; \<open>cur_mm\<close> is the address space of the running task.\<close>

definition mm_init :: "mm_env \<Rightarrow> addr \<Rightarrow> addr \<Rightarrow> addr \<Rightarrow> addr \<Rightarrow> 'a mm_state_scheme \<Rightarrow> addr \<times> 'a mm_state_scheme" where
  "mm_init E cur_mm a p ns s =
    (let s = upd_mm a (\<lambda>m. m\<lparr>mmap := [], map_count := 0, mm_users := 1, mm_count := 1, mm_owner := p, exe_file := NULL\<rparr>) s;
         s = upd_mm a (\<lambda>m. case mms s cur_mm of
               Some c \<Rightarrow> if cur_mm \<noteq> NULL
                 then m\<lparr>mm_flags := mm_flags c AND e_mmf_init_mask E, def_flags := def_flags c AND e_vm_init_def_mask E\<rparr>
                 else m\<lparr>mm_flags := e_default_dump_filter E, def_flags := 0\<rparr>
             | None \<Rightarrow> m\<lparr>mm_flags := e_default_dump_filter E, def_flags := 0\<rparr>) s
     in if \<not> e_pgd_alloc E then (NULL, free_mm a s)
        else let s = acquire (Pgd a) s
             in if e_init_context E \<noteq> 0 then (NULL, free_mm a (release (Pgd a) s))
                else (a, upd_mm a (\<lambda>m. m\<lparr>user_ns := ns\<rparr>) (acquire (UserNs ns) (acquire (MmContext a) s))))"

definition mm_zero :: mm_struct where
  "mm_zero = \<lparr>mmap = [], map_count = 0, mm_stat = \<lparr>total_vm = 0, data_vm = 0, exec_vm = 0, stack_vm = 0\<rparr>,
     hiwater_rss = 0, hiwater_vm = 0, mm_users = 0, mm_count = 0, mm_flags = 0, def_flags = 0,
     mm_owner = NULL, exe_file = NULL, binfmt = NULL, user_ns = NULL\<rparr>"

definition mm_alloc :: "mm_env \<Rightarrow> addr \<Rightarrow> addr \<Rightarrow> addr \<Rightarrow> 'a mm_state_scheme \<Rightarrow> addr \<times> 'a mm_state_scheme" where
  "mm_alloc E cur_mm cur cur_ns s =
    (let a = e_allocate_mm E
     in if a = NULL then (NULL, s) else mm_init E cur_mm a cur cur_ns (put_mm a mm_zero s))"

section \<open>Duplication\<close>

text \<open>The error exits of one iteration of the loop of \<open>dup_mmap\<close>.\<close>

definition fail_nomem :: "u64 \<Rightarrow> 'a mm_state_scheme \<Rightarrow> int \<times> 'a mm_state_scheme" where
  "fail_nomem charge s = (- ENOMEM, if charge \<noteq> 0 then release (Charged charge) s else s)"

definition fail_nomem_policy :: "addr \<Rightarrow> u64 \<Rightarrow> 'a mm_state_scheme \<Rightarrow> int \<times> 'a mm_state_scheme" where
  "fail_nomem_policy a charge s = fail_nomem charge (release (VmaStruct a) s)"

definition fail_nomem_anon_vma_fork :: "addr \<Rightarrow> u64 \<Rightarrow> 'a mm_state_scheme \<Rightarrow> int \<times> 'a mm_state_scheme" where
  "fail_nomem_anon_vma_fork a charge s = fail_nomem_policy a charge (release (VmaPolicy a) s)"

text \<open>One mapping: the copy \<open>tmp\<close> of \<open>mpnt\<close>, and the iteration that makes and links it.\<close>

definition dup_vma_copy :: "vma_env \<Rightarrow> vm_area_struct \<Rightarrow> vm_area_struct" where
  "dup_vma_copy V mpnt =
    (let tmp = mpnt\<lparr>vm_flags := vm_flags mpnt AND NOT (ve_uffd_clear V)\<rparr>;
         tmp = (if vma_flag tmp VM_WIPEONFORK then tmp\<lparr>anon_vma := False\<rparr> else tmp)
     in tmp\<lparr>vm_flags := vm_flags tmp AND NOT (VM_LOCKED OR VM_LOCKONFAULT)\<rparr>)"

definition link_file :: "addr \<Rightarrow> vm_area_struct \<Rightarrow> 'a mm_state_scheme \<Rightarrow> 'a mm_state_scheme" where
  "link_file a tmp s =
    (if vm_file tmp = NULL then s
     else let s = acquire (FileRef (vm_file tmp)) s;
              s = (if vma_flag tmp VM_SHARED then acquire (MapWritable (vm_file tmp)) s else s)
          in acquire (IMmap a (vm_file tmp)) s)"

definition dup_vma :: "vma_env \<Rightarrow> vm_area_struct \<Rightarrow> addr \<Rightarrow> 'a mm_state_scheme \<Rightarrow> int \<times> 'a mm_state_scheme" where
  "dup_vma V mpnt a s =
    (if ve_signal V then (- EINTR, s)
     else if vma_flag mpnt VM_ACCOUNT \<and> ve_enough_memory V \<noteq> 0 then fail_nomem 0 s
     else let charge = (if vma_flag mpnt VM_ACCOUNT then vma_pages mpnt else 0);
              s = (if charge \<noteq> 0 then acquire (Charged charge) s else s);
              tmp = dup_vma_copy V mpnt
          in if \<not> ve_alloc V then fail_nomem charge s
             else let s = acquire (VmaStruct a) s
             in if ve_policy V \<noteq> 0 then fail_nomem_policy a charge s
                else let s = acquire (VmaPolicy a) s
                in if ve_uffd V \<noteq> 0 then fail_nomem_anon_vma_fork a charge s
                   else if \<not> vma_flag tmp VM_WIPEONFORK \<and> ve_anon V \<noteq> 0 then fail_nomem_anon_vma_fork a charge s
                   else let s = (if anon_vma tmp then acquire (VmaAnon a) s else s);
                            s = link_file a tmp s;
                            s = upd_mm a (\<lambda>m. m\<lparr>mmap := mmap m @ [tmp], map_count := map_count m + 1\<rparr>) s;
                            s = (if vm_open tmp then acquire (VmaOpen a) s else s)
                        in (if vma_flag tmp VM_WIPEONFORK then 0 else ve_copy V, s))"

fun dup_vmas :: "mm_env \<Rightarrow> nat \<Rightarrow> vm_area_struct list \<Rightarrow> addr \<Rightarrow> 'a mm_state_scheme \<Rightarrow> int \<times> 'a mm_state_scheme" where
  "dup_vmas E i [] a s = (e_arch_dup_mmap E, s)"
| "dup_vmas E i (mpnt # rest) a s =
    (if vma_flag mpnt VM_DONTCOPY
     then dup_vmas E (Suc i) rest a
            (upd_mm a (\<lambda>m. m\<lparr>mm_stat := e_stat_account E (vm_flags mpnt) (- vma_pages mpnt) (mm_stat m)\<rparr>) s)
     else let (retval, s) = dup_vma (e_vma E i) mpnt a s
          in if retval \<noteq> 0 then (retval, s) else dup_vmas E (Suc i) rest a s)"

definition dup_mmap :: "mm_env \<Rightarrow> addr \<Rightarrow> addr \<Rightarrow> 'a mm_state_scheme \<Rightarrow> int \<times> 'a mm_state_scheme" where
  "dup_mmap E a olda s =
    (let s = acquire UprobeDup s
     in if e_lock_killable E \<noteq> 0 then (- EINTR, release UprobeDup s)
        else let s = acquire (MmapWrite a) (acquire (MmapWrite olda) s);
                 s = dup_mm_exe_file E a olda s;
                 oldm = (case mms s olda of None \<Rightarrow> mm_zero | Some m \<Rightarrow> m);
                 s = upd_mm a (\<lambda>m. m\<lparr>mm_stat := mm_stat oldm\<rparr>) s;
                 (retval, s) = (if e_ksm_fork E \<noteq> 0 then (e_ksm_fork E, s)
                   else if e_khugepaged_fork E \<noteq> 0 then (e_khugepaged_fork E, s)
                   else dup_vmas E 0 (mmap oldm) a s)
             in (retval, release UprobeDup (release (MmapWrite olda) (release (MmapWrite a) s))))"

definition dup_mm_free_pt :: "mm_env \<Rightarrow> addr \<Rightarrow> 'a mm_state_scheme \<Rightarrow> addr \<times> 'a mm_state_scheme" where
  "dup_mm_free_pt E a s = (NULL, mmput E a (upd_mm a (\<lambda>m. m\<lparr>binfmt := NULL, mm_owner := NULL\<rparr>) s))"

definition dup_mm :: "mm_env \<Rightarrow> addr \<Rightarrow> addr \<Rightarrow> 'a mm_state_scheme \<Rightarrow> addr \<times> 'a mm_state_scheme" where
  "dup_mm E p olda s =
    (let a = e_allocate_mm E
     in if a = NULL then (NULL, s)
        else let oldm = (case mms s olda of None \<Rightarrow> mm_zero | Some m \<Rightarrow> m);
                 (a', s) = mm_init E olda a p (user_ns oldm) (put_mm a oldm s)
             in if a' = NULL then (NULL, s)
                else let (err, s) = dup_mmap E a olda s
                in if err \<noteq> 0 then dup_mm_free_pt E a s
                   else let s = upd_mm a (\<lambda>m. m\<lparr>hiwater_rss := e_rss E, hiwater_vm := total_vm (mm_stat m)\<rparr>) s
                   in if binfmt oldm = NULL then (a, s)
                      else if \<not> e_module_get E then dup_mm_free_pt E a s
                      else (a, acquire (ModuleRef (binfmt oldm)) s))"

section \<open>Ownership\<close>

text \<open>What a linked mapping and an address space hold of other subsystems.\<close>

definition vma_res :: "addr \<Rightarrow> vm_area_struct \<Rightarrow> mm_res multiset" where
  "vma_res a v = {#VmaStruct a, VmaPolicy a#} + (if anon_vma v then {#VmaAnon a#} else {#}) +
     (if vm_file v = NULL then {#}
      else {#FileRef (vm_file v), IMmap a (vm_file v)#} +
           (if vma_flag v VM_SHARED then {#MapWritable (vm_file v)#} else {#})) +
     (if vma_flag v VM_ACCOUNT \<and> vma_pages v \<noteq> 0 then {#Charged (vma_pages v)#} else {#}) +
     (if vm_open v then {#VmaOpen a#} else {#})"

definition vmas_res :: "addr \<Rightarrow> vm_area_struct list \<Rightarrow> mm_res multiset" where
  "vmas_res a vs = (\<Sum>v\<leftarrow>vs. vma_res a v)"

definition exe_res :: "addr \<Rightarrow> mm_res multiset" where
  "exe_res f = (if f = NULL then {#} else {#FileRef f, DenyWrite f#})"

definition mm_owned :: "addr \<Rightarrow> mm_struct \<Rightarrow> mm_res multiset" where
  "mm_owned a m = {#Pgd a, MmContext a, UserNs (user_ns m)#} +
     (if mm_users m = 0 then {#}
      else vmas_res a (mmap m) + exe_res (exe_file m) + (if binfmt m = NULL then {#} else {#ModuleRef (binfmt m)#}))"

text \<open>
  What is relied on of the code outside: \<open>exit_mmap\<close> gives back what the mappings hold,
  \<open>dup_userfaultfd\<close> clears no flags but its own, and \<open>deny_write_access\<close> succeeds on a file to which
  write access is denied already.
\<close>

definition exit_mmap_ok :: "mm_env \<Rightarrow> bool" where
  "exit_mmap_ok E \<longleftrightarrow> (\<forall>a vs R. e_exit_mmap E a vs (R + vmas_res a vs) = R)"

definition uffd_ok :: "vma_env \<Rightarrow> bool" where
  "uffd_ok V \<longleftrightarrow> ve_uffd_clear V AND NOT UFFD_FLAGS = 0"

definition deny_write_ok :: "mm_env \<Rightarrow> mm_res multiset \<Rightarrow> bool" where
  "deny_write_ok E R \<longleftrightarrow> (\<forall>f. DenyWrite f \<in># R \<longrightarrow> e_deny_write E f = 0)"

lemma vmas_res_simps [simp]: "vmas_res a [] = {#}" "vmas_res a (v # vs) = vma_res a v + vmas_res a vs"
  "vmas_res a (vs @ ws) = vmas_res a vs + vmas_res a ws"
  by (simp_all add: vmas_res_def)


lemma dup_vma_flag:
  assumes "uffd_ok V" "f AND (UFFD_FLAGS OR (VM_LOCKED OR VM_LOCKONFAULT)) = 0"
  shows "vma_flag (dup_vma_copy V v) f = vma_flag v f"
proof -
  have "vm_flags (dup_vma_copy V v) = (vm_flags v AND NOT (ve_uffd_clear V)) AND NOT (VM_LOCKED OR VM_LOCKONFAULT)"
    by (simp only: dup_vma_copy_def Let_def vm_area_struct.simps split: if_split) simp
  then show ?thesis
    unfolding vma_flag_def using and_not_clear [OF assms(1) [unfolded uffd_ok_def] assms(2)] by metis
qed

lemma dup_vma_copy_sel [simp]:
  "vm_start (dup_vma_copy V v) = vm_start v" "vm_end (dup_vma_copy V v) = vm_end v"
  "vm_file (dup_vma_copy V v) = vm_file v" "vm_open (dup_vma_copy V v) = vm_open v"
  "vma_pages (dup_vma_copy V v) = vma_pages v"
  by (simp_all add: dup_vma_copy_def Let_def vma_pages_def)

lemma dup_vma_anon: "anon_vma (dup_vma_copy V v) \<longrightarrow> \<not> vma_flag (dup_vma_copy V v) VM_WIPEONFORK"
  by (simp add: dup_vma_copy_def Let_def vma_flag_def and.assoc)

lemma held_mms_swap [simp]: "s\<lparr>held := X, mms := Y\<rparr> = s\<lparr>mms := Y, held := X\<rparr>" for s :: "'a mm_state_scheme"
  by (cases s) simp

lemmas tok = acquire_def release_def upd_mm_def put_mm_def free_mm_def

lemma fail_simps:
  "fail_nomem c (if c \<noteq> 0 then acquire (Charged c) s else s) = (- ENOMEM, s)"
  "fail_nomem 0 s = (- ENOMEM, s)"
  "fail_nomem_policy a c (acquire (VmaStruct a) (if c \<noteq> 0 then acquire (Charged c) s else s)) = (- ENOMEM, s)"
  "fail_nomem_anon_vma_fork a c (acquire (VmaPolicy a) (acquire (VmaStruct a)
     (if c \<noteq> 0 then acquire (Charged c) s else s))) = (- ENOMEM, s)"
  by (simp_all add: fail_nomem_def fail_nomem_policy_def fail_nomem_anon_vma_fork_def tok)

lemma dup_vma_eff:
  assumes m: "mms s a = Some m" and u: "uffd_ok V"
  obtains (fail) r where "dup_vma V v a s = (r, s)" "r \<noteq> 0"
  | (link) r where "dup_vma V v a s = (r, s\<lparr>mms := (mms s)(a \<mapsto> m\<lparr>mmap := mmap m @ [dup_vma_copy V v],
       map_count := map_count m + 1\<rparr>), held := held s + vma_res a (dup_vma_copy V v)\<rparr>)"
proof (cases "ve_signal V \<or> vma_flag v VM_ACCOUNT \<and> ve_enough_memory V \<noteq> 0 \<or> \<not> ve_alloc V \<or> ve_policy V \<noteq> 0 \<or>
    ve_uffd V \<noteq> 0 \<or> \<not> vma_flag (dup_vma_copy V v) VM_WIPEONFORK \<and> ve_anon V \<noteq> 0")
  case True
  then have "\<exists>r. dup_vma V v a s = (r, s) \<and> r \<noteq> 0"
    unfolding dup_vma_def Let_def by (simp only: fail_simps split: if_split) auto
  then show ?thesis using fail by blast
next
  case False
  have acc: "vma_flag v VM_ACCOUNT = vma_flag (dup_vma_copy V v) VM_ACCOUNT"
    using dup_vma_flag [OF u, of VM_ACCOUNT v] by simp
  have "\<exists>r. dup_vma V v a s = (r, s\<lparr>mms := (mms s)(a \<mapsto> m\<lparr>mmap := mmap m @ [dup_vma_copy V v],
       map_count := map_count m + 1\<rparr>), held := held s + vma_res a (dup_vma_copy V v)\<rparr>)"
  proof -
    have nf: "ve_signal V = False" "(vma_flag v VM_ACCOUNT \<and> ve_enough_memory V \<noteq> 0) = False" "(\<not> ve_alloc V) = False"
      "(ve_policy V \<noteq> 0) = False" "(ve_uffd V \<noteq> 0) = False"
      "(\<not> vma_flag (dup_vma_copy V v) VM_WIPEONFORK \<and> ve_anon V \<noteq> 0) = False"
      using False by blast+
    show ?thesis unfolding dup_vma_def Let_def nf if_False
      using m by (cases "vma_flag v VM_ACCOUNT"; cases "vm_file v = NULL")
        (simp_all add: vma_res_def acc [symmetric] link_file_def tok Let_def)
  qed
  then show ?thesis using link by blast
qed

text \<open>The mappings a fork copies, and what happens to the statistics for those it leaves out.\<close>

fun copied_vmas :: "mm_env \<Rightarrow> nat \<Rightarrow> vm_area_struct list \<Rightarrow> vm_area_struct list" where
  "copied_vmas E i [] = []"
| "copied_vmas E i (v # vs) =
    (if vma_flag v VM_DONTCOPY then copied_vmas E (Suc i) vs else dup_vma_copy (e_vma E i) v # copied_vmas E (Suc i) vs)"

fun copied_stat :: "mm_env \<Rightarrow> vm_area_struct list \<Rightarrow> vm_stats \<Rightarrow> vm_stats" where
  "copied_stat E [] st = st"
| "copied_stat E (v # vs) st =
    copied_stat E vs (if vma_flag v VM_DONTCOPY then e_stat_account E (vm_flags v) (- vma_pages v) st else st)"

lemma dup_vmas_eff:
  assumes "mms s a = Some m" "\<And>i. uffd_ok (e_vma E i)"
  shows "\<exists>r vs st. dup_vmas E i old a s = (r, s\<lparr>mms := (mms s)(a \<mapsto> m\<lparr>mmap := mmap m @ vs,
     map_count := map_count m + length vs, mm_stat := st\<rparr>), held := held s + vmas_res a vs\<rparr>) \<and>
     (r = 0 \<longrightarrow> vs = copied_vmas E i old \<and> st = copied_stat E old (mm_stat m))"
  using assms(1)
proof (induction old arbitrary: i s m)
  case Nil
  have "dup_vmas E i [] a s = (e_arch_dup_mmap E, s\<lparr>mms := (mms s)(a \<mapsto> m\<lparr>mmap := mmap m @ [],
     map_count := map_count m + length [], mm_stat := mm_stat m\<rparr>), held := held s + vmas_res a []\<rparr>)"
    using Nil by (simp add: fun_upd_idem)
  then show ?case by (metis copied_vmas.simps(1) copied_stat.simps(1))
next
  case (Cons v old)
  show ?case
  proof (cases "vma_flag v VM_DONTCOPY")
    case True
    let ?m = "m\<lparr>mm_stat := e_stat_account E (vm_flags v) (- vma_pages v) (mm_stat m)\<rparr>"
    let ?s = "s\<lparr>mms := (mms s)(a \<mapsto> ?m)\<rparr>"
    have msa: "mms ?s a = Some ?m" by simp
    obtain r' vs st where ih: "dup_vmas E (Suc i) old a ?s = (r', ?s\<lparr>mms := (mms ?s)(a \<mapsto> ?m\<lparr>mmap := mmap ?m @ vs,
        map_count := map_count ?m + length vs, mm_stat := st\<rparr>), held := held ?s + vmas_res a vs\<rparr>)"
      "r' = 0 \<longrightarrow> vs = copied_vmas E (Suc i) old \<and> st = copied_stat E old (mm_stat ?m)"
      using Cons.IH [of ?s ?m "Suc i", OF msa] by blast
    have "dup_vmas E i (v # old) a s = dup_vmas E (Suc i) old a ?s"
      using True Cons.prems by (simp add: upd_mm_def)
    also have "\<dots> = (r', s\<lparr>mms := (mms s)(a \<mapsto> m\<lparr>mmap := mmap m @ vs,
        map_count := map_count m + length vs, mm_stat := st\<rparr>), held := held s + vmas_res a vs\<rparr>)"
      unfolding ih(1) by simp
    finally show ?thesis using ih(2) True by fastforce
  next
    case False
    let ?c = "dup_vma_copy (e_vma E i) v"
    show ?thesis
    proof (rule dup_vma_eff [of s a m "e_vma E i" v, OF Cons.prems assms(2)])
      fix r assume "dup_vma (e_vma E i) v a s = (r, s)" "r \<noteq> 0"
      then have "dup_vmas E i (v # old) a s = (r, s\<lparr>mms := (mms s)(a \<mapsto> m\<lparr>mmap := mmap m @ [],
         map_count := map_count m + length [], mm_stat := mm_stat m\<rparr>), held := held s + vmas_res a []\<rparr>)"
        using False Cons.prems by (simp add: fun_upd_idem)
      with \<open>r \<noteq> 0\<close> show ?thesis by blast
    next
      let ?m = "m\<lparr>mmap := mmap m @ [?c], map_count := map_count m + 1\<rparr>"
      let ?s = "s\<lparr>mms := (mms s)(a \<mapsto> ?m), held := held s + vma_res a ?c\<rparr>"
      fix r assume d: "dup_vma (e_vma E i) v a s = (r, ?s)"
      have msa: "mms ?s a = Some ?m" by simp
      show ?thesis
      proof (cases "r = 0")
        case True
        obtain r' vs st where ih: "dup_vmas E (Suc i) old a ?s = (r', ?s\<lparr>mms := (mms ?s)(a \<mapsto> ?m\<lparr>mmap := mmap ?m @ vs,
            map_count := map_count ?m + length vs, mm_stat := st\<rparr>), held := held ?s + vmas_res a vs\<rparr>)"
          "r' = 0 \<longrightarrow> vs = copied_vmas E (Suc i) old \<and> st = copied_stat E old (mm_stat ?m)"
          using Cons.IH [of ?s ?m "Suc i", OF msa] by blast
        have "dup_vmas E i (v # old) a s = (r', s\<lparr>mms := (mms s)(a \<mapsto> m\<lparr>mmap := mmap m @ (?c # vs),
          map_count := map_count m + length (?c # vs), mm_stat := st\<rparr>), held := held s + vmas_res a (?c # vs)\<rparr>)"
          using False d True ih(1) by (simp add: add.assoc)
        then show ?thesis using ih(2) False by fastforce
      next
        case nz: False
        have "dup_vmas E i (v # old) a s = (r, s\<lparr>mms := (mms s)(a \<mapsto> m\<lparr>mmap := mmap m @ [?c],
          map_count := map_count m + length [?c], mm_stat := mm_stat m\<rparr>), held := held s + vmas_res a [?c]\<rparr>)"
          using False d nz by simp
        with nz show ?thesis by blast
      qed
    qed
  qed
qed

lemma exe_res_upd: "f \<noteq> NULL \<Longrightarrow> exe_res f = {#FileRef f, DenyWrite f#}" "exe_res NULL = {#}"
  by (simp_all add: exe_res_def)

lemma dup_mmap_eff:
  assumes "mms s a = Some m" "mms s olda = Some oldm" "a \<noteq> olda" "mmap m = []" "map_count m = 0" "exe_file m = NULL"
    "\<And>i. uffd_ok (e_vma E i)" "exe_file oldm \<noteq> NULL \<Longrightarrow> e_deny_write E (exe_file oldm) = 0"
  shows "\<exists>r vs f st. dup_mmap E a olda s = (r, s\<lparr>mms := (mms s)(a \<mapsto> m\<lparr>mmap := vs, map_count := length vs,
      mm_stat := st, exe_file := f\<rparr>), held := held s + (vmas_res a vs + exe_res f)\<rparr>) \<and>
     (r = 0 \<longrightarrow> vs = copied_vmas E 0 (mmap oldm) \<and> st = copied_stat E (mmap oldm) (mm_stat oldm) \<and>
        f = (if e_get_file_rcu E (exe_file oldm) then exe_file oldm else NULL))"
proof (cases "e_lock_killable E \<noteq> 0")
  case True
  have "dup_mmap E a olda s = (- EINTR, s\<lparr>mms := (mms s)(a \<mapsto> m\<lparr>mmap := [], map_count := length ([]::vm_area_struct list),
      mm_stat := mm_stat m, exe_file := NULL\<rparr>), held := held s + (vmas_res a [] + exe_res NULL)\<rparr>)"
    using True assms(1,4-6) by (simp add: dup_mmap_def tok exe_res_def fun_upd_idem)
  then show ?thesis by (intro exI conjI) (assumption, simp)
next
  case False
  define f where "f = (if e_get_file_rcu E (exe_file oldm) then exe_file oldm else NULL)"
  let ?m = "m\<lparr>exe_file := f, mm_stat := mm_stat oldm\<rparr>"
  let ?s = "s\<lparr>mms := (mms s)(a \<mapsto> ?m), held := held s + {#MmapWrite a, MmapWrite olda, UprobeDup#} + exe_res f\<rparr>"
  have exe: "dup_mm_exe_file E a olda (acquire (MmapWrite a) (acquire (MmapWrite olda) (acquire UprobeDup s))) =
      s\<lparr>mms := (mms s)(a \<mapsto> m\<lparr>exe_file := f\<rparr>), held := held s + {#MmapWrite a, MmapWrite olda, UprobeDup#} + exe_res f\<rparr>"
    using assms(1,2,8) by (auto simp: dup_mm_exe_file_def get_mm_exe_file_def f_def exe_res_def tok Let_def)
  have old: "mms (s\<lparr>mms := (mms s)(a \<mapsto> m\<lparr>exe_file := f\<rparr>), held := X\<rparr>) olda = Some oldm" for X
    using assms(2,3) by simp
  have st: "upd_mm a (\<lambda>m. m\<lparr>mm_stat := mm_stat oldm\<rparr>)
      (s\<lparr>mms := (mms s)(a \<mapsto> m\<lparr>exe_file := f\<rparr>), held := held s + {#MmapWrite a, MmapWrite olda, UprobeDup#} + exe_res f\<rparr>) = ?s"
    by (simp add: upd_mm_def)
  have msa: "mms ?s a = Some ?m" by simp
  define res where "res = (if e_ksm_fork E \<noteq> 0 then (e_ksm_fork E, ?s)
      else if e_khugepaged_fork E \<noteq> 0 then (e_khugepaged_fork E, ?s) else dup_vmas E 0 (mmap oldm) a ?s)"
  have "\<exists>r vs st. res = (r, ?s\<lparr>mms := (mms ?s)(a \<mapsto> ?m\<lparr>mmap := mmap ?m @ vs,
     map_count := map_count ?m + length vs, mm_stat := st\<rparr>), held := held ?s + vmas_res a vs\<rparr>) \<and>
     (r = 0 \<longrightarrow> vs = copied_vmas E 0 (mmap oldm) \<and> st = copied_stat E (mmap oldm) (mm_stat oldm))"
  proof (cases "e_ksm_fork E \<noteq> 0 \<or> e_khugepaged_fork E \<noteq> 0")
    case True
    then obtain r where "res = (r, ?s)" "r \<noteq> 0" unfolding res_def by (cases "e_ksm_fork E \<noteq> 0") simp_all
    then have "res = (r, ?s\<lparr>mms := (mms ?s)(a \<mapsto> ?m\<lparr>mmap := mmap ?m @ [],
       map_count := map_count ?m + length [], mm_stat := mm_stat oldm\<rparr>), held := held ?s + vmas_res a []\<rparr>)"
      by simp
    with \<open>r \<noteq> 0\<close> show ?thesis by blast
  next
    case False
    then have "res = dup_vmas E 0 (mmap oldm) a ?s" by (simp add: res_def)
    with dup_vmas_eff [OF msa assms(7), of 0 "mmap oldm"] show ?thesis by simp
  qed
  then obtain r vs st where r: "res = (r, ?s\<lparr>mms := (mms ?s)(a \<mapsto> ?m\<lparr>mmap := mmap ?m @ vs,
     map_count := map_count ?m + length vs, mm_stat := st\<rparr>), held := held ?s + vmas_res a vs\<rparr>)"
     "r = 0 \<longrightarrow> vs = copied_vmas E 0 (mmap oldm) \<and> st = copied_stat E (mmap oldm) (mm_stat oldm)" by blast
  have "dup_mmap E a olda s = (case res of (r, s) \<Rightarrow> (r, release UprobeDup (release (MmapWrite olda) (release (MmapWrite a) s))))"
    unfolding dup_mmap_def Let_def exe old option.case st res_def using False by simp
  also have "\<dots> = (r, s\<lparr>mms := (mms s)(a \<mapsto> m\<lparr>mmap := vs, map_count := length vs, mm_stat := st, exe_file := f\<rparr>),
      held := held s + (vmas_res a vs + exe_res f)\<rparr>)"
    unfolding r(1) using assms(4,5) by (cases m) (simp add: release_def)
  finally show ?thesis using r(2) f_def by blast
qed

lemma mmdrop_eff:
  assumes "mms s a = Some m" "held s = R + {#Pgd a, MmContext a, UserNs (user_ns m)#}" "mm_count m = 1"
  shows "mmdrop a s = s\<lparr>mms := (mms s)(a := None), held := R\<rparr>"
  using assms by (simp add: mmdrop_def mmdrop_last_def tok Let_def)

lemma mmdrop_keep:
  assumes "mms s a = Some m" "mm_count m \<noteq> 1"
  shows "mmdrop a s = s\<lparr>mms := (mms s)(a \<mapsto> m\<lparr>mm_count := mm_count m - 1\<rparr>)\<rparr>"
  using assms by (simp add: mmdrop_def upd_mm_def)

text \<open>The last user gives back the mappings, the executable and the module; the structure stays if referenced.\<close>

lemma mmput_last_eff:
  assumes "mms s a = Some m" "exit_mmap_ok E"
    "held s = R + (vmas_res a (mmap m) + exe_res (exe_file m) + (if binfmt m = NULL then {#} else {#ModuleRef (binfmt m)#}))"
  shows "mmput_last E a s = mmdrop a (s\<lparr>mms := (mms s)(a \<mapsto> m\<lparr>mmap := [], exe_file := NULL\<rparr>), held := R\<rparr>)"
proof -
  have "e_exit_mmap E a (mmap m) (held s) = R + (exe_res (exe_file m) + (if binfmt m = NULL then {#} else {#ModuleRef (binfmt m)#}))"
    using assms(2) unfolding exit_mmap_ok_def assms(3) by (metis add.assoc add.commute)
  then show ?thesis
    using assms(1) by (simp add: mmput_last_def set_mm_exe_file_def put_exe_file_def exe_res_def Let_def tok)
qed

lemma mmput_eff:
  assumes "mms s a = Some m" "exit_mmap_ok E" "held s = R + mm_owned a m" "0 < mm_users m" "0 < mm_count m"
  shows "mmput E a s =
    (if mm_users m > 1 then s\<lparr>mms := (mms s)(a \<mapsto> m\<lparr>mm_users := mm_users m - 1\<rparr>)\<rparr>
     else if mm_count m > 1 then s\<lparr>mms := (mms s)(a \<mapsto> m\<lparr>mm_users := 0, mmap := [], exe_file := NULL, mm_count := mm_count m - 1\<rparr>),
       held := R + {#Pgd a, MmContext a, UserNs (user_ns m)#}\<rparr>
     else s\<lparr>mms := (mms s)(a := None), held := R\<rparr>)"
proof (cases "mm_users m = 1")
  case False
  then show ?thesis using assms(1,4) by (simp add: mmput_def upd_mm_def)
next
  case True
  let ?m = "m\<lparr>mm_users := 0\<rparr>"
  let ?s = "s\<lparr>mms := (mms s)(a \<mapsto> ?m)\<rparr>"
  let ?R = "R + {#Pgd a, MmContext a, UserNs (user_ns m)#}"
  let ?t = "s\<lparr>mms := (mms s)(a \<mapsto> ?m\<lparr>mmap := [], exe_file := NULL\<rparr>), held := ?R\<rparr>"
  have h: "held ?s = ?R + (vmas_res a (mmap ?m) + exe_res (exe_file ?m) + (if binfmt ?m = NULL then {#} else {#ModuleRef (binfmt ?m)#}))"
    using assms(3) True by (simp add: mm_owned_def)
  have "mmput E a s = mmput_last E a ?s" using assms(1) True by (simp add: mmput_def upd_mm_def)
  also have "\<dots> = mmdrop a ?t" using mmput_last_eff [OF _ assms(2) h] by simp
  finally have p: "mmput E a s = mmdrop a ?t" .
  show ?thesis
  proof (cases "mm_count m = 1")
    case one: True
    then have "mmdrop a ?t = ?t\<lparr>mms := (mms ?t)(a := None), held := R\<rparr>"
      using mmdrop_eff [of ?t a "?m\<lparr>mmap := [], exe_file := NULL\<rparr>" R] by simp
    then show ?thesis using p True one by simp
  next
    case more: False
    then have "mmdrop a ?t = ?t\<lparr>mms := (mms ?t)(a \<mapsto> (?m\<lparr>mmap := [], exe_file := NULL\<rparr>)\<lparr>mm_count := mm_count m - 1\<rparr>)\<rparr>"
      using mmdrop_keep [of ?t a "?m\<lparr>mmap := [], exe_file := NULL\<rparr>"] by simp
    then show ?thesis using p True more assms(5) by simp
  qed
qed

lemma mm_init_eff:
  assumes "mms s a = Some m"
  shows "(\<exists>s'. mm_init E cur a p ns s = (NULL, s') \<and> s' = s\<lparr>mms := (mms s)(a := None)\<rparr>) \<or>
    (\<exists>fl df. mm_init E cur a p ns s = (a, s\<lparr>mms := (mms s)(a \<mapsto> m\<lparr>mmap := [], map_count := 0, mm_users := 1, mm_count := 1,
       mm_owner := p, exe_file := NULL, mm_flags := fl, def_flags := df, user_ns := ns\<rparr>),
       held := held s + {#Pgd a, MmContext a, UserNs ns#}\<rparr>))"
proof -
  define m1 where "m1 = m\<lparr>mmap := [], map_count := 0, mm_users := 1, mm_count := 1, mm_owner := p, exe_file := NULL\<rparr>"
  define s1 where "s1 = s\<lparr>mms := (mms s)(a \<mapsto> m1)\<rparr>"
  have a1: "upd_mm a (\<lambda>m. m\<lparr>mmap := [], map_count := 0, mm_users := 1, mm_count := 1, mm_owner := p, exe_file := NULL\<rparr>) s = s1"
    using assms by (simp add: upd_mm_def s1_def m1_def)
  obtain fl df where "(case mms s1 cur of
               Some c \<Rightarrow> if cur \<noteq> NULL
                 then m1\<lparr>mm_flags := mm_flags c AND e_mmf_init_mask E, def_flags := def_flags c AND e_vm_init_def_mask E\<rparr>
                 else m1\<lparr>mm_flags := e_default_dump_filter E, def_flags := 0\<rparr>
             | None \<Rightarrow> m1\<lparr>mm_flags := e_default_dump_filter E, def_flags := 0\<rparr>) = m1\<lparr>mm_flags := fl, def_flags := df\<rparr>"
    by (cases "mms s1 cur"; cases "cur = NULL") simp_all
  then have a2: "upd_mm a (\<lambda>m. case mms s1 cur of
               Some c \<Rightarrow> if cur \<noteq> NULL
                 then m\<lparr>mm_flags := mm_flags c AND e_mmf_init_mask E, def_flags := def_flags c AND e_vm_init_def_mask E\<rparr>
                 else m\<lparr>mm_flags := e_default_dump_filter E, def_flags := 0\<rparr>
             | None \<Rightarrow> m\<lparr>mm_flags := e_default_dump_filter E, def_flags := 0\<rparr>) s1 =
      s\<lparr>mms := (mms s)(a \<mapsto> m1\<lparr>mm_flags := fl, def_flags := df\<rparr>)\<rparr>"
    by (simp add: upd_mm_def s1_def)
  show ?thesis
  proof (cases "e_pgd_alloc E \<and> e_init_context E = 0")
    case True
    then have "mm_init E cur a p ns s = (a, s\<lparr>mms := (mms s)(a \<mapsto> m\<lparr>mmap := [], map_count := 0, mm_users := 1, mm_count := 1,
       mm_owner := p, exe_file := NULL, mm_flags := fl, def_flags := df, user_ns := ns\<rparr>),
       held := held s + {#Pgd a, MmContext a, UserNs ns#}\<rparr>)"
      unfolding mm_init_def Let_def a1 a2 by (simp add: tok m1_def add_mset_commute)
    then show ?thesis by blast
  next
    case False
    then show ?thesis unfolding mm_init_def Let_def a1 a2 by (auto simp: tok)
  qed
qed

lemma dup_free_pt_eff:
  assumes "mms s a = Some m" "exit_mmap_ok E" "mm_users m = 1" "mm_count m = 1"
    "held s = R + ({#Pgd a, MmContext a, UserNs (user_ns m)#} + (vmas_res a (mmap m) + exe_res (exe_file m)))"
  shows "dup_mm_free_pt E a s = (NULL, s\<lparr>mms := (mms s)(a := None), held := R\<rparr>)"
proof -
  let ?m = "m\<lparr>binfmt := NULL, mm_owner := NULL\<rparr>"
  let ?s = "s\<lparr>mms := (mms s)(a \<mapsto> ?m)\<rparr>"
  have "mmput E a ?s = ?s\<lparr>mms := (mms ?s)(a := None), held := R\<rparr>"
    using mmput_eff [of ?s a ?m E R] assms by (simp add: mm_owned_def)
  then show ?thesis using assms(1) by (simp add: dup_mm_free_pt_def upd_mm_def)
qed

text \<open>The child's address space after a successful duplication.\<close>

definition dup_mm_result :: "mm_env \<Rightarrow> addr \<Rightarrow> mm_struct \<Rightarrow> mm_struct \<Rightarrow> bool" where
  "dup_mm_result E p oldm m \<longleftrightarrow>
     mmap m = copied_vmas E 0 (mmap oldm) \<and> map_count m = length (mmap m) \<and>
     mm_stat m = copied_stat E (mmap oldm) (mm_stat oldm) \<and> mm_users m = 1 \<and> mm_count m = 1 \<and> mm_owner m = p \<and>
     exe_file m = (if e_get_file_rcu E (exe_file oldm) then exe_file oldm else NULL) \<and>
     binfmt m = binfmt oldm \<and> user_ns m = user_ns oldm"

text \<open>Its second half: what happens once \<open>mm_init\<close> has succeeded.\<close>

definition dup_mm_tail :: "mm_env \<Rightarrow> addr \<Rightarrow> addr \<Rightarrow> mm_struct \<Rightarrow> 'a mm_state_scheme \<Rightarrow> addr \<times> 'a mm_state_scheme" where
  "dup_mm_tail E a olda oldm s =
    (let (err, s) = dup_mmap E a olda s
     in if err \<noteq> 0 then dup_mm_free_pt E a s
        else let s = upd_mm a (\<lambda>m. m\<lparr>hiwater_rss := e_rss E, hiwater_vm := total_vm (mm_stat m)\<rparr>) s
             in if binfmt oldm = NULL then (a, s)
                else if \<not> e_module_get E then dup_mm_free_pt E a s
                else (a, acquire (ModuleRef (binfmt oldm)) s))"

lemma dup_mm_tail_eff:
  assumes s1: "mms s a = Some m" "mms s olda = Some oldm" "a \<noteq> olda" and h: "held s = R + {#Pgd a, MmContext a, UserNs (user_ns m)#}"
    and m: "mmap m = []" "map_count m = 0" "exe_file m = NULL" "mm_users m = 1" "mm_count m = 1" "binfmt m = binfmt oldm"
      "user_ns m = user_ns oldm"
    and E: "exit_mmap_ok E" "\<And>i. uffd_ok (e_vma E i)" "exe_file oldm \<noteq> NULL \<Longrightarrow> e_deny_write E (exe_file oldm) = 0"
  shows "dup_mm_tail E a olda oldm s = (NULL, s\<lparr>mms := (mms s)(a := None), held := R\<rparr>) \<or>
    (\<exists>m'. dup_mm_tail E a olda oldm s = (a, s\<lparr>mms := (mms s)(a \<mapsto> m'), held := R + mm_owned a m'\<rparr>) \<and>
       dup_mm_result E (mm_owner m) oldm m')"
proof -
  let ?own = "{#Pgd a, MmContext a, UserNs (user_ns m)#}"
  obtain r vs f st where d: "dup_mmap E a olda s = (r, s\<lparr>mms := (mms s)(a \<mapsto> m\<lparr>mmap := vs, map_count := length vs,
      mm_stat := st, exe_file := f\<rparr>), held := held s + (vmas_res a vs + exe_res f)\<rparr>)"
    "r = 0 \<longrightarrow> vs = copied_vmas E 0 (mmap oldm) \<and> st = copied_stat E (mmap oldm) (mm_stat oldm) \<and>
      f = (if e_get_file_rcu E (exe_file oldm) then exe_file oldm else NULL)"
    using dup_mmap_eff [OF s1 m(1-3) E(2) E(3)] by blast
  define m2 where "m2 = m\<lparr>mmap := vs, map_count := length vs, mm_stat := st, exe_file := f\<rparr>"
  define s2 where "s2 = s\<lparr>mms := (mms s)(a \<mapsto> m2), held := R + (?own + (vmas_res a vs + exe_res f))\<rparr>"
  have d2: "dup_mmap E a olda s = (r, s2)" unfolding d(1) by (simp add: s2_def m2_def h)
  define m3 where "m3 = m2\<lparr>hiwater_rss := e_rss E, hiwater_vm := total_vm st\<rparr>"
  have s3: "upd_mm a (\<lambda>m. m\<lparr>hiwater_rss := e_rss E, hiwater_vm := total_vm (mm_stat m)\<rparr>) s2 = s2\<lparr>mms := (mms s2)(a \<mapsto> m3)\<rparr>"
    by (simp add: upd_mm_def s2_def m3_def m2_def)
  have free: "dup_mm_free_pt E a (s2\<lparr>mms := (mms s2)(a \<mapsto> x)\<rparr>) = (NULL, s\<lparr>mms := (mms s)(a := None), held := R\<rparr>)"
    if "mm_users x = 1" "mm_count x = 1" "user_ns x = user_ns m" "mmap x = vs" "exe_file x = f" for x
    using dup_free_pt_eff [of "s2\<lparr>mms := (mms s2)(a \<mapsto> x)\<rparr>" a x E R] E(1) that by (simp add: s2_def)
  have free2: "dup_mm_free_pt E a s2 = (NULL, s\<lparr>mms := (mms s)(a := None), held := R\<rparr>)"
    using free [of m2] m by (simp add: s2_def m2_def)
  have free3: "dup_mm_free_pt E a (s2\<lparr>mms := (mms s2)(a \<mapsto> m3)\<rparr>) = (NULL, s\<lparr>mms := (mms s)(a := None), held := R\<rparr>)"
    using m by (intro free) (simp_all add: m3_def m2_def)
  have own: "mm_owned a m3 = ?own + (vmas_res a vs + exe_res f) + (if binfmt oldm = NULL then {#} else {#ModuleRef (binfmt oldm)#})"
    using m by (simp add: mm_owned_def m3_def m2_def)
  have run: "dup_mm_tail E a olda oldm s = (if r \<noteq> 0 then dup_mm_free_pt E a s2
      else if binfmt oldm = NULL then (a, s2\<lparr>mms := (mms s2)(a \<mapsto> m3)\<rparr>)
      else if \<not> e_module_get E then dup_mm_free_pt E a (s2\<lparr>mms := (mms s2)(a \<mapsto> m3)\<rparr>)
      else (a, acquire (ModuleRef (binfmt oldm)) (s2\<lparr>mms := (mms s2)(a \<mapsto> m3)\<rparr>)))"
    by (simp only: dup_mm_tail_def Let_def case_prod_conv d2 s3)
  show ?thesis
  proof (cases "r \<noteq> 0 \<or> binfmt oldm \<noteq> NULL \<and> \<not> e_module_get E")
    case True
    then show ?thesis using run free2 free3 by auto
  next
    case False
    then have "dup_mm_tail E a olda oldm s = (a, s\<lparr>mms := (mms s)(a \<mapsto> m3), held := R + mm_owned a m3\<rparr>)"
      unfolding run own by (auto simp: acquire_def s2_def add_mset_commute)
    moreover have "dup_mm_result E (mm_owner m) oldm m3"
      using d(2) m False by (simp add: dup_mm_result_def m3_def m2_def)
    ultimately show ?thesis by blast
  qed
qed

lemma dup_mm_eff:
  assumes old: "mms s olda = Some oldm" and new: "e_allocate_mm E \<noteq> NULL \<Longrightarrow> mms s (e_allocate_mm E) = None"
    and E: "exit_mmap_ok E" "\<And>i. uffd_ok (e_vma E i)" "exe_file oldm \<noteq> NULL \<Longrightarrow> e_deny_write E (exe_file oldm) = 0"
  shows "dup_mm E p olda s = (NULL, s) \<or>
    (\<exists>a m. dup_mm E p olda s = (a, s\<lparr>mms := (mms s)(a \<mapsto> m), held := held s + mm_owned a m\<rparr>) \<and>
       a = e_allocate_mm E \<and> a \<noteq> NULL \<and> dup_mm_result E p oldm m)"
proof (cases "e_allocate_mm E = NULL")
  case True
  then show ?thesis by (simp add: dup_mm_def)
next
  case False
  define a where "a = e_allocate_mm E"
  have a: "a \<noteq> NULL" "mms s a = None" "a \<noteq> olda" using False new old by (auto simp: a_def)
  define s0 where "s0 = put_mm a oldm s"
  have s0: "s0 = s\<lparr>mms := (mms s)(a \<mapsto> oldm)\<rparr>" "mms s0 a = Some oldm" by (simp_all add: s0_def put_mm_def)
  have undo: "s\<lparr>mms := (mms s)(a := None)\<rparr> = s" using a(2) by (simp add: fun_upd_idem)
  have unf: "dup_mm E p olda s = (let (a', s) = mm_init E olda a p (user_ns oldm) s0
      in if a' = NULL then (NULL, s) else dup_mm_tail E a olda oldm s)"
    using False old unfolding dup_mm_def dup_mm_tail_def s0_def a_def by (simp only: Let_def option.case if_False)
  consider (none) "mm_init E olda a p (user_ns oldm) s0 = (NULL, s)"
    | (init) fl df m where "m = oldm\<lparr>mmap := [], map_count := 0, mm_users := 1, mm_count := 1,
         mm_owner := p, exe_file := NULL, mm_flags := fl, def_flags := df, user_ns := user_ns oldm\<rparr>"
       "mm_init E olda a p (user_ns oldm) s0 = (a, s\<lparr>mms := (mms s)(a \<mapsto> m),
          held := held s + {#Pgd a, MmContext a, UserNs (user_ns oldm)#}\<rparr>)"
    using mm_init_eff [OF s0(2), of E olda p "user_ns oldm"] undo unfolding s0(1) by fastforce
  then show ?thesis
  proof cases
    case none
    then show ?thesis by (simp add: unf)
  next
    case init
    let ?s1 = "s\<lparr>mms := (mms s)(a \<mapsto> m), held := held s + {#Pgd a, MmContext a, UserNs (user_ns oldm)#}\<rparr>"
    have run: "dup_mm E p olda s = dup_mm_tail E a olda oldm ?s1" unfolding unf init(2) using a(1) by simp
    have "mm_owner m = p" by (simp add: init(1))
    with dup_mm_tail_eff [of ?s1 a m olda oldm "held s" E] E a old undo show ?thesis
      unfolding run by (auto simp: init(1) a_def [symmetric])
  qed
qed

section \<open>Accounting\<close>

text \<open>
  The invariant: everything held is held by an address space, except for what the rest of the
  kernel holds (\<open>ext\<close>); a structure exists exactly as long as it is counted.
\<close>

definition mm_total :: "(addr \<rightharpoonup> mm_struct) \<Rightarrow> mm_res multiset" where
  "mm_total f = (\<Sum>a\<in>dom f. mm_owned a (the (f a)))"

definition mm_inv :: "mm_res multiset \<Rightarrow> 'a mm_state_scheme \<Rightarrow> bool" where
  "mm_inv ext s \<longleftrightarrow> finite (dom (mms s)) \<and> held s = ext + mm_total (mms s) \<and>
     (\<forall>a m. mms s a = Some m \<longrightarrow> a \<noteq> NULL \<and> 0 < mm_count m)"

lemma mm_total_new: "finite (dom f) \<Longrightarrow> f a = None \<Longrightarrow> mm_total (f(a \<mapsto> m)) = mm_total f + mm_owned a m"
proof -
  assume h: "finite (dom f)" "f a = None"
  have "(\<Sum>x\<in>dom f. mm_owned x (the ((f(a \<mapsto> m)) x))) = (\<Sum>x\<in>dom f. mm_owned x (the (f x)))"
    using h(2) by (intro sum.cong) auto
  then show ?thesis using h unfolding mm_total_def by (simp add: domIff add.commute)
qed

lemma mm_total_del: "finite (dom f) \<Longrightarrow> f a = Some m \<Longrightarrow> mm_total f = mm_total (f(a := None)) + mm_owned a m"
proof -
  assume h: "finite (dom f)" "f a = Some m"
  have "f = (f(a := None))(a \<mapsto> m)" using h(2) by (simp add: fun_upd_idem)
  then show ?thesis using mm_total_new [of "f(a := None)" a m] h(1) by simp
qed

lemma mm_total_upd: "finite (dom f) \<Longrightarrow> f a = Some m \<Longrightarrow> mm_total (f(a \<mapsto> m')) = mm_total (f(a := None)) + mm_owned a m'"
  using mm_total_new [of "f(a := None)" a m'] by simp

lemma mm_inv_heldE:
  assumes "mm_inv ext s" "mms s a = Some m"
  shows "held s = (ext + mm_total ((mms s)(a := None))) + mm_owned a m"
  using assms mm_total_del [of "mms s" a m] by (simp add: mm_inv_def add.assoc)

lemma mm_inv_upd:
  assumes "mm_inv ext s" "mms s a = Some m" "0 < mm_count m'"
  shows "mm_inv ext (s\<lparr>mms := (mms s)(a \<mapsto> m'), held := (ext + mm_total ((mms s)(a := None))) + mm_owned a m'\<rparr>)"
  using assms by (auto simp: mm_inv_def mm_total_upd add.assoc)

lemma mm_inv_upd_same:
  assumes "mm_inv ext s" "mms s a = Some m" "0 < mm_count m'" "mm_owned a m' = mm_owned a m"
  shows "mm_inv ext (s\<lparr>mms := (mms s)(a \<mapsto> m')\<rparr>)"
proof -
  have "held s = ext + mm_total ((mms s)(a := None)) + mm_owned a m'"
    using mm_inv_heldE [OF assms(1,2)] assms(4) by simp
  then have "s\<lparr>mms := (mms s)(a \<mapsto> m')\<rparr> =
      s\<lparr>mms := (mms s)(a \<mapsto> m'), held := (ext + mm_total ((mms s)(a := None))) + mm_owned a m'\<rparr>" by simp
  then show ?thesis using mm_inv_upd [OF assms(1-3)] by simp
qed

lemma mm_inv_del:
  assumes "mm_inv ext s" "mms s a = Some m"
  shows "mm_inv ext (s\<lparr>mms := (mms s)(a := None), held := ext + mm_total ((mms s)(a := None))\<rparr>)"
  using assms by (auto simp: mm_inv_def)

lemma mm_inv_new:
  assumes "mm_inv ext s" "mms s a = None" "a \<noteq> NULL" "0 < mm_count m"
  shows "mm_inv ext (s\<lparr>mms := (mms s)(a \<mapsto> m), held := held s + mm_owned a m\<rparr>)"
  using assms by (auto simp: mm_inv_def mm_total_new add.assoc)

lemma mmget_inv:
  assumes "mm_inv ext s" "mms s a = Some m" "0 < mm_users m"
  shows "mm_inv ext (mmget a s)"
proof -
  have c: "0 < mm_count m" using assms by (simp add: mm_inv_def)
  have "mm_inv ext (s\<lparr>mms := (mms s)(a \<mapsto> m\<lparr>mm_users := mm_users m + 1\<rparr>)\<rparr>)"
    by (rule mm_inv_upd_same [OF assms(1,2)]) (use c assms(3) in \<open>simp_all add: mm_owned_def\<close>)
  then show ?thesis using assms(2) by (simp add: mmget_def upd_mm_def)
qed

lemma mmput_inv:
  assumes inv: "mm_inv ext s" and m: "mms s a = Some m" and E: "exit_mmap_ok E" and u: "0 < mm_users m"
  shows "mm_inv ext (mmput E a s)"
proof -
  let ?R = "ext + mm_total ((mms s)(a := None))"
  have c: "0 < mm_count m" using inv m by (simp add: mm_inv_def)
  note eff = mmput_eff [OF m E mm_inv_heldE [OF inv m] u c]
  consider "mm_users m > 1" | "mm_users m \<le> 1" "mm_count m > 1" | "mm_users m \<le> 1" "mm_count m \<le> 1" by linarith
  then show ?thesis
  proof cases
    case 1
    have "mm_owned a (m\<lparr>mm_users := mm_users m - 1\<rparr>) = mm_owned a m" using 1 by (simp add: mm_owned_def)
    then have "mm_inv ext (s\<lparr>mms := (mms s)(a \<mapsto> m\<lparr>mm_users := mm_users m - 1\<rparr>)\<rparr>)"
      using c by (intro mm_inv_upd_same [OF inv m]) simp_all
    then show ?thesis unfolding eff if_P [OF 1] .
  next
    case 2
    let ?m = "m\<lparr>mm_users := 0, mmap := [], exe_file := NULL, mm_count := mm_count m - 1\<rparr>"
    have "mm_owned a ?m = {#Pgd a, MmContext a, UserNs (user_ns m)#}" by (simp add: mm_owned_def)
    then have "mm_inv ext (s\<lparr>mms := (mms s)(a \<mapsto> ?m), held := ?R + {#Pgd a, MmContext a, UserNs (user_ns m)#}\<rparr>)"
      using mm_inv_upd [OF inv m, of ?m] 2 by simp
    then show ?thesis unfolding eff using 2 by (simp only: not_less [symmetric] if_False if_True)
  next
    case 3
    then show ?thesis unfolding eff using mm_inv_del [OF inv m] by (simp only: not_less [symmetric] if_False)
  qed
qed

lemma mmgrab_inv:
  assumes "mm_inv ext s" "mms s a = Some m"
  shows "mm_inv ext (mmgrab a s)"
proof -
  have "mm_inv ext (s\<lparr>mms := (mms s)(a \<mapsto> m\<lparr>mm_count := mm_count m + 1\<rparr>)\<rparr>)"
    by (rule mm_inv_upd_same [OF assms(1,2)]) (simp_all add: mm_owned_def)
  then show ?thesis using assms(2) by (simp add: mmgrab_def upd_mm_def)
qed

lemma mmdrop_inv:
  assumes inv: "mm_inv ext s" and m: "mms s a = Some m" and c: "mm_users m = 0 \<or> mm_count m > 1"
  shows "mm_inv ext (mmdrop a s)"
proof (cases "mm_count m = 1")
  case True
  then have "mm_users m = 0" using c by simp
  then have "held s = (ext + mm_total ((mms s)(a := None))) + {#Pgd a, MmContext a, UserNs (user_ns m)#}"
    using mm_inv_heldE [OF inv m] by (simp add: mm_owned_def)
  from mmdrop_eff [OF m this True] show ?thesis using mm_inv_del [OF inv m] by simp
next
  case False
  moreover have "0 < mm_count m" using inv m by (simp add: mm_inv_def)
  ultimately have "mm_inv ext (s\<lparr>mms := (mms s)(a \<mapsto> m\<lparr>mm_count := mm_count m - 1\<rparr>)\<rparr>)"
    by (intro mm_inv_upd_same [OF inv m]) (simp_all add: mm_owned_def)
  then show ?thesis unfolding mmdrop_keep [OF m False] .
qed

lemma set_mm_exe_file_inv:
  assumes inv: "mm_inv ext s" and m: "mms s a = Some m" and u: "0 < mm_users m"
  shows "mm_inv ext (snd (set_mm_exe_file E a f s))"
proof (cases "f \<noteq> NULL \<and> e_deny_write E f \<noteq> 0")
  case True
  then show ?thesis using inv by (simp add: set_mm_exe_file_def Let_def)
next
  case False
  let ?R = "ext + mm_total ((mms s)(a := None))"
  let ?m = "m\<lparr>exe_file := f\<rparr>"
  have c: "0 < mm_count ?m" using inv m by (simp add: mm_inv_def)
  define Q where "Q = ?R + {#Pgd a, MmContext a, UserNs (user_ns m)#} + vmas_res a (mmap m) +
      (if binfmt m = NULL then {#} else {#ModuleRef (binfmt m)#})"
  have h: "held s = Q + exe_res (exe_file m)" "?R + mm_owned a ?m = Q + exe_res f"
    using mm_inv_heldE [OF inv m] u by (simp_all add: mm_owned_def Q_def ac_simps)
  have "snd (set_mm_exe_file E a f s) = s\<lparr>mms := (mms s)(a \<mapsto> ?m), held := Q + exe_res f\<rparr>"
    using False m unfolding set_mm_exe_file_def Let_def
    by (auto simp: put_exe_file_def tok h(1) exe_res_def add_mset_commute)
  then show ?thesis using mm_inv_upd [OF inv m c] unfolding h(2) by simp
qed

lemma mm_alloc_inv:
  assumes inv: "mm_inv ext s" and new: "mms s (e_allocate_mm E) = None"
  shows "mm_inv ext (snd (mm_alloc E cur p ns s))"
proof (cases "e_allocate_mm E = NULL")
  case True
  then show ?thesis using inv by (simp add: mm_alloc_def)
next
  case False
  define a where "a = e_allocate_mm E"
  let ?s = "s\<lparr>mms := (mms s)(a \<mapsto> mm_zero)\<rparr>"
  have al: "mm_alloc E cur p ns s = mm_init E cur a p ns ?s"
    using False by (simp add: mm_alloc_def a_def put_mm_def Let_def)
  have undo: "s\<lparr>mms := (mms s)(a := None)\<rparr> = s" using new by (simp add: a_def fun_upd_idem)
  consider "mm_alloc E cur p ns s = (NULL, s)"
    | fl df where "mm_alloc E cur p ns s = (a, s\<lparr>mms := (mms s)(a \<mapsto> mm_zero\<lparr>mmap := [], map_count := 0, mm_users := 1, mm_count := 1,
       mm_owner := p, exe_file := NULL, mm_flags := fl, def_flags := df, user_ns := ns\<rparr>),
       held := held s + {#Pgd a, MmContext a, UserNs ns#}\<rparr>)"
    using mm_init_eff [of ?s a mm_zero E cur p ns] undo unfolding al by fastforce
  then show ?thesis
  proof cases
    case 1
    then show ?thesis using inv by simp
  next
    case 2
    let ?m = "mm_zero\<lparr>mmap := [], map_count := 0, mm_users := 1, mm_count := 1,
       mm_owner := p, exe_file := NULL, mm_flags := fl, def_flags := df, user_ns := ns\<rparr>"
    have "mm_owned a ?m = {#Pgd a, MmContext a, UserNs ns#}" by (simp add: mm_owned_def exe_res_def mm_zero_def)
    then show ?thesis using mm_inv_new [OF inv, of a ?m] False new unfolding 2 a_def [symmetric] by simp
  qed
qed

lemma mm_inv_deny: "mm_inv ext s \<Longrightarrow> mms s a = Some m \<Longrightarrow> 0 < mm_users m \<Longrightarrow> exe_file m \<noteq> NULL \<Longrightarrow> DenyWrite (exe_file m) \<in># held s"
  using mm_inv_heldE [of ext s a m] by (simp add: mm_owned_def exe_res_def)

section \<open>Histories\<close>

text \<open>
  The operations as steps. A step is taken by a holder of the reference it uses: \<open>mmput\<close> by one of the
  \<open>mm_users\<close>, \<open>mmdrop\<close> by one of the \<open>mm_count\<close> references other than the one the users share.
\<close>

inductive mm_step :: "'a mm_state_scheme \<Rightarrow> 'a mm_state_scheme \<Rightarrow> bool" where
  alloc: "mms s (e_allocate_mm E) = None \<Longrightarrow> mm_step s (snd (mm_alloc E cur p ns s))"
| dup: "mms s olda = Some oldm \<Longrightarrow> 0 < mm_users oldm \<Longrightarrow> mms s (e_allocate_mm E) = None \<Longrightarrow> exit_mmap_ok E \<Longrightarrow>
    (\<And>i. uffd_ok (e_vma E i)) \<Longrightarrow> deny_write_ok E (held s) \<Longrightarrow> mm_step s (snd (dup_mm E p olda s))"
| get: "mms s a = Some m \<Longrightarrow> 0 < mm_users m \<Longrightarrow> mm_step s (mmget a s)"
| put: "mms s a = Some m \<Longrightarrow> 0 < mm_users m \<Longrightarrow> exit_mmap_ok E \<Longrightarrow> mm_step s (mmput E a s)"
| grab: "mms s a = Some m \<Longrightarrow> mm_step s (mmgrab a s)"
| drop: "mms s a = Some m \<Longrightarrow> mm_users m = 0 \<or> mm_count m > 1 \<Longrightarrow> mm_step s (mmdrop a s)"
| set_exe: "mms s a = Some m \<Longrightarrow> 0 < mm_users m \<Longrightarrow> mm_step s (snd (set_mm_exe_file E a f s))"

lemma mm_step_inv: "mm_step s s' \<Longrightarrow> mm_inv ext s \<Longrightarrow> mm_inv ext s'"
proof (induction rule: mm_step.induct)
  case (dup s olda oldm E p)
  have d: "exe_file oldm \<noteq> NULL \<Longrightarrow> e_deny_write E (exe_file oldm) = 0"
    using mm_inv_deny [OF dup.prems dup.hyps(1,2)] dup.hyps(6) by (simp add: deny_write_ok_def)
  from dup_mm_eff [OF dup.hyps(1) _ dup.hyps(4,5) d, of p]
  consider "dup_mm E p olda s = (NULL, s)"
    | a m where "dup_mm E p olda s = (a, s\<lparr>mms := (mms s)(a \<mapsto> m), held := held s + mm_owned a m\<rparr>)"
       "a = e_allocate_mm E" "a \<noteq> NULL" "dup_mm_result E p oldm m"
    using dup.hyps(3) by blast
  then show ?case
  proof cases
    case 1
    then show ?thesis using dup.prems by simp
  next
    case 2
    then show ?thesis using mm_inv_new [OF dup.prems, of a m] dup.hyps(3) by (simp add: dup_mm_result_def)
  qed
qed (simp_all add: mm_alloc_inv mmget_inv mmput_inv mmgrab_inv mmdrop_inv set_mm_exe_file_inv)

interpretation mm: transition_system "mm_inv ext" mm_step "mm_inv ext" for ext
  by unfold_locales (auto intro: mm_step_inv)

text \<open>The queued release, run by the worker, ends in the state of a direct \<open>mmput\<close>.\<close>

lemma mmput_async_equiv:
  "(case mmput_async a s of (queued, s') \<Rightarrow> if queued then mmput_async_fn E a s' else s') = mmput E a s"
  by (simp add: mmput_async_def mmput_async_fn_def mmput_def split: option.split)

text \<open>The calls into other subsystems all succeed.\<close>

definition vma_env_succeeds :: "vma_env \<Rightarrow> bool" where
  "vma_env_succeeds V \<longleftrightarrow> \<not> ve_signal V \<and> ve_enough_memory V = 0 \<and> ve_alloc V \<and> ve_policy V = 0 \<and> ve_uffd V = 0 \<and>
     ve_anon V = 0 \<and> ve_copy V = 0"

definition mm_env_succeeds :: "mm_env \<Rightarrow> bool" where
  "mm_env_succeeds E \<longleftrightarrow> e_allocate_mm E \<noteq> NULL \<and> e_pgd_alloc E \<and> e_init_context E = 0 \<and> e_lock_killable E = 0 \<and>
     e_ksm_fork E = 0 \<and> e_khugepaged_fork E = 0 \<and> e_arch_dup_mmap E = 0 \<and> e_module_get E \<and>
     (\<forall>i. vma_env_succeeds (e_vma E i))"

lemma dup_vma_succeeds: "vma_env_succeeds V \<Longrightarrow> fst (dup_vma V v a s) = 0"
  by (simp add: dup_vma_def vma_env_succeeds_def Let_def)

lemma dup_vmas_succeeds: "mm_env_succeeds E \<Longrightarrow> fst (dup_vmas E i vs a s) = 0"
proof (induction vs arbitrary: i s)
  case Nil
  then show ?case by (simp add: mm_env_succeeds_def)
next
  case (Cons v vs)
  obtain r s' where d: "dup_vma (e_vma E i) v a s = (r, s')" by fastforce
  then have "r = 0" using dup_vma_succeeds [of "e_vma E i" v a s] Cons.prems by (simp add: mm_env_succeeds_def)
  then show ?case using Cons d by simp
qed

lemma dup_mmap_succeeds: "mm_env_succeeds E \<Longrightarrow> fst (dup_mmap E a olda s) = 0"
  by (simp add: dup_mmap_def Let_def mm_env_succeeds_def case_prod_unfold)
    (simp add: dup_vmas_succeeds mm_env_succeeds_def)

lemma dup_mm_succeeds: "mm_env_succeeds E \<Longrightarrow> fst (dup_mm E p olda s) = e_allocate_mm E" for s :: "'a mm_state_scheme"
proof -
  assume E: "mm_env_succeeds E"
  have i: "fst (mm_init E c (e_allocate_mm E) p ns t) = e_allocate_mm E" for c ns and t :: "'a mm_state_scheme"
    using E by (simp add: mm_init_def mm_env_succeeds_def Let_def)
  have e: "e_allocate_mm E \<noteq> NULL" "e_module_get E" using E by (simp_all add: mm_env_succeeds_def)
  show ?thesis
    by (simp add: dup_mm_def Let_def case_prod_unfold i e dup_mmap_succeeds [OF E])
qed

text \<open>How a mapping and its copy in the child are related.\<close>

definition vma_copy_of :: "vm_area_struct \<Rightarrow> vm_area_struct \<Rightarrow> bool" where
  "vma_copy_of v w \<longleftrightarrow> vm_start w = vm_start v \<and> vm_end w = vm_end v \<and> vm_file w = vm_file v \<and> vm_open w = vm_open v \<and>
     (anon_vma w \<longleftrightarrow> anon_vma v \<and> \<not> vma_flag v VM_WIPEONFORK) \<and> \<not> vma_flag w (VM_LOCKED OR VM_LOCKONFAULT) \<and>
     (\<forall>f. f AND (UFFD_FLAGS OR (VM_LOCKED OR VM_LOCKONFAULT)) = 0 \<longrightarrow> vma_flag w f = vma_flag v f)"

lemma dup_vma_copy_of: "uffd_ok V \<Longrightarrow> vma_copy_of v (dup_vma_copy V v)"
proof -
  assume u: "uffd_ok V"
  let ?w = "dup_vma_copy V v"
  have "vma_flag (v\<lparr>vm_flags := vm_flags v AND NOT (ve_uffd_clear V)\<rparr>) VM_WIPEONFORK = vma_flag v VM_WIPEONFORK"
    using and_not_clear [OF u [unfolded uffd_ok_def], of VM_WIPEONFORK 0 "vm_flags v"] by (simp add: vma_flag_def)
  then have "anon_vma ?w \<longleftrightarrow> anon_vma v \<and> \<not> vma_flag v VM_WIPEONFORK"
    by (simp add: dup_vma_copy_def Let_def)
  moreover have "\<not> vma_flag ?w (VM_LOCKED OR VM_LOCKONFAULT)"
    by (simp add: dup_vma_copy_def Let_def vma_flag_def and.assoc)
  ultimately show ?thesis using dup_vma_flag [OF u] by (simp only: vma_copy_of_def) simp
qed

lemma copied_vmas_rel:
  assumes "\<And>i. uffd_ok (e_vma E i)"
  shows "list_all2 vma_copy_of (filter (\<lambda>v. \<not> vma_flag v VM_DONTCOPY) vs) (copied_vmas E i vs)"
  by (induction vs arbitrary: i) (simp_all add: dup_vma_copy_of assms)

lemma copied_stat_total:
  assumes "\<And>fl n st. total_vm (e_stat_account E fl n st) = total_vm st + n"
  shows "total_vm (copied_stat E vs st) = total_vm st - (\<Sum>v\<leftarrow>filter (\<lambda>v. vma_flag v VM_DONTCOPY) vs. vma_pages v)"
  by (induction vs arbitrary: st) (simp_all add: assms algebra_simps)

section \<open>Properties\<close>

text \<open>
  C29: Duplicating an address space is all or nothing. \<open>dup_mm\<close> either returns \<open>NULL\<close> and the kernel is
  exactly as before, whichever of its calls failed and after however many mappings, or it
  returns a new address space with one user. That one has a copy of every mapping of the parent
  that is not marked \<open>VM_DONTCOPY\<close>, in order, with the same range, file and flags except that it is not
  locked and that a \<open>VM_WIPEONFORK\<close> mapping starts without pages; \<open>total_vm\<close> counts only what was copied;
  and what it holds of other subsystems is what an address space with these mappings owns. It
  does succeed when every call into other subsystems does.
\<close>

theorem dup_mm_all_or_nothing:
  assumes "mms s olda = Some oldm" "mm_inv ext s" "0 < mm_users oldm"
    "e_allocate_mm E \<noteq> NULL \<Longrightarrow> mms s (e_allocate_mm E) = None"
    "exit_mmap_ok E" "\<And>i. uffd_ok (e_vma E i)" "deny_write_ok E (held s)"
    "\<And>fl n st. total_vm (e_stat_account E fl n st) = total_vm st + n"
  shows "(dup_mm E p olda s = (NULL, s) \<and> \<not> mm_env_succeeds E) \<or>
    (\<exists>a m. dup_mm E p olda s = (a, s\<lparr>mms := (mms s)(a \<mapsto> m), held := held s + mm_owned a m\<rparr>) \<and> a \<noteq> NULL \<and> mms s a = None \<and>
       mm_users m = 1 \<and> mm_owner m = p \<and> map_count m = length (mmap m) \<and>
       list_all2 vma_copy_of (filter (\<lambda>v. \<not> vma_flag v VM_DONTCOPY) (mmap oldm)) (mmap m) \<and>
       total_vm (mm_stat m) = total_vm (mm_stat oldm) -
         (\<Sum>v\<leftarrow>filter (\<lambda>v. vma_flag v VM_DONTCOPY) (mmap oldm). vma_pages v))"
proof -
  have d: "exe_file oldm \<noteq> NULL \<Longrightarrow> e_deny_write E (exe_file oldm) = 0"
    using mm_inv_deny [OF assms(2,1,3)] assms(7) by (simp add: deny_write_ok_def)
  have ok: "\<not> mm_env_succeeds E" if n: "dup_mm E p olda s = (NULL, s)"
  proof
    assume e: "mm_env_succeeds E"
    then have "e_allocate_mm E = NULL" using dup_mm_succeeds [OF e, of p olda s] n by simp
    then show False using e by (simp add: mm_env_succeeds_def)
  qed
  from dup_mm_eff [OF assms(1,4-6) d, of p]
  consider "dup_mm E p olda s = (NULL, s)"
    | a m where "dup_mm E p olda s = (a, s\<lparr>mms := (mms s)(a \<mapsto> m), held := held s + mm_owned a m\<rparr>)"
       "a = e_allocate_mm E" "a \<noteq> NULL" "dup_mm_result E p oldm m"
    by blast
  then show ?thesis
  proof cases
    case 1
    then show ?thesis using ok by blast
  next
    case 2
    have "mms s a = None" using assms(4) 2(2,3) by simp
    moreover have "list_all2 vma_copy_of (filter (\<lambda>v. \<not> vma_flag v VM_DONTCOPY) (mmap oldm)) (mmap m)"
      using copied_vmas_rel [OF assms(6)] 2(4) by (simp add: dup_mm_result_def)
    moreover have "total_vm (mm_stat m) = total_vm (mm_stat oldm) -
         (\<Sum>v\<leftarrow>filter (\<lambda>v. vma_flag v VM_DONTCOPY) (mmap oldm). vma_pages v)"
      using copied_stat_total [OF assms(8)] 2(4) by (simp add: dup_mm_result_def)
    ultimately show ?thesis using 2 by (intro disjI2 exI [of _ a] exI [of _ m]) (simp add: dup_mm_result_def)
  qed
qed

definition example_vma :: "u64 \<Rightarrow> vm_area_struct" where
  "example_vma fl = \<lparr>vm_start = 0x1000, vm_end = 0x3000, vm_flags = fl, vm_file = 5, anon_vma = True, vm_open = False\<rparr>"

definition example_mm :: mm_struct where
  "example_mm = mm_zero\<lparr>mmap := [example_vma 0x20000, example_vma 0x102008], map_count := 2, mm_users := 1, mm_count := 1,
     mm_stat := \<lparr>total_vm = 4, data_vm = 0, exec_vm = 0, stack_vm = 0\<rparr>, exe_file := 5, user_ns := 9\<rparr>"

definition example_mm_state :: mm_state where
  "example_mm_state = \<lparr>mms = [16 \<mapsto> example_mm], held = mm_owned 16 example_mm\<rparr>"

definition example_vma_env :: vma_env where
  "example_vma_env = \<lparr>ve_signal = False, ve_enough_memory = 0, ve_alloc = True, ve_policy = 0, ve_uffd = 0, ve_uffd_clear = 0x200,
     ve_anon = 0, ve_copy = 0\<rparr>"

definition example_mm_env :: mm_env where
  "example_mm_env = \<lparr>e_allocate_mm = 32, e_pgd_alloc = True, e_init_context = 0, e_get_file_rcu = (\<lambda>_. True), e_deny_write = (\<lambda>_. 0),
     e_lock_killable = 0, e_ksm_fork = 0, e_khugepaged_fork = 0, e_arch_dup_mmap = 0, e_vma = (\<lambda>_. example_vma_env),
     e_stat_account = (\<lambda>_ n st. st\<lparr>total_vm := total_vm st + n\<rparr>), e_rss = 0, e_module_get = True,
     e_exit_mmap = (\<lambda>a vs R. R - vmas_res a vs), e_mmf_init_mask = 0, e_vm_init_def_mask = 0, e_default_dump_filter = 0\<rparr>"

lemma example_mm_inv: "mm_inv {#} example_mm_state"
  using mm_total_new [of Map.empty 16 example_mm]
  by (auto simp: mm_inv_def example_mm_state_def example_mm_def mm_total_def split: if_splits)

lemma example_mm_env_ok:
  "exit_mmap_ok example_mm_env" "uffd_ok (e_vma example_mm_env i)" "deny_write_ok example_mm_env R" "mm_env_succeeds example_mm_env"
  by (simp_all add: exit_mmap_ok_def uffd_ok_def deny_write_ok_def mm_env_succeeds_def vma_env_succeeds_def
      example_mm_env_def example_vma_env_def)

theorem dup_mm_all_or_nothing_witness:
  "\<exists>m. dup_mm example_mm_env 7 16 example_mm_state =
     (32, \<lparr>mms = [16 \<mapsto> example_mm, 32 \<mapsto> m], held = mm_owned 16 example_mm + mm_owned 32 m\<rparr>) \<and>
     length (mmap m) = 1 \<and> total_vm (mm_stat m) = 2"
proof -
  have s: "mms example_mm_state 16 = Some example_mm" "0 < mm_users example_mm" "mms example_mm_state (e_allocate_mm example_mm_env) = None"
    "\<And>fl n st. total_vm (e_stat_account example_mm_env fl n st) = total_vm st + n"
    by (simp_all add: example_mm_state_def example_mm_def example_mm_env_def)
  note t = dup_mm_all_or_nothing [OF s(1) example_mm_inv s(2) s(3) example_mm_env_ok(1-3) s(4), of 7]
  then obtain a m where d: "dup_mm example_mm_env 7 16 example_mm_state = (a, example_mm_state\<lparr>mms := (mms example_mm_state)(a \<mapsto> m),
      held := held example_mm_state + mm_owned a m\<rparr>)"
     "list_all2 vma_copy_of (filter (\<lambda>v. \<not> vma_flag v VM_DONTCOPY) (mmap example_mm)) (mmap m)"
     "total_vm (mm_stat m) = total_vm (mm_stat example_mm) - (\<Sum>v\<leftarrow>filter (\<lambda>v. vma_flag v VM_DONTCOPY) (mmap example_mm). vma_pages v)"
    using example_mm_env_ok(4) by blast
  have "a = 32"
    using d(1) dup_mm_succeeds [OF example_mm_env_ok(4), of 7 16 example_mm_state] by (simp add: example_mm_env_def)
  moreover have "length (mmap m) = 1"
    using list_all2_lengthD [OF d(2)] by (simp add: example_mm_def example_vma_def vma_flag_def)
  moreover have "total_vm (mm_stat m) = 2"
    unfolding d(3) by (simp add: example_mm_def example_vma_def vma_flag_def vma_pages_def)
  ultimately show ?thesis using d(1) by (auto simp: example_mm_state_def)
qed

text \<open>
  C31: Address spaces do not leak and are not freed early. Along every history of allocations,
  duplications, changes of the executable file, and gets and puts of either reference count by
  their holders, everything the kernel holds for address spaces is owned by an existing one, and
  each of those is counted; so when the last one is gone, nothing is left of them.
\<close>

theorem mm_accounting:
  assumes "mm_step\<^sup>*\<^sup>* s s'" "mm_inv ext s"
  shows "mm_inv ext s' \<and> (mms s' = Map.empty \<longrightarrow> held s' = ext)"
proof -
  have "mm_inv ext s'" by (rule mm.run_inv [OF assms])
  then show ?thesis by (simp add: mm_inv_def mm_total_def)
qed

theorem mm_accounting_witness:
  "held (mmput example_mm_env 16 (mmdrop 16 (mmgrab 16 example_mm_state))) = {#}"
proof -
  let ?s1 = "mmgrab 16 example_mm_state" let ?s2 = "mmdrop 16 ?s1" let ?s3 = "mmput example_mm_env 16 ?s2"
  have m0: "mms example_mm_state 16 = Some example_mm" by (simp add: example_mm_state_def)
  have m1: "mms ?s1 16 = Some (example_mm\<lparr>mm_count := 2\<rparr>)"
    by (simp add: mmgrab_def upd_mm_def m0) (simp add: example_mm_def)
  have m2: "mms ?s2 16 = Some example_mm"
    by (simp add: mmdrop_def m1 upd_mm_def Let_def) (simp add: example_mm_def)
  have "mm_step example_mm_state ?s1" by (rule mm_step.grab [OF m0])
  moreover have "mm_step ?s1 ?s2" by (rule mm_step.drop [OF m1]) simp
  moreover have "mm_step ?s2 ?s3" by (rule mm_step.put [OF m2 _ example_mm_env_ok(1)]) (simp add: example_mm_def)
  ultimately have "mm_step\<^sup>*\<^sup>* example_mm_state ?s3" by (meson converse_rtranclp_into_rtranclp rtranclp.rtrancl_refl)
  note acc = mm_accounting [OF this example_mm_inv]
  have "mms ?s2 = [16 \<mapsto> example_mm]"
    by (rule ext) (simp add: mmdrop_def m1 upd_mm_def Let_def mmgrab_def example_mm_state_def example_mm_def)
  then have "mms ?s3 = Map.empty"
    by (simp add: mmput_def mmput_last_def m2 upd_mm_def Let_def set_mm_exe_file_def put_exe_file_def mmdrop_def mmdrop_last_def tok)
      (simp add: example_mm_def)
  then show ?thesis using acc by simp
qed

end
