(* ===== verification/Boot_Params.thy ===== *)
theory Boot_Params
  imports Vdso Mm_Struct
begin

text \<open>
  Settings made at boot and what depends on them: the parameters \<open>vdso=\<close> (arch/x86/entry/vdso/vma.c) and \<open>coredump_filter=\<close> (kernel/fork.c),
  the check of the vDSO images, and the checks of an address space that is freed.
\<close>

section \<open>Numbers on the command line\<close>

text \<open>
  \<open>simple_strtoul\<close> with base 0: hexadecimal after \<open>0x\<close> and a digit, octal after \<open>0\<close>, decimal otherwise; it reads digits as far as they go and
  the result wraps.
\<close>

definition digit_value :: "char \<Rightarrow> nat" where
  "digit_value c = (let n = of_char c :: nat in
     if 48 \<le> n \<and> n \<le> 57 then n - 48 else if 97 \<le> n \<and> n \<le> 102 then n - 87 else if 65 \<le> n \<and> n \<le> 70 then n - 55 else 99)"

fun digits_value :: "nat \<Rightarrow> u64 \<Rightarrow> string \<Rightarrow> u64" where
  "digits_value base acc [] = acc"
| "digits_value base acc (c # cs) =
     (if digit_value c < base then digits_value base (acc * of_nat base + of_nat (digit_value c)) cs else acc)"

definition simple_strtoul :: "string \<Rightarrow> u64" where
  "simple_strtoul s =
    (case s of
       CHR ''0'' # x # d # cs \<Rightarrow>
         if (x = CHR ''x'' \<or> x = CHR ''X'') \<and> digit_value d < 16 then digits_value 16 0 (d # cs) else digits_value 8 0 s
     | CHR ''0'' # cs \<Rightarrow> digits_value 8 0 s
     | _ \<Rightarrow> digits_value 10 0 s)"

section \<open>The vDSO\<close>

definition vdso_setup :: "string \<Rightarrow> int \<times> u32" where
  "vdso_setup s = (1, ucast (simple_strtoul s))"

text \<open>\<open>BUG_ON\<close> stops the kernel when the size is not a multiple of the page size; the alternatives of the image are patched by \<open>patch\<close>.\<close>

definition init_vdso_image :: "(vdso_image \<Rightarrow> vdso_image) \<Rightarrow> vdso_image \<Rightarrow> vdso_image kres" where
  "init_vdso_image patch img =
     (if image_size img mod 4096 \<noteq> 0 then Inl (OutOfBounds (uint (image_size img))) else Inr (patch img))"

definition init_vdso :: "(vdso_image \<Rightarrow> vdso_image) \<Rightarrow> vdso_image \<Rightarrow> vdso_image \<Rightarrow> (int \<times> vdso_image \<times> vdso_image) kres" where
  "init_vdso patch image64 image_x32 =
     rbind (init_vdso_image patch image64) (\<lambda>image64.
     rbind (init_vdso_image patch image_x32) (\<lambda>image_x32. Inr (0, image64, image_x32)))"

text \<open>The page of the caller's time namespace, for its own address space only.\<close>

definition find_timens_vvar_page :: "addr \<Rightarrow> addr \<Rightarrow> u64 option \<Rightarrow> u64 option" where
  "find_timens_vvar_page vm_mm current_mm vvar_page = (if vm_mm = current_mm then vvar_page else None)"

section \<open>Address spaces\<close>

abbreviation (input) MMF_DUMP_FILTER_SHIFT :: nat where "MMF_DUMP_FILTER_SHIFT \<equiv> 2"
abbreviation (input) MMF_DUMP_FILTER_MASK :: u64 where "MMF_DUMP_FILTER_MASK \<equiv> 0x7FC"

definition coredump_filter_setup :: "string \<Rightarrow> int \<times> u64" where
  "coredump_filter_setup s = (1, push_bit MMF_DUMP_FILTER_SHIFT (simple_strtoul s) AND MMF_DUMP_FILTER_MASK)"

datatype mm_alert = BadRssCounter nat int | NonzeroPgtables int

fun check_counters :: "nat \<Rightarrow> int list \<Rightarrow> mm_alert list" where
  "check_counters i [] = []"
| "check_counters i (x # xs) = (if x \<noteq> 0 then [BadRssCounter i x] else []) @ check_counters (i + 1) xs"

definition check_mm :: "int list \<Rightarrow> int \<Rightarrow> mm_alert list" where
  "check_mm rss_stat pgtables_bytes =
     check_counters 0 (take 4 rss_stat) @ (if pgtables_bytes \<noteq> 0 then [NonzeroPgtables pgtables_bytes] else [])"

section \<open>Facts\<close>

text \<open>
  A parameter that is 0, no number at all, or a multiple of \<open>2 ^ 32\<close> turns the vDSO off, since the setting is an \<open>unsigned int\<close>; then a new program gets
  no special mapping.
\<close>

lemma vdso_off:
  "snd (vdso_setup ''0'') = 0" "snd (vdso_setup ''on'') = 0" "snd (vdso_setup ''4294967296'') = 0" "snd (vdso_setup ''0x2'') = 2"
  "snd (vdso_setup p) = 0 \<Longrightarrow> arch_setup_additional_pages ops align rnd (snd (vdso_setup p) \<noteq> 0) killed start_stack image64 s = (0, s)"
proof -
  show "snd (vdso_setup ''0'') = 0" "snd (vdso_setup ''on'') = 0" "snd (vdso_setup ''4294967296'') = 0" "snd (vdso_setup ''0x2'') = 2" by code_simp+
  show "snd (vdso_setup p) = 0 \<Longrightarrow> arch_setup_additional_pages ops align rnd (snd (vdso_setup p) \<noteq> 0) killed start_stack image64 s = (0, s)"
    by (simp add: arch_setup_additional_pages_def)
qed

text \<open>An image that passes the check at boot has whole pages only, and a fault on each page below its size finds one.\<close>

lemma init_vdso_pages:
  assumes "init_vdso_image patch img = Inr img'" "image_size img' = image_size img" "context_image s = Some img'"
    and "unat pgoff < unat (image_size img) div 4096"
  shows "vdso_fault pgoff s = (0, Some (image_pfn img' + pgoff), s)" "unat (image_size img) mod 4096 = 0"
proof -
  have "image_size img mod 4096 = 0" using assms(1) by (simp add: init_vdso_image_def split: if_splits)
  then have "unat (image_size img mod 4096) = 0" by simp
  then show m: "unat (image_size img) mod 4096 = 0" by (simp add: unat_mod)
  have lt: "unat pgoff * 4096 < unat (image_size img)" using assms(4) m by (metis less_mult_imp_div_less mod_0_imp_dvd dvd_div_mult_self mult_less_cancel2 zero_less_numeral)
  have "unat (push_bit 12 pgoff) = unat pgoff * 4096"
  proof -
    have "unat pgoff * 4096 < 2 ^ 64" using lt unat_u64_less [of "image_size img"] by linarith
    then show ?thesis by (simp add: push_bit_eq_mult unat_word_ariths)
  qed
  then have "\<not> image_size img' \<le> push_bit 12 pgoff" using lt assms(2) by (simp add: word_le_nat_alt)
  then show "vdso_fault pgoff s = (0, Some (image_pfn img' + pgoff), s)" using assms(3) by (simp add: vdso_fault_def)
qed

text \<open>The boot parameter sets the nine bits of the filter and no other flag.\<close>

lemma coredump_filter_bits:
  "snd (coredump_filter_setup p) AND NOT MMF_DUMP_FILTER_MASK = 0"
  "drop_bit 2 (snd (coredump_filter_setup p)) = take_bit 9 (simple_strtoul p)"
proof -
  have m: "MMF_DUMP_FILTER_MASK = push_bit 2 (mask 9)" by (simp add: mask_eq_exp_minus_1)
  show "snd (coredump_filter_setup p) AND NOT MMF_DUMP_FILTER_MASK = 0"
    by (rule bit_word_eqI) (auto simp: coredump_filter_setup_def bit_simps)
  show "drop_bit 2 (snd (coredump_filter_setup p)) = take_bit 9 (simple_strtoul p)"
    unfolding coredump_filter_setup_def snd_conv m by (rule bit_word_eqI) (auto simp: bit_simps)
qed

lemma check_counters_eq: "check_counters i xs = map (\<lambda>j. BadRssCounter (i + j) (xs ! j)) (filter (\<lambda>j. xs ! j \<noteq> 0) [0..<length xs])"
proof (induction xs arbitrary: i)
  case (Cons x xs)
  have "[0..<length (x # xs)] = 0 # map Suc [0..<length xs]" by (simp add: upt_conv_Cons map_Suc_upt del: upt_Suc)
  then show ?case by (simp add: Cons filter_map o_def del: upt_Suc)
qed simp

text \<open>The check of an address space is silent exactly when every counter and the size of the page tables are 0.\<close>

lemma check_mm_silent: "length rss = 4 \<Longrightarrow> check_mm rss pg = [] \<longleftrightarrow> (\<forall>x \<in> set rss. x = 0) \<and> pg = 0"
  by (auto simp: check_mm_def check_counters_eq filter_empty_conv all_set_conv_all_nth)

end
