(* ===== verification/Task_State.thy ===== *)
theory Task_State
  imports Kernel_Prelude Transition_System
begin

text \<open>
  Inline functions of include/linux/sched.h on the state and the flags of a task: the letter that \<open>ps\<close> shows, the flags of
  floating-point use, the atomic flags, and the area of restartable sequences.
\<close>

section \<open>The task\<close>

record sched_task =
  t_state :: u32
  t_exit_state :: u32
  t_flags :: u32
  t_atomic_flags :: u64
  t_nr_cpus_allowed :: nat
  t_rseq :: u64
  t_rseq_sig :: u32
  t_rseq_event_mask :: u64
  t_notify_resume :: bool

abbreviation (input) TASK_UNINTERRUPTIBLE :: u32 where "TASK_UNINTERRUPTIBLE \<equiv> 0x2"
abbreviation (input) TASK_RTLOCK_WAIT :: u32 where "TASK_RTLOCK_WAIT \<equiv> 0x1000"

definition TASK_REPORT :: u32 where
  "TASK_REPORT = 0x0 OR 0x1 OR 0x2 OR 0x4 OR 0x8 OR 0x10 OR 0x20 OR 0x40"

definition TASK_IDLE :: u32 where
  "TASK_IDLE = 0x2 OR 0x400"

definition TASK_REPORT_IDLE :: u32 where
  "TASK_REPORT_IDLE = TASK_REPORT + 1"

section \<open>The letter of the state\<close>

text \<open>\<open>fls\<close>: one more than the place of the highest bit that is set, 0 if none is.\<close>

definition fls :: "u32 \<Rightarrow> nat" where
  "fls w = foldl (\<lambda>m i. if bit w i then Suc i else m) 0 [0..<32]"

definition task_state_index :: "sched_task \<Rightarrow> nat" where
  "task_state_index tsk =
    (let tsk_state = t_state tsk;
         state = (tsk_state OR t_exit_state tsk) AND TASK_REPORT;
         state = (if tsk_state = TASK_IDLE then TASK_REPORT_IDLE else state);
         state = (if tsk_state = TASK_RTLOCK_WAIT then TASK_UNINTERRUPTIBLE else state)
     in fls state)"

definition task_index_to_char :: "nat \<Rightarrow> char kres" where
  "task_index_to_char state = array_get ''RSDTtXZPI'' (int state)"

definition task_state_to_char :: "sched_task \<Rightarrow> char kres" where
  "task_state_to_char tsk = task_index_to_char (task_state_index tsk)"

section \<open>Flags\<close>

abbreviation (input) PF_USED_MATH :: u32 where "PF_USED_MATH \<equiv> 0x2000"
abbreviation (input) PF_NO_SETAFFINITY :: u32 where "PF_NO_SETAFFINITY \<equiv> 0x4000000"

definition clear_stopped_child_used_math :: "sched_task \<Rightarrow> sched_task" where
  "clear_stopped_child_used_math child = child\<lparr>t_flags := t_flags child AND NOT PF_USED_MATH\<rparr>"

definition set_stopped_child_used_math :: "sched_task \<Rightarrow> sched_task" where
  "set_stopped_child_used_math child = child\<lparr>t_flags := t_flags child OR PF_USED_MATH\<rparr>"

definition conditional_stopped_child_used_math :: "bool \<Rightarrow> sched_task \<Rightarrow> sched_task" where
  "conditional_stopped_child_used_math condition child =
    (let child = child\<lparr>t_flags := t_flags child AND NOT PF_USED_MATH\<rparr>
     in child\<lparr>t_flags := t_flags child OR (if condition then PF_USED_MATH else 0)\<rparr>)"

definition copy_to_stopped_child_used_math :: "sched_task \<Rightarrow> sched_task \<Rightarrow> sched_task" where
  "copy_to_stopped_child_used_math current child =
    (let child = child\<lparr>t_flags := t_flags child AND NOT PF_USED_MATH\<rparr>
     in child\<lparr>t_flags := t_flags child OR (t_flags current AND PF_USED_MATH)\<rparr>)"

definition tsk_used_math :: "sched_task \<Rightarrow> u32" where
  "tsk_used_math p = t_flags p AND PF_USED_MATH"

definition is_percpu_thread :: "sched_task \<Rightarrow> bool" where
  "is_percpu_thread current \<longleftrightarrow> t_flags current AND PF_NO_SETAFFINITY \<noteq> 0 \<and> t_nr_cpus_allowed current = 1"

definition current_restore_flags :: "u32 \<Rightarrow> u32 \<Rightarrow> sched_task \<Rightarrow> sched_task" where
  "current_restore_flags orig_flags flags current =
    (let current = current\<lparr>t_flags := t_flags current AND NOT flags\<rparr>
     in current\<lparr>t_flags := t_flags current OR (orig_flags AND flags)\<rparr>)"

text \<open>
  The atomic flags, by their number, with the operations the macros \<open>TASK_PFA_TEST\<close>, \<open>TASK_PFA_SET\<close> and \<open>TASK_PFA_CLEAR\<close>
  define. Not every flag has all of them.
\<close>

datatype pfa = NO_NEW_PRIVS | SPREAD_PAGE | SPREAD_SLAB | SPEC_SSB_DISABLE | SPEC_SSB_FORCE_DISABLE
  | SPEC_IB_DISABLE | SPEC_IB_FORCE_DISABLE | SPEC_SSB_NOEXEC

primrec pfa_bit :: "pfa \<Rightarrow> nat" where
  "pfa_bit NO_NEW_PRIVS = 0"
| "pfa_bit SPREAD_PAGE = 1"
| "pfa_bit SPREAD_SLAB = 2"
| "pfa_bit SPEC_SSB_DISABLE = 3"
| "pfa_bit SPEC_SSB_FORCE_DISABLE = 4"
| "pfa_bit SPEC_IB_DISABLE = 5"
| "pfa_bit SPEC_IB_FORCE_DISABLE = 6"
| "pfa_bit SPEC_SSB_NOEXEC = 7"

definition TASK_PFA_TEST :: "pfa \<Rightarrow> sched_task \<Rightarrow> bool" where
  "TASK_PFA_TEST f p = bit (t_atomic_flags p) (pfa_bit f)"

definition TASK_PFA_SET :: "pfa \<Rightarrow> sched_task \<Rightarrow> sched_task" where
  "TASK_PFA_SET f p = p\<lparr>t_atomic_flags := set_bit (pfa_bit f) (t_atomic_flags p)\<rparr>"

definition TASK_PFA_CLEAR :: "pfa \<Rightarrow> sched_task \<Rightarrow> sched_task" where
  "TASK_PFA_CLEAR f p = p\<lparr>t_atomic_flags := unset_bit (pfa_bit f) (t_atomic_flags p)\<rparr>"

text \<open>The flags for which the header instantiates \<open>TASK_PFA_CLEAR\<close>.\<close>

definition clearable :: "pfa \<Rightarrow> bool" where
  "clearable f \<longleftrightarrow> f \<in> {SPREAD_PAGE, SPREAD_SLAB, SPEC_SSB_DISABLE, SPEC_SSB_NOEXEC, SPEC_IB_DISABLE}"

section \<open>Restartable sequences\<close>

abbreviation (input) RSEQ_EVENT_PREEMPT_BIT :: nat where "RSEQ_EVENT_PREEMPT_BIT \<equiv> 0"
abbreviation (input) RSEQ_EVENT_SIGNAL_BIT :: nat where "RSEQ_EVENT_SIGNAL_BIT \<equiv> 1"
abbreviation (input) RSEQ_EVENT_MIGRATE_BIT :: nat where "RSEQ_EVENT_MIGRATE_BIT \<equiv> 2"

definition rseq_set_notify_resume :: "sched_task \<Rightarrow> sched_task" where
  "rseq_set_notify_resume t = (if t_rseq t \<noteq> 0 then t\<lparr>t_notify_resume := True\<rparr> else t)"

definition rseq_preempt :: "sched_task \<Rightarrow> sched_task" where
  "rseq_preempt t = rseq_set_notify_resume (t\<lparr>t_rseq_event_mask := set_bit RSEQ_EVENT_PREEMPT_BIT (t_rseq_event_mask t)\<rparr>)"

definition rseq_migrate :: "sched_task \<Rightarrow> sched_task" where
  "rseq_migrate t = rseq_set_notify_resume (t\<lparr>t_rseq_event_mask := set_bit RSEQ_EVENT_MIGRATE_BIT (t_rseq_event_mask t)\<rparr>)"

text \<open>A signal is handled at once by \<open>__rseq_handle_notify_resume\<close>, a parameter.\<close>

definition rseq_signal_deliver :: "(sched_task \<Rightarrow> sched_task) \<Rightarrow> sched_task \<Rightarrow> sched_task" where
  "rseq_signal_deliver handle t =
    (let t = t\<lparr>t_rseq_event_mask := set_bit RSEQ_EVENT_SIGNAL_BIT (t_rseq_event_mask t)\<rparr>
     in if t_rseq t \<noteq> 0 then handle t else t)"

definition rseq_fork :: "sched_task \<Rightarrow> u64 \<Rightarrow> sched_task \<Rightarrow> sched_task" where
  "rseq_fork current clone_flags t =
    (if clone_flags AND 0x100 \<noteq> 0 then t\<lparr>t_rseq := 0, t_rseq_sig := 0, t_rseq_event_mask := 0\<rparr>
     else t\<lparr>t_rseq := t_rseq current, t_rseq_sig := t_rseq_sig current, t_rseq_event_mask := t_rseq_event_mask current\<rparr>)"

definition rseq_execve :: "sched_task \<Rightarrow> sched_task" where
  "rseq_execve t = t\<lparr>t_rseq := 0, t_rseq_sig := 0, t_rseq_event_mask := 0\<rparr>"

section \<open>What holds of them\<close>

text \<open>What the functions of this header can do to a task.\<close>

inductive flag_step :: "sched_task \<Rightarrow> sched_task \<Rightarrow> bool" where
  f_set: "flag_step p (TASK_PFA_SET f p)"
| f_clear: "clearable f \<Longrightarrow> flag_step p (TASK_PFA_CLEAR f p)"
| f_clear_math: "flag_step p (clear_stopped_child_used_math p)"
| f_set_math: "flag_step p (set_stopped_child_used_math p)"
| f_math: "flag_step p (conditional_stopped_child_used_math b p)"
| f_copy_math: "flag_step p (copy_to_stopped_child_used_math q p)"
| f_restore: "flag_step p (current_restore_flags orig fl p)"
| f_preempt: "flag_step p (rseq_preempt p)"
| f_migrate: "flag_step p (rseq_migrate p)"
| f_fork: "flag_step p (rseq_fork q fl p)"
| f_exec: "flag_step p (rseq_execve p)"

lemma fls_bound:
  assumes "\<And>i. n \<le> i \<Longrightarrow> i < 32 \<Longrightarrow> \<not> bit w i"
  shows "fls w \<le> n"
proof -
  have "foldl (\<lambda>m i. if bit w i then Suc i else m) 0 [0..<k] \<le> n" if "k \<le> 32" for k
    using that
  proof (induction k)
    case (Suc k)
    then show ?case using assms [of k] by (cases "n \<le> k") auto
  qed simp
  then show ?thesis by (simp add: fls_def)
qed

text \<open>
  The letter is read inside of the string for every value of the two state words. It is that of the highest reported
  state, with two exceptions: an idle task is shown as such, and one that waits for a lock of the real-time kernel as
  uninterruptible.
\<close>

lemma task_letter:
  "task_state_to_char tsk = Inr (if t_state tsk = TASK_IDLE then CHR ''I'' else if t_state tsk = TASK_RTLOCK_WAIT then CHR ''D''
     else ''RSDTtXZP'' ! fls ((t_state tsk OR t_exit_state tsk) AND TASK_REPORT)) \<and>
   fls ((t_state tsk OR t_exit_state tsk) AND TASK_REPORT) < 8"
proof -
  let ?w = "(t_state tsk OR t_exit_state tsk) AND TASK_REPORT"
  have "\<not> bit TASK_REPORT i" if "7 \<le> i" for i
  proof -
    have "TASK_REPORT = mask 7" by (simp add: TASK_REPORT_def mask_eq_exp_minus_1)
    then show ?thesis using that by (metis bit_mask_iff not_le)
  qed
  then have le: "fls ?w \<le> 7" by (intro fls_bound) (simp add: bit_and_iff)
  have fixed: "fls TASK_REPORT_IDLE = 8" "fls TASK_UNINTERRUPTIBLE = 2" "TASK_IDLE \<noteq> TASK_RTLOCK_WAIT"
    by (simp_all add: fls_def TASK_REPORT_IDLE_def TASK_REPORT_def TASK_IDLE_def upt_rec bit_iff_odd_drop_bit)
  have str: "array_get ''RSDTtXZPI'' (int k) = Inr (''RSDTtXZP'' ! k)" if "k \<le> 7" for k
  proof -
    have "''RSDTtXZPI'' ! k = (''RSDTtXZP'' @ ''I'') ! k" by simp
    also have "\<dots> = ''RSDTtXZP'' ! k" using that by (subst nth_append) simp
    finally show ?thesis using that by (simp add: array_get_def)
  qed
  have eight: "array_get ''RSDTtXZPI'' 8 = Inr (CHR ''I'')" "array_get ''RSDTtXZPI'' 2 = Inr (CHR ''D'')"
    by (simp_all add: array_get_def eval_nat_numeral)
  show ?thesis
    using le str [OF le] fixed eight by (simp add: task_state_to_char_def task_state_index_def task_index_to_char_def Let_def)
qed

text \<open>The flags of floating-point use and \<open>current_restore_flags\<close> change exactly the bits named.\<close>

lemma used_math_flags:
  "tsk_used_math (copy_to_stopped_child_used_math cur child) = tsk_used_math cur"
  "tsk_used_math (conditional_stopped_child_used_math b child) = (if b then PF_USED_MATH else 0)"
  "bit (t_flags (copy_to_stopped_child_used_math cur child)) i = (if i = 13 then bit (t_flags cur) 13 else bit (t_flags child) i)" if "i < 32"
proof -
  have m: "bit (0x2000 :: u32) j \<longleftrightarrow> j = 13" for j
    using bit_exp_iff [where ?'a = u32, of 13 j] by (auto simp: possible_bit_def)
  show "tsk_used_math (copy_to_stopped_child_used_math cur child) = tsk_used_math cur"
    by (rule bit_word_eqI) (auto simp: tsk_used_math_def copy_to_stopped_child_used_math_def bit_simps m)
  show "tsk_used_math (conditional_stopped_child_used_math b child) = (if b then PF_USED_MATH else 0)"
    by (rule bit_word_eqI) (auto simp: tsk_used_math_def conditional_stopped_child_used_math_def bit_simps m)
  show "bit (t_flags (copy_to_stopped_child_used_math cur child)) i = (if i = 13 then bit (t_flags cur) 13 else bit (t_flags child) i)"
    using that m [of i] by (auto simp: copy_to_stopped_child_used_math_def bit_simps)
qed

lemma restore_flags_bits:
  "i < 32 \<Longrightarrow> bit (t_flags (current_restore_flags orig fl p)) i = (if bit fl i then bit orig i else bit (t_flags p) i)"
  by (auto simp: current_restore_flags_def bit_simps)

text \<open>
  Some flags cannot be taken back: once a task may not gain privileges, or speculation is disabled by force, no
  sequence of the functions changes that.
\<close>

lemma pfa_bit_inj: "pfa_bit f = pfa_bit g \<Longrightarrow> f = g"
  by (cases f; cases g) simp_all

lemma flag_step_keeps:
  assumes "TASK_PFA_TEST f p" "\<not> clearable f" "flag_step p q"
  shows "TASK_PFA_TEST f q"
  using assms(3)
proof cases
  case (f_set g)
  have "pfa_bit f < 64" by (cases f) simp_all
  then show ?thesis using f_set assms(1) by (simp add: TASK_PFA_TEST_def TASK_PFA_SET_def bit_set_bit_iff)
next
  case (f_clear g)
  then have "pfa_bit g \<noteq> pfa_bit f" using assms(2) pfa_bit_inj by blast
  then show ?thesis using f_clear assms(1) by (simp add: TASK_PFA_TEST_def TASK_PFA_CLEAR_def bit_unset_bit_iff)
qed (use assms(1) in \<open>simp_all add: TASK_PFA_TEST_def clear_stopped_child_used_math_def set_stopped_child_used_math_def
      conditional_stopped_child_used_math_def copy_to_stopped_child_used_math_def
      current_restore_flags_def rseq_preempt_def rseq_migrate_def rseq_set_notify_resume_def rseq_fork_def rseq_execve_def\<close>)

interpretation pfa: transition_system "TASK_PFA_TEST NO_NEW_PRIVS" flag_step "TASK_PFA_TEST NO_NEW_PRIVS"
  by unfold_locales (auto intro: flag_step_keeps simp: clearable_def)

lemma no_new_privs_irrevocable: "TASK_PFA_TEST NO_NEW_PRIVS p \<Longrightarrow> flag_step\<^sup>*\<^sup>* p q \<Longrightarrow> TASK_PFA_TEST NO_NEW_PRIVS q"
  by (rule pfa.reachable_inv)

text \<open>A thread starts without an area of restartable sequences, another child with that of its parent.\<close>

lemma rseq_fork_area:
  "t_rseq (rseq_fork cur fl t) = (if fl AND 0x100 \<noteq> 0 then 0 else t_rseq cur)"
  "t_rseq_event_mask (rseq_fork cur fl t) = (if fl AND 0x100 \<noteq> 0 then 0 else t_rseq_event_mask cur)"
  by (simp_all add: rseq_fork_def)

end
