(* ===== verification/Thread_Flags.thy ===== *)
theory Thread_Flags
  imports Task_State
begin

text \<open>
  The flags in the \<open>thread_info\<close> of a task and the requests to reschedule (include/linux/sched.h), as a set of flags kept in the bits of a word.
\<close>

section \<open>Operations\<close>

record thread_task = sched_task +
  ti_flags :: u64
  t_cpu :: u32
  static_prio :: int

abbreviation (input) TIF_NEED_RESCHED :: nat where "TIF_NEED_RESCHED \<equiv> 3"
abbreviation (input) DEFAULT_PRIO :: int where "DEFAULT_PRIO \<equiv> 120"

definition set_tsk_thread_flag :: "nat \<Rightarrow> thread_task \<Rightarrow> thread_task" where
  "set_tsk_thread_flag flag tsk = tsk\<lparr>ti_flags := set_bit flag (ti_flags tsk)\<rparr>"

definition clear_tsk_thread_flag :: "nat \<Rightarrow> thread_task \<Rightarrow> thread_task" where
  "clear_tsk_thread_flag flag tsk = tsk\<lparr>ti_flags := unset_bit flag (ti_flags tsk)\<rparr>"

definition update_tsk_thread_flag :: "nat \<Rightarrow> bool \<Rightarrow> thread_task \<Rightarrow> thread_task" where
  "update_tsk_thread_flag flag value tsk = (if value then set_tsk_thread_flag flag tsk else clear_tsk_thread_flag flag tsk)"

definition test_tsk_thread_flag :: "nat \<Rightarrow> thread_task \<Rightarrow> bool" where
  "test_tsk_thread_flag flag tsk = bit (ti_flags tsk) flag"

definition test_and_set_tsk_thread_flag :: "nat \<Rightarrow> thread_task \<Rightarrow> bool \<times> thread_task" where
  "test_and_set_tsk_thread_flag flag tsk = (bit (ti_flags tsk) flag, tsk\<lparr>ti_flags := set_bit flag (ti_flags tsk)\<rparr>)"

definition test_and_clear_tsk_thread_flag :: "nat \<Rightarrow> thread_task \<Rightarrow> bool \<times> thread_task" where
  "test_and_clear_tsk_thread_flag flag tsk = (bit (ti_flags tsk) flag, tsk\<lparr>ti_flags := unset_bit flag (ti_flags tsk)\<rparr>)"

definition set_tsk_need_resched :: "thread_task \<Rightarrow> thread_task" where
  "set_tsk_need_resched tsk = set_tsk_thread_flag TIF_NEED_RESCHED tsk"

definition clear_tsk_need_resched :: "thread_task \<Rightarrow> thread_task" where
  "clear_tsk_need_resched tsk = clear_tsk_thread_flag TIF_NEED_RESCHED tsk"

definition test_tsk_need_resched :: "thread_task \<Rightarrow> bool" where
  "test_tsk_need_resched tsk = test_tsk_thread_flag TIF_NEED_RESCHED tsk"

definition task_cpu :: "thread_task \<Rightarrow> u32" where
  "task_cpu p = t_cpu p"

definition task_nice :: "thread_task \<Rightarrow> int" where
  "task_nice p = static_prio p - DEFAULT_PRIO"

section \<open>They implement a set of flags\<close>

definition flag_set :: "thread_task \<Rightarrow> nat set" where
  "flag_set t = {f. bit (ti_flags t) f}"

lemma flag_set_refines:
  "f < 64 \<Longrightarrow> flag_set (set_tsk_thread_flag f t) = insert f (flag_set t)"
  "flag_set (clear_tsk_thread_flag f t) = flag_set t - {f}"
  "f < 64 \<Longrightarrow> flag_set (update_tsk_thread_flag f v t) = (if v then insert f (flag_set t) else flag_set t - {f})"
  "test_tsk_thread_flag f t \<longleftrightarrow> f \<in> flag_set t"
  "f < 64 \<Longrightarrow> (let (r, t') = test_and_set_tsk_thread_flag f t in (r \<longleftrightarrow> f \<in> flag_set t) \<and> flag_set t' = insert f (flag_set t))"
  "let (r, t') = test_and_clear_tsk_thread_flag f t in (r \<longleftrightarrow> f \<in> flag_set t) \<and> flag_set t' = flag_set t - {f}"
  by (auto simp: flag_set_def set_tsk_thread_flag_def clear_tsk_thread_flag_def update_tsk_thread_flag_def test_tsk_thread_flag_def
      test_and_set_tsk_thread_flag_def test_and_clear_tsk_thread_flag_def bit_set_bit_iff bit_unset_bit_iff)

text \<open>A request to reschedule does not touch the other flags, nor anything else of the task.\<close>

lemma need_resched_flag:
  "test_tsk_need_resched (set_tsk_need_resched t)" "\<not> test_tsk_need_resched (clear_tsk_need_resched t)"
  "f \<noteq> TIF_NEED_RESCHED \<Longrightarrow> test_tsk_thread_flag f (set_tsk_need_resched t) = test_tsk_thread_flag f t"
  "sched_task.truncate (set_tsk_need_resched t) = sched_task.truncate t"
  using flag_set_refines(1,2) [of TIF_NEED_RESCHED t]
  by (auto simp: test_tsk_need_resched_def set_tsk_need_resched_def clear_tsk_need_resched_def flag_set_refines(4))
    (simp add: set_tsk_thread_flag_def sched_task.defs)

lemma task_nice_range: "100 \<le> static_prio p \<Longrightarrow> static_prio p < 140 \<Longrightarrow> - 20 \<le> task_nice p \<and> task_nice p \<le> 19"
  by (simp add: task_nice_def)

end
