(* ===== verification/Thread_Stack.thy ===== *)
theory Thread_Stack
  imports Mm_Struct
begin

text \<open>
  Kernel stacks (kernel/fork.c): the cache of two stacks per CPU in front of \<open>vmalloc\<close>, the
  charging of stack pages to a memory cgroup and the accounting of stack memory. The state is that
  of one CPU; a stack is identified by its address, its virtual memory area is not distinguished
  from it. The results of \<open>vmalloc\<close> and of charging a page are parameters.
\<close>

abbreviation (input) NR_CACHED_STACKS :: nat where "NR_CACHED_STACKS \<equiv> 2"

text \<open>\<open>THREAD_SIZE / PAGE_SIZE\<close> on x86-64.\<close>

abbreviation (input) STACK_PAGES :: nat where "STACK_PAGES \<equiv> 4"

text \<open>
  \<open>vstacks\<close> are the stacks obtained from \<open>vmalloc\<close> and not freed, \<open>stack_dirty\<close> those that hold
  something other than zeros, \<open>kmem_pages\<close> the charged pages of stacks.
\<close>

record stack_state = mm_state +
  cached_stacks :: "addr list"
  vstacks :: "addr set"
  stack_dirty :: "addr set"
  kmem_pages :: "(addr \<times> nat) set"
  kernel_stack_kb :: int

section \<open>Operations\<close>

text \<open>The loops over the slots of the cache: take the first stack, or fill the first free slot.\<close>

fun take_cached :: "addr list \<Rightarrow> (addr \<times> addr list) option" where
  "take_cached [] = None"
| "take_cached (c # cs) = (if c = NULL then map_option (\<lambda>(a, ds). (a, c # ds)) (take_cached cs) else Some (c, NULL # cs))"

fun fill_cached :: "addr \<Rightarrow> addr list \<Rightarrow> addr list option" where
  "fill_cached a [] = None"
| "fill_cached a (c # cs) = (if c \<noteq> NULL then map_option ((#) c) (fill_cached a cs) else Some (a # cs))"

definition alloc_thread_stack_node :: "addr \<Rightarrow> 'a stack_state_scheme \<Rightarrow> addr \<times> 'a stack_state_scheme" where
  "alloc_thread_stack_node vmalloc s =
    (case take_cached (cached_stacks s) of
       Some (a, cs) \<Rightarrow> (a, s\<lparr>cached_stacks := cs, stack_dirty := stack_dirty s - {a}\<rparr>)
     | None \<Rightarrow> if vmalloc = NULL then (NULL, s)
               else (vmalloc, s\<lparr>vstacks := insert vmalloc (vstacks s), stack_dirty := stack_dirty s - {vmalloc}\<rparr>))"

definition free_thread_stack :: "addr \<Rightarrow> 'a stack_state_scheme \<Rightarrow> 'a stack_state_scheme" where
  "free_thread_stack a s =
    (let s = s\<lparr>kmem_pages := kmem_pages s - {a} \<times> {..<STACK_PAGES}\<rparr>
     in case fill_cached a (cached_stacks s) of
          Some cs \<Rightarrow> s\<lparr>cached_stacks := cs\<rparr>
        | None \<Rightarrow> s\<lparr>vstacks := vstacks s - {a}\<rparr>)"

text \<open>\<open>free_vm_stack_cache\<close> runs when a CPU goes away.\<close>

fun free_slots :: "addr list \<Rightarrow> addr set \<Rightarrow> addr set" where
  "free_slots [] V = V"
| "free_slots (c # cs) V = free_slots cs (if c = NULL then V else V - {c})"

definition free_vm_stack_cache :: "'a stack_state_scheme \<Rightarrow> 'a stack_state_scheme" where
  "free_vm_stack_cache s =
     s\<lparr>vstacks := free_slots (cached_stacks s) (vstacks s), cached_stacks := map (\<lambda>_. NULL) (cached_stacks s)\<rparr>"

definition account_kernel_stack :: "int \<Rightarrow> 'a stack_state_scheme \<Rightarrow> 'a stack_state_scheme" where
  "account_kernel_stack account s =
     foldl (\<lambda>s i. s\<lparr>kernel_stack_kb := kernel_stack_kb s + account * (4096 div 1024)\<rparr>) s [0..<STACK_PAGES]"

text \<open>\<open>charge i\<close> is the result of charging page \<open>i\<close>; the loop stops at the first failure.\<close>

fun charge_pages :: "(nat \<Rightarrow> int) \<Rightarrow> addr \<Rightarrow> nat list \<Rightarrow> 'a stack_state_scheme \<Rightarrow> int \<times> 'a stack_state_scheme" where
  "charge_pages charge a [] s = (0, s)"
| "charge_pages charge a (i # is) s =
    (if charge i \<noteq> 0 then (charge i, s)
     else charge_pages charge a is (s\<lparr>kmem_pages := insert (a, i) (kmem_pages s)\<rparr>))"

definition memcg_charge_kernel_stack :: "(nat \<Rightarrow> int) \<Rightarrow> addr \<Rightarrow> 'a stack_state_scheme \<Rightarrow> int \<times> 'a stack_state_scheme" where
  "memcg_charge_kernel_stack charge a s = charge_pages charge a [0..<STACK_PAGES] s"

definition release_task_stack :: "bool \<Rightarrow> addr \<Rightarrow> 'a stack_state_scheme \<Rightarrow> 'a stack_state_scheme" where
  "release_task_stack dead a s = (if \<not> dead then s else free_thread_stack a (account_kernel_stack (- 1) s))"

lemma account_kernel_stack_eq: "account_kernel_stack k s = s\<lparr>kernel_stack_kb := kernel_stack_kb s + 16 * k\<rparr>"
  by (simp add: account_kernel_stack_def upt_rec)

section \<open>Interface\<close>

text \<open>
  What creating and releasing threads relies on: an allocated stack was not in use and is zeroed,
  freeing it takes exactly it out of use, whatever happens in the cache.
\<close>

locale stack_allocator =
  fixes alloc :: "addr \<Rightarrow> 's \<Rightarrow> addr \<times> 's" and free :: "addr \<Rightarrow> 's \<Rightarrow> 's"
    and used :: "'s \<Rightarrow> addr set" and clean :: "addr \<Rightarrow> 's \<Rightarrow> bool" and inv :: "'s \<Rightarrow> bool"
    and fresh :: "addr \<Rightarrow> 's \<Rightarrow> bool"
  assumes alloc_ok: "inv s \<Longrightarrow> fresh v s \<Longrightarrow> alloc v s = (a, s') \<Longrightarrow> a \<noteq> NULL \<Longrightarrow>
      a \<notin> used s \<and> used s' = insert a (used s) \<and> clean a s' \<and> inv s'"
    and alloc_fail: "alloc v s = (NULL, s') \<Longrightarrow> s' = s"
    and free_ok: "inv s \<Longrightarrow> a \<in> used s \<Longrightarrow> used (free a s) = used s - {a} \<and> inv (free a s)"
begin

text \<open>A stack that is allocated and given back leaves the set of stacks in use as it was.\<close>

lemma alloc_free:
  assumes "inv s" "fresh v s" "alloc v s = (a, s')" "a \<noteq> NULL"
  shows "used (free a s') = used s \<and> inv (free a s')"
  using alloc_ok [OF assms] free_ok [of s' a] by auto

text \<open>Threads in sequence: every stack handed out while others are in use is different from them.\<close>

fun alloc_all :: "addr list \<Rightarrow> 's \<Rightarrow> addr list \<times> 's" where
  "alloc_all [] s = ([], s)"
| "alloc_all (v # vs) s = (let (a, s) = alloc v s; (as, s) = alloc_all vs s in (a # as, s))"

fun all_fresh :: "addr list \<Rightarrow> 's \<Rightarrow> bool" where
  "all_fresh [] s = True"
| "all_fresh (v # vs) s = (fresh v s \<and> all_fresh vs (snd (alloc v s)))"

lemma alloc_all_distinct:
  assumes "inv s" "all_fresh vs s" "alloc_all vs s = (as, s')" "NULL \<notin> set as"
  shows "distinct as \<and> set as \<inter> used s = {} \<and> used s' = set as \<union> used s \<and> inv s'"
  using assms
proof (induction vs arbitrary: s as)
  case Nil
  then show ?case by simp
next
  case (Cons v vs)
  obtain a s1 bs where a: "alloc v s = (a, s1)" "alloc_all vs s1 = (bs, s')" "as = a # bs"
    using Cons.prems(3) by (auto simp: Let_def split: prod.splits)
  then have "a \<notin> used s \<and> used s1 = insert a (used s) \<and> inv s1"
    using alloc_ok [of s v a s1] Cons.prems by simp
  with Cons.IH [of s1 bs] Cons.prems a show ?case by auto
qed

end

section \<open>The cache implements the interface\<close>

definition cached_set :: "addr list \<Rightarrow> addr set" where
  "cached_set cs = set cs - {NULL}"

definition stacks_used :: "'a stack_state_scheme \<Rightarrow> addr set" where
  "stacks_used s = vstacks s - cached_set (cached_stacks s)"

definition stack_inv :: "'a stack_state_scheme \<Rightarrow> bool" where
  "stack_inv s \<longleftrightarrow> length (cached_stacks s) = NR_CACHED_STACKS \<and> distinct (filter (\<lambda>c. c \<noteq> NULL) (cached_stacks s)) \<and>
     cached_set (cached_stacks s) \<subseteq> vstacks s \<and> NULL \<notin> vstacks s"

lemma take_cached_Some:
  "take_cached cs = Some (a, ds) \<Longrightarrow> a \<noteq> NULL \<and> length ds = length cs \<and>
     mset (filter (\<lambda>c. c \<noteq> NULL) cs) = add_mset a (mset (filter (\<lambda>c. c \<noteq> NULL) ds))"
  by (induction cs arbitrary: ds) (auto split: if_splits)

lemma take_cached_None: "take_cached cs = None \<Longrightarrow> cached_set cs = {}"
  by (induction cs) (auto simp: cached_set_def split: if_splits)

lemma fill_cached_Some:
  "fill_cached a cs = Some ds \<Longrightarrow> a \<noteq> NULL \<Longrightarrow> length ds = length cs \<and>
     mset (filter (\<lambda>c. c \<noteq> NULL) ds) = add_mset a (mset (filter (\<lambda>c. c \<noteq> NULL) cs))"
  by (induction cs arbitrary: ds) (auto split: if_splits)

lemma cached_set_mset: "cached_set cs = set_mset (mset (filter (\<lambda>c. c \<noteq> NULL) cs))"
  by (auto simp: cached_set_def)

lemma distinct_filter_add:
  assumes "mset (filter (\<lambda>c. c \<noteq> NULL) cs) = add_mset a (mset (filter (\<lambda>c. c \<noteq> NULL) ds))"
  shows "distinct (filter (\<lambda>c. c \<noteq> NULL) cs) \<longleftrightarrow> a \<notin> cached_set ds \<and> distinct (filter (\<lambda>c. c \<noteq> NULL) ds)"
    "cached_set cs = insert a (cached_set ds)"
proof -
  have "distinct (filter (\<lambda>c. c \<noteq> NULL) cs) \<longleftrightarrow> distinct (a # filter (\<lambda>c. c \<noteq> NULL) ds)"
    using assms by (intro mset_eq_imp_distinct_iff) simp
  then show "distinct (filter (\<lambda>c. c \<noteq> NULL) cs) \<longleftrightarrow> a \<notin> cached_set ds \<and> distinct (filter (\<lambda>c. c \<noteq> NULL) ds)"
    by (simp add: cached_set_mset)
  show "cached_set cs = insert a (cached_set ds)" using assms by (simp add: cached_set_mset)
qed

lemma stack_alloc_ok:
  assumes "stack_inv s" "v \<notin> vstacks s" "alloc_thread_stack_node v s = (a, s')" "a \<noteq> NULL"
  shows "a \<notin> stacks_used s \<and> stacks_used s' = insert a (stacks_used s) \<and> a \<notin> stack_dirty s' \<and> stack_inv s'"
proof (cases "take_cached (cached_stacks s)")
  case None
  then have "a = v" "s' = s\<lparr>vstacks := insert v (vstacks s), stack_dirty := stack_dirty s - {v}\<rparr>"
    using assms(3,4) by (auto simp: alloc_thread_stack_node_def split: if_splits)
  then show ?thesis using assms take_cached_None [OF None]
    by (auto simp: stacks_used_def stack_inv_def)
next
  case (Some p)
  obtain ds where p: "take_cached (cached_stacks s) = Some (a, ds)"
    and s': "s' = s\<lparr>cached_stacks := ds, stack_dirty := stack_dirty s - {a}\<rparr>"
    using Some assms(3) by (cases p) (auto simp: alloc_thread_stack_node_def)
  note t = take_cached_Some [OF p]
  note f = distinct_filter_add [OF conjunct2 [OF conjunct2 [OF t]]]
  show ?thesis using assms(1) t f unfolding s' by (auto simp: stacks_used_def stack_inv_def)
qed

lemma stack_free_ok:
  assumes "stack_inv s" "a \<in> stacks_used s"
  shows "stacks_used (free_thread_stack a s) = stacks_used s - {a} \<and> stack_inv (free_thread_stack a s)"
proof (cases "fill_cached a (cached_stacks s)")
  case None
  then show ?thesis using assms by (auto simp: free_thread_stack_def stacks_used_def stack_inv_def Let_def)
next
  case (Some ds)
  have a: "a \<noteq> NULL" using assms by (metis DiffD1 stack_inv_def stacks_used_def)
  note t = fill_cached_Some [OF Some a]
  note f = distinct_filter_add [OF conjunct2 [OF t]]
  show ?thesis using assms Some t f by (auto simp: free_thread_stack_def stacks_used_def stack_inv_def Let_def)
qed

interpretation vmap_stack: stack_allocator alloc_thread_stack_node free_thread_stack stacks_used
  "\<lambda>a s. a \<notin> stack_dirty s" stack_inv "\<lambda>v s. v \<notin> vstacks s"
proof unfold_locales
  fix s :: "'a stack_state_scheme" and v a s'
  show "stack_inv s \<Longrightarrow> v \<notin> vstacks s \<Longrightarrow> alloc_thread_stack_node v s = (a, s') \<Longrightarrow> a \<noteq> NULL \<Longrightarrow>
      a \<notin> stacks_used s \<and> stacks_used s' = insert a (stacks_used s) \<and> a \<notin> stack_dirty s' \<and> stack_inv s'"
    by (rule stack_alloc_ok)
  show "alloc_thread_stack_node v s = (NULL, s') \<Longrightarrow> s' = s"
    using take_cached_Some by (auto simp: alloc_thread_stack_node_def split: option.splits if_splits prod.splits)
  show "stack_inv s \<Longrightarrow> a \<in> stacks_used s \<Longrightarrow>
      stacks_used (free_thread_stack a s) = stacks_used s - {a} \<and> stack_inv (free_thread_stack a s)"
    by (rule stack_free_ok)
qed


section \<open>Histories\<close>

text \<open>
  The threads of a CPU over time: \<open>U\<close> is the set of stacks that threads were given and have not given
  back. A thread's stack pages are charged after the allocation; a running thread writes to its
  stack; the CPU may go down.
\<close>

inductive stack_run :: "'a stack_state_scheme \<Rightarrow> addr set \<Rightarrow> bool" where
  start: "stack_inv s \<Longrightarrow> stacks_used s = {} \<Longrightarrow> kmem_pages s = {} \<Longrightarrow> stack_run s {}"
| alloc: "stack_run s U \<Longrightarrow> v \<notin> vstacks s \<Longrightarrow> alloc_thread_stack_node v s = (a, s') \<Longrightarrow> a \<noteq> NULL \<Longrightarrow> stack_run s' (insert a U)"
| alloc_failed: "stack_run s U \<Longrightarrow> alloc_thread_stack_node v s = (NULL, s') \<Longrightarrow> stack_run s' U"
| charge: "stack_run s U \<Longrightarrow> a \<in> U \<Longrightarrow> stack_run (snd (memcg_charge_kernel_stack c a s)) U"
| execute: "stack_run s U \<Longrightarrow> a \<in> U \<Longrightarrow> stack_run (s\<lparr>stack_dirty := insert a (stack_dirty s)\<rparr>) U"
| free: "stack_run s U \<Longrightarrow> a \<in> U \<Longrightarrow> stack_run (free_thread_stack a s) (U - {a})"
| cpu_down: "stack_run s U \<Longrightarrow> stack_run (free_vm_stack_cache s) U"

lemma charge_pages_eff:
  "\<exists>P. charge_pages c a is s = (fst (charge_pages c a is s), s\<lparr>kmem_pages := kmem_pages s \<union> {a} \<times> P\<rparr>) \<and> P \<subseteq> set is"
proof (induction "is" arbitrary: s)
  case Nil
  show ?case by (rule exI [of _ "{}"]) simp
next
  case (Cons i "is")
  show ?case
  proof (cases "c i = 0")
    case False
    then show ?thesis by (intro exI [of _ "{}"]) simp
  next
    case True
    let ?s = "s\<lparr>kmem_pages := insert (a, i) (kmem_pages s)\<rparr>"
    obtain P where "charge_pages c a is ?s = (fst (charge_pages c a is ?s), ?s\<lparr>kmem_pages := kmem_pages ?s \<union> {a} \<times> P\<rparr>)" "P \<subseteq> set is"
      using Cons.IH [of ?s] by blast
    then show ?thesis using True by (intro exI [of _ "insert i P"]) (auto simp: Sigma_Un_distrib1)
  qed
qed

lemma memcg_charge_eff:
  obtains r P where "memcg_charge_kernel_stack c a s = (r, s\<lparr>kmem_pages := kmem_pages s \<union> {a} \<times> P\<rparr>)" "P \<subseteq> {..<STACK_PAGES}"
  using charge_pages_eff [of c a "[0..<STACK_PAGES]" s] that unfolding memcg_charge_kernel_stack_def
  by (metis atLeast_upt lessThan_atLeast0)

lemma free_slots_eq: "free_slots cs V = V - cached_set cs"
  by (induction cs arbitrary: V) (auto simp: cached_set_def)

lemma cpu_down_ok:
  assumes "stack_inv s"
  shows "stack_inv (free_vm_stack_cache s) \<and> stacks_used (free_vm_stack_cache s) = stacks_used s"
  using assms by (auto simp: free_vm_stack_cache_def stack_inv_def stacks_used_def free_slots_eq cached_set_def)

lemma alloc_kmem: "alloc_thread_stack_node v s = (a, s') \<Longrightarrow> kmem_pages s' = kmem_pages s"
  by (auto simp: alloc_thread_stack_node_def split: option.splits if_splits prod.splits)

lemma free_kmem: "kmem_pages (free_thread_stack a s) = kmem_pages s - {a} \<times> {..<STACK_PAGES}"
  by (simp add: free_thread_stack_def Let_def split: option.splits)

lemma stack_run_inv:
  "stack_run s U \<Longrightarrow> stack_inv s \<and> stacks_used s = U \<and> kmem_pages s \<subseteq> U \<times> {..<STACK_PAGES}"
proof (induction rule: stack_run.induct)
  case (alloc s U v a s')
  then show ?case using vmap_stack.alloc_ok [of s v a s'] alloc_kmem [of v s a s'] by auto
next
  case (alloc_failed s U v s')
  then show ?case using vmap_stack.alloc_fail [of v s s'] by simp
next
  case (charge s U a c)
  obtain r P where "memcg_charge_kernel_stack c a s = (r, s\<lparr>kmem_pages := kmem_pages s \<union> {a} \<times> P\<rparr>)" "P \<subseteq> {..<STACK_PAGES}"
    by (rule memcg_charge_eff)
  then show ?case using charge by (auto simp: stack_inv_def stacks_used_def)
next
  case (execute s U a)
  then show ?case by (simp add: stack_inv_def stacks_used_def)
next
  case (free s U a)
  then show ?case using vmap_stack.free_ok [of s a] free_kmem [of a s] by auto
next
  case (cpu_down s U)
  then show ?case using cpu_down_ok [of s] by (simp add: free_vm_stack_cache_def)
qed simp

lemma card_cached_set: "stack_inv s \<Longrightarrow> card (cached_set (cached_stacks s)) \<le> NR_CACHED_STACKS"
  using card_length [of "cached_stacks s"] card_mono [of "set (cached_stacks s)" "cached_set (cached_stacks s)"]
  by (auto simp: stack_inv_def cached_set_def)

section \<open>Properties\<close>

text \<open>
  C32: Kernel stacks are never shared, never leak old contents and never pile up. In every history of
  threads, charges, exits and CPUs going down, the stacks that are allocated and not in the
  cache are exactly those that threads hold; a stack that is handed out next is held by no other
  thread and is zeroed; only pages of stacks in use are charged; and at most two stacks are kept
  besides those in use.
\<close>

theorem stack_cache_safe:
  assumes "stack_run s U" "v \<notin> vstacks s"
  shows "stacks_used s = U \<and> kmem_pages s \<subseteq> U \<times> {..<STACK_PAGES} \<and> card (vstacks s) \<le> card U + NR_CACHED_STACKS \<and>
    (case alloc_thread_stack_node v s of (a, s') \<Rightarrow> a = NULL \<and> s' = s \<or> a \<noteq> NULL \<and> a \<notin> U \<and> a \<notin> stack_dirty s')"
proof -
  have inv: "stack_inv s" and U: "stacks_used s = U" and k: "kmem_pages s \<subseteq> U \<times> {..<STACK_PAGES}"
    using stack_run_inv [OF assms(1)] by simp_all
  have "vstacks s = U \<union> cached_set (cached_stacks s)" using inv U by (auto simp: stacks_used_def stack_inv_def)
  then have "card (vstacks s) \<le> card U + NR_CACHED_STACKS"
    using card_Un_le [of U "cached_set (cached_stacks s)"] card_cached_set [OF inv] by simp
  moreover obtain a s' where "alloc_thread_stack_node v s = (a, s')" by fastforce
  ultimately show ?thesis
    using U k vmap_stack.alloc_ok [OF inv assms(2)] vmap_stack.alloc_fail [of v s s'] by auto
qed

definition example_stacks :: stack_state where
  "example_stacks = \<lparr>mms = Map.empty, held = {#}, cached_stacks = [NULL, NULL], vstacks = {}, stack_dirty = {}, kmem_pages = {},
     kernel_stack_kb = 0\<rparr>"

theorem stack_cache_safe_witness:
  "fst (alloc_thread_stack_node 16 (free_thread_stack 8 (snd (alloc_thread_stack_node 8 example_stacks)))) = 8 \<and>
   stacks_used (free_thread_stack 8 (snd (alloc_thread_stack_node 8 example_stacks))) = {}"
proof -
  have "stack_run example_stacks {}"
    by (rule stack_run.start) (simp_all add: stack_inv_def stacks_used_def cached_set_def example_stacks_def)
  moreover have a: "alloc_thread_stack_node 8 example_stacks = (8, example_stacks\<lparr>vstacks := {8}\<rparr>)"
    by (simp add: alloc_thread_stack_node_def example_stacks_def)
  ultimately have "stack_run (example_stacks\<lparr>vstacks := {8}\<rparr>) {8}"
    using stack_run.alloc [of example_stacks "{}" 8 8] by (simp add: example_stacks_def)
  then have r: "stack_run (free_thread_stack 8 (example_stacks\<lparr>vstacks := {8}\<rparr>)) {}"
    using stack_run.free [of _ "{8}" 8] by fastforce
  have f: "free_thread_stack 8 (example_stacks\<lparr>vstacks := {8}\<rparr>) = example_stacks\<lparr>vstacks := {8}, cached_stacks := [8, NULL]\<rparr>"
    by (simp add: free_thread_stack_def example_stacks_def)
  show ?thesis using stack_cache_safe [OF r, of 16] unfolding a snd_conv f
    by (simp add: alloc_thread_stack_node_def example_stacks_def)
qed

end
