(* ===== verification/Clone_Args.thy ===== *)
theory Clone_Args
  imports Bytes
begin

text \<open>
  Arguments of the process-creating system calls (kernel/fork.c): the flag rules of
  \<open>copy_process\<close>, the wrappers \<open>fork\<close>, \<open>vfork\<close>, \<open>clone\<close> and \<open>kernel_thread\<close>, and the reading and
  validation of the extensible argument structure of \<open>clone3\<close> from user memory. What is copied from
  user space is a byte list; \<open>access_ok\<close> is a parameter.
\<close>

section \<open>Flags\<close>

abbreviation (input) CSIGNAL :: u64 where "CSIGNAL \<equiv> 0xff"
abbreviation (input) CLONE_NEWTIME :: u64 where "CLONE_NEWTIME \<equiv> 0x80"
abbreviation (input) CLONE_VM :: u64 where "CLONE_VM \<equiv> 0x100"
abbreviation (input) CLONE_FS :: u64 where "CLONE_FS \<equiv> 0x200"
abbreviation (input) CLONE_FILES :: u64 where "CLONE_FILES \<equiv> 0x400"
abbreviation (input) CLONE_SIGHAND :: u64 where "CLONE_SIGHAND \<equiv> 0x800"
abbreviation (input) CLONE_PIDFD :: u64 where "CLONE_PIDFD \<equiv> 0x1000"
abbreviation (input) CLONE_PTRACE :: u64 where "CLONE_PTRACE \<equiv> 0x2000"
abbreviation (input) CLONE_VFORK :: u64 where "CLONE_VFORK \<equiv> 0x4000"
abbreviation (input) CLONE_PARENT :: u64 where "CLONE_PARENT \<equiv> 0x8000"
abbreviation (input) CLONE_THREAD :: u64 where "CLONE_THREAD \<equiv> 0x10000"
abbreviation (input) CLONE_NEWNS :: u64 where "CLONE_NEWNS \<equiv> 0x20000"
abbreviation (input) CLONE_SYSVSEM :: u64 where "CLONE_SYSVSEM \<equiv> 0x40000"
abbreviation (input) CLONE_PARENT_SETTID :: u64 where "CLONE_PARENT_SETTID \<equiv> 0x100000"
abbreviation (input) CLONE_CHILD_CLEARTID :: u64 where "CLONE_CHILD_CLEARTID \<equiv> 0x200000"
abbreviation (input) CLONE_DETACHED :: u64 where "CLONE_DETACHED \<equiv> 0x400000"
abbreviation (input) CLONE_UNTRACED :: u64 where "CLONE_UNTRACED \<equiv> 0x800000"
abbreviation (input) CLONE_CHILD_SETTID :: u64 where "CLONE_CHILD_SETTID \<equiv> 0x1000000"
abbreviation (input) CLONE_NEWCGROUP :: u64 where "CLONE_NEWCGROUP \<equiv> 0x2000000"
abbreviation (input) CLONE_NEWUTS :: u64 where "CLONE_NEWUTS \<equiv> 0x4000000"
abbreviation (input) CLONE_NEWIPC :: u64 where "CLONE_NEWIPC \<equiv> 0x8000000"
abbreviation (input) CLONE_NEWUSER :: u64 where "CLONE_NEWUSER \<equiv> 0x10000000"
abbreviation (input) CLONE_NEWPID :: u64 where "CLONE_NEWPID \<equiv> 0x20000000"
abbreviation (input) CLONE_NEWNET :: u64 where "CLONE_NEWNET \<equiv> 0x40000000"
abbreviation (input) CLONE_IO :: u64 where "CLONE_IO \<equiv> 0x80000000"
abbreviation (input) CLONE_CLEAR_SIGHAND :: u64 where "CLONE_CLEAR_SIGHAND \<equiv> 0x100000000"
abbreviation (input) CLONE_INTO_CGROUP :: u64 where "CLONE_INTO_CGROUP \<equiv> 0x200000000"
abbreviation (input) CLONE_LEGACY_FLAGS :: u64 where "CLONE_LEGACY_FLAGS \<equiv> 0xffffffff"
abbreviation (input) SIGCHLD :: u64 where "SIGCHLD \<equiv> 17"

text \<open>\<open>flags & f\<close> as a condition; for a single-bit \<open>f\<close> it says that the flag is set.\<close>

definition has :: "u64 \<Rightarrow> u64 \<Rightarrow> bool" where
  "has flags f \<longleftrightarrow> flags AND f \<noteq> 0"

text \<open>What \<open>copy_process\<close> reads of the calling task for its flag rules.\<close>

record fork_caller =
  signal_unkillable :: bool
  pid_ns_differs :: bool
  time_ns_differs :: bool

definition copy_process_flags :: "fork_caller \<Rightarrow> u64 \<Rightarrow> int" where
  "copy_process_flags cur clone_flags =
    (if clone_flags AND (CLONE_NEWNS OR CLONE_FS) = (CLONE_NEWNS OR CLONE_FS) then - EINVAL
     else if clone_flags AND (CLONE_NEWUSER OR CLONE_FS) = (CLONE_NEWUSER OR CLONE_FS) then - EINVAL
     else if has clone_flags CLONE_THREAD \<and> \<not> has clone_flags CLONE_SIGHAND then - EINVAL
     else if has clone_flags CLONE_SIGHAND \<and> \<not> has clone_flags CLONE_VM then - EINVAL
     else if has clone_flags CLONE_PARENT \<and> signal_unkillable cur then - EINVAL
     else if has clone_flags CLONE_THREAD \<and>
       (has clone_flags (CLONE_NEWUSER OR CLONE_NEWPID) \<or> pid_ns_differs cur) then - EINVAL
     else if has clone_flags (CLONE_THREAD OR CLONE_VM) \<and> time_ns_differs cur then - EINVAL
     else if has clone_flags CLONE_PIDFD \<and> has clone_flags (CLONE_DETACHED OR CLONE_THREAD) then - EINVAL
     else 0)"

section \<open>Arguments\<close>

record kernel_clone_args =
  arg_flags :: u64
  arg_pidfd :: u64
  arg_child_tid :: u64
  arg_parent_tid :: u64
  arg_exit_signal :: u64
  arg_stack :: u64
  arg_stack_size :: u64
  arg_tls :: u64
  arg_set_tid :: "u32 list"
  arg_cgroup :: u64
  arg_io_thread :: bool

definition clone_args_zero :: kernel_clone_args where
  "clone_args_zero = \<lparr>arg_flags = 0, arg_pidfd = 0, arg_child_tid = 0, arg_parent_tid = 0, arg_exit_signal = 0,
     arg_stack = 0, arg_stack_size = 0, arg_tls = 0, arg_set_tid = [], arg_cgroup = 0, arg_io_thread = False\<rparr>"

definition lower_32_bits :: "u64 \<Rightarrow> u64" where
  "lower_32_bits n = n AND 0xffffffff"

definition fork_args :: kernel_clone_args where
  "fork_args = clone_args_zero\<lparr>arg_exit_signal := SIGCHLD\<rparr>"

definition vfork_args :: kernel_clone_args where
  "vfork_args = clone_args_zero\<lparr>arg_flags := CLONE_VFORK OR CLONE_VM, arg_exit_signal := SIGCHLD\<rparr>"

definition sys_clone_args :: "u64 \<Rightarrow> u64 \<Rightarrow> u64 \<Rightarrow> u64 \<Rightarrow> u64 \<Rightarrow> kernel_clone_args" where
  "sys_clone_args clone_flags newsp parent_tidptr child_tidptr tls =
     clone_args_zero\<lparr>arg_flags := lower_32_bits clone_flags AND NOT CSIGNAL, arg_pidfd := parent_tidptr,
       arg_child_tid := child_tidptr, arg_parent_tid := parent_tidptr,
       arg_exit_signal := lower_32_bits clone_flags AND CSIGNAL, arg_stack := newsp, arg_tls := tls\<rparr>"

definition kernel_thread_args :: "u64 \<Rightarrow> u64 \<Rightarrow> u64 \<Rightarrow> kernel_clone_args" where
  "kernel_thread_args fn arg flags =
     clone_args_zero\<lparr>arg_flags := (lower_32_bits flags OR CLONE_VM OR CLONE_UNTRACED) AND NOT CSIGNAL,
       arg_exit_signal := lower_32_bits flags AND CSIGNAL, arg_stack := fn, arg_stack_size := arg\<rparr>"

definition io_thread_args :: "u64 \<Rightarrow> u64 \<Rightarrow> kernel_clone_args" where
  "io_thread_args fn arg =
    (let flags = CLONE_FS OR CLONE_FILES OR CLONE_SIGHAND OR CLONE_THREAD OR CLONE_IO
     in clone_args_zero\<lparr>arg_flags := (lower_32_bits flags OR CLONE_VM OR CLONE_UNTRACED) AND NOT CSIGNAL,
       arg_exit_signal := lower_32_bits flags AND CSIGNAL, arg_stack := fn, arg_stack_size := arg,
       arg_io_thread := True\<rparr>)"

text \<open>The check that \<open>kernel_clone\<close> makes, and the event it reports to a tracer.\<close>

definition kernel_clone_check :: "kernel_clone_args \<Rightarrow> int" where
  "kernel_clone_check args =
    (if has (arg_flags args) CLONE_PIDFD \<and> has (arg_flags args) CLONE_PARENT_SETTID \<and>
        arg_pidfd args = arg_parent_tid args
     then - EINVAL else 0)"

datatype trace_event = NoEvent | EventFork | EventVfork | EventClone

definition clone_trace :: "(trace_event \<Rightarrow> bool) \<Rightarrow> kernel_clone_args \<Rightarrow> trace_event" where
  "clone_trace enabled args =
    (if has (arg_flags args) CLONE_UNTRACED then NoEvent
     else let ev = (if has (arg_flags args) CLONE_VFORK then EventVfork
                    else if arg_exit_signal args \<noteq> SIGCHLD then EventClone else EventFork)
          in if enabled ev then ev else NoEvent)"

section \<open>clone3\<close>

text \<open>The structure \<open>clone_args\<close>: eleven 64-bit fields; the first eight are version 0.\<close>

record clone_args =
  ca_flags :: u64
  ca_pidfd :: u64
  ca_child_tid :: u64
  ca_parent_tid :: u64
  ca_exit_signal :: u64
  ca_stack :: u64
  ca_stack_size :: u64
  ca_tls :: u64
  ca_set_tid :: u64
  ca_set_tid_size :: u64
  ca_cgroup :: u64

abbreviation (input) CLONE_ARGS_SIZE_VER0 :: nat where "CLONE_ARGS_SIZE_VER0 \<equiv> 64"
abbreviation (input) CLONE_ARGS_SIZE_VER2 :: nat where "CLONE_ARGS_SIZE_VER2 \<equiv> 88"
abbreviation (input) MAX_PID_NS_LEVEL :: u64 where "MAX_PID_NS_LEVEL \<equiv> 32"
abbreviation (input) NSIG :: u64 where "NSIG \<equiv> 64"

definition u64_field :: "nat \<Rightarrow> bytes \<Rightarrow> u64" where
  "u64_field i bs = le_word (load_at (8 * i) 8 bs)"

definition decode_clone_args :: "bytes \<Rightarrow> clone_args" where
  "decode_clone_args bs = \<lparr>ca_flags = u64_field 0 bs, ca_pidfd = u64_field 1 bs, ca_child_tid = u64_field 2 bs,
     ca_parent_tid = u64_field 3 bs, ca_exit_signal = u64_field 4 bs, ca_stack = u64_field 5 bs,
     ca_stack_size = u64_field 6 bs, ca_tls = u64_field 7 bs, ca_set_tid = u64_field 8 bs,
     ca_set_tid_size = u64_field 9 bs, ca_cgroup = u64_field 10 bs\<rparr>"

text \<open>
  \<open>copy_struct_from_user\<close>: a shorter structure is extended with zeros, a longer one is accepted when
  the excess, which is looked at first, is zero. \<open>um\<close> says whether the excess and whether the structure itself can be read.
\<close>

record user_memory =
  excess_readable :: bool
  struct_readable :: bool

definition copy_struct_from_user :: "user_memory \<Rightarrow> nat \<Rightarrow> bytes \<Rightarrow> int + bytes" where
  "copy_struct_from_user um ksize ubytes =
    (if length ubytes > ksize \<and> \<not> excess_readable um then Inl (- EFAULT)
     else if length ubytes > ksize \<and> \<not> list_all (\<lambda>b. b = 0) (drop ksize ubytes) then Inl (- E2BIG)
     else if \<not> struct_readable um then Inl (- EFAULT)
     else Inr (take ksize ubytes @ replicate (ksize - length ubytes) 0))"

text \<open>\<open>set_tids\<close> are the thread identifiers at the address \<open>set_tid\<close>, \<open>None\<close> if they cannot be read.\<close>

definition copy_clone_args_from_user ::
  "user_memory \<Rightarrow> (u64 \<Rightarrow> nat \<Rightarrow> u32 list option) \<Rightarrow> bytes \<Rightarrow> int + kernel_clone_args" where
  "copy_clone_args_from_user um set_tids ubytes =
    (let usize = length ubytes
     in if usize > 4096 then Inl (- E2BIG)
        else if usize < CLONE_ARGS_SIZE_VER0 then Inl (- EINVAL)
        else rbind (copy_struct_from_user um CLONE_ARGS_SIZE_VER2 ubytes) (\<lambda>kbytes.
          let args = decode_clone_args kbytes
          in if ca_set_tid_size args > MAX_PID_NS_LEVEL then Inl (- EINVAL)
             else if ca_set_tid args = 0 \<and> ca_set_tid_size args > 0 then Inl (- EINVAL)
             else if ca_set_tid args \<noteq> 0 \<and> ca_set_tid_size args = 0 then Inl (- EINVAL)
             else if ca_exit_signal args AND NOT CSIGNAL \<noteq> 0 \<or> \<not> ca_exit_signal args \<le> NSIG then Inl (- EINVAL)
             else if has (ca_flags args) CLONE_INTO_CGROUP \<and>
               (ca_cgroup args > 0x7fffffff \<or> usize < CLONE_ARGS_SIZE_VER2) then Inl (- EINVAL)
             else let kargs = clone_args_zero\<lparr>arg_flags := ca_flags args, arg_pidfd := ca_pidfd args,
                    arg_child_tid := ca_child_tid args, arg_parent_tid := ca_parent_tid args,
                    arg_exit_signal := ca_exit_signal args, arg_stack := ca_stack args,
                    arg_stack_size := ca_stack_size args, arg_tls := ca_tls args, arg_cgroup := ca_cgroup args\<rparr>
             in if ca_set_tid args = 0 then Inr kargs
                else (case set_tids (ca_set_tid args) (unat (ca_set_tid_size args)) of
                        None \<Rightarrow> Inl (- EFAULT)
                      | Some tids \<Rightarrow> Inr (kargs\<lparr>arg_set_tid := tids\<rparr>))))"

text \<open>\<open>clone3_stack_valid\<close> checks the stack and turns its base into its top.\<close>

definition clone3_stack_valid :: "(u64 \<Rightarrow> u64 \<Rightarrow> bool) \<Rightarrow> kernel_clone_args \<Rightarrow> kernel_clone_args option" where
  "clone3_stack_valid access_ok kargs =
    (if arg_stack kargs = 0
     then if arg_stack_size kargs > 0 then None else Some kargs
     else if arg_stack_size kargs = 0 then None
     else if \<not> access_ok (arg_stack kargs) (arg_stack_size kargs) then None
     else Some (kargs\<lparr>arg_stack := arg_stack kargs + arg_stack_size kargs\<rparr>))"

definition clone3_args_valid :: "(u64 \<Rightarrow> u64 \<Rightarrow> bool) \<Rightarrow> kernel_clone_args \<Rightarrow> kernel_clone_args option" where
  "clone3_args_valid access_ok kargs =
    (if arg_flags kargs AND NOT (CLONE_LEGACY_FLAGS OR CLONE_CLEAR_SIGHAND OR CLONE_INTO_CGROUP) \<noteq> 0 then None
     else if has (arg_flags kargs) (CLONE_DETACHED OR (CSIGNAL AND NOT CLONE_NEWTIME)) then None
     else if arg_flags kargs AND (CLONE_SIGHAND OR CLONE_CLEAR_SIGHAND) = (CLONE_SIGHAND OR CLONE_CLEAR_SIGHAND) then None
     else if has (arg_flags kargs) (CLONE_THREAD OR CLONE_PARENT) \<and> arg_exit_signal kargs \<noteq> 0 then None
     else clone3_stack_valid access_ok kargs)"

definition sys_clone3 ::
  "user_memory \<Rightarrow> (u64 \<Rightarrow> u64 \<Rightarrow> bool) \<Rightarrow> (u64 \<Rightarrow> nat \<Rightarrow> u32 list option) \<Rightarrow> (kernel_clone_args \<Rightarrow> int) \<Rightarrow> bytes \<Rightarrow> int" where
  "sys_clone3 um access_ok set_tids kernel_clone ubytes =
    (case copy_clone_args_from_user um set_tids ubytes of
       Inl e \<Rightarrow> e
     | Inr kargs \<Rightarrow>
       (case clone3_args_valid access_ok kargs of None \<Rightarrow> - EINVAL | Some kargs' \<Rightarrow> kernel_clone kargs'))"

section \<open>Specification\<close>

text \<open>The bytes a user program passes for a given structure.\<close>

definition encode_clone_args :: "clone_args \<Rightarrow> bytes" where
  "encode_clone_args a = concat (map (le_bytes 8) [ca_flags a, ca_pidfd a, ca_child_tid a, ca_parent_tid a,
     ca_exit_signal a, ca_stack a, ca_stack_size a, ca_tls a, ca_set_tid a, ca_set_tid_size a, ca_cgroup a])"

section \<open>Lemmas\<close>

lemma encode_nth: "i < length ws \<Longrightarrow> u64_field i (concat (map (le_bytes 8) ws)) = ws ! i"
proof (induction ws arbitrary: i)
  case Nil
  then show ?case by simp
next
  case (Cons w ws)
  show ?case
  proof (cases i)
    case 0
    then show ?thesis by (simp add: u64_field_def load_at_def le_word_le_bytes)
  next
    case (Suc j)
    then have "load_at (8 * i) 8 (concat (map (le_bytes 8) (w # ws))) = load_at (8 * j) 8 (concat (map (le_bytes 8) ws))"
      by (simp add: load_at_def)
    with Cons Suc show ?thesis by (simp add: u64_field_def)
  qed
qed

lemma length_encode [simp]: "length (encode_clone_args a) = 88"
  by (simp add: encode_clone_args_def)

lemma decode_encode [simp]: "decode_clone_args (encode_clone_args a) = a"
  by (simp add: decode_clone_args_def encode_clone_args_def encode_nth del: list.map concat.simps)

lemma copy_struct_shorter:
  assumes "n \<le> length bs" "\<forall>b \<in> set (drop n bs). b = 0"
  shows "copy_struct_from_user um (length bs) (take n bs) = (if struct_readable um then Inr bs else Inl (- EFAULT))"
proof -
  have "drop n bs = replicate (length bs - n) 0"
    using assms by (intro replicate_eqI) auto
  then have "take n bs @ replicate (length bs - n) 0 = bs" by (metis append_take_drop_id)
  then show ?thesis using assms(1) by (simp add: copy_struct_from_user_def min_def)
qed

lemma copy_struct_longer:
  "copy_struct_from_user um (length bs) (bs @ tail) =
    (if tail \<noteq> [] \<and> \<not> excess_readable um then Inl (- EFAULT) else if \<exists>b \<in> set tail. b \<noteq> 0 then Inl (- E2BIG)
     else if struct_readable um then Inr bs else Inl (- EFAULT))"
  by (cases tail) (auto simp: copy_struct_from_user_def list_all_iff)

text \<open>What the bits that \<open>clone\<close> passes on cannot do: set a flag above bit 31 or a signal bit.\<close>

lemma legacy_mask: "lower_32_bits f AND NOT 0xff = f AND 0xffffff00"
  by (simp add: lower_32_bits_def and.assoc)

lemma lower_32_csignal: "lower_32_bits f AND 0xff = f AND 0xff"
  by (simp add: lower_32_bits_def and.assoc)

lemma legacy_no_unknown: "((f :: u64) AND 0xffffff00) AND NOT (0xffffffff OR 0x100000000 OR 0x200000000) = 0"
  by (simp add: and.assoc)

lemma legacy_no_clear: "((f :: u64) AND 0xffffff00) AND (0x800 OR 0x100000000) \<noteq> 0x800 OR 0x100000000"
proof
  assume "(f AND 0xffffff00) AND (0x800 OR 0x100000000) = 0x800 OR 0x100000000"
  then have "f AND 0x800 = 0x100000800" by (simp add: and.assoc)
  then have "(f AND 0x800) AND 0x100000000 = 0x100000800 AND 0x100000000" by simp
  then show False by (simp add: and.assoc)
qed

lemma legacy_no_cgroup: "((f :: u64) AND 0xffffff00) AND 0x200000000 = 0"
  by (simp add: and.assoc)

lemma legacy_thread: "((f :: u64) AND 0xffffff00) AND (0x10000 OR 0x8000) = f AND (0x10000 OR 0x8000)"
  by (simp add: and.assoc)

lemma csignal_only: "((f :: u64) AND 0xff) AND - 256 = 0"
  by (simp add: and.assoc)

text \<open>Reading depends on the length of the user's structure only through three limits.\<close>

lemma copy_args_cong:
  assumes "copy_struct_from_user um 88 bs = copy_struct_from_user um 88 cs"
    "64 \<le> length bs" "length bs \<le> 4096" "64 \<le> length cs" "length cs \<le> 4096"
    "\<And>k. copy_struct_from_user um 88 bs = Inr k \<Longrightarrow> has (ca_flags (decode_clone_args k)) CLONE_INTO_CGROUP \<Longrightarrow>
       length bs < 88 \<longleftrightarrow> length cs < 88"
  shows "copy_clone_args_from_user um st bs = copy_clone_args_from_user um st cs"
proof (cases "copy_struct_from_user um 88 bs")
  case (Inl e)
  then show ?thesis using assms(1-5) by (simp add: copy_clone_args_from_user_def)
next
  case (Inr k)
  then have "copy_struct_from_user um 88 cs = Inr k" using assms(1) by simp
  moreover have "has (ca_flags (decode_clone_args k)) 0x200000000 \<and>
      (ca_cgroup (decode_clone_args k) > 0x7fffffff \<or> length bs < 88) \<longleftrightarrow>
    has (ca_flags (decode_clone_args k)) 0x200000000 \<and>
      (ca_cgroup (decode_clone_args k) > 0x7fffffff \<or> length cs < 88)"
    using assms(6) [OF Inr] by blast
  ultimately show ?thesis using assms(2-5) Inr
    by (simp only: copy_clone_args_from_user_def Let_def rbind_Inr not_le [symmetric] if_False simp_thms)
qed

section \<open>Properties\<close>

text \<open>
  C25: \<open>clone3\<close> is extensible in both directions. A program that passes an older, shorter structure is
  served exactly as one that passes the full structure with zeros in the missing fields (as long
  as it does not ask for a cgroup, whose field the short structure lacks); a program compiled
  against a newer, longer structure is served as long as the unknown tail is zero, and rejected
  with \<open>E2BIG\<close> when it is not, or with \<open>EFAULT\<close> when it cannot be read; anything below the first version or above a page is rejected, and a
  structure that cannot be read gives \<open>EFAULT\<close>.
\<close>

theorem clone3_extensible:
  assumes "64 \<le> n" "n \<le> 88" "\<forall>b \<in> set (drop n (encode_clone_args a)). b = 0"
    "\<not> has (ca_flags a) CLONE_INTO_CGROUP" "length tail \<le> 4008" "length short < 64" "4096 < length long"
  shows "sys_clone3 um ok st kc (take n (encode_clone_args a)) = sys_clone3 um ok st kc (encode_clone_args a) \<and>
    sys_clone3 um ok st kc (encode_clone_args a @ tail) =
      (if tail \<noteq> [] \<and> \<not> excess_readable um then - EFAULT else if \<exists>b \<in> set tail. b \<noteq> 0 then - E2BIG else sys_clone3 um ok st kc (encode_clone_args a)) \<and>
    (\<not> struct_readable um \<longrightarrow> sys_clone3 um ok st kc (encode_clone_args a) = - EFAULT) \<and>
    sys_clone3 um ok st kc short = - EINVAL \<and> sys_clone3 um ok st kc long = - E2BIG"
proof (intro conjI impI)
  let ?e = "encode_clone_args a"
  have full: "copy_struct_from_user um 88 ?e = (if struct_readable um then Inr ?e else Inl (- EFAULT))"
    using copy_struct_longer [of um ?e "[]"] by simp
  have take: "copy_struct_from_user um 88 (take n ?e) = (if struct_readable um then Inr ?e else Inl (- EFAULT))"
    using copy_struct_shorter [of n ?e] assms(2,3) by simp
  show "sys_clone3 um ok st kc (take n ?e) = sys_clone3 um ok st kc ?e"
    unfolding sys_clone3_def using assms(1,2,4)
    by (subst copy_args_cong [of um "take n ?e" ?e]) (auto simp: take full split: if_splits)
  show "sys_clone3 um ok st kc (?e @ tail) =
      (if tail \<noteq> [] \<and> \<not> excess_readable um then - EFAULT else if \<exists>b \<in> set tail. b \<noteq> 0 then - E2BIG else sys_clone3 um ok st kc ?e)"
  proof (cases "tail \<noteq> [] \<and> \<not> excess_readable um \<or> (\<exists>b \<in> set tail. b \<noteq> 0)")
    case True
    then have "copy_struct_from_user um 88 (?e @ tail) = Inl (if tail \<noteq> [] \<and> \<not> excess_readable um then - EFAULT else - E2BIG)"
      using copy_struct_longer [of um ?e tail] by auto
    then have "sys_clone3 um ok st kc (?e @ tail) = (if tail \<noteq> [] \<and> \<not> excess_readable um then - EFAULT else - E2BIG)"
      using assms(5) by (simp add: sys_clone3_def copy_clone_args_from_user_def)
    then show ?thesis using True by auto
  next
    case False
    then have t: "copy_struct_from_user um 88 (?e @ tail) = copy_struct_from_user um 88 ?e"
      using copy_struct_longer [of um ?e tail] full by auto
    have "copy_clone_args_from_user um st (?e @ tail) = copy_clone_args_from_user um st ?e"
      using assms(5) by (intro copy_args_cong) (auto simp: t full)
    then show ?thesis using False by (auto simp: sys_clone3_def)
  qed
  show "sys_clone3 um ok st kc ?e = - EFAULT" if "\<not> struct_readable um"
    using full that by (simp add: sys_clone3_def copy_clone_args_from_user_def)
  show "sys_clone3 um ok st kc short = - EINVAL" "sys_clone3 um ok st kc long = - E2BIG"
    using assms(6,7) by (simp_all add: sys_clone3_def copy_clone_args_from_user_def)
qed

definition readable :: user_memory where
  "readable = \<lparr>excess_readable = True, struct_readable = True\<rparr>"

definition example_clone_args :: clone_args where
  "example_clone_args = \<lparr>ca_flags = CLONE_VM OR CLONE_FS, ca_pidfd = 0, ca_child_tid = 0, ca_parent_tid = 0,
     ca_exit_signal = SIGCHLD, ca_stack = 0x7000, ca_stack_size = 0x1000, ca_tls = 0, ca_set_tid = 0,
     ca_set_tid_size = 0, ca_cgroup = 0\<rparr>"

theorem clone3_extensible_witness:
  "sys_clone3 readable (\<lambda>_ _. True) (\<lambda>_ _. None) (\<lambda>_. 7) (take 64 (encode_clone_args example_clone_args)) = 7 \<and>
   sys_clone3 readable (\<lambda>_ _. True) (\<lambda>_ _. None) (\<lambda>_. 7) (encode_clone_args example_clone_args @ [1]) = - E2BIG"
proof -
  have tl: "\<forall>b \<in> set (drop 64 (encode_clone_args example_clone_args)). b = 0"
    by (simp add: encode_clone_args_def example_clone_args_def le_bytes_def)
  have "\<not> has (ca_flags example_clone_args) CLONE_INTO_CGROUP"
    by (simp add: has_def example_clone_args_def)
  note ext = clone3_extensible [OF _ _ tl this, where um = readable and tail = "[1]" and short = "[]" and long = "replicate 5000 0"
      and ok = "\<lambda>_ _. True" and st = "\<lambda>_ _. None" and kc = "\<lambda>_. 7"]
  have "sys_clone3 readable (\<lambda>_ _. True) (\<lambda>_ _. None) (\<lambda>_. 7) (encode_clone_args example_clone_args) = 7"
    by (simp add: sys_clone3_def copy_clone_args_from_user_def copy_struct_from_user_def readable_def Let_def)
      (simp add: example_clone_args_def has_def clone3_args_valid_def clone3_stack_valid_def clone_args_zero_def)
  then show ?thesis using ext by (simp add: readable_def)
qed

text \<open>
  What \<open>clone\<close> can ask for, \<open>clone3\<close> does the same way. For every legacy flag word whose signal
  is valid, which does not set the retired \<open>CLONE_DETACHED\<close> bit and does not combine an exit signal
  with \<open>CLONE_THREAD\<close> or \<open>CLONE_PARENT\<close>, and for every stack given by base and size that the caller may
  access, \<open>clone3\<close> calls \<open>kernel_clone\<close> with the arguments that \<open>clone\<close> builds for the top of that stack.
\<close>

theorem clone3_covers_clone:
  assumes "f AND CLONE_DETACHED = 0" "f AND CSIGNAL \<le> NSIG"
    "f AND (CLONE_THREAD OR CLONE_PARENT) = 0 \<or> f AND CSIGNAL = 0"
    "stack = 0 \<and> sz = 0 \<or> stack \<noteq> 0 \<and> sz \<noteq> 0 \<and> ok stack sz" "struct_readable um"
  shows "sys_clone3 um ok st kc (encode_clone_args
      \<lparr>ca_flags = lower_32_bits f AND NOT CSIGNAL, ca_pidfd = ptid, ca_child_tid = ctid, ca_parent_tid = ptid,
       ca_exit_signal = lower_32_bits f AND CSIGNAL, ca_stack = stack, ca_stack_size = sz, ca_tls = tls,
       ca_set_tid = 0, ca_set_tid_size = 0, ca_cgroup = 0\<rparr>) =
    kc ((sys_clone_args f (stack + sz) ptid ctid tls)\<lparr>arg_stack_size := sz\<rparr>)"
proof -
  let ?a = "\<lparr>ca_flags = f AND 0xffffff00, ca_pidfd = ptid, ca_child_tid = ctid, ca_parent_tid = ptid,
       ca_exit_signal = f AND CSIGNAL, ca_stack = stack, ca_stack_size = sz, ca_tls = tls,
       ca_set_tid = 0, ca_set_tid_size = 0, ca_cgroup = 0\<rparr>"
  let ?k = "clone_args_zero\<lparr>arg_flags := f AND 0xffffff00, arg_pidfd := ptid, arg_child_tid := ctid,
      arg_parent_tid := ptid, arg_exit_signal := f AND CSIGNAL, arg_stack := stack, arg_stack_size := sz, arg_tls := tls\<rparr>"
  have full: "copy_struct_from_user um 88 (encode_clone_args ?a) = Inr (encode_clone_args ?a)"
    using copy_struct_longer [of um "encode_clone_args ?a" "[]"] assms(5) by simp
  have read: "copy_clone_args_from_user um st (encode_clone_args ?a) = Inr ?k"
    using assms(2) by (simp add: copy_clone_args_from_user_def full Let_def csignal_only has_def legacy_no_cgroup clone_args_zero_def)
  have d: "\<not> has (f AND 0xffffff00) (0x400000 OR (0xff AND NOT 0x80))"
    using assms(1) by (simp add: has_def and.assoc)
  have t: "\<not> (has (f AND 0xffffff00) (0x10000 OR 0x8000) \<and> f AND CSIGNAL \<noteq> 0)"
    using legacy_thread [of f] assms(3) by (simp only: has_def) blast
  have stk: "clone3_stack_valid ok ?k = Some (?k\<lparr>arg_stack := stack + sz\<rparr>)"
    using assms(4) by (auto simp: clone3_stack_valid_def clone_args_zero_def word_neq_0_conv)
  have fl: "arg_flags ?k = f AND 0xffffff00" "arg_exit_signal ?k = f AND CSIGNAL" by simp_all
  have "clone3_args_valid ok ?k = Some (?k\<lparr>arg_stack := stack + sz\<rparr>)"
    unfolding clone3_args_valid_def fl stk using d t legacy_no_unknown [of f] legacy_no_clear [of f] by (simp only: if_False) simp
  then show ?thesis
    unfolding sys_clone3_def sys_clone_args_def legacy_mask lower_32_csignal read by (simp add: clone_args_zero_def)
qed

theorem clone3_covers_clone_witness:
  "sys_clone3 readable (\<lambda>_ _. True) (\<lambda>_ _. None) (\<lambda>k. int (unat (arg_stack k))) (encode_clone_args
      \<lparr>ca_flags = lower_32_bits 0x3d0f00 AND NOT CSIGNAL, ca_pidfd = 1, ca_child_tid = 2, ca_parent_tid = 1,
       ca_exit_signal = lower_32_bits 0x3d0f00 AND CSIGNAL, ca_stack = 0x7000, ca_stack_size = 0x1000, ca_tls = 3,
       ca_set_tid = 0, ca_set_tid_size = 0, ca_cgroup = 0\<rparr>) = 0x8000"
  by (subst clone3_covers_clone) (simp_all add: sys_clone_args_def readable_def)

end
