(* ===== verification/Fork_Task.thy ===== *)
theory Fork_Task
  imports Thread_Stack Clone_Args KV_Store
begin

text \<open>
  The parts of process creation that copy or share one thing of the parent (kernel/fork.c):
  \<open>dup_task_struct\<close> and \<open>free_task\<close>, \<open>copy_files\<close>, \<open>copy_fs\<close>, \<open>copy_sighand\<close>, \<open>copy_signal\<close>, \<open>copy_mm\<close> and
  \<open>copy_io\<close>, with the calls that undo them. Reference counts of objects of other subsystems are the
  multiplicities of tokens; the results of calls into other subsystems are the fields of \<open>cp_env\<close>.
\<close>

section \<open>State\<close>

text \<open>
  What is modelled of \<open>signal_struct\<close>. A node of \<open>multiprocess\<close> lies on the stack of the forking task
  and is named by that task.
\<close>

record signal_struct =
  sig_nr_threads :: nat
  sig_live :: nat
  sigcnt :: nat
  thread_head :: "addr list"
  multiprocess :: "addr list"
  shared_pending :: u64
  sig_tty :: addr
  sig_unkillable :: bool
  has_child_subreaper :: bool
  is_child_subreaper :: bool
  oom_score_adj :: int
  oom_score_adj_min :: int
  sig_rlim :: "nat \<Rightarrow> u64"

definition signal_zero :: signal_struct where
  "signal_zero = \<lparr>sig_nr_threads = 0, sig_live = 0, sigcnt = 0, thread_head = [], multiprocess = [], shared_pending = 0,
     sig_tty = NULL, sig_unkillable = False, has_child_subreaper = False, is_child_subreaper = False,
     oom_score_adj = 0, oom_score_adj_min = 0, sig_rlim = (\<lambda>_. 0)\<rparr>"

datatype fork_res =
    Scs addr | Creds addr | Nproc addr | Delayacct addr | Mempolicy addr | Perf addr | Audit addr | Security addr
  | Semundo addr | FilesRef addr | FsRef addr | SighandRef addr | NsRef addr | IoRef addr | ThreadArch addr
  | PidNr s32 | PidRef s32 | FdSlot s32 | PidFile s32 | CgroupPin addr | CssSet addr | SchedCore addr | SeccompRef addr | TtyRef addr
  | KthreadData u64 | SiglockHeld addr | TasklistHeld

record fork_state = stack_state +
  tasks :: "addr \<rightharpoonup> task_struct"
  signals :: "addr \<rightharpoonup> signal_struct"
  res :: "fork_res multiset"
  sighands :: "addr \<rightharpoonup> (nat \<Rightarrow> u64)"
  fs_in_exec :: "addr \<Rightarrow> bool"
  io_contexts :: "addr \<rightharpoonup> u16"
  kvheap :: kheap
  nr_threads :: int
  max_threads :: int
  total_forks :: nat
  process_counts :: nat
  task_children :: "addr \<Rightarrow> addr list"
  task_list :: "addr list"
  thread_group :: "addr \<Rightarrow> addr list"

definition the_task :: "fork_state \<Rightarrow> addr \<Rightarrow> task_struct" where
  "the_task s p = (case tasks s p of Some t \<Rightarrow> t | None \<Rightarrow> task_zero)"

definition upd_task :: "addr \<Rightarrow> (task_struct \<Rightarrow> task_struct) \<Rightarrow> fork_state \<Rightarrow> fork_state" where
  "upd_task p f s = s\<lparr>tasks := (tasks s)(p := map_option f (tasks s p))\<rparr>"

definition the_signal :: "fork_state \<Rightarrow> addr \<Rightarrow> signal_struct" where
  "the_signal s g = (case signals s g of Some x \<Rightarrow> x | None \<Rightarrow> signal_zero)"

definition upd_signal :: "addr \<Rightarrow> (signal_struct \<Rightarrow> signal_struct) \<Rightarrow> fork_state \<Rightarrow> fork_state" where
  "upd_signal g f s = s\<lparr>signals := (signals s)(g := map_option f (signals s g))\<rparr>"

definition res_get :: "fork_res \<Rightarrow> fork_state \<Rightarrow> fork_state" where
  "res_get r s = s\<lparr>res := add_mset r (res s)\<rparr>"

definition res_put :: "fork_res \<Rightarrow> fork_state \<Rightarrow> fork_state" where
  "res_put r s = s\<lparr>res := res s - {#r#}\<rparr>"

text \<open>Results of the calls into other subsystems during one \<open>copy_process\<close>, in the order of the calls.\<close>

record cp_env =
  cp_caller :: fork_caller
  cp_sigpending :: bool
  cp_task :: addr
  cp_junk :: task_struct
  cp_vmalloc :: addr
  cp_charge :: "nat \<Rightarrow> int"
  cp_arch_dup :: int
  cp_scs :: int
  cp_creds :: int
  cp_overlimit :: bool
  cp_privileged :: bool
  cp_mempolicy :: int
  cp_sched_fork :: int
  cp_perf :: int
  cp_audit :: int
  cp_security :: int
  cp_semundo :: int
  cp_dup_fd :: "int + addr"
  cp_new_fs :: addr
  cp_new_sighand :: addr
  cp_new_signal :: addr
  cp_mm :: mm_env
  cp_namespaces :: "int + addr"
  cp_new_io :: addr
  cp_thread :: int
  cp_alloc_pid :: "int + s32"
  cp_fd :: "int + s32"
  cp_pidfile :: int
  cp_put_user :: int
  cp_kmalloc1 :: kmalloc_fn
  cp_kv_junk1 :: "addr list list"
  cp_kmalloc2 :: kmalloc_fn
  cp_kv_junk2 :: "bool list"
  cp_cgroup_can_fork :: int
  cp_ns_dying :: bool
  cp_fatal_signal :: bool
  cp_child_reaper :: bool
  cp_delayed :: u64
  cp_mmf_multiprocess :: u64

section \<open>The task structure\<close>

definition free_tsk :: "addr \<Rightarrow> fork_state \<Rightarrow> addr \<times> fork_state" where
  "free_tsk p s = (NULL, s\<lparr>tasks := (tasks s)(p := None)\<rparr>)"

definition free_stack :: "addr \<Rightarrow> fork_state \<Rightarrow> addr \<times> fork_state" where
  "free_stack p s = free_tsk p (free_thread_stack (task_stack (the_task s p)) s)"

definition dup_task_struct :: "cp_env \<Rightarrow> addr \<Rightarrow> fork_state \<Rightarrow> addr \<times> fork_state" where
  "dup_task_struct E orig s =
    (let p = cp_task E
     in if p = NULL then (NULL, s)
        else let s = s\<lparr>tasks := (tasks s)(p \<mapsto> cp_junk E)\<rparr>;
                 (stack, s) = alloc_thread_stack_node (cp_vmalloc E) s
        in if stack = NULL then free_tsk p s
           else let s = upd_task p (\<lambda>t. t\<lparr>task_stack := stack\<rparr>) s;
                    (err, s) = memcg_charge_kernel_stack (cp_charge E) stack s
           in if err \<noteq> 0 then free_stack p s
              else let s = upd_task p (\<lambda>_. the_task s orig) s;
                       s = upd_task p (\<lambda>t. t\<lparr>task_stack := stack, stack_refcount := 1\<rparr>) s
              in if cp_arch_dup E \<noteq> 0 then free_stack p s
                 else if cp_scs E \<noteq> 0 then free_stack p s
                 else let s = res_get (Scs p) s;
                          s = upd_task p (\<lambda>t. t\<lparr>seccomp_filter := NULL, rcu_users := 2, task_usage := 1\<rparr>) s
                      in (p, account_kernel_stack 1 s))"

text \<open>\<open>put_task_stack\<close> and \<open>free_task\<close>; the kthread data of a kernel thread hangs off \<open>set_child_tid\<close>.\<close>

definition put_task_stack :: "addr \<Rightarrow> fork_state \<Rightarrow> fork_state" where
  "put_task_stack p s =
    (let t = the_task s p; s = upd_task p (\<lambda>t. t\<lparr>stack_refcount := stack_refcount t - 1\<rparr>) s
     in if stack_refcount t = 1
        then upd_task p (\<lambda>t. t\<lparr>task_stack := NULL\<rparr>) (release_task_stack (task_state t = TASK_DEAD) (task_stack t) s)
        else s)"

definition free_task :: "addr \<Rightarrow> fork_state \<Rightarrow> fork_state" where
  "free_task p s =
    (let t = the_task s p; s = res_put (Scs p) s;
         s = (if task_flags t AND PF_KTHREAD \<noteq> 0 \<and> set_child_tid t \<noteq> 0 then res_put (KthreadData (set_child_tid t)) s else s)
     in s\<lparr>tasks := (tasks s)(p := None)\<rparr>)"

section \<open>Files, working directory, signal handlers, I/O context\<close>

definition copy_files :: "cp_env \<Rightarrow> u64 \<Rightarrow> addr \<Rightarrow> addr \<Rightarrow> fork_state \<Rightarrow> int \<times> fork_state" where
  "copy_files E clone_flags cur p s =
    (let oldf = task_files (the_task s cur)
     in if oldf = NULL then (0, s)
        else if has clone_flags CLONE_FILES then (0, res_get (FilesRef oldf) s)
        else case cp_dup_fd E of
               Inl e \<Rightarrow> (e, s)
             | Inr newf \<Rightarrow> (0, upd_task p (\<lambda>t. t\<lparr>task_files := newf\<rparr>) (res_get (FilesRef newf) s)))"

definition exit_files :: "addr \<Rightarrow> fork_state \<Rightarrow> fork_state" where
  "exit_files p s =
    (let f = task_files (the_task s p)
     in if f = NULL then s else res_put (FilesRef f) (upd_task p (\<lambda>t. t\<lparr>task_files := NULL\<rparr>) s))"

definition copy_fs :: "cp_env \<Rightarrow> u64 \<Rightarrow> addr \<Rightarrow> addr \<Rightarrow> fork_state \<Rightarrow> int \<times> fork_state" where
  "copy_fs E clone_flags cur p s =
    (let fs = task_fs (the_task s cur)
     in if has clone_flags CLONE_FS
        then if fs_in_exec s fs then (- EAGAIN, s) else (0, res_get (FsRef fs) s)
        else let s = upd_task p (\<lambda>t. t\<lparr>task_fs := cp_new_fs E\<rparr>) s
             in if cp_new_fs E = NULL then (- ENOMEM, s) else (0, res_get (FsRef (cp_new_fs E)) s))"

definition exit_fs :: "addr \<Rightarrow> fork_state \<Rightarrow> fork_state" where
  "exit_fs p s =
    (let f = task_fs (the_task s p)
     in if f = NULL then s else res_put (FsRef f) (upd_task p (\<lambda>t. t\<lparr>task_fs := NULL\<rparr>) s))"

text \<open>A handler is its address: 0 is \<open>SIG_DFL\<close>, 1 is \<open>SIG_IGN\<close>; \<open>flush_signal_handlers\<close> keeps ignored signals.\<close>

definition copy_sighand :: "cp_env \<Rightarrow> u64 \<Rightarrow> addr \<Rightarrow> addr \<Rightarrow> fork_state \<Rightarrow> int \<times> fork_state" where
  "copy_sighand E clone_flags cur p s =
    (if has clone_flags CLONE_SIGHAND then (0, res_get (SighandRef (task_sighand (the_task s cur))) s)
     else let h = cp_new_sighand E; s = upd_task p (\<lambda>t. t\<lparr>task_sighand := h\<rparr>) s
          in if h = NULL then (- ENOMEM, s)
             else let act = (case sighands s (task_sighand (the_task s cur)) of Some a \<Rightarrow> a | None \<Rightarrow> (\<lambda>_. 0));
                      act = (if has clone_flags CLONE_CLEAR_SIGHAND then (\<lambda>n. if act n = 1 then 1 else 0) else act)
                  in (0, res_get (SighandRef h) (s\<lparr>sighands := (sighands s)(h \<mapsto> act)\<rparr>)))"

definition cleanup_sighand :: "addr \<Rightarrow> fork_state \<Rightarrow> fork_state" where
  "cleanup_sighand h s =
    (let s = res_put (SighandRef h) s
     in if SighandRef h \<in># res s then s else s\<lparr>sighands := (sighands s)(h := None)\<rparr>)"

definition copy_signal :: "cp_env \<Rightarrow> u64 \<Rightarrow> addr \<Rightarrow> addr \<Rightarrow> fork_state \<Rightarrow> int \<times> fork_state" where
  "copy_signal E clone_flags cur p s =
    (if has clone_flags CLONE_THREAD then (0, s)
     else let g = cp_new_signal E; s = upd_task p (\<lambda>t. t\<lparr>task_signal := g\<rparr>) s
          in if g = NULL then (- ENOMEM, s)
             else let old = the_signal s (task_signal (the_task s cur));
                      sig = signal_zero\<lparr>sig_nr_threads := 1, sig_live := 1, sigcnt := 1, thread_head := [p],
                        sig_rlim := sig_rlim old, oom_score_adj := oom_score_adj old, oom_score_adj_min := oom_score_adj_min old\<rparr>
                  in (0, s\<lparr>signals := (signals s)(g \<mapsto> sig)\<rparr>))"

definition free_signal_struct :: "addr \<Rightarrow> fork_state \<Rightarrow> fork_state" where
  "free_signal_struct g s = s\<lparr>signals := (signals s)(g := None)\<rparr>"

definition copy_mm :: "cp_env \<Rightarrow> u64 \<Rightarrow> addr \<Rightarrow> addr \<Rightarrow> fork_state \<Rightarrow> int \<times> fork_state" where
  "copy_mm E clone_flags cur p s =
    (let s = upd_task p (\<lambda>t. t\<lparr>task_mm := NULL, active_mm := NULL\<rparr>) s;
         oldmm = task_mm (the_task s cur)
     in if oldmm = NULL then (0, s)
        else let (m, s) = (if has clone_flags CLONE_VM then (oldmm, mmget oldmm s) else dup_mm (cp_mm E) p oldmm s)
             in if m = NULL then (- ENOMEM, s)
                else (0, upd_task p (\<lambda>t. t\<lparr>task_mm := m, active_mm := m\<rparr>) s))"

definition mm_clear_owner :: "addr \<Rightarrow> addr \<Rightarrow> fork_state \<Rightarrow> fork_state" where
  "mm_clear_owner a p s = upd_mm a (\<lambda>m. if mm_owner m = p then m\<lparr>mm_owner := NULL\<rparr> else m) s"

text \<open>An I/O priority is valid when its class, in the upper three bits, is not 0.\<close>

definition ioprio_valid :: "u16 \<Rightarrow> bool" where
  "ioprio_valid prio \<longleftrightarrow> drop_bit 13 prio \<noteq> 0"

definition copy_io :: "cp_env \<Rightarrow> u64 \<Rightarrow> addr \<Rightarrow> addr \<Rightarrow> fork_state \<Rightarrow> int \<times> fork_state" where
  "copy_io E clone_flags cur p s =
    (let ioc = task_io_context (the_task s cur)
     in if ioc = NULL then (0, s)
        else if has clone_flags CLONE_IO
             then (0, upd_task p (\<lambda>t. t\<lparr>task_io_context := ioc\<rparr>) (res_get (IoRef ioc) s))
        else let prio = (case io_contexts s ioc of Some x \<Rightarrow> x | None \<Rightarrow> 0)
        in if ioprio_valid prio
             then let new = cp_new_io E
                  in if new = NULL then (- ENOMEM, s)
                     else (0, upd_task p (\<lambda>t. t\<lparr>task_io_context := new\<rparr>)
                                (res_get (IoRef new) (s\<lparr>io_contexts := (io_contexts s)(new \<mapsto> prio)\<rparr>)))
        else (0, s))"

definition exit_io_context :: "addr \<Rightarrow> fork_state \<Rightarrow> fork_state" where
  "exit_io_context p s =
    (let c = task_io_context (the_task s p);
         s = res_put (IoRef c) (upd_task p (\<lambda>t. t\<lparr>task_io_context := NULL\<rparr>) s)
     in if IoRef c \<in># res s then s else s\<lparr>io_contexts := (io_contexts s)(c := None)\<rparr>)"

end
