(* ===== verification/Fork_Process.thy ===== *)
theory Fork_Process
  imports Fork_Task
begin

text \<open>
  \<open>copy_process\<close> (kernel/fork.c): the whole path that creates a task, in stages that call each
  other in the order of the code, and the chain of error labels that each stage jumps into.
\<close>

section \<open>Error labels\<close>

text \<open>Each label falls through to the one before it; \<open>e\<close> is \<open>retval\<close>.\<close>

type_synonym cp_result = "(int + addr) \<times> fork_state"

definition add_delayed :: "u64 \<Rightarrow> addr \<Rightarrow> fork_state \<Rightarrow> fork_state" where
  "add_delayed clone_flags cur s =
    (if has clone_flags CLONE_THREAD then s
     else upd_signal (task_signal (the_task s cur)) (\<lambda>g. g\<lparr>multiprocess := cur # multiprocess g\<rparr>) s)"

definition del_delayed :: "addr \<Rightarrow> fork_state \<Rightarrow> fork_state" where
  "del_delayed cur s = upd_signal (task_signal (the_task s cur)) (\<lambda>g. g\<lparr>multiprocess := remove1 cur (multiprocess g)\<rparr>) s"

definition fork_out :: "addr \<Rightarrow> int \<Rightarrow> fork_state \<Rightarrow> cp_result" where
  "fork_out cur e s = (Inl e, del_delayed cur s)"

definition bad_fork_free :: "addr \<Rightarrow> addr \<Rightarrow> int \<Rightarrow> fork_state \<Rightarrow> cp_result" where
  "bad_fork_free cur p e s =
     fork_out cur e (free_task p (put_task_stack p (upd_task p (\<lambda>t. t\<lparr>task_state := TASK_DEAD\<rparr>) s)))"

definition bad_fork_cleanup_count :: "addr \<Rightarrow> addr \<Rightarrow> int \<Rightarrow> fork_state \<Rightarrow> cp_result" where
  "bad_fork_cleanup_count cur p e s = bad_fork_free cur p e (res_put (Creds p) (res_put (Nproc p) s))"

definition bad_fork_cleanup_threadgroup_lock :: "addr \<Rightarrow> addr \<Rightarrow> int \<Rightarrow> fork_state \<Rightarrow> cp_result" where
  "bad_fork_cleanup_threadgroup_lock cur p e s = bad_fork_cleanup_count cur p e (res_put (Delayacct p) s)"

definition bad_fork_cleanup_policy :: "addr \<Rightarrow> addr \<Rightarrow> int \<Rightarrow> fork_state \<Rightarrow> cp_result" where
  "bad_fork_cleanup_policy cur p e s = bad_fork_cleanup_threadgroup_lock cur p e (res_put (Mempolicy p) s)"

definition bad_fork_cleanup_perf :: "addr \<Rightarrow> addr \<Rightarrow> int \<Rightarrow> fork_state \<Rightarrow> cp_result" where
  "bad_fork_cleanup_perf cur p e s = bad_fork_cleanup_policy cur p e (res_put (Perf p) s)"

definition bad_fork_cleanup_audit :: "addr \<Rightarrow> addr \<Rightarrow> int \<Rightarrow> fork_state \<Rightarrow> cp_result" where
  "bad_fork_cleanup_audit cur p e s = bad_fork_cleanup_perf cur p e (res_put (Audit p) s)"

definition bad_fork_cleanup_security :: "addr \<Rightarrow> addr \<Rightarrow> int \<Rightarrow> fork_state \<Rightarrow> cp_result" where
  "bad_fork_cleanup_security cur p e s = bad_fork_cleanup_audit cur p e (res_put (Security p) s)"

definition bad_fork_cleanup_semundo :: "addr \<Rightarrow> addr \<Rightarrow> int \<Rightarrow> fork_state \<Rightarrow> cp_result" where
  "bad_fork_cleanup_semundo cur p e s = bad_fork_cleanup_security cur p e (res_put (Semundo p) s)"

definition bad_fork_cleanup_files :: "addr \<Rightarrow> addr \<Rightarrow> int \<Rightarrow> fork_state \<Rightarrow> cp_result" where
  "bad_fork_cleanup_files cur p e s = bad_fork_cleanup_semundo cur p e (exit_files p s)"

definition bad_fork_cleanup_fs :: "addr \<Rightarrow> addr \<Rightarrow> int \<Rightarrow> fork_state \<Rightarrow> cp_result" where
  "bad_fork_cleanup_fs cur p e s = bad_fork_cleanup_files cur p e (exit_fs p s)"

definition bad_fork_cleanup_sighand :: "addr \<Rightarrow> addr \<Rightarrow> int \<Rightarrow> fork_state \<Rightarrow> cp_result" where
  "bad_fork_cleanup_sighand cur p e s = bad_fork_cleanup_fs cur p e (cleanup_sighand (task_sighand (the_task s p)) s)"

definition bad_fork_cleanup_signal :: "u64 \<Rightarrow> addr \<Rightarrow> addr \<Rightarrow> int \<Rightarrow> fork_state \<Rightarrow> cp_result" where
  "bad_fork_cleanup_signal clone_flags cur p e s =
     bad_fork_cleanup_sighand cur p e
       (if has clone_flags CLONE_THREAD then s else free_signal_struct (task_signal (the_task s p)) s)"

definition bad_fork_cleanup_mm :: "cp_env \<Rightarrow> u64 \<Rightarrow> addr \<Rightarrow> addr \<Rightarrow> int \<Rightarrow> fork_state \<Rightarrow> cp_result" where
  "bad_fork_cleanup_mm E clone_flags cur p e s =
    (let a = task_mm (the_task s p)
     in bad_fork_cleanup_signal clone_flags cur p e (if a = NULL then s else mmput (cp_mm E) a (mm_clear_owner a p s)))"

definition bad_fork_cleanup_namespaces :: "cp_env \<Rightarrow> u64 \<Rightarrow> addr \<Rightarrow> addr \<Rightarrow> int \<Rightarrow> fork_state \<Rightarrow> cp_result" where
  "bad_fork_cleanup_namespaces E clone_flags cur p e s =
     bad_fork_cleanup_mm E clone_flags cur p e
       (upd_task p (\<lambda>t. t\<lparr>task_nsproxy := NULL\<rparr>) (res_put (NsRef (task_nsproxy (the_task s p))) s))"

definition bad_fork_cleanup_io :: "cp_env \<Rightarrow> u64 \<Rightarrow> addr \<Rightarrow> addr \<Rightarrow> int \<Rightarrow> fork_state \<Rightarrow> cp_result" where
  "bad_fork_cleanup_io E clone_flags cur p e s =
     bad_fork_cleanup_namespaces E clone_flags cur p e
       (if task_io_context (the_task s p) = NULL then s else exit_io_context p s)"

definition bad_fork_cleanup_thread :: "cp_env \<Rightarrow> u64 \<Rightarrow> addr \<Rightarrow> addr \<Rightarrow> int \<Rightarrow> fork_state \<Rightarrow> cp_result" where
  "bad_fork_cleanup_thread E clone_flags cur p e s =
     bad_fork_cleanup_io E clone_flags cur p e (res_put (ThreadArch p) s)"

text \<open>\<open>idle\<close> says that the caller passed \<open>init_struct_pid\<close>; \<open>nr\<close> is the number of the allocated \<open>pid\<close>.\<close>

definition bad_fork_free_pid :: "cp_env \<Rightarrow> bool \<Rightarrow> u64 \<Rightarrow> addr \<Rightarrow> addr \<Rightarrow> s32 \<Rightarrow> int \<Rightarrow> fork_state \<Rightarrow> cp_result" where
  "bad_fork_free_pid E idle clone_flags cur p nr e s =
     bad_fork_cleanup_thread E clone_flags cur p e (if idle then s else res_put (PidNr nr) s)"

text \<open>Closing the pid file drops the reference to the pid that the file holds.\<close>

definition bad_fork_put_pidfd :: "cp_env \<Rightarrow> bool \<Rightarrow> u64 \<Rightarrow> addr \<Rightarrow> addr \<Rightarrow> s32 \<Rightarrow> s32 \<Rightarrow> int \<Rightarrow> fork_state \<Rightarrow> cp_result" where
  "bad_fork_put_pidfd E idle clone_flags cur p nr pidfd e s =
     bad_fork_free_pid E idle clone_flags cur p nr e
       (if has clone_flags CLONE_PIDFD then res_put (FdSlot pidfd) (res_put (PidRef nr) (res_put (PidFile nr) s)) else s)"

definition bad_fork_cancel_cgroup :: "cp_env \<Rightarrow> bool \<Rightarrow> u64 \<Rightarrow> addr \<Rightarrow> addr \<Rightarrow> s32 \<Rightarrow> s32 \<Rightarrow> int \<Rightarrow> fork_state \<Rightarrow> cp_result" where
  "bad_fork_cancel_cgroup E idle clone_flags cur p nr pidfd e s =
    (let s = res_put (SchedCore p) s;
         s = res_put (SiglockHeld (task_sighand (the_task s cur))) s;
         s = res_put TasklistHeld s
     in bad_fork_put_pidfd E idle clone_flags cur p nr pidfd e (res_put (CgroupPin p) s))"

section \<open>The stages\<close>

definition copy_oom_score_adj :: "cp_env \<Rightarrow> u64 \<Rightarrow> addr \<Rightarrow> addr \<Rightarrow> fork_state \<Rightarrow> fork_state" where
  "copy_oom_score_adj E clone_flags cur p s =
    (let t = the_task s p
     in if task_mm t = NULL then s
        else if clone_flags AND (CLONE_VM OR CLONE_THREAD OR CLONE_VFORK) \<noteq> CLONE_VM then s
        else let old = the_signal s (task_signal (the_task s cur))
             in upd_signal (task_signal t) (\<lambda>g. g\<lparr>oom_score_adj := oom_score_adj old, oom_score_adj_min := oom_score_adj_min old\<rparr>)
                  (upd_mm (task_mm t) (\<lambda>m. m\<lparr>mm_flags := mm_flags m OR cp_mmf_multiprocess E\<rparr>) s))"

text \<open>\<open>work_seccomp\<close> is the bit of the thread's system-call work that enables the filter.\<close>

definition seccomp_task :: "task_struct \<Rightarrow> task_struct \<Rightarrow> task_struct" where
  "seccomp_task c t = t\<lparr>seccomp_mode := seccomp_mode c, seccomp_filter := seccomp_filter c,
     no_new_privs := no_new_privs t \<or> no_new_privs c, work_seccomp := work_seccomp t \<or> seccomp_mode c \<noteq> 0\<rparr>"

definition copy_seccomp :: "addr \<Rightarrow> addr \<Rightarrow> fork_state \<Rightarrow> fork_state" where
  "copy_seccomp cur p s =
    (let c = the_task s cur;
         s = (if seccomp_filter c = NULL then s else res_get (SeccompRef (seccomp_filter c)) s)
     in upd_task p (seccomp_task c) s)"

text \<open>Linking a leader, or a thread of an existing group, into the lists of the system.\<close>

definition link_leader :: "cp_env \<Rightarrow> addr \<Rightarrow> addr \<Rightarrow> fork_state \<Rightarrow> fork_state" where
  "link_leader E cur p s =
    (let t = the_task s p; g = task_signal t; parent = real_parent t;
         psig = the_signal s (task_signal (the_task s parent));
         tty = sig_tty (the_signal s (task_signal (the_task s cur)));
         s = upd_signal g (\<lambda>x. x\<lparr>sig_unkillable := sig_unkillable x \<or> cp_child_reaper E,
               shared_pending := cp_delayed E, sig_tty := tty,
               has_child_subreaper := has_child_subreaper psig \<or> is_child_subreaper psig\<rparr>) s;
         s = (if tty = NULL then s else res_get (TtyRef tty) s)
     in s\<lparr>task_children := (task_children s)(parent := task_children s parent @ [p]),
          task_list := task_list s @ [p], process_counts := process_counts s + 1\<rparr>)"

definition link_thread :: "addr \<Rightarrow> addr \<Rightarrow> fork_state \<Rightarrow> fork_state" where
  "link_thread cur p s =
    (let t = the_task s p;
         s = upd_signal (task_signal (the_task s cur))
               (\<lambda>x. x\<lparr>sig_nr_threads := sig_nr_threads x + 1, sig_live := sig_live x + 1, sigcnt := sigcnt x + 1\<rparr>) s;
         s = s\<lparr>thread_group := (thread_group s)(group_leader t := thread_group s (group_leader t) @ [p])\<rparr>
     in upd_signal (task_signal t) (\<lambda>x. x\<lparr>thread_head := thread_head x @ [p]\<rparr>) s)"

definition cp_link :: "cp_env \<Rightarrow> bool \<Rightarrow> kernel_clone_args \<Rightarrow> addr \<Rightarrow> addr \<Rightarrow> s32 \<Rightarrow> s32 \<Rightarrow> fork_state \<Rightarrow> cp_result" where
  "cp_link E idle args cur p nr pidfd s =
    (let clone_flags = arg_flags args;
         s = copy_seccomp cur p s;
         s = (if nr = 0 then s
              else let s = (if 0 \<le> sint (exit_signal (the_task s p)) then link_leader E cur p s else link_thread cur p s)
                   in s\<lparr>nr_threads := nr_threads s + 1\<rparr>);
         s = s\<lparr>total_forks := total_forks s + 1\<rparr>;
         s = del_delayed cur s;
         s = res_put (SiglockHeld (task_sighand (the_task s cur))) s;
         s = res_put TasklistHeld s;
         s = res_get (CssSet p) (res_put (CgroupPin p) s)
     in (Inr p, copy_oom_score_adj E clone_flags cur p s))"

definition cp_parent :: "cp_env \<Rightarrow> bool \<Rightarrow> kernel_clone_args \<Rightarrow> addr \<Rightarrow> addr \<Rightarrow> s32 \<Rightarrow> s32 \<Rightarrow> fork_state \<Rightarrow> cp_result" where
  "cp_parent E idle args cur p nr pidfd s =
    (let clone_flags = arg_flags args; c = the_task s cur
     in if cp_cgroup_can_fork E \<noteq> 0 then bad_fork_put_pidfd E idle clone_flags cur p nr pidfd (cp_cgroup_can_fork E) s
        else let s = res_get TasklistHeld (res_get (CgroupPin p) s);
                 s = upd_task p (\<lambda>t.
                       if has clone_flags (CLONE_PARENT OR CLONE_THREAD)
                       then t\<lparr>real_parent := real_parent c, parent_exec_id := parent_exec_id c,
                              exit_signal := (if has clone_flags CLONE_THREAD then - 1
                                              else exit_signal (the_task s (group_leader c)))\<rparr>
                       else t\<lparr>real_parent := cur, parent_exec_id := self_exec_id c,
                              exit_signal := ucast (arg_exit_signal args)\<rparr>) s;
                 s = res_get (SiglockHeld (task_sighand c)) (res_get (SchedCore p) s)
             in if cp_ns_dying E then bad_fork_cancel_cgroup E idle clone_flags cur p nr pidfd (- ENOMEM) s
                else if cp_fatal_signal E then bad_fork_cancel_cgroup E idle clone_flags cur p nr pidfd (- EINTR) s
                else cp_link E idle args cur p nr pidfd s)"

definition cp_ids :: "cp_env \<Rightarrow> bool \<Rightarrow> kernel_clone_args \<Rightarrow> addr \<Rightarrow> addr \<Rightarrow> s32 \<Rightarrow> s32 \<Rightarrow> fork_state \<Rightarrow> cp_result" where
  "cp_ids E idle args cur p nr pidfd s =
    (let clone_flags = arg_flags args; c = the_task s cur;
         (t, h) = copy_process_kv (has clone_flags CLONE_THREAD) (cp_kmalloc1 E) (cp_kv_junk1 E) (cp_kmalloc2 E) (cp_kv_junk2 E)
                    c (the_task s p) (kvheap s);
         s = upd_task p (\<lambda>_. t) (s\<lparr>kvheap := h\<rparr>);
         s = upd_task p (\<lambda>t. if clone_flags AND (CLONE_VM OR CLONE_VFORK) = CLONE_VM then t\<lparr>sas_ss_sp := 0\<rparr> else t) s;
         s = upd_task p (\<lambda>t. t\<lparr>pid := nr\<rparr>) s;
         s = upd_task p (\<lambda>t. if has clone_flags CLONE_THREAD then t\<lparr>group_leader := group_leader c, tgid := tgid c\<rparr>
                             else t\<lparr>group_leader := p, tgid := pid t\<rparr>) s;
         s = upd_task p (\<lambda>t. t\<lparr>pdeath_signal := 0\<rparr>) (s\<lparr>thread_group := (thread_group s)(p := [])\<rparr>)
     in cp_parent E idle args cur p nr pidfd s)"

definition cp_pid :: "cp_env \<Rightarrow> bool \<Rightarrow> kernel_clone_args \<Rightarrow> addr \<Rightarrow> addr \<Rightarrow> fork_state \<Rightarrow> cp_result" where
  "cp_pid E idle args cur p s =
    (let clone_flags = arg_flags args
     in case (if idle then Inr 0 else cp_alloc_pid E) of
          Inl e \<Rightarrow> bad_fork_cleanup_thread E clone_flags cur p e s
        | Inr nr \<Rightarrow>
            let s = (if idle then s else res_get (PidNr nr) s)
            in if \<not> has clone_flags CLONE_PIDFD then cp_ids E idle args cur p nr (- 1) s
               else (case cp_fd E of
                 Inl e \<Rightarrow> bad_fork_free_pid E idle clone_flags cur p nr e s
               | Inr pidfd \<Rightarrow>
                   let s = res_get (FdSlot pidfd) s
                   in if cp_pidfile E \<noteq> 0
                      then bad_fork_free_pid E idle clone_flags cur p nr (cp_pidfile E) (res_put (FdSlot pidfd) s)
                      else let s = res_get (PidRef nr) (res_get (PidFile nr) s)
                           in if cp_put_user E \<noteq> 0
                              then bad_fork_put_pidfd E idle clone_flags cur p nr pidfd (cp_put_user E) s
                              else cp_ids E idle args cur p nr pidfd s))"

text \<open>The calls that copy or share what the parent has, last one first.\<close>

definition cp_io :: "cp_env \<Rightarrow> bool \<Rightarrow> kernel_clone_args \<Rightarrow> addr \<Rightarrow> addr \<Rightarrow> fork_state \<Rightarrow> cp_result" where
  "cp_io E idle args cur p s =
    (let (e, s) = copy_io E (arg_flags args) cur p s
     in if e \<noteq> 0 then bad_fork_cleanup_namespaces E (arg_flags args) cur p e s
        else if cp_thread E \<noteq> 0 then bad_fork_cleanup_io E (arg_flags args) cur p (cp_thread E) s
        else cp_pid E idle args cur p (res_get (ThreadArch p) s))"

definition cp_ns :: "cp_env \<Rightarrow> bool \<Rightarrow> kernel_clone_args \<Rightarrow> addr \<Rightarrow> addr \<Rightarrow> fork_state \<Rightarrow> cp_result" where
  "cp_ns E idle args cur p s =
    (case cp_namespaces E of
       Inl e \<Rightarrow> bad_fork_cleanup_mm E (arg_flags args) cur p e s
     | Inr ns \<Rightarrow> cp_io E idle args cur p (upd_task p (\<lambda>t. t\<lparr>task_nsproxy := ns\<rparr>) (res_get (NsRef ns) s)))"

definition cp_memory :: "cp_env \<Rightarrow> bool \<Rightarrow> kernel_clone_args \<Rightarrow> addr \<Rightarrow> addr \<Rightarrow> fork_state \<Rightarrow> cp_result" where
  "cp_memory E idle args cur p s =
    (let (e, s) = copy_mm E (arg_flags args) cur p s
     in if e \<noteq> 0 then bad_fork_cleanup_signal (arg_flags args) cur p e s else cp_ns E idle args cur p s)"

definition cp_signal :: "cp_env \<Rightarrow> bool \<Rightarrow> kernel_clone_args \<Rightarrow> addr \<Rightarrow> addr \<Rightarrow> fork_state \<Rightarrow> cp_result" where
  "cp_signal E idle args cur p s =
    (let (e, s) = copy_signal E (arg_flags args) cur p s
     in if e \<noteq> 0 then bad_fork_cleanup_sighand cur p e s else cp_memory E idle args cur p s)"

definition cp_sighand :: "cp_env \<Rightarrow> bool \<Rightarrow> kernel_clone_args \<Rightarrow> addr \<Rightarrow> addr \<Rightarrow> fork_state \<Rightarrow> cp_result" where
  "cp_sighand E idle args cur p s =
    (let (e, s) = copy_sighand E (arg_flags args) cur p s
     in if e \<noteq> 0 then bad_fork_cleanup_fs cur p e s else cp_signal E idle args cur p s)"

definition cp_fs :: "cp_env \<Rightarrow> bool \<Rightarrow> kernel_clone_args \<Rightarrow> addr \<Rightarrow> addr \<Rightarrow> fork_state \<Rightarrow> cp_result" where
  "cp_fs E idle args cur p s =
    (let (e, s) = copy_fs E (arg_flags args) cur p s
     in if e \<noteq> 0 then bad_fork_cleanup_files cur p e s else cp_sighand E idle args cur p s)"

definition cp_files :: "cp_env \<Rightarrow> bool \<Rightarrow> kernel_clone_args \<Rightarrow> addr \<Rightarrow> addr \<Rightarrow> fork_state \<Rightarrow> cp_result" where
  "cp_files E idle args cur p s =
    (let (e, s) = copy_files E (arg_flags args) cur p s
     in if e \<noteq> 0 then bad_fork_cleanup_semundo cur p e s else cp_fs E idle args cur p s)"

definition cp_sched :: "cp_env \<Rightarrow> bool \<Rightarrow> kernel_clone_args \<Rightarrow> addr \<Rightarrow> addr \<Rightarrow> fork_state \<Rightarrow> cp_result" where
  "cp_sched E idle args cur p s =
    (if cp_sched_fork E \<noteq> 0 then bad_fork_cleanup_policy cur p (cp_sched_fork E) s
     else if cp_perf E \<noteq> 0 then bad_fork_cleanup_policy cur p (cp_perf E) s
     else let s = res_get (Perf p) s
     in if cp_audit E \<noteq> 0 then bad_fork_cleanup_perf cur p (cp_audit E) s
     else let s = res_get (Audit p) s
     in if cp_security E \<noteq> 0 then bad_fork_cleanup_audit cur p (cp_security E) s
     else let s = res_get (Security p) s
     in if cp_semundo E \<noteq> 0 then bad_fork_cleanup_security cur p (cp_semundo E) s
     else cp_files E idle args cur p (res_get (Semundo p) s))"

definition cp_init :: "cp_env \<Rightarrow> bool \<Rightarrow> kernel_clone_args \<Rightarrow> addr \<Rightarrow> addr \<Rightarrow> fork_state \<Rightarrow> cp_result" where
  "cp_init E idle args cur p s =
    (let s = res_get (Delayacct p) s;
         s = upd_task p (\<lambda>t. t\<lparr>task_flags := (task_flags t AND NOT (PF_SUPERPRIV OR PF_WQ_WORKER OR PF_IDLE OR PF_NO_SETAFFINITY))
                                             OR PF_FORKNOEXEC,
               vfork_done := NULL, task_io_context := NULL\<rparr>) s;
         s = s\<lparr>task_children := (task_children s)(p := [])\<rparr>
     in if cp_mempolicy E \<noteq> 0 then bad_fork_cleanup_threadgroup_lock cur p (cp_mempolicy E) s
        else cp_sched E idle args cur p (res_get (Mempolicy p) s))"

definition cp_creds_stage :: "cp_env \<Rightarrow> bool \<Rightarrow> kernel_clone_args \<Rightarrow> addr \<Rightarrow> addr \<Rightarrow> fork_state \<Rightarrow> cp_result" where
  "cp_creds_stage E idle args cur p s =
    (let fl = arg_flags args;
         s = upd_task p (\<lambda>t. if arg_io_thread args
               then t\<lparr>task_flags := task_flags t OR PF_IO_WORKER, task_blocked := NOT (push_bit 8 1 OR push_bit 18 1)\<rparr> else t) s;
         s = upd_task p (\<lambda>t. t\<lparr>set_child_tid := (if has fl CLONE_CHILD_SETTID then arg_child_tid args else 0),
               clear_child_tid := (if has fl CLONE_CHILD_CLEARTID then arg_child_tid args else 0),
               max_socket_allowed := 0, priority_level := 0, socket_count := 0\<rparr>) s
     in if cp_creds E < 0 then bad_fork_free cur p (cp_creds E) s
        else let s = res_get (Nproc p) (res_get (Creds p) s)
        in if cp_overlimit E \<and> \<not> cp_privileged E then bad_fork_cleanup_count cur p (- EAGAIN) s
        else let s = upd_task cur (\<lambda>t. t\<lparr>task_flags := task_flags t AND NOT PF_NPROC_EXCEEDED\<rparr>) s
        in if nr_threads s \<ge> max_threads s then bad_fork_cleanup_count cur p (- EAGAIN) s
        else cp_init E idle args cur p s)"

definition copy_process :: "cp_env \<Rightarrow> bool \<Rightarrow> kernel_clone_args \<Rightarrow> addr \<Rightarrow> fork_state \<Rightarrow> cp_result" where
  "copy_process E idle args cur s =
    (let fl = arg_flags args; e = copy_process_flags (cp_caller E) fl
     in if e \<noteq> 0 then (Inl e, s)
        else let s = add_delayed fl cur s
        in if cp_sigpending E then fork_out cur (- ERESTARTNOINTR) s
        else let (p, s) = dup_task_struct E cur s
        in if p = NULL then fork_out cur (- ENOMEM) s
        else cp_creds_stage E idle args cur p s)"

end
