(* ===== verification/Fork_Undo.thy ===== *)
theory Fork_Undo
  imports Fork_Process
begin

text \<open>
  What the error labels of \<open>copy_process\<close> undo: each label, entered with exactly the resources that the
  code has acquired at the jumps to it, leaves what the last label leaves of the bare new task.
\<close>

section \<open>Undoing\<close>

text \<open>
  A state in the middle of \<open>copy_process\<close> is described by its difference to a base: the new task \<open>t\<close>
  at \<open>p\<close> and the tokens \<open>T\<close> acquired for it.
\<close>

definition cps :: "fork_state \<Rightarrow> addr \<Rightarrow> task_struct \<Rightarrow> fork_res multiset \<Rightarrow> fork_state" where
  "cps b p t T = b\<lparr>tasks := (tasks b)(p \<mapsto> t), res := res b + T\<rparr>"

text \<open>What the last error label reads of the task.\<close>

definition same_core :: "task_struct \<Rightarrow> task_struct \<Rightarrow> bool" where
  "same_core t u \<longleftrightarrow> task_stack t = task_stack u \<and> stack_refcount t = stack_refcount u \<and> task_flags t = task_flags u \<and>
     set_child_tid t = set_child_tid u"

lemma same_core_upd [simp]:
  "same_core (t\<lparr>task_files := x\<rparr>) u = same_core t u" "same_core (t\<lparr>task_fs := x\<rparr>) u = same_core t u"
  "same_core (t\<lparr>task_sighand := x\<rparr>) u = same_core t u" "same_core (t\<lparr>task_signal := x\<rparr>) u = same_core t u"
  "same_core (t\<lparr>task_mm := x\<rparr>) u = same_core t u" "same_core (t\<lparr>active_mm := x\<rparr>) u = same_core t u"
  "same_core (t\<lparr>task_nsproxy := x\<rparr>) u = same_core t u" "same_core (t\<lparr>task_io_context := x\<rparr>) u = same_core t u"
  "same_core t t"
  by (simp_all add: same_core_def)

lemma cps_simps [simp]:
  "res_get r (cps b p t T) = cps b p t (add_mset r T)"
  "res_put r (cps b p t (add_mset r T)) = cps b p t T"
  "the_task (cps b p t T) p = t" "p \<noteq> q \<Longrightarrow> the_task (cps b p t T) q = the_task b q"
  "upd_task p f (cps b p t T) = cps b p (f t) T"
  by (simp_all add: cps_def res_get_def res_put_def the_task_def upd_task_def)

lemma cps_sel [simp]:
  "res (cps b p t T) = res b + T" "tasks (cps b p t T) = (tasks b)(p \<mapsto> t)"
  "mms (cps b p t T) = mms b"
  "held (cps b p t T) = held b"
  "cached_stacks (cps b p t T) = cached_stacks b"
  "vstacks (cps b p t T) = vstacks b"
  "kmem_pages (cps b p t T) = kmem_pages b"
  "kernel_stack_kb (cps b p t T) = kernel_stack_kb b"
  "signals (cps b p t T) = signals b"
  "sighands (cps b p t T) = sighands b"
  "fs_in_exec (cps b p t T) = fs_in_exec b"
  "io_contexts (cps b p t T) = io_contexts b"
  "kvheap (cps b p t T) = kvheap b"
  "nr_threads (cps b p t T) = nr_threads b"
  "max_threads (cps b p t T) = max_threads b"
  "total_forks (cps b p t T) = total_forks b"
  "task_children (cps b p t T) = task_children b"
  "task_list (cps b p t T) = task_list b"
  "thread_group (cps b p t T) = thread_group b"
  "process_counts (cps b p t T) = process_counts b"
  by (simp_all add: cps_def)

lemma cps_upd [simp]:
  "(cps b p t T)\<lparr>mms := x1\<rparr> = cps (b\<lparr>mms := x1\<rparr>) p t T"
  "(cps b p t T)\<lparr>held := x2\<rparr> = cps (b\<lparr>held := x2\<rparr>) p t T"
  "(cps b p t T)\<lparr>signals := x3\<rparr> = cps (b\<lparr>signals := x3\<rparr>) p t T"
  "(cps b p t T)\<lparr>sighands := x4\<rparr> = cps (b\<lparr>sighands := x4\<rparr>) p t T"
  "(cps b p t T)\<lparr>io_contexts := x5\<rparr> = cps (b\<lparr>io_contexts := x5\<rparr>) p t T"
  "(cps b p t T)\<lparr>kvheap := x6\<rparr> = cps (b\<lparr>kvheap := x6\<rparr>) p t T"
  "(cps b p t T)\<lparr>task_children := x7\<rparr> = cps (b\<lparr>task_children := x7\<rparr>) p t T"
  "(cps b p t T)\<lparr>thread_group := x8\<rparr> = cps (b\<lparr>thread_group := x8\<rparr>) p t T"
  "(cps b p t T)\<lparr>nr_threads := x9\<rparr> = cps (b\<lparr>nr_threads := x9\<rparr>) p t T"
  "(cps b p t T)\<lparr>total_forks := x10\<rparr> = cps (b\<lparr>total_forks := x10\<rparr>) p t T"
  by (cases b; simp add: cps_def)+

text \<open>The tables of objects that \<open>copy_process\<close> changes besides.\<close>

definition objs :: "fork_state \<Rightarrow> (addr \<rightharpoonup> mm_struct) \<Rightarrow> mm_res multiset \<Rightarrow> (addr \<rightharpoonup> signal_struct) \<Rightarrow>
    (addr \<rightharpoonup> (nat \<Rightarrow> u64)) \<Rightarrow> (addr \<rightharpoonup> u16) \<Rightarrow> fork_state" where
  "objs b M D G H I = b\<lparr>mms := M, held := D, signals := G, sighands := H, io_contexts := I\<rparr>"

lemma objs_sel [simp]:
  "mms (objs b M D G H I) = M" "held (objs b M D G H I) = D" "signals (objs b M D G H I) = G"
  "sighands (objs b M D G H I) = H" "io_contexts (objs b M D G H I) = I" "tasks (objs b M D G H I) = tasks b"
  "res (objs b M D G H I) = res b" "fs_in_exec (objs b M D G H I) = fs_in_exec b" "kvheap (objs b M D G H I) = kvheap b"
  "task_children (objs b M D G H I) = task_children b" "thread_group (objs b M D G H I) = thread_group b"
  "the_task (objs b M D G H I) q = the_task b q"
  by (simp_all add: objs_def the_task_def)

lemma objs_upd [simp]:
  "(objs b M D G H I)\<lparr>mms := M'\<rparr> = objs b M' D G H I" "(objs b M D G H I)\<lparr>held := D'\<rparr> = objs b M D' G H I"
  "(objs b M D G H I)\<lparr>signals := G'\<rparr> = objs b M D G' H I" "(objs b M D G H I)\<lparr>sighands := H'\<rparr> = objs b M D G H' I"
  "(objs b M D G H I)\<lparr>io_contexts := I'\<rparr> = objs b M D G H I'"
  "(objs b M D G H I)\<lparr>kvheap := K\<rparr> = objs (b\<lparr>kvheap := K\<rparr>) M D G H I"
  "(objs b M D G H I)\<lparr>task_children := ch\<rparr> = objs (b\<lparr>task_children := ch\<rparr>) M D G H I"
  "(objs b M D G H I)\<lparr>thread_group := tg\<rparr> = objs (b\<lparr>thread_group := tg\<rparr>) M D G H I"
  by (cases b; simp add: objs_def)+

lemma objs_self: "objs b (mms b) (held b) (signals b) (sighands b) (io_contexts b) = b"
  by (cases b) (simp add: objs_def)

definition undone :: "addr \<Rightarrow> addr \<Rightarrow> int \<Rightarrow> fork_state \<Rightarrow> task_struct \<Rightarrow> cp_result" where
  "undone cur p e b t = bad_fork_free cur p e (cps b p t {#})"


lemma bad_fork_free_eff:
  assumes "tasks s p = Some t" "stack_refcount t = 1" "p \<noteq> cur" "task_flags t AND PF_KTHREAD = 0 \<or> set_child_tid t = 0"
  shows "bad_fork_free cur p e s = (Inl e, del_delayed cur (free_thread_stack (task_stack t)
    (s\<lparr>kernel_stack_kb := kernel_stack_kb s - 16, tasks := (tasks s)(p := None), res := res s - {#Scs p#}\<rparr>)))"
proof -
  have "free_task p (put_task_stack p (upd_task p (\<lambda>t. t\<lparr>task_state := TASK_DEAD\<rparr>) s)) =
    free_thread_stack (task_stack t) (s\<lparr>kernel_stack_kb := kernel_stack_kb s - 16, tasks := (tasks s)(p := None), res := res s - {#Scs p#}\<rparr>)"
    using assms by (cases s)
      (auto simp: put_task_stack_def upd_task_def the_task_def release_task_stack_def account_kernel_stack_eq
        free_task_def res_put_def free_thread_stack_def Let_def split: option.splits)
  then show ?thesis by (simp add: bad_fork_free_def fork_out_def)
qed

text \<open>What the undoing leaves does not depend on what the task pointed to.\<close>

lemma undone_core:
  assumes "same_core t u" "p \<noteq> cur" "stack_refcount u = 1" "task_flags u AND PF_KTHREAD = 0 \<or> set_child_tid u = 0"
  shows "undone cur p e b t = undone cur p e b u"
proof -
  have t: "stack_refcount t = 1" "task_flags t AND PF_KTHREAD = 0 \<or> set_child_tid t = 0" "task_stack t = task_stack u"
    using assms by (simp_all add: same_core_def)
  have u: "tasks (cps b p x {#}) p = Some x" for x by (simp add: cps_def)
  have e: "(cps b p t {#})\<lparr>kernel_stack_kb := k, tasks := (tasks (cps b p t {#}))(p := None), res := R\<rparr> =
      (cps b p u {#})\<lparr>kernel_stack_kb := k, tasks := (tasks (cps b p u {#}))(p := None), res := R\<rparr>" for k R
    by (cases b) (simp add: cps_def)
  have r: "res (cps b p x {#}) = res b" "kernel_stack_kb (cps b p x {#}) = kernel_stack_kb b" for x by (simp_all add: cps_def)
  show ?thesis
    unfolding undone_def bad_fork_free_eff [OF u t(1) assms(2) t(2)] bad_fork_free_eff [OF u assms(3,2,4)] t(3) r
    by (simp only: e)
qed

subsection \<open>Labels that release a token\<close>

definition toks_semundo :: "addr \<Rightarrow> fork_res multiset" where
  "toks_semundo p = {#Semundo p, Security p, Audit p, Perf p, Mempolicy p, Delayacct p, Nproc p, Creds p#}"

lemma undo_count: "bad_fork_cleanup_count cur p e (cps b p t {#Nproc p, Creds p#}) = undone cur p e b t"
  by (simp add: bad_fork_cleanup_count_def undone_def)

lemma undo_threadgroup: "bad_fork_cleanup_threadgroup_lock cur p e
    (cps b p t {#Delayacct p, Nproc p, Creds p#}) = undone cur p e b t"
  by (simp add: bad_fork_cleanup_threadgroup_lock_def undo_count)

lemma undo_policy: "bad_fork_cleanup_policy cur p e
    (cps b p t {#Mempolicy p, Delayacct p, Nproc p, Creds p#}) = undone cur p e b t"
  by (simp add: bad_fork_cleanup_policy_def undo_threadgroup)

lemma undo_perf: "bad_fork_cleanup_perf cur p e
    (cps b p t {#Perf p, Mempolicy p, Delayacct p, Nproc p, Creds p#}) = undone cur p e b t"
  by (simp add: bad_fork_cleanup_perf_def undo_policy)

lemma undo_audit: "bad_fork_cleanup_audit cur p e
    (cps b p t {#Audit p, Perf p, Mempolicy p, Delayacct p, Nproc p, Creds p#}) = undone cur p e b t"
  by (simp add: bad_fork_cleanup_audit_def undo_perf)

lemma undo_security: "bad_fork_cleanup_security cur p e
    (cps b p t {#Security p, Audit p, Perf p, Mempolicy p, Delayacct p, Nproc p, Creds p#}) = undone cur p e b t"
  by (simp add: bad_fork_cleanup_security_def undo_audit)

lemma undo_semundo: "bad_fork_cleanup_semundo cur p e (cps b p t (toks_semundo p)) = undone cur p e b t"
  by (simp add: bad_fork_cleanup_semundo_def toks_semundo_def undo_security)

text \<open>From here the tokens depend on what the task points to.\<close>

definition toks_files :: "addr \<Rightarrow> task_struct \<Rightarrow> fork_res multiset" where
  "toks_files p t = (if task_files t = NULL then toks_semundo p else add_mset (FilesRef (task_files t)) (toks_semundo p))"

definition toks_fs :: "addr \<Rightarrow> task_struct \<Rightarrow> fork_res multiset" where
  "toks_fs p t = add_mset (FsRef (task_fs t)) (toks_files p t)"

lemma toks_upd [simp]:
  "toks_files p (t\<lparr>task_fs := x\<rparr>) = toks_files p t" "toks_files p (t\<lparr>task_sighand := x\<rparr>) = toks_files p t"
  "toks_files p (t\<lparr>task_signal := x\<rparr>) = toks_files p t" "toks_fs p (t\<lparr>task_signal := x\<rparr>) = toks_fs p t"
  "toks_fs p (t\<lparr>task_sighand := x\<rparr>) = toks_fs p t"
  by (simp_all add: toks_files_def toks_fs_def)

text \<open>The condition on \<open>u\<close> under which the labels restore the base.\<close>

definition undoable :: "addr \<Rightarrow> addr \<Rightarrow> task_struct \<Rightarrow> bool" where
  "undoable cur p u \<longleftrightarrow> p \<noteq> cur \<and> stack_refcount u = 1 \<and> (task_flags u AND PF_KTHREAD = 0 \<or> set_child_tid u = 0)"

lemma undone_same: "same_core t u \<Longrightarrow> undoable cur p u \<Longrightarrow> undone cur p e b t = undone cur p e b u"
  by (rule undone_core) (simp_all add: undoable_def)

lemma undo_files:
  assumes "same_core t u" "undoable cur p u"
  shows "bad_fork_cleanup_files cur p e (cps b p t (toks_files p t)) = undone cur p e b u"
proof (cases "task_files t = NULL")
  case True
  then show ?thesis using undone_same [OF assms]
    by (simp add: bad_fork_cleanup_files_def exit_files_def toks_files_def undo_semundo)
next
  case False
  then show ?thesis using undone_same [of "t\<lparr>task_files := NULL\<rparr>" u] assms
    by (simp add: bad_fork_cleanup_files_def exit_files_def toks_files_def undo_semundo Let_def)
qed

lemma undo_fs:
  assumes "same_core t u" "undoable cur p u" "task_fs t \<noteq> NULL"
  shows "bad_fork_cleanup_fs cur p e (cps b p t (toks_fs p t)) = undone cur p e b u"
  using undo_files [of "t\<lparr>task_fs := NULL\<rparr>" u cur p e b] assms
  by (simp add: bad_fork_cleanup_fs_def exit_fs_def toks_fs_def Let_def)

subsection \<open>Labels that release an object of fork.c's own\<close>

text \<open>
  The tables of signal handlers and I/O contexts keep an entry as long as there is a token for it:
  releasing the child's reference restores the table.
\<close>

lemma not_in_toks [simp]:
  "SighandRef h \<notin># toks_fs p t" "IoRef h \<notin># toks_fs p t" "NsRef h \<notin># toks_fs p t"
  by (simp_all add: toks_fs_def toks_files_def toks_semundo_def)

definition sighand_kept :: "fork_state \<Rightarrow> addr \<Rightarrow> (addr \<rightharpoonup> (nat \<Rightarrow> u64)) \<Rightarrow> bool" where
  "sighand_kept b h H \<longleftrightarrow> (if SighandRef h \<in># res b then H = sighands b else H(h := None) = sighands b)"

lemma undo_sighand:
  assumes "same_core t u" "undoable cur p u" "task_fs t \<noteq> NULL" "sighand_kept b (task_sighand t) H"
  shows "bad_fork_cleanup_sighand cur p e (cps (objs b (mms b) (held b) (signals b) H (io_contexts b)) p t
      (add_mset (SighandRef (task_sighand t)) (toks_fs p t))) = undone cur p e b u"
proof -
  let ?h = "task_sighand t"
  let ?b = "objs b (mms b) (held b) (signals b) H (io_contexts b)"
  have "cleanup_sighand ?h (cps ?b p t (add_mset (SighandRef ?h) (toks_fs p t))) =
      cps (objs b (mms b) (held b) (signals b) (sighands b) (io_contexts b)) p t (toks_fs p t)"
    using assms(4) by (auto simp: cleanup_sighand_def Let_def sighand_kept_def)
  then show ?thesis using undo_fs [OF assms(1-3)] by (simp add: bad_fork_cleanup_sighand_def objs_self)
qed

definition signal_kept :: "fork_state \<Rightarrow> u64 \<Rightarrow> addr \<Rightarrow> (addr \<rightharpoonup> signal_struct) \<Rightarrow> bool" where
  "signal_kept b fl g G \<longleftrightarrow> (if has fl CLONE_THREAD then G = signals b else G(g := None) = signals b)"

lemma undo_signal:
  assumes "same_core t u" "undoable cur p u" "task_fs t \<noteq> NULL" "sighand_kept b (task_sighand t) H" "signal_kept b fl (task_signal t) G"
  shows "bad_fork_cleanup_signal fl cur p e (cps (objs b (mms b) (held b) G H (io_contexts b)) p t
      (add_mset (SighandRef (task_sighand t)) (toks_fs p t))) = undone cur p e b u"
  using undo_sighand [OF assms(1-4)] assms(5)
  by (auto simp: bad_fork_cleanup_signal_def free_signal_struct_def signal_kept_def)

text \<open>The address space is shared with one more user, or new.\<close>

definition mm_kept :: "fork_state \<Rightarrow> addr \<Rightarrow> addr \<Rightarrow> (addr \<rightharpoonup> mm_struct) \<Rightarrow> mm_res multiset \<Rightarrow> bool" where
  "mm_kept b p a M D \<longleftrightarrow>
    (if a = NULL then M = mms b \<and> D = held b
     else (\<exists>m. mms b a = Some m \<and> 0 < mm_users m \<and> mm_owner m \<noteq> p \<and> M = (mms b)(a \<mapsto> m\<lparr>mm_users := mm_users m + 1\<rparr>) \<and> D = held b) \<or>
          (\<exists>m. mms b a = None \<and> mm_users m = 1 \<and> mm_count m = 1 \<and> M = (mms b)(a \<mapsto> m) \<and> D = held b + mm_owned a m))"

lemma mm_owned_owner [simp]: "mm_owned a (m\<lparr>mm_owner := x\<rparr>) = mm_owned a m"
  by (simp add: mm_owned_def)

lemma mmput_undo:
  assumes k: "mm_kept b p a M D" and a: "a \<noteq> NULL" and E: "exit_mmap_ok E"
  shows "mmput E a (mm_clear_owner a p (cps (objs b M D G H I) p t T)) = cps (objs b (mms b) (held b) G H I) p t T"
proof -
  consider (shared) m where "mms b a = Some m" "0 < mm_users m" "mm_owner m \<noteq> p" "M = (mms b)(a \<mapsto> m\<lparr>mm_users := mm_users m + 1\<rparr>)" "D = held b"
    | (new) m where "mms b a = None" "mm_users m = 1" "mm_count m = 1" "M = (mms b)(a \<mapsto> m)" "D = held b + mm_owned a m"
    using k a by (auto simp: mm_kept_def)
  then show ?thesis
  proof cases
    case shared
    then show ?thesis by (simp add: mm_clear_owner_def mmput_def upd_mm_def fun_upd_idem)
  next
    case new
    let ?m = "if mm_owner m = p then m\<lparr>mm_owner := NULL\<rparr> else m"
    let ?s = "cps (objs b ((mms b)(a \<mapsto> ?m)) D G H I) p t T"
    have c: "mm_clear_owner a p (cps (objs b M D G H I) p t T) = ?s"
      using new by (simp add: mm_clear_owner_def upd_mm_def)
    have s: "mms ?s a = Some ?m" "held ?s = held b + mm_owned a ?m" "mm_users ?m = 1" "mm_count ?m = 1"
      using new by simp_all
    have "0 < mm_users ?m" "0 < mm_count ?m" "\<not> 1 < mm_users ?m" "\<not> 1 < mm_count ?m" using s(3,4) by linarith+
    then have "mmput E a ?s = ?s\<lparr>mms := (mms ?s)(a := None), held := held b\<rparr>"
      using mmput_eff [OF s(1) E s(2)] by (simp only: if_False)
    then show ?thesis using new unfolding c by (simp add: fun_upd_idem)
  qed
qed

lemma undo_mm:
  assumes "same_core t u" "undoable cur p u" "task_fs t \<noteq> NULL" "sighand_kept b (task_sighand t) H" "signal_kept b fl (task_signal t) G"
    "mm_kept b p (task_mm t) M D" "exit_mmap_ok (cp_mm E)"
  shows "bad_fork_cleanup_mm E fl cur p e (cps (objs b M D G H (io_contexts b)) p t
      (add_mset (SighandRef (task_sighand t)) (toks_fs p t))) = undone cur p e b u"
proof (cases "task_mm t = NULL")
  case True
  then show ?thesis using undo_signal [OF assms(1-5)] assms(6) by (simp add: bad_fork_cleanup_mm_def mm_kept_def)
next
  case False
  then show ?thesis using undo_signal [OF assms(1-5)] mmput_undo [OF assms(6) False assms(7)]
    by (simp add: bad_fork_cleanup_mm_def Let_def)
qed

definition toks_ns :: "addr \<Rightarrow> task_struct \<Rightarrow> fork_res multiset" where
  "toks_ns p t = add_mset (NsRef (task_nsproxy t)) (add_mset (SighandRef (task_sighand t)) (toks_fs p t))"

lemma toks_fs_upd [simp]:
  "toks_fs p (t\<lparr>task_nsproxy := x\<rparr>) = toks_fs p t" "toks_fs p (t\<lparr>task_io_context := x\<rparr>) = toks_fs p t"
  "toks_ns p (t\<lparr>task_io_context := x\<rparr>) = toks_ns p t"
  by (simp_all add: toks_ns_def toks_fs_def toks_files_def)

lemma undo_namespaces:
  assumes "same_core t u" "undoable cur p u" "task_fs t \<noteq> NULL" "sighand_kept b (task_sighand t) H" "signal_kept b fl (task_signal t) G"
    "mm_kept b p (task_mm t) M D" "exit_mmap_ok (cp_mm E)"
  shows "bad_fork_cleanup_namespaces E fl cur p e (cps (objs b M D G H (io_contexts b)) p t (toks_ns p t)) = undone cur p e b u"
  using undo_mm [of "t\<lparr>task_nsproxy := NULL\<rparr>" u cur p b H fl G M D E e] assms
  by (simp add: bad_fork_cleanup_namespaces_def toks_ns_def)

definition io_kept :: "fork_state \<Rightarrow> addr \<Rightarrow> (addr \<rightharpoonup> u16) \<Rightarrow> bool" where
  "io_kept b c I \<longleftrightarrow> (if c = NULL \<or> IoRef c \<in># res b then I = io_contexts b else I(c := None) = io_contexts b)"

definition toks_io :: "addr \<Rightarrow> task_struct \<Rightarrow> fork_res multiset" where
  "toks_io p t = (if task_io_context t = NULL then toks_ns p t else add_mset (IoRef (task_io_context t)) (toks_ns p t))"

text \<open>All that a half-made child holds, and that giving it up restores the base.\<close>

definition kept :: "cp_env \<Rightarrow> fork_state \<Rightarrow> u64 \<Rightarrow> addr \<Rightarrow> task_struct \<Rightarrow> (addr \<rightharpoonup> mm_struct) \<Rightarrow> mm_res multiset \<Rightarrow>
    (addr \<rightharpoonup> signal_struct) \<Rightarrow> (addr \<rightharpoonup> (nat \<Rightarrow> u64)) \<Rightarrow> (addr \<rightharpoonup> u16) \<Rightarrow> bool" where
  "kept E b fl p t M D G H I \<longleftrightarrow> task_fs t \<noteq> NULL \<and> sighand_kept b (task_sighand t) H \<and> signal_kept b fl (task_signal t) G \<and>
     mm_kept b p (task_mm t) M D \<and> io_kept b (task_io_context t) I \<and> exit_mmap_ok (cp_mm E)"

lemma undo_io:
  assumes "same_core t u" "undoable cur p u" "kept E b fl p t M D G H I"
  shows "bad_fork_cleanup_io E fl cur p e (cps (objs b M D G H I) p t (toks_io p t)) = undone cur p e b u"
proof -
  let ?t = "if task_io_context t = NULL then t else t\<lparr>task_io_context := NULL\<rparr>"
  have "(if task_io_context t = NULL then cps (objs b M D G H I) p t (toks_io p t)
      else exit_io_context p (cps (objs b M D G H I) p t (toks_io p t))) = cps (objs b M D G H (io_contexts b)) p ?t (toks_ns p ?t)"
    using assms(3) by (auto simp: kept_def io_kept_def toks_io_def exit_io_context_def Let_def toks_ns_def)
  moreover have "bad_fork_cleanup_namespaces E fl cur p e (cps (objs b M D G H (io_contexts b)) p ?t (toks_ns p ?t)) = undone cur p e b u"
    using assms by (intro undo_namespaces) (simp_all add: kept_def)
  ultimately show ?thesis by (simp add: bad_fork_cleanup_io_def)
qed

subsection \<open>The remaining labels\<close>

lemma undo_thread:
  assumes "same_core t u" "undoable cur p u" "kept E b fl p t M D G H I"
  shows "bad_fork_cleanup_thread E fl cur p e (cps (objs b M D G H I) p t (add_mset (ThreadArch p) (toks_io p t))) = undone cur p e b u"
  using undo_io [OF assms] by (simp add: bad_fork_cleanup_thread_def)

definition toks_pid :: "bool \<Rightarrow> addr \<Rightarrow> s32 \<Rightarrow> task_struct \<Rightarrow> fork_res multiset" where
  "toks_pid idle p nr t = (if idle then add_mset (ThreadArch p) (toks_io p t) else add_mset (PidNr nr) (add_mset (ThreadArch p) (toks_io p t)))"

lemma undo_pid:
  assumes "same_core t u" "undoable cur p u" "kept E b fl p t M D G H I"
  shows "bad_fork_free_pid E idle fl cur p nr e (cps (objs b M D G H I) p t (toks_pid idle p nr t)) = undone cur p e b u"
  using undo_thread [OF assms] by (simp add: bad_fork_free_pid_def toks_pid_def)

definition toks_pidfd :: "bool \<Rightarrow> u64 \<Rightarrow> addr \<Rightarrow> s32 \<Rightarrow> s32 \<Rightarrow> task_struct \<Rightarrow> fork_res multiset" where
  "toks_pidfd idle fl p nr fd t =
    (if has fl CLONE_PIDFD then add_mset (PidFile nr) (add_mset (PidRef nr) (add_mset (FdSlot fd) (toks_pid idle p nr t)))
     else toks_pid idle p nr t)"

lemma undo_pidfd:
  assumes "same_core t u" "undoable cur p u" "kept E b fl p t M D G H I"
  shows "bad_fork_put_pidfd E idle fl cur p nr fd e (cps (objs b M D G H I) p t (toks_pidfd idle fl p nr fd t)) = undone cur p e b u"
  using undo_pid [OF assms] by (simp add: bad_fork_put_pidfd_def toks_pidfd_def)

lemma undo_cancel:
  assumes "same_core t u" "undoable cur p u" "kept E b fl p t M D G H I"
  shows "bad_fork_cancel_cgroup E idle fl cur p nr fd e (cps (objs b M D G H I) p t
      (add_mset (SchedCore p) (add_mset (SiglockHeld (task_sighand (the_task b cur))) (add_mset TasklistHeld
        (add_mset (CgroupPin p) (toks_pidfd idle fl p nr fd t)))))) = undone cur p e b u"
  using undo_pidfd [OF assms] assms(2) by (simp add: bad_fork_cancel_cgroup_def undoable_def)

end
