(* ===== verification/Fork_Stages.thy ===== *)
theory Fork_Stages
  imports Fork_Undo
begin

text \<open>
  The stages of \<open>copy_process\<close>: each one either fails, and everything acquired so far is given back, or
  hands the child with what it holds on to the next stage.
\<close>

section \<open>The forward path\<close>

text \<open>
  What \<open>copy_process\<close> relies on: errors of other subsystems are non-zero, successful calls return
  objects, and what an allocator returns is not in use.
\<close>

definition cp_env_ok :: "cp_env \<Rightarrow> fork_state \<Rightarrow> bool" where
  "cp_env_ok E b \<longleftrightarrow>
     (case cp_dup_fd E of Inl e \<Rightarrow> e \<noteq> 0 | Inr f \<Rightarrow> f \<noteq> NULL) \<and>
     (case cp_namespaces E of Inl e \<Rightarrow> e \<noteq> 0 | Inr n \<Rightarrow> n \<noteq> NULL) \<and>
     (case cp_alloc_pid E of Inl e \<Rightarrow> e \<noteq> 0 | Inr n \<Rightarrow> n \<noteq> 0) \<and>
     (case cp_fd E of Inl e \<Rightarrow> e \<noteq> 0 | Inr n \<Rightarrow> True) \<and>
     SighandRef (cp_new_sighand E) \<notin># res b \<and> sighands b (cp_new_sighand E) = None \<and>
     IoRef (cp_new_io E) \<notin># res b \<and> io_contexts b (cp_new_io E) = None \<and>
     signals b (cp_new_signal E) = None \<and>
     exit_mmap_ok (cp_mm E) \<and> (\<forall>i. uffd_ok (e_vma (cp_mm E) i)) \<and> deny_write_ok (cp_mm E) (held b) \<and>
     (e_allocate_mm (cp_mm E) \<noteq> NULL \<longrightarrow> mms b (e_allocate_mm (cp_mm E)) = None)"

text \<open>The parent holds what it points to.\<close>

definition parent_ok :: "fork_state \<Rightarrow> addr \<Rightarrow> addr \<Rightarrow> task_struct \<Rightarrow> bool" where
  "parent_ok b cur p c \<longleftrightarrow> tasks b cur = Some c \<and> p \<noteq> cur \<and> group_leader c \<noteq> p \<and> real_parent c \<noteq> p \<and> task_fs c \<noteq> NULL \<and> SighandRef (task_sighand c) \<in># res b \<and>
     (task_io_context c = NULL \<or> IoRef (task_io_context c) \<in># res b) \<and> signals b (task_signal c) \<noteq> None \<and>
     (task_mm c = NULL \<or> (\<exists>m. mms b (task_mm c) = Some m \<and> 0 < mm_users m \<and> mm_owner m \<noteq> p \<and>
        (exe_file m \<noteq> NULL \<longrightarrow> DenyWrite (exe_file m) \<in># held b)))"

text \<open>What the child points to after each kind of copying or sharing.\<close>

definition child_files :: "cp_env \<Rightarrow> u64 \<Rightarrow> task_struct \<Rightarrow> addr" where
  "child_files E fl c = (if task_files c = NULL \<or> has fl CLONE_FILES then task_files c else projr (cp_dup_fd E))"

definition child_fs :: "cp_env \<Rightarrow> u64 \<Rightarrow> task_struct \<Rightarrow> addr" where
  "child_fs E fl c = (if has fl CLONE_FS then task_fs c else cp_new_fs E)"

definition child_sighand :: "cp_env \<Rightarrow> u64 \<Rightarrow> task_struct \<Rightarrow> addr" where
  "child_sighand E fl c = (if has fl CLONE_SIGHAND then task_sighand c else cp_new_sighand E)"

definition child_signal :: "cp_env \<Rightarrow> u64 \<Rightarrow> task_struct \<Rightarrow> addr" where
  "child_signal E fl c = (if has fl CLONE_THREAD then task_signal c else cp_new_signal E)"

definition child_mm :: "cp_env \<Rightarrow> u64 \<Rightarrow> task_struct \<Rightarrow> addr" where
  "child_mm E fl c = (if task_mm c = NULL then NULL else if has fl CLONE_VM then task_mm c else e_allocate_mm (cp_mm E))"

lemma task_same:
  "task_files t = x \<Longrightarrow> t\<lparr>task_files := x\<rparr> = t" "task_fs t = x \<Longrightarrow> t\<lparr>task_fs := x\<rparr> = t"
  "task_sighand t = x \<Longrightarrow> t\<lparr>task_sighand := x\<rparr> = t" "task_signal t = x \<Longrightarrow> t\<lparr>task_signal := x\<rparr> = t"
  "task_io_context t = x \<Longrightarrow> t\<lparr>task_io_context := x\<rparr> = t"
  by auto

lemma copy_files_eq:
  assumes "the_task B cur = c" "p \<noteq> cur" "task_files t = task_files c" "case cp_dup_fd E of Inl e \<Rightarrow> e \<noteq> 0 | Inr f \<Rightarrow> f \<noteq> NULL"
  shows "(\<exists>e. e \<noteq> 0 \<and> copy_files E fl cur p (cps B p t T) = (e, cps B p t T)) \<or>
    copy_files E fl cur p (cps B p t T) = (0, cps B p (t\<lparr>task_files := child_files E fl c\<rparr>)
      (if child_files E fl c = NULL then T else add_mset (FilesRef (child_files E fl c)) T))"
  using assms by (cases "cp_dup_fd E") (auto simp: copy_files_def child_files_def Let_def task_same)

lemma copy_fs_eq:
  assumes "the_task B cur = c" "p \<noteq> cur" "task_fs t = task_fs c" "task_fs c \<noteq> NULL"
  shows "(\<exists>e t'. e \<noteq> 0 \<and> t' \<in> {t, t\<lparr>task_fs := NULL\<rparr>} \<and> copy_fs E fl cur p (cps B p t T) = (e, cps B p t' T)) \<or>
    child_fs E fl c \<noteq> NULL \<and>
    copy_fs E fl cur p (cps B p t T) = (0, cps B p (t\<lparr>task_fs := child_fs E fl c\<rparr>) (add_mset (FsRef (child_fs E fl c)) T))"
proof (cases "has fl CLONE_FS")
  case True
  show ?thesis
  proof (cases "fs_in_exec B (task_fs c)")
    case True
    then have "copy_fs E fl cur p (cps B p t T) = (- EAGAIN, cps B p t T)"
      using \<open>has fl CLONE_FS\<close> assms by (simp add: copy_fs_def)
    then show ?thesis by fastforce
  next
    case False
    then show ?thesis using True assms by (simp add: copy_fs_def child_fs_def task_same)
  qed
next
  case False
  show ?thesis
  proof (cases "cp_new_fs E = NULL")
    case True
    then have "copy_fs E fl cur p (cps B p t T) = (- ENOMEM, cps B p (t\<lparr>task_fs := NULL\<rparr>) T)"
      using False assms by (simp add: copy_fs_def)
    then show ?thesis by fastforce
  next
    case new: False
    then show ?thesis using False assms by (simp add: copy_fs_def child_fs_def)
  qed
qed

lemma copy_sighand_eq:
  assumes "the_task b cur = c" "p \<noteq> cur" "task_sighand t = task_sighand c" "SighandRef (task_sighand c) \<in># res b"
    "SighandRef (cp_new_sighand E) \<notin># res b" "sighands b (cp_new_sighand E) = None"
  shows "(\<exists>e. e \<noteq> 0 \<and> copy_sighand E fl cur p (cps (objs b M D G (sighands b) I) p t T) =
      (e, cps (objs b M D G (sighands b) I) p (t\<lparr>task_sighand := NULL\<rparr>) T)) \<or>
    (\<exists>H. sighand_kept b (child_sighand E fl c) H \<and> H (child_sighand E fl c) = (if has fl CLONE_SIGHAND then sighands b (task_sighand c)
        else map_option (\<lambda>act n. if has fl CLONE_CLEAR_SIGHAND \<and> act n \<noteq> 1 then 0 else act n)
          (Some (case sighands b (task_sighand c) of Some a \<Rightarrow> a | None \<Rightarrow> (\<lambda>_. 0)))) \<and>
      copy_sighand E fl cur p (cps (objs b M D G (sighands b) I) p t T) =
      (0, cps (objs b M D G H I) p (t\<lparr>task_sighand := child_sighand E fl c\<rparr>) (add_mset (SighandRef (child_sighand E fl c)) T)))"
proof (cases "has fl CLONE_SIGHAND")
  case True
  then show ?thesis using assms by (auto simp: copy_sighand_def child_sighand_def sighand_kept_def task_same)
next
  case nos: False
  show ?thesis
  proof (cases "cp_new_sighand E = NULL")
    case True
    then show ?thesis using nos assms by (simp add: copy_sighand_def Let_def)
  next
    case False
    let ?act = "case sighands b (task_sighand c) of Some a \<Rightarrow> a | None \<Rightarrow> (\<lambda>_. 0)"
    let ?act' = "if has fl CLONE_CLEAR_SIGHAND then (\<lambda>n. if ?act n = 1 then 1 else 0) else ?act"
    let ?H = "(sighands b)(cp_new_sighand E \<mapsto> ?act')"
    have "copy_sighand E fl cur p (cps (objs b M D G (sighands b) I) p t T) =
      (0, cps (objs b M D G ?H I) p (t\<lparr>task_sighand := cp_new_sighand E\<rparr>) (add_mset (SighandRef (cp_new_sighand E)) T))"
      using nos False assms by (simp add: copy_sighand_def Let_def)
    moreover have "sighand_kept b (cp_new_sighand E) ?H" using assms(5,6) by (simp add: sighand_kept_def fun_upd_idem)
    moreover have "?act' = (\<lambda>n. if has fl CLONE_CLEAR_SIGHAND \<and> ?act n \<noteq> 1 then 0 else ?act n)" by auto
    ultimately show ?thesis using nos by (intro disjI2 exI [of _ ?H]) (simp add: child_sighand_def)
  qed
qed

definition new_signal :: "addr \<Rightarrow> signal_struct \<Rightarrow> signal_struct" where
  "new_signal p old = signal_zero\<lparr>sig_nr_threads := 1, sig_live := 1, sigcnt := 1, thread_head := [p],
     sig_rlim := sig_rlim old, oom_score_adj := oom_score_adj old, oom_score_adj_min := oom_score_adj_min old\<rparr>"

lemma copy_signal_eq:
  assumes "p \<noteq> cur" "the_task b cur = c" "task_signal t = task_signal c" "signals b (cp_new_signal E) = None"
  shows "(\<exists>e. e \<noteq> 0 \<and> copy_signal E fl cur p (cps (objs b M D (signals b) H I) p t T) =
      (e, cps (objs b M D (signals b) H I) p (t\<lparr>task_signal := NULL\<rparr>) T)) \<or>
    (\<exists>G. signal_kept b fl (child_signal E fl c) G \<and>
      (has fl CLONE_THREAD \<or> child_signal E fl c \<noteq> NULL \<and>
         G = (signals b)(child_signal E fl c \<mapsto> new_signal p (the_signal b (task_signal c)))) \<and>
      copy_signal E fl cur p (cps (objs b M D (signals b) H I) p t T) =
      (0, cps (objs b M D G H I) p (t\<lparr>task_signal := child_signal E fl c\<rparr>) T))"
proof (cases "has fl CLONE_THREAD \<or> cp_new_signal E = NULL")
  case True
  then show ?thesis using assms by (auto simp: copy_signal_def child_signal_def signal_kept_def Let_def task_same)
next
  case False
  let ?G = "(signals b)(cp_new_signal E \<mapsto> new_signal p (the_signal b (task_signal c)))"
  have "copy_signal E fl cur p (cps (objs b M D (signals b) H I) p t T) = (0, cps (objs b M D ?G H I) p (t\<lparr>task_signal := cp_new_signal E\<rparr>) T)"
    using False assms by (simp add: copy_signal_def Let_def the_signal_def new_signal_def)
  moreover have "signal_kept b fl (cp_new_signal E) ?G" using False assms(4) by (simp add: signal_kept_def fun_upd_idem)
  ultimately show ?thesis using False
    by (intro disjI2 exI [of _ ?G]) (simp add: child_signal_def)
qed

lemma copy_mm_eq:
  assumes pre: "parent_ok b cur p c" and E: "cp_env_ok E b"
  shows "(\<exists>e. e \<noteq> 0 \<and> copy_mm E fl cur p (cps (objs b (mms b) (held b) G H I) p t T) =
      (e, cps (objs b (mms b) (held b) G H I) p (t\<lparr>task_mm := NULL, active_mm := NULL\<rparr>) T)) \<or>
    (\<exists>M D. mm_kept b p (child_mm E fl c) M D \<and>
      copy_mm E fl cur p (cps (objs b (mms b) (held b) G H I) p t T) =
      (0, cps (objs b M D G H I) p (t\<lparr>task_mm := child_mm E fl c, active_mm := child_mm E fl c\<rparr>) T))"
proof -
  have c: "the_task b cur = c" "p \<noteq> cur" using pre by (simp_all add: parent_ok_def the_task_def)
  let ?s = "cps (objs b (mms b) (held b) G H I) p (t\<lparr>task_mm := NULL, active_mm := NULL\<rparr>) T"
  show ?thesis
  proof (cases "task_mm c = NULL")
    case True
    then show ?thesis using c by (simp add: copy_mm_def child_mm_def mm_kept_def)
  next
    case False
    then obtain m where m: "mms b (task_mm c) = Some m" "0 < mm_users m" "mm_owner m \<noteq> p"
        "exe_file m \<noteq> NULL \<longrightarrow> DenyWrite (exe_file m) \<in># held b"
      using pre by (auto simp: parent_ok_def)
    show ?thesis
    proof (cases "has fl CLONE_VM")
      case True
      then have "copy_mm E fl cur p (cps (objs b (mms b) (held b) G H I) p t T) =
          (0, cps (objs b ((mms b)(task_mm c \<mapsto> m\<lparr>mm_users := mm_users m + 1\<rparr>)) (held b) G H I) p
            (t\<lparr>task_mm := task_mm c, active_mm := task_mm c\<rparr>) T)"
        using False c m by (simp add: copy_mm_def mmget_def upd_mm_def Let_def)
      moreover have "mm_kept b p (task_mm c) ((mms b)(task_mm c \<mapsto> m\<lparr>mm_users := mm_users m + 1\<rparr>)) (held b)"
        using False m by (auto simp: mm_kept_def)
      ultimately show ?thesis using True False unfolding child_mm_def by (simp only: if_False if_True) blast
    next
      case novm: False
      let ?a = "e_allocate_mm (cp_mm E)"
      have run: "copy_mm E fl cur p (cps (objs b (mms b) (held b) G H I) p t T) =
          (case dup_mm (cp_mm E) p (task_mm c) ?s of (a, s) \<Rightarrow>
             if a = NULL then (- ENOMEM, s) else (0, upd_task p (\<lambda>t. t\<lparr>task_mm := a, active_mm := a\<rparr>) s))"
        using False novm c by (simp add: copy_mm_def Let_def)
      have pre': "mms ?s (task_mm c) = Some m" "?a \<noteq> NULL \<Longrightarrow> mms ?s ?a = None" "exit_mmap_ok (cp_mm E)"
          "\<And>i. uffd_ok (e_vma (cp_mm E) i)" "exe_file m \<noteq> NULL \<Longrightarrow> e_deny_write (cp_mm E) (exe_file m) = 0"
        using m E by (auto simp: cp_env_ok_def deny_write_ok_def)
      from dup_mm_eff [OF pre', of p]
      consider "dup_mm (cp_mm E) p (task_mm c) ?s = (NULL, ?s)"
        | a x where "dup_mm (cp_mm E) p (task_mm c) ?s = (a, ?s\<lparr>mms := (mms ?s)(a \<mapsto> x), held := held ?s + mm_owned a x\<rparr>)"
            "a = ?a" "a \<noteq> NULL" "dup_mm_result (cp_mm E) p m x" by blast
      then show ?thesis
      proof cases
        case 1
        then show ?thesis using run by simp
      next
        case 2
        have "mm_kept b p ?a ((mms b)(?a \<mapsto> x)) (held b + mm_owned ?a x)"
          using 2 pre'(2) by (auto simp: mm_kept_def dup_mm_result_def)
        moreover have "copy_mm E fl cur p (cps (objs b (mms b) (held b) G H I) p t T) =
            (0, cps (objs b ((mms b)(?a \<mapsto> x)) (held b + mm_owned ?a x) G H I) p (t\<lparr>task_mm := ?a, active_mm := ?a\<rparr>) T)"
          using run 2(1-3) by simp
        ultimately show ?thesis using False novm unfolding child_mm_def by (simp only: if_False) blast
      qed
    qed
  qed
qed

lemma copy_io_eq:
  assumes "the_task b cur = c" "p \<noteq> cur" "task_io_context t = NULL" "task_io_context c = NULL \<or> IoRef (task_io_context c) \<in># res b"
    "IoRef (cp_new_io E) \<notin># res b" "io_contexts b (cp_new_io E) = None"
  shows "(\<exists>e. e \<noteq> 0 \<and> copy_io E fl cur p (cps (objs b M D G H (io_contexts b)) p t T) = (e, cps (objs b M D G H (io_contexts b)) p t T)) \<or>
    (\<exists>I x. io_kept b x I \<and> (has fl CLONE_IO \<longrightarrow> x = task_io_context c) \<and> (x = NULL \<or> x = task_io_context c \<and> has fl CLONE_IO \<or> x = cp_new_io E) \<and>
      copy_io E fl cur p (cps (objs b M D G H (io_contexts b)) p t T) =
      (0, cps (objs b M D G H I) p (t\<lparr>task_io_context := x\<rparr>) (if x = NULL then T else add_mset (IoRef x) T)))"
proof -
  let ?ioc = "task_io_context c" let ?s = "cps (objs b M D G H (io_contexts b)) p t T"
  let ?prio = "case io_contexts b ?ioc of Some x \<Rightarrow> x | None \<Rightarrow> 0"
  have t: "t\<lparr>task_io_context := NULL\<rparr> = t" using assms(3) by (rule task_same)
  consider "?ioc = NULL \<or> \<not> has fl CLONE_IO \<and> \<not> ioprio_valid ?prio" | "?ioc \<noteq> NULL" "has fl CLONE_IO"
    | "?ioc \<noteq> NULL" "\<not> has fl CLONE_IO" "ioprio_valid ?prio" by blast
  then show ?thesis
  proof cases
    case 1
    then have "copy_io E fl cur p ?s = (0, cps (objs b M D G H (io_contexts b)) p (t\<lparr>task_io_context := NULL\<rparr>) T)"
      using assms t by (cases "?ioc = NULL") (simp_all add: copy_io_def Let_def task_same)
    moreover have "has fl CLONE_IO \<longrightarrow> NULL = ?ioc" using 1 by auto
    ultimately show ?thesis by (intro disjI2 exI [of _ "io_contexts b"] exI [of _ NULL]) (simp add: io_kept_def)
  next
    case 2
    then have "copy_io E fl cur p ?s = (0, cps (objs b M D G H (io_contexts b)) p (t\<lparr>task_io_context := ?ioc\<rparr>) (add_mset (IoRef ?ioc) T))"
      using assms by (simp add: copy_io_def Let_def)
    then show ?thesis using 2 assms(4) by (intro disjI2 exI [of _ "io_contexts b"] exI [of _ ?ioc]) (auto simp: io_kept_def)
  next
    case 3
    show ?thesis
    proof (cases "cp_new_io E = NULL")
      case True
      then show ?thesis using 3 assms by (simp add: copy_io_def Let_def)
    next
      case False
      let ?I = "(io_contexts b)(cp_new_io E \<mapsto> ?prio)"
      have "copy_io E fl cur p ?s = (0, cps (objs b M D G H ?I) p (t\<lparr>task_io_context := cp_new_io E\<rparr>) (add_mset (IoRef (cp_new_io E)) T))"
        using 3 False assms by (simp add: copy_io_def Let_def)
      moreover have "io_kept b (cp_new_io E) ?I" using assms(5,6) False by (simp add: io_kept_def fun_upd_idem)
      ultimately show ?thesis using 3 False by (intro disjI2 exI [of _ ?I] exI [of _ "cp_new_io E"]) auto
    qed
  qed
qed

definition share_task :: "cp_env \<Rightarrow> u64 \<Rightarrow> task_struct \<Rightarrow> addr \<Rightarrow> addr \<Rightarrow> task_struct \<Rightarrow> task_struct" where
  "share_task E fl c n x t = t\<lparr>task_files := child_files E fl c, task_fs := child_fs E fl c, task_sighand := child_sighand E fl c,
     task_signal := child_signal E fl c, task_mm := child_mm E fl c, active_mm := child_mm E fl c, task_nsproxy := n, task_io_context := x\<rparr>"

definition inherits :: "task_struct \<Rightarrow> task_struct \<Rightarrow> bool" where
  "inherits c t \<longleftrightarrow> task_files t = task_files c \<and> task_fs t = task_fs c \<and> task_sighand t = task_sighand c \<and>
     task_signal t = task_signal c \<and> task_io_context t = NULL"

text \<open>What is known of the tables when they have been copied or shared.\<close>

definition sighand_copied :: "cp_env \<Rightarrow> fork_state \<Rightarrow> u64 \<Rightarrow> task_struct \<Rightarrow> (addr \<rightharpoonup> (nat \<Rightarrow> u64)) \<Rightarrow> bool" where
  "sighand_copied E b fl c H \<longleftrightarrow>
     H (child_sighand E fl c) = (if has fl CLONE_SIGHAND then sighands b (task_sighand c)
        else map_option (\<lambda>act n. if has fl CLONE_CLEAR_SIGHAND \<and> act n \<noteq> 1 then 0 else act n)
          (Some (case sighands b (task_sighand c) of Some a \<Rightarrow> a | None \<Rightarrow> (\<lambda>_. 0))))"

definition signal_copied :: "cp_env \<Rightarrow> fork_state \<Rightarrow> u64 \<Rightarrow> addr \<Rightarrow> task_struct \<Rightarrow> (addr \<rightharpoonup> signal_struct) \<Rightarrow> bool" where
  "signal_copied E b fl p c G \<longleftrightarrow> has fl CLONE_THREAD \<or> child_signal E fl c \<noteq> NULL \<and>
     G = (signals b)(child_signal E fl c \<mapsto> new_signal p (the_signal b (task_signal c)))"

definition io_shared :: "cp_env \<Rightarrow> u64 \<Rightarrow> task_struct \<Rightarrow> addr \<Rightarrow> bool" where
  "io_shared E fl c x \<longleftrightarrow> (has fl CLONE_IO \<longrightarrow> x = task_io_context c) \<and>
     (x = NULL \<or> x = task_io_context c \<and> has fl CLONE_IO \<or> x = cp_new_io E)"

lemma toks_files_child: "toks_files p (t\<lparr>task_files := f\<rparr>) = (if f = NULL then toks_semundo p else add_mset (FilesRef f) (toks_semundo p))"
  by (simp add: toks_files_def)

lemma toks_mm_upd [simp]:
  "toks_fs p (t\<lparr>task_mm := x\<rparr>) = toks_fs p t" "toks_fs p (t\<lparr>active_mm := x\<rparr>) = toks_fs p t"
  by (simp_all add: toks_fs_def toks_files_def)

text \<open>Each step fails and everything is undone, or hands on to the next one.\<close>

lemma cp_files_cases:
  assumes "parent_ok b cur p c" "cp_env_ok E b" "same_core t u" "undoable cur p u" "task_files t = task_files c"
  shows "(\<exists>e. e \<noteq> 0 \<and> cp_files E idle args cur p (cps b p t (toks_semundo p)) = undone cur p e b u) \<or>
    cp_files E idle args cur p (cps b p t (toks_semundo p)) =
      (let t = t\<lparr>task_files := child_files E (arg_flags args) c\<rparr> in cp_fs E idle args cur p (cps b p t (toks_files p t)))"
proof -
  have "the_task b cur = c" "p \<noteq> cur" using assms(1) by (simp_all add: parent_ok_def the_task_def)
  moreover have "case cp_dup_fd E of Inl e \<Rightarrow> e \<noteq> 0 | Inr f \<Rightarrow> f \<noteq> NULL" using assms(2) by (simp add: cp_env_ok_def)
  ultimately show ?thesis
    using copy_files_eq [of b cur c p t E "arg_flags args" "toks_semundo p"] assms(5) undone_same [OF assms(3,4)]
    by (auto simp: cp_files_def toks_files_child undo_semundo Let_def)
qed

lemma cp_fs_cases:
  assumes "parent_ok b cur p c" "same_core t u" "undoable cur p u" "task_fs t = task_fs c"
  shows "(\<exists>e. e \<noteq> 0 \<and> cp_fs E idle args cur p (cps b p t (toks_files p t)) = undone cur p e b u) \<or>
    child_fs E (arg_flags args) c \<noteq> NULL \<and> cp_fs E idle args cur p (cps b p t (toks_files p t)) =
      (let t = t\<lparr>task_fs := child_fs E (arg_flags args) c\<rparr> in cp_sighand E idle args cur p (cps b p t (toks_fs p t)))"
proof -
  have c: "the_task b cur = c" "p \<noteq> cur" "task_fs c \<noteq> NULL" using assms(1) by (simp_all add: parent_ok_def the_task_def)
  from copy_fs_eq [OF c(1,2) assms(4) c(3), of E "arg_flags args" "toks_files p t"]
  consider e t' where "e \<noteq> 0" "t' \<in> {t, t\<lparr>task_fs := NULL\<rparr>}"
      "copy_fs E (arg_flags args) cur p (cps b p t (toks_files p t)) = (e, cps b p t' (toks_files p t))"
    | "child_fs E (arg_flags args) c \<noteq> NULL" "copy_fs E (arg_flags args) cur p (cps b p t (toks_files p t)) =
        (0, cps b p (t\<lparr>task_fs := child_fs E (arg_flags args) c\<rparr>) (toks_fs p (t\<lparr>task_fs := child_fs E (arg_flags args) c\<rparr>)))"
    by (auto simp: toks_fs_def)
  then show ?thesis
  proof cases
    case 1
    have "toks_files p t = toks_files p t'" "same_core t' u" using 1(2) assms(2) by auto
    then show ?thesis using 1 undo_files [of t' u cur p e b] assms(3) by (auto simp: cp_fs_def)
  next
    case 2
    then show ?thesis by (simp add: cp_fs_def Let_def)
  qed
qed

lemma cp_sighand_cases:
  assumes "parent_ok b cur p c" "cp_env_ok E b" "same_core t u" "undoable cur p u" "task_sighand t = task_sighand c" "task_fs t \<noteq> NULL"
  shows "(\<exists>e. e \<noteq> 0 \<and> cp_sighand E idle args cur p (cps b p t (toks_fs p t)) = undone cur p e b u) \<or>
    (\<exists>H. sighand_kept b (child_sighand E (arg_flags args) c) H \<and> sighand_copied E b (arg_flags args) c H \<and>
      cp_sighand E idle args cur p (cps b p t (toks_fs p t)) =
      (let t = t\<lparr>task_sighand := child_sighand E (arg_flags args) c\<rparr>
       in cp_signal E idle args cur p (cps (objs b (mms b) (held b) (signals b) H (io_contexts b)) p t
            (add_mset (SighandRef (task_sighand t)) (toks_fs p t)))))"
proof -
  let ?S = "cps (objs b (mms b) (held b) (signals b) (sighands b) (io_contexts b)) p t (toks_fs p t)"
  have c: "the_task b cur = c" "p \<noteq> cur" "SighandRef (task_sighand c) \<in># res b" using assms(1) by (simp_all add: parent_ok_def the_task_def)
  have E: "SighandRef (cp_new_sighand E) \<notin># res b" "sighands b (cp_new_sighand E) = None" using assms(2) by (simp_all add: cp_env_ok_def)
  have u: "bad_fork_cleanup_fs cur p e (cps b p (t\<lparr>task_sighand := NULL\<rparr>) (toks_fs p t)) = undone cur p e b u" for e
    using undo_fs [of "t\<lparr>task_sighand := NULL\<rparr>" u cur p e b] assms(3,4,6) by simp
  have S: "?S = cps b p t (toks_fs p t)" by (simp only: objs_self)
  from copy_sighand_eq [OF c(1,2) assms(5) c(3) E, of "arg_flags args" "mms b" "held b" "signals b" "io_contexts b" "toks_fs p t"]
  show ?thesis
    unfolding S using u by (auto simp: cp_sighand_def objs_self sighand_copied_def Let_def)
qed

lemma cp_signal_cases:
  assumes "parent_ok b cur p c" "cp_env_ok E b" "same_core t u" "undoable cur p u" "task_signal t = task_signal c" "task_fs t \<noteq> NULL"
    "sighand_kept b (task_sighand t) H"
  shows "(\<exists>e. e \<noteq> 0 \<and> cp_signal E idle args cur p (cps (objs b (mms b) (held b) (signals b) H (io_contexts b)) p t
        (add_mset (SighandRef (task_sighand t)) (toks_fs p t))) = undone cur p e b u) \<or>
    (\<exists>G. signal_kept b (arg_flags args) (child_signal E (arg_flags args) c) G \<and> signal_copied E b (arg_flags args) p c G \<and>
      cp_signal E idle args cur p (cps (objs b (mms b) (held b) (signals b) H (io_contexts b)) p t
        (add_mset (SighandRef (task_sighand t)) (toks_fs p t))) =
      (let t = t\<lparr>task_signal := child_signal E (arg_flags args) c\<rparr>
       in cp_memory E idle args cur p (cps (objs b (mms b) (held b) G H (io_contexts b)) p t
            (add_mset (SighandRef (task_sighand t)) (toks_fs p t)))))"
proof -
  have c: "the_task b cur = c" "p \<noteq> cur" using assms(1) by (simp_all add: parent_ok_def the_task_def)
  have E: "signals b (cp_new_signal E) = None" using assms(2) by (simp add: cp_env_ok_def)
  have u: "bad_fork_cleanup_sighand cur p e (cps (objs b (mms b) (held b) (signals b) H (io_contexts b)) p (t\<lparr>task_signal := NULL\<rparr>)
      (add_mset (SighandRef (task_sighand t)) (toks_fs p t))) = undone cur p e b u" for e
    using undo_sighand [of "t\<lparr>task_signal := NULL\<rparr>" u cur p b H e] assms(3,4,6,7) by simp
  from copy_signal_eq [OF c(2,1) assms(5) E, of "arg_flags args" "mms b" "held b" H "io_contexts b" "add_mset (SighandRef (task_sighand t)) (toks_fs p t)"]
  show ?thesis using u by (auto simp: cp_signal_def signal_copied_def Let_def)
qed

lemma cp_memory_cases:
  assumes "parent_ok b cur p c" "cp_env_ok E b" "same_core t u" "undoable cur p u" "task_fs t \<noteq> NULL"
    "sighand_kept b (task_sighand t) H" "signal_kept b (arg_flags args) (task_signal t) G"
  shows "(\<exists>e. e \<noteq> 0 \<and> cp_memory E idle args cur p (cps (objs b (mms b) (held b) G H (io_contexts b)) p t
        (add_mset (SighandRef (task_sighand t)) (toks_fs p t))) = undone cur p e b u) \<or>
    (\<exists>M D. mm_kept b p (child_mm E (arg_flags args) c) M D \<and>
      cp_memory E idle args cur p (cps (objs b (mms b) (held b) G H (io_contexts b)) p t
        (add_mset (SighandRef (task_sighand t)) (toks_fs p t))) =
      (let t = t\<lparr>task_mm := child_mm E (arg_flags args) c, active_mm := child_mm E (arg_flags args) c\<rparr>
       in cp_ns E idle args cur p (cps (objs b M D G H (io_contexts b)) p t (add_mset (SighandRef (task_sighand t)) (toks_fs p t)))))"
proof -
  have u: "bad_fork_cleanup_signal (arg_flags args) cur p e (cps (objs b (mms b) (held b) G H (io_contexts b)) p
      (t\<lparr>task_mm := NULL, active_mm := NULL\<rparr>) (add_mset (SighandRef (task_sighand t)) (toks_fs p t))) = undone cur p e b u" for e
    using undo_signal [of "t\<lparr>task_mm := NULL, active_mm := NULL\<rparr>" u cur p b H "arg_flags args" G e] assms(3-7) by simp
  from copy_mm_eq [OF assms(1,2), of "arg_flags args" G H "io_contexts b" t "add_mset (SighandRef (task_sighand t)) (toks_fs p t)"]
  show ?thesis
  proof (elim disjE exE conjE)
    fix e assume "e \<noteq> 0" "copy_mm E (arg_flags args) cur p (cps (objs b (mms b) (held b) G H (io_contexts b)) p t
        (add_mset (SighandRef (task_sighand t)) (toks_fs p t))) = (e, cps (objs b (mms b) (held b) G H (io_contexts b)) p
        (t\<lparr>task_mm := NULL, active_mm := NULL\<rparr>) (add_mset (SighandRef (task_sighand t)) (toks_fs p t)))"
    then show ?thesis using u by (intro disjI1 exI [of _ e]) (simp add: cp_memory_def)
  next
    fix M D assume "mm_kept b p (child_mm E (arg_flags args) c) M D" "copy_mm E (arg_flags args) cur p (cps (objs b (mms b) (held b) G H (io_contexts b)) p t
        (add_mset (SighandRef (task_sighand t)) (toks_fs p t))) = (0, cps (objs b M D G H (io_contexts b)) p
        (t\<lparr>task_mm := child_mm E (arg_flags args) c, active_mm := child_mm E (arg_flags args) c\<rparr>) (add_mset (SighandRef (task_sighand t)) (toks_fs p t)))"
    then show ?thesis by (intro disjI2 exI [of _ M] exI [of _ D]) (simp add: cp_memory_def Let_def)
  qed
qed

lemma cp_ns_cases:
  assumes "cp_env_ok E b" "same_core t u" "undoable cur p u" "task_fs t \<noteq> NULL"
    "sighand_kept b (task_sighand t) H" "signal_kept b (arg_flags args) (task_signal t) G" "mm_kept b p (task_mm t) M D"
  shows "(\<exists>e. e \<noteq> 0 \<and> cp_ns E idle args cur p (cps (objs b M D G H (io_contexts b)) p t
        (add_mset (SighandRef (task_sighand t)) (toks_fs p t))) = undone cur p e b u) \<or>
    (\<exists>n. cp_namespaces E = Inr n \<and> cp_ns E idle args cur p (cps (objs b M D G H (io_contexts b)) p t
        (add_mset (SighandRef (task_sighand t)) (toks_fs p t))) =
      (let t = t\<lparr>task_nsproxy := n\<rparr> in cp_io E idle args cur p (cps (objs b M D G H (io_contexts b)) p t (toks_ns p t))))"
proof (cases "cp_namespaces E")
  case (Inl e)
  then have "e \<noteq> 0" "exit_mmap_ok (cp_mm E)" using assms(1) by (simp_all add: cp_env_ok_def)
  then show ?thesis using Inl undo_mm [OF assms(2-7), of E e] by (intro disjI1 exI [of _ e]) (simp add: cp_ns_def)
next
  case (Inr n)
  then show ?thesis by (simp add: cp_ns_def toks_ns_def Let_def)
qed

lemma cp_io_cases:
  assumes "parent_ok b cur p c" "cp_env_ok E b" "same_core t u" "undoable cur p u" "task_fs t \<noteq> NULL"
    "sighand_kept b (task_sighand t) H" "signal_kept b (arg_flags args) (task_signal t) G" "mm_kept b p (task_mm t) M D"
    "task_io_context t = NULL"
  shows "(\<exists>e. e \<noteq> 0 \<and> cp_io E idle args cur p (cps (objs b M D G H (io_contexts b)) p t (toks_ns p t)) = undone cur p e b u) \<or>
    (\<exists>I x. io_kept b x I \<and> io_shared E (arg_flags args) c x \<and> cp_io E idle args cur p (cps (objs b M D G H (io_contexts b)) p t (toks_ns p t)) =
      (let t = t\<lparr>task_io_context := x\<rparr> in cp_pid E idle args cur p (cps (objs b M D G H I) p t (add_mset (ThreadArch p) (toks_io p t)))))"
proof -
  have c: "the_task b cur = c" "p \<noteq> cur" "task_io_context c = NULL \<or> IoRef (task_io_context c) \<in># res b"
    using assms(1) by (simp_all add: parent_ok_def the_task_def)
  have E: "IoRef (cp_new_io E) \<notin># res b" "io_contexts b (cp_new_io E) = None" "exit_mmap_ok (cp_mm E)"
    using assms(2) by (simp_all add: cp_env_ok_def)
  from copy_io_eq [OF c(1,2) assms(9) c(3) E(1,2), of "arg_flags args" M D G H "toks_ns p t"]
  consider e where "e \<noteq> 0" "copy_io E (arg_flags args) cur p (cps (objs b M D G H (io_contexts b)) p t (toks_ns p t)) =
      (e, cps (objs b M D G H (io_contexts b)) p t (toks_ns p t))"
    | I x where "io_kept b x I" "io_shared E (arg_flags args) c x"
      "copy_io E (arg_flags args) cur p (cps (objs b M D G H (io_contexts b)) p t (toks_ns p t)) =
       (0, cps (objs b M D G H I) p (t\<lparr>task_io_context := x\<rparr>) (toks_io p (t\<lparr>task_io_context := x\<rparr>)))"
    unfolding io_shared_def by (auto simp: toks_io_def)
  then show ?thesis
  proof cases
    case 1
    then show ?thesis using undo_namespaces [OF assms(3-8) E(3), of e] by (intro disjI1 exI [of _ e]) (simp add: cp_io_def)
  next
    case 2
    let ?t = "t\<lparr>task_io_context := x\<rparr>"
    have k: "kept E b (arg_flags args) p ?t M D G H I" using 2(1) assms(5-8) E(3) by (simp add: kept_def)
    show ?thesis
    proof (cases "cp_thread E = 0")
      case True
      then show ?thesis using 2 by (intro disjI2 exI [of _ I] exI [of _ x]) (simp add: cp_io_def Let_def)
    next
      case False
      then show ?thesis using 2(3) undo_io [OF _ assms(4) k, of "cp_thread E"] assms(3)
        by (intro disjI1 exI [of _ "cp_thread E"]) (simp add: cp_io_def)
    qed
  qed
qed

text \<open>Together: everything up to the allocation of the process identifier.\<close>

lemma cp_share_cases:
  assumes pre: "parent_ok b cur p c" "cp_env_ok E b" and u: "same_core t u" "undoable cur p u" and i: "inherits c t"
  shows "(\<exists>e. e \<noteq> 0 \<and> cp_files E idle args cur p (cps b p t (toks_semundo p)) = undone cur p e b u) \<or>
    (\<exists>n x M D G H I. let t' = share_task E (arg_flags args) c n x t in
       kept E b (arg_flags args) p t' M D G H I \<and> same_core t' u \<and> cp_namespaces E = Inr n \<and> io_shared E (arg_flags args) c x \<and>
       sighand_copied E b (arg_flags args) c H \<and> signal_copied E b (arg_flags args) p c G \<and>
       cp_files E idle args cur p (cps b p t (toks_semundo p)) =
         cp_pid E idle args cur p (cps (objs b M D G H I) p t' (add_mset (ThreadArch p) (toks_io p t'))))"
proof -
  let ?fl = "arg_flags args" and ?run = "cp_files E idle args cur p (cps b p t (toks_semundo p))"
  define t1 where "t1 = t\<lparr>task_files := child_files E ?fl c\<rparr>"
  define t2 where "t2 = t1\<lparr>task_fs := child_fs E ?fl c\<rparr>"
  define t3 where "t3 = t2\<lparr>task_sighand := child_sighand E ?fl c\<rparr>"
  define t4 where "t4 = t3\<lparr>task_signal := child_signal E ?fl c\<rparr>"
  define t5 where "t5 = t4\<lparr>task_mm := child_mm E ?fl c, active_mm := child_mm E ?fl c\<rparr>"
  have e: "task_files t = task_files c" "task_fs t1 = task_fs c" "task_sighand t2 = task_sighand c" "task_signal t3 = task_signal c"
    "task_io_context t5 = NULL" "task_fs t2 = child_fs E ?fl c" "task_fs t3 = child_fs E ?fl c" "task_fs t4 = child_fs E ?fl c"
    "task_fs t5 = child_fs E ?fl c" "task_sighand t3 = child_sighand E ?fl c" "task_sighand t4 = child_sighand E ?fl c"
    "task_sighand t5 = child_sighand E ?fl c" "task_signal t4 = child_signal E ?fl c" "task_signal t5 = child_signal E ?fl c"
    "task_mm t5 = child_mm E ?fl c"
    using i by (simp_all add: inherits_def t1_def t2_def t3_def t4_def t5_def)
  have k: "same_core t1 u" "same_core t2 u" "same_core t3 u" "same_core t4 u" "same_core t5 u"
    using u(1) by (simp_all add: t1_def t2_def t3_def t4_def t5_def)
  have ok: "exit_mmap_ok (cp_mm E)" using pre(2) by (simp add: cp_env_ok_def)
  show ?thesis
  proof (cases "\<exists>e. e \<noteq> 0 \<and> ?run = undone cur p e b u")
    case nf: False
    have r1: "?run = cp_fs E idle args cur p (cps b p t1 (toks_files p t1))"
      using cp_files_cases [OF pre u e(1), of idle args] nf unfolding Let_def t1_def by blast
    have fs: "child_fs E ?fl c \<noteq> NULL" and r2: "?run = cp_sighand E idle args cur p (cps b p t2 (toks_fs p t2))"
      using cp_fs_cases [OF pre(1) k(1) u(2) e(2), of E idle args] nf unfolding r1 Let_def t2_def by blast+
    obtain H where H: "sighand_kept b (child_sighand E ?fl c) H" "sighand_copied E b ?fl c H"
      and r3: "?run = cp_signal E idle args cur p (cps (objs b (mms b) (held b) (signals b) H (io_contexts b)) p t3
            (add_mset (SighandRef (task_sighand t3)) (toks_fs p t3)))"
      using cp_sighand_cases [OF pre k(2) u(2) e(3), of idle args] fs nf unfolding r2 Let_def t3_def e(6) by blast
    obtain G where G: "signal_kept b ?fl (child_signal E ?fl c) G" "signal_copied E b ?fl p c G"
      and r4: "?run = cp_memory E idle args cur p (cps (objs b (mms b) (held b) G H (io_contexts b)) p t4
            (add_mset (SighandRef (task_sighand t4)) (toks_fs p t4)))"
      using cp_signal_cases [OF pre k(3) u(2) e(4), of H idle args] fs H(1) nf unfolding r3 Let_def t4_def e(7) e(10) by blast
    obtain M D where M: "mm_kept b p (child_mm E ?fl c) M D"
      and r5: "?run = cp_ns E idle args cur p (cps (objs b M D G H (io_contexts b)) p t5 (add_mset (SighandRef (task_sighand t5)) (toks_fs p t5)))"
      using cp_memory_cases [OF pre k(4) u(2), of H args G idle] fs H(1) G(1) nf unfolding r4 Let_def t5_def e(8) e(11) e(13) by blast
    define t6 where "t6 n = t5\<lparr>task_nsproxy := n\<rparr>" for n
    obtain n where n: "cp_namespaces E = Inr n" and r6: "?run = cp_io E idle args cur p (cps (objs b M D G H (io_contexts b)) p (t6 n) (toks_ns p (t6 n)))"
      using cp_ns_cases [OF pre(2) k(5) u(2), of H args G M D idle] fs H(1) G(1) M nf unfolding r5 Let_def t6_def e(9,12,14,15) by blast
    have e6: "task_fs (t6 n) \<noteq> NULL" "sighand_kept b (task_sighand (t6 n)) H" "signal_kept b ?fl (task_signal (t6 n)) G"
      "mm_kept b p (task_mm (t6 n)) M D" "task_io_context (t6 n) = NULL" "same_core (t6 n) u"
      using e fs H(1) G(1) M k(5) by (simp_all add: t6_def)
    obtain I x where I: "io_kept b x I" "io_shared E ?fl c x" and r7: "?run = cp_pid E idle args cur p
        (cps (objs b M D G H I) p ((t6 n)\<lparr>task_io_context := x\<rparr>) (add_mset (ThreadArch p) (toks_io p ((t6 n)\<lparr>task_io_context := x\<rparr>))))"
      using cp_io_cases [OF pre e6(6) u(2) e6(1-5), of idle] nf unfolding r6 Let_def by blast
    have t7: "(t6 n)\<lparr>task_io_context := x\<rparr> = share_task E ?fl c n x t"
      by (simp add: share_task_def t6_def t5_def t4_def t3_def t2_def t1_def)
    have "kept E b ?fl p (share_task E ?fl c n x t) M D G H I"
      using e6 I(1) ok unfolding t7 [symmetric] by (simp add: kept_def)
    moreover have "same_core (share_task E ?fl c n x t) u" using e6(6) unfolding t7 [symmetric] by simp
    ultimately show ?thesis unfolding Let_def
      using n I(2) H(2) G(2) r7 [unfolded t7] by blast
  qed blast
qed

section \<open>Identifiers, key-value store and parent\<close>

lemma kept_kvheap [simp]: "kept E (b\<lparr>kvheap := K\<rparr>) fl p t M D G H I = kept E b fl p t M D G H I"
  by (simp add: kept_def sighand_kept_def signal_kept_def mm_kept_def io_kept_def)

lemma copy_process_kv_fields:
  obtains a l where "fst (copy_process_kv th km1 jb km2 jl c t h) = t\<lparr>kv_store := a, kv_locks := l\<rparr>"
proof -
  have "\<exists>a l. fst (copy_process_kv th km1 jb km2 jl c t h) = t\<lparr>kv_store := a, kv_locks := l\<rparr>"
  proof (cases "th \<or> (\<exists>st. km1 h = Some st)")
    case False
    then have "fst (copy_process_kv th km1 jb km2 jl c t h) = t\<lparr>kv_store := NULL, kv_locks := kv_locks t\<rparr>"
      by (simp add: copy_process_kv_def init_task_kv_store_def)
    then show ?thesis by blast
  next
    case True
    then show ?thesis
      by (cases th) (auto simp: copy_process_kv_def init_task_kv_store_def Let_def split: option.splits)
  qed
  then show thesis using that by blast
qed

definition ids_task :: "u64 \<Rightarrow> task_struct \<Rightarrow> addr \<Rightarrow> s32 \<Rightarrow> task_struct \<Rightarrow> task_struct" where
  "ids_task fl c p nr t = t\<lparr>sas_ss_sp := (if fl AND (CLONE_VM OR CLONE_VFORK) = CLONE_VM then 0 else sas_ss_sp t), pid := nr,
     group_leader := (if has fl CLONE_THREAD then group_leader c else p), tgid := (if has fl CLONE_THREAD then tgid c else nr),
     pdeath_signal := 0\<rparr>"

definition parent_task :: "fork_state \<Rightarrow> kernel_clone_args \<Rightarrow> addr \<Rightarrow> task_struct \<Rightarrow> task_struct \<Rightarrow> task_struct" where
  "parent_task b args cur c t =
    (let fl = arg_flags args; shared = has fl (CLONE_PARENT OR CLONE_THREAD)
     in t\<lparr>real_parent := (if shared then real_parent c else cur),
          parent_exec_id := (if shared then parent_exec_id c else self_exec_id c),
          exit_signal := (if shared then if has fl CLONE_THREAD then - 1 else exit_signal (the_task b (group_leader c))
                          else ucast (arg_exit_signal args))\<rparr>)"

lemma toks_io_upd [simp]:
  "toks_io p (t\<lparr>real_parent := x1\<rparr>) = toks_io p t" "toks_io p (t\<lparr>parent_exec_id := x2\<rparr>) = toks_io p t"
  "toks_io p (t\<lparr>exit_signal := x3\<rparr>) = toks_io p t" "toks_io p (t\<lparr>pid := x4\<rparr>) = toks_io p t"
  "toks_io p (t\<lparr>group_leader := x1\<rparr>) = toks_io p t" "toks_io p (t\<lparr>tgid := x4\<rparr>) = toks_io p t"
  "toks_io p (t\<lparr>pdeath_signal := x4\<rparr>) = toks_io p t" "toks_io p (t\<lparr>sas_ss_sp := x2\<rparr>) = toks_io p t"
  "toks_io p (t\<lparr>kv_store := x1\<rparr>) = toks_io p t" "toks_io p (t\<lparr>kv_locks := x1\<rparr>) = toks_io p t"
  by (simp_all add: toks_io_def toks_ns_def toks_fs_def toks_files_def)

text \<open>Fields that the labels and tokens do not look at.\<close>

definition alike :: "task_struct \<Rightarrow> task_struct \<Rightarrow> bool" where
  "alike t t' \<longleftrightarrow> task_files t = task_files t' \<and> task_fs t = task_fs t' \<and> task_sighand t = task_sighand t' \<and>
     task_signal t = task_signal t' \<and> task_mm t = task_mm t' \<and> task_nsproxy t = task_nsproxy t' \<and>
     task_io_context t = task_io_context t' \<and> same_core t t'"

lemma alike_kept: "alike t t' \<Longrightarrow> kept E b fl p t M D G H I = kept E b fl p t' M D G H I"
  by (simp add: alike_def kept_def)

lemma alike_toks: "alike t t' \<Longrightarrow> toks_io p t = toks_io p t'"
  by (simp add: alike_def toks_io_def toks_ns_def toks_fs_def toks_files_def)

lemma alike_toks_pidfd: "alike t t' \<Longrightarrow> toks_pidfd idle fl p nr fd t = toks_pidfd idle fl p nr fd t'"
  by (simp add: toks_pidfd_def toks_pid_def alike_toks)

lemma alike_core: "alike t t' \<Longrightarrow> same_core t' u \<Longrightarrow> same_core t u"
  by (simp add: alike_def same_core_def)

lemma alike_tasks: "alike (parent_task b args cur c t) t" "alike (ids_task fl c p nr (t\<lparr>kv_store := a, kv_locks := l\<rparr>)) t"
  "alike t t' \<Longrightarrow> alike t' t'' \<Longrightarrow> alike t t''"
  by (simp_all add: alike_def parent_task_def ids_task_def same_core_def Let_def)

definition link_toks :: "bool \<Rightarrow> u64 \<Rightarrow> addr \<Rightarrow> s32 \<Rightarrow> s32 \<Rightarrow> task_struct \<Rightarrow> task_struct \<Rightarrow> fork_res multiset" where
  "link_toks idle fl p nr fd c t =
     add_mset (SiglockHeld (task_sighand c)) (add_mset (SchedCore p) (add_mset TasklistHeld (add_mset (CgroupPin p) (toks_pidfd idle fl p nr fd t))))"

lemma cp_parent_cases:
  assumes "parent_ok b cur p c" "same_core t u" "undoable cur p u" "kept E b (arg_flags args) p t M D G H I"
  shows "(\<exists>e. e \<noteq> 0 \<and> cp_parent E idle args cur p nr fd (cps (objs b M D G H I) p t (toks_pidfd idle (arg_flags args) p nr fd t)) =
      undone cur p e b u) \<or>
    cp_parent E idle args cur p nr fd (cps (objs b M D G H I) p t (toks_pidfd idle (arg_flags args) p nr fd t)) =
      cp_link E idle args cur p nr fd (cps (objs b M D G H I) p (parent_task b args cur c t) (link_toks idle (arg_flags args) p nr fd c t))"
proof -
  let ?fl = "arg_flags args" and ?t = "parent_task b args cur c t"
  let ?s = "cps (objs b M D G H I) p ?t (link_toks idle ?fl p nr fd c t)"
  have c: "the_task b cur = c" "p \<noteq> cur" "p \<noteq> group_leader c" using assms(1) by (auto simp: parent_ok_def the_task_def)
  have a: "alike ?t t" by (rule alike_tasks)
  have run: "cp_parent E idle args cur p nr fd (cps (objs b M D G H I) p t (toks_pidfd idle ?fl p nr fd t)) =
      (if cp_cgroup_can_fork E \<noteq> 0 then bad_fork_put_pidfd E idle ?fl cur p nr fd (cp_cgroup_can_fork E)
          (cps (objs b M D G H I) p t (toks_pidfd idle ?fl p nr fd t))
       else if cp_ns_dying E then bad_fork_cancel_cgroup E idle ?fl cur p nr fd (- ENOMEM) ?s
       else if cp_fatal_signal E then bad_fork_cancel_cgroup E idle ?fl cur p nr fd (- EINTR) ?s
       else cp_link E idle args cur p nr fd ?s)"
    using c by (simp add: cp_parent_def Let_def parent_task_def link_toks_def)
  have "?s = cps (objs b M D G H I) p ?t (add_mset (SchedCore p) (add_mset (SiglockHeld (task_sighand (the_task b cur)))
      (add_mset TasklistHeld (add_mset (CgroupPin p) (toks_pidfd idle ?fl p nr fd ?t)))))"
    using alike_toks_pidfd [OF a] c(1) by (simp add: link_toks_def add_mset_commute)
  then have u2: "bad_fork_cancel_cgroup E idle ?fl cur p nr fd e ?s = undone cur p e b u" for e
    using undo_cancel [of ?t u cur p E b ?fl M D G H I] alike_core [OF a assms(2)] assms(3) alike_kept [OF a] assms(4) by simp
  have n: "(- ENOMEM :: int) \<noteq> 0" "(- EINTR :: int) \<noteq> 0" by simp_all
  show ?thesis unfolding run u2 undo_pidfd [OF assms(2-4)] using n by (simp only: split: if_split) blast
qed

lemma cp_ids_cases:
  assumes "parent_ok b cur p c" "same_core t u" "undoable cur p u" "kept E b (arg_flags args) p t M D G H I" "thread_group b p = []"
    and kv: "copy_process_kv (has (arg_flags args) CLONE_THREAD) (cp_kmalloc1 E) (cp_kv_junk1 E) (cp_kmalloc2 E) (cp_kv_junk2 E)
       c t (kvheap b) = (t', K)"
  shows "(\<exists>e. e \<noteq> 0 \<and> cp_ids E idle args cur p nr fd (cps (objs b M D G H I) p t (toks_pidfd idle (arg_flags args) p nr fd t)) =
      undone cur p e (b\<lparr>kvheap := K\<rparr>) u) \<or>
    cp_ids E idle args cur p nr fd (cps (objs b M D G H I) p t (toks_pidfd idle (arg_flags args) p nr fd t)) =
      cp_link E idle args cur p nr fd (cps (objs (b\<lparr>kvheap := K\<rparr>) M D G H I) p
        (parent_task b args cur c (ids_task (arg_flags args) c p nr t')) (link_toks idle (arg_flags args) p nr fd c t))"
proof -
  let ?fl = "arg_flags args" and ?b = "b\<lparr>kvheap := K\<rparr>" and ?t = "ids_task (arg_flags args) c p nr t'"
  have c: "the_task b cur = c" "p \<noteq> cur" using assms(1) by (auto simp: parent_ok_def the_task_def)
  obtain x l where x: "t' = t\<lparr>kv_store := x, kv_locks := l\<rparr>"
    using kv copy_process_kv_fields [of "has (arg_flags args) CLONE_THREAD" "cp_kmalloc1 E" "cp_kv_junk1 E" "cp_kmalloc2 E" "cp_kv_junk2 E" c t "kvheap b"]
    by (metis fst_conv)
  have a: "alike ?t t" unfolding x by (rule alike_tasks)
  have pb: "parent_ok ?b cur p c" using assms(1) by (simp add: parent_ok_def)
  have run: "cp_ids E idle args cur p nr fd (cps (objs b M D G H I) p t (toks_pidfd idle ?fl p nr fd t)) =
      cp_parent E idle args cur p nr fd (cps (objs ?b M D G H I) p ?t (toks_pidfd idle ?fl p nr fd t))"
    using c kv assms(5) by (simp add: cp_ids_def Let_def ids_task_def fun_upd_idem)
  have k: "kept E ?b ?fl p ?t M D G H I" using alike_kept [OF a] assms(4) by simp
  have e: "parent_task ?b args cur c ?t = parent_task b args cur c ?t" "link_toks idle ?fl p nr fd c ?t = link_toks idle ?fl p nr fd c t"
    using alike_toks_pidfd [OF a] by (simp_all add: parent_task_def the_task_def link_toks_def Let_def)
  show ?thesis
    using cp_parent_cases [OF pb alike_core [OF a assms(2)] assms(3) k, of idle nr fd]
    unfolding run alike_toks_pidfd [OF a] e .
qed

lemma cp_pid_cases:
  assumes "parent_ok b cur p c" "cp_env_ok E b" "same_core t u" "undoable cur p u" "kept E b (arg_flags args) p t M D G H I"
    "thread_group b p = []"
    and kv: "copy_process_kv (has (arg_flags args) CLONE_THREAD) (cp_kmalloc1 E) (cp_kv_junk1 E) (cp_kmalloc2 E) (cp_kv_junk2 E)
       c t (kvheap b) = (t', K)"
  shows "(\<exists>e B. e \<noteq> 0 \<and> B \<in> {b, b\<lparr>kvheap := K\<rparr>} \<and>
      cp_pid E idle args cur p (cps (objs b M D G H I) p t (add_mset (ThreadArch p) (toks_io p t))) = undone cur p e B u) \<or>
    (\<exists>nr fd. (if idle then nr = 0 else cp_alloc_pid E = Inr nr \<and> nr \<noteq> 0) \<and>
      cp_pid E idle args cur p (cps (objs b M D G H I) p t (add_mset (ThreadArch p) (toks_io p t))) =
      cp_link E idle args cur p nr fd (cps (objs (b\<lparr>kvheap := K\<rparr>) M D G H I) p
        (parent_task b args cur c (ids_task (arg_flags args) c p nr t')) (link_toks idle (arg_flags args) p nr fd c t)))"
proof -
  let ?fl = "arg_flags args" and ?s0 = "cps (objs b M D G H I) p t (add_mset (ThreadArch p) (toks_io p t))"
  have E: "case cp_alloc_pid E of Inl e \<Rightarrow> e \<noteq> 0 | Inr n \<Rightarrow> n \<noteq> 0" "case cp_fd E of Inl e \<Rightarrow> e \<noteq> 0 | Inr n \<Rightarrow> True"
    using assms(2) by (simp_all add: cp_env_ok_def)
  note ids = cp_ids_cases [OF assms(1,3-5,6) kv, of idle]
  show ?thesis
  proof (cases "if idle then Inr 0 else cp_alloc_pid E")
    case (Inl e)
    then have "cp_pid E idle args cur p ?s0 = undone cur p e b u" "e \<noteq> 0"
      using undo_thread [OF assms(3-5)] E(1) by (simp_all add: cp_pid_def split: if_splits)
    then show ?thesis by blast
  next
    case (Inr nr)
    let ?s1 = "cps (objs b M D G H I) p t (toks_pid idle p nr t)"
    have nr: "if idle then nr = 0 else cp_alloc_pid E = Inr nr \<and> nr \<noteq> 0" using Inr E(1) by (auto split: if_splits)
    have s1: "(if idle then ?s0 else res_get (PidNr nr) ?s0) = ?s1" by (simp add: toks_pid_def)
    show ?thesis
    proof (cases "has ?fl CLONE_PIDFD")
      case False
      then have "cp_pid E idle args cur p ?s0 = cp_ids E idle args cur p nr (- 1) (cps (objs b M D G H I) p t (toks_pidfd idle ?fl p nr (- 1) t))"
        using Inr s1 by (simp add: cp_pid_def toks_pidfd_def)
      then show ?thesis using ids [of nr "- 1"] nr by (simp only:) blast
    next
      case pf: True
      show ?thesis
      proof (cases "cp_fd E")
        case (Inl e)
        then have "cp_pid E idle args cur p ?s0 = undone cur p e b u" "e \<noteq> 0"
          using undo_pid [OF assms(3-5)] E(2) pf Inr s1 by (simp_all add: cp_pid_def)
        then show ?thesis by blast
      next
        case fd: (Inr fd)
        have run: "cp_pid E idle args cur p ?s0 =
          (if cp_pidfile E \<noteq> 0 then undone cur p (cp_pidfile E) b u
           else if cp_put_user E \<noteq> 0 then undone cur p (cp_put_user E) b u
           else cp_ids E idle args cur p nr fd (cps (objs b M D G H I) p t (toks_pidfd idle ?fl p nr fd t)))"
          using undo_pid [OF assms(3-5)] undo_pidfd [OF assms(3-5), of idle nr fd "cp_put_user E"] pf Inr s1 fd
          by (simp add: cp_pid_def toks_pidfd_def add_mset_commute)
        consider "cp_pidfile E \<noteq> 0" | "cp_pidfile E = 0" "cp_put_user E \<noteq> 0" | "cp_pidfile E = 0" "cp_put_user E = 0" by blast
        then show ?thesis
        proof cases
          case 3
          then have "cp_pid E idle args cur p ?s0 = cp_ids E idle args cur p nr fd (cps (objs b M D G H I) p t (toks_pidfd idle ?fl p nr fd t))"
            unfolding run by simp
          then show ?thesis using ids [of nr fd] nr by (simp only:) blast
        qed (use run in \<open>simp_all, blast+\<close>)
      qed
    qed
  qed
qed

section \<open>The first stages\<close>

lemma cp_sched_cases:
  assumes u: "same_core t u" "undoable cur p u"
  shows "(\<exists>e. e \<noteq> 0 \<and> cp_sched E idle args cur p (cps b p t {#Mempolicy p, Delayacct p, Nproc p, Creds p#}) = undone cur p e b u) \<or>
    cp_sched E idle args cur p (cps b p t {#Mempolicy p, Delayacct p, Nproc p, Creds p#}) =
      cp_files E idle args cur p (cps b p t (toks_semundo p))"
  unfolding cp_sched_def Let_def cps_simps toks_semundo_def undo_policy undo_perf undo_audit undo_security undone_same [OF u]
  by (simp only: split: if_split) blast

definition init_task :: "task_struct \<Rightarrow> task_struct" where
  "init_task t = t\<lparr>task_flags := (task_flags t AND NOT (PF_SUPERPRIV OR PF_WQ_WORKER OR PF_IDLE OR PF_NO_SETAFFINITY)) OR PF_FORKNOEXEC,
     vfork_done := NULL, task_io_context := NULL\<rparr>"

lemma undoable_init: "undoable cur p t \<Longrightarrow> undoable cur p (init_task t)"
proof -
  have "((f :: u32) AND NOT (PF_SUPERPRIV OR PF_WQ_WORKER OR PF_IDLE OR PF_NO_SETAFFINITY) OR PF_FORKNOEXEC) AND PF_KTHREAD = f AND PF_KTHREAD" for f
    by (simp add: bit.conj_disj_distrib2 and.assoc)
  then show "undoable cur p t \<Longrightarrow> undoable cur p (init_task t)" by (simp add: undoable_def init_task_def)
qed

lemma cp_init_cases:
  assumes "undoable cur p t" "task_children b p = []"
  shows "(\<exists>e u. e \<noteq> 0 \<and> undoable cur p u \<and> task_stack u = task_stack t \<and>
      cp_init E idle args cur p (cps b p t {#Nproc p, Creds p#}) = undone cur p e b u) \<or>
    cp_init E idle args cur p (cps b p t {#Nproc p, Creds p#}) = cp_files E idle args cur p (cps b p (init_task t) (toks_semundo p))"
proof -
  let ?t = "init_task t"
  have u: "undoable cur p ?t" "task_stack ?t = task_stack t" "same_core ?t ?t"
    using undoable_init [OF assms(1)] by (simp_all add: init_task_def)
  have run: "cp_init E idle args cur p (cps b p t {#Nproc p, Creds p#}) =
    (if cp_mempolicy E \<noteq> 0 then undone cur p (cp_mempolicy E) b ?t
     else cp_sched E idle args cur p (cps b p ?t {#Mempolicy p, Delayacct p, Nproc p, Creds p#}))"
    using assms(2) by (simp add: cp_init_def init_task_def undo_threadgroup fun_upd_idem)
  show ?thesis
  proof (cases "cp_mempolicy E = 0")
    case True
    then have r: "cp_init E idle args cur p (cps b p t {#Nproc p, Creds p#}) =
        cp_sched E idle args cur p (cps b p ?t {#Mempolicy p, Delayacct p, Nproc p, Creds p#})" unfolding run by simp
    show ?thesis unfolding r using cp_sched_cases [OF u(3,1), of E idle args b] u(1,2) by blast
  next
    case False
    then have "cp_init E idle args cur p (cps b p t {#Nproc p, Creds p#}) = undone cur p (cp_mempolicy E) b ?t" unfolding run by simp
    then show ?thesis using False u(1,2) by blast
  qed
qed

definition creds_task :: "kernel_clone_args \<Rightarrow> task_struct \<Rightarrow> task_struct" where
  "creds_task args t =
    (let fl = arg_flags args;
         t = (if arg_io_thread args then t\<lparr>task_flags := task_flags t OR PF_IO_WORKER, task_blocked := NOT (push_bit 8 1 OR push_bit 18 1)\<rparr> else t)
     in t\<lparr>set_child_tid := (if has fl CLONE_CHILD_SETTID then arg_child_tid args else 0),
          clear_child_tid := (if has fl CLONE_CHILD_CLEARTID then arg_child_tid args else 0),
          max_socket_allowed := 0, priority_level := 0, socket_count := 0\<rparr>)"

text \<open>No kernel thread is created with \<open>CLONE_CHILD_SETTID\<close>, whose pointer would be taken for kthread data.\<close>

definition kthread_ok :: "kernel_clone_args \<Rightarrow> task_struct \<Rightarrow> bool" where
  "kthread_ok args c \<longleftrightarrow> task_flags c AND PF_KTHREAD = 0 \<or> \<not> has (arg_flags args) CLONE_CHILD_SETTID"

lemma undoable_creds:
  assumes "p \<noteq> cur" "stack_refcount t = 1" "kthread_ok args t"
  shows "undoable cur p (creds_task args t)"
proof -
  have "((f :: u32) OR PF_IO_WORKER) AND PF_KTHREAD = f AND PF_KTHREAD" for f by (simp add: bit.conj_disj_distrib2)
  then show ?thesis using assms by (auto simp: undoable_def creds_task_def kthread_ok_def Let_def)
qed

definition clear_exceeded :: "task_struct \<Rightarrow> task_struct" where
  "clear_exceeded c = c\<lparr>task_flags := task_flags c AND NOT PF_NPROC_EXCEEDED\<rparr>"

lemma cps_upd_other: "p \<noteq> q \<Longrightarrow> upd_task q f (cps b p t T) = cps (upd_task q f b) p t T"
  by (cases b) (auto simp: cps_def upd_task_def fun_upd_twist)

lemma upd_task_sel [simp]:
  "nr_threads (upd_task q f b) = nr_threads b" "max_threads (upd_task q f b) = max_threads b" "task_children (upd_task q f b) = task_children b"
  "thread_group (upd_task q f b) = thread_group b" "res (upd_task q f b) = res b" "sighands (upd_task q f b) = sighands b"
  "io_contexts (upd_task q f b) = io_contexts b" "signals (upd_task q f b) = signals b" "mms (upd_task q f b) = mms b"
  "held (upd_task q f b) = held b" "kvheap (upd_task q f b) = kvheap b"
  by (simp_all add: upd_task_def)

lemma cp_creds_cases:
  assumes "p \<noteq> cur" "stack_refcount t = 1" "kthread_ok args t" "task_children b p = []"
  shows "(\<exists>e B u. e \<noteq> 0 \<and> B \<in> {b, upd_task cur clear_exceeded b} \<and> undoable cur p u \<and> task_stack u = task_stack t \<and>
      cp_creds_stage E idle args cur p (cps b p t {#}) = undone cur p e B u) \<or>
    cp_creds_stage E idle args cur p (cps b p t {#}) =
      cp_files E idle args cur p (cps (upd_task cur clear_exceeded b) p (init_task (creds_task args t)) (toks_semundo p))"
proof -
  let ?t = "creds_task args t" and ?b = "upd_task cur clear_exceeded b"
  have u: "undoable cur p ?t" "task_stack ?t = task_stack t"
    using undoable_creds [OF assms(1-3)] by (simp_all add: creds_task_def Let_def)
  have run: "cp_creds_stage E idle args cur p (cps b p t {#}) =
    (if cp_creds E < 0 then undone cur p (cp_creds E) b ?t
     else if cp_overlimit E \<and> \<not> cp_privileged E then undone cur p (- EAGAIN) b ?t
     else if nr_threads b \<ge> max_threads b then undone cur p (- EAGAIN) ?b ?t
     else cp_init E idle args cur p (cps ?b p ?t {#Nproc p, Creds p#}))"
    using assms(1) by (simp add: cp_creds_stage_def creds_task_def Let_def undo_count cps_upd_other undone_def clear_exceeded_def [abs_def])
  have n: "cp_creds E < 0 \<Longrightarrow> cp_creds E \<noteq> 0" "(- EAGAIN :: int) \<noteq> 0" by simp_all
  have i: "task_children ?b p = []" using assms(4) by simp
  show ?thesis
  proof (cases "cp_creds E < 0 \<or> cp_overlimit E \<and> \<not> cp_privileged E \<or> nr_threads b \<ge> max_threads b")
    case True
    then show ?thesis unfolding run using n u by (simp only: split: if_split) blast
  next
    case False
    then have r: "cp_creds_stage E idle args cur p (cps b p t {#}) = cp_init E idle args cur p (cps ?b p ?t {#Nproc p, Creds p#})"
      unfolding run by auto
    show ?thesis unfolding r using cp_init_cases [OF u(1) i, of E idle args] u(2) by fastforce
  qed
qed

end
