(* ===== verification/Fork_Correct.thy ===== *)
theory Fork_Correct
  imports Fork_Stages
begin

text \<open>
  The whole of \<open>copy_process\<close>: from the duplication of the task to the linked child, what a failed call
  leaves, what a successful one creates, when it succeeds, and what a fatal signal leaves behind.
\<close>

section \<open>Duplicating the task\<close>

text \<open>The stack part of a state replaced.\<close>

definition restack :: "fork_state \<Rightarrow> addr list \<Rightarrow> addr set \<Rightarrow> addr set \<Rightarrow> fork_state" where
  "restack s cs V Sd = s\<lparr>cached_stacks := cs, vstacks := V, stack_dirty := Sd\<rparr>"

definition stacks_same :: "fork_state \<Rightarrow> addr list \<Rightarrow> addr set \<Rightarrow> bool" where
  "stacks_same s cs V \<longleftrightarrow> V - cached_set cs = stacks_used s \<and> stack_inv (s\<lparr>cached_stacks := cs, vstacks := V\<rparr>)"

lemma alloc_eff:
  obtains a cs V Sd where "\<And>T. alloc_thread_stack_node v (s\<lparr>tasks := T\<rparr>) = (a, (restack s cs V Sd)\<lparr>tasks := T\<rparr>)"
    "alloc_thread_stack_node v s = (a, restack s cs V Sd)"
proof (cases "take_cached (cached_stacks s)")
  case None
  show ?thesis
  proof (cases "v = NULL")
    case True
    show ?thesis
      by (rule that [of NULL "cached_stacks s" "vstacks s" "stack_dirty s"])
        (use None True in \<open>simp_all add: alloc_thread_stack_node_def restack_def\<close>)
  next
    case False
    show ?thesis
      by (rule that [of v "cached_stacks s" "insert v (vstacks s)" "stack_dirty s - {v}"])
        (use None False in \<open>cases s; simp add: alloc_thread_stack_node_def restack_def\<close>)+
  qed
next
  case (Some q)
  show ?thesis
    by (rule that [of "fst q" "snd q" "vstacks s" "stack_dirty s - {fst q}"])
      (use Some in \<open>cases s; cases q; simp add: alloc_thread_stack_node_def restack_def\<close>)+
qed

definition free_slot :: "addr \<Rightarrow> addr list \<Rightarrow> addr set \<Rightarrow> addr list \<times> addr set" where
  "free_slot a cs V = (case fill_cached a cs of Some cs' \<Rightarrow> (cs', V) | None \<Rightarrow> (cs, V - {a}))"

lemma free_eff: "free_thread_stack a s = s\<lparr>kmem_pages := kmem_pages s - {a} \<times> {..<STACK_PAGES},
    cached_stacks := fst (free_slot a (cached_stacks s) (vstacks s)), vstacks := snd (free_slot a (cached_stacks s) (vstacks s))\<rparr>" for s :: fork_state
  by (cases s) (simp add: free_thread_stack_def free_slot_def Let_def split: option.splits)

text \<open>Allocating a stack and giving it back only moves stacks between the allocator and the cache.\<close>

lemma alloc_free_same:
  assumes "stack_inv s" "v \<notin> vstacks s" "alloc_thread_stack_node v s = (a, restack s cs V Sd)" "a \<noteq> NULL"
  shows "stacks_same s (fst (free_slot a cs V)) (snd (free_slot a cs V)) \<and> a \<notin> stacks_used s"
proof -
  let ?s = "restack s cs V Sd"
  have "used": "stacks_used (free_thread_stack a ?s) = stacks_used s" "stack_inv (free_thread_stack a ?s)"
    using vmap_stack.alloc_free [OF assms] by simp_all
  have "stacks_used (free_thread_stack a ?s) = snd (free_slot a cs V) - cached_set (fst (free_slot a cs V))"
    by (simp add: free_eff stacks_used_def restack_def)
  moreover have "stack_inv (free_thread_stack a ?s) =
      stack_inv (s\<lparr>cached_stacks := fst (free_slot a cs V), vstacks := snd (free_slot a cs V)\<rparr>)"
    by (simp add: free_eff stack_inv_def restack_def)
  ultimately show ?thesis using "used" vmap_stack.alloc_ok [OF assms] by (simp add: stacks_same_def)
qed

definition dup_task :: "task_struct \<Rightarrow> addr \<Rightarrow> task_struct" where
  "dup_task c st = c\<lparr>task_stack := st, stack_refcount := 1, seccomp_filter := NULL, rcu_users := 2, task_usage := 1\<rparr>"

text \<open>The base of the rest: the state with the new stack, its charges and its accounting.\<close>

definition dup_base :: "fork_state \<Rightarrow> addr \<Rightarrow> addr \<Rightarrow> nat set \<Rightarrow> addr list \<Rightarrow> addr set \<Rightarrow> addr set \<Rightarrow> fork_state" where
  "dup_base s p st P cs V Sd = (restack s cs V Sd)\<lparr>kmem_pages := kmem_pages s \<union> {st} \<times> P,
     kernel_stack_kb := kernel_stack_kb s + 16, res := add_mset (Scs p) (res s)\<rparr>"

lemma kmem_undo:
  assumes "kmem_pages s \<subseteq> stacks_used s \<times> {..<STACK_PAGES}" "a \<notin> stacks_used s" "P \<subseteq> {..<STACK_PAGES}"
  shows "kmem_pages s \<union> {a} \<times> P - {a} \<times> {..<STACK_PAGES} = kmem_pages s"
  using assms by blast

lemma dup_task_struct_eff:
  assumes pre: "tasks s cur = Some c" "cp_task E \<noteq> NULL \<Longrightarrow> tasks s (cp_task E) = None" "stack_inv s" "cp_vmalloc E \<notin> vstacks s"
    "kmem_pages s \<subseteq> stacks_used s \<times> {..<STACK_PAGES}"
  shows "(\<exists>cs V Sd. dup_task_struct E cur s = (NULL, restack s cs V Sd) \<and> stacks_same s cs V) \<or>
    (\<exists>st P cs V Sd. cp_task E \<noteq> NULL \<and> dup_task_struct E cur s = (cp_task E, cps (dup_base s (cp_task E) st P cs V Sd) (cp_task E) (dup_task c st) {#}) \<and>
       st \<notin> stacks_used s \<and> P \<subseteq> {..<STACK_PAGES} \<and> stacks_same s (fst (free_slot st cs V)) (snd (free_slot st cs V)))"
proof (cases "cp_task E = NULL")
  case True
  have "restack s (cached_stacks s) (vstacks s) (stack_dirty s) = s" by (simp add: restack_def)
  moreover have "stacks_same s (cached_stacks s) (vstacks s)" using pre(3) by (simp add: stacks_same_def stacks_used_def)
  moreover have "dup_task_struct E cur s = (NULL, s)" using True by (simp add: dup_task_struct_def)
  ultimately have "dup_task_struct E cur s = (NULL, restack s (cached_stacks s) (vstacks s) (stack_dirty s)) \<and>
      stacks_same s (cached_stacks s) (vstacks s)" by simp
  then show ?thesis by blast
next
  case False
  define p where "p = cp_task E"
  have p: "p \<noteq> NULL" "tasks s p = None" "p \<noteq> cur" using False pre(1,2) by (auto simp: p_def)
  obtain st cs V Sd where al: "\<And>T. alloc_thread_stack_node (cp_vmalloc E) (s\<lparr>tasks := T\<rparr>) = (st, (restack s cs V Sd)\<lparr>tasks := T\<rparr>)"
    and al0: "alloc_thread_stack_node (cp_vmalloc E) s = (st, restack s cs V Sd)"
    using alloc_eff [of "cp_vmalloc E" s] by metis
  show ?thesis
  proof (cases "st = NULL")
    case True
    have same: "restack s cs V Sd = s" using vmap_stack.alloc_fail al0 True by blast
    have "dup_task_struct E cur s = (NULL, restack s (cached_stacks s) (vstacks s) (stack_dirty s))"
      using False al True p same unfolding dup_task_struct_def Let_def p_def
      by (simp add: free_tsk_def restack_def fun_upd_idem)
    moreover have "stacks_same s (cached_stacks s) (vstacks s)" using pre(3) by (simp add: stacks_same_def stacks_used_def)
    ultimately show ?thesis by blast
  next
    case nn: False
    note fr = alloc_free_same [OF pre(3,4) al0 nn]
    let ?s2 = "(restack s cs V Sd)\<lparr>tasks := (tasks s)(p \<mapsto> (cp_junk E)\<lparr>task_stack := st\<rparr>)\<rparr>"
    have s2: "upd_task p (\<lambda>t. t\<lparr>task_stack := st\<rparr>) ((restack s cs V Sd)\<lparr>tasks := (tasks s)(p \<mapsto> cp_junk E)\<rparr>) = ?s2"
      by (simp add: upd_task_def restack_def)
    obtain r P where ch: "memcg_charge_kernel_stack (cp_charge E) st ?s2 = (r, ?s2\<lparr>kmem_pages := kmem_pages ?s2 \<union> {st} \<times> P\<rparr>)"
      and P: "P \<subseteq> {..<STACK_PAGES}" by (rule memcg_charge_eff)
    let ?s3 = "(restack s cs V Sd)\<lparr>kmem_pages := kmem_pages s \<union> {st} \<times> P\<rparr>"
    have free: "free_stack p (?s3\<lparr>tasks := (tasks s)(p \<mapsto> t)\<rparr>) =
        (NULL, restack s (fst (free_slot st cs V)) (snd (free_slot st cs V)) Sd)" if "task_stack t = st" for t
      using that p(2) kmem_undo [OF pre(5) conjunct2 [OF fr] P]
      by (cases s) (simp add: free_stack_def free_tsk_def free_eff restack_def the_task_def fun_upd_idem)
    have s3: "?s2\<lparr>kmem_pages := kmem_pages ?s2 \<union> {st} \<times> P\<rparr> = ?s3\<lparr>tasks := (tasks s)(p \<mapsto> (cp_junk E)\<lparr>task_stack := st\<rparr>)\<rparr>"
      by (cases s) (simp add: restack_def)
    let ?t = "c\<lparr>task_stack := st, stack_refcount := 1\<rparr>"
    have s4: "upd_task p (\<lambda>t. t\<lparr>task_stack := st, stack_refcount := 1\<rparr>) (upd_task p
        (\<lambda>_. the_task (?s3\<lparr>tasks := (tasks s)(p \<mapsto> (cp_junk E)\<lparr>task_stack := st\<rparr>)\<rparr>) cur)
        (?s3\<lparr>tasks := (tasks s)(p \<mapsto> (cp_junk E)\<lparr>task_stack := st\<rparr>)\<rparr>)) = ?s3\<lparr>tasks := (tasks s)(p \<mapsto> ?t)\<rparr>"
      using p(3) pre(1) by (simp add: upd_task_def the_task_def)
    have fin: "account_kernel_stack 1 (upd_task p (\<lambda>t. t\<lparr>seccomp_filter := NULL, rcu_users := 2, task_usage := 1\<rparr>)
        (res_get (Scs p) (?s3\<lparr>tasks := (tasks s)(p \<mapsto> ?t)\<rparr>))) = cps (dup_base s p st P cs V Sd) p (dup_task c st) {#}"
      by (cases s) (simp add: account_kernel_stack_eq upd_task_def res_get_def cps_def dup_base_def dup_task_def restack_def)
    have run: "dup_task_struct E cur s = (if r \<noteq> 0 \<or> cp_arch_dup E \<noteq> 0 \<or> cp_scs E \<noteq> 0
        then (NULL, restack s (fst (free_slot st cs V)) (snd (free_slot st cs V)) Sd)
        else (p, cps (dup_base s p st P cs V Sd) p (dup_task c st) {#}))"
      using False nn free [of "(cp_junk E)\<lparr>task_stack := st\<rparr>"] free [of ?t] unfolding dup_task_struct_def Let_def p_def [symmetric]
      by (simp only: al case_prod_conv s2 ch s3 s4 fin if_False) auto
    show ?thesis
    proof (cases "r \<noteq> 0 \<or> cp_arch_dup E \<noteq> 0 \<or> cp_scs E \<noteq> 0")
      case True
      then show ?thesis using run fr by (simp only: if_True) blast
    next
      case False
      then have "dup_task_struct E cur s = (p, cps (dup_base s p st P cs V Sd) p (dup_task c st) {#})" using run by (simp only: if_False)
      then show ?thesis using fr P p(1) unfolding p_def by blast
    qed
  qed
qed

section \<open>The whole function\<close>

text \<open>
  What the caller of \<open>copy_process\<close> provides: the parent holds what it points to, is not forking already,
  and the memory of the new task is not part of any list.
\<close>

definition fork_pre :: "cp_env \<Rightarrow> kernel_clone_args \<Rightarrow> addr \<Rightarrow> task_struct \<Rightarrow> fork_state \<Rightarrow> bool" where
  "fork_pre E args cur c s \<longleftrightarrow> parent_ok s cur (cp_task E) c \<and> cp_env_ok E s \<and> kthread_ok args c \<and>
     cur \<notin> set (multiprocess (the_signal s (task_signal c))) \<and> stack_inv s \<and> cp_vmalloc E \<notin> vstacks s \<and>
     kmem_pages s \<subseteq> stacks_used s \<times> {..<STACK_PAGES} \<and> tasks s (cp_task E) = None \<and>
     task_children s (cp_task E) = [] \<and> thread_group s (cp_task E) = []"

text \<open>The heap that the stage of the key-value store leaves; it does not depend on the new task.\<close>

definition kv_heap_after :: "cp_env \<Rightarrow> u64 \<Rightarrow> kheap \<Rightarrow> kheap" where
  "kv_heap_after E fl h = (if has fl CLONE_THREAD then h
     else snd (snd (init_task_kv_store (cp_kmalloc1 E) (cp_kv_junk1 E) (cp_kmalloc2 E) (cp_kv_junk2 E) task_zero h)))"

lemma copy_process_kv_heap: "snd (copy_process_kv (has fl CLONE_THREAD) (cp_kmalloc1 E) (cp_kv_junk1 E) (cp_kmalloc2 E) (cp_kv_junk2 E) c t h) =
    kv_heap_after E fl h"
  by (simp add: copy_process_kv_def kv_heap_after_def init_task_kv_store_def Let_def split: option.splits)

text \<open>
  The states a failed call may leave: stacks may have moved into the per-CPU cache, the flag for an
  exceeded process limit may be cleared, and the key-value store of the abandoned child may remain.
\<close>

definition fork_residue :: "cp_env \<Rightarrow> u64 \<Rightarrow> addr \<Rightarrow> task_struct \<Rightarrow> fork_state \<Rightarrow> fork_state \<Rightarrow> bool" where
  "fork_residue E fl cur c s s' \<longleftrightarrow> (\<exists>cs V Sd c' K. s' = (restack s cs V Sd)\<lparr>tasks := (tasks s)(cur \<mapsto> c'), kvheap := K\<rparr> \<and>
     stacks_same s cs V \<and> c' \<in> {c, clear_exceeded c} \<and> K \<in> {kvheap s, kv_heap_after E fl (kvheap s)})"

lemma stacks_same_self: "stack_inv s \<Longrightarrow> stacks_same s (cached_stacks s) (vstacks s)"
  by (simp add: stacks_same_def stacks_used_def)

lemma restack_self: "restack s (cached_stacks s) (vstacks s) (stack_dirty s) = s"
  by (simp add: restack_def)

lemma residue_restack:
  assumes "tasks s cur = Some c" "stacks_same s cs V"
  shows "fork_residue E fl cur c s (restack s cs V Sd)"
proof -
  have "restack s cs V Sd = (restack s cs V Sd)\<lparr>tasks := (tasks s)(cur \<mapsto> c), kvheap := kvheap s\<rparr>"
    using assms(1) by (cases s) (simp add: restack_def fun_upd_idem)
  then show ?thesis using assms(2) unfolding fork_residue_def by blast
qed

lemma residue_self: "tasks s cur = Some c \<Longrightarrow> stack_inv s \<Longrightarrow> fork_residue E fl cur c s s"
  using residue_restack [OF _ stacks_same_self, of s cur c E fl "stack_dirty s"] by (simp add: restack_self)

text \<open>Queueing for delayed signals and leaving the queue again.\<close>

lemma delayed_restack:
  assumes "tasks s cur = Some c" "tasks s' = (tasks s)(cur \<mapsto> c')" "task_signal c' = task_signal c"
    "cur \<notin> set (multiprocess (the_signal s (task_signal c)))" "s' = (add_delayed fl cur s)\<lparr>tasks := T, kvheap := K, cached_stacks := cs, vstacks := V, stack_dirty := Sd\<rparr>"
  shows "del_delayed cur s' = (restack s cs V Sd)\<lparr>tasks := T, kvheap := K\<rparr>"
proof -
  have c: "the_task s cur = c" "task_signal (the_task s' cur) = task_signal c" using assms(1-3) by (simp_all add: the_task_def)
  show ?thesis
  proof (cases "signals s (task_signal c)")
    case None
    then show ?thesis using assms(5) c by (cases s) (simp add: del_delayed_def add_delayed_def upd_signal_def restack_def fun_upd_idem)
  next
    case (Some g)
    have "remove1 cur (multiprocess g) = multiprocess g" using assms(4) Some by (simp add: the_signal_def remove1_idem)
    then show ?thesis using assms(5) c Some
      by (cases s) (simp add: del_delayed_def add_delayed_def upd_signal_def restack_def fun_upd_idem)
  qed
qed

text \<open>The base after \<open>dup_task_struct\<close>, and what undoing everything leaves of it.\<close>

definition fork_base :: "u64 \<Rightarrow> addr \<Rightarrow> fork_state \<Rightarrow> addr \<Rightarrow> addr \<Rightarrow> nat set \<Rightarrow> addr list \<Rightarrow> addr set \<Rightarrow> addr set \<Rightarrow>
    task_struct \<Rightarrow> kheap \<Rightarrow> fork_state" where
  "fork_base fl cur s p st P cs V Sd c K =
     (dup_base (add_delayed fl cur s) p st P cs V Sd)\<lparr>tasks := (tasks s)(cur \<mapsto> c), kvheap := K\<rparr>"

lemma add_delayed_sel [simp]:
  "tasks (add_delayed fl cur s) = tasks s" "kvheap (add_delayed fl cur s) = kvheap s" "mms (add_delayed fl cur s) = mms s"
  "held (add_delayed fl cur s) = held s" "res (add_delayed fl cur s) = res s" "sighands (add_delayed fl cur s) = sighands s"
  "io_contexts (add_delayed fl cur s) = io_contexts s" "cached_stacks (add_delayed fl cur s) = cached_stacks s"
  "vstacks (add_delayed fl cur s) = vstacks s" "stack_dirty (add_delayed fl cur s) = stack_dirty s"
  "kmem_pages (add_delayed fl cur s) = kmem_pages s" "kernel_stack_kb (add_delayed fl cur s) = kernel_stack_kb s"
  "task_children (add_delayed fl cur s) = task_children s" "thread_group (add_delayed fl cur s) = thread_group s"
  "nr_threads (add_delayed fl cur s) = nr_threads s" "max_threads (add_delayed fl cur s) = max_threads s"
  "total_forks (add_delayed fl cur s) = total_forks s" "process_counts (add_delayed fl cur s) = process_counts s"
  "task_list (add_delayed fl cur s) = task_list s" "fs_in_exec (add_delayed fl cur s) = fs_in_exec s"
  by (simp_all add: add_delayed_def upd_signal_def)

lemma add_delayed_stacks [simp]:
  "stack_inv (add_delayed fl cur s) = stack_inv s" "stacks_used (add_delayed fl cur s) = stacks_used s"
  "stacks_same (add_delayed fl cur s) cs V = stacks_same s cs V"
  by (simp_all add: stack_inv_def stacks_used_def stacks_same_def)

lemma add_delayed_None: "signals (add_delayed fl cur s) g = None \<longleftrightarrow> signals s g = None"
  by (simp add: add_delayed_def upd_signal_def)

lemma undone_residue:
  assumes pre: "fork_pre E args cur c s" and p: "p = cp_task E" and u: "undoable cur p u" "task_stack u = st"
    and st: "st \<notin> stacks_used s" "P \<subseteq> {..<STACK_PAGES}" "stacks_same s (fst (free_slot st cs V)) (snd (free_slot st cs V))"
    and c: "c' \<in> {c, clear_exceeded c}" and K: "K \<in> {kvheap s, kv_heap_after E (arg_flags args) (kvheap s)}"
  shows "\<exists>s'. undone cur p e (fork_base (arg_flags args) cur s p st P cs V Sd c' K) u = (Inl e, s') \<and> fork_residue E (arg_flags args) cur c s s'"
proof -
  let ?B = "fork_base (arg_flags args) cur s p st P cs V Sd c' K" and ?T = "(tasks s)(cur \<mapsto> c')"
  let ?cs = "fst (free_slot st cs V)" and ?V = "snd (free_slot st cs V)"
  have s: "tasks s cur = Some c" "p \<noteq> cur" "tasks s p = None" "cur \<notin> set (multiprocess (the_signal s (task_signal c)))"
    "kmem_pages s \<subseteq> stacks_used s \<times> {..<STACK_PAGES}"
    using pre p by (simp_all add: fork_pre_def parent_ok_def)
  have "free_thread_stack st ((cps ?B p u {#})\<lparr>kernel_stack_kb := kernel_stack_kb (cps ?B p u {#}) - 16,
      tasks := (tasks (cps ?B p u {#}))(p := None), res := res (cps ?B p u {#}) - {#Scs p#}\<rparr>) =
      (add_delayed (arg_flags args) cur s)\<lparr>tasks := ?T, kvheap := K, cached_stacks := ?cs, vstacks := ?V, stack_dirty := Sd\<rparr>"
    using s(2,3) kmem_undo [OF s(5) st(1,2)]
    by (cases "add_delayed (arg_flags args) cur s")
      (simp add: free_eff cps_def fork_base_def dup_base_def restack_def fun_upd_idem fun_upd_twist
        add_delayed_sel [of "arg_flags args" cur s, symmetric] del: add_delayed_sel)
  then have "undone cur p e ?B u = (Inl e, del_delayed cur ((add_delayed (arg_flags args) cur s)\<lparr>tasks := ?T, kvheap := K,
      cached_stacks := ?cs, vstacks := ?V, stack_dirty := Sd\<rparr>))"
    unfolding undone_def using bad_fork_free_eff [of "cps ?B p u {#}" p u cur e] u by (simp add: undoable_def)
  moreover have "del_delayed cur ((add_delayed (arg_flags args) cur s)\<lparr>tasks := ?T, kvheap := K,
      cached_stacks := ?cs, vstacks := ?V, stack_dirty := Sd\<rparr>) = (restack s ?cs ?V Sd)\<lparr>tasks := ?T, kvheap := K\<rparr>"
    by (rule delayed_restack [where c' = c', OF s(1) _ _ s(4) refl]) (use c in \<open>auto simp: clear_exceeded_def\<close>)
  ultimately show ?thesis using st(3) c K unfolding fork_residue_def by blast
qed

lemma fork_base_c:
  "tasks s cur = Some c \<Longrightarrow> dup_base (add_delayed fl cur s) p st P cs V Sd = fork_base fl cur s p st P cs V Sd c (kvheap s)"
  by (cases "add_delayed fl cur s")
    (simp add: fork_base_def dup_base_def restack_def fun_upd_idem add_delayed_sel [of fl cur s, symmetric] del: add_delayed_sel)

lemma fork_base_upd:
  "upd_task cur f (fork_base fl cur s p st P cs V Sd c K) = fork_base fl cur s p st P cs V Sd (f c) K"
  "(fork_base fl cur s p st P cs V Sd c K)\<lparr>kvheap := K'\<rparr> = fork_base fl cur s p st P cs V Sd c K'"
  by (simp_all add: fork_base_def upd_task_def)

lemma fork_base_sel [simp]:
  "task_children (fork_base fl cur s p st P cs V Sd c K) = task_children s" "thread_group (fork_base fl cur s p st P cs V Sd c K) = thread_group s"
  "kvheap (fork_base fl cur s p st P cs V Sd c K) = K" "tasks (fork_base fl cur s p st P cs V Sd c K) = (tasks s)(cur \<mapsto> c)"
  "res (fork_base fl cur s p st P cs V Sd c K) = add_mset (Scs p) (res s)" "sighands (fork_base fl cur s p st P cs V Sd c K) = sighands s"
  "mms (fork_base fl cur s p st P cs V Sd c K) = mms s" "held (fork_base fl cur s p st P cs V Sd c K) = held s"
  "signals (fork_base fl cur s p st P cs V Sd c K) = signals (add_delayed fl cur s)"
  "io_contexts (fork_base fl cur s p st P cs V Sd c K) = io_contexts s" "nr_threads (fork_base fl cur s p st P cs V Sd c K) = nr_threads s"
  "max_threads (fork_base fl cur s p st P cs V Sd c K) = max_threads s" "total_forks (fork_base fl cur s p st P cs V Sd c K) = total_forks s"
  "task_list (fork_base fl cur s p st P cs V Sd c K) = task_list s" "process_counts (fork_base fl cur s p st P cs V Sd c K) = process_counts s"
  by (simp_all add: fork_base_def dup_base_def restack_def)

lemma fork_base_ok:
  assumes "fork_pre E args cur c s" "p = cp_task E"
  shows "parent_ok (fork_base fl cur s p st P cs V Sd (clear_exceeded c) K) cur p (clear_exceeded c)"
    "cp_env_ok E (fork_base fl cur s p st P cs V Sd c' K)"
  using assms by (auto simp: fork_pre_def parent_ok_def cp_env_ok_def clear_exceeded_def add_delayed_None)

text \<open>The child before its address space and the rest are copied, and in the end.\<close>

definition child_made :: "cp_env \<Rightarrow> kernel_clone_args \<Rightarrow> task_struct \<Rightarrow> addr \<Rightarrow> task_struct" where
  "child_made E args c st = init_task (creds_task args (dup_task c st))"

definition fork_linked :: "cp_env \<Rightarrow> bool \<Rightarrow> kernel_clone_args \<Rightarrow> addr \<Rightarrow> task_struct \<Rightarrow> fork_state \<Rightarrow> s32 \<Rightarrow> s32 \<Rightarrow> fork_state \<Rightarrow> bool" where
  "fork_linked E idle args cur c s nr fd s1 \<longleftrightarrow>
    (let fl = arg_flags args; p = cp_task E; c1 = clear_exceeded c in
     \<exists>st P cs V Sd n x M D G H I K kv lk b t t'.
       st \<notin> stacks_used s \<and> b = fork_base fl cur s p st P cs V Sd c1 (kvheap s) \<and> t = share_task E fl c1 n x (child_made E args c st) \<and>
       kept E b fl p t M D G H I \<and> cp_namespaces E = Inr n \<and> io_shared E fl c1 x \<and>
       sighand_copied E b fl c1 H \<and> signal_copied E b fl p c1 G \<and>
       copy_process_kv (has fl CLONE_THREAD) (cp_kmalloc1 E) (cp_kv_junk1 E) (cp_kmalloc2 E) (cp_kv_junk2 E) c1 t (kvheap s) =
         (t\<lparr>kv_store := kv, kv_locks := lk\<rparr>, K) \<and>
       t' = parent_task b args cur c1 (ids_task fl c1 p nr (t\<lparr>kv_store := kv, kv_locks := lk\<rparr>)) \<and>
       (if idle then nr = 0 else cp_alloc_pid E = Inr nr \<and> nr \<noteq> 0) \<and>
       s1 = cps (objs (b\<lparr>kvheap := K\<rparr>) M D G H I) p t' (link_toks idle fl p nr fd c1 t))"

lemma cp_creds_residue:
  assumes pre: "fork_pre E args cur c s" and st: "st \<notin> stacks_used s" "P \<subseteq> {..<STACK_PAGES}"
      "stacks_same s (fst (free_slot st cs V)) (snd (free_slot st cs V))"
    and b: "b = fork_base (arg_flags args) cur s (cp_task E) st P cs V Sd c (kvheap s)"
  shows "(\<exists>e s'. e \<noteq> 0 \<and> cp_creds_stage E idle args cur (cp_task E) (cps b (cp_task E) (dup_task c st) {#}) = (Inl e, s') \<and>
      fork_residue E (arg_flags args) cur c s s') \<or>
    (\<exists>nr fd s1. fork_linked E idle args cur c s nr fd s1 \<and>
       cp_creds_stage E idle args cur (cp_task E) (cps b (cp_task E) (dup_task c st) {#}) = cp_link E idle args cur (cp_task E) nr fd s1)"
    (is "?fail \<or> ?ok")
proof -
  define p where "p = cp_task E"
  let ?fl = "arg_flags args" and ?c1 = "clear_exceeded c" and ?t = "dup_task c st" and ?t1 = "child_made E args c st"
  let ?run = "cp_creds_stage E idle args cur p (cps b p ?t {#})"
  define B where "B c' K = fork_base ?fl cur s p st P cs V Sd c' K" for c' K
  have b': "b = B c (kvheap s)" using b by (simp add: B_def p_def)
  have t: "p \<noteq> cur" "stack_refcount ?t = 1" "kthread_ok args ?t" "task_stack ?t = st" "task_children b p = []"
    using pre b' by (simp_all add: fork_pre_def parent_ok_def dup_task_def kthread_ok_def p_def B_def)
  have fail: ?fail if "e \<noteq> 0" "undoable cur p u" "task_stack u = st" "c' \<in> {c, ?c1}" "K \<in> {kvheap s, kv_heap_after E ?fl (kvheap s)}"
      "?run = undone cur p e (B c' K) u" for e u c' K
    using undone_residue [OF pre p_def that(2,3) st that(4,5), of e Sd] that(1,6) unfolding B_def p_def by auto
  have bb: "upd_task cur clear_exceeded b = B ?c1 (kvheap s)" unfolding b' B_def fork_base_upd ..
  have t1: "undoable cur p ?t1" "task_stack ?t1 = st" "inherits ?c1 ?t1" "same_core ?t1 ?t1"
    using undoable_init [OF undoable_creds [OF t(1-3)]] t(4)
    by (simp_all add: child_made_def init_task_def creds_task_def dup_task_def inherits_def clear_exceeded_def Let_def)
  from cp_creds_cases [OF t(1-3) t(5), of E idle] consider
      (f) e B' u where "e \<noteq> 0" "B' \<in> {b, B ?c1 (kvheap s)}" "undoable cur p u" "task_stack u = task_stack ?t" "?run = undone cur p e B' u"
    | (g) "?run = cp_files E idle args cur p (cps (B ?c1 (kvheap s)) p ?t1 (toks_semundo p))"
    unfolding bb child_made_def by blast
  then show ?thesis
  proof cases
    case f
    then show ?thesis using fail [of e u _ "kvheap s"] t(4) unfolding b' by auto
  next
    case g
    have ok: "parent_ok (B ?c1 (kvheap s)) cur p ?c1" "cp_env_ok E (B ?c1 (kvheap s))"
      unfolding B_def by (rule fork_base_ok [OF pre p_def])+
    from cp_share_cases [OF ok(1) ok(2) t1(4,1,3), of idle args] consider
        (h) e where "e \<noteq> 0" "?run = undone cur p e (B ?c1 (kvheap s)) ?t1"
      | (i) n x M D G H I where "kept E (B ?c1 (kvheap s)) ?fl p (share_task E ?fl ?c1 n x ?t1) M D G H I"
          "same_core (share_task E ?fl ?c1 n x ?t1) ?t1" "cp_namespaces E = Inr n" "io_shared E ?fl ?c1 x"
          "sighand_copied E (B ?c1 (kvheap s)) ?fl ?c1 H" "signal_copied E (B ?c1 (kvheap s)) ?fl p ?c1 G"
          "?run = cp_pid E idle args cur p (cps (objs (B ?c1 (kvheap s)) M D G H I) p (share_task E ?fl ?c1 n x ?t1)
             (add_mset (ThreadArch p) (toks_io p (share_task E ?fl ?c1 n x ?t1))))"
      unfolding g Let_def by blast
    then show ?thesis
    proof cases
      case h
      then show ?thesis using fail t1 by blast
    next
      case i
      let ?t2 = "share_task E ?fl ?c1 n x ?t1"
      obtain t' K where kv: "copy_process_kv (has ?fl CLONE_THREAD) (cp_kmalloc1 E) (cp_kv_junk1 E) (cp_kmalloc2 E) (cp_kv_junk2 E) ?c1 ?t2 (kvheap s) = (t', K)"
        by fastforce
      obtain kv' lk where kl: "t' = ?t2\<lparr>kv_store := kv', kv_locks := lk\<rparr>"
        using kv copy_process_kv_fields by (metis fst_conv)
      have K: "K = kv_heap_after E ?fl (kvheap s)" using kv copy_process_kv_heap [of ?fl E ?c1 ?t2 "kvheap s"] by simp
      have tg: "thread_group (B ?c1 (kvheap s)) p = []" "kvheap (B ?c1 (kvheap s)) = kvheap s"
        using pre by (simp_all add: B_def fork_pre_def p_def)
      have BK: "(B ?c1 (kvheap s))\<lparr>kvheap := K\<rparr> = B ?c1 K" unfolding B_def fork_base_upd ..
      from cp_pid_cases [OF ok(1) ok(2) i(2) t1(1) i(1) tg(1), unfolded tg(2), OF kv, of idle] consider
          (j) e B' where "e \<noteq> 0" "B' \<in> {B ?c1 (kvheap s), B ?c1 K}" "?run = undone cur p e B' ?t1"
        | (k) nr fd where "if idle then nr = 0 else cp_alloc_pid E = Inr nr \<and> nr \<noteq> 0" "?run = cp_link E idle args cur p nr fd
            (cps (objs ((B ?c1 (kvheap s))\<lparr>kvheap := K\<rparr>) M D G H I) p (parent_task (B ?c1 (kvheap s)) args cur ?c1 (ids_task ?fl ?c1 p nr t'))
              (link_toks idle ?fl p nr fd ?c1 ?t2))"
        unfolding i(7) BK by blast
      then show ?thesis
      proof cases
        case j
        then show ?thesis using fail [of e ?t1 ?c1] t1 K by auto
      next
        case k
        have "fork_linked E idle args cur c s nr fd (cps (objs ((B ?c1 (kvheap s))\<lparr>kvheap := K\<rparr>) M D G H I) p
            (parent_task (B ?c1 (kvheap s)) args cur ?c1 (ids_task ?fl ?c1 p nr t')) (link_toks idle ?fl p nr fd ?c1 ?t2))"
          using st(1) i(1-6) k(1) kv kl unfolding fork_linked_def Let_def p_def B_def by blast
        then show ?thesis using k(2) unfolding p_def by blast
      qed
    qed
  qed
qed

lemma copy_process_cases:
  assumes pre: "fork_pre E args cur c s"
  shows "(\<exists>e s'. e \<noteq> 0 \<and> copy_process E idle args cur s = (Inl e, s') \<and> fork_residue E (arg_flags args) cur c s s') \<or>
    (\<exists>nr fd s1. cp_task E \<noteq> NULL \<and> fork_linked E idle args cur c s nr fd s1 \<and>
       copy_process E idle args cur s = cp_link E idle args cur (cp_task E) nr fd s1)"
proof -
  let ?fl = "arg_flags args" and ?s = "add_delayed (arg_flags args) cur s"
  have s: "tasks s cur = Some c" "stack_inv s" "cp_vmalloc E \<notin> vstacks s" "cur \<notin> set (multiprocess (the_signal s (task_signal c)))"
    "kmem_pages s \<subseteq> stacks_used s \<times> {..<STACK_PAGES}" "tasks s (cp_task E) = None"
    using pre by (simp_all add: fork_pre_def parent_ok_def)
  have out: "\<exists>s'. fork_out cur e (restack ?s cs V Sd) = (Inl e, s') \<and> fork_residue E ?fl cur c s s'" if "stacks_same s cs V" for e cs V Sd
  proof -
    have "restack ?s cs V Sd = ?s\<lparr>tasks := tasks s, kvheap := kvheap s, cached_stacks := cs, vstacks := V, stack_dirty := Sd\<rparr>"
      by (cases ?s) (simp add: restack_def add_delayed_sel [of ?fl cur s, symmetric] del: add_delayed_sel)
    then have "del_delayed cur (restack ?s cs V Sd) = (restack s cs V Sd)\<lparr>tasks := tasks s, kvheap := kvheap s\<rparr>"
      by (intro delayed_restack [where c' = c and fl = ?fl, OF s(1) _ _ s(4)]) (simp_all add: s(1) fun_upd_idem restack_def)
    moreover have "(restack s cs V Sd)\<lparr>tasks := tasks s, kvheap := kvheap s\<rparr> = restack s cs V Sd" by (cases s) (simp add: restack_def)
    ultimately show ?thesis using residue_restack [OF s(1) that] by (simp add: fork_out_def)
  qed
  have out0: "\<exists>s'. fork_out cur e ?s = (Inl e, s') \<and> fork_residue E ?fl cur c s s'" for e
    using out [OF stacks_same_self [OF s(2)], of e "stack_dirty s"] restack_self [of ?s] by simp
  consider (flags) "copy_process_flags (cp_caller E) ?fl \<noteq> 0" | (sig) "copy_process_flags (cp_caller E) ?fl = 0" "cp_sigpending E"
    | (dup) "copy_process_flags (cp_caller E) ?fl = 0" "\<not> cp_sigpending E" by blast
  then show ?thesis
  proof cases
    case flags
    then show ?thesis using residue_self [OF s(1,2)] by (auto simp: copy_process_def Let_def)
  next
    case sig
    then have "copy_process E idle args cur s = fork_out cur (- ERESTARTNOINTR) ?s" by (simp add: copy_process_def)
    moreover obtain s' where "fork_out cur (- ERESTARTNOINTR) ?s = (Inl (- ERESTARTNOINTR), s')" "fork_residue E ?fl cur c s s'"
      using out0 by blast
    ultimately show ?thesis by (intro disjI1 exI [of _ "- ERESTARTNOINTR"] exI [of _ s']) simp
  next
    case dup
    then have run: "copy_process E idle args cur s = (case dup_task_struct E cur ?s of (p, s) \<Rightarrow>
        if p = NULL then fork_out cur (- ENOMEM) s else cp_creds_stage E idle args cur p s)"
      by (simp add: copy_process_def Let_def)
    have d: "tasks ?s cur = Some c" "cp_task E \<noteq> NULL \<Longrightarrow> tasks ?s (cp_task E) = None" "stack_inv ?s" "cp_vmalloc E \<notin> vstacks ?s"
      "kmem_pages ?s \<subseteq> stacks_used ?s \<times> {..<STACK_PAGES}" using s by simp_all
    consider (no) cs V Sd where "dup_task_struct E cur ?s = (NULL, restack ?s cs V Sd)" "stacks_same s cs V"
      | (yes) st P cs V Sd where "cp_task E \<noteq> NULL" "dup_task_struct E cur ?s = (cp_task E, cps (dup_base ?s (cp_task E) st P cs V Sd) (cp_task E) (dup_task c st) {#})"
         "st \<notin> stacks_used s" "P \<subseteq> {..<STACK_PAGES}" "stacks_same s (fst (free_slot st cs V)) (snd (free_slot st cs V))"
      using dup_task_struct_eff [OF d] unfolding add_delayed_stacks by blast
    then show ?thesis
    proof cases
      case no
      obtain s' where "fork_out cur (- ENOMEM) (restack ?s cs V Sd) = (Inl (- ENOMEM), s')" "fork_residue E ?fl cur c s s'"
        using out [OF no(2)] by blast
      then show ?thesis using no(1) unfolding run by (intro disjI1 exI [of _ "- ENOMEM"] exI [of _ s']) simp
    next
      case yes
      have "copy_process E idle args cur s = cp_creds_stage E idle args cur (cp_task E)
          (cps (dup_base ?s (cp_task E) st P cs V Sd) (cp_task E) (dup_task c st) {#})" unfolding run yes(2) using yes(1) by simp
      then show ?thesis using cp_creds_residue [OF pre yes(3-5) fork_base_c [OF s(1)], where idle = idle and Sd = Sd] yes(1) by (simp only: simp_thms)
    qed
  qed
qed


lemma upd_signal_sel [simp]:
  "tasks (upd_signal g f s) = tasks s" "res (upd_signal g f s) = res s" "nr_threads (upd_signal g f s) = nr_threads s"
  "total_forks (upd_signal g f s) = total_forks s" "task_list (upd_signal g f s) = task_list s"
  "task_children (upd_signal g f s) = task_children s" "thread_group (upd_signal g f s) = thread_group s"
  "process_counts (upd_signal g f s) = process_counts s" "kvheap (upd_signal g f s) = kvheap s"
  "the_task (upd_signal g f s) q = the_task s q"
  by (simp_all add: upd_signal_def the_task_def)

lemma upd_mm_sel [simp]:
  "tasks (upd_mm a f s) = tasks s" "res (upd_mm a f s) = res s" "nr_threads (upd_mm a f s) = nr_threads s"
  "total_forks (upd_mm a f s) = total_forks s" "task_list (upd_mm a f s) = task_list s"
  "task_children (upd_mm a f s) = task_children s" "thread_group (upd_mm a f s) = thread_group s"
  "process_counts (upd_mm a f s) = process_counts s" "kvheap (upd_mm a f s) = kvheap s" "signals (upd_mm a f s) = signals s"
  for s :: fork_state
  by (simp_all add: upd_mm_def)

lemma res_sel [simp]:
  "tasks (res_get r s) = tasks s" "tasks (res_put r s) = tasks s" "signals (res_get r s) = signals s" "signals (res_put r s) = signals s"
  "res (res_get r s) = add_mset r (res s)" "res (res_put r s) = res s - {#r#}" "nr_threads (res_get r s) = nr_threads s"
  "nr_threads (res_put r s) = nr_threads s" "total_forks (res_get r s) = total_forks s" "total_forks (res_put r s) = total_forks s"
  "task_list (res_get r s) = task_list s" "task_list (res_put r s) = task_list s" "task_children (res_get r s) = task_children s"
  "task_children (res_put r s) = task_children s" "thread_group (res_get r s) = thread_group s" "thread_group (res_put r s) = thread_group s"
  "process_counts (res_get r s) = process_counts s" "process_counts (res_put r s) = process_counts s"
  "kvheap (res_get r s) = kvheap s" "kvheap (res_put r s) = kvheap s"
  "the_task (res_get r s) q = the_task s q" "the_task (res_put r s) q = the_task s q"
  "the_signal (res_get r s) g = the_signal s g" "the_signal (res_put r s) g = the_signal s g"
  by (simp_all add: res_get_def res_put_def the_task_def the_signal_def)

text \<open>The effect of the last part on the tables and lists.\<close>

lemma oom_sel:
  "tasks (copy_oom_score_adj E fl cur p s) = tasks s" "res (copy_oom_score_adj E fl cur p s) = res s"
  "nr_threads (copy_oom_score_adj E fl cur p s) = nr_threads s" "total_forks (copy_oom_score_adj E fl cur p s) = total_forks s"
  "task_list (copy_oom_score_adj E fl cur p s) = task_list s" "task_children (copy_oom_score_adj E fl cur p s) = task_children s"
  "thread_group (copy_oom_score_adj E fl cur p s) = thread_group s" "process_counts (copy_oom_score_adj E fl cur p s) = process_counts s"
  "kvheap (copy_oom_score_adj E fl cur p s) = kvheap s"
  by (simp_all add: copy_oom_score_adj_def Let_def)

lemma link_sel:
  "tasks (link_leader E cur p s) = tasks s" "nr_threads (link_leader E cur p s) = nr_threads s" "total_forks (link_leader E cur p s) = total_forks s"
  "task_list (link_leader E cur p s) = task_list s @ [p]" "thread_group (link_leader E cur p s) = thread_group s"
  "process_counts (link_leader E cur p s) = process_counts s + 1" "kvheap (link_leader E cur p s) = kvheap s"
  "task_children (link_leader E cur p s) =
     (task_children s)(real_parent (the_task s p) := task_children s (real_parent (the_task s p)) @ [p])"
  "tasks (link_thread cur p s) = tasks s" "nr_threads (link_thread cur p s) = nr_threads s" "total_forks (link_thread cur p s) = total_forks s"
  "task_list (link_thread cur p s) = task_list s" "task_children (link_thread cur p s) = task_children s"
  "process_counts (link_thread cur p s) = process_counts s" "kvheap (link_thread cur p s) = kvheap s"
  "thread_group (link_thread cur p s) =
     (thread_group s)(group_leader (the_task s p) := thread_group s (group_leader (the_task s p)) @ [p])"
  by (simp_all add: link_leader_def link_thread_def Let_def)

lemma the_task_upd [simp]:
  "the_task (s\<lparr>nr_threads := a\<rparr>) q = the_task s q" "the_task (s\<lparr>total_forks := b\<rparr>) q = the_task s q"
  "the_task (link_leader E cur p s) q = the_task s q" "the_task (link_thread cur p s) q = the_task s q"
  by (simp_all add: the_task_def link_sel)

lemma seccomp_task_sel [simp]:
  "exit_signal (seccomp_task c t) = exit_signal t" "real_parent (seccomp_task c t) = real_parent t"
  "group_leader (seccomp_task c t) = group_leader t"
  by (simp_all add: seccomp_task_def)

lemma seccomp_sel:
  assumes "tasks s p = Some t" "tasks s cur = Some c"
  shows "tasks (copy_seccomp cur p s) = (tasks s)(p \<mapsto> seccomp_task c t)"
    "nr_threads (copy_seccomp cur p s) = nr_threads s" "total_forks (copy_seccomp cur p s) = total_forks s"
    "task_list (copy_seccomp cur p s) = task_list s" "thread_group (copy_seccomp cur p s) = thread_group s"
    "task_children (copy_seccomp cur p s) = task_children s" "process_counts (copy_seccomp cur p s) = process_counts s"
    "kvheap (copy_seccomp cur p s) = kvheap s" "signals (copy_seccomp cur p s) = signals s"
    "count (res (copy_seccomp cur p s)) TasklistHeld = count (res s) TasklistHeld"
    "count (res (copy_seccomp cur p s)) (SiglockHeld h) = count (res s) (SiglockHeld h)"
  using assms by (simp_all add: copy_seccomp_def Let_def upd_task_def the_task_def)

definition cp_joined :: "cp_env \<Rightarrow> addr \<Rightarrow> addr \<Rightarrow> s32 \<Rightarrow> fork_state \<Rightarrow> fork_state" where
  "cp_joined E cur p nr s =
    (if nr = 0 then s else let s = (if 0 \<le> sint (exit_signal (the_task s p)) then link_leader E cur p s else link_thread cur p s)
     in s\<lparr>nr_threads := nr_threads s + 1\<rparr>)"

lemma count_link:
  "count (res (link_leader E cur p s)) TasklistHeld = count (res s) TasklistHeld"
  "count (res (link_leader E cur p s)) (SiglockHeld h) = count (res s) (SiglockHeld h)"
  "res (link_thread cur p s) = res s"
  by (simp_all add: link_leader_def link_thread_def Let_def)

lemma joined_sel:
  assumes "the_task s p = t"
  shows "tasks (cp_joined E cur p nr s) = tasks s"
    "nr_threads (cp_joined E cur p nr s) = nr_threads s + (if nr = 0 then 0 else 1)"
    "total_forks (cp_joined E cur p nr s) = total_forks s"
    "task_list (cp_joined E cur p nr s) = task_list s @ (if nr \<noteq> 0 \<and> 0 \<le> sint (exit_signal t) then [p] else [])"
    "process_counts (cp_joined E cur p nr s) = process_counts s + (if nr \<noteq> 0 \<and> 0 \<le> sint (exit_signal t) then 1 else 0)"
    "task_children (cp_joined E cur p nr s) q = task_children s q @ (if nr \<noteq> 0 \<and> 0 \<le> sint (exit_signal t) \<and> q = real_parent t then [p] else [])"
    "thread_group (cp_joined E cur p nr s) q = thread_group s q @ (if nr \<noteq> 0 \<and> sint (exit_signal t) < 0 \<and> q = group_leader t then [p] else [])"
    "kvheap (cp_joined E cur p nr s) = kvheap s"
    "count (res (cp_joined E cur p nr s)) TasklistHeld = count (res s) TasklistHeld"
    "count (res (cp_joined E cur p nr s)) (SiglockHeld h) = count (res s) (SiglockHeld h)"
  using assms by (auto simp: cp_joined_def Let_def link_sel count_link)

lemma cp_link_alt: "cp_link E idle args cur p nr fd s =
    (let s = cp_joined E cur p nr (copy_seccomp cur p s); s = del_delayed cur (s\<lparr>total_forks := total_forks s + 1\<rparr>);
         s = res_put TasklistHeld (res_put (SiglockHeld (task_sighand (the_task s cur))) s)
     in (Inr p, copy_oom_score_adj E (arg_flags args) cur p (res_get (CssSet p) (res_put (CgroupPin p) s))))"
  by (simp add: cp_link_def cp_joined_def Let_def)

lemma del_delayed_sel [simp]:
  "tasks (del_delayed cur s) = tasks s" "res (del_delayed cur s) = res s" "nr_threads (del_delayed cur s) = nr_threads s"
  "total_forks (del_delayed cur s) = total_forks s" "task_list (del_delayed cur s) = task_list s"
  "task_children (del_delayed cur s) = task_children s" "thread_group (del_delayed cur s) = thread_group s"
  "process_counts (del_delayed cur s) = process_counts s" "kvheap (del_delayed cur s) = kvheap s" "the_task (del_delayed cur s) q = the_task s q"
  by (simp_all add: del_delayed_def)

lemma cp_link_eff:
  assumes a: "tasks s p = Some t" "tasks s cur = Some c" "p \<noteq> cur" and r: "cp_link E idle args cur p nr fd s = (r, s')"
  shows "r = Inr p" "tasks s' = (tasks s)(p \<mapsto> seccomp_task c t)" "kvheap s' = kvheap s"
    "nr_threads s' = nr_threads s + (if nr = 0 then 0 else 1)" "total_forks s' = total_forks s + 1"
    "task_list s' = task_list s @ (if nr \<noteq> 0 \<and> 0 \<le> sint (exit_signal t) then [p] else [])"
    "process_counts s' = process_counts s + (if nr \<noteq> 0 \<and> 0 \<le> sint (exit_signal t) then 1 else 0)"
    "task_children s' q = task_children s q @ (if nr \<noteq> 0 \<and> 0 \<le> sint (exit_signal t) \<and> q = real_parent t then [p] else [])"
    "thread_group s' q = thread_group s q @ (if nr \<noteq> 0 \<and> sint (exit_signal t) < 0 \<and> q = group_leader t then [p] else [])"
    "count (res s') TasklistHeld = count (res s) TasklistHeld - 1"
    "count (res s') (SiglockHeld h) = count (res s) (SiglockHeld h) - (if h = task_sighand c then 1 else 0)"
proof -
  let ?s = "copy_seccomp cur p s"
  have t: "the_task ?s p = seccomp_task c t" "the_task ?s cur = c"
    using seccomp_sel(1) [OF a(1,2)] a by (simp_all add: the_task_def)
  have j: "the_task (cp_joined E cur p nr ?s) cur = c" using joined_sel(1) [OF refl] t(2) by (simp add: the_task_def)
  note e = r [unfolded cp_link_alt Let_def, simplified, folded the_task_upd] joined_sel [OF t(1)] seccomp_sel [OF a(1,2)] j
  show "r = Inr p" "tasks s' = (tasks s)(p \<mapsto> seccomp_task c t)" "kvheap s' = kvheap s"
    "nr_threads s' = nr_threads s + (if nr = 0 then 0 else 1)" "total_forks s' = total_forks s + 1"
    "task_list s' = task_list s @ (if nr \<noteq> 0 \<and> 0 \<le> sint (exit_signal t) then [p] else [])"
    "process_counts s' = process_counts s + (if nr \<noteq> 0 \<and> 0 \<le> sint (exit_signal t) then 1 else 0)"
    "task_children s' q = task_children s q @ (if nr \<noteq> 0 \<and> 0 \<le> sint (exit_signal t) \<and> q = real_parent t then [p] else [])"
    "thread_group s' q = thread_group s q @ (if nr \<noteq> 0 \<and> sint (exit_signal t) < 0 \<and> q = group_leader t then [p] else [])"
    "count (res s') TasklistHeld = count (res s) TasklistHeld - 1"
    "count (res s') (SiglockHeld h) = count (res s) (SiglockHeld h) - (if h = task_sighand c then 1 else 0)"
    using e by (auto simp: oom_sel)
qed

lemma count_link_toks:
  "count (link_toks idle fl p nr fd c t) TasklistHeld = 1"
  "count (link_toks idle fl p nr fd c t) (SiglockHeld h) = (if h = task_sighand c then 1 else 0)"
  by (simp_all add: link_toks_def toks_pidfd_def toks_pid_def toks_io_def toks_ns_def toks_fs_def toks_files_def toks_semundo_def)

text \<open>The arrays of the key-value store of a new process: those that were allocated, or a \<open>NULL\<close> pointer for the one that was not.\<close>

definition new_store :: "cp_env \<Rightarrow> kheap \<Rightarrow> task_struct \<Rightarrow> bool" where
  "new_store E h t \<longleftrightarrow>
    (case cp_kmalloc1 E h of
       None \<Rightarrow> kv_store t = NULL
     | Some st \<Rightarrow>
        (case cp_kmalloc2 E (h(st \<mapsto> KBuckets (fill_loop KV_BUCKETS [] (cp_kv_junk1 E)))) of
           None \<Rightarrow> kv_locks t = NULL
         | Some lk \<Rightarrow> kv_store t = st \<and> kv_locks t = lk))"

text \<open>The fields of the child, read off the stages.\<close>

definition child_fields :: "cp_env \<Rightarrow> kernel_clone_args \<Rightarrow> addr \<Rightarrow> task_struct \<Rightarrow> fork_state \<Rightarrow> s32 \<Rightarrow> task_struct \<Rightarrow> bool" where
  "child_fields E args cur c s nr t \<longleftrightarrow>
    (let fl = arg_flags args in
     task_files t = child_files E fl c \<and> task_fs t = child_fs E fl c \<and> task_sighand t = child_sighand E fl c \<and>
     task_signal t = child_signal E fl c \<and> task_mm t = child_mm E fl c \<and> active_mm t = child_mm E fl c \<and>
     Inr (task_nsproxy t) = cp_namespaces E \<and> io_shared E fl c (task_io_context t) \<and>
     pid t = nr \<and> tgid t = (if has fl CLONE_THREAD then tgid c else nr) \<and>
     group_leader t = (if has fl CLONE_THREAD then group_leader c else cp_task E) \<and>
     real_parent t = (if has fl (CLONE_PARENT OR CLONE_THREAD) then real_parent c else cur) \<and>
     exit_signal t = (if has fl CLONE_THREAD then - 1 else if has fl CLONE_PARENT then exit_signal (the_task s (group_leader c))
       else ucast (arg_exit_signal args)) \<and>
     set_child_tid t = (if has fl CLONE_CHILD_SETTID then arg_child_tid args else 0) \<and>
     clear_child_tid t = (if has fl CLONE_CHILD_CLEARTID then arg_child_tid args else 0) \<and>
     (has fl CLONE_THREAD \<longrightarrow> kv_store t = kv_store c \<and> kv_locks t = kv_locks c) \<and>
     (\<not> has fl CLONE_THREAD \<longrightarrow> new_store E (kvheap s) t) \<and>
     seccomp_mode t = seccomp_mode c \<and> seccomp_filter t = seccomp_filter c \<and> max_socket_allowed t = 0 \<and> priority_level t = 0 \<and> socket_count t = 0 \<and>
     stack_refcount t = 1 \<and> task_usage t = 1 \<and> vfork_done t = NULL \<and> pdeath_signal t = 0 \<and> task_stack t \<notin> stacks_used s)"


lemma has_or: "has fl (a OR b) \<longleftrightarrow> has fl a \<or> has fl b"
  by (simp add: has_def bit.conj_disj_distrib or_eq_0_iff)

lemma clear_exceeded_sel [simp]:
  "task_files (clear_exceeded c) = task_files c" "task_fs (clear_exceeded c) = task_fs c" "task_sighand (clear_exceeded c) = task_sighand c"
  "task_signal (clear_exceeded c) = task_signal c" "task_mm (clear_exceeded c) = task_mm c" "task_io_context (clear_exceeded c) = task_io_context c"
  "tgid (clear_exceeded c) = tgid c" "group_leader (clear_exceeded c) = group_leader c" "real_parent (clear_exceeded c) = real_parent c"
  "exit_signal (clear_exceeded c) = exit_signal c" "kv_store (clear_exceeded c) = kv_store c" "kv_locks (clear_exceeded c) = kv_locks c"
  "seccomp_mode (clear_exceeded c) = seccomp_mode c" "seccomp_filter (clear_exceeded c) = seccomp_filter c" "parent_exec_id (clear_exceeded c) = parent_exec_id c"
  "self_exec_id (clear_exceeded c) = self_exec_id c"
  by (simp_all add: clear_exceeded_def)

lemma child_clear_exceeded [simp]:
  "child_files E fl (clear_exceeded c) = child_files E fl c" "child_fs E fl (clear_exceeded c) = child_fs E fl c"
  "child_sighand E fl (clear_exceeded c) = child_sighand E fl c" "child_signal E fl (clear_exceeded c) = child_signal E fl c"
  "child_mm E fl (clear_exceeded c) = child_mm E fl c" "io_shared E fl (clear_exceeded c) x = io_shared E fl c x"
  by (simp_all add: child_files_def child_fs_def child_sighand_def child_signal_def child_mm_def io_shared_def)

text \<open>Fields of the child after the stages.\<close>

lemma child_made_sel:
  "set_child_tid (child_made E args c st) = (if has (arg_flags args) CLONE_CHILD_SETTID then arg_child_tid args else 0)"
  "clear_child_tid (child_made E args c st) = (if has (arg_flags args) CLONE_CHILD_CLEARTID then arg_child_tid args else 0)"
  "max_socket_allowed (child_made E args c st) = 0" "priority_level (child_made E args c st) = 0" "socket_count (child_made E args c st) = 0"
  "stack_refcount (child_made E args c st) = 1" "task_usage (child_made E args c st) = 1" "vfork_done (child_made E args c st) = NULL"
  "task_stack (child_made E args c st) = st"
  by (simp_all add: child_made_def init_task_def creds_task_def dup_task_def Let_def)

lemma share_task_sel:
  "task_files (share_task E fl c n x t) = child_files E fl c" "task_fs (share_task E fl c n x t) = child_fs E fl c"
  "task_sighand (share_task E fl c n x t) = child_sighand E fl c" "task_signal (share_task E fl c n x t) = child_signal E fl c"
  "task_mm (share_task E fl c n x t) = child_mm E fl c" "active_mm (share_task E fl c n x t) = child_mm E fl c"
  "task_nsproxy (share_task E fl c n x t) = n" "task_io_context (share_task E fl c n x t) = x"
  "set_child_tid (share_task E fl c n x t) = set_child_tid t" "clear_child_tid (share_task E fl c n x t) = clear_child_tid t"
  "max_socket_allowed (share_task E fl c n x t) = max_socket_allowed t" "priority_level (share_task E fl c n x t) = priority_level t"
  "socket_count (share_task E fl c n x t) = socket_count t" "stack_refcount (share_task E fl c n x t) = stack_refcount t"
  "task_usage (share_task E fl c n x t) = task_usage t" "vfork_done (share_task E fl c n x t) = vfork_done t"
  "task_stack (share_task E fl c n x t) = task_stack t"
  by (simp_all add: share_task_def)

definition linked_task :: "fork_state \<Rightarrow> kernel_clone_args \<Rightarrow> addr \<Rightarrow> task_struct \<Rightarrow> addr \<Rightarrow> s32 \<Rightarrow> task_struct \<Rightarrow> task_struct" where
  "linked_task b args cur c p nr t = seccomp_task c (parent_task b args cur c (ids_task (arg_flags args) c p nr t))"

lemma linked_task_sel:
  "task_files (linked_task b args cur c p nr t) = task_files t" "task_fs (linked_task b args cur c p nr t) = task_fs t"
  "task_sighand (linked_task b args cur c p nr t) = task_sighand t" "task_signal (linked_task b args cur c p nr t) = task_signal t"
  "task_mm (linked_task b args cur c p nr t) = task_mm t" "active_mm (linked_task b args cur c p nr t) = active_mm t"
  "task_nsproxy (linked_task b args cur c p nr t) = task_nsproxy t" "task_io_context (linked_task b args cur c p nr t) = task_io_context t"
  "set_child_tid (linked_task b args cur c p nr t) = set_child_tid t" "clear_child_tid (linked_task b args cur c p nr t) = clear_child_tid t"
  "max_socket_allowed (linked_task b args cur c p nr t) = max_socket_allowed t" "priority_level (linked_task b args cur c p nr t) = priority_level t"
  "socket_count (linked_task b args cur c p nr t) = socket_count t" "stack_refcount (linked_task b args cur c p nr t) = stack_refcount t"
  "task_usage (linked_task b args cur c p nr t) = task_usage t" "vfork_done (linked_task b args cur c p nr t) = vfork_done t"
  "task_stack (linked_task b args cur c p nr t) = task_stack t" "kv_store (linked_task b args cur c p nr t) = kv_store t"
  "kv_locks (linked_task b args cur c p nr t) = kv_locks t"
  "seccomp_mode (linked_task b args cur c p nr t) = seccomp_mode c" "seccomp_filter (linked_task b args cur c p nr t) = seccomp_filter c" "pdeath_signal (linked_task b args cur c p nr t) = 0"
  "pid (linked_task b args cur c p nr t) = nr" "tgid (linked_task b args cur c p nr t) = (if has (arg_flags args) CLONE_THREAD then tgid c else nr)"
  "group_leader (linked_task b args cur c p nr t) = (if has (arg_flags args) CLONE_THREAD then group_leader c else p)"
  "real_parent (linked_task b args cur c p nr t) = (if has (arg_flags args) (CLONE_PARENT OR CLONE_THREAD) then real_parent c else cur)"
  by (simp_all add: linked_task_def seccomp_task_def parent_task_def ids_task_def Let_def)

lemma linked_task_exit:
  "exit_signal (linked_task b args cur c p nr t) = (if has (arg_flags args) CLONE_THREAD then - 1
     else if has (arg_flags args) CLONE_PARENT then exit_signal (the_task b (group_leader c)) else ucast (arg_exit_signal args))"
  unfolding linked_task_def seccomp_task_sel parent_task_def Let_def has_or by simp

lemma linked_fields:
  assumes pre: "fork_pre E args cur c s" and st: "st \<notin> stacks_used s" and n: "cp_namespaces E = Inr n" and x: "io_shared E (arg_flags args) c x"
    and b: "tasks b = (tasks s)(cur \<mapsto> clear_exceeded c)"
    and t: "t = share_task E (arg_flags args) (clear_exceeded c) n x (child_made E args c st)"
    and kv: "has (arg_flags args) CLONE_THREAD \<Longrightarrow> kv = kv_store c \<and> lk = kv_locks c"
    and new: "\<not> has (arg_flags args) CLONE_THREAD \<Longrightarrow> new_store E (kvheap s) (t\<lparr>kv_store := kv, kv_locks := lk\<rparr>)"
  shows "child_fields E args cur c s nr (linked_task b args cur (clear_exceeded c) (cp_task E) nr (t\<lparr>kv_store := kv, kv_locks := lk\<rparr>))"
proof -
  have l: "exit_signal (the_task b (group_leader c)) = exit_signal (the_task s (group_leader c))"
    using b pre by (simp add: the_task_def fork_pre_def parent_ok_def)
  have "new_store E (kvheap s) (linked_task b args cur (clear_exceeded c) (cp_task E) nr (t\<lparr>kv_store := kv, kv_locks := lk\<rparr>))"
    if "\<not> has (arg_flags args) CLONE_THREAD"
    using new [OF that] unfolding new_store_def linked_task_sel .
  then show ?thesis unfolding child_fields_def Let_def t
    using st n x kv l by (simp add: linked_task_sel linked_task_exit share_task_sel child_made_sel)
qed

lemma linked_child:
  assumes pre: "fork_pre E args cur c s" and l: "fork_linked E idle args cur c s nr fd s1" and r: "cp_link E idle args cur (cp_task E) nr fd s1 = (r, s')"
  shows "r = Inr (cp_task E) \<and> (if idle then nr = 0 else cp_alloc_pid E = Inr nr \<and> nr \<noteq> 0) \<and>
    (\<exists>t. tasks s' = (tasks s)(cur \<mapsto> clear_exceeded c, cp_task E \<mapsto> t) \<and> child_fields E args cur c s nr t \<and>
    nr_threads s' = nr_threads s + (if nr = 0 then 0 else 1) \<and> total_forks s' = total_forks s + 1 \<and>
    task_list s' = task_list s @ (if nr \<noteq> 0 \<and> 0 \<le> sint (exit_signal t) then [cp_task E] else []) \<and>
    (\<forall>q. task_children s' q = task_children s q @ (if nr \<noteq> 0 \<and> 0 \<le> sint (exit_signal t) \<and> q = real_parent t then [cp_task E] else [])) \<and>
    (\<forall>q. thread_group s' q = thread_group s q @ (if nr \<noteq> 0 \<and> sint (exit_signal t) < 0 \<and> q = group_leader t then [cp_task E] else []))) \<and>
    count (res s') TasklistHeld = count (res s) TasklistHeld \<and> (\<forall>h. count (res s') (SiglockHeld h) = count (res s) (SiglockHeld h)) \<and>
    kvheap s' = kv_heap_after E (arg_flags args) (kvheap s)"
proof -
  let ?fl = "arg_flags args" and ?p = "cp_task E" and ?c = "clear_exceeded c"
  obtain st P cs V Sd n x M D G H I K kv lk where
      st: "st \<notin> stacks_used s" "cp_namespaces E = Inr n" "io_shared E ?fl ?c x" and
      nr: "if idle then nr = 0 else cp_alloc_pid E = Inr nr \<and> nr \<noteq> 0" and
      kv: "copy_process_kv (has ?fl CLONE_THREAD) (cp_kmalloc1 E) (cp_kv_junk1 E) (cp_kmalloc2 E) (cp_kv_junk2 E) ?c
         (share_task E ?fl ?c n x (child_made E args c st)) (kvheap s) =
         ((share_task E ?fl ?c n x (child_made E args c st))\<lparr>kv_store := kv, kv_locks := lk\<rparr>, K)" and
      s1: "s1 = cps (objs ((fork_base ?fl cur s ?p st P cs V Sd ?c (kvheap s))\<lparr>kvheap := K\<rparr>) M D G H I) ?p
         (parent_task (fork_base ?fl cur s ?p st P cs V Sd ?c (kvheap s)) args cur ?c
           (ids_task ?fl ?c ?p nr ((share_task E ?fl ?c n x (child_made E args c st))\<lparr>kv_store := kv, kv_locks := lk\<rparr>)))
         (link_toks idle ?fl ?p nr fd ?c (share_task E ?fl ?c n x (child_made E args c st)))"
    using l unfolding fork_linked_def Let_def by blast
  define b where "b = fork_base ?fl cur s ?p st P cs V Sd ?c (kvheap s)"
  define u where "u = share_task E ?fl ?c n x (child_made E args c st)"
  define t where "t = parent_task b args cur ?c (ids_task ?fl ?c ?p nr (u\<lparr>kv_store := kv, kv_locks := lk\<rparr>))"
  have s1': "s1 = cps (objs (b\<lparr>kvheap := K\<rparr>) M D G H I) ?p t (link_toks idle ?fl ?p nr fd ?c u)"
    unfolding s1 b_def u_def t_def ..
  have pc: "?p \<noteq> cur" using pre by (simp add: fork_pre_def parent_ok_def)
  have a: "tasks s1 ?p = Some t" "tasks s1 cur = Some ?c" "tasks s1 = (tasks s)(cur \<mapsto> ?c, ?p \<mapsto> t)"
    using pc unfolding s1' by (simp_all add: b_def)
  have K: "K = kv_heap_after E ?fl (kvheap s)"
    using kv copy_process_kv_heap [of ?fl E ?c "share_task E ?fl ?c n x (child_made E args c st)" "kvheap s"] by simp
  have th: "kv = kv_store c \<and> lk = kv_locks c" if "has ?fl CLONE_THREAD"
    using kv that arg_cong [of _ _ kv_store] arg_cong [of _ _ kv_locks] by (auto simp: copy_process_kv_def dest: arg_cong [of _ _ kv_store] arg_cong [of _ _ kv_locks])
  have new: "new_store E (kvheap s) (u\<lparr>kv_store := kv, kv_locks := lk\<rparr>)" if "\<not> has ?fl CLONE_THREAD"
  proof -
    have "fst (snd (init_task_kv_store (cp_kmalloc1 E) (cp_kv_junk1 E) (cp_kmalloc2 E) (cp_kv_junk2 E) u (kvheap s))) = u\<lparr>kv_store := kv, kv_locks := lk\<rparr>"
      using kv that by (simp add: copy_process_kv_def u_def)
    from arg_cong [OF this, of kv_store] arg_cong [OF this, of kv_locks]
    show ?thesis by (auto simp: new_store_def init_task_kv_store_def Let_def split: option.splits)
  qed
  have lt: "seccomp_task ?c t = linked_task b args cur ?c ?p nr (u\<lparr>kv_store := kv, kv_locks := lk\<rparr>)"
    by (simp add: linked_task_def t_def)
  have f: "child_fields E args cur c s nr (seccomp_task ?c t)" unfolding lt
    by (rule linked_fields [OF pre st(1,2)]) (use st(3) th new in \<open>simp_all add: u_def b_def\<close>)
  have s: "nr_threads s1 = nr_threads s" "total_forks s1 = total_forks s" "task_list s1 = task_list s" "task_children s1 = task_children s"
    "thread_group s1 = thread_group s" "kvheap s1 = K" "count (res s1) TasklistHeld = count (res s) TasklistHeld + 1"
    "count (res s1) (SiglockHeld h) = count (res s) (SiglockHeld h) + (if h = task_sighand c then 1 else 0)" for h
    unfolding s1' by (simp_all add: b_def count_link_toks objs_def)
  note e = cp_link_eff [OF a(1,2) pc r]
  show ?thesis
    by (intro conjI exI [of _ "seccomp_task ?c t"] allI)
      (use nr f in \<open>simp_all add: e s a(3) K\<close>)
qed

section \<open>The checks of copy_process\<close>

text \<open>
  What must hold for a call to get past the error exits: the flags are consistent, no signal is pending, the caller's limit on processes and the
  system's limit on threads are not reached, the caller's \<open>fs_struct\<close> is not in the middle of an \<open>exec\<close> when it is to be shared, the calls of
  other subsystems succeed, and at the last checks the pid namespace takes new processes and no fatal signal has arrived.
\<close>

definition late_guards :: "cp_env \<Rightarrow> bool \<Rightarrow> u64 \<Rightarrow> bool" where
  "late_guards E idle fl \<longleftrightarrow> (has fl CLONE_FS \<or> cp_new_fs E \<noteq> NULL) \<and> (has fl CLONE_SIGHAND \<or> cp_new_sighand E \<noteq> NULL) \<and>
     (has fl CLONE_THREAD \<or> cp_new_signal E \<noteq> NULL) \<and> \<not> isl (cp_namespaces E) \<and> cp_thread E = 0 \<and> (idle \<or> \<not> isl (cp_alloc_pid E)) \<and>
     (has fl CLONE_PIDFD \<longrightarrow> \<not> isl (cp_fd E) \<and> cp_pidfile E = 0 \<and> cp_put_user E = 0) \<and>
     cp_cgroup_can_fork E = 0 \<and> \<not> cp_ns_dying E \<and> \<not> cp_fatal_signal E"

definition cp_guards :: "cp_env \<Rightarrow> bool \<Rightarrow> kernel_clone_args \<Rightarrow> task_struct \<Rightarrow> fork_state \<Rightarrow> bool" where
  "cp_guards E idle args c s \<longleftrightarrow> copy_process_flags (cp_caller E) (arg_flags args) = 0 \<and> \<not> cp_sigpending E \<and> cp_task E \<noteq> NULL \<and>
     cp_arch_dup E = 0 \<and> cp_scs E = 0 \<and> 0 \<le> cp_creds E \<and> (cp_overlimit E \<longrightarrow> cp_privileged E) \<and> nr_threads s < max_threads s \<and>
     cp_mempolicy E = 0 \<and> cp_sched_fork E = 0 \<and> cp_perf E = 0 \<and> cp_audit E = 0 \<and> cp_security E = 0 \<and> cp_semundo E = 0 \<and>
     (has (arg_flags args) CLONE_FS \<longrightarrow> \<not> fs_in_exec s (task_fs c)) \<and> late_guards E idle (arg_flags args)"

text \<open>The allocations that are made only for some callers, or more than once.\<close>

definition cp_allocs :: "cp_env \<Rightarrow> bool" where
  "cp_allocs E \<longleftrightarrow> cp_vmalloc E \<noteq> NULL \<and> (\<forall>i. cp_charge E i = 0) \<and> \<not> isl (cp_dup_fd E) \<and> mm_env_succeeds (cp_mm E) \<and> cp_new_io E \<noteq> NULL"

lemma label_Inl:
  "fst (bad_fork_free cur p e s) = Inl e" "fst (bad_fork_cleanup_count cur p e s) = Inl e"
  "fst (bad_fork_cleanup_threadgroup_lock cur p e s) = Inl e" "fst (bad_fork_cleanup_policy cur p e s) = Inl e"
  "fst (bad_fork_cleanup_perf cur p e s) = Inl e" "fst (bad_fork_cleanup_audit cur p e s) = Inl e"
  "fst (bad_fork_cleanup_security cur p e s) = Inl e" "fst (bad_fork_cleanup_semundo cur p e s) = Inl e"
  "fst (bad_fork_cleanup_files cur p e s) = Inl e" "fst (bad_fork_cleanup_fs cur p e s) = Inl e"
  "fst (bad_fork_cleanup_sighand cur p e s) = Inl e" "fst (bad_fork_cleanup_signal fl cur p e s) = Inl e"
  "fst (bad_fork_cleanup_mm E fl cur p e s) = Inl e" "fst (bad_fork_cleanup_namespaces E fl cur p e s) = Inl e"
  "fst (bad_fork_cleanup_io E fl cur p e s) = Inl e" "fst (bad_fork_cleanup_thread E fl cur p e s) = Inl e"
  "fst (bad_fork_free_pid E idle fl cur p nr e s) = Inl e" "fst (bad_fork_put_pidfd E idle fl cur p nr fd e s) = Inl e"
  "fst (bad_fork_cancel_cgroup E idle fl cur p nr fd e s) = Inl e" "fst (fork_out cur e s) = Inl e"
  unfolding bad_fork_free_def bad_fork_cleanup_count_def bad_fork_cleanup_threadgroup_lock_def bad_fork_cleanup_policy_def
    bad_fork_cleanup_perf_def bad_fork_cleanup_audit_def bad_fork_cleanup_security_def bad_fork_cleanup_semundo_def
    bad_fork_cleanup_files_def bad_fork_cleanup_fs_def bad_fork_cleanup_sighand_def bad_fork_cleanup_signal_def
    bad_fork_cleanup_mm_def bad_fork_cleanup_namespaces_def bad_fork_cleanup_io_def bad_fork_cleanup_thread_def
    bad_fork_free_pid_def bad_fork_put_pidfd_def bad_fork_cancel_cgroup_def fork_out_def Let_def fst_conv by (rule refl)+

lemma label_not_Inr [simp]:
  "bad_fork_free cur p e s \<noteq> (Inr q, x)" "bad_fork_cleanup_count cur p e s \<noteq> (Inr q, x)"
  "bad_fork_cleanup_threadgroup_lock cur p e s \<noteq> (Inr q, x)" "bad_fork_cleanup_policy cur p e s \<noteq> (Inr q, x)"
  "bad_fork_cleanup_perf cur p e s \<noteq> (Inr q, x)" "bad_fork_cleanup_audit cur p e s \<noteq> (Inr q, x)"
  "bad_fork_cleanup_security cur p e s \<noteq> (Inr q, x)" "bad_fork_cleanup_semundo cur p e s \<noteq> (Inr q, x)"
  "bad_fork_cleanup_files cur p e s \<noteq> (Inr q, x)" "bad_fork_cleanup_fs cur p e s \<noteq> (Inr q, x)"
  "bad_fork_cleanup_sighand cur p e s \<noteq> (Inr q, x)" "bad_fork_cleanup_signal fl cur p e s \<noteq> (Inr q, x)"
  "bad_fork_cleanup_mm E fl cur p e s \<noteq> (Inr q, x)" "bad_fork_cleanup_namespaces E fl cur p e s \<noteq> (Inr q, x)"
  "bad_fork_cleanup_io E fl cur p e s \<noteq> (Inr q, x)" "bad_fork_cleanup_thread E fl cur p e s \<noteq> (Inr q, x)"
  "bad_fork_free_pid E idle fl cur p nr e s \<noteq> (Inr q, x)" "bad_fork_put_pidfd E idle fl cur p nr fd e s \<noteq> (Inr q, x)"
  "bad_fork_cancel_cgroup E idle fl cur p nr fd e s \<noteq> (Inr q, x)" "fork_out cur e s \<noteq> (Inr q, x)"
  using label_Inl by (metis fst_conv sum.simps(4))+

lemma cp_ids_guards:
  assumes "fst (cp_ids E idle args cur p nr fd s) = Inr q"
  shows "cp_cgroup_can_fork E = 0 \<and> \<not> cp_ns_dying E \<and> \<not> cp_fatal_signal E"
  using assms by (auto simp: cp_ids_def cp_parent_def Let_def label_Inl split: prod.splits if_splits)

lemma cp_pid_guards:
  assumes "fst (cp_pid E idle args cur p s) = Inr q"
  shows "(idle \<or> \<not> isl (cp_alloc_pid E)) \<and> (has (arg_flags args) CLONE_PIDFD \<longrightarrow> \<not> isl (cp_fd E) \<and> cp_pidfile E = 0 \<and> cp_put_user E = 0) \<and>
     cp_cgroup_can_fork E = 0 \<and> \<not> cp_ns_dying E \<and> \<not> cp_fatal_signal E"
  using assms by (auto simp: cp_pid_def Let_def label_Inl dest: cp_ids_guards split: sum.splits if_splits)

lemma cp_ns_guards:
  assumes "fst (cp_ns E idle args cur p s) = Inr q"
  shows "\<not> isl (cp_namespaces E) \<and> cp_thread E = 0 \<and> (\<exists>s. fst (cp_pid E idle args cur p s) = Inr q)"
  using assms by (auto simp: cp_ns_def cp_io_def Let_def label_Inl split: prod.splits sum.splits if_splits)

lemma cp_sighand_guards:
  assumes "fst (cp_sighand E idle args cur p s) = Inr q"
  shows "(has (arg_flags args) CLONE_SIGHAND \<or> cp_new_sighand E \<noteq> NULL) \<and> (has (arg_flags args) CLONE_THREAD \<or> cp_new_signal E \<noteq> NULL) \<and>
     (\<exists>s. fst (cp_ns E idle args cur p s) = Inr q)"
  using assms
  by (auto simp: cp_sighand_def cp_signal_def cp_memory_def copy_sighand_def copy_signal_def Let_def label_Inl split: prod.splits if_splits)

lemma cp_fs_guards:
  assumes "fst (cp_fs E idle args cur p s) = Inr q"
  shows "late_guards E idle (arg_flags args) \<and> (has (arg_flags args) CLONE_FS \<longrightarrow> \<not> fs_in_exec s (task_fs (the_task s cur)))"
proof -
  have "(has (arg_flags args) CLONE_FS \<or> cp_new_fs E \<noteq> NULL) \<and> (has (arg_flags args) CLONE_FS \<longrightarrow> \<not> fs_in_exec s (task_fs (the_task s cur))) \<and>
      (\<exists>s. fst (cp_sighand E idle args cur p s) = Inr q)"
    using assms by (auto simp: cp_fs_def copy_fs_def Let_def label_Inl split: prod.splits if_splits)
  then show ?thesis unfolding late_guards_def using cp_sighand_guards cp_ns_guards cp_pid_guards by metis
qed

lemma cp_sched_guards:
  assumes "fst (cp_sched E idle args cur p s) = Inr q" "p \<noteq> cur"
  shows "cp_sched_fork E = 0 \<and> cp_perf E = 0 \<and> cp_audit E = 0 \<and> cp_security E = 0 \<and> cp_semundo E = 0 \<and>
    late_guards E idle (arg_flags args) \<and> (has (arg_flags args) CLONE_FS \<longrightarrow> \<not> fs_in_exec s (task_fs (the_task s cur)))"
proof -
  let ?t = "res_get (Semundo p) (res_get (Security p) (res_get (Audit p) (res_get (Perf p) s)))"
  have z: "cp_sched_fork E = 0 \<and> cp_perf E = 0 \<and> cp_audit E = 0 \<and> cp_security E = 0 \<and> cp_semundo E = 0 \<and> fst (cp_files E idle args cur p ?t) = Inr q"
    using assms(1) by (simp add: cp_sched_def Let_def label_Inl split: if_splits)
  obtain e u where u: "copy_files E (arg_flags args) cur p ?t = (e, u)" by fastforce
  then have "fst (cp_fs E idle args cur p u) = Inr q" using z by (simp add: cp_files_def Let_def label_Inl split: if_splits)
  moreover have "fs_in_exec u = fs_in_exec s" "task_fs (the_task u cur) = task_fs (the_task s cur)"
    using u assms(2) by (auto simp: copy_files_def Let_def upd_task_def res_get_def the_task_def split: sum.splits if_splits option.splits)
  ultimately show ?thesis using z cp_fs_guards by metis
qed

lemma cp_init_guards:
  assumes "fst (cp_init E idle args cur p s) = Inr q" "p \<noteq> cur"
  shows "cp_mempolicy E = 0 \<and> cp_sched_fork E = 0 \<and> cp_perf E = 0 \<and> cp_audit E = 0 \<and> cp_security E = 0 \<and> cp_semundo E = 0 \<and>
    late_guards E idle (arg_flags args) \<and> (has (arg_flags args) CLONE_FS \<longrightarrow> \<not> fs_in_exec s (task_fs (the_task s cur)))"
proof -
  have "\<exists>u v. cp_init E idle args cur p s = (if cp_mempolicy E \<noteq> 0 then bad_fork_cleanup_threadgroup_lock cur p (cp_mempolicy E) u
      else cp_sched E idle args cur p v) \<and> fs_in_exec v = fs_in_exec s \<and> task_fs (the_task v cur) = task_fs (the_task s cur)"
    unfolding cp_init_def Let_def by (intro exI conjI, rule refl) (use assms(2) in \<open>simp_all add: upd_task_def res_get_def the_task_def\<close>)
  then obtain v where "cp_mempolicy E = 0" "fst (cp_sched E idle args cur p v) = Inr q" "fs_in_exec v = fs_in_exec s"
      "task_fs (the_task v cur) = task_fs (the_task s cur)"
    using assms(1) label_Inl(3) by (metis sum.distinct(1))
  then show ?thesis using cp_sched_guards assms(2) by metis
qed

lemma cp_creds_guards:
  assumes "fst (cp_creds_stage E idle args cur p s) = Inr q" "p \<noteq> cur"
  shows "0 \<le> cp_creds E \<and> (cp_overlimit E \<longrightarrow> cp_privileged E) \<and> nr_threads s < max_threads s \<and> cp_mempolicy E = 0 \<and>
    cp_sched_fork E = 0 \<and> cp_perf E = 0 \<and> cp_audit E = 0 \<and> cp_security E = 0 \<and> cp_semundo E = 0 \<and>
    late_guards E idle (arg_flags args) \<and> (has (arg_flags args) CLONE_FS \<longrightarrow> \<not> fs_in_exec s (task_fs (the_task s cur)))"
proof -
  have "\<exists>u v w. cp_creds_stage E idle args cur p s = (if cp_creds E < 0 then bad_fork_free cur p (cp_creds E) u
        else if cp_overlimit E \<and> \<not> cp_privileged E then bad_fork_cleanup_count cur p (- EAGAIN) v
        else if nr_threads w \<ge> max_threads w then bad_fork_cleanup_count cur p (- EAGAIN) w else cp_init E idle args cur p w) \<and>
      nr_threads w = nr_threads s \<and> max_threads w = max_threads s \<and> fs_in_exec w = fs_in_exec s \<and> task_fs (the_task w cur) = task_fs (the_task s cur)"
    unfolding cp_creds_stage_def Let_def
    by (intro exI conjI, rule refl) (use assms(2) in \<open>simp_all add: upd_task_def res_get_def the_task_def option.map_sel split: option.splits\<close>)
  then obtain u v w where w: "cp_creds_stage E idle args cur p s = (if cp_creds E < 0 then bad_fork_free cur p (cp_creds E) u
        else if cp_overlimit E \<and> \<not> cp_privileged E then bad_fork_cleanup_count cur p (- EAGAIN) v
        else if nr_threads w \<ge> max_threads w then bad_fork_cleanup_count cur p (- EAGAIN) w else cp_init E idle args cur p w)"
      "nr_threads w = nr_threads s" "max_threads w = max_threads s" "fs_in_exec w = fs_in_exec s" "task_fs (the_task w cur) = task_fs (the_task s cur)"
    by blast
  then have "0 \<le> cp_creds E \<and> (cp_overlimit E \<longrightarrow> cp_privileged E) \<and> nr_threads s < max_threads s \<and> fst (cp_init E idle args cur p w) = Inr q"
    using assms(1) by (auto simp: label_Inl split: if_splits)
  then show ?thesis using cp_init_guards [of E idle args cur p w q] assms(2) w(4,5) by simp
qed

lemma copy_process_guards:
  assumes pre: "fork_pre E args cur c s" and run: "copy_process E idle args cur s = (Inr q, s')"
  shows "cp_guards E idle args c s"
proof -
  let ?s = "add_delayed (arg_flags args) cur s"
  have d: "tasks ?s cur = Some c" "cp_task E \<noteq> NULL \<Longrightarrow> tasks ?s (cp_task E) = None" "stack_inv ?s" "cp_vmalloc E \<notin> vstacks ?s"
      "kmem_pages ?s \<subseteq> stacks_used ?s \<times> {..<STACK_PAGES}" and pc: "cp_task E \<noteq> cur"
    using pre by (simp_all add: fork_pre_def parent_ok_def)
  obtain p u where u: "dup_task_struct E cur ?s = (p, u)" by fastforce
  have f: "copy_process_flags (cp_caller E) (arg_flags args) = 0" "\<not> cp_sigpending E" "p \<noteq> NULL" "fst (cp_creds_stage E idle args cur p u) = Inr q"
    using run u by (auto simp: copy_process_def Let_def split: if_splits)
  have g: "cp_task E \<noteq> NULL" "cp_arch_dup E = 0" "cp_scs E = 0" "p = cp_task E"
    using u f(3) by (auto simp: dup_task_struct_def free_tsk_def free_stack_def Let_def split: if_splits prod.splits)
  obtain b t where e: "u = cps b p t {#}" "fs_in_exec b = fs_in_exec s" "nr_threads b = nr_threads s" "max_threads b = max_threads s" "tasks b cur = Some c"
  proof -
    from dup_task_struct_eff [OF d] u g
    obtain st P cs V Sd where "u = cps (dup_base ?s p st P cs V Sd) p (dup_task c st) {#}" by auto
    then show thesis by (rule that) (use d(1) pc g(4) in \<open>simp_all add: dup_base_def restack_def\<close>)
  qed
  have "fs_in_exec u = fs_in_exec s" "nr_threads u = nr_threads s" "max_threads u = max_threads s" "task_fs (the_task u cur) = task_fs c"
    using e pc g(4) by (simp_all add: the_task_def)
  then show ?thesis using f g cp_creds_guards [OF f(4)] pc by (simp add: cp_guards_def)
qed

lemma cp_pid_succeeds:
  assumes "late_guards E idle (arg_flags args)"
  shows "fst (cp_pid E idle args cur p s) = Inr p"
proof -
  have i: "fst (cp_ids E idle args cur p nr fd s) = Inr p" for idle nr fd s
    using assms by (simp add: cp_ids_def cp_parent_def cp_link_def late_guards_def Let_def split: prod.splits)
  show ?thesis using assms i by (auto simp: cp_pid_def late_guards_def Let_def split: sum.splits)
qed

lemma copy_succeeds:
  assumes "late_guards E idle fl" "cp_allocs E"
  shows "fst (copy_files E fl cur p s) = 0" "has fl CLONE_FS \<longrightarrow> \<not> fs_in_exec s (task_fs (the_task s cur)) \<Longrightarrow> fst (copy_fs E fl cur p s) = 0"
    "fst (copy_sighand E fl cur p s) = 0" "fst (copy_signal E fl cur p s) = 0" "fst (copy_mm E fl cur p s) = 0" "fst (copy_io E fl cur p s) = 0"
proof -
  show "fst (copy_files E fl cur p s) = 0" using assms by (cases "cp_dup_fd E") (simp_all add: copy_files_def cp_allocs_def Let_def)
  show "fst (copy_mm E fl cur p s) = 0"
    using assms dup_mm_succeeds [of "cp_mm E" p "task_mm (the_task (upd_task p (\<lambda>t. t\<lparr>task_mm := NULL, active_mm := NULL\<rparr>) s) cur)"
        "upd_task p (\<lambda>t. t\<lparr>task_mm := NULL, active_mm := NULL\<rparr>) s"]
    by (auto simp: copy_mm_def cp_allocs_def mm_env_succeeds_def Let_def split: prod.splits)
qed (use assms in \<open>auto simp: copy_fs_def copy_sighand_def copy_signal_def copy_io_def cp_allocs_def late_guards_def Let_def\<close>)

lemma cp_files_succeeds:
  assumes E: "late_guards E idle (arg_flags args)" "cp_allocs E" and f: "has (arg_flags args) CLONE_FS \<longrightarrow> \<not> fs_in_exec s (task_fs (the_task s cur))"
    and pc: "p \<noteq> cur"
  shows "fst (cp_files E idle args cur p s) = Inr p"
proof -
  have io: "fst (cp_io E idle args cur p s) = Inr p" for s
    using copy_succeeds(6) [OF E, of cur p s] cp_pid_succeeds [OF E(1)] E(1)
    by (simp add: cp_io_def late_guards_def Let_def case_prod_unfold)
  have ns: "fst (cp_ns E idle args cur p s) = Inr p" for s
    using io E(1) by (cases "cp_namespaces E") (simp_all add: cp_ns_def late_guards_def)
  have mm: "fst (cp_memory E idle args cur p s) = Inr p" for s
    using ns copy_succeeds(5) [OF E, of cur p s] by (simp add: cp_memory_def Let_def case_prod_unfold)
  have sg: "fst (cp_signal E idle args cur p s) = Inr p" for s
    using mm copy_succeeds(4) [OF E, of cur p s] by (simp add: cp_signal_def Let_def case_prod_unfold)
  have sh: "fst (cp_sighand E idle args cur p s) = Inr p" for s
    using sg copy_succeeds(3) [OF E, of cur p s] by (simp add: cp_sighand_def Let_def case_prod_unfold)
  have fs: "fst (cp_fs E idle args cur p s) = Inr p" if "has (arg_flags args) CLONE_FS \<longrightarrow> \<not> fs_in_exec s (task_fs (the_task s cur))" for s
    using sh copy_succeeds(2) [OF E that] by (simp add: cp_fs_def Let_def case_prod_unfold)
  have "fs_in_exec (snd (copy_files E (arg_flags args) cur p s)) = fs_in_exec s"
    "task_fs (the_task (snd (copy_files E (arg_flags args) cur p s)) cur) = task_fs (the_task s cur)"
    using pc by (auto simp: copy_files_def Let_def upd_task_def res_get_def the_task_def split: sum.split)
  then show ?thesis using fs f copy_succeeds(1) [OF E, of cur p s] by (simp add: cp_files_def Let_def case_prod_unfold)
qed

lemma cp_creds_succeeds:
  assumes g: "cp_guards E idle args c s" "cp_allocs E" and c: "task_fs (the_task s cur) = task_fs c" and pc: "p \<noteq> cur"
  shows "fst (cp_creds_stage E idle args cur p s) = Inr p"
proof -
  have l: "late_guards E idle (arg_flags args)" using g(1) by (simp add: cp_guards_def)
  have "fst (cp_files E idle args cur p u) = Inr p" if "fs_in_exec u = fs_in_exec s" "task_fs (the_task u cur) = task_fs (the_task s cur)" for u
    by (rule cp_files_succeeds [OF l g(2)]) (use g(1) pc c that in \<open>simp_all add: cp_guards_def\<close>)
  moreover have "(cp_overlimit E \<and> \<not> cp_privileged E) = False" using g(1) by (auto simp: cp_guards_def)
  ultimately show ?thesis using g(1) pc
    by (simp only: cp_creds_stage_def Let_def if_False)
      (simp add: cp_guards_def cp_init_def cp_sched_def Let_def upd_task_def res_get_def the_task_def option.map_comp o_def split: option.split)
qed

lemma charge_all_ok: "\<forall>i. c i = 0 \<Longrightarrow> fst (memcg_charge_kernel_stack c a s) = 0"
proof -
  have "\<forall>i. c i = 0 \<Longrightarrow> fst (charge_pages c a is s) = 0" for "is" by (induction "is" arbitrary: s) simp_all
  then show "\<forall>i. c i = 0 \<Longrightarrow> fst (memcg_charge_kernel_stack c a s) = 0" by (simp add: memcg_charge_kernel_stack_def)
qed

lemma dup_task_struct_succeeds:
  assumes E: "cp_allocs E" and g: "cp_task E \<noteq> NULL" "cp_arch_dup E = 0" "cp_scs E = 0"
  shows "fst (dup_task_struct E cur s) = cp_task E"
proof -
  obtain a s1 where a: "alloc_thread_stack_node (cp_vmalloc E) (s\<lparr>tasks := (tasks s)(cp_task E \<mapsto> cp_junk E)\<rparr>) = (a, s1)" by fastforce
  have "a \<noteq> NULL" using a E take_cached_Some by (fastforce simp: alloc_thread_stack_node_def cp_allocs_def split: option.splits)
  moreover have "fst (memcg_charge_kernel_stack (cp_charge E) a t) = 0" for t :: fork_state
    using E by (intro charge_all_ok) (simp add: cp_allocs_def)
  ultimately show ?thesis using g a by (simp add: dup_task_struct_def Let_def case_prod_unfold)
qed

lemma copy_process_succeeds_aux:
  assumes E: "cp_allocs E" and g: "cp_guards E idle args c s" and pre: "fork_pre E args cur c s"
  shows "fst (copy_process E idle args cur s) = Inr (cp_task E)"
proof -
  let ?s = "add_delayed (arg_flags args) cur s"
  have d: "tasks ?s cur = Some c" "cp_task E \<noteq> NULL \<Longrightarrow> tasks ?s (cp_task E) = None" "stack_inv ?s" "cp_vmalloc E \<notin> vstacks ?s"
      "kmem_pages ?s \<subseteq> stacks_used ?s \<times> {..<STACK_PAGES}" and n: "cp_task E \<noteq> NULL" "cp_arch_dup E = 0" "cp_scs E = 0" and pc: "cp_task E \<noteq> cur"
    using pre g by (simp_all add: fork_pre_def parent_ok_def cp_guards_def)
  obtain b t where dup: "dup_task_struct E cur ?s = (cp_task E, cps b (cp_task E) t {#})" "fs_in_exec b = fs_in_exec s" "nr_threads b = nr_threads s"
      "max_threads b = max_threads s" "tasks b cur = Some c"
  proof -
    from dup_task_struct_eff [OF d] dup_task_struct_succeeds [OF E n, of cur ?s] n(1)
    obtain st P cs V Sd where "dup_task_struct E cur ?s = (cp_task E, cps (dup_base ?s (cp_task E) st P cs V Sd) (cp_task E) (dup_task c st) {#})" by auto
    then show thesis by (rule that) (use d(1) pc in \<open>simp_all add: dup_base_def restack_def\<close>)
  qed
  have "fst (cp_creds_stage E idle args cur (cp_task E) (cps b (cp_task E) t {#})) = Inr (cp_task E)"
    by (rule cp_creds_succeeds [OF _ E, of _ _ c]) (use g dup pc in \<open>simp_all add: cp_guards_def the_task_def\<close>)
  then show ?thesis using g n(1) dup(1) by (simp add: copy_process_def cp_guards_def Let_def)
qed

section \<open>A fatal signal at the last check\<close>

abbreviation (input) killed :: "cp_env \<Rightarrow> cp_env" where "killed E \<equiv> E\<lparr>cp_fatal_signal := True\<rparr>"

lemma killed_sel:
  "cp_caller (killed E) = cp_caller E" "cp_sigpending (killed E) = cp_sigpending E" "cp_task (killed E) = cp_task E"
  "cp_junk (killed E) = cp_junk E" "cp_vmalloc (killed E) = cp_vmalloc E" "cp_charge (killed E) = cp_charge E"
  "cp_arch_dup (killed E) = cp_arch_dup E" "cp_scs (killed E) = cp_scs E" "cp_creds (killed E) = cp_creds E"
  "cp_overlimit (killed E) = cp_overlimit E" "cp_privileged (killed E) = cp_privileged E" "cp_mempolicy (killed E) = cp_mempolicy E"
  "cp_sched_fork (killed E) = cp_sched_fork E" "cp_perf (killed E) = cp_perf E" "cp_audit (killed E) = cp_audit E"
  "cp_security (killed E) = cp_security E" "cp_semundo (killed E) = cp_semundo E"
  by simp_all

lemma killed_copy [simp]:
  "copy_files (killed E) = copy_files E" "copy_fs (killed E) = copy_fs E" "copy_sighand (killed E) = copy_sighand E"
  "copy_signal (killed E) = copy_signal E" "copy_mm (killed E) = copy_mm E" "copy_io (killed E) = copy_io E"
  "dup_task_struct (killed E) = dup_task_struct E"
proof -
  show "dup_task_struct (killed E) = dup_task_struct E" unfolding fun_eq_iff dup_task_struct_def killed_sel by simp
qed (simp_all add: fun_eq_iff copy_files_def copy_fs_def copy_sighand_def copy_signal_def copy_mm_def copy_io_def Let_def)

lemma cp_link_kvheap: "kvheap (snd (cp_link E idle args cur p nr fd s)) = kvheap s"
proof -
  have "kvheap (copy_seccomp cur p s) = kvheap s" by (simp add: copy_seccomp_def Let_def)
  then show ?thesis using joined_sel(8) [OF refl] by (simp add: cp_link_alt Let_def oom_sel)
qed

text \<open>\<open>dies r r1\<close>: the run that ended in \<open>r1\<close> ends in \<open>r\<close> when the signal arrives, with the key-value store of the child in place.\<close>

definition dies :: "cp_env \<Rightarrow> bool \<Rightarrow> u64 \<Rightarrow> addr \<Rightarrow> addr \<Rightarrow> cp_result \<Rightarrow> fork_state \<Rightarrow> bool" where
  "dies E idle fl cur p r s1 \<longleftrightarrow> (\<exists>nr fd s2. r = bad_fork_cancel_cgroup (killed E) idle fl cur p nr fd (- EINTR) s2 \<and> kvheap s2 = kvheap s1)"

lemma cp_ids_dies:
  assumes "cp_ids E idle args cur p nr fd s = (Inr q, s1)"
  shows "dies E idle (arg_flags args) cur p (cp_ids (killed E) idle args cur p nr fd s) s1"
proof -
  have p: "dies E idle (arg_flags args) cur p (cp_parent (killed E) idle args cur p nr fd s) s1"
    if r: "cp_parent E idle args cur p nr fd s = (Inr q, s1)" for s
  proof -
    have ok: "cp_cgroup_can_fork E = 0" "\<not> cp_ns_dying E" "\<not> cp_fatal_signal E"
      using r by (auto simp: cp_parent_def Let_def split: if_splits)
    obtain s2 where s2: "cp_parent E idle args cur p nr fd s = cp_link E idle args cur p nr fd s2"
        "cp_parent (killed E) idle args cur p nr fd s = bad_fork_cancel_cgroup (killed E) idle (arg_flags args) cur p nr fd (- EINTR) s2"
      using ok by (simp add: cp_parent_def Let_def)
    then have "kvheap s2 = kvheap s1" using r cp_link_kvheap [of E idle args cur p nr fd s2] by (metis snd_conv)
    then show ?thesis unfolding dies_def s2(2) by blast
  qed
  show ?thesis using assms unfolding cp_ids_def Let_def by (auto simp: case_prod_unfold intro!: p)
qed

lemma cp_pid_dies:
  "cp_pid E idle args cur p s = (Inr q, s1) \<Longrightarrow> dies E idle (arg_flags args) cur p (cp_pid (killed E) idle args cur p s) s1"
  by (auto simp: cp_pid_def Let_def intro!: cp_ids_dies split: if_splits sum.splits)

lemma cp_io_dies:
  "cp_io E idle args cur p s = (Inr q, s1) \<Longrightarrow> dies E idle (arg_flags args) cur p (cp_io (killed E) idle args cur p s) s1"
  by (auto simp: cp_io_def case_prod_unfold Let_def intro!: cp_pid_dies split: if_splits)

lemma cp_ns_dies:
  "cp_ns E idle args cur p s = (Inr q, s1) \<Longrightarrow> dies E idle (arg_flags args) cur p (cp_ns (killed E) idle args cur p s) s1"
  by (auto simp: cp_ns_def intro!: cp_io_dies split: sum.splits)

lemma cp_memory_dies:
  "cp_memory E idle args cur p s = (Inr q, s1) \<Longrightarrow> dies E idle (arg_flags args) cur p (cp_memory (killed E) idle args cur p s) s1"
  by (auto simp: cp_memory_def case_prod_unfold Let_def intro!: cp_ns_dies split: if_splits)

lemma cp_signal_dies:
  "cp_signal E idle args cur p s = (Inr q, s1) \<Longrightarrow> dies E idle (arg_flags args) cur p (cp_signal (killed E) idle args cur p s) s1"
  by (auto simp: cp_signal_def case_prod_unfold Let_def intro!: cp_memory_dies split: if_splits)

lemma cp_sighand_dies:
  "cp_sighand E idle args cur p s = (Inr q, s1) \<Longrightarrow> dies E idle (arg_flags args) cur p (cp_sighand (killed E) idle args cur p s) s1"
  by (auto simp: cp_sighand_def case_prod_unfold Let_def intro!: cp_signal_dies split: if_splits)

lemma cp_fs_dies:
  "cp_fs E idle args cur p s = (Inr q, s1) \<Longrightarrow> dies E idle (arg_flags args) cur p (cp_fs (killed E) idle args cur p s) s1"
  by (auto simp: cp_fs_def case_prod_unfold Let_def intro!: cp_sighand_dies split: if_splits)

lemma cp_files_dies:
  "cp_files E idle args cur p s = (Inr q, s1) \<Longrightarrow> dies E idle (arg_flags args) cur p (cp_files (killed E) idle args cur p s) s1"
  by (auto simp: cp_files_def case_prod_unfold Let_def intro!: cp_fs_dies split: if_splits)

lemma cp_creds_dies:
  "cp_creds_stage E idle args cur p s = (Inr q, s1) \<Longrightarrow> dies E idle (arg_flags args) cur p (cp_creds_stage (killed E) idle args cur p s) s1"
proof -
  have i: "dies E idle (arg_flags args) cur p (cp_init (killed E) idle args cur p s) s1" if "cp_init E idle args cur p s = (Inr q, s1)" for s
    using that unfolding cp_init_def cp_sched_def Let_def killed_sel
    by (simp only: split: if_splits) (simp_all add: cp_files_dies)
  show "cp_creds_stage E idle args cur p s = (Inr q, s1) \<Longrightarrow> dies E idle (arg_flags args) cur p (cp_creds_stage (killed E) idle args cur p s) s1"
  proof -
    assume r: "cp_creds_stage E idle args cur p s = (Inr q, s1)"
    have bad: False if "bad_fork_cleanup_count cur p e x = (Inr q, s1) \<or> bad_fork_free cur p e x = (Inr q, s1)" for e x using that by simp
    have 1: "\<not> cp_creds E < 0"
      using r bad unfolding cp_creds_stage_def Let_def by (cases "cp_creds E < 0") (simp only: if_True, blast, simp)
    have 2: "\<not> (cp_overlimit E \<and> \<not> cp_privileged E)"
      using r bad unfolding cp_creds_stage_def Let_def if_not_P [OF 1] by (cases "cp_overlimit E \<and> \<not> cp_privileged E") (simp only: if_True simp_thms, blast, simp)
    have "\<exists>s3. cp_creds_stage E idle args cur p s = (if nr_threads s3 \<ge> max_threads s3 then bad_fork_cleanup_count cur p (- EAGAIN) s3
          else cp_init E idle args cur p s3) \<and>
        cp_creds_stage (killed E) idle args cur p s = (if nr_threads s3 \<ge> max_threads s3 then bad_fork_cleanup_count cur p (- EAGAIN) s3
          else cp_init (killed E) idle args cur p s3)"
      unfolding cp_creds_stage_def Let_def killed_sel if_not_P [OF 1] if_not_P [OF 2] by (intro exI conjI; rule refl)
    then show ?thesis using r i bad by (metis (no_types, lifting))
  qed
qed

lemma copy_process_dies:
  assumes "copy_process E idle args cur s = (Inr q, s1)"
  shows "\<exists>p. dies E idle (arg_flags args) cur p (copy_process (killed E) idle args cur s) s1"
proof -
  obtain p s2 where d: "dup_task_struct E cur (add_delayed (arg_flags args) cur s) = (p, s2)" by fastforce
  then have "copy_process E idle args cur s = cp_creds_stage E idle args cur p s2" "copy_process (killed E) idle args cur s = cp_creds_stage (killed E) idle args cur p s2"
    using assms by (auto simp: copy_process_def Let_def split: if_splits)
  then show ?thesis using cp_creds_dies assms by metis
qed


text \<open>No label touches the heap of the key-value stores.\<close>

lemma mmput_kvheap: "kvheap (mmput E a s) = kvheap s" for s :: fork_state
  by (auto simp: mmput_def mmput_last_def mmdrop_def mmdrop_last_def set_mm_exe_file_def put_exe_file_def free_mm_def upd_mm_def
      release_def acquire_def Let_def split: option.splits)

lemma stack_kvheap: "kvheap (free_thread_stack a s) = kvheap s" for s :: fork_state
  by (simp add: free_eff)

lemma bad_fork_free_kvheap: "kvheap (snd (bad_fork_free cur p e s)) = kvheap s"
  by (simp add: bad_fork_free_def fork_out_def free_task_def put_task_stack_def release_task_stack_def account_kernel_stack_eq stack_kvheap Let_def)

lemma objects_kvheap:
  "kvheap (exit_files p s) = kvheap s" "kvheap (exit_fs p s) = kvheap s" "kvheap (cleanup_sighand h s) = kvheap s"
  "kvheap (free_signal_struct g s) = kvheap s" "kvheap (exit_io_context p s) = kvheap s" "kvheap (mm_clear_owner a p s) = kvheap s"
  by (simp_all add: exit_files_def exit_fs_def cleanup_sighand_def free_signal_struct_def exit_io_context_def mm_clear_owner_def Let_def)

lemma cancel_kvheap: "kvheap (snd (bad_fork_cancel_cgroup E idle fl cur p nr fd e s)) = kvheap s"
proof -
  have sem: "kvheap (snd (bad_fork_cleanup_semundo cur p e s)) = kvheap s" for s
    by (simp add: bad_fork_cleanup_semundo_def bad_fork_cleanup_security_def bad_fork_cleanup_audit_def bad_fork_cleanup_perf_def
        bad_fork_cleanup_policy_def bad_fork_cleanup_threadgroup_lock_def bad_fork_cleanup_count_def bad_fork_free_kvheap)
  have sig: "kvheap (snd (bad_fork_cleanup_signal fl cur p e s)) = kvheap s" for s
    by (simp add: bad_fork_cleanup_signal_def bad_fork_cleanup_sighand_def bad_fork_cleanup_fs_def bad_fork_cleanup_files_def sem objects_kvheap)
  have io: "kvheap (snd (bad_fork_cleanup_io E fl cur p e s)) = kvheap s" for s
    by (simp add: bad_fork_cleanup_io_def bad_fork_cleanup_namespaces_def bad_fork_cleanup_mm_def sig objects_kvheap mmput_kvheap Let_def)
  show ?thesis
    by (simp add: bad_fork_cancel_cgroup_def bad_fork_put_pidfd_def bad_fork_free_pid_def bad_fork_cleanup_thread_def io Let_def)
qed

lemma killed_leaves_store:
  assumes "copy_process E idle args cur s = (Inr q, s1)"
  obtains s2 where "copy_process (killed E) idle args cur s = (Inl (- EINTR), s2)" "kvheap s2 = kvheap s1"
proof -
  obtain p nr fd s3 where d: "copy_process (killed E) idle args cur s = bad_fork_cancel_cgroup (killed E) idle (arg_flags args) cur p nr fd (- EINTR) s3"
      "kvheap s3 = kvheap s1"
    using copy_process_dies [OF assms] unfolding dies_def by blast
  show thesis
    by (rule that [of "snd (copy_process (killed E) idle args cur s)"])
      (use d cancel_kvheap label_Inl(19) in \<open>simp_all add: prod_eq_iff\<close>)
qed

lemma cp_link_not_Inl [simp]: "cp_link E idle args cur p nr fd s \<noteq> (Inl e, x)"
  by (simp add: cp_link_def Let_def)

lemma copy_process_residue:
  assumes "fork_pre E args cur c s" "copy_process E idle args cur s = (Inl e, s')"
  shows "e \<noteq> 0 \<and> fork_residue E (arg_flags args) cur c s s'"
  using copy_process_cases [OF assms(1), of idle] unfolding assms(2)
  by (metis Pair_inject cp_link_not_Inl sum.inject(1))

section \<open>Properties\<close>

text \<open>
  C1: a call of \<open>copy_process\<close> that fails, at whichever of its steps, returns an error and gives back everything it took except the key-value
  arrays of the child. The state is as before but for three things: stacks may have moved between the allocator and the per-CPU cache (the stacks
  in use are the same and the cache is still well formed), \<open>PF_NPROC_EXCEEDED\<close> of the caller may be cleared, and the heap of the key-value stores is
  either as it was or what \<open>init_task_kv_store\<close> made of it for the child: the error labels behind that call do not undo it.
\<close>

theorem copy_process_undoes:
  assumes "fork_pre E args cur c s" and "copy_process E idle args cur s = (Inl e, s')"
  shows "e \<noteq> 0 \<and> stacks_used s' = stacks_used s \<and> stack_inv s' \<and>
    (\<exists>cs V Sd c' K. s' = s\<lparr>cached_stacks := cs, vstacks := V, stack_dirty := Sd, tasks := (tasks s)(cur \<mapsto> c'), kvheap := K\<rparr> \<and>
       c' \<in> {c, clear_exceeded c} \<and> K \<in> {kvheap s, kv_heap_after E (arg_flags args) (kvheap s)})"
proof -
  have "e \<noteq> 0" "fork_residue E (arg_flags args) cur c s s'"
    using copy_process_residue [OF assms] by blast+
  moreover from this(2) obtain cs V Sd c' K where
      eq: "s' = s\<lparr>cached_stacks := cs, vstacks := V, stack_dirty := Sd, tasks := (tasks s)(cur \<mapsto> c'), kvheap := K\<rparr>"
      "c' \<in> {c, clear_exceeded c}" "K \<in> {kvheap s, kv_heap_after E (arg_flags args) (kvheap s)}" and st: "stacks_same s cs V"
    unfolding fork_residue_def restack_def by blast
  moreover have "stacks_used s' = stacks_used s" "stack_inv s'"
    using st unfolding eq(1) by (simp_all add: stacks_same_def stacks_used_def stack_inv_def)
  ultimately show ?thesis by blast
qed

text \<open>
  C2: a successful \<open>copy_process\<close> returns the new task, enters it and leaves every other task alone; the
  child shares or copies files, working directory, signal handlers, signal state, address space and I/O
  context as the flags say, has the identifiers, parent and exit signal of a thread or of a process,
  is counted, is linked into the thread group of its leader or into the task list and the children of
  its parent, and both locks taken on the way are released.
\<close>

theorem copy_process_child:
  assumes "fork_pre E args cur c s" and "copy_process E idle args cur s = (Inr q, s')"
    and "0 \<le> sint (ucast (arg_exit_signal args) :: s32)" and "0 \<le> sint (exit_signal (the_task s (group_leader c)))"
  shows "q = cp_task E \<and> (\<exists>t nr. (if idle then nr = 0 else cp_alloc_pid E = Inr nr \<and> nr \<noteq> 0) \<and>
    tasks s' = (tasks s)(cur \<mapsto> clear_exceeded c, q \<mapsto> t) \<and> child_fields E args cur c s nr t \<and>
    nr_threads s' = nr_threads s + (if idle then 0 else 1) \<and> total_forks s' = total_forks s + 1 \<and>
    task_list s' = task_list s @ (if \<not> idle \<and> \<not> has (arg_flags args) CLONE_THREAD then [q] else []) \<and>
    task_children s' = (if \<not> idle \<and> \<not> has (arg_flags args) CLONE_THREAD
      then (task_children s)(real_parent t := task_children s (real_parent t) @ [q]) else task_children s) \<and>
    thread_group s' = (if \<not> idle \<and> has (arg_flags args) CLONE_THREAD
      then (thread_group s)(group_leader c := thread_group s (group_leader c) @ [q]) else thread_group s)) \<and>
    count (res s') TasklistHeld = count (res s) TasklistHeld \<and> (\<forall>h. count (res s') (SiglockHeld h) = count (res s) (SiglockHeld h))"
proof -
  obtain nr fd s1 where l: "fork_linked E idle args cur c s nr fd s1" "copy_process E idle args cur s = cp_link E idle args cur (cp_task E) nr fd s1"
    using copy_process_cases [OF assms(1), of idle] assms(2) by auto
  note r = linked_child [OF assms(1) l(1) l(2) [symmetric, unfolded assms(2)]]
  then obtain t where t: "tasks s' = (tasks s)(cur \<mapsto> clear_exceeded c, cp_task E \<mapsto> t)" "child_fields E args cur c s nr t"
      "nr_threads s' = nr_threads s + (if nr = 0 then 0 else 1)" "total_forks s' = total_forks s + 1"
      "task_list s' = task_list s @ (if nr \<noteq> 0 \<and> 0 \<le> sint (exit_signal t) then [cp_task E] else [])"
      "\<And>q. task_children s' q = task_children s q @ (if nr \<noteq> 0 \<and> 0 \<le> sint (exit_signal t) \<and> q = real_parent t then [cp_task E] else [])"
      "\<And>q. thread_group s' q = thread_group s q @ (if nr \<noteq> 0 \<and> sint (exit_signal t) < 0 \<and> q = group_leader t then [cp_task E] else [])"
    by blast
  have nr: "(nr = 0) = idle" using r by (auto split: if_splits)
  have ex: "(0 \<le> sint (exit_signal t)) = (\<not> has (arg_flags args) CLONE_THREAD)"
    using t(2) assms(3,4) unfolding child_fields_def Let_def by (auto split: if_splits)
  have gl: "has (arg_flags args) CLONE_THREAD \<Longrightarrow> group_leader t = group_leader c" using t(2) by (simp add: child_fields_def Let_def)
  have q: "q = cp_task E" using r by simp
  have ch: "task_children s' = (if \<not> idle \<and> \<not> has (arg_flags args) CLONE_THREAD
      then (task_children s)(real_parent t := task_children s (real_parent t) @ [q]) else task_children s)"
    using t(6) nr ex q by (auto simp: fun_eq_iff)
  have tg: "thread_group s' = (if \<not> idle \<and> has (arg_flags args) CLONE_THREAD
      then (thread_group s)(group_leader c := thread_group s (group_leader c) @ [q]) else thread_group s)"
    using t(7) nr ex gl q by (auto simp: fun_eq_iff not_le [symmetric])
  have tl: "task_list s' = task_list s @ (if \<not> idle \<and> \<not> has (arg_flags args) CLONE_THREAD then [q] else [])"
    "nr_threads s' = nr_threads s + (if idle then 0 else 1)" using t(3,5) nr ex q by auto
  have n: "if idle then nr = 0 else cp_alloc_pid E = Inr nr \<and> nr \<noteq> 0" using r by blast
  have k: "count (res s') TasklistHeld = count (res s) TasklistHeld" "\<forall>h. count (res s') (SiglockHeld h) = count (res s) (SiglockHeld h)"
    using r by blast+
  show ?thesis
    by (intro conjI exI [of _ t] exI [of _ nr]) (fact q n t(1) [folded q] t(2) tl(2) t(4) tl(1) ch tg k)+
qed

text \<open>
  C33: \<open>copy_process\<close> returns a task exactly when its checks pass. Whatever is allocated, a call that returns a task has passed every one of them: the
  flags are consistent, no signal was pending, neither the caller's limit on processes (unless it is privileged) nor the limit on threads was
  reached, a shared \<open>fs_struct\<close> was not in an \<open>exec\<close>, and so on. Conversely, when they hold and the stack, its memory charges and the copies of
  descriptor table, address space and I/O context can be had, it returns a task.
\<close>

theorem copy_process_succeeds:
  assumes "fork_pre E args cur c s"
  shows "(\<forall>q s'. copy_process E idle args cur s = (Inr q, s') \<longrightarrow> cp_guards E idle args c s) \<and>
    (cp_allocs E \<longrightarrow> (\<exists>s'. copy_process E idle args cur s = (Inr (cp_task E), s')) = cp_guards E idle args c s)"
  using copy_process_guards [OF assms, of idle] copy_process_succeeds_aux [OF _ _ assms, of idle] by (metis prod.collapse)

text \<open>
  C9: the key-value store of a child is not among what the error labels give back. Let a fork that is not
  a thread creation succeed, with \<open>st\<close> and \<open>lk\<close> the arrays its store got. The same fork interrupted by a fatal
  signal at its last check returns \<open>-EINTR\<close> and leaves both arrays allocated, although no task points to
  other arrays than before.
\<close>

theorem killed_fork_leaks_store:
  assumes "fork_pre E args cur c s" and "copy_process E idle args cur s = (Inr q, s1)" and "\<not> has (arg_flags args) CLONE_THREAD"
    and "fresh_alloc (cp_kmalloc1 E)" and "fresh_alloc (cp_kmalloc2 E)" and "length (cp_kv_junk1 E) = 1024" and "length (cp_kv_junk2 E) = 1024"
    and "cp_kmalloc1 E (kvheap s) = Some st" and "cp_kmalloc2 E ((kvheap s)(st \<mapsto> KBuckets (replicate 1024 []))) = Some lk"
  shows "\<exists>s2. copy_process (E\<lparr>cp_fatal_signal := True\<rparr>) idle args cur s = (Inl (- EINTR), s2) \<and>
    kvheap s st = None \<and> kvheap s lk = None \<and>
    kvheap s2 = (kvheap s)(st \<mapsto> KBuckets (replicate 1024 []), lk \<mapsto> KSpinlocks (replicate 1024 False)) \<and>
    (\<forall>p. map_option kv_store (tasks s2 p) = map_option kv_store (tasks s p) \<and>
         map_option kv_locks (tasks s2 p) = map_option kv_locks (tasks s p))"
proof -
  let ?E = "E\<lparr>cp_fatal_signal := True\<rparr>"
  obtain s2 where s2: "copy_process ?E idle args cur s = (Inl (- EINTR), s2)" "kvheap s2 = kvheap s1"
    by (rule killed_leaves_store [OF assms(2)])
  obtain nr fd s0 where l: "fork_linked E idle args cur c s nr fd s0" "copy_process E idle args cur s = cp_link E idle args cur (cp_task E) nr fd s0"
    using copy_process_cases [OF assms(1), of idle] assms(2) by auto
  have "kvheap s1 = kv_heap_after E (arg_flags args) (kvheap s)"
    using linked_child [OF assms(1) l(1) l(2) [symmetric, unfolded assms(2)]] by blast
  moreover have "kv_heap_after E (arg_flags args) (kvheap s) = (kvheap s)(st \<mapsto> KBuckets (replicate 1024 []), lk \<mapsto> KSpinlocks (replicate 1024 False))"
    using assms(3) init_task_kv_store_ok [OF assms(4-9)] by (simp add: kv_heap_after_def)
  moreover have "fork_pre ?E args cur c s" using assms(1) by (simp add: fork_pre_def cp_env_ok_def)
  then have "fork_residue ?E (arg_flags args) cur c s s2"
    using copy_process_residue s2(1) by blast
  then have "\<forall>p. map_option kv_store (tasks s2 p) = map_option kv_store (tasks s p) \<and> map_option kv_locks (tasks s2 p) = map_option kv_locks (tasks s p)"
    using assms(1) by (auto simp: fork_residue_def restack_def fork_pre_def parent_ok_def)
  moreover have "kvheap s st = None" "kvheap s lk = None"
    using fresh_allocD [OF assms(4,8)] fresh_allocD [OF assms(5,9)] by (auto split: if_splits)
  ultimately show ?thesis using s2 by (intro exI [of _ s2]) simp
qed


section \<open>Witnesses\<close>

text \<open>A process that calls \<open>vfork\<close> on an idle system.\<close>

definition example_alloc :: "addr \<Rightarrow> kmalloc_fn" where
  "example_alloc a h = (if h a = None then Some a else None)"

definition example_cp_env :: cp_env where
  "example_cp_env = \<lparr>cp_caller = \<lparr>signal_unkillable = False, pid_ns_differs = False, time_ns_differs = False\<rparr>,
     cp_sigpending = False, cp_task = 64, cp_junk = task_zero, cp_vmalloc = 4096, cp_charge = (\<lambda>_. 0), cp_arch_dup = 0, cp_scs = 0,
     cp_creds = 0, cp_overlimit = False, cp_privileged = False, cp_mempolicy = 0, cp_sched_fork = 0, cp_perf = 0, cp_audit = 0,
     cp_security = 0, cp_semundo = 0, cp_dup_fd = Inr 70, cp_new_fs = 72, cp_new_sighand = 74, cp_new_signal = 76,
     cp_mm = example_mm_env, cp_namespaces = Inr 78, cp_new_io = 80, cp_thread = 0, cp_alloc_pid = Inr 5, cp_fd = Inr 3,
     cp_pidfile = 0, cp_put_user = 0, cp_kmalloc1 = example_alloc 200, cp_kv_junk1 = replicate 1024 [], cp_kmalloc2 = example_alloc 208,
     cp_kv_junk2 = replicate 1024 False, cp_cgroup_can_fork = 0, cp_ns_dying = False, cp_fatal_signal = False,
     cp_child_reaper = False, cp_delayed = 0, cp_mmf_multiprocess = 0\<rparr>"

definition example_parent :: task_struct where
  "example_parent = task_zero\<lparr>task_stack := 2048, task_usage := 1, stack_refcount := 1, task_mm := 16, active_mm := 16, pid := 4, tgid := 4,
     real_parent := 8, group_leader := 8, task_fs := 24, task_files := 26, task_nsproxy := 28, task_signal := 30, task_sighand := 32,
     rcu_users := 2\<rparr>"

definition example_fork_state :: fork_state where
  "example_fork_state = \<lparr>mms = [16 \<mapsto> example_mm], held = mm_owned 16 example_mm, cached_stacks = [NULL, NULL], vstacks = {2048},
     stack_dirty = {2048}, kmem_pages = {}, kernel_stack_kb = 16, tasks = [8 \<mapsto> example_parent],
     signals = [30 \<mapsto> signal_zero\<lparr>sig_nr_threads := 1, sig_live := 1, sigcnt := 1, thread_head := [8]\<rparr>],
     res = {#FsRef 24, FilesRef 26, SighandRef 32, NsRef 28#}, sighands = [32 \<mapsto> (\<lambda>_. 0)], fs_in_exec = (\<lambda>_. False),
     io_contexts = Map.empty, kvheap = Map.empty, nr_threads = 1, max_threads = 100, total_forks = 0, process_counts = 1,
     task_children = (\<lambda>_. []), task_list = [8], thread_group = (\<lambda>_. [])\<rparr>"

lemma example_fork_pre: "fork_pre (example_cp_env\<lparr>cp_fatal_signal := x\<rparr>) vfork_args 8 example_parent example_fork_state"
proof -
  have m: "exit_mmap_ok (cp_mm example_cp_env)" "\<forall>i. uffd_ok (e_vma (cp_mm example_cp_env) i)" "deny_write_ok (cp_mm example_cp_env) R" for R
    using example_mm_env_ok by (simp_all add: example_cp_env_def)
  show ?thesis unfolding fork_pre_def parent_ok_def cp_env_ok_def kthread_ok_def using m
  by (simp add: example_fork_state_def example_parent_def vfork_args_def clone_args_zero_def has_def the_signal_def signal_zero_def stack_inv_def
      stacks_used_def task_zero_def example_mm_def mm_zero_def mm_owned_def exe_res_def cached_set_def)
    (simp add: example_cp_env_def example_mm_env_def)
qed

lemma example_succeeds: "cp_allocs example_cp_env" "cp_guards example_cp_env False vfork_args example_parent example_fork_state" "cp_task example_cp_env = 64"
  using example_mm_env_ok(4)
  by (simp_all add: cp_allocs_def cp_guards_def late_guards_def example_cp_env_def example_fork_state_def copy_process_flags_def vfork_args_def clone_args_zero_def has_def)

lemmas example_pre = example_fork_pre [of False, unfolded example_cp_env_def cp_env.update_convs, folded example_cp_env_def]


theorem copy_process_succeeds_witness:
  "\<exists>s'. copy_process example_cp_env False vfork_args 8 example_fork_state = (Inr 64, s')"
  using copy_process_succeeds [OF example_pre, of False] example_succeeds by simp

lemma example_forks: "\<exists>s'. copy_process example_cp_env False vfork_args 8 example_fork_state = (Inr 64, s')"
  using copy_process_succeeds_aux [OF example_succeeds(1,2) example_pre] unfolding example_succeeds(3) by (metis prod.collapse)

theorem copy_process_undoes_witness:
  "\<exists>s'. copy_process (example_cp_env\<lparr>cp_fatal_signal := True\<rparr>) False vfork_args 8 example_fork_state = (Inl (- EINTR), s') \<and>
     tasks s' 64 = None \<and> res s' = res example_fork_state \<and> mms s' = mms example_fork_state \<and> stacks_used s' = {2048}"
proof -
  obtain s1 where "copy_process example_cp_env False vfork_args 8 example_fork_state = (Inr 64, s1)" using example_forks by blast
  then obtain s' where r: "copy_process (example_cp_env\<lparr>cp_fatal_signal := True\<rparr>) False vfork_args 8 example_fork_state = (Inl (- EINTR), s')"
    by (rule killed_leaves_store)
  have u: "stacks_used example_fork_state = {2048}" "tasks example_fork_state 64 = None"
    by (simp_all add: example_fork_state_def stacks_used_def cached_set_def)
  from copy_process_undoes [OF example_fork_pre r]
  have "tasks s' 64 = None \<and> res s' = res example_fork_state \<and> mms s' = mms example_fork_state \<and> stacks_used s' = {2048}"
    using u by auto
  then show ?thesis using r by blast
qed

theorem copy_process_child_witness:
  "\<exists>s' t. copy_process example_cp_env False vfork_args 8 example_fork_state = (Inr 64, s') \<and> tasks s' 64 = Some t \<and>
     pid t = 5 \<and> tgid t = 5 \<and> group_leader t = 64 \<and> real_parent t = 8 \<and> task_mm t = 16 \<and> task_files t = 70 \<and>
     task_list s' = [8, 64] \<and> task_children s' 8 = [64]"
proof -
  obtain s1 where r: "copy_process example_cp_env False vfork_args 8 example_fork_state = (Inr 64, s1)" using example_forks by blast
  have x: "0 \<le> sint (ucast (arg_exit_signal vfork_args) :: s32)" "0 \<le> sint (exit_signal (the_task example_fork_state (group_leader example_parent)))"
    "\<not> has (arg_flags vfork_args) CLONE_THREAD" "\<not> has (arg_flags vfork_args) CLONE_PARENT" "\<not> has (arg_flags vfork_args) CLONE_FILES"
    "has (arg_flags vfork_args) CLONE_VM"
    by (simp_all add: vfork_args_def clone_args_zero_def example_fork_state_def example_parent_def the_task_def task_zero_def has_def)
  have e: "cp_alloc_pid example_cp_env = Inr 5" "cp_dup_fd example_cp_env = Inr 70" "task_list example_fork_state = [8]"
    "task_children example_fork_state 8 = []" "task_files example_parent = 26" "task_mm example_parent = 16"
    by (simp_all add: example_cp_env_def example_fork_state_def example_parent_def)
  from copy_process_child [OF example_pre r x(1,2)] obtain t where
      t: "tasks s1 = (tasks example_fork_state)(8 \<mapsto> clear_exceeded example_parent, 64 \<mapsto> t)"
      "child_fields example_cp_env vfork_args 8 example_parent example_fork_state 5 t" "task_list s1 = [8, 64]"
      "task_children s1 = (task_children example_fork_state)(real_parent t := task_children example_fork_state (real_parent t) @ [64])"
    using x(3) e by auto
  then have "real_parent t = 8" by (simp add: child_fields_def Let_def example_parent_def)
  then show ?thesis using r t x e example_succeeds(3)
    by (intro exI [of _ s1] exI [of _ t]) (simp add: child_fields_def child_mm_def child_files_def Let_def)
qed

theorem killed_fork_leaks_store_witness:
  "\<exists>s2. copy_process (example_cp_env\<lparr>cp_fatal_signal := True\<rparr>) False vfork_args 8 example_fork_state = (Inl (- EINTR), s2) \<and>
     kvheap s2 200 = Some (KBuckets (replicate 1024 [])) \<and> kvheap s2 208 = Some (KSpinlocks (replicate 1024 False)) \<and>
     map_option kv_store (tasks s2 8) = Some NULL \<and> tasks s2 64 = None"
proof -
  obtain s1 where r: "copy_process example_cp_env False vfork_args 8 example_fork_state = (Inr 64, s1)" using example_forks by blast
  have x: "\<not> has (arg_flags vfork_args) CLONE_THREAD" "fresh_alloc (cp_kmalloc1 example_cp_env)" "fresh_alloc (cp_kmalloc2 example_cp_env)"
    "length (cp_kv_junk1 example_cp_env) = 1024" "length (cp_kv_junk2 example_cp_env) = 1024"
    "cp_kmalloc1 example_cp_env (kvheap example_fork_state) = Some 200"
    "cp_kmalloc2 example_cp_env ((kvheap example_fork_state)(200 \<mapsto> KBuckets (replicate 1024 []))) = Some 208"
    by (simp_all add: vfork_args_def clone_args_zero_def has_def example_cp_env_def fresh_alloc_def example_alloc_def example_fork_state_def)
  have s: "tasks example_fork_state 8 = Some example_parent" "tasks example_fork_state 64 = None" "kv_store example_parent = NULL"
    by (simp_all add: example_fork_state_def example_parent_def)
  obtain s2 where "copy_process (example_cp_env\<lparr>cp_fatal_signal := True\<rparr>) False vfork_args 8 example_fork_state = (Inl (- EINTR), s2)"
      "kvheap s2 = (kvheap example_fork_state)(200 \<mapsto> KBuckets (replicate 1024 []), 208 \<mapsto> KSpinlocks (replicate 1024 False))"
      "map_option kv_store (tasks s2 8) = map_option kv_store (tasks example_fork_state 8)"
      "map_option kv_store (tasks s2 64) = map_option kv_store (tasks example_fork_state 64)"
    using killed_fork_leaks_store [OF example_pre r x] by blast
  then show ?thesis using s by (intro exI [of _ s2]) simp
qed

end
