(* ===== verification/Kernel_Clone.thy ===== *)
theory Kernel_Clone
  imports Fork_Correct
begin

text \<open>
  What surrounds \<open>copy_process\<close> (kernel/fork.c): \<open>kernel_clone\<close> and the system calls on it, the end of a
  \<open>vfork\<close>, the release of an address space and of a \<open>task_struct\<close>, access to the address space of another task,
  and the limit on the number of threads.
\<close>

section \<open>References to address spaces of tasks\<close>

definition get_task_mm :: "addr \<Rightarrow> fork_state \<Rightarrow> addr \<times> fork_state" where
  "get_task_mm task s =
    (let mm = task_mm (the_task s task)
     in if mm = NULL then (NULL, s)
        else if task_flags (the_task s task) AND PF_KTHREAD \<noteq> 0 then (NULL, s) else (mm, mmget mm s))"

definition get_task_exe_file :: "mm_env \<Rightarrow> addr \<Rightarrow> fork_state \<Rightarrow> addr \<times> fork_state" where
  "get_task_exe_file E task s =
    (let mm = task_mm (the_task s task)
     in if mm \<noteq> NULL \<and> task_flags (the_task s task) AND PF_KTHREAD = 0 then get_mm_exe_file E mm s else (NULL, s))"

text \<open>
  \<open>lock\<close> is the result of \<open>down_read_killable\<close> on the lock against \<open>exec\<close>, \<open>may_access\<close> the answer of
  \<open>ptrace_may_access\<close>.
\<close>

definition mm_access :: "mm_env \<Rightarrow> int \<Rightarrow> bool \<Rightarrow> addr \<Rightarrow> addr \<Rightarrow> fork_state \<Rightarrow> (int + addr) \<times> fork_state" where
  "mm_access E lock may_access cur task s =
    (if lock \<noteq> 0 then (Inl lock, s)
     else let (mm, s) = get_task_mm task s
          in if mm \<noteq> NULL \<and> mm \<noteq> task_mm (the_task s cur) \<and> \<not> may_access
             then (Inl (- EACCES), mmput E mm s) else (Inr mm, s))"

section \<open>Release of a task\<close>

definition put_signal_struct :: "addr \<Rightarrow> fork_state \<Rightarrow> fork_state" where
  "put_signal_struct g s =
    (let n = sigcnt (the_signal s g); s = upd_signal g (\<lambda>x. x\<lparr>sigcnt := n - 1\<rparr>) s
     in if n = 1 then free_signal_struct g s else s)"

text \<open>\<open>handoff\<close> says that the profiler has taken over the structure.\<close>

definition put_task_struct_last :: "bool \<Rightarrow> addr \<Rightarrow> fork_state \<Rightarrow> fork_state" where
  "put_task_struct_last handoff p s =
    (let s = res_put (CssSet p) s;
         s = res_put (Security p) s;
         s = res_put (Creds p) s;
         s = res_put (Delayacct p) s;
         s = put_signal_struct (task_signal (the_task s p)) s;
         s = res_put (SchedCore p) s
     in if handoff then s else free_task p s)"

definition put_task_struct :: "bool \<Rightarrow> addr \<Rightarrow> fork_state \<Rightarrow> fork_state" where
  "put_task_struct handoff p s =
    (let n = task_usage (the_task s p); s = upd_task p (\<lambda>t. t\<lparr>task_usage := n - 1\<rparr>) s
     in if n = 1 then put_task_struct_last handoff p s else s)"

section \<open>State of a clone\<close>

text \<open>
  Beside the tasks: the completions that exist and whether they are done, the tasks woken for the first
  time, what has been reported to a tracer, the words of user memory written, and the futexes woken. A report names the
  \<open>struct pid\<close> of the child, which stands for itself by its number in the initial namespace.
\<close>

datatype report = Report trace_event s32 | VforkDone s32

record clone_state =
  kfork :: fork_state
  completions :: "addr \<rightharpoonup> bool"
  woken :: "addr list"
  reports :: "report list"
  user_words :: "u64 \<Rightarrow> s32"
  futex_wakes :: "u64 list"

definition on_fork :: "(fork_state \<Rightarrow> fork_state) \<Rightarrow> clone_state \<Rightarrow> clone_state" where
  "on_fork f w = w\<lparr>kfork := f (kfork w)\<rparr>"

section \<open>The end of a vfork\<close>

definition complete :: "addr \<Rightarrow> clone_state \<Rightarrow> clone_state kres" where
  "complete x w = (if completions w x = None then Inl (BadAddr x) else Inr (w\<lparr>completions := (completions w)(x \<mapsto> True)\<rparr>))"

definition complete_vfork_done :: "addr \<Rightarrow> clone_state \<Rightarrow> clone_state kres" where
  "complete_vfork_done tsk w =
    (let vfork = vfork_done (the_task (kfork w) tsk)
     in if vfork \<noteq> NULL then complete vfork (on_fork (upd_task tsk (\<lambda>t. t\<lparr>vfork_done := NULL\<rparr>)) w) else Inr w)"

text \<open>
  \<open>meanwhile\<close> is what other tasks do during the wait and \<open>wret\<close> is the result of the wait, not 0 after a fatal signal.
\<close>

definition wait_for_vfork_done :: "(clone_state \<Rightarrow> clone_state) \<Rightarrow> int \<Rightarrow> bool \<Rightarrow> addr \<Rightarrow> clone_state \<Rightarrow> int \<times> clone_state" where
  "wait_for_vfork_done meanwhile wret handoff child w =
    (let w = meanwhile w;
         w = (if wret \<noteq> 0 then on_fork (upd_task child (\<lambda>t. t\<lparr>vfork_done := NULL\<rparr>)) w else w)
     in (wret, on_fork (put_task_struct handoff child) w))"

text \<open>\<open>coredump\<close> is the flag of the signal state, \<open>users\<close> the number of users of the address space, \<open>writable\<close>
  whether \<open>put_user\<close> succeeds; its result is not looked at.\<close>

definition mm_release :: "bool \<Rightarrow> bool \<Rightarrow> addr \<Rightarrow> addr \<Rightarrow> clone_state \<Rightarrow> clone_state kres" where
  "mm_release coredump writable tsk mm w =
    (let ctid = clear_child_tid (the_task (kfork w) tsk);
         users = (case mms (kfork w) mm of None \<Rightarrow> 0 | Some m \<Rightarrow> mm_users m);
         w = (if ctid \<noteq> 0
              then let w = (if \<not> coredump \<and> 1 < users
                            then let w = (if writable then w\<lparr>user_words := (user_words w)(ctid := 0)\<rparr> else w)
                                 in w\<lparr>futex_wakes := futex_wakes w @ [ctid]\<rparr>
                            else w)
                   in on_fork (upd_task tsk (\<lambda>t. t\<lparr>clear_child_tid := 0\<rparr>)) w
              else w)
     in if vfork_done (the_task (kfork w) tsk) \<noteq> NULL then complete_vfork_done tsk w else Inr w)"

text \<open>\<open>exit_mm_release\<close> and \<open>exec_mm_release\<close>: \<open>futex\<close> is the cleanup of robust futexes, which comes first.\<close>

definition exit_mm_release :: "(addr \<Rightarrow> clone_state \<Rightarrow> clone_state) \<Rightarrow> bool \<Rightarrow> bool \<Rightarrow> addr \<Rightarrow> addr \<Rightarrow> clone_state \<Rightarrow> clone_state kres" where
  "exit_mm_release futex coredump writable tsk mm w = mm_release coredump writable tsk mm (futex tsk w)"

definition exec_mm_release :: "(addr \<Rightarrow> clone_state \<Rightarrow> clone_state) \<Rightarrow> bool \<Rightarrow> bool \<Rightarrow> addr \<Rightarrow> addr \<Rightarrow> clone_state \<Rightarrow> clone_state kres" where
  "exec_mm_release futex coredump writable tsk mm w = mm_release coredump writable tsk mm (futex tsk w)"

section \<open>kernel_clone\<close>

record clone_env =
  ke_cp :: cp_env
  ke_enabled :: "trace_event \<Rightarrow> bool"
  ke_vnr :: "s32 \<Rightarrow> s32"
  ke_writable :: bool
  ke_vfork :: addr
  ke_meanwhile :: "clone_state \<Rightarrow> clone_state"
  ke_killed :: int
  ke_handoff :: bool

text \<open>
  The completion \<open>ke_vfork\<close> lies in the frame of the call and is gone when it returns. \<open>ke_vnr\<close> is the number of
  a \<open>pid\<close> in the namespace of the caller.
\<close>

definition kernel_clone :: "clone_env \<Rightarrow> kernel_clone_args \<Rightarrow> addr \<Rightarrow> clone_state \<Rightarrow> int \<times> clone_state" where
  "kernel_clone K args cur w =
    (let clone_flags = arg_flags args; e = kernel_clone_check args
     in if e \<noteq> 0 then (e, w)
        else let trace = clone_trace (ke_enabled K) args;
                 (r, s) = copy_process (ke_cp K) False args cur (kfork w);
                 w = w\<lparr>kfork := s\<rparr>
        in case r of Inl e \<Rightarrow> (e, w)
         | Inr p \<Rightarrow>
           let n = pid (the_task s p);
               w = on_fork (res_get (PidRef n)) w;
               nr = ke_vnr K n;
               w = (if has clone_flags CLONE_PARENT_SETTID \<and> ke_writable K
                    then w\<lparr>user_words := (user_words w)(arg_parent_tid args := nr)\<rparr> else w);
               w = (if has clone_flags CLONE_VFORK
                    then on_fork (upd_task p (\<lambda>t. t\<lparr>vfork_done := ke_vfork K, task_usage := task_usage t + 1\<rparr>))
                           (w\<lparr>completions := (completions w)(ke_vfork K \<mapsto> False)\<rparr>)
                    else w);
               w = w\<lparr>woken := woken w @ [p]\<rparr>;
               w = (if trace \<noteq> NoEvent then w\<lparr>reports := reports w @ [Report trace n]\<rparr> else w);
               w = (if has clone_flags CLONE_VFORK
                    then let (wret, w) = wait_for_vfork_done (ke_meanwhile K) (ke_killed K) (ke_handoff K) p w
                         in if wret = 0 then w\<lparr>reports := reports w @ [VforkDone n]\<rparr> else w
                    else w);
               w = on_fork (res_put (PidRef n)) w
           in (sint nr, w\<lparr>completions := (completions w)(ke_vfork K := None)\<rparr>))"

definition sys_fork :: "clone_env \<Rightarrow> addr \<Rightarrow> clone_state \<Rightarrow> int \<times> clone_state" where
  "sys_fork K cur w = kernel_clone K fork_args cur w"

definition sys_vfork :: "clone_env \<Rightarrow> addr \<Rightarrow> clone_state \<Rightarrow> int \<times> clone_state" where
  "sys_vfork K cur w = kernel_clone K vfork_args cur w"

definition sys_clone :: "clone_env \<Rightarrow> u64 \<Rightarrow> u64 \<Rightarrow> u64 \<Rightarrow> u64 \<Rightarrow> u64 \<Rightarrow> addr \<Rightarrow> clone_state \<Rightarrow> int \<times> clone_state" where
  "sys_clone K clone_flags newsp parent_tidptr child_tidptr tls cur w =
     kernel_clone K (sys_clone_args clone_flags newsp parent_tidptr child_tidptr tls) cur w"

definition kernel_thread :: "clone_env \<Rightarrow> u64 \<Rightarrow> u64 \<Rightarrow> u64 \<Rightarrow> addr \<Rightarrow> clone_state \<Rightarrow> int \<times> clone_state" where
  "kernel_thread K fn arg flags cur w = kernel_clone K (kernel_thread_args fn arg flags) cur w"

text \<open>An io_uring worker and an idle task are created without being woken.\<close>

definition create_io_thread :: "cp_env \<Rightarrow> u64 \<Rightarrow> u64 \<Rightarrow> addr \<Rightarrow> fork_state \<Rightarrow> cp_result" where
  "create_io_thread E fn arg cur s = copy_process E False (io_thread_args fn arg) cur s"

text \<open>\<open>init_idle\<close> stands for the scheduler's function of that name.\<close>

definition fork_idle :: "cp_env \<Rightarrow> (addr \<Rightarrow> fork_state \<Rightarrow> fork_state) \<Rightarrow> addr \<Rightarrow> fork_state \<Rightarrow> cp_result" where
  "fork_idle E init_idle cur s =
    (let (r, s) = copy_process E True (clone_args_zero\<lparr>arg_flags := CLONE_VM\<rparr>) cur s
     in case r of Inl e \<Rightarrow> (Inl e, s) | Inr task \<Rightarrow> (Inr task, init_idle task s))"

section \<open>References balance\<close>

text \<open>Taking and giving back a user of a living address space changes nothing.\<close>

lemma mmput_mmget:
  assumes "mms s a = Some m" "0 < mm_users m"
  shows "mmput E a (mmget a s) = s"
proof -
  have "(mms s)(a \<mapsto> m) = mms s" using assms(1) by (simp add: fun_upd_idem)
  then show ?thesis using assms by (simp add: mmput_def mmget_def upd_mm_def)
qed

text \<open>
  \<open>mm_access\<close> returns the address space of the task with one more user, which \<open>mmput\<close> gives back, or it returns
  \<open>NULL\<close> or an error and has changed nothing.
\<close>

lemma mm_access_balanced:
  assumes "task_mm (the_task s task) = NULL \<or> (\<exists>m. mms s (task_mm (the_task s task)) = Some m \<and> 0 < mm_users m)" and "mm_access E lock may cur task s = (r, s')"
  shows "case r of Inl e \<Rightarrow> s' = s \<and> (lock = 0 \<longrightarrow> e = - EACCES \<and> \<not> may \<and> task_mm (the_task s task) \<noteq> task_mm (the_task s cur))
     | Inr a \<Rightarrow> lock = 0 \<and> (if a = NULL then s' = s else a = task_mm (the_task s task) \<and> task_flags (the_task s task) AND PF_KTHREAD = 0 \<and> mmput E a s' = s)"
proof -
  have tm: "the_task (mmget a s) q = the_task s q" for a q by (simp add: the_task_def mmget_def upd_mm_def)
  show ?thesis using assms mmput_mmget by (auto simp: mm_access_def get_task_mm_def Let_def tm split: if_splits)
qed

text \<open>The last reference to a \<open>task_struct\<close> frees it, and the signal state with its last task.\<close>

lemma put_task_struct_eff:
  assumes "tasks s p = Some t" "signals s (task_signal t) = Some g" "0 < task_usage t" "0 < sigcnt g"
  shows "put_task_struct False p s =
    (if task_usage t > 1 then s\<lparr>tasks := (tasks s)(p \<mapsto> t\<lparr>task_usage := task_usage t - 1\<rparr>)\<rparr>
     else free_task p (s\<lparr>tasks := (tasks s)(p \<mapsto> t\<lparr>task_usage := 0\<rparr>),
        signals := (signals s)(task_signal t := (if sigcnt g = 1 then None else Some (g\<lparr>sigcnt := sigcnt g - 1\<rparr>))),
        res := res s - {#CssSet p#} - {#Security p#} - {#Creds p#} - {#Delayacct p#} - {#SchedCore p#}\<rparr>))"
proof (cases "task_usage t = 1")
  case False
  then show ?thesis using assms by (simp add: put_task_struct_def upd_task_def the_task_def)
next
  case True
  let ?s = "s\<lparr>tasks := (tasks s)(p \<mapsto> t\<lparr>task_usage := 0\<rparr>), res := res s - {#CssSet p#} - {#Security p#} - {#Creds p#} - {#Delayacct p#}\<rparr>"
  have "put_task_struct False p s = free_task p (res_put (SchedCore p) (put_signal_struct (task_signal t) ?s))"
    using True assms(1) by (simp add: put_task_struct_def put_task_struct_last_def upd_task_def the_task_def res_put_def Let_def)
  moreover have "put_signal_struct (task_signal t) ?s =
      ?s\<lparr>signals := (signals s)(task_signal t := (if sigcnt g = 1 then None else Some (g\<lparr>sigcnt := sigcnt g - 1\<rparr>)))\<rparr>"
    using assms(2,4) by (simp add: put_signal_struct_def the_signal_def upd_signal_def free_signal_struct_def)
  ultimately show ?thesis using True by (simp add: res_put_def)
qed

section \<open>Contract of the system calls\<close>

lemma copy_process_outcome:
  assumes pre: "fork_pre E args cur c s"
  obtains (failed) e s' where "copy_process E False args cur s = (Inl e, s')" "e \<noteq> 0" "fork_residue E (arg_flags args) cur c s s'"
  | (child) nr t s' where "copy_process E False args cur s = (Inr (cp_task E), s')" "cp_alloc_pid E = Inr nr" "nr \<noteq> 0"
      "tasks s' = (tasks s)(cur \<mapsto> clear_exceeded c, cp_task E \<mapsto> t)" "child_fields E args cur c s nr t"
proof (cases "fst (copy_process E False args cur s)")
  case (Inl e)
  then have "copy_process E False args cur s = (Inl e, snd (copy_process E False args cur s))" by (metis prod.collapse)
  then show thesis using failed copy_process_residue [OF pre] by blast
next
  case (Inr q)
  then obtain nr fd s1 where l: "fork_linked E False args cur c s nr fd s1"
      "copy_process E False args cur s = cp_link E False args cur (cp_task E) nr fd s1"
    using copy_process_cases [OF pre, of False] by auto
  obtain r s' where r: "cp_link E False args cur (cp_task E) nr fd s1 = (r, s')" by fastforce
  show thesis using child l(2) linked_child [OF pre l(1) r] r by auto
qed

text \<open>The system calls are \<open>kernel_clone\<close> with their arguments.\<close>

lemma clone_calls:
  assumes "(args, run) \<in> {(args, kernel_clone K args), (fork_args, sys_fork K), (vfork_args, sys_vfork K),
      (sys_clone_args fl newsp ptid ctid tls, sys_clone K fl newsp ptid ctid tls), (kernel_thread_args fn arg flags, kernel_thread K fn arg flags)}"
  shows "run cur w = kernel_clone K args cur w"
  using assms by (auto simp: sys_fork_def sys_vfork_def sys_clone_def kernel_thread_def)

text \<open>
  What the rest of the kernel guarantees for the wait: a \<open>task_struct\<close> with a reference beside its own stays,
  with at least one, and a wait that was not killed ends only after the pointer to the completion was cleared.
\<close>

definition vfork_wait_ok :: "clone_env \<Rightarrow> bool" where
  "vfork_wait_ok K \<longleftrightarrow> ke_vfork K \<noteq> NULL \<and> (\<forall>w p t. tasks (kfork w) p = Some t \<and> 1 < task_usage t \<longrightarrow>
     (\<exists>t'. tasks (kfork (ke_meanwhile K w)) p = Some t' \<and> 0 < task_usage t' \<and> (ke_killed K = 0 \<longrightarrow> vfork_done t' \<noteq> ke_vfork K)))"

text \<open>The state in which a \<open>vfork\<close> parent falls asleep.\<close>

definition vfork_asleep :: "clone_env \<Rightarrow> addr \<Rightarrow> clone_state \<Rightarrow> bool" where
  "vfork_asleep K p w \<longleftrightarrow> (\<exists>t. tasks (kfork w) p = Some t \<and> vfork_done t = ke_vfork K \<and> task_usage t = 2) \<and>
     completions w (ke_vfork K) = Some False \<and> p \<in> set (woken w)"

lemma tasks_res [simp]: "tasks (res_get r s) = tasks s" "tasks (res_put r s) = tasks s"
  by (simp_all add: res_get_def res_put_def)

lemma put_task_vfork_done:
  assumes "tasks (kfork w) p = Some t" "vfork_done t \<noteq> v" "tasks (put_task_struct h p (kfork w)) p = Some t'"
  shows "vfork_done t' \<noteq> v"
  using assms
  by (auto simp: put_task_struct_def put_task_struct_last_def put_signal_struct_def upd_task_def upd_signal_def the_task_def free_task_def
      free_signal_struct_def Let_def split: if_splits)

text \<open>The calls after a successful \<open>copy_process\<close>, up to the point where a \<open>vfork\<close> parent would wait.\<close>

definition clone_started :: "clone_env \<Rightarrow> kernel_clone_args \<Rightarrow> addr \<Rightarrow> s32 \<Rightarrow> clone_state \<Rightarrow> clone_state" where
  "clone_started K args p n w =
    w\<lparr>kfork := (if has (arg_flags args) CLONE_VFORK
         then upd_task p (\<lambda>t. t\<lparr>vfork_done := ke_vfork K, task_usage := task_usage t + 1\<rparr>) (res_get (PidRef n) (kfork w)) else res_get (PidRef n) (kfork w)),
       user_words := (if has (arg_flags args) CLONE_PARENT_SETTID \<and> ke_writable K then (user_words w)(arg_parent_tid args := ke_vnr K n) else user_words w),
       completions := (if has (arg_flags args) CLONE_VFORK then (completions w)(ke_vfork K \<mapsto> False) else completions w),
       woken := woken w @ [p],
       reports := reports w @ (if clone_trace (ke_enabled K) args = NoEvent then [] else [Report (clone_trace (ke_enabled K) args) n])\<rparr>"

lemma kernel_clone_run:
  assumes "kernel_clone_check args = 0" and cp: "copy_process (ke_cp K) False args cur (kfork w) = (Inr p, s)" and n: "pid (the_task s p) = n"
  defines "w1 \<equiv> clone_started K args p n (w\<lparr>kfork := s\<rparr>)"
  defines "w2 \<equiv> snd (wait_for_vfork_done (ke_meanwhile K) (ke_killed K) (ke_handoff K) p w1)"
  defines "w3 \<equiv> (if has (arg_flags args) CLONE_VFORK then (if ke_killed K = 0 then w2\<lparr>reports := reports w2 @ [VforkDone n]\<rparr> else w2) else w1)"
  shows "kernel_clone K args cur w =
    (sint (ke_vnr K n), w3\<lparr>kfork := res_put (PidRef n) (kfork w3), completions := (completions w3)(ke_vfork K := None)\<rparr>)"
proof -
  have k: "fst (wait_for_vfork_done m kl h p x) = kl" for m kl h x by (simp add: wait_for_vfork_done_def Let_def)
  show ?thesis
    using assms(1) cp n unfolding kernel_clone_def w3_def w2_def w1_def
    by (cases w) (simp add: on_fork_def Let_def case_prod_unfold k clone_started_def split: if_splits)
qed

lemma clone_ends:
  assumes chk: "kernel_clone_check args = 0" and cp: "copy_process (ke_cp K) False args cur (kfork w) = (Inr p, s)"
    and tp: "tasks s p = Some t" "pid (the_task s p) = n" "task_usage t = 1"
    and kc: "kernel_clone K args cur w = (r, w')" and wait: "vfork_wait_ok K"
  defines "w1 \<equiv> clone_started K args p n (w\<lparr>kfork := s\<rparr>)"
  shows "if has (arg_flags args) CLONE_VFORK
    then vfork_asleep K p w1 \<and> completions w' (ke_vfork K) = None \<and>
      (\<forall>t'. tasks (kfork w') p = Some t' \<longrightarrow> vfork_done t' \<noteq> ke_vfork K) \<and>
      reports w' = reports (ke_meanwhile K w1) @ (if ke_killed K = 0 then [VforkDone n] else [])
    else woken w' = woken w1 \<and> reports w' = reports w1 \<and> user_words w' = user_words w1 \<and> tasks (kfork w') = tasks s"
proof (cases "has (arg_flags args) CLONE_VFORK")
  case False
  then show ?thesis using kernel_clone_run [OF chk cp tp(2), unfolded kc] by (simp add: w1_def clone_started_def)
next
  case True
  note run = kernel_clone_run [OF chk cp tp(2), folded w1_def, unfolded kc]
  let ?m = "ke_meanwhile K w1" and ?V = "ke_vfork K"
  have as: "tasks (kfork w1) p = Some (t\<lparr>vfork_done := ?V, task_usage := 2\<rparr>)"
    using True tp by (simp add: w1_def clone_started_def upd_task_def)
  then obtain t' where t': "tasks (kfork ?m) p = Some t'" "ke_killed K = 0 \<longrightarrow> vfork_done t' \<noteq> ?V"
    using wait unfolding vfork_wait_ok_def by fastforce
  define w2 where "w2 = (if ke_killed K \<noteq> 0 then on_fork (upd_task p (\<lambda>t. t\<lparr>vfork_done := NULL\<rparr>)) ?m else ?m)"
  obtain t2 where t2: "tasks (kfork w2) p = Some t2" "vfork_done t2 \<noteq> ?V" "reports w2 = reports ?m"
    using t' wait by (cases "ke_killed K = 0") (simp_all add: w2_def on_fork_def upd_task_def vfork_wait_ok_def)
  have w': "kfork w' = res_put (PidRef n) (put_task_struct (ke_handoff K) p (kfork w2))" "completions w' ?V = None"
    "reports w' = reports w2 @ (if ke_killed K = 0 then [VforkDone n] else [])"
    using run True by (simp_all add: wait_for_vfork_done_def Let_def w2_def on_fork_def split: if_splits)
  have "vfork_asleep K p w1" using as True by (simp add: vfork_asleep_def w1_def clone_started_def)
  then show ?thesis using True w' t2(3) put_task_vfork_done [OF t2(1,2)] by simp
qed

text \<open>
  C4: \<open>kernel_clone\<close>, and \<open>fork\<close>, \<open>vfork\<close>, \<open>clone\<close> and \<open>kernel_thread\<close>, which call it with their arguments. Arguments in which the file
  descriptor and the thread identifier of the child would be stored at the same address are refused with \<open>-EINVAL\<close> before anything happens. If
  \<open>copy_process\<close> fails, its error number is the result, nothing is woken, reported or written to user memory, and the
  tasks are as the failed \<open>copy_process\<close> leaves them. Otherwise the result is the number of the child in the
  namespace of the caller, the child is woken once, a tracer gets the event of the kind of call with the \<open>pid\<close> of the child if it asked
  for it, and the number is in the caller's memory if \<open>CLONE_PARENT_SETTID\<close> asked for it. Without
  \<open>CLONE_VFORK\<close> the child is as \<open>copy_process\<close> made it. With it the parent falls asleep holding a second reference to the
  child, whose \<open>vfork_done\<close> points to the completion of the parent; when the call returns the completion is gone and no
  longer pointed to, and the end of the \<open>vfork\<close> is reported exactly if the parent was not killed.\<close>

theorem kernel_clone_contract:
  assumes call: "(args, run) \<in> {(args, kernel_clone K args), (fork_args, sys_fork K), (vfork_args, sys_vfork K),
      (sys_clone_args fl newsp ptid ctid tls, sys_clone K fl newsp ptid ctid tls), (kernel_thread_args fn arg flags, kernel_thread K fn arg flags)}"
    and pre: "fork_pre (ke_cp K) args cur c (kfork w)" and ret: "run cur w = (r, w')" and wait: "vfork_wait_ok K"
  shows "if kernel_clone_check args \<noteq> 0 then r = - EINVAL \<and> w' = w
    else case copy_process (ke_cp K) False args cur (kfork w) of
      (Inl e, s') \<Rightarrow> r = e \<and> e \<noteq> 0 \<and> w' = w\<lparr>kfork := s'\<rparr> \<and> fork_residue (ke_cp K) (arg_flags args) cur c (kfork w) s'
    | (Inr p, s') \<Rightarrow> p = cp_task (ke_cp K) \<and>
      (\<exists>n t w1. cp_alloc_pid (ke_cp K) = Inr n \<and> n \<noteq> 0 \<and> r = sint (ke_vnr K n) \<and> child_fields (ke_cp K) args cur c (kfork w) n t \<and>
         woken w1 = woken w @ [p] \<and>
         reports w1 = reports w @ (if clone_trace (ke_enabled K) args = NoEvent then [] else [Report (clone_trace (ke_enabled K) args) n]) \<and>
         user_words w1 = (if has (arg_flags args) CLONE_PARENT_SETTID \<and> ke_writable K then (user_words w)(arg_parent_tid args := ke_vnr K n) else user_words w) \<and>
         (if has (arg_flags args) CLONE_VFORK
          then vfork_asleep K p w1 \<and> completions w' (ke_vfork K) = None \<and>
            (\<forall>t'. tasks (kfork w') p = Some t' \<longrightarrow> vfork_done t' \<noteq> ke_vfork K) \<and>
            reports w' = reports (ke_meanwhile K w1) @ (if ke_killed K = 0 then [VforkDone n] else [])
          else woken w' = woken w1 \<and> reports w' = reports w1 \<and> user_words w' = user_words w1 \<and>
            tasks (kfork w') = (tasks (kfork w))(cur \<mapsto> clear_exceeded c, p \<mapsto> t)))"
proof (cases "kernel_clone_check args = 0")
  case False
  moreover have "kernel_clone_check args = - EINVAL" using False by (simp add: kernel_clone_check_def split: if_splits)
  moreover have "kernel_clone K args cur w = (r, w')" using clone_calls [OF call] ret by simp
  ultimately show ?thesis by (simp add: kernel_clone_def)
next
  case chk: True
  have kc: "kernel_clone K args cur w = (r, w')" using clone_calls [OF call] ret by simp
  let ?p = "cp_task (ke_cp K)" and ?V = "ke_vfork K" and ?fl = "arg_flags args"
  show ?thesis
  proof (rule copy_process_outcome [OF pre])
    fix e s' assume e: "copy_process (ke_cp K) False args cur (kfork w) = (Inl e, s')" "e \<noteq> 0" "fork_residue (ke_cp K) ?fl cur c (kfork w) s'"
    then have "r = e" "w' = w\<lparr>kfork := s'\<rparr>" using kc chk by (simp_all add: kernel_clone_def Let_def)
    then show ?thesis using chk e by simp
  next
    fix nr t s' assume ch: "copy_process (ke_cp K) False args cur (kfork w) = (Inr ?p, s')" "cp_alloc_pid (ke_cp K) = Inr nr" "nr \<noteq> 0"
      "tasks s' = (tasks (kfork w))(cur \<mapsto> clear_exceeded c, ?p \<mapsto> t)" "child_fields (ke_cp K) args cur c (kfork w) nr t"
    have tp: "tasks s' ?p = Some t" "pid (the_task s' ?p) = nr" "task_usage t = 1" using ch(4,5) by (simp_all add: child_fields_def Let_def the_task_def)
    define w1 where "w1 = clone_started K args ?p nr (w\<lparr>kfork := s'\<rparr>)"
    note run = kernel_clone_run [OF chk ch(1) tp(2), folded w1_def, unfolded kc]
    have w1: "woken w1 = woken w @ [?p]"
      "reports w1 = reports w @ (if clone_trace (ke_enabled K) args = NoEvent then [] else [Report (clone_trace (ke_enabled K) args) nr])"
      "user_words w1 = (if has ?fl CLONE_PARENT_SETTID \<and> ke_writable K then (user_words w)(arg_parent_tid args := ke_vnr K nr) else user_words w)"
      by (simp_all add: w1_def clone_started_def)
    have r: "r = sint (ke_vnr K nr)" using run by simp
    note last = clone_ends [OF chk ch(1) tp kc wait, folded w1_def, unfolded ch(4)]
    show ?thesis unfolding if_not_P [OF not_not [THEN iffD2, OF chk]] ch(1) prod.case sum.case
      by (intro conjI refl exI [of _ nr] exI [of _ t] exI [of _ w1]) (fact ch(2,3,5) r w1 last)+
  qed
qed

text \<open>
  Witness: the \<open>vfork\<close> of the example of \<open>copy_process\<close>; the child completes while the parent waits.
\<close>

definition example_clone_env :: clone_env where
  "example_clone_env = \<lparr>ke_cp = example_cp_env, ke_enabled = (\<lambda>_. False), ke_vnr = (\<lambda>n. n), ke_writable = True, ke_vfork = 7,
     ke_meanwhile = (\<lambda>w. w\<lparr>kfork := (kfork w)\<lparr>tasks := (\<lambda>p. map_option (\<lambda>t. t\<lparr>vfork_done := NULL\<rparr>) (tasks (kfork w) p))\<rparr>\<rparr>),
     ke_killed = 0, ke_handoff = False\<rparr>"

definition example_clone_state :: clone_state where
  "example_clone_state = \<lparr>kfork = example_fork_state, completions = (\<lambda>_. None), woken = [], reports = [], user_words = (\<lambda>_. 0), futex_wakes = []\<rparr>"

theorem kernel_clone_contract_witness:
  "kernel_clone_check vfork_args = 0 \<and> vfork_wait_ok example_clone_env \<and>
   (\<exists>r w' n. sys_vfork example_clone_env 8 example_clone_state = (r, w') \<and> cp_alloc_pid example_cp_env = Inr n \<and> r = sint n \<and>
      reports w' = [VforkDone n] \<and> completions w' 7 = None)"
proof -
  have ok: "vfork_wait_ok example_clone_env" by (auto simp: vfork_wait_ok_def example_clone_env_def)
  have chk: "kernel_clone_check vfork_args = 0" "has (arg_flags vfork_args) CLONE_VFORK" "clone_trace (ke_enabled example_clone_env) vfork_args = NoEvent"
    by (simp_all add: kernel_clone_check_def vfork_args_def clone_args_zero_def has_def clone_trace_def example_clone_env_def)
  obtain s' where s': "copy_process example_cp_env False vfork_args 8 example_fork_state = (Inr 64, s')" using example_forks by blast
  obtain r w' where run: "sys_vfork example_clone_env 8 example_clone_state = (r, w')" by fastforce
  have pre: "fork_pre (ke_cp example_clone_env) vfork_args 8 example_parent (kfork example_clone_state)"
    using example_pre by (simp add: example_clone_env_def example_clone_state_def)
  have "copy_process (ke_cp example_clone_env) False vfork_args 8 (kfork example_clone_state) = (Inr 64, s')"
    using s' by (simp add: example_clone_env_def example_clone_state_def)
  moreover note kernel_clone_contract [where run = "sys_vfork example_clone_env", OF _ pre run ok]
  ultimately obtain n w1 where "cp_alloc_pid example_cp_env = Inr n" "r = sint n" "reports w1 = []" "completions w' 7 = None"
    "reports w' = reports (ke_meanwhile example_clone_env w1) @ [VforkDone n]"
    using chk by (auto simp: example_clone_env_def example_clone_state_def)
  then show ?thesis using ok chk run by (simp add: example_clone_env_def)
qed

end
