(* ===== verification/Task_Pids.thy ===== *)
theory Task_Pids
  imports Kernel_Clone
begin

text \<open>
  The identifiers of a task: the numbers kept in the task itself, the \<open>struct pid\<close> that the task and its thread group point to
  (\<open>init_task_pid\<close> and its callers in kernel/fork.c), and the functions of include/linux/sched.h that read them.
\<close>

section \<open>Pids of tasks and groups\<close>

datatype pid_type = PIDTYPE_PID | PIDTYPE_TGID | PIDTYPE_PGID | PIDTYPE_SID

text \<open>The pointers to \<open>struct pid\<close> in each task and in each \<open>signal_struct\<close>.\<close>

record pid_ptrs =
  thread_pid :: "addr \<Rightarrow> addr"
  sig_pids :: "addr \<Rightarrow> pid_type \<Rightarrow> addr"

definition init_task_pid :: "fork_state \<Rightarrow> addr \<Rightarrow> pid_type \<Rightarrow> addr \<Rightarrow> pid_ptrs \<Rightarrow> pid_ptrs" where
  "init_task_pid s task type pd L =
    (if type = PIDTYPE_PID then L\<lparr>thread_pid := (thread_pid L)(task := pd)\<rparr>
     else let g = task_signal (the_task s task)
          in L\<lparr>sig_pids := (sig_pids L)(g := (sig_pids L g)(type := pd))\<rparr>)"

fun init_idle_loop :: "fork_state \<Rightarrow> addr \<Rightarrow> addr \<Rightarrow> pid_type list \<Rightarrow> pid_ptrs \<Rightarrow> pid_ptrs" where
  "init_idle_loop s idle pd [] L = L"
| "init_idle_loop s idle pd (type # types) L = init_idle_loop s idle pd types (init_task_pid s idle type pd L)"

definition init_idle_pids :: "fork_state \<Rightarrow> addr \<Rightarrow> addr \<Rightarrow> pid_ptrs \<Rightarrow> pid_ptrs" where
  "init_idle_pids s init_struct_pid idle L =
     init_idle_loop s idle init_struct_pid [PIDTYPE_PID, PIDTYPE_TGID, PIDTYPE_PGID, PIDTYPE_SID] L"

text \<open>
  The pointers of a child: \<open>dup_task_struct\<close> copies the task, a new \<open>signal_struct\<close> is zeroed, and then \<open>copy_process\<close>
  enters the pid it allocated. \<open>task_pgrp\<close> and \<open>task_session\<close> read the group of the caller.
\<close>

definition task_pid_ptr :: "fork_state \<Rightarrow> pid_ptrs \<Rightarrow> addr \<Rightarrow> pid_type \<Rightarrow> addr" where
  "task_pid_ptr s L task type =
     (if type = PIDTYPE_PID then thread_pid L task else sig_pids L (task_signal (the_task s task)) type)"

text \<open>The copy of the structure takes the pointer along, and the new \<open>signal_struct\<close> of a process starts with null pointers.\<close>

definition dup_thread_pid :: "addr \<Rightarrow> addr \<Rightarrow> pid_ptrs \<Rightarrow> pid_ptrs" where
  "dup_thread_pid cur p L = L\<lparr>thread_pid := (thread_pid L)(p := thread_pid L cur)\<rparr>"

definition new_signal_pids :: "u64 \<Rightarrow> addr \<Rightarrow> pid_ptrs \<Rightarrow> pid_ptrs" where
  "new_signal_pids clone_flags g L =
    (if has clone_flags CLONE_THREAD then L else L\<lparr>sig_pids := (sig_pids L)(g := (\<lambda>_. NULL))\<rparr>)"

definition link_pids :: "fork_state \<Rightarrow> addr \<Rightarrow> addr \<Rightarrow> addr \<Rightarrow> pid_ptrs \<Rightarrow> pid_ptrs" where
  "link_pids s cur p pd L =
    (if pid (the_task s p) = 0 then L
     else let L = init_task_pid s p PIDTYPE_PID pd L
          in if 0 \<le> sint (exit_signal (the_task s p))
             then let L = init_task_pid s p PIDTYPE_TGID pd L;
                      L = init_task_pid s p PIDTYPE_PGID (task_pid_ptr s L cur PIDTYPE_PGID) L
                  in init_task_pid s p PIDTYPE_SID (task_pid_ptr s L cur PIDTYPE_SID) L
             else L)"

definition fork_pids :: "u64 \<Rightarrow> fork_state \<Rightarrow> addr \<Rightarrow> addr \<Rightarrow> addr \<Rightarrow> pid_ptrs \<Rightarrow> pid_ptrs" where
  "fork_pids clone_flags s cur p pd L = 
    link_pids s cur p pd (new_signal_pids clone_flags (task_signal (the_task s p)) (dup_thread_pid cur p L))"

section \<open>Readers\<close>

text \<open>
  \<open>__task_pid_nr_ns\<close> of kernel/pid.c gives the number of one of the pids of a task in a namespace, that of the
  caller for \<open>None\<close>.
\<close>

type_synonym pid_nr_fn = "fork_state \<Rightarrow> pid_ptrs \<Rightarrow> addr \<Rightarrow> pid_type \<Rightarrow> addr option \<Rightarrow> s32"

definition task_pid :: "pid_ptrs \<Rightarrow> addr \<Rightarrow> addr" where
  "task_pid L task = thread_pid L task"

definition task_pid_nr :: "fork_state \<Rightarrow> addr \<Rightarrow> s32" where
  "task_pid_nr s tsk = pid (the_task s tsk)"

definition task_pid_nr_ns :: "pid_nr_fn \<Rightarrow> fork_state \<Rightarrow> pid_ptrs \<Rightarrow> addr \<Rightarrow> addr \<Rightarrow> s32" where
  "task_pid_nr_ns nrf s L tsk ns = nrf s L tsk PIDTYPE_PID (Some ns)"

definition task_pid_vnr :: "pid_nr_fn \<Rightarrow> fork_state \<Rightarrow> pid_ptrs \<Rightarrow> addr \<Rightarrow> s32" where
  "task_pid_vnr nrf s L tsk = nrf s L tsk PIDTYPE_PID None"

definition task_tgid_nr :: "fork_state \<Rightarrow> addr \<Rightarrow> s32" where
  "task_tgid_nr s tsk = tgid (the_task s tsk)"

definition pid_alive :: "pid_ptrs \<Rightarrow> addr \<Rightarrow> bool" where
  "pid_alive L p \<longleftrightarrow> thread_pid L p \<noteq> NULL"

definition task_pgrp_nr_ns :: "pid_nr_fn \<Rightarrow> fork_state \<Rightarrow> pid_ptrs \<Rightarrow> addr \<Rightarrow> addr \<Rightarrow> s32" where
  "task_pgrp_nr_ns nrf s L tsk ns = nrf s L tsk PIDTYPE_PGID (Some ns)"

definition task_pgrp_vnr :: "pid_nr_fn \<Rightarrow> fork_state \<Rightarrow> pid_ptrs \<Rightarrow> addr \<Rightarrow> s32" where
  "task_pgrp_vnr nrf s L tsk = nrf s L tsk PIDTYPE_PGID None"

definition task_session_nr_ns :: "pid_nr_fn \<Rightarrow> fork_state \<Rightarrow> pid_ptrs \<Rightarrow> addr \<Rightarrow> addr \<Rightarrow> s32" where
  "task_session_nr_ns nrf s L tsk ns = nrf s L tsk PIDTYPE_SID (Some ns)"

definition task_session_vnr :: "pid_nr_fn \<Rightarrow> fork_state \<Rightarrow> pid_ptrs \<Rightarrow> addr \<Rightarrow> s32" where
  "task_session_vnr nrf s L tsk = nrf s L tsk PIDTYPE_SID None"

definition task_tgid_nr_ns :: "pid_nr_fn \<Rightarrow> fork_state \<Rightarrow> pid_ptrs \<Rightarrow> addr \<Rightarrow> addr \<Rightarrow> s32" where
  "task_tgid_nr_ns nrf s L tsk ns = nrf s L tsk PIDTYPE_TGID (Some ns)"

definition task_tgid_vnr :: "pid_nr_fn \<Rightarrow> fork_state \<Rightarrow> pid_ptrs \<Rightarrow> addr \<Rightarrow> s32" where
  "task_tgid_vnr nrf s L tsk = nrf s L tsk PIDTYPE_TGID None"

definition task_ppid_nr_ns :: "pid_nr_fn \<Rightarrow> fork_state \<Rightarrow> pid_ptrs \<Rightarrow> addr \<Rightarrow> addr \<Rightarrow> s32" where
  "task_ppid_nr_ns nrf s L tsk ns =
     (if pid_alive L tsk then task_tgid_nr_ns nrf s L (real_parent (the_task s tsk)) ns else 0)"

definition task_ppid_nr :: "pid_nr_fn \<Rightarrow> addr \<Rightarrow> fork_state \<Rightarrow> pid_ptrs \<Rightarrow> addr \<Rightarrow> s32" where
  "task_ppid_nr nrf init_pid_ns s L tsk = task_ppid_nr_ns nrf s L tsk init_pid_ns"

definition task_pgrp_nr :: "pid_nr_fn \<Rightarrow> addr \<Rightarrow> fork_state \<Rightarrow> pid_ptrs \<Rightarrow> addr \<Rightarrow> s32" where
  "task_pgrp_nr nrf init_pid_ns s L tsk = task_pgrp_nr_ns nrf s L tsk init_pid_ns"

definition is_global_init :: "fork_state \<Rightarrow> addr \<Rightarrow> bool" where
  "is_global_init s tsk \<longleftrightarrow> task_tgid_nr s tsk = 1"

definition set_tid_address :: "pid_nr_fn \<Rightarrow> pid_ptrs \<Rightarrow> addr \<Rightarrow> u64 \<Rightarrow> fork_state \<Rightarrow> s32 \<times> fork_state" where
  "set_tid_address nrf L cur tidptr s =
    (let s = upd_task cur (\<lambda>t. t\<lparr>clear_child_tid := tidptr\<rparr>) s in (task_pid_vnr nrf s L cur, s))"

section \<open>Numbers and pids agree\<close>

text \<open>What kernel/pid.c documents: the result is the number of the task's pid of that type in the namespace.\<close>

definition pid_lookup :: "pid_nr_fn \<Rightarrow> (addr \<Rightarrow> addr option \<Rightarrow> s32) \<Rightarrow> bool" where
  "pid_lookup nrf num \<longleftrightarrow> (\<forall>s L tsk type ns. nrf s L tsk type ns = num (task_pid_ptr s L tsk type) ns)"

text \<open>The numbers in a live task are those of its pids in the initial namespace.\<close>

definition task_ids_ok :: "(addr \<Rightarrow> s32) \<Rightarrow> fork_state \<Rightarrow> pid_ptrs \<Rightarrow> bool" where
  "task_ids_ok nr s L \<longleftrightarrow> (\<forall>p t. tasks s p = Some t \<and> pid_alive L p \<longrightarrow>
     nr (thread_pid L p) = pid t \<and> nr (sig_pids L (task_signal t) PIDTYPE_TGID) = tgid t)"

lemma idle_pids:
  "thread_pid (init_idle_pids s z idle L) = (thread_pid L)(idle := z)"
  "sig_pids (init_idle_pids s z idle L) = (sig_pids L)(task_signal (the_task s idle) :=
     (\<lambda>type. if type = PIDTYPE_PID then sig_pids L (task_signal (the_task s idle)) type else z))"
  by (auto simp: init_idle_pids_def init_task_pid_def Let_def fun_eq_iff split: pid_type.splits) (metis pid_type.exhaust)

text \<open>The pointers after a fork, for a thread and for a new process.\<close>

lemma fork_pids_thread:
  assumes "has fl CLONE_THREAD" "pid (the_task s p) \<noteq> 0" "sint (exit_signal (the_task s p)) < 0"
  shows "fork_pids fl s cur p pd L = L\<lparr>thread_pid := (thread_pid L)(p := pd)\<rparr>"
  using assms by (simp add: fork_pids_def link_pids_def dup_thread_pid_def new_signal_pids_def init_task_pid_def Let_def)

lemma fork_pids_process:
  assumes "\<not> has fl CLONE_THREAD" "pid (the_task s p) \<noteq> 0" "0 \<le> sint (exit_signal (the_task s p))"
    "task_signal (the_task s p) = g" "task_signal (the_task s cur) = h" "g \<noteq> h"
  shows "thread_pid (fork_pids fl s cur p pd L) = (thread_pid L)(p := pd)"
    "sig_pids (fork_pids fl s cur p pd L) = (sig_pids L)(g := (\<lambda>_. NULL)(PIDTYPE_TGID := pd, PIDTYPE_PGID := sig_pids L h PIDTYPE_PGID,
       PIDTYPE_SID := sig_pids L h PIDTYPE_SID))"
  using assms by (simp_all add: fork_pids_def link_pids_def dup_thread_pid_def new_signal_pids_def init_task_pid_def task_pid_ptr_def Let_def)

text \<open>The signal that a new process sends when it ends.\<close>

definition new_exit_signal :: "kernel_clone_args \<Rightarrow> task_struct \<Rightarrow> fork_state \<Rightarrow> s32" where
  "new_exit_signal args c s =
    (if has (arg_flags args) CLONE_PARENT then exit_signal (the_task s (group_leader c)) else ucast (arg_exit_signal args))"

lemma fork_child_ids:
  assumes pre: "fork_pre E args cur c s" and run: "copy_process E False args cur s = (Inr q, s')"
  obtains t nr where "q = cp_task E" "cp_alloc_pid E = Inr nr" "nr \<noteq> 0" "tasks s' = (tasks s)(cur \<mapsto> clear_exceeded c, q \<mapsto> t)" "q \<noteq> cur"
    "pid t = nr" "tgid t = (if has (arg_flags args) CLONE_THREAD then tgid c else nr)"
    "task_signal t = (if has (arg_flags args) CLONE_THREAD then task_signal c else cp_new_signal E)"
    "real_parent t = (if has (arg_flags args) (CLONE_PARENT OR CLONE_THREAD) then real_parent c else cur)"
    "exit_signal t = (if has (arg_flags args) CLONE_THREAD then - 1 else new_exit_signal args c s)"
proof -
  obtain nr fd s1 where l: "fork_linked E False args cur c s nr fd s1" "copy_process E False args cur s = cp_link E False args cur (cp_task E) nr fd s1"
    using copy_process_cases [OF pre, of False] run by auto
  from linked_child [OF pre l(1) l(2) [symmetric, unfolded run]] obtain t where
    t: "q = cp_task E" "cp_alloc_pid E = Inr nr" "nr \<noteq> 0" "tasks s' = (tasks s)(cur \<mapsto> clear_exceeded c, q \<mapsto> t)" "child_fields E args cur c s nr t"
    by auto
  moreover have "q \<noteq> cur" using pre t(1) by (simp add: fork_pre_def parent_ok_def)
  ultimately show thesis using that [of nr t] t(5) by (simp add: child_fields_def child_signal_def new_exit_signal_def Let_def)
qed

lemma pid_clear_exceeded [simp]: "pid (clear_exceeded c) = pid c"
  by (simp add: clear_exceeded_def)

text \<open>A child whose own identifiers agree leaves those of all other tasks in agreement.\<close>

lemma task_ids_ok_child:
  assumes ids: "task_ids_ok N s L" and cur: "tasks s cur = Some c"
    and ts: "tasks s' = (tasks s)(cur \<mapsto> clear_exceeded c, q \<mapsto> t)" "q \<noteq> cur"
    and L: "thread_pid L' = (thread_pid L)(q := pd)" "sig_pids L' = (if th then sig_pids L else (sig_pids L)(g := X))"
    and fresh: "\<forall>p t. tasks s p = Some t \<longrightarrow> task_signal t \<noteq> g"
    and child: "N pd = pid t" "N (sig_pids L' (task_signal t) PIDTYPE_TGID) = tgid t"
  shows "task_ids_ok N s' L'"
  unfolding task_ids_ok_def
proof (intro allI impI)
  fix p u assume p: "tasks s' p = Some u \<and> pid_alive L' p"
  show "N (thread_pid L' p) = pid u \<and> N (sig_pids L' (task_signal u) PIDTYPE_TGID) = tgid u"
  proof (cases "p = q")
    case True
    then show ?thesis using p ts child L(1) by auto
  next
    case False
    then obtain v where v: "tasks s p = Some v" "pid u = pid v" "tgid u = tgid v" "task_signal u = task_signal v"
      using p ts cur by (cases "p = cur") auto
    moreover have "pid_alive L p" using p False L(1) by (simp add: pid_alive_def)
    moreover have "task_signal v \<noteq> g" using fresh v(1) by blast
    ultimately show ?thesis using ids False L by (simp add: task_ids_ok_def)
  qed
qed

text \<open>
  C11: the two ways to ask for the identifiers of a task agree. When \<open>fork\<close>, \<open>clone\<close> or \<open>vfork\<close> has made a task, with the pid that was allocated for
  it, the numbers that the task carries (\<open>task_pid_nr\<close>, \<open>task_tgid_nr\<close>) are those that its pids have in the initial namespace, for it
  and for all other live tasks; in every namespace its group and session are the caller's, its thread group is its own pid, or
  the caller's group if it is a thread, and its parent is the caller's group, or the caller's parent for \<open>CLONE_PARENT\<close> and threads.
\<close>

theorem fork_ids_agree:
  assumes pre: "fork_pre E args cur c s" and run: "copy_process E False args cur s = (Inr q, s')"
    and nrf: "pid_lookup nrf num" and ids: "task_ids_ok (\<lambda>pd. num pd (Some ini)) s L" and live: "pid_alive L cur"
    and new: "pd \<noteq> NULL" "cp_alloc_pid E = Inr (num pd (Some ini))"
    and fresh: "\<forall>p t. tasks s p = Some t \<longrightarrow> task_signal t \<noteq> cp_new_signal E"
    and par: "tasks s (real_parent c) \<noteq> None"
    and exit_sig: "0 \<le> sint (new_exit_signal args c s)"
  defines "L' \<equiv> fork_pids (arg_flags args) s' cur q pd L"
  shows "task_ids_ok (\<lambda>pd. num pd (Some ini)) s' L' \<and> task_pid L' q = pd \<and> task_pid_nr s' q = task_pid_nr_ns nrf s' L' q ini \<and>
    task_tgid_nr s' q = task_tgid_nr_ns nrf s' L' q ini \<and>
    (\<forall>ns. task_pgrp_nr_ns nrf s' L' q ns = task_pgrp_nr_ns nrf s L cur ns \<and>
      task_session_nr_ns nrf s' L' q ns = task_session_nr_ns nrf s L cur ns \<and>
      task_tgid_nr_ns nrf s' L' q ns = (if has (arg_flags args) CLONE_THREAD then task_tgid_nr_ns nrf s L cur ns else num pd (Some ns)) \<and>
      task_ppid_nr_ns nrf s' L' q ns = (if has (arg_flags args) (CLONE_PARENT OR CLONE_THREAD) then task_ppid_nr_ns nrf s L cur ns
        else task_tgid_nr_ns nrf s L cur ns))"
proof -
  let ?fl = "arg_flags args" and ?g = "cp_new_signal E"
  obtain t nr where t: "q = cp_task E" "cp_alloc_pid E = Inr nr" "nr \<noteq> 0" "tasks s' = (tasks s)(cur \<mapsto> clear_exceeded c, q \<mapsto> t)" "q \<noteq> cur"
    "pid t = nr" "tgid t = (if has ?fl CLONE_THREAD then tgid c else nr)" "task_signal t = (if has ?fl CLONE_THREAD then task_signal c else ?g)"
    "real_parent t = (if has ?fl (CLONE_PARENT OR CLONE_THREAD) then real_parent c else cur)"
    "exit_signal t = (if has ?fl CLONE_THREAD then - 1 else new_exit_signal args c s)"
    by (rule fork_child_ids [OF pre run])
  have cur: "tasks s cur = Some c" using pre by (simp add: fork_pre_def parent_ok_def)
  have q: "the_task s' q = t" "the_task s' cur = clear_exceeded c" "the_task s cur = c" using t(4,5) cur by (simp_all add: the_task_def)
  have g: "?g \<noteq> task_signal c" using fresh [THEN spec, THEN spec, THEN mp, OF cur] by simp
  have nr: "nr = num pd (Some ini)" using new(2) t(2) by simp
  have num: "nrf s L tsk type ns = num (task_pid_ptr s L tsk type) ns" for s L tsk type ns using nrf by (simp add: pid_lookup_def)
  have L: "thread_pid L' = (thread_pid L)(q := pd)"
    "sig_pids L' = (if has ?fl CLONE_THREAD then sig_pids L
       else (sig_pids L)(?g := (\<lambda>_. NULL)(PIDTYPE_TGID := pd, PIDTYPE_PGID := sig_pids L (task_signal c) PIDTYPE_PGID,
         PIDTYPE_SID := sig_pids L (task_signal c) PIDTYPE_SID)))"
    using fork_pids_thread [of ?fl s' q cur pd L] fork_pids_process [of ?fl s' q ?g cur "task_signal c" pd L] g exit_sig t(3,6,8,10) q
    unfolding L'_def by (cases "has ?fl CLONE_THREAD"; simp)+
  have c: "num (thread_pid L cur) (Some ini) = pid c" "num (sig_pids L (task_signal c) PIDTYPE_TGID) (Some ini) = tgid c"
    using ids cur live by (simp_all add: task_ids_ok_def)
  have ids': "task_ids_ok (\<lambda>pd. num pd (Some ini)) s' L'"
    by (rule task_ids_ok_child [OF ids cur t(4,5) L fresh]) (use t(6-8) nr c(2) L(2) in auto)
  have sig: "task_signal (the_task s' p) = task_signal (the_task s p)" if "p \<noteq> q" for p
    using that t(4) cur by (simp add: the_task_def)
  obtain w where w: "tasks s (real_parent c) = Some w" "task_signal w \<noteq> ?g" "real_parent c \<noteq> q"
    using par fresh pre t(1) by (auto simp: fork_pre_def parent_ok_def)
  have par': "task_tgid_nr_ns nrf s' L' p ns = task_tgid_nr_ns nrf s L p ns" if "p = cur \<or> p = real_parent c" for p ns
  proof -
    have "p \<noteq> q" "task_signal (the_task s p) \<noteq> ?g" using that w t(5) g q(3) by (auto simp: the_task_def)
    then show ?thesis using sig L by (simp add: task_tgid_nr_ns_def num task_pid_ptr_def)
  qed
  have ppid: "task_ppid_nr_ns nrf s' L' q ns = (if has ?fl (CLONE_PARENT OR CLONE_THREAD) then task_ppid_nr_ns nrf s L cur ns
        else task_tgid_nr_ns nrf s L cur ns)" for ns
    using par' [of cur ns] par' [of "real_parent c" ns] t(9) q live L(1) new(1) by (simp add: task_ppid_nr_ns_def pid_alive_def)
  have ptr: "task_pid_ptr s' L' q PIDTYPE_PID = pd"
    "task_pid_ptr s' L' q PIDTYPE_TGID = (if has ?fl CLONE_THREAD then task_pid_ptr s L cur PIDTYPE_TGID else pd)"
    "task_pid_ptr s' L' q PIDTYPE_PGID = task_pid_ptr s L cur PIDTYPE_PGID" "task_pid_ptr s' L' q PIDTYPE_SID = task_pid_ptr s L cur PIDTYPE_SID"
    using t(8) q L g by (simp_all add: task_pid_ptr_def)
  have pids: "task_pid L' q = pd" "task_pid_nr s' q = task_pid_nr_ns nrf s' L' q ini" "task_tgid_nr s' q = task_tgid_nr_ns nrf s' L' q ini"
    using t(6,7) q nr c(2) L(1) by (simp_all add: task_pid_def task_pid_nr_def task_pid_nr_ns_def task_tgid_nr_def task_tgid_nr_ns_def num ptr)
      (simp add: task_pid_ptr_def)
  show ?thesis using ids' pids ppid by (simp add: task_pgrp_nr_ns_def task_session_nr_ns_def task_tgid_nr_ns_def num ptr)
qed

text \<open>Witness: a process with pid 4, in the group and session of pid 2, calls \<open>vfork\<close>; the pids have the same number in every namespace.\<close>

definition example_num :: "addr \<Rightarrow> addr option \<Rightarrow> s32" where
  "example_num pd ns = (if pd = 504 then 4 else if pd = 505 then 5 else if pd = 502 then 2 else 0)"

definition example_nrf :: pid_nr_fn where
  "example_nrf s L tsk type ns = example_num (task_pid_ptr s L tsk type) ns"

definition example_ptrs :: pid_ptrs where
  "example_ptrs = \<lparr>thread_pid = (\<lambda>_. NULL)(8 := 504), sig_pids = (\<lambda>_ _. NULL)(30 := (\<lambda>_. 502)(PIDTYPE_TGID := 504))\<rparr>"

theorem fork_ids_agree_witness:
  "\<exists>s'. copy_process example_cp_env False vfork_args 8 example_fork_state = (Inr 64, s') \<and>
    (let L = fork_pids (arg_flags vfork_args) s' 8 64 505 example_ptrs in
     task_pid_nr s' 64 = task_pid_nr_ns example_nrf s' L 64 90 \<and> task_tgid_nr s' 64 = task_tgid_nr_ns example_nrf s' L 64 90 \<and>
     task_pgrp_nr_ns example_nrf s' L 64 90 = 2 \<and> task_session_nr_ns example_nrf s' L 64 90 = 2 \<and>
     task_tgid_nr_ns example_nrf s' L 64 90 = 5 \<and> task_ppid_nr_ns example_nrf s' L 64 90 = 4)"
proof -
  obtain s' where run: "copy_process example_cp_env False vfork_args 8 example_fork_state = (Inr 64, s')" using example_forks by blast
  note ev = example_num_def example_nrf_def example_ptrs_def example_fork_state_def example_parent_def example_cp_env_def the_task_def task_pid_ptr_def
  have f: "\<not> has (arg_flags vfork_args) CLONE_THREAD" "\<not> has (arg_flags vfork_args) CLONE_PARENT" "\<not> has (arg_flags vfork_args) (CLONE_PARENT OR CLONE_THREAD)"
    by (simp_all add: vfork_args_def clone_args_zero_def has_def)
  have h: "pid_lookup example_nrf example_num" "pid_alive example_ptrs 8" "(505 :: addr) \<noteq> NULL"
    by (simp_all add: pid_lookup_def example_nrf_def pid_alive_def example_ptrs_def)
  have i: "task_ids_ok (\<lambda>pd. example_num pd (Some 90)) example_fork_state example_ptrs" by (simp add: task_ids_ok_def pid_alive_def ev)
  have j: "cp_alloc_pid example_cp_env = Inr (example_num 505 (Some 90))" "tasks example_fork_state (real_parent example_parent) \<noteq> None"
    "\<forall>p t. tasks example_fork_state p = Some t \<longrightarrow> task_signal t \<noteq> cp_new_signal example_cp_env" by (simp_all add: ev)
  have k: "0 \<le> sint (new_exit_signal vfork_args example_parent example_fork_state)"
    using f(2) by (simp add: new_exit_signal_def vfork_args_def clone_args_zero_def)
  have l: "task_pgrp_nr_ns example_nrf example_fork_state example_ptrs 8 90 = 2" "task_session_nr_ns example_nrf example_fork_state example_ptrs 8 90 = 2"
    "task_tgid_nr_ns example_nrf example_fork_state example_ptrs 8 90 = 4" "example_num 505 (Some 90) = 5"
    by (simp_all add: task_pgrp_nr_ns_def task_session_nr_ns_def task_tgid_nr_ns_def ev)
  note r = fork_ids_agree [OF example_pre run h(1) i h(2,3) j(1,3,2) k]
  show ?thesis using run r [unfolded if_not_P [OF f(1)] if_not_P [OF f(3)]] unfolding Let_def
    by (intro exI [of _ s'] conjI) (simp_all add: l)
qed

end
