(* ===== verification/Mm_Context.thy ===== *)
theory Mm_Context
  imports Kernel_Prelude Transition_System
begin

text \<open>
  The part of an address space that belongs to the architecture (arch/x86/include/asm/mmu.h and mmu_context.h): its
  identifier for the TLB, its local descriptor table, its protection keys and the places of vDSO and \<open>[vtask]\<close>; how
  they are set up, copied by a fork and released.
\<close>

section \<open>Contexts\<close>

record mm_context =
  ctx_id :: u64
  tlb_gen :: u64
  next_trim_cpumask :: u64
  ctx_ldt :: "addr option"
  ctx_flags :: u16
  ctx_vdso :: u64
  ctx_vdso_image :: addr
  ctx_vtask :: u64
  pkey_allocation_map :: u16
  execute_only_pkey :: u16

text \<open>
  The contexts by the address of their \<open>mm_struct\<close>, the counter of identifiers and the descriptor tables in use.
  \<open>issued\<close> and \<open>created\<close> record the identifiers handed out and their number.
\<close>

record ctx_state =
  ctxs :: "addr \<rightharpoonup> mm_context"
  last_mm_ctx_id :: u64
  ldt_structs :: "addr set"
  issued :: "u64 list"
  created :: nat

text \<open>\<open>INIT_MM_CONTEXT\<close>, and the zeroed context of a new \<open>mm_struct\<close>.\<close>

definition zero_context :: mm_context where
  "zero_context = \<lparr>ctx_id = 0, tlb_gen = 0, next_trim_cpumask = 0, ctx_ldt = None, ctx_flags = 0, ctx_vdso = 0, ctx_vdso_image = 0,
     ctx_vtask = 0, pkey_allocation_map = 0, execute_only_pkey = 0\<rparr>"

definition INIT_MM_CONTEXT :: mm_context where
  "INIT_MM_CONTEXT = zero_context\<lparr>ctx_id := 1\<rparr>"

definition boot_contexts :: "addr \<Rightarrow> ctx_state" where
  "boot_contexts init_mm = \<lparr>ctxs = [init_mm \<mapsto> INIT_MM_CONTEXT], last_mm_ctx_id = 1, ldt_structs = {}, issued = [1], created = 1\<rparr>"

text \<open>
  The rest of the architecture: whether protection keys are enabled, the clock, and the two functions on descriptor tables that the header only
  declares. \<open>ldt_dup_context\<close> copies the table of the old address space and returns a code and the pointer of the new one; \<open>destroy_context_ldt\<close>
  releases the table of an address space.
\<close>

record ctx_ops =
  ospke :: bool
  jiffies :: u64
  HZ :: u64
  ldt_dup_context :: "addr option \<Rightarrow> ctx_state \<Rightarrow> int \<times> addr option"
  destroy_context_ldt :: "addr \<Rightarrow> mm_context \<Rightarrow> ctx_state \<Rightarrow> ctx_state kres"

section \<open>Operations\<close>

definition set_ctx :: "addr \<Rightarrow> mm_context \<Rightarrow> ctx_state \<Rightarrow> ctx_state" where
  "set_ctx mm c s = s\<lparr>ctxs := (ctxs s)(mm \<mapsto> c)\<rparr>"

definition init_new_context_ldt :: "mm_context \<Rightarrow> mm_context" where
  "init_new_context_ldt c = c\<lparr>ctx_ldt := None\<rparr>"

definition init_new_context :: "ctx_ops \<Rightarrow> addr \<Rightarrow> mm_context \<Rightarrow> ctx_state \<Rightarrow> int \<times> ctx_state" where
  "init_new_context ops mm c s =
    (let i = last_mm_ctx_id s + 1;
         s = s\<lparr>last_mm_ctx_id := i, issued := i # issued s, created := created s + 1\<rparr>;
         c = c\<lparr>ctx_id := i, tlb_gen := 0, next_trim_cpumask := jiffies ops + HZ ops\<rparr>;
         c = (if ospke ops then c\<lparr>pkey_allocation_map := 1, execute_only_pkey := - 1\<rparr> else c)
     in (0, set_ctx mm (init_new_context_ldt c) s))"

definition destroy_context :: "ctx_ops \<Rightarrow> addr \<Rightarrow> mm_context \<Rightarrow> ctx_state \<Rightarrow> ctx_state kres" where
  "destroy_context ops mm c s = destroy_context_ldt ops mm c s"

definition arch_dup_pkeys :: "ctx_ops \<Rightarrow> mm_context \<Rightarrow> mm_context \<Rightarrow> mm_context" where
  "arch_dup_pkeys ops old c =
    (if \<not> ospke ops then c
     else c\<lparr>pkey_allocation_map := pkey_allocation_map old, execute_only_pkey := execute_only_pkey old\<rparr>)"

definition arch_dup_mmap :: "ctx_ops \<Rightarrow> mm_context \<Rightarrow> addr \<Rightarrow> mm_context \<Rightarrow> ctx_state \<Rightarrow> int \<times> ctx_state" where
  "arch_dup_mmap ops old mm c s =
    (let c = arch_dup_pkeys ops old c;
         (ret, l) = ldt_dup_context ops (ctx_ldt old) s
     in (ret, set_ctx mm (c\<lparr>ctx_ldt := l\<rparr>) (s\<lparr>ldt_structs := ldt_structs s \<union> set_option l\<rparr>)))"

definition is_64bit_mm :: "bool \<Rightarrow> mm_context \<Rightarrow> bool" where
  "is_64bit_mm ia32_emulation c \<longleftrightarrow> \<not> ia32_emulation \<or> ctx_flags c AND 1 = 0"

definition arch_vma_access_permitted :: "(u16 \<Rightarrow> bool \<Rightarrow> bool) \<Rightarrow> u16 \<Rightarrow> bool \<Rightarrow> bool \<Rightarrow> bool \<Rightarrow> bool \<Rightarrow> bool" where
  "arch_vma_access_permitted pkru_allows_pkey pkey vma_is_foreign wr execute foreign =
    (if execute then True else if foreign \<or> vma_is_foreign then True else pkru_allows_pkey pkey wr)"

section \<open>The life of address spaces\<close>

text \<open>
  A new address space starts with a zeroed context, the copy of one with the bytes of the original; a copy whose
  \<open>arch_dup_mmap\<close> fails is destroyed at once.
\<close>

definition new_context :: "ctx_ops \<Rightarrow> addr \<Rightarrow> ctx_state \<Rightarrow> ctx_state" where
  "new_context ops mm s = snd (init_new_context ops mm zero_context s)"

definition drop_context :: "ctx_ops \<Rightarrow> addr \<Rightarrow> mm_context \<Rightarrow> ctx_state \<Rightarrow> ctx_state kres" where
  "drop_context ops mm c s = rbind (destroy_context ops mm c s) (\<lambda>s. Inr (s\<lparr>ctxs := (ctxs s)(mm := None)\<rparr>))"

text \<open>\<open>early\<close> says that \<open>dup_mmap\<close> fails before it comes to \<open>arch_dup_mmap\<close>, with the negative code given.\<close>

definition dup_context :: "ctx_ops \<Rightarrow> int option \<Rightarrow> mm_context \<Rightarrow> addr \<Rightarrow> ctx_state \<Rightarrow> (int \<times> ctx_state) kres" where
  "dup_context ops early old mm s =
    (let (r, s) = init_new_context ops mm old s;
         (ret, s) = (case early of None \<Rightarrow> arch_dup_mmap ops old mm (the (ctxs s mm)) s | Some e \<Rightarrow> (e, s))
     in if ret \<noteq> 0 then rbind (drop_context ops mm (the (ctxs s mm)) s) (\<lambda>s. Inr (ret, s)) else Inr (ret, s))"

text \<open>The steps; in the last one the system call \<open>modify_ldt\<close> gives an address space a new table in the place of the one it had.\<close>

definition install_ldt :: "addr \<Rightarrow> mm_context \<Rightarrow> addr \<Rightarrow> ctx_state \<Rightarrow> ctx_state" where
  "install_ldt mm c l s = set_ctx mm (c\<lparr>ctx_ldt := Some l\<rparr>) (s\<lparr>ldt_structs := ldt_structs s - set_option (ctx_ldt c) \<union> {l}\<rparr>)"

inductive ctx_step :: "ctx_ops \<Rightarrow> ctx_state \<Rightarrow> ctx_state \<Rightarrow> bool" for ops where
  c_new: "ctxs s mm = None \<Longrightarrow> ctx_step ops s (new_context ops mm s)"
| c_dup: "ctxs s mm = None \<Longrightarrow> ctxs s old = Some c \<Longrightarrow> early \<noteq> Some 0 \<Longrightarrow> dup_context ops early c mm s = Inr (r, s') \<Longrightarrow> ctx_step ops s s'"
| c_drop: "ctxs s mm = Some c \<Longrightarrow> drop_context ops mm c s = Inr s' \<Longrightarrow> ctx_step ops s s'"
| c_install: "ctxs s mm = Some c \<Longrightarrow> l \<notin> ldt_structs s \<Longrightarrow> ctx_step ops s (install_ldt mm c l s)"

section \<open>The invariant\<close>

text \<open>
  What the two functions promise: there is nothing to copy without a table, and the copy of a table is a new one, or it fails and leaves none; releasing frees
  the table of the address space and clears the pointer, and with a pointer to a table that is not in use any more it goes wrong.
\<close>

definition ldt_law :: "ctx_ops \<Rightarrow> bool" where
  "ldt_law ops \<longleftrightarrow>
    (\<forall>s. ldt_dup_context ops None s = (0, None)) \<and>
    (\<forall>l s r x. ldt_dup_context ops (Some l) s = (r, x) \<longrightarrow> r < 0 \<and> x = None \<or> r = 0 \<and> (\<exists>y. x = Some y \<and> y \<notin> ldt_structs s)) \<and>
    (\<forall>mm c s. ctx_ldt c = None \<longrightarrow> destroy_context_ldt ops mm c s = Inr s) \<and>
    (\<forall>mm c l s. ctx_ldt c = Some l \<longrightarrow> (if l \<in> ldt_structs s
       then destroy_context_ldt ops mm c s = Inr (set_ctx mm (c\<lparr>ctx_ldt := None\<rparr>) (s\<lparr>ldt_structs := ldt_structs s - {l}\<rparr>))
       else \<exists>e. destroy_context_ldt ops mm c s = Inl e))"

text \<open>Identifiers: as long as the counter has not wrapped, the values handed out are the numbers up to it.\<close>

definition ids_ok :: "ctx_state \<Rightarrow> bool" where
  "ids_ok s \<longleftrightarrow> created s < 2 ^ 64 \<longrightarrow>
    unat (last_mm_ctx_id s) = created s \<and> distinct (issued s) \<and> (\<forall>i \<in> set (issued s). 0 < unat i \<and> unat i \<le> created s) \<and>
    (\<forall>mm c. ctxs s mm = Some c \<longrightarrow> ctx_id c \<in> set (issued s)) \<and>
    (\<forall>mm mm' c c'. ctxs s mm = Some c \<and> ctxs s mm' = Some c' \<and> ctx_id c = ctx_id c' \<longrightarrow> mm = mm')"

text \<open>Descriptor tables: those in use are the tables of the contexts, and no two contexts have the same.\<close>

definition ldts_ok :: "ctx_state \<Rightarrow> bool" where
  "ldts_ok s \<longleftrightarrow>
    (\<forall>l. l \<in> ldt_structs s \<longleftrightarrow> (\<exists>mm c. ctxs s mm = Some c \<and> ctx_ldt c = Some l)) \<and>
    (\<forall>mm mm' c c' l. ctxs s mm = Some c \<and> ctxs s mm' = Some c' \<and> ctx_ldt c = Some l \<and> ctx_ldt c' = Some l \<longrightarrow> mm = mm')"

lemma init_new_context_effect:
  "\<exists>c'. init_new_context ops mm c s = (0, s\<lparr>ctxs := (ctxs s)(mm \<mapsto> c'), last_mm_ctx_id := last_mm_ctx_id s + 1,
      issued := (last_mm_ctx_id s + 1) # issued s, created := created s + 1\<rparr>) \<and>
    ctx_id c' = last_mm_ctx_id s + 1 \<and> ctx_ldt c' = None \<and> tlb_gen c' = 0 \<and>
    ctx_vdso c' = ctx_vdso c \<and> ctx_vdso_image c' = ctx_vdso_image c \<and> ctx_vtask c' = ctx_vtask c \<and>
    (ospke ops \<longrightarrow> pkey_allocation_map c' = 1 \<and> execute_only_pkey c' = - 1)"
proof -
  let ?c = "c\<lparr>ctx_id := last_mm_ctx_id s + 1, tlb_gen := 0, next_trim_cpumask := jiffies ops + HZ ops\<rparr>"
  let ?d = "if ospke ops then ?c\<lparr>pkey_allocation_map := 1, execute_only_pkey := - 1\<rparr> else ?c"
  have "init_new_context ops mm c s = (0, s\<lparr>ctxs := (ctxs s)(mm \<mapsto> init_new_context_ldt ?d), last_mm_ctx_id := last_mm_ctx_id s + 1,
      issued := (last_mm_ctx_id s + 1) # issued s, created := created s + 1\<rparr>)"
    by (cases s) (simp add: init_new_context_def Let_def set_ctx_def)
  then show ?thesis
    by (intro exI [of _ "init_new_context_ldt ?d"]) (simp add: init_new_context_ldt_def)
qed

lemma init_ids_ok:
  assumes "ids_ok s" "init_new_context ops mm c s = (r, s')" "ctxs s mm = None"
  shows "ids_ok s'"
  unfolding ids_ok_def
proof (intro impI)
  assume lt: "created s' < 2 ^ 64"
  obtain c' where s': "s' = s\<lparr>ctxs := (ctxs s)(mm \<mapsto> c'), last_mm_ctx_id := last_mm_ctx_id s + 1,
      issued := (last_mm_ctx_id s + 1) # issued s, created := created s + 1\<rparr>" and id: "ctx_id c' = last_mm_ctx_id s + 1"
    using init_new_context_effect [of ops mm c s] assms(2) by auto
  have lt': "created s + 1 < 2 ^ 64" using lt s' by simp
  then have old: "unat (last_mm_ctx_id s) = created s" "distinct (issued s)" "\<forall>i \<in> set (issued s). 0 < unat i \<and> unat i \<le> created s"
      "\<forall>mm c. ctxs s mm = Some c \<longrightarrow> ctx_id c \<in> set (issued s)"
      "\<forall>mm mm' c c'. ctxs s mm = Some c \<and> ctxs s mm' = Some c' \<and> ctx_id c = ctx_id c' \<longrightarrow> mm = mm'"
    using assms(1) unfolding ids_ok_def by auto
  have n: "unat (last_mm_ctx_id s + 1) = created s + 1" using old(1) lt' by (simp add: unat_word_ariths)
  then have fresh: "last_mm_ctx_id s + 1 \<notin> set (issued s)" using old(3) by fastforce
  show "unat (last_mm_ctx_id s') = created s' \<and> distinct (issued s') \<and> (\<forall>i \<in> set (issued s'). 0 < unat i \<and> unat i \<le> created s') \<and>
    (\<forall>mm c. ctxs s' mm = Some c \<longrightarrow> ctx_id c \<in> set (issued s')) \<and>
    (\<forall>mm mm' c c'. ctxs s' mm = Some c \<and> ctxs s' mm' = Some c' \<and> ctx_id c = ctx_id c' \<longrightarrow> mm = mm')"
  proof (intro conjI)
    show "unat (last_mm_ctx_id s') = created s'" "distinct (issued s')" using n fresh old(2) by (simp_all add: s')
    show "\<forall>i \<in> set (issued s'). 0 < unat i \<and> unat i \<le> created s'" using n old(3) by (force simp: s')
    show "\<forall>mm c. ctxs s' mm = Some c \<longrightarrow> ctx_id c \<in> set (issued s')" using old(4) id by (auto simp: s')
    show "\<forall>mm mm' c c'. ctxs s' mm = Some c \<and> ctxs s' mm' = Some c' \<and> ctx_id c = ctx_id c' \<longrightarrow> mm = mm'"
      using old(4,5) id fresh by (auto simp: s' split: if_splits) metis+
  qed
qed

lemma init_ldts_ok:
  assumes "ldts_ok s" "init_new_context ops mm c s = (r, s')" "ctxs s mm = None"
  shows "ldts_ok s'" "ldt_structs s' = ldt_structs s"
proof -
  obtain c' where s': "s' = s\<lparr>ctxs := (ctxs s)(mm \<mapsto> c'), last_mm_ctx_id := last_mm_ctx_id s + 1,
      issued := (last_mm_ctx_id s + 1) # issued s, created := created s + 1\<rparr>" and l: "ctx_ldt c' = None"
    using init_new_context_effect [of ops mm c s] assms(2) by auto
  have own: "(\<exists>m c. ctxs s' m = Some c \<and> ctx_ldt c = Some x) \<longleftrightarrow> (\<exists>m c. ctxs s m = Some c \<and> ctx_ldt c = Some x)" for x
    using assms(3) l by (auto simp: s' split: if_splits) (metis option.distinct(1))
  show "ldts_ok s'"
    using assms(1) unfolding ldts_ok_def own using l by (auto simp: s' split: if_splits)
  show "ldt_structs s' = ldt_structs s" by (simp add: s')
qed

text \<open>Copying and destroying leave the identifiers alone.\<close>

lemma ids_ok_same:
  assumes "ids_ok s" "created s' = created s" "last_mm_ctx_id s' = last_mm_ctx_id s" "issued s' = issued s"
    and "\<And>mm c'. ctxs s' mm = Some c' \<Longrightarrow> \<exists>c. ctxs s mm = Some c \<and> ctx_id c = ctx_id c'"
  shows "ids_ok s'"
  unfolding ids_ok_def assms(2-4)
proof (intro impI)
  assume "created s < 2 ^ 64"
  with assms(1) have h: "unat (last_mm_ctx_id s) = created s" "distinct (issued s)" "\<forall>i \<in> set (issued s). 0 < unat i \<and> unat i \<le> created s"
      "\<forall>mm c. ctxs s mm = Some c \<longrightarrow> ctx_id c \<in> set (issued s)"
      "\<forall>mm mm' c c'. ctxs s mm = Some c \<and> ctxs s mm' = Some c' \<and> ctx_id c = ctx_id c' \<longrightarrow> mm = mm'"
    unfolding ids_ok_def by simp_all
  have "ctx_id c' \<in> set (issued s)" if "ctxs s' mm = Some c'" for mm c'
    using assms(5) [OF that] h(4) by metis
  moreover have "mm = mm'" if two: "ctxs s' mm = Some c \<and> ctxs s' mm' = Some c' \<and> ctx_id c = ctx_id c'" for mm mm' c c'
  proof -
    obtain d d' where "ctxs s mm = Some d" "ctx_id d = ctx_id c" "ctxs s mm' = Some d'" "ctx_id d' = ctx_id c'"
      using assms(5) [of mm c] assms(5) [of mm' c'] two by blast
    then show ?thesis using h(5) two by metis
  qed
  ultimately show "unat (last_mm_ctx_id s) = created s \<and> distinct (issued s) \<and> (\<forall>i \<in> set (issued s). 0 < unat i \<and> unat i \<le> created s) \<and>
    (\<forall>mm c. ctxs s' mm = Some c \<longrightarrow> ctx_id c \<in> set (issued s)) \<and>
    (\<forall>mm mm' c c'. ctxs s' mm = Some c \<and> ctxs s' mm' = Some c' \<and> ctx_id c = ctx_id c' \<longrightarrow> mm = mm')"
    using h(1-3) by blast
qed

lemma ldts_okD:
  assumes "ldts_ok s"
  shows "l \<in> ldt_structs s \<longleftrightarrow> (\<exists>mm c. ctxs s mm = Some c \<and> ctx_ldt c = Some l)"
    "ctxs s mm = Some c \<Longrightarrow> ctxs s mm' = Some c' \<Longrightarrow> ctx_ldt c = Some l \<Longrightarrow> ctx_ldt c' = Some l \<Longrightarrow> mm = mm'"
  using assms unfolding ldts_ok_def by blast+

lemma drop_context_ok:
  assumes "ids_ok s" "ldts_ok s" "ctxs s mm = Some c" and law: "ldt_law ops"
  shows "\<exists>s'. drop_context ops mm c s = Inr s' \<and> ids_ok s' \<and> ldts_ok s' \<and> ctxs s' = (ctxs s)(mm := None) \<and> created s' = created s"
proof -
  let ?s' = "s\<lparr>ldt_structs := ldt_structs s - set_option (ctx_ldt c), ctxs := (ctxs s)(mm := None)\<rparr>"
  have live: "l \<in> ldt_structs s" if "ctx_ldt c = Some l" for l
    using assms(2,3) that unfolding ldts_ok_def by blast
  have eq: "drop_context ops mm c s = Inr ?s'"
    using live law by (cases s; cases "ctx_ldt c") (auto simp: drop_context_def destroy_context_def ldt_law_def set_ctx_def)
  have ids: "ids_ok ?s'"
    by (rule ids_ok_same [OF assms(1)]) (auto split: if_splits)
  have "(\<exists>m d. ctxs ?s' m = Some d \<and> ctx_ldt d = Some l) \<longleftrightarrow> l \<in> ldt_structs s \<and> ctx_ldt c \<noteq> Some l" (is "?L \<longleftrightarrow> _") for l
  proof
    assume ?L
    then obtain m d where d: "m \<noteq> mm" "ctxs s m = Some d" "ctx_ldt d = Some l" by (auto split: if_splits)
    then show "l \<in> ldt_structs s \<and> ctx_ldt c \<noteq> Some l" using ldts_okD [OF assms(2)] assms(3) by blast
  next
    assume r: "l \<in> ldt_structs s \<and> ctx_ldt c \<noteq> Some l"
    then obtain m d where "ctxs s m = Some d" "ctx_ldt d = Some l" using ldts_okD(1) [OF assms(2)] by blast
    moreover from this have "m \<noteq> mm" using r assms(3) by auto
    ultimately show ?L by auto
  qed
  moreover have "\<forall>m m' d d' l. ctxs ?s' m = Some d \<and> ctxs ?s' m' = Some d' \<and> ctx_ldt d = Some l \<and> ctx_ldt d' = Some l \<longrightarrow> m = m'"
    using assms(2) unfolding ldts_ok_def by (auto split: if_splits)
  ultimately have "ldts_ok ?s'" unfolding ldts_ok_def by auto
  with eq ids show ?thesis by auto
qed

text \<open>An address space may get a new table, or none, in the place of the one it had.\<close>

lemma ldts_ok_put:
  assumes ok: "ldts_ok s" and c: "ctxs s mm = Some c" and x: "set_option x \<inter> ldt_structs s = {}"
    and s': "ctxs s' = (ctxs s)(mm \<mapsto> c')" "ctx_ldt c' = x" "ldt_structs s' = ldt_structs s - set_option (ctx_ldt c) \<union> set_option x"
  shows "ldts_ok s'"
  unfolding ldts_ok_def
proof (intro conjI allI)
  have other: "k \<noteq> mm \<Longrightarrow> ctxs s' k = ctxs s k" "ctxs s' mm = Some c'" for k using s'(1) by simp_all
  have mine: "m = mm" if "ctxs s m = Some d" "ctx_ldt d = Some l" "ctx_ldt c = Some l" for m d l
    using ldts_okD(2) [OF ok that(1) c that(2,3)] .
  have old: "l \<in> ldt_structs s" "x \<noteq> Some l" if "ctxs s m = Some d" "ctx_ldt d = Some l" for m d l
    using ldts_okD(1) [OF ok, of l] that x by auto
  fix l
  show "l \<in> ldt_structs s' \<longleftrightarrow> (\<exists>mm c. ctxs s' mm = Some c \<and> ctx_ldt c = Some l)"
  proof
    assume "l \<in> ldt_structs s'"
    then consider "x = Some l" | m d where "ctxs s m = Some d" "ctx_ldt d = Some l" "ctx_ldt c \<noteq> Some l"
      using ldts_okD(1) [OF ok, of l] s'(3) by auto
    then show "\<exists>mm c. ctxs s' mm = Some c \<and> ctx_ldt c = Some l"
    proof cases
      case 1
      then show ?thesis using other(2) s'(2) by blast
    next
      case 2
      then have "m \<noteq> mm" using c by auto
      then show ?thesis using other(1) 2 by metis
    qed
  next
    assume "\<exists>mm c. ctxs s' mm = Some c \<and> ctx_ldt c = Some l"
    then obtain m d where d: "ctxs s' m = Some d" "ctx_ldt d = Some l" by blast
    then show "l \<in> ldt_structs s'"
      using other s'(2,3) old [of m d l] mine [of m d l] by (cases "m = mm") auto
  qed
  fix m m' d d'
  show "ctxs s' m = Some d \<and> ctxs s' m' = Some d' \<and> ctx_ldt d = Some l \<and> ctx_ldt d' = Some l \<longrightarrow> m = m'"
    using other s'(2) old(2) [of m d l] old(2) [of m' d' l] ldts_okD(2) [OF ok, of m d m' d' l] by (cases "m = mm"; cases "m' = mm") auto
qed

lemma install_ldt_ok:
  assumes "ids_ok s" "ldts_ok s" "ctxs s mm = Some c" "l \<notin> ldt_structs s"
  shows "ids_ok (install_ldt mm c l s)" "ldts_ok (install_ldt mm c l s)"
proof -
  show "ids_ok (install_ldt mm c l s)"
    by (rule ids_ok_same [OF assms(1)]) (use assms(3) in \<open>auto simp: install_ldt_def set_ctx_def split: if_splits\<close>)
  show "ldts_ok (install_ldt mm c l s)"
    by (rule ldts_ok_put [OF assms(2,3), of "Some l" _ "c\<lparr>ctx_ldt := Some l\<rparr>"]) (use assms(4) in \<open>simp_all add: install_ldt_def set_ctx_def\<close>)
qed

lemma arch_dup_mmap_ok:
  assumes "ldt_law ops" "ids_ok s" "ldts_ok s" "ctxs s mm = Some c" "ctx_ldt c = None"
    and "arch_dup_mmap ops old mm c s = (r, s')"
  shows "ids_ok s' \<and> ldts_ok s' \<and> r \<le> 0 \<and> created s' = created s \<and>
    (\<exists>c'. ctxs s' = (ctxs s)(mm \<mapsto> c') \<and> ctx_id c' = ctx_id c \<and> ctx_vdso c' = ctx_vdso c \<and> ctx_vtask c' = ctx_vtask c \<and>
      (r = 0 \<longrightarrow> (ctx_ldt c' = None) = (ctx_ldt old = None)) \<and>
      (ospke ops \<longrightarrow> pkey_allocation_map c' = pkey_allocation_map old \<and> execute_only_pkey c' = execute_only_pkey old))"
proof -
  obtain l where l: "ldt_dup_context ops (ctx_ldt old) s = (r, l)"
    using assms(6) by (auto simp: arch_dup_mmap_def Let_def split: prod.splits)
  have lr: "r \<le> 0" "set_option l \<inter> ldt_structs s = {}" "r = 0 \<longrightarrow> (l = None) = (ctx_ldt old = None)"
    using assms(1) l unfolding ldt_law_def by (cases "ctx_ldt old"; fastforce)+
  let ?c = "arch_dup_pkeys ops old c\<lparr>ctx_ldt := l\<rparr>"
  have s': "s' = s\<lparr>ldt_structs := ldt_structs s \<union> set_option l, ctxs := (ctxs s)(mm \<mapsto> ?c)\<rparr>"
    using assms(6) l by (cases s) (auto simp: arch_dup_mmap_def Let_def set_ctx_def split: prod.splits)
  have same: "ctx_id ?c = ctx_id c" "ctx_vdso ?c = ctx_vdso c" "ctx_vtask ?c = ctx_vtask c"
      "ospke ops \<Longrightarrow> pkey_allocation_map ?c = pkey_allocation_map old \<and> execute_only_pkey ?c = execute_only_pkey old"
    by (simp_all add: arch_dup_pkeys_def)
  have ids: "ids_ok s'" by (rule ids_ok_same [OF assms(2)]) (use assms(4) same in \<open>auto simp: s' split: if_splits\<close>)
  have "ldts_ok s'" by (rule ldts_ok_put [OF assms(3,4) lr(2), of _ ?c]) (use assms(5) in \<open>simp_all add: s'\<close>)
  with ids lr same show ?thesis by (auto simp: s')
qed

text \<open>A copy never faults; it has its own identifier and table and shares the rest, or it fails and is gone.\<close>

definition copied_context :: "ctx_ops \<Rightarrow> ctx_state \<Rightarrow> mm_context \<Rightarrow> mm_context \<Rightarrow> bool" where
  "copied_context ops s c c' \<longleftrightarrow> ctx_id c' = last_mm_ctx_id s + 1 \<and> ctx_vdso c' = ctx_vdso c \<and> ctx_vtask c' = ctx_vtask c \<and>
     (ctx_ldt c' = None) = (ctx_ldt c = None) \<and> (ospke ops \<longrightarrow> pkey_allocation_map c' = pkey_allocation_map c \<and> execute_only_pkey c' = execute_only_pkey c)"

lemma dup_context_ok:
  assumes "ldt_law ops" "ids_ok s" "ldts_ok s" "ctxs s mm = None" "ctxs s old = Some c" "early \<noteq> Some 0"
  shows "\<exists>r s'. dup_context ops early c mm s = Inr (r, s') \<and> ids_ok s' \<and> ldts_ok s' \<and> created s' = created s + 1 \<and>
    (r \<noteq> 0 \<longrightarrow> ctxs s' = ctxs s) \<and>
    (r = 0 \<longrightarrow> (\<exists>c'. ctxs s' = (ctxs s)(mm \<mapsto> c') \<and> copied_context ops s c c'))"
proof -
  obtain c1 s1 where i: "init_new_context ops mm c s = (0, s1)"
      and s1: "ctxs s1 = (ctxs s)(mm \<mapsto> c1)" "created s1 = created s + 1"
      and c1: "ctx_ldt c1 = None" "ctx_id c1 = last_mm_ctx_id s + 1" "ctx_vdso c1 = ctx_vdso c" "ctx_vtask c1 = ctx_vtask c"
    using init_new_context_effect [of ops mm c s] by force
  have ok1: "ids_ok s1" "ldts_ok s1" using init_ids_ok [OF assms(2) i assms(4)] init_ldts_ok [OF assms(3) i assms(4)] by simp_all
  have at1: "ctxs s1 mm = Some c1" by (simp add: s1)
  obtain r s2 where d: "(case early of None \<Rightarrow> arch_dup_mmap ops c mm c1 s1 | Some e \<Rightarrow> (e, s1)) = (r, s2)" by fastforce
  have s2: "ids_ok s2 \<and> ldts_ok s2 \<and> created s2 = created s1 \<and>
    (\<exists>c'. ctxs s2 = (ctxs s1)(mm \<mapsto> c') \<and> (r = 0 \<longrightarrow> ctx_id c' = ctx_id c1 \<and> ctx_vdso c' = ctx_vdso c1 \<and> ctx_vtask c' = ctx_vtask c1 \<and>
      (ctx_ldt c' = None) = (ctx_ldt c = None) \<and> (ospke ops \<longrightarrow> pkey_allocation_map c' = pkey_allocation_map c \<and> execute_only_pkey c' = execute_only_pkey c)))"
  proof (cases early)
    case None
    then have "arch_dup_mmap ops c mm c1 s1 = (r, s2)" using d by simp
    from arch_dup_mmap_ok [OF assms(1) ok1 at1 c1(1) this] show ?thesis by (elim conjE exE) (intro conjI, assumption+, rule exI, rule conjI, assumption, simp)
  next
    case (Some e)
    then have e: "s2 = s1" "r \<noteq> 0" using d assms(6) by auto
    have "ctxs s2 = (ctxs s1)(mm \<mapsto> c1)" using e at1 by (simp add: fun_upd_idem)
    then show ?thesis using ok1 e by blast
  qed
  then obtain c2 where c2: "ctxs s2 mm = Some c2" "ctxs s2 = (ctxs s)(mm \<mapsto> c2)"
      "r = 0 \<longrightarrow> ctx_id c2 = ctx_id c1 \<and> ctx_vdso c2 = ctx_vdso c1 \<and> ctx_vtask c2 = ctx_vtask c1 \<and>
      (ctx_ldt c2 = None) = (ctx_ldt c = None) \<and> (ospke ops \<longrightarrow> pkey_allocation_map c2 = pkey_allocation_map c \<and> execute_only_pkey c2 = execute_only_pkey c)"
    by (auto simp: s1)
  have dc: "dup_context ops early c mm s = (if r \<noteq> 0 then rbind (drop_context ops mm c2 s2) (\<lambda>s. Inr (r, s)) else Inr (r, s2))"
    using i at1 d c2(1) by (simp add: dup_context_def Let_def split: option.splits)
  show ?thesis
  proof (cases "r = 0")
    case True
    then have "copied_context ops s c c2" unfolding copied_context_def using c2(3) c1(2-4) by simp
    then show ?thesis using dc True s2 c2(2) s1(2) by auto
  next
    case False
    obtain s3 where "drop_context ops mm c2 s2 = Inr s3" "ids_ok s3" "ldts_ok s3" "ctxs s3 = (ctxs s2)(mm := None)" "created s3 = created s2"
      using drop_context_ok [OF _ _ c2(1) assms(1)] s2 by blast
    moreover have "(ctxs s2)(mm := None) = ctxs s" using c2(2) assms(4) by (simp add: fun_upd_idem)
    ultimately show ?thesis using dc False s2 s1 by auto
  qed
qed

lemma ctx_step_ok:
  assumes "ldt_law ops" "ids_ok s \<and> ldts_ok s" "ctx_step ops s s'"
  shows "ids_ok s' \<and> ldts_ok s'"
  using assms(3)
proof cases
  case (c_new mm)
  obtain r t where "init_new_context ops mm zero_context s = (r, t)" by fastforce
  then show ?thesis
    using c_new init_ids_ok [of s ops mm zero_context] init_ldts_ok [of s ops mm zero_context] assms(2) by (simp add: new_context_def)
next
  case (c_dup mm old c early r)
  then show ?thesis using dup_context_ok [OF assms(1) _ _ c_dup(1-3)] assms(2) by auto
next
  case (c_drop mm c)
  then show ?thesis using drop_context_ok [OF _ _ c_drop(1) assms(1)] assms(2) by auto
next
  case (c_install mm c l)
  then show ?thesis using install_ldt_ok [of s mm c l] assms(2) by simp
qed

lemma boot_contexts_ok: "ids_ok (boot_contexts init_mm) \<and> ldts_ok (boot_contexts init_mm)"
  by (auto simp: ids_ok_def ldts_ok_def boot_contexts_def INIT_MM_CONTEXT_def zero_context_def split: if_splits)

interpretation ctx: transition_system "\<lambda>s. \<exists>init_mm. s = boot_contexts init_mm" "\<lambda>s s'. ldt_law ops \<and> ctx_step ops s s'"
    "\<lambda>s. ids_ok s \<and> ldts_ok s" for ops
  by unfold_locales (use boot_contexts_ok ctx_step_ok in blast)+

section \<open>Properties\<close>

text \<open>
  C27: the contexts of address spaces. From boot on, along every sequence of creating, copying and releasing address spaces, failures of a copy included, and
  of \<open>modify_ldt\<close> installing descriptor tables: as long as fewer than \<open>2 ^ 64\<close> identifiers were handed out, no identifier
  is zero, none was handed out twice, and the address spaces that exist have different ones; the descriptor tables
  in use are exactly those of the existing address spaces and no two share one, so that none is leaked or
  freed twice: releasing an address space never faults. A copy never faults either; if it succeeds it has a new
  identifier, a table of its own exactly if the original has one, the vDSO and \<open>[vtask]\<close> addresses and the protection keys of the original, and if it
  fails the address spaces are as before.
\<close>

theorem mm_contexts_unique:
  assumes "ldt_law ops" "(ctx_step ops)\<^sup>*\<^sup>* (boot_contexts init_mm) s"
  shows "(created s < 2 ^ 64 \<longrightarrow> distinct (issued s) \<and> 0 \<notin> set (issued s) \<and>
      (\<forall>mm c. ctxs s mm = Some c \<longrightarrow> ctx_id c \<in> set (issued s)) \<and>
      (\<forall>mm mm' c c'. ctxs s mm = Some c \<and> ctxs s mm' = Some c' \<and> ctx_id c = ctx_id c' \<longrightarrow> mm = mm')) \<and>
    (\<forall>l. l \<in> ldt_structs s \<longleftrightarrow> (\<exists>mm c. ctxs s mm = Some c \<and> ctx_ldt c = Some l)) \<and>
    (\<forall>mm mm' c c' l. ctxs s mm = Some c \<and> ctxs s mm' = Some c' \<and> ctx_ldt c = Some l \<and> ctx_ldt c' = Some l \<longrightarrow> mm = mm') \<and>
    (\<forall>mm c. ctxs s mm = Some c \<longrightarrow> (\<exists>s'. drop_context ops mm c s = Inr s' \<and> ctxs s' = (ctxs s)(mm := None))) \<and>
    (\<forall>mm old c early. ctxs s mm = None \<and> ctxs s old = Some c \<and> early \<noteq> Some 0 \<longrightarrow>
      (\<exists>r s'. dup_context ops early c mm s = Inr (r, s') \<and> (r \<noteq> 0 \<longrightarrow> ctxs s' = ctxs s) \<and>
        (r = 0 \<longrightarrow> (\<exists>c'. ctxs s' = (ctxs s)(mm \<mapsto> c') \<and> copied_context ops s c c'))))"
proof -
  have "(\<lambda>s s'. ldt_law ops \<and> ctx_step ops s s')\<^sup>*\<^sup>* (boot_contexts init_mm) s" using assms by simp
  then have ok: "ids_ok s" "ldts_ok s" using ctx.reachable_inv [where ops = ops] by blast+
  have ids: "created s < 2 ^ 64 \<longrightarrow> distinct (issued s) \<and> 0 \<notin> set (issued s) \<and>
      (\<forall>mm c. ctxs s mm = Some c \<longrightarrow> ctx_id c \<in> set (issued s)) \<and>
      (\<forall>mm mm' c c'. ctxs s mm = Some c \<and> ctxs s mm' = Some c' \<and> ctx_id c = ctx_id c' \<longrightarrow> mm = mm')"
    using ok(1) unfolding ids_ok_def by (metis (no_types, lifting) less_irrefl unsigned_0)
  have dropped: "\<exists>s'. drop_context ops mm c s = Inr s' \<and> ctxs s' = (ctxs s)(mm := None)" if "ctxs s mm = Some c" for mm c
    using drop_context_ok [OF ok that assms(1)] by blast
  have copied: "\<exists>r s'. dup_context ops early c mm s = Inr (r, s') \<and> (r \<noteq> 0 \<longrightarrow> ctxs s' = ctxs s) \<and>
      (r = 0 \<longrightarrow> (\<exists>c'. ctxs s' = (ctxs s)(mm \<mapsto> c') \<and> copied_context ops s c c'))"
    if "ctxs s mm = None \<and> ctxs s old = Some c \<and> early \<noteq> Some 0" for mm old c early
  proof -
    from that have "ctxs s mm = None" "ctxs s old = Some c" "early \<noteq> Some 0" by blast+
    from dup_context_ok [OF assms(1) ok this] show ?thesis by (elim exE conjE) (intro exI conjI)
  qed
  have ldts: "\<forall>l. l \<in> ldt_structs s \<longleftrightarrow> (\<exists>mm c. ctxs s mm = Some c \<and> ctx_ldt c = Some l)"
    "\<forall>mm mm' c c' l. ctxs s mm = Some c \<and> ctxs s mm' = Some c' \<and> ctx_ldt c = Some l \<and> ctx_ldt c' = Some l \<longrightarrow> mm = mm'"
    using ok(2) unfolding ldts_ok_def by blast+
  show ?thesis
    by (intro conjI) (fact ids, fact ldts(1), fact ldts(2), (intro allI impI, erule dropped), (intro allI impI, rule copied))
qed

text \<open>An address space gets a table after boot and is copied.\<close>

definition some_ldts :: ctx_ops where
  "some_ldts = \<lparr>ospke = True, jiffies = 0, HZ = 250,
     ldt_dup_context = (\<lambda>l s. case l of None \<Rightarrow> (0, None) | Some x \<Rightarrow> if x + 1 \<in> ldt_structs s then (- ENOMEM, None) else (0, Some (x + 1))),
     destroy_context_ldt = (\<lambda>mm c s. case ctx_ldt c of None \<Rightarrow> Inr s
       | Some l \<Rightarrow> if l \<in> ldt_structs s then Inr (set_ctx mm (c\<lparr>ctx_ldt := None\<rparr>) (s\<lparr>ldt_structs := ldt_structs s - {l}\<rparr>)) else Inl (BadAddr l))\<rparr>"

lemma some_ldts_law: "ldt_law some_ldts"
  by (auto simp: ldt_law_def some_ldts_def split: if_splits)

definition with_table :: ctx_state where
  "with_table = install_ldt 7 (the (ctxs (new_context some_ldts 7 (boot_contexts 0)) 7)) 100 (new_context some_ldts 7 (boot_contexts 0))"

theorem mm_contexts_unique_witness:
  "\<exists>s c c' l. (ctx_step some_ldts)\<^sup>*\<^sup>* (boot_contexts 0) with_table \<and> dup_context some_ldts None c 9 with_table = Inr (0, s) \<and>
     ctxs s 7 = Some c \<and> ctx_ldt c = Some 100 \<and> ctxs s 9 = Some c' \<and> ctx_ldt c' = Some l \<and> l \<noteq> 100 \<and> ctx_id c \<noteq> ctx_id c'"
proof -
  let ?b = "boot_contexts 0" and ?s = "new_context some_ldts 7 (boot_contexts 0)" and ?t = with_table
  obtain d where d: "ctxs ?s = (ctxs ?b)(7 \<mapsto> d)" "created ?s = created ?b + 1" "ldt_structs ?s = ldt_structs ?b" "ctx_ldt d = None"
    using init_new_context_effect [of some_ldts 7 zero_context ?b] by (force simp: new_context_def)
  have b: "ctxs ?b 7 = None" "ctxs ?s 7 = Some d" "100 \<notin> ldt_structs ?s" using d by (simp_all add: boot_contexts_def)
  let ?c = "d\<lparr>ctx_ldt := Some 100\<rparr>"
  have t: "?t = install_ldt 7 d 100 ?s" "ctxs ?t 7 = Some ?c" "ctxs ?t 9 = None" "created ?t = 2" "ldt_structs ?t = {100}"
    using d b by (simp_all add: with_table_def install_ldt_def set_ctx_def boot_contexts_def)
  have run: "(ctx_step some_ldts)\<^sup>*\<^sup>* ?b ?t"
    using c_new [OF b(1), of some_ldts] c_install [OF b(2,3), of some_ldts, folded t(1)] by (meson converse_rtranclp_into_rtranclp r_into_rtranclp)
  have "ctxs ?t 9 = None \<and> ctxs ?t 7 = Some ?c \<and> None \<noteq> Some (0 :: int)" using t by simp
  from mm_contexts_unique [OF some_ldts_law run, THEN conjunct2, THEN conjunct2, THEN conjunct2, THEN conjunct2, rule_format, OF this]
  obtain r s where s: "dup_context some_ldts None ?c 9 ?t = Inr (r, s)"
      "r = 0 \<longrightarrow> (\<exists>c'. ctxs s = (ctxs ?t)(9 \<mapsto> c') \<and> copied_context some_ldts ?t ?c c')" by blast
  have r: "r = 0" using s(1) t(5) by (auto simp: dup_context_def init_new_context_def arch_dup_mmap_def some_ldts_def set_ctx_def Let_def)
  then obtain c' l where c': "ctxs s = (ctxs ?t)(9 \<mapsto> c')" "ctx_ldt c' = Some l" using s(2) by (auto simp: copied_context_def)
  have "ctx_step some_ldts ?t s" using c_dup [OF t(3,2) _ s(1)] by simp
  with run have run': "(ctx_step some_ldts)\<^sup>*\<^sup>* ?b s" by simp
  note m = mm_contexts_unique [OF some_ldts_law run']
  have at: "ctxs s 7 = Some ?c" "ctxs s 9 = Some c'" using c'(1) t(2) by simp_all
  have "ctx_ldt c' = Some 100 \<Longrightarrow> 7 = (9 :: addr)"
    by (rule m [THEN conjunct2, THEN conjunct2, THEN conjunct1, rule_format, of 7 ?c 9 c' 100]) (use at in simp)
  then have l: "l \<noteq> 100" using c'(2) by auto
  have "created s = 3" using s(1) t(4,5) by (auto simp: dup_context_def init_new_context_def arch_dup_mmap_def some_ldts_def set_ctx_def Let_def)
  then have "\<forall>mm mm' c c'. ctxs s mm = Some c \<and> ctxs s mm' = Some c' \<and> ctx_id c = ctx_id c' \<longrightarrow> mm = mm'" using m by simp
  then have "ctx_id ?c = ctx_id c' \<Longrightarrow> 7 = (9 :: addr)" using at by blast
  then have "ctx_id ?c \<noteq> ctx_id c'" by auto
  then show ?thesis using l run s(1) r at c'(2) by (intro exI [of _ s] exI [of _ ?c] exI [of _ c'] exI [of _ l]) simp
qed

end
