(* ===== verification/Pidfd.thy ===== *)
theory Pidfd
  imports Kernel_Prelude
begin

text \<open>
  Files that stand for processes (the pidfd operations of kernel/fork.c): what \<open>/proc\<close> shows of one, when it is readable,
  and its release.
\<close>

section \<open>Pids and their files\<close>

text \<open>
  A pid has a number in its own pid namespace and in all that contain it; \<open>numbers\<close> has, from the outermost in, the namespace and the
  number. \<open>wait_pidfd\<close> are the pollers that wait for its exit.
\<close>

record pid_struct =
  pid_level :: nat
  pid_numbers :: "(nat \<times> int) list"
  pid_has_task :: bool
  pid_group_exited :: bool
  pid_count :: nat
  wait_pidfd :: "nat list"

record pid_ns =
  ns_id :: nat
  ns_level :: nat

record pid_file =
  pidfd_ops :: bool
  private_data :: "nat option"

definition pidfd_pid :: "pid_file \<Rightarrow> int + nat option" where
  "pidfd_pid f = (if pidfd_ops f then Inr (private_data f) else Inl (- EBADF))"

text \<open>The release clears the pointer of the file and drops its reference to the pid.\<close>

definition pidfd_release :: "pid_file \<Rightarrow> (nat \<Rightarrow> pid_struct) \<Rightarrow> int \<times> pid_file \<times> (nat \<Rightarrow> pid_struct)" where
  "pidfd_release f pids =
    (let pid = private_data f;
         f = f\<lparr>private_data := None\<rparr>
     in (0, f, case pid of None \<Rightarrow> pids | Some p \<Rightarrow> pids(p := (pids p)\<lparr>pid_count := pid_count (pids p) - 1\<rparr>)))"

abbreviation (input) TAB :: char where "TAB \<equiv> CHR 0x09"
abbreviation (input) NL :: char where "NL \<equiv> CHR 0x0A"

text \<open>
  \<open>pid_nr_ns\<close> gives the number of a pid in a namespace. The output is the sequence of calls of
  \<open>seq_put_decimal_ll\<close>, each with the text before the number, and the text at the end.
\<close>

fun fdinfo_levels :: "(nat \<times> int) list \<Rightarrow> nat \<Rightarrow> nat \<Rightarrow> (string \<times> int) list kres" where
  "fdinfo_levels numbers i 0 = Inr []"
| "fdinfo_levels numbers i (Suc k) =
    rbind (array_get numbers (int i)) (\<lambda>x. rbind (fdinfo_levels numbers (i + 1) k) (\<lambda>out. Inr (([TAB], snd x) # out)))"

definition pidfd_show_fdinfo :: "(pid_struct \<Rightarrow> pid_ns \<Rightarrow> int) \<Rightarrow> pid_ns \<Rightarrow> pid_struct \<Rightarrow> ((string \<times> int) list \<times> string) kres" where
  "pidfd_show_fdinfo pid_nr_ns ns pid =
    (let nr = (if pid_has_task pid then pid_nr_ns pid ns else - 1);
         out = [(''Pid:'' @ [TAB], nr), (NL # ''NSpid:'' @ [TAB], nr)]
     in rbind (if 0 < nr then fdinfo_levels (pid_numbers pid) (ns_level ns + 1) (pid_level pid - ns_level ns) else Inr [])
       (\<lambda>more. Inr (out @ more, [NL])))"

text \<open>Polling: the caller is registered before the state is looked at, and woken when the whole group has exited.\<close>

abbreviation (input) EPOLLIN :: u32 where "EPOLLIN \<equiv> 0x1"
abbreviation (input) EPOLLRDNORM :: u32 where "EPOLLRDNORM \<equiv> 0x40"

definition pidfd_poll :: "nat option \<Rightarrow> pid_struct \<Rightarrow> u32 \<times> pid_struct" where
  "pidfd_poll pts pid =
    (let pid = (case pts of None \<Rightarrow> pid | Some w \<Rightarrow> pid\<lparr>wait_pidfd := w # wait_pidfd pid\<rparr>)
     in (if pid_group_exited pid then EPOLLIN OR EPOLLRDNORM else 0, pid))"

section \<open>What is shown\<close>

text \<open>
  A pid has one number for each level. A pid namespace contains it if the entry at the level of the namespace is
  of this namespace; \<open>pid_nr_ns\<close> is then the number there, positive, and 0 otherwise.
\<close>

definition pid_ok :: "pid_struct \<Rightarrow> bool" where
  "pid_ok pid \<longleftrightarrow> length (pid_numbers pid) = pid_level pid + 1 \<and> (\<forall>x \<in> set (pid_numbers pid). 0 < snd x)"

definition in_ns :: "pid_struct \<Rightarrow> pid_ns \<Rightarrow> bool" where
  "in_ns pid ns \<longleftrightarrow> ns_level ns \<le> pid_level pid \<and> fst (pid_numbers pid ! ns_level ns) = ns_id ns"

definition pid_nr_law :: "(pid_struct \<Rightarrow> pid_ns \<Rightarrow> int) \<Rightarrow> bool" where
  "pid_nr_law pid_nr_ns \<longleftrightarrow>
    (\<forall>pid ns. pid_nr_ns pid ns = (if in_ns pid ns then snd (pid_numbers pid ! ns_level ns) else 0))"

lemma fdinfo_levels_eq:
  "i + k \<le> length numbers \<Longrightarrow> fdinfo_levels numbers i k = Inr (map (\<lambda>x. ([TAB], snd x)) (take k (drop i numbers)))"
proof (induction k arbitrary: i)
  case (Suc k)
  then have "array_get numbers (int i) = Inr (numbers ! i)" by (simp add: array_get_def)
  moreover have "drop i numbers = numbers ! i # drop (i + 1) numbers" using Suc.prems by (simp add: Cons_nth_drop_Suc)
  ultimately show ?case using Suc.IH [of "i + 1"] Suc.prems by simp
qed simp

text \<open>
  Of a process that exists the file shows, where its namespace is below the one of the \<open>/proc\<close> instance, its number there and,
  after it, its numbers in all namespaces further in; \<open>Pid\<close> and the first entry of \<open>NSpid\<close> agree. Otherwise it
  shows 0, and of a process that is gone -1, in both fields and nothing else.
\<close>

lemma pidfd_fdinfo:
  assumes "pid_nr_law pid_nr_ns" "pid_ok pid"
  shows "pidfd_show_fdinfo pid_nr_ns ns pid =
    (let shown = (if \<not> pid_has_task pid then [- 1] else if in_ns pid ns then map snd (drop (ns_level ns) (pid_numbers pid)) else [0])
     in Inr ((''Pid:'' @ [TAB], hd shown) # (NL # ''NSpid:'' @ [TAB], hd shown) # map (\<lambda>n. ([TAB], n)) (tl shown), [NL]))"
proof (cases "pid_has_task pid \<and> in_ns pid ns")
  case False
  then show ?thesis using assms(1) by (auto simp: pidfd_show_fdinfo_def pid_nr_law_def Let_def)
next
  case True
  let ?l = "ns_level ns" and ?n = "pid_numbers pid"
  have len: "?l < length ?n" "length ?n = pid_level pid + 1" using True assms(2) by (auto simp: in_ns_def pid_ok_def)
  have d: "drop ?l ?n = ?n ! ?l # drop (?l + 1) ?n" using len by (simp add: Cons_nth_drop_Suc)
  have "0 < snd (?n ! ?l)" using assms(2) len by (simp add: pid_ok_def)
  moreover have "fdinfo_levels ?n (?l + 1) (pid_level pid - ?l) = Inr (map (\<lambda>x. ([TAB], snd x)) (drop (?l + 1) ?n))"
    using fdinfo_levels_eq [of "?l + 1" "pid_level pid - ?l" ?n] len by simp
  ultimately show ?thesis
    using True assms(1) d by (simp add: pidfd_show_fdinfo_def pid_nr_law_def Let_def comp_def)
qed

text \<open>A poller is told of the exit, or it is on the list of those to be woken when it happens.\<close>

lemma pidfd_poll_not_missed:
  "pidfd_poll (Some w) pid = (r, pid') \<Longrightarrow> w \<in> set (wait_pidfd pid') \<and> (r \<noteq> 0 \<longleftrightarrow> pid_group_exited pid)"
  by (auto simp: pidfd_poll_def Let_def split: if_splits)

lemma pidfd_release_drops:
  assumes "private_data f = Some p" "pidfd_release f pids = (r, f', pids')" "pidfd_ops f"
  shows "r = 0 \<and> pidfd_pid f' = Inr None \<and> pid_count (pids' p) = pid_count (pids p) - 1 \<and> (\<forall>q. q \<noteq> p \<longrightarrow> pids' q = pids q)"
  using assms by (auto simp: pidfd_release_def pidfd_pid_def Let_def)

end
