(* ===== verification/Unshare.thy ===== *)
theory Unshare
  imports Clone_Args "HOL-Library.Multiset"
begin

text \<open>
  The system call \<open>unshare\<close> and its relatives (kernel/fork.c): the closure and check of the flags, the
  copies of what is shared, the switch to the copies, and the chain of error labels.
\<close>

section \<open>State\<close>

text \<open>
  Reference-counted objects. \<open>refs\<close> are the counts; \<open>alive\<close> are the objects whose memory is allocated. The
  \<open>users\<close> field of an \<open>fs_struct\<close> is the count of that object.
\<close>

datatype shared_obj = OFs addr | OFiles addr | OCred addr | ONs addr

record unshare_state =
  u_fs :: addr
  u_files :: addr
  u_cred :: addr
  u_nsproxy :: addr
  sem_undo :: bool
  shm_attached :: bool
  refs :: "shared_obj \<Rightarrow> nat"
  alive :: "shared_obj set"

text \<open>What the rest of the kernel does: the two tests of \<open>check_unshare_flags\<close> beside the count of
  the signal handlers, the results of the copies (\<open>NULL\<close> in those of \<open>unshare_userns\<close> and
  \<open>unshare_nsproxy_namespaces\<close> means that there is nothing new), and the functions that install new
  namespaces and credentials.\<close>

record unshare_env =
  ue_group_empty :: bool
  ue_sighand_count :: nat
  ue_single_threaded :: bool
  ue_copy_fs :: addr
  ue_dup_fd :: "int + addr"
  ue_userns :: "u64 \<Rightarrow> int + addr"
  ue_nsproxy :: "u64 \<Rightarrow> int + addr"
  ue_ucounts :: int
  ue_switch_ns :: "addr \<Rightarrow> unshare_state \<Rightarrow> unshare_state"
  ue_commit_creds :: "addr \<Rightarrow> unshare_state \<Rightarrow> unshare_state"

definition obj_new :: "shared_obj \<Rightarrow> unshare_state \<Rightarrow> unshare_state" where
  "obj_new x s = s\<lparr>refs := (refs s)(x := 1), alive := insert x (alive s)\<rparr>"

definition obj_free :: "shared_obj \<Rightarrow> unshare_state \<Rightarrow> unshare_state" where
  "obj_free x s = s\<lparr>refs := (refs s)(x := 0), alive := alive s - {x}\<rparr>"

definition obj_put :: "shared_obj \<Rightarrow> unshare_state \<Rightarrow> unshare_state" where
  "obj_put x s = (if refs s x = 1 then obj_free x s else s\<lparr>refs := (refs s)(x := refs s x - 1)\<rparr>)"

section \<open>Flags\<close>

definition unshare_implied :: "u64 \<Rightarrow> u64" where
  "unshare_implied flags =
    (let flags = (if has flags CLONE_NEWUSER then flags OR CLONE_THREAD OR CLONE_FS else flags);
         flags = (if has flags CLONE_VM then flags OR CLONE_SIGHAND else flags);
         flags = (if has flags CLONE_SIGHAND then flags OR CLONE_THREAD else flags)
     in if has flags CLONE_NEWNS then flags OR CLONE_FS else flags)"

definition UNSHARE_MASK :: u64 where
  "UNSHARE_MASK = CLONE_THREAD OR CLONE_FS OR CLONE_NEWNS OR CLONE_SIGHAND OR CLONE_VM OR CLONE_FILES OR CLONE_SYSVSEM OR
     CLONE_NEWUTS OR CLONE_NEWIPC OR CLONE_NEWNET OR CLONE_NEWUSER OR CLONE_NEWPID OR CLONE_NEWCGROUP OR CLONE_NEWTIME"

definition check_unshare_flags :: "unshare_env \<Rightarrow> u64 \<Rightarrow> int" where
  "check_unshare_flags E flags =
    (if flags AND NOT UNSHARE_MASK \<noteq> 0 then - EINVAL
     else if has flags (CLONE_THREAD OR CLONE_SIGHAND OR CLONE_VM) \<and> \<not> ue_group_empty E then - EINVAL
     else if has flags (CLONE_SIGHAND OR CLONE_VM) \<and> 1 < ue_sighand_count E then - EINVAL
     else if has flags CLONE_VM \<and> \<not> ue_single_threaded E then - EINVAL
     else 0)"

section \<open>Copies\<close>

text \<open>The results are the error and the new object, \<open>NULL\<close> when there is none.\<close>

definition unshare_fs :: "unshare_env \<Rightarrow> u64 \<Rightarrow> unshare_state \<Rightarrow> int \<times> addr \<times> unshare_state" where
  "unshare_fs E flags s =
    (if \<not> has flags CLONE_FS \<or> u_fs s = NULL then (0, NULL, s)
     else if refs s (OFs (u_fs s)) = 1 then (0, NULL, s)
     else if ue_copy_fs E = NULL then (- ENOMEM, NULL, s)
     else (0, ue_copy_fs E, obj_new (OFs (ue_copy_fs E)) s))"

definition unshare_fd :: "unshare_env \<Rightarrow> u64 \<Rightarrow> unshare_state \<Rightarrow> int \<times> addr \<times> unshare_state" where
  "unshare_fd E flags s =
    (if has flags CLONE_FILES \<and> u_files s \<noteq> NULL \<and> 1 < refs s (OFiles (u_files s))
     then case ue_dup_fd E of Inl e \<Rightarrow> (e, NULL, s) | Inr fd \<Rightarrow> (0, fd, obj_new (OFiles fd) s)
     else (0, NULL, s))"

definition unshare_userns :: "unshare_env \<Rightarrow> u64 \<Rightarrow> unshare_state \<Rightarrow> int \<times> addr \<times> unshare_state" where
  "unshare_userns E flags s =
    (case ue_userns E flags of Inl e \<Rightarrow> (e, NULL, s) | Inr c \<Rightarrow> (0, c, if c = NULL then s else obj_new (OCred c) s))"

definition unshare_nsproxy_namespaces :: "unshare_env \<Rightarrow> u64 \<Rightarrow> unshare_state \<Rightarrow> int \<times> addr \<times> unshare_state" where
  "unshare_nsproxy_namespaces E flags s =
    (case ue_nsproxy E flags of Inl e \<Rightarrow> (e, NULL, s) | Inr n \<Rightarrow> (0, n, if n = NULL then s else obj_new (ONs n) s))"

section \<open>Labels\<close>

definition bad_unshare_cleanup_fs :: "int \<Rightarrow> addr \<Rightarrow> unshare_state \<Rightarrow> int \<times> unshare_state" where
  "bad_unshare_cleanup_fs err new_fs s = (err, if new_fs = NULL then s else obj_free (OFs new_fs) s)"

definition bad_unshare_cleanup_fd :: "int \<Rightarrow> addr \<Rightarrow> addr \<Rightarrow> unshare_state \<Rightarrow> int \<times> unshare_state" where
  "bad_unshare_cleanup_fd err new_fd new_fs s =
     bad_unshare_cleanup_fs err new_fs (if new_fd = NULL then s else obj_put (OFiles new_fd) s)"

definition bad_unshare_cleanup_cred :: "int \<Rightarrow> addr \<Rightarrow> addr \<Rightarrow> addr \<Rightarrow> unshare_state \<Rightarrow> int \<times> unshare_state" where
  "bad_unshare_cleanup_cred err new_cred new_fd new_fs s =
     bad_unshare_cleanup_fd err new_fd new_fs (if new_cred = NULL then s else obj_put (OCred new_cred) s)"

text \<open>
  The switch. Each part returns what is left for the labels: the old \<open>fs_struct\<close> when this was its last
  user, the old descriptor table, and nothing for the credentials, which \<open>commit_creds\<close> takes over.
\<close>

definition switch_fs :: "addr \<Rightarrow> unshare_state \<Rightarrow> addr \<times> unshare_state" where
  "switch_fs new_fs s =
    (if new_fs = NULL then (NULL, s)
     else let fs = u_fs s; n = refs s (OFs fs) - 1;
              s = s\<lparr>u_fs := new_fs, refs := (refs s)(OFs fs := n)\<rparr>
          in (if n \<noteq> 0 then NULL else fs, s))"

definition switch_fd :: "addr \<Rightarrow> unshare_state \<Rightarrow> addr \<times> unshare_state" where
  "switch_fd new_fd s = (if new_fd = NULL then (NULL, s) else (u_files s, s\<lparr>u_files := new_fd\<rparr>))"

definition unshare_switch :: "unshare_env \<Rightarrow> u64 \<Rightarrow> addr \<Rightarrow> addr \<Rightarrow> addr \<Rightarrow> addr \<Rightarrow> unshare_state \<Rightarrow> int \<times> unshare_state" where
  "unshare_switch E flags new_nsproxy new_cred new_fd new_fs s =
    (let do_sysvsem = has flags (CLONE_NEWIPC OR CLONE_SYSVSEM)
     in if new_fs \<noteq> NULL \<or> new_fd \<noteq> NULL \<or> do_sysvsem \<or> new_cred \<noteq> NULL \<or> new_nsproxy \<noteq> NULL
        then let s = (if do_sysvsem then s\<lparr>sem_undo := False\<rparr> else s);
                 s = (if has flags CLONE_NEWIPC then s\<lparr>shm_attached := False\<rparr> else s);
                 s = (if new_nsproxy = NULL then s else ue_switch_ns E new_nsproxy s);
                 (new_fs, s) = switch_fs new_fs s;
                 (new_fd, s) = switch_fd new_fd s;
                 s = (if new_cred = NULL then s else ue_commit_creds E new_cred s)
             in bad_unshare_cleanup_cred 0 NULL new_fd new_fs s
        else bad_unshare_cleanup_cred 0 new_cred new_fd new_fs s)"

definition ksys_unshare :: "unshare_env \<Rightarrow> u64 \<Rightarrow> unshare_state \<Rightarrow> int \<times> unshare_state" where
  "ksys_unshare E unshare_flags s =
    (let flags = unshare_implied unshare_flags; err = check_unshare_flags E flags
     in if err \<noteq> 0 then (err, s)
        else let (err, new_fs, s) = unshare_fs E flags s
        in if err \<noteq> 0 then (err, s)
        else let (err, new_fd, s) = unshare_fd E flags s
        in if err \<noteq> 0 then bad_unshare_cleanup_fs err new_fs s
        else let (err, new_cred, s) = unshare_userns E flags s
        in if err \<noteq> 0 then bad_unshare_cleanup_fd err new_fd new_fs s
        else let (err, new_nsproxy, s) = unshare_nsproxy_namespaces E flags s
        in if err \<noteq> 0 then bad_unshare_cleanup_cred err new_cred new_fd new_fs s
        else if new_cred \<noteq> NULL \<and> ue_ucounts E \<noteq> 0 then bad_unshare_cleanup_cred (ue_ucounts E) new_cred new_fd new_fs s
        else unshare_switch E flags new_nsproxy new_cred new_fd new_fs s)"

definition unshare_files :: "unshare_env \<Rightarrow> unshare_state \<Rightarrow> int \<times> unshare_state" where
  "unshare_files E s =
    (let (error, copy, s) = unshare_fd E CLONE_FILES s
     in if error \<noteq> 0 \<or> copy = NULL then (error, s)
        else let old = u_files s; s = s\<lparr>u_files := copy\<rparr> in (0, obj_put (OFiles old) s))"


section \<open>Counting references\<close>

text \<open>
  The references the running task holds, and the books: an object has the references \<open>b\<close> of everybody else,
  those of the task, and those in the local variables \<open>L\<close> of the call. The objects \<open>D\<close> are allocated without
  being referenced.
\<close>

definition obj_mset :: "(addr \<Rightarrow> shared_obj) \<Rightarrow> addr \<Rightarrow> shared_obj multiset" where
  "obj_mset c a = (if a = NULL then {#} else {#c a#})"

definition holds_refs :: "unshare_state \<Rightarrow> shared_obj multiset" where
  "holds_refs s = obj_mset OFs (u_fs s) + obj_mset OFiles (u_files s) + {#OCred (u_cred s)#} + {#ONs (u_nsproxy s)#}"

definition acct :: "(shared_obj \<Rightarrow> nat) \<Rightarrow> shared_obj multiset \<Rightarrow> shared_obj set \<Rightarrow> unshare_state \<Rightarrow> bool" where
  "acct b L D s \<longleftrightarrow> refs s = (\<lambda>x. b x + count (holds_refs s + L) x) \<and> alive s = {x. 0 < refs s x} \<union> D \<and> (\<forall>x\<in>D. refs s x = 0)"

text \<open>The states agree in what the task refers to.\<close>

definition same_task :: "unshare_state \<Rightarrow> unshare_state \<Rightarrow> bool" where
  "same_task s s' \<longleftrightarrow> u_fs s' = u_fs s \<and> u_files s' = u_files s \<and> u_cred s' = u_cred s \<and> u_nsproxy s' = u_nsproxy s \<and>
     sem_undo s' = sem_undo s \<and> shm_attached s' = shm_attached s"

lemma same_task_refl [simp]: "same_task s s"
  by (simp add: same_task_def)

lemma same_task_trans: "same_task s s1 \<Longrightarrow> same_task s1 s2 \<Longrightarrow> same_task s s2"
  by (simp add: same_task_def)

lemma same_task_holds: "same_task s s' \<Longrightarrow> holds_refs s' = holds_refs s"
  by (simp add: same_task_def holds_refs_def)

text \<open>With the same books, states that agree on the task are equal.\<close>

lemma acct_same_eq:
  assumes "acct b L D s" "acct b L D s'" "same_task s s'"
  shows "s' = s"
proof -
  have r: "refs s' = refs s" using assms same_task_holds [OF assms(3)] unfolding acct_def by simp
  moreover have "alive s' = alive s" using assms(1,2) unfolding acct_def r by blast
  ultimately show ?thesis using assms(3) unfolding same_task_def by (cases s; cases s') simp
qed

lemma obj_same_task [simp]: "same_task s (obj_new x s)" "same_task s (obj_free x s)" "same_task s (obj_put x s)"
  by (simp_all add: same_task_def obj_new_def obj_free_def obj_put_def)

lemma obj_holds [simp]: "holds_refs (obj_new x s) = holds_refs s" "holds_refs (obj_free x s) = holds_refs s" "holds_refs (obj_put x s) = holds_refs s"
  by (simp_all add: same_task_holds)

lemma obj_refs_alive [simp]:
  "refs (obj_new x s) = (refs s)(x := 1)" "alive (obj_new x s) = insert x (alive s)"
  "refs (obj_free x s) = (refs s)(x := 0)" "alive (obj_free x s) = alive s - {x}"
  "refs (obj_put x s) = (refs s)(x := refs s x - 1)" "alive (obj_put x s) = (if refs s x = 1 then alive s - {x} else alive s)"
  by (simp_all add: obj_new_def obj_free_def obj_put_def)

lemma acctI:
  assumes "\<And>x. refs s x = b x + count (holds_refs s) x + count L x" "\<And>x. x \<in> alive s \<longleftrightarrow> 0 < refs s x \<or> x \<in> D" "\<And>x. x \<in> D \<Longrightarrow> refs s x = 0"
  shows "acct b L D s"
  using assms by (auto simp: acct_def fun_eq_iff)

lemma acctD:
  assumes "acct b L D s"
  shows "refs s x = b x + count (holds_refs s) x + count L x" "x \<in> alive s \<longleftrightarrow> 0 < refs s x \<or> x \<in> D" "x \<in> D \<Longrightarrow> refs s x = 0"
proof -
  note a = assms [unfolded acct_def]
  show "refs s x = b x + count (holds_refs s) x + count L x" using a fun_cong by fastforce
  show "x \<in> alive s \<longleftrightarrow> 0 < refs s x \<or> x \<in> D" using a by blast
  show "x \<in> D \<Longrightarrow> refs s x = 0" using a by blast
qed

lemma acct_new:
  assumes a: "acct b L {} s" and "refs s x = 0"
  shows "acct b (add_mset x L) {} (obj_new x s)"
proof (rule acctI)
  show "refs (obj_new x s) y = b y + count (holds_refs (obj_new x s)) y + count (add_mset x L) y" for y
    using acctD(1) [OF a, of y] assms(2) by (cases "y = x") simp_all
  show "y \<in> alive (obj_new x s) \<longleftrightarrow> 0 < refs (obj_new x s) y \<or> y \<in> {}" for y using acctD(2) [OF a, of y] by simp
qed simp

lemma acct_free:
  assumes a: "acct b (add_mset x L) {} s" and "refs s x = 1"
  shows "acct b L {} (obj_free x s)"
proof (rule acctI)
  show "refs (obj_free x s) y = b y + count (holds_refs (obj_free x s)) y + count L y" for y
    using acctD(1) [OF a, of y] assms(2) by (cases "y = x") simp_all
  show "y \<in> alive (obj_free x s) \<longleftrightarrow> 0 < refs (obj_free x s) y \<or> y \<in> {}" for y using acctD(2) [OF a, of y] by simp
qed simp

lemma acct_free_dead:
  assumes a: "acct b L {x} s"
  shows "acct b L {} (obj_free x s)"
proof (rule acctI)
  show "refs (obj_free x s) y = b y + count (holds_refs (obj_free x s)) y + count L y" for y
    using acctD(1) [OF a, of y] acctD(3) [OF a, of y] by (cases "y = x") simp_all
  show "y \<in> alive (obj_free x s) \<longleftrightarrow> 0 < refs (obj_free x s) y \<or> y \<in> {}" for y using acctD(2) [OF a, of y] by simp
qed simp

lemma acct_put:
  assumes a: "acct b (add_mset x L) D s"
  shows "acct b L D (obj_put x s)"
proof (rule acctI)
  have x: "0 < refs s x" "x \<notin> D" using acctD(1) [OF a, of x] acctD(3) [OF a, of x] by auto
  show "refs (obj_put x s) y = b y + count (holds_refs (obj_put x s)) y + count L y" for y
    using acctD(1) [OF a, of y] by (cases "y = x") simp_all
  show "y \<in> alive (obj_put x s) \<longleftrightarrow> 0 < refs (obj_put x s) y \<or> y \<in> D" for y
    using acctD(2) [OF a, of y] x by (cases "y = x") auto
  show "y \<in> D \<Longrightarrow> refs (obj_put x s) y = 0" for y using acctD(3) [OF a, of y] x by (cases "y = x") simp_all
qed

lemma holds_acct_cong:
  assumes "acct b L D s" "refs s' = refs s" "alive s' = alive s" "holds_refs s' + L' = holds_refs s + L"
  shows "acct b L' D s'"
  using assms(1) unfolding acct_def assms(2-4) by blast

section \<open>Contract of the rest of the kernel\<close>

text \<open>
  New objects are fresh, error numbers are not 0, and installing namespaces or credentials takes over the
  reference to the new object and releases the one to the old.
\<close>

definition unshare_ok :: "unshare_env \<Rightarrow> unshare_state \<Rightarrow> bool" where
  "unshare_ok E s \<longleftrightarrow>
     (ue_copy_fs E = NULL \<or> refs s (OFs (ue_copy_fs E)) = 0) \<and>
     (case ue_dup_fd E of Inl e \<Rightarrow> e \<noteq> 0 | Inr a \<Rightarrow> a \<noteq> NULL \<and> refs s (OFiles a) = 0) \<and>
     (\<forall>fl. (case ue_userns E fl of Inl e \<Rightarrow> e \<noteq> 0 | Inr a \<Rightarrow> a = NULL \<or> refs s (OCred a) = 0) \<and>
           (case ue_nsproxy E fl of Inl e \<Rightarrow> e \<noteq> 0 | Inr a \<Rightarrow> a = NULL \<or> refs s (ONs a) = 0)) \<and>
     (\<forall>n s. ue_switch_ns E n s = obj_put (ONs (u_nsproxy s)) (s\<lparr>u_nsproxy := n\<rparr>)) \<and>
     (\<forall>c s. ue_commit_creds E c s = obj_put (OCred (u_cred s)) (s\<lparr>u_cred := c\<rparr>))"

lemma unshare_okD:
  assumes "unshare_ok E s"
  shows "ue_copy_fs E \<noteq> NULL \<Longrightarrow> refs s (OFs (ue_copy_fs E)) = 0"
    "ue_dup_fd E = Inl e \<Longrightarrow> e \<noteq> 0" "ue_dup_fd E = Inr a \<Longrightarrow> a \<noteq> NULL \<and> refs s (OFiles a) = 0"
    "ue_userns E fl = Inl e \<Longrightarrow> e \<noteq> 0" "ue_userns E fl = Inr a \<Longrightarrow> a \<noteq> NULL \<Longrightarrow> refs s (OCred a) = 0"
    "ue_nsproxy E fl = Inl e \<Longrightarrow> e \<noteq> 0" "ue_nsproxy E fl = Inr a \<Longrightarrow> a \<noteq> NULL \<Longrightarrow> refs s (ONs a) = 0"
    "ue_switch_ns E n s1 = obj_put (ONs (u_nsproxy s1)) (s1\<lparr>u_nsproxy := n\<rparr>)"
    "ue_commit_creds E c s1 = obj_put (OCred (u_cred s1)) (s1\<lparr>u_cred := c\<rparr>)"
proof -
  note ok = assms [unfolded unshare_ok_def]
  show "ue_copy_fs E \<noteq> NULL \<Longrightarrow> refs s (OFs (ue_copy_fs E)) = 0" using ok by simp
  have fd: "case ue_dup_fd E of Inl e \<Rightarrow> e \<noteq> 0 | Inr a \<Rightarrow> a \<noteq> NULL \<and> refs s (OFiles a) = 0"
    and us: "case ue_userns E fl of Inl e \<Rightarrow> e \<noteq> 0 | Inr a \<Rightarrow> a = NULL \<or> refs s (OCred a) = 0"
    and ns: "case ue_nsproxy E fl of Inl e \<Rightarrow> e \<noteq> 0 | Inr a \<Rightarrow> a = NULL \<or> refs s (ONs a) = 0" using ok by blast+
  show "ue_dup_fd E = Inl e \<Longrightarrow> e \<noteq> 0" "ue_dup_fd E = Inr a \<Longrightarrow> a \<noteq> NULL \<and> refs s (OFiles a) = 0" using fd by simp_all
  show "ue_userns E fl = Inl e \<Longrightarrow> e \<noteq> 0" "ue_userns E fl = Inr a \<Longrightarrow> a \<noteq> NULL \<Longrightarrow> refs s (OCred a) = 0" using us by simp_all
  show "ue_nsproxy E fl = Inl e \<Longrightarrow> e \<noteq> 0" "ue_nsproxy E fl = Inr a \<Longrightarrow> a \<noteq> NULL \<Longrightarrow> refs s (ONs a) = 0" using ns by simp_all
  show "ue_switch_ns E n s1 = obj_put (ONs (u_nsproxy s1)) (s1\<lparr>u_nsproxy := n\<rparr>)"
    "ue_commit_creds E c s1 = obj_put (OCred (u_cred s1)) (s1\<lparr>u_cred := c\<rparr>)" using ok by blast+
qed

section \<open>Stages\<close>

lemma count_obj_mset [simp]: "count (obj_mset c a) x = (if a \<noteq> NULL \<and> x = c a then 1 else 0)"
  by (simp add: obj_mset_def)

lemma obj_mset_null [simp]: "obj_mset c NULL = {#}"
  by (simp add: obj_mset_def)

lemma obj_mset_nonnull: "a \<noteq> NULL \<Longrightarrow> obj_mset c a = {#c a#}"
  by (simp add: obj_mset_def)

text \<open>Each copy either fails and leaves the state, or gives a reference of the call to a fresh object.\<close>

definition new_obj :: "(shared_obj \<Rightarrow> nat) \<Rightarrow> (addr \<Rightarrow> shared_obj) \<Rightarrow> addr \<Rightarrow> unshare_state \<Rightarrow> bool" where
  "new_obj b c a s \<longleftrightarrow> a = NULL \<or> b (c a) = 0 \<and> c a \<notin># holds_refs s"

lemma new_obj_same: "same_task s s' \<Longrightarrow> new_obj b c a s' = new_obj b c a s"
  by (simp add: new_obj_def same_task_holds)

lemma new_objI:
  assumes "acct b L D s0" "refs s0 (c a) = 0" "same_task s0 s"
  shows "new_obj b c a s"
  using acctD(1) [OF assms(1), of "c a"] assms(2) same_task_holds [OF assms(3)] by (simp add: new_obj_def not_in_iff)

lemma acct_fresh:
  assumes "acct b {#} {} s0" "refs s0 x = 0" "acct b L {} s" "same_task s0 s" "x \<notin># L"
  shows "refs s x = 0"
  using acctD(1) [OF assms(1), of x] acctD(1) [OF assms(3), of x] assms(2,5) same_task_holds [OF assms(4)] by (simp add: not_in_iff)

lemma unshare_fs_acct:
  assumes ok: "unshare_ok E s" and a: "acct b {#} {} s" and run: "unshare_fs E fl s = (e, n, s1)"
  shows "acct b (obj_mset OFs n) {} s1 \<and> same_task s s1 \<and> new_obj b OFs n s \<and> (e \<noteq> 0 \<longrightarrow> s1 = s) \<and>
    (e = 0 \<and> has fl CLONE_FS \<and> u_fs s \<noteq> NULL \<longrightarrow> n \<noteq> NULL \<or> b (OFs (u_fs s)) = 0)"
proof -
  consider (new) "ue_copy_fs E \<noteq> NULL" "e = 0" "n = ue_copy_fs E" "s1 = obj_new (OFs n) s"
    | (none) "n = NULL" "s1 = s" "e = 0 \<and> has fl CLONE_FS \<and> u_fs s \<noteq> NULL \<longrightarrow> refs s (OFs (u_fs s)) = 1"
    using run by (auto simp: unshare_fs_def split: if_splits)
  then show ?thesis
  proof cases
    case new
    then have r: "refs s (OFs n) = 0" using unshare_okD(1) [OF ok] by simp
    show ?thesis using new acct_new [OF a r] new_objI [where c = OFs, OF a r same_task_refl] by (simp add: obj_mset_nonnull)
  next
    case none
    have "b (OFs (u_fs s)) = 0" if "u_fs s \<noteq> NULL" "refs s (OFs (u_fs s)) = 1"
      using acctD(1) [OF a, of "OFs (u_fs s)"] that by (simp add: holds_refs_def)
    then show ?thesis using none a by (auto simp: new_obj_def)
  qed
qed

lemma unshare_fd_acct:
  assumes ok: "unshare_ok E s0" and a0: "acct b {#} {} s0" and a: "acct b L {} s" and st: "same_task s0 s" and L: "\<And>x. OFiles x \<notin># L"
    and run: "unshare_fd E fl s = (e, n, s1)"
  shows "acct b (obj_mset OFiles n + L) {} s1 \<and> same_task s0 s1 \<and> new_obj b OFiles n s0 \<and> (e \<noteq> 0 \<longrightarrow> n = NULL) \<and>
    (e = 0 \<and> has fl CLONE_FILES \<and> u_files s0 \<noteq> NULL \<longrightarrow> n \<noteq> NULL \<or> b (OFiles (u_files s0)) = 0)"
proof -
  have u: "u_files s = u_files s0" using st by (simp add: same_task_def)
  have nz: "ue_dup_fd E = Inl e' \<Longrightarrow> e' \<noteq> 0" for e' using unshare_okD(2) [OF ok] .
  consider (new) "ue_dup_fd E = Inr n" "e = 0" "s1 = obj_new (OFiles n) s"
    | (none) "n = NULL" "s1 = s" "e = 0 \<and> has fl CLONE_FILES \<and> u_files s \<noteq> NULL \<longrightarrow> refs s (OFiles (u_files s)) \<le> 1"
    using run nz by (auto simp: unshare_fd_def split: if_splits sum.splits)
  then show ?thesis
  proof cases
    case new
    then have r: "n \<noteq> NULL" "refs s0 (OFiles n) = 0" using unshare_okD(3) [OF ok] by blast+
    have "refs s (OFiles n) = 0" using acct_fresh [OF a0 r(2) a st L] .
    then show ?thesis using new r acct_new [OF a] new_objI [where c = OFiles, OF a0 r(2) same_task_refl] same_task_trans [OF st]
      by (simp add: obj_mset_nonnull)
  next
    case none
    have "b (OFiles (u_files s0)) = 0" if "u_files s0 \<noteq> NULL" "refs s (OFiles (u_files s)) \<le> 1"
      using acctD(1) [OF a, of "OFiles (u_files s)"] that L u by (simp add: holds_refs_def)
    then show ?thesis using none a st u by (auto simp: new_obj_def)
  qed
qed

lemma unshare_userns_acct:
  assumes ok: "unshare_ok E s0" and a0: "acct b {#} {} s0" and a: "acct b L {} s" and st: "same_task s0 s" and L: "\<And>x. OCred x \<notin># L"
    and run: "unshare_userns E fl s = (e, n, s1)"
  shows "acct b (obj_mset OCred n + L) {} s1 \<and> same_task s0 s1 \<and> new_obj b OCred n s0 \<and> (e \<noteq> 0 \<longrightarrow> n = NULL) \<and> (e = 0 \<longrightarrow> ue_userns E fl = Inr n)"
proof (cases "ue_userns E fl")
  case (Inl e')
  then show ?thesis using run a st unshare_okD(4) [OF ok Inl] by (auto simp: unshare_userns_def new_obj_def)
next
  case (Inr m)
  then have m: "e = 0" "n = m" "s1 = (if m = NULL then s else obj_new (OCred m) s)" using run by (auto simp: unshare_userns_def)
  show ?thesis
  proof (cases "m = NULL")
    case False
    then have r: "refs s0 (OCred m) = 0" using unshare_okD(5) [OF ok Inr] by simp
    have "refs s (OCred m) = 0" using acct_fresh [OF a0 r a st L] .
    then show ?thesis using m False Inr acct_new [OF a] new_objI [where c = OCred, OF a0 r same_task_refl] same_task_trans [OF st]
      by (simp add: obj_mset_nonnull)
  qed (use m a st Inr in \<open>simp add: new_obj_def\<close>)
qed

lemma unshare_nsproxy_acct:
  assumes ok: "unshare_ok E s0" and a0: "acct b {#} {} s0" and a: "acct b L {} s" and st: "same_task s0 s" and L: "\<And>x. ONs x \<notin># L"
    and run: "unshare_nsproxy_namespaces E fl s = (e, n, s1)"
  shows "acct b (obj_mset ONs n + L) {} s1 \<and> same_task s0 s1 \<and> (e \<noteq> 0 \<longrightarrow> n = NULL) \<and> (e = 0 \<longrightarrow> ue_nsproxy E fl = Inr n)"
proof (cases "ue_nsproxy E fl")
  case (Inl e')
  then show ?thesis using run a st unshare_okD(6) [OF ok Inl] by (auto simp: unshare_nsproxy_namespaces_def)
next
  case (Inr m)
  then have m: "e = 0" "n = m" "s1 = (if m = NULL then s else obj_new (ONs m) s)" using run by (auto simp: unshare_nsproxy_namespaces_def)
  show ?thesis
  proof (cases "m = NULL")
    case False
    then have r: "refs s0 (ONs m) = 0" using unshare_okD(7) [OF ok Inr] by simp
    have "refs s (ONs m) = 0" using acct_fresh [OF a0 r a st L] .
    then show ?thesis using m False Inr acct_new [OF a] same_task_trans [OF st] by (simp add: obj_mset_nonnull)
  qed (use m a st Inr in simp)
qed

text \<open>The labels give back what the call still refers to.\<close>

lemma cleanup_fs_acct:
  assumes "acct b (obj_mset OFs f + L) {} s" "new_obj b OFs f s" "\<And>x. OFs x \<notin># L"
  shows "\<exists>s'. bad_unshare_cleanup_fs e f s = (e, s') \<and> acct b L {} s' \<and> same_task s s'"
proof (cases "f = NULL")
  case False
  then have "acct b (add_mset (OFs f) L) {} s" using assms(1) by (simp add: obj_mset_nonnull)
  moreover have "refs s (OFs f) = 1"
    using acctD(1) [OF assms(1), of "OFs f"] assms(2,3) False by (simp add: new_obj_def not_in_iff)
  ultimately show ?thesis using acct_free False by (simp add: bad_unshare_cleanup_fs_def)
qed (use assms(1) in \<open>simp add: bad_unshare_cleanup_fs_def\<close>)

lemma put_acct:
  assumes "acct b (obj_mset c x + L) D s"
  shows "acct b L D (if x = NULL then s else obj_put (c x) s)" "same_task s (if x = NULL then s else obj_put (c x) s)"
  using assms acct_put by (auto simp: obj_mset_def)

lemma cleanup_fd_acct:
  assumes "acct b (obj_mset OFiles d + (obj_mset OFs f + L)) {} s" "new_obj b OFs f s" "\<And>x. OFs x \<notin># L"
  shows "\<exists>s'. bad_unshare_cleanup_fd e d f s = (e, s') \<and> acct b L {} s' \<and> same_task s s'"
  using cleanup_fs_acct [OF put_acct(1) [OF assms(1)], of e] put_acct(2) [OF assms(1)] assms(2,3) new_obj_same same_task_trans
  unfolding bad_unshare_cleanup_fd_def by blast

lemma cleanup_cred_acct:
  assumes "acct b (obj_mset OCred c + (obj_mset OFiles d + (obj_mset OFs f + L))) {} s" "new_obj b OFs f s" "\<And>x. OFs x \<notin># L"
  shows "\<exists>s'. bad_unshare_cleanup_cred e c d f s = (e, s') \<and> acct b L {} s' \<and> same_task s s'"
  using cleanup_fd_acct [OF put_acct(1) [OF assms(1)], of e] put_acct(2) [OF assms(1)] assms(2,3) new_obj_same same_task_trans
  unfolding bad_unshare_cleanup_cred_def by blast

section \<open>The switch\<close>

text \<open>Each exchange keeps the books and changes one field.\<close>

lemma switch_ns_acct:
  assumes ok: "unshare_ok E s0" and a: "acct b (obj_mset ONs n + L) D s" and s': "s' = (if n = NULL then s else ue_switch_ns E n s)"
  shows "acct b L D s' \<and> u_fs s' = u_fs s \<and> u_files s' = u_files s \<and> u_cred s' = u_cred s \<and> u_nsproxy s' = (if n = NULL then u_nsproxy s else n)"
proof (cases "n = NULL")
  case False
  let ?t = "s\<lparr>u_nsproxy := n\<rparr>"
  have "acct b (add_mset (ONs (u_nsproxy s)) L) D ?t"
    by (rule holds_acct_cong [OF a]) (simp_all add: holds_refs_def obj_mset_nonnull False)
  then have "acct b L D (obj_put (ONs (u_nsproxy s)) ?t)" by (rule acct_put)
  then show ?thesis using s' False unshare_okD(8) [OF ok] obj_same_task(3) [of ?t "ONs (u_nsproxy s)"] by (simp add: same_task_def)
qed (use a s' in simp)

lemma commit_creds_acct:
  assumes ok: "unshare_ok E s0" and a: "acct b (obj_mset OCred n + L) D s" and s': "s' = (if n = NULL then s else ue_commit_creds E n s)"
  shows "acct b L D s' \<and> u_fs s' = u_fs s \<and> u_files s' = u_files s \<and> u_cred s' = (if n = NULL then u_cred s else n) \<and> u_nsproxy s' = u_nsproxy s"
proof (cases "n = NULL")
  case False
  let ?t = "s\<lparr>u_cred := n\<rparr>"
  have "acct b (add_mset (OCred (u_cred s)) L) D ?t"
    by (rule holds_acct_cong [OF a]) (simp_all add: holds_refs_def obj_mset_nonnull False)
  then have "acct b L D (obj_put (OCred (u_cred s)) ?t)" by (rule acct_put)
  then show ?thesis using s' False unshare_okD(9) [OF ok] obj_same_task(3) [of ?t "OCred (u_cred s)"] by (simp add: same_task_def)
qed (use a s' in simp)

lemma switch_fd_acct:
  assumes "acct b (obj_mset OFiles n + L) D s" "switch_fd n s = (r, s')"
  shows "acct b (obj_mset OFiles r + L) D s' \<and> u_fs s' = u_fs s \<and> u_files s' = (if n = NULL then u_files s else n) \<and>
    u_cred s' = u_cred s \<and> u_nsproxy s' = u_nsproxy s"
proof (cases "n = NULL")
  case False
  have "acct b (obj_mset OFiles (u_files s) + L) D (s\<lparr>u_files := n\<rparr>)"
    by (rule holds_acct_cong [OF assms(1)]) (simp_all add: holds_refs_def obj_mset_nonnull False)
  then show ?thesis using assms(2) False by (auto simp: switch_fd_def)
qed (use assms in \<open>simp add: switch_fd_def\<close>)

text \<open>The last user of an \<open>fs_struct\<close> leaves it allocated without references, for the label to free.\<close>

lemma switch_fs_acct:
  assumes a: "acct b (obj_mset OFs n + L) {} s" and run: "switch_fs n s = (r, s')" and nn: "n \<noteq> NULL \<longrightarrow> u_fs s \<noteq> NULL \<and> OFs (u_fs s) \<noteq> OFs n"
  shows "acct b L (set_mset (obj_mset OFs r)) s' \<and> u_fs s' = (if n = NULL then u_fs s else n) \<and> u_files s' = u_files s \<and>
    u_cred s' = u_cred s \<and> u_nsproxy s' = u_nsproxy s"
proof (cases "n = NULL")
  case False
  let ?f = "OFs (u_fs s)" let ?t = "s\<lparr>u_fs := n, refs := (refs s)(?f := refs s ?f - 1)\<rparr>"
  have r: "r = (if refs s ?f - 1 \<noteq> 0 then NULL else u_fs s)" and t: "s' = ?t" using run False by (auto simp: switch_fs_def Let_def)
  have h: "holds_refs s + obj_mset OFs n = add_mset ?f (holds_refs ?t)" using False nn by (simp add: holds_refs_def obj_mset_nonnull)
  have cnt: "count (holds_refs s) y + count (obj_mset OFs n) y = count (add_mset ?f (holds_refs ?t)) y" for y
    using arg_cong [OF h, of "\<lambda>m. count m y"] by simp
  have "?f \<in># holds_refs s" using nn False by (simp add: holds_refs_def obj_mset_nonnull)
  then have pos: "0 < refs s ?f" using acctD(1) [OF a, of ?f] count_greater_zero_iff [of "holds_refs s" ?f] by linarith
  have ref: "refs ?t y = b y + count (holds_refs ?t) y + count L y" for y
    using acctD(1) [OF a, of y] cnt [of y] by (cases "y = ?f") simp_all
  have "acct b L (set_mset (obj_mset OFs r)) ?t"
  proof (rule acctI [OF ref])
    show "y \<in> alive ?t \<longleftrightarrow> 0 < refs ?t y \<or> y \<in> set_mset (obj_mset OFs r)" for y
      using acctD(2) [OF a, of y] pos nn False by (cases "y = ?f") (auto simp: r obj_mset_def)
    show "y \<in> set_mset (obj_mset OFs r) \<Longrightarrow> refs ?t y = 0" for y by (auto simp: r obj_mset_def split: if_splits)
  qed
  then show ?thesis using False t by simp
qed (use assms in \<open>simp add: switch_fs_def\<close>)

lemma unshare_switch_acct:
  assumes ok: "unshare_ok E s0"
    and a: "acct b (obj_mset ONs n + (obj_mset OCred c + (obj_mset OFiles d + obj_mset OFs f))) {} s"
    and f: "f \<noteq> NULL \<longrightarrow> u_fs s \<noteq> NULL \<and> u_fs s \<noteq> f"
  shows "\<exists>s'. unshare_switch E fl n c d f s = (0, s') \<and> acct b {#} {} s' \<and>
    u_fs s' = (if f = NULL then u_fs s else f) \<and> u_files s' = (if d = NULL then u_files s else d) \<and>
    u_cred s' = (if c = NULL then u_cred s else c) \<and> u_nsproxy s' = (if n = NULL then u_nsproxy s else n)"
proof (cases "f \<noteq> NULL \<or> d \<noteq> NULL \<or> has fl (CLONE_NEWIPC OR CLONE_SYSVSEM) \<or> c \<noteq> NULL \<or> n \<noteq> NULL")
  case True
  define s1 where "s1 = (if has fl (CLONE_NEWIPC OR CLONE_SYSVSEM) then s\<lparr>sem_undo := False\<rparr> else s)"
  define s2 where "s2 = (if has fl CLONE_NEWIPC then s1\<lparr>shm_attached := False\<rparr> else s1)"
  define s3 where "s3 = (if n = NULL then s2 else ue_switch_ns E n s2)"
  obtain f' s4 where r4: "switch_fs f s3 = (f', s4)" by fastforce
  obtain d' s5 where r5: "switch_fd d s4 = (d', s5)" by fastforce
  define s6 where "s6 = (if c = NULL then s5 else ue_commit_creds E c s5)"
  have run: "unshare_switch E fl n c d f s = bad_unshare_cleanup_cred 0 NULL d' f' s6"
    using True unfolding unshare_switch_def Let_def s1_def [symmetric] s2_def [symmetric] s3_def [symmetric] r4 case_prod_conv r5 s6_def [symmetric] by simp
  have s2: "u_fs s2 = u_fs s" "u_files s2 = u_files s" "u_cred s2 = u_cred s" "u_nsproxy s2 = u_nsproxy s" "refs s2 = refs s" "alive s2 = alive s"
    by (simp_all add: s2_def s1_def)
  have a2: "acct b (obj_mset ONs n + (obj_mset OFs f + (obj_mset OFiles d + obj_mset OCred c))) {} s2"
    by (rule holds_acct_cong [OF a]) (simp_all add: s2 holds_refs_def)
  note a3 = switch_ns_acct [OF ok a2 s3_def]
  have a4: "acct b (obj_mset OFiles d + obj_mset OCred c) (set_mset (obj_mset OFs f')) s4 \<and> u_fs s4 = (if f = NULL then u_fs s3 else f) \<and> u_files s4 = u_files s3 \<and>
    u_cred s4 = u_cred s3 \<and> u_nsproxy s4 = u_nsproxy s3" by (rule switch_fs_acct [OF conjunct1 [OF a3] r4]) (use f a3 s2 in simp)
  note a5 = switch_fd_acct [OF conjunct1 [OF a4] r5]
  have "acct b (obj_mset OCred c + obj_mset OFiles d') (set_mset (obj_mset OFs f')) s5" using a5 by (simp add: add.commute)
  note a6 = commit_creds_acct [OF ok this s6_def]
  let ?s7 = "if d' = NULL then s6 else obj_put (OFiles d') s6"
  have a7: "acct b {#} (set_mset (obj_mset OFs f')) ?s7" "same_task s6 ?s7" using put_acct [where L = "{#}" and c = OFiles and x = d'] a6 by simp_all
  let ?s8 = "if f' = NULL then ?s7 else obj_free (OFs f') ?s7"
  have a8: "acct b {#} {} ?s8" using a7(1) acct_free_dead by (auto simp: obj_mset_def split: if_splits)
  have st: "same_task s6 ?s8" using a7(2) same_task_trans [OF a7(2) obj_same_task(2)] by simp
  have "unshare_switch E fl n c d f s = (0, ?s8)"
    unfolding run by (simp add: bad_unshare_cleanup_cred_def bad_unshare_cleanup_fd_def bad_unshare_cleanup_fs_def)
  moreover have "u_fs ?s8 = u_fs s6" "u_files ?s8 = u_files s6" "u_cred ?s8 = u_cred s6" "u_nsproxy ?s8 = u_nsproxy s6"
    using st unfolding same_task_def by simp_all
  ultimately show ?thesis using a8 a6 a5 a4 a3 s2 by (intro exI [of _ ?s8]) (simp only: simp_thms)
next
  case False
  then have "unshare_switch E fl n c d f s = (0, s)"
    by (simp add: unshare_switch_def bad_unshare_cleanup_cred_def bad_unshare_cleanup_fd_def bad_unshare_cleanup_fs_def)
  then show ?thesis using False a by simp
qed

section \<open>The system call\<close>

text \<open>
  The outcomes of \<open>unshare\<close>: it fails and nothing has changed; the user count of the new credentials fails and
  the new \<open>nsproxy\<close> stays behind; or it returns 0 from the switch.
\<close>

lemma ksys_unshare_cases:
  assumes ok: "unshare_ok E s" and a: "acct b {#} {} s" and fl: "fl = unshare_implied flags" and run: "ksys_unshare E flags s = (err, s')"
  obtains (failed) "err \<noteq> 0" "s' = s"
  | (leaked) c n where "err = ue_ucounts E" "err \<noteq> 0" "ue_userns E fl = Inr c" "c \<noteq> NULL" "ue_nsproxy E fl = Inr n" "acct b (obj_mset ONs n) {} s'" "same_task s s'"
  | (switched) f d c n where "err = 0" "acct b {#} {} s'" "check_unshare_flags E fl = 0" "ue_userns E fl = Inr c" "ue_nsproxy E fl = Inr n"
      "u_fs s' = (if f = NULL then u_fs s else f)" "u_files s' = (if d = NULL then u_files s else d)"
      "u_cred s' = (if c = NULL then u_cred s else c)" "u_nsproxy s' = (if n = NULL then u_nsproxy s else n)"
      "new_obj b OFs f s" "new_obj b OFiles d s"
      "has fl CLONE_FS \<and> u_fs s \<noteq> NULL \<longrightarrow> f \<noteq> NULL \<or> b (OFs (u_fs s)) = 0"
      "has fl CLONE_FILES \<and> u_files s \<noteq> NULL \<longrightarrow> d \<noteq> NULL \<or> b (OFiles (u_files s)) = 0"
      "\<not> has fl CLONE_FS \<longrightarrow> f = NULL" "\<not> has fl CLONE_FILES \<longrightarrow> d = NULL"
proof (cases "check_unshare_flags E fl = 0")
  case False
  then show thesis using run failed unfolding ksys_unshare_def fl [symmetric] Let_def by simp
next
  case chk: True
  obtain e1 f s1 where r1: "unshare_fs E fl s = (e1, f, s1)" by (metis prod_cases3)
  obtain e2 d s2 where r2: "unshare_fd E fl s1 = (e2, d, s2)" by (metis prod_cases3)
  obtain e3 c s3 where r3: "unshare_userns E fl s2 = (e3, c, s3)" by (metis prod_cases3)
  obtain e4 n s4 where r4: "unshare_nsproxy_namespaces E fl s3 = (e4, n, s4)" by (metis prod_cases3)
  have run: "(err, s') = (if e1 \<noteq> 0 then (e1, s1) else if e2 \<noteq> 0 then bad_unshare_cleanup_fs e2 f s2
      else if e3 \<noteq> 0 then bad_unshare_cleanup_fd e3 d f s3 else if e4 \<noteq> 0 then bad_unshare_cleanup_cred e4 c d f s4
      else if c \<noteq> NULL \<and> ue_ucounts E \<noteq> 0 then bad_unshare_cleanup_cred (ue_ucounts E) c d f s4
      else unshare_switch E fl n c d f s4)"
    using run chk unfolding ksys_unshare_def fl [symmetric] Let_def r1 case_prod_conv r2 r3 r4 by simp
  note p1 = unshare_fs_acct [OF ok a r1]
  have p2: "acct b (obj_mset OFiles d + obj_mset OFs f) {} s2 \<and> same_task s s2 \<and> new_obj b OFiles d s \<and> (e2 \<noteq> 0 \<longrightarrow> d = NULL) \<and>
    (e2 = 0 \<and> has fl CLONE_FILES \<and> u_files s \<noteq> NULL \<longrightarrow> d \<noteq> NULL \<or> b (OFiles (u_files s)) = 0)"
    by (rule unshare_fd_acct [OF ok a _ _ _ r2]) (use p1 in \<open>auto simp: obj_mset_def\<close>)
  have p3: "acct b (obj_mset OCred c + (obj_mset OFiles d + obj_mset OFs f)) {} s3 \<and> same_task s s3 \<and> new_obj b OCred c s \<and>
    (e3 \<noteq> 0 \<longrightarrow> c = NULL) \<and> (e3 = 0 \<longrightarrow> ue_userns E fl = Inr c)"
    by (rule unshare_userns_acct [OF ok a _ _ _ r3]) (use p2 in \<open>auto simp: obj_mset_def\<close>)
  have p4: "acct b (obj_mset ONs n + (obj_mset OCred c + (obj_mset OFiles d + obj_mset OFs f))) {} s4 \<and> same_task s s4 \<and> (e4 \<noteq> 0 \<longrightarrow> n = NULL) \<and>
    (e4 = 0 \<longrightarrow> ue_nsproxy E fl = Inr n)"
    by (rule unshare_nsproxy_acct [OF ok a _ _ _ r4]) (use p3 in \<open>auto simp: obj_mset_def\<close>)
  have nf: "new_obj b OFs f t" if "same_task s t" for t using p1 new_obj_same [OF that] by blast
  have undone: "thesis" if "e \<noteq> 0" "(err, s') = (e, t')" "acct b {#} {} t'" "same_task s t" "same_task t t'" for e t t'
    using failed that acct_same_eq [OF a that(3)] same_task_trans by blast
  consider (e1) "e1 \<noteq> 0" | (e2) "e1 = 0" "e2 \<noteq> 0" | (e3) "e1 = 0" "e2 = 0" "e3 \<noteq> 0" | (e4) "e1 = 0" "e2 = 0" "e3 = 0" "e4 \<noteq> 0"
    | (uc) "e1 = 0" "e2 = 0" "e3 = 0" "e4 = 0" "c \<noteq> NULL" "ue_ucounts E \<noteq> 0" | (sw) "e1 = 0" "e2 = 0" "e3 = 0" "e4 = 0" "\<not> (c \<noteq> NULL \<and> ue_ucounts E \<noteq> 0)"
    by blast
  then show thesis
  proof cases
    case e1
    then show ?thesis using run p1 failed by simp
  next
    case e2
    then have "acct b (obj_mset OFs f + {#}) {} s2" using p2 by auto
    from cleanup_fs_acct [OF this nf, of e2] p2 e2 run show ?thesis using undone by fastforce
  next
    case e3
    then have "acct b (obj_mset OFiles d + (obj_mset OFs f + {#})) {} s3" using p3 by auto
    from cleanup_fd_acct [OF this nf, of e3] p3 e3 run show ?thesis using undone by fastforce
  next
    case e4
    then have "acct b (obj_mset OCred c + (obj_mset OFiles d + (obj_mset OFs f + {#}))) {} s4" using p4 by auto
    from cleanup_cred_acct [OF this nf, of e4] p4 e4 run show ?thesis using undone by fastforce
  next
    case uc
    have "acct b (obj_mset OCred c + (obj_mset OFiles d + (obj_mset OFs f + obj_mset ONs n))) {} s4" using p4 by (simp add: ac_simps)
    moreover have "OFs x \<notin># obj_mset ONs n" for x by (simp add: obj_mset_def)
    ultimately obtain t where t: "bad_unshare_cleanup_cred (ue_ucounts E) c d f s4 = (ue_ucounts E, t)" "acct b (obj_mset ONs n) {} t" "same_task s4 t"
      using cleanup_cred_acct [OF _ nf, of c d "obj_mset ONs n" s4 "ue_ucounts E"] p4 by blast
    then have "err = ue_ucounts E" "s' = t" using uc run by simp_all
    then show ?thesis using leaked [of c n] uc p3 p4 t same_task_trans [of s s4 t] by simp
  next
    case sw
    have ex: "f \<noteq> NULL \<longrightarrow> u_fs s \<noteq> NULL \<and> u_fs s \<noteq> f"
      using r1 p1 by (auto simp: unshare_fs_def new_obj_def holds_refs_def obj_mset_def split: if_splits)
    have st: "u_fs s4 = u_fs s" "u_files s4 = u_files s" "u_cred s4 = u_cred s" "u_nsproxy s4 = u_nsproxy s" using p4 by (simp_all add: same_task_def)
    obtain t where t: "unshare_switch E fl n c d f s4 = (0, t)" "acct b {#} {} t"
      "u_fs t = (if f = NULL then u_fs s else f)" "u_files t = (if d = NULL then u_files s else d)"
      "u_cred t = (if c = NULL then u_cred s else c)" "u_nsproxy t = (if n = NULL then u_nsproxy s else n)"
      using unshare_switch_acct [OF ok conjunct1 [OF p4], of fl] ex unfolding st by blast
    have "(err, s') = (0, t)" using run sw t(1) by auto
    moreover have "\<not> has fl CLONE_FS \<longrightarrow> f = NULL" "\<not> has fl CLONE_FILES \<longrightarrow> d = NULL"
      using r1 r2 by (auto simp: unshare_fs_def unshare_fd_def split: if_splits)
    ultimately show ?thesis using switched [of c n f d] t(2-) sw chk p1 p2 p3 p4 by simp
  qed
qed

text \<open>\<open>unshare_files\<close>, which \<open>exec\<close> calls, fails without a change or leaves the caller alone with its descriptor table.\<close>

lemma unshare_files_acct:
  assumes ok: "unshare_ok E s" and a: "acct b {#} {} s" and run: "unshare_files E s = (err, s')"
  shows "if err \<noteq> 0 then s' = s else acct b {#} {} s' \<and> (u_files s \<noteq> NULL \<longrightarrow> b (OFiles (u_files s')) = 0)"
proof -
  obtain e n s1 where r: "unshare_fd E CLONE_FILES s = (e, n, s1)" by (metis prod_cases3)
  have f: "has CLONE_FILES CLONE_FILES" by (simp add: has_def)
  have p: "acct b (obj_mset OFiles n + {#}) {} s1 \<and> same_task s s1 \<and> new_obj b OFiles n s \<and> (e \<noteq> 0 \<longrightarrow> n = NULL) \<and>
    (e = 0 \<and> has CLONE_FILES CLONE_FILES \<and> u_files s \<noteq> NULL \<longrightarrow> n \<noteq> NULL \<or> b (OFiles (u_files s)) = 0)"
    by (rule unshare_fd_acct [OF ok a a same_task_refl _ r]) simp
  show ?thesis
  proof (cases "n = NULL")
    case True
    then have "s1 = s" using p acct_same_eq [OF a] by auto
    then show ?thesis using True run r p a f by (auto simp: unshare_files_def)
  next
    case False
    let ?t = "s1\<lparr>u_files := n\<rparr>"
    have e: "e = 0" using p False by blast
    have "acct b (obj_mset OFiles (u_files s1) + {#}) {} ?t"
      by (rule holds_acct_cong [OF conjunct1 [OF p]]) (simp_all add: holds_refs_def obj_mset_nonnull False)
    moreover have "u_files s1 \<noteq> NULL" using r False e by (auto simp: unshare_fd_def obj_new_def split: if_splits sum.splits)
    ultimately have "acct b {#} {} (obj_put (OFiles (u_files s1)) ?t)" using acct_put by (simp add: obj_mset_nonnull)
    moreover have "err = 0" "s' = obj_put (OFiles (u_files s1)) ?t" using run r e False by (simp_all add: unshare_files_def Let_def)
    moreover have "u_files s' = n" using calculation(3) obj_same_task(3) [of ?t] by (simp add: same_task_def)
    ultimately show ?thesis using p False by (simp add: new_obj_def)
  qed
qed

text \<open>
  C15: \<open>unshare\<close> is atomic but for one leak. Let \<open>b\<close> count the references to file-system contexts, descriptor tables,
  credentials and namespace sets held by others than the caller. If \<open>ksys_unshare\<close> returns an error, the state
  is what it was, with one exception: when new credentials and a new \<open>nsproxy\<close> had been made and
  \<open>set_cred_ucounts\<close> failed, the new \<open>nsproxy\<close> stays allocated with a reference nobody has. If it returns 0, no
  reference is lost and no object is freed while it is referenced (every count is that of the others plus
  the caller's, and the living objects are those with references), the caller has the new credentials and
  namespaces if there are any, and nobody else refers to its file-system context if \<open>CLONE_FS\<close> was asked for or
  implied, nor to its descriptor table if \<open>CLONE_FILES\<close> was.\<close>

theorem unshare_atomic:
  assumes "unshare_ok E s" and "acct b {#} {} s" and "ksys_unshare E flags s = (err, s')" and "fl = unshare_implied flags"
  shows "if err \<noteq> 0
     then s' = s \<or> (\<exists>c n. ue_userns E fl = Inr c \<and> c \<noteq> NULL \<and> ue_nsproxy E fl = Inr n \<and> n \<noteq> NULL \<and> ue_ucounts E = err \<and> s' = obj_new (ONs n) s)
     else acct b {#} {} s' \<and> check_unshare_flags E fl = 0 \<and>
       (\<exists>c n. ue_userns E fl = Inr c \<and> ue_nsproxy E fl = Inr n \<and>
          u_cred s' = (if c = NULL then u_cred s else c) \<and> u_nsproxy s' = (if n = NULL then u_nsproxy s else n)) \<and>
       (has fl CLONE_FS \<and> u_fs s \<noteq> NULL \<longrightarrow> b (OFs (u_fs s')) = 0 \<and> refs s' (OFs (u_fs s')) = 1) \<and>
       (has fl CLONE_FILES \<and> u_files s \<noteq> NULL \<longrightarrow> b (OFiles (u_files s')) = 0 \<and> refs s' (OFiles (u_files s')) = 1) \<and>
       (\<not> has fl CLONE_FILES \<longrightarrow> u_files s' = u_files s) \<and> (\<not> has fl CLONE_FS \<longrightarrow> u_fs s' = u_fs s)"
proof (rule ksys_unshare_cases [OF assms(1,2,4,3)])
  assume "err \<noteq> 0" "s' = s"
  then show ?thesis by simp
next
  fix c n
  assume l: "err = ue_ucounts E" "err \<noteq> 0" "ue_userns E fl = Inr c" "c \<noteq> NULL" "ue_nsproxy E fl = Inr n" "acct b (obj_mset ONs n) {} s'" "same_task s s'"
  show ?thesis
  proof (cases "n = NULL")
    case True
    then show ?thesis using l acct_same_eq [OF assms(2) _ l(7)] by simp
  next
    case False
    then have "acct b (obj_mset ONs n) {} (obj_new (ONs n) s)"
      using acct_new [OF assms(2)] unshare_okD(7) [OF assms(1) l(5)] by (simp add: obj_mset_nonnull)
    moreover have "same_task (obj_new (ONs n) s) s'" using l(7) obj_same_task(1) [of s "ONs n"] by (simp add: same_task_def)
    ultimately show ?thesis using acct_same_eq [OF _ l(6)] False l by auto
  qed
next
  fix f d c n
  assume w: "err = 0" "acct b {#} {} s'" "check_unshare_flags E fl = 0" "ue_userns E fl = Inr c" "ue_nsproxy E fl = Inr n"
      "u_fs s' = (if f = NULL then u_fs s else f)" "u_files s' = (if d = NULL then u_files s else d)"
      "u_cred s' = (if c = NULL then u_cred s else c)" "u_nsproxy s' = (if n = NULL then u_nsproxy s else n)"
    and n: "new_obj b OFs f s" "new_obj b OFiles d s"
      "has fl CLONE_FS \<and> u_fs s \<noteq> NULL \<longrightarrow> f \<noteq> NULL \<or> b (OFs (u_fs s)) = 0"
      "has fl CLONE_FILES \<and> u_files s \<noteq> NULL \<longrightarrow> d \<noteq> NULL \<or> b (OFiles (u_files s)) = 0"
    and z: "\<not> has fl CLONE_FS \<longrightarrow> f = NULL" "\<not> has fl CLONE_FILES \<longrightarrow> d = NULL"
  have b: "has fl CLONE_FS \<and> u_fs s \<noteq> NULL \<longrightarrow> u_fs s' \<noteq> NULL \<and> b (OFs (u_fs s')) = 0"
    "has fl CLONE_FILES \<and> u_files s \<noteq> NULL \<longrightarrow> u_files s' \<noteq> NULL \<and> b (OFiles (u_files s')) = 0"
    using n w(6,7) by (auto simp: new_obj_def)
  have r: "u_fs s' \<noteq> NULL \<Longrightarrow> b (OFs (u_fs s')) = 0 \<Longrightarrow> refs s' (OFs (u_fs s')) = 1"
    "u_files s' \<noteq> NULL \<Longrightarrow> b (OFiles (u_files s')) = 0 \<Longrightarrow> refs s' (OFiles (u_files s')) = 1"
    using acctD(1) [OF w(2), of "OFs (u_fs s')"] acctD(1) [OF w(2), of "OFiles (u_files s')"] by (simp_all add: holds_refs_def)
  show ?thesis using w b r z by auto
qed

text \<open>
  Witness: a task that shares its file-system context with one other task and asks for a new user namespace;
  the same call fails in \<open>set_cred_ucounts\<close> and leaks the \<open>nsproxy\<close> 9.
\<close>

definition unshare_example :: unshare_state where
  "unshare_example = \<lparr>u_fs = 1, u_files = 2, u_cred = 3, u_nsproxy = 4, sem_undo = True, shm_attached = True,
     refs = (\<lambda>x. if x = OFs 1 then 2 else if x = OFiles 2 \<or> x = OCred 3 \<or> x = ONs 4 then 1 else 0), alive = {OFs 1, OFiles 2, OCred 3, ONs 4}\<rparr>"

definition unshare_example_env :: "int \<Rightarrow> unshare_env" where
  "unshare_example_env e = \<lparr>ue_group_empty = True, ue_sighand_count = 1, ue_single_threaded = True, ue_copy_fs = 7, ue_dup_fd = Inl (- ENOMEM),
     ue_userns = (\<lambda>fl. Inr (if has fl CLONE_NEWUSER then 8 else NULL)), ue_nsproxy = (\<lambda>fl. Inr (if has fl CLONE_NEWNS then 9 else NULL)), ue_ucounts = e,
     ue_switch_ns = (\<lambda>n s. obj_put (ONs (u_nsproxy s)) (s\<lparr>u_nsproxy := n\<rparr>)),
     ue_commit_creds = (\<lambda>c s. obj_put (OCred (u_cred s)) (s\<lparr>u_cred := c\<rparr>))\<rparr>"

lemma unshare_example_ok: "unshare_ok (unshare_example_env e) unshare_example"
  by (simp add: unshare_ok_def unshare_example_env_def unshare_example_def)

lemma unshare_example_acct: "acct (\<lambda>x. if x = OFs 1 then 1 else 0) {#} {} unshare_example"
  by (rule acctI) (auto simp: unshare_example_def holds_refs_def obj_mset_def)

theorem unshare_atomic_witness:
  "(let fl = CLONE_NEWUSER OR CLONE_NEWNS; (err, s') = ksys_unshare (unshare_example_env 0) fl unshare_example
    in err = 0 \<and> refs s' (OFs (u_fs s')) = 1 \<and> u_cred s' = 8 \<and> u_nsproxy s' = 9) \<and>
   snd (ksys_unshare (unshare_example_env (- 11)) (CLONE_NEWUSER OR CLONE_NEWNS) unshare_example) = obj_new (ONs 9) unshare_example"
proof -
  let ?u = "CLONE_NEWUSER OR CLONE_NEWNS :: u64" let ?f = "unshare_implied ?u" let ?r = "\<lambda>e. ksys_unshare (unshare_example_env e) ?u unshare_example"
  have fl: "has ?f CLONE_FS" "has ?f CLONE_NEWUSER" "has ?f CLONE_NEWNS" by (simp_all add: unshare_implied_def has_def)
  note ev = ksys_unshare_def unshare_implied_def check_unshare_flags_def UNSHARE_MASK_def unshare_fs_def unshare_fd_def unshare_userns_def
    unshare_nsproxy_namespaces_def unshare_switch_def switch_fs_def switch_fd_def bad_unshare_cleanup_cred_def bad_unshare_cleanup_fd_def
    bad_unshare_cleanup_fs_def unshare_example_def unshare_example_env_def has_def Let_def obj_new_def obj_free_def obj_put_def
  have r0: "fst (?r 0) = 0" by (simp add: ev)
  have r1: "fst (?r (- 11)) = - 11" "ONs 9 \<in> alive (snd (?r (- 11)))" by (simp_all add: ev)
  note t = unshare_atomic [OF unshare_example_ok unshare_example_acct surjective_pairing refl]
  have u: "ue_userns (unshare_example_env e) ?f = Inr 8" "ue_nsproxy (unshare_example_env e) ?f = Inr 9" "u_fs unshare_example = 1" "ONs 9 \<notin> alive unshare_example" for e
    using fl by (simp_all add: unshare_example_env_def unshare_example_def)
  have "snd (?r (- 11)) \<noteq> unshare_example" using r1(2) u(4) by metis
  then have "snd (?r (- 11)) = obj_new (ONs 9) unshare_example" using t [of "- 11" ?u] r1(1) u(1,2) by simp
  moreover have "refs (snd (?r 0)) (OFs (u_fs (snd (?r 0)))) = 1 \<and> u_cred (snd (?r 0)) = 8 \<and> u_nsproxy (snd (?r 0)) = 9"
    using t [of 0 ?u] r0 fl(1) u by simp
  ultimately show ?thesis using r0 by (simp add: case_prod_unfold)
qed

end
