(* ===== verification/Process_Tree.thy ===== *)
theory Process_Tree
  imports Kernel_Prelude
begin

text \<open>
  \<open>walk_process_tree\<close> (kernel/fork.c): the walk over all descendants of a process by two nested loops and three
  labels, without a stack, and the recursive visit of a tree of processes it amounts to.
\<close>

section \<open>The walk\<close>

text \<open>
  The lists and pointers of the task structures the walk reads: the threads of a group in the order of
  \<open>for_each_thread\<close>, the children of a thread, the parent and the group leader of a task.
\<close>

record task_links =
  tl_threads :: "addr \<Rightarrow> addr list"
  tl_children :: "addr \<Rightarrow> addr list"
  tl_real_parent :: "addr \<Rightarrow> addr"
  tl_group_leader :: "addr \<Rightarrow> addr"

type_synonym 'd visitor = "addr \<Rightarrow> 'd \<Rightarrow> int \<times> 'd"

text \<open>The elements of a list behind \<open>x\<close>, where a loop over the list goes on after \<open>x\<close>.\<close>

fun behind :: "'a \<Rightarrow> 'a list \<Rightarrow> 'a list" where
  "behind x [] = []"
| "behind x (y # ys) = (if y = x then ys else behind x ys)"

text \<open>
  A configuration of the loops: the leader, the children of the current thread still to be visited and the
  threads of the group still to be entered. The first equation's branches are the body of the inner loop, the
  visitor's result deciding between \<open>goto out\<close>, \<open>goto down\<close> and the next child; the last one is the code after
  the loops, with \<open>goto up\<close>.
\<close>

partial_function (option) walk_loop ::
  "task_links \<Rightarrow> 'd visitor \<Rightarrow> addr \<Rightarrow> addr \<Rightarrow> addr list \<Rightarrow> addr list \<Rightarrow> 'd \<Rightarrow> 'd option" where
  "walk_loop K visitor tp leader cs ps d =
    (case cs of
       child # cs' \<Rightarrow>
         let (res, d) = visitor child d
         in if res \<noteq> 0
            then if res < 0 then Some d else walk_loop K visitor tp child [] (tl_threads K child) d
            else walk_loop K visitor tp leader cs' ps d
     | [] \<Rightarrow>
         (case ps of
            parent # ps' \<Rightarrow> walk_loop K visitor tp leader (tl_children K parent) ps' d
          | [] \<Rightarrow>
              if leader \<noteq> tp
              then let child = leader; parent = tl_real_parent K child; leader = tl_group_leader K parent
                   in walk_loop K visitor tp leader (behind child (tl_children K parent)) (behind parent (tl_threads K leader)) d
              else Some d))"

definition walk_process_tree :: "task_links \<Rightarrow> addr \<Rightarrow> 'd visitor \<Rightarrow> 'd \<Rightarrow> 'd option" where
  "walk_process_tree K task visitor d =
    (let tp = tl_group_leader K task in walk_loop K visitor tp tp [] (tl_threads K tp) d)"

section \<open>Trees of processes\<close>

text \<open>A process: its group leader, and its threads with the processes each of them has created.\<close>

datatype ptree = Proc (pt_leader: addr) (pt_threads: "(addr \<times> ptree list) list")

fun tree_tasks :: "ptree \<Rightarrow> addr list" where
  "tree_tasks (Proc l ths) = concat (map (\<lambda>(p, ts). p # concat (map tree_tasks ts)) ths)"

text \<open>The visit in depth-first order. The flag says that the visitor has stopped it.\<close>

fun visit_trees :: "'d visitor \<Rightarrow> ptree list \<Rightarrow> 'd \<Rightarrow> bool \<times> 'd"
  and visit_threads :: "'d visitor \<Rightarrow> (addr \<times> ptree list) list \<Rightarrow> 'd \<Rightarrow> bool \<times> 'd" where
  "visit_trees v [] d = (False, d)"
| "visit_trees v (Proc l ths # ts) d =
    (let (res, d) = v l d
     in if res < 0 then (True, d)
        else if res = 0 then visit_trees v ts d
        else let (stop, d) = visit_threads v ths d in if stop then (True, d) else visit_trees v ts d)"
| "visit_threads v [] d = (False, d)"
| "visit_threads v ((p, ts) # ths) d =
    (let (stop, d) = visit_trees v ts d in if stop then (True, d) else visit_threads v ths d)"

text \<open>The lists and pointers of the tasks are those of the tree.\<close>

fun represents :: "task_links \<Rightarrow> ptree \<Rightarrow> bool" where
  "represents K (Proc l ths) \<longleftrightarrow> tl_threads K l = map fst ths \<and> l \<in> fst ` set ths \<and>
     (\<forall>(p, ts) \<in> set ths. tl_group_leader K p = l \<and> tl_children K p = map pt_leader ts \<and>
        (\<forall>t \<in> set ts. tl_real_parent K (pt_leader t) = p \<and> represents K t))"

text \<open>The leaders of the processes below the threads, in the order of a complete visit.\<close>

fun leaders :: "ptree list \<Rightarrow> addr list" and leaders_below :: "(addr \<times> ptree list) list \<Rightarrow> addr list" where
  "leaders [] = []"
| "leaders (Proc l ths # ts) = l # leaders_below ths @ leaders ts"
| "leaders_below [] = []"
| "leaders_below ((p, ts) # ths) = leaders ts @ leaders_below ths"

section \<open>The walk is the visit\<close>

lemma behind_append: "x \<notin> set xs \<Longrightarrow> behind x (xs @ x # ys) = ys"
  by (induction xs) auto

lemma representsD:
  assumes "represents K (Proc l ths)"
  shows "tl_threads K l = map fst ths" "l \<in> fst ` set ths"
    "(p, us) \<in> set ths \<Longrightarrow> tl_group_leader K p = l \<and> tl_children K p = map pt_leader us"
    "(p, us) \<in> set ths \<Longrightarrow> t \<in> set us \<Longrightarrow> represents K t \<and> tl_real_parent K (pt_leader t) = p"
  using assms by (auto dest: bspec)

lemma leader_in_tasks:
  assumes "represents K t"
  shows "pt_leader t \<in> set (tree_tasks t)"
proof (cases t)
  case (Proc l ths)
  then obtain us where "(l, us) \<in> set ths" using representsD(2) [of K l ths] assms by auto
  then show ?thesis using Proc by (auto intro: bexI [of _ "(l, us)"])
qed

text \<open>The parts of a tree without repetition.\<close>

lemma distinct_concat_nth: "distinct (concat (map f xs)) \<Longrightarrow> x \<in> set xs \<Longrightarrow> distinct (f x)"
  by (induction xs) auto

lemma distinct_threads:
  assumes "distinct (tree_tasks (Proc l ths))"
  shows "distinct (map fst ths)" "(p, us) \<in> set ths \<Longrightarrow> distinct (concat (map tree_tasks us))"
    "(p, us) \<in> set ths \<Longrightarrow> (q, vs) \<in> set ths \<Longrightarrow> t \<in> set vs \<Longrightarrow> p \<notin> set (tree_tasks t)"
proof -
  show "distinct (map fst ths)" using assms by (induction ths) fastforce+
  show "distinct (concat (map tree_tasks us))" if "(p, us) \<in> set ths"
    using distinct_concat_nth [OF assms [unfolded tree_tasks.simps] that] by simp
  show "p \<notin> set (tree_tasks t)" if "(p, us) \<in> set ths" "(q, vs) \<in> set ths" "t \<in> set vs"
    using assms that by (induction ths) fastforce+
qed

lemma distinct_leaders:
  assumes "distinct (concat (map tree_tasks us))" "\<And>t. t \<in> set us \<Longrightarrow> represents K t"
  shows "distinct (map pt_leader us)"
  using assms
proof (induction us)
  case (Cons t us)
  have "pt_leader t \<noteq> pt_leader u" if "u \<in> set us" for u
    using Cons(2) that leader_in_tasks [OF Cons(3), of t] leader_in_tasks [OF Cons(3), of u] by fastforce
  then show ?case using Cons by auto
qed simp

lemma leaders_in_tasks:
  "(\<And>t. t \<in> set ts \<Longrightarrow> represents K t) \<Longrightarrow> x \<in> set (leaders ts) \<Longrightarrow> \<exists>t \<in> set ts. x \<in> set (tree_tasks t)"
  "(\<And>p us t. (p, us) \<in> set ths \<Longrightarrow> t \<in> set us \<Longrightarrow> represents K t) \<Longrightarrow> x \<in> set (leaders_below ths) \<Longrightarrow>
     \<exists>p us t. (p, us) \<in> set ths \<and> t \<in> set us \<and> x \<in> set (tree_tasks t)"
proof (induction ts and ths rule: leaders_leaders_below.induct)
  case (2 l ths ts)
  have r: "represents K (Proc l ths)" by (rule 2(3)) simp
  from 2(4) consider (here) "x = l" | (below) "x \<in> set (leaders_below ths)" | (rest) "x \<in> set (leaders ts)" by auto
  then show ?case
  proof cases
    case here
    then show ?thesis using leader_in_tasks [OF r] by simp
  next
    case below
    then obtain p us t where "(p, us) \<in> set ths" "t \<in> set us" "x \<in> set (tree_tasks t)" using 2(1) representsD(4) [OF r] by blast
    then have "x \<in> set (tree_tasks (Proc l ths))" by (auto intro!: bexI [of _ "(p, us)"])
    then show ?thesis by simp
  next
    case rest
    then show ?thesis using 2(2,3) by (metis list.set_intros(2))
  qed
next
  case (4 p ts ths)
  then show ?case by (metis Un_iff leaders_below.simps(2) list.set_intros(1,2) set_append)
qed simp_all

text \<open>The three ways the loops go on.\<close>

lemma walk_child:
  "v c d = (res, d') \<Longrightarrow> walk_loop K v tp leader (c # cs) ps d =
     (if res < 0 then Some d' else if res = 0 then walk_loop K v tp leader cs ps d' else walk_loop K v tp c [] (tl_threads K c) d')"
  by (subst walk_loop.simps) simp

lemma walk_thread: "walk_loop K v tp leader [] (p # ps) d = walk_loop K v tp leader (tl_children K p) ps d"
  by (subst walk_loop.simps) simp

lemma walk_up:
  "c \<noteq> tp \<Longrightarrow> walk_loop K v tp c [] [] d = walk_loop K v tp (tl_group_leader K (tl_real_parent K c))
     (behind c (tl_children K (tl_real_parent K c))) (behind (tl_real_parent K c) (tl_threads K (tl_group_leader K (tl_real_parent K c)))) d"
  by (subst walk_loop.simps) (simp add: Let_def)

lemma walk_stop: "walk_loop K v tp tp [] [] d = Some d"
  by (subst walk_loop.simps) simp

text \<open>
  The loops over the rest \<open>ts\<close> of the children of a thread, and over the rest \<open>ths\<close> of the threads of a group.
\<close>

definition children_ok :: "task_links \<Rightarrow> addr \<Rightarrow> addr \<Rightarrow> ptree list \<Rightarrow> bool" where
  "children_ok K tp parent ts \<longleftrightarrow> (\<forall>t \<in> set ts. represents K t \<and> distinct (tree_tasks t) \<and> tl_real_parent K (pt_leader t) = parent) \<and> tp \<notin> set (leaders ts)"

definition threads_ok :: "task_links \<Rightarrow> addr \<Rightarrow> addr \<Rightarrow> (addr \<times> ptree list) list \<Rightarrow> bool" where
  "threads_ok K tp l ths \<longleftrightarrow> (\<forall>(p, us) \<in> set ths. tl_group_leader K p = l \<and> tl_children K p = map pt_leader us \<and>
     distinct (map pt_leader us) \<and> children_ok K tp p us)"

lemma represents_threads_ok:
  assumes r: "represents K (Proc l ths)" and d: "distinct (tree_tasks (Proc l ths))" and tp: "tp \<notin> set (leaders_below ths)"
  shows "threads_ok K tp l ths"
proof -
  have "tl_group_leader K p = l \<and> tl_children K p = map pt_leader us \<and> distinct (map pt_leader us) \<and> children_ok K tp p us" if m: "(p, us) \<in> set ths" for p us
  proof -
    have "distinct (map pt_leader us)" using distinct_leaders [OF distinct_threads(2) [OF d m]] representsD(4) [OF r m] by blast
    moreover have "distinct (tree_tasks t)" if "t \<in> set us" for t using distinct_concat_nth [OF distinct_threads(2) [OF d m] that] .
    moreover have "set (leaders us) \<subseteq> set (leaders_below ths)" using m by (induction ths) auto
    ultimately show ?thesis using representsD(3,4) [OF r m] tp by (auto simp: children_ok_def)
  qed
  then show ?thesis by (auto simp: threads_ok_def)
qed

lemma walk_loop_visit:
  "children_ok K tp parent ts \<Longrightarrow> tl_group_leader K parent = leader \<Longrightarrow> tl_threads K leader = pre @ parent # ps \<Longrightarrow>
     distinct (tl_threads K leader) \<Longrightarrow> tl_children K parent = cpre @ map pt_leader ts \<Longrightarrow> distinct (tl_children K parent) \<Longrightarrow>
     walk_loop K v tp leader (map pt_leader ts) ps d =
       (case visit_trees v ts d of (stop, d') \<Rightarrow> if stop then Some d' else walk_loop K v tp leader [] ps d')"
  "threads_ok K tp l ths \<Longrightarrow> tl_threads K l = tpre @ map fst ths \<Longrightarrow> distinct (tl_threads K l) \<Longrightarrow>
     walk_loop K v tp l [] (map fst ths) d =
       (case visit_threads v ths d of (stop, d') \<Rightarrow> if stop then Some d' else walk_loop K v tp l [] [] d')"
proof (induction ts and ths arbitrary: d parent leader pre ps cpre and d l tpre rule: leaders_leaders_below.induct)
  case (2 c ths ts)
  obtain res d1 where v: "v c d = (res, d1)" by fastforce
  have r: "represents K (Proc c ths)" "distinct (tree_tasks (Proc c ths))" "tl_real_parent K c = parent" "c \<noteq> tp"
    and tp: "tp \<notin> set (leaders_below ths)" and ok: "children_ok K tp parent ts" using 2(3) by (auto simp: children_ok_def)
  have rest: "walk_loop K v tp leader (map pt_leader ts) ps e =
      (case visit_trees v ts e of (stop, d') \<Rightarrow> if stop then Some d' else walk_loop K v tp leader [] ps d')" for e
    using 2(2) [OF ok 2(4-6), of "cpre @ [c]"] 2(7,8) by simp
  have up: "walk_loop K v tp c [] [] e = walk_loop K v tp leader (map pt_leader ts) ps e" for e
  proof -
    have "behind c (tl_children K parent) = map pt_leader ts" using 2(7,8) behind_append [of c cpre "map pt_leader ts"] by simp
    moreover have "behind parent (tl_threads K leader) = ps" using 2(5,6) behind_append [of parent pre ps] by simp
    ultimately show ?thesis using walk_up [OF r(4), of K v e] 2(4) r(3) by simp
  qed
  have down: "walk_loop K v tp c [] (tl_threads K c) e =
      (case visit_threads v ths e of (stop, d') \<Rightarrow> if stop then Some d' else walk_loop K v tp c [] [] d')" for e
    using 2(1) [OF represents_threads_ok [OF r(1,2) tp], of "[]"] representsD(1) [OF r(1)] distinct_threads(1) [OF r(2)] by simp
  show ?case using walk_child [where v = v and c = c and d = d, OF v, of K tp leader] v by (auto simp: down up rest split: prod.splits)
next
  case (4 p ts ths)
  have p: "tl_group_leader K p = l" "tl_children K p = map pt_leader ts" "distinct (map pt_leader ts)" "children_ok K tp p ts"
    and ok: "threads_ok K tp l ths" using 4(3) by (auto simp: threads_ok_def)
  have "walk_loop K v tp l (map pt_leader ts) (map fst ths) d =
      (case visit_trees v ts d of (stop, d') \<Rightarrow> if stop then Some d' else walk_loop K v tp l [] (map fst ths) d')"
    using 4(1) [OF p(4,1) _ 4(5), of tpre "map fst ths" "[]"] 4(4) p(2,3) by simp
  moreover have "walk_loop K v tp l [] (map fst ths) e =
      (case visit_threads v ths e of (stop, d') \<Rightarrow> if stop then Some d' else walk_loop K v tp l [] [] d')" for e
    using 4(2) [OF ok, of "tpre @ [p]"] 4(4,5) by simp
  ultimately show ?case by (auto simp: walk_thread p(2) split: prod.splits)
qed simp_all

text \<open>A visitor that always descends sees the leaders of all processes.\<close>

lemma visit_all:
  "visit_trees (\<lambda>c d. (1, d @ [c])) ts d = (False, d @ leaders ts)"
  "visit_threads (\<lambda>c d. (1, d @ [c])) ths d = (False, d @ leaders_below ths)"
  by (induction ts and ths arbitrary: d and d rule: leaders_leaders_below.induct) simp_all

lemma leader_not_below:
  assumes "represents K (Proc l ths)" "distinct (tree_tasks (Proc l ths))"
  shows "l \<notin> set (leaders_below ths)"
proof
  assume "l \<in> set (leaders_below ths)"
  then obtain p us t where "(p, us) \<in> set ths" "t \<in> set us" "l \<in> set (tree_tasks t)"
    using leaders_in_tasks(2) [of ths K l] representsD(4) [OF assms(1)] by blast
  moreover obtain vs where "(l, vs) \<in> set ths" using representsD(2) [OF assms(1)] by auto
  ultimately show False using distinct_threads(3) [OF assms(2)] by blast
qed

lemma leaders_distinct:
  "(\<And>t. t \<in> set ts \<Longrightarrow> represents K t) \<Longrightarrow> distinct (concat (map tree_tasks ts)) \<Longrightarrow> distinct (leaders ts)"
  "(\<And>p us t. (p, us) \<in> set ths \<Longrightarrow> t \<in> set us \<Longrightarrow> represents K t) \<Longrightarrow> distinct (concat (map (\<lambda>(p, us). p # concat (map tree_tasks us)) ths)) \<Longrightarrow>
     distinct (leaders_below ths)"
proof (induction ts and ths rule: leaders_leaders_below.induct)
  case (2 l ths ts)
  have r: "represents K (Proc l ths)" by (rule 2(3)) simp
  have t: "represents K t" if "t \<in> set ts" for t by (rule 2(3)) (use that in simp)
  have d: "distinct (tree_tasks (Proc l ths))" "distinct (concat (map tree_tasks ts))"
    "set (tree_tasks (Proc l ths)) \<inter> set (concat (map tree_tasks ts)) = {}" using 2(4) by simp_all
  have "set (leaders ts) \<subseteq> set (concat (map tree_tasks ts))" using leaders_in_tasks(1) [of ts K] t by fastforce
  moreover have "set (l # leaders_below ths) \<subseteq> set (tree_tasks (Proc l ths))"
  proof
    fix x assume "x \<in> set (l # leaders_below ths)"
    then have "x \<in> set (leaders [Proc l ths])" by simp
    then show "x \<in> set (tree_tasks (Proc l ths))" using leaders_in_tasks(1) [of "[Proc l ths]" K x] r by (auto simp del: tree_tasks.simps represents.simps)
  qed
  ultimately have "set (l # leaders_below ths) \<inter> set (leaders ts) = {}" using d(3) by blast
  moreover have "distinct (leaders_below ths)" using 2(1) representsD(4) [OF r] d(1) by simp
  ultimately show ?case using leader_not_below [OF r d(1)] 2(2) [OF t d(2)] by simp
next
  case (4 p ts ths)
  have t: "represents K t" if "t \<in> set ts" for t using 4(3) [of p ts t] that by simp
  have "set (leaders ts) \<subseteq> set (concat (map tree_tasks ts))" using leaders_in_tasks(1) [of ts K] t by fastforce
  moreover have "set (leaders_below ths) \<subseteq> set (concat (map (\<lambda>(p, us). p # concat (map tree_tasks us)) ths))"
  proof
    fix x assume "x \<in> set (leaders_below ths)"
    then obtain q us t where "(q, us) \<in> set ths" "t \<in> set us" "x \<in> set (tree_tasks t)"
      using leaders_in_tasks(2) [of ths K x] 4(3) by (meson list.set_intros(2))
    then show "x \<in> set (concat (map (\<lambda>(p, us). p # concat (map tree_tasks us)) ths))" by (auto intro!: bexI [of _ "(q, us)"])
  qed
  moreover have "set (concat (map tree_tasks ts)) \<inter> set (concat (map (\<lambda>(p, us). p # concat (map tree_tasks us)) ths)) = {}"
    "distinct (concat (map tree_tasks ts))" "distinct (concat (map (\<lambda>(p, us). p # concat (map tree_tasks us)) ths))" using 4(4) by simp_all
  moreover have "distinct (leaders_below ths)" using 4(2) 4(3) calculation(5) by (meson list.set_intros(2))
  ultimately have "set (leaders ts) \<inter> set (leaders_below ths) = {}" "distinct (leaders ts)" "distinct (leaders_below ths)"
    using 4(1) [OF t] by blast+
  then show ?case by simp
qed simp_all

lemma walk_run:
  assumes "represents K (Proc l ths)" "distinct (tree_tasks (Proc l ths))" "task \<in> fst ` set ths"
  shows "walk_process_tree K task v d = Some (snd (visit_threads v ths d))"
proof -
  have "tl_group_leader K task = l" using assms(3) representsD(3) [OF assms(1)] by auto
  then show ?thesis
    using walk_loop_visit(2) [OF represents_threads_ok [OF assms(1,2) leader_not_below [OF assms(1,2)]], of "[]" v d]
      representsD(1) [OF assms(1)] distinct_threads(1) [OF assms(2)]
    by (auto simp: walk_process_tree_def walk_stop split: prod.splits)
qed

text \<open>
  C16: \<open>walk_process_tree\<close> walks the tree. If the lists and pointers of the tasks are those of a tree of
  processes in which no task occurs twice, the walk from any thread of the process at the top returns, and the
  visitor has been called as in the recursive depth-first visit of the tree: for every process below, in the
  order of the threads and children, going below a process only where the visitor returned a positive number
  and stopping altogether where it returned a negative one. In particular a visitor that always returns 1 is
  called once for each process below the top.\<close>

theorem walk_process_tree_visits:
  assumes "represents K (Proc l ths)" and "distinct (tree_tasks (Proc l ths))" and "task \<in> fst ` set ths"
  shows "walk_process_tree K task visitor d = Some (snd (visit_threads visitor ths d)) \<and>
    walk_process_tree K task (\<lambda>c seen. (1, seen @ [c])) [] = Some (leaders_below ths) \<and> distinct (leaders_below ths)"
proof -
  have "distinct (leaders_below ths)" using leaders_distinct(2) [of ths K] representsD(4) [OF assms(1)] assms(2) by simp
  then show ?thesis by (simp add: walk_run [OF assms] visit_all)
qed

text \<open>
  Witness: a process of the threads 1 and 2 with the children 3 and 4 of the first thread and 5 of the second,
  and a child 6 of 3; the visitor does not go below 3 and stops at 4.
\<close>

definition example_links :: task_links where
  "example_links = \<lparr>tl_threads = (\<lambda>l. if l = 1 then [1, 2] else [l]),
     tl_children = (\<lambda>p. if p = 1 then [3, 4] else if p = 2 then [5] else if p = 3 then [6] else []),
     tl_real_parent = (\<lambda>c. if c = 5 then 2 else if c = 6 then 3 else 1),
     tl_group_leader = (\<lambda>p. if p = 2 then 1 else p)\<rparr>"

definition example_threads :: "(addr \<times> ptree list) list" where
  "example_threads = [(1, [Proc 3 [(3, [Proc 6 [(6, [])]])], Proc 4 [(4, [])]]), (2, [Proc 5 [(5, [])]])]"

theorem walk_process_tree_visits_witness:
  "walk_process_tree example_links 2 (\<lambda>c seen. (if c = 3 then 0 else if c = 4 then - 1 else 1, seen @ [c])) [] = Some [3, 4] \<and>
   walk_process_tree example_links 2 (\<lambda>c seen. (1, seen @ [c])) [] = Some [3, 6, 4, 5]"
proof -
  have "represents example_links (Proc 1 example_threads)" "distinct (tree_tasks (Proc 1 example_threads))" "2 \<in> fst ` set example_threads"
    by (simp_all add: example_links_def example_threads_def)
  from walk_process_tree_visits [OF this, of "\<lambda>c seen. (if c = 3 then 0 else if c = 4 then - 1 else 1, seen @ [c])" "[]"]
  show ?thesis by (simp add: example_threads_def)
qed

end
