(* ===== verification/Vfork.thy ===== *)
theory Vfork
  imports Transition_System Kernel_Prelude
begin

text \<open>
  The hand-over between a parent that waits in \<open>kernel_clone\<close> for its \<open>vfork\<close> child and the child that gives up
  the address space in \<open>mm_release\<close> (kernel/fork.c), as interleaved steps. The completion the parent waits for
  lies on the stack of the parent.
\<close>

section \<open>Steps\<close>

text \<open>
  Where the parent is: before \<open>wake_up_new_task\<close>; asleep in \<open>wait_for_completion_killable\<close>; in \<open>wait_for_vfork_done\<close>
  after a fatal signal, before \<open>task_lock\<close>, before the assignment and before \<open>task_unlock\<close>; before
  \<open>put_task_struct\<close>; returned. The flag says whether it was killed.
\<close>

datatype parent_pc = PStart | PSleep | PLock | PClear | PUnlock | PPut bool | PReturned bool | PFault

text \<open>
  Where the child is: not running yet; running with the address space of the parent; in \<open>complete_vfork_done\<close>
  before \<open>task_lock\<close>, before the test of \<open>vfork_done\<close>, before \<open>complete\<close> and before \<open>task_unlock\<close>; past \<open>mm_release\<close>;
  gone, its own reference to its \<open>task_struct\<close> given back.
\<close>

datatype child_pc = CNew | CRun | CLock | CTake | CComplete | CUnlock | CReleased | CExited | CFault

datatype lock_owner = LParent | LChild

text \<open>
  \<open>vfork_done\<close> of the child, set or \<open>NULL\<close>; the completion, which does not exist outside the frame of the parent and
  otherwise is done or not; the owner of the child's task lock; the reference count of the child.
\<close>

record vfork_state =
  ppc :: parent_pc
  cpc :: child_pc
  vdone :: bool
  comp :: "bool option"
  tlock :: "lock_owner option"
  usage :: nat

text \<open>An access of the parent to the \<open>task_struct\<close> of the child needs a reference.\<close>

definition child_access :: "vfork_state \<Rightarrow> vfork_state \<Rightarrow> vfork_state" where
  "child_access s s' = (if usage s = 0 then s\<lparr>ppc := PFault\<rparr> else s')"

inductive vfork_step :: "vfork_state \<Rightarrow> vfork_state \<Rightarrow> bool" where
  p_wake: "ppc s = PStart \<Longrightarrow> vfork_step s (s\<lparr>ppc := PSleep, cpc := CRun, vdone := True, comp := Some False, usage := usage s + 1\<rparr>)"
| p_done: "ppc s = PSleep \<Longrightarrow> comp s = Some True \<Longrightarrow> vfork_step s (s\<lparr>ppc := PPut False\<rparr>)"
| p_killed: "ppc s = PSleep \<Longrightarrow> comp s = Some False \<Longrightarrow> vfork_step s (s\<lparr>ppc := PLock\<rparr>)"
| p_lock: "ppc s = PLock \<Longrightarrow> tlock s = None \<Longrightarrow> vfork_step s (child_access s (s\<lparr>ppc := PClear, tlock := Some LParent\<rparr>))"
| p_clear: "ppc s = PClear \<Longrightarrow> vfork_step s (child_access s (s\<lparr>ppc := PUnlock, vdone := False\<rparr>))"
| p_unlock: "ppc s = PUnlock \<Longrightarrow> vfork_step s (child_access s (s\<lparr>ppc := PPut True, tlock := None\<rparr>))"
| p_put: "ppc s = PPut k \<Longrightarrow> vfork_step s (child_access s (s\<lparr>ppc := PReturned k, comp := None, usage := usage s - 1\<rparr>))"
| c_test: "cpc s = CRun \<Longrightarrow> vfork_step s (s\<lparr>cpc := (if vdone s then CLock else CReleased)\<rparr>)"
| c_lock: "cpc s = CLock \<Longrightarrow> tlock s = None \<Longrightarrow> vfork_step s (s\<lparr>cpc := CTake, tlock := Some LChild\<rparr>)"
| c_take: "cpc s = CTake \<Longrightarrow> vfork_step s (if vdone s then s\<lparr>cpc := CComplete, vdone := False\<rparr> else s\<lparr>cpc := CUnlock\<rparr>)"
| c_complete: "cpc s = CComplete \<Longrightarrow> vfork_step s (if comp s = None then s\<lparr>cpc := CFault\<rparr> else s\<lparr>cpc := CUnlock, comp := Some True\<rparr>)"
| c_unlock: "cpc s = CUnlock \<Longrightarrow> vfork_step s (s\<lparr>cpc := CReleased, tlock := None\<rparr>)"
| c_exit: "cpc s = CReleased \<Longrightarrow> vfork_step s (s\<lparr>cpc := CExited, usage := usage s - 1\<rparr>)"

text \<open>The state when \<open>copy_process\<close> has returned the child.\<close>

definition vfork_start :: vfork_state where
  "vfork_start = \<lparr>ppc = PStart, cpc = CNew, vdone = False, comp = None, tlock = None, usage = 1\<rparr>"

section \<open>Invariant\<close>

text \<open>Whether the parent is in \<open>kernel_clone\<close> with the child running, may still find \<open>vfork_done\<close> set, and has the task lock.\<close>

fun in_frame :: "parent_pc \<Rightarrow> bool" where
  "in_frame PStart = False" | "in_frame (PReturned k) = False" | "in_frame _ = True"

fun before_clear :: "parent_pc \<Rightarrow> bool" where
  "before_clear PSleep = True" | "before_clear PLock = True" | "before_clear PClear = True" | "before_clear _ = False"

fun parent_locks :: "parent_pc \<Rightarrow> bool" where
  "parent_locks PClear = True" | "parent_locks PUnlock = True" | "parent_locks _ = False"

fun unkilled :: "parent_pc \<Rightarrow> bool" where
  "unkilled PSleep = True" | "unkilled (PPut k) = (\<not> k)" | "unkilled _ = False"

text \<open>The same for the child: before it has read \<open>vfork_done\<close> under the lock, past the completion, with the task lock.\<close>

fun before_take :: "child_pc \<Rightarrow> bool" where
  "before_take CRun = True" | "before_take CLock = True" | "before_take CTake = True" | "before_take _ = False"

fun past_complete :: "child_pc \<Rightarrow> bool" where
  "past_complete CUnlock = True" | "past_complete CReleased = True" | "past_complete CExited = True" | "past_complete _ = False"

fun child_locks :: "child_pc \<Rightarrow> bool" where
  "child_locks CTake = True" | "child_locks CComplete = True" | "child_locks CUnlock = True" | "child_locks _ = False"

text \<open>The pointer, the lock, the frame and the count follow from the two places; the rest restricts the places.\<close>

definition vfork_inv :: "vfork_state \<Rightarrow> bool" where
  "vfork_inv s \<longleftrightarrow>
     vdone s = (before_clear (ppc s) \<and> before_take (cpc s)) \<and>
     tlock s = (if parent_locks (ppc s) then Some LParent else if child_locks (cpc s) then Some LChild else None) \<and>
     (comp s = None) = (\<not> in_frame (ppc s)) \<and>
     usage s = of_bool (cpc s \<noteq> CExited) + of_bool (in_frame (ppc s)) \<and>
     ppc s \<noteq> PFault \<and> cpc s \<noteq> CFault \<and> (ppc s = PStart) = (cpc s = CNew) \<and> \<not> (parent_locks (ppc s) \<and> child_locks (cpc s)) \<and>
     (comp s = Some True \<longrightarrow> past_complete (cpc s)) \<and> (unkilled (ppc s) \<and> past_complete (cpc s) \<longrightarrow> comp s = Some True) \<and>
     (ppc s \<in> {PPut False, PReturned False} \<longrightarrow> past_complete (cpc s)) \<and> (cpc s = CComplete \<longrightarrow> before_clear (ppc s))"

lemma past_completeD: "past_complete c \<Longrightarrow> \<not> before_take c \<and> c \<noteq> CComplete \<and> c \<noteq> CNew"
  by (cases c) simp_all

lemma unkilledD: "unkilled p \<Longrightarrow> before_clear p \<or> p = PPut False"
  by (cases p) simp_all

lemma before_clearD: "before_clear p \<Longrightarrow> in_frame p"
  by (cases p) simp_all

lemma vfork_step_inv:
  assumes "vfork_inv s" "vfork_step s s'"
  shows "vfork_inv s'"
  using assms(2,1)
  by (cases rule: vfork_step.cases) (auto simp: vfork_inv_def child_access_def dest: past_completeD unkilledD before_clearD split: if_splits)

text \<open>Every step brings one of the two further; where neither can go on, both have finished.\<close>

fun parent_rank :: "parent_pc \<Rightarrow> nat" where
  "parent_rank PStart = 14" | "parent_rank PSleep = 5" | "parent_rank PLock = 4" | "parent_rank PClear = 3" | "parent_rank PUnlock = 2"
| "parent_rank (PPut k) = 1" | "parent_rank _ = 0"

fun child_rank :: "child_pc \<Rightarrow> nat" where
  "child_rank CRun = 7" | "child_rank CLock = 6" | "child_rank CTake = 5" | "child_rank CComplete = 4" | "child_rank CUnlock = 3"
| "child_rank CReleased = 2" | "child_rank _ = 0"

definition vfork_rank :: "vfork_state \<Rightarrow> nat" where
  "vfork_rank s = parent_rank (ppc s) + child_rank (cpc s)"

definition vfork_final :: "vfork_state \<Rightarrow> bool" where
  "vfork_final s \<longleftrightarrow> ppc s \<in> {PReturned True, PReturned False} \<and> cpc s = CExited"

lemma vfork_step_rank:
  assumes "vfork_inv s" "vfork_step s s'"
  shows "vfork_rank s' < vfork_rank s"
  using assms(2,1) by (cases rule: vfork_step.cases) (auto simp: vfork_inv_def vfork_rank_def child_access_def)

lemma vfork_stuck_final:
  assumes inv: "vfork_inv s" and stuck: "\<not> (\<exists>s'. vfork_step s s')"
  shows "vfork_final s"
proof -
  have c: "cpc s \<notin> {CRun, CTake, CComplete, CUnlock, CReleased}" and p: "ppc s \<notin> {PStart, PClear, PUnlock, PPut True, PPut False}"
    using stuck vfork_step.intros by (metis insertE singletonD)+
  have "\<not> (cpc s = CLock \<and> tlock s = None)" "\<not> (ppc s = PLock \<and> tlock s = None)" "\<not> (ppc s = PSleep \<and> comp s \<noteq> None)"
    using stuck vfork_step.intros by (metis (full_types) not_Some_eq)+
  then show ?thesis using c p inv
    by (cases "ppc s"; cases "cpc s") (auto simp: vfork_inv_def vfork_final_def)
qed

interpretation vf: terminating_system "\<lambda>s. s = vfork_start" vfork_step vfork_inv vfork_rank vfork_final
proof
  show "s = vfork_start \<Longrightarrow> vfork_inv s" for s by (simp add: vfork_start_def vfork_inv_def)
qed (fact vfork_step_inv vfork_step_rank vfork_stuck_final)+

section \<open>The protocol\<close>

text \<open>
  C3: the hand-over of \<open>vfork\<close> is safe and ends. In every state that a parent and its \<open>vfork\<close> child reach, in
  any order of their steps and with a fatal signal to the parent at any moment of its sleep: neither touches
  the other's memory after it is gone (no step has completed a completion outside the parent's frame or
  used the \<open>task_struct\<close> of the child without a reference); a parent that returns without having been killed
  does so only after the child has given up the address space; once the parent has returned, the
  child's \<open>vfork_done\<close> no longer points to its stack and the child is not about to complete it; a parent
  still asleep when the child is past \<open>mm_release\<close> has been woken. Every execution has at most 14 steps and can
  only end with the parent returned and the child gone.\<close>

theorem vfork_protocol:
  assumes "vfork_step\<^sup>*\<^sup>* vfork_start s"
  shows "ppc s \<noteq> PFault \<and> cpc s \<noteq> CFault \<and>
    (ppc s = PReturned False \<longrightarrow> cpc s \<in> {CUnlock, CReleased, CExited}) \<and>
    (ppc s = PReturned k \<longrightarrow> \<not> vdone s \<and> comp s = None \<and> cpc s \<noteq> CComplete) \<and>
    (ppc s = PSleep \<and> cpc s \<in> {CReleased, CExited} \<longrightarrow> comp s = Some True) \<and>
    ((vfork_step ^^ n) vfork_start s \<longrightarrow> n \<le> 14) \<and>
    (\<exists>s'. vfork_step\<^sup>*\<^sup>* s s' \<and> vfork_final s') \<and> (\<not> (\<exists>s'. vfork_step s s') \<longrightarrow> vfork_final s)"
proof -
  have inv: "vfork_inv s" using vf.reachable_inv [OF refl assms] .
  have "n \<le> 14" if "(vfork_step ^^ n) vfork_start s"
    using vf.run_rank [OF that vf.init_inv [OF refl]] by (simp add: vfork_rank_def vfork_start_def)
  moreover have "ppc s \<noteq> PFault \<and> cpc s \<noteq> CFault \<and>
    (ppc s = PReturned False \<longrightarrow> cpc s \<in> {CUnlock, CReleased, CExited}) \<and>
    (ppc s = PReturned k \<longrightarrow> \<not> vdone s \<and> comp s = None \<and> cpc s \<noteq> CComplete) \<and>
    (ppc s = PSleep \<and> cpc s \<in> {CReleased, CExited} \<longrightarrow> comp s = Some True)"
    using inv by (cases "cpc s") (auto simp: vfork_inv_def)
  ultimately show ?thesis using vf.reaches_final [OF inv] vf.stuck_final [OF inv] by blast
qed

text \<open>Witness: the run in which the child finishes while the parent sleeps.\<close>

lemma vfork_example:
  "vfork_step\<^sup>*\<^sup>* vfork_start \<lparr>ppc = PSleep, cpc = CReleased, vdone = False, comp = Some True, tlock = None, usage = 2\<rparr>"
proof -
  let ?st = "\<lambda>c v k l. \<lparr>ppc = PSleep, cpc = c, vdone = v, comp = Some k, tlock = l, usage = 2\<rparr>"
  have s1: "vfork_step vfork_start (?st CRun True False None)" using p_wake [of vfork_start] by (simp add: vfork_start_def numeral_2_eq_2)
  have s2: "vfork_step (?st CRun True False None) (?st CLock True False None)" using c_test [of "?st CRun True False None"] by simp
  have s3: "vfork_step (?st CLock True False None) (?st CTake True False (Some LChild))" using c_lock [of "?st CLock True False None"] by simp
  have s4: "vfork_step (?st CTake True False (Some LChild)) (?st CComplete False False (Some LChild))" using c_take [of "?st CTake True False (Some LChild)"] by simp
  have s5: "vfork_step (?st CComplete False False (Some LChild)) (?st CUnlock False True (Some LChild))" using c_complete [of "?st CComplete False False (Some LChild)"] by simp
  have s6: "vfork_step (?st CUnlock False True (Some LChild)) (?st CReleased False True None)" using c_unlock [of "?st CUnlock False True (Some LChild)"] by simp
  note c = converse_rtranclp_into_rtranclp [of vfork_step]
  show ?thesis by (rule c [OF s1], rule c [OF s2], rule c [OF s3], rule c [OF s4], rule c [OF s5], rule r_into_rtranclp [of vfork_step, OF s6])
qed

theorem vfork_protocol_witness:
  "\<exists>s s'. vfork_step\<^sup>*\<^sup>* vfork_start s \<and> ppc s = PSleep \<and> cpc s = CReleased \<and> comp s = Some True \<and> vfork_step\<^sup>*\<^sup>* s s' \<and> vfork_final s'"
proof -
  let ?s = "\<lparr>ppc = PSleep, cpc = CReleased, vdone = False, comp = Some True, tlock = None, usage = 2\<rparr>"
  obtain s' where "vfork_step\<^sup>*\<^sup>* ?s s'" "vfork_final s'" using vfork_protocol [OF vfork_example] by blast
  then show ?thesis using vfork_example by (intro exI [of _ ?s] exI [of _ s']) simp
qed

end
