(* ===== verification/Process_Count.thy ===== *)
theory Process_Count
  imports Fork_Correct Transition_System
begin

text \<open>
  The number of processes (kernel/fork.c): a counter for each CPU, counted up where a process is created and down where one
  ends, and their sum.
\<close>

section \<open>Counters\<close>

definition this_cpu_add :: "nat \<Rightarrow> u64 \<Rightarrow> u64 list \<Rightarrow> u64 list" where
  "this_cpu_add cpu x counts = counts[cpu := counts ! cpu + x]"

text \<open>
  \<open>total\<close> is an \<open>int\<close>: the addition is done in \<open>unsigned long\<close> and its result converted back.
\<close>

fun nr_loop :: "s32 \<Rightarrow> u64 list \<Rightarrow> s32" where
  "nr_loop t [] = t"
| "nr_loop t (c # cs) = nr_loop (ucast (scast t + c :: u64)) cs"

definition nr_processes :: "u64 list \<Rightarrow> s32" where
  "nr_processes counts = nr_loop 0 counts"

text \<open>
  Steps on the number of processes, which \<open>link_leader\<close> keeps in \<open>process_counts\<close>, with the counters: a task may end on another CPU
  than the one on which it was created.
\<close>

inductive count_step :: "fork_state \<times> u64 list \<Rightarrow> fork_state \<times> u64 list \<Rightarrow> bool" where
  create: "cpu < length cs \<Longrightarrow> count_step (s, cs) (link_leader E cur p s, this_cpu_add cpu 1 cs)"
| create_thread: "count_step (s, cs) (link_thread cur p s, cs)"
| unhash: "cpu < length cs \<Longrightarrow> 0 < process_counts s \<Longrightarrow>
     count_step (s, cs) (s\<lparr>process_counts := process_counts s - 1\<rparr>, this_cpu_add cpu (- 1) cs)"

section \<open>The sum\<close>

lemma ucast_add: "(ucast (a + b :: u64) :: s32) = ucast a + ucast b"
proof -
  have "unat (a + b) mod 2 ^ 32 = (unat a + unat b) mod 2 ^ 32"
    by (simp add: unat_word_ariths mod_mod_cancel)
  then show ?thesis by (simp add: word_unat_eq_iff unsigned_ucast_eq unat_word_ariths take_bit_eq_mod mod_add_eq)
qed

lemma ucast_scast: "(ucast (scast t :: u64) :: s32) = t"
  by (rule bit_word_eqI) (simp add: bit_unsigned_iff bit_signed_iff)

lemma nr_loop_sum: "nr_loop t cs = t + ucast (sum_list cs)"
  by (induction cs arbitrary: t) (simp_all add: ucast_add ucast_scast)

lemma sum_list_add: "cpu < length cs \<Longrightarrow> sum_list (this_cpu_add cpu x cs) = sum_list cs + x" for cs :: "u64 list"
proof (induction cs arbitrary: cpu)
  case (Cons c cs)
  then show ?case by (cases cpu) (simp_all add: this_cpu_add_def algebra_simps)
qed simp

definition counted :: "fork_state \<times> u64 list \<Rightarrow> bool" where
  "counted x = (case x of (s, cs) \<Rightarrow> sum_list cs = of_nat (process_counts s))"

lemma link_counts:
  "process_counts (link_leader E cur p s) = process_counts s + 1" "process_counts (link_thread cur p s) = process_counts s"
  by (simp_all add: link_leader_def link_thread_def Let_def upd_signal_def res_get_def)

interpretation pcount: transition_system "\<lambda>(s, cs). process_counts s = 0 \<and> (\<forall>c \<in> set cs. c = 0)" count_step counted
proof
  fix x :: "fork_state \<times> u64 list"
  assume "case x of (s, cs) \<Rightarrow> process_counts s = 0 \<and> (\<forall>c \<in> set cs. c = 0)"
  moreover have "sum_list cs = 0" if "\<forall>c \<in> set cs. c = 0" for cs :: "u64 list" using that by (induction cs) simp_all
  ultimately show "counted x" by (auto simp: counted_def split: prod.splits)
next
  fix x y
  assume "counted x" "count_step x y"
  from this(2,1) show "counted y"
    by cases (auto simp: counted_def sum_list_add link_counts of_nat_diff)
qed

text \<open>
  C30: \<open>nr_processes\<close> returns the number of processes. Processes are created and end on whatever CPUs; a counter of a CPU on which more
  end than were created wraps below 0, and still the sum, cut down to an \<open>int\<close>, is the number of processes that
  were created and have not ended, as long as that is an \<open>int\<close> itself. Threads do not count.
\<close>

theorem nr_processes_exact:
  assumes "process_counts s = 0" and "count_step\<^sup>*\<^sup>* (s, replicate n 0) (s', cs)" and "process_counts s' < 2 ^ 31"
  shows "sint (nr_processes cs) = int (process_counts s')"
proof -
  have "counted (s', cs)" using pcount.reachable_inv [OF _ assms(2)] assms(1) by simp
  then have "nr_processes cs = ucast (of_nat (process_counts s') :: u64)" by (simp add: counted_def nr_processes_def nr_loop_sum)
  also have "\<dots> = of_nat (process_counts s')"
    by (simp add: word_unat_eq_iff unsigned_ucast_eq unsigned_of_nat take_bit_eq_mod mod_mod_cancel)
  finally show ?thesis using assms(3)
    by (simp add: signed_of_nat signed_take_bit_int_eq_self)
qed

text \<open>Witness: of two processes that were created on CPU 0 one ends on CPU 1, whose counter wraps.\<close>

theorem nr_processes_exact_witness:
  "\<exists>s. count_step\<^sup>*\<^sup>* (example_fork_state\<lparr>process_counts := 0\<rparr>, replicate 2 0) (s, [2, - 1]) \<and> sint (nr_processes [2, - 1]) = 1"
proof -
  let ?s = "example_fork_state\<lparr>process_counts := 0\<rparr>"
  let ?f = "link_leader example_cp_env 8 64"
  let ?e = "(?f (?f ?s))\<lparr>process_counts := process_counts (?f (?f ?s)) - 1\<rparr>"
  have 1: "count_step (s, [c, d]) (?f s, [c + 1, d])" for s and c d :: u64
    using create [of 0 "[c, d]" s example_cp_env 8 64] by (simp add: this_cpu_add_def)
  have 2: "count_step (s, [c, d]) (s\<lparr>process_counts := process_counts s - 1\<rparr>, [c, d - 1])" if "0 < process_counts s" for s and c d :: u64
    using unhash [of 1 "[c, d]" s] that by (simp add: this_cpu_add_def)
  have n: "process_counts (?f (?f ?s)) = 2" "process_counts ?e = 1" by (simp_all add: link_counts)
  have "count_step\<^sup>*\<^sup>* (?s, [0, 0]) (?f (?f ?s), [0 + 1 + 1, 0])"
    by (rule converse_rtranclp_into_rtranclp [OF 1 r_into_rtranclp [where r = count_step, OF 1]])
  then have run: "count_step\<^sup>*\<^sup>* (?s, replicate 2 0) (?e, [2, - 1])"
    using 2 [of "?f (?f ?s)" 2 0] n(1) by (simp add: numeral_2_eq_2 rtranclp.rtrancl_into_rtrancl)
  have "sint (nr_processes [2, - 1]) = int (process_counts ?e)"
    by (rule nr_processes_exact [OF _ run]) (simp_all only: n fork_state.select_convs fork_state.update_convs, simp_all)
  then show ?thesis using run n(2) by (intro exI [of _ ?e] conjI) simp_all
qed

end
