(* ===== verification/Thread_Limit.thy ===== *)
theory Thread_Limit
  imports Kernel_Prelude
begin

text \<open>
  The limit on the number of threads (kernel/fork.c): its computation from the size of the memory at boot and
  its change through \<open>/proc/sys/kernel/threads-max\<close>.
\<close>

abbreviation (input) MIN_THREADS :: u64 where "MIN_THREADS \<equiv> 20"
abbreviation (input) MAX_THREADS :: u64 where "MAX_THREADS \<equiv> 0x3fffffff"
abbreviation (input) THREAD_SIZE :: u64 where "THREAD_SIZE \<equiv> 16384"
abbreviation (input) PAGE_BYTES :: u64 where "PAGE_BYTES \<equiv> 4096"

section \<open>Definitions\<close>

text \<open>The position of the highest bit, counted from 1; 0 for 0.\<close>

fun fls_nat :: "nat \<Rightarrow> nat" where
  "fls_nat n = (if n = 0 then 0 else Suc (fls_nat (n div 2)))"

declare fls_nat.simps [simp del]

definition fls64 :: "u64 \<Rightarrow> nat" where
  "fls64 x = fls_nat (unat x)"

definition clamp_u64 :: "u64 \<Rightarrow> u64 \<Rightarrow> u64 \<Rightarrow> u64" where
  "clamp_u64 x lo hi = min (max x lo) hi"

text \<open>\<open>nr_pages\<close> is the number of pages of the machine.\<close>

definition set_max_threads :: "u64 \<Rightarrow> u32 \<Rightarrow> u64" where
  "set_max_threads nr_pages max_threads_suggested =
    (let threads = (if 64 < fls64 nr_pages + fls64 PAGE_BYTES then MAX_THREADS
                    else nr_pages * PAGE_BYTES div (THREAD_SIZE * 8));
         threads = (if ucast max_threads_suggested < threads then ucast max_threads_suggested else threads)
     in clamp_u64 threads MIN_THREADS MAX_THREADS)"

text \<open>
  \<open>fork_init\<close>: the limits of the first task and of the initial user namespace that follow from it; \<open>n\<close> is the number of
  counters of a namespace that are limited by the number of threads.
\<close>

record boot_limits =
  nproc_cur :: u64
  nproc_max :: u64
  sigpending_cur :: u64
  sigpending_max :: u64
  ucount_max :: "u64 list"

definition fork_init :: "u64 \<Rightarrow> nat \<Rightarrow> boot_limits \<Rightarrow> u64 \<times> boot_limits" where
  "fork_init nr_pages n lim =
    (let max_threads = set_max_threads nr_pages (ucast MAX_THREADS);
         lim = lim\<lparr>nproc_cur := max_threads div 2\<rparr>;
         lim = lim\<lparr>nproc_max := max_threads div 2\<rparr>;
         lim = lim\<lparr>sigpending_cur := nproc_cur lim, sigpending_max := nproc_max lim\<rparr>
     in (max_threads, lim\<lparr>ucount_max := fill_loop n (max_threads div 2) (ucount_max lim)\<rparr>))"

text \<open>
  \<open>dointvec\<close> stands for \<open>proc_dointvec_minmax\<close>: from the bounds and the current value it makes an error number and the value
  that the table entry then has. The first component of the result is the return value.
\<close>

definition sysctl_max_threads :: "(int \<Rightarrow> int \<Rightarrow> int \<Rightarrow> int \<times> int) \<Rightarrow> bool \<Rightarrow> int \<Rightarrow> int \<times> int" where
  "sysctl_max_threads dointvec write max_threads =
    (let (ret, threads) = dointvec 1 (uint MAX_THREADS) max_threads
     in if ret \<noteq> 0 \<or> \<not> write then (ret, max_threads) else (0, threads))"

text \<open>A successful access leaves the value alone or makes it one between the bounds.\<close>

definition minmax_ok :: "(int \<Rightarrow> int \<Rightarrow> int \<Rightarrow> int \<times> int) \<Rightarrow> bool" where
  "minmax_ok dointvec \<longleftrightarrow> (\<forall>lo hi v x. dointvec lo hi v = (0, x) \<longrightarrow> x = v \<or> lo \<le> x \<and> x \<le> hi)"

section \<open>Bounds\<close>

lemma fls_nat_less: "n < 2 ^ fls_nat n"
proof (induction n rule: fls_nat.induct)
  case (1 n)
  then show ?case by (subst fls_nat.simps) auto
qed

lemma fls_nat_le: "n < 2 ^ k \<Longrightarrow> fls_nat n \<le> k"
proof (induction n arbitrary: k rule: fls_nat.induct)
  case (1 n)
  show ?case
  proof (cases "n = 0")
    case False
    then obtain j where j: "k = Suc j" using 1(2) by (cases k) auto
    then have "fls_nat (n div 2) \<le> j" using 1 False by simp
    then show ?thesis using j False by (subst fls_nat.simps) simp
  qed (subst fls_nat.simps, simp)
qed

lemma fls64_page: "fls64 PAGE_BYTES = 13"
  by (simp add: fls64_def fls_nat.simps)

text \<open>The product is computed only where it fits.\<close>

lemma max_threads_product:
  assumes "\<not> 64 < fls64 nr_pages + fls64 PAGE_BYTES"
  shows "unat (nr_pages * PAGE_BYTES) = unat nr_pages * 4096"
proof -
  have "fls_nat (unat nr_pages) \<le> 51" using assms by (simp add: fls64_page) (simp add: fls64_def)
  then have "(2::nat) ^ fls_nat (unat nr_pages) \<le> 2 ^ 51" by (rule power_increasing) simp
  then have "unat nr_pages < 2 ^ 51" using fls_nat_less [of "unat nr_pages"] by linarith
  then have "unat nr_pages * 4096 < 2 ^ 64" by simp
  then show ?thesis by (simp add: unat_word_ariths)
qed

lemma unat_clamp: "unat (clamp_u64 x MIN_THREADS MAX_THREADS) = min (max (unat x) 20) 0x3fffffff"
  by (simp add: clamp_u64_def min_def max_def word_le_nat_alt)

lemma unat_set_max_threads:
  "unat (set_max_threads nr_pages suggested) =
     min (max (min (if 64 < fls64 nr_pages + fls64 PAGE_BYTES then 0x3fffffff else unat nr_pages * 4096 div 131072) (unat suggested)) 20) 0x3fffffff"
proof -
  let ?t = "if 64 < fls64 nr_pages + fls64 PAGE_BYTES then MAX_THREADS else nr_pages * PAGE_BYTES div (THREAD_SIZE * 8)"
  have t: "unat ?t = (if 64 < fls64 nr_pages + fls64 PAGE_BYTES then 0x3fffffff else unat nr_pages * 4096 div 131072)"
    using max_threads_product [of nr_pages] by (simp add: unat_div)
  have "set_max_threads nr_pages suggested = clamp_u64 (if ucast suggested < ?t then ucast suggested else ?t) MIN_THREADS MAX_THREADS"
    by (simp add: set_max_threads_def Let_def)
  then show ?thesis unfolding t [symmetric] by (simp only: unat_clamp) (auto simp: word_less_nat_alt min_def)
qed

text \<open>One user alone cannot create all threads: the limits at boot are half of the limit on threads.\<close>

lemma fork_init_limits:
  assumes "fork_init nr_pages n lim = (mt, lim')" "length (ucount_max lim) = n"
  shows "unat (nproc_max lim') = unat mt div 2 \<and> nproc_cur lim' = nproc_max lim' \<and> sigpending_max lim' = nproc_max lim' \<and>
    ucount_max lim' = replicate n (nproc_max lim') \<and> 10 \<le> unat (nproc_max lim') \<and> unat (nproc_max lim') \<le> 0x1fffffff"
proof -
  have mt: "mt = set_max_threads nr_pages (ucast MAX_THREADS)" and l: "nproc_max lim' = mt div 2" "nproc_cur lim' = mt div 2"
      "sigpending_max lim' = mt div 2" "ucount_max lim' = fill_loop n (mt div 2) (ucount_max lim)"
    using assms(1) by (auto simp: fork_init_def Let_def)
  have "20 \<le> unat mt" "unat mt \<le> 0x3fffffff" using unat_set_max_threads [of nr_pages "ucast MAX_THREADS"] by (simp_all add: mt)
  then show ?thesis using l fill_loop_length [OF assms(2)] by (simp add: unat_div) linarith
qed

text \<open>
  The limit on threads. The limit computed at boot is between 20 and \<open>0x3fffffff\<close>, is not above the
  suggestion unless the suggestion is below 20, and unless it is the minimum the stacks of that many threads
  fit into an eighth of the memory; the multiplication does not wrap. Writing to \<open>threads-max\<close> either fails and
  keeps the limit or leaves it unchanged or between 1 and \<open>0x3fffffff\<close>: below the minimum that the boot code enforces.\<close>

theorem thread_limit_bounds:
  assumes "minmax_ok dointvec"
  shows "let m = set_max_threads nr_pages suggested; (ret, m') = sysctl_max_threads dointvec write mt
    in MIN_THREADS \<le> m \<and> m \<le> MAX_THREADS \<and> (20 \<le> suggested \<longrightarrow> unat m \<le> unat suggested) \<and>
       (m = MIN_THREADS \<or> unat m * 16384 * 8 \<le> unat nr_pages * 4096) \<and>
       (ret \<noteq> 0 \<longrightarrow> m' = mt) \<and> (m' = mt \<or> 1 \<le> m' \<and> m' \<le> 0x3fffffff)"
proof -
  let ?m = "set_max_threads nr_pages suggested" and ?big = "64 < fls64 nr_pages + fls64 PAGE_BYTES"
  note m = unat_set_max_threads [of nr_pages suggested]
  have r: "MIN_THREADS \<le> ?m" "?m \<le> MAX_THREADS" "20 \<le> suggested \<longrightarrow> unat ?m \<le> unat suggested"
    using m by (auto simp: word_le_nat_alt min_def max_def)
  have big: "2 ^ 51 \<le> unat nr_pages" if "?big"
  proof (rule ccontr)
    assume "\<not> 2 ^ 51 \<le> unat nr_pages"
    then have "fls_nat (unat nr_pages) \<le> 51" by (intro fls_nat_le) simp
    then show False using that by (simp add: fls64_page) (simp add: fls64_def)
  qed
  have "unat ?m * 16384 * 8 \<le> unat nr_pages * 4096" if "?m \<noteq> MIN_THREADS"
  proof -
    have n: "unat ?m \<noteq> 20" using that word_unat_eq_iff [of ?m MIN_THREADS] by simp
    show ?thesis
    proof (cases ?big)
      case True
      have "unat ?m \<le> 0x3fffffff" using r(2) by (simp add: word_le_nat_alt)
      then show ?thesis using big [OF True] by simp
    next
      case False
      then have "unat ?m \<le> unat nr_pages * 4096 div 131072" using m n by (simp add: min_def max_def split: if_splits)
      then show ?thesis by simp
    qed
  qed
  moreover obtain ret m' where s: "sysctl_max_threads dointvec write mt = (ret, m')" by fastforce
  moreover have "(ret \<noteq> 0 \<longrightarrow> m' = mt) \<and> (m' = mt \<or> 1 \<le> m' \<and> m' \<le> 0x3fffffff)"
    using s assms unfolding minmax_ok_def by (auto simp: sysctl_max_threads_def split: if_splits prod.splits)
  ultimately show ?thesis using r unfolding Let_def by auto
qed

text \<open>Witness: a machine with 4 GiB, and a write of 5 to \<open>threads-max\<close>.\<close>

theorem thread_limit_bounds_witness:
  "minmax_ok (\<lambda>lo hi v. if lo \<le> 5 \<and> 5 \<le> hi then (0, 5) else (- EINVAL, v)) \<and>
   unat (set_max_threads 0x100000 0x3fffffff) * 16384 * 8 \<le> unat (0x100000 :: u64) * 4096 \<and>
   sysctl_max_threads (\<lambda>lo hi v. if lo \<le> 5 \<and> 5 \<le> hi then (0, 5) else (- EINVAL, v)) True 32768 = (0, 5)"
proof -
  let ?d = "\<lambda>lo hi v :: int. if lo \<le> 5 \<and> 5 \<le> hi then (0, 5) else (- EINVAL, v)"
  have ok: "minmax_ok ?d" by (simp add: minmax_ok_def)
  have s: "sysctl_max_threads ?d True 32768 = (0, 5)" by (simp add: sysctl_max_threads_def)
  have "unat (set_max_threads 0x100000 0x3fffffff) = 32768" by (simp add: unat_set_max_threads fls64_def fls_nat.simps)
  then have "set_max_threads 0x100000 0x3fffffff \<noteq> MIN_THREADS" by auto
  then show ?thesis using thread_limit_bounds [OF ok, of "0x100000" "0x3fffffff" True 32768] ok s by (simp add: Let_def)
qed

end
