(* ===== verification/Tcpdump.thy ===== *)
theory Tcpdump
  imports Bytes
begin

text \<open>
  The packet capture library and its client (network/tcpdump/custom_tcpdump.c and main.c). Captured
  packets are stored one after the other in a byte buffer, a \<open>struct pcap_pkthdr\<close> of 24 bytes followed
  by the data; the client walks the buffer again. \<open>libpcap\<close> is a parameter.
\<close>

section \<open>The buffer\<close>

record pcap_pkthdr =
  tv_sec :: u64
  tv_usec :: u64
  caplen :: u32
  pkt_len :: u32

type_synonym packet = "pcap_pkthdr \<times> bytes"

abbreviation (input) HDR :: nat where "HDR \<equiv> 24"

text \<open>The bytes of a header on x86-64, and the header at the head of a byte list.\<close>

definition hdr_bytes :: "pcap_pkthdr \<Rightarrow> bytes" where
  "hdr_bytes h = le_bytes 8 (tv_sec h) @ le_bytes 8 (tv_usec h) @ le_bytes 4 (caplen h) @ le_bytes 4 (pkt_len h)"

definition hdr_at :: "bytes \<Rightarrow> pcap_pkthdr" where
  "hdr_at bs = \<lparr>tv_sec = le_word (take 8 bs), tv_usec = le_word (take 8 (drop 8 bs)), caplen = le_word (take 4 (drop 16 bs)),
     pkt_len = le_word (take 4 (drop 20 bs))\<rparr>"

record capture_ctx =
  ctx_buffer :: bytes
  ctx_size :: u64
  ctx_offset :: u64
  ctx_max :: s32
  ctx_count :: s32

text \<open>\<open>memcpy\<close> into the buffer; \<open>None\<close> when it leaves the buffer.\<close>

definition buffer_put :: "nat \<Rightarrow> bytes \<Rightarrow> bytes \<Rightarrow> bytes option" where
  "buffer_put off bs mem = (if off + length bs \<le> length mem then Some (store_at off bs mem) else None)"

definition packet_handler :: "packet \<Rightarrow> capture_ctx \<Rightarrow> capture_ctx option" where
  "packet_handler pk ctx =
    (let (h, d) = pk
     in if 0 < sint (ctx_max ctx) \<and> sint (ctx_max ctx) \<le> sint (ctx_count ctx) then Some ctx
        else if ctx_size ctx < ctx_offset ctx + of_nat HDR + ucast (caplen h) then Some ctx
        else case buffer_put (unat (ctx_offset ctx)) (hdr_bytes h) (ctx_buffer ctx) of
               None \<Rightarrow> None
             | Some b \<Rightarrow>
                 let ctx = ctx\<lparr>ctx_buffer := b, ctx_offset := ctx_offset ctx + of_nat HDR\<rparr>
                 in case buffer_put (unat (ctx_offset ctx)) (take (unat (caplen h)) d) (ctx_buffer ctx) of
                      None \<Rightarrow> None
                    | Some b \<Rightarrow> Some (ctx\<lparr>ctx_buffer := b, ctx_offset := ctx_offset ctx + ucast (caplen h),
                                          ctx_count := ctx_count ctx + 1\<rparr>))"

text \<open>\<open>pcap_loop\<close> calls the handler for one packet after the other.\<close>

fun handle_all :: "packet list \<Rightarrow> capture_ctx \<Rightarrow> capture_ctx option" where
  "handle_all [] ctx = Some ctx"
| "handle_all (pk # pks) ctx = (case packet_handler pk ctx of None \<Rightarrow> None | Some ctx \<Rightarrow> handle_all pks ctx)"

section \<open>Capturing\<close>

text \<open>
  What \<open>libpcap\<close> answers: the messages it leaves, whether each call succeeds, and what \<open>pcap_loop\<close>
  delivers for a packet limit (negative for none) and returns. The time-out in milliseconds is given to \<open>pcap_open_live\<close> and belongs to the handle.
\<close>

record pcap_env =
  pc_lookupnet :: "string option"
  pc_open_live :: "s32 \<Rightarrow> string option"
  pc_compile :: "string option"
  pc_setfilter :: "string option"
  pc_loop :: "s32 \<Rightarrow> int \<Rightarrow> packet list \<times> int"
  pc_loop_err :: string

record pcap_state =
  error_buffer :: string
  open_handles :: nat
  filter_programs :: nat

definition set_error :: "string \<Rightarrow> pcap_state \<Rightarrow> pcap_state" where
  "set_error msg s = s\<lparr>error_buffer := take 255 msg\<rparr>"

definition custom_tcpdump_get_error :: "pcap_state \<Rightarrow> string" where
  "custom_tcpdump_get_error s = error_buffer s"

definition pcap_close :: "pcap_state \<Rightarrow> pcap_state" where
  "pcap_close s = s\<lparr>open_handles := open_handles s - 1\<rparr>"

text \<open>Compiling and installing the filter: the result is 0, or the code to return.\<close>

definition install_filter :: "pcap_env \<Rightarrow> string option \<Rightarrow> pcap_state \<Rightarrow> int \<times> pcap_state" where
  "install_filter E custom_filter s =
    (case custom_filter of
       None \<Rightarrow> (0, s)
     | Some f \<Rightarrow>
        if f = [] then (0, s)
        else case pc_compile E of
          Some msg \<Rightarrow> (- 3, pcap_close (set_error (''Couldn't parse filter '' @ [CHR 0x27] @ f @ [CHR 0x27] @ '': '' @ msg) s))
        | None \<Rightarrow>
            let s = s\<lparr>filter_programs := filter_programs s + 1\<rparr>
            in case pc_setfilter E of
              Some msg \<Rightarrow> (- 4, pcap_close ((set_error (''Couldn't install filter '' @ [CHR 0x27] @ f @ [CHR 0x27] @ '': '' @ msg) s)
                                  \<lparr>filter_programs := filter_programs s - 1\<rparr>))
            | None \<Rightarrow> (0, s\<lparr>filter_programs := filter_programs s - 1\<rparr>))"

text \<open>The result is \<open>None\<close> when a write leaves the buffer.\<close>

definition custom_tcpdump_capture ::
  "pcap_env \<Rightarrow> string option \<Rightarrow> string option \<Rightarrow> bytes option \<Rightarrow> u64 \<Rightarrow> s32 \<Rightarrow> s32 \<Rightarrow> pcap_state \<Rightarrow> (int \<times> bytes option \<times> pcap_state) option"
where
  "custom_tcpdump_capture E iface custom_filter buffer buffer_size timeout_ms max_packets s =
    (let s = set_error [] s
     in case (iface, buffer) of
       (Some dev, Some buf) \<Rightarrow>
         if buffer_size = 0 then Some (- 1, buffer, set_error ''Invalid parameters'' s)
         else let ctx = \<lparr>ctx_buffer = buf, ctx_size = buffer_size, ctx_offset = 0, ctx_max = max_packets, ctx_count = 0\<rparr>;
                  s = (case pc_lookupnet E of Some msg \<Rightarrow> set_error (''Warning: '' @ msg) s | None \<Rightarrow> s)
         in case pc_open_live E timeout_ms of
           Some msg \<Rightarrow> Some (- 2, buffer, set_error (''Couldn't open device '' @ dev @ '': '' @ msg) s)
         | None \<Rightarrow>
            let (r, s) = install_filter E custom_filter (s\<lparr>open_handles := open_handles s + 1\<rparr>)
            in if r \<noteq> 0 then Some (r, buffer, s)
            else let (pks, ret) = pc_loop E timeout_ms (if 0 < sint max_packets then sint max_packets else - 1)
            in case handle_all pks ctx of
              None \<Rightarrow> None
            | Some ctx \<Rightarrow>
                if ret = - 1 then Some (- 5, Some (ctx_buffer ctx), pcap_close (set_error (''Error in pcap_loop: '' @ pc_loop_err E) s))
                else let s = (if ret = - 2 then set_error ''Capture interrupted'' s else s)
                     in Some (sint (ctx_count ctx), Some (ctx_buffer ctx), pcap_close s)
     | _ \<Rightarrow> Some (- 1, buffer, set_error ''Invalid parameters'' s))"

section \<open>Printing\<close>

text \<open>One printed packet: number, time stamp, both lengths as the \<open>%d\<close> conversion reads them, and up to 16 bytes.\<close>

record printed =
  pr_number :: nat
  pr_sec :: int
  pr_usec :: int
  pr_caplen :: int
  pr_len :: int
  pr_data :: bytes

definition print_one :: "nat \<Rightarrow> pcap_pkthdr \<Rightarrow> bytes \<Rightarrow> printed" where
  "print_one i h d = \<lparr>pr_number = i + 1, pr_sec = sint (tv_sec h), pr_usec = sint (tv_usec h), pr_caplen = sint (caplen h),
     pr_len = sint (pkt_len h), pr_data = take (min 16 (unat (caplen h))) d\<rparr>"

text \<open>The loop of \<open>print_captured_packets\<close> from packet \<open>i\<close> on; \<open>None\<close> when it reads beyond the buffer.\<close>

fun print_packets :: "nat \<Rightarrow> nat \<Rightarrow> bytes \<Rightarrow> printed list option" where
  "print_packets i 0 ptr = Some []"
| "print_packets i (Suc n) ptr =
    (if length ptr < HDR then None
     else let h = hdr_at ptr; d = drop HDR ptr
          in if length d < min 16 (unat (caplen h)) then None
             else map_option ((#) (print_one i h d)) (print_packets (i + 1) n (drop (unat (caplen h)) d)))"

definition print_captured_packets :: "bytes \<Rightarrow> int \<Rightarrow> printed list option" where
  "print_captured_packets buffer packet_count = print_packets 0 (nat packet_count) buffer"

abbreviation (input) BUFFER_SIZE :: nat where "BUFFER_SIZE \<equiv> 1024 * 1024"

text \<open>\<open>main\<close>: exit status, the packets printed, the state, and whether the buffer is still allocated.\<close>

definition tcpdump_main :: "pcap_env \<Rightarrow> bytes option \<Rightarrow> string list \<Rightarrow> pcap_state \<Rightarrow> (int \<times> printed list \<times> string \<times> bool \<times> pcap_state) option" where
  "tcpdump_main E malloc argv s =
    (case malloc of
       None \<Rightarrow> Some (1, [], '''', False, s)
     | Some buf \<Rightarrow>
        let interface = (if length argv > 1 then argv ! 1 else ''eth0'');
            filter = (if length argv > 2 then argv ! 2 else ''tcp'')
        in case custom_tcpdump_capture E (Some interface) (Some filter) (Some buf) (of_nat BUFFER_SIZE) 1000 10 s of
             None \<Rightarrow> None
           | Some (r, b, s) \<Rightarrow>
               if r < 0 then Some (1, [], custom_tcpdump_get_error s, False, s)
               else case print_captured_packets (case b of None \<Rightarrow> buf | Some x \<Rightarrow> x) r of
                      None \<Rightarrow> None
                    | Some out \<Rightarrow> Some (0, out, '''', False, s))"


section \<open>What is stored\<close>

text \<open>The packets that find room, in order, and their bytes.\<close>

fun stored :: "int \<Rightarrow> nat \<Rightarrow> nat \<Rightarrow> nat \<Rightarrow> packet list \<Rightarrow> packet list" where
  "stored maxp sz off cnt [] = []"
| "stored maxp sz off cnt (pk # pks) =
    (if 0 < maxp \<and> maxp \<le> int cnt \<or> sz < off + HDR + unat (caplen (fst pk)) then stored maxp sz off cnt pks
     else pk # stored maxp sz (off + HDR + unat (caplen (fst pk))) (cnt + 1) pks)"

definition packet_bytes :: "packet \<Rightarrow> bytes" where
  "packet_bytes pk = hdr_bytes (fst pk) @ take (unat (caplen (fst pk))) (snd pk)"

definition packet_ok :: "packet \<Rightarrow> bool" where
  "packet_ok pk \<longleftrightarrow> unat (caplen (fst pk)) \<le> length (snd pk)"

lemma length_hdr_bytes [simp]: "length (hdr_bytes h) = HDR"
  by (simp add: hdr_bytes_def)

lemma hdr_roundtrip [simp]: "hdr_at (hdr_bytes h @ rest) = h"
  by (cases h) (simp add: hdr_at_def hdr_bytes_def le_word_le_bytes)

lemma length_packet_bytes: "packet_ok pk \<Longrightarrow> length (packet_bytes pk) = HDR + unat (caplen (fst pk))"
  by (simp add: packet_bytes_def packet_ok_def)




lemma unat_offset_sum:
  assumes "unat off + HDR + unat c < 2 ^ 64"
  shows "unat (off + of_nat HDR + ucast (c :: u32) :: u64) = unat off + HDR + unat c" "unat (off + of_nat HDR) = unat off + HDR"
  using assms by (simp_all add: unat_word_ariths)


text \<open>Handling a list of packets appends the bytes of those that find room, and nothing else.\<close>

definition ctx_holds :: "bytes \<Rightarrow> packet list \<Rightarrow> capture_ctx \<Rightarrow> bool" where
  "ctx_holds buf acc ctx \<longleftrightarrow>
     ctx_buffer ctx = concat (map packet_bytes acc) @ drop (length (concat (map packet_bytes acc))) buf \<and>
     unat (ctx_offset ctx) = length (concat (map packet_bytes acc)) \<and> unat (ctx_offset ctx) \<le> length buf \<and>
     unat (ctx_size ctx) = length buf \<and> sint (ctx_count ctx) = int (length acc)"

lemma store_append:
  assumes "length a + length b \<le> length buf"
  shows "store_at (length a) b (a @ drop (length a) buf) = (a @ b) @ drop (length (a @ b)) buf"
  using assms by (simp add: store_at_def add.commute)

lemma packet_handler_store:
  assumes i: "ctx_holds buf acc ctx" and ok: "packet_ok pk" and len: "length buf < 2 ^ 63" and n: "length acc + 1 < 2 ^ 31"
  shows "if 0 < sint (ctx_max ctx) \<and> sint (ctx_max ctx) \<le> int (length acc) \<or>
      length buf < unat (ctx_offset ctx) + HDR + unat (caplen (fst pk)) then packet_handler pk ctx = Some ctx
    else \<exists>ctx'. packet_handler pk ctx = Some ctx' \<and> ctx_holds buf (acc @ [pk]) ctx' \<and> ctx_max ctx' = ctx_max ctx \<and>
      unat (ctx_offset ctx') = unat (ctx_offset ctx) + HDR + unat (caplen (fst pk))"
proof -
  obtain h d where pk: "pk = (h, d)" by fastforce
  let ?a = "concat (map packet_bytes acc)" and ?c = "caplen h"
  note i' = i [unfolded ctx_holds_def]
  have c: "unat ?c < 2 ^ 32" by (rule unat_u32_less)
  have sum: "unat (ctx_offset ctx) + HDR + unat ?c < 2 ^ 64" using i' len c by simp
  note u = unat_offset_sum [OF sum]
  have test: "ctx_size ctx < ctx_offset ctx + of_nat HDR + ucast ?c \<longleftrightarrow> length buf < unat (ctx_offset ctx) + HDR + unat ?c"
    using i' u(1) by (simp add: word_less_nat_alt)
  show ?thesis
  proof (cases "0 < sint (ctx_max ctx) \<and> sint (ctx_max ctx) \<le> int (length acc) \<or> length buf < unat (ctx_offset ctx) + HDR + unat ?c")
    case True
    then show ?thesis using i' test by (auto simp: packet_handler_def pk Let_def)
  next
    case False
    let ?d = "take (unat ?c) d"
    have ld: "length ?d = unat ?c" using ok pk by (simp add: packet_ok_def)
    have fit: "length ?a + HDR + unat ?c \<le> length buf" using False i' by simp
    have b1: "buffer_put (unat (ctx_offset ctx)) (hdr_bytes h) (ctx_buffer ctx) =
        Some ((?a @ hdr_bytes h) @ drop (length (?a @ hdr_bytes h)) buf)"
      using i' fit store_append [of ?a "hdr_bytes h" buf] by (simp add: buffer_put_def)
    have b2: "buffer_put (unat (ctx_offset ctx + of_nat HDR)) ?d ((?a @ hdr_bytes h) @ drop (length (?a @ hdr_bytes h)) buf) =
        Some (((?a @ hdr_bytes h) @ ?d) @ drop (length ((?a @ hdr_bytes h) @ ?d)) buf)"
      using i' fit u(2) ld store_append [of "?a @ hdr_bytes h" ?d buf] by (simp add: buffer_put_def)
    have cnt: "sint (ctx_count ctx + 1) = int (length acc) + 1"
      using i' n by (simp add: sint_word_ariths signed_take_bit_int_eq_self)
    define ctx' where "ctx' = ctx\<lparr>ctx_buffer := ((?a @ hdr_bytes h) @ ?d) @ drop (length ((?a @ hdr_bytes h) @ ?d)) buf,
      ctx_offset := ctx_offset ctx + of_nat HDR + ucast ?c, ctx_count := ctx_count ctx + 1\<rparr>"
    have "packet_handler pk ctx = Some ctx'"
      using False test b1 b2 i' unfolding packet_handler_def pk Let_def ctx'_def by auto
    moreover have "ctx_holds buf (acc @ [pk]) ctx'"
      using i' u(1) fit ld cnt unfolding ctx_holds_def ctx'_def by (simp add: packet_bytes_def pk)
    moreover have "ctx_max ctx' = ctx_max ctx" "unat (ctx_offset ctx') = unat (ctx_offset ctx) + HDR + unat ?c"
      using u(1) by (simp_all add: ctx'_def)
    ultimately show ?thesis unfolding pk fst_conv if_not_P [OF False] by blast
  qed
qed


lemma handle_all_stored:
  assumes "ctx_holds buf acc ctx" "\<forall>pk \<in> set pks. packet_ok pk" "length buf < 2 ^ 63" "length acc + length pks < 2 ^ 31"
  shows "\<exists>ctx'. handle_all pks ctx = Some ctx' \<and>
    ctx_holds buf (acc @ stored (sint (ctx_max ctx)) (length buf) (unat (ctx_offset ctx)) (length acc) pks) ctx'"
  using assms
proof (induction pks arbitrary: acc ctx)
  case Nil
  then show ?case by simp
next
  case (Cons pk pks)
  have n: "length acc + 1 < 2 ^ 31" and ok: "packet_ok pk" using Cons.prems by simp_all
  note h = packet_handler_store [OF Cons.prems(1) ok Cons.prems(3) n]
  show ?case
  proof (cases "0 < sint (ctx_max ctx) \<and> sint (ctx_max ctx) \<le> int (length acc) \<or> length buf < unat (ctx_offset ctx) + HDR + unat (caplen (fst pk))")
    case True
    then have "packet_handler pk ctx = Some ctx" using h by simp
    moreover have "length acc + length pks < 2 ^ 31" using Cons.prems(4) by simp
    ultimately show ?thesis using Cons.IH [OF Cons.prems(1) _ Cons.prems(3)] Cons.prems(2) True by simp
  next
    case False
    then obtain ctx' where c: "packet_handler pk ctx = Some ctx'" "ctx_holds buf (acc @ [pk]) ctx'" "ctx_max ctx' = ctx_max ctx"
        "unat (ctx_offset ctx') = unat (ctx_offset ctx) + HDR + unat (caplen (fst pk))"
      using h by auto
    have "length (acc @ [pk]) + length pks < 2 ^ 31" using Cons.prems(4) by simp
    then show ?thesis using Cons.IH [OF c(2) _ Cons.prems(3)] Cons.prems(2) False c by auto
  qed
qed

lemma ctx_holds_init:
  "length buf = unat sz \<Longrightarrow> ctx_holds buf [] \<lparr>ctx_buffer = buf, ctx_size = sz, ctx_offset = 0, ctx_max = m, ctx_count = 0\<rparr>"
  by (simp add: ctx_holds_def)


lemma install_filter_balanced:
  assumes "install_filter E f s = (r, s')" "open_handles s = n + 1"
  shows "r \<le> 0 \<and> open_handles s' = (if r = 0 then n + 1 else n) \<and> filter_programs s' = filter_programs s"
  using assms by (auto simp: install_filter_def pcap_close_def set_error_def Let_def split: option.splits if_splits)

text \<open>What \<open>libpcap\<close> documents of \<open>pcap_loop\<close>: at least the captured length is readable, and a positive limit is kept.\<close>

definition pcap_loop_ok :: "pcap_env \<Rightarrow> bool" where
  "pcap_loop_ok E \<longleftrightarrow> (\<forall>tmo cnt. (\<forall>pk \<in> set (fst (pc_loop E tmo cnt)). packet_ok pk) \<and> (0 < cnt \<longrightarrow> int (length (fst (pc_loop E tmo cnt))) \<le> cnt) \<and>
     length (fst (pc_loop E tmo cnt)) < 2 ^ 31)"

lemma capture_handles:
  assumes "pcap_loop_ok E" "length buf = unat sz" "unat sz < 2 ^ 63"
  shows "\<exists>ctx. handle_all (fst (pc_loop E tmo (if 0 < sint m then sint m else - 1)))
      \<lparr>ctx_buffer = buf, ctx_size = sz, ctx_offset = 0, ctx_max = m, ctx_count = 0\<rparr> = Some ctx \<and>
    ctx_holds buf (stored (sint m) (length buf) 0 0 (fst (pc_loop E tmo (if 0 < sint m then sint m else - 1)))) ctx"
proof -
  let ?cnt = "if 0 < sint m then sint m else - 1"
  have ok: "\<forall>pk \<in> set (fst (pc_loop E tmo ?cnt)). packet_ok pk" "length (fst (pc_loop E tmo ?cnt)) < 2 ^ 31"
    using assms(1) unfolding pcap_loop_ok_def by blast+
  then show ?thesis using handle_all_stored [OF ctx_holds_init [OF assms(2)] ok(1), of m] assms(2,3) by auto
qed

section \<open>Properties\<close>


text \<open>
  A capture always returns, with the code of the first call that failed or a count, and gives back
  the handle and the compiled filter on every path.
\<close>

theorem capture_balanced:
  assumes "pcap_loop_ok E" and "length buf = unat sz" and "unat sz < 2 ^ 63"
  shows "\<exists>n b s'. custom_tcpdump_capture E dev f (Some buf) sz tmo m s = Some (n, b, s') \<and> - 5 \<le> n \<and>
    open_handles s' = open_handles s \<and> filter_programs s' = filter_programs s \<and>
    (n = - 1 \<longleftrightarrow> dev = None \<or> sz = 0) \<and> (n < 0 \<longrightarrow> error_buffer s' \<noteq> [])"
proof (cases "dev = None \<or> sz = 0")
  case True
  then show ?thesis by (cases dev) (auto simp: custom_tcpdump_capture_def set_error_def Let_def)
next
  case False
  then obtain d where d: "dev = Some d" "sz \<noteq> 0" by auto
  obtain ctx where ctx: "handle_all (fst (pc_loop E tmo (if 0 < sint m then sint m else - 1)))
        \<lparr>ctx_buffer = buf, ctx_size = sz, ctx_offset = 0, ctx_max = m, ctx_count = 0\<rparr> = Some ctx" "0 \<le> sint (ctx_count ctx)"
    using capture_handles [OF assms, of tmo m] unfolding ctx_holds_def by auto
  show ?thesis
  proof (cases "pc_open_live E tmo")
    case (Some msg)
    then show ?thesis using d by (cases "pc_lookupnet E") (simp_all add: custom_tcpdump_capture_def set_error_def Let_def)
  next
    case None
    let ?s = "(case pc_lookupnet E of Some msg \<Rightarrow> set_error (''Warning: '' @ msg) (set_error [] s) | None \<Rightarrow> set_error [] s)"
    obtain r s1 where f: "install_filter E f (?s\<lparr>open_handles := open_handles ?s + 1\<rparr>) = (r, s1)" by fastforce
    have h: "open_handles ?s = open_handles s" "filter_programs ?s = filter_programs s" by (simp_all add: set_error_def split: option.split)
    have b: "open_handles s1 = (if r = 0 then open_handles s + 1 else open_handles s)" "filter_programs s1 = filter_programs s"
      using install_filter_balanced [OF f, of "open_handles s"] h by simp_all
    have e: "r \<noteq> 0 \<Longrightarrow> r \<in> {- 3, - 4} \<and> error_buffer s1 \<noteq> []"
      using f by (auto simp: install_filter_def pcap_close_def set_error_def Let_def split: option.splits if_splits)
    have run: "custom_tcpdump_capture E dev f (Some buf) sz tmo m s = (if r \<noteq> 0 then Some (r, Some buf, s1)
        else let ret = snd (pc_loop E tmo (if 0 < sint m then sint m else - 1)) in
          if ret = - 1 then Some (- 5, Some (ctx_buffer ctx), pcap_close (set_error (''Error in pcap_loop: '' @ pc_loop_err E) s1))
          else Some (sint (ctx_count ctx), Some (ctx_buffer ctx), pcap_close (if ret = - 2 then set_error ''Capture interrupted'' s1 else s1)))"
      using d None f ctx(1) by (simp add: custom_tcpdump_capture_def case_prod_unfold Let_def)
    show ?thesis unfolding run Let_def using b e ctx(2) d by (auto simp: pcap_close_def set_error_def)
  qed
qed


text \<open>
  A full buffer does not end a capture, whatever the time-out: with a buffer too small for the first
  packet the capture goes on, drops that packet, and stores a later one that is small enough.
\<close>

theorem full_buffer_keeps_capturing:
  assumes "pcap_loop_ok E" and "length buf = unat sz" and "unat sz < 2 ^ 63" and "sint m \<le> 0"
    and "pc_loop E tmo (- 1) = ([big, small], 0)" and "unat sz < HDR + unat (caplen (fst big))" and "HDR + unat (caplen (fst small)) \<le> unat sz"
    and "pc_open_live E tmo = None" and "f = None"
  shows "\<exists>s'. custom_tcpdump_capture E (Some dev) f (Some buf) sz tmo m s =
    Some (1, Some (packet_bytes small @ drop (length (packet_bytes small)) buf), s')"
proof -
  have st: "stored (sint m) (length buf) 0 0 [big, small] = [small]" using assms(2,4,6,7) by simp
  obtain ctx where ctx: "handle_all [big, small] \<lparr>ctx_buffer = buf, ctx_size = sz, ctx_offset = 0, ctx_max = m, ctx_count = 0\<rparr> = Some ctx"
      "ctx_holds buf [small] ctx"
    using capture_handles [OF assms(1-3), of tmo m] assms(4,5) st by auto
  have "sz \<noteq> 0" using assms(7) by auto
  then show ?thesis using ctx assms(4,5,8,9)
    by (simp add: custom_tcpdump_capture_def install_filter_def Let_def ctx_holds_def split: option.split)
qed

text \<open>A small capture for the witnesses.\<close>

definition example_packet :: "u32 \<Rightarrow> packet" where
  "example_packet n = (\<lparr>tv_sec = 7, tv_usec = 9, caplen = n, pkt_len = 60\<rparr>, [1, 2, 3, 4, 5, 6, 7, 8])"

definition example_pcap :: pcap_env where
  "example_pcap = \<lparr>pc_lookupnet = None, pc_open_live = (\<lambda>_. None), pc_compile = None, pc_setfilter = None,
     pc_loop = (\<lambda>_ n. if n < 0 then ([example_packet 8, example_packet 2], 0) else ([example_packet 2], 0)), pc_loop_err = []\<rparr>"

definition example_pstate :: pcap_state where
  "example_pstate = \<lparr>error_buffer = [], open_handles = 0, filter_programs = 0\<rparr>"

lemma example_pcap_ok: "pcap_loop_ok example_pcap"
  by (simp add: pcap_loop_ok_def example_pcap_def example_packet_def packet_ok_def)

theorem capture_balanced_witness:
  "\<exists>n b s'. custom_tcpdump_capture example_pcap (Some ''eth0'') None (Some (replicate 30 0)) 30 1000 1 example_pstate = Some (n, b, s') \<and>
     - 5 \<le> n \<and> n \<noteq> - 1 \<and> open_handles s' = 0 \<and> filter_programs s' = 0"
  using capture_balanced [OF example_pcap_ok, of "replicate 30 0" 30 "Some ''eth0''" None 1000 1 example_pstate]
  by (auto simp: example_pstate_def)

theorem full_buffer_keeps_capturing_witness:
  "\<exists>s'. custom_tcpdump_capture example_pcap (Some ''eth0'') None (Some (replicate 26 0)) 26 1000 0 example_pstate =
    Some (1, Some (packet_bytes (example_packet 2)), s')"
proof -
  have l: "length (packet_bytes (example_packet 2)) = 26" by (simp add: packet_bytes_def example_packet_def)
  show ?thesis
    using full_buffer_keeps_capturing [OF example_pcap_ok, of "replicate 26 0" 26 0 1000 "example_packet 8" "example_packet 2" None "''eth0''" example_pstate] l
    by (simp add: example_pcap_def example_packet_def)
qed


end
