(* ===== verification/Socket_Fairness.thy ===== *)
theory Socket_Fairness
  imports Fork_Correct
begin

text \<open>
  The system call \<open>configure_socket_fairness\<close> (kernel/configure_socket_fairness.c), which sets the socket
  limit and priority of a task, and the program that exercises it (network/socket/socket_test.c).
\<close>

section \<open>The system call\<close>

text \<open>
  The environment of one call, which depends on the caller and on the moment: \<open>find_task\<close> stands for \<open>find_task_by_vpid\<close> in the caller's pid
  namespace, \<open>cap_admin\<close> for \<open>capable(CAP_SYS_ADMIN)\<close>, \<open>same_group\<close> for \<open>same_thread_group\<close>. The state counts the RCU read
  sections and the task locks that are held.
\<close>

record fair_env =
  find_task :: "s32 \<Rightarrow> addr"
  cap_admin :: bool
  same_group :: "addr \<Rightarrow> addr \<Rightarrow> bool"

record fair_state = fork_state +
  rcu_depth :: nat
  task_locks :: "addr multiset"

definition fair_set :: "addr \<Rightarrow> s32 \<Rightarrow> s32 \<Rightarrow> fair_state \<Rightarrow> fair_state" where
  "fair_set p m l s = s\<lparr>tasks := (tasks s)(p := map_option (\<lambda>t. t\<lparr>max_socket_allowed := m, priority_level := l\<rparr>) (tasks s p))\<rparr>"

definition configure_socket_fairness :: "fair_env \<Rightarrow> addr \<Rightarrow> s32 \<Rightarrow> s32 \<Rightarrow> s32 \<Rightarrow> fair_state \<Rightarrow> int \<times> fair_state" where
  "configure_socket_fairness E cur nr max_allowed level s =
    (if sint max_allowed < 0 \<or> sint level < 0 then (- EINVAL, s)
     else let s = s\<lparr>rcu_depth := rcu_depth s + 1\<rparr>;
              task = find_task E nr
     in if task = NULL then (- ESRCH, s\<lparr>rcu_depth := rcu_depth s - 1\<rparr>)
        else if \<not> cap_admin E \<and> \<not> same_group E cur task then (- EPERM, s\<lparr>rcu_depth := rcu_depth s - 1\<rparr>)
        else let s = s\<lparr>task_locks := add_mset task (task_locks s)\<rparr>;
                 s = fair_set task max_allowed level s;
                 s = s\<lparr>task_locks := task_locks s - {#task#}\<rparr>
             in (0, s\<lparr>rcu_depth := rcu_depth s - 1\<rparr>))"

section \<open>The test program\<close>

text \<open>The wrapper; pid 0 stands for the calling thread \<open>tid\<close>. The second component is \<open>errno\<close>.\<close>

definition set_thread_socket_attrs :: "fair_env \<Rightarrow> addr \<Rightarrow> s32 \<Rightarrow> s32 \<Rightarrow> s32 \<Rightarrow> s32 \<Rightarrow> fair_state \<Rightarrow> (int \<times> int option) \<times> fair_state" where
  "set_thread_socket_attrs E cur tid nr max_sockets level s =
    (let nr = (if nr = 0 then tid else nr); (r, s) = configure_socket_fairness E cur nr max_sockets level s
     in (libc_syscall r, s))"

text \<open>
  \<open>create_sockets\<close>: the results of the calls of \<open>socket\<close> are given one after the other, \<open>junk\<close> is what
  \<open>malloc\<close> returned. The loop stores a result and ends at the first negative one.
\<close>

fun create_loop :: "nat \<Rightarrow> int list \<Rightarrow> int list \<Rightarrow> int list" where
  "create_loop i (r # rs) fds = (let fds = fds[i := r] in if r < 0 then fds else create_loop (i + 1) rs fds)"
| "create_loop i [] fds = fds"

definition create_sockets :: "int list \<Rightarrow> int list option \<Rightarrow> nat \<Rightarrow> int list option" where
  "create_sockets results malloc cnt = map_option (create_loop 0 (take cnt results)) malloc"

text \<open>The descriptors that \<open>close_sockets\<close> closes, in order.\<close>

fun close_loop :: "nat \<Rightarrow> int list \<Rightarrow> int list" where
  "close_loop 0 fds = []"
| "close_loop (Suc n) [] = []"
| "close_loop (Suc n) (fd # fds) = (if 0 \<le> fd then [fd] else []) @ close_loop n fds"

definition close_sockets :: "int list option \<Rightarrow> nat \<Rightarrow> int list" where
  "close_sockets sock_fds cnt = (case sock_fds of None \<Rightarrow> [] | Some fds \<Rightarrow> close_loop cnt fds)"

text \<open>A thread of the test: its limit, the sockets it asks for and the descriptors it closes.\<close>

definition thread_socket_test ::
  "fair_env \<Rightarrow> addr \<Rightarrow> s32 \<Rightarrow> nat \<Rightarrow> int list \<Rightarrow> int list option \<Rightarrow> fair_state \<Rightarrow> int list \<times> fair_state" where
  "thread_socket_test E cur tid limit results malloc s =
    (let ((r, _), s) = set_thread_socket_attrs E cur tid 0 (of_nat limit) 80 s
     in if r < 0 then ([], s) else (close_sockets (create_sockets results malloc (limit + 2)) (limit + 2), s))"

section \<open>Facts\<close>

lemma create_loop_eq:
  "i + length rs \<le> length fds \<Longrightarrow> create_loop i rs fds =
     (let n = length (takeWhile (\<lambda>r. 0 \<le> r) rs); k = min (n + 1) (length rs)
      in take i fds @ take k rs @ drop (i + k) fds)"
proof (induction i rs fds rule: create_loop.induct)
  case (1 i r rs fds)
  show ?case
  proof (cases "r < 0")
    case True
    then show ?thesis using 1(2) by (simp add: upd_conv_take_nth_drop)
  next
    case False
    have "i < length fds" using 1(2) by simp
    then have e: "take (Suc i) (fds[i := r]) = take i fds @ [r]" by (simp add: take_Suc_conv_app_nth)
    show ?thesis using 1 False e by (simp add: Let_def not_less [symmetric])
  qed
qed (simp)

lemma close_loop_eq: "close_loop n fds = filter (\<lambda>fd. 0 \<le> fd) (take n fds)"
  by (induction n fds rule: close_loop.induct) auto


text \<open>A history of calls: the environment, the calling task, the pid and the two values of each.\<close>

type_synonym fair_call = "fair_env \<times> addr \<times> s32 \<times> s32 \<times> s32"

fun fair_run :: "fair_call list \<Rightarrow> fair_state \<Rightarrow> int list \<times> fair_state" where
  "fair_run [] s = ([], s)"
| "fair_run ((E, cur, nr, m, l) # cs) s =
    (let (r, s) = configure_socket_fairness E cur nr m l s; (rs, s) = fair_run cs s in (r # rs, s))"

text \<open>The result that the arguments and the permissions of the caller determine, the task that a call names, and its two values.\<close>

fun fair_error :: "fair_call \<Rightarrow> int" where
  "fair_error (E, cur, nr, m, l) =
    (if sint m < 0 \<or> sint l < 0 then - EINVAL else if find_task E nr = NULL then - ESRCH
     else if cap_admin E \<or> same_group E cur (find_task E nr) then 0 else - EPERM)"

fun fair_named :: "fair_call \<Rightarrow> addr" where
  "fair_named (E, cur, nr, m, l) = find_task E nr"

fun fair_vals :: "fair_call \<Rightarrow> s32 \<times> s32" where
  "fair_vals (E, cur, nr, m, l) = (m, l)"

definition fair_target :: "addr \<Rightarrow> fair_call \<Rightarrow> bool" where
  "fair_target p c \<longleftrightarrow> fair_error c = 0 \<and> fair_named c = p"

definition fair_values :: "fair_call list \<Rightarrow> addr \<Rightarrow> s32 \<times> s32 \<Rightarrow> s32 \<times> s32" where
  "fair_values cs p v = fold (\<lambda>c w. if fair_target p c then fair_vals c else w) cs v"

text \<open>The permitted calls that name a task of the group of \<open>p\<close>.\<close>

definition group_calls :: "(addr \<Rightarrow> addr \<Rightarrow> bool) \<Rightarrow> addr \<Rightarrow> fair_call list \<Rightarrow> fair_call list" where
  "group_calls G p cs = filter (\<lambda>c. fair_error c = 0 \<and> G (fair_named c) p) cs"

definition with_limits :: "s32 \<times> s32 \<Rightarrow> task_struct \<Rightarrow> task_struct" where
  "with_limits v t = t\<lparr>max_socket_allowed := fst v, priority_level := snd v\<rparr>"

lemma configure_eq:
  "configure_socket_fairness E cur nr m l s = (fair_error (E, cur, nr, m, l),
     if fair_error (E, cur, nr, m, l) = 0 then fair_set (find_task E nr) m l s else s)"
  by (cases s) (simp add: configure_socket_fairness_def fair_set_def Let_def)

lemma limits_twice: "with_limits v (with_limits w t) = with_limits v t"
  by (simp add: with_limits_def)

lemma fair_set_task:
  "tasks (fair_set q m l s) p = (if q = p then map_option (with_limits (m, l)) (tasks s p) else tasks s p)"
  by (simp add: fair_set_def with_limits_def [abs_def])

lemma fair_run_eq:
  "fst (fair_run cs s) = map fair_error cs \<and> (\<exists>T. snd (fair_run cs s) = s\<lparr>tasks := T\<rparr>) \<and>
   tasks (snd (fair_run cs s)) p = map_option (\<lambda>t. with_limits (fair_values cs p (max_socket_allowed t, priority_level t)) t) (tasks s p)"
proof (induction cs arbitrary: s)
  case Nil
  show ?case by (cases s; cases "tasks s p") (auto simp: fair_values_def with_limits_def)
next
  case (Cons c cs)
  obtain E cur nr m l where c: "c = (E, cur, nr, m, l)" by (metis prod_cases5)
  let ?s = "if fair_error c = 0 then fair_set (find_task E nr) m l s else s"
  have r: "fair_run (c # cs) s = (fair_error c # fst (fair_run cs ?s), snd (fair_run cs ?s))"
    unfolding c fair_run.simps configure_eq by (simp add: case_prod_unfold Let_def del: fair_error.simps)
  have e: "\<exists>T. ?s = s\<lparr>tasks := T\<rparr>" by (cases s) (auto simp: fair_set_def)
  have t: "map_option (\<lambda>t. with_limits (fair_values cs p (max_socket_allowed t, priority_level t)) t) (tasks ?s p) =
      map_option (\<lambda>t. with_limits (fair_values (c # cs) p (max_socket_allowed t, priority_level t)) t) (tasks s p)"
    by (cases "tasks s p") (auto simp: c fair_set_task fair_values_def fair_target_def limits_twice with_limits_def simp del: fair_error.simps)
  show ?case using Cons.IH [of ?s] e unfolding r t by force
qed

lemma fair_values_nonneg:
  "0 \<le> sint (fst v) \<and> 0 \<le> sint (snd v) \<Longrightarrow> 0 \<le> sint (fst (fair_values cs p v)) \<and> 0 \<le> sint (snd (fair_values cs p v))"
  unfolding fair_values_def by (induction cs arbitrary: v) (auto simp: fair_target_def split: if_splits)

text \<open>Calls for other groups do not count; of those for the group, the last one does if it names \<open>p\<close>.\<close>

lemma fair_values_group:
  assumes "G p p" and "group_calls G p cs = [] \<or> fair_named (last (group_calls G p cs)) = p"
  shows "fair_values cs p v = (if group_calls G p cs = [] then v else fair_vals (last (group_calls G p cs)))"
  using assms(2)
proof (induction cs rule: rev_induct)
  case (snoc c cs)
  show ?case
  proof (cases "fair_error c = 0 \<and> G (fair_named c) p")
    case True
    then show ?thesis using snoc.prems by (simp add: group_calls_def fair_values_def fair_target_def)
  next
    case False
    then have "group_calls G p (cs @ [c]) = group_calls G p cs" "\<not> fair_target p c"
      using assms(1) by (auto simp: group_calls_def fair_target_def)
    then show ?thesis using snoc by (simp add: fair_values_def)
  qed
qed (simp add: group_calls_def fair_values_def)

text \<open>
  Each task has the values of the last permitted call that names it. Other threads of the process keep theirs, although the comment of the call
  speaks of the limits of a process.
\<close>

lemma fairness_per_task:
  assumes "fair_run cs s = (rs, s')"
  shows "tasks s' p = map_option (\<lambda>t. with_limits (fair_values cs p (max_socket_allowed t, priority_level t)) t) (tasks s p)"
  using fair_run_eq [of cs s p] assms by simp

section \<open>Properties\<close>

text \<open>
  C17: along any history of calls, by any callers with any permissions and pid namespaces, each call returns the error that its arguments and the
  permissions of its caller determine. A process for which no call was permitted keeps its limits, and the task that is named by the last permitted
  call for its process has the values of that call; so the limits of a process with one thread are always those of the last permitted
  call. Limits that were not negative stay so; nothing else of a task or of the state changes, and no lock is left held.
\<close>

theorem fairness_history:
  assumes "fair_run cs s = (rs, s')" and "\<forall>p. G p p"
  shows "rs = map fair_error cs \<and> rcu_depth s' = rcu_depth s \<and> task_locks s' = task_locks s \<and> (\<exists>T. s' = s\<lparr>tasks := T\<rparr>) \<and>
    (\<forall>p t. tasks s p = Some t \<and> (group_calls G p cs = [] \<or> fair_named (last (group_calls G p cs)) = p) \<longrightarrow>
       tasks s' p = Some (if group_calls G p cs = [] then t else with_limits (fair_vals (last (group_calls G p cs))) t)) \<and>
    (\<forall>p. \<exists>f. tasks s' p = map_option (\<lambda>t. with_limits (f t) t) (tasks s p) \<and>
       (\<forall>t. 0 \<le> sint (max_socket_allowed t) \<and> 0 \<le> sint (priority_level t) \<longrightarrow> 0 \<le> sint (fst (f t)) \<and> 0 \<le> sint (snd (f t))))"
proof -
  obtain T where T: "s' = s\<lparr>tasks := T\<rparr>" using fair_run_eq [of cs s] assms(1) by auto
  note t = fairness_per_task [OF assms(1)]
  have "tasks s' p = Some (if group_calls G p cs = [] then t else with_limits (fair_vals (last (group_calls G p cs))) t)"
    if "tasks s p = Some t \<and> (group_calls G p cs = [] \<or> fair_named (last (group_calls G p cs)) = p)" for p t
    using that t [of p] fair_values_group [of G p cs "(max_socket_allowed t, priority_level t)"] assms(2) by (auto simp: with_limits_def)
  moreover have "\<exists>f. tasks s' p = map_option (\<lambda>t. with_limits (f t) t) (tasks s p) \<and>
       (\<forall>t. 0 \<le> sint (max_socket_allowed t) \<and> 0 \<le> sint (priority_level t) \<longrightarrow> 0 \<le> sint (fst (f t)) \<and> 0 \<le> sint (snd (f t)))" for p
    by (rule exI [of _ "\<lambda>t. fair_values cs p (max_socket_allowed t, priority_level t)"]) (use t fair_values_nonneg in simp)
  moreover have "rs = map fair_error cs" using fair_run_eq [of cs s] assms(1) by simp
  moreover have "rcu_depth s' = rcu_depth s" "task_locks s' = task_locks s" "\<exists>T. s' = s\<lparr>tasks := T\<rparr>" using T by auto
  ultimately show ?thesis by blast
qed

text \<open>
  The descriptors closed after a test. If every \<open>socket\<close> call succeeds these are the sockets. If the
  call with index \<open>k\<close> fails, \<open>close_sockets\<close> goes on with the entries behind it, which nobody has written,
  and closes whatever non-negative numbers \<open>malloc\<close> left there.
\<close>

theorem close_after_create:
  assumes "length junk = n" and "length rs = n"
  shows "(if \<forall>r \<in> set rs. 0 \<le> r then close_sockets (create_sockets rs (Some junk) n) n = rs
    else \<exists>k < n. rs ! k < 0 \<and> (\<forall>i < k. 0 \<le> rs ! i) \<and>
      close_sockets (create_sockets rs (Some junk) n) n = take k rs @ filter (\<lambda>fd. 0 \<le> fd) (drop (k + 1) junk))"
proof (cases "\<forall>r \<in> set rs. 0 \<le> r")
  case True
  then have "length (takeWhile (\<lambda>r. 0 \<le> r) rs) = length rs" "filter (\<lambda>fd. 0 \<le> fd) rs = rs" by (simp_all add: takeWhile_eq_all_conv [THEN iffD2])
  then have "create_loop 0 rs junk = rs" "filter (\<lambda>fd. 0 \<le> fd) rs = rs"
    using assms create_loop_eq [of 0 rs junk] unfolding Let_def by simp_all
  then show ?thesis using True assms by (simp add: close_sockets_def create_sockets_def close_loop_eq)
next
  case False
  let ?k = "length (takeWhile (\<lambda>r. 0 \<le> r) rs)"
  have k: "?k < length rs" using False by (metis length_takeWhile_le nat_less_le takeWhile_eq_all_conv takeWhile_eq_take take_all_iff)
  have neg: "rs ! ?k < 0" using nth_length_takeWhile [OF k] by simp
  have pre: "take ?k rs = takeWhile (\<lambda>r. 0 \<le> r) rs" by (simp add: takeWhile_eq_take [symmetric])
  have pos: "\<forall>i < ?k. 0 \<le> rs ! i" using takeWhile_nth [of _ "\<lambda>r. 0 \<le> r" rs] nth_mem set_takeWhileD by metis
  have "take (?k + 1) rs = take ?k rs @ [rs ! ?k]" using k by (simp add: take_Suc_conv_app_nth)
  then have "create_loop 0 rs junk = (take ?k rs @ [rs ! ?k]) @ drop (?k + 1) junk"
    using create_loop_eq [of 0 rs junk] assms k by (simp add: Let_def min_def)
  moreover have "filter (\<lambda>fd. 0 \<le> fd) (take ?k rs) = take ?k rs" unfolding pre by (metis filter_True set_takeWhileD)
  ultimately have "close_sockets (create_sockets rs (Some junk) n) n = take ?k rs @ filter (\<lambda>fd. 0 \<le> fd) (drop (?k + 1) junk)"
    using assms neg k by (simp add: close_sockets_def create_sockets_def close_loop_eq)
  then show ?thesis using False k neg pos assms by auto
qed

theorem close_after_create_witness:
  "close_sockets (create_sockets [5, - 24, 0, 0] (Some [0, 0, 1, 2]) 4) 4 = [5, 1, 2]"
proof -
  obtain k where k: "k < 4" "[5, - 24, 0, 0 :: int] ! k < 0" "\<forall>i < k. 0 \<le> [5, - 24, 0, 0 :: int] ! i"
      "close_sockets (create_sockets [5, - 24, 0, 0] (Some [0, 0, 1, 2]) 4) 4 =
       take k [5, - 24, 0, 0] @ filter (\<lambda>fd. 0 \<le> fd) (drop (k + 1) [0, 0, 1, 2])"
    using close_after_create [of "[0, 0, 1, 2]" 4 "[5, - 24, 0, 0]"] by auto
  then have "k = 1" by (auto simp: less_Suc_eq numeral_eq_Suc nth_Cons split: nat.splits)
  then show ?thesis using k(4) by simp
qed

definition example_fair :: "bool \<Rightarrow> fair_env" where
  "example_fair admin = \<lparr>find_task = (\<lambda>n. if n = 4 then 8 else NULL), cap_admin = admin, same_group = (=)\<rparr>"

lemma example_fair_named: "find_task (example_fair a) 4 = 8"
  by (simp add: example_fair_def)

definition example_fair_state :: fair_state where
  "example_fair_state = fork_state.extend example_fork_state \<lparr>rcu_depth = 0, task_locks = {#}\<rparr>"

theorem fairness_history_witness:
  "\<exists>s'. fair_run [(example_fair False, 8, 4, 10, 50), (example_fair False, 9, 4, 3, 0), (example_fair True, 9, 4, 12, 80),
       (example_fair False, 8, 5, 1, 1), (example_fair True, 8, 4, - 1, 0)] example_fair_state =
     ([0, - EPERM, 0, - ESRCH, - EINVAL], s') \<and> map_option max_socket_allowed (tasks s' 8) = Some 12 \<and> rcu_depth s' = 0"
proof -
  let ?cs = "[(example_fair False, 8, 4, 10, 50), (example_fair False, 9, 4, 3, 0), (example_fair True, 9, 4, 12, 80),
       (example_fair False, 8, 5, 1, 1), (example_fair True, 8, 4, - 1, 0)] :: fair_call list"
  obtain rs s' where r: "fair_run ?cs example_fair_state = (rs, s')" by fastforce
  have s: "tasks example_fair_state 8 = Some example_parent" "rcu_depth example_fair_state = 0"
    by (simp_all add: example_fair_state_def example_fork_state_def fork_state.defs)
  have e: "map fair_error ?cs = [0, - EPERM, 0, - ESRCH, - EINVAL]"
    "group_calls (=) 8 ?cs = [(example_fair False, 8, 4, 10, 50), (example_fair True, 9, 4, 12, 80)]"
    by (simp_all add: example_fair_def group_calls_def)
  note h = fairness_history [OF r, of "(=)"]
  have "tasks s' 8 = Some (if group_calls (=) 8 ?cs = [] then example_parent else with_limits (fair_vals (last (group_calls (=) 8 ?cs))) example_parent)"
    by (rule h [THEN conjunct2, THEN conjunct2, THEN conjunct2, THEN conjunct2, THEN conjunct1, rule_format]) (use s(1) in \<open>simp_all add: e(2) example_fair_named\<close>)
  then have "tasks s' 8 = Some (with_limits (12, 80) example_parent)" unfolding e(2) by simp
  moreover have "rs = map fair_error ?cs" "rcu_depth s' = rcu_depth example_fair_state" using h by blast+
  ultimately show ?thesis using r s(2) e(1) by (simp add: with_limits_def)
qed

end
