(* ===== verification/Socket_Test.thy ===== *)
theory Socket_Test
  imports Socket_Fairness
begin

text \<open>
  The main function of the program that exercises the socket limits (network/socket/socket_test.c): the calls on its own process, on three
  threads in whatever order they run, and the two changes of priority.
\<close>

section \<open>Output\<close>

fun strstr :: "string \<Rightarrow> string \<Rightarrow> bool" where
  "strstr [] needle = (needle = [])"
| "strstr (c # cs) needle = (take (length needle) (c # cs) = needle \<or> strstr cs needle)"

text \<open>The lines that \<open>fgets\<close> reads from the status file, if it can be opened, and those that are printed.\<close>

definition read_proc_status :: "string list option \<Rightarrow> string list" where
  "read_proc_status lines = (case lines of None \<Rightarrow> [] | Some ls \<Rightarrow> filter (\<lambda>l. strstr l ''Socket'') ls)"

datatype prio_msg = PrioSet s32 | PrioFailed "int option" s32

definition set_thread_priority :: "fair_env \<Rightarrow> addr \<Rightarrow> s32 \<Rightarrow> s32 \<Rightarrow> fair_state \<Rightarrow> prio_msg \<times> fair_state" where
  "set_thread_priority E cur tid priority s =
    (let ((r, e), s) = set_thread_socket_attrs E cur tid 0 10000 priority s
     in (if r < 0 then PrioFailed e priority else PrioSet priority, s))"

section \<open>The main function\<close>

text \<open>
  The task and identifier of the main thread and of each other thread; the results of \<open>pthread_create\<close>; the order in which the threads
  make their system calls; for the main thread and each thread the results of its \<open>socket\<close> calls and of its \<open>malloc\<close>.
\<close>

record sock_env =
  se_fair :: fair_env
  se_main :: addr
  se_pid :: s32
  se_task :: "nat \<Rightarrow> addr"
  se_tid :: "nat \<Rightarrow> s32"
  se_create :: "nat \<Rightarrow> int"
  se_order :: "nat list"
  se_main_sockets :: "int list \<times> int list option"
  se_sockets :: "nat \<Rightarrow> int list \<times> int list option"

definition socket_limits :: "nat list" where
  "socket_limits = [5, 8, 3]"

fun run_threads :: "sock_env \<Rightarrow> nat list \<Rightarrow> fair_state \<Rightarrow> int list \<times> fair_state" where
  "run_threads S [] s = ([], s)"
| "run_threads S (i # is) s =
    (let (closed, s) = thread_socket_test (se_fair S) (se_task S i) (se_tid S i) (socket_limits ! i) (fst (se_sockets S i)) (snd (se_sockets S i)) s;
         (closed', s) = run_threads S is s
     in (closed @ closed', s))"

text \<open>
  A thread that could not be created is joined all the same, through an element of the array that was never written.
\<close>

definition socket_test_main :: "sock_env \<Rightarrow> fair_state \<Rightarrow> (int \<times> int list \<times> prio_msg list \<times> fair_state) kres" where
  "socket_test_main S s =
    (let E = se_fair S; cur = se_main S; pd = se_pid S;
         ((r, _), s) = set_thread_socket_attrs E cur pd pd 10 50 s;
         closed = (if r < 0 then [] else close_sockets (create_sockets (fst (se_main_sockets S)) (snd (se_main_sockets S)) 12) 12);
         (closed', s) = run_threads S (filter (\<lambda>i. se_create S i = 0) (se_order S)) s
     in case find (\<lambda>i. se_create S i \<noteq> 0) [0..<3] of
          Some i \<Rightarrow> Inl (OutOfBounds (int i))
        | None \<Rightarrow>
          let (m1, s) = set_thread_priority E cur pd 99 s;
              (m2, s) = set_thread_priority E cur pd 0 s
          in Inr (0, closed @ closed', [m1, m2], s))"

section \<open>Properties\<close>

lemma strstr_iff: "strstr xs needle \<longleftrightarrow> (\<exists>us vs. xs = us @ needle @ vs)"
proof (induction xs)
  case (Cons x xs)
  have "take (length needle) (x # xs) = needle \<longleftrightarrow> (\<exists>vs. x # xs = needle @ vs)"
    by (metis append_eq_conv_conj append_take_drop_id)
  moreover have "(\<exists>us vs. x # xs = us @ needle @ vs) \<longleftrightarrow> (\<exists>vs. x # xs = needle @ vs) \<or> (\<exists>us vs. xs = us @ needle @ vs)"
    by (metis append_Cons append_Nil neq_Nil_conv list.inject)
  ultimately show ?case using Cons by simp
qed auto

definition permitted :: "fair_env \<Rightarrow> addr \<Rightarrow> s32 \<Rightarrow> addr \<Rightarrow> bool" where
  "permitted E cur nr task \<longleftrightarrow> nr \<noteq> 0 \<and> task \<noteq> NULL \<and> find_task E nr = task \<and> (cap_admin E \<or> same_group E cur task)"

lemma permitted_call:
  assumes "permitted E cur nr task" "nr' = 0 \<and> tid = nr \<or> nr' = nr" "0 \<le> sint m" "0 \<le> sint l"
  shows "set_thread_socket_attrs E cur tid nr' m l s = ((0, None), fair_set task m l s)"
  using assms by (auto simp: set_thread_socket_attrs_def configure_eq permitted_def libc_syscall_def)

lemma limits_small: "i < 3 \<Longrightarrow> 0 \<le> sint (of_nat (socket_limits ! i) :: s32)"
  by (auto simp: socket_limits_def numeral_3_eq_3 less_Suc_eq)

lemma run_threads_tasks:
  assumes "\<forall>i \<in> set is. i < 3 \<and> permitted (se_fair S) (se_task S i) (se_tid S i) (se_task S i)" "inj_on (se_task S) (set is)" "distinct is"
  shows "(\<forall>p. p \<notin> se_task S ` set is \<longrightarrow> tasks (snd (run_threads S is s)) p = tasks s p) \<and>
    (\<forall>i \<in> set is. tasks (snd (run_threads S is s)) (se_task S i) = map_option (with_limits (of_nat (socket_limits ! i), 80)) (tasks s (se_task S i)))"
  using assms
proof (induction "is" arbitrary: s)
  case (Cons j "is")
  let ?s = "fair_set (se_task S j) (of_nat (socket_limits ! j)) 80 s"
  have "set_thread_socket_attrs (se_fair S) (se_task S j) (se_tid S j) 0 (of_nat (socket_limits ! j)) 80 s = ((0, None), ?s)"
    by (rule permitted_call [where nr = "se_tid S j"]) (use Cons.prems(1) limits_small [of j] in simp_all)
  then have r: "snd (run_threads S (j # is) s) = snd (run_threads S is ?s)"
    by (simp add: thread_socket_test_def Let_def case_prod_unfold)
  have j: "se_task S j \<notin> se_task S ` set is" using Cons.prems(2,3) by (auto simp: inj_on_def)
  show ?case unfolding r using Cons.IH [of ?s] Cons.prems j by (auto simp: fair_set_task)
qed simp

text \<open>
  What the test leaves. Let all three threads be created and all four tasks be found and allowed to set their own limits. Whatever the order in
  which the threads run and however many sockets could be opened, the main function returns 0, reports both priorities as set, the main thread
  ends with the limit 10000 and the priority of the last change, each thread has its own limit, and no other task is touched: the limits of
  one thread do not reach another. If a thread could not be created, the program joins it all the same.\<close>

theorem socket_test_limits:
  assumes main: "permitted (se_fair S) (se_main S) (se_pid S) (se_main S)"
    and thr: "\<forall>i < 3. permitted (se_fair S) (se_task S i) (se_tid S i) (se_task S i)" and inj: "inj_on (se_task S) {..<3}"
    and other: "\<forall>i < 3. se_task S i \<noteq> se_main S" and order: "distinct (se_order S)" "set (se_order S) = {..<3}"
  shows "if \<forall>i < 3. se_create S i = 0
    then \<exists>closed s'. socket_test_main S s = Inr (0, closed, [PrioSet 99, PrioSet 0], s') \<and>
      tasks s' (se_main S) = map_option (with_limits (10000, 0)) (tasks s (se_main S)) \<and>
      (\<forall>i < 3. tasks s' (se_task S i) = map_option (with_limits (of_nat ([5, 8, 3] ! i), 80)) (tasks s (se_task S i))) \<and>
      (\<forall>p. p \<noteq> se_main S \<and> p \<notin> se_task S ` {..<3} \<longrightarrow> tasks s' p = tasks s p)
    else \<exists>i < 3. se_create S i \<noteq> 0 \<and> socket_test_main S s = Inl (OutOfBounds (int i))"
proof (cases "\<forall>i < 3. se_create S i = 0")
  case True
  let ?s1 = "fair_set (se_main S) 10 50 s"
  obtain closed s2 where r: "run_threads S (se_order S) ?s1 = (closed, s2)" by fastforce
  have f: "filter (\<lambda>i. se_create S i = 0) (se_order S) = se_order S" using True order(2) by (auto simp: filter_id_conv)
  have n: "find (\<lambda>i. se_create S i \<noteq> 0) [0..<3] = None" using True by (simp add: find_None_iff)
  note c = permitted_call [OF main]
  have "socket_test_main S s = Inr (0, close_sockets (create_sockets (fst (se_main_sockets S)) (snd (se_main_sockets S)) 12) 12 @ closed, [PrioSet 99, PrioSet 0],
      fair_set (se_main S) 10000 0 (fair_set (se_main S) 10000 99 s2))"
    unfolding socket_test_main_def Let_def f n by (simp add: c r set_thread_priority_def)
  moreover have "p \<notin> se_task S ` {..<3} \<Longrightarrow> tasks s2 p = tasks ?s1 p"
    "i < 3 \<Longrightarrow> tasks s2 (se_task S i) = map_option (with_limits (of_nat (socket_limits ! i), 80)) (tasks ?s1 (se_task S i))" for p i
    using run_threads_tasks [of "se_order S" S ?s1] r thr inj order by simp_all
  moreover have "se_main S \<notin> se_task S ` {..<3}" using other by auto
  ultimately show ?thesis using True other
    by (simp add: fair_set_task socket_limits_def option.map_comp o_def limits_twice) metis
next
  case False
  then obtain i where "find (\<lambda>i. se_create S i \<noteq> 0) [0..<3] = Some i" "i < 3" "se_create S i \<noteq> 0"
    using find_None_iff [of "\<lambda>i. se_create S i \<noteq> 0" "[0..<3]"] find_SomeD by (cases "find (\<lambda>i. se_create S i \<noteq> 0) [0..<3]") fastforce+
  then show ?thesis using False by (auto simp: socket_test_main_def Let_def case_prod_unfold)
qed

text \<open>Witness: three threads of one process, the last of which runs first.\<close>

definition example_sock :: sock_env where
  "example_sock = \<lparr>se_fair = \<lparr>find_task = (\<lambda>n. if n = 4 then 8 else if n = 5 then 16 else if n = 6 then 24 else if n = 7 then 32 else NULL),
       cap_admin = False, same_group = (\<lambda>_ _. True)\<rparr>,
     se_main = 8, se_pid = 4, se_task = (\<lambda>i. 16 + 8 * i), se_tid = (\<lambda>i. 5 + of_nat i), se_create = (\<lambda>_. 0), se_order = [2, 0, 1],
     se_main_sockets = ([], None), se_sockets = (\<lambda>_. ([], None))\<rparr>"

theorem socket_test_limits_witness:
  "\<exists>closed s'. socket_test_main example_sock (example_fair_state\<lparr>tasks := (\<lambda>_. Some task_zero)\<rparr>) = Inr (0, closed, [PrioSet 99, PrioSet 0], s') \<and>
     map_option max_socket_allowed (tasks s' 8) = Some 10000 \<and> map_option max_socket_allowed (tasks s' 24) = Some 8 \<and> tasks s' 40 = Some task_zero"
proof -
  have three: "i = 0 \<or> i = 1 \<or> i = 2" if "i < 3" for i :: nat using that by linarith
  have p: "permitted (se_fair example_sock) (se_main example_sock) (se_pid example_sock) (se_main example_sock)"
    "\<forall>i < 3. permitted (se_fair example_sock) (se_task example_sock i) (se_tid example_sock i) (se_task example_sock i)"
    using three by (force simp: permitted_def example_sock_def)+
  have q: "inj_on (se_task example_sock) {..<3}" "\<forall>i < 3. se_task example_sock i \<noteq> se_main example_sock" "distinct (se_order example_sock)"
    "set (se_order example_sock) = {..<3}" using three by (auto simp: example_sock_def inj_on_def)
  have c: "\<forall>i < 3. se_create example_sock i = 0" and m: "se_main example_sock = 8" "se_task example_sock 1 = 24" "40 \<notin> se_task example_sock ` {..<3}"
    by (auto simp: example_sock_def)
  let ?s = "example_fair_state\<lparr>tasks := (\<lambda>_. Some task_zero)\<rparr>"
  obtain closed s' where r: "socket_test_main example_sock ?s = Inr (0, closed, [PrioSet 99, PrioSet 0], s')"
      "tasks s' 8 = map_option (with_limits (10000, 0)) (tasks ?s 8)"
      "\<forall>i < 3. tasks s' (se_task example_sock i) = map_option (with_limits (of_nat ([5, 8, 3] ! i), 80)) (tasks ?s (se_task example_sock i))"
      "\<forall>p. p \<noteq> 8 \<and> p \<notin> se_task example_sock ` {..<3} \<longrightarrow> tasks s' p = tasks ?s p"
    using socket_test_limits [OF p q, of ?s] unfolding m(1) if_P [OF c] by blast
  have "tasks s' 24 = Some (with_limits (8, 80) task_zero)" using r(3) [THEN spec, of 1] m(2) by simp
  then show ?thesis using r(1,2) r(4) [THEN spec, of 40] m(3) by (auto simp: with_limits_def)
qed

end
