(* ===== verification/Mmap_File.thy ===== *)
theory Mmap_File
  imports Bytes
begin

text \<open>
  The memory-mapping exercise (os-2024-exercise/ch3-mm/ch3_1/impl.c and the file part of test.c):
  copying a region of memory into a fresh mapping, and writing to a file through a shared mapping.
\<close>

section \<open>Remapping memory\<close>

text \<open>Memory maps each accessible address to its byte.\<close>

type_synonym memory = "nat \<rightharpoonup> u8"

definition mem_read :: "memory \<Rightarrow> nat \<Rightarrow> nat \<Rightarrow> bytes option" where
  "mem_read M a n = those (map (\<lambda>i. M (a + i)) [0..<n])"

definition mem_write :: "memory \<Rightarrow> nat \<Rightarrow> bytes \<Rightarrow> memory" where
  "mem_write M a bs = (\<lambda>x. if a \<le> x \<and> x < a + length bs then Some (bs ! (x - a)) else M x)"

text \<open>
  \<open>new\<close> is what \<open>mmap\<close> returns, \<open>None\<close> for \<open>MAP_FAILED\<close>; a new anonymous mapping is filled with zeros. The
  result is \<open>None\<close> when the copy touches memory that is not mapped.
\<close>

definition mmap_remap :: "nat option \<Rightarrow> nat \<Rightarrow> nat \<Rightarrow> memory \<Rightarrow> (nat \<times> memory) option" where
  "mmap_remap new addr sz M =
    (case new of
       None \<Rightarrow> Some (NULL, M)
     | Some new_addr \<Rightarrow>
         let M = mem_write M new_addr (replicate sz 0)
         in case mem_read M addr sz of
              None \<Rightarrow> None
            | Some bs \<Rightarrow> Some (new_addr, mem_write M new_addr bs))"

section \<open>Writing a file through a mapping\<close>

text \<open>Which of the system calls fail, in the order of the calls; \<open>mmap\<close> of length 0 fails whatever \<open>mf_mmap\<close> says.\<close>

record mmap_env =
  mf_open :: bool
  mf_fstat :: bool
  mf_ftruncate :: bool
  mf_mmap :: bool
  mf_msync :: bool
  mf_munmap :: bool

record file_state =
  file_data :: bytes
  open_fds :: nat
  mappings :: nat

definition file_truncate :: "nat \<Rightarrow> bytes \<Rightarrow> bytes" where
  "file_truncate n f = take n f @ replicate (n - length f) 0"

definition mf_close :: "file_state \<Rightarrow> file_state" where
  "mf_close s = s\<lparr>open_fds := open_fds s - 1\<rparr>"

definition mf_unmap :: "file_state \<Rightarrow> file_state" where
  "mf_unmap s = s\<lparr>mappings := mappings s - 1\<rparr>"

text \<open>
  \<open>content\<close> is the C string without its terminator, so its length is \<open>strlen\<close>. \<open>offset\<close> and the lengths
  are of type \<open>size_t\<close>. Stores into a shared mapping change the file; the result is \<open>None\<close> when they leave
  the mapping.
\<close>

definition file_mmap_write :: "mmap_env \<Rightarrow> u64 \<Rightarrow> bytes \<Rightarrow> file_state \<Rightarrow> (int \<times> file_state) option" where
  "file_mmap_write E offset content s =
    (if \<not> mf_open E then Some (- 1, s)
     else let s = s\<lparr>open_fds := open_fds s + 1\<rparr>
     in if \<not> mf_fstat E then Some (- 1, mf_close s)
     else let content_len = of_nat (length content) :: u64; stop = offset + content_len;
              grow = of_nat (length (file_data s)) < stop
     in if grow \<and> \<not> mf_ftruncate E then Some (- 1, mf_close s)
     else let s = (if grow then s\<lparr>file_data := file_truncate (unat stop) (file_data s)\<rparr> else s)
     in if \<not> mf_mmap E \<or> stop = 0 then Some (- 1, mf_close s)
     else let s = s\<lparr>mappings := mappings s + 1\<rparr>
     in if unat stop < unat offset + length content then None
     else let s = s\<lparr>file_data := store_at (unat offset) content (file_data s)\<rparr>
     in if \<not> mf_msync E then Some (- 1, mf_close (mf_unmap s))
     else if \<not> mf_munmap E then Some (- 1, mf_close s)
     else Some (0, mf_close (mf_unmap s)))"

text \<open>The test: a file with a repeating alphabet, and a reference file written with \<open>fseek\<close> and \<open>fwrite\<close>.\<close>

definition create_test_file :: "nat \<Rightarrow> bytes" where
  "create_test_file sz = map (\<lambda>i. 65 + of_nat (i mod 26)) [0..<sz]"

definition fwrite_at :: "nat \<Rightarrow> bytes \<Rightarrow> bytes \<Rightarrow> bytes" where
  "fwrite_at off bs f = store_at off bs (file_truncate (max (length f) (off + length bs)) f)"

definition test_writes :: "nat \<Rightarrow> (nat \<times> bytes) list" where
  "test_writes filesize = [(0, bytes_of_string ''TEST_CONTENT_1''), (4046, replicate 4195 66), (filesize, bytes_of_string ''APPEND_TEST'')]"

fun mmap_writes :: "mmap_env \<Rightarrow> (nat \<times> bytes) list \<Rightarrow> file_state \<Rightarrow> file_state option" where
  "mmap_writes E [] s = Some s"
| "mmap_writes E ((off, bs) # ws) s = (case file_mmap_write E (of_nat off) bs s of
     Some (r, s) \<Rightarrow> if r = 0 then mmap_writes E ws s else None | None \<Rightarrow> None)"

definition test_file_operations :: "mmap_env \<Rightarrow> nat \<Rightarrow> bytes option" where
  "test_file_operations E filesize =
     map_option file_data (mmap_writes E (test_writes filesize) \<lparr>file_data = create_test_file filesize, open_fds = 0, mappings = 0\<rparr>)"

definition test_reference :: "nat \<Rightarrow> bytes" where
  "test_reference filesize = fold (\<lambda>(off, bs). fwrite_at off bs) (test_writes filesize) (create_test_file filesize)"

section \<open>Facts\<close>

lemma those_Some: "those xs = Some ys \<longleftrightarrow> xs = map Some ys"
proof (induction xs arbitrary: ys)
  case (Cons x xs)
  then show ?case by (cases x; cases ys) auto
qed auto

lemma mem_read_Some: "mem_read M a n = Some bs \<longleftrightarrow> length bs = n \<and> (\<forall>i < n. M (a + i) = Some (bs ! i))"
  unfolding mem_read_def those_Some by (auto simp: list_eq_iff_nth_eq)

lemma mem_read_write: "mem_read (mem_write M a bs) a (length bs) = Some bs"
  by (simp add: mem_read_Some mem_write_def)

lemma mem_read_disjoint: "a + n \<le> b \<or> b + length bs \<le> a \<Longrightarrow> mem_read (mem_write M b bs) a n = mem_read M a n"
  unfolding mem_read_def by (rule arg_cong [of _ _ those]) (auto simp: mem_write_def)

lemma length_file_truncate [simp]: "length (file_truncate n f) = n"
  by (simp add: file_truncate_def)

lemma file_truncate_id [simp]: "file_truncate (length f) f = f"
  by (simp add: file_truncate_def)


text \<open>The effect of the stores on the file, for an end below \<open>2 ^ 64\<close>.\<close>

lemma unat_stop:
  assumes "unat off + n < 2 ^ 64"
  shows "unat (off + of_nat n :: u64) = unat off + n"
  using assms by (simp add: unat_word_ariths unat_of_nat)

lemma file_mmap_write_eq:
  assumes "unat offset + length content < 2 ^ 64" "length (file_data s) < 2 ^ 64"
  shows "file_mmap_write E offset content s = Some
    (let grow = length (file_data s) < unat offset + length content;
         s1 = (if grow then s\<lparr>file_data := file_truncate (unat offset + length content) (file_data s)\<rparr> else s);
         s2 = s1\<lparr>file_data := fwrite_at (unat offset) content (file_data s)\<rparr>
     in if \<not> mf_open E \<or> \<not> mf_fstat E \<or> grow \<and> \<not> mf_ftruncate E then (- 1, s)
        else if \<not> mf_mmap E \<or> unat offset + length content = 0 then (- 1, s1)
        else if \<not> mf_msync E then (- 1, s2)
        else if \<not> mf_munmap E then (- 1, s2\<lparr>mappings := mappings s + 1\<rparr>) else (0, s2))"
proof -
  let ?n = "unat offset + length content"
  have u: "unat (offset + of_nat (length content) :: u64) = ?n" using assms(1) by (rule unat_stop)
  have g: "(of_nat (length (file_data s)) < offset + of_nat (length content)) = (length (file_data s) < ?n)"
    using u assms(2) by (simp add: word_less_nat_alt unat_of_nat)
  have z: "(offset + of_nat (length content) = 0) = (?n = 0)" using u by (metis unat_eq_zero)
  have st: "store_at (unat offset) content (if length (file_data s) < ?n then file_truncate ?n (file_data s) else file_data s) =
      fwrite_at (unat offset) content (file_data s)"
    by (auto simp: fwrite_at_def max_def)
  show ?thesis
  proof (cases "length (file_data s) < ?n")
    case True
    then show ?thesis using st by (simp add: file_mmap_write_def Let_def g z u mf_close_def mf_unmap_def)
  next
    case False
    then show ?thesis using st by (simp add: file_mmap_write_def Let_def g z u mf_close_def mf_unmap_def)
  qed
qed

lemma length_fwrite_at: "length (fwrite_at off bs f) = max (length f) (off + length bs)"
  by (simp add: fwrite_at_def)

lemma nth_fwrite_at:
  assumes "i < max (length f) (off + length bs)"
  shows "fwrite_at off bs f ! i = (if off \<le> i \<and> i < off + length bs then bs ! (i - off) else if i < length f then f ! i else 0)"
  using assms unfolding fwrite_at_def by (simp add: nth_store_at) (auto simp: file_truncate_def nth_append)

section \<open>Properties\<close>

text \<open>
  C26: a write through the mapping that ends below \<open>2 ^ 64\<close> always returns, and never touches memory outside
  the mapping. It returns 0 exactly when no call fails and there is something to map; then the file holds
  the content at the offset, its old bytes elsewhere and zeros in between, and every descriptor and mapping
  is gone. Otherwise it returns \<open>-1\<close> with the descriptor closed, and the bytes of the old file outside the
  written range are kept.
\<close>

theorem file_mmap_write_correct:
  assumes "unat offset + length content < 2 ^ 64" and "length (file_data s) < 2 ^ 64"
  shows "\<exists>r s'. file_mmap_write E offset content s = Some (r, s') \<and> r \<in> {0, - 1} \<and> open_fds s' = open_fds s \<and>
    (r = 0 \<longleftrightarrow> mf_open E \<and> mf_fstat E \<and> (length (file_data s) < unat offset + length content \<longrightarrow> mf_ftruncate E) \<and>
       mf_mmap E \<and> mf_msync E \<and> mf_munmap E \<and> unat offset + length content \<noteq> 0) \<and>
    (r = 0 \<longrightarrow> mappings s' = mappings s \<and> load_at (unat offset) (length content) (file_data s') = content \<and>
       length (file_data s') = max (length (file_data s)) (unat offset + length content) \<and>
       (\<forall>i. length (file_data s) \<le> i \<and> i < unat offset \<longrightarrow> file_data s' ! i = 0)) \<and>
    (\<forall>i < length (file_data s). i < unat offset \<or> unat offset + length content \<le> i \<longrightarrow> file_data s' ! i = file_data s ! i)"
proof -
  let ?n = "unat offset + length content" and ?f = "fwrite_at (unat offset) content (file_data s)"
  have old: "i < length (file_data s) \<and> (i < unat offset \<or> ?n \<le> i) \<Longrightarrow> ?f ! i = file_data s ! i" for i
    by (subst nth_fwrite_at) auto
  have oldt: "i < length (file_data s) \<and> length (file_data s) < ?n \<Longrightarrow> file_truncate ?n (file_data s) ! i = file_data s ! i" for i
    by (simp add: file_truncate_def nth_append)
  have zero: "length (file_data s) \<le> i \<and> i < unat offset \<Longrightarrow> ?f ! i = 0" for i by (subst nth_fwrite_at) auto
  have new: "load_at (unat offset) (length content) ?f = content" by (simp add: fwrite_at_def)
  note eq = file_mmap_write_eq [OF assms, of E, unfolded Let_def]
  obtain r s' where rs: "file_mmap_write E offset content s = Some (r, s')" using eq by (metis surj_pair)
  show ?thesis
    by (intro exI [of _ r] exI [of _ s'] conjI)
      (use rs eq old oldt zero new length_fwrite_at [of "unat offset" content "file_data s"] in \<open>auto split: if_splits\<close>)
qed


lemma mmap_writes_ok:
  assumes E: "mf_open E" "mf_fstat E" "mf_ftruncate E" "mf_mmap E" "mf_msync E" "mf_munmap E"
    and ws: "\<forall>(off, bs) \<in> set ws. bs \<noteq> [] \<and> off + length bs < 2 ^ 64" and f: "length (file_data s) < 2 ^ 64"
  shows "mmap_writes E ws s = Some (s\<lparr>file_data := fold (\<lambda>(off, bs). fwrite_at off bs) ws (file_data s)\<rparr>)"
  using ws f
proof (induction ws arbitrary: s)
  case (Cons w ws)
  obtain off bs where w: "w = (off, bs)" by fastforce
  have b: "unat (of_nat off :: u64) = off" "off + length bs < 2 ^ 64" "off + length bs \<noteq> 0"
    using Cons.prems(1) by (auto simp: w unat_of_nat)
  have r: "file_mmap_write E (of_nat off) bs s = Some (0, s\<lparr>file_data := fwrite_at off bs (file_data s)\<rparr>)"
    using file_mmap_write_eq [of "of_nat off" bs s E] b E Cons.prems(2) by (auto simp: Let_def)
  have "length (file_data (s\<lparr>file_data := fwrite_at off bs (file_data s)\<rparr>)) < 2 ^ 64"
    using b(2) Cons.prems(2) by (simp add: length_fwrite_at)
  from Cons.IH [OF _ this] show ?case using Cons.prems(1) r by (simp add: w)
qed simp

text \<open>
  The file test passes for files of any size below \<open>2 ^ 63\<close>: the three writes through mappings, one of
  them across a page boundary and one at the end of the file, leave the same bytes as the reference file
  that is written with \<open>fseek\<close> and \<open>fwrite\<close>.
\<close>

theorem file_test_matches_reference:
  assumes "mf_open E" and "mf_fstat E" and "mf_ftruncate E" and "mf_mmap E" and "mf_msync E" and "mf_munmap E" and "sz < 2 ^ 63"
  shows "test_file_operations E sz = Some (test_reference sz)"
proof -
  have ws: "\<forall>(off, bs) \<in> set (test_writes sz). bs \<noteq> [] \<and> off + length bs < 2 ^ 64"
    using assms(7) by (simp add: test_writes_def bytes_of_string_def)
  show ?thesis using mmap_writes_ok [OF assms(1-6) ws, of "\<lparr>file_data = create_test_file sz, open_fds = 0, mappings = 0\<rparr>"] assms(7)
    by (simp add: test_file_operations_def test_reference_def create_test_file_def)
qed

text \<open>
  \<open>mmap_remap\<close> of a readable region into memory that was not mapped returns another address, the new
  region holds the bytes of the old one, and every old mapping keeps its bytes. With \<open>addr\<close> \<open>NULL\<close>, which its
  comment allows, the copy reads unmapped memory.
\<close>

theorem mmap_remap_copies:
  assumes "0 < sz" and "\<forall>i < sz. M (a + i) = None"
  shows "(\<forall>bs. mem_read M addr sz = Some bs \<longrightarrow> (\<exists>M'. mmap_remap (Some a) addr sz M = Some (a, M') \<and> a \<noteq> addr \<and>
      mem_read M' a sz = Some bs \<and> (\<forall>x. M x \<noteq> None \<longrightarrow> M' x = M x) \<and> dom M' = dom M \<union> {a..<a + sz})) \<and>
    (M NULL = None \<and> a \<noteq> NULL \<longrightarrow> mmap_remap (Some a) NULL sz M = None)"
proof (intro conjI allI impI)
  fix bs assume r: "mem_read M addr sz = Some bs"
  then have l: "length bs = sz" "\<And>i. i < sz \<Longrightarrow> M (addr + i) = Some (bs ! i)" by (auto simp: mem_read_Some)
  have dis: "addr + sz \<le> a \<or> a + sz \<le> addr"
  proof (rule ccontr)
    assume "\<not> ?thesis"
    then consider i where "i < sz" "addr + i = a" | i where "i < sz" "a + i = addr"
      by (metis le_add_diff_inverse less_diff_conv2 nat_le_linear not_le add.commute)
    then show False using l(2) assms by cases (metis add.right_neutral assms(2) option.simps(3), metis add.right_neutral assms(1,2) l(2) option.simps(3))
  qed
  let ?M1 = "mem_write M a (replicate sz 0)"
  have r1: "mem_read ?M1 addr sz = Some bs" using mem_read_disjoint [of addr sz a "replicate sz 0" M] dis r by simp
  let ?M' = "mem_write ?M1 a bs"
  have "mmap_remap (Some a) addr sz M = Some (a, ?M')" using r1 by (simp add: mmap_remap_def)
  moreover have "a \<noteq> addr" using dis assms(1) by auto
  moreover have "mem_read ?M' a sz = Some bs" using mem_read_write l(1) by metis
  moreover have "\<forall>x. M x \<noteq> None \<longrightarrow> ?M' x = M x"
  proof (intro allI impI)
    fix x assume "M x \<noteq> None"
    then have "\<not> (a \<le> x \<and> x < a + sz)" using assms(2) by (metis le_add_diff_inverse nat_add_left_cancel_less)
    then show "?M' x = M x" using l(1) by (auto simp: mem_write_def)
  qed
  moreover have "dom ?M' = dom M \<union> {a..<a + sz}" using l(1) by (auto simp: mem_write_def dom_def)
  ultimately show "\<exists>M'. mmap_remap (Some a) addr sz M = Some (a, M') \<and> a \<noteq> addr \<and>
      mem_read M' a sz = Some bs \<and> (\<forall>x. M x \<noteq> None \<longrightarrow> M' x = M x) \<and> dom M' = dom M \<union> {a..<a + sz}" by blast
next
  assume n: "M NULL = None \<and> a \<noteq> NULL"
  have "mem_read (mem_write M a (replicate sz 0)) NULL sz \<noteq> Some bs" for bs
    using n assms(1) by (auto simp: mem_read_Some mem_write_def)
  then show "mmap_remap (Some a) NULL sz M = None" by (simp add: mmap_remap_def Let_def split: option.split)
qed

definition example_mmap_env :: mmap_env where
  "example_mmap_env = \<lparr>mf_open = True, mf_fstat = True, mf_ftruncate = True, mf_mmap = True, mf_msync = True, mf_munmap = True\<rparr>"

theorem file_mmap_write_correct_witness:
  "\<exists>s'. file_mmap_write example_mmap_env 3 [7, 8] \<lparr>file_data = [1, 2], open_fds = 0, mappings = 0\<rparr> = Some (0, s') \<and>
     load_at 3 2 (file_data s') = [7, 8] \<and> file_data s' ! 2 = 0 \<and> file_data s' ! 0 = 1 \<and> mappings s' = 0"
proof -
  let ?s = "\<lparr>file_data = [1, 2], open_fds = 0, mappings = 0\<rparr>"
  have u: "unat (3 :: u64) = 3" "length ([7, 8] :: bytes) = 2" by simp_all
  have l: "unat (3 :: u64) + length ([7, 8] :: bytes) < 2 ^ 64" "length (file_data ?s) < 2 ^ 64" by simp_all
  obtain r s' where r: "file_mmap_write example_mmap_env 3 [7, 8] ?s = Some (r, s')"
      "r = 0 \<longleftrightarrow> True" "r = 0 \<longrightarrow> mappings s' = 0 \<and> load_at 3 2 (file_data s') = [7, 8] \<and> (\<forall>i. 2 \<le> i \<and> i < 3 \<longrightarrow> file_data s' ! i = 0)"
      "\<forall>i < 2. i < 3 \<or> 5 \<le> i \<longrightarrow> file_data s' ! i = [1, 2] ! i"
    using file_mmap_write_correct [OF l, of example_mmap_env] unfolding u by (auto simp: example_mmap_env_def)
  then show ?thesis by auto
qed

theorem file_test_matches_reference_witness:
  "test_file_operations example_mmap_env 0 = Some (test_reference 0)"
  by (rule file_test_matches_reference) (simp_all add: example_mmap_env_def)

theorem mmap_remap_copies_witness:
  "\<exists>M'. mmap_remap (Some 20) 10 2 [10 \<mapsto> 5, 11 \<mapsto> 6] = Some (20, M') \<and> mem_read M' 20 2 = Some [5, 6] \<and>
     mmap_remap (Some 20) NULL 2 [10 \<mapsto> 5, 11 \<mapsto> 6] = None"
proof -
  have "mem_read [10 \<mapsto> 5, 11 \<mapsto> 6] 10 2 = Some [5, 6]" by (simp add: mem_read_Some less_Suc_eq numeral_2_eq_2)
  then show ?thesis using mmap_remap_copies [of 2 "[10 \<mapsto> 5, 11 \<mapsto> 6]" 20 10] by auto
qed

end
