(* ===== verification/Mmap_Test.thy ===== *)
theory Mmap_Test
  imports Mmap_File
begin

text \<open>
  The rest of the test of the memory-mapping exercise (os-2024-exercise/ch3-mm/ch3_1/test.c): physical addresses read from
  \<open>/proc/self/pagemap\<close>, the test of \<open>mmap_remap\<close>, and the main function.
\<close>

section \<open>Physical addresses\<close>

text \<open>
  \<open>pagemap\<close> gives the eight bytes at an offset of \<open>/proc/self/pagemap\<close>, or \<open>None\<close> for a short read.
\<close>

definition get_physical_address :: "(u64 \<Rightarrow> u64 option) \<Rightarrow> u64 \<Rightarrow> u64" where
  "get_physical_address pagemap virtual_address =
    (let offset = virtual_address div 4096 * 8
     in case pagemap offset of
          None \<Rightarrow> 0
        | Some entry \<Rightarrow> if entry AND push_bit 63 1 = 0 then 0 else (entry AND (push_bit 54 1 - 1)) * 4096)"

text \<open>
  An entry of the file as the kernel documents it: the frame number in the low bits, flags above it, and the present bit.
\<close>

definition pagemap_entry :: "u64 \<Rightarrow> u64 \<Rightarrow> u64" where
  "pagemap_entry pfn flags = push_bit 63 1 OR push_bit 55 flags OR pfn"

section \<open>The test of \<open>mmap_remap\<close>\<close>

text \<open>
  \<open>new1\<close> and \<open>new2\<close> are the results of the two calls of \<open>mmap\<close>; the result of the first is not checked. The value tells whether all
  assertions hold; \<open>None\<close> is an access to unmapped memory.
\<close>

definition test_mmap_remap :: "nat option \<Rightarrow> nat option \<Rightarrow> (u64 \<Rightarrow> u64 option) \<Rightarrow> memory \<Rightarrow> bool option" where
  "test_mmap_remap new1 new2 pagemap M =
    (case new1 of None \<Rightarrow> None
     | Some addr1 \<Rightarrow>
       let M = mem_write M addr1 (replicate 8192 0xAA)
       in case mmap_remap new2 addr1 8192 M of
            None \<Rightarrow> None
          | Some (addr2, M) \<Rightarrow>
            if addr2 = NULL \<or> addr1 = addr2 then Some False
            else if get_physical_address pagemap (of_nat addr1) = get_physical_address pagemap (of_nat addr2) then Some False
            else case mem_read M addr2 8192 of None \<Rightarrow> None | Some bs \<Rightarrow> Some (\<forall>b \<in> set bs. b = 0xAA))"

definition mmap_test_main :: "bool \<Rightarrow> nat option \<Rightarrow> nat option \<Rightarrow> (u64 \<Rightarrow> u64 option) \<Rightarrow> memory \<Rightarrow> mmap_env \<Rightarrow> (int \<times> bool list) option" where
  "mmap_test_main is_root new1 new2 pagemap M E =
    (if \<not> is_root then Some (1, [])
     else if test_mmap_remap new1 new2 pagemap M \<noteq> Some True then None
     else map_option (\<lambda>rs. (0, rs)) (those (map (\<lambda>sz. map_option (\<lambda>f. f = test_reference sz) (test_file_operations E sz)) [0, 4096, 1048576])))"

section \<open>Properties\<close>

lemma frame_bits:
  assumes "pfn < 2 ^ 52"
  shows "pagemap_entry pfn flags AND push_bit 63 1 \<noteq> 0" "pagemap_entry pfn flags AND (push_bit 54 1 - 1) = pfn"
proof -
  have "bit (pagemap_entry pfn flags) 63" by (simp add: pagemap_entry_def bit_simps)
  then have "bit (pagemap_entry pfn flags AND push_bit 63 1) 63" by (simp add: bit_simps)
  then show "pagemap_entry pfn flags AND push_bit 63 1 \<noteq> 0" by (metis bit_0_eq bot_apply bot_bool_def)
  have m: "push_bit 54 1 - 1 = (mask 54 :: u64)" by (simp add: mask_eq_exp_minus_1 push_bit_eq_mult)
  have p: "take_bit 54 pfn = pfn"
  proof -
    have "unat pfn < 2 ^ 52" using assms by (simp add: word_less_nat_alt)
    then show ?thesis by (simp add: word_unat_eq_iff unsigned_take_bit_eq take_bit_nat_eq_self)
  qed
  show "pagemap_entry pfn flags AND (push_bit 54 1 - 1) = pfn"
    unfolding m take_bit_eq_mask [symmetric] pagemap_entry_def take_bit_or by (simp add: p take_bit_push_bit)
qed

lemma physical_address:
  assumes "pagemap (va div 4096 * 8) = Some (pagemap_entry pfn flags)" "pfn < 2 ^ 52"
  shows "unat (get_physical_address pagemap va) = unat pfn * 4096"
proof -
  have "get_physical_address pagemap va = pfn * 4096" using assms frame_bits [OF assms(2), of flags] by (simp add: get_physical_address_def)
  moreover have "unat pfn < 2 ^ 52" using assms(2) by (simp add: word_less_nat_alt)
  ultimately show ?thesis by (simp add: unat_word_ariths)
qed

lemma test_mmap_remap_passes:
  assumes addrs: "addr1 \<noteq> addr2" "addr2 \<noteq> NULL" and free: "\<forall>i < 8192. M (addr2 + i) = None" "\<forall>i < 8192. \<forall>j < 8192. addr1 + i \<noteq> addr2 + j"
    and map1: "pagemap (of_nat addr1 div 4096 * 8) = Some (pagemap_entry pfn1 fla)" "pfn1 < 2 ^ 52"
    and map2: "pagemap (of_nat addr2 div 4096 * 8) = Some (pagemap_entry pfn2 flb)" "pfn2 < 2 ^ 52"
  shows "test_mmap_remap (Some addr1) (Some addr2) pagemap M = Some (pfn1 \<noteq> pfn2)"
proof -
  let ?M = "mem_write M addr1 (replicate 8192 0xAA)"
  have "\<forall>i < 8192. ?M (addr2 + i) = None"
  proof (intro allI impI)
    fix i :: nat assume i: "i < 8192"
    have "\<not> (addr1 \<le> addr2 + i \<and> addr2 + i < addr1 + 8192)"
    proof
      assume a: "addr1 \<le> addr2 + i \<and> addr2 + i < addr1 + 8192"
      then have "addr1 + (addr2 + i - addr1) = addr2 + i" "addr2 + i - addr1 < 8192" by linarith+
      then show False using free(2) i by blast
    qed
    then show "?M (addr2 + i) = None" using free(1) i by (simp add: mem_write_def)
  qed
  moreover have "mem_read ?M addr1 8192 = Some (replicate 8192 0xAA)" using mem_read_write [of M addr1 "replicate 8192 0xAA"] by simp
  ultimately obtain M' where r: "mmap_remap (Some addr2) addr1 8192 ?M = Some (addr2, M')" "mem_read M' addr2 8192 = Some (replicate 8192 0xAA)"
    using mmap_remap_copies [of 8192 ?M addr2 addr1] by auto
  have "get_physical_address pagemap (of_nat addr1) = get_physical_address pagemap (of_nat addr2) \<longleftrightarrow> unat pfn1 * 4096 = unat pfn2 * 4096"
    unfolding word_unat_eq_iff [of "get_physical_address pagemap (of_nat addr1)"] 
      physical_address [of pagemap, OF map1] physical_address [of pagemap, OF map2] ..
  then have "get_physical_address pagemap (of_nat addr1) = get_physical_address pagemap (of_nat addr2) \<longleftrightarrow> pfn1 = pfn2"
    by (simp add: word_unat_eq_iff)
  then show ?thesis using r addrs by (simp add: test_mmap_remap_def Let_def)
qed

text \<open>
  The whole test program. Run by root, with two mappings that do not overlap and whose first pages are present, and without a failing call on the
  files: the program ends without a failed assertion exactly when the two pages lie in different frames, and then finds all three files
  equal to their reference; run by anyone else it returns 1 and does nothing.\<close>

theorem mmap_test_verdict:
  assumes "addr1 \<noteq> addr2" and "addr2 \<noteq> NULL" and "\<forall>i < 8192. M (addr2 + i) = None" and "\<forall>i < 8192. \<forall>j < 8192. addr1 + i \<noteq> addr2 + j"
    and "pagemap (of_nat addr1 div 4096 * 8) = Some (pagemap_entry pfn1 fla)" and "pfn1 < 2 ^ 52"
    and "pagemap (of_nat addr2 div 4096 * 8) = Some (pagemap_entry pfn2 flb)" and "pfn2 < 2 ^ 52"
    and "mf_open E" and "mf_fstat E" and "mf_ftruncate E" and "mf_mmap E" and "mf_msync E" and "mf_munmap E"
  shows "mmap_test_main root (Some addr1) (Some addr2) pagemap M E =
    (if \<not> root then Some (1, []) else if pfn1 = pfn2 then None else Some (0, [True, True, True]))"
proof -
  have "test_file_operations E sz = Some (test_reference sz)" if "sz < 2 ^ 63" for sz
    using file_test_matches_reference assms(9-14) that .
  then show ?thesis using test_mmap_remap_passes [OF assms(1-8)] by (simp add: mmap_test_main_def those_Some)
qed

text \<open>Witness: frames 3 and 4.\<close>

definition example_pagemap :: "u64 \<Rightarrow> u64 option" where
  "example_pagemap off = (if off = 32 then Some (pagemap_entry 3 0) else if off = 64 then Some (pagemap_entry 4 1) else None)"

theorem mmap_test_verdict_witness:
  "mmap_test_main True (Some 16384) (Some 32768) example_pagemap Map.empty example_mmap_env = Some (0, [True, True, True])"
proof -
  have "mmap_test_main True (Some 16384) (Some 32768) example_pagemap Map.empty example_mmap_env =
      (if \<not> True then Some (1, []) else if (3 :: u64) = 4 then None else Some (0, [True, True, True]))"
    by (rule mmap_test_verdict [where fla = 0 and flb = 1])
      (simp_all add: example_pagemap_def example_mmap_env_def)
  then show ?thesis by simp
qed

end
