(* ===== verification/Mem_Pressure.thy ===== *)
theory Mem_Pressure
  imports Kernel_Prelude
begin

text \<open>
  The thread of the memory pressure test (os-2024-exercise/ch3-mm/ch3_3/ref.c): it fills a block of memory and then flips one byte of every page
  every two seconds.
\<close>

section \<open>The loops\<close>

text \<open>The pass over the pages; \<open>n\<close> is the size of the block.\<close>

function flip_pages :: "nat \<Rightarrow> nat \<Rightarrow> u8 list \<Rightarrow> u8 list" where
  "flip_pages i n memory = (if i < n then flip_pages (i + 4096) n (memory[i := memory ! i XOR 0xFF]) else memory)"
  by pat_completeness auto
termination by (relation "measure (\<lambda>(i, n, memory). n - i)") auto

declare flip_pages.simps [simp del]

text \<open>The outer loop from second \<open>t\<close> on, with the seconds it reports.\<close>

function access_loop :: "nat \<Rightarrow> nat \<Rightarrow> nat \<Rightarrow> u8 list \<Rightarrow> nat list \<times> u8 list" where
  "access_loop t d n memory =
    (if t < d then let (log, memory) = access_loop (t + 2) d n (flip_pages 0 n memory) in (t # log, memory) else ([], memory))"
  by pat_completeness auto
termination by (relation "measure (\<lambda>(t, d, n, memory). d - t)") auto

declare access_loop.simps [simp del]

text \<open>
  \<open>malloc\<close> is the block, if there is memory for it. The result are the reports and the contents when the block is freed.
\<close>

definition high_pressure_task :: "u8 list option \<Rightarrow> (nat list \<times> u8 list) option" where
  "high_pressure_task malloc =
    (case malloc of None \<Rightarrow> None
     | Some memory \<Rightarrow> let n = 200 * 1024 * 1024; memory = replicate n 0xFF @ drop n memory in Some (access_loop 0 120 n memory))"

section \<open>Their effect\<close>

definition flipped :: "nat \<Rightarrow> nat \<Rightarrow> u8 list \<Rightarrow> u8 list" where
  "flipped i n memory = map (\<lambda>j. if i \<le> j \<and> j < n \<and> (j - i) mod 4096 = 0 then memory ! j XOR 0xFF else memory ! j) [0..<length memory]"

lemma flip_pages_eq: "n \<le> length memory \<Longrightarrow> flip_pages i n memory = flipped i n memory"
proof (induction i n memory rule: flip_pages.induct)
  case (1 i n memory)
  show ?case
  proof (cases "i < n")
    case False
    then have "flipped i n memory = memory" by (intro nth_equalityI) (auto simp: flipped_def)
    then show ?thesis using False by (subst flip_pages.simps) simp
  next
    case True
    let ?m = "memory[i := memory ! i XOR 0xFF]"
    have "flip_pages i n memory = flipped (i + 4096) n ?m" using 1 True by (subst flip_pages.simps) simp
    also have "\<dots> = flipped i n memory"
    proof (rule nth_equalityI)
      fix j assume "j < length (flipped (i + 4096) n ?m)"
      then have j: "j < length memory" by (simp add: flipped_def)
      have e: "(j - i) mod 4096 = (j - (i + 4096)) mod 4096" if "i + 4096 \<le> j"
      proof -
        have "j - i = (j - (i + 4096)) + 4096" using that by simp
        then show ?thesis by (metis mod_add_self2)
      qed
      have s: "j < i + 4096 \<and> i < j \<Longrightarrow> (j - i) mod 4096 \<noteq> 0" by (simp add: less_diff_conv2)
      show "flipped (i + 4096) n ?m ! j = flipped i n memory ! j"
        using j True e s by (cases "j < i"; cases "j = i"; cases "j < i + 4096") (auto simp: flipped_def nth_list_update)
    qed (simp add: flipped_def)
    finally show ?thesis .
  qed
qed

lemma flip_twice: "n \<le> length memory \<Longrightarrow> flip_pages 0 n (flip_pages 0 n memory) = memory"
  by (auto simp: flip_pages_eq flipped_def xor.assoc intro!: nth_equalityI)

lemma flip_length: "n \<le> length memory \<Longrightarrow> length (flip_pages 0 n memory) = length memory"
  by (simp add: flip_pages_eq flipped_def)

lemma access_loop_eq:
  "n \<le> length memory \<Longrightarrow> access_loop (2 * k) (2 * (k + r)) n memory =
     (map (\<lambda>i. 2 * i) [k..<k + r], if even r then memory else flip_pages 0 n memory)"
proof (induction r arbitrary: k memory)
  case 0
  then show ?case by (subst access_loop.simps) simp
next
  case (Suc r)
  have "access_loop (2 * k + 2) (2 * (k + Suc r)) n (flip_pages 0 n memory) =
      (map (\<lambda>i. 2 * i) [k + 1..<k + 1 + r], if even r then flip_pages 0 n memory else flip_pages 0 n (flip_pages 0 n memory))"
    using Suc.IH [of "flip_pages 0 n memory" "k + 1"] flip_length [OF Suc.prems] Suc.prems by (simp add: algebra_simps)
  moreover have "[k..<k + Suc r] = k # [k + 1..<k + 1 + r]" by (simp add: upt_conv_Cons)
  ultimately show ?case by (subst access_loop.simps) (simp add: flip_twice [OF Suc.prems])
qed

text \<open>
  The thread ends after 60 passes, which it reports at every even second below 120, and as that is an even number the block is freed with the contents it
  was filled with.
\<close>

lemma high_pressure_ends:
  assumes "length memory = 200 * 1024 * 1024"
  shows "high_pressure_task (Some memory) = Some (map (\<lambda>i. 2 * i) [0..<60], replicate (200 * 1024 * 1024) 0xFF)"
proof -
  let ?n = "200 * 1024 * 1024 :: nat"
  have d: "replicate ?n 0xFF @ drop ?n memory = replicate ?n 0xFF" using assms by simp
  have "access_loop (2 * 0) (2 * (0 + 60)) ?n (replicate ?n 0xFF) = (map (\<lambda>i. 2 * i) [0..<0 + 60], replicate ?n 0xFF)"
    by (subst access_loop_eq) simp_all
  then show ?thesis unfolding high_pressure_task_def option.case Let_def d by simp
qed

end
