(* ===== verification/Xattr.thy ===== *)
theory Xattr
  imports Kernel_Prelude "HOL-Library.AList"
begin

text \<open>
  The exercise on extended attributes (os-2024-exercise/ch4-fs/ch4_1): setting, reading, listing and removing
  attributes with the functions of the C library, each of the readers in two calls between which other
  processes run, and the test of the four.
\<close>

section \<open>The calls\<close>

text \<open>
  The file system, as the system calls show it: the value of an attribute or an error, the names of all
  attributes, and the results of setting and removing. \<open>x_other\<close> is what other processes do between two calls.
\<close>

record 's xattr_ops =
  x_get :: "string \<Rightarrow> string \<Rightarrow> 's \<Rightarrow> string option"
  x_names :: "string \<Rightarrow> 's \<Rightarrow> string list option"
  x_set :: "string \<Rightarrow> string \<Rightarrow> string \<Rightarrow> 's \<Rightarrow> bool \<times> 's"
  x_remove :: "string \<Rightarrow> string \<Rightarrow> 's \<Rightarrow> bool \<times> 's"
  x_other :: "'s \<Rightarrow> 's"
  x_malloc :: "nat \<Rightarrow> string option"

abbreviation (input) NUL :: char where "NUL \<equiv> CHR 0x00"

text \<open>
  The convention of \<open>listxattr\<close> and \<open>getxattr\<close>: a buffer of size 0 asks for the size of the result only; a buffer too
  small is an error; otherwise the result goes to the start of the buffer. The result is -1 or the length.
\<close>

definition into_buffer :: "string option \<Rightarrow> nat \<Rightarrow> string \<Rightarrow> int \<times> string" where
  "into_buffer v sz buf =
    (case v of None \<Rightarrow> (- 1, buf)
     | Some x \<Rightarrow> if sz = 0 then (int (length x), buf)
                  else if sz < length x then (- 1, buf)
                  else (int (length x), x @ drop (length x) buf))"

definition listxattr :: "'s xattr_ops \<Rightarrow> string \<Rightarrow> nat \<Rightarrow> string \<Rightarrow> 's \<Rightarrow> int \<times> string" where
  "listxattr ops path sz buf w = into_buffer (map_option (\<lambda>ns. concat (map (\<lambda>n. n @ [NUL]) ns)) (x_names ops path w)) sz buf"

definition getxattr :: "'s xattr_ops \<Rightarrow> string \<Rightarrow> string \<Rightarrow> nat \<Rightarrow> string \<Rightarrow> 's \<Rightarrow> int \<times> string" where
  "getxattr ops path name sz buf w = into_buffer (x_get ops path name w) sz buf"

text \<open>A string in memory ends before the first NUL; without one \<open>strlen\<close> reads on behind the block.\<close>

definition c_string :: "string \<Rightarrow> string kres" where
  "c_string m = (if NUL \<in> set m then Inr (takeWhile (\<lambda>c. c \<noteq> NUL) m) else Inl (OutOfBounds (int (length m))))"

section \<open>The functions\<close>

definition set_xattr :: "'s xattr_ops \<Rightarrow> string \<Rightarrow> string \<Rightarrow> string \<Rightarrow> 's \<Rightarrow> int \<times> 's" where
  "set_xattr ops path name val w = (let (ok, w) = x_set ops path name val w in (if ok then 1 else - 1, w))"

definition remove_xattr :: "'s xattr_ops \<Rightarrow> string \<Rightarrow> string \<Rightarrow> 's \<Rightarrow> int \<times> 's" where
  "remove_xattr ops path name w = (let (ok, w) = x_remove ops path name w in (if ok then 1 else - 1, w))"

text \<open>The result is the allocated block, \<open>None\<close> for \<open>NULL\<close>, and the state of the file system.\<close>

definition get_xattr :: "'s xattr_ops \<Rightarrow> string \<Rightarrow> string \<Rightarrow> 's \<Rightarrow> string option \<times> 's" where
  "get_xattr ops filename name w =
    (let value_len = fst (getxattr ops filename name 0 [] w)
     in if value_len = - 1 then (None, w)
        else case x_malloc ops (nat value_len + 1) of
          None \<Rightarrow> (None, w)
        | Some val \<Rightarrow>
          let w = x_other ops w;
              (ret, val) = getxattr ops filename name (nat value_len) val w
          in if ret = - 1 then (None, w) else (Some (val[nat value_len := NUL]), w))"

text \<open>The loop over the names in the buffer: \<open>key\<close> is the offset; it prints up to the next NUL and goes on behind it.\<close>

function print_names :: "string \<Rightarrow> nat \<Rightarrow> nat \<Rightarrow> string list kres" where
  "print_names buf n key =
    (if key < n
     then rbind (c_string (drop key buf)) (\<lambda>s. rbind (print_names buf n (key + length s + 1)) (\<lambda>ss. Inr (s # ss)))
     else Inr [])"
  by pat_completeness auto
termination
  by (relation "measure (\<lambda>(buf, n, key). n - key)") auto

declare print_names.simps [simp del]

definition list_xattrs :: "'s xattr_ops \<Rightarrow> string \<Rightarrow> 's \<Rightarrow> string list kres \<times> 's" where
  "list_xattrs ops filename w =
    (let buf_len = fst (listxattr ops filename 0 [] w)
     in if buf_len = - 1 then (Inr [''listxattr failed''], w)
        else if buf_len = 0 then (Inr [''No xattr found.''], w)
        else case x_malloc ops (nat buf_len) of
          None \<Rightarrow> (Inr [''malloc failed''], w)
        | Some buf \<Rightarrow>
          let w = x_other ops w;
              (buf_len, buf) = listxattr ops filename (nat buf_len) buf w
          in if buf_len = - 1 then (Inr [''listxattr failed''], w)
             else (print_names buf (nat buf_len) 0, w))"

section \<open>The test\<close>

text \<open>The assertions of \<open>test_xattr_operations\<close>, and what it prints of the attributes before and after the removal.\<close>

definition test_xattr_operations :: "'s xattr_ops \<Rightarrow> string \<Rightarrow> 's \<Rightarrow> (bool \<times> string list \<times> string list) kres" where
  "test_xattr_operations ops filename w =
    (let name = ''user.test''; val = ''test_value'';
         (result, w) = set_xattr ops filename name val w
     in if result \<noteq> 1 then Inr (False, [], [])
        else let (listed, w) = list_xattrs ops filename w; (retrieved, w) = get_xattr ops filename name w
        in case retrieved of None \<Rightarrow> Inr (False, [], [])
         | Some m \<Rightarrow> rbind listed (\<lambda>listed. rbind (c_string m) (\<lambda>str.
             if str \<noteq> val then Inr (False, listed, [])
             else let (result, w) = remove_xattr ops filename name w
             in if result \<noteq> 1 then Inr (False, listed, [])
                else let (after, w) = list_xattrs ops filename w; (retrieved, w) = get_xattr ops filename name w
                in rbind after (\<lambda>after.
                   case retrieved of None \<Rightarrow> Inr (True, listed, after)
                   | Some m \<Rightarrow> rbind (c_string m) (\<lambda>str. Inr (str = [], listed, after))))))"

section \<open>Reading\<close>

text \<open>
  What the functions rely on of the system: \<open>malloc\<close> finds memory and returns a block of the size asked for; an attribute
  that was set has the value it was set to and is among the names; one that was removed is not; names have no
  NUL; and nobody else changes the attributes between two calls. \<open>listxattr\<close> may fail, and a file system may leave out names; nothing is
  said of such a one: \<open>xattr_laws\<close> asks for a file system whose listing succeeds and has exactly the names that can be read.
\<close>

definition malloc_ok :: "'s xattr_ops \<Rightarrow> bool" where
  "malloc_ok ops \<longleftrightarrow> (\<forall>n. \<exists>m. x_malloc ops n = Some m \<and> length m = n)"

definition xattr_laws :: "'s xattr_ops \<Rightarrow> string \<Rightarrow> bool" where
  "xattr_laws ops path \<longleftrightarrow>
    (\<forall>name val w. fst (x_set ops path name val w) \<longrightarrow> x_get ops path name (snd (x_set ops path name val w)) = Some val) \<and>
    (\<forall>name w. fst (x_remove ops path name w) \<longrightarrow> x_get ops path name (snd (x_remove ops path name w)) = None) \<and>
    (\<forall>w. \<exists>ns. x_names ops path w = Some ns \<and> (\<forall>n \<in> set ns. NUL \<notin> set n) \<and>
      (\<forall>n. n \<in> set ns \<longleftrightarrow> x_get ops path n w \<noteq> None))"

definition undisturbed :: "'s xattr_ops \<Rightarrow> string \<Rightarrow> bool" where
  "undisturbed ops path \<longleftrightarrow>
    (\<forall>w. (\<forall>n. x_get ops path n (x_other ops w) = x_get ops path n w) \<and>
      x_names ops path (x_other ops w) = x_names ops path w)"

lemma c_string_append: "NUL \<notin> set s \<Longrightarrow> c_string (s @ NUL # r) = Inr s"
  unfolding c_string_def by (subst takeWhile_append2) auto

text \<open>The loop prints the names of a buffer of names, each ended by NUL, whatever is behind it.\<close>

lemma print_names_all:
  assumes "\<forall>s \<in> set ns. NUL \<notin> set s"
  shows "print_names (pre @ concat (map (\<lambda>s. s @ [NUL]) ns) @ junk) (length pre + length (concat (map (\<lambda>s. s @ [NUL]) ns))) (length pre) = Inr ns"
  using assms
proof (induction ns arbitrary: pre)
  case Nil
  then show ?case by (subst print_names.simps) simp
next
  case (Cons s ns)
  let ?r = "concat (map (\<lambda>s. s @ [NUL]) ns)"
  have c: "c_string (s @ NUL # ?r @ junk) = Inr s" using Cons.prems by (simp add: c_string_append)
  have "print_names ((pre @ s @ [NUL]) @ ?r @ junk) (length (pre @ s @ [NUL]) + length ?r) (length (pre @ s @ [NUL])) = Inr ns"
    using Cons.IH [of "pre @ s @ [NUL]"] Cons.prems by simp
  then have "print_names (pre @ s @ NUL # ?r @ junk) (Suc (length pre + length s + length ?r)) (Suc (length pre + length s)) = Inr ns"
    by (simp add: add.assoc)
  then show ?case using c by (subst print_names.simps) (simp add: add.assoc)
qed

text \<open>
  What \<open>get_xattr\<close> returns when the value changes between its two calls: a longer value is an error, of a shorter one the
  block has the end of what \<open>malloc\<close> left there, and behind an empty one nothing is read at all.
\<close>

lemma get_xattr_effect:
  assumes "x_get ops path name w = Some v" "x_malloc ops (length v + 1) = Some m" "length m = length v + 1"
    and "x_get ops path name (x_other ops w) = Some v'"
  shows "get_xattr ops path name w =
    (if v = [] then Some [NUL]
     else if length v < length v' then None
     else Some (v' @ take (length v - length v') (drop (length v') m) @ [NUL]), x_other ops w)"
proof -
  have upd: "(v' @ drop (length v') m)[length v := NUL] = v' @ take (length v - length v') (drop (length v') m) @ [NUL]"
    if "length v' \<le> length v"
  proof (rule nth_equalityI)
    show "length ((v' @ drop (length v') m)[length v := NUL]) = length (v' @ take (length v - length v') (drop (length v') m) @ [NUL])"
      using that assms(3) by simp
  next
    fix i
    assume "i < length ((v' @ drop (length v') m)[length v := NUL])"
    then show "(v' @ drop (length v') m)[length v := NUL] ! i = (v' @ take (length v - length v') (drop (length v') m) @ [NUL]) ! i"
      using that assms(3) by (auto simp: nth_list_update nth_append)
  qed
  have one: "m[0 := NUL] = [NUL]" if "v = []" using assms(3) that by (cases m) auto
  show ?thesis
    using assms upd one by (simp add: get_xattr_def getxattr_def into_buffer_def nat_add_distrib)
qed

lemma get_xattr_none:
  "x_get ops path name w = None \<Longrightarrow> get_xattr ops path name w = (None, w)"
  by (simp add: get_xattr_def getxattr_def into_buffer_def)

lemma get_xattr_quiet:
  assumes "x_get ops path name w = Some v" "malloc_ok ops" "undisturbed ops path"
  shows "get_xattr ops path name w = (Some (v @ [NUL]), x_other ops w)"
proof -
  obtain m where m: "x_malloc ops (length v + 1) = Some m" "length m = length v + 1"
    using assms(2) unfolding malloc_ok_def by blast
  have "x_get ops path name (x_other ops w) = Some v" using assms(1,3) by (simp add: undisturbed_def)
  from get_xattr_effect [OF assms(1) m this] show ?thesis by simp
qed

lemma list_xattrs_quiet:
  assumes "x_names ops path w = Some ns" "\<forall>n \<in> set ns. NUL \<notin> set n" "malloc_ok ops" "undisturbed ops path"
  shows "list_xattrs ops path w = (if ns = [] then (Inr [''No xattr found.''], w) else (Inr ns, x_other ops w))"
proof (cases "ns = []")
  case True
  then show ?thesis using assms(1) by (simp add: list_xattrs_def listxattr_def into_buffer_def)
next
  case False
  let ?b = "concat (map (\<lambda>n. n @ [NUL]) ns)"
  obtain m where m: "x_malloc ops (length ?b) = Some m" "length m = length ?b"
    using assms(3) unfolding malloc_ok_def by blast
  have l: "listxattr ops path n buf w' = (if n = 0 then (int (length ?b), buf) else if n < length ?b then (- 1, buf)
      else (int (length ?b), ?b @ drop (length ?b) buf))" if "x_names ops path w' = Some ns" for n buf w'
    using that by (simp add: listxattr_def into_buffer_def)
  have ne: "?b \<noteq> []" using False by (cases ns) auto
  have o: "x_names ops path (x_other ops w) = Some ns" using assms(1,4) by (simp add: undisturbed_def)
  have p: "print_names ?b (length ?b) 0 = Inr ns" using print_names_all [OF assms(2), of "[]" "[]"] by simp
  show ?thesis
    using False ne m p unfolding list_xattrs_def l [OF assms(1)] by (simp add: Let_def l [OF o])
qed

text \<open>What a listing prints of the attributes there are.\<close>

lemma list_xattrs_names:
  assumes "xattr_laws ops path" "malloc_ok ops" "undisturbed ops path"
  shows "\<exists>ns w'. list_xattrs ops path w = (Inr (if ns = [] then [''No xattr found.''] else ns), w') \<and> (w' = w \<or> w' = x_other ops w) \<and>
    (\<forall>n. n \<in> set ns \<longleftrightarrow> x_get ops path n w \<noteq> None)"
proof -
  obtain ns where "x_names ops path w = Some ns" "\<forall>n \<in> set ns. NUL \<notin> set n" "\<forall>n. n \<in> set ns \<longleftrightarrow> x_get ops path n w \<noteq> None"
    using assms(1) unfolding xattr_laws_def by blast
  with list_xattrs_quiet [OF this(1,2) assms(2,3)] show ?thesis by (intro exI [of _ ns]) (cases "ns = []"; simp)
qed

section \<open>The attribute and its test\<close>

lemma set_then_get:
  "xattr_laws ops path \<Longrightarrow> set_xattr ops path name val w = (1, w1) \<Longrightarrow> x_get ops path name w1 = Some val"
  by (auto simp: set_xattr_def xattr_laws_def case_prod_unfold Let_def split: if_splits)

lemma remove_then_get:
  "xattr_laws ops path \<Longrightarrow> remove_xattr ops path name w = (1, w1) \<Longrightarrow> x_get ops path name w1 = None"
  by (auto simp: remove_xattr_def xattr_laws_def case_prod_unfold Let_def split: if_splits)

lemma list_after_set:
  assumes "xattr_laws ops path" "malloc_ok ops" "undisturbed ops path" "x_get ops path name w \<noteq> None"
  shows "\<exists>ns w'. list_xattrs ops path w = (Inr ns, w') \<and> (w' = w \<or> w' = x_other ops w) \<and>
    (\<forall>n. n \<in> set ns \<longleftrightarrow> x_get ops path n w \<noteq> None)"
proof -
  obtain ns w' where ns: "list_xattrs ops path w = (Inr (if ns = [] then [''No xattr found.''] else ns), w')"
      "w' = w \<or> w' = x_other ops w" "\<forall>n. n \<in> set ns \<longleftrightarrow> x_get ops path n w \<noteq> None"
    using list_xattrs_names [OF assms(1-3), of w] by blast
  then have "ns \<noteq> []" using assms(4) by fastforce
  with ns show ?thesis by auto
qed

text \<open>All assertions of the test hold when the calls that set and remove the attribute succeed.\<close>

lemma test_xattr_passes:
  assumes laws: "xattr_laws ops path" "malloc_ok ops" "undisturbed ops path"
    and set: "set_xattr ops path ''user.test'' ''test_value'' w = (1, w1)"
    and remove: "\<forall>w. x_get ops path ''user.test'' w \<noteq> None \<longrightarrow> fst (x_remove ops path ''user.test'' w)"
  shows "\<exists>before after. test_xattr_operations ops path w = Inr (True, before, after) \<and> ''user.test'' \<in> set before \<and> ''user.test'' \<notin> set after"
proof -
  have quiet: "x_get ops path n (x_other ops v) = x_get ops path n v" for n v using laws(3) by (simp add: undisturbed_def)
  have get1: "x_get ops path ''user.test'' w1 = Some ''test_value''" using set_then_get [OF laws(1) set] .
  obtain ns w2 where ns: "list_xattrs ops path w1 = (Inr ns, w2)" "w2 = w1 \<or> w2 = x_other ops w1"
      "\<forall>n. n \<in> set ns \<longleftrightarrow> x_get ops path n w1 \<noteq> None"
    using list_after_set [OF laws, of "''user.test''" w1] get1 by auto
  have get2: "x_get ops path ''user.test'' w2 = Some ''test_value''" using ns(2) get1 quiet by auto
  note g = get_xattr_quiet [OF get2 laws(2,3)]
  have "x_get ops path ''user.test'' (x_other ops w2) \<noteq> None" using get2 unfolding quiet by simp
  with remove have "fst (x_remove ops path ''user.test'' (x_other ops w2))" by blast
  then obtain w3 where r: "remove_xattr ops path ''user.test'' (x_other ops w2) = (1, w3)"
    by (simp add: remove_xattr_def case_prod_unfold)
  have get3: "x_get ops path ''user.test'' w3 = None" using remove_then_get [OF laws(1) r] .
  obtain ms w4 where ms: "list_xattrs ops path w3 = (Inr (if ms = [] then [''No xattr found.''] else ms), w4)"
      "w4 = w3 \<or> w4 = x_other ops w3" "\<forall>n. n \<in> set ms \<longleftrightarrow> x_get ops path n w3 \<noteq> None"
    using list_xattrs_names [OF laws, of w3] by blast
  have get4: "get_xattr ops path ''user.test'' w4 = (None, w4)" using ms(2) get3 quiet by (auto intro: get_xattr_none)
  have str: "c_string (''test_value'' @ [NUL]) = Inr ''test_value''" by (rule c_string_append) simp
  have "test_xattr_operations ops path w = Inr (True, ns, if ms = [] then [''No xattr found.''] else ms)"
    unfolding test_xattr_operations_def Let_def set prod.case ns(1) g option.case rbind_Inr str r ms(1) get4 by simp
  moreover have "''user.test'' \<in> set ns" using ns(3) get1 by simp
  moreover have "''user.test'' \<notin> set (if ms = [] then [''No xattr found.''] else ms)" using ms(3) get3 by simp
  ultimately show ?thesis by blast
qed

text \<open>
  C28: extended attributes. On a file system that lists all attributes it has, when memory does not run out and nobody else changes the attributes
  meanwhile, after an attribute was set
  \<open>get_xattr\<close> returns a block with its value and a NUL, which reads as the value; \<open>list_xattrs\<close> ends, reads nothing outside of its
  buffer and prints exactly the attributes there are, this one among them; after its removal \<open>get_xattr\<close> returns \<open>NULL\<close> and
  the listing does not have it; and all assertions of \<open>test_xattr_operations\<close> hold where removing succeeds. If instead
  the value shrinks between the two calls of \<open>get_xattr\<close>, the result ends with what \<open>malloc\<close> left in the block.
\<close>

theorem xattr_roundtrip:
  assumes "xattr_laws ops path" "malloc_ok ops" "undisturbed ops path"
    and "set_xattr ops path name val w = (1, w1)" "NUL \<notin> set val"
  shows "get_xattr ops path name w1 = (Some (val @ [NUL]), x_other ops w1) \<and>
    c_string (val @ [NUL]) = Inr val \<and>
    (\<exists>ns w2. list_xattrs ops path w1 = (Inr ns, w2) \<and> name \<in> set ns \<and> (\<forall>n. n \<in> set ns \<longleftrightarrow> x_get ops path n w1 \<noteq> None)) \<and>
    (\<forall>w2 w3. remove_xattr ops path name w2 = (1, w3) \<longrightarrow> get_xattr ops path name w3 = (None, w3) \<and>
      (\<exists>ns w4. list_xattrs ops path w3 = (Inr (if ns = [] then [''No xattr found.''] else ns), w4) \<and> name \<notin> set ns)) \<and>
    (name = ''user.test'' \<and> val = ''test_value'' \<and> (\<forall>w. x_get ops path name w \<noteq> None \<longrightarrow> fst (x_remove ops path name w)) \<longrightarrow>
      (\<exists>before after. test_xattr_operations ops path w = Inr (True, before, after) \<and> name \<in> set before \<and> name \<notin> set after)) \<and>
    (\<forall>f v' m. x_get ops path name (f w1) = Some v' \<and> length v' < length val \<and> x_malloc ops (length val + 1) = Some m \<longrightarrow>
      get_xattr (ops\<lparr>x_other := f\<rparr>) path name w1 = (Some (v' @ take (length val - length v') (drop (length v') m) @ [NUL]), f w1))"
proof -
  note get = set_then_get [OF assms(1,4)]
  have list: "\<exists>ns w2. list_xattrs ops path w1 = (Inr ns, w2) \<and> name \<in> set ns \<and> (\<forall>n. n \<in> set ns \<longleftrightarrow> x_get ops path n w1 \<noteq> None)"
    using list_after_set [OF assms(1-3), of name w1] get by fastforce
  have rem: "get_xattr ops path name w3 = (None, w3) \<and>
      (\<exists>ns w4. list_xattrs ops path w3 = (Inr (if ns = [] then [''No xattr found.''] else ns), w4) \<and> name \<notin> set ns)"
    if "remove_xattr ops path name w2 = (1, w3)" for w2 w3
    using list_xattrs_names [OF assms(1-3), of w3] remove_then_get [OF assms(1) that] get_xattr_none [of ops path name w3]
    by blast
  have shrunk: "get_xattr (ops\<lparr>x_other := f\<rparr>) path name w1 = (Some (v' @ take (length val - length v') (drop (length v') m) @ [NUL]), f w1)"
    if "x_get ops path name (f w1) = Some v'" "length v' < length val" "x_malloc ops (length val + 1) = Some m" for f v' m
  proof -
    have m: "length m = length val + 1" using assms(2) that(3) unfolding malloc_ok_def by (metis option.inject)
    show ?thesis
      using get_xattr_effect [of "ops\<lparr>x_other := f\<rparr>" path name w1 val m v'] get that m by auto
  qed
  have test: "\<exists>before after. test_xattr_operations ops path w = Inr (True, before, after) \<and> name \<in> set before \<and> name \<notin> set after"
    if "name = ''user.test'' \<and> val = ''test_value'' \<and> (\<forall>w. x_get ops path name w \<noteq> None \<longrightarrow> fst (x_remove ops path name w))"
    using that test_xattr_passes [OF assms(1-3)] assms(4) by blast
  show ?thesis
    using get_xattr_quiet [OF get assms(2,3)] c_string_append [OF assms(5), of "[]"] list rem test shrunk by blast
qed

text \<open>A file system of one file, a list of attributes, with nobody else on it.\<close>

definition toy_xattrs :: "(string \<times> string) list xattr_ops" where
  "toy_xattrs = \<lparr>x_get = \<lambda>p n w. if NUL \<in> set n then None else map_of w n, x_names = \<lambda>p w. Some (filter (\<lambda>n. NUL \<notin> set n) (map fst w)),
     x_set = \<lambda>p n v w. if NUL \<in> set n then (False, w) else (True, AList.update n v w),
     x_remove = \<lambda>p n w. (True, AList.delete n w), x_other = id, x_malloc = \<lambda>n. Some (replicate n CHR ''#'')\<rparr>"

lemma toy_laws: "xattr_laws toy_xattrs p" "malloc_ok toy_xattrs" "undisturbed toy_xattrs p"
proof -
  have dom: "(\<exists>v. map_of w n = Some v) \<longleftrightarrow> n \<in> fst ` set w" for w n
    using map_of_eq_None_iff [of w n] by (metis option.exhaust option.distinct(1))
  show "xattr_laws toy_xattrs p"
    by (auto simp: xattr_laws_def toy_xattrs_def update_conv' delete_conv' dom image_iff split: if_splits)
  show "malloc_ok toy_xattrs" by (simp add: malloc_ok_def toy_xattrs_def)
  show "undisturbed toy_xattrs p" by (simp add: undisturbed_def toy_xattrs_def)
qed

theorem xattr_roundtrip_witness:
  "get_xattr toy_xattrs ''f'' ''user.a'' [(''user.a'', ''hello'')] = (Some (''hello'' @ [NUL]), [(''user.a'', ''hello'')]) \<and>
   get_xattr (toy_xattrs\<lparr>x_other := \<lambda>w. [(''user.a'', ''ab'')]\<rparr>) ''f'' ''user.a'' [(''user.a'', ''hello'')] =
    (Some (''ab###'' @ [NUL]), [(''user.a'', ''ab'')])"
proof -
  have set: "set_xattr toy_xattrs ''f'' ''user.a'' ''hello'' [] = (1, [(''user.a'', ''hello'')])"
    by (simp add: set_xattr_def toy_xattrs_def)
  have nul: "NUL \<notin> set ''hello''" by simp
  have other: "x_other toy_xattrs w = w" for w by (simp add: toy_xattrs_def)
  note r = xattr_roundtrip [OF toy_laws set nul]
  have m: "x_malloc toy_xattrs (length ''hello'' + 1) = Some ''######''" by (simp add: toy_xattrs_def eval_nat_numeral)
  have v: "x_get toy_xattrs ''f'' ''user.a'' ((\<lambda>w. [(''user.a'', ''ab'')]) [(''user.a'', ''hello'')]) = Some ''ab''"
    by (simp add: toy_xattrs_def)
  from r v m have "get_xattr (toy_xattrs\<lparr>x_other := \<lambda>w. [(''user.a'', ''ab'')]\<rparr>) ''f'' ''user.a'' [(''user.a'', ''hello'')] =
    (Some (''ab'' @ take (length ''hello'' - length ''ab'') (drop (length ''ab'') ''######'') @ [NUL]), [(''user.a'', ''ab'')])"
    by (elim conjE allE [of _ "\<lambda>w. [(''user.a'', ''ab'')]"]) simp
  with r show ?thesis by (simp add: other)
qed

end
