(* ===== verification/Syscall_Table.thy ===== *)
theory Syscall_Table
  imports Kernel_Prelude
begin

text \<open>
  The table of system calls in include/uapi/asm-generic/unistd.h. The header is a list of macro calls, each
  with its number, under preprocessor conditions; an architecture includes it with \<open>__SYSCALL(nr, f)\<close> defined
  as an initialiser \<open>[nr] = f\<close> of its table, so an entry whose number occurs twice silently replaces the
  earlier one. The theory gives the lines with their conditions, expands them for any configuration, and shows
  that no entry replaces another, that all fit the table and that the ranges the header reserves stay free.
\<close>

section \<open>Configuration and macros\<close>

record sc_config =
  bits_32 :: bool
  sc_compat :: bool
  want_time32 :: bool
  want_renameat :: bool
  want_new_stat :: bool
  want_stat64 :: bool
  want_sync_file_range2 :: bool
  want_set_get_rlimit :: bool
  arch_nommu :: bool
  want_sys_clone3 :: bool
  want_memfd_secret :: bool

text \<open>The conditions the header uses, and their value.\<close>

datatype sc_guard = Always | G_time32 | G_renameat | G_stat | G_sync2 | G_no_sync2 | G_rlimit | G_mmu | G_32bit
  | G_clone3 | G_memfd_secret

fun guard_holds :: "'a sc_config_scheme \<Rightarrow> sc_guard \<Rightarrow> bool" where
  "guard_holds c Always = True"
| "guard_holds c G_time32 = (want_time32 c \<or> \<not> bits_32 c)"
| "guard_holds c G_renameat = want_renameat c"
| "guard_holds c G_stat = (want_new_stat c \<or> want_stat64 c)"
| "guard_holds c G_sync2 = want_sync_file_range2 c"
| "guard_holds c G_no_sync2 = (\<not> want_sync_file_range2 c)"
| "guard_holds c G_rlimit = want_set_get_rlimit c"
| "guard_holds c G_mmu = (\<not> arch_nommu c)"
| "guard_holds c G_32bit = bits_32 c"
| "guard_holds c G_clone3 = want_sys_clone3 c"
| "guard_holds c G_memfd_secret = want_memfd_secret c"

text \<open>The macros, with the functions they choose from.\<close>

datatype sc_macro =
    SYSCALL string
  | SC_3264 string string
  | SC_COMP string string
  | SC_COMP_3264 string string string

definition sc_3264 :: "'a sc_config_scheme \<Rightarrow> string \<Rightarrow> string \<Rightarrow> string" where
  "sc_3264 c f32 f64 = (if bits_32 c \<or> sc_compat c then f32 else f64)"

fun sc_entry :: "'a sc_config_scheme \<Rightarrow> sc_macro \<Rightarrow> string" where
  "sc_entry c (SYSCALL f) = f"
| "sc_entry c (SC_3264 f32 f64) = sc_3264 c f32 f64"
| "sc_entry c (SC_COMP native cf) = (if sc_compat c then cf else native)"
| "sc_entry c (SC_COMP_3264 f32 f64 cf) = (if sc_compat c then cf else sc_3264 c f32 f64)"

text \<open>
  A line: its condition, the name behind \<open>__NR_\<close> (\<open>3264_fcntl\<close> for \<open>__NR3264_fcntl\<close>), its number and the macro
  call.
\<close>

type_synonym sc_line = "sc_guard \<times> string \<times> nat \<times> sc_macro"

section \<open>The lines of the header\<close>

definition sc_lines1 :: "sc_line list" where
  "sc_lines1 =
   [(Always, ''io_setup'', 0, SC_COMP ''sys_io_setup'' ''compat_sys_io_setup''),
    (Always, ''io_destroy'', 1, SYSCALL ''sys_io_destroy''),
    (Always, ''io_submit'', 2, SC_COMP ''sys_io_submit'' ''compat_sys_io_submit''),
    (Always, ''io_cancel'', 3, SYSCALL ''sys_io_cancel''),
    (G_time32, ''io_getevents'', 4, SC_3264 ''sys_io_getevents_time32'' ''sys_io_getevents''),
    (Always, ''setxattr'', 5, SYSCALL ''sys_setxattr''),
    (Always, ''lsetxattr'', 6, SYSCALL ''sys_lsetxattr''),
    (Always, ''fsetxattr'', 7, SYSCALL ''sys_fsetxattr''),
    (Always, ''getxattr'', 8, SYSCALL ''sys_getxattr''),
    (Always, ''lgetxattr'', 9, SYSCALL ''sys_lgetxattr''),
    (Always, ''fgetxattr'', 10, SYSCALL ''sys_fgetxattr''),
    (Always, ''listxattr'', 11, SYSCALL ''sys_listxattr''),
    (Always, ''llistxattr'', 12, SYSCALL ''sys_llistxattr''),
    (Always, ''flistxattr'', 13, SYSCALL ''sys_flistxattr''),
    (Always, ''removexattr'', 14, SYSCALL ''sys_removexattr''),
    (Always, ''lremovexattr'', 15, SYSCALL ''sys_lremovexattr''),
    (Always, ''fremovexattr'', 16, SYSCALL ''sys_fremovexattr''),
    (Always, ''getcwd'', 17, SYSCALL ''sys_getcwd''),
    (Always, ''lookup_dcookie'', 18, SC_COMP ''sys_lookup_dcookie'' ''compat_sys_lookup_dcookie''),
    (Always, ''eventfd2'', 19, SYSCALL ''sys_eventfd2''),
    (Always, ''epoll_create1'', 20, SYSCALL ''sys_epoll_create1''),
    (Always, ''epoll_ctl'', 21, SYSCALL ''sys_epoll_ctl''),
    (Always, ''epoll_pwait'', 22, SC_COMP ''sys_epoll_pwait'' ''compat_sys_epoll_pwait''),
    (Always, ''dup'', 23, SYSCALL ''sys_dup''),
    (Always, ''dup3'', 24, SYSCALL ''sys_dup3''),
    (Always, ''3264_fcntl'', 25, SC_COMP_3264 ''sys_fcntl64'' ''sys_fcntl'' ''compat_sys_fcntl64''),
    (Always, ''inotify_init1'', 26, SYSCALL ''sys_inotify_init1''),
    (Always, ''inotify_add_watch'', 27, SYSCALL ''sys_inotify_add_watch''),
    (Always, ''inotify_rm_watch'', 28, SYSCALL ''sys_inotify_rm_watch''),
    (Always, ''ioctl'', 29, SC_COMP ''sys_ioctl'' ''compat_sys_ioctl''),
    (Always, ''ioprio_set'', 30, SYSCALL ''sys_ioprio_set''),
    (Always, ''ioprio_get'', 31, SYSCALL ''sys_ioprio_get''),
    (Always, ''flock'', 32, SYSCALL ''sys_flock''),
    (Always, ''mknodat'', 33, SYSCALL ''sys_mknodat''),
    (Always, ''mkdirat'', 34, SYSCALL ''sys_mkdirat''),
    (Always, ''unlinkat'', 35, SYSCALL ''sys_unlinkat''),
    (Always, ''symlinkat'', 36, SYSCALL ''sys_symlinkat''),
    (Always, ''linkat'', 37, SYSCALL ''sys_linkat''),
    (G_renameat, ''renameat'', 38, SYSCALL ''sys_renameat''),
    (Always, ''umount2'', 39, SYSCALL ''sys_umount''),
    (Always, ''mount'', 40, SYSCALL ''sys_mount''),
    (Always, ''pivot_root'', 41, SYSCALL ''sys_pivot_root''),
    (Always, ''nfsservctl'', 42, SYSCALL ''sys_ni_syscall''),
    (Always, ''3264_statfs'', 43, SC_COMP_3264 ''sys_statfs64'' ''sys_statfs'' ''compat_sys_statfs64''),
    (Always, ''3264_fstatfs'', 44, SC_COMP_3264 ''sys_fstatfs64'' ''sys_fstatfs'' ''compat_sys_fstatfs64''),
    (Always, ''3264_truncate'', 45, SC_COMP_3264 ''sys_truncate64'' ''sys_truncate'' ''compat_sys_truncate64''),
    (Always, ''3264_ftruncate'', 46, SC_COMP_3264 ''sys_ftruncate64'' ''sys_ftruncate'' ''compat_sys_ftruncate64''),
    (Always, ''fallocate'', 47, SC_COMP ''sys_fallocate'' ''compat_sys_fallocate''),
    (Always, ''faccessat'', 48, SYSCALL ''sys_faccessat''),
    (Always, ''chdir'', 49, SYSCALL ''sys_chdir'')]"

definition sc_lines2 :: "sc_line list" where
  "sc_lines2 =
   [(Always, ''fchdir'', 50, SYSCALL ''sys_fchdir''),
    (Always, ''chroot'', 51, SYSCALL ''sys_chroot''),
    (Always, ''fchmod'', 52, SYSCALL ''sys_fchmod''),
    (Always, ''fchmodat'', 53, SYSCALL ''sys_fchmodat''),
    (Always, ''fchownat'', 54, SYSCALL ''sys_fchownat''),
    (Always, ''fchown'', 55, SYSCALL ''sys_fchown''),
    (Always, ''openat'', 56, SYSCALL ''sys_openat''),
    (Always, ''close'', 57, SYSCALL ''sys_close''),
    (Always, ''vhangup'', 58, SYSCALL ''sys_vhangup''),
    (Always, ''pipe2'', 59, SYSCALL ''sys_pipe2''),
    (Always, ''quotactl'', 60, SYSCALL ''sys_quotactl''),
    (Always, ''getdents64'', 61, SYSCALL ''sys_getdents64''),
    (Always, ''3264_lseek'', 62, SC_3264 ''sys_llseek'' ''sys_lseek''),
    (Always, ''read'', 63, SYSCALL ''sys_read''),
    (Always, ''write'', 64, SYSCALL ''sys_write''),
    (Always, ''readv'', 65, SC_COMP ''sys_readv'' ''sys_readv''),
    (Always, ''writev'', 66, SC_COMP ''sys_writev'' ''sys_writev''),
    (Always, ''pread64'', 67, SC_COMP ''sys_pread64'' ''compat_sys_pread64''),
    (Always, ''pwrite64'', 68, SC_COMP ''sys_pwrite64'' ''compat_sys_pwrite64''),
    (Always, ''preadv'', 69, SC_COMP ''sys_preadv'' ''compat_sys_preadv''),
    (Always, ''pwritev'', 70, SC_COMP ''sys_pwritev'' ''compat_sys_pwritev''),
    (Always, ''3264_sendfile'', 71, SYSCALL ''sys_sendfile64''),
    (G_time32, ''pselect6'', 72, SC_COMP_3264 ''sys_pselect6_time32'' ''sys_pselect6'' ''compat_sys_pselect6_time32''),
    (G_time32, ''ppoll'', 73, SC_COMP_3264 ''sys_ppoll_time32'' ''sys_ppoll'' ''compat_sys_ppoll_time32''),
    (Always, ''signalfd4'', 74, SC_COMP ''sys_signalfd4'' ''compat_sys_signalfd4''),
    (Always, ''vmsplice'', 75, SYSCALL ''sys_vmsplice''),
    (Always, ''splice'', 76, SYSCALL ''sys_splice''),
    (Always, ''tee'', 77, SYSCALL ''sys_tee''),
    (Always, ''readlinkat'', 78, SYSCALL ''sys_readlinkat''),
    (G_stat, ''3264_fstatat'', 79, SC_3264 ''sys_fstatat64'' ''sys_newfstatat''),
    (G_stat, ''3264_fstat'', 80, SC_3264 ''sys_fstat64'' ''sys_newfstat''),
    (Always, ''sync'', 81, SYSCALL ''sys_sync''),
    (Always, ''fsync'', 82, SYSCALL ''sys_fsync''),
    (Always, ''fdatasync'', 83, SYSCALL ''sys_fdatasync''),
    (G_sync2, ''sync_file_range2'', 84, SC_COMP ''sys_sync_file_range2'' ''compat_sys_sync_file_range2''),
    (G_no_sync2, ''sync_file_range'', 84, SC_COMP ''sys_sync_file_range'' ''compat_sys_sync_file_range''),
    (Always, ''timerfd_create'', 85, SYSCALL ''sys_timerfd_create''),
    (G_time32, ''timerfd_settime'', 86, SC_3264 ''sys_timerfd_settime32'' ''sys_timerfd_settime''),
    (G_time32, ''timerfd_gettime'', 87, SC_3264 ''sys_timerfd_gettime32'' ''sys_timerfd_gettime''),
    (G_time32, ''utimensat'', 88, SC_3264 ''sys_utimensat_time32'' ''sys_utimensat''),
    (Always, ''acct'', 89, SYSCALL ''sys_acct''),
    (Always, ''capget'', 90, SYSCALL ''sys_capget''),
    (Always, ''capset'', 91, SYSCALL ''sys_capset''),
    (Always, ''personality'', 92, SYSCALL ''sys_personality''),
    (Always, ''exit'', 93, SYSCALL ''sys_exit'')]"

definition sc_lines3 :: "sc_line list" where
  "sc_lines3 =
   [(Always, ''exit_group'', 94, SYSCALL ''sys_exit_group''),
    (Always, ''waitid'', 95, SC_COMP ''sys_waitid'' ''compat_sys_waitid''),
    (Always, ''set_tid_address'', 96, SYSCALL ''sys_set_tid_address''),
    (Always, ''unshare'', 97, SYSCALL ''sys_unshare''),
    (G_time32, ''futex'', 98, SC_3264 ''sys_futex_time32'' ''sys_futex''),
    (Always, ''set_robust_list'', 99, SC_COMP ''sys_set_robust_list'' ''compat_sys_set_robust_list''),
    (Always, ''get_robust_list'', 100, SC_COMP ''sys_get_robust_list'' ''compat_sys_get_robust_list''),
    (G_time32, ''nanosleep'', 101, SC_3264 ''sys_nanosleep_time32'' ''sys_nanosleep''),
    (Always, ''getitimer'', 102, SC_COMP ''sys_getitimer'' ''compat_sys_getitimer''),
    (Always, ''setitimer'', 103, SC_COMP ''sys_setitimer'' ''compat_sys_setitimer''),
    (Always, ''kexec_load'', 104, SC_COMP ''sys_kexec_load'' ''compat_sys_kexec_load''),
    (Always, ''init_module'', 105, SYSCALL ''sys_init_module''),
    (Always, ''delete_module'', 106, SYSCALL ''sys_delete_module''),
    (Always, ''timer_create'', 107, SC_COMP ''sys_timer_create'' ''compat_sys_timer_create''),
    (G_time32, ''timer_gettime'', 108, SC_3264 ''sys_timer_gettime32'' ''sys_timer_gettime''),
    (Always, ''timer_getoverrun'', 109, SYSCALL ''sys_timer_getoverrun''),
    (G_time32, ''timer_settime'', 110, SC_3264 ''sys_timer_settime32'' ''sys_timer_settime''),
    (Always, ''timer_delete'', 111, SYSCALL ''sys_timer_delete''),
    (G_time32, ''clock_settime'', 112, SC_3264 ''sys_clock_settime32'' ''sys_clock_settime''),
    (G_time32, ''clock_gettime'', 113, SC_3264 ''sys_clock_gettime32'' ''sys_clock_gettime''),
    (G_time32, ''clock_getres'', 114, SC_3264 ''sys_clock_getres_time32'' ''sys_clock_getres''),
    (G_time32, ''clock_nanosleep'', 115, SC_3264 ''sys_clock_nanosleep_time32'' ''sys_clock_nanosleep''),
    (Always, ''syslog'', 116, SYSCALL ''sys_syslog''),
    (Always, ''ptrace'', 117, SYSCALL ''sys_ptrace''),
    (Always, ''sched_setparam'', 118, SYSCALL ''sys_sched_setparam''),
    (Always, ''sched_setscheduler'', 119, SYSCALL ''sys_sched_setscheduler''),
    (Always, ''sched_getscheduler'', 120, SYSCALL ''sys_sched_getscheduler''),
    (Always, ''sched_getparam'', 121, SYSCALL ''sys_sched_getparam''),
    (Always, ''sched_setaffinity'', 122, SC_COMP ''sys_sched_setaffinity'' ''compat_sys_sched_setaffinity''),
    (Always, ''sched_getaffinity'', 123, SC_COMP ''sys_sched_getaffinity'' ''compat_sys_sched_getaffinity''),
    (Always, ''sched_yield'', 124, SYSCALL ''sys_sched_yield''),
    (Always, ''sched_get_priority_max'', 125, SYSCALL ''sys_sched_get_priority_max''),
    (Always, ''sched_get_priority_min'', 126, SYSCALL ''sys_sched_get_priority_min''),
    (G_time32, ''sched_rr_get_interval'', 127, SC_3264 ''sys_sched_rr_get_interval_time32'' ''sys_sched_rr_get_interval''),
    (Always, ''restart_syscall'', 128, SYSCALL ''sys_restart_syscall''),
    (Always, ''kill'', 129, SYSCALL ''sys_kill''),
    (Always, ''tkill'', 130, SYSCALL ''sys_tkill''),
    (Always, ''tgkill'', 131, SYSCALL ''sys_tgkill''),
    (Always, ''sigaltstack'', 132, SC_COMP ''sys_sigaltstack'' ''compat_sys_sigaltstack''),
    (Always, ''rt_sigsuspend'', 133, SC_COMP ''sys_rt_sigsuspend'' ''compat_sys_rt_sigsuspend''),
    (Always, ''rt_sigaction'', 134, SC_COMP ''sys_rt_sigaction'' ''compat_sys_rt_sigaction''),
    (Always, ''rt_sigprocmask'', 135, SC_COMP ''sys_rt_sigprocmask'' ''compat_sys_rt_sigprocmask''),
    (Always, ''rt_sigpending'', 136, SC_COMP ''sys_rt_sigpending'' ''compat_sys_rt_sigpending''),
    (G_time32, ''rt_sigtimedwait'', 137, SC_COMP_3264 ''sys_rt_sigtimedwait_time32'' ''sys_rt_sigtimedwait'' ''compat_sys_rt_sigtimedwait_time32''),
    (Always, ''rt_sigqueueinfo'', 138, SC_COMP ''sys_rt_sigqueueinfo'' ''compat_sys_rt_sigqueueinfo''),
    (Always, ''rt_sigreturn'', 139, SC_COMP ''sys_rt_sigreturn'' ''compat_sys_rt_sigreturn'')]"

definition sc_lines4 :: "sc_line list" where
  "sc_lines4 =
   [(Always, ''setpriority'', 140, SYSCALL ''sys_setpriority''),
    (Always, ''getpriority'', 141, SYSCALL ''sys_getpriority''),
    (Always, ''reboot'', 142, SYSCALL ''sys_reboot''),
    (Always, ''setregid'', 143, SYSCALL ''sys_setregid''),
    (Always, ''setgid'', 144, SYSCALL ''sys_setgid''),
    (Always, ''setreuid'', 145, SYSCALL ''sys_setreuid''),
    (Always, ''setuid'', 146, SYSCALL ''sys_setuid''),
    (Always, ''setresuid'', 147, SYSCALL ''sys_setresuid''),
    (Always, ''getresuid'', 148, SYSCALL ''sys_getresuid''),
    (Always, ''setresgid'', 149, SYSCALL ''sys_setresgid''),
    (Always, ''getresgid'', 150, SYSCALL ''sys_getresgid''),
    (Always, ''setfsuid'', 151, SYSCALL ''sys_setfsuid''),
    (Always, ''setfsgid'', 152, SYSCALL ''sys_setfsgid''),
    (Always, ''times'', 153, SC_COMP ''sys_times'' ''compat_sys_times''),
    (Always, ''setpgid'', 154, SYSCALL ''sys_setpgid''),
    (Always, ''getpgid'', 155, SYSCALL ''sys_getpgid''),
    (Always, ''getsid'', 156, SYSCALL ''sys_getsid''),
    (Always, ''setsid'', 157, SYSCALL ''sys_setsid''),
    (Always, ''getgroups'', 158, SYSCALL ''sys_getgroups''),
    (Always, ''setgroups'', 159, SYSCALL ''sys_setgroups''),
    (Always, ''uname'', 160, SYSCALL ''sys_newuname''),
    (Always, ''sethostname'', 161, SYSCALL ''sys_sethostname''),
    (Always, ''setdomainname'', 162, SYSCALL ''sys_setdomainname''),
    (G_rlimit, ''getrlimit'', 163, SC_COMP ''sys_getrlimit'' ''compat_sys_getrlimit''),
    (G_rlimit, ''setrlimit'', 164, SC_COMP ''sys_setrlimit'' ''compat_sys_setrlimit''),
    (Always, ''getrusage'', 165, SC_COMP ''sys_getrusage'' ''compat_sys_getrusage''),
    (Always, ''umask'', 166, SYSCALL ''sys_umask''),
    (Always, ''prctl'', 167, SYSCALL ''sys_prctl''),
    (Always, ''getcpu'', 168, SYSCALL ''sys_getcpu''),
    (G_time32, ''gettimeofday'', 169, SC_COMP ''sys_gettimeofday'' ''compat_sys_gettimeofday''),
    (G_time32, ''settimeofday'', 170, SC_COMP ''sys_settimeofday'' ''compat_sys_settimeofday''),
    (G_time32, ''adjtimex'', 171, SC_3264 ''sys_adjtimex_time32'' ''sys_adjtimex''),
    (Always, ''getpid'', 172, SYSCALL ''sys_getpid''),
    (Always, ''getppid'', 173, SYSCALL ''sys_getppid''),
    (Always, ''getuid'', 174, SYSCALL ''sys_getuid''),
    (Always, ''geteuid'', 175, SYSCALL ''sys_geteuid''),
    (Always, ''getgid'', 176, SYSCALL ''sys_getgid''),
    (Always, ''getegid'', 177, SYSCALL ''sys_getegid''),
    (Always, ''gettid'', 178, SYSCALL ''sys_gettid''),
    (Always, ''sysinfo'', 179, SC_COMP ''sys_sysinfo'' ''compat_sys_sysinfo''),
    (Always, ''mq_open'', 180, SC_COMP ''sys_mq_open'' ''compat_sys_mq_open''),
    (Always, ''mq_unlink'', 181, SYSCALL ''sys_mq_unlink''),
    (G_time32, ''mq_timedsend'', 182, SC_3264 ''sys_mq_timedsend_time32'' ''sys_mq_timedsend''),
    (G_time32, ''mq_timedreceive'', 183, SC_3264 ''sys_mq_timedreceive_time32'' ''sys_mq_timedreceive''),
    (Always, ''mq_notify'', 184, SC_COMP ''sys_mq_notify'' ''compat_sys_mq_notify''),
    (Always, ''mq_getsetattr'', 185, SC_COMP ''sys_mq_getsetattr'' ''compat_sys_mq_getsetattr''),
    (Always, ''msgget'', 186, SYSCALL ''sys_msgget''),
    (Always, ''msgctl'', 187, SC_COMP ''sys_msgctl'' ''compat_sys_msgctl''),
    (Always, ''msgrcv'', 188, SC_COMP ''sys_msgrcv'' ''compat_sys_msgrcv''),
    (Always, ''msgsnd'', 189, SC_COMP ''sys_msgsnd'' ''compat_sys_msgsnd''),
    (Always, ''semget'', 190, SYSCALL ''sys_semget''),
    (Always, ''semctl'', 191, SC_COMP ''sys_semctl'' ''compat_sys_semctl''),
    (G_time32, ''semtimedop'', 192, SC_3264 ''sys_semtimedop_time32'' ''sys_semtimedop''),
    (Always, ''semop'', 193, SYSCALL ''sys_semop''),
    (Always, ''shmget'', 194, SYSCALL ''sys_shmget''),
    (Always, ''shmctl'', 195, SC_COMP ''sys_shmctl'' ''compat_sys_shmctl''),
    (Always, ''shmat'', 196, SC_COMP ''sys_shmat'' ''compat_sys_shmat'')]"

definition sc_lines5 :: "sc_line list" where
  "sc_lines5 =
   [(Always, ''shmdt'', 197, SYSCALL ''sys_shmdt''),
    (Always, ''socket'', 198, SYSCALL ''sys_socket''),
    (Always, ''socketpair'', 199, SYSCALL ''sys_socketpair''),
    (Always, ''bind'', 200, SYSCALL ''sys_bind''),
    (Always, ''listen'', 201, SYSCALL ''sys_listen''),
    (Always, ''accept'', 202, SYSCALL ''sys_accept''),
    (Always, ''connect'', 203, SYSCALL ''sys_connect''),
    (Always, ''getsockname'', 204, SYSCALL ''sys_getsockname''),
    (Always, ''getpeername'', 205, SYSCALL ''sys_getpeername''),
    (Always, ''sendto'', 206, SYSCALL ''sys_sendto''),
    (Always, ''recvfrom'', 207, SC_COMP ''sys_recvfrom'' ''compat_sys_recvfrom''),
    (Always, ''setsockopt'', 208, SC_COMP ''sys_setsockopt'' ''sys_setsockopt''),
    (Always, ''getsockopt'', 209, SC_COMP ''sys_getsockopt'' ''sys_getsockopt''),
    (Always, ''shutdown'', 210, SYSCALL ''sys_shutdown''),
    (Always, ''sendmsg'', 211, SC_COMP ''sys_sendmsg'' ''compat_sys_sendmsg''),
    (Always, ''recvmsg'', 212, SC_COMP ''sys_recvmsg'' ''compat_sys_recvmsg''),
    (Always, ''readahead'', 213, SC_COMP ''sys_readahead'' ''compat_sys_readahead''),
    (Always, ''brk'', 214, SYSCALL ''sys_brk''),
    (Always, ''munmap'', 215, SYSCALL ''sys_munmap''),
    (Always, ''mremap'', 216, SYSCALL ''sys_mremap''),
    (Always, ''add_key'', 217, SYSCALL ''sys_add_key''),
    (Always, ''request_key'', 218, SYSCALL ''sys_request_key''),
    (Always, ''keyctl'', 219, SC_COMP ''sys_keyctl'' ''compat_sys_keyctl''),
    (Always, ''clone'', 220, SYSCALL ''sys_clone''),
    (Always, ''execve'', 221, SC_COMP ''sys_execve'' ''compat_sys_execve''),
    (Always, ''3264_mmap'', 222, SC_3264 ''sys_mmap2'' ''sys_mmap''),
    (Always, ''3264_fadvise64'', 223, SC_COMP ''sys_fadvise64_64'' ''compat_sys_fadvise64_64''),
    (G_mmu, ''swapon'', 224, SYSCALL ''sys_swapon''),
    (G_mmu, ''swapoff'', 225, SYSCALL ''sys_swapoff''),
    (G_mmu, ''mprotect'', 226, SYSCALL ''sys_mprotect''),
    (G_mmu, ''msync'', 227, SYSCALL ''sys_msync''),
    (G_mmu, ''mlock'', 228, SYSCALL ''sys_mlock''),
    (G_mmu, ''munlock'', 229, SYSCALL ''sys_munlock''),
    (G_mmu, ''mlockall'', 230, SYSCALL ''sys_mlockall''),
    (G_mmu, ''munlockall'', 231, SYSCALL ''sys_munlockall''),
    (G_mmu, ''mincore'', 232, SYSCALL ''sys_mincore''),
    (G_mmu, ''madvise'', 233, SYSCALL ''sys_madvise''),
    (G_mmu, ''remap_file_pages'', 234, SYSCALL ''sys_remap_file_pages''),
    (G_mmu, ''mbind'', 235, SYSCALL ''sys_mbind''),
    (G_mmu, ''get_mempolicy'', 236, SYSCALL ''sys_get_mempolicy''),
    (G_mmu, ''set_mempolicy'', 237, SYSCALL ''sys_set_mempolicy''),
    (G_mmu, ''migrate_pages'', 238, SYSCALL ''sys_migrate_pages''),
    (G_mmu, ''move_pages'', 239, SYSCALL ''sys_move_pages''),
    (Always, ''rt_tgsigqueueinfo'', 240, SC_COMP ''sys_rt_tgsigqueueinfo'' ''compat_sys_rt_tgsigqueueinfo''),
    (Always, ''perf_event_open'', 241, SYSCALL ''sys_perf_event_open''),
    (Always, ''accept4'', 242, SYSCALL ''sys_accept4''),
    (G_time32, ''recvmmsg'', 243, SC_COMP_3264 ''sys_recvmmsg_time32'' ''sys_recvmmsg'' ''compat_sys_recvmmsg_time32''),
    (G_time32, ''wait4'', 260, SC_COMP ''sys_wait4'' ''compat_sys_wait4''),
    (Always, ''prlimit64'', 261, SYSCALL ''sys_prlimit64''),
    (Always, ''fanotify_init'', 262, SYSCALL ''sys_fanotify_init''),
    (Always, ''fanotify_mark'', 263, SYSCALL ''sys_fanotify_mark''),
    (Always, ''name_to_handle_at'', 264, SYSCALL ''sys_name_to_handle_at''),
    (Always, ''open_by_handle_at'', 265, SYSCALL ''sys_open_by_handle_at''),
    (G_time32, ''clock_adjtime'', 266, SC_3264 ''sys_clock_adjtime32'' ''sys_clock_adjtime'')]"

definition sc_lines6 :: "sc_line list" where
  "sc_lines6 =
   [(Always, ''syncfs'', 267, SYSCALL ''sys_syncfs''),
    (Always, ''setns'', 268, SYSCALL ''sys_setns''),
    (Always, ''sendmmsg'', 269, SC_COMP ''sys_sendmmsg'' ''compat_sys_sendmmsg''),
    (Always, ''process_vm_readv'', 270, SYSCALL ''sys_process_vm_readv''),
    (Always, ''process_vm_writev'', 271, SYSCALL ''sys_process_vm_writev''),
    (Always, ''kcmp'', 272, SYSCALL ''sys_kcmp''),
    (Always, ''finit_module'', 273, SYSCALL ''sys_finit_module''),
    (Always, ''sched_setattr'', 274, SYSCALL ''sys_sched_setattr''),
    (Always, ''sched_getattr'', 275, SYSCALL ''sys_sched_getattr''),
    (Always, ''renameat2'', 276, SYSCALL ''sys_renameat2''),
    (Always, ''seccomp'', 277, SYSCALL ''sys_seccomp''),
    (Always, ''getrandom'', 278, SYSCALL ''sys_getrandom''),
    (Always, ''memfd_create'', 279, SYSCALL ''sys_memfd_create''),
    (Always, ''bpf'', 280, SYSCALL ''sys_bpf''),
    (Always, ''execveat'', 281, SC_COMP ''sys_execveat'' ''compat_sys_execveat''),
    (Always, ''userfaultfd'', 282, SYSCALL ''sys_userfaultfd''),
    (Always, ''membarrier'', 283, SYSCALL ''sys_membarrier''),
    (Always, ''mlock2'', 284, SYSCALL ''sys_mlock2''),
    (Always, ''copy_file_range'', 285, SYSCALL ''sys_copy_file_range''),
    (Always, ''preadv2'', 286, SC_COMP ''sys_preadv2'' ''compat_sys_preadv2''),
    (Always, ''pwritev2'', 287, SC_COMP ''sys_pwritev2'' ''compat_sys_pwritev2''),
    (Always, ''pkey_mprotect'', 288, SYSCALL ''sys_pkey_mprotect''),
    (Always, ''pkey_alloc'', 289, SYSCALL ''sys_pkey_alloc''),
    (Always, ''pkey_free'', 290, SYSCALL ''sys_pkey_free''),
    (Always, ''statx'', 291, SYSCALL ''sys_statx''),
    (G_time32, ''io_pgetevents'', 292, SC_COMP_3264 ''sys_io_pgetevents_time32'' ''sys_io_pgetevents'' ''compat_sys_io_pgetevents''),
    (Always, ''rseq'', 293, SYSCALL ''sys_rseq''),
    (Always, ''kexec_file_load'', 294, SYSCALL ''sys_kexec_file_load''),
    (G_32bit, ''clock_gettime64'', 403, SYSCALL ''sys_clock_gettime''),
    (G_32bit, ''clock_settime64'', 404, SYSCALL ''sys_clock_settime''),
    (G_32bit, ''clock_adjtime64'', 405, SYSCALL ''sys_clock_adjtime''),
    (G_32bit, ''clock_getres_time64'', 406, SYSCALL ''sys_clock_getres''),
    (G_32bit, ''clock_nanosleep_time64'', 407, SYSCALL ''sys_clock_nanosleep''),
    (G_32bit, ''timer_gettime64'', 408, SYSCALL ''sys_timer_gettime''),
    (G_32bit, ''timer_settime64'', 409, SYSCALL ''sys_timer_settime''),
    (G_32bit, ''timerfd_gettime64'', 410, SYSCALL ''sys_timerfd_gettime''),
    (G_32bit, ''timerfd_settime64'', 411, SYSCALL ''sys_timerfd_settime''),
    (G_32bit, ''utimensat_time64'', 412, SYSCALL ''sys_utimensat''),
    (G_32bit, ''pselect6_time64'', 413, SC_COMP ''sys_pselect6'' ''compat_sys_pselect6_time64''),
    (G_32bit, ''ppoll_time64'', 414, SC_COMP ''sys_ppoll'' ''compat_sys_ppoll_time64''),
    (G_32bit, ''io_pgetevents_time64'', 416, SC_COMP ''sys_io_pgetevents'' ''compat_sys_io_pgetevents_time64''),
    (G_32bit, ''recvmmsg_time64'', 417, SC_COMP ''sys_recvmmsg'' ''compat_sys_recvmmsg_time64''),
    (G_32bit, ''mq_timedsend_time64'', 418, SYSCALL ''sys_mq_timedsend''),
    (G_32bit, ''mq_timedreceive_time64'', 419, SYSCALL ''sys_mq_timedreceive''),
    (G_32bit, ''semtimedop_time64'', 420, SYSCALL ''sys_semtimedop''),
    (G_32bit, ''rt_sigtimedwait_time64'', 421, SC_COMP ''sys_rt_sigtimedwait'' ''compat_sys_rt_sigtimedwait_time64''),
    (G_32bit, ''futex_time64'', 422, SYSCALL ''sys_futex''),
    (G_32bit, ''sched_rr_get_interval_time64'', 423, SYSCALL ''sys_sched_rr_get_interval''),
    (Always, ''pidfd_send_signal'', 424, SYSCALL ''sys_pidfd_send_signal''),
    (Always, ''io_uring_setup'', 425, SYSCALL ''sys_io_uring_setup''),
    (Always, ''io_uring_enter'', 426, SYSCALL ''sys_io_uring_enter''),
    (Always, ''io_uring_register'', 427, SYSCALL ''sys_io_uring_register''),
    (Always, ''open_tree'', 428, SYSCALL ''sys_open_tree''),
    (Always, ''move_mount'', 429, SYSCALL ''sys_move_mount''),
    (Always, ''fsopen'', 430, SYSCALL ''sys_fsopen''),
    (Always, ''fsconfig'', 431, SYSCALL ''sys_fsconfig''),
    (Always, ''fsmount'', 432, SYSCALL ''sys_fsmount''),
    (Always, ''fspick'', 433, SYSCALL ''sys_fspick''),
    (Always, ''pidfd_open'', 434, SYSCALL ''sys_pidfd_open''),
    (G_clone3, ''clone3'', 435, SYSCALL ''sys_clone3''),
    (Always, ''close_range'', 436, SYSCALL ''sys_close_range''),
    (Always, ''openat2'', 437, SYSCALL ''sys_openat2''),
    (Always, ''pidfd_getfd'', 438, SYSCALL ''sys_pidfd_getfd''),
    (Always, ''faccessat2'', 439, SYSCALL ''sys_faccessat2'')]"

definition sc_lines7 :: "sc_line list" where
  "sc_lines7 =
   [(Always, ''process_madvise'', 440, SYSCALL ''sys_process_madvise''),
    (Always, ''epoll_pwait2'', 441, SC_COMP ''sys_epoll_pwait2'' ''compat_sys_epoll_pwait2''),
    (Always, ''mount_setattr'', 442, SYSCALL ''sys_mount_setattr''),
    (Always, ''quotactl_fd'', 443, SYSCALL ''sys_quotactl_fd''),
    (Always, ''landlock_create_ruleset'', 444, SYSCALL ''sys_landlock_create_ruleset''),
    (Always, ''landlock_add_rule'', 445, SYSCALL ''sys_landlock_add_rule''),
    (Always, ''landlock_restrict_self'', 446, SYSCALL ''sys_landlock_restrict_self''),
    (G_memfd_secret, ''memfd_secret'', 447, SYSCALL ''sys_memfd_secret''),
    (Always, ''process_mrelease'', 448, SYSCALL ''sys_process_mrelease''),
    (Always, ''write_kv'', 449, SYSCALL ''sys_write_kv''),
    (Always, ''read_kv'', 450, SYSCALL ''sys_read_kv''),
    (Always, ''configure_socket_fairness'', 451, SYSCALL ''sys_configure_socket_fairness'')]"
definition sc_lines :: "sc_line list" where
  "sc_lines = sc_lines1 @ sc_lines2 @ sc_lines3 @ sc_lines4 @ sc_lines5 @ sc_lines6 @ sc_lines7"

definition NR_syscalls :: nat where
  "NR_syscalls = 452"

definition NR_arch_specific_syscall :: nat where
  "NR_arch_specific_syscall = 244"

section \<open>The table of a configuration\<close>

definition sc_table :: "'a sc_config_scheme \<Rightarrow> (nat \<times> string) list" where
  "sc_table c = map (\<lambda>(g, nm, nr, m). (nr, sc_entry c m)) (filter (\<lambda>(g, _). guard_holds c g) sc_lines)"

text \<open>What \<open>[nr] = f\<close> leaves in slot \<open>nr\<close>: the last initialiser wins.\<close>

fun sc_init :: "(nat \<times> string) list \<Rightarrow> (nat \<rightharpoonup> string) \<Rightarrow> (nat \<rightharpoonup> string)" where
  "sc_init [] t = t"
| "sc_init ((nr, f) # es) t = sc_init es (t(nr \<mapsto> f))"

definition sc_slot :: "'a sc_config_scheme \<Rightarrow> nat \<Rightarrow> string option" where
  "sc_slot c = sc_init (sc_table c) Map.empty"

lemma sc_init_other: "nr \<notin> fst ` set es \<Longrightarrow> sc_init es t nr = t nr"
  by (induction es arbitrary: t) auto

text \<open>With distinct numbers the order of the initialisers does not matter and none is lost.\<close>

lemma sc_init_distinct: "distinct (map fst es) \<Longrightarrow> sc_init es t = t ++ map_of es"
proof (induction es arbitrary: t)
  case (Cons e es)
  then have "map_of es (fst e) = None" by (simp add: map_of_eq_None_iff)
  with Cons show ?case by (cases e) (auto simp: map_add_def fun_eq_iff split: option.split)
qed simp

section \<open>Numbers\<close>

text \<open>
  The numbers rise along the header but for the two spellings of number 84, which exclude each other: with
  the line of one spelling left out, the numbers of \<open>ls\<close> rise within \<open>[lo, hi)\<close>.
\<close>

definition other_sync :: "bool \<Rightarrow> sc_guard" where
  "other_sync b = (if b then G_no_sync2 else G_sync2)"

fun rises :: "bool \<Rightarrow> nat \<Rightarrow> sc_line list \<Rightarrow> nat \<Rightarrow> bool" where
  "rises b lo [] hi \<longleftrightarrow> lo \<le> hi"
| "rises b lo ((g, nm, nr, m) # ls) hi \<longleftrightarrow>
    (if g = other_sync b then rises b lo ls hi else lo \<le> nr \<and> rises b (nr + 1) ls hi)"

lemma rises_mono: "rises b lo ls hi \<Longrightarrow> lo' \<le> lo \<Longrightarrow> rises b lo' ls hi"
  by (induction ls arbitrary: lo) (auto simp: split_paired_all split: if_splits)

lemma rises_append: "rises b lo ls mid \<Longrightarrow> rises b mid ls' hi \<Longrightarrow> rises b lo (ls @ ls') hi"
  by (induction ls arbitrary: lo) (auto simp: rises_mono split: if_splits)

text \<open>The ranges that no line uses, and the one for lines of 32-bit configurations.\<close>

definition nr_allowed :: "sc_line \<Rightarrow> bool" where
  "nr_allowed l \<longleftrightarrow> (case l of (g, nm, nr, m) \<Rightarrow>
     (nr < 244 \<or> 260 \<le> nr) \<and> (nr < 295 \<or> 403 \<le> nr) \<and> (403 \<le> nr \<and> nr < 424 \<longrightarrow> g = G_32bit))"

text \<open>Each part of the header is evaluated on its own.\<close>

lemma sc_lines1_rise: "rises True 0 sc_lines1 50" "rises False 0 sc_lines1 50"
  by code_simp+

lemma sc_lines2_rise: "rises True 50 sc_lines2 94" "rises False 50 sc_lines2 94"
  by code_simp+

lemma sc_lines3_rise: "rises True 94 sc_lines3 140" "rises False 94 sc_lines3 140"
  by code_simp+

lemma sc_lines4_rise: "rises True 140 sc_lines4 197" "rises False 140 sc_lines4 197"
  by code_simp+

lemma sc_lines5_rise: "rises True 197 sc_lines5 267" "rises False 197 sc_lines5 267"
  by code_simp+

lemma sc_lines6_rise: "rises True 267 sc_lines6 440" "rises False 267 sc_lines6 440"
  by code_simp+

lemma sc_lines7_rise: "rises True 440 sc_lines7 452" "rises False 440 sc_lines7 452"
  by code_simp+

lemma sc_lines1_allowed: "list_all nr_allowed sc_lines1"
  by code_simp

lemma sc_lines2_allowed: "list_all nr_allowed sc_lines2"
  by code_simp

lemma sc_lines3_allowed: "list_all nr_allowed sc_lines3"
  by code_simp

lemma sc_lines4_allowed: "list_all nr_allowed sc_lines4"
  by code_simp

lemma sc_lines5_allowed: "list_all nr_allowed sc_lines5"
  by code_simp

lemma sc_lines6_allowed: "list_all nr_allowed sc_lines6"
  by code_simp

lemma sc_lines7_allowed: "list_all nr_allowed sc_lines7"
  by code_simp

lemmas sc_lines_rise_parts = sc_lines1_rise sc_lines2_rise sc_lines3_rise sc_lines4_rise sc_lines5_rise sc_lines6_rise
  sc_lines7_rise

lemma sc_lines_rise: "rises b 0 sc_lines NR_syscalls"
  unfolding sc_lines_def NR_syscalls_def by (cases b) (auto intro!: rises_append sc_lines_rise_parts)

lemma sc_lines_allowed: "list_all nr_allowed sc_lines"
  by (simp add: sc_lines_def sc_lines1_allowed sc_lines2_allowed sc_lines3_allowed sc_lines4_allowed
    sc_lines5_allowed sc_lines6_allowed sc_lines7_allowed)

text \<open>Leaving out lines keeps the numbers rising.\<close>

lemma rises_le: "rises b lo ls hi \<Longrightarrow> lo \<le> hi"
  by (induction b lo ls hi rule: rises.induct) (auto split: if_splits)

lemma rises_sorted:
  assumes "rises b lo ls hi" "\<forall>l \<in> set ls. P l \<longrightarrow> fst l \<noteq> other_sync b"
  shows "sorted_wrt (<) (map (\<lambda>(g, nm, nr, m). nr) (filter P ls)) \<and>
    (\<forall>nr \<in> set (map (\<lambda>(g, nm, nr, m). nr) (filter P ls)). lo \<le> nr \<and> nr < hi)"
  using assms
proof (induction b lo ls hi rule: rises.induct)
  case (2 b lo g nm nr m ls hi)
  show ?case
  proof (cases "g = other_sync b")
    case True
    then show ?thesis using 2 by simp
  next
    case False
    then have r: "rises b (nr + 1) ls hi" "lo \<le> nr" using 2(3) by simp_all
    let ?ns = "map (\<lambda>(g, nm, nr, m). nr) (filter P ls)"
    have "sorted_wrt (<) ?ns \<and> (\<forall>n \<in> set ?ns. nr + 1 \<le> n \<and> n < hi)" by (rule 2(2) [OF False r(1)]) (use 2(4) in simp)
    then have "sorted_wrt (<) ?ns" "\<forall>n \<in> set ?ns. lo \<le> n \<and> nr < n \<and> n < hi" using r(2) by fastforce+
    then show ?thesis using r rises_le [OF r(1)] by (cases "P (g, nm, nr, m)") (simp_all del: set_map)
  qed
qed simp

section \<open>The table has one entry per number\<close>

lemma sc_table_nrs: "map fst (sc_table c) = map (\<lambda>(g, nm, nr, m). nr) (filter (\<lambda>(g, _). guard_holds c g) sc_lines)"
  by (simp add: sc_table_def split_def comp_def)

lemma sc_table_sorted: "sorted_wrt (<) (map fst (sc_table c))" "nr \<in> fst ` set (sc_table c) \<Longrightarrow> nr < NR_syscalls"
proof -
  have "guard_holds c g \<Longrightarrow> g \<noteq> other_sync (want_sync_file_range2 c)" for g by (auto simp: other_sync_def)
  then have "\<forall>l \<in> set sc_lines. (\<lambda>(g, _). guard_holds c g) l \<longrightarrow> fst l \<noteq> other_sync (want_sync_file_range2 c)"
    by auto
  note r = rises_sorted [OF sc_lines_rise this]
  show "sorted_wrt (<) (map fst (sc_table c))" using r by (simp add: sc_table_nrs)
  assume "nr \<in> fst ` set (sc_table c)"
  then have "nr \<in> set (map fst (sc_table c))" by simp
  then show "nr < NR_syscalls" using r unfolding sc_table_nrs by blast
qed

lemma sc_slot_iff: "sc_slot c nr = Some f \<longleftrightarrow> (nr, f) \<in> set (sc_table c)"
proof -
  have d: "distinct (map fst (sc_table c))" using sc_table_sorted(1) strict_sorted_iff by blast
  then show ?thesis by (simp add: sc_slot_def sc_init_distinct map_of_eq_Some_iff)
qed

lemma sc_table_line:
  "(nr, f) \<in> set (sc_table c) \<longleftrightarrow> (\<exists>g nm m. (g, nm, nr, m) \<in> set sc_lines \<and> guard_holds c g \<and> f = sc_entry c m)"
  by (force simp: sc_table_def)

text \<open>
  C18: Whatever the configuration, the initialisers of the table have rising numbers below \<open>__NR_syscalls\<close>, so
  none replaces another and each slot holds exactly the function of its line. The sixteen numbers for
  architectures and the numbers 295 to 402 stay free, and 403 to 423 are used by 32-bit configurations only.
\<close>

theorem syscall_table_unique:
  "sorted_wrt (<) (map fst (sc_table c)) \<and>
   (\<forall>nr f. sc_slot c nr = Some f \<longleftrightarrow> (nr, f) \<in> set (sc_table c)) \<and>
   (\<forall>nr \<in> dom (sc_slot c). nr < NR_syscalls \<and> nr \<notin> {NR_arch_specific_syscall ..< NR_arch_specific_syscall + 16} \<and>
      nr \<notin> {295 .. 402} \<and> (nr \<in> {403 .. 423} \<longrightarrow> bits_32 c))"
proof (intro conjI ballI allI)
  fix nr assume "nr \<in> dom (sc_slot c)"
  then obtain f where f: "(nr, f) \<in> set (sc_table c)" by (auto simp: sc_slot_iff)
  then obtain g nm m where "(g, nm, nr, m) \<in> set sc_lines" "guard_holds c g" by (auto simp: sc_table_line)
  with sc_lines_allowed have "nr < 244 \<or> 260 \<le> nr" "nr < 295 \<or> 403 \<le> nr" "403 \<le> nr \<and> nr < 424 \<longrightarrow> bits_32 c"
    by (auto simp: list_all_iff nr_allowed_def)
  then show "nr \<notin> {NR_arch_specific_syscall ..< NR_arch_specific_syscall + 16}" "nr \<notin> {295 .. 402}"
    "nr \<in> {403 .. 423} \<longrightarrow> bits_32 c" by (auto simp: NR_arch_specific_syscall_def)
  show "nr < NR_syscalls" using f by (force intro: sc_table_sorted(2))
qed (use sc_table_sorted(1) sc_slot_iff in blast)+

text \<open>A 64-bit configuration with all optional calls.\<close>

definition sc_native64 :: sc_config where
  "sc_native64 = \<lparr>bits_32 = False, sc_compat = False, want_time32 = False, want_renameat = True, want_new_stat = True,
     want_stat64 = False, want_sync_file_range2 = False, want_set_get_rlimit = True, arch_nommu = False,
     want_sys_clone3 = True, want_memfd_secret = True\<rparr>"

lemma sc_line7: "(Always, ''write_kv'', 449, SYSCALL ''sys_write_kv'') \<in> set sc_lines"
  "(Always, ''read_kv'', 450, SYSCALL ''sys_read_kv'') \<in> set sc_lines"
  "(Always, ''configure_socket_fairness'', 451, SYSCALL ''sys_configure_socket_fairness'') \<in> set sc_lines"
  by (simp_all add: sc_lines_def sc_lines7_def)

theorem syscall_table_unique_witness:
  "sc_slot sc_native64 449 = Some ''sys_write_kv'' \<and> sc_slot sc_native64 250 = None \<and> sc_slot sc_native64 300 = None \<and>
   sc_slot sc_native64 410 = None \<and> sc_slot sc_native64 452 = None"
proof -
  note u = syscall_table_unique [of sc_native64]
  have "(449, ''sys_write_kv'') \<in> set (sc_table sc_native64)" using sc_line7(1) by (force simp: sc_table_line)
  then have "sc_slot sc_native64 449 = Some ''sys_write_kv''" using u by blast
  moreover have r: "nr < NR_syscalls \<and> nr \<notin> {NR_arch_specific_syscall ..< NR_arch_specific_syscall + 16} \<and>
      nr \<notin> {295 .. 402} \<and> nr \<notin> {403 .. 423}" if "nr \<in> dom (sc_slot sc_native64)" for nr
    using conjunct2 [OF conjunct2 [OF u], THEN bspec, OF that] by (simp add: sc_native64_def)
  moreover have "250 \<notin> dom (sc_slot sc_native64)" "300 \<notin> dom (sc_slot sc_native64)" "410 \<notin> dom (sc_slot sc_native64)"
    "452 \<notin> dom (sc_slot sc_native64)"
    using r [of 250] r [of 300] r [of 410] r [of 452] by (auto simp: NR_syscalls_def NR_arch_specific_syscall_def)
  ultimately show ?thesis by (simp add: domIff)
qed

section \<open>The names of the numbers\<close>

text \<open>
  The number a macro \<open>__NR_nm\<close> stands for, and the second names that the end of the header gives to the
  \<open>__NR3264_\<close> numbers.
\<close>

definition nr_macro :: "'a sc_config_scheme \<Rightarrow> string \<Rightarrow> nat option" where
  "nr_macro c = map_of (map (\<lambda>(g, nm, nr, m). (nm, nr)) (filter (\<lambda>(g, _). guard_holds c g) sc_lines))"

definition nr_aliases :: "'a sc_config_scheme \<Rightarrow> (string \<times> string) list" where
  "nr_aliases c =
    (if \<not> bits_32 c \<and> \<not> sc_compat c
     then [(''fcntl'', ''3264_fcntl''), (''statfs'', ''3264_statfs''), (''fstatfs'', ''3264_fstatfs''),
           (''truncate'', ''3264_truncate''), (''ftruncate'', ''3264_ftruncate''), (''lseek'', ''3264_lseek''),
           (''sendfile'', ''3264_sendfile'')] @
          (if want_new_stat c \<or> want_stat64 c
           then [(''newfstatat'', ''3264_fstatat''), (''fstat'', ''3264_fstat'')] else []) @
          [(''mmap'', ''3264_mmap''), (''fadvise64'', ''3264_fadvise64'')] @
          (if nr_macro c ''3264_stat'' \<noteq> None then [(''stat'', ''3264_stat''), (''lstat'', ''3264_lstat'')] else [])
     else [(''fcntl64'', ''3264_fcntl''), (''statfs64'', ''3264_statfs''), (''fstatfs64'', ''3264_fstatfs''),
           (''truncate64'', ''3264_truncate''), (''ftruncate64'', ''3264_ftruncate''), (''llseek'', ''3264_lseek''),
           (''sendfile64'', ''3264_sendfile'')] @
          (if want_new_stat c \<or> want_stat64 c
           then [(''fstatat64'', ''3264_fstatat''), (''fstat64'', ''3264_fstat'')] else []) @
          [(''mmap2'', ''3264_mmap''), (''fadvise64_64'', ''3264_fadvise64'')] @
          (if nr_macro c ''3264_stat'' \<noteq> None then [(''stat64'', ''3264_stat''), (''lstat64'', ''3264_lstat'')] else []))"

lemma nr_macro_line: "(g, nm, nr, m) \<in> set sc_lines \<Longrightarrow> guard_holds c g \<Longrightarrow> nr_macro c nm \<noteq> None"
  unfolding nr_macro_def map_of_eq_None_iff by force

text \<open>Every second name stands for a number of the configuration.\<close>

lemma lines_3264:
  "(Always, ''3264_fcntl'', 25, SC_COMP_3264 ''sys_fcntl64'' ''sys_fcntl'' ''compat_sys_fcntl64'') \<in> set sc_lines1"
  "(Always, ''3264_statfs'', 43, SC_COMP_3264 ''sys_statfs64'' ''sys_statfs'' ''compat_sys_statfs64'') \<in> set sc_lines1"
  "(Always, ''3264_fstatfs'', 44, SC_COMP_3264 ''sys_fstatfs64'' ''sys_fstatfs'' ''compat_sys_fstatfs64'') \<in> set sc_lines1"
  "(Always, ''3264_truncate'', 45, SC_COMP_3264 ''sys_truncate64'' ''sys_truncate'' ''compat_sys_truncate64'') \<in> set sc_lines1"
  "(Always, ''3264_ftruncate'', 46, SC_COMP_3264 ''sys_ftruncate64'' ''sys_ftruncate'' ''compat_sys_ftruncate64'') \<in> set sc_lines1"
  "(Always, ''3264_lseek'', 62, SC_3264 ''sys_llseek'' ''sys_lseek'') \<in> set sc_lines2"
  "(Always, ''3264_sendfile'', 71, SYSCALL ''sys_sendfile64'') \<in> set sc_lines2"
  "(G_stat, ''3264_fstatat'', 79, SC_3264 ''sys_fstatat64'' ''sys_newfstatat'') \<in> set sc_lines2"
  "(G_stat, ''3264_fstat'', 80, SC_3264 ''sys_fstat64'' ''sys_newfstat'') \<in> set sc_lines2"
  "(Always, ''3264_mmap'', 222, SC_3264 ''sys_mmap2'' ''sys_mmap'') \<in> set sc_lines5"
  "(Always, ''3264_fadvise64'', 223, SC_COMP ''sys_fadvise64_64'' ''compat_sys_fadvise64_64'') \<in> set sc_lines5"
  by (simp_all add: sc_lines1_def sc_lines2_def sc_lines5_def)

text \<open>No line defines \<open>__NR3264_stat\<close>, so the names for \<open>stat\<close> and \<open>lstat\<close> are never given.\<close>

definition no_stat :: "sc_line \<Rightarrow> bool" where
  "no_stat l \<longleftrightarrow> fst (snd l) \<noteq> ''3264_stat''"

lemma sc_lines1_no_stat: "list_all no_stat sc_lines1"
  by code_simp

lemma sc_lines2_no_stat: "list_all no_stat sc_lines2"
  by code_simp

lemma sc_lines3_no_stat: "list_all no_stat sc_lines3"
  by code_simp

lemma sc_lines4_no_stat: "list_all no_stat sc_lines4"
  by code_simp

lemma sc_lines5_no_stat: "list_all no_stat sc_lines5"
  by code_simp

lemma sc_lines6_no_stat: "list_all no_stat sc_lines6"
  by code_simp

lemma sc_lines7_no_stat: "list_all no_stat sc_lines7"
  by code_simp

lemma no_stat_line: "list_all no_stat sc_lines"
  by (simp add: sc_lines_def sc_lines1_no_stat sc_lines2_no_stat sc_lines3_no_stat sc_lines4_no_stat
    sc_lines5_no_stat sc_lines6_no_stat sc_lines7_no_stat)

lemma sc_lines_parts: "set sc_lines1 \<subseteq> set sc_lines" "set sc_lines2 \<subseteq> set sc_lines" "set sc_lines5 \<subseteq> set sc_lines"
  by (auto simp: sc_lines_def)

lemma nr_macro_3264: "nr_macro c ''3264_fcntl'' \<noteq> None" "nr_macro c ''3264_statfs'' \<noteq> None"
  "nr_macro c ''3264_fstatfs'' \<noteq> None" "nr_macro c ''3264_truncate'' \<noteq> None" "nr_macro c ''3264_ftruncate'' \<noteq> None"
  "nr_macro c ''3264_lseek'' \<noteq> None" "nr_macro c ''3264_sendfile'' \<noteq> None" "nr_macro c ''3264_mmap'' \<noteq> None"
  "nr_macro c ''3264_fadvise64'' \<noteq> None"
  using lines_3264 sc_lines_parts nr_macro_line [where g = Always and c = c] by (meson guard_holds.simps(1) subsetD)+

lemma nr_macro_stat: "want_new_stat c \<or> want_stat64 c \<Longrightarrow> nr_macro c ''3264_fstatat'' \<noteq> None \<and> nr_macro c ''3264_fstat'' \<noteq> None"
  using lines_3264(8,9) sc_lines_parts(2) nr_macro_line [where g = G_stat and c = c] by (meson guard_holds.simps(4) subsetD)

lemma nr_macro_no_stat: "nr_macro c ''3264_stat'' = None"
  unfolding nr_macro_def map_of_eq_None_iff using no_stat_line by (force simp: list_all_iff no_stat_def)

lemma nr_aliases_defined: "(a, nm) \<in> set (nr_aliases c) \<Longrightarrow> nr_macro c nm \<noteq> None"
  unfolding nr_aliases_def nr_macro_no_stat using nr_macro_3264 [of c] nr_macro_stat [of c] by (auto split: if_splits)

end
