(* ===== verification/Syscall_Proto.thy ===== *)
theory Syscall_Proto
  imports Syscall_Table
begin

text \<open>
  The prototypes of the system calls in include/linux/syscalls.h, which architectures without a calling
  convention of their own link their table against, and the macros that define a system call: the entry
  \<open>__se_sys_f\<close> takes every argument as a \<open>long\<close> and casts it to the declared type for \<open>__do_sys_f\<close>. The theory
  shows that the functions the table of a 64-bit configuration names are declared, with the exceptions
  written out, that the calls which the repository defines have the declared types, and what the casts do.
\<close>

section \<open>Types of arguments\<close>

text \<open>
  A pointer carries the type it points to without qualifiers. The types behind a \<open>typedef\<close> or \<open>enum\<close> are
  declared in headers outside the repository; they are kept by name.
\<close>

datatype ctype = C_int | C_uint | C_long | C_ulong | Ptr string | Named string

type_synonym proto = "string \<times> ctype list"

text \<open>The further options that the prototypes and the definitions of the calls depend on.\<close>

record proto_config = sc_config +
  want_compat_stat64 :: bool
  odd_rt_sigaction :: bool
  clone_backwards :: bool
  clone_backwards2 :: bool
  clone_backwards3 :: bool
  arch_split_arg64 :: bool
  want_sys_utime :: bool
  old_sigsuspend :: bool
  old_sigsuspend3 :: bool
  old_sigaction :: bool
  have_uid16 :: bool
  want_sys_old_getrlimit :: bool

datatype proto_guard = P_always | P_32bit | P_stat64 | P_rt_sigaction | P_clone_b | P_clone_b3 | P_clone_plain
  | P_split_arg64 | P_whole_arg64 | P_utime | P_sigsuspend | P_sigsuspend3 | P_sigaction | P_uid16 | P_old_getrlimit

fun proto_holds :: "proto_config \<Rightarrow> proto_guard \<Rightarrow> bool" where
  "proto_holds c P_always = True"
| "proto_holds c P_32bit = bits_32 c"
| "proto_holds c P_stat64 = (want_stat64 c \<or> want_compat_stat64 c)"
| "proto_holds c P_rt_sigaction = (\<not> odd_rt_sigaction c)"
| "proto_holds c P_clone_b = clone_backwards c"
| "proto_holds c P_clone_b3 = (\<not> clone_backwards c \<and> clone_backwards3 c)"
| "proto_holds c P_clone_plain = (\<not> clone_backwards c \<and> \<not> clone_backwards3 c)"
| "proto_holds c P_split_arg64 = arch_split_arg64 c"
| "proto_holds c P_whole_arg64 = (\<not> arch_split_arg64 c)"
| "proto_holds c P_utime = want_sys_utime c"
| "proto_holds c P_sigsuspend = old_sigsuspend c"
| "proto_holds c P_sigsuspend3 = old_sigsuspend3 c"
| "proto_holds c P_sigaction = old_sigaction c"
| "proto_holds c P_uid16 = have_uid16 c"
| "proto_holds c P_old_getrlimit = want_sys_old_getrlimit c"

section \<open>The prototypes\<close>

definition prototypes1 :: "(proto_guard \<times> proto) list" where
  "prototypes1 =
   [(P_always, ''sys_io_setup'', [C_uint, Ptr ''aio_context_t'']),
    (P_always, ''sys_io_destroy'', [Named ''aio_context_t'']),
    (P_always, ''sys_io_submit'', [Named ''aio_context_t'', C_long, Ptr ''struct iocb *'']),
    (P_always, ''sys_io_cancel'', [Named ''aio_context_t'', Ptr ''struct iocb'', Ptr ''struct io_event'']),
    (P_always, ''sys_io_getevents'', [Named ''aio_context_t'', C_long, C_long, Ptr ''struct io_event'', Ptr ''struct __kernel_timespec'']),
    (P_always, ''sys_io_getevents_time32'', [Named ''__u32'', Named ''__s32'', Named ''__s32'', Ptr ''struct io_event'', Ptr ''struct old_timespec32'']),
    (P_always, ''sys_io_pgetevents'', [Named ''aio_context_t'', C_long, C_long, Ptr ''struct io_event'', Ptr ''struct __kernel_timespec'', Ptr ''struct __aio_sigset'']),
    (P_always, ''sys_io_pgetevents_time32'', [Named ''aio_context_t'', C_long, C_long, Ptr ''struct io_event'', Ptr ''struct old_timespec32'', Ptr ''struct __aio_sigset'']),
    (P_always, ''sys_io_uring_setup'', [Named ''u32'', Ptr ''struct io_uring_params'']),
    (P_always, ''sys_io_uring_enter'', [C_uint, Named ''u32'', Named ''u32'', Named ''u32'', Ptr ''void'', Named ''size_t'']),
    (P_always, ''sys_io_uring_register'', [C_uint, C_uint, Ptr ''void'', C_uint]),
    (P_always, ''sys_setxattr'', [Ptr ''char'', Ptr ''char'', Ptr ''void'', Named ''size_t'', C_int]),
    (P_always, ''sys_lsetxattr'', [Ptr ''char'', Ptr ''char'', Ptr ''void'', Named ''size_t'', C_int]),
    (P_always, ''sys_fsetxattr'', [C_int, Ptr ''char'', Ptr ''void'', Named ''size_t'', C_int]),
    (P_always, ''sys_getxattr'', [Ptr ''char'', Ptr ''char'', Ptr ''void'', Named ''size_t'']),
    (P_always, ''sys_lgetxattr'', [Ptr ''char'', Ptr ''char'', Ptr ''void'', Named ''size_t'']),
    (P_always, ''sys_fgetxattr'', [C_int, Ptr ''char'', Ptr ''void'', Named ''size_t'']),
    (P_always, ''sys_listxattr'', [Ptr ''char'', Ptr ''char'', Named ''size_t'']),
    (P_always, ''sys_llistxattr'', [Ptr ''char'', Ptr ''char'', Named ''size_t'']),
    (P_always, ''sys_flistxattr'', [C_int, Ptr ''char'', Named ''size_t'']),
    (P_always, ''sys_removexattr'', [Ptr ''char'', Ptr ''char'']),
    (P_always, ''sys_lremovexattr'', [Ptr ''char'', Ptr ''char'']),
    (P_always, ''sys_fremovexattr'', [C_int, Ptr ''char'']),
    (P_always, ''sys_getcwd'', [Ptr ''char'', C_ulong]),
    (P_always, ''sys_lookup_dcookie'', [Named ''u64'', Ptr ''char'', Named ''size_t'']),
    (P_always, ''sys_eventfd2'', [C_uint, C_int]),
    (P_always, ''sys_epoll_create1'', [C_int]),
    (P_always, ''sys_epoll_ctl'', [C_int, C_int, C_int, Ptr ''struct epoll_event'']),
    (P_always, ''sys_epoll_pwait'', [C_int, Ptr ''struct epoll_event'', C_int, C_int, Ptr ''sigset_t'', Named ''size_t'']),
    (P_always, ''sys_epoll_pwait2'', [C_int, Ptr ''struct epoll_event'', C_int, Ptr ''struct __kernel_timespec'', Ptr ''sigset_t'', Named ''size_t'']),
    (P_always, ''sys_dup'', [C_uint]),
    (P_always, ''sys_dup3'', [C_uint, C_uint, C_int]),
    (P_always, ''sys_fcntl'', [C_uint, C_uint, C_ulong]),
    (P_32bit, ''sys_fcntl64'', [C_uint, C_uint, C_ulong]),
    (P_always, ''sys_inotify_init1'', [C_int]),
    (P_always, ''sys_inotify_add_watch'', [C_int, Ptr ''char'', Named ''u32'']),
    (P_always, ''sys_inotify_rm_watch'', [C_int, Named ''__s32'']),
    (P_always, ''sys_ioctl'', [C_uint, C_uint, C_ulong]),
    (P_always, ''sys_ioprio_set'', [C_int, C_int, C_int]),
    (P_always, ''sys_ioprio_get'', [C_int, C_int]),
    (P_always, ''sys_flock'', [C_uint, C_uint]),
    (P_always, ''sys_mknodat'', [C_int, Ptr ''char'', Named ''umode_t'', C_uint]),
    (P_always, ''sys_mkdirat'', [C_int, Ptr ''char'', Named ''umode_t'']),
    (P_always, ''sys_unlinkat'', [C_int, Ptr ''char'', C_int]),
    (P_always, ''sys_symlinkat'', [Ptr ''char'', C_int, Ptr ''char'']),
    (P_always, ''sys_linkat'', [C_int, Ptr ''char'', C_int, Ptr ''char'', C_int]),
    (P_always, ''sys_renameat'', [C_int, Ptr ''char'', C_int, Ptr ''char'']),
    (P_always, ''sys_umount'', [Ptr ''char'', C_int]),
    (P_always, ''sys_mount'', [Ptr ''char'', Ptr ''char'', Ptr ''char'', C_ulong, Ptr ''void'']),
    (P_always, ''sys_pivot_root'', [Ptr ''char'', Ptr ''char'']),
    (P_always, ''sys_statfs'', [Ptr ''char'', Ptr ''struct statfs'']),
    (P_always, ''sys_statfs64'', [Ptr ''char'', Named ''size_t'', Ptr ''struct statfs64'']),
    (P_always, ''sys_fstatfs'', [C_uint, Ptr ''struct statfs'']),
    (P_always, ''sys_fstatfs64'', [C_uint, Named ''size_t'', Ptr ''struct statfs64'']),
    (P_always, ''sys_truncate'', [Ptr ''char'', C_long])]"

definition prototypes2 :: "(proto_guard \<times> proto) list" where
  "prototypes2 =
   [(P_always, ''sys_ftruncate'', [C_uint, Named ''off_t'']),
    (P_32bit, ''sys_truncate64'', [Ptr ''char'', Named ''loff_t'']),
    (P_32bit, ''sys_ftruncate64'', [C_uint, Named ''loff_t'']),
    (P_always, ''sys_fallocate'', [C_int, C_int, Named ''loff_t'', Named ''loff_t'']),
    (P_always, ''sys_faccessat'', [C_int, Ptr ''char'', C_int]),
    (P_always, ''sys_faccessat2'', [C_int, Ptr ''char'', C_int, C_int]),
    (P_always, ''sys_chdir'', [Ptr ''char'']),
    (P_always, ''sys_fchdir'', [C_uint]),
    (P_always, ''sys_chroot'', [Ptr ''char'']),
    (P_always, ''sys_fchmod'', [C_uint, Named ''umode_t'']),
    (P_always, ''sys_fchmodat'', [C_int, Ptr ''char'', Named ''umode_t'']),
    (P_always, ''sys_fchownat'', [C_int, Ptr ''char'', Named ''uid_t'', Named ''gid_t'', C_int]),
    (P_always, ''sys_fchown'', [C_uint, Named ''uid_t'', Named ''gid_t'']),
    (P_always, ''sys_openat'', [C_int, Ptr ''char'', C_int, Named ''umode_t'']),
    (P_always, ''sys_openat2'', [C_int, Ptr ''char'', Ptr ''struct open_how'', Named ''size_t'']),
    (P_always, ''sys_close'', [C_uint]),
    (P_always, ''sys_close_range'', [C_uint, C_uint, C_uint]),
    (P_always, ''sys_vhangup'', []),
    (P_always, ''sys_pipe2'', [Ptr ''int'', C_int]),
    (P_always, ''sys_quotactl'', [C_uint, Ptr ''char'', Named ''qid_t'', Ptr ''void'']),
    (P_always, ''sys_quotactl_fd'', [C_uint, C_uint, Named ''qid_t'', Ptr ''void'']),
    (P_always, ''sys_getdents64'', [C_uint, Ptr ''struct linux_dirent64'', C_uint]),
    (P_always, ''sys_llseek'', [C_uint, C_ulong, C_ulong, Ptr ''loff_t'', C_uint]),
    (P_always, ''sys_lseek'', [C_uint, Named ''off_t'', C_uint]),
    (P_always, ''sys_read'', [C_uint, Ptr ''char'', Named ''size_t'']),
    (P_always, ''sys_write'', [C_uint, Ptr ''char'', Named ''size_t'']),
    (P_always, ''sys_readv'', [C_ulong, Ptr ''struct iovec'', C_ulong]),
    (P_always, ''sys_writev'', [C_ulong, Ptr ''struct iovec'', C_ulong]),
    (P_always, ''sys_pread64'', [C_uint, Ptr ''char'', Named ''size_t'', Named ''loff_t'']),
    (P_always, ''sys_pwrite64'', [C_uint, Ptr ''char'', Named ''size_t'', Named ''loff_t'']),
    (P_always, ''sys_preadv'', [C_ulong, Ptr ''struct iovec'', C_ulong, C_ulong, C_ulong]),
    (P_always, ''sys_pwritev'', [C_ulong, Ptr ''struct iovec'', C_ulong, C_ulong, C_ulong]),
    (P_always, ''sys_sendfile64'', [C_int, C_int, Ptr ''loff_t'', Named ''size_t'']),
    (P_always, ''sys_pselect6'', [C_int, Ptr ''fd_set'', Ptr ''fd_set'', Ptr ''fd_set'', Ptr ''struct __kernel_timespec'', Ptr ''void'']),
    (P_always, ''sys_pselect6_time32'', [C_int, Ptr ''fd_set'', Ptr ''fd_set'', Ptr ''fd_set'', Ptr ''struct old_timespec32'', Ptr ''void'']),
    (P_always, ''sys_ppoll'', [Ptr ''struct pollfd'', C_uint, Ptr ''struct __kernel_timespec'', Ptr ''sigset_t'', Named ''size_t'']),
    (P_always, ''sys_ppoll_time32'', [Ptr ''struct pollfd'', C_uint, Ptr ''struct old_timespec32'', Ptr ''sigset_t'', Named ''size_t'']),
    (P_always, ''sys_signalfd4'', [C_int, Ptr ''sigset_t'', Named ''size_t'', C_int]),
    (P_always, ''sys_vmsplice'', [C_int, Ptr ''struct iovec'', C_ulong, C_uint]),
    (P_always, ''sys_splice'', [C_int, Ptr ''loff_t'', C_int, Ptr ''loff_t'', Named ''size_t'', C_uint]),
    (P_always, ''sys_tee'', [C_int, C_int, Named ''size_t'', C_uint]),
    (P_always, ''sys_readlinkat'', [C_int, Ptr ''char'', Ptr ''char'', C_int]),
    (P_always, ''sys_newfstatat'', [C_int, Ptr ''char'', Ptr ''struct stat'', C_int]),
    (P_always, ''sys_newfstat'', [C_uint, Ptr ''struct stat'']),
    (P_stat64, ''sys_fstat64'', [C_ulong, Ptr ''struct stat64'']),
    (P_stat64, ''sys_fstatat64'', [C_int, Ptr ''char'', Ptr ''struct stat64'', C_int]),
    (P_always, ''sys_sync'', []),
    (P_always, ''sys_fsync'', [C_uint]),
    (P_always, ''sys_fdatasync'', [C_uint]),
    (P_always, ''sys_sync_file_range2'', [C_int, C_uint, Named ''loff_t'', Named ''loff_t'']),
    (P_always, ''sys_sync_file_range'', [C_int, Named ''loff_t'', Named ''loff_t'', C_uint]),
    (P_always, ''sys_timerfd_create'', [C_int, C_int]),
    (P_always, ''sys_timerfd_settime'', [C_int, C_int, Ptr ''struct __kernel_itimerspec'', Ptr ''struct __kernel_itimerspec'']),
    (P_always, ''sys_timerfd_gettime'', [C_int, Ptr ''struct __kernel_itimerspec'']),
    (P_always, ''sys_timerfd_gettime32'', [C_int, Ptr ''struct old_itimerspec32'']),
    (P_always, ''sys_timerfd_settime32'', [C_int, C_int, Ptr ''struct old_itimerspec32'', Ptr ''struct old_itimerspec32'']),
    (P_always, ''sys_utimensat'', [C_int, Ptr ''char'', Ptr ''struct __kernel_timespec'', C_int]),
    (P_always, ''sys_utimensat_time32'', [C_uint, Ptr ''char'', Ptr ''struct old_timespec32'', C_int]),
    (P_always, ''sys_acct'', [Ptr ''char''])]"

definition prototypes3 :: "(proto_guard \<times> proto) list" where
  "prototypes3 =
   [(P_always, ''sys_capget'', [Named ''cap_user_header_t'', Named ''cap_user_data_t'']),
    (P_always, ''sys_capset'', [Named ''cap_user_header_t'', Named ''cap_user_data_t'']),
    (P_always, ''sys_personality'', [C_uint]),
    (P_always, ''sys_exit'', [C_int]),
    (P_always, ''sys_exit_group'', [C_int]),
    (P_always, ''sys_waitid'', [C_int, Named ''pid_t'', Ptr ''struct siginfo'', C_int, Ptr ''struct rusage'']),
    (P_always, ''sys_set_tid_address'', [Ptr ''int'']),
    (P_always, ''sys_unshare'', [C_ulong]),
    (P_always, ''sys_futex'', [Ptr ''u32'', C_int, Named ''u32'', Ptr ''struct __kernel_timespec'', Ptr ''u32'', Named ''u32'']),
    (P_always, ''sys_futex_time32'', [Ptr ''u32'', C_int, Named ''u32'', Ptr ''struct old_timespec32'', Ptr ''u32'', Named ''u32'']),
    (P_always, ''sys_get_robust_list'', [C_int, Ptr ''struct robust_list_head *'', Ptr ''size_t'']),
    (P_always, ''sys_set_robust_list'', [Ptr ''struct robust_list_head'', Named ''size_t'']),
    (P_always, ''sys_nanosleep'', [Ptr ''struct __kernel_timespec'', Ptr ''struct __kernel_timespec'']),
    (P_always, ''sys_nanosleep_time32'', [Ptr ''struct old_timespec32'', Ptr ''struct old_timespec32'']),
    (P_always, ''sys_getitimer'', [C_int, Ptr ''struct __kernel_old_itimerval'']),
    (P_always, ''sys_setitimer'', [C_int, Ptr ''struct __kernel_old_itimerval'', Ptr ''struct __kernel_old_itimerval'']),
    (P_always, ''sys_kexec_load'', [C_ulong, C_ulong, Ptr ''struct kexec_segment'', C_ulong]),
    (P_always, ''sys_init_module'', [Ptr ''void'', C_ulong, Ptr ''char'']),
    (P_always, ''sys_delete_module'', [Ptr ''char'', C_uint]),
    (P_always, ''sys_timer_create'', [Named ''clockid_t'', Ptr ''struct sigevent'', Ptr ''timer_t'']),
    (P_always, ''sys_timer_gettime'', [Named ''timer_t'', Ptr ''struct __kernel_itimerspec'']),
    (P_always, ''sys_timer_getoverrun'', [Named ''timer_t'']),
    (P_always, ''sys_timer_settime'', [Named ''timer_t'', C_int, Ptr ''struct __kernel_itimerspec'', Ptr ''struct __kernel_itimerspec'']),
    (P_always, ''sys_timer_delete'', [Named ''timer_t'']),
    (P_always, ''sys_clock_settime'', [Named ''clockid_t'', Ptr ''struct __kernel_timespec'']),
    (P_always, ''sys_clock_gettime'', [Named ''clockid_t'', Ptr ''struct __kernel_timespec'']),
    (P_always, ''sys_clock_getres'', [Named ''clockid_t'', Ptr ''struct __kernel_timespec'']),
    (P_always, ''sys_clock_nanosleep'', [Named ''clockid_t'', C_int, Ptr ''struct __kernel_timespec'', Ptr ''struct __kernel_timespec'']),
    (P_always, ''sys_timer_gettime32'', [Named ''timer_t'', Ptr ''struct old_itimerspec32'']),
    (P_always, ''sys_timer_settime32'', [Named ''timer_t'', C_int, Ptr ''struct old_itimerspec32'', Ptr ''struct old_itimerspec32'']),
    (P_always, ''sys_clock_settime32'', [Named ''clockid_t'', Ptr ''struct old_timespec32'']),
    (P_always, ''sys_clock_gettime32'', [Named ''clockid_t'', Ptr ''struct old_timespec32'']),
    (P_always, ''sys_clock_getres_time32'', [Named ''clockid_t'', Ptr ''struct old_timespec32'']),
    (P_always, ''sys_clock_nanosleep_time32'', [Named ''clockid_t'', C_int, Ptr ''struct old_timespec32'', Ptr ''struct old_timespec32'']),
    (P_always, ''sys_syslog'', [C_int, Ptr ''char'', C_int]),
    (P_always, ''sys_ptrace'', [C_long, C_long, C_ulong, C_ulong]),
    (P_always, ''sys_sched_setparam'', [Named ''pid_t'', Ptr ''struct sched_param'']),
    (P_always, ''sys_sched_setscheduler'', [Named ''pid_t'', C_int, Ptr ''struct sched_param'']),
    (P_always, ''sys_sched_getscheduler'', [Named ''pid_t'']),
    (P_always, ''sys_sched_getparam'', [Named ''pid_t'', Ptr ''struct sched_param'']),
    (P_always, ''sys_sched_setaffinity'', [Named ''pid_t'', C_uint, Ptr ''unsigned long'']),
    (P_always, ''sys_sched_getaffinity'', [Named ''pid_t'', C_uint, Ptr ''unsigned long'']),
    (P_always, ''sys_sched_yield'', []),
    (P_always, ''sys_sched_get_priority_max'', [C_int]),
    (P_always, ''sys_sched_get_priority_min'', [C_int]),
    (P_always, ''sys_sched_rr_get_interval'', [Named ''pid_t'', Ptr ''struct __kernel_timespec'']),
    (P_always, ''sys_sched_rr_get_interval_time32'', [Named ''pid_t'', Ptr ''struct old_timespec32'']),
    (P_always, ''sys_restart_syscall'', []),
    (P_always, ''sys_kill'', [Named ''pid_t'', C_int]),
    (P_always, ''sys_tkill'', [Named ''pid_t'', C_int]),
    (P_always, ''sys_tgkill'', [Named ''pid_t'', Named ''pid_t'', C_int]),
    (P_always, ''sys_sigaltstack'', [Ptr ''struct sigaltstack'', Ptr ''struct sigaltstack'']),
    (P_always, ''sys_rt_sigsuspend'', [Ptr ''sigset_t'', Named ''size_t'']),
    (P_rt_sigaction, ''sys_rt_sigaction'', [C_int, Ptr ''struct sigaction'', Ptr ''struct sigaction'', Named ''size_t'']),
    (P_always, ''sys_rt_sigprocmask'', [C_int, Ptr ''sigset_t'', Ptr ''sigset_t'', Named ''size_t'']),
    (P_always, ''sys_rt_sigpending'', [Ptr ''sigset_t'', Named ''size_t'']),
    (P_always, ''sys_rt_sigtimedwait'', [Ptr ''sigset_t'', Ptr ''siginfo_t'', Ptr ''struct __kernel_timespec'', Named ''size_t''])]"

definition prototypes4 :: "(proto_guard \<times> proto) list" where
  "prototypes4 =
   [(P_always, ''sys_rt_sigtimedwait_time32'', [Ptr ''sigset_t'', Ptr ''siginfo_t'', Ptr ''struct old_timespec32'', Named ''size_t'']),
    (P_always, ''sys_rt_sigqueueinfo'', [Named ''pid_t'', C_int, Ptr ''siginfo_t'']),
    (P_always, ''sys_setpriority'', [C_int, C_int, C_int]),
    (P_always, ''sys_getpriority'', [C_int, C_int]),
    (P_always, ''sys_reboot'', [C_int, C_int, C_uint, Ptr ''void'']),
    (P_always, ''sys_setregid'', [Named ''gid_t'', Named ''gid_t'']),
    (P_always, ''sys_setgid'', [Named ''gid_t'']),
    (P_always, ''sys_setreuid'', [Named ''uid_t'', Named ''uid_t'']),
    (P_always, ''sys_setuid'', [Named ''uid_t'']),
    (P_always, ''sys_setresuid'', [Named ''uid_t'', Named ''uid_t'', Named ''uid_t'']),
    (P_always, ''sys_getresuid'', [Ptr ''uid_t'', Ptr ''uid_t'', Ptr ''uid_t'']),
    (P_always, ''sys_setresgid'', [Named ''gid_t'', Named ''gid_t'', Named ''gid_t'']),
    (P_always, ''sys_getresgid'', [Ptr ''gid_t'', Ptr ''gid_t'', Ptr ''gid_t'']),
    (P_always, ''sys_setfsuid'', [Named ''uid_t'']),
    (P_always, ''sys_setfsgid'', [Named ''gid_t'']),
    (P_always, ''sys_times'', [Ptr ''struct tms'']),
    (P_always, ''sys_setpgid'', [Named ''pid_t'', Named ''pid_t'']),
    (P_always, ''sys_getpgid'', [Named ''pid_t'']),
    (P_always, ''sys_getsid'', [Named ''pid_t'']),
    (P_always, ''sys_setsid'', []),
    (P_always, ''sys_getgroups'', [C_int, Ptr ''gid_t'']),
    (P_always, ''sys_setgroups'', [C_int, Ptr ''gid_t'']),
    (P_always, ''sys_newuname'', [Ptr ''struct new_utsname'']),
    (P_always, ''sys_sethostname'', [Ptr ''char'', C_int]),
    (P_always, ''sys_setdomainname'', [Ptr ''char'', C_int]),
    (P_always, ''sys_getrlimit'', [C_uint, Ptr ''struct rlimit'']),
    (P_always, ''sys_setrlimit'', [C_uint, Ptr ''struct rlimit'']),
    (P_always, ''sys_getrusage'', [C_int, Ptr ''struct rusage'']),
    (P_always, ''sys_umask'', [C_int]),
    (P_always, ''sys_prctl'', [C_int, C_ulong, C_ulong, C_ulong, C_ulong]),
    (P_always, ''sys_getcpu'', [Ptr ''unsigned'', Ptr ''unsigned'', Ptr ''struct getcpu_cache'']),
    (P_always, ''sys_gettimeofday'', [Ptr ''struct __kernel_old_timeval'', Ptr ''struct timezone'']),
    (P_always, ''sys_settimeofday'', [Ptr ''struct __kernel_old_timeval'', Ptr ''struct timezone'']),
    (P_always, ''sys_adjtimex'', [Ptr ''struct __kernel_timex'']),
    (P_always, ''sys_adjtimex_time32'', [Ptr ''struct old_timex32'']),
    (P_always, ''sys_getpid'', []),
    (P_always, ''sys_getppid'', []),
    (P_always, ''sys_getuid'', []),
    (P_always, ''sys_geteuid'', []),
    (P_always, ''sys_getgid'', []),
    (P_always, ''sys_getegid'', []),
    (P_always, ''sys_gettid'', []),
    (P_always, ''sys_sysinfo'', [Ptr ''struct sysinfo'']),
    (P_always, ''sys_write_kv'', [C_int, C_int]),
    (P_always, ''sys_read_kv'', [C_int]),
    (P_always, ''sys_mq_open'', [Ptr ''char'', C_int, Named ''umode_t'', Ptr ''struct mq_attr'']),
    (P_always, ''sys_mq_unlink'', [Ptr ''char'']),
    (P_always, ''sys_mq_timedsend'', [Named ''mqd_t'', Ptr ''char'', Named ''size_t'', C_uint, Ptr ''struct __kernel_timespec'']),
    (P_always, ''sys_mq_timedreceive'', [Named ''mqd_t'', Ptr ''char'', Named ''size_t'', Ptr ''unsigned int'', Ptr ''struct __kernel_timespec'']),
    (P_always, ''sys_mq_notify'', [Named ''mqd_t'', Ptr ''struct sigevent'']),
    (P_always, ''sys_mq_getsetattr'', [Named ''mqd_t'', Ptr ''struct mq_attr'', Ptr ''struct mq_attr'']),
    (P_always, ''sys_mq_timedreceive_time32'', [Named ''mqd_t'', Ptr ''char'', C_uint, Ptr ''unsigned int'', Ptr ''struct old_timespec32'']),
    (P_always, ''sys_mq_timedsend_time32'', [Named ''mqd_t'', Ptr ''char'', C_uint, C_uint, Ptr ''struct old_timespec32'']),
    (P_always, ''sys_msgget'', [Named ''key_t'', C_int]),
    (P_always, ''sys_old_msgctl'', [C_int, C_int, Ptr ''struct msqid_ds'']),
    (P_always, ''sys_msgctl'', [C_int, C_int, Ptr ''struct msqid_ds'']),
    (P_always, ''sys_msgrcv'', [C_int, Ptr ''struct msgbuf'', Named ''size_t'', C_long, C_int]),
    (P_always, ''sys_msgsnd'', [C_int, Ptr ''struct msgbuf'', Named ''size_t'', C_int]),
    (P_always, ''sys_semget'', [Named ''key_t'', C_int, C_int]),
    (P_always, ''sys_semctl'', [C_int, C_int, C_int, C_ulong]),
    (P_always, ''sys_old_semctl'', [C_int, C_int, C_int, C_ulong]),
    (P_always, ''sys_semtimedop'', [C_int, Ptr ''struct sembuf'', C_uint, Ptr ''struct __kernel_timespec'']),
    (P_always, ''sys_semtimedop_time32'', [C_int, Ptr ''struct sembuf'', C_uint, Ptr ''struct old_timespec32'']),
    (P_always, ''sys_semop'', [C_int, Ptr ''struct sembuf'', C_uint]),
    (P_always, ''sys_shmget'', [Named ''key_t'', Named ''size_t'', C_int]),
    (P_always, ''sys_old_shmctl'', [C_int, C_int, Ptr ''struct shmid_ds'']),
    (P_always, ''sys_shmctl'', [C_int, C_int, Ptr ''struct shmid_ds'']),
    (P_always, ''sys_shmat'', [C_int, Ptr ''char'', C_int]),
    (P_always, ''sys_shmdt'', [Ptr ''char'']),
    (P_always, ''sys_socket'', [C_int, C_int, C_int]),
    (P_always, ''sys_socketpair'', [C_int, C_int, C_int, Ptr ''int'']),
    (P_always, ''sys_bind'', [C_int, Ptr ''struct sockaddr'', C_int]),
    (P_always, ''sys_listen'', [C_int, C_int]),
    (P_always, ''sys_accept'', [C_int, Ptr ''struct sockaddr'', Ptr ''int'']),
    (P_always, ''sys_connect'', [C_int, Ptr ''struct sockaddr'', C_int]),
    (P_always, ''sys_getsockname'', [C_int, Ptr ''struct sockaddr'', Ptr ''int'']),
    (P_always, ''sys_getpeername'', [C_int, Ptr ''struct sockaddr'', Ptr ''int'']),
    (P_always, ''sys_sendto'', [C_int, Ptr ''void'', Named ''size_t'', C_uint, Ptr ''struct sockaddr'', C_int]),
    (P_always, ''sys_recvfrom'', [C_int, Ptr ''void'', Named ''size_t'', C_uint, Ptr ''struct sockaddr'', Ptr ''int'']),
    (P_always, ''sys_setsockopt'', [C_int, C_int, C_int, Ptr ''char'', C_int]),
    (P_always, ''sys_getsockopt'', [C_int, C_int, C_int, Ptr ''char'', Ptr ''int'']),
    (P_always, ''sys_shutdown'', [C_int, C_int]),
    (P_always, ''sys_sendmsg'', [C_int, Ptr ''struct user_msghdr'', C_uint]),
    (P_always, ''sys_recvmsg'', [C_int, Ptr ''struct user_msghdr'', C_uint]),
    (P_always, ''sys_readahead'', [C_int, Named ''loff_t'', Named ''size_t'']),
    (P_always, ''sys_brk'', [C_ulong]),
    (P_always, ''sys_munmap'', [C_ulong, Named ''size_t'']),
    (P_always, ''sys_mremap'', [C_ulong, C_ulong, C_ulong, C_ulong, C_ulong])]"

definition prototypes5 :: "(proto_guard \<times> proto) list" where
  "prototypes5 =
   [(P_always, ''sys_add_key'', [Ptr ''char'', Ptr ''char'', Ptr ''void'', Named ''size_t'', Named ''key_serial_t'']),
    (P_always, ''sys_request_key'', [Ptr ''char'', Ptr ''char'', Ptr ''char'', Named ''key_serial_t'']),
    (P_always, ''sys_keyctl'', [C_int, C_ulong, C_ulong, C_ulong, C_ulong]),
    (P_clone_b, ''sys_clone'', [C_ulong, C_ulong, Ptr ''int'', C_ulong, Ptr ''int'']),
    (P_clone_b3, ''sys_clone'', [C_ulong, C_ulong, C_int, Ptr ''int'', Ptr ''int'', C_ulong]),
    (P_clone_plain, ''sys_clone'', [C_ulong, C_ulong, Ptr ''int'', Ptr ''int'', C_ulong]),
    (P_always, ''sys_clone3'', [Ptr ''struct clone_args'', Named ''size_t'']),
    (P_always, ''sys_execve'', [Ptr ''char'', Ptr ''char *'', Ptr ''char *'']),
    (P_always, ''sys_fadvise64_64'', [C_int, Named ''loff_t'', Named ''loff_t'', C_int]),
    (P_always, ''sys_swapon'', [Ptr ''char'', C_int]),
    (P_always, ''sys_swapoff'', [Ptr ''char'']),
    (P_always, ''sys_mprotect'', [C_ulong, Named ''size_t'', C_ulong]),
    (P_always, ''sys_msync'', [C_ulong, Named ''size_t'', C_int]),
    (P_always, ''sys_mlock'', [C_ulong, Named ''size_t'']),
    (P_always, ''sys_munlock'', [C_ulong, Named ''size_t'']),
    (P_always, ''sys_mlockall'', [C_int]),
    (P_always, ''sys_munlockall'', []),
    (P_always, ''sys_mincore'', [C_ulong, Named ''size_t'', Ptr ''unsigned char'']),
    (P_always, ''sys_madvise'', [C_ulong, Named ''size_t'', C_int]),
    (P_always, ''sys_process_madvise'', [C_int, Ptr ''struct iovec'', Named ''size_t'', C_int, C_uint]),
    (P_always, ''sys_process_mrelease'', [C_int, C_uint]),
    (P_always, ''sys_remap_file_pages'', [C_ulong, C_ulong, C_ulong, C_ulong, C_ulong]),
    (P_always, ''sys_mbind'', [C_ulong, C_ulong, C_ulong, Ptr ''unsigned long'', C_ulong, C_uint]),
    (P_always, ''sys_get_mempolicy'', [Ptr ''int'', Ptr ''unsigned long'', C_ulong, C_ulong, C_ulong]),
    (P_always, ''sys_set_mempolicy'', [C_int, Ptr ''unsigned long'', C_ulong]),
    (P_always, ''sys_migrate_pages'', [Named ''pid_t'', C_ulong, Ptr ''unsigned long'', Ptr ''unsigned long'']),
    (P_always, ''sys_move_pages'', [Named ''pid_t'', C_ulong, Ptr ''void *'', Ptr ''int'', Ptr ''int'', C_int]),
    (P_always, ''sys_rt_tgsigqueueinfo'', [Named ''pid_t'', Named ''pid_t'', C_int, Ptr ''siginfo_t'']),
    (P_always, ''sys_perf_event_open'', [Ptr ''struct perf_event_attr'', Named ''pid_t'', C_int, C_int, C_ulong]),
    (P_always, ''sys_accept4'', [C_int, Ptr ''struct sockaddr'', Ptr ''int'', C_int]),
    (P_always, ''sys_recvmmsg'', [C_int, Ptr ''struct mmsghdr'', C_uint, C_uint, Ptr ''struct __kernel_timespec'']),
    (P_always, ''sys_recvmmsg_time32'', [C_int, Ptr ''struct mmsghdr'', C_uint, C_uint, Ptr ''struct old_timespec32'']),
    (P_always, ''sys_wait4'', [Named ''pid_t'', Ptr ''int'', C_int, Ptr ''struct rusage'']),
    (P_always, ''sys_prlimit64'', [Named ''pid_t'', C_uint, Ptr ''struct rlimit64'', Ptr ''struct rlimit64'']),
    (P_always, ''sys_fanotify_init'', [C_uint, C_uint]),
    (P_split_arg64, ''sys_fanotify_mark'', [C_int, C_uint, C_uint, C_uint, C_int, Ptr ''char'']),
    (P_whole_arg64, ''sys_fanotify_mark'', [C_int, C_uint, Named ''u64'', C_int, Ptr ''char'']),
    (P_always, ''sys_name_to_handle_at'', [C_int, Ptr ''char'', Ptr ''struct file_handle'', Ptr ''int'', C_int]),
    (P_always, ''sys_open_by_handle_at'', [C_int, Ptr ''struct file_handle'', C_int]),
    (P_always, ''sys_clock_adjtime'', [Named ''clockid_t'', Ptr ''struct __kernel_timex'']),
    (P_always, ''sys_clock_adjtime32'', [Named ''clockid_t'', Ptr ''struct old_timex32'']),
    (P_always, ''sys_syncfs'', [C_int]),
    (P_always, ''sys_setns'', [C_int, C_int]),
    (P_always, ''sys_pidfd_open'', [Named ''pid_t'', C_uint]),
    (P_always, ''sys_sendmmsg'', [C_int, Ptr ''struct mmsghdr'', C_uint, C_uint]),
    (P_always, ''sys_process_vm_readv'', [Named ''pid_t'', Ptr ''struct iovec'', C_ulong, Ptr ''struct iovec'', C_ulong, C_ulong]),
    (P_always, ''sys_process_vm_writev'', [Named ''pid_t'', Ptr ''struct iovec'', C_ulong, Ptr ''struct iovec'', C_ulong, C_ulong]),
    (P_always, ''sys_kcmp'', [Named ''pid_t'', Named ''pid_t'', C_int, C_ulong, C_ulong]),
    (P_always, ''sys_finit_module'', [C_int, Ptr ''char'', C_int]),
    (P_always, ''sys_sched_setattr'', [Named ''pid_t'', Ptr ''struct sched_attr'', C_uint]),
    (P_always, ''sys_sched_getattr'', [Named ''pid_t'', Ptr ''struct sched_attr'', C_uint, C_uint])]"

definition prototypes6 :: "(proto_guard \<times> proto) list" where
  "prototypes6 =
   [(P_always, ''sys_renameat2'', [C_int, Ptr ''char'', C_int, Ptr ''char'', C_uint]),
    (P_always, ''sys_seccomp'', [C_uint, C_uint, Ptr ''void'']),
    (P_always, ''sys_getrandom'', [Ptr ''char'', Named ''size_t'', C_uint]),
    (P_always, ''sys_memfd_create'', [Ptr ''char'', C_uint]),
    (P_always, ''sys_bpf'', [C_int, Ptr ''union bpf_attr'', C_uint]),
    (P_always, ''sys_execveat'', [C_int, Ptr ''char'', Ptr ''char *'', Ptr ''char *'', C_int]),
    (P_always, ''sys_userfaultfd'', [C_int]),
    (P_always, ''sys_membarrier'', [C_int, C_uint, C_int]),
    (P_always, ''sys_mlock2'', [C_ulong, Named ''size_t'', C_int]),
    (P_always, ''sys_copy_file_range'', [C_int, Ptr ''loff_t'', C_int, Ptr ''loff_t'', Named ''size_t'', C_uint]),
    (P_always, ''sys_preadv2'', [C_ulong, Ptr ''struct iovec'', C_ulong, C_ulong, C_ulong, Named ''rwf_t'']),
    (P_always, ''sys_pwritev2'', [C_ulong, Ptr ''struct iovec'', C_ulong, C_ulong, C_ulong, Named ''rwf_t'']),
    (P_always, ''sys_pkey_mprotect'', [C_ulong, Named ''size_t'', C_ulong, C_int]),
    (P_always, ''sys_pkey_alloc'', [C_ulong, C_ulong]),
    (P_always, ''sys_pkey_free'', [C_int]),
    (P_always, ''sys_statx'', [C_int, Ptr ''char'', C_uint, C_uint, Ptr ''struct statx'']),
    (P_always, ''sys_rseq'', [Ptr ''struct rseq'', Named ''uint32_t'', C_int, Named ''uint32_t'']),
    (P_always, ''sys_open_tree'', [C_int, Ptr ''char'', C_uint]),
    (P_always, ''sys_move_mount'', [C_int, Ptr ''char'', C_int, Ptr ''char'', C_uint]),
    (P_always, ''sys_mount_setattr'', [C_int, Ptr ''char'', C_uint, Ptr ''struct mount_attr'', Named ''size_t'']),
    (P_always, ''sys_fsopen'', [Ptr ''char'', C_uint]),
    (P_always, ''sys_fsconfig'', [C_int, C_uint, Ptr ''char'', Ptr ''void'', C_int]),
    (P_always, ''sys_fsmount'', [C_int, C_uint, C_uint]),
    (P_always, ''sys_fspick'', [C_int, Ptr ''char'', C_uint]),
    (P_always, ''sys_pidfd_send_signal'', [C_int, C_int, Ptr ''siginfo_t'', C_uint]),
    (P_always, ''sys_pidfd_getfd'', [C_int, C_int, C_uint]),
    (P_always, ''sys_landlock_create_ruleset'', [Ptr ''struct landlock_ruleset_attr'', Named ''size_t'', Named ''__u32'']),
    (P_always, ''sys_landlock_add_rule'', [C_int, Named ''enum landlock_rule_type'', Ptr ''void'', Named ''__u32'']),
    (P_always, ''sys_landlock_restrict_self'', [C_int, Named ''__u32'']),
    (P_always, ''sys_memfd_secret'', [C_uint]),
    (P_always, ''sys_ioperm'', [C_ulong, C_ulong, C_int]),
    (P_always, ''sys_pciconfig_read'', [C_ulong, C_ulong, C_ulong, C_ulong, Ptr ''void'']),
    (P_always, ''sys_pciconfig_write'', [C_ulong, C_ulong, C_ulong, C_ulong, Ptr ''void'']),
    (P_always, ''sys_pciconfig_iobase'', [C_long, C_ulong, C_ulong]),
    (P_always, ''sys_spu_run'', [C_int, Ptr ''__u32'', Ptr ''__u32'']),
    (P_always, ''sys_spu_create'', [Ptr ''char'', C_uint, Named ''umode_t'', C_int]),
    (P_always, ''sys_open'', [Ptr ''char'', C_int, Named ''umode_t'']),
    (P_always, ''sys_link'', [Ptr ''char'', Ptr ''char'']),
    (P_always, ''sys_unlink'', [Ptr ''char'']),
    (P_always, ''sys_mknod'', [Ptr ''char'', Named ''umode_t'', C_uint]),
    (P_always, ''sys_chmod'', [Ptr ''char'', Named ''umode_t'']),
    (P_always, ''sys_chown'', [Ptr ''char'', Named ''uid_t'', Named ''gid_t'']),
    (P_always, ''sys_mkdir'', [Ptr ''char'', Named ''umode_t'']),
    (P_always, ''sys_rmdir'', [Ptr ''char'']),
    (P_always, ''sys_lchown'', [Ptr ''char'', Named ''uid_t'', Named ''gid_t'']),
    (P_always, ''sys_access'', [Ptr ''char'', C_int]),
    (P_always, ''sys_rename'', [Ptr ''char'', Ptr ''char'']),
    (P_always, ''sys_symlink'', [Ptr ''char'', Ptr ''char'']),
    (P_stat64, ''sys_stat64'', [Ptr ''char'', Ptr ''struct stat64'']),
    (P_stat64, ''sys_lstat64'', [Ptr ''char'', Ptr ''struct stat64'']),
    (P_always, ''sys_pipe'', [Ptr ''int'']),
    (P_always, ''sys_dup2'', [C_uint, C_uint]),
    (P_always, ''sys_epoll_create'', [C_int]),
    (P_always, ''sys_inotify_init'', []),
    (P_always, ''sys_eventfd'', [C_uint]),
    (P_always, ''sys_signalfd'', [C_int, Ptr ''sigset_t'', Named ''size_t'']),
    (P_always, ''sys_sendfile'', [C_int, C_int, Ptr ''off_t'', Named ''size_t'']),
    (P_always, ''sys_newstat'', [Ptr ''char'', Ptr ''struct stat'']),
    (P_always, ''sys_newlstat'', [Ptr ''char'', Ptr ''struct stat'']),
    (P_always, ''sys_fadvise64'', [C_int, Named ''loff_t'', Named ''size_t'', C_int]),
    (P_always, ''sys_alarm'', [C_uint]),
    (P_always, ''sys_getpgrp'', []),
    (P_always, ''sys_pause'', []),
    (P_always, ''sys_time'', [Ptr ''__kernel_old_time_t'']),
    (P_always, ''sys_time32'', [Ptr ''old_time32_t'']),
    (P_utime, ''sys_utime'', [Ptr ''char'', Ptr ''struct utimbuf'']),
    (P_utime, ''sys_utimes'', [Ptr ''char'', Ptr ''struct __kernel_old_timeval'']),
    (P_utime, ''sys_futimesat'', [C_int, Ptr ''char'', Ptr ''struct __kernel_old_timeval''])]"

definition prototypes7 :: "(proto_guard \<times> proto) list" where
  "prototypes7 =
   [(P_always, ''sys_futimesat_time32'', [C_uint, Ptr ''char'', Ptr ''struct old_timeval32'']),
    (P_always, ''sys_utime32'', [Ptr ''char'', Ptr ''struct old_utimbuf32'']),
    (P_always, ''sys_utimes_time32'', [Ptr ''char'', Ptr ''struct old_timeval32'']),
    (P_always, ''sys_creat'', [Ptr ''char'', Named ''umode_t'']),
    (P_always, ''sys_getdents'', [C_uint, Ptr ''struct linux_dirent'', C_uint]),
    (P_always, ''sys_select'', [C_int, Ptr ''fd_set'', Ptr ''fd_set'', Ptr ''fd_set'', Ptr ''struct __kernel_old_timeval'']),
    (P_always, ''sys_poll'', [Ptr ''struct pollfd'', C_uint, C_int]),
    (P_always, ''sys_epoll_wait'', [C_int, Ptr ''struct epoll_event'', C_int, C_int]),
    (P_always, ''sys_ustat'', [C_uint, Ptr ''struct ustat'']),
    (P_always, ''sys_vfork'', []),
    (P_always, ''sys_recv'', [C_int, Ptr ''void'', Named ''size_t'', C_uint]),
    (P_always, ''sys_send'', [C_int, Ptr ''void'', Named ''size_t'', C_uint]),
    (P_always, ''sys_oldumount'', [Ptr ''char'']),
    (P_always, ''sys_uselib'', [Ptr ''char'']),
    (P_always, ''sys_sysfs'', [C_int, C_ulong, C_ulong]),
    (P_always, ''sys_fork'', []),
    (P_always, ''sys_stime'', [Ptr ''__kernel_old_time_t'']),
    (P_always, ''sys_stime32'', [Ptr ''old_time32_t'']),
    (P_always, ''sys_sigpending'', [Ptr ''old_sigset_t'']),
    (P_always, ''sys_sigprocmask'', [C_int, Ptr ''old_sigset_t'', Ptr ''old_sigset_t'']),
    (P_sigsuspend, ''sys_sigsuspend'', [Named ''old_sigset_t'']),
    (P_sigsuspend3, ''sys_sigsuspend'', [C_int, C_int, Named ''old_sigset_t'']),
    (P_sigaction, ''sys_sigaction'', [C_int, Ptr ''struct old_sigaction'', Ptr ''struct old_sigaction'']),
    (P_always, ''sys_sgetmask'', []),
    (P_always, ''sys_ssetmask'', [C_int]),
    (P_always, ''sys_signal'', [C_int, Named ''__sighandler_t'']),
    (P_always, ''sys_nice'', [C_int]),
    (P_always, ''sys_kexec_file_load'', [C_int, C_int, C_ulong, Ptr ''char'', C_ulong]),
    (P_always, ''sys_waitpid'', [Named ''pid_t'', Ptr ''int'', C_int]),
    (P_uid16, ''sys_chown16'', [Ptr ''char'', Named ''old_uid_t'', Named ''old_gid_t'']),
    (P_uid16, ''sys_lchown16'', [Ptr ''char'', Named ''old_uid_t'', Named ''old_gid_t'']),
    (P_uid16, ''sys_fchown16'', [C_uint, Named ''old_uid_t'', Named ''old_gid_t'']),
    (P_uid16, ''sys_setregid16'', [Named ''old_gid_t'', Named ''old_gid_t'']),
    (P_uid16, ''sys_setgid16'', [Named ''old_gid_t'']),
    (P_uid16, ''sys_setreuid16'', [Named ''old_uid_t'', Named ''old_uid_t'']),
    (P_uid16, ''sys_setuid16'', [Named ''old_uid_t'']),
    (P_uid16, ''sys_setresuid16'', [Named ''old_uid_t'', Named ''old_uid_t'', Named ''old_uid_t'']),
    (P_uid16, ''sys_getresuid16'', [Ptr ''old_uid_t'', Ptr ''old_uid_t'', Ptr ''old_uid_t'']),
    (P_uid16, ''sys_setresgid16'', [Named ''old_gid_t'', Named ''old_gid_t'', Named ''old_gid_t'']),
    (P_uid16, ''sys_getresgid16'', [Ptr ''old_gid_t'', Ptr ''old_gid_t'', Ptr ''old_gid_t'']),
    (P_uid16, ''sys_setfsuid16'', [Named ''old_uid_t'']),
    (P_uid16, ''sys_setfsgid16'', [Named ''old_gid_t'']),
    (P_uid16, ''sys_getgroups16'', [C_int, Ptr ''old_gid_t'']),
    (P_uid16, ''sys_setgroups16'', [C_int, Ptr ''old_gid_t'']),
    (P_uid16, ''sys_getuid16'', []),
    (P_uid16, ''sys_geteuid16'', []),
    (P_uid16, ''sys_getgid16'', []),
    (P_uid16, ''sys_getegid16'', []),
    (P_always, ''sys_socketcall'', [C_int, Ptr ''unsigned long'']),
    (P_always, ''sys_stat'', [Ptr ''char'', Ptr ''struct __old_kernel_stat'']),
    (P_always, ''sys_lstat'', [Ptr ''char'', Ptr ''struct __old_kernel_stat'']),
    (P_always, ''sys_fstat'', [C_uint, Ptr ''struct __old_kernel_stat'']),
    (P_always, ''sys_readlink'', [Ptr ''char'', Ptr ''char'', C_int]),
    (P_always, ''sys_old_select'', [Ptr ''struct sel_arg_struct'']),
    (P_always, ''sys_old_readdir'', [C_uint, Ptr ''struct old_linux_dirent'', C_uint]),
    (P_always, ''sys_gethostname'', [Ptr ''char'', C_int]),
    (P_always, ''sys_uname'', [Ptr ''struct old_utsname'']),
    (P_always, ''sys_olduname'', [Ptr ''struct oldold_utsname'']),
    (P_old_getrlimit, ''sys_old_getrlimit'', [C_uint, Ptr ''struct rlimit'']),
    (P_always, ''sys_ipc'', [C_uint, C_int, C_ulong, C_ulong, Ptr ''void'', C_long]),
    (P_always, ''sys_mmap_pgoff'', [C_ulong, C_ulong, C_ulong, C_ulong, C_ulong, C_ulong]),
    (P_always, ''sys_old_mmap'', [Ptr ''struct mmap_arg_struct'']),
    (P_always, ''sys_ni_syscall'', [])]"
definition prototypes :: "(proto_guard \<times> proto) list" where
  "prototypes = prototypes1 @ prototypes2 @ prototypes3 @ prototypes4 @ prototypes5 @ prototypes6 @ prototypes7"

definition protos :: "proto_config \<Rightarrow> proto list" where
  "protos c = map snd (filter (\<lambda>(g, _). proto_holds c g) prototypes)"

definition SYSCALL_DEFINE_MAXARGS :: nat where
  "SYSCALL_DEFINE_MAXARGS = 6"

section \<open>The calls that the repository defines\<close>

definition write_kv_define :: proto where
  "write_kv_define = (''sys_write_kv'', [C_int, C_int])"

definition read_kv_define :: proto where
  "read_kv_define = (''sys_read_kv'', [C_int])"

definition set_tid_address_define :: proto where
  "set_tid_address_define = (''sys_set_tid_address'', [Ptr ''int''])"

definition fork_define :: proto where
  "fork_define = (''sys_fork'', [])"

definition vfork_define :: proto where
  "vfork_define = (''sys_vfork'', [])"

definition clone_define :: "proto_config \<Rightarrow> proto" where
  "clone_define c = (''sys_clone'',
    if clone_backwards c then [C_ulong, C_ulong, Ptr ''int'', C_ulong, Ptr ''int'']
    else if clone_backwards2 c then [C_ulong, C_ulong, Ptr ''int'', Ptr ''int'', C_ulong]
    else if clone_backwards3 c then [C_ulong, C_ulong, C_int, Ptr ''int'', Ptr ''int'', C_ulong]
    else [C_ulong, C_ulong, Ptr ''int'', Ptr ''int'', C_ulong])"

definition clone3_define :: proto where
  "clone3_define = (''sys_clone3'', [Ptr ''struct clone_args'', Named ''size_t''])"

definition unshare_define :: proto where
  "unshare_define = (''sys_unshare'', [C_ulong])"

definition fairness_define :: proto where
  "fairness_define = (''sys_configure_socket_fairness'', [Named ''pid_t'', C_int, C_int])"

definition sys_defines :: "proto_config \<Rightarrow> proto list" where
  "sys_defines c = [write_kv_define, read_kv_define, set_tid_address_define, fork_define, vfork_define, clone_define c, clone3_define, unshare_define,
    fairness_define]"

section \<open>The order of the prototypes\<close>

text \<open>
  \<open>eat ns ds\<close> walks along the declarations and leaves the names that it has not met in order. The names of
  the table come in the order of the header but for those of \<open>moved\<close>, so one walk finds all others.
\<close>

fun eat :: "string list \<Rightarrow> string list \<Rightarrow> string list" where
  "eat ns [] = ns"
| "eat [] (d # ds) = []"
| "eat (n # ns) (d # ds) = (if n = d then eat ns ds else eat (n # ns) ds)"

lemma eat_set: "set ns \<subseteq> set (eat ns ds) \<union> set ds"
  by (induction ns ds rule: eat.induct) auto

definition moved :: "string list" where
  "moved = [''sys_io_pgetevents'', ''sys_io_uring_setup'', ''sys_io_uring_enter'', ''sys_io_uring_register'',
    ''sys_epoll_pwait2'', ''sys_close_range'', ''sys_openat2'', ''sys_faccessat2'', ''sys_quotactl_fd'',
    ''sys_set_robust_list'', ''sys_write_kv'', ''sys_read_kv'', ''sys_pidfd_open'', ''sys_clone3'',
    ''sys_process_madvise'', ''sys_process_mrelease'', ''sys_pidfd_send_signal'', ''sys_mount_setattr'',
    ''sys_ni_syscall'', ''sys_kexec_file_load'']"

text \<open>Functions that are declared under a condition, and those that the header does not declare.\<close>

definition conditional :: "string list" where
  "conditional = [''sys_rt_sigaction'', ''sys_clone'', ''sys_fanotify_mark'']"

definition undeclared :: "string list" where
  "undeclared = [''sys_rt_sigreturn'', ''sys_mmap'', ''sys_configure_socket_fairness'']"

fun entry64 :: "sc_macro \<Rightarrow> string" where
  "entry64 (SYSCALL f) = f"
| "entry64 (SC_3264 f32 f64) = f64"
| "entry64 (SC_COMP native cf) = native"
| "entry64 (SC_COMP_3264 f32 f64 cf) = f64"

definition in_order :: "sc_line list \<Rightarrow> string list" where
  "in_order ls = filter (\<lambda>f. f \<notin> set moved \<and> f \<notin> set conditional \<and> f \<notin> set undeclared)
     (map (\<lambda>(g, nm, nr, m). entry64 m) (filter (\<lambda>(g, _). g \<noteq> G_32bit) ls))"

definition sure :: "(proto_guard \<times> proto) list \<Rightarrow> string list" where
  "sure ps = map (fst \<circ> snd) (filter (\<lambda>(g, _). g = P_always) ps)"

lemma table_part1: "eat (eat (in_order sc_lines1) (sure prototypes1)) (sure prototypes2) = []"
  by code_simp

lemma table_part2: "eat (eat (in_order sc_lines2) (sure prototypes2)) (sure prototypes3) = []"
  by code_simp

lemma table_part3: "eat (eat (in_order sc_lines3) (sure prototypes3)) (sure prototypes4) = []"
  by code_simp

lemma table_part4: "eat (in_order sc_lines4) (sure prototypes4) = []"
  by code_simp

lemma table_part5: "eat (eat (in_order sc_lines5) (sure prototypes4)) (sure prototypes5) = []"
  by code_simp

lemma table_part6: "eat (eat (in_order sc_lines6) (sure prototypes5)) (sure prototypes6) = []"
  by code_simp

lemma table_part7: "eat (in_order sc_lines7) (sure prototypes6) = []"
  by code_simp

lemmas table_parts = table_part1 table_part2 table_part3 table_part4 table_part5 table_part6 table_part7

lemma prototypes_parts: "set (sure prototypes) = set (sure prototypes1) \<union> set (sure prototypes2) \<union> set (sure prototypes3) \<union>
    set (sure prototypes4) \<union> set (sure prototypes5) \<union> set (sure prototypes6) \<union> set (sure prototypes7)"
  by (simp add: sure_def prototypes_def image_Un Un_assoc)

lemma in_order_append: "in_order (ls @ ls') = in_order ls @ in_order ls'"
  by (simp add: in_order_def)

lemma eaten: "eat ns ds = [] \<Longrightarrow> set ns \<subseteq> set ds"
  using eat_set [of ns ds] by simp

lemma eaten2: "eat (eat ns ds) ds' = [] \<Longrightarrow> set ns \<subseteq> set ds \<union> set ds'"
  using eat_set [of ns ds] eaten [of "eat ns ds" ds'] by blast

lemma in_order_sure: "set (in_order sc_lines) \<subseteq> set (sure prototypes)"
  using eaten2 [OF table_part1] eaten2 [OF table_part2] eaten2 [OF table_part3] eaten [OF table_part4] eaten2 [OF table_part5]
    eaten2 [OF table_part6] eaten [OF table_part7]
  unfolding prototypes_parts sc_lines_def in_order_append set_append by blast

lemma moved_sure: "set moved \<subseteq> set (sure prototypes)"
proof -
  have "set (take 5 moved) \<subseteq> set (sure prototypes1)" "set (take 4 (drop 5 moved)) \<subseteq> set (sure prototypes2)"
    "set (take 1 (drop 9 moved)) \<subseteq> set (sure prototypes3)" "set (take 2 (drop 10 moved)) \<subseteq> set (sure prototypes4)"
    "set (take 4 (drop 12 moved)) \<subseteq> set (sure prototypes5)" "set (take 2 (drop 16 moved)) \<subseteq> set (sure prototypes6)"
    "set (drop 18 moved) \<subseteq> set (sure prototypes7)"
    by code_simp+
  then show ?thesis unfolding prototypes_parts moved_def by auto
qed

text \<open>The functions declared in a configuration.\<close>

definition declared :: "proto_config \<Rightarrow> string list" where
  "declared c = map fst (protos c)"

lemma declared_guard: "(g, f, ts) \<in> set prototypes \<Longrightarrow> proto_holds c g \<Longrightarrow> (f, ts) \<in> set (protos c)"
  by (force simp: protos_def)

lemma sure_declared: "set (sure prototypes) \<subseteq> set (declared c)"
  by (force simp: sure_def declared_def protos_def)

lemma conditional_protos:
  "(P_rt_sigaction, ''sys_rt_sigaction'', [C_int, Ptr ''struct sigaction'', Ptr ''struct sigaction'', Named ''size_t'']) \<in> set prototypes3"
  "(P_clone_b, ''sys_clone'', [C_ulong, C_ulong, Ptr ''int'', C_ulong, Ptr ''int'']) \<in> set prototypes5"
  "(P_clone_b3, ''sys_clone'', [C_ulong, C_ulong, C_int, Ptr ''int'', Ptr ''int'', C_ulong]) \<in> set prototypes5"
  "(P_clone_plain, ''sys_clone'', [C_ulong, C_ulong, Ptr ''int'', Ptr ''int'', C_ulong]) \<in> set prototypes5"
  "(P_split_arg64, ''sys_fanotify_mark'', [C_int, C_uint, C_uint, C_uint, C_int, Ptr ''char'']) \<in> set prototypes5"
  "(P_whole_arg64, ''sys_fanotify_mark'', [C_int, C_uint, Named ''u64'', C_int, Ptr ''char'']) \<in> set prototypes5"
  by (simp_all add: prototypes3_def prototypes5_def)

lemma prototypes_mem: "set prototypes3 \<subseteq> set prototypes" "set prototypes4 \<subseteq> set prototypes" "set prototypes5 \<subseteq> set prototypes"
  "set prototypes6 \<subseteq> set prototypes" "set prototypes7 \<subseteq> set prototypes"
  by (auto simp: prototypes_def)

lemmas conditional_mem = subsetD [OF prototypes_mem(1) conditional_protos(1)] conditional_protos(2-6) [THEN subsetD [OF prototypes_mem(3)]]

lemma declared_name: "(g, f, ts) \<in> set prototypes \<Longrightarrow> proto_holds c g \<Longrightarrow> f \<in> set (declared c)"
  using declared_guard [of g f ts c] unfolding declared_def by (metis fst_conv image_eqI list.set_map)

lemma conditional_declared:
  assumes "\<not> odd_rt_sigaction c"
  shows "set conditional \<subseteq> set (declared c)"
proof -
  note d = conditional_mem [THEN declared_name, where c = c]
  have "''sys_clone'' \<in> set (declared c)" using d(2-4) by auto
  moreover have "''sys_fanotify_mark'' \<in> set (declared c)" using d(5,6) by auto
  moreover have "''sys_rt_sigaction'' \<in> set (declared c)" using d(1) assms by simp
  ultimately show ?thesis by (simp add: conditional_def)
qed

lemma sc_entry_native64: "\<not> bits_32 c \<Longrightarrow> \<not> sc_compat c \<Longrightarrow> sc_entry c m = entry64 m"
  by (cases m) (simp_all add: sc_3264_def)

lemma native64_functions:
  assumes "\<not> bits_32 c" "\<not> sc_compat c" "sc_slot c nr = Some f"
  shows "f \<in> set (in_order sc_lines) \<union> set moved \<union> set conditional \<union> set undeclared"
proof -
  obtain g nm m where m: "(g, nm, nr, m) \<in> set sc_lines" "guard_holds c g" "f = entry64 m"
    using assms by (auto simp: sc_slot_iff sc_table_line sc_entry_native64)
  moreover have "g \<noteq> G_32bit" using m(2) assms(1) by auto
  ultimately show ?thesis by (force simp: in_order_def)
qed

text \<open>The calls of the repository have the types that the header declares.\<close>

lemma defines_protos:
  "(P_always, ''sys_write_kv'', [C_int, C_int]) \<in> set prototypes4" "(P_always, ''sys_read_kv'', [C_int]) \<in> set prototypes4"
  "(P_always, ''sys_set_tid_address'', [Ptr ''int'']) \<in> set prototypes3" "(P_always, ''sys_unshare'', [C_ulong]) \<in> set prototypes3"
  "(P_always, ''sys_clone3'', [Ptr ''struct clone_args'', Named ''size_t'']) \<in> set prototypes5"
  "(P_always, ''sys_fork'', []) \<in> set prototypes7" "(P_always, ''sys_vfork'', []) \<in> set prototypes7"
  by (simp_all add: prototypes3_def prototypes4_def prototypes5_def prototypes7_def)

lemmas defines_mem = defines_protos(1,2) [THEN subsetD [OF prototypes_mem(2)]] defines_protos(3,4) [THEN subsetD [OF prototypes_mem(1)]]
  subsetD [OF prototypes_mem(3) defines_protos(5)] defines_protos(6,7) [THEN subsetD [OF prototypes_mem(5)]]

lemma clone_define_declared: "\<not> (clone_backwards2 c \<and> clone_backwards3 c) \<Longrightarrow> clone_define c \<in> set (protos c)"
  using conditional_mem(2-4) [THEN declared_guard, where c = c] by (auto simp: clone_define_def)

lemma sys_defines_declared:
  assumes "\<not> (clone_backwards2 c \<and> clone_backwards3 c)"
  shows "set (sys_defines c) - {fairness_define} \<subseteq> set (protos c)"
  using defines_mem [THEN declared_guard, where c = c] clone_define_declared [OF assms]
  by (simp add: sys_defines_def write_kv_define_def read_kv_define_def set_tid_address_define_def fork_define_def vfork_define_def clone3_define_def
    unshare_define_def) blast

text \<open>No prototype has the name of the call for socket limits, or too many arguments.\<close>

definition proto_ok :: "proto_guard \<times> proto \<Rightarrow> bool" where
  "proto_ok p \<longleftrightarrow> fst (snd p) \<noteq> ''sys_configure_socket_fairness'' \<and> length (snd (snd p)) \<le> SYSCALL_DEFINE_MAXARGS"

lemma prototypes1_ok: "list_all proto_ok prototypes1"
  by code_simp

lemma prototypes2_ok: "list_all proto_ok prototypes2"
  by code_simp

lemma prototypes3_ok: "list_all proto_ok prototypes3"
  by code_simp

lemma prototypes4_ok: "list_all proto_ok prototypes4"
  by code_simp

lemma prototypes5_ok: "list_all proto_ok prototypes5"
  by code_simp

lemma prototypes6_ok: "list_all proto_ok prototypes6"
  by code_simp

lemma prototypes7_ok: "list_all proto_ok prototypes7"
  by code_simp

lemma prototypes_ok: "list_all proto_ok prototypes"
  by (simp add: prototypes_def prototypes1_ok prototypes2_ok prototypes3_ok prototypes4_ok prototypes5_ok prototypes6_ok
    prototypes7_ok)

lemma protos_ok: "(f, ts) \<in> set (protos c) \<Longrightarrow> f \<noteq> ''sys_configure_socket_fairness'' \<and> length ts \<le> SYSCALL_DEFINE_MAXARGS"
  using prototypes_ok by (force simp: protos_def list_all_iff proto_ok_def)

text \<open>
  C34: In a 64-bit configuration without its own \<open>rt_sigaction\<close>, the header declares every function that the
  system call table names, but \<open>sys_mmap\<close> and \<open>sys_rt_sigreturn\<close>, which an architecture provides, and
  \<open>sys_configure_socket_fairness\<close>, which the repository adds to the table without a prototype. Of the
  calls that the repository defines, all but that one are declared with the types of their definitions, and no prototype has
  more arguments than a system call can take.
\<close>

theorem table_functions_declared:
  assumes "\<not> bits_32 c" "\<not> sc_compat c" "\<not> odd_rt_sigaction c" "\<not> (clone_backwards2 c \<and> clone_backwards3 c)"
  shows "(\<forall>nr f. sc_slot c nr = Some f \<longrightarrow>
      f \<in> set (declared c) \<or> f \<in> {''sys_mmap'', ''sys_rt_sigreturn'', ''sys_configure_socket_fairness''}) \<and>
    sc_slot c 451 = Some ''sys_configure_socket_fairness'' \<and> ''sys_configure_socket_fairness'' \<notin> set (declared c) \<and>
    set (sys_defines c) - set (protos c) = {fairness_define} \<and> (\<forall>(f, ts) \<in> set (protos c). length ts \<le> SYSCALL_DEFINE_MAXARGS)"
proof (intro conjI allI impI)
  fix nr f assume "sc_slot c nr = Some f"
  from native64_functions [OF assms(1,2) this]
  show "f \<in> set (declared c) \<or> f \<in> {''sys_mmap'', ''sys_rt_sigreturn'', ''sys_configure_socket_fairness''}"
    using in_order_sure moved_sure sure_declared [of c] conditional_declared [OF assms(3)]
    unfolding undeclared_def by fastforce
next
  show "sc_slot c 451 = Some ''sys_configure_socket_fairness''" using sc_line7(3) by (force simp: sc_slot_iff sc_table_line)
  show "''sys_configure_socket_fairness'' \<notin> set (declared c)" using protos_ok [where c = c] by (fastforce simp: declared_def)
  show "\<forall>(f, ts) \<in> set (protos c). length ts \<le> SYSCALL_DEFINE_MAXARGS" using protos_ok [where c = c] by auto
  have "fairness_define \<in> set (sys_defines c) - set (protos c)"
    using protos_ok [where c = c] by (auto simp: sys_defines_def fairness_define_def)
  then show "set (sys_defines c) - set (protos c) = {fairness_define}" using sys_defines_declared [OF assms(4)] by blast
qed

definition proto_native64 :: proto_config where
  "proto_native64 = sc_config.extend sc_native64
    (proto_config.fields False False False False False False True False False False False False)"

theorem table_functions_declared_witness:
  "sc_slot proto_native64 449 = Some ''sys_write_kv'' \<and> ''sys_write_kv'' \<in> set (declared proto_native64) \<and>
   ''sys_configure_socket_fairness'' \<notin> set (declared proto_native64)"
proof -
  have c: "\<not> bits_32 proto_native64" "\<not> sc_compat proto_native64" "\<not> odd_rt_sigaction proto_native64"
    "\<not> (clone_backwards2 proto_native64 \<and> clone_backwards3 proto_native64)"
    by (simp_all add: proto_native64_def sc_native64_def sc_config.defs proto_config.defs)
  have s: "sc_slot proto_native64 449 = Some ''sys_write_kv''" using sc_line7(1) by (force simp: sc_slot_iff sc_table_line)
  note t = table_functions_declared [OF c]
  from conjunct1 [OF t, rule_format, OF s] have "''sys_write_kv'' \<in> set (declared proto_native64)" by simp
  then show ?thesis using s t by blast
qed

section \<open>Definition of a system call\<close>

text \<open>
  Sign and width of a type on a machine with 64-bit \<open>long\<close>; \<open>N\<close> gives those of the named types. A cast keeps
  the low bits of the register, extended as the type says (\<open>__SC_CAST\<close>).
\<close>

fun ctype_bits :: "(string \<Rightarrow> bool \<times> nat) \<Rightarrow> ctype \<Rightarrow> bool \<times> nat" where
  "ctype_bits N C_int = (True, 32)"
| "ctype_bits N C_uint = (False, 32)"
| "ctype_bits N C_long = (True, 64)"
| "ctype_bits N C_ulong = (False, 64)"
| "ctype_bits N (Ptr t) = (False, 64)"
| "ctype_bits N (Named t) = N t"

definition sc_cast :: "(string \<Rightarrow> bool \<times> nat) \<Rightarrow> ctype \<Rightarrow> u64 \<Rightarrow> u64" where
  "sc_cast N t r = (case ctype_bits N t of (sg, w) \<Rightarrow> if sg then signed_take_bit (w - 1) r else take_bit w r)"

text \<open>\<open>__se_sys_f\<close>: the body \<open>__do_sys_f\<close> on the cast arguments.\<close>

definition se_sys :: "(string \<Rightarrow> bool \<times> nat) \<Rightarrow> ctype list \<Rightarrow> (u64 list \<Rightarrow> 'r) \<Rightarrow> u64 list \<Rightarrow> 'r" where
  "se_sys N ts do_sys regs = do_sys (map2 (sc_cast N) ts regs)"

text \<open>A cast depends on the bits of the type only, and casting again changes nothing.\<close>

lemma sc_cast_low:
  assumes "0 < snd (ctype_bits N t)" "take_bit (snd (ctype_bits N t)) r = take_bit (snd (ctype_bits N t)) r'"
  shows "sc_cast N t r = sc_cast N t r'"
proof (cases "ctype_bits N t")
  case (Pair sg w)
  then have "w = Suc (w - 1)" using assms(1) by simp
  then show ?thesis using assms(2) Pair by (simp add: sc_cast_def) (metis signed_take_bit_eq_iff_take_bit_eq)
qed

lemma sc_cast_idem [simp]: "sc_cast N t (sc_cast N t r) = sc_cast N t r"
  by (cases "ctype_bits N t") (simp add: sc_cast_def)

text \<open>An \<open>int\<close> argument is the low half of its register, sign-extended.\<close>

lemma bit_sc_cast_int: "bit (sc_cast N C_int r) n \<longleftrightarrow> n < 64 \<and> bit r (min 31 n)"
  by (auto simp: sc_cast_def bit_signed_take_bit_iff min.commute possible_bit_word)

lemma ucast_sc_cast_int [simp]: "(ucast (sc_cast N C_int r) :: s32) = ucast r"
  by (rule bit_word_eqI) (simp add: bit_sc_cast_int bit_ucast_iff min_absorb2)

lemma sc_cast_int: "sc_cast N C_int r = scast (ucast r :: s32)"
  by (rule bit_word_eqI) (auto simp: bit_sc_cast_int bit_signed_iff bit_ucast_iff min_def)

lemma sc_cast_named32: "N t = (True, 32) \<Longrightarrow> sc_cast N (Named t) r = sc_cast N C_int r"
  by (simp add: sc_cast_def)

lemma sc_cast_ulong [simp]: "sc_cast N C_ulong r = r"
  by (simp add: sc_cast_def take_bit_word_eq_self)

text \<open>A 64-bit argument that a 32-bit machine passes in two registers (\<open>SC_ARG64\<close>, \<open>SC_VAL64\<close>).\<close>

definition SC_VAL64 :: "u32 \<Rightarrow> u32 \<Rightarrow> u64" where
  "SC_VAL64 lo hi = push_bit 32 (ucast hi) OR ucast lo"

lemma SC_VAL64_halves: "SC_VAL64 (ucast x) (ucast (drop_bit 32 x)) = x"
  by (rule bit_word_eqI) (auto simp: SC_VAL64_def bit_or_iff bit_push_bit_iff bit_ucast_iff bit_drop_bit_eq)

end
