(* ===== verification/Syscall_Dispatch.thy ===== *)
theory Syscall_Dispatch
  imports Syscall_Proto KV_Store Socket_Fairness
begin

text \<open>
  The way of a system call from the C wrapper to its handler: the wrappers of user/kv_syscall/kv.h and
  network/socket/socket_test.c pass a number and registers, the table names the function of the number, and
  the function casts the registers to the types of its definition. The entry code of the architecture, which
  is not part of the repository, is a parameter \<open>entry\<close> with the law that it calls the function which the
  table has in the slot of the number. The table is the one that the build makes, for an architecture with the generic header, of
  include/uapi/asm-generic/unistd.h, and for x86 of arch/x86/entry/syscalls/syscall_64.tbl.
\<close>

section \<open>Numbers of the calls\<close>

definition SYS_write_kv :: nat where
  "SYS_write_kv = 449"

definition SYS_read_kv :: nat where
  "SYS_read_kv = 450"

definition NR_configure_socket_fairness :: nat where
  "NR_configure_socket_fairness = 451"

text \<open>
  The entries of arch/x86/entry/syscalls/syscall_64.tbl from number 424 on, where the numbers are meant to be
  the same on all architectures.
\<close>

definition syscall_64_common :: "(nat \<times> string) list" where
  "syscall_64_common =
   [(424, ''sys_pidfd_send_signal''), (425, ''sys_io_uring_setup''), (426, ''sys_io_uring_enter''),
    (427, ''sys_io_uring_register''), (428, ''sys_open_tree''), (429, ''sys_move_mount''), (430, ''sys_fsopen''),
    (431, ''sys_fsconfig''), (432, ''sys_fsmount''), (433, ''sys_fspick''), (434, ''sys_pidfd_open''),
    (435, ''sys_clone3''), (436, ''sys_close_range''), (437, ''sys_openat2''), (438, ''sys_pidfd_getfd''),
    (439, ''sys_faccessat2''), (440, ''sys_process_madvise''), (441, ''sys_epoll_pwait2''), (442, ''sys_mount_setattr''),
    (443, ''sys_quotactl_fd''), (444, ''sys_landlock_create_ruleset''), (445, ''sys_landlock_add_rule''),
    (446, ''sys_landlock_restrict_self''), (447, ''sys_memfd_secret''), (448, ''sys_process_mrelease''),
    (449, ''sys_write_kv''), (450, ''sys_read_kv''), (451, ''sys_configure_socket_fairness'')]"

section \<open>The handlers behind the table\<close>

definition sys_write_kv :: "(string \<Rightarrow> bool \<times> nat) \<Rightarrow> kmalloc_fn \<Rightarrow> task_struct \<Rightarrow> u64 list \<Rightarrow> kheap \<Rightarrow> (int \<times> kheap) kres" where
  "sys_write_kv N kmalloc task = se_sys N [C_int, C_int] (\<lambda>a. write_kv kmalloc task (ucast (a ! 0)) (ucast (a ! 1)))"

definition sys_read_kv :: "(string \<Rightarrow> bool \<times> nat) \<Rightarrow> task_struct \<Rightarrow> u64 list \<Rightarrow> kheap \<Rightarrow> (int \<times> kheap) kres" where
  "sys_read_kv N task = se_sys N [C_int] (\<lambda>a. read_kv task (ucast (a ! 0)))"

definition sys_configure_socket_fairness ::
  "(string \<Rightarrow> bool \<times> nat) \<Rightarrow> fair_env \<Rightarrow> addr \<Rightarrow> u64 list \<Rightarrow> fair_state \<Rightarrow> int \<times> fair_state" where
  "sys_configure_socket_fairness N E cur = se_sys N [Named ''pid_t'', C_int, C_int]
     (\<lambda>a. configure_socket_fairness E cur (ucast (a ! 0)) (ucast (a ! 1)) (ucast (a ! 2)))"

definition kv_functions ::
  "(string \<Rightarrow> bool \<times> nat) \<Rightarrow> kmalloc_fn \<Rightarrow> task_struct \<Rightarrow> string \<rightharpoonup> (u64 list \<Rightarrow> kheap \<Rightarrow> (int \<times> kheap) kres)" where
  "kv_functions N kmalloc task = [''sys_write_kv'' \<mapsto> sys_write_kv N kmalloc task, ''sys_read_kv'' \<mapsto> sys_read_kv N task]"

definition fair_functions ::
  "(string \<Rightarrow> bool \<times> nat) \<Rightarrow> fair_env \<Rightarrow> addr \<Rightarrow> string \<rightharpoonup> (u64 list \<Rightarrow> fair_state \<Rightarrow> int \<times> fair_state)" where
  "fair_functions N E cur = [''sys_configure_socket_fairness'' \<mapsto> sys_configure_socket_fairness N E cur]"

text \<open>
  The law of the entry code for a table \<open>T\<close> and the functions \<open>F\<close> that act on one kind of state, and the tables that the
  build makes: one has the entries of the generic header, or one has those of the x86 list.
\<close>

definition entry_calls_slot ::
  "(nat \<rightharpoonup> string) \<Rightarrow> (string \<rightharpoonup> (u64 list \<Rightarrow> 's \<Rightarrow> 'r)) \<Rightarrow> (nat \<Rightarrow> u64 list \<Rightarrow> 's \<Rightarrow> 'r) \<Rightarrow> bool" where
  "entry_calls_slot T F entry \<longleftrightarrow>
    (\<forall>nr f h regs s. T nr = Some f \<and> F f = Some h \<longrightarrow> entry nr regs s = h regs s)"

definition built_table :: "'a sc_config_scheme \<Rightarrow> (nat \<rightharpoonup> string) \<Rightarrow> bool" where
  "built_table c T \<longleftrightarrow> sc_slot c \<subseteq>\<^sub>m T \<or> map_of syscall_64_common \<subseteq>\<^sub>m T"

section \<open>The wrappers over the entry code\<close>

text \<open>
  The wrappers of kv.h with the system call itself in the place of its handler; the upper half of a register
  that carries an \<open>int\<close> is arbitrary.
\<close>

definition kv_h_write_kv :: "(nat \<Rightarrow> u64 list \<Rightarrow> kheap \<Rightarrow> (int \<times> kheap) kres) \<Rightarrow> u64 \<Rightarrow> u64 \<Rightarrow> kheap \<Rightarrow> (int \<times> kheap) kres" where
  "kv_h_write_kv entry k v h = rbind (entry SYS_write_kv [k, v] h) (\<lambda>(r, h). Inr (fst (libc_syscall r), h))"

definition kv_h_read_kv :: "(nat \<Rightarrow> u64 list \<Rightarrow> kheap \<Rightarrow> (int \<times> kheap) kres) \<Rightarrow> u64 \<Rightarrow> kheap \<Rightarrow> (int \<times> kheap) kres" where
  "kv_h_read_kv entry k h = rbind (entry SYS_read_kv [k] h) (\<lambda>(r, h). Inr (fst (libc_syscall r), h))"

lemma own_slots: "sc_slot c SYS_write_kv = Some ''sys_write_kv''" "sc_slot c SYS_read_kv = Some ''sys_read_kv''"
  "sc_slot c NR_configure_socket_fairness = Some ''sys_configure_socket_fairness''"
  using sc_line7 by (force simp: sc_slot_iff sc_table_line SYS_write_kv_def SYS_read_kv_def NR_configure_socket_fairness_def)+

lemma own_slots_x64: "map_of syscall_64_common SYS_write_kv = Some ''sys_write_kv''" "map_of syscall_64_common SYS_read_kv = Some ''sys_read_kv''"
  "map_of syscall_64_common NR_configure_socket_fairness = Some ''sys_configure_socket_fairness''"
  by (simp_all add: syscall_64_common_def SYS_write_kv_def SYS_read_kv_def NR_configure_socket_fairness_def)

lemma built_slot:
  assumes "built_table c T" "sc_slot c nr = Some f" "map_of syscall_64_common nr = Some f"
  shows "T nr = Some f"
  using assms unfolding built_table_def map_le_def by (metis domI)

lemmas built_slots = built_slot [OF _ own_slots(1) own_slots_x64(1)] built_slot [OF _ own_slots(2) own_slots_x64(2)]
  built_slot [OF _ own_slots(3) own_slots_x64(3)]

lemma own_functions [simp]:
  "sys_write_kv N kmalloc task [k, v] = write_kv kmalloc task (ucast k) (ucast v)"
  "sys_read_kv N task [k] = read_kv task (ucast k)"
  by (simp_all add: sys_write_kv_def sys_read_kv_def se_sys_def)

lemma fair_function [simp]:
  "N ''pid_t'' = (True, 32) \<Longrightarrow>
   sys_configure_socket_fairness N E cur [p, m, l] = configure_socket_fairness E cur (ucast p) (ucast m) (ucast l)"
  by (simp add: sys_configure_socket_fairness_def se_sys_def sc_cast_named32)

lemma entry_slot:
  "entry_calls_slot T F entry \<Longrightarrow> T nr = Some f \<Longrightarrow> F f = Some h \<Longrightarrow> entry nr regs s = h regs s"
  unfolding entry_calls_slot_def by blast

lemma entry_own:
  assumes "built_table c T" "entry_calls_slot T (kv_functions N kmalloc task) entry"
  shows "entry SYS_write_kv [k, v] h = write_kv kmalloc task (ucast k) (ucast v) h"
    "entry SYS_read_kv [k] h = read_kv task (ucast k) h"
  by (simp_all add: entry_slot [OF assms(2) built_slots(1) [OF assms(1)]] entry_slot [OF assms(2) built_slots(2) [OF assms(1)]] kv_functions_def)

text \<open>
  C6: The key-value calls through the table. Let the table be built from the generic header in any configuration or from the list of x86, and let the
  entry code call the function in the slot of the number. Then the wrappers of kv.h are the handlers on the low halves of the registers
  with the library's treatment of errors. On a well-formed store and for an admissible key, a value written by one is read back by the
  other, also with a different upper half of the key's register, except that -1 comes back for the values from -4095 to -2, which the library
  takes for error numbers.
\<close>

theorem kv_calls_through_table:
  assumes "built_table c T" "entry_calls_slot T (kv_functions N kmalloc task) entry"
  shows "kv_h_write_kv entry k v h = user_write_kv kmalloc task (ucast k) (ucast v) h \<and>
    kv_h_read_kv entry k h = user_read_kv task (ucast k) h \<and>
    (\<forall>h' k'. kv_wf task h \<and> kv_key_ok (ucast k) \<and> fresh_alloc kmalloc \<and> ucast k' = (ucast k :: s32) \<and> kv_h_write_kv entry k v h = Inr (0, h') \<longrightarrow>
       kv_h_read_kv entry k' h' = Inr (if - 4095 \<le> sint (ucast v :: s32) \<and> sint (ucast v :: s32) \<le> - 2 then - 1
         else sint (ucast v :: s32), h'))"
proof -
  note e = entry_own [OF assms]
  have w: "kv_h_write_kv entry k v h = user_write_kv kmalloc task (ucast k) (ucast v) h" for k v h
    by (simp add: kv_h_write_kv_def user_write_kv_def e)
  have r: "kv_h_read_kv entry k h = user_read_kv task (ucast k) h" for k h by (simp add: kv_h_read_kv_def user_read_kv_def e)
  show ?thesis unfolding w r using user_kv_roundtrip [of task h "ucast k" kmalloc "ucast v"] by metis
qed

text \<open>An entry that looks the number up in the x86 table, and one write and read through it.\<close>

definition lookup_entry :: "(nat \<rightharpoonup> string) \<Rightarrow> (string \<rightharpoonup> (u64 list \<Rightarrow> kheap \<Rightarrow> (int \<times> kheap) kres)) \<Rightarrow>
    nat \<Rightarrow> u64 list \<Rightarrow> kheap \<Rightarrow> (int \<times> kheap) kres" where
  "lookup_entry T F nr regs h = (case Option.bind (T nr) F of Some f \<Rightarrow> f regs h | None \<Rightarrow> Inr (- 38, h))"

lemma lookup_entry_calls: "entry_calls_slot T F (lookup_entry T F)"
  by (simp add: entry_calls_slot_def lookup_entry_def)

theorem kv_calls_through_table_witness:
  "kv_h_read_kv (lookup_entry (map_of syscall_64_common) (kv_functions (\<lambda>_. (True, 32)) (kv_ex_alloc 3) kv_ex_task)) 0xFFFFFFFF00000005
     (kv_ex_written 7) = Inr (7, kv_ex_written 7)"
proof -
  let ?T = "map_of syscall_64_common" and ?F = "kv_functions (\<lambda>_. (True, 32)) (kv_ex_alloc 3) kv_ex_task"
  have b: "built_table sc_native64 ?T" by (simp add: built_table_def)
  note t = kv_calls_through_table [OF b lookup_entry_calls [of ?T ?F], where k = 5 and v = 7 and h = kv_ex_heap]
  have "kv_h_write_kv (lookup_entry ?T ?F) 5 7 kv_ex_heap = Inr (0, kv_ex_written 7)"
    using t by (simp add: user_write_kv_def kv_ex_write libc_syscall_def)
  then have "kv_wf kv_ex_task kv_ex_heap \<and> kv_key_ok (ucast (5 :: u64)) \<and> fresh_alloc (kv_ex_alloc 3) \<and>
      ucast (0xFFFFFFFF00000005 :: u64) = (ucast (5 :: u64) :: s32) \<and> kv_h_write_kv (lookup_entry ?T ?F) 5 7 kv_ex_heap = Inr (0, kv_ex_written 7)"
    using kv_ex_facts(1,2,4) by simp
  from t [THEN conjunct2, THEN conjunct2, rule_format, OF this] show ?thesis by simp
qed

text \<open>
  The same for the call that sets socket limits: the wrapper of socket_test.c reaches
  \<open>configure_socket_fairness\<close>.
\<close>

lemma fairness_call_through_table:
  assumes "built_table c T" "entry_calls_slot T (fair_functions N E cur) entry" "N ''pid_t'' = (True, 32)"
  shows "set_thread_socket_attrs E cur tid (ucast p) (ucast m) (ucast l) s =
    (case entry NR_configure_socket_fairness [if ucast p = (0 :: s32) then ucast tid else p, m, l] s of (r, s) \<Rightarrow> (libc_syscall r, s))"
proof -
  have "entry NR_configure_socket_fairness [p, m, l] s = configure_socket_fairness E cur (ucast p) (ucast m) (ucast l) s" for p m l s
    using assms(3) by (simp add: entry_slot [OF assms(2) built_slots(3) [OF assms(1)]] fair_functions_def)
  moreover have "ucast (ucast tid :: u64) = tid" by (rule ucast_up_ucast_id) (simp add: is_up)
  ultimately show ?thesis by (simp add: set_thread_socket_attrs_def Let_def)
qed

section \<open>The table of x86\<close>

text \<open>
  With the calls \<open>clone3\<close> and \<open>memfd_secret\<close> wanted, every entry of the x86 table from number 424 on is that of the
  generic table.
\<close>

fun line_gives :: "sc_line \<Rightarrow> nat \<Rightarrow> string \<Rightarrow> bool" where
  "line_gives (g, nm, n, SYSCALL h) nr f \<longleftrightarrow> h = f \<and> n = nr \<and> (g = Always \<or> g = G_clone3 \<or> g = G_memfd_secret)"
| "line_gives (g, nm, n, SC_COMP h cf) nr f \<longleftrightarrow> h = f \<and> n = nr \<and> g = Always"
| "line_gives _ nr f \<longleftrightarrow> False"

definition generic_line :: "sc_line list \<Rightarrow> nat \<times> string \<Rightarrow> bool" where
  "generic_line ls e \<longleftrightarrow> list_ex (\<lambda>l. line_gives l (fst e) (snd e)) ls"

lemma x64_common_lines: "list_all (generic_line (drop 48 sc_lines6)) (take 16 syscall_64_common)"
  "list_all (generic_line sc_lines7) (drop 16 syscall_64_common)"
  by code_simp+

lemma line_gives_entry:
  "line_gives (g, nm, n, m) nr f \<Longrightarrow> want_sys_clone3 c \<Longrightarrow> want_memfd_secret c \<Longrightarrow> \<not> sc_compat c \<Longrightarrow>
   guard_holds c g \<and> n = nr \<and> sc_entry c m = f"
  by (cases m) auto

lemma generic_line_slot:
  assumes "generic_line ls (nr, f)" "set ls \<subseteq> set sc_lines" "want_sys_clone3 c" "want_memfd_secret c" "\<not> sc_compat c"
  shows "sc_slot c nr = Some f"
proof -
  obtain g nm n m where l: "(g, nm, n, m) \<in> set sc_lines" "line_gives (g, nm, n, m) nr f"
    using assms(1,2) by (auto simp: generic_line_def list_ex_iff)
  from line_gives_entry [OF l(2) assms(3-5)] l(1) show ?thesis unfolding sc_slot_iff sc_table_line by blast
qed

lemma x64_common_agrees:
  assumes "want_sys_clone3 c" "want_memfd_secret c" "\<not> sc_compat c" "(nr, f) \<in> set syscall_64_common"
  shows "sc_slot c nr = Some f"
proof -
  have "generic_line (drop 48 sc_lines6) (nr, f) \<or> generic_line sc_lines7 (nr, f)"
    using assms(4) x64_common_lines set_append [of "take 16 syscall_64_common" "drop 16 syscall_64_common"]
    by (auto simp: list_all_iff)
  then show ?thesis using generic_line_slot [OF _ _ assms(1-3)] set_drop_subset [of 48 sc_lines6] by (auto simp: sc_lines_def)
qed

end
