(* ===== verification/Spec2Isabelle.thy ===== *)
theory Spec2Isabelle
  imports KV_Store KV_Concurrent KV_Tests KV_Module Acpi_Add Acpi_View Mytb_Reader Ramfs_Bind Ramfs_Flush Ramfs_Inode Ramfs_Mount
    Ramfs_Nommu Ramfs_Tests Vdso Boot_Params Task_State Thread_Flags Task_Pids Mm_Context Pidfd Fork_Correct Unshare Process_Tree Vfork
    Kernel_Clone Process_Count Thread_Limit Tcpdump Socket_Fairness Socket_Test Mmap_File Mmap_Test Mem_Pressure Xattr
    Syscall_Dispatch
begin

text \<open>
  This library verifies the code of an operating-systems course repository: extensions of Linux 5.15.178, two UEFI
  applications and a kernel module for a custom ACPI table, a packet capture tool, and exercises in user space. Paths
  below are relative to src/; \<open>K\<close> stands for kvm/linux-5.15.178.

  \<^bold>\<open>The program and its parts\<close>

  A process has a key-value store in its \<open>task_struct\<close>, reached by two system calls (K/kernel/kv_store.c) with
  wrappers in user/kv_syscall/kv.h; process creation (K/kernel/fork.c) makes it or shares it, and the end of a task frees it. The
  same \<open>task_struct\<close> can be read from user space through the mapping \<open>[vtask]\<close> beside the vDSO (K/arch/x86/entry/vdso/vma.c and
  vget_task_struct_info.c), and has the limits that the system call \<open>configure_socket_fairness\<close> sets. The RAM file system
  (K/fs/ramfs) can be bound to a directory on disk through \<open>/proc/fs/ramfs/bind\<close> and copies its files there. The UEFI
  application MyAddAcpi installs an ACPI table, MyAcpiView lists the tables, and the module mytb_reader shows the table in sysfs.
  The network part captures packets into a buffer and prints them.

  \<^bold>\<open>Theories and the code they model\<close>

  \<^item> \<open>Kernel_Prelude\<close>: C integers as words, error numbers, the result type of code that may fault (\<open>kres\<close>: an
    access outside of an object, through a null or dangling pointer is a value), checked array accesses, index loops. \<open>Bytes\<close>:
    little-endian buffers and C strings. \<open>Transition_System\<close>: the two interfaces of all step relations, invariance and
    termination. \<open>Task_Struct\<close>: the fields of \<open>task_struct\<close> that the modelled code uses.
  \<^item> \<open>KV_Store\<close>: \<open>write_kv\<close>, \<open>read_kv\<close>, \<open>init_task_kv_store\<close>, \<open>cleanup_task_kv_store\<close> and the part of \<open>copy_process\<close>
    that calls them, on an explicit heap of bucket arrays, nodes and spin locks; the contract is the locale \<open>kv_server\<close> (requests are answered as by
    a map), interpreted on the system calls. \<open>KV_Concurrent\<close>: the system calls, with any keys, as steps of many threads. \<open>KV_Tests\<close>
    and \<open>KV_Module\<close>: the two test programs of the exercise; loading the module, its threads and unloading it are steps of one system.
  \<^item> \<open>Clone_Args\<close>, \<open>Mm_Struct\<close>, \<open>Thread_Stack\<close>, \<open>Fork_Task\<close>, \<open>Fork_Process\<close>: the arguments of the creating system calls, address
    spaces, kernel stacks, the copying functions and \<open>copy_process\<close> with all of its error labels. \<open>Fork_Undo\<close>, \<open>Fork_Stages\<close>,
    \<open>Fork_Correct\<close>: their proofs, label by label and stage by stage. \<open>Kernel_Clone\<close>: \<open>kernel_clone\<close>, the system calls on it, the
    release of tasks and the access to their address spaces. \<open>Vfork\<close>: the hand-over between a \<open>vfork\<close> parent and its child as
    interleaved steps. \<open>Unshare\<close>, \<open>Process_Tree\<close>, \<open>Thread_Limit\<close>, \<open>Process_Count\<close>, \<open>Pidfd\<close>: further parts of fork.c. \<open>Task_State\<close>,
    \<open>Thread_Flags\<close>: inline functions of K/include/linux/sched.h. \<open>Task_Pids\<close>: the pids that \<open>copy_process\<close> enters, and the functions of sched.h that
    read them. \<open>Mm_Context\<close>: K/arch/x86/include/asm/mmu.h and mmu_context.h.
  \<^item> \<open>Vdso\<close>: page-fault handlers, the mapping of the three areas, random addresses, time namespaces, and reading the
    \<open>task_struct\<close> from user space through the faults this causes. \<open>Boot_Params\<close>: the parameters \<open>vdso=\<close> and \<open>coredump_filter=\<close>, the check of the
    images, and the checks of an address space that is freed.
  \<^item> \<open>Ramfs_Bind\<close>, \<open>Ramfs_Flush\<close>, \<open>Ramfs_Inode\<close>, \<open>Ramfs_Mount\<close> (K/fs/ramfs/inode.c, file-mmu.c), \<open>Ramfs_Nommu\<close> (file-nommu.c),
    \<open>Ramfs_Tests\<close> (os-2024-exercise/ch4-fs/ch4_3).
  \<^item> \<open>Acpi_Add\<close> (edk2/MyAddAcpiPkg), \<open>Acpi_View\<close> (edk2/MyAcpiViewPkg), \<open>Mytb_Reader\<close> (K/drivers/acpi/mytb_reader.c).
  \<^item> \<open>Tcpdump\<close> (network/tcpdump), \<open>Socket_Fairness\<close> and \<open>Socket_Test\<close> (K/kernel/configure_socket_fairness.c, network/socket/socket_test.c),
    \<open>Mmap_File\<close> and \<open>Mmap_Test\<close> (os-2024-exercise/ch3-mm/ch3_1), \<open>Mem_Pressure\<close> (ch3_3), \<open>Xattr\<close> (ch4-fs/ch4_1).

  \<^item> \<open>Syscall_Table\<close> (K/include/uapi/asm-generic/unistd.h), \<open>Syscall_Proto\<close> (K/include/linux/syscalls.h) and \<open>Syscall_Dispatch\<close>: the table
    of system calls in every configuration, their prototypes and the macros that define a call, and the way from the wrappers through the
    table to the handlers of the repository.

  State is a record with one field for each variable or object of the code that an operation changes, and an operation is a
  function that returns its result and the new state, each early return and \<open>goto\<close> a branch. Resources whose content does not matter (references,
  locks, charges) are tokens of a multiset. Machine integers keep their width; pointers are natural
  numbers with 0 for \<open>NULL\<close>; an error of the kernel is a negative number, a fault a value of \<open>kres\<close>.

  \<^bold>\<open>What the lemmas show\<close>

  \<^item> Process creation: a failing \<open>copy_process\<close> gives back what it took, at whichever of its steps it fails, but for the key-value arrays
    of the child; a successful one makes the child that the flags ask for; given memory, it succeeds exactly when its checks pass. \<open>kernel_clone\<close>, \<open>unshare\<close>,
    \<open>dup_mm\<close> and the stack cache have contracts of the same kind. The \<open>vfork\<close> hand-over is safe and ends in every interleaving. Contexts of
    address spaces have unique identifiers and own their descriptor tables. The identifiers in a task agree with its pids, and the number of
    processes is the sum of counters that wrap.
  \<^item> The key-value store refines a map, one request after the other and concurrently (linearizability), does not deadlock,
    and is isolated between processes; \<open>fork_store_contract\<close> at the end of this theory joins this to the whole of \<open>copy_process\<close>.
  \<^item> ramfs: the parser of the bind file agrees with its specification and stays in bounds; a flush that returns has written the exact content or
    leaves all but the temporary file as it was, and releases what it took; operation tables fit the type of the file in every reachable
    tree; the options of a mount have one owner from the first call on the context to the unmount.
  \<^item> What the firmware writes into the table is what sysfs shows; what a capture stores is what is printed; a directory bound through the bind
    file, and bytes written through a mapping or an attribute, are what is read back.
  \<^item> System calls: in every configuration each slot of the table has one entry, the functions it names are declared with three exceptions, and the wrappers for
    the key-value store reach their handlers whatever the upper halves of the registers are.
  \<^item> Defects are theorems too: a lost error of the address search, leaks on error paths, reads behind a table without
    terminator, a \<open>[vtask]\<close> page that shows the task that faulted first to all others, a test module that cannot
    be unloaded once its threads have ended.

  \<^bold>\<open>Loops, bounds and parameters\<close>

  Loops over data are structural or have a measure. Two may run forever and are partial functions into \<open>option\<close>: the copy loop of a flush,
  which is shown to return when writes make progress and to diverge when they do not, and the walk over the process tree,
  shown to return on every finite tree. There is no fuel. Arithmetic that may wrap is on words; hypotheses that
  exclude wrapping are stated (an address that fits, fewer than \<open>2 ^ 64\<close> identifiers).
  Code outside of the sources is a parameter: allocators, the page cache, the memory manager's and the firmware's services, user
  memory, other subsystems called by \<open>copy_process\<close>. What is relied on is a named predicate (\<open>fresh_alloc\<close>, \<open>install_law\<close>,
  \<open>nommu_laws\<close>, \<open>ldt_law\<close>, \<open>xattr_laws\<close>, \<open>get_tree_ok\<close>, \<open>pid_lookup\<close>, \<open>write_progress\<close>, and others), and a witness instantiates it.
  The configuration is that of a 64-bit SMP kernel with \<open>CONFIG_VMAP_STACK\<close>, 4 KiB pages and the 32-bit compatibility of the vDSO.

  \<^bold>\<open>Not modelled\<close>

  Declarations without behaviour (most of sched.h, linker scripts, the x86 system call table below number 424); tracing metadata of system calls; code under other configurations (slab and page-sized kernel stacks, nested \<open>ifdef\<close> branches); creation of slab caches at
  boot and debugging hooks. The effect of the GPU programs and of the socket benchmark (network/nccl) is that of NCCL, CUDA and MPI calls on
  floating-point data, and a measured time: there is no code of their own to verify. The tests of os-2024-exercise/ch3-mm/ch3_2 call the kernel
  function \<open>ramfs_file_flush\<close> from user space and cannot be linked. HelloWorld prints a line. The programs in Python, C++ and shell are outside the
  C sources; what the C++ test of the vDSO expects is compared with the lemmas on \<open>fork_vm\<close>.
\<close>

section \<open>Process creation and the key-value store\<close>

lemma write_kv_cong:
  assumes "kv_store t = kv_store c" "kv_locks t = kv_locks c"
  shows "write_kv km t k v h = write_kv km c k v h"
  unfolding write_kv_def assms ..

lemma read_kv_cong:
  assumes "kv_store t = kv_store c" "kv_locks t = kv_locks c"
  shows "read_kv t k h = read_kv c k h"
  unfolding read_kv_def assms ..

text \<open>A pointer that is \<open>NULL\<close> makes every call on the store fault, whatever the key.\<close>

lemma kv_null_faults:
  assumes "kv_store t = NULL \<or> kv_locks t = NULL"
  shows "(\<exists>e. write_kv km t k v h = Inl e) \<and> (\<exists>e. read_kv t k h = Inl e)"
proof (cases "spin_lock (kv_locks t) (kv_bucket k) h")
  case (Inl e)
  then show ?thesis by (simp add: write_kv_def read_kv_def Let_def)
next
  case (Inr h1)
  then have "kv_store t = NULL" using assms by (auto simp: spin_lock_def kfault_simps)
  then show ?thesis using Inr by (simp add: write_kv_def read_kv_def Let_def kfault_simps)
qed

text \<open>The pointers of a child whose store could not be allocated.\<close>

lemma new_store_null:
  assumes "new_store E h t" "fst (init_task_kv_store (cp_kmalloc1 E) (cp_kv_junk1 E) (cp_kmalloc2 E) (cp_kv_junk2 E) t h) \<noteq> 0"
  shows "kv_store t = NULL \<or> kv_locks t = NULL"
  using assms by (auto simp: new_store_def init_task_kv_store_def Let_def split: option.splits)

text \<open>The store of a child for which both arrays were allocated.\<close>

lemma new_store_init:
  assumes km: "fresh_alloc (cp_kmalloc1 E)" "fresh_alloc (cp_kmalloc2 E)" and len: "length (cp_kv_junk1 E) = 1024" "length (cp_kv_junk2 E) = 1024"
    and new: "new_store E h t" and ok: "fst (init_task_kv_store (cp_kmalloc1 E) (cp_kv_junk1 E) (cp_kmalloc2 E) (cp_kv_junk2 E) t h) = 0"
    and fl: "\<not> has fl CLONE_THREAD"
  shows "copy_process_kv False (cp_kmalloc1 E) (cp_kv_junk1 E) (cp_kmalloc2 E) (cp_kv_junk2 E) c t h = (t, kv_heap_after E fl h)"
proof -
  obtain st lk where al: "cp_kmalloc1 E h = Some st" "cp_kmalloc2 E (h(st \<mapsto> KBuckets (replicate 1024 []))) = Some lk"
    using ok fill_loop_length [OF len(1)] by (auto simp: init_task_kv_store_def Let_def split: option.splits)
  then have kv: "kv_store t = st" "kv_locks t = lk" using new fill_loop_length [OF len(1)] by (auto simp: new_store_def)
  have self: "t\<lparr>kv_store := st, kv_locks := lk\<rparr> = t" using kv by (cases t) simp
  show ?thesis
    using init_task_kv_store_ok [OF km len al, of t] init_task_kv_store_ok [OF km len al, of task_zero] fl
    unfolding self by (simp add: copy_process_kv_def kv_heap_after_def)
qed

text \<open>
  C5: a process that was created uses the key-value store. Let the whole of \<open>copy_process\<close> succeed for a caller whose store is well-formed.
  If the child is a thread, its requests with admissible keys are answered by the store of the group, and the caller sees what it writes. If it is
  a new process and both arrays of its store could be allocated, whatever it writes and reads under admissible keys is answered as by a map that was
  empty at first, and the store of its parent does not change. If one of the arrays could not be allocated, the child exists all the same and every
  key-value call it makes, under any key, faults.
\<close>

theorem fork_store_contract:
  assumes pre: "fork_pre E args cur c s" and run: "copy_process E idle args cur s = (Inr q, s')"
    and wf: "kv_wf c (kvheap s)" and km: "fresh_alloc (cp_kmalloc1 E)" "fresh_alloc (cp_kmalloc2 E)"
    and len: "length (cp_kv_junk1 E) = 1024" "length (cp_kv_junk2 E) = 1024"
    and reqs: "\<forall>req \<in> set reqs. kv_key_ok (req_key req) \<and> req_alloc_ok fresh_alloc req"
  shows "\<exists>t. tasks s' q = Some t \<and>
    (if has (arg_flags args) CLONE_THREAD
     then \<exists>rs h. kv_run (\<lambda>km k v. write_kv km t k v) (read_kv t) reqs (kvheap s') = Inr (rs, h) \<and> kv_wf c h \<and>
       kv_store t = kv_store c \<and> kv_spec_run (kv_lookup (kv_store c) (kvheap s)) reqs rs (kv_lookup (kv_store c) h)
     else if fst (init_task_kv_store (cp_kmalloc1 E) (cp_kv_junk1 E) (cp_kmalloc2 E) (cp_kv_junk2 E) t (kvheap s)) = 0
     then \<exists>rs h. kv_run (\<lambda>km k v. write_kv km t k v) (read_kv t) reqs (kvheap s') = Inr (rs, h) \<and> kv_wf c h \<and>
       kv_spec_run Map.empty reqs rs (kv_lookup (kv_store t) h) \<and> kv_lookup (kv_store c) h = kv_lookup (kv_store c) (kvheap s)
     else \<forall>km k v h. (\<exists>e. write_kv km t k v h = Inl e) \<and> (\<exists>e. read_kv t k h = Inl e))"
proof -
  obtain nr fd s1 where l: "fork_linked E idle args cur c s nr fd s1" "copy_process E idle args cur s = cp_link E idle args cur (cp_task E) nr fd s1"
    using copy_process_cases [OF pre, of idle] run by auto
  note r = linked_child [OF pre l(1) l(2) [symmetric, unfolded run]]
  then obtain t where t: "tasks s' q = Some t" "child_fields E args cur c s nr t" by auto
  have K: "kvheap s' = kv_heap_after E (arg_flags args) (kvheap s)" using r by blast
  show ?thesis
  proof (cases "has (arg_flags args) CLONE_THREAD")
    case True
    then have same: "kv_store t = kv_store c" "kv_locks t = kv_locks c" using t(2) by (auto simp: child_fields_def Let_def)
    have heap: "kvheap s' = kvheap s" using K True by (simp add: kv_heap_after_def)
    have "(\<lambda>km k v. write_kv km t k v) = (\<lambda>km k v. write_kv km c k v)" "read_kv t = read_kv c"
      using write_kv_cong [OF same] read_kv_cong [OF same] by (simp_all add: fun_eq_iff)
    then show ?thesis using t(1) heap True same(1) kv.run_refines [OF wf reqs] by auto
  next
    case False
    then have new: "new_store E (kvheap s) t" using t(2) by (simp add: child_fields_def Let_def)
    show ?thesis
    proof (cases "fst (init_task_kv_store (cp_kmalloc1 E) (cp_kv_junk1 E) (cp_kmalloc2 E) (cp_kv_junk2 E) t (kvheap s)) = 0")
      case ok: True
      note cp = new_store_init [OF km len new ok False, of c, folded K]
      from forked_store_isolated [OF wf km len cp ok reqs] show ?thesis using t(1) False ok by auto
    next
      case bad: False
      then show ?thesis using t(1) False kv_null_faults [OF new_store_null [OF new bad]] by auto
    qed
  qed
qed

text \<open>A process with the empty store of the examples, which calls \<open>vfork\<close>.\<close>

definition span_parent :: task_struct where
  "span_parent = example_parent\<lparr>kv_store := 1, kv_locks := 2\<rparr>"

definition span_state :: fork_state where
  "span_state = example_fork_state\<lparr>tasks := [8 \<mapsto> span_parent], kvheap := kv_ex_heap\<rparr>"

lemma span_pre: "fork_pre example_cp_env vfork_args 8 span_parent span_state"
  using example_pre unfolding fork_pre_def parent_ok_def cp_env_ok_def kthread_ok_def
  by (simp add: span_state_def span_parent_def example_fork_state_def stack_inv_def stacks_used_def the_signal_def the_task_def)

lemma span_forks: "\<exists>s'. copy_process example_cp_env False vfork_args 8 span_state = (Inr 64, s')"
proof -
  have "cp_guards example_cp_env False vfork_args span_parent span_state"
    using example_succeeds(2) by (simp add: cp_guards_def span_state_def span_parent_def)
  from copy_process_succeeds_aux [OF example_succeeds(1) this span_pre]
  show ?thesis unfolding example_succeeds(3) by (metis prod.collapse)
qed

theorem fork_store_contract_witness:
  "\<exists>s' t rs h. copy_process example_cp_env False vfork_args 8 span_state = (Inr 64, s') \<and> tasks s' 64 = Some t \<and>
     kv_run (\<lambda>km k v. write_kv km t k v) (read_kv t) [Put (kv_ex_alloc 3) 5 7, Get 5] (kvheap s') = Inr (rs, h) \<and>
     kv_spec_run Map.empty [Put (kv_ex_alloc 3) 5 7, Get 5] rs (kv_lookup (kv_store t) h) \<and>
     kv_lookup 1 h = kv_lookup 1 kv_ex_heap"
proof -
  obtain s' where run: "copy_process example_cp_env False vfork_args 8 span_state = (Inr 64, s')" using span_forks by blast
  have k: "kv_store span_parent = kv_store kv_ex_task" "kv_locks span_parent = kv_locks kv_ex_task" "kvheap span_state = kv_ex_heap"
    by (simp_all add: span_parent_def kv_ex_task_def span_state_def)
  have wf: "kv_wf span_parent (kvheap span_state)" using kv_ex_facts(1) k by (simp add: kv_wf_def)
  have e: "fresh_alloc (cp_kmalloc1 example_cp_env)" "fresh_alloc (cp_kmalloc2 example_cp_env)" "length (cp_kv_junk1 example_cp_env) = 1024"
    "length (cp_kv_junk2 example_cp_env) = 1024"
    by (simp_all add: example_cp_env_def fresh_alloc_def example_alloc_def)
  have i: "fst (init_task_kv_store (cp_kmalloc1 example_cp_env) (cp_kv_junk1 example_cp_env) (cp_kmalloc2 example_cp_env) (cp_kv_junk2 example_cp_env)
      t kv_ex_heap) = 0" for t
    by (simp add: init_task_kv_store_def example_cp_env_def example_alloc_def kv_ex_heap_def Let_def)
  have q: "\<forall>req \<in> set [Put (kv_ex_alloc 3) 5 7, Get 5]. kv_key_ok (req_key req) \<and> req_alloc_ok fresh_alloc req"
    using kv_ex_facts by simp
  have nt: "\<not> has (arg_flags vfork_args) CLONE_THREAD" by (simp add: vfork_args_def clone_args_zero_def has_def)
  have one: "kv_store span_parent = 1" by (simp add: span_parent_def)
  from fork_store_contract [OF span_pre run wf e q] show ?thesis
    unfolding if_not_P [OF nt] one k(3) if_P [OF i] using run by blast
qed

end
